(* ===== verification/Prelude.thy ===== *)
theory Prelude
  imports Main "HOL-Library.Word"
begin

text \<open>
  Shared vocabulary of the development: the machine types, Rust's slice
  operations on lists (\<open>chunks\<close>, \<open>copy_from_slice\<close>), the byte encodings of
  integers, and the collections of rewrite rules the component theories use.
  Nothing here models a function of the repository.
\<close>

unbundle bit_operations_syntax

section \<open>Machine types\<close>

type_synonym u8 = "8 word"
type_synonym u16 = "16 word"
type_synonym u32 = "32 word"
type_synonym u64 = "64 word"
type_synonym u128 = "128 word"
type_synonym i16 = "16 word"
type_synonym i32 = "32 word"
type_synonym i64 = "64 word"
type_synonym bytes = "8 word list"

named_theorems byte_simps \<open>lengths and values of byte encodings\<close>
named_theorems slice_simps \<open>slice reads and writes on lists\<close>

section \<open>Slices\<close>

text \<open>
  \<open>write_at p src out\<close> is \<open>out[p..p + src.len()].copy_from_slice(src)\<close>, for a
  range inside \<open>out\<close> (Rust panics outside it; every use is inside).
  \<open>slice p n xs\<close> is \<open>&xs[p..p + n]\<close>.
\<close>

definition write_at :: "nat \<Rightarrow> 'a list \<Rightarrow> 'a list \<Rightarrow> 'a list" where
  "write_at p src out = take p out @ src @ drop (p + length src) out"

definition slice :: "nat \<Rightarrow> nat \<Rightarrow> 'a list \<Rightarrow> 'a list" where
  "slice p n xs = take n (drop p xs)"

lemma length_write_at [simp, slice_simps]:
  "p + length src \<le> length out \<Longrightarrow> length (write_at p src out) = length out"
  by (simp add: write_at_def)

lemma length_slice [simp, slice_simps]:
  "p + n \<le> length xs \<Longrightarrow> length (slice p n xs) = n"
  by (simp add: slice_def)

lemma slice_append_left [slice_simps]:
  "p + n \<le> length xs \<Longrightarrow> slice p n (xs @ ys) = slice p n xs"
  by (simp add: slice_def)

lemma slice_append_right [slice_simps]:
  "length xs \<le> p \<Longrightarrow> slice p n (xs @ ys) = slice (p - length xs) n ys"
  by (simp add: slice_def)

lemma slice_all [slice_simps]: "slice 0 (length xs) xs = xs"
  by (simp add: slice_def)

lemma write_at_0: "write_at 0 src out = src @ drop (length src) out"
  by (simp add: write_at_def)

lemma write_at_append:
  "length xs = p \<Longrightarrow> write_at p src (xs @ ys) = xs @ src @ drop (length src) ys"
  by (simp add: write_at_def)

text \<open>
  A loop that writes the \<open>k\<close>-byte block of each item at its own offset fills the
  front of the buffer with the blocks in order. The loops of the codecs, of key
  wrapping and of secret splitting have this form.
\<close>

definition write_blocks ::
  "nat \<Rightarrow> ('a \<Rightarrow> 'b list) \<Rightarrow> 'a list \<Rightarrow> 'b list \<Rightarrow> 'b list" where
  "write_blocks k f xs out = fold (\<lambda>(i, x). write_at (i * k) (f x)) (enumerate 0 xs) out"

lemma write_blocks_gen:
  assumes "\<And>x. x \<in> set xs \<Longrightarrow> length (f x) = k" and "length pre = n * k"
    and "length xs * k \<le> length rest"
  shows "fold (\<lambda>(i, x). write_at (i * k) (f x)) (enumerate n xs) (pre @ rest)
       = pre @ concat (map f xs) @ drop (length xs * k) rest"
  using assms
proof (induction xs arbitrary: n pre rest)
  case Nil
  then show ?case by simp
next
  case (Cons x xs)
  have lf: "length (f x) = k" using Cons.prems(1) by simp
  have "write_at (n * k) (f x) (pre @ rest) = (pre @ f x) @ drop k rest"
    using Cons.prems(2) lf by (simp add: write_at_append)
  moreover have "fold (\<lambda>(i, x). write_at (i * k) (f x)) (enumerate (Suc n) xs)
        ((pre @ f x) @ drop k rest)
      = (pre @ f x) @ concat (map f xs) @ drop (length xs * k) (drop k rest)"
    by (rule Cons.IH) (use Cons.prems lf in auto)
  ultimately show ?case by (simp add: add.commute)
qed

lemma write_blocks_eq:
  assumes "\<And>x. x \<in> set xs \<Longrightarrow> length (f x) = k" and "length xs * k \<le> length out"
  shows "write_blocks k f xs out = concat (map f xs) @ drop (length xs * k) out"
  using write_blocks_gen [where n = 0 and pre = "[]" and rest = out, OF assms(1) _ assms(2)]
  by (simp add: write_blocks_def)

section \<open>Chunks\<close>

text \<open>Rust's \<open>xs.chunks(k)\<close> for \<open>k > 0\<close>: the last chunk may be short.\<close>

function chunks :: "nat \<Rightarrow> 'a list \<Rightarrow> 'a list list" where
  "chunks k xs = (if xs = [] \<or> k = 0 then [] else take k xs # chunks k (drop k xs))"
  by pat_completeness auto
termination
  by (relation "measure (\<lambda>(k, xs). length xs)") auto

declare chunks.simps [simp del]

lemma chunks_Nil [simp]: "chunks k [] = []"
  by (simp add: chunks.simps)

lemma chunks_step: "xs \<noteq> [] \<Longrightarrow> 0 < k \<Longrightarrow> chunks k xs = take k xs # chunks k (drop k xs)"
  by (simp add: chunks.simps [of k xs])

lemma concat_chunks: "0 < k \<Longrightarrow> concat (chunks k xs) = xs"
proof (induction k xs rule: chunks.induct)
  case (1 k xs)
  then show ?case by (cases "xs = []") (simp_all add: chunks.simps [of k xs])
qed

lemma chunks_append:
  assumes "length xs = k" "0 < k"
  shows "chunks k (xs @ ys) = xs # chunks k ys"
  using assms by (subst chunks_step) auto

lemma chunks_concat:
  assumes "\<forall>x \<in> set xss. length x = k" "0 < k"
  shows "chunks k (concat xss) = xss"
  using assms by (induction xss) (simp_all add: chunks_append)

lemma length_chunks_exact:
  assumes "length xs = n * k" "0 < k"
  shows "length (chunks k xs) = n"
  using assms
proof (induction n arbitrary: xs)
  case 0
  then show ?case by simp
next
  case (Suc n)
  then have "xs \<noteq> []" by auto
  with Suc.prems have "length (chunks k xs) = Suc (length (chunks k (drop k xs)))"
    by (simp add: chunks_step)
  with Suc.IH [of "drop k xs"] Suc.prems show ?case by simp
qed

lemma chunks_exact_lengths:
  assumes "length xs = n * k" "0 < k" "c \<in> set (chunks k xs)"
  shows "length c = k"
  using assms
proof (induction n arbitrary: xs)
  case 0
  then show ?case by simp
next
  case (Suc n)
  then have "xs \<noteq> []" by auto
  with Suc.prems have "c = take k xs \<or> c \<in> set (chunks k (drop k xs))"
    by (simp add: chunks_step)
  with Suc.IH [of "drop k xs"] Suc.prems show ?case by auto
qed

lemma nth_chunks:
  assumes "length xs = n * k" "0 < k" "i < n" "j < k"
  shows "chunks k xs ! i ! j = xs ! (i * k + j)"
  using assms
proof (induction n arbitrary: xs i)
  case 0
  then show ?case by simp
next
  case (Suc n)
  then have "chunks k xs = take k xs # chunks k (drop k xs)" by (intro chunks_step) auto
  with Suc show ?case by (cases i) (simp_all add: add.assoc)
qed

lemma length_chunks: "0 < n \<Longrightarrow> length (chunks n xs) = (length xs + n - 1) div n"
proof (induction n xs rule: chunks.induct)
  case (1 n xs)
  show ?case
  proof (cases "xs = []")
    case False
    have "(length xs + n - 1) div n = Suc ((length xs - n + n - 1) div n)"
    proof (cases "n \<le> length xs")
      case True
      then have "length xs + n - 1 = (length xs - n + n - 1) + n" using 1(2) by simp
      then show ?thesis using 1(2) by (metis Suc_eq_plus1 add_self_div_2 div_add_self2 less_not_refl)
    next
      case f: False
      then have "length xs + n - 1 = (length xs - 1) + n" "length xs - 1 < n"
        using False by (simp_all add: Suc_leI)
      moreover have "length xs - n + n - 1 < n" using f 1(2) by simp
      ultimately show ?thesis using 1(2) by (simp only: div_add_self2) simp
    qed
    then show ?thesis using 1 False by (simp add: chunks_step)
  qed (use 1 in simp)
qed

lemma chunks_length_le: "\<forall>c \<in> set (chunks n xs). length c \<le> n"
proof (induction n xs rule: chunks.induct)
  case (1 n xs)
  then show ?case by (cases "xs = [] \<or> n = 0") (simp_all add: chunks.simps [of n xs])
qed

lemma ceil_div_le: "0 < n \<Longrightarrow> (L + n - 1) div n \<le> (L :: nat)"
proof -
  assume n: "0 < n"
  have "L + n - 1 \<le> (n - 1) + L * n" using n by (cases n) simp_all
  then have "(L + n - 1) div n \<le> ((n - 1) + L * n) div n" by (rule div_le_mono)
  also have "\<dots> = L" using n div_mult_self1 [of n "n - 1" L] by simp
  finally show ?thesis .
qed

section \<open>Byte encodings of integers\<close>

text \<open>
  \<open>x.to_le_bytes()\<close> of an \<open>n\<close>-byte integer is \<open>le_bytes n (unat x)\<close>, and
  \<open>from_le_bytes\<close> is \<open>of_nat (le_val bs)\<close>; the big-endian forms reverse them.
\<close>

primrec le_bytes :: "nat \<Rightarrow> nat \<Rightarrow> bytes" where
  "le_bytes 0 k = []"
| "le_bytes (Suc n) k = of_nat (k mod 256) # le_bytes n (k div 256)"

primrec le_val :: "bytes \<Rightarrow> nat" where
  "le_val [] = 0"
| "le_val (b # bs) = unat b + 256 * le_val bs"

definition be_bytes :: "nat \<Rightarrow> nat \<Rightarrow> bytes" where
  "be_bytes n k = rev (le_bytes n k)"

definition be_val :: "bytes \<Rightarrow> nat" where
  "be_val bs = le_val (rev bs)"

lemma length_le_bytes [simp, byte_simps]: "length (le_bytes n k) = n"
  by (induction n arbitrary: k) auto

lemma length_be_bytes [simp, byte_simps]: "length (be_bytes n k) = n"
  by (simp add: be_bytes_def)

lemma unat_u8_bound: "unat (b :: u8) < 256"
  using unsigned_less [of b] by simp

lemma unat_of_nat_u8 [byte_simps]: "unat (of_nat k :: u8) = k mod 256"
  by (simp add: unat_of_nat)

lemma le_val_le_bytes [byte_simps]: "le_val (le_bytes n k) = k mod 256 ^ n"
proof (induction n arbitrary: k)
  case 0
  then show ?case by simp
next
  case (Suc n)
  have "le_val (le_bytes (Suc n) k) = k mod 256 + 256 * (k div 256 mod 256 ^ n)"
    by (simp add: Suc.IH unat_of_nat_u8)
  also have "\<dots> = k mod (256 * 256 ^ n)"
    by (simp add: mod_mult2_eq)
  finally show ?case by simp
qed

lemma le_val_bound: "le_val bs < 256 ^ length bs"
proof (induction bs)
  case Nil
  then show ?case by simp
next
  case (Cons b bs)
  have "unat b + 256 * le_val bs < 256 * Suc (le_val bs)"
    using unat_u8_bound [of b] by simp
  also have "\<dots> \<le> 256 * 256 ^ length bs"
    using Cons.IH by (simp del: mult_Suc_right)
  finally show ?case by simp
qed

lemma le_bytes_le_val [byte_simps]: "le_bytes (length bs) (le_val bs) = bs"
proof (induction bs)
  case Nil
  then show ?case by simp
next
  case (Cons b bs)
  have "(unat b + 256 * le_val bs) mod 256 = unat b"
    using unat_u8_bound [of b] by simp
  moreover have "(unat b + 256 * le_val bs) div 256 = le_val bs"
    using unat_u8_bound [of b] by simp
  ultimately show ?case using Cons.IH by simp
qed

lemma be_val_be_bytes [byte_simps]: "be_val (be_bytes n k) = k mod 256 ^ n"
  by (simp add: be_val_def be_bytes_def le_val_le_bytes)

lemma be_bytes_be_val [byte_simps]: "be_bytes (length bs) (be_val bs) = bs"
  using le_bytes_le_val [of "rev bs"] by (simp add: be_val_def be_bytes_def)

lemma be_val_bound: "be_val bs < 256 ^ length bs"
  using le_val_bound [of "rev bs"] by (simp add: be_val_def)

lemma le_val_append: "le_val (xs @ ys) = le_val xs + 256 ^ length xs * le_val ys"
  by (induction xs) (simp_all add: algebra_simps)

lemma be_val_Nil [simp]: "be_val [] = 0"
  by (simp add: be_val_def)

lemma be_val_Cons: "be_val (b # bs) = unat b * 256 ^ length bs + be_val bs"
  by (simp add: be_val_def le_val_append)

lemma le_bytes_inj:
  assumes "le_bytes n j = le_bytes n k" "j < 256 ^ n" "k < 256 ^ n"
  shows "j = k"
  using assms by (metis le_val_le_bytes mod_less)

lemma be_bytes_inj:
  assumes "be_bytes n j = be_bytes n k" "j < 256 ^ n" "k < 256 ^ n"
  shows "j = k"
  using assms by (metis be_val_be_bytes mod_less)

section \<open>Words\<close>

lemma word_xor_cancel [simp]: "(x XOR y) XOR y = (x :: 'a::len word)"
  by (simp add: xor.assoc)

lemma word_xor_cancel_left [simp]: "y XOR (y XOR x) = (x :: 'a::len word)"
  by (simp flip: xor.assoc)

text \<open>
  Checking a predicate on all bytes is checking it on the 256 pairs of hex
  digits; the simplifier evaluates each.
\<close>

lemma all_u8_iff:
  "(\<forall>x :: u8. P x) \<longleftrightarrow>
   (\<forall>h \<in> {0, 1, 2, 3, 4, 5, 6, 7, 8, 9, 10, 11, 12, 13, 14, 15 :: u8}.
    \<forall>l \<in> {0, 1, 2, 3, 4, 5, 6, 7, 8, 9, 10, 11, 12, 13, 14, 15 :: u8}. P (16 * h + l))"
  (is "?L \<longleftrightarrow> ?R")
proof
  assume r: ?R
  have digit: "(of_nat n :: u8) \<in> {0, 1, 2, 3, 4, 5, 6, 7, 8, 9, 10, 11, 12, 13, 14, 15}"
    if "n < 16" for n
  proof -
    have "n \<in> {0, 1, 2, 3, 4, 5, 6, 7, 8, 9, 10, 11, 12, 13, 14, 15}"
      using that by (auto simp: less_Suc_eq numeral_eq_Suc)
    then show ?thesis by auto
  qed
  show ?L
  proof
    fix x :: u8
    have "unat x div 16 < 16" using unat_u8_bound [of x] by simp
    with r have "P (16 * of_nat (unat x div 16) + of_nat (unat x mod 16))"
      by (meson digit mod_less_divisor zero_less_numeral)
    moreover have "16 * of_nat (unat x div 16) + of_nat (unat x mod 16)
        = (of_nat (16 * (unat x div 16) + unat x mod 16) :: u8)"
      by (simp only: of_nat_add of_nat_mult of_nat_numeral)
    ultimately show "P x" by (simp only: mult_div_mod_eq of_nat_unat ucast_id)
  qed
qed blast

lemma unat_ucast: "unat (ucast (x :: 'a::len word) :: 'b::len word) = unat x mod 2 ^ LENGTH('b)"
  by (metis of_nat_unat unat_of_nat)

lemma unat_ucast_up:
  "LENGTH('a) \<le> LENGTH('b) \<Longrightarrow> unat (ucast (x :: 'a::len word) :: 'b::len word) = unat x"
  by (simp add: unat_ucast less_le_trans [OF unsigned_less])

lemma unat_drop_bit: "unat (drop_bit n w :: 'a::len word) = unat w div 2 ^ n"
  by (simp only: unat_drop_bit_eq) (simp only: drop_bit_eq_div)

lemma ucast_add_down:
  assumes "LENGTH('a) \<le> LENGTH('b)"
  shows "ucast (ucast (x :: 'a::len word) + k :: 'b::len word) = (x + ucast k :: 'a word)"
proof -
  have "(2 :: nat) ^ LENGTH('a) dvd 2 ^ LENGTH('b)" using assms by (simp add: le_imp_power_dvd)
  then show ?thesis
    using assms by (simp add: word_unat_eq_iff unat_ucast unat_word_ariths mod_mod_cancel mod_simps)
qed

lemma unat_and_mask: "unat ((w :: 'a::len word) AND mask n) = unat w mod 2 ^ n"
  by (simp only: unsigned_take_bit_eq flip: take_bit_eq_mask) (simp only: take_bit_eq_mod)

lemma u8_bit_less: "bit (w :: u8) n \<Longrightarrow> n < 8"
  using bit_imp_le_length by fastforce

lemma even_unat_iff: "even (unat (w :: 'a::len word)) \<longleftrightarrow> even w"
  by transfer (simp add: even_nat_iff)

lemma word_and_1: "(w :: 'a::len word) AND 1 = of_bool (odd (unat w))"
  by (simp only: and_one_eq mod_2_eq_odd even_unat_iff)

lemma ucast_minus_1_u8 [simp]:
  "(ucast (- 1 :: u8) :: u16) = 255" "(ucast (- 1 :: u8) :: u32) = 255"
  "(ucast (- 1 :: u8) :: u64) = 255"
  by (simp_all add: unsigned_minus_1_eq_mask mask_eq_exp_minus_1)

lemma minus_1_u8 [simp]: "(- 1 :: u8) = 255" "x AND 255 = (x :: u8)" "255 AND x = (x :: u8)"
proof -
  show m: "(- 1 :: u8) = 255" using word_uint_eq_iff by fastforce
  show "x AND 255 = (x :: u8)" "255 AND x = (x :: u8)"
    by (simp_all flip: m)
qed

lemma word_xor_eq_0_iff: "x XOR y = 0 \<longleftrightarrow> x = (y :: 'a::len word)"
  by (metis word_xor_cancel xor.left_neutral xor_self_eq)

text \<open>Byte-wise XOR of two equally long slices.\<close>

definition xor_bytes :: "'a::len word list \<Rightarrow> 'a word list \<Rightarrow> 'a word list" where
  "xor_bytes xs ys = map2 (XOR) xs ys"

lemma length_xor_bytes [simp, byte_simps]:
  "length (xor_bytes xs ys) = min (length xs) (length ys)"
  by (simp add: xor_bytes_def)

lemma xor_bytes_Cons [simp]: "xor_bytes (x # xs) (y # ys) = (x XOR y) # xor_bytes xs ys"
  by (simp add: xor_bytes_def)

lemma xor_bytes_Nil [simp]: "xor_bytes [] ys = []" "xor_bytes xs [] = []"
  by (simp_all add: xor_bytes_def)

lemma xor_bytes_involutive:
  "length xs \<le> length ys \<Longrightarrow> xor_bytes (xor_bytes xs ys) ys = xs"
proof (induction xs arbitrary: ys)
  case Nil
  then show ?case by simp
next
  case (Cons x xs)
  then show ?case by (cases ys) simp_all
qed

lemma xor_bytes_append:
  "length xs = length ks \<Longrightarrow> xor_bytes (xs @ xs') (ks @ ks') = xor_bytes xs ks @ xor_bytes xs' ks'"
  by (simp add: xor_bytes_def)

end
