(* ===== verification/Core_Error.thy ===== *)
theory Core_Error
  imports Prelude
begin

text \<open>
  The error domain of \<open>crates/ic-core/src/error.rs\<close>: the kinds, their stable
  identifiers, the recovery classes an agent decides by, and the \<open>Result\<close> type
  every fallible operation returns. An error is its kind and a static context
  string; a result is a sum, with the error on the left.
\<close>

section \<open>Kinds\<close>

datatype error_kind =
    InvalidLength
  | InvalidParameter
  | AuthenticationFailed
  | Unsupported
  | NotApprovedInFipsMode
  | SelfTestFailed
  | ModuleErrorState
  | EntropyFailure
  | CounterExhausted
  | MalformedEncoding
  | ProviderUnavailable
  | ProviderRefused
  | Internal

definition error_kind_ALL :: "error_kind list" where
  "error_kind_ALL =
     [InvalidLength, InvalidParameter, AuthenticationFailed, MalformedEncoding, Unsupported,
      NotApprovedInFipsMode, SelfTestFailed, ModuleErrorState, EntropyFailure,
      CounterExhausted, ProviderUnavailable, ProviderRefused, Internal]"

fun error_kind_id :: "error_kind \<Rightarrow> string" where
  "error_kind_id InvalidLength = ''invalid-length''"
| "error_kind_id InvalidParameter = ''invalid-parameter''"
| "error_kind_id AuthenticationFailed = ''authentication-failed''"
| "error_kind_id Unsupported = ''unsupported''"
| "error_kind_id NotApprovedInFipsMode = ''not-approved-in-fips-mode''"
| "error_kind_id SelfTestFailed = ''self-test-failed''"
| "error_kind_id ModuleErrorState = ''module-error-state''"
| "error_kind_id EntropyFailure = ''entropy-failure''"
| "error_kind_id CounterExhausted = ''counter-exhausted''"
| "error_kind_id MalformedEncoding = ''malformed-encoding''"
| "error_kind_id ProviderUnavailable = ''provider-unavailable''"
| "error_kind_id ProviderRefused = ''provider-refused''"
| "error_kind_id Internal = ''internal''"

fun retryable :: "error_kind \<Rightarrow> bool" where
  "retryable k = (k \<in> {EntropyFailure, ProviderUnavailable})"

fun caller_correctable :: "error_kind \<Rightarrow> bool" where
  "caller_correctable k =
     (k \<in> {InvalidLength, InvalidParameter, MalformedEncoding, Unsupported,
            NotApprovedInFipsMode, CounterExhausted})"

section \<open>Errors and results\<close>

datatype error = Error (error_kind: error_kind) (error_context: string)

type_synonym 'a result = "error + 'a"

abbreviation Ok :: "'a \<Rightarrow> 'a result" where
  "Ok x \<equiv> Inr x"

abbreviation Err :: "error_kind \<Rightarrow> string \<Rightarrow> 'a result" where
  "Err k c \<equiv> Inl (Error k c)"

fun error_display :: "error \<Rightarrow> string" where
  "error_display (Error k c) = error_kind_id k @ '': '' @ c"

text \<open>The \<open>?\<close> operator: pass an error on, or go on with the value.\<close>

definition bind_result :: "'a result \<Rightarrow> ('a \<Rightarrow> 'b result) \<Rightarrow> 'b result" where
  "bind_result r f = (case r of Inl e \<Rightarrow> Inl e | Inr x \<Rightarrow> f x)"

lemma bind_result_simps [simp]:
  "bind_result (Inl e) f = Inl e" "bind_result (Inr x) f = f x"
  by (simp_all add: bind_result_def)

lemma bind_result_Ok_iff [simp]:
  "bind_result r f = Inr y \<longleftrightarrow> (\<exists>x. r = Inr x \<and> f x = Inr y)"
  by (cases r) auto

lemma bind_result_cong [fundef_cong]:
  "r = r' \<Longrightarrow> (\<And>x. r' = Inr x \<Longrightarrow> f x = g x) \<Longrightarrow> bind_result r f = bind_result r' g"
  by (cases r') auto

definition is_ok :: "'a result \<Rightarrow> bool" where
  "is_ok r = (case r of Inl _ \<Rightarrow> False | Inr _ \<Rightarrow> True)"

lemma is_ok_simps [simp]: "is_ok (Inl e) = False" "is_ok (Inr x) = True"
  by (simp_all add: is_ok_def)

section \<open>The catalogue is complete and its names are unambiguous\<close>

lemma error_kind_ALL_complete: "set error_kind_ALL = UNIV"
  unfolding error_kind_ALL_def using error_kind.exhaust by auto

lemma error_kind_ALL_distinct: "distinct error_kind_ALL"
  by (simp add: error_kind_ALL_def)

lemma error_kind_id_inj: "error_kind_id j = error_kind_id k \<Longrightarrow> j = k"
  by (cases j; cases k; simp)

lemma error_kind_id_no_colon: "CHR '':'' \<notin> set (error_kind_id k)"
  by (cases k) simp_all

end
