(* ===== verification/Core_Ct.thy ===== *)
theory Core_Ct
  imports Core_Error
begin

text \<open>
  The constant-time primitives of \<open>crates/ic-core/src/ct.rs\<close>. A \<open>Choice\<close> is a
  byte that is 0 or 1; the loops accumulate over the indices as the code does.
  \<open>black_box\<close> is the identity: it hides a value from the optimiser and does not
  change it. The lemmas show that the branch-free code computes equality,
  selection, swapping and the unsigned order of big-endian strings.
\<close>

section \<open>Choice\<close>

datatype choice = Choice (choice_byte: u8)

definition choice_FALSE :: choice where "choice_FALSE = Choice 0"

definition choice_TRUE :: choice where "choice_TRUE = Choice 1"

definition choice_from_u8 :: "u8 \<Rightarrow> choice" where
  "choice_from_u8 v = Choice (drop_bit 7 (v OR (- v)) AND 1)"

definition choice_unwrap_u8 :: "choice \<Rightarrow> u8" where
  "choice_unwrap_u8 c = choice_byte c"

definition choice_mask :: "choice \<Rightarrow> u8" where
  "choice_mask c = - choice_byte c"

definition choice_not :: "choice \<Rightarrow> choice" where
  "choice_not c = Choice (choice_byte c XOR 1)"

definition choice_and :: "choice \<Rightarrow> choice \<Rightarrow> choice" where
  "choice_and c d = Choice (choice_byte c AND choice_byte d)"

definition choice_or :: "choice \<Rightarrow> choice \<Rightarrow> choice" where
  "choice_or c d = Choice (choice_byte c OR choice_byte d)"

definition choice_into_bool :: "choice \<Rightarrow> bool" where
  "choice_into_bool c = (choice_unwrap_u8 c = 1)"

text \<open>A well-formed choice is 0 or 1; \<open>choice_of\<close> is the one for a boolean.\<close>

definition choice_wf :: "choice \<Rightarrow> bool" where
  "choice_wf c \<longleftrightarrow> choice_byte c = 0 \<or> choice_byte c = 1"

abbreviation choice_of :: "bool \<Rightarrow> choice" where
  "choice_of b \<equiv> Choice (of_bool b)"

section \<open>Slices\<close>

definition ct_eq :: "bytes \<Rightarrow> bytes \<Rightarrow> choice" where
  "ct_eq a b =
     (if length a \<noteq> length b then choice_FALSE
      else let acc = fold (\<lambda>i acc. acc OR (a ! i XOR b ! i)) [0..<length a] 0
           in choice_not (choice_from_u8 acc))"

definition ct_verify :: "bytes \<Rightarrow> bytes \<Rightarrow> bool" where
  "ct_verify expected actual = choice_into_bool (ct_eq expected actual)"

definition select_u8 :: "choice \<Rightarrow> u8 \<Rightarrow> u8 \<Rightarrow> u8" where
  "select_u8 c a b = (let m = choice_mask c in b XOR (m AND (a XOR b)))"

definition select_u32 :: "choice \<Rightarrow> u32 \<Rightarrow> u32 \<Rightarrow> u32" where
  "select_u32 c a b =
     (let m = - (ucast (choice_unwrap_u8 c) :: u32) in b XOR (m AND (a XOR b)))"

definition select_u64 :: "choice \<Rightarrow> u64 \<Rightarrow> u64 \<Rightarrow> u64" where
  "select_u64 c a b =
     (let m = - (ucast (choice_unwrap_u8 c) :: u64) in b XOR (m AND (a XOR b)))"

definition cswap :: "choice \<Rightarrow> bytes \<Rightarrow> bytes \<Rightarrow> bytes \<times> bytes" where
  "cswap c a b =
     (let m = choice_mask c; n = min (length a) (length b)
      in fold (\<lambda>i (a, b). let t = m AND (a ! i XOR b ! i)
                           in (a[i := a ! i XOR t], b[i := b ! i XOR t]))
           [0..<n] (a, b))"

definition cmov :: "choice \<Rightarrow> bytes \<Rightarrow> bytes \<Rightarrow> bytes" where
  "cmov c dst src =
     (let m = choice_mask c; n = min (length dst) (length src)
      in fold (\<lambda>i dst. dst[i := dst ! i XOR (m AND (dst ! i XOR src ! i))]) [0..<n] dst)"

definition lt_be :: "bytes \<Rightarrow> bytes \<Rightarrow> choice" where
  "lt_be a b =
     (let borrow = fold (\<lambda>i borrow.
            let d = (ucast (a ! i) :: u16) - ucast (b ! i) - borrow
            in drop_bit 8 d AND 1)
          (rev [0..<length a]) 0
      in choice_from_u8 (ucast borrow))"

definition ct_is_zero :: "bytes \<Rightarrow> choice" where
  "ct_is_zero x = choice_not (choice_from_u8 (fold (\<lambda>b acc. acc OR b) x 0))"

section \<open>Choices stay boolean\<close>

lemma choice_from_u8_eq: "choice_from_u8 v = choice_of (v \<noteq> 0)"
proof -
  have "\<forall>v :: u8. drop_bit 7 (v OR (- v)) AND 1 = of_bool (v \<noteq> 0)"
    by (subst all_u8_iff) simp
  then show ?thesis by (simp add: choice_from_u8_def)
qed

lemma choice_ops_of:
  "choice_not (choice_of p) = choice_of (\<not> p)"
  "choice_and (choice_of p) (choice_of q) = choice_of (p \<and> q)"
  "choice_or (choice_of p) (choice_of q) = choice_of (p \<or> q)"
  "choice_into_bool (choice_of p) = p"
  "choice_mask (choice_of p) = (if p then - 1 else 0)"
      apply (cases p, simp_all add: choice_not_def)
     apply (cases p, simp_all add: choice_and_def)
    apply (cases p, simp_all add: choice_or_def)
   apply (cases p, simp_all add: choice_into_bool_def choice_unwrap_u8_def)
  apply (simp add: choice_mask_def)
  done

lemma choice_wf_of [simp]: "choice_wf (choice_of b)"
  by (simp add: choice_wf_def)

lemma choice_wfE: "choice_wf c \<Longrightarrow> (\<And>b. c = choice_of b \<Longrightarrow> P) \<Longrightarrow> P"
  by (cases c) (metis choice.sel choice_wf_def of_bool_eq(1) of_bool_eq(2))

lemma choice_ops_wf:
  "choice_wf (choice_from_u8 v)"
  "choice_wf c \<Longrightarrow> choice_wf (choice_not c)"
  "choice_wf c \<Longrightarrow> choice_wf d \<Longrightarrow> choice_wf (choice_and c d)"
  "choice_wf c \<Longrightarrow> choice_wf d \<Longrightarrow> choice_wf (choice_or c d)"
     apply (simp only: choice_from_u8_eq choice_wf_of)
    apply (elim choice_wfE, simp only: choice_ops_of choice_wf_of)
   apply (elim choice_wfE, simp only: choice_ops_of choice_wf_of)
  apply (elim choice_wfE, simp only: choice_ops_of choice_wf_of)
  done

section \<open>What the loops compute\<close>

lemma or_fold_zero_iff:
  "fold (\<lambda>i acc. acc OR f i) is (acc :: 'a::len word) = 0 \<longleftrightarrow> acc = 0 \<and> (\<forall>i \<in> set is. f i = 0)"
  by (induction "is" arbitrary: acc) (auto simp: or_eq_0_iff)

lemma ct_eq_choice: "ct_eq a b = choice_of (a = b)"
proof (cases "length a = length b")
  case True
  then have "(\<forall>i \<in> set [0..<length a]. a ! i XOR b ! i = 0) \<longleftrightarrow> a = b"
    by (simp add: word_xor_eq_0_iff list_eq_iff_nth_eq [of a b] Ball_def)
  then have "fold (\<lambda>i acc. acc OR (a ! i XOR b ! i)) [0..<length a] 0 = 0 \<longleftrightarrow> a = b"
    by (subst or_fold_zero_iff) simp
  with True show ?thesis
    by (simp add: ct_eq_def choice_from_u8_eq choice_ops_of)
next
  case False
  then show ?thesis by (auto simp: ct_eq_def choice_FALSE_def)
qed

lemma ct_verify_iff [simp]: "ct_verify a b \<longleftrightarrow> a = b"
  by (simp add: ct_verify_def ct_eq_choice choice_ops_of)

lemma select_of:
  "select_u8 (choice_of p) a b = (if p then a else b)"
  "select_u32 (choice_of p) a' b' = (if p then a' else b')"
  "select_u64 (choice_of p) a'' b'' = (if p then a'' else b'')"
  by (simp_all add: select_u8_def select_u32_def select_u64_def choice_ops_of
      choice_unwrap_u8_def xor.commute [of _ "_ XOR _"])

lemma ct_is_zero_choice: "ct_is_zero x = choice_of (\<forall>b \<in> set x. b = 0)"
proof -
  have "fold (\<lambda>b acc. acc OR b) x 0 = 0 \<longleftrightarrow> (\<forall>b \<in> set x. b = 0)"
    using or_fold_zero_iff [of "\<lambda>b. b" x 0] by simp
  then show ?thesis by (simp add: ct_is_zero_def choice_from_u8_eq choice_ops_of)
qed

text \<open>A pass that rewrites position \<open>i\<close> from position \<open>i\<close> alone is a pointwise map.\<close>

lemma cmov_upto:
  assumes "length dst = length src" "n \<le> length src"
  shows "fold (\<lambda>i dst. dst[i := dst ! i XOR (m AND (dst ! i XOR src ! i))]) [0..<n] dst
       = map2 (\<lambda>d s. d XOR (m AND (d XOR s))) (take n dst) (take n src) @ drop n dst"
  using assms(2)
proof (induction n)
  case 0
  then show ?case by simp
next
  case (Suc n)
  then have n: "n < length src" "n < length dst" using assms(1) by auto
  then show ?case using Suc
    by (simp add: nth_append take_Suc_conv_app_nth list_update_append
        Cons_nth_drop_Suc [symmetric])
qed

lemma cmov_choice:
  assumes "length dst = length src"
  shows "cmov (choice_of p) dst src = (if p then src else dst)"
proof -
  have "map2 (\<lambda>d s. s) dst src = src" "map2 (\<lambda>d s. d) dst src = dst"
    using assms by (simp_all add: list_eq_iff_nth_eq)
  then show ?thesis
    using cmov_upto [OF assms, of "length src" "choice_mask (choice_of p)"] assms
    by (simp add: cmov_def choice_ops_of)
qed

lemma cswap_upto:
  assumes "length a = length b" "n \<le> length b"
  shows "fold (\<lambda>i (a, b). let t = m AND (a ! i XOR b ! i)
                           in (a[i := a ! i XOR t], b[i := b ! i XOR t])) [0..<n] (a, b)
       = (map2 (\<lambda>x y. x XOR (m AND (x XOR y))) (take n a) (take n b) @ drop n a,
          map2 (\<lambda>x y. y XOR (m AND (x XOR y))) (take n a) (take n b) @ drop n b)"
  using assms(2)
proof (induction n)
  case 0
  then show ?case by simp
next
  case (Suc n)
  then have n: "n < length b" "n < length a" using assms(1) by auto
  then show ?case using Suc
    by (simp add: Let_def nth_append take_Suc_conv_app_nth list_update_append
        Cons_nth_drop_Suc [symmetric])
qed

lemma cswap_choice:
  assumes "length a = length b"
  shows "cswap (choice_of p) a b = (if p then (b, a) else (a, b))"
proof -
  have "map2 (\<lambda>x y. y) a b = b" "map2 (\<lambda>x y. x) a b = a"
    using assms by (simp_all add: list_eq_iff_nth_eq)
  then show ?thesis
    using cswap_upto [OF assms, of "length b" "choice_mask (choice_of p)"] assms
    by (simp add: cswap_def choice_ops_of xor.commute [of _ "_ XOR _"])
qed

section \<open>Unsigned order\<close>

text \<open>One step of the subtraction loop: the borrow out of \<open>x - y - borrow\<close> on bytes.\<close>

lemma borrow_odd:
  assumes "(x :: nat) < 256" "y < 256" "x < y + k" "k \<le> 1"
  shows "odd ((x + 65536 - (y + k)) div 256)"
proof -
  have "(x + 65536 - (y + k)) div 256 = 255"
    using assms by (intro div_nat_eqI) auto
  then show ?thesis by simp
qed

lemma lt_be_borrow_step:
  "drop_bit 8 ((ucast (x :: u8) :: u16) - ucast (y :: u8) - of_bool c) AND 1
   = of_bool (unat x < unat y + of_bool c)"
proof -
  let ?d = "(ucast x :: u16) - ucast y - of_bool c"
  have b: "unat x < 256" "unat y < 256" by (rule unat_u8_bound)+
  have d: "unat ?d = (if unat x < unat y + of_bool c
      then unat x + 65536 - (unat y + of_bool c) else unat x - (unat y + of_bool c))"
    using b by (cases c) (auto simp: unat_sub_if' unat_ucast)
  have "odd (unat ?d div 256) \<longleftrightarrow> unat x < unat y + of_bool c"
    using b borrow_odd [of "unat x" "unat y" "of_bool c"] by (auto simp: d)
  then show ?thesis by (simp add: word_and_1 unat_drop_bit)
qed

lemma less_digit_iff:
  assumes "(X :: nat) < B" "Y < B"
  shows "x * B + X < y * B + Y \<longleftrightarrow> x < y + of_bool (X < Y)"
proof (cases x y rule: linorder_cases)
  case less
  then have "x * B + B \<le> y * B" by (metis mult_Suc mult_le_mono1 Suc_leI add.commute)
  with assms less show ?thesis by simp
next
  case equal
  then show ?thesis by simp
next
  case greater
  then have "y * B + B \<le> x * B" by (metis mult_Suc mult_le_mono1 Suc_leI add.commute)
  with assms greater show ?thesis by simp
qed

lemma lt_be_loop:
  assumes "length a = length b"
  shows "fold (\<lambda>i borrow. let d = (ucast (a ! i) :: u16) - ucast (b ! i) - borrow
                          in drop_bit 8 d AND 1) (rev [0..<length a]) 0
       = of_bool (be_val a < be_val b)"
  using assms
proof (induction a b rule: list_induct2)
  case Nil
  then show ?case by simp
next
  case (Cons x xs y ys)
  have idx: "rev [0..<length (x # xs)] = map Suc (rev [0..<length xs]) @ [0]"
    by (simp add: upt_conv_Cons rev_map [symmetric] map_Suc_upt del: upt_Suc)
  show ?case
    unfolding idx using Cons be_val_bound [of xs] be_val_bound [of ys]
    by (simp add: fold_map o_def lt_be_borrow_step be_val_Cons less_digit_iff)
qed

lemma lt_be_choice:
  assumes "length a = length b"
  shows "lt_be a b = choice_of (be_val a < be_val b)"
  unfolding lt_be_def lt_be_loop [OF assms] by (simp add: choice_from_u8_eq)

lemmas ct_choice_simps =
  ct_eq_choice ct_is_zero_choice cmov_choice cswap_choice lt_be_choice select_of choice_ops_of

end
