(* ===== verification/Core_Codec.thy ===== *)
theory Core_Codec
  imports Core_Error
begin

text \<open>
  The hex and Base64 codecs of \<open>crates/ic-core/src/codec.rs\<close>. A function that
  writes to \<open>out: &mut [u8]\<close> returns its result and the buffer afterwards. The
  per-character arithmetic is the code's: masks from the sign of a 16-bit
  difference, no table and no branch. Proved: every byte string survives a round
  trip, the decoders accept exactly the documented alphabets, and a refused
  input leaves a zeroed buffer.
\<close>

section \<open>Characters\<close>

definition neg_mask :: "i16 \<Rightarrow> u8" where
  "neg_mask x = ucast (signed_drop_bit 8 x)"

definition hex_char :: "u8 \<Rightarrow> u8" where
  "hex_char n = (let n16 = (ucast n :: i16) in n + 48 + (neg_mask (9 - n16) AND 39))"

definition base64_char :: "u8 \<Rightarrow> u8" where
  "base64_char v =
     (let v16 = (ucast v :: i16);
          d = 65;
          d = d + ucast (neg_mask (25 - v16) AND 6);
          d = d - ucast (neg_mask (51 - v16) AND 75);
          d = d - ucast (neg_mask (61 - v16) AND 15);
          d = d + ucast (neg_mask (62 - v16) AND 3)
      in ucast (v16 + d))"

definition hex_nibble :: "u8 \<Rightarrow> u8 \<times> u8" where
  "hex_nibble c =
     (let digit = c - 48; lower = c - 97; upper = c - 65;
          m_digit = neg_mask (ucast digit - 10);
          m_lower = neg_mask (ucast lower - 6);
          m_upper = neg_mask (ucast upper - 6);
          val = (digit AND m_digit) OR ((lower + 10) AND m_lower) OR ((upper + 10) AND m_upper)
      in (val, m_digit OR m_lower OR m_upper))"

definition base64_value :: "u8 \<Rightarrow> u8 \<times> u8" where
  "base64_value c =
     (let upper = c - 65; lower = c - 97; digit = c - 48;
          m_upper = neg_mask (ucast upper - 26);
          m_lower = neg_mask (ucast lower - 26);
          m_digit = neg_mask (ucast digit - 10);
          m_plus = neg_mask (ucast (c XOR 43) - 1);
          m_slash = neg_mask (ucast (c XOR 47) - 1);
          val = (upper AND m_upper) OR ((lower + 26) AND m_lower) OR ((digit + 52) AND m_digit)
                  OR (62 AND m_plus) OR (63 AND m_slash)
      in (val, m_upper OR m_lower OR m_digit OR m_plus OR m_slash))"

section \<open>Hex\<close>

definition hex_encode :: "bytes \<Rightarrow> bytes \<Rightarrow> unit result \<times> bytes" where
  "hex_encode input out =
     (if length out \<noteq> length input * 2 then (Err InvalidLength ''hex output buffer'', out)
      else (Ok (), write_blocks 2 (\<lambda>b. [hex_char (drop_bit 4 b), hex_char (b AND 15)]) input out))"

definition hex_decode_step :: "bytes \<Rightarrow> nat \<Rightarrow> u8 \<times> bytes \<Rightarrow> u8 \<times> bytes" where
  "hex_decode_step input i st =
     (case st of (valid, out) \<Rightarrow>
        let (hi, ok_hi) = hex_nibble (input ! (i * 2));
            (lo, ok_lo) = hex_nibble (input ! (i * 2 + 1))
        in (valid AND ok_hi AND ok_lo, out[i := push_bit 4 hi OR lo]))"

definition hex_decode :: "bytes \<Rightarrow> bytes \<Rightarrow> unit result \<times> bytes" where
  "hex_decode input out =
     (if length input mod 2 \<noteq> 0 then (Err MalformedEncoding ''hex length must be even'', out)
      else if length out \<noteq> length input div 2 then (Err InvalidLength ''hex output buffer'', out)
      else
        let (valid, out) = fold (hex_decode_step input) [0..<length out] (255, out)
        in if valid \<noteq> 255 then (Err MalformedEncoding ''hex digit'', replicate (length out) 0)
           else (Ok (), out))"

definition hex :: "bytes \<Rightarrow> bytes" where
  "hex input = snd (hex_encode input (replicate (length input * 2) 0))"

definition unhex :: "bytes \<Rightarrow> bytes result" where
  "unhex input =
     (case hex_decode input (replicate (length input div 2) 0) of
        (Inl e, _) \<Rightarrow> Inl e
      | (Inr _, buf) \<Rightarrow> Ok buf)"

section \<open>Base64\<close>

definition base64_encoded_len :: "nat \<Rightarrow> nat" where
  "base64_encoded_len n = (n + 2) div 3 * 4"

text \<open>The four characters of a 24-bit group, and the three chunk shapes the encoder sees.\<close>

definition base64_group :: "u32 \<Rightarrow> bytes" where
  "base64_group n =
     [base64_char (ucast (drop_bit 18 n) AND 63), base64_char (ucast (drop_bit 12 n) AND 63),
      base64_char (ucast (drop_bit 6 n) AND 63), base64_char (ucast n AND 63)]"

definition base64_chunk :: "bytes \<Rightarrow> bytes" where
  "base64_chunk c =
     (let n = push_bit 16 (ucast (c ! 0)) OR push_bit 8 (ucast (c ! 1)) OR ucast (c ! 2)
      in base64_group n)"

definition base64_encode :: "bytes \<Rightarrow> bytes \<Rightarrow> unit result \<times> bytes" where
  "base64_encode input out =
     (if length out \<noteq> base64_encoded_len (length input)
      then (Err InvalidLength ''base64 output buffer'', out)
      else
        let full = length input div 3;
            out = write_blocks 4 base64_chunk (chunks 3 (take (full * 3) input)) out;
            oi = full * 4;
            rem = drop (full * 3) input;
            out = (case rem of
                [] \<Rightarrow> out
              | [r0] \<Rightarrow> let n = push_bit 16 (ucast r0) in
                  write_at oi (take 2 (base64_group n) @ [61, 61]) out
              | r0 # r1 # _ \<Rightarrow> let n = push_bit 16 (ucast r0) OR push_bit 8 (ucast r1) in
                  write_at oi (take 3 (base64_group n) @ [61]) out)
        in (Ok (), out))"

definition base64_decode_char ::
  "nat \<Rightarrow> nat \<Rightarrow> nat \<times> u8 \<Rightarrow> u8 \<times> u32 \<Rightarrow> u8 \<times> u32" where
  "base64_decode_char data_chars bi jc acc =
     (case (jc, acc) of ((j, c), (valid, n)) \<Rightarrow>
        let (v, ok) = base64_value c;
            is_pad_pos = bi * 4 + j \<ge> data_chars;
            ok = (if is_pad_pos then neg_mask (- of_bool (c = 61)) else ok)
        in (valid AND ok, n OR push_bit (18 - 6 * j) (ucast v)))"

definition base64_put :: "nat \<Rightarrow> u8 \<Rightarrow> nat \<times> bytes \<Rightarrow> nat \<times> bytes" where
  "base64_put decoded b st =
     (case st of (oi, out) \<Rightarrow> if oi < decoded then (oi + 1, out[oi := b]) else (oi, out))"

definition base64_decode_block ::
  "nat \<Rightarrow> nat \<Rightarrow> nat \<times> bytes \<Rightarrow> u8 \<times> nat \<times> bytes \<Rightarrow> u8 \<times> nat \<times> bytes" where
  "base64_decode_block data_chars decoded blk st =
     (case (blk, st) of ((bi, block), (valid, oi_out)) \<Rightarrow>
        let (valid, n) = fold (base64_decode_char data_chars bi) (enumerate 0 block) (valid, 0);
            bs = [ucast (drop_bit 16 n), ucast (drop_bit 8 n), ucast n]
        in (valid, fold (base64_put decoded) bs oi_out))"

definition base64_pad :: "bytes \<Rightarrow> nat" where
  "base64_pad input = of_bool (input ! (length input - 1) = 61)
     + of_bool (length input \<ge> 2 \<and> input ! (length input - 2) = 61)"

definition base64_decode :: "bytes \<Rightarrow> bytes \<Rightarrow> nat result \<times> bytes" where
  "base64_decode input out =
     (if length input mod 4 \<noteq> 0 then (Err MalformedEncoding ''base64 length'', out)
      else if input = [] then (Ok 0, out)
      else
        let pad = base64_pad input;
            decoded = length input div 4 * 3 - pad
        in if length out < decoded then (Err InvalidLength ''base64 output buffer'', out)
           else
             let data_chars = length input - pad;
                 (valid, oi, out) = fold (base64_decode_block data_chars decoded)
                   (enumerate 0 (chunks 4 input)) (255, 0, out)
             in if valid \<noteq> 255
                then (Err MalformedEncoding ''base64 character'',
                      replicate decoded 0 @ drop decoded out)
                else (Ok decoded, out))"

definition b64 :: "bytes \<Rightarrow> bytes" where
  "b64 input = snd (base64_encode input (replicate (base64_encoded_len (length input)) 0))"

definition unb64 :: "bytes \<Rightarrow> bytes result" where
  "unb64 input =
     (case base64_decode input (replicate (length input div 4 * 3) 0) of
        (Inl e, _) \<Rightarrow> Inl e
      | (Inr n, buf) \<Rightarrow> Ok (take n buf))"

section \<open>Characters: what the arithmetic classifies\<close>

definition hex_digit :: "u8 \<Rightarrow> bool" where
  "hex_digit c \<longleftrightarrow> unat c \<in> {48..57} \<union> {97..102} \<union> {65..70}"

definition ascii_lower :: "u8 \<Rightarrow> u8" where
  "ascii_lower c = (if unat c \<in> {65..90} then c + 32 else c)"

definition base64_alphabet :: "u8 \<Rightarrow> bool" where
  "base64_alphabet c \<longleftrightarrow> unat c \<in> {65..90} \<union> {97..122} \<union> {48..57} \<union> {43, 47}"

text \<open>The sign of a difference of small numbers is their order.\<close>

lemma neg_mask_less:
  assumes "unat a < 256" "unat b \<le> 256"
  shows "neg_mask (a - b) = (if unat a < unat b then 255 else 0)"
proof (rule word_unat_eq_iff [THEN iffD2])
  have "unat (neg_mask (a - b)) = unat (a - b) div 256 mod 256"
  proof -
    have "neg_mask (a - b) = ucast (drop_bit 8 (a - b))"
      unfolding neg_mask_def by (rule bit_word_eqI) (auto simp: bit_simps)
    then show ?thesis by (simp add: unat_ucast unat_drop_bit)
  qed
  moreover have "(unat a + 65536 - unat b) div 256 = 255" if "unat a < unat b"
    using assms that by (intro div_nat_eqI) auto
  ultimately show "unat (neg_mask (a - b)) = unat (if unat a < unat b then 255 else 0 :: u8)"
    using assms by (auto simp: unat_sub_if')
qed

lemma neg_mask_u8:
  "unat k \<le> 256 \<Longrightarrow> neg_mask (ucast (x :: u8) - k) = (if unat x < unat k then 255 else 0)"
  using neg_mask_less [of "ucast x" k] unat_u8_bound [of x] by (simp add: unat_ucast_up)

lemma neg_mask_u8':
  "unat k < 256 \<Longrightarrow> neg_mask (k - ucast (x :: u8)) = (if unat k < unat x then 255 else 0)"
  using neg_mask_less [of k "ucast x"] unat_u8_bound [of x] by (simp add: unat_ucast_up)

lemma neg_mask_pad: "neg_mask (- of_bool b) = (if b then 255 else 0)"
  using neg_mask_less [of 0 "of_bool b"] by (cases b) simp_all

lemma u8_mask_ite:
  "x AND (if b then 255 else 0) = (if b then x else (0 :: u8))"
  "(if b then 255 else 0) AND x = (if b then x else (0 :: u8))"
  by simp_all

lemmas mask_arith = neg_mask_u8 neg_mask_u8' u8_mask_ite Let_def

lemma u8_range_iff:
  assumes "unat lo + n \<le> 256"
  shows "unat (c - lo :: u8) < n \<longleftrightarrow> unat lo \<le> unat c \<and> unat c < unat lo + n"
  using assms unat_u8_bound [of c] by (auto simp: unat_sub_if')

lemma u8_xor_less_1: "unat (c XOR k :: u8) < 1 \<longleftrightarrow> c = k"
  by (simp add: unat_eq_0 word_xor_eq_0_iff)

lemma base64_value_cases:
  "base64_value c =
     (if unat c \<in> {65..90} then (c - 65, 255)
      else if unat c \<in> {97..122} then (c - 97 + 26, 255)
      else if unat c \<in> {48..57} then (c - 48 + 52, 255)
      else if c = 43 then (62, 255)
      else if c = 47 then (63, 255)
      else (0, 0))"
proof -
  have "neg_mask (ucast (c XOR 43) - 1) = (if c = 43 then 255 else 0)"
    "neg_mask (ucast (c XOR 47) - 1) = (if c = 47 then 255 else 0)"
    by (simp_all only: neg_mask_u8 unat_1 one_le_numeral u8_xor_less_1)
  moreover have "neg_mask (ucast (c - 65) - 26) = (if unat c \<in> {65..90} then 255 else 0)"
    "neg_mask (ucast (c - 97) - 26) = (if unat c \<in> {97..122} then 255 else 0)"
    "neg_mask (ucast (c - 48) - 10) = (if unat c \<in> {48..57} then 255 else 0)"
    by (auto simp: neg_mask_u8 u8_range_iff)
  ultimately show ?thesis
    unfolding base64_value_def Let_def
    by (simp only: u8_mask_ite) (auto split: if_splits)
qed

lemma hex_char_alt: "hex_char n = n + 48 + (if 9 < unat n then 39 else 0)"
  by (simp add: hex_char_def mask_arith)

lemma base64_char_cases:
  "base64_char v = v + (if unat v \<le> 25 then 65 else if unat v \<le> 51 then 71
     else if unat v \<le> 61 then 252 else if unat v \<le> 62 then 237 else 240)"
  by (simp add: base64_char_def mask_arith ucast_add_down if_distrib [of ucast])

lemma base64_value_valid: "snd (base64_value c) = (if base64_alphabet c then 255 else 0)"
  by (simp add: base64_value_cases base64_alphabet_def word_unat_eq_iff [of c])

lemma base64_value_invalid: "\<not> base64_alphabet c \<Longrightarrow> fst (base64_value c) = 0"
  by (auto simp add: base64_value_cases base64_alphabet_def)

lemma base64_char_value:
  assumes "base64_alphabet c"
  shows "base64_char (fst (base64_value c)) = c"
proof -
  consider "unat c \<in> {65..90}" | "unat c \<in> {97..122}" | "unat c \<in> {48..57}" | "c = 43" | "c = 47"
    using assms by (auto simp: base64_alphabet_def word_unat_eq_iff [of c])
  then show ?thesis
  proof cases
    case 1
    then have "unat (c - 65) \<le> 25" by (auto simp: unat_sub_if')
    with 1 show ?thesis by (simp add: base64_value_cases base64_char_cases)
  next
    case 2
    then have "unat (c - 71) \<le> 51" "\<not> unat (c - 71) \<le> 25" by (auto simp: unat_sub_if')
    with 2 show ?thesis by (simp add: base64_value_cases base64_char_cases)
  next
    case 3
    then have "unat (4 + c) = unat c + 4" by (simp add: unat_word_ariths)
    with 3 have "unat (4 + c) \<le> 61" "\<not> unat (4 + c) \<le> 25" "\<not> unat (4 + c) \<le> 51" by auto
    with 3 show ?thesis by (simp add: base64_value_cases base64_char_cases)
  qed (simp_all add: base64_value_cases base64_char_cases)
qed

lemma hex_nibble_cases:
  "hex_nibble c =
     (if unat c \<in> {48..57} then (c - 48, 255)
      else if unat c \<in> {97..102} then (c - 97 + 10, 255)
      else if unat c \<in> {65..70} then (c - 65 + 10, 255)
      else (0, 0))"
proof -
  have "neg_mask (ucast (c - 48) - 10) = (if unat c \<in> {48..57} then 255 else 0)"
    "neg_mask (ucast (c - 97) - 6) = (if unat c \<in> {97..102} then 255 else 0)"
    "neg_mask (ucast (c - 65) - 6) = (if unat c \<in> {65..70} then 255 else 0)"
    by (auto simp: neg_mask_u8 u8_range_iff)
  then show ?thesis
    unfolding hex_nibble_def Let_def
    by (simp only: u8_mask_ite) (auto split: if_splits)
qed

lemma hex_nibble_valid: "snd (hex_nibble c) = (if hex_digit c then 255 else 0)"
  by (simp add: hex_nibble_cases hex_digit_def)

lemma hex_char_nibble:
  assumes "hex_digit c"
  shows "hex_char (fst (hex_nibble c)) = ascii_lower c" "unat (fst (hex_nibble c)) < 16"
proof -
  consider "unat c \<in> {48..57}" | "unat c \<in> {97..102}" | "unat c \<in> {65..70}"
    using assms by (auto simp: hex_digit_def)
  then have "hex_char (fst (hex_nibble c)) = ascii_lower c \<and> unat (fst (hex_nibble c)) < 16"
  proof cases
    case 1
    then have "unat (c - 48) = unat c - 48" "unat c - 48 \<le> 9" by (auto simp: unat_sub_if')
    with 1 show ?thesis by (simp add: hex_nibble_cases hex_char_alt ascii_lower_def)
  next
    case 2
    then have "unat (c - 87) = unat c - 87" "9 < unat c - 87" "unat c - 87 < 16"
      by (auto simp: unat_sub_if')
    with 2 show ?thesis by (simp add: hex_nibble_cases hex_char_alt ascii_lower_def)
  next
    case 3
    then have "unat (c - 55) = unat c - 55" "9 < unat c - 55" "unat c - 55 < 16"
      by (auto simp: unat_sub_if')
    with 3 show ?thesis by (simp add: hex_nibble_cases hex_char_alt ascii_lower_def)
  qed
  then show "hex_char (fst (hex_nibble c)) = ascii_lower c" "unat (fst (hex_nibble c)) < 16"
    by simp_all
qed

lemma hex_nibble_char:
  assumes "unat v < 16"
  shows "hex_nibble (hex_char v) = (v, 255)"
proof (cases "unat v < 10")
  case True
  then have "unat (v + 48) = unat v + 48" by (simp add: unat_word_ariths)
  with True show ?thesis by (simp add: hex_nibble_cases hex_char_alt)
next
  case False
  with assms have "unat (87 + v) = unat v + 87" by (simp add: unat_word_ariths)
  with False assms show ?thesis by (simp add: hex_nibble_cases hex_char_alt)
qed

lemma base64_value_char:
  assumes "unat v < 64"
  shows "base64_value (base64_char v) = (v, 255) \<and> base64_char v \<noteq> 61"
proof -
  consider "unat v \<le> 25" | "26 \<le> unat v" "unat v \<le> 51" | "52 \<le> unat v" "unat v \<le> 61"
    | "v = 62" | "v = 63"
    using assms word_unat_eq_iff [of v 62] word_unat_eq_iff [of v 63] by fastforce
  then show ?thesis
  proof cases
    case 1
    then have "unat (v + 65) = unat v + 65" by (simp add: unat_word_ariths)
    with 1 show ?thesis
      by (simp add: base64_value_cases base64_char_cases word_unat_eq_iff [of "v + 65"])
  next
    case 2
    then have "unat (v + 71) = unat v + 71" by (simp add: unat_word_ariths)
    with 2 show ?thesis
      by (simp add: base64_value_cases base64_char_cases word_unat_eq_iff [of "v + 71"])
  next
    case 3
    then have "unat (v + 252) = unat v - 4" "48 \<le> unat v - 4" "unat v - 4 \<le> 57"
      by (simp_all add: unat_word_ariths mod_if)
    with 3 show ?thesis
      by (simp add: base64_value_cases base64_char_cases word_unat_eq_iff [of "v + 252"])
  qed (simp_all add: base64_value_cases base64_char_cases)
qed

section \<open>Hex round trips\<close>

lemma mask_numerals_u8:
  "(15 :: u8) = mask 4" "(63 :: u8) = mask 6" "(127 :: u8) = mask 7"
  by (simp_all add: mask_eq_exp_minus_1)

lemma nibbles_join: "push_bit 4 (drop_bit 4 b) OR (b AND 15) = (b :: u8)"
  unfolding mask_numerals_u8 by (rule bit_word_eqI) (auto simp: bit_simps)

lemma nibble_bounds: "unat (drop_bit 4 (b :: u8)) < 16" "unat (b AND 15 :: u8) < 16"
proof -
  show "unat (drop_bit 4 b) < 16"
    using unat_u8_bound [of b] by (simp add: unat_drop_bit)
  show "unat (b AND 15 :: u8) < 16"
    by (simp only: mask_numerals_u8 unat_and_mask) simp
qed

abbreviation hex_pair :: "u8 \<Rightarrow> bytes" where
  "hex_pair b \<equiv> [hex_char (drop_bit 4 b), hex_char (b AND 15)]"

lemma hex_encode_ok:
  assumes "length out = length input * 2"
  shows "hex_encode input out = (Ok (), concat (map hex_pair input))"
  using assms by (simp add: hex_encode_def write_blocks_eq)

lemma hex_eq: "hex input = concat (map hex_pair input)"
  by (simp add: hex_def hex_encode_ok)

text \<open>
  The decoding loop over the first \<open>n\<close> positions: the mask is all ones exactly
  when the characters read so far are digits, and the buffer holds the bytes.
\<close>

definition hex_byte :: "bytes \<Rightarrow> nat \<Rightarrow> u8" where
  "hex_byte input i =
     push_bit 4 (fst (hex_nibble (input ! (i * 2)))) OR fst (hex_nibble (input ! (i * 2 + 1)))"

definition hex_pos_ok :: "bytes \<Rightarrow> nat \<Rightarrow> bool" where
  "hex_pos_ok input i \<longleftrightarrow> hex_digit (input ! (i * 2)) \<and> hex_digit (input ! (i * 2 + 1))"

lemma hex_decode_step_eq:
  "hex_decode_step input i (valid, out)
   = ((if hex_pos_ok input i then valid else 0), out[i := hex_byte input i])"
proof -
  obtain hi okh lo okl
    where n: "hex_nibble (input ! (i * 2)) = (hi, okh)" "hex_nibble (input ! (i * 2 + 1)) = (lo, okl)"
    by (meson surj_pair)
  with hex_nibble_valid [of "input ! (i * 2)"] hex_nibble_valid [of "input ! (i * 2 + 1)"]
  have "okh = (if hex_digit (input ! (i * 2)) then 255 else 0)"
    "okl = (if hex_digit (input ! (i * 2 + 1)) then 255 else 0)" by simp_all
  with n show ?thesis
    by (simp add: hex_decode_step_def hex_byte_def hex_pos_ok_def)
qed

lemma hex_decode_loop:
  assumes "n \<le> length out"
  shows "fold (hex_decode_step input) [0..<n] (255, out)
       = (if \<forall>i < n. hex_pos_ok input i then 255 else 0,
          map (hex_byte input) [0..<n] @ drop n out)"
  using assms
proof (induction n)
  case 0
  then show ?case by simp
next
  case (Suc n)
  then have "(map (hex_byte input) [0..<n] @ drop n out)[n := x]
      = map (hex_byte input) [0..<n] @ x # drop (Suc n) out" for x
    by (simp add: list_update_append Cons_nth_drop_Suc [symmetric])
  with Suc show ?case
    by (simp add: hex_decode_step_eq All_less_Suc)
qed

lemma hex_decode_eq:
  assumes "length input = 2 * length out"
  shows "hex_decode input out =
    (if \<forall>c \<in> set input. hex_digit c
     then (Ok (), map (hex_byte input) [0..<length out])
     else (Err MalformedEncoding ''hex digit'', replicate (length out) 0))"
proof -
  have "(\<forall>i < length out. hex_pos_ok input i) \<longleftrightarrow> (\<forall>c \<in> set input. hex_digit c)"
  proof
    assume r: "\<forall>i < length out. hex_pos_ok input i"
    have "hex_digit (input ! k)" if "k < length input" for k
    proof -
      have "k = k div 2 * 2 \<or> k = k div 2 * 2 + 1" by presburger
      moreover have "hex_pos_ok input (k div 2)" using that r assms by simp
      ultimately show ?thesis unfolding hex_pos_ok_def by metis
    qed
    then show "\<forall>c \<in> set input. hex_digit c" by (auto simp: in_set_conv_nth)
  next
    assume "\<forall>c \<in> set input. hex_digit c"
    then show "\<forall>i < length out. hex_pos_ok input i"
      using assms by (auto simp: hex_pos_ok_def)
  qed
  then show ?thesis
    using assms by (simp add: hex_decode_def hex_decode_loop)
qed

lemma concat_pairs_nth:
  assumes "i < length xs" "\<And>x. length (f x) = k" "j < k"
  shows "concat (map f xs) ! (i * k + j) = f (xs ! i) ! j"
  using assms(1)
proof (induction xs arbitrary: i)
  case Nil
  then show ?case by simp
next
  case (Cons x xs)
  then show ?case using assms(2,3) by (cases i) (simp_all add: nth_append add.assoc)
qed

lemma length_hex [simp, byte_simps]: "length (hex input) = 2 * length input"
  by (simp add: hex_eq length_concat o_def sum_list_triv)

lemma hex_digit_char: "unat v < 16 \<Longrightarrow> hex_digit (hex_char v)"
  using hex_nibble_valid [of "hex_char v"] by (simp add: hex_nibble_char split: if_splits)

lemma unhex_hex: "unhex (hex input) = Ok input"
proof -
  have nth: "hex input ! (i * 2) = hex_char (drop_bit 4 (input ! i))"
    "hex input ! (i * 2 + 1) = hex_char (input ! i AND 15)" if "i < length input" for i
    using concat_pairs_nth [of i input hex_pair 2 0] concat_pairs_nth [of i input hex_pair 2 1] that
    by (simp_all add: hex_eq)
  have "map (hex_byte (hex input)) [0..<length input] = input"
    by (rule nth_equalityI)
      (simp_all add: hex_byte_def nth [simplified] hex_nibble_char nibble_bounds nibbles_join)
  moreover have "\<forall>c \<in> set (hex input). hex_digit c"
    by (auto simp: hex_eq hex_digit_char nibble_bounds)
  ultimately show ?thesis by (simp add: unhex_def hex_decode_eq)
qed

lemma nibbles_split:
  assumes "unat h < 16" "unat l < 16"
  shows "drop_bit 4 (push_bit 4 h OR l :: u8) = h" "(push_bit 4 h OR l :: u8) AND 15 = l"
proof -
  have "take_bit 4 h = h" "take_bit 4 l = l"
    using assms by (simp_all only: word_unat_eq_iff unsigned_take_bit_eq) (simp_all add: take_bit_eq_mod)
  then have h: "\<And>n. bit h n \<Longrightarrow> n < 4" and l: "\<And>n. bit l n \<Longrightarrow> n < 4"
    by (metis bit_take_bit_iff)+
  show "drop_bit 4 (push_bit 4 h OR l) = h"
    by (rule bit_word_eqI) (auto simp: bit_simps dest: h l)
  show "(push_bit 4 h OR l) AND 15 = l"
    unfolding mask_numerals_u8 by (rule bit_word_eqI) (auto simp: bit_simps dest: h l)
qed

lemma unhex_cases:
  "unhex s =
    (if length s mod 2 \<noteq> 0 then Err MalformedEncoding ''hex length must be even''
     else if \<forall>c \<in> set s. hex_digit c then Ok (map (hex_byte s) [0..<length s div 2])
     else Err MalformedEncoding ''hex digit'')"
proof (cases "length s mod 2 = 0")
  case True
  then have "length s = 2 * length (replicate (length s div 2) (0 :: u8))" by auto
  with True show ?thesis by (simp add: unhex_def hex_decode_eq)
next
  case False
  then show ?thesis by (simp add: unhex_def hex_decode_def)
qed

lemma unhex_ok:
  assumes "unhex s = Ok bs"
  shows "hex bs = map ascii_lower s"
proof -
  have even: "length s mod 2 = 0" and dig: "\<And>c. c \<in> set s \<Longrightarrow> hex_digit c"
    and bs: "bs = map (hex_byte s) [0..<length s div 2]"
    using assms by (auto simp: unhex_cases split: if_splits)
  show ?thesis
  proof (rule nth_equalityI)
    show "length (hex bs) = length (map ascii_lower s)" using even by (auto simp: bs)
    fix k assume "k < length (hex bs)"
    then have k: "k < length s" "k div 2 < length s div 2" "k div 2 < length bs"
      using even by (auto simp: bs)
    define i where "i = k div 2"
    have "i * 2 < length s" "i * 2 + 1 < length s" using k even unfolding i_def by linarith+
    then have d: "hex_digit (s ! (i * 2))" "hex_digit (s ! (i * 2 + 1))" by (simp_all add: dig)
    have "bs ! i = hex_byte s i" using k by (simp add: bs i_def)
    then have "hex_pair (bs ! i) = [ascii_lower (s ! (i * 2)), ascii_lower (s ! (i * 2 + 1))]"
      using d by (simp only: hex_byte_def nibbles_split hex_char_nibble)
    moreover have "hex bs ! (i * 2) = hex_pair (bs ! i) ! 0" "hex bs ! (i * 2 + 1) = hex_pair (bs ! i) ! 1"
      using concat_pairs_nth [of i bs hex_pair 2 0] concat_pairs_nth [of i bs hex_pair 2 1] k
      by (simp_all add: hex_eq i_def)
    moreover have "k = i * 2 \<or> k = i * 2 + 1" unfolding i_def by presburger
    ultimately show "hex bs ! k = map ascii_lower s ! k" using k by auto
  qed
qed

section \<open>Base64 round trip\<close>

text \<open>
  The decoder as a function of the characters: the bytes of all blocks, cut at
  the decoded length.
\<close>

definition base64_group_val :: "u8 \<Rightarrow> u8 \<Rightarrow> u8 \<Rightarrow> u8 \<Rightarrow> u32" where
  "base64_group_val v0 v1 v2 v3 =
     push_bit 18 (ucast v0) OR push_bit 12 (ucast v1) OR push_bit 6 (ucast v2) OR ucast v3"

definition base64_bytes :: "u32 \<Rightarrow> bytes" where
  "base64_bytes n = [ucast (drop_bit 16 n), ucast (drop_bit 8 n), ucast n]"

lemma u6_bound: "unat (v AND 63 :: u8) < 64"
  by (simp only: mask_numerals_u8 unat_and_mask) simp

lemma base64_sextet:
  "push_bit j (ucast (ucast (drop_bit j n) AND 63 :: u8)) = (n :: u32) AND push_bit j (mask 6)"
  unfolding mask_numerals_u8 by (rule bit_word_eqI) (auto simp: bit_simps)

lemma base64_group_val_split:
  "base64_group_val (ucast (drop_bit 18 n) AND 63) (ucast (drop_bit 12 n) AND 63)
      (ucast (drop_bit 6 n) AND 63) (ucast n AND 63) = n AND mask 24"
proof -
  have "push_bit 18 (mask 6) OR push_bit 12 (mask 6) OR push_bit 6 (mask 6) OR mask 6
      = (mask 24 :: u32)"
    by (simp add: mask_eq_exp_minus_1)
  then show ?thesis
    using base64_sextet [of 18 n] base64_sextet [of 12 n] base64_sextet [of 6 n]
      base64_sextet [of 0 n]
    by (simp add: base64_group_val_def flip: bit.conj_disj_distrib)
qed

lemma base64_bytes_group:
  fixes a b c :: u8
  defines "n \<equiv> push_bit 16 (ucast a) OR push_bit 8 (ucast b) OR (ucast c :: u32)"
  shows "base64_bytes n = [a, b, c]" "n AND mask 24 = n"
proof -
  have "ucast (drop_bit 16 n) = a"
    unfolding n_def by (rule bit_word_eqI) (auto simp: bit_simps dest: u8_bit_less)
  moreover have "ucast (drop_bit 8 n) = b"
    unfolding n_def by (rule bit_word_eqI) (auto simp: bit_simps dest: u8_bit_less)
  moreover have "ucast n = c"
    unfolding n_def by (rule bit_word_eqI) (auto simp: bit_simps dest: u8_bit_less)
  ultimately show "base64_bytes n = [a, b, c]" by (simp add: base64_bytes_def)
  show "n AND mask 24 = n"
    unfolding n_def by (rule bit_word_eqI) (auto simp: bit_simps dest: u8_bit_less)
qed

text \<open>What the loop of the encoder computes: a group per three bytes, the last one padded.\<close>

abbreviation base64_n3 :: "u8 \<Rightarrow> u8 \<Rightarrow> u8 \<Rightarrow> u32" where
  "base64_n3 a b c \<equiv> push_bit 16 (ucast a) OR push_bit 8 (ucast b) OR ucast c"

fun base64_spec :: "bytes \<Rightarrow> bytes" where
  "base64_spec (a # b # c # rest) = base64_group (base64_n3 a b c) @ base64_spec rest"
| "base64_spec [a, b] = take 3 (base64_group (base64_n3 a b 0)) @ [61]"
| "base64_spec [a] = take 2 (base64_group (base64_n3 a 0 0)) @ [61, 61]"
| "base64_spec [] = []"

lemma length_base64_group [simp]: "length (base64_group n) = 4"
  by (simp add: base64_group_def)

lemma length_base64_chunk [simp]: "length (base64_chunk c) = 4"
  by (simp add: base64_chunk_def Let_def)

lemma div3_Suc3: "Suc (Suc (Suc n)) div 3 = Suc (n div 3)"
  by simp

lemma base64_encoded_len_step: "base64_encoded_len (Suc (Suc (Suc n))) = 4 + base64_encoded_len n"
proof -
  have "(Suc (Suc (Suc n)) + 2) div 3 = Suc ((n + 2) div 3)" by simp
  then show ?thesis unfolding base64_encoded_len_def by (simp only: mult_Suc)
qed

lemma length_base64_spec: "length (base64_spec input) = base64_encoded_len (length input)"
  by (induction input rule: base64_spec.induct)
    (simp_all add: base64_encoded_len_step, simp_all add: base64_encoded_len_def)

lemma base64_spec_split:
  "base64_spec input =
     concat (map base64_chunk (chunks 3 (take (length input div 3 * 3) input)))
     @ base64_spec (drop (length input div 3 * 3) input)"
proof (induction input rule: base64_spec.induct)
  case (1 a b c rest)
  have l: "length (a # b # c # rest) = Suc (Suc (Suc (length rest)))" by simp
  have n: "length (a # b # c # rest) div 3 * 3 = Suc (Suc (Suc (length rest div 3 * 3)))"
    unfolding l div3_Suc3 by simp
  have ch: "chunks 3 (a # b # c # xs) = [a, b, c] # chunks 3 xs" for xs
    using chunks_append [of "[a, b, c]" 3 xs] by simp
  show ?case
    unfolding n take_Suc_Cons drop_Suc_Cons ch base64_spec.simps(1)
    by (subst "1.IH") (simp add: numeral_2_eq_2 base64_chunk_def)
qed simp_all

lemma base64_encode_ok:
  assumes "length out = base64_encoded_len (length input)"
  shows "base64_encode input out = (Ok (), base64_spec input)"
proof -
  define full where "full = length input div 3"
  define rem where "rem = drop (full * 3) input"
  let ?cs = "chunks 3 (take (full * 3) input)"
  let ?front = "concat (map base64_chunk ?cs)"
  have ncs: "length ?cs = full"
    by (rule length_chunks_exact [of _ _ 3]) (simp_all add: full_def)
  have enc_len: "base64_encoded_len (length input) = full * 4 + (if rem = [] then 0 else 4)"
  proof -
    have "length input = full * 3 + length rem" by (simp add: rem_def full_def)
    moreover have "length rem < 3" unfolding rem_def full_def by simp
    ultimately have "(length input + 2) div 3 = full + (if rem = [] then 0 else 1)"
      by (cases rem) (auto intro!: div_nat_eqI)
    then show ?thesis unfolding base64_encoded_len_def by simp
  qed
  have front: "write_blocks 4 base64_chunk ?cs out = ?front @ drop (full * 4) out"
    using assms ncs enc_len by (simp add: write_blocks_eq)
  have lf: "length ?front = full * 4"
    by (simp add: length_concat o_def sum_list_triv ncs)
  have tail: "write_at (full * 4) src (?front @ drop (full * 4) out) = ?front @ src"
    if "length src = 4" "rem \<noteq> []" for src
    using that assms enc_len lf by (simp add: write_at_append)
  have "length rem < 3" unfolding rem_def full_def by simp
  then consider "rem = []" | a where "rem = [a]" | a b where "rem = [a, b]"
    by (cases rem rule: remdups_adj.cases) (auto simp: Suc_le_eq neq_Nil_conv)
  moreover have "base64_spec input = ?front @ base64_spec rem"
    using base64_spec_split [of input] by (simp add: full_def rem_def)
  ultimately show ?thesis
    using assms enc_len
    by (cases, simp_all add: base64_encode_def Let_def front tail flip: full_def rem_def)
qed

lemma b64_eq: "b64 input = base64_spec input"
  by (simp add: b64_def base64_encode_ok)

subsection \<open>The decoder\<close>

definition base64_pos_ok :: "nat \<Rightarrow> nat \<Rightarrow> u8 \<Rightarrow> bool" where
  "base64_pos_ok data_chars p c \<longleftrightarrow> (if data_chars \<le> p then c = 61 else base64_alphabet c)"

lemma base64_decode_char_eq:
  "base64_decode_char dc bi (j, c) (valid, n) =
     ((if base64_pos_ok dc (bi * 4 + j) c then valid else 0),
      n OR push_bit (18 - 6 * j) (ucast (fst (base64_value c))))"
  using base64_value_valid [of c]
  using neg_mask_pad [of True] neg_mask_pad [of False]
  by (cases "base64_value c") (simp add: base64_decode_char_def base64_pos_ok_def)

fun base64_dec :: "bytes \<Rightarrow> bytes" where
  "base64_dec [c0, c1, c2, c3] = base64_bytes (base64_group_val (fst (base64_value c0))
     (fst (base64_value c1)) (fst (base64_value c2)) (fst (base64_value c3)))"
| "base64_dec _ = []"

definition base64_block_ok :: "nat \<Rightarrow> nat \<Rightarrow> bytes \<Rightarrow> bool" where
  "base64_block_ok dc bi blk \<longleftrightarrow> (\<forall>j < length blk. base64_pos_ok dc (bi * 4 + j) (blk ! j))"

lemma length4E:
  assumes "length xs = 4"
  obtains c0 c1 c2 c3 where "xs = [c0, c1, c2, c3]"
  using assms by (auto simp: numeral_eq_Suc length_Suc_conv)

lemma base64_decode_block_eq:
  assumes "length blk = 4"
  shows "base64_decode_block dc decoded (bi, blk) (valid, st) =
    ((if base64_block_ok dc bi blk then valid else 0), fold (base64_put decoded) (base64_dec blk) st)"
proof -
  from assms obtain c0 c1 c2 c3 where blk: "blk = [c0, c1, c2, c3]" by (rule length4E)
  have ok: "base64_block_ok dc bi blk \<longleftrightarrow> base64_pos_ok dc (bi * 4) c0 \<and> base64_pos_ok dc (bi * 4 + 1) c1
      \<and> base64_pos_ok dc (bi * 4 + 2) c2 \<and> base64_pos_ok dc (bi * 4 + 3) c3"
    by (simp add: blk base64_block_ok_def All_less_Suc numeral_eq_Suc conj_ac)
  show ?thesis
    unfolding ok by (simp add: blk base64_decode_block_def base64_decode_char_eq Let_def
        base64_bytes_def base64_group_val_def numeral_2_eq_2 numeral_3_eq_3 or.assoc)
qed

lemma length_base64_dec: "length blk = 4 \<Longrightarrow> length (base64_dec blk) = 3"
  by (elim length4E) (simp add: base64_bytes_def)

lemma base64_put_fold:
  assumes "length pre \<le> decoded" "decoded \<le> length pre + length rest"
  shows "fold (base64_put decoded) bs (length pre, pre @ rest) =
    (let w = pre @ take (decoded - length pre) bs in (length w, w @ drop (length w - length pre) rest))"
  using assms
proof (induction bs arbitrary: pre rest)
  case Nil
  then show ?case by simp
next
  case (Cons b bs)
  show ?case
  proof (cases "length pre < decoded")
    case True
    then obtain r rest' where rest: "rest = r # rest'" using Cons.prems by (cases rest) auto
    have "base64_put decoded b (length pre, pre @ rest) = (length (pre @ [b]), (pre @ [b]) @ rest')"
      using True by (simp add: base64_put_def rest)
    with Cons.IH [of "pre @ [b]" rest'] True Cons.prems show ?thesis
      by (simp add: rest Let_def Suc_diff_Suc take_Cons' del: append_assoc)
  next
    case False
    then have "base64_put decoded b (length pre, pre @ rest) = (length pre, pre @ rest)"
      by (simp add: base64_put_def)
    with Cons.IH [of pre rest] False Cons.prems show ?thesis by simp
  qed
qed

lemma base64_blocks_loop:
  assumes "\<And>blk. blk \<in> set blks \<Longrightarrow> length blk = 4"
  shows "fold (base64_decode_block dc decoded) (enumerate bi blks) (valid, st) =
    (if \<forall>i < length blks. base64_block_ok dc (bi + i) (blks ! i) then valid else 0,
     fold (base64_put decoded) (concat (map base64_dec blks)) st)"
  using assms
proof (induction blks arbitrary: bi valid st)
  case Nil
  then show ?case by simp
next
  case (Cons blk blks)
  then show ?case
    by (auto simp add: base64_decode_block_eq Cons.IH All_less_Suc2)
qed

text \<open>
  Every position is checked: the block-wise test is the position-wise one.
\<close>

definition base64_input_ok :: "nat \<Rightarrow> bytes \<Rightarrow> bool" where
  "base64_input_ok data_chars input \<longleftrightarrow>
     (\<forall>p < length input. base64_pos_ok data_chars p (input ! p))"

lemma base64_blocks_ok:
  assumes "length input = n * 4"
  shows "(\<forall>i < n. base64_block_ok dc i (chunks 4 input ! i)) \<longleftrightarrow> base64_input_ok dc input"
proof
  assume r: "\<forall>i < n. base64_block_ok dc i (chunks 4 input ! i)"
  show "base64_input_ok dc input"
    unfolding base64_input_ok_def
  proof (intro allI impI)
    fix p assume "p < length input"
    then have i: "p div 4 < n" using assms by auto
    then have "chunks 4 input ! (p div 4) \<in> set (chunks 4 input)"
      using assms by (simp add: length_chunks_exact)
    then have "length (chunks 4 input ! (p div 4)) = 4"
      using assms chunks_exact_lengths by fastforce
    with r i have "base64_pos_ok dc (p div 4 * 4 + p mod 4) (chunks 4 input ! (p div 4) ! (p mod 4))"
      by (metis base64_block_ok_def mod_less_divisor zero_less_numeral)
    then show "base64_pos_ok dc p (input ! p)"
      using assms i by (simp add: nth_chunks [of input n 4])
  qed
next
  assume r: "base64_input_ok dc input"
  show "\<forall>i < n. base64_block_ok dc i (chunks 4 input ! i)"
  proof (intro allI impI)
    fix i assume i: "i < n"
    then have "chunks 4 input ! i \<in> set (chunks 4 input)"
      using assms by (simp add: length_chunks_exact)
    then have "length (chunks 4 input ! i) = 4"
      using assms chunks_exact_lengths by fastforce
    then show "base64_block_ok dc i (chunks 4 input ! i)"
      using r i assms unfolding base64_block_ok_def base64_input_ok_def
      by (auto simp: nth_chunks [of input n 4])
  qed
qed

definition base64_payload :: "bytes \<Rightarrow> bytes" where
  "base64_payload input =
     take (length input div 4 * 3 - base64_pad input) (concat (map base64_dec (chunks 4 input)))"

lemma base64_decode_eq:
  assumes "length input = n * 4" "input \<noteq> []" "n * 3 - base64_pad input \<le> length out"
  shows "base64_decode input out =
    (if base64_input_ok (length input - base64_pad input) input
     then (Ok (n * 3 - base64_pad input), base64_payload input @ drop (n * 3 - base64_pad input) out)
     else (Err MalformedEncoding ''base64 character'',
           replicate (n * 3 - base64_pad input) 0 @ drop (n * 3 - base64_pad input) out))"
proof -
  let ?d = "n * 3 - base64_pad input"
  let ?bs = "concat (map base64_dec (chunks 4 input))"
  have len4: "\<And>blk. blk \<in> set (chunks 4 input) \<Longrightarrow> length blk = 4"
    using assms(1) chunks_exact_lengths by fastforce
  have lb: "length (chunks 4 input) = n" using assms(1) by (simp add: length_chunks_exact)
  have "length ?bs = n * 3"
    using len4 by (simp add: length_concat o_def length_base64_dec lb sum_list_triv cong: map_cong)
  then have lt: "length (take ?d ?bs) = ?d" by simp
  have "fold (base64_put ?d) ?bs (0, out) = (?d, take ?d ?bs @ drop ?d out)"
    using base64_put_fold [of "[]" ?d out ?bs] assms(3) lt by (simp add: Let_def)
  moreover have "base64_payload input = take ?d ?bs"
    using assms(1) by (simp add: base64_payload_def)
  ultimately show ?thesis
    using assms lt base64_blocks_ok [OF assms(1)]
    by (simp add: base64_decode_def base64_blocks_loop len4 lb Let_def)
qed

subsection \<open>Decoding an encoding\<close>

lemma base64_alphabet_char: "unat v < 64 \<Longrightarrow> base64_alphabet (base64_char v)"
  using base64_value_valid [of "base64_char v"] base64_value_char [of v]
  by (simp split: if_splits)

lemma base64_group_nth:
  assumes "j < 4"
  shows "base64_alphabet (base64_group n ! j) \<and> base64_group n ! j \<noteq> 61"
proof -
  have "j = 0 \<or> j = 1 \<or> j = 2 \<or> j = 3" using assms by linarith
  then show ?thesis
    by (elim disjE) (simp_all add: base64_group_def base64_alphabet_char base64_value_char u6_bound)
qed

lemma base64_dec_group: "base64_dec (base64_group n) = base64_bytes (n AND mask 24)"
  by (simp add: base64_group_def base64_value_char u6_bound base64_group_val_split)

lemma base64_value_pad: "fst (base64_value 61) = 0"
  by (simp add: base64_value_cases)

lemma base64_n3_low: "ucast (base64_n3 a b 0) AND 63 = (0 :: u8)"
  "ucast (drop_bit 6 (base64_n3 a 0 0)) AND 63 = (0 :: u8)"
  unfolding mask_numerals_u8
  by (rule bit_word_eqI; auto simp: bit_simps dest: u8_bit_less)+

lemma base64_dec_tail:
  "base64_dec (take 3 (base64_group (base64_n3 a b 0)) @ [61]) = [a, b, 0]"
  "base64_dec (take 2 (base64_group (base64_n3 a 0 0)) @ [61, 61]) = [a, 0, 0]"
  using base64_dec_group [of "base64_n3 a b 0"] base64_dec_group [of "base64_n3 a 0 0"]
    base64_bytes_group [of a b 0] base64_bytes_group [of a 0 0]
    base64_n3_low(1) [of a b] base64_n3_low(1) [of a 0] base64_n3_low(2) [of a]
  by (simp_all add: base64_group_def base64_value_pad base64_value_char u6_bound)

definition base64_padlen :: "nat \<Rightarrow> nat" where
  "base64_padlen n = (n + 2) div 3 * 3 - n"

lemma base64_padlen_simps [simp]:
  "base64_padlen 0 = 0" "base64_padlen (Suc 0) = 2" "base64_padlen 2 = 1"
  by (simp_all add: base64_padlen_def)

lemma base64_padlen_step [simp]: "base64_padlen (Suc (Suc (Suc n))) = base64_padlen n"
proof -
  have "(Suc (Suc (Suc n)) + 2) div 3 = Suc ((n + 2) div 3)" by simp
  then show ?thesis unfolding base64_padlen_def by simp
qed

lemma base64_dec_spec:
  "concat (map base64_dec (chunks 4 (base64_spec xs))) = xs @ replicate (base64_padlen (length xs)) 0"
proof (induction xs rule: base64_spec.induct)
  case (1 a b c rest)
  then show ?case
    using base64_bytes_group [of a b c] by (simp add: chunks_append base64_dec_group)
next
  case (2 a b)
  show ?case
    using chunks_append [of "take 3 (base64_group (base64_n3 a b 0)) @ [61]" 4 "[]"]
    by (simp add: base64_dec_tail [simplified] flip: numeral_2_eq_2)
next
  case (3 a)
  show ?case
    using chunks_append [of "take 2 (base64_group (base64_n3 a 0 0)) @ [61, 61]" 4 "[]"]
    using base64_dec_tail(2) [of a] by (simp add: numeral_2_eq_2)
qed simp

lemma base64_spec_nonempty: "base64_spec xs = [] \<longleftrightarrow> xs = []"
proof
  assume "base64_spec xs = []"
  then have "base64_encoded_len (length xs) = 0" by (simp flip: length_base64_spec)
  then show "xs = []" by (cases xs) (simp_all add: base64_encoded_len_def)
qed simp

lemma base64_pad_append: "2 \<le> length s \<Longrightarrow> base64_pad (g @ s) = base64_pad s"
  by (auto simp: base64_pad_def nth_append)

lemma base64_spec_length_ge: "xs \<noteq> [] \<Longrightarrow> 4 \<le> length (base64_spec xs)"
  by (cases xs rule: base64_spec.cases) simp_all

lemma base64_pad_spec: "xs \<noteq> [] \<Longrightarrow> base64_pad (base64_spec xs) = base64_padlen (length xs)"
proof (induction xs rule: base64_spec.induct)
  case (1 a b c rest)
  show ?case
  proof (cases "rest = []")
    case True
    then show ?thesis by (simp add: base64_pad_def base64_group_nth)
  next
    case False
    with base64_spec_length_ge have "2 \<le> length (base64_spec rest)" by fastforce
    with 1 False show ?thesis by (simp add: base64_pad_append)
  qed
next
  case (2 a b)
  then show ?case
    by (simp add: base64_pad_def nth_append base64_group_nth flip: numeral_2_eq_2)
next
  case (3 a)
  then show ?case by (simp add: base64_pad_def nth_append)
qed simp

lemma base64_input_ok_append:
  assumes "length g = 4" "\<And>j. j < 4 \<Longrightarrow> base64_alphabet (g ! j)" "base64_input_ok dc s"
  shows "base64_input_ok (4 + dc) (g @ s)"
proof -
  have "base64_pos_ok (4 + dc) p ((g @ s) ! p)" if "p < 4 + length s" for p
    using assms that less_diff_conv2 [of 4 p "length s"]
    by (cases "p < 4") (auto simp: base64_input_ok_def base64_pos_ok_def nth_append)
  then show ?thesis using assms(1) by (simp add: base64_input_ok_def)
qed

lemma base64_spec_ok:
  "base64_input_ok (length (base64_spec xs) - base64_padlen (length xs)) (base64_spec xs)"
proof (induction xs rule: base64_spec.induct)
  case (1 a b c rest)
  have "base64_padlen (length rest) \<le> length (base64_spec rest)"
    by (simp add: length_base64_spec base64_encoded_len_def base64_padlen_def)
  with base64_input_ok_append [OF _ _ 1, of "base64_group (base64_n3 a b c)"] show ?case
    by (simp add: base64_group_nth)
next
  case (2 a b)
  then show ?case
    by (simp add: base64_input_ok_def base64_pos_ok_def nth_append base64_group_nth
        flip: numeral_2_eq_2)
next
  case (3 a)
  then show ?case
    by (simp add: base64_input_ok_def base64_pos_ok_def nth_append base64_group_nth
        All_less_Suc numeral_eq_Suc)
qed (simp add: base64_input_ok_def)

lemma unb64_b64: "unb64 (b64 xs) = Ok xs"
proof (cases "xs = []")
  case True
  then show ?thesis by (simp add: b64_eq unb64_def base64_decode_def)
next
  case False
  let ?s = "base64_spec xs"
  let ?n = "(length xs + 2) div 3"
  have n: "length ?s = ?n * 4" by (simp add: length_base64_spec base64_encoded_len_def)
  have pad: "base64_pad ?s = base64_padlen (length xs)"
    using False by (rule base64_pad_spec)
  then have d: "?n * 3 - base64_pad ?s = length xs" by (simp add: base64_padlen_def)
  moreover have "base64_payload ?s = xs"
    using n d by (simp add: base64_payload_def base64_dec_spec)
  ultimately show ?thesis
    using base64_decode_eq [OF n, of "replicate (?n * 3) 0"] base64_spec_ok [of xs] n pad False
    by (simp add: unb64_def b64_eq base64_spec_nonempty)
qed

lemma length_base64_payload:
  assumes "length s = n * 4"
  shows "length (base64_payload s) = n * 3 - base64_pad s"
proof -
  have "length (concat (map base64_dec (chunks 4 s))) = n * 3"
    using assms chunks_exact_lengths [of s n 4]
    by (simp add: length_concat o_def length_base64_dec sum_list_triv length_chunks_exact cong: map_cong)
  then show ?thesis using assms by (simp add: base64_payload_def)
qed

text \<open>What decoding a text of any length yields, errors included.\<close>

lemma unb64_eq:
  "unb64 s = (if length s mod 4 \<noteq> 0 then Err MalformedEncoding ''base64 length''
              else if s = [] then Ok []
              else if base64_input_ok (length s - base64_pad s) s then Ok (base64_payload s)
              else Err MalformedEncoding ''base64 character'')"
proof (cases "length s mod 4 = 0 \<and> s \<noteq> []")
  case True
  define n where "n = length s div 4"
  have n: "length s = n * 4" 
    using True div_mult_mod_eq [of "length s" 4] by (simp add: n_def)
  have "n * 3 - base64_pad s \<le> length (replicate (n * 3) (0 :: u8))" by simp
  note eq = base64_decode_eq [OF n _ this]
  show ?thesis
    using True eq length_base64_payload [OF n] n by (auto simp: unb64_def)
qed (auto simp: unb64_def base64_decode_def)

end
