(* ===== verification/Core_Base64.thy ===== *)
theory Core_Base64
  imports Core_Codec
begin

text \<open>
  Base64 as RFC 4648 states it, against the arithmetic of
  \<open>crates/ic-core/src/codec.rs\<close>. The reference shares nothing with the code: the
  alphabet is Table 1 of the RFC as a text, a group of characters is cut out of the
  number its bytes spell by division, and a character stands for its position in the
  table.
\<close>

section \<open>The reference\<close>

definition RFC4648_ALPHABET :: string where
  "RFC4648_ALPHABET = ''ABCDEFGHIJKLMNOPQRSTUVWXYZabcdefghijklmnopqrstuvwxyz0123456789+/''"

definition sextet_char :: "nat \<Rightarrow> char" where
  "sextet_char k = RFC4648_ALPHABET ! k"

definition char_sextet :: "char \<Rightarrow> nat option" where
  "char_sextet c = map_of (zip RFC4648_ALPHABET [0..<64]) c"

text \<open>Section 4: 24 bits are four characters, 16 are three and a pad, 8 are two and two pads.\<close>

fun rfc4648_encode :: "bytes \<Rightarrow> string" where
  "rfc4648_encode (a # b # c # rest) =
     (let n = unat a * 65536 + unat b * 256 + unat c
      in [sextet_char (n div 262144), sextet_char (n div 4096 mod 64),
          sextet_char (n div 64 mod 64), sextet_char (n mod 64)] @ rfc4648_encode rest)"
| "rfc4648_encode [a, b] =
     (let n = (unat a * 256 + unat b) * 4
      in [sextet_char (n div 4096), sextet_char (n div 64 mod 64), sextet_char (n mod 64)] @ ''='')"
| "rfc4648_encode [a] =
     (let n = unat a * 16 in [sextet_char (n div 64), sextet_char (n mod 64)] @ ''=='')"
| "rfc4648_encode [] = []"

text \<open>
  And back. Padding is at the end of the text only; the bits a padded group has to spare
  are dropped, as section 3.5 leaves open.
\<close>

fun sextets :: "string \<Rightarrow> nat option" where
  "sextets cs = fold (\<lambda>c acc. case (acc, char_sextet c) of
      (Some n, Some v) \<Rightarrow> Some (n * 64 + v) | _ \<Rightarrow> None) cs (Some 0)"

fun rfc4648_decode :: "string \<Rightarrow> bytes option" where
  "rfc4648_decode [] = Some []"
| "rfc4648_decode (c0 # c1 # c2 # c3 # rest) =
     (if rest = [] \<and> [c2, c3] = ''==''
      then map_option (\<lambda>n. [of_nat (n div 16)]) (sextets [c0, c1])
      else if rest = [] \<and> c3 = CHR ''=''
      then map_option (\<lambda>n. [of_nat (n div 1024), of_nat (n div 4)]) (sextets [c0, c1, c2])
      else case (sextets [c0, c1, c2, c3], rfc4648_decode rest) of
          (Some n, Some xs) \<Rightarrow> Some ([of_nat (n div 65536), of_nat (n div 256), of_nat n] @ xs)
        | _ \<Rightarrow> None)"
| "rfc4648_decode _ = None"

definition text_bytes :: "string \<Rightarrow> bytes" where
  "text_bytes s = map of_char s"

section \<open>The alphabet\<close>

lemma sextet_table: "list_all (\<lambda>k. of_char (sextet_char k) = base64_char (of_nat k)) [0..<64]"
  by code_simp

lemma sextet_char_code: "k < 64 \<Longrightarrow> of_char (sextet_char k) = base64_char (of_nat k)"
  using sextet_table by (simp add: list_all_iff)


lemma length_alphabet [simp]: "length RFC4648_ALPHABET = 64"
  by (simp add: RFC4648_ALPHABET_def)

lemma distinct_alphabet: "distinct RFC4648_ALPHABET"
  by (simp add: RFC4648_ALPHABET_def)

lemma pad_not_in_alphabet: "CHR ''='' \<notin> set RFC4648_ALPHABET"
  by (simp add: RFC4648_ALPHABET_def)

lemma char_sextet_iff: "char_sextet c = Some k \<longleftrightarrow> k < 64 \<and> c = sextet_char k"
proof -
  have "map_of (zip RFC4648_ALPHABET [0..<64]) c = Some k
      \<longleftrightarrow> (c, k) \<in> set (zip RFC4648_ALPHABET [0..<64])"
    using distinct_alphabet by (simp add: map_of_eq_Some_iff)
  then show ?thesis by (auto simp: char_sextet_def sextet_char_def in_set_zip)
qed

lemma of_char_u8_eq [simp]: "(of_char c :: u8) = of_char d \<longleftrightarrow> c = d"
proof
  assume "(of_char c :: u8) = of_char d"
  then have "(word_of_nat (of_char c) :: u8) = word_of_nat (of_char d)" by (simp add: of_nat_of_char)
  then have "unat (word_of_nat (of_char c) :: u8) = unat (word_of_nat (of_char d) :: u8)" by simp
  moreover have "(of_char x :: nat) < 256" for x
    using of_char_mod_256 [of x, where 'a = nat] mod_less_divisor [of 256 "of_char x :: nat"] by simp
  ultimately have "(of_char c :: nat) = of_char d" by (simp add: of_nat_inverse)
  then show "c = d" by (simp add: of_char_eq_iff)
qed simp

text \<open>What the decoder's arithmetic makes of a character.\<close>

lemma base64_value_bound: "unat (fst (base64_value c)) < 64"
proof -
  consider "unat c \<in> {65..90}" | "unat c \<in> {97..122}" | "unat c \<in> {48..57}" | "c = 43" | "c = 47"
    | "\<not> base64_alphabet c"
    by (auto simp: base64_alphabet_def word_unat_eq_iff [of c])
  then show ?thesis
  proof cases
    case 1
    then have "unat (c - 65) = unat c - 65" by (simp add: unat_sub_if')
    with 1 show ?thesis by (auto simp add: base64_value_cases)
  next
    case 2
    then have "unat (c - 71) = unat c - 71" by (simp add: unat_sub_if')
    with 2 show ?thesis by (auto simp add: base64_value_cases)
  next
    case 3
    then have "unat (4 + c) = unat c + 4" by (simp add: unat_word_ariths)
    with 3 show ?thesis by (auto simp add: base64_value_cases)
  qed (simp add: base64_value_cases, simp add: base64_value_cases, simp add: base64_value_invalid)
qed

lemma char_value:
  "base64_alphabet (of_char c) \<longleftrightarrow> char_sextet c \<noteq> None"
  "char_sextet c = Some k \<Longrightarrow> fst (base64_value (of_char c)) = of_nat k"
proof -
  have u: "unat (of_nat k :: u8) = k" if "k < 64" for k
    using that by (simp add: of_nat_inverse)
  show some: "fst (base64_value (of_char c)) = of_nat k" if "char_sextet c = Some k" for k
    using that base64_value_char [of "of_nat k"] by (auto simp: char_sextet_iff sextet_char_code u)
  show "base64_alphabet (of_char c) \<longleftrightarrow> char_sextet c \<noteq> None"
  proof
    assume "base64_alphabet (of_char c)"
    then have v: "base64_char (fst (base64_value (of_char c))) = of_char c"
      "unat (fst (base64_value (of_char c))) < 64"
      by (simp_all add: base64_char_value base64_value_bound)
    define k where "k = unat (fst (base64_value (of_char c)))"
    have "of_char (sextet_char k) = (of_char c :: u8)"
      using v by (simp add: sextet_char_code k_def)
    then show "char_sextet c \<noteq> None"
      using v(2) char_sextet_iff [of c k] by (simp add: k_def)
  next
    assume "char_sextet c \<noteq> None"
    then obtain k where "k < 64" "c = sextet_char k" by (auto simp: char_sextet_iff)
    then show "base64_alphabet (of_char c)"
      using base64_alphabet_char [of "of_nat k"] by (simp add: sextet_char_code u)
  qed
qed

section \<open>Encoding\<close>

lemma sextet_of_word: "ucast (drop_bit j n) AND 63 = (of_nat (unat n div 2 ^ j mod 64) :: u8)"
  for n :: u32
proof -
  have "unat (ucast (drop_bit j n) AND 63 :: u8) = unat n div 2 ^ j mod 64"
    by (simp add: mask_numerals_u8 unat_and_mask unat_ucast unat_drop_bit_eq mod_mod_cancel
        flip: drop_bit_eq_div)
  then show ?thesis using word_unat_eq_iff [of "ucast (drop_bit j n) AND 63" "of_nat (unat n div 2 ^ j mod 64) :: u8"]
    by (simp add: of_nat_inverse less_trans [OF mod_less_divisor])
qed

lemma base64_group_text:
  "base64_group n = text_bytes (map sextet_char
     [unat n div 262144 mod 64, unat n div 4096 mod 64, unat n div 64 mod 64, unat n mod 64])"
  using sextet_of_word [of 18 n] sextet_of_word [of 12 n] sextet_of_word [of 6 n]
    sextet_of_word [of 0 n]
  by (simp add: base64_group_def text_bytes_def sextet_char_code)

lemma or_plus: "x AND y = 0 \<Longrightarrow> x OR y = x + y" for x y :: "'a::len word"
  using word_plus_and_or [of x y] by simp

lemma unat_base64_n3: "unat (base64_n3 a b c) = unat a * 65536 + unat b * 256 + unat c"
proof -
  have s: "unat (push_bit 16 (ucast a) :: u32) = unat a * 65536" "unat (push_bit 8 (ucast b) :: u32) = unat b * 256"
    "unat (ucast c :: u32) = unat c"
    using unsigned_less [where 'a = nat, of a] unsigned_less [where 'a = nat, of b]
      unsigned_less [where 'a = nat, of c]
    by (simp_all add: push_bit_eq_mult unat_word_ariths unat_ucast)
  have d: "push_bit 16 (ucast a) AND push_bit 8 (ucast b) = (0 :: u32)"
    "(push_bit 16 (ucast a) OR push_bit 8 (ucast b)) AND ucast c = (0 :: u32)"
    by (rule bit_word_eqI; auto simp: bit_simps dest: u8_bit_less)+
  have "base64_n3 a b c = push_bit 16 (ucast a) + push_bit 8 (ucast b) + ucast c"
    unfolding or.assoc [symmetric] unfolding or_plus [OF d(2)] unfolding or_plus [OF d(1)] by simp
  then show ?thesis
    using unsigned_less [where 'a = nat, of a] unsigned_less [where 'a = nat, of b] unsigned_less [where 'a = nat, of c]
    by (simp add: unat_word_ariths s)
qed

lemma div_scaled:
  "(64 * n) div 262144 = n div (4096 :: nat)" "(64 * n) div 4096 = n div (64 :: nat)"
  "(64 * n) div 64 = (n :: nat)"
  "(4096 * n) div 262144 = n div (64 :: nat)" "(4096 * n) div 4096 = (n :: nat)"
  by simp_all

lemma base64_spec_text: "base64_spec xs = text_bytes (rfc4648_encode xs)"
proof (induction xs rule: base64_spec.induct)
  case (1 a b c rest)
  have "unat a < 256" "unat b < 256" "unat c < 256"
    using unsigned_less [where 'a = nat, of a] unsigned_less [where 'a = nat, of b] unsigned_less [where 'a = nat, of c] by simp_all
  with 1 show ?case
    by (simp add: base64_group_text unat_base64_n3 text_bytes_def Let_def)
next
  case (2 a b)
  let ?n = "(unat a * 256 + unat b) * 4"
  have "?n div 4096 < 64"
    using unsigned_less [where 'a = nat, of a] unsigned_less [where 'a = nat, of b] by simp
  moreover have "unat (base64_n3 a b 0) = 64 * ?n" by (simp only: unat_base64_n3) simp
  ultimately show ?case
    unfolding base64_spec.simps base64_group_text
    by (simp only: div_scaled mod_less) (simp add: text_bytes_def Let_def mult.commute)
next
  case (3 a)
  let ?n = "unat a * 16"
  have "?n div 64 < 64" using unsigned_less [where 'a = nat, of a] by simp
  moreover have "unat (base64_n3 a 0 0) = 4096 * ?n" by (simp only: unat_base64_n3) simp
  ultimately show ?case
    unfolding base64_spec.simps base64_group_text
    by (simp only: div_scaled mod_less) (simp add: text_bytes_def Let_def mult.commute)
qed (simp add: text_bytes_def)


section \<open>Decoding\<close>

text \<open>A group of four characters, none of them padding.\<close>

lemma base64_pos_text: "base64_pos_ok dc p (of_char c) \<longleftrightarrow>
    (if dc \<le> p then c = CHR ''='' else char_sextet c \<noteq> None)"
  using of_char_u8_eq [of c "CHR ''=''"] by (simp add: base64_pos_ok_def char_value(1))

lemma char_sextet_pad [simp]: "char_sextet (CHR ''='') = None"
  by (simp add: char_sextet_def RFC4648_ALPHABET_def upt_rec_numeral)

lemma char_sextet_less: "char_sextet c = Some v \<Longrightarrow> v < 64"
  by (simp add: char_sextet_iff)

lemma base64_bytes_nat: "base64_bytes (of_nat n) =
    [of_nat (n div 65536), of_nat (n div 256), of_nat n]" if "n < 2 ^ 24"
proof -
  have u: "unat (of_nat n :: u32) = n" using that by (simp add: of_nat_inverse)
  have "ucast (drop_bit j (of_nat n :: u32)) = (of_nat (n div 2 ^ j) :: u8)" for j
    unfolding word_unat_eq_iff
    by (simp add: unat_ucast unat_drop_bit_eq u unat_of_nat_u8 flip: drop_bit_eq_div del: unat_of_nat)
  from this [of 16] this [of 8] this [of 0] show ?thesis by (simp add: base64_bytes_def)
qed

lemma sextets_or:
  fixes w0 w1 w2 w3 :: u32
  assumes "\<And>i. bit w0 i \<Longrightarrow> i < 6" "\<And>i. bit w1 i \<Longrightarrow> i < 6" "\<And>i. bit w2 i \<Longrightarrow> i < 6"
    "\<And>i. bit w3 i \<Longrightarrow> i < 6"
  shows "push_bit 18 w0 OR push_bit 12 w1 OR push_bit 6 w2 OR w3 =
    push_bit 18 w0 + push_bit 12 w1 + push_bit 6 w2 + w3"
proof -
  have d: "push_bit 18 w0 AND push_bit 12 w1 = 0"
    "(push_bit 18 w0 OR push_bit 12 w1) AND push_bit 6 w2 = 0"
    "(push_bit 18 w0 OR push_bit 12 w1 OR push_bit 6 w2) AND w3 = 0"
    by (rule bit_word_eqI; auto simp: bit_simps dest!: assms)+
  have e: "push_bit 18 w0 OR push_bit 12 w1 OR push_bit 6 w2 OR w3
      = (push_bit 18 w0 OR push_bit 12 w1 OR push_bit 6 w2) OR w3"
    "push_bit 18 w0 OR push_bit 12 w1 OR push_bit 6 w2 = (push_bit 18 w0 OR push_bit 12 w1) OR push_bit 6 w2"
    by (simp_all only: or.assoc)
  show ?thesis
    unfolding e(1) or_plus [OF d(3)] unfolding e(2) or_plus [OF d(2)] unfolding or_plus [OF d(1)]
    by (rule refl)
qed

lemma base64_group_val_nat:
  assumes "v0 < 64" "v1 < 64" "v2 < 64" "v3 < 64"
  shows "base64_group_val (of_nat v0) (of_nat v1) (of_nat v2) (of_nat v3) =
    of_nat (((v0 * 64 + v1) * 64 + v2) * 64 + v3)"
proof -
  have u: "(ucast (of_nat v :: u8) :: u32) = of_nat v" if "v < 64" for v
    using that by (simp only: word_unat_eq_iff unat_ucast) (simp add: of_nat_inverse)
  have b: "bit (of_nat v :: u32) i \<Longrightarrow> i < 6" if "v < 64" for v i
  proof -
    have t: "take_bit 6 (of_nat v :: u32) = of_nat v"
      using that by (simp only: word_unat_eq_iff unsigned_take_bit_eq) (simp add: of_nat_inverse take_bit_nat_eq_self)
    assume "bit (of_nat v :: u32) i"
    then have "bit (take_bit 6 (of_nat v :: u32)) i" by (simp only: t)
    then show "i < 6" by (simp only: bit_take_bit_iff)
  qed
  have "base64_group_val (of_nat v0) (of_nat v1) (of_nat v2) (of_nat v3) =
      push_bit 18 (of_nat v0) + push_bit 12 (of_nat v1) + push_bit 6 (of_nat v2) + of_nat v3"
    unfolding base64_group_val_def u [OF assms(1)] u [OF assms(2)] u [OF assms(3)] u [OF assms(4)]
    by (rule sextets_or) (erule b [OF assms(1)] b [OF assms(2)] b [OF assms(3)] b [OF assms(4)])+
  then show ?thesis by (simp add: push_bit_eq_mult algebra_simps)
qed


definition sextet_value :: "char \<Rightarrow> nat" where
  "sextet_value c = (case char_sextet c of Some v \<Rightarrow> v | None \<Rightarrow> 0)"

lemma sextet_value_less: "sextet_value c < 64"
  by (simp add: sextet_value_def char_sextet_less split: option.splits)

lemma base64_value_text: "fst (base64_value (of_char c)) = of_nat (sextet_value c)"
  by (cases "char_sextet c") (simp_all add: sextet_value_def char_value base64_value_invalid)

lemma sextets_value:
  "sextets [c0, c1] = (if char_sextet c0 \<noteq> None \<and> char_sextet c1 \<noteq> None
     then Some (sextet_value c0 * 64 + sextet_value c1) else None)"
  "sextets [c0, c1, c2] = (if char_sextet c0 \<noteq> None \<and> char_sextet c1 \<noteq> None \<and> char_sextet c2 \<noteq> None
     then Some ((sextet_value c0 * 64 + sextet_value c1) * 64 + sextet_value c2) else None)"
  "sextets [c0, c1, c2, c3] = (if char_sextet c0 \<noteq> None \<and> char_sextet c1 \<noteq> None
       \<and> char_sextet c2 \<noteq> None \<and> char_sextet c3 \<noteq> None
     then Some (((sextet_value c0 * 64 + sextet_value c1) * 64 + sextet_value c2) * 64 + sextet_value c3)
     else None)"
  by (simp_all add: sextet_value_def split: option.splits)

lemma base64_dec_text:
  "base64_dec (text_bytes [c0, c1, c2, c3]) =
    (let n = ((sextet_value c0 * 64 + sextet_value c1) * 64 + sextet_value c2) * 64 + sextet_value c3
     in [of_nat (n div 65536), of_nat (n div 256), of_nat n])"
proof -
  have "((sextet_value c0 * 64 + sextet_value c1) * 64 + sextet_value c2) * 64 + sextet_value c3 < 2 ^ 24"
    using sextet_value_less [of c0] sextet_value_less [of c1] sextet_value_less [of c2]
      sextet_value_less [of c3] by simp
  then show ?thesis
    by (simp only: text_bytes_def list.map base64_dec.simps base64_value_text base64_group_val_nat
        sextet_value_less base64_bytes_nat Let_def)
qed

lemma text_bytes_simps [simp]:
  "text_bytes [] = []" "text_bytes (c # cs) = of_char c # text_bytes cs"
  "length (text_bytes cs) = length cs"
  by (simp_all add: text_bytes_def)

lemma of_char_pad [simp]: "(of_char c :: u8) = 61 \<longleftrightarrow> c = CHR ''=''"
  using of_char_u8_eq [of c "CHR ''=''"] by simp

lemma pad_scaled:
  "((x * 64 + 0) * 64 + 0) div 65536 = x div (16 :: nat)"
  "(x * 64 + 0) div 65536 = x div (1024 :: nat)" "(x * 64 + 0) div 256 = x div (4 :: nat)"
  using div_mult_mult1 [of 4096 x 16] div_mult_mult1 [of 64 x 1024] div_mult_mult1 [of 64 x 4]
  by (simp_all add: mult.commute)

lemma rfc4648_decode_one:
  "rfc4648_decode [c0, c1, c2, c3] =
    (if base64_input_ok (4 - base64_pad (text_bytes [c0, c1, c2, c3])) (text_bytes [c0, c1, c2, c3])
     then Some (base64_payload (text_bytes [c0, c1, c2, c3])) else None)"
proof -
  have pad: "base64_pad (text_bytes [c0, c1, c2, c3]) = of_bool (c3 = CHR ''='') + of_bool (c2 = CHR ''='')"
    by (simp add: base64_pad_def numeral_2_eq_2 numeral_3_eq_3)
  have ok: "base64_input_ok dc (text_bytes [c0, c1, c2, c3]) \<longleftrightarrow>
      base64_pos_ok dc 0 (of_char c0) \<and> base64_pos_ok dc 1 (of_char c1)
      \<and> base64_pos_ok dc 2 (of_char c2) \<and> base64_pos_ok dc 3 (of_char c3)" for dc
    by (simp add: base64_input_ok_def All_less_Suc numeral_eq_Suc conj_ac)
  have pay: "base64_payload (text_bytes [c0, c1, c2, c3]) =
      take (3 - base64_pad (text_bytes [c0, c1, c2, c3])) (base64_dec (text_bytes [c0, c1, c2, c3]))"
    using chunks_append [of "text_bytes [c0, c1, c2, c3]" 4 "[]"] by (simp add: base64_payload_def)
  have v: "sextet_value (CHR ''='') = 0" by (simp add: sextet_value_def)
  consider (two) "c2 = CHR ''=''" "c3 = CHR ''=''" | (one) "c2 \<noteq> CHR ''=''" "c3 = CHR ''=''"
    | (late) "c2 = CHR ''=''" "c3 \<noteq> CHR ''=''" | (none) "c2 \<noteq> CHR ''=''" "c3 \<noteq> CHR ''=''"
    by blast
  then show ?thesis
  proof cases
    case two
    show ?thesis
      unfolding pay ok pad base64_dec_text base64_pos_text rfc4648_decode.simps sextets_value
      by (simp only: two v pad_scaled(1) Let_def) simp
  next
    case one
    show ?thesis
      unfolding pay ok pad base64_dec_text base64_pos_text rfc4648_decode.simps sextets_value
      by (simp only: one v pad_scaled(2,3) Let_def) (simp add: one numeral_2_eq_2)
  next
    case late
    then show ?thesis
      unfolding pay ok pad base64_dec_text base64_pos_text rfc4648_decode.simps sextets_value
      by (simp only: late Let_def) (simp add: late)
  next
    case none
    then show ?thesis
      unfolding pay ok pad base64_dec_text base64_pos_text rfc4648_decode.simps sextets_value
      by (simp only: none Let_def) (simp add: none)
  qed
qed


text \<open>And a longer text: the first group decodes by itself, and the padding is the rest's.\<close>

lemma base64_input_ok_group:
  assumes "length g = 4"
  shows "base64_input_ok (4 + dc) (g @ s) \<longleftrightarrow> (\<forall>j < 4. base64_alphabet (g ! j)) \<and> base64_input_ok dc s"
proof -
  have "(\<forall>p < 4 + length s. Q p) \<longleftrightarrow> (\<forall>p < 4. Q p) \<and> (\<forall>p < length s. Q (4 + p))" for Q :: "nat \<Rightarrow> bool"
  proof (intro iffI conjI allI impI)
    fix p assume a: "(\<forall>p < 4. Q p) \<and> (\<forall>p < length s. Q (4 + p))" "p < 4 + length s"
    show "Q p"
    proof (cases "p < 4")
      case False
      then have "Q (4 + (p - 4))" using a by (intro a(1) [THEN conjunct2, rule_format]) arith
      then show ?thesis using False by simp
    qed (use a in simp)
  qed simp_all
  from this [of "\<lambda>p. base64_pos_ok (4 + dc) p ((g @ s) ! p)"] show ?thesis
    using assms by (simp add: base64_input_ok_def base64_pos_ok_def nth_append)
qed

lemma base64_payload_group:
  assumes "length g = 4" "length s = n * 4" "s \<noteq> []"
  shows "base64_payload (g @ s) = base64_dec g @ base64_payload s"
proof -
  have "2 \<le> length s" using assms(2,3) by (cases n) auto
  moreover have "(length (g @ s)) div 4 * 3 - base64_pad s = 3 + (length s div 4 * 3 - base64_pad s)"
  proof -
    have "base64_pad s \<le> 2" by (simp add: base64_pad_def)
    moreover have "1 \<le> n" using assms(2,3) by (cases n) auto
    ultimately show ?thesis using assms(1,2) by simp
  qed
  ultimately show ?thesis
    using assms(1) by (simp add: base64_payload_def base64_pad_append chunks_append length_base64_dec)
qed

lemma rfc4648_decode_text:
  assumes "length t = Suc n * 4"
  shows "rfc4648_decode t =
    (if base64_input_ok (length t - base64_pad (text_bytes t)) (text_bytes t)
     then Some (base64_payload (text_bytes t)) else None)"
  using assms
proof (induction n arbitrary: t)
  case 0
  then obtain c0 c1 c2 c3 where t: "t = [c0, c1, c2, c3]"
    by (auto simp: numeral_eq_Suc length_Suc_conv)
  have "length [c0, c1, c2, c3] = 4" by simp
  then show ?case by (simp only: t rfc4648_decode_one)
next
  case (Suc n)
  then obtain c0 c1 c2 c3 r where t: "t = [c0, c1, c2, c3] @ r" and r: "length r = Suc n * 4"
    by (auto simp: numeral_eq_Suc length_Suc_conv)
  let ?g = "text_bytes [c0, c1, c2, c3]"
  have ne: "r \<noteq> []" "text_bytes r \<noteq> []" using r by (auto simp: text_bytes_def)
  have len: "length ?g = 4" by simp
  have tb: "text_bytes t = ?g @ text_bytes r" by (simp add: t)
  have "2 \<le> length (text_bytes r)" using r by simp
  then have pad: "base64_pad (text_bytes t) = base64_pad (text_bytes r)"
    unfolding tb by (rule base64_pad_append)
  have "base64_pad (text_bytes r) \<le> 2" by (simp add: base64_pad_def)
  then have dc: "length t - base64_pad (text_bytes t) = 4 + (length r - base64_pad (text_bytes r))"
    unfolding pad using r by (simp add: t)
  have g: "(\<forall>j < 4. base64_alphabet (?g ! j)) \<longleftrightarrow> sextets [c0, c1, c2, c3] \<noteq> None"
    unfolding sextets_value by (simp add: All_less_Suc numeral_eq_Suc char_value(1) conj_ac)
  have ok: "base64_input_ok (length t - base64_pad (text_bytes t)) (text_bytes t) \<longleftrightarrow>
      sextets [c0, c1, c2, c3] \<noteq> None \<and> base64_input_ok (length r - base64_pad (text_bytes r)) (text_bytes r)"
    unfolding dc unfolding tb by (simp only: base64_input_ok_group [OF len] g)
  have pay: "base64_payload (text_bytes t) = base64_dec ?g @ base64_payload (text_bytes r)"
    unfolding tb by (rule base64_payload_group [where n = "Suc n"]) (use r ne in simp_all)
  have dec: "rfc4648_decode t = (case (sextets [c0, c1, c2, c3], rfc4648_decode r) of
      (Some n, Some xs) \<Rightarrow> Some ([of_nat (n div 65536), of_nat (n div 256), of_nat n] @ xs) | _ \<Rightarrow> None)"
    by (simp add: t ne del: sextets.simps)
  show ?case
    unfolding dec ok pay Suc.IH [OF r] base64_dec_text sextets_value
    by (simp add: Let_def)
qed

theorem unb64_text:
  "unb64 (text_bytes t) =
    (if length t mod 4 \<noteq> 0 then Err MalformedEncoding ''base64 length''
     else case rfc4648_decode t of
       Some xs \<Rightarrow> Ok xs | None \<Rightarrow> Err MalformedEncoding ''base64 character'')"
proof (cases "length t mod 4 = 0 \<and> t \<noteq> []")
  case True
  then have "length t = length t div 4 * 4" "length t \<noteq> 0"
    using div_mult_mod_eq [of "length t" 4] by simp_all
  then obtain k where "length t = Suc k * 4" by (cases "length t div 4") auto
  from rfc4648_decode_text [OF this] True show ?thesis
    by (simp add: unb64_eq) (simp add: text_bytes_def)
next
  case False
  then show ?thesis by (auto simp: unb64_eq)
qed

lemma b64_text: "b64 xs = text_bytes (rfc4648_encode xs)"
  by (simp only: b64_eq base64_spec_text)

lemma rfc4648_round: "rfc4648_decode (rfc4648_encode xs) = Some xs"
  using unb64_text [of "rfc4648_encode xs"] unb64_b64 [of xs]
  by (auto simp: b64_text split: option.splits if_splits)

end
