(* ===== verification/Core_Module.thy ===== *)
theory Core_Module
  imports Core_Error
begin

text \<open>
  The module's error state and self-test state: \<open>crates/ic-core/src/module.rs\<close>.
  The two atomics are fields of a record, and beside them stand the two
  configuration flags of the build, which no operation changes. Each function
  here is one sequential execution; the interleaving of several threads is the
  step relation of the theory of \<open>ic_fips\<close>, which uses one load or store per step.
\<close>

definition UNTESTED :: u8 where "UNTESTED = 0"
definition TESTING :: u8 where "TESTING = 1"
definition PASSED :: u8 where "PASSED = 2"

lemmas self_tests_consts = UNTESTED_def TESTING_def PASSED_def

record module_state =
  cfg_approved_only :: bool
  cfg_startup_gate_off :: bool
  FAILED :: bool
  SELF_TESTS :: u8

definition module_initial :: "bool \<Rightarrow> bool \<Rightarrow> module_state" where
  "module_initial approved_only gate_off =
     \<lparr>cfg_approved_only = approved_only, cfg_startup_gate_off = gate_off,
      FAILED = False, SELF_TESTS = UNTESTED\<rparr>"

definition STARTUP_GATE :: "'a module_state_scheme \<Rightarrow> bool" where
  "STARTUP_GATE m = (cfg_approved_only m \<and> \<not> cfg_startup_gate_off m)"

definition self_tests_started :: "'a module_state_scheme \<Rightarrow> 'a module_state_scheme" where
  "self_tests_started m = (if SELF_TESTS m = UNTESTED then m\<lparr>SELF_TESTS := TESTING\<rparr> else m)"

definition self_tests_passed :: "'a module_state_scheme \<Rightarrow> 'a module_state_scheme" where
  "self_tests_passed m = m\<lparr>SELF_TESTS := PASSED\<rparr>"

definition self_tests_have_passed :: "'a module_state_scheme \<Rightarrow> bool" where
  "self_tests_have_passed m = (SELF_TESTS m = PASSED)"

definition enter_error_state :: "'a module_state_scheme \<Rightarrow> 'a module_state_scheme" where
  "enter_error_state m = m\<lparr>FAILED := True\<rparr>"

definition conditional_self_test ::
  "unit result \<Rightarrow> 'a module_state_scheme \<Rightarrow> unit result \<times> 'a module_state_scheme" where
  "conditional_self_test r m = (if is_ok r then (r, m) else (r, enter_error_state m))"

definition in_error_state :: "'a module_state_scheme \<Rightarrow> bool" where
  "in_error_state m = FAILED m"

definition operational :: "'a module_state_scheme \<Rightarrow> unit result" where
  "operational m =
     (if in_error_state m then Err ModuleErrorState ''module in error state''
      else if STARTUP_GATE m \<and> SELF_TESTS m = UNTESTED
      then Err ModuleErrorState ''self-tests have not run; call ic_fips::initialize() first''
      else Ok ())"

section \<open>The gate\<close>

lemma operational_Ok_iff:
  "operational m = Ok () \<longleftrightarrow> \<not> FAILED m \<and> (STARTUP_GATE m \<longrightarrow> SELF_TESTS m \<noteq> UNTESTED)"
  by (simp add: operational_def in_error_state_def)

lemma operational_cases:
  obtains "operational m = Ok ()" | c where "operational m = Err ModuleErrorState c"
  by (cases "in_error_state m"; cases "STARTUP_GATE m \<and> SELF_TESTS m = UNTESTED")
     (simp_all add: operational_def)

lemma operational_failed [simp]:
  "FAILED m \<Longrightarrow> operational m = Err ModuleErrorState ''module in error state''"
  by (simp add: operational_def in_error_state_def)

text \<open>
  The one pattern of every gated operation: the body runs only behind the gate.
  Whatever the body is, a failed module returns the gate's error and nothing else.
\<close>

lemma gated_failed:
  "FAILED m \<Longrightarrow> bind_result (operational m) f = Err ModuleErrorState ''module in error state''"
  by simp

lemma gated_open: "operational m = Ok () \<Longrightarrow> bind_result (operational m) f = f ()"
  by simp

lemma gated_Ok_iff:
  "bind_result (operational m) f = Ok x \<longleftrightarrow> operational m = Ok () \<and> f () = Ok x"
  by (auto simp: operational_def)

lemma enter_error_state_fields [simp]:
  "FAILED (enter_error_state m)"
  "SELF_TESTS (enter_error_state m) = SELF_TESTS m"
  "cfg_approved_only (enter_error_state m) = cfg_approved_only m"
  "cfg_startup_gate_off (enter_error_state m) = cfg_startup_gate_off m"
  by (simp_all add: enter_error_state_def)

lemma self_tests_fields [simp]:
  "FAILED (self_tests_started m) = FAILED m" "FAILED (self_tests_passed m) = FAILED m"
  "SELF_TESTS (self_tests_passed m) = PASSED"
  "cfg_approved_only (self_tests_started m) = cfg_approved_only m"
  "cfg_approved_only (self_tests_passed m) = cfg_approved_only m"
  "cfg_startup_gate_off (self_tests_started m) = cfg_startup_gate_off m"
  "cfg_startup_gate_off (self_tests_passed m) = cfg_startup_gate_off m"
  by (simp_all add: self_tests_started_def self_tests_passed_def)

lemma self_tests_started_tested: "SELF_TESTS (self_tests_started m) \<noteq> UNTESTED"
  by (simp add: self_tests_started_def self_tests_consts)

lemma conditional_self_test_result [simp]: "fst (conditional_self_test r m) = r"
  by (simp add: conditional_self_test_def)

lemma conditional_self_test_failed:
  "FAILED (snd (conditional_self_test r m)) \<longleftrightarrow> FAILED m \<or> \<not> is_ok r"
  by (simp add: conditional_self_test_def)

end
