(* ===== verification/Ontology_Types.thy ===== *)
theory Ontology_Types
  imports Core_Error
begin

text \<open>
  The vocabulary of \<open>crates/ic-ontology/src/types.rs\<close>: closed enumerations with
  stable identifiers, and the registry entry built from them. An enum variant
  \<open>Class::Hash\<close> is the constructor \<open>Class_Hash\<close>. The derived \<open>Ord\<close> of
  \<open>Severity\<close> is the order of its declaration.
\<close>

section \<open>The closed terms\<close>

datatype algorithm_class =
    Class_Hash | Class_Xof | Class_Mac | Class_BlockCipher | Class_CipherMode | Class_Aead |
    Class_Kdf | Class_PasswordKdf | Class_Drbg | Class_KeyAgreement | Class_Kem |
    Class_Signature | Class_SecretSharing | Class_PasswordEncryption | Class_HashToCurve |
    Class_Oprf | Class_Pake

fun algorithm_class_id :: "algorithm_class \<Rightarrow> string" where
  "algorithm_class_id Class_Hash = ''hash''"
| "algorithm_class_id Class_Xof = ''xof''"
| "algorithm_class_id Class_Mac = ''mac''"
| "algorithm_class_id Class_BlockCipher = ''block-cipher''"
| "algorithm_class_id Class_CipherMode = ''cipher-mode''"
| "algorithm_class_id Class_Aead = ''aead''"
| "algorithm_class_id Class_Kdf = ''kdf''"
| "algorithm_class_id Class_PasswordKdf = ''password-kdf''"
| "algorithm_class_id Class_Drbg = ''drbg''"
| "algorithm_class_id Class_KeyAgreement = ''key-agreement''"
| "algorithm_class_id Class_Kem = ''kem''"
| "algorithm_class_id Class_Signature = ''signature''"
| "algorithm_class_id Class_SecretSharing = ''secret-sharing''"
| "algorithm_class_id Class_PasswordEncryption = ''password-encryption''"
| "algorithm_class_id Class_HashToCurve = ''hash-to-curve''"
| "algorithm_class_id Class_Oprf = ''oprf''"
| "algorithm_class_id Class_Pake = ''pake''"

definition algorithm_class_ALL :: "algorithm_class list" where
  "algorithm_class_ALL =
     [Class_Hash, Class_Xof, Class_Mac, Class_BlockCipher, Class_CipherMode, Class_Aead,
      Class_Kdf, Class_PasswordKdf, Class_Drbg, Class_KeyAgreement, Class_Kem, Class_Signature,
      Class_SecretSharing, Class_PasswordEncryption, Class_HashToCurve, Class_Oprf, Class_Pake]"

definition algorithm_class_from_id :: "string \<Rightarrow> algorithm_class option" where
  "algorithm_class_from_id i = find (\<lambda>c. algorithm_class_id c = i) algorithm_class_ALL"

datatype purpose =
    Purpose_Integrity | Purpose_Confidentiality | Purpose_Authentication |
    Purpose_KeyDerivation | Purpose_PasswordHashing | Purpose_KeyEstablishment |
    Purpose_RandomGeneration | Purpose_NonRepudiation | Purpose_Commitment

fun purpose_id :: "purpose \<Rightarrow> string" where
  "purpose_id Purpose_Integrity = ''integrity''"
| "purpose_id Purpose_Confidentiality = ''confidentiality''"
| "purpose_id Purpose_Authentication = ''authentication''"
| "purpose_id Purpose_KeyDerivation = ''key-derivation''"
| "purpose_id Purpose_PasswordHashing = ''password-hashing''"
| "purpose_id Purpose_KeyEstablishment = ''key-establishment''"
| "purpose_id Purpose_RandomGeneration = ''random-generation''"
| "purpose_id Purpose_NonRepudiation = ''non-repudiation''"
| "purpose_id Purpose_Commitment = ''commitment''"

definition purpose_ALL :: "purpose list" where
  "purpose_ALL =
     [Purpose_Integrity, Purpose_Confidentiality, Purpose_Authentication,
      Purpose_KeyDerivation, Purpose_PasswordHashing, Purpose_KeyEstablishment,
      Purpose_RandomGeneration, Purpose_NonRepudiation, Purpose_Commitment]"

definition purpose_from_id :: "string \<Rightarrow> purpose option" where
  "purpose_from_id i = find (\<lambda>c. purpose_id c = i) purpose_ALL"

datatype fips_status =
    FipsStatus_Approved | FipsStatus_AllowedAsComponent | FipsStatus_NotApproved |
    FipsStatus_Deprecated | FipsStatus_Disallowed

fun fips_status_id :: "fips_status \<Rightarrow> string" where
  "fips_status_id FipsStatus_Approved = ''approved''"
| "fips_status_id FipsStatus_AllowedAsComponent = ''allowed-as-component''"
| "fips_status_id FipsStatus_NotApproved = ''not-approved''"
| "fips_status_id FipsStatus_Deprecated = ''deprecated''"
| "fips_status_id FipsStatus_Disallowed = ''disallowed''"

definition fips_status_ALL :: "fips_status list" where
  "fips_status_ALL =
     [FipsStatus_Approved, FipsStatus_AllowedAsComponent, FipsStatus_NotApproved,
      FipsStatus_Deprecated, FipsStatus_Disallowed]"

fun permitted_in_approved_mode :: "fips_status \<Rightarrow> bool" where
  "permitted_in_approved_mode s =
     (s \<in> {FipsStatus_Approved, FipsStatus_AllowedAsComponent, FipsStatus_Deprecated})"

datatype impl_status =
    ImplStatus_Available | ImplStatus_Experimental | ImplStatus_Planned | ImplStatus_Excluded

fun impl_status_id :: "impl_status \<Rightarrow> string" where
  "impl_status_id ImplStatus_Available = ''available''"
| "impl_status_id ImplStatus_Experimental = ''experimental''"
| "impl_status_id ImplStatus_Planned = ''planned''"
| "impl_status_id ImplStatus_Excluded = ''excluded''"

definition impl_status_ALL :: "impl_status list" where
  "impl_status_ALL =
     [ImplStatus_Available, ImplStatus_Experimental, ImplStatus_Planned, ImplStatus_Excluded]"

datatype performance =
    Performance_Fast | Performance_Moderate | Performance_Slow | Performance_DeliberatelySlow

fun performance_id :: "performance \<Rightarrow> string" where
  "performance_id Performance_Fast = ''fast''"
| "performance_id Performance_Moderate = ''moderate''"
| "performance_id Performance_Slow = ''slow''"
| "performance_id Performance_DeliberatelySlow = ''deliberately-slow''"

definition performance_ALL :: "performance list" where
  "performance_ALL =
     [Performance_Fast, Performance_Moderate, Performance_Slow, Performance_DeliberatelySlow]"

datatype param_unit =
    Unit_Bytes | Unit_Count

fun param_unit_id :: "param_unit \<Rightarrow> string" where
  "param_unit_id Unit_Bytes = ''bytes''"
| "param_unit_id Unit_Count = ''count''"

definition param_unit_ALL :: "param_unit list" where
  "param_unit_ALL =
     [Unit_Bytes, Unit_Count]"

datatype severity =
    Severity_Critical | Severity_Serious | Severity_Advisory

fun severity_id :: "severity \<Rightarrow> string" where
  "severity_id Severity_Critical = ''critical''"
| "severity_id Severity_Serious = ''serious''"
| "severity_id Severity_Advisory = ''advisory''"

definition severity_ALL :: "severity list" where
  "severity_ALL =
     [Severity_Critical, Severity_Serious, Severity_Advisory]"

datatype relation =
    Relation_BuiltOn | Relation_Supersedes | Relation_SupersededBy | Relation_PairsWith |
    Relation_Specializes

fun relation_id :: "relation \<Rightarrow> string" where
  "relation_id Relation_BuiltOn = ''built-on''"
| "relation_id Relation_Supersedes = ''supersedes''"
| "relation_id Relation_SupersededBy = ''superseded-by''"
| "relation_id Relation_PairsWith = ''pairs-with''"
| "relation_id Relation_Specializes = ''specializes''"

definition relation_ALL :: "relation list" where
  "relation_ALL =
     [Relation_BuiltOn, Relation_Supersedes, Relation_SupersededBy, Relation_PairsWith,
      Relation_Specializes]"

section \<open>Entries\<close>

record param =
  param_name :: string
  param_unit :: param_unit
  param_min :: nat
  param_max :: nat
  param_recommended :: nat
  param_note :: string

record constraint =
  constraint_id :: string
  requirement :: string
  consequence :: string
  severity :: severity

record strength =
  classical :: nat
  quantum :: nat

definition strength_symmetric :: "nat \<Rightarrow> strength" where
  "strength_symmetric bits = \<lparr>classical = bits, quantum = bits div 2\<rparr>"

definition strength_classical_only :: "nat \<Rightarrow> strength" where
  "strength_classical_only bits = \<lparr>classical = bits, quantum = 0\<rparr>"

record edge =
  relation :: relation
  target :: string

record entry =
  entry_id :: string
  entry_name :: string
  aliases :: "string list"
  summary :: string
  entry_class :: algorithm_class
  family :: string
  purposes :: "purpose list"
  entry_strength :: strength
  fips :: fips_status
  status :: impl_status
  standards :: "string list"
  params :: "param list"
  constraints :: "constraint list"
  edges :: "edge list"
  entry_performance :: performance
  rust_path :: string
  example :: string
  entry_notes :: string

definition serves :: "entry \<Rightarrow> purpose \<Rightarrow> bool" where
  "serves e p = (p \<in> set (purposes e))"

text \<open>\<open>str::eq_ignore_ascii_case\<close>: equal after mapping ASCII capitals to lower case.\<close>

definition ascii_lower_char :: "char \<Rightarrow> char" where
  "ascii_lower_char c =
     (let n = (of_char c :: nat) in if 65 \<le> n \<and> n \<le> 90 then char_of (n + 32) else c)"

definition eq_ignore_case :: "string \<Rightarrow> string \<Rightarrow> bool" where
  "eq_ignore_case a b = (map ascii_lower_char a = map ascii_lower_char b)"

definition matches_name :: "entry \<Rightarrow> string \<Rightarrow> bool" where
  "matches_name e needle =
     (if eq_ignore_case (entry_id e) needle \<or> eq_ignore_case (entry_name e) needle then True
      else list_ex (\<lambda>a. eq_ignore_case a needle) (aliases e))"

definition approved_mode_ok :: "entry \<Rightarrow> bool" where
  "approved_mode_ok e \<longleftrightarrow> permitted_in_approved_mode (fips e) \<and> status e = ImplStatus_Available"

text \<open>\<open>min_by_key\<close> returns the first of the least elements.\<close>

fun severity_rank :: "severity \<Rightarrow> nat" where
  "severity_rank Severity_Critical = 0"
| "severity_rank Severity_Serious = 1"
| "severity_rank Severity_Advisory = 2"

fun worst_of :: "constraint list \<Rightarrow> constraint option" where
  "worst_of [] = None"
| "worst_of (c # cs) =
     (case worst_of cs of
        None \<Rightarrow> Some c
      | Some d \<Rightarrow> if severity_rank (severity d) < severity_rank (severity c) then Some d else Some c)"

definition worst_constraint :: "entry \<Rightarrow> constraint option" where
  "worst_constraint e = worst_of (constraints e)"

section \<open>Identifiers name their terms\<close>

text \<open>
  A lookup by identifier returns the term with that identifier, for every
  enumeration whose list is complete and whose identifiers differ. One lemma
  serves them all.
\<close>

lemma find_by_id_in:
  assumes "\<And>a b. ident a = ident b \<Longrightarrow> a = b" "x \<in> set xs"
  shows "find (\<lambda>c. ident c = ident x) xs = Some x"
  using assms(2) by (induction xs) (auto dest: assms(1))

lemma find_by_id:
  assumes "set xs = UNIV" "\<And>a b. ident a = ident b \<Longrightarrow> a = b"
  shows "find (\<lambda>c. ident c = ident x) xs = Some x"
  using assms find_by_id_in [of ident x xs] by blast

lemma algorithm_class_id_inj: "algorithm_class_id a = algorithm_class_id b \<Longrightarrow> a = b"
  by (cases a; cases b; simp)

lemma algorithm_class_ALL_complete: "set algorithm_class_ALL = UNIV"
  unfolding algorithm_class_ALL_def using algorithm_class.exhaust by auto

lemma purpose_id_inj: "purpose_id a = purpose_id b \<Longrightarrow> a = b"
  by (cases a; cases b; simp)

lemma purpose_ALL_complete: "set purpose_ALL = UNIV"
  unfolding purpose_ALL_def using purpose.exhaust by auto

lemma fips_status_id_inj: "fips_status_id a = fips_status_id b \<Longrightarrow> a = b"
  by (cases a; cases b; simp)

lemma fips_status_ALL_complete: "set fips_status_ALL = UNIV"
  unfolding fips_status_ALL_def using fips_status.exhaust by auto

lemma impl_status_id_inj: "impl_status_id a = impl_status_id b \<Longrightarrow> a = b"
  by (cases a; cases b; simp)

lemma impl_status_ALL_complete: "set impl_status_ALL = UNIV"
  unfolding impl_status_ALL_def using impl_status.exhaust by auto

lemma performance_id_inj: "performance_id a = performance_id b \<Longrightarrow> a = b"
  by (cases a; cases b; simp)

lemma performance_ALL_complete: "set performance_ALL = UNIV"
  unfolding performance_ALL_def using performance.exhaust by auto

lemma param_unit_id_inj: "param_unit_id a = param_unit_id b \<Longrightarrow> a = b"
  by (cases a; cases b; simp)

lemma param_unit_ALL_complete: "set param_unit_ALL = UNIV"
  unfolding param_unit_ALL_def using param_unit.exhaust by auto

lemma severity_id_inj: "severity_id a = severity_id b \<Longrightarrow> a = b"
  by (cases a; cases b; simp)

lemma severity_ALL_complete: "set severity_ALL = UNIV"
  unfolding severity_ALL_def using severity.exhaust by auto

lemma relation_id_inj: "relation_id a = relation_id b \<Longrightarrow> a = b"
  by (cases a; cases b; simp)

lemma relation_ALL_complete: "set relation_ALL = UNIV"
  unfolding relation_ALL_def using relation.exhaust by auto

lemma algorithm_class_from_id: "algorithm_class_from_id (algorithm_class_id c) = Some c"
  unfolding algorithm_class_from_id_def
  by (rule find_by_id [OF algorithm_class_ALL_complete algorithm_class_id_inj])

lemma purpose_from_id: "purpose_from_id (purpose_id p) = Some p"
  unfolding purpose_from_id_def by (rule find_by_id [OF purpose_ALL_complete purpose_id_inj])

section \<open>The worst constraint\<close>

lemma worst_of_None: "worst_of cs = None \<longleftrightarrow> cs = []"
  by (cases cs) (simp_all split: option.splits)

lemma worst_of_Some:
  "worst_of cs = Some c \<Longrightarrow>
   c \<in> set cs \<and> (\<forall>d \<in> set cs. severity_rank (severity c) \<le> severity_rank (severity d))"
proof (induction cs arbitrary: c)
  case Nil
  then show ?case by simp
next
  case (Cons x cs)
  show ?case
  proof (cases "worst_of cs")
    case None
    with Cons.prems show ?thesis by (simp add: worst_of_None)
  next
    case (Some d)
    with Cons.IH [OF Some] Cons.prems show ?thesis by (auto split: if_splits)
  qed
qed

end
