(* ===== verification/Ontology_Query.thy ===== *)
theory Ontology_Query
  imports Ontology_Types
begin

text \<open>
  The declarative filter of \<open>crates/ic-ontology/src/query.rs\<close>. The registry is
  an argument of every function here, so that the lemmas hold for any registry;
  the theory of the registry supplies the library's own.
\<close>

section \<open>Building a query\<close>

definition MAX_PURPOSES :: nat where "MAX_PURPOSES = 4"

record query =
  q_class :: "algorithm_class option"
  q_purposes :: "purpose option list"
  q_purpose_count :: nat
  q_min_classical :: nat
  q_min_quantum :: nat
  q_fips_only :: bool
  q_available_only :: bool
  q_family :: "string option"

definition query_new :: query where
  "query_new = \<lparr>q_class = None, q_purposes = replicate MAX_PURPOSES None, q_purpose_count = 0,
     q_min_classical = 0, q_min_quantum = 0, q_fips_only = False, q_available_only = False,
     q_family = None\<rparr>"

definition query_class :: "algorithm_class \<Rightarrow> query \<Rightarrow> query" where
  "query_class c q = q\<lparr>q_class := Some c\<rparr>"

definition query_purpose :: "purpose \<Rightarrow> query \<Rightarrow> query" where
  "query_purpose p q =
     (if q_purpose_count q < MAX_PURPOSES
      then q\<lparr>q_purposes := (q_purposes q)[q_purpose_count q := Some p],
             q_purpose_count := q_purpose_count q + 1\<rparr>
      else q)"

definition query_min_classical_bits :: "nat \<Rightarrow> query \<Rightarrow> query" where
  "query_min_classical_bits bits q = q\<lparr>q_min_classical := bits\<rparr>"

definition query_min_quantum_bits :: "nat \<Rightarrow> query \<Rightarrow> query" where
  "query_min_quantum_bits bits q = q\<lparr>q_min_quantum := bits\<rparr>"

definition query_fips_approved_only :: "query \<Rightarrow> query" where
  "query_fips_approved_only q = q\<lparr>q_fips_only := True\<rparr>"

definition query_available_only :: "query \<Rightarrow> query" where
  "query_available_only q = q\<lparr>q_available_only := True\<rparr>"

definition query_family :: "string \<Rightarrow> query \<Rightarrow> query" where
  "query_family f q = q\<lparr>q_family := Some f\<rparr>"

section \<open>Running it\<close>

definition query_matches :: "query \<Rightarrow> entry \<Rightarrow> bool" where
  "query_matches q e =
     (if (case q_class q of Some c \<Rightarrow> entry_class e \<noteq> c | None \<Rightarrow> False) then False
      else if list_ex (\<lambda>po. case po of Some p \<Rightarrow> \<not> serves e p | None \<Rightarrow> False) (q_purposes q)
      then False
      else if classical (entry_strength e) < q_min_classical q
              \<or> quantum (entry_strength e) < q_min_quantum q then False
      else if q_fips_only q \<and> \<not> permitted_in_approved_mode (fips e) then False
      else if q_available_only q \<and> status e \<noteq> ImplStatus_Available then False
      else if (case q_family q of Some f \<Rightarrow> family e \<noteq> f | None \<Rightarrow> False) then False
      else True)"

definition query_run :: "entry list \<Rightarrow> query \<Rightarrow> entry list" where
  "query_run registry q = filter (query_matches q) registry"

definition query_count :: "entry list \<Rightarrow> query \<Rightarrow> nat" where
  "query_count registry q = length (query_run registry q)"

definition registry_get :: "entry list \<Rightarrow> string \<Rightarrow> entry option" where
  "registry_get registry name = find (\<lambda>e. matches_name e name) registry"

definition related :: "entry list \<Rightarrow> string \<Rightarrow> entry list" where
  "related registry i =
     filter (\<lambda>e. if entry_id e = i then False
                 else let outgoing = (case registry_get registry i of
                             Some src \<Rightarrow> list_ex (\<lambda>ed. target ed = entry_id e) (edges src)
                           | None \<Rightarrow> False);
                          incoming = list_ex (\<lambda>ed. target ed = i) (edges e)
                      in outgoing \<or> incoming) registry"

section \<open>What a query means\<close>

text \<open>
  The purposes recorded so far, and the conjunction of requirements a query
  stands for. \<open>query_wf\<close> is the shape every builder keeps: four slots, filled
  from the left.
\<close>

definition required_purposes :: "query \<Rightarrow> purpose set" where
  "required_purposes q = {p. Some p \<in> set (q_purposes q)}"

definition query_wf :: "query \<Rightarrow> bool" where
  "query_wf q \<longleftrightarrow> length (q_purposes q) = MAX_PURPOSES \<and> q_purpose_count q \<le> MAX_PURPOSES
     \<and> (\<forall>i < MAX_PURPOSES. (q_purposes q ! i = None) = (q_purpose_count q \<le> i))"

lemma query_matches_iff:
  "query_matches q e \<longleftrightarrow>
     (\<forall>c. q_class q = Some c \<longrightarrow> entry_class e = c)
   \<and> (\<forall>p \<in> required_purposes q. serves e p)
   \<and> q_min_classical q \<le> classical (entry_strength e)
   \<and> q_min_quantum q \<le> quantum (entry_strength e)
   \<and> (q_fips_only q \<longrightarrow> permitted_in_approved_mode (fips e))
   \<and> (q_available_only q \<longrightarrow> status e = ImplStatus_Available)
   \<and> (\<forall>f. q_family q = Some f \<longrightarrow> family e = f)"
proof -
  have "list_ex (\<lambda>po. case po of Some p \<Rightarrow> \<not> serves e p | None \<Rightarrow> False) (q_purposes q)
      \<longleftrightarrow> (\<exists>p \<in> required_purposes q. \<not> serves e p)"
    by (force simp: list_ex_iff required_purposes_def split: option.splits)
  then show ?thesis
    by (auto simp: query_matches_def not_less simp del: permitted_in_approved_mode.simps
        split: option.splits)
qed

lemma query_new_wf: "query_wf query_new"
  by (simp add: query_wf_def query_new_def)

lemma query_purpose_wf:
  assumes "query_wf q"
  shows "query_wf (query_purpose p q)"
  using assms by (auto simp: query_wf_def query_purpose_def nth_list_update)

lemma query_builders_wf:
  "query_wf q \<Longrightarrow> query_wf (query_class c q)"
  "query_wf q \<Longrightarrow> query_wf (query_min_classical_bits b q)"
  "query_wf q \<Longrightarrow> query_wf (query_min_quantum_bits b q)"
  "query_wf q \<Longrightarrow> query_wf (query_fips_approved_only q)"
  "query_wf q \<Longrightarrow> query_wf (query_available_only q)"
  "query_wf q \<Longrightarrow> query_wf (query_family f q)"
  by (simp_all add: query_wf_def query_class_def query_min_classical_bits_def
      query_min_quantum_bits_def query_fips_approved_only_def query_available_only_def
      query_family_def)

text \<open>
  A builder adds one purpose while there is room; a fifth is dropped without a
  word, so the query then asks for less than its caller wrote.
\<close>

lemma required_purposes_purpose:
  assumes "query_wf q"
  shows "required_purposes (query_purpose p q) =
    (if q_purpose_count q < MAX_PURPOSES then insert p (required_purposes q) else required_purposes q)"
proof -
  have "set ((q_purposes q)[q_purpose_count q := Some p]) = insert (Some p) (set (q_purposes q) - {None})
      \<or> set ((q_purposes q)[q_purpose_count q := Some p]) = insert (Some p) (set (q_purposes q))"
    if "q_purpose_count q < MAX_PURPOSES"
  proof -
    let ?n = "q_purpose_count q"
    have n: "?n < length (q_purposes q)" "q_purposes q ! ?n = None"
      using assms that by (auto simp: query_wf_def)
    have "set ((q_purposes q)[?n := Some p]) \<subseteq> insert (Some p) (set (q_purposes q))"
      by (rule set_update_subset_insert)
    moreover have "insert (Some p) (set (q_purposes q) - {None}) \<subseteq> set ((q_purposes q)[?n := Some p])"
      using n by (auto simp: in_set_conv_nth nth_list_update) (metis n(2) option.distinct(1))+
    ultimately show ?thesis by (cases "None \<in> set ((q_purposes q)[?n := Some p])") auto
  qed
  then show ?thesis
    by (auto simp: required_purposes_def query_purpose_def)
qed

lemma query_run_sound:
  "e \<in> set (query_run registry q) \<longleftrightarrow> e \<in> set registry \<and> query_matches q e"
  by (auto simp: query_run_def)

lemma query_run_hd:
  "query_run registry q = e # es \<Longrightarrow> e \<in> set registry \<and> query_matches q e"
  by (metis list.set_intros(1) query_run_sound)

lemma registry_get_Some:
  "registry_get registry name = Some e \<Longrightarrow> e \<in> set registry \<and> matches_name e name"
  by (auto simp: registry_get_def find_Some_iff)

lemma related_irreflexive: "e \<in> set (related registry i) \<Longrightarrow> entry_id e \<noteq> i \<and> e \<in> set registry"
  by (auto simp: related_def split: if_splits)

end
