(* ===== verification/Ontology_Select.thy ===== *)
theory Ontology_Select
  imports Ontology_Query
begin

text \<open>
  Intent-driven selection: \<open>crates/ic-ontology/src/select.rs\<close>. The registry and
  the configuration flag \<open>ic_approved_only\<close> are arguments. The two places where
  the code can panic (\<open>unreachable!\<close> in \<open>build\<close>, \<open>expect\<close> in \<open>fallback\<close>) are the
  value \<open>None\<close> of the outer option, so that a claim that it returns is a claim
  that no panic happens.
\<close>

section \<open>Intents and policies\<close>

datatype intent =
    Intent_EncryptMessage | Intent_HashData | Intent_AuthenticateMessage | Intent_DeriveKey |
    Intent_HashPassword | Intent_AgreeKey | Intent_SignData | Intent_GenerateRandom

fun intent_id :: "intent \<Rightarrow> string" where
  "intent_id Intent_EncryptMessage = ''encrypt-message''"
| "intent_id Intent_HashData = ''hash-data''"
| "intent_id Intent_AuthenticateMessage = ''authenticate-message''"
| "intent_id Intent_DeriveKey = ''derive-key''"
| "intent_id Intent_HashPassword = ''hash-password''"
| "intent_id Intent_AgreeKey = ''agree-key''"
| "intent_id Intent_SignData = ''sign-data''"
| "intent_id Intent_GenerateRandom = ''generate-random''"

definition intent_ALL :: "intent list" where
  "intent_ALL =
     [Intent_EncryptMessage, Intent_HashData, Intent_AuthenticateMessage, Intent_DeriveKey,
      Intent_HashPassword, Intent_AgreeKey, Intent_SignData, Intent_GenerateRandom]"

definition intent_from_id :: "string \<Rightarrow> intent option" where
  "intent_from_id i = find (\<lambda>c. intent_id c = i) intent_ALL"

fun intent_shape :: "intent \<Rightarrow> algorithm_class option \<times> purpose" where
  "intent_shape Intent_EncryptMessage = (Some Class_Aead, Purpose_Confidentiality)"
| "intent_shape Intent_HashData = (Some Class_Hash, Purpose_Integrity)"
| "intent_shape Intent_AuthenticateMessage = (Some Class_Mac, Purpose_Authentication)"
| "intent_shape Intent_DeriveKey = (Some Class_Kdf, Purpose_KeyDerivation)"
| "intent_shape Intent_HashPassword = (Some Class_PasswordKdf, Purpose_PasswordHashing)"
| "intent_shape Intent_AgreeKey = (None, Purpose_KeyEstablishment)"
| "intent_shape Intent_SignData = (Some Class_Signature, Purpose_NonRepudiation)"
| "intent_shape Intent_GenerateRandom = (Some Class_Drbg, Purpose_RandomGeneration)"

record policy =
  require_fips :: bool
  min_classical_bits :: nat
  min_quantum_bits :: nat
  aes_hardware :: bool

definition POLICY_DEFAULT :: policy where
  "POLICY_DEFAULT = \<lparr>require_fips = False, min_classical_bits = 128, min_quantum_bits = 0,
     aes_hardware = False\<rparr>"

definition POLICY_FIPS_APPROVED :: policy where
  "POLICY_FIPS_APPROVED = \<lparr>require_fips = True, min_classical_bits = 128, min_quantum_bits = 0,
     aes_hardware = False\<rparr>"

text \<open>\<open>Policy::detected\<close> reads the processor's features; what it found is the argument.\<close>

definition policy_detected :: "bool \<Rightarrow> policy" where
  "policy_detected fast_bulk_symmetric = POLICY_DEFAULT\<lparr>aes_hardware := fast_bulk_symmetric\<rparr>"

definition policy_detected_fips :: "bool \<Rightarrow> policy" where
  "policy_detected_fips fast_bulk_symmetric = POLICY_FIPS_APPROVED\<lparr>aes_hardware := fast_bulk_symmetric\<rparr>"

definition POLICY_CNSA :: policy where
  "POLICY_CNSA = \<lparr>require_fips = True, min_classical_bits = 192, min_quantum_bits = 0,
     aes_hardware = False\<rparr>"

definition POLICY_POST_QUANTUM :: policy where
  "POLICY_POST_QUANTUM = \<lparr>require_fips = False, min_classical_bits = 128, min_quantum_bits = 128,
     aes_hardware = False\<rparr>"

record rejected =
  rejected_id :: string
  reason :: string

record recommendation =
  rec_intent :: intent
  primary :: entry
  rationale :: string
  alternative :: "entry option"
  rec_rejected :: "rejected option list"
  must_observe :: "constraint list"

datatype no_recommendation =
    KnownButUnavailable string | NothingSatisfiesPolicy

text \<open>What a branch of \<open>build\<close> yields: primary, rationale, alternative, rejected.\<close>

type_synonym selection = "entry \<times> string \<times> entry option \<times> rejected option list"

abbreviation no_rejected :: "rejected option list" where
  "no_rejected \<equiv> [None, None, None]"

abbreviation rejects :: "string \<Rightarrow> string \<Rightarrow> rejected option" where
  "rejects i why \<equiv> Some \<lparr>rejected_id = i, reason = why\<rparr>"

section \<open>Selecting\<close>

definition pick :: "entry list \<Rightarrow> query \<Rightarrow> string \<Rightarrow> entry option" where
  "pick registry base i =
     (case registry_get registry i of
        Some e \<Rightarrow> if query_matches base e then Some e else None
      | None \<Rightarrow> None)"

definition available :: "entry list \<Rightarrow> query \<Rightarrow> string \<Rightarrow> entry option" where
  "available registry base i =
     (case pick registry base i of
        Some e \<Rightarrow> if status e = ImplStatus_Available then Some e else None
      | None \<Rightarrow> None)"

definition fallback :: "entry list \<Rightarrow> query \<Rightarrow> selection option" where
  "fallback registry base =
     (case query_run registry (query_available_only base) of
        [] \<Rightarrow> None
      | p # rest \<Rightarrow>
          let alt = (case rest of [] \<Rightarrow> None | a # _ \<Rightarrow> Some a);
              why = (if alt \<noteq> None
                     then ''The first of several available algorithms matching the requested class and strength; no curated ranking covers this policy, so compare the alternative before choosing.''
                     else ''The only available algorithm matching the requested class and strength.'')
          in Some (p, why, alt, no_rejected))"

definition build_encrypt :: "entry list \<Rightarrow> policy \<Rightarrow> query \<Rightarrow> selection option" where
  "build_encrypt registry pol base =
     (let chacha = available registry base ''chacha20-poly1305'';
          aes = available registry base ''aes-256-gcm''
      in case (require_fips pol, aes_hardware pol, chacha, aes) of
           (False, False, Some c, a) \<Rightarrow>
             Some (c,
               ''ChaCha20-Poly1305 is authenticated, needs no hardware support, and on a CPU without AES instructions is far faster than the portable constant-time AES.'',
               a,
               [rejects ''aes-256-gcm''
                  ''Approved and equally secure, but this CPU has no AES instructions, so the portable backend is far slower.'',
                rejects ''aes-cbc''
                  ''Unauthenticated; needs a separate MAC and invites padding oracles.'',
                None])
         | (_, _, c, Some a) \<Rightarrow>
             Some (a,
               ''AES-256-GCM is the approved authenticated cipher and retains 128-bit strength against a quantum adversary.'',
               c,
               [rejects ''chacha20-poly1305''
                  (if require_fips pol
                   then ''Not approved for the FIPS approved mode of operation.''
                   else ''Faster in software, but AES hardware makes AES-GCM the better choice.''),
                rejects ''aes-ctr'' ''Unauthenticated; it is the confidentiality half of GCM.'',
                None])
         | (_, _, Some c, None) \<Rightarrow>
             Some (c, ''The only available authenticated cipher.'', None, no_rejected)
         | _ \<Rightarrow> None)"

definition build_hash :: "entry list \<Rightarrow> query \<Rightarrow> selection option" where
  "build_hash registry base =
     (let sha256 = available registry base ''sha2-256'';
          sha512 = available registry base ''sha2-512'';
          sha3 = available registry base ''sha3-256''
      in case (sha256, sha512) of
           (Some a, b) \<Rightarrow>
             Some (a,
               ''SHA-256 is approved, universally interoperable, and fast on every target.'',
               b,
               [rejects ''sha3-256''
                  ''Equally sound; choose it only when algorithm diversity from SHA-2 is a requirement.'',
                rejects ''sha-1'' ''Chosen-prefix collisions are practical; disallowed.'',
                None])
         | (None, Some b) \<Rightarrow> Some (b, ''SHA-512 meets the requested strength.'', sha3, no_rejected)
         | _ \<Rightarrow> fallback registry base)"

definition build_authenticate :: "entry list \<Rightarrow> query \<Rightarrow> selection option" where
  "build_authenticate registry base =
     (case available registry base ''hmac-sha2-256'' of
        Some a \<Rightarrow>
          Some (a, ''HMAC-SHA-256 is approved, fast, and the interoperable default.'',
            available registry base ''hmac-sha2-512'',
            [rejects ''cmac-aes-256''
               ''Approved, but slow here and only preferable with AES hardware and no hash accelerator.'',
             rejects ''poly1305'' ''One-time keys only; use the ChaCha20-Poly1305 AEAD instead.'',
             None])
      | None \<Rightarrow> fallback registry base)"

definition build_derive :: "entry list \<Rightarrow> query \<Rightarrow> selection option" where
  "build_derive registry base =
     (case available registry base ''hkdf-sha2-256'' of
        Some a \<Rightarrow>
          Some (a,
            ''HKDF extracts then expands, so it is correct for non-uniform input such as a Diffie-Hellman shared secret.'',
            available registry base ''sp800-108-counter-hmac-sha2-256'',
            [rejects ''sp800-108-counter-hmac-sha2-256''
               ''Preferable when the input is already a uniform key-derivation key.'',
             rejects ''pbkdf2-hmac-sha2-256''
               ''For passwords only; needlessly slow for key material.'',
             None])
      | None \<Rightarrow> fallback registry base)"

definition build_password :: "entry list \<Rightarrow> query \<Rightarrow> selection option" where
  "build_password registry base =
     (let argon2 = available registry base ''argon2id'';
          pbkdf2 = available registry base ''pbkdf2-hmac-sha2-256''
      in case (argon2, pbkdf2) of
           (Some a, p) \<Rightarrow>
             Some (a,
               ''Argon2id is memory-hard, so an attacker must spend RAM as well as time. Its first half-pass indexes data-independently and the rest data-dependently, which is why RFC 9106 recommends it over the other two variants.'',
               p,
               [rejects ''pbkdf2-hmac-sha2-256''
                  ''Approved, but not memory-hard: choose it only when FIPS approval is a requirement.'',
                rejects ''sha2-256'' ''A bare hash is far too fast to protect a password.'',
                None])
         | (None, Some p) \<Rightarrow>
             Some (p,
               ''PBKDF2 is the only approved password-based KDF. Use at least 600000 iterations and a fresh 128-bit salt; it is not memory-hard, so the iteration count is the only lever you have.'',
               None,
               [rejects ''argon2id''
                  ''Memory-hard and stronger, but not approved for the FIPS approved mode of operation.'',
                rejects ''sha2-256'' ''A bare hash is far too fast to protect a password.'',
                None])
         | _ \<Rightarrow> fallback registry base)"

definition build_agree :: "entry list \<Rightarrow> query \<Rightarrow> selection option" where
  "build_agree registry base =
     (let x25519 = available registry base ''x25519'';
          p256 = available registry base ''ecdh-p256''
      in case (x25519, p256) of
           (Some x, p) \<Rightarrow>
             Some (x,
               ''X25519 is fast and hard to misuse. Run the shared secret through HKDF together with both public keys before using it.'',
               p,
               [rejects ''ecdh-p256''
                  ''Approved and implemented here, but it needs peer-key validation that X25519 does not.'',
                rejects ''ml-kem-768''
                  ''Post-quantum and implemented, but larger and slower. Pass --post-quantum to choose it, and prefer a hybrid with the classical scheme over either alone.'',
                None])
         | (None, Some p) \<Rightarrow>
             Some (p,
               ''ECDH P-256 is the approved key agreement scheme. Peer public keys are validated against the curve equation, and the shared secret must go through a KDF before use.'',
               None,
               [rejects ''x25519'' ''Not approved for the FIPS approved mode of operation.'',
                rejects ''ml-kem-768''
                  ''Post-quantum and implemented, but larger and slower. Pass --post-quantum to choose it, and prefer a hybrid with the classical scheme over either alone.'',
                None])
         | (None, None) \<Rightarrow>
             (case available registry base ''ml-kem-768'' of
                Some m \<Rightarrow>
                  Some (m,
                    ''ML-KEM-768 is FIPS 203's middle parameter set, security category 3, and the one most protocols standardise on. Deploy it in a hybrid with X25519 or a NIST curve, and derive the session key from both secrets.'',
                    available registry base ''ml-kem-1024'',
                    [rejects ''ml-kem-512''
                       ''Implemented and ACVP-checked, with the smallest keys and ciphertexts, but at category 1 it has the thinnest margin against lattice cryptanalysis, which is young. Choose it deliberately where size dominates.'',
                     rejects ''ml-kem-1024''
                       ''Category 5, for a policy that requires it, at roughly a third more size and time than ML-KEM-768.'',
                     None])
              | None \<Rightarrow> fallback registry base))"

definition build_sign :: "entry list \<Rightarrow> query \<Rightarrow> selection option" where
  "build_sign registry base =
     (let ed = available registry base ''ed25519'';
          ecdsa = available registry base ''ecdsa-p256-sha256''
      in case (ed, ecdsa) of
           (Some e, other) \<Rightarrow>
             Some (e,
               ''Ed25519 signs deterministically, so there is no nonce to leak or repeat, and it has no point-validation step to get wrong.'',
               other,
               [rejects ''ecdsa-p256-sha256''
                  ''Approved and implemented here; choose it when you need FIPS approval or interoperability with X.509 and TLS.'',
                rejects ''ml-dsa-65''
                  ''Post-quantum and implemented, but larger and slower. Pass --post-quantum to choose it, and prefer a hybrid with the classical scheme over either alone.'',
                rejects ''rsa-pss-sha256''
                  ''Approved and implemented here, but a 2048-bit modulus buys 112-bit strength for signatures an order of magnitude larger and slower. Choose it only to meet an existing interface.''])
         | (None, Some p) \<Rightarrow>
             Some (p,
               ''ECDSA P-256 is the approved signature scheme. This implementation derives its nonce per RFC 6979, so the usual ECDSA nonce-reuse failure cannot occur.'',
               None,
               [rejects ''ed25519'' ''Not approved for the FIPS approved mode of operation.'',
                rejects ''ml-dsa-65''
                  ''Post-quantum and implemented, but larger and slower. Pass --post-quantum to choose it, and prefer a hybrid with the classical scheme over either alone.'',
                rejects ''rsa-pss-sha256''
                  ''Also approved, but slower and far larger at the same strength. Choose it only to meet an existing interface.''])
         | (None, None) \<Rightarrow>
             (case available registry base ''ml-dsa-65'' of
                Some m \<Rightarrow>
                  Some (m,
                    ''ML-DSA-65 is FIPS 204's middle parameter set, security category 3. Sign with a classical scheme alongside it and require both signatures to check.'',
                    available registry base ''ml-dsa-87'',
                    [rejects ''ml-dsa-44''
                       ''Implemented and ACVP-checked, with the smallest keys and signatures, but at category 2 it has the thinnest margin against lattice cryptanalysis, which is young. Choose it deliberately where size dominates.'',
                     rejects ''ml-dsa-87''
                       ''Category 5, for a policy that requires it, with signatures about two fifths larger than ML-DSA-65's.'',
                     None])
              | None \<Rightarrow> fallback registry base))"

definition build_random :: "entry list \<Rightarrow> query \<Rightarrow> selection option" where
  "build_random registry base =
     (case available registry base ''hmac-drbg-sha2-256'' of
        Some a \<Rightarrow>
          Some (a,
            ''HMAC_DRBG conditions its own entropy input. Reach for it through ic_drbg::Rng, which seeds from the OS and reseeds on schedule.'',
            available registry base ''ctr-drbg-aes-256'',
            [rejects ''ctr-drbg-aes-256'' ''Requires exactly 48 bytes of already-uniform entropy.'',
             None,
             None])
      | None \<Rightarrow> fallback registry base)"

fun build_selection :: "entry list \<Rightarrow> intent \<Rightarrow> policy \<Rightarrow> query \<Rightarrow> selection option" where
  "build_selection registry Intent_EncryptMessage pol base = build_encrypt registry pol base"
| "build_selection registry Intent_HashData pol base = build_hash registry base"
| "build_selection registry Intent_AuthenticateMessage pol base = build_authenticate registry base"
| "build_selection registry Intent_DeriveKey pol base = build_derive registry base"
| "build_selection registry Intent_HashPassword pol base = build_password registry base"
| "build_selection registry Intent_AgreeKey pol base = build_agree registry base"
| "build_selection registry Intent_SignData pol base = build_sign registry base"
| "build_selection registry Intent_GenerateRandom pol base = build_random registry base"

definition build :: "entry list \<Rightarrow> intent \<Rightarrow> policy \<Rightarrow> query \<Rightarrow> recommendation option" where
  "build registry i pol base =
     (case build_selection registry i pol base of
        None \<Rightarrow> None
      | Some (p, why, alt, rejs) \<Rightarrow>
          Some \<lparr>rec_intent = i, primary = p, rationale = why, alternative = alt,
                rec_rejected = rejs, must_observe = constraints p\<rparr>)"

text \<open>The query \<open>recommend\<close> assembles before it looks at the registry.\<close>

definition recommend_query :: "bool \<Rightarrow> intent \<Rightarrow> policy \<Rightarrow> query" where
  "recommend_query approved_only i pol =
     (let (cls, p) = intent_shape i;
          base = query_purpose p query_new;
          base = (case cls of Some c \<Rightarrow> query_class c base | None \<Rightarrow> base);
          base = query_min_quantum_bits (min_quantum_bits pol)
                   (query_min_classical_bits (min_classical_bits pol) base)
      in if require_fips pol \<or> approved_only then query_fips_approved_only base else base)"

definition recommend ::
  "bool \<Rightarrow> entry list \<Rightarrow> intent \<Rightarrow> policy \<Rightarrow> (no_recommendation + recommendation) option" where
  "recommend approved_only registry i pol =
     (let pol = pol\<lparr>require_fips := (require_fips pol \<or> approved_only)\<rparr>;
          base = recommend_query approved_only i pol;
          any_suitable = query_run registry base;
          avail = query_run registry (query_available_only base)
      in if avail = []
         then (case any_suitable of
                 e # _ \<Rightarrow> Some (Inl (KnownButUnavailable (entry_id e)))
               | [] \<Rightarrow> Some (Inl NothingSatisfiesPolicy))
         else map_option Inr (build registry i pol base))"

section \<open>What a recommendation satisfies\<close>

text \<open>The requirements an intent and a policy place on an entry.\<close>

definition acceptable :: "bool \<Rightarrow> intent \<Rightarrow> policy \<Rightarrow> entry \<Rightarrow> bool" where
  "acceptable approved_only i pol e \<longleftrightarrow>
     (\<forall>c. fst (intent_shape i) = Some c \<longrightarrow> entry_class e = c)
   \<and> serves e (snd (intent_shape i))
   \<and> min_classical_bits pol \<le> classical (entry_strength e)
   \<and> min_quantum_bits pol \<le> quantum (entry_strength e)
   \<and> (require_fips pol \<or> approved_only \<longrightarrow> permitted_in_approved_mode (fips e))"

lemma recommend_query_fields:
  "q_class (recommend_query ao i pol) = fst (intent_shape i)"
  "required_purposes (recommend_query ao i pol) = {snd (intent_shape i)}"
  "q_min_classical (recommend_query ao i pol) = min_classical_bits pol"
  "q_min_quantum (recommend_query ao i pol) = min_quantum_bits pol"
  "q_fips_only (recommend_query ao i pol) = (require_fips pol \<or> ao)"
  "\<not> q_available_only (recommend_query ao i pol)"
  "q_family (recommend_query ao i pol) = None"
  by (cases i; cases ao; cases "require_fips pol";
      force simp: recommend_query_def query_class_def query_purpose_def query_new_def
        query_min_classical_bits_def query_min_quantum_bits_def query_fips_approved_only_def
        required_purposes_def MAX_PURPOSES_def numeral_eq_Suc)+

lemma recommend_query_matches:
  "query_matches (recommend_query ao i pol) e = acceptable ao i pol e"
  by (simp add: query_matches_iff recommend_query_fields acceptable_def
      del: permitted_in_approved_mode.simps)

lemma available_query_matches:
  "query_matches (query_available_only q) e \<longleftrightarrow> query_matches q e \<and> status e = ImplStatus_Available"
  by (auto simp: query_matches_iff query_available_only_def required_purposes_def
      simp del: permitted_in_approved_mode.simps)

lemma available_SomeD:
  "available registry base i = Some e \<Longrightarrow>
     e \<in> set registry \<and> query_matches base e \<and> status e = ImplStatus_Available"
  by (auto simp: available_def pick_def dest: registry_get_Some split: option.splits if_splits)

lemma fallback_SomeD:
  assumes "fallback registry base = Some (p, why, alt, rejs)"
  shows "p \<in> set registry \<and> query_matches base p \<and> status p = ImplStatus_Available"
    and "alt = Some a \<Longrightarrow> a \<in> set registry \<and> query_matches base a \<and> status a = ImplStatus_Available"
proof -
  obtain rest where run: "query_run registry (query_available_only base) = p # rest"
    and alt: "alt = (case rest of [] \<Rightarrow> None | a # _ \<Rightarrow> Some a)"
    using assms by (auto simp: fallback_def Let_def split: list.splits)
  show "p \<in> set registry \<and> query_matches base p \<and> status p = ImplStatus_Available"
    using query_run_hd [OF run] by (simp add: available_query_matches)
  show "a \<in> set registry \<and> query_matches base a \<and> status a = ImplStatus_Available" if "alt = Some a"
  proof -
    have "a \<in> set (query_run registry (query_available_only base))"
      using that run alt by (cases rest) auto
    then show ?thesis by (simp add: query_run_sound available_query_matches)
  qed
qed

lemma fallback_returns:
  "query_run registry (query_available_only base) \<noteq> [] \<Longrightarrow> \<exists>s. fallback registry base = Some s"
  by (auto simp: fallback_def Let_def split: list.splits)

text \<open>Every branch of the ranking offers only available entries that match the query.\<close>

definition offered :: "entry list \<Rightarrow> query \<Rightarrow> entry \<Rightarrow> bool" where
  "offered registry base e \<longleftrightarrow>
     e \<in> set registry \<and> query_matches base e \<and> status e = ImplStatus_Available"

lemmas offered_intros =
  available_SomeD [folded offered_def] fallback_SomeD [folded offered_def]

lemmas build_branches =
  build_encrypt_def build_hash_def build_authenticate_def build_derive_def
  build_password_def build_agree_def build_sign_def build_random_def

lemma build_selection_offered:
  assumes "build_selection registry i pol base = Some (p, why, alt, rejs)"
  shows "offered registry base p \<and> (\<forall>a. alt = Some a \<longrightarrow> offered registry base a)"
  using assms
  by (cases i) (auto simp: build_branches Let_def dest: offered_intros
      split: option.splits bool.splits)

lemma build_selection_returns:
  assumes "query_run registry (query_available_only base) \<noteq> []" "i \<noteq> Intent_EncryptMessage"
  shows "\<exists>s. build_selection registry i pol base = Some s"
  using assms(2) fallback_returns [OF assms(1)]
  by (cases i) (auto simp: build_branches Let_def split: option.splits)

lemma build_encrypt_returns:
  "(\<exists>s. build_encrypt registry pol base = Some s) \<longleftrightarrow>
     available registry base ''chacha20-poly1305'' \<noteq> None
   \<or> available registry base ''aes-256-gcm'' \<noteq> None"
  by (auto simp: build_encrypt_def Let_def split: option.splits bool.splits)

lemma build_Some:
  "build registry i pol base = Some r \<Longrightarrow>
     (\<exists>p why alt rejs. build_selection registry i pol base = Some (p, why, alt, rejs)
        \<and> primary r = p \<and> alternative r = alt \<and> rec_intent r = i \<and> must_observe r = constraints p)"
  by (auto simp: build_def split: option.splits)

lemma query_run_empty: "query_run registry q = [] \<longleftrightarrow> (\<forall>e \<in> set registry. \<not> query_matches q e)"
  by (auto simp: query_run_def filter_empty_conv)

lemma recommend_query_fips_idem:
  "recommend_query ao i (pol\<lparr>require_fips := require_fips pol \<or> ao\<rparr>) = recommend_query ao i pol"
  by (simp add: recommend_query_def Let_def split: prod.splits)

lemma recommend_Inr:
  assumes "recommend ao registry i pol = Some (Inr r)"
  shows "primary r \<in> set registry \<and> status (primary r) = ImplStatus_Available
       \<and> acceptable ao i pol (primary r) \<and> must_observe r = constraints (primary r)
       \<and> rec_intent r = i
       \<and> (\<forall>a. alternative r = Some a \<longrightarrow>
            a \<in> set registry \<and> status a = ImplStatus_Available \<and> acceptable ao i pol a)"
proof -
  let ?pol = "pol\<lparr>require_fips := require_fips pol \<or> ao\<rparr>"
  have "build registry i ?pol (recommend_query ao i ?pol) = Some r"
    using assms by (auto simp: recommend_def Let_def split: if_splits list.splits)
  from build_Some [OF this] obtain p why alt rejs where
    sel: "build_selection registry i ?pol (recommend_query ao i pol) = Some (p, why, alt, rejs)"
    and r: "primary r = p" "alternative r = alt" "rec_intent r = i" "must_observe r = constraints p"
    by (auto simp: recommend_query_fips_idem)
  from build_selection_offered [OF sel] show ?thesis
    by (auto simp: r offered_def recommend_query_matches)
qed

lemma recommend_Inl:
  "recommend ao registry i pol = Some (Inl why) \<longleftrightarrow>
     (\<forall>e \<in> set registry. acceptable ao i pol e \<longrightarrow> status e \<noteq> ImplStatus_Available)
   \<and> why = (case filter (acceptable ao i pol) registry of
              [] \<Rightarrow> NothingSatisfiesPolicy
            | e # _ \<Rightarrow> KnownButUnavailable (entry_id e))"
proof -
  have m: "query_matches (recommend_query ao i pol) = acceptable ao i pol"
    by (rule ext) (rule recommend_query_matches)
  have "query_run registry (query_available_only (recommend_query ao i pol)) = []
      \<longleftrightarrow> (\<forall>e \<in> set registry. acceptable ao i pol e \<longrightarrow> status e \<noteq> ImplStatus_Available)"
    by (auto simp: query_run_empty available_query_matches m)
  then show ?thesis
    by (auto simp: recommend_def Let_def recommend_query_fips_idem query_run_def m
        split: list.splits)
qed

text \<open>
  The only panic left is the \<open>unreachable!\<close> of the encryption ranking: it is
  reached exactly when some acceptable cipher is available but neither of the
  two the ranking names is.
\<close>

lemma recommend_panics:
  "recommend ao registry i pol = None \<longleftrightarrow>
     i = Intent_EncryptMessage
   \<and> (\<exists>e \<in> set registry. acceptable ao i pol e \<and> status e = ImplStatus_Available)
   \<and> available registry (recommend_query ao i pol) ''chacha20-poly1305'' = None
   \<and> available registry (recommend_query ao i pol) ''aes-256-gcm'' = None"
proof -
  let ?q = "recommend_query ao i pol" and ?pol = "pol\<lparr>require_fips := require_fips pol \<or> ao\<rparr>"
  have run: "query_run registry (query_available_only ?q) \<noteq> []
      \<longleftrightarrow> (\<exists>e \<in> set registry. acceptable ao i pol e \<and> status e = ImplStatus_Available)"
    by (auto simp: query_run_empty available_query_matches recommend_query_matches)
  have "recommend ao registry i pol = None \<longleftrightarrow>
      query_run registry (query_available_only ?q) \<noteq> [] \<and> build_selection registry i ?pol ?q = None"
    by (auto simp: recommend_def Let_def recommend_query_fips_idem build_def
        split: list.splits option.splits)
  also have "\<dots> \<longleftrightarrow> query_run registry (query_available_only ?q) \<noteq> [] \<and> i = Intent_EncryptMessage
      \<and> build_encrypt registry ?pol ?q = None"
    using build_selection_returns [of registry ?q i ?pol] by (cases i) auto
  also have "build_encrypt registry ?pol ?q = None \<longleftrightarrow>
      available registry ?q ''chacha20-poly1305'' = None \<and> available registry ?q ''aes-256-gcm'' = None"
    using build_encrypt_returns [of registry ?pol ?q] by (cases "build_encrypt registry ?pol ?q") auto
  finally show ?thesis by (auto simp: run)
qed

end
