(* ===== verification/Fips.thy ===== *)
theory Fips
  imports Core_Module Ontology_Select
begin

text \<open>
  The module's life cycle and the approved-mode policy: \<open>crates/ic-fips/src/lib.rs\<close>,
  with the self-test runner of \<open>selftest.rs\<close>. The table of known-answer tests is
  an argument, each test a function of the module's state to a verdict and the state
  it leaves: the ML-DSA tests generate a key, and key generation latches the error
  flag when its pairwise check fails (\<open>crates/ic-mldsa/src/scheme.rs\<close>, \<open>keygen\<close>). The
  registry is an argument as well. The functions are as one thread runs them;
  \<open>Fips_Threads\<close> has them as atomic steps that several threads interleave.
\<close>

section \<open>States and modes\<close>

definition STATE_UNINITIALIZED :: u8 where "STATE_UNINITIALIZED = 0"
definition STATE_TESTING :: u8 where "STATE_TESTING = 1"
definition STATE_OPERATIONAL_UNRESTRICTED :: u8 where "STATE_OPERATIONAL_UNRESTRICTED = 2"
definition STATE_OPERATIONAL_APPROVED :: u8 where "STATE_OPERATIONAL_APPROVED = 3"
definition STATE_ERROR :: u8 where "STATE_ERROR = 4"

lemmas state_consts =
  STATE_UNINITIALIZED_def STATE_TESTING_def STATE_OPERATIONAL_UNRESTRICTED_def
  STATE_OPERATIONAL_APPROVED_def STATE_ERROR_def

record fips = module_state +
  STATE :: u8

definition fips_initial :: "bool \<Rightarrow> bool \<Rightarrow> fips" where
  "fips_initial approved_only gate_off =
     module_state.extend (module_initial approved_only gate_off) (fips.fields STATE_UNINITIALIZED)"

definition STATE_INITIAL :: "fips \<Rightarrow> u8" where
  "STATE_INITIAL s =
     (if cfg_approved_only s then STATE_OPERATIONAL_APPROVED else STATE_OPERATIONAL_UNRESTRICTED)"

datatype mode = Mode_Approved | Mode_Unrestricted

fun mode_id :: "mode \<Rightarrow> string" where
  "mode_id Mode_Approved = ''approved''"
| "mode_id Mode_Unrestricted = ''unrestricted''"

datatype state =
    State_Uninitialized | State_SelfTestInProgress | State_Operational mode | State_Error

fun state_id :: "state \<Rightarrow> string" where
  "state_id State_Uninitialized = ''uninitialized''"
| "state_id State_SelfTestInProgress = ''self-test-in-progress''"
| "state_id (State_Operational Mode_Approved) = ''operational-approved''"
| "state_id (State_Operational Mode_Unrestricted) = ''operational-unrestricted''"
| "state_id State_Error = ''error''"

definition decode_state :: "u8 \<Rightarrow> state" where
  "decode_state raw =
     (if raw = STATE_TESTING then State_SelfTestInProgress
      else if raw = STATE_OPERATIONAL_UNRESTRICTED then State_Operational Mode_Unrestricted
      else if raw = STATE_OPERATIONAL_APPROVED then State_Operational Mode_Approved
      else if raw = STATE_ERROR then State_Error
      else State_Uninitialized)"

definition fips_state :: "fips \<Rightarrow> state" where
  "fips_state s = (if in_error_state s then State_Error else decode_state (STATE s))"

definition fips_mode :: "fips \<Rightarrow> mode option" where
  "fips_mode s = (case fips_state s of State_Operational m \<Rightarrow> Some m | _ \<Rightarrow> None)"

section \<open>Self-tests\<close>

record test_outcome =
  algorithm :: string
  outcome_passed :: bool

record self_test_report =
  passed :: nat
  failed :: nat
  outcomes :: "test_outcome list"

type_synonym cast = "fips \<Rightarrow> unit result \<times> fips"
type_synonym casts = "(string \<times> cast) list"

definition failures :: "self_test_report \<Rightarrow> test_outcome list" where
  "failures r = filter (\<lambda>out. \<not> outcome_passed out) (outcomes r)"

definition all_passed :: "self_test_report \<Rightarrow> bool" where
  "all_passed r = (failed r = 0)"

fun run_tests :: "casts \<Rightarrow> fips \<Rightarrow> self_test_report \<Rightarrow> self_test_report \<times> fips" where
  "run_tests [] s r = (r, s)"
| "run_tests ((name, test) # rest) s r =
     (let (v, s) = test s;
          ok = is_ok v;
          r = r\<lparr>outcomes := outcomes r @ [\<lparr>algorithm = name, outcome_passed = ok\<rparr>]\<rparr>
      in run_tests rest s (if ok then r\<lparr>passed := passed r + 1\<rparr> else r\<lparr>failed := failed r + 1\<rparr>))"

definition run_all_self_tests :: "casts \<Rightarrow> fips \<Rightarrow> self_test_report \<times> fips" where
  "run_all_self_tests casts s = run_tests casts s \<lparr>passed = 0, failed = 0, outcomes = []\<rparr>"

definition run_self_test :: "casts \<Rightarrow> string \<Rightarrow> fips \<Rightarrow> unit result \<times> fips" where
  "run_self_test casts algorithm_id s =
     (case find (\<lambda>(name, _). name = algorithm_id) casts of
        Some (_, test) \<Rightarrow> test s
      | None \<Rightarrow> (Err Unsupported ''no known-answer test for this algorithm'', s))"

section \<open>The operations, as one thread runs them\<close>

definition fips_enter_error_state :: "fips \<Rightarrow> fips" where
  "fips_enter_error_state s = enter_error_state (s\<lparr>STATE := STATE_ERROR\<rparr>)"

definition initialize :: "casts \<Rightarrow> fips \<Rightarrow> self_test_report result \<times> fips" where
  "initialize casts s =
     (case fips_state s of
        State_Error \<Rightarrow> (Err ModuleErrorState ''module in error state'', s)
      | State_Operational _ \<Rightarrow>
          (let (report, s) = run_all_self_tests casts s in (Ok report, s))
      | _ \<Rightarrow>
          let s = s\<lparr>STATE := STATE_TESTING\<rparr>;
              s = self_tests_started s;
              (report, s) = run_all_self_tests casts s
          in if 0 < failed report
             then (Err SelfTestFailed
                     ''pre-operational self-test failed; module latched in error state'',
                   fips_enter_error_state s)
             else (Ok report, (self_tests_passed s)\<lparr>STATE := STATE_INITIAL s\<rparr>))"

fun mode_state :: "mode \<Rightarrow> u8" where
  "mode_state Mode_Approved = STATE_OPERATIONAL_APPROVED"
| "mode_state Mode_Unrestricted = STATE_OPERATIONAL_UNRESTRICTED"

definition set_mode :: "mode \<Rightarrow> fips \<Rightarrow> unit result \<times> fips" where
  "set_mode new_mode s =
     (case fips_state s of
        State_Operational _ \<Rightarrow>
          if cfg_approved_only s \<and> new_mode = Mode_Unrestricted
          then (Err NotApprovedInFipsMode
                  ''this build was compiled with ic_approved_only and has no unrestricted mode'', s)
          else (Ok (), s\<lparr>STATE := mode_state new_mode\<rparr>)
      | State_Error \<Rightarrow> (Err ModuleErrorState ''module in error state'', s)
      | _ \<Rightarrow> (Err ModuleErrorState ''call initialize() before selecting a mode'', s))"

datatype service_indicator =
    ServiceIndicator_Approved | ServiceIndicator_ApprovedAsComponent | ServiceIndicator_NotApproved

fun service_indicator_id :: "service_indicator \<Rightarrow> string" where
  "service_indicator_id ServiceIndicator_Approved = ''approved''"
| "service_indicator_id ServiceIndicator_ApprovedAsComponent = ''approved-as-component''"
| "service_indicator_id ServiceIndicator_NotApproved = ''not-approved''"

text \<open>The three parts of \<open>check\<close>: the state, the registry, and the mode.\<close>

definition check_state :: "state \<Rightarrow> unit result" where
  "check_state st =
     (case st of
        State_Operational _ \<Rightarrow> Ok ()
      | State_Error \<Rightarrow> Err ModuleErrorState ''module in error state''
      | _ \<Rightarrow> Err ModuleErrorState ''module not initialized; call ic_fips::initialize()'')"

definition check_entry :: "bool \<Rightarrow> entry list \<Rightarrow> string \<Rightarrow> entry result" where
  "check_entry approved_only registry algorithm_id =
     (case registry_get registry algorithm_id of
        None \<Rightarrow> Err Unsupported ''unknown algorithm''
      | Some e \<Rightarrow>
          if approved_only \<and> \<not> permitted_in_approved_mode (fips e)
          then Err NotApprovedInFipsMode
                 ''algorithm is not approved, and this build was compiled with ic_approved_only, which leaves it out''
          else if status e \<noteq> ImplStatus_Available
          then Err Unsupported
                 ''algorithm is described by the ontology but not implemented in this build''
          else Ok e)"

fun indicator_of :: "fips_status \<Rightarrow> service_indicator" where
  "indicator_of FipsStatus_Approved = ServiceIndicator_Approved"
| "indicator_of FipsStatus_Deprecated = ServiceIndicator_Approved"
| "indicator_of FipsStatus_AllowedAsComponent = ServiceIndicator_ApprovedAsComponent"
| "indicator_of FipsStatus_NotApproved = ServiceIndicator_NotApproved"
| "indicator_of FipsStatus_Disallowed = ServiceIndicator_NotApproved"

definition check_mode :: "mode option \<Rightarrow> entry \<Rightarrow> service_indicator result" where
  "check_mode m e =
     (if m = Some Mode_Approved \<and> \<not> permitted_in_approved_mode (fips e)
      then Err NotApprovedInFipsMode
             ''algorithm is not approved; select an approved alternative or leave approved mode''
      else Ok (indicator_of (fips e)))"

definition fips_check :: "entry list \<Rightarrow> string \<Rightarrow> fips \<Rightarrow> service_indicator result" where
  "fips_check registry algorithm_id s =
     bind_result (check_state (fips_state s)) (\<lambda>_.
     bind_result (check_entry (cfg_approved_only s) registry algorithm_id) (\<lambda>e.
     check_mode (fips_mode s) e))"

definition guarded ::
  "entry list \<Rightarrow> string \<Rightarrow> (unit \<Rightarrow> 'a) \<Rightarrow> fips \<Rightarrow> ('a \<times> service_indicator) result" where
  "guarded registry algorithm_id op s =
     bind_result (fips_check registry algorithm_id s) (\<lambda>indicator. Ok (op (), indicator))"

section \<open>What each operation does\<close>

text \<open>
  What the tests may do to the state: a test leaves it alone or latches the error
  flag, and once the flag is latched there is nothing left to change. The state
  before the test at position \<open>i\<close> then depends only on whether one of the tests
  before it latches the flag of the state they all started from.
\<close>

definition only_latches :: "cast \<Rightarrow> bool" where
  "only_latches test \<longleftrightarrow> (\<forall>s. snd (test s) = s \<or> snd (test s) = enter_error_state s)"

definition cast_state :: "casts \<Rightarrow> nat \<Rightarrow> fips \<Rightarrow> fips" where
  "cast_state casts i s =
     (if \<exists>(name, test) \<in> set (take i casts). snd (test s) \<noteq> s then enter_error_state s else s)"

definition cast_verdicts :: "casts \<Rightarrow> fips \<Rightarrow> bool list" where
  "cast_verdicts casts s =
     map (\<lambda>i. is_ok (fst (snd (casts ! i) (cast_state casts i s)))) [0..<length casts]"

lemma enter_error_state_twice [simp]: "enter_error_state (enter_error_state s) = enter_error_state s"
  by (simp add: enter_error_state_def)

lemma only_latchesD:
  "only_latches test \<Longrightarrow> snd (test s) \<noteq> s \<Longrightarrow> snd (test s) = enter_error_state s"
  "only_latches test \<Longrightarrow> snd (test (enter_error_state s)) = enter_error_state s"
  by (auto simp: only_latches_def dest: spec [of _ "enter_error_state s"])

lemma cast_state_0 [simp]: "cast_state casts 0 s = s"
  by (simp add: cast_state_def)

lemma cast_state_latched:
  "\<forall>(name, test) \<in> set casts. only_latches test \<Longrightarrow>
     cast_state casts i (enter_error_state s) = enter_error_state s"
  by (simp add: cast_state_def)

lemma cast_state_Suc:
  assumes "only_latches test" "\<forall>(name, test) \<in> set casts. only_latches test"
  shows "cast_state ((name, test) # casts) (Suc i) s = cast_state casts i (snd (test s))"
proof (cases "snd (test s) = s")
  case True
  then show ?thesis by (simp add: cast_state_def)
next
  case False
  then have "snd (test s) = enter_error_state s" by (rule only_latchesD(1) [OF assms(1)])
  with False assms(2) show ?thesis by (simp add: cast_state_latched) (simp add: cast_state_def)
qed

lemma length_cast_verdicts [simp]: "length (cast_verdicts casts s) = length casts"
  by (simp add: cast_verdicts_def)

lemma cast_verdicts_Cons:
  assumes "only_latches test" "\<forall>(name, test) \<in> set casts. only_latches test"
  shows "cast_verdicts ((name, test) # casts) s = is_ok (fst (test s)) # cast_verdicts casts (snd (test s))"
  by (simp add: cast_verdicts_def upt_conv_Cons map_Suc_upt [symmetric] o_def cast_state_Suc [OF assms]
      del: upt_Suc)

lemma run_tests_report:
  assumes "\<forall>(name, test) \<in> set casts. only_latches test"
  shows "snd (run_tests casts s r) = cast_state casts (length casts) s"
    and "outcomes (fst (run_tests casts s r)) = outcomes r @
      map2 (\<lambda>(n, t) ok. \<lparr>algorithm = n, outcome_passed = ok\<rparr>) casts (cast_verdicts casts s)"
    and "passed (fst (run_tests casts s r)) = passed r + length (filter id (cast_verdicts casts s))"
    and "failed (fst (run_tests casts s r)) = failed r + length (filter Not (cast_verdicts casts s))"
  using assms
proof (induction casts arbitrary: s r)
  case Nil
  {
    case 1 then show ?case by simp
  next
    case 2 then show ?case by (simp add: cast_verdicts_def)
  next
    case 3 then show ?case by (simp add: cast_verdicts_def)
  next
    case 4 then show ?case by (simp add: cast_verdicts_def)
  }
next
  case (Cons c casts)
  obtain name test where c: "c = (name, test)" by (cases c)
  {
    case 1
    then have l: "only_latches test" "\<forall>(name, test) \<in> set casts. only_latches test" by (auto simp: c)
    show ?case by (simp add: c split_beta Let_def Cons.IH(1) [OF l(2)] cast_state_Suc [OF l])
  next
    case 2
    then have l: "only_latches test" "\<forall>(name, test) \<in> set casts. only_latches test" by (auto simp: c)
    show ?case by (simp add: c split_beta Let_def Cons.IH(2) [OF l(2)] cast_verdicts_Cons [OF l])
  next
    case 3
    then have l: "only_latches test" "\<forall>(name, test) \<in> set casts. only_latches test" by (auto simp: c)
    show ?case by (simp add: c split_beta Let_def Cons.IH(3) [OF l(2)] cast_verdicts_Cons [OF l])
  next
    case 4
    then have l: "only_latches test" "\<forall>(name, test) \<in> set casts. only_latches test" by (auto simp: c)
    show ?case by (simp add: c split_beta Let_def Cons.IH(4) [OF l(2)] cast_verdicts_Cons [OF l])
  }
qed

lemma run_all_self_tests_report:
  assumes "\<forall>(name, test) \<in> set casts. only_latches test"
  shows "snd (run_all_self_tests casts s) = cast_state casts (length casts) s"
    and "outcomes (fst (run_all_self_tests casts s)) =
      map2 (\<lambda>(n, t) ok. \<lparr>algorithm = n, outcome_passed = ok\<rparr>) casts (cast_verdicts casts s)"
    and "passed (fst (run_all_self_tests casts s)) = length (filter id (cast_verdicts casts s))"
    and "failed (fst (run_all_self_tests casts s)) = length (filter Not (cast_verdicts casts s))"
  by (simp_all add: run_all_self_tests_def run_tests_report [OF assms])

lemma all_passed_iff:
  assumes "\<forall>(name, test) \<in> set casts. only_latches test"
  shows "all_passed (fst (run_all_self_tests casts s)) \<longleftrightarrow> list_all id (cast_verdicts casts s)"
  by (simp add: all_passed_def run_all_self_tests_report [OF assms] filter_empty_conv list_all_iff)

lemma run_self_test_known:
  assumes "distinct (map fst casts)" "(n, t) \<in> set casts"
  shows "run_self_test casts n s = t s"
proof -
  have "find (\<lambda>(name, _). name = n) casts = Some (n, t)"
    using assms by (induction casts) (auto simp: image_iff)
  then show ?thesis by (simp add: run_self_test_def)
qed

lemma decode_state_simps [simp]:
  "decode_state STATE_UNINITIALIZED = State_Uninitialized"
  "decode_state STATE_TESTING = State_SelfTestInProgress"
  "decode_state STATE_OPERATIONAL_UNRESTRICTED = State_Operational Mode_Unrestricted"
  "decode_state STATE_OPERATIONAL_APPROVED = State_Operational Mode_Approved"
  "decode_state STATE_ERROR = State_Error"
  by (simp_all add: decode_state_def state_consts)

lemma decode_mode_state [simp]: "decode_state (mode_state m) = State_Operational m"
  by (cases m) simp_all

lemma decode_state_operational:
  "decode_state raw = State_Operational m \<longleftrightarrow> raw = mode_state m"
  by (cases m) (auto simp: decode_state_def state_consts split: if_splits)

lemma fips_state_error: "FAILED s \<Longrightarrow> fips_state s = State_Error"
  by (simp add: fips_state_def in_error_state_def)

lemma fips_enter_error_state_fields [simp]:
  "FAILED (fips_enter_error_state s)" "STATE (fips_enter_error_state s) = STATE_ERROR"
  "SELF_TESTS (fips_enter_error_state s) = SELF_TESTS s"
  "cfg_approved_only (fips_enter_error_state s) = cfg_approved_only s"
  "cfg_startup_gate_off (fips_enter_error_state s) = cfg_startup_gate_off s"
  by (simp_all add: fips_enter_error_state_def enter_error_state_def)

lemma module_ops_STATE [simp]:
  "STATE (self_tests_started s) = STATE s" "STATE (self_tests_passed s) = STATE s"
  "STATE (enter_error_state s) = STATE s"
  by (simp_all add: self_tests_started_def self_tests_passed_def enter_error_state_def)

text \<open>The error state latches: no operation leaves it.\<close>

lemma initialize_error:
  "FAILED s \<Longrightarrow> initialize casts s = (Err ModuleErrorState ''module in error state'', s)"
  by (simp add: initialize_def fips_state_error)

lemma set_mode_error:
  "FAILED s \<Longrightarrow> set_mode m s = (Err ModuleErrorState ''module in error state'', s)"
  by (simp add: set_mode_def fips_state_error)

lemma fips_check_error:
  "FAILED s \<Longrightarrow> fips_check R a s = Err ModuleErrorState ''module in error state''"
  by (simp add: fips_check_def fips_state_error check_state_def)

lemma STATE_INITIAL_simps [simp]:
  "STATE_INITIAL (self_tests_started s) = STATE_INITIAL s"
  "STATE_INITIAL (s\<lparr>STATE := x\<rparr>) = STATE_INITIAL s"
  by (simp_all add: STATE_INITIAL_def)

lemma initialize_fresh:
  assumes "fips_state s \<noteq> State_Error" "\<forall>m. fips_state s \<noteq> State_Operational m"
  shows "initialize casts s =
    (let (report, s') = run_all_self_tests casts (self_tests_started (s\<lparr>STATE := STATE_TESTING\<rparr>))
     in if all_passed report
        then (Ok report, (self_tests_passed s')\<lparr>STATE := STATE_INITIAL s'\<rparr>)
        else (Err SelfTestFailed ''pre-operational self-test failed; module latched in error state'',
              fips_enter_error_state s'))"
  using assms by (cases "fips_state s") (auto simp: initialize_def all_passed_def Let_def split: prod.splits)

lemma initialize_again:
  "fips_state s = State_Operational m \<Longrightarrow>
     initialize casts s =
       (Ok (fst (run_all_self_tests casts s)), snd (run_all_self_tests casts s))"
  by (simp add: initialize_def split: prod.splits)

lemma cast_state_fields [simp]:
  "STATE (cast_state casts i s) = STATE s" "SELF_TESTS (cast_state casts i s) = SELF_TESTS s"
  "cfg_approved_only (cast_state casts i s) = cfg_approved_only s"
  by (simp_all add: cast_state_def enter_error_state_def)

text \<open>
  What \<open>initialize\<close> does in each state, with the report and the final state of the run in
  closed form.
\<close>

definition report_of :: "casts \<Rightarrow> fips \<Rightarrow> self_test_report \<Rightarrow> bool" where
  "report_of casts s report \<longleftrightarrow>
     map algorithm (outcomes report) = map fst casts
   \<and> map outcome_passed (outcomes report) = cast_verdicts casts s
   \<and> passed report = length (filter id (cast_verdicts casts s))
   \<and> failed report = length (filter Not (cast_verdicts casts s))"

lemma map2_project:
  "length xs = length ys \<Longrightarrow> map algorithm (map2 (\<lambda>(n, t) ok. \<lparr>algorithm = n, outcome_passed = ok\<rparr>) xs ys) = map fst xs"
  "length xs = length ys \<Longrightarrow> map outcome_passed (map2 (\<lambda>(n, t) ok. \<lparr>algorithm = n, outcome_passed = ok\<rparr>) xs ys) = ys"
  by (induction xs ys rule: list_induct2) auto

lemma run_all_self_tests_ok:
  assumes "\<forall>(name, test) \<in> set casts. only_latches test"
  obtains report where "run_all_self_tests casts s = (report, cast_state casts (length casts) s)"
    and "report_of casts s report"
proof (rule that)
  show "run_all_self_tests casts s = (fst (run_all_self_tests casts s), cast_state casts (length casts) s)"
    using run_all_self_tests_report(1) [OF assms, of s] by (metis prod.collapse)
  show "report_of casts s (fst (run_all_self_tests casts s))"
    by (simp add: report_of_def run_all_self_tests_report [OF assms] map2_project del: map_map)
qed

lemma report_of_all_passed:
  "report_of casts s report \<Longrightarrow> all_passed report \<longleftrightarrow> list_all id (cast_verdicts casts s)"
  by (simp add: report_of_def all_passed_def filter_empty_conv list_all_iff)

lemma initialize_operational:
  assumes "\<forall>(name, test) \<in> set casts. only_latches test" "fips_state s = State_Operational m"
  shows "\<exists>report. report_of casts s report
     \<and> initialize casts s = (Ok report, cast_state casts (length casts) s)"
  by (rule run_all_self_tests_ok [OF assms(1), of s]) (auto simp: initialize_again [OF assms(2)])

lemma initialize_first:
  assumes "\<forall>(name, test) \<in> set casts. only_latches test"
    and "fips_state s \<noteq> State_Error" "\<forall>m. fips_state s \<noteq> State_Operational m"
  defines "s1 \<equiv> self_tests_started (s\<lparr>STATE := STATE_TESTING\<rparr>)"
  defines "s2 \<equiv> cast_state casts (length casts) s1"
  shows "\<exists>report. report_of casts s1 report \<and> initialize casts s =
    (if list_all id (cast_verdicts casts s1)
     then (Ok report, s2\<lparr>SELF_TESTS := PASSED, STATE := STATE_INITIAL s\<rparr>)
     else (Err SelfTestFailed ''pre-operational self-test failed; module latched in error state'',
           s2\<lparr>STATE := STATE_ERROR, FAILED := True\<rparr>))"
proof -
  obtain report where r: "run_all_self_tests casts s1 = (report, s2)" "report_of casts s1 report"
    unfolding s2_def by (rule run_all_self_tests_ok [OF assms(1)])
  have "cfg_approved_only s2 = cfg_approved_only s"
    by (simp add: s2_def s1_def self_tests_started_def)
  then have "STATE_INITIAL s2 = STATE_INITIAL s" by (simp add: STATE_INITIAL_def)
  then show ?thesis
    using r initialize_fresh [OF assms(2,3), of casts]
    by (auto simp: report_of_all_passed self_tests_passed_def fips_enter_error_state_def
        enter_error_state_def simp flip: s1_def intro!: exI [of _ report])
qed

lemma cast_state_mode:
  assumes "fips_state s = State_Operational m"
  shows "fips_state (cast_state casts (length casts) s) =
    (if \<exists>(name, test) \<in> set casts. snd (test s) \<noteq> s then State_Error else State_Operational m)"
  using assms by (simp add: cast_state_def) (simp add: fips_state_error enter_error_state_def)

end
