(* ===== verification/Fips_Threads.thy ===== *)
theory Fips_Threads
  imports Fips
begin

text \<open>
  The operations of \<open>crates/ic-fips/src/lib.rs\<close> as sequences of atomic loads and
  stores, interleaved between any number of threads. Every access of the source
  to one of the three atomics is one step; the accesses are taken to be
  sequentially consistent (all but the relaxed loads of \<open>module.rs\<close> are so
  declared). Whether the known-answer tests pass is open at the step that runs
  them, and a call may start at the store of the error flag: that is
  \<open>enter_error_state\<close> of \<open>crates/ic-core/src/module.rs\<close>, which key generation and the
  entropy check call without touching the state, in the tests too. A lemma for each
  operation states that its steps, uninterrupted, are the function of the theory
  before.
\<close>

section \<open>One thread\<close>

datatype pc =
    Idle
  | Init_ReadFlag | Init_ReadState | Init_StoreTesting | Init_ReadTests | Init_StoreTests
  | Init_Run | Init_StoreError | Init_StoreFlag | Init_StorePassed | Init_StoreInitial
  | Mode_ReadFlag mode | Mode_ReadState mode | Mode_Store mode
  | Enter_StoreError | Enter_StoreFlag
  | Check_ReadFlag string | Check_ReadState string | Check_Entry string
  | Check_ReadFlag2 entry | Check_ReadState2 entry
  | Init_Done "unit result" | Mode_Done mode "unit result" | Enter_Done
  | Check_Done "service_indicator result"

fun finished :: "pc \<Rightarrow> bool" where
  "finished Idle = True"
| "finished (Init_Done _) = True"
| "finished (Mode_Done _ _) = True"
| "finished Enter_Done = True"
| "finished (Check_Done _) = True"
| "finished _ = False"

fun starts :: "pc \<Rightarrow> bool" where
  "starts Init_ReadFlag = True"
| "starts (Mode_ReadFlag _) = True"
| "starts Enter_StoreError = True"
| "starts Enter_StoreFlag = True"
| "starts (Check_ReadFlag _) = True"
| "starts _ = False"

abbreviation module_failed :: "'a result" where
  "module_failed \<equiv> Err ModuleErrorState ''module in error state''"

text \<open>
  The step a thread at \<open>pc\<close> takes on the shared state; \<open>ok\<close> is the outcome of the
  known-answer tests, read at the step that runs them only.
\<close>

fun thread_step :: "entry list \<Rightarrow> bool \<Rightarrow> pc \<Rightarrow> fips \<Rightarrow> pc \<times> fips" where
  "thread_step R ok Init_ReadFlag s =
     (if in_error_state s then (Init_Done module_failed, s) else (Init_ReadState, s))"
| "thread_step R ok Init_ReadState s =
     (case decode_state (STATE s) of
        State_Error \<Rightarrow> (Init_Done module_failed, s)
      | State_Operational _ \<Rightarrow> (Init_Done (Ok ()), s)
      | _ \<Rightarrow> (Init_StoreTesting, s))"
| "thread_step R ok Init_StoreTesting s = (Init_ReadTests, s\<lparr>STATE := STATE_TESTING\<rparr>)"
| "thread_step R ok Init_ReadTests s =
     (if SELF_TESTS s = UNTESTED then (Init_StoreTests, s) else (Init_Run, s))"
| "thread_step R ok Init_StoreTests s = (Init_Run, s\<lparr>SELF_TESTS := TESTING\<rparr>)"
| "thread_step R ok Init_Run s = (if ok then (Init_StorePassed, s) else (Init_StoreError, s))"
| "thread_step R ok Init_StoreError s = (Init_StoreFlag, s\<lparr>STATE := STATE_ERROR\<rparr>)"
| "thread_step R ok Init_StoreFlag s =
     (Init_Done (Err SelfTestFailed ''pre-operational self-test failed; module latched in error state''),
      s\<lparr>FAILED := True\<rparr>)"
| "thread_step R ok Init_StorePassed s = (Init_StoreInitial, s\<lparr>SELF_TESTS := PASSED\<rparr>)"
| "thread_step R ok Init_StoreInitial s = (Init_Done (Ok ()), s\<lparr>STATE := STATE_INITIAL s\<rparr>)"
| "thread_step R ok (Mode_ReadFlag m) s =
     (if in_error_state s then (Mode_Done m module_failed, s) else (Mode_ReadState m, s))"
| "thread_step R ok (Mode_ReadState m) s =
     (case decode_state (STATE s) of
        State_Operational _ \<Rightarrow>
          if cfg_approved_only s \<and> m = Mode_Unrestricted
          then (Mode_Done m (Err NotApprovedInFipsMode
                  ''this build was compiled with ic_approved_only and has no unrestricted mode''), s)
          else (Mode_Store m, s)
      | State_Error \<Rightarrow> (Mode_Done m module_failed, s)
      | _ \<Rightarrow> (Mode_Done m (Err ModuleErrorState ''call initialize() before selecting a mode''), s))"
| "thread_step R ok (Mode_Store m) s = (Mode_Done m (Ok ()), s\<lparr>STATE := mode_state m\<rparr>)"
| "thread_step R ok Enter_StoreError s = (Enter_StoreFlag, s\<lparr>STATE := STATE_ERROR\<rparr>)"
| "thread_step R ok Enter_StoreFlag s = (Enter_Done, s\<lparr>FAILED := True\<rparr>)"
| "thread_step R ok (Check_ReadFlag a) s =
     (if in_error_state s then (Check_Done module_failed, s) else (Check_ReadState a, s))"
| "thread_step R ok (Check_ReadState a) s =
     (case check_state (decode_state (STATE s)) of
        Inl e \<Rightarrow> (Check_Done (Inl e), s)
      | Inr _ \<Rightarrow> (Check_Entry a, s))"
| "thread_step R ok (Check_Entry a) s =
     (case check_entry (cfg_approved_only s) R a of
        Inl e \<Rightarrow> (Check_Done (Inl e), s)
      | Inr e \<Rightarrow> (Check_ReadFlag2 e, s))"
| "thread_step R ok (Check_ReadFlag2 e) s =
     (if in_error_state s then (Check_Done (check_mode None e), s) else (Check_ReadState2 e, s))"
| "thread_step R ok (Check_ReadState2 e) s =
     (Check_Done (check_mode
        (case decode_state (STATE s) of State_Operational m \<Rightarrow> Some m | _ \<Rightarrow> None) e), s)"
| "thread_step R ok p s = (p, s)"

section \<open>Several threads\<close>

type_synonym config = "(nat \<Rightarrow> pc) \<times> fips"

inductive fips_step :: "entry list \<Rightarrow> config \<Rightarrow> config \<Rightarrow> bool" for R where
  call: "finished (pcs t) \<Longrightarrow> starts p \<Longrightarrow> fips_step R (pcs, s) (pcs(t := p), s)"
| move: "\<not> finished (pcs t) \<Longrightarrow> thread_step R ok (pcs t) s = (p, s') \<Longrightarrow>
         fips_step R (pcs, s) (pcs(t := p), s')"

inductive_cases fips_stepE: "fips_step R c c'"

definition start_config :: "bool \<Rightarrow> bool \<Rightarrow> config" where
  "start_config approved_only gate_off = (\<lambda>_. Idle, fips_initial approved_only gate_off)"

abbreviation fips_steps :: "entry list \<Rightarrow> config \<Rightarrow> config \<Rightarrow> bool" where
  "fips_steps R \<equiv> (fips_step R)\<^sup>*\<^sup>*"

definition reachable :: "entry list \<Rightarrow> bool \<Rightarrow> bool \<Rightarrow> config \<Rightarrow> bool" where
  "reachable R approved_only gate_off c \<longleftrightarrow> fips_steps R (start_config approved_only gate_off) c"

lemma reachable_induct [consumes 1, case_names start step]:
  assumes "reachable R ao off c"
    and "P (start_config ao off)"
    and "\<And>c c'. reachable R ao off c \<Longrightarrow> P c \<Longrightarrow> fips_step R c c' \<Longrightarrow> P c'"
  shows "P c"
  using assms(1) unfolding reachable_def
  by (induction rule: rtranclp_induct) (auto simp: assms(2) reachable_def intro: assms(3))

text \<open>Every step is a thread step or a call, and a thread step changes the state like this.\<close>

lemma thread_step_config:
  assumes "thread_step R ok p s = (p', s')"
  shows "cfg_approved_only s' = cfg_approved_only s \<and> cfg_startup_gate_off s' = cfg_startup_gate_off s"
  using assms
  by (cases p) (auto split: if_splits state.splits sum.splits)

lemma thread_step_failed:
  assumes "thread_step R ok p s = (p', s')" "FAILED s"
  shows "FAILED s'"
  using assms by (cases p) (auto split: if_splits state.splits sum.splits)

text \<open>The error flag is never cleared, whatever the threads do.\<close>

lemma fips_step_failed: "fips_step R c c' \<Longrightarrow> FAILED (snd c) \<Longrightarrow> FAILED (snd c')"
  by (erule fips_step.cases) (auto dest: thread_step_failed)

lemma failed_forever: "fips_steps R c c' \<Longrightarrow> FAILED (snd c) \<Longrightarrow> FAILED (snd c')"
  by (induction rule: rtranclp_induct) (auto dest: fips_step_failed)

lemma config_constant: "fips_step R c c' \<Longrightarrow> cfg_approved_only (snd c') = cfg_approved_only (snd c)"
  by (erule fips_step.cases) (auto dest: thread_step_config)

section \<open>Invariants under every interleaving\<close>

text \<open>
  What holds of the shared state, and of a thread by where it stands: the module
  is never operational before a self-test run has been started, a thread past the
  start of the tests has recorded that, and an approved-only build never stores
  the unrestricted mode.
\<close>

fun past_start :: "pc \<Rightarrow> bool" where
  "past_start Init_Run = True"
| "past_start Init_StorePassed = True"
| "past_start Init_StoreInitial = True"
| "past_start (Mode_Store _) = True"
| "past_start _ = False"

definition operational_raw :: "u8 \<Rightarrow> bool" where
  "operational_raw raw \<longleftrightarrow> raw = STATE_OPERATIONAL_UNRESTRICTED \<or> raw = STATE_OPERATIONAL_APPROVED"

definition fips_inv :: "bool \<Rightarrow> config \<Rightarrow> bool" where
  "fips_inv ao c \<longleftrightarrow> (case c of (pcs, s) \<Rightarrow>
     cfg_approved_only s = ao
   \<and> (operational_raw (STATE s) \<longrightarrow> SELF_TESTS s \<noteq> UNTESTED)
   \<and> (\<forall>t. past_start (pcs t) \<longrightarrow> SELF_TESTS s \<noteq> UNTESTED)
   \<and> (ao \<longrightarrow> STATE s \<noteq> STATE_OPERATIONAL_UNRESTRICTED)
   \<and> (\<forall>t. ao \<longrightarrow> pcs t \<noteq> Mode_Store Mode_Unrestricted))"

lemma fips_inv_start: "fips_inv ao (start_config ao off)"
  by (simp add: fips_inv_def start_config_def fips_initial_def module_initial_def
      module_state.defs fips.defs operational_raw_def state_consts)

lemma starts_not_past: "starts p \<Longrightarrow> \<not> past_start p \<and> p \<noteq> Mode_Store m"
  by (cases p) auto

lemma operational_raw_simps [simp]:
  "\<not> operational_raw STATE_TESTING" "\<not> operational_raw STATE_ERROR"
  "operational_raw (mode_state m)" "operational_raw (STATE_INITIAL s)"
  by (cases m; simp add: operational_raw_def state_consts STATE_INITIAL_def)+

lemma decode_state_operational_raw:
  "decode_state raw = State_Operational m \<Longrightarrow> operational_raw raw"
  by (cases m) (auto simp: decode_state_def operational_raw_def split: if_splits)

lemma thread_step_inv:
  assumes "thread_step R ok p s = (p', s')"
    and "operational_raw (STATE s) \<longrightarrow> SELF_TESTS s \<noteq> UNTESTED"
    and "past_start p \<longrightarrow> SELF_TESTS s \<noteq> UNTESTED"
    and "cfg_approved_only s \<longrightarrow> STATE s \<noteq> STATE_OPERATIONAL_UNRESTRICTED"
    and "cfg_approved_only s \<longrightarrow> p \<noteq> Mode_Store Mode_Unrestricted"
  shows "(operational_raw (STATE s') \<longrightarrow> SELF_TESTS s' \<noteq> UNTESTED)
       \<and> (past_start p' \<longrightarrow> SELF_TESTS s' \<noteq> UNTESTED)
       \<and> (SELF_TESTS s \<noteq> UNTESTED \<longrightarrow> SELF_TESTS s' \<noteq> UNTESTED)
       \<and> (cfg_approved_only s' \<longrightarrow> STATE s' \<noteq> STATE_OPERATIONAL_UNRESTRICTED)
       \<and> (cfg_approved_only s' \<longrightarrow> p' \<noteq> Mode_Store Mode_Unrestricted)"
proof -
  have m: "cfg_approved_only s \<Longrightarrow> p = Mode_Store m \<Longrightarrow> m = Mode_Approved" for m
    using assms(5) by (cases m) auto
  have ne: "STATE_OPERATIONAL_APPROVED \<noteq> STATE_OPERATIONAL_UNRESTRICTED"
    "STATE_TESTING \<noteq> STATE_OPERATIONAL_UNRESTRICTED" "STATE_ERROR \<noteq> STATE_OPERATIONAL_UNRESTRICTED"
    "TESTING \<noteq> UNTESTED" "PASSED \<noteq> UNTESTED"
    by (simp_all add: state_consts self_tests_consts)
  show ?thesis
    using assms m ne
    by (cases p) (auto simp: STATE_INITIAL_def split: if_splits state.splits sum.splits
        dest: decode_state_operational_raw)
qed

lemma fips_inv_step:
  assumes "fips_step R c c'" "fips_inv ao c"
  shows "fips_inv ao c'"
  using assms(1)
proof cases
  case (call pcs t p s)
  then show ?thesis using assms(2) starts_not_past [of p] by (auto simp: fips_inv_def)
next
  case (move pcs t ok s p s')
  have inv: "cfg_approved_only s = ao" "operational_raw (STATE s) \<longrightarrow> SELF_TESTS s \<noteq> UNTESTED"
    "\<forall>t. past_start (pcs t) \<longrightarrow> SELF_TESTS s \<noteq> UNTESTED"
    "ao \<longrightarrow> STATE s \<noteq> STATE_OPERATIONAL_UNRESTRICTED"
    "\<forall>t. ao \<longrightarrow> pcs t \<noteq> Mode_Store Mode_Unrestricted"
    using assms(2) move(1) by (simp_all add: fips_inv_def)
  note step = thread_step_inv [OF move(4)] and conf = thread_step_config [OF move(4)]
  show ?thesis
    unfolding move(2) fips_inv_def using step conf inv by (auto simp: fun_upd_def)
qed

lemma reachable_inv: "reachable R ao off c \<Longrightarrow> fips_inv ao c"
  by (induction rule: reachable_induct) (auto intro: fips_inv_start fips_inv_step)

text \<open>No thread that begins an operation on a failed module gets anything but the refusal.\<close>

fun refusing :: "pc \<Rightarrow> bool" where
  "refusing Init_ReadFlag = True"
| "refusing (Mode_ReadFlag _) = True"
| "refusing (Check_ReadFlag _) = True"
| "refusing (Init_Done r) = (r = module_failed)"
| "refusing (Mode_Done _ r) = (r = module_failed)"
| "refusing (Check_Done r) = (r = module_failed)"
| "refusing Enter_StoreError = True"
| "refusing Enter_StoreFlag = True"
| "refusing Enter_Done = True"
| "refusing _ = False"

lemma thread_step_refusing:
  "thread_step R ok p s = (p', s') \<Longrightarrow> FAILED s \<Longrightarrow> refusing p \<Longrightarrow> refusing p'"
  by (cases p) (auto simp: in_error_state_def)

lemma starts_refusing: "starts p \<Longrightarrow> refusing p"
  by (cases p) auto

lemma refusing_forever:
  assumes "fips_steps R c c'" "FAILED (snd c)" "refusing (fst c t)"
  shows "refusing (fst c' t)"
  using assms(1)
proof (induction rule: rtranclp_induct)
  case (step c1 c2)
  have f: "FAILED (snd c1)" using failed_forever step.hyps(1) assms(2) by blast
  from step.hyps(2) show ?case
  proof cases
    case (call pcs u p s)
    then show ?thesis using step.IH starts_refusing by (cases "u = t") auto
  next
    case (move pcs u ok s p s')
    then show ?thesis using step.IH f thread_step_refusing [OF move(4)] by (cases "u = t") auto
  qed
qed (use assms in simp)

section \<open>Uninterrupted, the steps are the functions\<close>

fun run_thread :: "entry list \<Rightarrow> bool \<Rightarrow> nat \<Rightarrow> pc \<times> fips \<Rightarrow> pc \<times> fips" where
  "run_thread R ok 0 ps = ps"
| "run_thread R ok (Suc n) ps = run_thread R ok n (thread_step R ok (fst ps) (snd ps))"

definition forget :: "'a result \<Rightarrow> unit result" where
  "forget r = bind_result r (\<lambda>_. Ok ())"

lemma forget_simps [simp]: "forget (Inl e) = Inl e" "forget (Inr x) = Ok ()"
  by (simp_all add: forget_def)

lemma self_tests_started_steps:
  "run_thread R ok (Suc (Suc n)) (Init_ReadTests, s) =
     (if SELF_TESTS s = UNTESTED then run_thread R ok n (Init_Run, self_tests_started s)
      else run_thread R ok (Suc n) (Init_Run, self_tests_started s))"
  by (simp add: self_tests_started_def)

lemma run_thread_finished: "finished p \<Longrightarrow> run_thread R ok n (p, s) = (p, s)"
proof (induction n)
  case (Suc n)
  then show ?case by (cases p) simp_all
qed simp

lemma run_thread_three:
  "run_thread R ok (n + 3) (p, s) =
     (let (p1, s1) = thread_step R ok p s; (p2, s2) = thread_step R ok p1 s1
      in run_thread R ok n (thread_step R ok p2 s2))"
  by (simp add: eval_nat_numeral Let_def split: prod.splits)

lemma run_thread_run:
  "run_thread R ok (n + 3) (Init_Run, s) =
     (if ok then (Init_Done (Ok ()), (self_tests_passed s)\<lparr>STATE := STATE_INITIAL s\<rparr>)
      else (Init_Done (Err SelfTestFailed
              ''pre-operational self-test failed; module latched in error state''),
            fips_enter_error_state s))"
  by (simp add: eval_nat_numeral self_tests_passed_def STATE_INITIAL_def
      fips_enter_error_state_def enter_error_state_def run_thread_finished)

lemma initialize_steps:
  assumes "run_all_self_tests casts (self_tests_started (s\<lparr>STATE := STATE_TESTING\<rparr>)) =
      (report, self_tests_started (s\<lparr>STATE := STATE_TESTING\<rparr>))"
    and "\<forall>m. fips_state s = State_Operational m \<longrightarrow> snd (run_all_self_tests casts s) = s"
    and "ok = all_passed report"
  shows "run_thread R ok 8 (Init_ReadFlag, s) =
    (Init_Done (forget (fst (initialize casts s))), snd (initialize casts s))"
proof -
  let ?s = "self_tests_started (s\<lparr>STATE := STATE_TESTING\<rparr>)"
  have run: "run_thread R ok 5 (Init_ReadTests, s\<lparr>STATE := STATE_TESTING\<rparr>) =
      (if ok then (Init_Done (Ok ()), (self_tests_passed ?s)\<lparr>STATE := STATE_INITIAL s\<rparr>)
       else (Init_Done (Err SelfTestFailed
               ''pre-operational self-test failed; module latched in error state''),
             fips_enter_error_state ?s))"
    using self_tests_started_steps [of R ok 3 "s\<lparr>STATE := STATE_TESTING\<rparr>"]
      run_thread_run [of R ok 0 ?s] run_thread_run [of R ok 1 ?s]
    by (simp add: eval_nat_numeral split: if_splits)
  have start: "run_thread R ok 8 (Init_ReadFlag, s) =
      (if in_error_state s then (Init_Done module_failed, s)
       else case decode_state (STATE s) of
          State_Error \<Rightarrow> (Init_Done module_failed, s)
        | State_Operational _ \<Rightarrow> (Init_Done (Ok ()), s)
        | _ \<Rightarrow> run_thread R ok 5 (Init_ReadTests, s\<lparr>STATE := STATE_TESTING\<rparr>))"
    using run_thread_three [of R ok 5 Init_ReadFlag s]
    by (simp add: run_thread_finished split: state.splits)
  show ?thesis
    unfolding start run
    by (cases "decode_state (STATE s)")
       (use assms in \<open>auto simp: initialize_def fips_state_def all_passed_def Let_def split: prod.splits if_splits\<close>)
qed

lemma set_mode_steps:
  "run_thread R ok 3 (Mode_ReadFlag m, s) = (Mode_Done m (fst (set_mode m s)), snd (set_mode m s))"
  by (cases "decode_state (STATE s)")
     (simp_all add: eval_nat_numeral set_mode_def fips_state_def run_thread_finished)

lemma enter_error_state_steps:
  "run_thread R ok 2 (Enter_StoreError, s) = (Enter_Done, fips_enter_error_state s)"
  by (simp add: eval_nat_numeral fips_enter_error_state_def enter_error_state_def)

lemma fips_check_steps:
  "run_thread R ok 5 (Check_ReadFlag a, s) = (Check_Done (fips_check R a s), s)"
  by (cases "decode_state (STATE s)"; cases "check_entry (cfg_approved_only s) R a")
     (simp_all add: eval_nat_numeral fips_check_def fips_state_def fips_mode_def check_state_def
        run_thread_finished)

section \<open>An approved-only build never passes an unapproved algorithm\<close>

fun check_pending :: "pc \<Rightarrow> bool" where
  "check_pending (Check_ReadFlag2 e) = permitted_in_approved_mode (fips e)"
| "check_pending (Check_ReadState2 e) = permitted_in_approved_mode (fips e)"
| "check_pending (Check_Done r) = (r \<noteq> Ok ServiceIndicator_NotApproved)"
| "check_pending _ = True"

lemma check_entry_OkD:
  "check_entry ao R a = Ok e \<Longrightarrow>
     registry_get R a = Some e \<and> status e = ImplStatus_Available
     \<and> (ao \<longrightarrow> permitted_in_approved_mode (fips e))"
  by (auto simp: check_entry_def split: option.splits if_splits)

lemma indicator_not_approved:
  "indicator_of f = ServiceIndicator_NotApproved \<longleftrightarrow> \<not> permitted_in_approved_mode f"
  by (cases f) auto

lemma check_mode_permitted:
  "permitted_in_approved_mode (fips e) \<Longrightarrow> check_mode m e \<noteq> Ok ServiceIndicator_NotApproved"
  using indicator_not_approved [of "fips e"]
  by (auto simp: check_mode_def simp del: permitted_in_approved_mode.simps)

lemma thread_step_check:
  assumes "thread_step R ok p s = (p', s')" "check_pending p" "cfg_approved_only s"
  shows "check_pending p'"
  using assms
  by (cases p) (auto dest: check_entry_OkD simp: check_mode_permitted
      simp del: permitted_in_approved_mode.simps split: if_splits state.splits sum.splits)

lemma reachable_check_pending:
  assumes "reachable R True off c"
  shows "check_pending (fst c t)"
  using assms
proof (induction rule: reachable_induct)
  case start
  then show ?case by (simp add: start_config_def)
next
  case (step c c')
  have ao: "cfg_approved_only (snd c)"
    using reachable_inv [OF step.hyps(1)] by (simp add: fips_inv_def split: prod.splits)
  from step.hyps(2) show ?case
  proof cases
    case (call pcs u p s)
    then show ?thesis using step.IH by (cases p; cases "u = t") auto
  next
    case (move pcs u ok s p s')
    then show ?thesis
      using step.IH ao thread_step_check [OF move(4)] by (cases "u = t") auto
  qed
qed

section \<open>Schedules\<close>

text \<open>A schedule, so that a concrete interleaving is a computation.\<close>

datatype action = Call nat pc | Move nat bool

fun act :: "entry list \<Rightarrow> action \<Rightarrow> config \<Rightarrow> config option" where
  "act R (Call t p) (pcs, s) = (if finished (pcs t) \<and> starts p then Some (pcs(t := p), s) else None)"
| "act R (Move t ok) (pcs, s) =
     (if finished (pcs t) then None
      else let (p, s') = thread_step R ok (pcs t) s in Some (pcs(t := p), s'))"

fun acts :: "entry list \<Rightarrow> action list \<Rightarrow> config \<Rightarrow> config option" where
  "acts R [] c = Some c"
| "acts R (a # as) c = (case act R a c of None \<Rightarrow> None | Some c' \<Rightarrow> acts R as c')"

lemma act_step: "act R a c = Some c' \<Longrightarrow> fips_step R c c'"
proof (cases a)
  case (Call t p)
  then show "act R a c = Some c' \<Longrightarrow> fips_step R c c'"
    by (cases c) (auto intro: fips_step.call split: if_splits)
next
  case (Move t ok)
  then show "act R a c = Some c' \<Longrightarrow> fips_step R c c'"
    by (cases c; cases "thread_step R ok (fst c t) (snd c)")
       (auto intro: fips_step.move split: if_splits)
qed

lemma acts_steps: "acts R as c = Some c' \<Longrightarrow> fips_steps R c c'"
  by (induction as arbitrary: c)
     (auto split: option.splits intro: converse_rtranclp_into_rtranclp dest: act_step)

lemma acts_reachable:
  "acts R as (start_config ao off) = Some c \<Longrightarrow> reachable R ao off c"
  by (simp add: reachable_def acts_steps)

section \<open>Two races\<close>

text \<open>
  Two threads call \<open>initialize\<close>. One finishes, approved mode is selected and
  reported selected; the other's last store then puts the module back into
  unrestricted mode.
\<close>

abbreviation moves :: "nat \<Rightarrow> nat \<Rightarrow> action list" where
  "moves n t \<equiv> replicate n (Move t True)"

definition lost_mode_schedule :: "action list" where
  "lost_mode_schedule =
     [Call 0 Init_ReadFlag, Call 1 Init_ReadFlag] @ moves 2 0 @ moves 3 1 @ moves 3 0 @ moves 3 0 @ moves 3 1
     @ [Call 0 (Mode_ReadFlag Mode_Approved)] @ moves 3 0"

lemma tested_not_untested: "TESTING \<noteq> UNTESTED" "PASSED \<noteq> UNTESTED"
  by (simp_all add: self_tests_consts)

lemmas schedule_simps =
  start_config_def fips_initial_def module_initial_def module_state.defs fips.defs
  in_error_state_def tested_not_untested STATE_INITIAL_def numeral_2_eq_2 numeral_3_eq_3

lemma lost_mode:
  "\<exists>c c'. reachable R False off c \<and> fst c 0 = Mode_Done Mode_Approved (Ok ())
     \<and> fips_state (snd c) = State_Operational Mode_Approved
     \<and> fst c 1 = Init_StoreInitial \<and> thread_step R True (fst c 1) (snd c) = (Init_Done (Ok ()), snd c')
     \<and> fips_step R c c' \<and> fips_state (snd c') = State_Operational Mode_Unrestricted"
proof -
  define c where "c = the (acts R lost_mode_schedule (start_config False off))"
  have run: "acts R lost_mode_schedule (start_config False off) = Some c"
    by (simp add: c_def lost_mode_schedule_def schedule_simps)
  have c: "fst c 0 = Mode_Done Mode_Approved (Ok ())" "fst c 1 = Init_StoreInitial"
    "STATE (snd c) = STATE_OPERATIONAL_APPROVED" "\<not> FAILED (snd c)" "\<not> cfg_approved_only (snd c)"
    by (simp_all add: c_def lost_mode_schedule_def schedule_simps)
  let ?c' = "((fst c)(1 := Init_Done (Ok ())), (snd c)\<lparr>STATE := STATE_INITIAL (snd c)\<rparr>)"
  have step: "thread_step R True (fst c 1) (snd c) = (Init_Done (Ok ()), snd ?c')"
    by (simp add: c del: One_nat_def)
  moreover have "fips_step R c ?c'"
    using fips_step.move [of "fst c" 1 R True "snd c"] step c by (simp del: One_nat_def)
  moreover have "fips_state (snd ?c') = State_Operational Mode_Unrestricted"
    using c by (simp add: fips_state_def in_error_state_def STATE_INITIAL_def)
  moreover have "fips_state (snd c) = State_Operational Mode_Approved"
    using c by (simp add: fips_state_def in_error_state_def)
  ultimately show ?thesis using acts_reachable [OF run] c by blast
qed

text \<open>
  \<open>check\<close> reads the state twice. When the error state is entered in between, the
  second reading finds no mode at all, and a module that has never left approved
  mode answers that an unapproved algorithm may be used.
\<close>

definition late_error_schedule :: "string \<Rightarrow> action list" where
  "late_error_schedule a =
     [Call 1 (Check_ReadFlag a)] @ moves 3 1 @ [Call 0 Enter_StoreError] @ moves 2 0 @ moves 1 1"

definition approved_schedule :: "action list" where
  "approved_schedule =
     [Call 0 Init_ReadFlag] @ moves 3 0 @ moves 3 0 @ moves 2 0
     @ [Call 0 (Mode_ReadFlag Mode_Approved)] @ moves 3 0"

lemma late_error:
  assumes "check_entry False R a = Ok e" "\<not> permitted_in_approved_mode (fips e)"
  shows "\<exists>c c'. reachable R False off c \<and> fips_state (snd c) = State_Operational Mode_Approved
     \<and> (\<forall>t. finished (fst c t))
     \<and> acts R (late_error_schedule a) c = Some c'
     \<and> fst c' 1 = Check_Done (Ok ServiceIndicator_NotApproved) \<and> fips_state (snd c') = State_Error"
proof -
  define c where "c = the (acts R approved_schedule (start_config False off))"
  have run: "acts R approved_schedule (start_config False off) = Some c"
    by (simp add: c_def approved_schedule_def schedule_simps)
  have c: "\<forall>t. finished (fst c t)" "STATE (snd c) = STATE_OPERATIONAL_APPROVED" "\<not> FAILED (snd c)"
    "\<not> cfg_approved_only (snd c)"
    by (simp_all add: c_def approved_schedule_def schedule_simps)
  have ind: "indicator_of (fips e) = ServiceIndicator_NotApproved"
    using assms(2) indicator_not_approved by blast
  obtain pcs s where cs: "c = (pcs, s)" by (cases c)
  have "\<exists>c'. acts R (late_error_schedule a) c = Some c'
     \<and> fst c' 1 = Check_Done (Ok ServiceIndicator_NotApproved) \<and> fips_state (snd c') = State_Error"
    using c assms(1) ind
    by (simp add: cs late_error_schedule_def in_error_state_def numeral_2_eq_2 numeral_3_eq_3
        check_state_def check_mode_def fips_state_def)
  moreover have "fips_state (snd c) = State_Operational Mode_Approved"
    using c by (simp add: fips_state_def in_error_state_def)
  ultimately show ?thesis using acts_reachable [OF run] c(1) by blast
qed

end
