(* ===== verification/Registry_Consts.thy ===== *)
theory Registry_Consts
  imports Ontology_Types
begin

text \<open>
  The shared constants of \<open>crates/ic-ontology/src/registry.rs\<close>: constraints,
  parameter sets and the helpers that build entries. Text that is not ASCII in
  the source is spelled as its UTF-8 bytes, and a line feed as its code. The
  configuration flag \<open>ic_approved_only\<close> is the argument \<open>ao\<close>.
\<close>

named_theorems registry_facts

definition NOT_APPROVED_STATUS :: "bool \<Rightarrow> impl_status" where
  "NOT_APPROVED_STATUS ao = (if ao then ImplStatus_Excluded else ImplStatus_Available)"

definition if_built :: "bool \<Rightarrow> string \<Rightarrow> string" where
  "if_built ao t = (if ao then [] else t)"

definition digest_params :: "nat \<Rightarrow> nat \<Rightarrow> param list" where
  \<open>digest_params out_len block_len =
     [\<lparr>param_name = ''output'', param_unit = Unit_Bytes, param_min = out_len, param_max = out_len, param_recommended = out_len, param_note = ''Digest length.''\<rparr>, \<lparr>param_name = ''block'', param_unit = Unit_Bytes, param_min = block_len, param_max = block_len, param_recommended = block_len, param_note = ''Internal block or rate size; HMAC needs it.''\<rparr>]\<close>

definition composite_params :: "nat \<Rightarrow> nat \<Rightarrow> nat \<Rightarrow> param list" where
  \<open>composite_params pub priv sig =
     [\<lparr>param_name = ''private-key'', param_unit = Unit_Bytes, param_min = priv, param_max = priv, param_recommended = priv, param_note = ''The 32-byte ML-DSA seed, then the EdDSA seed.''\<rparr>, \<lparr>param_name = ''public-key'', param_unit = Unit_Bytes, param_min = pub, param_max = pub, param_recommended = pub, param_note = ''The ML-DSA public key, then the EdDSA one.''\<rparr>, \<lparr>param_name = ''signature'', param_unit = Unit_Bytes, param_min = sig, param_max = sig, param_recommended = sig, param_note = ''The ML-DSA signature, then the EdDSA one.''\<rparr>, \<lparr>param_name = ''context'', param_unit = Unit_Bytes, param_min = 0, param_max = 255, param_recommended = 0, param_note = ''Bound into the message both halves sign; the verifier must give the same bytes.''\<rparr>]\<close>

definition UNIQUE_NONCE :: "constraint" where
  \<open>UNIQUE_NONCE =
     \<lparr>constraint_id = ''unique-nonce-per-key'', requirement = ''Never reuse a (key, nonce) pair.'', consequence = ''Reuse leaks the authentication subkey, allowing forgery of arbitrary messages, and XORs the two plaintexts together.'', severity = Severity_Critical\<rparr>\<close>

definition NONCE_COUNTER :: "constraint" where
  \<open>NONCE_COUNTER =
     \<lparr>constraint_id = ''prefer-counter-nonce'', requirement = ''Let ic_cipher::Sealer choose the nonce: a sender tag and a strictly increasing counter, never reused within it. Otherwise derive the nonce from a counter yourself, or draw 96 random bits and bound the number of messages per key.'', consequence = ''Random 96-bit nonces collide with meaningful probability past 2^32 messages.'', severity = Severity_Serious\<rparr>\<close>

definition AEAD_NOT_RAW :: "constraint" where
  \<open>AEAD_NOT_RAW =
     \<lparr>constraint_id = ''requires-separate-mac'', requirement = ''Authenticate the ciphertext with a MAC, or use an AEAD instead.'', consequence = ''Unauthenticated ciphertext is malleable and exposes padding and chosen-ciphertext oracles.'', severity = Severity_Critical\<rparr>\<close>

definition ONE_TIME_KEY :: "constraint" where
  \<open>ONE_TIME_KEY =
     \<lparr>constraint_id = ''one-time-key'', requirement = ''Use each key for exactly one message.'', consequence = ''Two messages under one key reveal the key, permitting arbitrary forgery.'', severity = Severity_Critical\<rparr>\<close>

definition CT_COMPARE :: "constraint" where
  \<open>CT_COMPARE =
     \<lparr>constraint_id = ''constant-time-tag-comparison'', requirement = ''Compare tags with ic_core::ct::verify, never with ==.'', consequence = ''A byte-by-byte comparison leaks the correct tag one byte at a time.'', severity = Severity_Critical\<rparr>\<close>

definition SALT_REQUIRED :: "constraint" where
  \<open>SALT_REQUIRED =
     \<lparr>constraint_id = ''unique-salt-per-password'', requirement = ''Use at least 128 bits of fresh random salt per password.'', consequence = ''A shared or missing salt lets one precomputed table attack every stored password.'', severity = Severity_Critical\<rparr>\<close>

definition VERIFY_ONLY_MIGRATE :: "constraint" where
  \<open>VERIFY_ONLY_MIGRATE =
     \<lparr>constraint_id = ''verify-then-rehash'', requirement = ''Use only to check a hash made elsewhere, and on success rehash the password with Argon2id and store that in its place.'', consequence = ''Kept as the stored hash, it leaves the weaker scheme, and its cache-timing exposure, in place for every later login.'', severity = Severity_Serious\<rparr>\<close>

definition PASSWORD_INDEXED_TABLES :: "constraint" where
  \<open>PASSWORD_INDEXED_TABLES =
     \<lparr>constraint_id = ''password-indexed-lookups'', requirement = ''Do not verify where another process on the same machine can observe this one's cache, beyond the one check on the way to Argon2id.'', consequence = ''Its tables and memory are read at indices derived from the password, by design, so a co-resident attacker learns something about the access pattern.'', severity = Severity_Serious\<rparr>\<close>

definition NOT_FOR_PASSWORDS :: "constraint" where
  \<open>NOT_FOR_PASSWORDS =
     \<lparr>constraint_id = ''not-for-passwords'', requirement = ''Do not feed a low-entropy password into this function.'', consequence = ''It is fast by design, so a password is recovered by brute force; use a password KDF.'', severity = Severity_Critical\<rparr>\<close>

definition RESEED_INTERVAL :: "constraint" where
  \<open>RESEED_INTERVAL =
     \<lparr>constraint_id = ''observe-reseed-interval'', requirement = ''Reseed from a live entropy source before the reseed interval elapses.'', consequence = ''Output past the interval is no longer backed by the claimed security strength.'', severity = Severity_Serious\<rparr>\<close>

definition VALIDATE_PEER_KEY :: "constraint" where
  \<open>VALIDATE_PEER_KEY =
     \<lparr>constraint_id = ''validate-peer-public-key'', requirement = ''Reject an all-zero shared secret, which signals a small-order peer key.'', consequence = ''A malicious peer can force a shared secret it already knows.'', severity = Severity_Critical\<rparr>\<close>

definition HASH_TRANSCRIPT :: "constraint" where
  \<open>HASH_TRANSCRIPT =
     \<lparr>constraint_id = ''bind-shared-secret-to-transcript'', requirement = ''Run the raw shared secret through a KDF together with both public keys.'', consequence = ''Using the raw secret as a key loses contributory behaviour and key confirmation.'', severity = Severity_Serious\<rparr>\<close>

definition NONCE_MISUSE_RESISTANT :: "constraint" where
  \<open>NONCE_MISUSE_RESISTANT =
     \<lparr>constraint_id = ''nonce-reuse-degrades-gracefully'', requirement = ''Prefer unique nonces, but do not treat reuse as a breach.'', consequence = ''A repeated nonce reveals only whether two plaintexts were equal. It does not expose their XOR and does not compromise the authentication key, which is what the same mistake costs under GCM.'', severity = Severity_Advisory\<rparr>\<close>

definition NOT_COLLISION_RESISTANT :: "constraint" where
  \<open>NOT_COLLISION_RESISTANT =
     \<lparr>constraint_id = ''no-collision-resistance'', requirement = ''Do not rely on this for collision resistance.'', consequence = ''Collisions are computationally feasible; signatures and commitments are forgeable.'', severity = Severity_Critical\<rparr>\<close>

definition P_KEY_16 :: "param" where
  \<open>P_KEY_16 =
     \<lparr>param_name = ''key'', param_unit = Unit_Bytes, param_min = 16, param_max = 16, param_recommended = 16, param_note = ''AES-128 key.''\<rparr>\<close>

definition P_KEY_24 :: "param" where
  \<open>P_KEY_24 =
     \<lparr>param_name = ''key'', param_unit = Unit_Bytes, param_min = 24, param_max = 24, param_recommended = 24, param_note = ''AES-192 key.''\<rparr>\<close>

definition P_KEY_32 :: "param" where
  \<open>P_KEY_32 =
     \<lparr>param_name = ''key'', param_unit = Unit_Bytes, param_min = 32, param_max = 32, param_recommended = 32, param_note = ''256-bit key.''\<rparr>\<close>

definition P_GCM_NONCE :: "param" where
  \<open>P_GCM_NONCE =
     \<lparr>param_name = ''nonce'', param_unit = Unit_Bytes, param_min = 1, param_max = 64, param_recommended = 12, param_note = ''96-bit nonces are used directly as the counter block; other lengths are hashed first.''\<rparr>\<close>

definition P_TAG_16 :: "param" where
  \<open>P_TAG_16 =
     \<lparr>param_name = ''tag'', param_unit = Unit_Bytes, param_min = 16, param_max = 16, param_recommended = 16, param_note = ''Full-length authentication tag.''\<rparr>\<close>

definition P_NONCE_12 :: "param" where
  \<open>P_NONCE_12 =
     \<lparr>param_name = ''nonce'', param_unit = Unit_Bytes, param_min = 12, param_max = 12, param_recommended = 12, param_note = ''96-bit nonce.''\<rparr>\<close>

definition P_NONCE_24 :: "param" where
  \<open>P_NONCE_24 =
     \<lparr>param_name = ''nonce'', param_unit = Unit_Bytes, param_min = 24, param_max = 24, param_recommended = 24, param_note = ''192-bit nonce, long enough to draw at random for every message.''\<rparr>\<close>

definition P_IV_16 :: "param" where
  \<open>P_IV_16 =
     \<lparr>param_name = ''iv'', param_unit = Unit_Bytes, param_min = 16, param_max = 16, param_recommended = 16, param_note = ''Initialization vector, one block.''\<rparr>\<close>

definition SHA224_P :: "param list" where
  \<open>SHA224_P =
     (digest_params 28 64)\<close>

definition SHA256_P :: "param list" where
  \<open>SHA256_P =
     (digest_params 32 64)\<close>

definition SHA384_P :: "param list" where
  \<open>SHA384_P =
     (digest_params 48 128)\<close>

definition SHA512_P :: "param list" where
  \<open>SHA512_P =
     (digest_params 64 128)\<close>

definition SHA512_224_P :: "param list" where
  \<open>SHA512_224_P =
     (digest_params 28 128)\<close>

definition SHA512_256_P :: "param list" where
  \<open>SHA512_256_P =
     (digest_params 32 128)\<close>

definition SHA3_224_P :: "param list" where
  \<open>SHA3_224_P =
     (digest_params 28 144)\<close>

definition SHA3_256_P :: "param list" where
  \<open>SHA3_256_P =
     (digest_params 32 136)\<close>

definition SHA3_384_P :: "param list" where
  \<open>SHA3_384_P =
     (digest_params 48 104)\<close>

definition SHA3_512_P :: "param list" where
  \<open>SHA3_512_P =
     (digest_params 64 72)\<close>

definition HMAC_KEY_P :: "param list" where
  \<open>HMAC_KEY_P =
     [\<lparr>param_name = ''key'', param_unit = Unit_Bytes, param_min = 0, param_max = 18446744073709551615, param_recommended = 32, param_note = ''Any length; keys longer than the block size are hashed, shorter ones zero-padded. Use at least the digest length for full strength.''\<rparr>]\<close>

definition PBKDF2_P :: "param list" where
  \<open>PBKDF2_P =
     [\<lparr>param_name = ''salt'', param_unit = Unit_Bytes, param_min = 16, param_max = 18446744073709551615, param_recommended = 16, param_note = ''SP 800-132 requires at least 128 bits.''\<rparr>, \<lparr>param_name = ''iterations'', param_unit = Unit_Count, param_min = 1000, param_max = 18446744073709551615, param_recommended = 600000, param_note = ''SP 800-132 floor is 1000; 600000 reflects current hardware.''\<rparr>, \<lparr>param_name = ''output'', param_unit = Unit_Bytes, param_min = 1, param_max = 18446744073709551615, param_recommended = 32, param_note = ''Derived key length.''\<rparr>]\<close>

definition SHAMIR_P :: "param list" where
  \<open>SHAMIR_P =
     [\<lparr>param_name = ''threshold'', param_unit = Unit_Count, param_min = 2, param_max = 255, param_recommended = 3, param_note = ''Shares needed to recover; fewer reveal nothing.''\<rparr>, \<lparr>param_name = ''share-count'', param_unit = Unit_Count, param_min = 2, param_max = 255, param_recommended = 5, param_note = ''At least the threshold; one per nonzero field element at most.''\<rparr>]\<close>

definition HPKE_P :: "param list" where
  \<open>HPKE_P =
     [\<lparr>param_name = ''private-key'', param_unit = Unit_Bytes, param_min = 32, param_max = 32, param_recommended = 32, param_note = ''An X25519 private key; any 32 bytes, clamped.''\<rparr>, \<lparr>param_name = ''public-key'', param_unit = Unit_Bytes, param_min = 32, param_max = 32, param_recommended = 32, param_note = ''The recipient's X25519 public key.''\<rparr>, \<lparr>param_name = ''enc'', param_unit = Unit_Bytes, param_min = 32, param_max = 32, param_recommended = 32, param_note = ''The encapsulated key the sender transmits: its ephemeral public key.''\<rparr>, \<lparr>param_name = ''tag'', param_unit = Unit_Bytes, param_min = 16, param_max = 16, param_recommended = 16, param_note = ''Appended to each sealed message, for every AEAD offered.''\<rparr>]\<close>

definition SLH_DSA_P :: "param list" where
  \<open>SLH_DSA_P =
     [\<lparr>param_name = ''public-key'', param_unit = Unit_Bytes, param_min = 32, param_max = 64, param_recommended = 32, param_note = ''2n bytes: 32, 48 or 64 at categories 1, 3 and 5.''\<rparr>, \<lparr>param_name = ''secret-key'', param_unit = Unit_Bytes, param_min = 64, param_max = 128, param_recommended = 64, param_note = ''4n bytes; it contains the public key.''\<rparr>, \<lparr>param_name = ''signature'', param_unit = Unit_Bytes, param_min = 7856, param_max = 49856, param_recommended = 17088, param_note = ''Fixed by the parameter set: 7,856 (128s) to 49,856 (256f). The f sets are about twice the s sets and sign far faster.''\<rparr>]\<close>

definition HSS_LMS_P :: "param list" where
  \<open>HSS_LMS_P =
     [\<lparr>param_name = ''public-key'', param_unit = Unit_Bytes, param_min = 52, param_max = 60, param_recommended = 52, param_note = ''u32(levels) || LMS public key: 52 bytes with a 192-bit hash, 60 with a 256-bit one.''\<rparr>, \<lparr>param_name = ''signature'', param_unit = Unit_Bytes, param_min = 784, param_max = 74988, param_recommended = 784, param_note = ''From 784 bytes for one tree of height 5 at W=8 with a 192-bit hash, to eight levels of height 25 at W=1 with a 256-bit one. The parameter sets fix it exactly.''\<rparr>]\<close>

definition HPKE_P384_P :: "param list" where
  \<open>HPKE_P384_P =
     [\<lparr>param_name = ''private-key'', param_unit = Unit_Bytes, param_min = 48, param_max = 48, param_recommended = 48, param_note = ''A P-384 scalar in [1, n - 1], big-endian.''\<rparr>, \<lparr>param_name = ''public-key'', param_unit = Unit_Bytes, param_min = 97, param_max = 97, param_recommended = 97, param_note = ''The recipient's P-384 public key, SEC1 uncompressed; compressed is refused.''\<rparr>, \<lparr>param_name = ''enc'', param_unit = Unit_Bytes, param_min = 97, param_max = 97, param_recommended = 97, param_note = ''The encapsulated key the sender transmits: its ephemeral public key, uncompressed.''\<rparr>, \<lparr>param_name = ''tag'', param_unit = Unit_Bytes, param_min = 16, param_max = 16, param_recommended = 16, param_note = ''Appended to each sealed message, for every AEAD offered.''\<rparr>]\<close>

definition X25519_P :: "param list" where
  \<open>X25519_P =
     [\<lparr>param_name = ''private-key'', param_unit = Unit_Bytes, param_min = 32, param_max = 32, param_recommended = 32, param_note = ''Clamped internally per RFC 7748.''\<rparr>, \<lparr>param_name = ''public-key'', param_unit = Unit_Bytes, param_min = 32, param_max = 32, param_recommended = 32, param_note = ''Montgomery u-coordinate.''\<rparr>, \<lparr>param_name = ''shared-secret'', param_unit = Unit_Bytes, param_min = 32, param_max = 32, param_recommended = 32, param_note = ''Feed through a KDF before use.''\<rparr>]\<close>

definition ED25519_P :: "param list" where
  \<open>ED25519_P =
     [\<lparr>param_name = ''private-key'', param_unit = Unit_Bytes, param_min = 32, param_max = 32, param_recommended = 32, param_note = ''A 32-byte seed; the scalar and nonce prefix are derived from it.''\<rparr>, \<lparr>param_name = ''public-key'', param_unit = Unit_Bytes, param_min = 32, param_max = 32, param_recommended = 32, param_note = ''Compressed Edwards point.''\<rparr>, \<lparr>param_name = ''signature'', param_unit = Unit_Bytes, param_min = 64, param_max = 64, param_recommended = 64, param_note = ''R || S.''\<rparr>]\<close>

definition ED448_P :: "param list" where
  \<open>ED448_P =
     [\<lparr>param_name = ''private-key'', param_unit = Unit_Bytes, param_min = 57, param_max = 57, param_recommended = 57, param_note = ''A 57-byte seed; the scalar and nonce prefix are derived from it.''\<rparr>, \<lparr>param_name = ''public-key'', param_unit = Unit_Bytes, param_min = 57, param_max = 57, param_recommended = 57, param_note = ''Compressed Edwards point.''\<rparr>, \<lparr>param_name = ''signature'', param_unit = Unit_Bytes, param_min = 114, param_max = 114, param_recommended = 114, param_note = ''R || S.''\<rparr>, \<lparr>param_name = ''context'', param_unit = Unit_Bytes, param_min = 0, param_max = 255, param_recommended = 0, param_note = ''Bound into both hashes; the verifier must give the same bytes.''\<rparr>]\<close>

definition COMPOSITE_44_ED25519_P :: "param list" where
  \<open>COMPOSITE_44_ED25519_P =
     (composite_params 1344 64 2484)\<close>

definition COMPOSITE_65_ED25519_P :: "param list" where
  \<open>COMPOSITE_65_ED25519_P =
     (composite_params 1984 64 3373)\<close>

definition COMPOSITE_87_ED448_P :: "param list" where
  \<open>COMPOSITE_87_ED448_P =
     (composite_params 2649 89 4741)\<close>

definition COMPOSITE_CONSTRAINTS :: "constraint list" where
  \<open>COMPOSITE_CONSTRAINTS =
     [\<lparr>constraint_id = ''fresh-component-keys'', requirement = ''Generate both component keys for the composite, and use them nowhere else: not alone, not in another composite.'', consequence = ''The draft's non-separability argument assumes it. A component key also used alone lets a signature made by that key alone be offered where the composite was expected to be needed.'', severity = Severity_Critical\<rparr>, \<lparr>constraint_id = ''context-must-match'', requirement = ''Verify with exactly the context the signer used, at most 255 bytes.'', consequence = ''The context is hashed into the message both halves sign: a different one fails verification.'', severity = Severity_Serious\<rparr>]\<close>

definition P256_KA_P :: "param list" where
  \<open>P256_KA_P =
     [\<lparr>param_name = ''private-key'', param_unit = Unit_Bytes, param_min = 32, param_max = 32, param_recommended = 32, param_note = ''A scalar in [1, n-1]; zero and values at or above n are rejected.''\<rparr>, \<lparr>param_name = ''public-key'', param_unit = Unit_Bytes, param_min = 33, param_max = 65, param_recommended = 65, param_note = ''SEC1: 65 bytes uncompressed (0x04 || X || Y), or 33 compressed.''\<rparr>, \<lparr>param_name = ''shared-secret'', param_unit = Unit_Bytes, param_min = 32, param_max = 32, param_recommended = 32, param_note = ''The x-coordinate of the shared point. Not a key; derive from it.''\<rparr>]\<close>

definition P256_SIG_P :: "param list" where
  \<open>P256_SIG_P =
     [\<lparr>param_name = ''private-key'', param_unit = Unit_Bytes, param_min = 32, param_max = 32, param_recommended = 32, param_note = ''A scalar in [1, n-1].''\<rparr>, \<lparr>param_name = ''public-key'', param_unit = Unit_Bytes, param_min = 33, param_max = 65, param_recommended = 65, param_note = ''SEC1 uncompressed or compressed; both are accepted on verification.''\<rparr>, \<lparr>param_name = ''signature'', param_unit = Unit_Bytes, param_min = 64, param_max = 64, param_recommended = 64, param_note = ''Fixed-width r || s, each 32 bytes. Not DER-encoded.''\<rparr>]\<close>

definition ARGON2_P :: "param list" where
  \<open>ARGON2_P =
     [\<lparr>param_name = ''salt'', param_unit = Unit_Bytes, param_min = 8, param_max = 18446744073709551615, param_recommended = 16, param_note = ''RFC 9106 requires at least 8 bytes and recommends 16.''\<rparr>, \<lparr>param_name = ''memory'', param_unit = Unit_Count, param_min = 8, param_max = 18446744073709551615, param_recommended = 65536, param_note = ''Kibibytes, and at least 8 per lane. This is the parameter that costs an attacker the most; 65536 is the interactive recommendation and 2097152 the offline one.''\<rparr>, \<lparr>param_name = ''passes'', param_unit = Unit_Count, param_min = 1, param_max = 18446744073709551615, param_recommended = 3, param_note = ''Iterations over the arena. Raise the memory before raising this.''\<rparr>, \<lparr>param_name = ''output'', param_unit = Unit_Bytes, param_min = 4, param_max = 18446744073709551615, param_recommended = 32, param_note = ''Derived key length.''\<rparr>]\<close>

definition BLAKE2B_P :: "param list" where
  \<open>BLAKE2B_P =
     [\<lparr>param_name = ''output'', param_unit = Unit_Bytes, param_min = 1, param_max = 64, param_recommended = 32, param_note = ''Chosen at construction and bound into the digest.''\<rparr>, \<lparr>param_name = ''key'', param_unit = Unit_Bytes, param_min = 0, param_max = 64, param_recommended = 32, param_note = ''Optional. A keyed BLAKE2b is a MAC without needing HMAC around it.''\<rparr>]\<close>

definition P384_KA_P :: "param list" where
  \<open>P384_KA_P =
     [\<lparr>param_name = ''private-key'', param_unit = Unit_Bytes, param_min = 48, param_max = 48, param_recommended = 48, param_note = ''A scalar in [1, n-1]; zero and values at or above n are rejected.''\<rparr>, \<lparr>param_name = ''public-key'', param_unit = Unit_Bytes, param_min = 49, param_max = 97, param_recommended = 97, param_note = ''SEC1: 97 bytes uncompressed (0x04 || X || Y), or 49 compressed.''\<rparr>, \<lparr>param_name = ''shared-secret'', param_unit = Unit_Bytes, param_min = 48, param_max = 48, param_recommended = 48, param_note = ''The x-coordinate of the shared point. Not a key; derive from it.''\<rparr>]\<close>

definition P384_SIG_P :: "param list" where
  \<open>P384_SIG_P =
     [\<lparr>param_name = ''private-key'', param_unit = Unit_Bytes, param_min = 48, param_max = 48, param_recommended = 48, param_note = ''A scalar in [1, n-1].''\<rparr>, \<lparr>param_name = ''public-key'', param_unit = Unit_Bytes, param_min = 49, param_max = 97, param_recommended = 97, param_note = ''SEC1 uncompressed or compressed; both are accepted on verification.''\<rparr>, \<lparr>param_name = ''signature'', param_unit = Unit_Bytes, param_min = 96, param_max = 96, param_recommended = 96, param_note = ''Fixed-width r || s, each 48 bytes. Not DER-encoded.''\<rparr>]\<close>

definition RSA_SIG_P :: "param list" where
  \<open>RSA_SIG_P =
     [\<lparr>param_name = ''modulus'', param_unit = Unit_Bytes, param_min = 256, param_max = 512, param_recommended = 256, param_note = ''2048, 3072, or 4096 bits. Anything smaller is refused, not warned about.''\<rparr>, \<lparr>param_name = ''public-exponent'', param_unit = Unit_Count, param_min = 3, param_max = 18446744073709551615, param_recommended = 65537, param_note = ''Odd. Key generation always uses 65537.''\<rparr>, \<lparr>param_name = ''signature'', param_unit = Unit_Bytes, param_min = 256, param_max = 512, param_recommended = 256, param_note = ''Always exactly the modulus size.''\<rparr>]\<close>

definition RSA_PSS_P :: "param list" where
  \<open>RSA_PSS_P =
     [(RSA_SIG_P ! 0), (RSA_SIG_P ! 1), (RSA_SIG_P ! 2), \<lparr>param_name = ''salt'', param_unit = Unit_Bytes, param_min = 32, param_max = 64, param_recommended = 32, param_note = ''Always equal to the hash length; not caller-selectable.''\<rparr>]\<close>

definition RSA_MIN_MODULUS :: "constraint" where
  \<open>RSA_MIN_MODULUS =
     \<lparr>constraint_id = ''rsa-modulus-at-least-2048-bits'', requirement = ''Use a modulus of at least 2048 bits.'', consequence = ''1024-bit RSA is within reach of a well-funded adversary, and SP 800-131A disallows it for new signatures.'', severity = Severity_Critical\<rparr>\<close>

definition RSA_PREFER_PSS :: "constraint" where
  \<open>RSA_PREFER_PSS =
     \<lparr>constraint_id = ''prefer-pss-for-new-signatures'', requirement = ''Sign new artifacts with RSA-PSS; use PKCS#1 v1.5 to verify existing ones and where a peer requires it.'', consequence = ''PKCS#1 v1.5 has no security proof and a long history of forgery from lax padding checks, although FIPS 186-5 still approves it.'', severity = Severity_Advisory\<rparr>\<close>

definition RSA_NO_PARSING :: "constraint" where
  \<open>RSA_NO_PARSING =
     \<lparr>constraint_id = ''verify-by-re-encoding'', requirement = ''Compare the recovered block against a freshly encoded one; never parse it.'', consequence = ''A parser that tolerates trailing bytes after the DigestInfo allows signature forgery under a small public exponent without the private key.'', severity = Severity_Critical\<rparr>\<close>

definition RSA_SALT_ENTROPY :: "constraint" where
  \<open>RSA_SALT_ENTROPY =
     \<lparr>constraint_id = ''pss-salt-must-be-random'', requirement = ''Draw the PSS salt from an approved DRBG for every signature.'', consequence = ''A repeated salt does not leak the key the way a repeated ECDSA nonce does, but it forfeits the randomization the PSS security proof relies on.'', severity = Severity_Serious\<rparr>\<close>

definition P521_SIG_P :: "param list" where
  \<open>P521_SIG_P =
     [\<lparr>param_name = ''private-key'', param_unit = Unit_Bytes, param_min = 66, param_max = 66, param_recommended = 66, param_note = ''A scalar in [1, n-1], left-padded to 66 bytes.''\<rparr>, \<lparr>param_name = ''public-key'', param_unit = Unit_Bytes, param_min = 67, param_max = 133, param_recommended = 133, param_note = ''SEC1: 133 bytes uncompressed, 67 compressed.''\<rparr>, \<lparr>param_name = ''signature'', param_unit = Unit_Bytes, param_min = 132, param_max = 132, param_recommended = 132, param_note = ''Fixed-width r || s, not DER. Convert with ic_pkix::ecdsa_signature.''\<rparr>]\<close>

definition P521_KA_P :: "param list" where
  \<open>P521_KA_P =
     [(P521_SIG_P ! 0), (P521_SIG_P ! 1), \<lparr>param_name = ''shared-secret'', param_unit = Unit_Bytes, param_min = 66, param_max = 66, param_recommended = 66, param_note = ''The x-coordinate only. Run it through a KDF before use.''\<rparr>]\<close>

definition KMAC_P :: "param list" where
  \<open>KMAC_P =
     [\<lparr>param_name = ''key'', param_unit = Unit_Bytes, param_min = 16, param_max = 18446744073709551615, param_recommended = 32, param_note = ''Any length. A sponge absorbs the key directly, so there is no block-size rule.''\<rparr>, \<lparr>param_name = ''customization'', param_unit = Unit_Bytes, param_min = 0, param_max = 18446744073709551615, param_recommended = 0, param_note = ''Domain separator. Give two uses of one key different strings.''\<rparr>, \<lparr>param_name = ''tag'', param_unit = Unit_Bytes, param_min = 16, param_max = 64, param_recommended = 32, param_note = ''Caller-chosen, and bound into the computation: a short tag is not a prefix of a long one.''\<rparr>]\<close>

definition CSHAKE_P :: "param list" where
  \<open>CSHAKE_P =
     [\<lparr>param_name = ''customization'', param_unit = Unit_Bytes, param_min = 0, param_max = 18446744073709551615, param_recommended = 0, param_note = ''Empty means this is exactly SHAKE, including the domain separator.''\<rparr>, \<lparr>param_name = ''output'', param_unit = Unit_Bytes, param_min = 1, param_max = 18446744073709551615, param_recommended = 32, param_note = ''Any length; the sponge is squeezed for as long as asked.''\<rparr>]\<close>

definition TUPLEHASH_P :: "param list" where
  \<open>TUPLEHASH_P =
     [\<lparr>param_name = ''customization'', param_unit = Unit_Bytes, param_min = 0, param_max = 18446744073709551615, param_recommended = 0, param_note = ''Domain separator.''\<rparr>, \<lparr>param_name = ''output'', param_unit = Unit_Bytes, param_min = 1, param_max = 18446744073709551615, param_recommended = 32, param_note = ''Bound into the computation, so a short digest is not a prefix of a long one.''\<rparr>]\<close>

definition PARALLELHASH_P :: "param list" where
  \<open>PARALLELHASH_P =
     [(TUPLEHASH_P ! 0), \<lparr>param_name = ''block-size'', param_unit = Unit_Bytes, param_min = 1, param_max = 18446744073709551615, param_recommended = 8192, param_note = ''Part of the computation, not a tuning knob: two block sizes give two digests.''\<rparr>, (TUPLEHASH_P ! 1)]\<close>

definition GCM_SIV_P :: "param list" where
  \<open>GCM_SIV_P =
     [\<lparr>param_name = ''key'', param_unit = Unit_Bytes, param_min = 16, param_max = 32, param_recommended = 32, param_note = ''16 or 32 bytes.''\<rparr>, \<lparr>param_name = ''nonce'', param_unit = Unit_Bytes, param_min = 12, param_max = 12, param_recommended = 12, param_note = ''96 bits, fixed by RFC 8452. Reuse degrades security gracefully rather than fatally.''\<rparr>, \<lparr>param_name = ''tag'', param_unit = Unit_Bytes, param_min = 16, param_max = 16, param_recommended = 16, param_note = ''Doubles as the CTR counter, which is what ties the keystream to the plaintext.''\<rparr>, \<lparr>param_name = ''plaintext'', param_unit = Unit_Bytes, param_min = 0, param_max = 18446744073709551615, param_recommended = 0, param_note = ''Must be held whole: authentication precedes encryption, so this cannot stream.''\<rparr>]\<close>

definition MLDSA65_P :: "param list" where
  \<open>MLDSA65_P =
     [\<lparr>param_name = ''verification-key'', param_unit = Unit_Bytes, param_min = 1952, param_max = 1952, param_recommended = 1952, param_note = ''32 + 320 * k, with k = 6.''\<rparr>, \<lparr>param_name = ''signing-key'', param_unit = Unit_Bytes, param_min = 4032, param_max = 4032, param_recommended = 4032, param_note = ''128 + 128 * (k + l) + 416 * k, with k = 6 and l = 5.''\<rparr>, \<lparr>param_name = ''signature'', param_unit = Unit_Bytes, param_min = 3309, param_max = 3309, param_recommended = 3309, param_note = ''48 + 640 * l + omega + k, with omega = 55.''\<rparr>, \<lparr>param_name = ''context'', param_unit = Unit_Bytes, param_min = 0, param_max = 255, param_recommended = 0, param_note = ''The context string is length-prefixed with one byte, so 255 is a hard ceiling. Signing refuses anything longer rather than truncating it.''\<rparr>]\<close>

definition MLDSA_CONSTRAINTS :: "constraint list" where
  \<open>MLDSA_CONSTRAINTS =
     [\<lparr>constraint_id = ''deploy-post-quantum-in-a-hybrid'', requirement = ''Sign with a classical scheme alongside this one and require both signatures to check.'', consequence = ''Lattice cryptanalysis is young. A hybrid stays secure if either half survives; ML-DSA alone bets everything on the newer one.'', severity = Severity_Serious\<rparr>, \<lparr>constraint_id = ''supply-randomness-or-choose-determinism'', requirement = ''Pass 32 fresh random bytes for the hedged variant, or use the deterministic one deliberately. Do not pass a constant you believe to be random.'', consequence = ''The hedged and deterministic variants are both sound; a third case, where a caller thinks it is hedging but is not, gives the determinism without the intent and can mask a broken entropy source elsewhere in the system.'', severity = Severity_Serious\<rparr>]\<close>

definition MLDSA44_P :: "param list" where
  \<open>MLDSA44_P =
     [\<lparr>param_name = ''verification-key'', param_unit = Unit_Bytes, param_min = 1312, param_max = 1312, param_recommended = 1312, param_note = ''32 + 320 * k, with k = 4.''\<rparr>, \<lparr>param_name = ''signing-key'', param_unit = Unit_Bytes, param_min = 2560, param_max = 2560, param_recommended = 2560, param_note = ''128 + 96 * (k + l) + 416 * k, with k = 4 and l = 4; eta = 2 packs a secret coefficient in three bits.''\<rparr>, \<lparr>param_name = ''signature'', param_unit = Unit_Bytes, param_min = 2420, param_max = 2420, param_recommended = 2420, param_note = ''32 + 576 * l + omega + k, with omega = 80.''\<rparr>, \<lparr>param_name = ''context'', param_unit = Unit_Bytes, param_min = 0, param_max = 255, param_recommended = 0, param_note = ''The context string is length-prefixed with one byte, so 255 is a hard ceiling. Signing refuses anything longer rather than truncating it.''\<rparr>]\<close>

definition MLDSA87_P :: "param list" where
  \<open>MLDSA87_P =
     [\<lparr>param_name = ''verification-key'', param_unit = Unit_Bytes, param_min = 2592, param_max = 2592, param_recommended = 2592, param_note = ''32 + 320 * k, with k = 8.''\<rparr>, \<lparr>param_name = ''signing-key'', param_unit = Unit_Bytes, param_min = 4896, param_max = 4896, param_recommended = 4896, param_note = ''128 + 96 * (k + l) + 416 * k, with k = 8 and l = 7; eta = 2 packs a secret coefficient in three bits.''\<rparr>, \<lparr>param_name = ''signature'', param_unit = Unit_Bytes, param_min = 4627, param_max = 4627, param_recommended = 4627, param_note = ''64 + 640 * l + omega + k, with omega = 75.''\<rparr>, \<lparr>param_name = ''context'', param_unit = Unit_Bytes, param_min = 0, param_max = 255, param_recommended = 0, param_note = ''The context string is length-prefixed with one byte, so 255 is a hard ceiling. Signing refuses anything longer rather than truncating it.''\<rparr>]\<close>

definition MLKEM768_P :: "param list" where
  \<open>MLKEM768_P =
     [\<lparr>param_name = ''encapsulation-key'', param_unit = Unit_Bytes, param_min = 1184, param_max = 1184, param_recommended = 1184, param_note = ''384 * k + 32, with k = 3.''\<rparr>, \<lparr>param_name = ''decapsulation-key'', param_unit = Unit_Bytes, param_min = 2400, param_max = 2400, param_recommended = 2400, param_note = ''Carries the public key and a rejection secret as well as the private one.''\<rparr>, \<lparr>param_name = ''ciphertext'', param_unit = Unit_Bytes, param_min = 1088, param_max = 1088, param_recommended = 1088, param_note = ''Far larger than an elliptic-curve exchange; budget for it in protocol design.''\<rparr>, \<lparr>param_name = ''shared-secret'', param_unit = Unit_Bytes, param_min = 32, param_max = 32, param_recommended = 32, param_note = ''Run it through a KDF with the transcript, as with any key agreement.''\<rparr>]\<close>

definition MLKEM_CONSTRAINTS :: "constraint list" where
  \<open>MLKEM_CONSTRAINTS =
     [\<lparr>constraint_id = ''deploy-post-quantum-in-a-hybrid'', requirement = ''Combine the shared secret with one from X25519 or a NIST curve, and derive the session key from both.'', consequence = ''Lattice cryptanalysis is young. A hybrid stays secure if either half survives; ML-KEM alone bets everything on the newer one.'', severity = Severity_Serious\<rparr>, \<lparr>constraint_id = ''do-not-reveal-decapsulation-failures'', requirement = ''Return the shared secret decapsulation gives you, whatever it is, and never signal that a ciphertext was malformed.'', consequence = ''Implicit rejection exists so an attacker cannot tell a bad ciphertext from a good one. Reporting the difference rebuilds the decryption oracle the transform removes. Note the boundary: decapsulation can still return an error for a malformed *key*, and that one should be surfaced, because its answer does not depend on the ciphertext and so reveals nothing about it.'', severity = Severity_Critical\<rparr>]\<close>

definition MLKEM512_P :: "param list" where
  \<open>MLKEM512_P =
     [\<lparr>param_name = ''encapsulation-key'', param_unit = Unit_Bytes, param_min = 800, param_max = 800, param_recommended = 800, param_note = ''384 * k + 32, with k = 2.''\<rparr>, \<lparr>param_name = ''decapsulation-key'', param_unit = Unit_Bytes, param_min = 1632, param_max = 1632, param_recommended = 1632, param_note = ''Carries the public key and a rejection secret as well as the private one.''\<rparr>, \<lparr>param_name = ''ciphertext'', param_unit = Unit_Bytes, param_min = 768, param_max = 768, param_recommended = 768, param_note = ''Far larger than an elliptic-curve exchange; budget for it in protocol design.''\<rparr>, \<lparr>param_name = ''shared-secret'', param_unit = Unit_Bytes, param_min = 32, param_max = 32, param_recommended = 32, param_note = ''Run it through a KDF with the transcript, as with any key agreement.''\<rparr>]\<close>

definition MLKEM1024_P :: "param list" where
  \<open>MLKEM1024_P =
     [\<lparr>param_name = ''encapsulation-key'', param_unit = Unit_Bytes, param_min = 1568, param_max = 1568, param_recommended = 1568, param_note = ''384 * k + 32, with k = 4.''\<rparr>, \<lparr>param_name = ''decapsulation-key'', param_unit = Unit_Bytes, param_min = 3168, param_max = 3168, param_recommended = 3168, param_note = ''Carries the public key and a rejection secret as well as the private one.''\<rparr>, \<lparr>param_name = ''ciphertext'', param_unit = Unit_Bytes, param_min = 1568, param_max = 1568, param_recommended = 1568, param_note = ''Far larger than an elliptic-curve exchange; budget for it in protocol design.''\<rparr>, \<lparr>param_name = ''shared-secret'', param_unit = Unit_Bytes, param_min = 32, param_max = 32, param_recommended = 32, param_note = ''Run it through a KDF with the transcript, as with any key agreement.''\<rparr>]\<close>

definition KEYWRAP_P :: "param list" where
  \<open>KEYWRAP_P =
     [\<lparr>param_name = ''kek'', param_unit = Unit_Bytes, param_min = 16, param_max = 32, param_recommended = 32, param_note = ''The key-encryption key: 16, 24 or 32 bytes.''\<rparr>, \<lparr>param_name = ''plaintext'', param_unit = Unit_Bytes, param_min = 16, param_max = 1024, param_recommended = 32, param_note = ''A whole number of 64-bit blocks, at least two. Use the padded variant otherwise.''\<rparr>, \<lparr>param_name = ''ciphertext'', param_unit = Unit_Bytes, param_min = 24, param_max = 1032, param_recommended = 40, param_note = ''Eight bytes longer than the input; the extra block carries the integrity check.''\<rparr>]\<close>

definition NO_PARAMS :: "param list" where
  \<open>NO_PARAMS =
     []\<close>

definition digest_entry :: "string \<Rightarrow> string \<Rightarrow> string list \<Rightarrow> string \<Rightarrow> nat \<Rightarrow> fips_status \<Rightarrow> string list \<Rightarrow> param list
     \<Rightarrow> string \<Rightarrow> string \<Rightarrow> edge list \<Rightarrow> string \<Rightarrow> entry" where
  \<open>digest_entry i nm als fam bits fs stds ps path ex es sm =
     \<lparr>entry_id = i,
     entry_name = nm,
     aliases = als,
     summary = sm,
     entry_class = Class_Hash,
     family = fam,
     purposes = [Purpose_Integrity, Purpose_Commitment],
     entry_strength = (strength_symmetric bits),
     fips = fs,
     status = ImplStatus_Available,
     standards = stds,
     params = ps,
     constraints = [NOT_FOR_PASSWORDS],
     edges = es,
     entry_performance = Performance_Fast,
     rust_path = path,
     example = ex,
     entry_notes = []\<rparr>\<close>

definition S_FIPS_180_4 :: "string list" where
  \<open>S_FIPS_180_4 =
     [''FIPS 180-4'']\<close>

definition S_FIPS_202 :: "string list" where
  \<open>S_FIPS_202 =
     [''FIPS 202'']\<close>

definition SHA2_EDGE :: "edge list" where
  \<open>SHA2_EDGE =
     [\<lparr>relation = Relation_Specializes, target = ''sha-2''\<rparr>]\<close>

definition SHA3_EDGE :: "edge list" where
  \<open>SHA3_EDGE =
     [\<lparr>relation = Relation_Specializes, target = ''sha-3''\<rparr>]\<close>

lemma constraint_ids [registry_facts]:
  "constraint_id UNIQUE_NONCE = ''unique-nonce-per-key''"
  "constraint_id NONCE_COUNTER = ''prefer-counter-nonce''"
  "constraint_id AEAD_NOT_RAW = ''requires-separate-mac''"
  "constraint_id ONE_TIME_KEY = ''one-time-key''"
  "constraint_id CT_COMPARE = ''constant-time-tag-comparison''"
  "constraint_id SALT_REQUIRED = ''unique-salt-per-password''"
  "constraint_id VERIFY_ONLY_MIGRATE = ''verify-then-rehash''"
  "constraint_id PASSWORD_INDEXED_TABLES = ''password-indexed-lookups''"
  "constraint_id NOT_FOR_PASSWORDS = ''not-for-passwords''"
  "constraint_id RESEED_INTERVAL = ''observe-reseed-interval''"
  "constraint_id VALIDATE_PEER_KEY = ''validate-peer-public-key''"
  "constraint_id HASH_TRANSCRIPT = ''bind-shared-secret-to-transcript''"
  "constraint_id NONCE_MISUSE_RESISTANT = ''nonce-reuse-degrades-gracefully''"
  "constraint_id NOT_COLLISION_RESISTANT = ''no-collision-resistance''"
  "constraint_id RSA_MIN_MODULUS = ''rsa-modulus-at-least-2048-bits''"
  "constraint_id RSA_PREFER_PSS = ''prefer-pss-for-new-signatures''"
  "constraint_id RSA_NO_PARSING = ''verify-by-re-encoding''"
  "constraint_id RSA_SALT_ENTROPY = ''pss-salt-must-be-random''"
  "map constraint_id COMPOSITE_CONSTRAINTS = [''fresh-component-keys'', ''context-must-match'']"
  "map constraint_id MLDSA_CONSTRAINTS = [''deploy-post-quantum-in-a-hybrid'', ''supply-randomness-or-choose-determinism'']"
  "map constraint_id MLKEM_CONSTRAINTS = [''deploy-post-quantum-in-a-hybrid'', ''do-not-reveal-decapsulation-failures'']"
  by (simp_all add: UNIQUE_NONCE_def NONCE_COUNTER_def AEAD_NOT_RAW_def ONE_TIME_KEY_def CT_COMPARE_def SALT_REQUIRED_def VERIFY_ONLY_MIGRATE_def PASSWORD_INDEXED_TABLES_def NOT_FOR_PASSWORDS_def RESEED_INTERVAL_def VALIDATE_PEER_KEY_def HASH_TRANSCRIPT_def NONCE_MISUSE_RESISTANT_def NOT_COLLISION_RESISTANT_def COMPOSITE_CONSTRAINTS_def RSA_MIN_MODULUS_def RSA_PREFER_PSS_def RSA_NO_PARSING_def RSA_SALT_ENTROPY_def MLDSA_CONSTRAINTS_def MLKEM_CONSTRAINTS_def)

text \<open>The keys under which a lookup finds an entry: its names, in lower case.\<close>

definition entry_keys :: "entry \<Rightarrow> string list" where
  "entry_keys e = map (map ascii_lower_char) (entry_id e # entry_name e # aliases e)"

lemma ascii_lower_table:
  "map ascii_lower_char ''ABCDEFGHIJKLMNOPQRSTUVWXYZ'' = ''abcdefghijklmnopqrstuvwxyz''"
  "map ascii_lower_char ''abcdefghijklmnopqrstuvwxyz'' = ''abcdefghijklmnopqrstuvwxyz''"
  "map ascii_lower_char ''0123456789-/ ().+_,^$:#'' = ''0123456789-/ ().+_,^$:#''"
  by (simp_all add: ascii_lower_char_def Let_def char_of_def bit_0)

lemmas ascii_lower_simps = ascii_lower_table [simplified]

lemma digest_entry_facts [registry_facts]:
  "entry_id (digest_entry i nm als fam b fs stds ps path ex es sm) = i"
  "entry_name (digest_entry i nm als fam b fs stds ps path ex es sm) = nm"
  "aliases (digest_entry i nm als fam b fs stds ps path ex es sm) = als"
  "entry_class (digest_entry i nm als fam b fs stds ps path ex es sm) = Class_Hash"
  "purposes (digest_entry i nm als fam b fs stds ps path ex es sm) = [Purpose_Integrity, Purpose_Commitment]"
  "entry_strength (digest_entry i nm als fam b fs stds ps path ex es sm) = strength_symmetric b"
  "fips (digest_entry i nm als fam b fs stds ps path ex es sm) = fs"
  "status (digest_entry i nm als fam b fs stds ps path ex es sm) = ImplStatus_Available"
  "constraints (digest_entry i nm als fam b fs stds ps path ex es sm) = [NOT_FOR_PASSWORDS]"
  "edges (digest_entry i nm als fam b fs stds ps path ex es sm) = es"
  "rust_path (digest_entry i nm als fam b fs stds ps path ex es sm) = path"
  "example (digest_entry i nm als fam b fs stds ps path ex es sm) = ex"
  by (simp_all add: digest_entry_def)

lemma strength_facts [registry_facts]:
  "classical (strength_symmetric b) = b"
  "quantum (strength_symmetric b) = b div 2"
  "classical (strength_classical_only b) = b"
  "quantum (strength_classical_only b) = 0"
  by (simp_all add: strength_symmetric_def strength_classical_only_def)

lemma edge_targets [registry_facts]:
  "map target SHA2_EDGE = [''sha-2'']"
  "map target SHA3_EDGE = [''sha-3'']"
  by (simp_all add: SHA2_EDGE_def SHA3_EDGE_def)

end
