(* ===== verification/Registry_Symmetric.thy ===== *)
theory Registry_Symmetric
  imports Registry_Consts
begin

text \<open>
  Entries of \<open>REGISTRY\<close> in \<open>crates/ic-ontology/src/registry.rs\<close>, lines 1325 onward:
  hashes, message authentication codes, ciphers and AEADs.
  After each entry stand the fields a selection reads.
\<close>

definition reg_sha2_224 :: "entry" where
  \<open>reg_sha2_224 =
     digest_entry ''sha2-224''
     ''SHA-224''
     [''sha224'']
     ''SHA-2''
     112
     FipsStatus_Approved
     S_FIPS_180_4
     SHA224_P
     ''ic_hash::Sha224''
     ''let d = ic_hash::Sha224::digest(b"message")?;''
     SHA2_EDGE
     ''Truncated SHA-256. Use only when a 28-byte digest is required by an existing format.''\<close>

lemma reg_sha2_224_facts [registry_facts]:
  \<open>entry_id reg_sha2_224 = ''sha2-224''\<close>
  \<open>entry_name reg_sha2_224 = ''SHA-224''\<close>
  \<open>aliases reg_sha2_224 = [''sha224'']\<close>
  \<open>entry_class reg_sha2_224 = Class_Hash\<close>
  \<open>purposes reg_sha2_224 = [Purpose_Integrity, Purpose_Commitment]\<close>
  \<open>classical (entry_strength reg_sha2_224) = 112\<close>
  \<open>quantum (entry_strength reg_sha2_224) = 56\<close>
  \<open>fips reg_sha2_224 = FipsStatus_Approved\<close>
  \<open>status reg_sha2_224 = ImplStatus_Available\<close>
  \<open>map target (edges reg_sha2_224) = [''sha-2'']\<close>
  \<open>map constraint_id (constraints reg_sha2_224) = [''not-for-passwords'']\<close>
  \<open>entry_keys reg_sha2_224 = [''sha2-224'', ''sha-224'', ''sha224'']\<close>
  \<open>rust_path reg_sha2_224 \<noteq> []\<close>
  \<open>example reg_sha2_224 \<noteq> []\<close>
  by (simp_all add: reg_sha2_224_def registry_facts entry_keys_def ascii_lower_simps
      if_built_def NOT_APPROVED_STATUS_def)

definition reg_sha2_256 :: "entry" where
  \<open>reg_sha2_256 =
     digest_entry ''sha2-256''
     ''SHA-256''
     [''sha256'', ''sha-256'']
     ''SHA-2''
     128
     FipsStatus_Approved
     S_FIPS_180_4
     SHA256_P
     ''ic_hash::Sha256''
     ''let d = ic_hash::Sha256::digest(b"message")?;''
     SHA2_EDGE
     ''The default general-purpose hash: approved, fast, and universally interoperable.''\<close>

lemma reg_sha2_256_facts [registry_facts]:
  \<open>entry_id reg_sha2_256 = ''sha2-256''\<close>
  \<open>entry_name reg_sha2_256 = ''SHA-256''\<close>
  \<open>aliases reg_sha2_256 = [''sha256'', ''sha-256'']\<close>
  \<open>entry_class reg_sha2_256 = Class_Hash\<close>
  \<open>purposes reg_sha2_256 = [Purpose_Integrity, Purpose_Commitment]\<close>
  \<open>classical (entry_strength reg_sha2_256) = 128\<close>
  \<open>quantum (entry_strength reg_sha2_256) = 64\<close>
  \<open>fips reg_sha2_256 = FipsStatus_Approved\<close>
  \<open>status reg_sha2_256 = ImplStatus_Available\<close>
  \<open>map target (edges reg_sha2_256) = [''sha-2'']\<close>
  \<open>map constraint_id (constraints reg_sha2_256) = [''not-for-passwords'']\<close>
  \<open>entry_keys reg_sha2_256 = [''sha2-256'', ''sha-256'', ''sha256'', ''sha-256'']\<close>
  \<open>rust_path reg_sha2_256 \<noteq> []\<close>
  \<open>example reg_sha2_256 \<noteq> []\<close>
  by (simp_all add: reg_sha2_256_def registry_facts entry_keys_def ascii_lower_simps
      if_built_def NOT_APPROVED_STATUS_def)

definition reg_sha2_384 :: "entry" where
  \<open>reg_sha2_384 =
     digest_entry ''sha2-384''
     ''SHA-384''
     [''sha384'']
     ''SHA-2''
     192
     FipsStatus_Approved
     S_FIPS_180_4
     SHA384_P
     ''ic_hash::Sha384''
     ''let d = ic_hash::Sha384::digest(b"message")?;''
     SHA2_EDGE
     ''Truncated SHA-512. Faster than SHA-256 on 64-bit targets and immune to length extension.''\<close>

lemma reg_sha2_384_facts [registry_facts]:
  \<open>entry_id reg_sha2_384 = ''sha2-384''\<close>
  \<open>entry_name reg_sha2_384 = ''SHA-384''\<close>
  \<open>aliases reg_sha2_384 = [''sha384'']\<close>
  \<open>entry_class reg_sha2_384 = Class_Hash\<close>
  \<open>purposes reg_sha2_384 = [Purpose_Integrity, Purpose_Commitment]\<close>
  \<open>classical (entry_strength reg_sha2_384) = 192\<close>
  \<open>quantum (entry_strength reg_sha2_384) = 96\<close>
  \<open>fips reg_sha2_384 = FipsStatus_Approved\<close>
  \<open>status reg_sha2_384 = ImplStatus_Available\<close>
  \<open>map target (edges reg_sha2_384) = [''sha-2'']\<close>
  \<open>map constraint_id (constraints reg_sha2_384) = [''not-for-passwords'']\<close>
  \<open>entry_keys reg_sha2_384 = [''sha2-384'', ''sha-384'', ''sha384'']\<close>
  \<open>rust_path reg_sha2_384 \<noteq> []\<close>
  \<open>example reg_sha2_384 \<noteq> []\<close>
  by (simp_all add: reg_sha2_384_def registry_facts entry_keys_def ascii_lower_simps
      if_built_def NOT_APPROVED_STATUS_def)

definition reg_sha2_512 :: "entry" where
  \<open>reg_sha2_512 =
     digest_entry ''sha2-512''
     ''SHA-512''
     [''sha512'']
     ''SHA-2''
     256
     FipsStatus_Approved
     S_FIPS_180_4
     SHA512_P
     ''ic_hash::Sha512''
     ''let d = ic_hash::Sha512::digest(b"message")?;''
     SHA2_EDGE
     ''The widest SHA-2 digest; the hash underneath Ed25519.''\<close>

lemma reg_sha2_512_facts [registry_facts]:
  \<open>entry_id reg_sha2_512 = ''sha2-512''\<close>
  \<open>entry_name reg_sha2_512 = ''SHA-512''\<close>
  \<open>aliases reg_sha2_512 = [''sha512'']\<close>
  \<open>entry_class reg_sha2_512 = Class_Hash\<close>
  \<open>purposes reg_sha2_512 = [Purpose_Integrity, Purpose_Commitment]\<close>
  \<open>classical (entry_strength reg_sha2_512) = 256\<close>
  \<open>quantum (entry_strength reg_sha2_512) = 128\<close>
  \<open>fips reg_sha2_512 = FipsStatus_Approved\<close>
  \<open>status reg_sha2_512 = ImplStatus_Available\<close>
  \<open>map target (edges reg_sha2_512) = [''sha-2'']\<close>
  \<open>map constraint_id (constraints reg_sha2_512) = [''not-for-passwords'']\<close>
  \<open>entry_keys reg_sha2_512 = [''sha2-512'', ''sha-512'', ''sha512'']\<close>
  \<open>rust_path reg_sha2_512 \<noteq> []\<close>
  \<open>example reg_sha2_512 \<noteq> []\<close>
  by (simp_all add: reg_sha2_512_def registry_facts entry_keys_def ascii_lower_simps
      if_built_def NOT_APPROVED_STATUS_def)

definition reg_sha2_512_224 :: "entry" where
  \<open>reg_sha2_512_224 =
     digest_entry ''sha2-512-224''
     ''SHA-512/224''
     [''sha512-224'']
     ''SHA-2''
     112
     FipsStatus_Approved
     S_FIPS_180_4
     SHA512_224_P
     ''ic_hash::Sha512_224''
     ''let d = ic_hash::Sha512_224::digest(b"message")?;''
     SHA2_EDGE
     ''SHA-512 truncated to 224 bits with a distinct IV.''\<close>

lemma reg_sha2_512_224_facts [registry_facts]:
  \<open>entry_id reg_sha2_512_224 = ''sha2-512-224''\<close>
  \<open>entry_name reg_sha2_512_224 = ''SHA-512/224''\<close>
  \<open>aliases reg_sha2_512_224 = [''sha512-224'']\<close>
  \<open>entry_class reg_sha2_512_224 = Class_Hash\<close>
  \<open>purposes reg_sha2_512_224 = [Purpose_Integrity, Purpose_Commitment]\<close>
  \<open>classical (entry_strength reg_sha2_512_224) = 112\<close>
  \<open>quantum (entry_strength reg_sha2_512_224) = 56\<close>
  \<open>fips reg_sha2_512_224 = FipsStatus_Approved\<close>
  \<open>status reg_sha2_512_224 = ImplStatus_Available\<close>
  \<open>map target (edges reg_sha2_512_224) = [''sha-2'']\<close>
  \<open>map constraint_id (constraints reg_sha2_512_224) = [''not-for-passwords'']\<close>
  \<open>entry_keys reg_sha2_512_224 = [''sha2-512-224'', ''sha-512/224'', ''sha512-224'']\<close>
  \<open>rust_path reg_sha2_512_224 \<noteq> []\<close>
  \<open>example reg_sha2_512_224 \<noteq> []\<close>
  by (simp_all add: reg_sha2_512_224_def registry_facts entry_keys_def ascii_lower_simps
      if_built_def NOT_APPROVED_STATUS_def)

definition reg_sha2_512_256 :: "entry" where
  \<open>reg_sha2_512_256 =
     digest_entry ''sha2-512-256''
     ''SHA-512/256''
     [''sha512-256'']
     ''SHA-2''
     128
     FipsStatus_Approved
     S_FIPS_180_4
     SHA512_256_P
     ''ic_hash::Sha512_256''
     ''let d = ic_hash::Sha512_256::digest(b"message")?;''
     SHA2_EDGE
     ''SHA-256-strength output at SHA-512 speed on 64-bit targets, with no length extension.''\<close>

lemma reg_sha2_512_256_facts [registry_facts]:
  \<open>entry_id reg_sha2_512_256 = ''sha2-512-256''\<close>
  \<open>entry_name reg_sha2_512_256 = ''SHA-512/256''\<close>
  \<open>aliases reg_sha2_512_256 = [''sha512-256'']\<close>
  \<open>entry_class reg_sha2_512_256 = Class_Hash\<close>
  \<open>purposes reg_sha2_512_256 = [Purpose_Integrity, Purpose_Commitment]\<close>
  \<open>classical (entry_strength reg_sha2_512_256) = 128\<close>
  \<open>quantum (entry_strength reg_sha2_512_256) = 64\<close>
  \<open>fips reg_sha2_512_256 = FipsStatus_Approved\<close>
  \<open>status reg_sha2_512_256 = ImplStatus_Available\<close>
  \<open>map target (edges reg_sha2_512_256) = [''sha-2'']\<close>
  \<open>map constraint_id (constraints reg_sha2_512_256) = [''not-for-passwords'']\<close>
  \<open>entry_keys reg_sha2_512_256 = [''sha2-512-256'', ''sha-512/256'', ''sha512-256'']\<close>
  \<open>rust_path reg_sha2_512_256 \<noteq> []\<close>
  \<open>example reg_sha2_512_256 \<noteq> []\<close>
  by (simp_all add: reg_sha2_512_256_def registry_facts entry_keys_def ascii_lower_simps
      if_built_def NOT_APPROVED_STATUS_def)

definition reg_sha3_224 :: "entry" where
  \<open>reg_sha3_224 =
     digest_entry ''sha3-224''
     ''SHA3-224''
     []
     ''SHA-3''
     112
     FipsStatus_Approved
     S_FIPS_202
     SHA3_224_P
     ''ic_hash::Sha3_224''
     ''let d = ic_hash::Sha3_224::digest(b"message")?;''
     SHA3_EDGE
     ''Keccak-based 224-bit digest.''\<close>

lemma reg_sha3_224_facts [registry_facts]:
  \<open>entry_id reg_sha3_224 = ''sha3-224''\<close>
  \<open>entry_name reg_sha3_224 = ''SHA3-224''\<close>
  \<open>aliases reg_sha3_224 = []\<close>
  \<open>entry_class reg_sha3_224 = Class_Hash\<close>
  \<open>purposes reg_sha3_224 = [Purpose_Integrity, Purpose_Commitment]\<close>
  \<open>classical (entry_strength reg_sha3_224) = 112\<close>
  \<open>quantum (entry_strength reg_sha3_224) = 56\<close>
  \<open>fips reg_sha3_224 = FipsStatus_Approved\<close>
  \<open>status reg_sha3_224 = ImplStatus_Available\<close>
  \<open>map target (edges reg_sha3_224) = [''sha-3'']\<close>
  \<open>map constraint_id (constraints reg_sha3_224) = [''not-for-passwords'']\<close>
  \<open>entry_keys reg_sha3_224 = [''sha3-224'', ''sha3-224'']\<close>
  \<open>rust_path reg_sha3_224 \<noteq> []\<close>
  \<open>example reg_sha3_224 \<noteq> []\<close>
  by (simp_all add: reg_sha3_224_def registry_facts entry_keys_def ascii_lower_simps
      if_built_def NOT_APPROVED_STATUS_def)

definition reg_sha3_256 :: "entry" where
  \<open>reg_sha3_256 =
     digest_entry ''sha3-256''
     ''SHA3-256''
     []
     ''SHA-3''
     128
     FipsStatus_Approved
     S_FIPS_202
     SHA3_256_P
     ''ic_hash::Sha3_256''
     ''let d = ic_hash::Sha3_256::digest(b"message")?;''
     SHA3_EDGE
     ''A structurally different alternative to SHA-256, for algorithm diversity.''\<close>

lemma reg_sha3_256_facts [registry_facts]:
  \<open>entry_id reg_sha3_256 = ''sha3-256''\<close>
  \<open>entry_name reg_sha3_256 = ''SHA3-256''\<close>
  \<open>aliases reg_sha3_256 = []\<close>
  \<open>entry_class reg_sha3_256 = Class_Hash\<close>
  \<open>purposes reg_sha3_256 = [Purpose_Integrity, Purpose_Commitment]\<close>
  \<open>classical (entry_strength reg_sha3_256) = 128\<close>
  \<open>quantum (entry_strength reg_sha3_256) = 64\<close>
  \<open>fips reg_sha3_256 = FipsStatus_Approved\<close>
  \<open>status reg_sha3_256 = ImplStatus_Available\<close>
  \<open>map target (edges reg_sha3_256) = [''sha-3'']\<close>
  \<open>map constraint_id (constraints reg_sha3_256) = [''not-for-passwords'']\<close>
  \<open>entry_keys reg_sha3_256 = [''sha3-256'', ''sha3-256'']\<close>
  \<open>rust_path reg_sha3_256 \<noteq> []\<close>
  \<open>example reg_sha3_256 \<noteq> []\<close>
  by (simp_all add: reg_sha3_256_def registry_facts entry_keys_def ascii_lower_simps
      if_built_def NOT_APPROVED_STATUS_def)

definition reg_sha3_384 :: "entry" where
  \<open>reg_sha3_384 =
     digest_entry ''sha3-384''
     ''SHA3-384''
     []
     ''SHA-3''
     192
     FipsStatus_Approved
     S_FIPS_202
     SHA3_384_P
     ''ic_hash::Sha3_384''
     ''let d = ic_hash::Sha3_384::digest(b"message")?;''
     SHA3_EDGE
     ''Keccak-based 384-bit digest.''\<close>

lemma reg_sha3_384_facts [registry_facts]:
  \<open>entry_id reg_sha3_384 = ''sha3-384''\<close>
  \<open>entry_name reg_sha3_384 = ''SHA3-384''\<close>
  \<open>aliases reg_sha3_384 = []\<close>
  \<open>entry_class reg_sha3_384 = Class_Hash\<close>
  \<open>purposes reg_sha3_384 = [Purpose_Integrity, Purpose_Commitment]\<close>
  \<open>classical (entry_strength reg_sha3_384) = 192\<close>
  \<open>quantum (entry_strength reg_sha3_384) = 96\<close>
  \<open>fips reg_sha3_384 = FipsStatus_Approved\<close>
  \<open>status reg_sha3_384 = ImplStatus_Available\<close>
  \<open>map target (edges reg_sha3_384) = [''sha-3'']\<close>
  \<open>map constraint_id (constraints reg_sha3_384) = [''not-for-passwords'']\<close>
  \<open>entry_keys reg_sha3_384 = [''sha3-384'', ''sha3-384'']\<close>
  \<open>rust_path reg_sha3_384 \<noteq> []\<close>
  \<open>example reg_sha3_384 \<noteq> []\<close>
  by (simp_all add: reg_sha3_384_def registry_facts entry_keys_def ascii_lower_simps
      if_built_def NOT_APPROVED_STATUS_def)

definition reg_sha3_512 :: "entry" where
  \<open>reg_sha3_512 =
     digest_entry ''sha3-512''
     ''SHA3-512''
     []
     ''SHA-3''
     256
     FipsStatus_Approved
     S_FIPS_202
     SHA3_512_P
     ''ic_hash::Sha3_512''
     ''let d = ic_hash::Sha3_512::digest(b"message")?;''
     SHA3_EDGE
     ''Keccak-based 512-bit digest.''\<close>

lemma reg_sha3_512_facts [registry_facts]:
  \<open>entry_id reg_sha3_512 = ''sha3-512''\<close>
  \<open>entry_name reg_sha3_512 = ''SHA3-512''\<close>
  \<open>aliases reg_sha3_512 = []\<close>
  \<open>entry_class reg_sha3_512 = Class_Hash\<close>
  \<open>purposes reg_sha3_512 = [Purpose_Integrity, Purpose_Commitment]\<close>
  \<open>classical (entry_strength reg_sha3_512) = 256\<close>
  \<open>quantum (entry_strength reg_sha3_512) = 128\<close>
  \<open>fips reg_sha3_512 = FipsStatus_Approved\<close>
  \<open>status reg_sha3_512 = ImplStatus_Available\<close>
  \<open>map target (edges reg_sha3_512) = [''sha-3'']\<close>
  \<open>map constraint_id (constraints reg_sha3_512) = [''not-for-passwords'']\<close>
  \<open>entry_keys reg_sha3_512 = [''sha3-512'', ''sha3-512'']\<close>
  \<open>rust_path reg_sha3_512 \<noteq> []\<close>
  \<open>example reg_sha3_512 \<noteq> []\<close>
  by (simp_all add: reg_sha3_512_def registry_facts entry_keys_def ascii_lower_simps
      if_built_def NOT_APPROVED_STATUS_def)

definition reg_shake128 :: "entry" where
  \<open>reg_shake128 =
     \<lparr>entry_id = ''shake128'',
     entry_name = ''SHAKE128'',
     aliases = [],
     summary = ''Extendable-output function; squeeze any number of bytes at 128-bit strength.'',
     entry_class = Class_Xof,
     family = ''SHA-3'',
     purposes = [Purpose_Integrity, Purpose_KeyDerivation],
     entry_strength = (strength_symmetric 128),
     fips = FipsStatus_Approved,
     status = ImplStatus_Available,
     standards = [''FIPS 202''],
     params = NO_PARAMS,
     constraints = [NOT_FOR_PASSWORDS],
     edges = SHA3_EDGE,
     entry_performance = Performance_Fast,
     rust_path = ''ic_hash::Shake128'',
     example = (''let mut out = [0u8; 64];'' @ [CHR 0x0A] @ ''ic_hash::Shake128::xof(b"seed", &mut out)?;''),
     entry_notes = ''Used as the symmetric core of the FIPS 203/204 post-quantum schemes.''\<rparr>\<close>

lemma reg_shake128_facts [registry_facts]:
  \<open>entry_id reg_shake128 = ''shake128''\<close>
  \<open>entry_name reg_shake128 = ''SHAKE128''\<close>
  \<open>aliases reg_shake128 = []\<close>
  \<open>entry_class reg_shake128 = Class_Xof\<close>
  \<open>purposes reg_shake128 = [Purpose_Integrity, Purpose_KeyDerivation]\<close>
  \<open>classical (entry_strength reg_shake128) = 128\<close>
  \<open>quantum (entry_strength reg_shake128) = 64\<close>
  \<open>fips reg_shake128 = FipsStatus_Approved\<close>
  \<open>status reg_shake128 = ImplStatus_Available\<close>
  \<open>map target (edges reg_shake128) = [''sha-3'']\<close>
  \<open>map constraint_id (constraints reg_shake128) = [''not-for-passwords'']\<close>
  \<open>entry_keys reg_shake128 = [''shake128'', ''shake128'']\<close>
  \<open>rust_path reg_shake128 \<noteq> []\<close>
  \<open>example reg_shake128 \<noteq> []\<close>
  by (simp_all add: reg_shake128_def registry_facts entry_keys_def ascii_lower_simps
      if_built_def NOT_APPROVED_STATUS_def)

definition reg_shake256 :: "entry" where
  \<open>reg_shake256 =
     \<lparr>entry_id = ''shake256'',
     entry_name = ''SHAKE256'',
     aliases = [],
     summary = ''Extendable-output function at 256-bit strength.'',
     entry_class = Class_Xof,
     family = ''SHA-3'',
     purposes = [Purpose_Integrity, Purpose_KeyDerivation],
     entry_strength = (strength_symmetric 256),
     fips = FipsStatus_Approved,
     status = ImplStatus_Available,
     standards = [''FIPS 202''],
     params = NO_PARAMS,
     constraints = [NOT_FOR_PASSWORDS],
     edges = SHA3_EDGE,
     entry_performance = Performance_Fast,
     rust_path = ''ic_hash::Shake256'',
     example = (''let mut out = [0u8; 64];'' @ [CHR 0x0A] @ ''ic_hash::Shake256::xof(b"seed", &mut out)?;''),
     entry_notes = []\<rparr>\<close>

lemma reg_shake256_facts [registry_facts]:
  \<open>entry_id reg_shake256 = ''shake256''\<close>
  \<open>entry_name reg_shake256 = ''SHAKE256''\<close>
  \<open>aliases reg_shake256 = []\<close>
  \<open>entry_class reg_shake256 = Class_Xof\<close>
  \<open>purposes reg_shake256 = [Purpose_Integrity, Purpose_KeyDerivation]\<close>
  \<open>classical (entry_strength reg_shake256) = 256\<close>
  \<open>quantum (entry_strength reg_shake256) = 128\<close>
  \<open>fips reg_shake256 = FipsStatus_Approved\<close>
  \<open>status reg_shake256 = ImplStatus_Available\<close>
  \<open>map target (edges reg_shake256) = [''sha-3'']\<close>
  \<open>map constraint_id (constraints reg_shake256) = [''not-for-passwords'']\<close>
  \<open>entry_keys reg_shake256 = [''shake256'', ''shake256'']\<close>
  \<open>rust_path reg_shake256 \<noteq> []\<close>
  \<open>example reg_shake256 \<noteq> []\<close>
  by (simp_all add: reg_shake256_def registry_facts entry_keys_def ascii_lower_simps
      if_built_def NOT_APPROVED_STATUS_def)

definition reg_sha_1 :: "entry" where
  \<open>reg_sha_1 =
     \<lparr>entry_id = ''sha-1'',
     entry_name = ''SHA-1'',
     aliases = [''sha1''],
     summary = ''Broken hash. Listed so that a request for it resolves to an explicit refusal.'',
     entry_class = Class_Hash,
     family = ''SHA-1'',
     purposes = [Purpose_Integrity],
     entry_strength = \<lparr>classical = 0, quantum = 0\<rparr>,
     fips = FipsStatus_Disallowed,
     status = ImplStatus_Excluded,
     standards = [''FIPS 180-4''],
     params = NO_PARAMS,
     constraints = [NOT_COLLISION_RESISTANT],
     edges = [\<lparr>relation = Relation_SupersededBy, target = ''sha2-256''\<rparr>],
     entry_performance = Performance_Fast,
     rust_path = [],
     example = [],
     entry_notes = ''Chosen-prefix collisions are practical. Not implemented, and not planned. If a legacy protocol requires it, that protocol needs replacing, not a SHA-1 implementation.''\<rparr>\<close>

lemma reg_sha_1_facts [registry_facts]:
  \<open>entry_id reg_sha_1 = ''sha-1''\<close>
  \<open>entry_name reg_sha_1 = ''SHA-1''\<close>
  \<open>aliases reg_sha_1 = [''sha1'']\<close>
  \<open>entry_class reg_sha_1 = Class_Hash\<close>
  \<open>purposes reg_sha_1 = [Purpose_Integrity]\<close>
  \<open>classical (entry_strength reg_sha_1) = 0\<close>
  \<open>quantum (entry_strength reg_sha_1) = 0\<close>
  \<open>fips reg_sha_1 = FipsStatus_Disallowed\<close>
  \<open>status reg_sha_1 = ImplStatus_Excluded\<close>
  \<open>map target (edges reg_sha_1) = [''sha2-256'']\<close>
  \<open>map constraint_id (constraints reg_sha_1) = [''no-collision-resistance'']\<close>
  \<open>entry_keys reg_sha_1 = [''sha-1'', ''sha-1'', ''sha1'']\<close>
  \<open>rust_path reg_sha_1 = []\<close>
  \<open>example reg_sha_1 = []\<close>
  by (simp_all add: reg_sha_1_def registry_facts entry_keys_def ascii_lower_simps
      if_built_def NOT_APPROVED_STATUS_def)

definition reg_md5 :: "entry" where
  \<open>reg_md5 =
     \<lparr>entry_id = ''md5'',
     entry_name = ''MD5'',
     aliases = [],
     summary = ''Broken hash, listed only to resolve requests for it to a refusal.'',
     entry_class = Class_Hash,
     family = ''MD'',
     purposes = [Purpose_Integrity],
     entry_strength = \<lparr>classical = 0, quantum = 0\<rparr>,
     fips = FipsStatus_Disallowed,
     status = ImplStatus_Excluded,
     standards = [''RFC 1321''],
     params = NO_PARAMS,
     constraints = [NOT_COLLISION_RESISTANT],
     edges = [\<lparr>relation = Relation_SupersededBy, target = ''sha2-256''\<rparr>],
     entry_performance = Performance_Fast,
     rust_path = [],
     example = [],
     entry_notes = ''Collisions take seconds on a laptop. Not implemented, and not planned.''\<rparr>\<close>

lemma reg_md5_facts [registry_facts]:
  \<open>entry_id reg_md5 = ''md5''\<close>
  \<open>entry_name reg_md5 = ''MD5''\<close>
  \<open>aliases reg_md5 = []\<close>
  \<open>entry_class reg_md5 = Class_Hash\<close>
  \<open>purposes reg_md5 = [Purpose_Integrity]\<close>
  \<open>classical (entry_strength reg_md5) = 0\<close>
  \<open>quantum (entry_strength reg_md5) = 0\<close>
  \<open>fips reg_md5 = FipsStatus_Disallowed\<close>
  \<open>status reg_md5 = ImplStatus_Excluded\<close>
  \<open>map target (edges reg_md5) = [''sha2-256'']\<close>
  \<open>map constraint_id (constraints reg_md5) = [''no-collision-resistance'']\<close>
  \<open>entry_keys reg_md5 = [''md5'', ''md5'']\<close>
  \<open>rust_path reg_md5 = []\<close>
  \<open>example reg_md5 = []\<close>
  by (simp_all add: reg_md5_def registry_facts entry_keys_def ascii_lower_simps
      if_built_def NOT_APPROVED_STATUS_def)

definition reg_hmac_sha2_256 :: "entry" where
  \<open>reg_hmac_sha2_256 =
     \<lparr>entry_id = ''hmac-sha2-256'',
     entry_name = ''HMAC-SHA-256'',
     aliases = [''hmac-sha256''],
     summary = ''The default keyed authenticator: approved, fast, and universally supported.'',
     entry_class = Class_Mac,
     family = ''HMAC'',
     purposes = [Purpose_Authentication, Purpose_Integrity],
     entry_strength = (strength_symmetric 256),
     fips = FipsStatus_Approved,
     status = ImplStatus_Available,
     standards = [''FIPS 198-1'', ''RFC 2104''],
     params = HMAC_KEY_P,
     constraints = [CT_COMPARE, NOT_FOR_PASSWORDS],
     edges = [\<lparr>relation = Relation_BuiltOn, target = ''sha2-256''\<rparr>, \<lparr>relation = Relation_PairsWith, target = ''hkdf-sha2-256''\<rparr>],
     entry_performance = Performance_Fast,
     rust_path = ''ic_mac::HmacSha256'',
     example = (''use ic_core::traits::Mac;'' @ [CHR 0x0A] @ ''let tag = ic_mac::HmacSha256::mac(key, msg)?;''),
     entry_notes = ''HMAC is secure even with a length-extendable hash, which is why it is preferred over a bare keyed SHA-2.''\<rparr>\<close>

lemma reg_hmac_sha2_256_facts [registry_facts]:
  \<open>entry_id reg_hmac_sha2_256 = ''hmac-sha2-256''\<close>
  \<open>entry_name reg_hmac_sha2_256 = ''HMAC-SHA-256''\<close>
  \<open>aliases reg_hmac_sha2_256 = [''hmac-sha256'']\<close>
  \<open>entry_class reg_hmac_sha2_256 = Class_Mac\<close>
  \<open>purposes reg_hmac_sha2_256 = [Purpose_Authentication, Purpose_Integrity]\<close>
  \<open>classical (entry_strength reg_hmac_sha2_256) = 256\<close>
  \<open>quantum (entry_strength reg_hmac_sha2_256) = 128\<close>
  \<open>fips reg_hmac_sha2_256 = FipsStatus_Approved\<close>
  \<open>status reg_hmac_sha2_256 = ImplStatus_Available\<close>
  \<open>map target (edges reg_hmac_sha2_256) = [''sha2-256'', ''hkdf-sha2-256'']\<close>
  \<open>map constraint_id (constraints reg_hmac_sha2_256) = [''constant-time-tag-comparison'', ''not-for-passwords'']\<close>
  \<open>entry_keys reg_hmac_sha2_256 = [''hmac-sha2-256'', ''hmac-sha-256'', ''hmac-sha256'']\<close>
  \<open>rust_path reg_hmac_sha2_256 \<noteq> []\<close>
  \<open>example reg_hmac_sha2_256 \<noteq> []\<close>
  by (simp_all add: reg_hmac_sha2_256_def registry_facts entry_keys_def ascii_lower_simps
      if_built_def NOT_APPROVED_STATUS_def)

definition reg_hmac_sha2_384 :: "entry" where
  \<open>reg_hmac_sha2_384 =
     \<lparr>entry_id = ''hmac-sha2-384'',
     entry_name = ''HMAC-SHA-384'',
     aliases = [''hmac-sha384''],
     summary = ''HMAC at 384-bit output, common in TLS 1.2 suites and CNSA-aligned profiles.'',
     entry_class = Class_Mac,
     family = ''HMAC'',
     purposes = [Purpose_Authentication, Purpose_Integrity],
     entry_strength = (strength_symmetric 384),
     fips = FipsStatus_Approved,
     status = ImplStatus_Available,
     standards = [''FIPS 198-1''],
     params = HMAC_KEY_P,
     constraints = [CT_COMPARE, NOT_FOR_PASSWORDS],
     edges = [\<lparr>relation = Relation_BuiltOn, target = ''sha2-384''\<rparr>],
     entry_performance = Performance_Fast,
     rust_path = ''ic_mac::HmacSha384'',
     example = (''use ic_core::traits::Mac;'' @ [CHR 0x0A] @ ''let tag = ic_mac::HmacSha384::mac(key, msg)?;''),
     entry_notes = []\<rparr>\<close>

lemma reg_hmac_sha2_384_facts [registry_facts]:
  \<open>entry_id reg_hmac_sha2_384 = ''hmac-sha2-384''\<close>
  \<open>entry_name reg_hmac_sha2_384 = ''HMAC-SHA-384''\<close>
  \<open>aliases reg_hmac_sha2_384 = [''hmac-sha384'']\<close>
  \<open>entry_class reg_hmac_sha2_384 = Class_Mac\<close>
  \<open>purposes reg_hmac_sha2_384 = [Purpose_Authentication, Purpose_Integrity]\<close>
  \<open>classical (entry_strength reg_hmac_sha2_384) = 384\<close>
  \<open>quantum (entry_strength reg_hmac_sha2_384) = 192\<close>
  \<open>fips reg_hmac_sha2_384 = FipsStatus_Approved\<close>
  \<open>status reg_hmac_sha2_384 = ImplStatus_Available\<close>
  \<open>map target (edges reg_hmac_sha2_384) = [''sha2-384'']\<close>
  \<open>map constraint_id (constraints reg_hmac_sha2_384) = [''constant-time-tag-comparison'', ''not-for-passwords'']\<close>
  \<open>entry_keys reg_hmac_sha2_384 = [''hmac-sha2-384'', ''hmac-sha-384'', ''hmac-sha384'']\<close>
  \<open>rust_path reg_hmac_sha2_384 \<noteq> []\<close>
  \<open>example reg_hmac_sha2_384 \<noteq> []\<close>
  by (simp_all add: reg_hmac_sha2_384_def registry_facts entry_keys_def ascii_lower_simps
      if_built_def NOT_APPROVED_STATUS_def)

definition reg_hmac_sha2_512 :: "entry" where
  \<open>reg_hmac_sha2_512 =
     \<lparr>entry_id = ''hmac-sha2-512'',
     entry_name = ''HMAC-SHA-512'',
     aliases = [''hmac-sha512''],
     summary = ''HMAC at 512-bit output.'',
     entry_class = Class_Mac,
     family = ''HMAC'',
     purposes = [Purpose_Authentication, Purpose_Integrity],
     entry_strength = (strength_symmetric 512),
     fips = FipsStatus_Approved,
     status = ImplStatus_Available,
     standards = [''FIPS 198-1''],
     params = HMAC_KEY_P,
     constraints = [CT_COMPARE, NOT_FOR_PASSWORDS],
     edges = [\<lparr>relation = Relation_BuiltOn, target = ''sha2-512''\<rparr>],
     entry_performance = Performance_Fast,
     rust_path = ''ic_mac::HmacSha512'',
     example = (''use ic_core::traits::Mac;'' @ [CHR 0x0A] @ ''let tag = ic_mac::HmacSha512::mac(key, msg)?;''),
     entry_notes = []\<rparr>\<close>

lemma reg_hmac_sha2_512_facts [registry_facts]:
  \<open>entry_id reg_hmac_sha2_512 = ''hmac-sha2-512''\<close>
  \<open>entry_name reg_hmac_sha2_512 = ''HMAC-SHA-512''\<close>
  \<open>aliases reg_hmac_sha2_512 = [''hmac-sha512'']\<close>
  \<open>entry_class reg_hmac_sha2_512 = Class_Mac\<close>
  \<open>purposes reg_hmac_sha2_512 = [Purpose_Authentication, Purpose_Integrity]\<close>
  \<open>classical (entry_strength reg_hmac_sha2_512) = 512\<close>
  \<open>quantum (entry_strength reg_hmac_sha2_512) = 256\<close>
  \<open>fips reg_hmac_sha2_512 = FipsStatus_Approved\<close>
  \<open>status reg_hmac_sha2_512 = ImplStatus_Available\<close>
  \<open>map target (edges reg_hmac_sha2_512) = [''sha2-512'']\<close>
  \<open>map constraint_id (constraints reg_hmac_sha2_512) = [''constant-time-tag-comparison'', ''not-for-passwords'']\<close>
  \<open>entry_keys reg_hmac_sha2_512 = [''hmac-sha2-512'', ''hmac-sha-512'', ''hmac-sha512'']\<close>
  \<open>rust_path reg_hmac_sha2_512 \<noteq> []\<close>
  \<open>example reg_hmac_sha2_512 \<noteq> []\<close>
  by (simp_all add: reg_hmac_sha2_512_def registry_facts entry_keys_def ascii_lower_simps
      if_built_def NOT_APPROVED_STATUS_def)

definition reg_hmac_sha2_512_256 :: "entry" where
  \<open>reg_hmac_sha2_512_256 =
     \<lparr>entry_id = ''hmac-sha2-512-256'',
     entry_name = ''HMAC-SHA-512/256'',
     aliases = [],
     summary = ''HMAC over SHA-512/256: 32-byte tags at 64-bit-word speed.'',
     entry_class = Class_Mac,
     family = ''HMAC'',
     purposes = [Purpose_Authentication, Purpose_Integrity],
     entry_strength = (strength_symmetric 256),
     fips = FipsStatus_Approved,
     status = ImplStatus_Available,
     standards = [''FIPS 198-1''],
     params = HMAC_KEY_P,
     constraints = [CT_COMPARE, NOT_FOR_PASSWORDS],
     edges = [\<lparr>relation = Relation_BuiltOn, target = ''sha2-512-256''\<rparr>],
     entry_performance = Performance_Fast,
     rust_path = ''ic_mac::HmacSha512_256'',
     example = (''use ic_core::traits::Mac;'' @ [CHR 0x0A] @ ''let tag = ic_mac::HmacSha512_256::mac(key, msg)?;''),
     entry_notes = []\<rparr>\<close>

lemma reg_hmac_sha2_512_256_facts [registry_facts]:
  \<open>entry_id reg_hmac_sha2_512_256 = ''hmac-sha2-512-256''\<close>
  \<open>entry_name reg_hmac_sha2_512_256 = ''HMAC-SHA-512/256''\<close>
  \<open>aliases reg_hmac_sha2_512_256 = []\<close>
  \<open>entry_class reg_hmac_sha2_512_256 = Class_Mac\<close>
  \<open>purposes reg_hmac_sha2_512_256 = [Purpose_Authentication, Purpose_Integrity]\<close>
  \<open>classical (entry_strength reg_hmac_sha2_512_256) = 256\<close>
  \<open>quantum (entry_strength reg_hmac_sha2_512_256) = 128\<close>
  \<open>fips reg_hmac_sha2_512_256 = FipsStatus_Approved\<close>
  \<open>status reg_hmac_sha2_512_256 = ImplStatus_Available\<close>
  \<open>map target (edges reg_hmac_sha2_512_256) = [''sha2-512-256'']\<close>
  \<open>map constraint_id (constraints reg_hmac_sha2_512_256) = [''constant-time-tag-comparison'', ''not-for-passwords'']\<close>
  \<open>entry_keys reg_hmac_sha2_512_256 = [''hmac-sha2-512-256'', ''hmac-sha-512/256'']\<close>
  \<open>rust_path reg_hmac_sha2_512_256 \<noteq> []\<close>
  \<open>example reg_hmac_sha2_512_256 \<noteq> []\<close>
  by (simp_all add: reg_hmac_sha2_512_256_def registry_facts entry_keys_def ascii_lower_simps
      if_built_def NOT_APPROVED_STATUS_def)

definition reg_hmac_sha3_256 :: "entry" where
  \<open>reg_hmac_sha3_256 =
     \<lparr>entry_id = ''hmac-sha3-256'',
     entry_name = ''HMAC-SHA3-256'',
     aliases = [],
     summary = ''HMAC over SHA3-256, for deployments wanting Keccak rather than SHA-2.'',
     entry_class = Class_Mac,
     family = ''HMAC'',
     purposes = [Purpose_Authentication, Purpose_Integrity],
     entry_strength = (strength_symmetric 256),
     fips = FipsStatus_Approved,
     status = ImplStatus_Available,
     standards = [''FIPS 198-1'', ''FIPS 202''],
     params = HMAC_KEY_P,
     constraints = [CT_COMPARE, NOT_FOR_PASSWORDS],
     edges = [\<lparr>relation = Relation_BuiltOn, target = ''sha3-256''\<rparr>],
     entry_performance = Performance_Fast,
     rust_path = ''ic_mac::HmacSha3_256'',
     example = (''use ic_core::traits::Mac;'' @ [CHR 0x0A] @ ''let tag = ic_mac::HmacSha3_256::mac(key, msg)?;''),
     entry_notes = ''KMAC is the purpose-built Keccak MAC and is generally preferable; KMAC128 and KMAC256 are available here.''\<rparr>\<close>

lemma reg_hmac_sha3_256_facts [registry_facts]:
  \<open>entry_id reg_hmac_sha3_256 = ''hmac-sha3-256''\<close>
  \<open>entry_name reg_hmac_sha3_256 = ''HMAC-SHA3-256''\<close>
  \<open>aliases reg_hmac_sha3_256 = []\<close>
  \<open>entry_class reg_hmac_sha3_256 = Class_Mac\<close>
  \<open>purposes reg_hmac_sha3_256 = [Purpose_Authentication, Purpose_Integrity]\<close>
  \<open>classical (entry_strength reg_hmac_sha3_256) = 256\<close>
  \<open>quantum (entry_strength reg_hmac_sha3_256) = 128\<close>
  \<open>fips reg_hmac_sha3_256 = FipsStatus_Approved\<close>
  \<open>status reg_hmac_sha3_256 = ImplStatus_Available\<close>
  \<open>map target (edges reg_hmac_sha3_256) = [''sha3-256'']\<close>
  \<open>map constraint_id (constraints reg_hmac_sha3_256) = [''constant-time-tag-comparison'', ''not-for-passwords'']\<close>
  \<open>entry_keys reg_hmac_sha3_256 = [''hmac-sha3-256'', ''hmac-sha3-256'']\<close>
  \<open>rust_path reg_hmac_sha3_256 \<noteq> []\<close>
  \<open>example reg_hmac_sha3_256 \<noteq> []\<close>
  by (simp_all add: reg_hmac_sha3_256_def registry_facts entry_keys_def ascii_lower_simps
      if_built_def NOT_APPROVED_STATUS_def)

definition reg_hmac_sha3_512 :: "entry" where
  \<open>reg_hmac_sha3_512 =
     \<lparr>entry_id = ''hmac-sha3-512'',
     entry_name = ''HMAC-SHA3-512'',
     aliases = [],
     summary = ''HMAC over SHA3-512.'',
     entry_class = Class_Mac,
     family = ''HMAC'',
     purposes = [Purpose_Authentication, Purpose_Integrity],
     entry_strength = (strength_symmetric 512),
     fips = FipsStatus_Approved,
     status = ImplStatus_Available,
     standards = [''FIPS 198-1'', ''FIPS 202''],
     params = HMAC_KEY_P,
     constraints = [CT_COMPARE, NOT_FOR_PASSWORDS],
     edges = [\<lparr>relation = Relation_BuiltOn, target = ''sha3-512''\<rparr>],
     entry_performance = Performance_Fast,
     rust_path = ''ic_mac::HmacSha3_512'',
     example = (''use ic_core::traits::Mac;'' @ [CHR 0x0A] @ ''let tag = ic_mac::HmacSha3_512::mac(key, msg)?;''),
     entry_notes = []\<rparr>\<close>

lemma reg_hmac_sha3_512_facts [registry_facts]:
  \<open>entry_id reg_hmac_sha3_512 = ''hmac-sha3-512''\<close>
  \<open>entry_name reg_hmac_sha3_512 = ''HMAC-SHA3-512''\<close>
  \<open>aliases reg_hmac_sha3_512 = []\<close>
  \<open>entry_class reg_hmac_sha3_512 = Class_Mac\<close>
  \<open>purposes reg_hmac_sha3_512 = [Purpose_Authentication, Purpose_Integrity]\<close>
  \<open>classical (entry_strength reg_hmac_sha3_512) = 512\<close>
  \<open>quantum (entry_strength reg_hmac_sha3_512) = 256\<close>
  \<open>fips reg_hmac_sha3_512 = FipsStatus_Approved\<close>
  \<open>status reg_hmac_sha3_512 = ImplStatus_Available\<close>
  \<open>map target (edges reg_hmac_sha3_512) = [''sha3-512'']\<close>
  \<open>map constraint_id (constraints reg_hmac_sha3_512) = [''constant-time-tag-comparison'', ''not-for-passwords'']\<close>
  \<open>entry_keys reg_hmac_sha3_512 = [''hmac-sha3-512'', ''hmac-sha3-512'']\<close>
  \<open>rust_path reg_hmac_sha3_512 \<noteq> []\<close>
  \<open>example reg_hmac_sha3_512 \<noteq> []\<close>
  by (simp_all add: reg_hmac_sha3_512_def registry_facts entry_keys_def ascii_lower_simps
      if_built_def NOT_APPROVED_STATUS_def)

definition reg_cmac_aes_128 :: "entry" where
  \<open>reg_cmac_aes_128 =
     \<lparr>entry_id = ''cmac-aes-128'',
     entry_name = ''CMAC-AES-128'',
     aliases = [''aes-128-cmac''],
     summary = ''Block-cipher MAC, for systems that have AES hardware but no hash accelerator.'',
     entry_class = Class_Mac,
     family = ''CMAC'',
     purposes = [Purpose_Authentication, Purpose_Integrity],
     entry_strength = (strength_symmetric 128),
     fips = FipsStatus_Approved,
     status = ImplStatus_Available,
     standards = [''SP 800-38B''],
     params = [P_KEY_16, P_TAG_16],
     constraints = [CT_COMPARE],
     edges = [\<lparr>relation = Relation_BuiltOn, target = ''aes-128''\<rparr>],
     entry_performance = Performance_Slow,
     rust_path = ''ic_mac::CmacAes128'',
     example = (''use ic_core::traits::Mac;'' @ [CHR 0x0A] @ ''let tag = ic_mac::CmacAes128::mac(key, msg)?;''),
     entry_notes = ''Slow in this build because the portable AES backend is slow; see the crate docs.''\<rparr>\<close>

lemma reg_cmac_aes_128_facts [registry_facts]:
  \<open>entry_id reg_cmac_aes_128 = ''cmac-aes-128''\<close>
  \<open>entry_name reg_cmac_aes_128 = ''CMAC-AES-128''\<close>
  \<open>aliases reg_cmac_aes_128 = [''aes-128-cmac'']\<close>
  \<open>entry_class reg_cmac_aes_128 = Class_Mac\<close>
  \<open>purposes reg_cmac_aes_128 = [Purpose_Authentication, Purpose_Integrity]\<close>
  \<open>classical (entry_strength reg_cmac_aes_128) = 128\<close>
  \<open>quantum (entry_strength reg_cmac_aes_128) = 64\<close>
  \<open>fips reg_cmac_aes_128 = FipsStatus_Approved\<close>
  \<open>status reg_cmac_aes_128 = ImplStatus_Available\<close>
  \<open>map target (edges reg_cmac_aes_128) = [''aes-128'']\<close>
  \<open>map constraint_id (constraints reg_cmac_aes_128) = [''constant-time-tag-comparison'']\<close>
  \<open>entry_keys reg_cmac_aes_128 = [''cmac-aes-128'', ''cmac-aes-128'', ''aes-128-cmac'']\<close>
  \<open>rust_path reg_cmac_aes_128 \<noteq> []\<close>
  \<open>example reg_cmac_aes_128 \<noteq> []\<close>
  by (simp_all add: reg_cmac_aes_128_def registry_facts entry_keys_def ascii_lower_simps
      if_built_def NOT_APPROVED_STATUS_def)

definition reg_cmac_aes_192 :: "entry" where
  \<open>reg_cmac_aes_192 =
     \<lparr>entry_id = ''cmac-aes-192'',
     entry_name = ''CMAC-AES-192'',
     aliases = [],
     summary = ''CMAC keyed with AES-192.'',
     entry_class = Class_Mac,
     family = ''CMAC'',
     purposes = [Purpose_Authentication, Purpose_Integrity],
     entry_strength = (strength_symmetric 192),
     fips = FipsStatus_Approved,
     status = ImplStatus_Available,
     standards = [''SP 800-38B''],
     params = [P_KEY_24, P_TAG_16],
     constraints = [CT_COMPARE],
     edges = [\<lparr>relation = Relation_BuiltOn, target = ''aes-192''\<rparr>],
     entry_performance = Performance_Slow,
     rust_path = ''ic_mac::CmacAes192'',
     example = (''use ic_core::traits::Mac;'' @ [CHR 0x0A] @ ''let tag = ic_mac::CmacAes192::mac(key, msg)?;''),
     entry_notes = []\<rparr>\<close>

lemma reg_cmac_aes_192_facts [registry_facts]:
  \<open>entry_id reg_cmac_aes_192 = ''cmac-aes-192''\<close>
  \<open>entry_name reg_cmac_aes_192 = ''CMAC-AES-192''\<close>
  \<open>aliases reg_cmac_aes_192 = []\<close>
  \<open>entry_class reg_cmac_aes_192 = Class_Mac\<close>
  \<open>purposes reg_cmac_aes_192 = [Purpose_Authentication, Purpose_Integrity]\<close>
  \<open>classical (entry_strength reg_cmac_aes_192) = 192\<close>
  \<open>quantum (entry_strength reg_cmac_aes_192) = 96\<close>
  \<open>fips reg_cmac_aes_192 = FipsStatus_Approved\<close>
  \<open>status reg_cmac_aes_192 = ImplStatus_Available\<close>
  \<open>map target (edges reg_cmac_aes_192) = [''aes-192'']\<close>
  \<open>map constraint_id (constraints reg_cmac_aes_192) = [''constant-time-tag-comparison'']\<close>
  \<open>entry_keys reg_cmac_aes_192 = [''cmac-aes-192'', ''cmac-aes-192'']\<close>
  \<open>rust_path reg_cmac_aes_192 \<noteq> []\<close>
  \<open>example reg_cmac_aes_192 \<noteq> []\<close>
  by (simp_all add: reg_cmac_aes_192_def registry_facts entry_keys_def ascii_lower_simps
      if_built_def NOT_APPROVED_STATUS_def)

definition reg_cmac_aes_256 :: "entry" where
  \<open>reg_cmac_aes_256 =
     \<lparr>entry_id = ''cmac-aes-256'',
     entry_name = ''CMAC-AES-256'',
     aliases = [],
     summary = ''CMAC keyed with AES-256.'',
     entry_class = Class_Mac,
     family = ''CMAC'',
     purposes = [Purpose_Authentication, Purpose_Integrity],
     entry_strength = (strength_symmetric 256),
     fips = FipsStatus_Approved,
     status = ImplStatus_Available,
     standards = [''SP 800-38B''],
     params = [P_KEY_32, P_TAG_16],
     constraints = [CT_COMPARE],
     edges = [\<lparr>relation = Relation_BuiltOn, target = ''aes-256''\<rparr>],
     entry_performance = Performance_Slow,
     rust_path = ''ic_mac::CmacAes256'',
     example = (''use ic_core::traits::Mac;'' @ [CHR 0x0A] @ ''let tag = ic_mac::CmacAes256::mac(key, msg)?;''),
     entry_notes = []\<rparr>\<close>

lemma reg_cmac_aes_256_facts [registry_facts]:
  \<open>entry_id reg_cmac_aes_256 = ''cmac-aes-256''\<close>
  \<open>entry_name reg_cmac_aes_256 = ''CMAC-AES-256''\<close>
  \<open>aliases reg_cmac_aes_256 = []\<close>
  \<open>entry_class reg_cmac_aes_256 = Class_Mac\<close>
  \<open>purposes reg_cmac_aes_256 = [Purpose_Authentication, Purpose_Integrity]\<close>
  \<open>classical (entry_strength reg_cmac_aes_256) = 256\<close>
  \<open>quantum (entry_strength reg_cmac_aes_256) = 128\<close>
  \<open>fips reg_cmac_aes_256 = FipsStatus_Approved\<close>
  \<open>status reg_cmac_aes_256 = ImplStatus_Available\<close>
  \<open>map target (edges reg_cmac_aes_256) = [''aes-256'']\<close>
  \<open>map constraint_id (constraints reg_cmac_aes_256) = [''constant-time-tag-comparison'']\<close>
  \<open>entry_keys reg_cmac_aes_256 = [''cmac-aes-256'', ''cmac-aes-256'']\<close>
  \<open>rust_path reg_cmac_aes_256 \<noteq> []\<close>
  \<open>example reg_cmac_aes_256 \<noteq> []\<close>
  by (simp_all add: reg_cmac_aes_256_def registry_facts entry_keys_def ascii_lower_simps
      if_built_def NOT_APPROVED_STATUS_def)

definition reg_poly1305 :: "bool \<Rightarrow> entry" where
  \<open>reg_poly1305 ao =
     \<lparr>entry_id = ''poly1305'',
     entry_name = ''Poly1305'',
     aliases = [],
     summary = ''One-time authenticator; the authentication half of ChaCha20-Poly1305.'',
     entry_class = Class_Mac,
     family = ''Poly1305'',
     purposes = [Purpose_Authentication],
     entry_strength = (strength_symmetric 128),
     fips = FipsStatus_NotApproved,
     status = (NOT_APPROVED_STATUS ao),
     standards = [''RFC 8439''],
     params = [P_KEY_32, P_TAG_16],
     constraints = [ONE_TIME_KEY, CT_COMPARE],
     edges = [\<lparr>relation = Relation_PairsWith, target = ''chacha20-poly1305''\<rparr>],
     entry_performance = Performance_Fast,
     rust_path = (if_built ao ''ic_cipher::Poly1305''),
     example = (if_built ao (''use ic_core::traits::Mac;'' @ [CHR 0x0A] @ ''let tag = ic_cipher::Poly1305::mac(one_time_key, msg)?;'')),
     entry_notes = ''Almost always the wrong thing to call directly; use the AEAD, which derives a fresh one-time key per message.''\<rparr>\<close>

lemma reg_poly1305_facts [registry_facts]:
  \<open>entry_id (reg_poly1305 ao) = ''poly1305''\<close>
  \<open>entry_name (reg_poly1305 ao) = ''Poly1305''\<close>
  \<open>aliases (reg_poly1305 ao) = []\<close>
  \<open>entry_class (reg_poly1305 ao) = Class_Mac\<close>
  \<open>purposes (reg_poly1305 ao) = [Purpose_Authentication]\<close>
  \<open>classical (entry_strength (reg_poly1305 ao)) = 128\<close>
  \<open>quantum (entry_strength (reg_poly1305 ao)) = 64\<close>
  \<open>fips (reg_poly1305 ao) = FipsStatus_NotApproved\<close>
  \<open>status (reg_poly1305 ao) = (NOT_APPROVED_STATUS ao)\<close>
  \<open>map target (edges (reg_poly1305 ao)) = [''chacha20-poly1305'']\<close>
  \<open>map constraint_id (constraints (reg_poly1305 ao)) = [''one-time-key'', ''constant-time-tag-comparison'']\<close>
  \<open>entry_keys (reg_poly1305 ao) = [''poly1305'', ''poly1305'']\<close>
  \<open>(rust_path (reg_poly1305 ao) = []) = ao\<close>
  \<open>(example (reg_poly1305 ao) = []) = ao\<close>
  by (simp_all add: reg_poly1305_def registry_facts entry_keys_def ascii_lower_simps
      if_built_def NOT_APPROVED_STATUS_def)

definition reg_aes_128 :: "entry" where
  \<open>reg_aes_128 =
     \<lparr>entry_id = ''aes-128'',
     entry_name = ''AES-128'',
     aliases = [],
     summary = ''The raw AES-128 permutation. A building block, not an encryption scheme.'',
     entry_class = Class_BlockCipher,
     family = ''AES'',
     purposes = [Purpose_Confidentiality],
     entry_strength = (strength_symmetric 128),
     fips = FipsStatus_AllowedAsComponent,
     status = ImplStatus_Available,
     standards = [''FIPS 197''],
     params = [P_KEY_16],
     constraints = [AEAD_NOT_RAW],
     edges = [\<lparr>relation = Relation_PairsWith, target = ''aes-128-gcm''\<rparr>],
     entry_performance = Performance_Slow,
     rust_path = ''ic_cipher::Aes128'',
     example = (''use ic_core::traits::BlockCipher;'' @ [CHR 0x0A] @ ''let c = ic_cipher::Aes128::new(key)?;''),
     entry_notes = ''Encrypting more than one block with this directly is ECB, which leaks structure.''\<rparr>\<close>

lemma reg_aes_128_facts [registry_facts]:
  \<open>entry_id reg_aes_128 = ''aes-128''\<close>
  \<open>entry_name reg_aes_128 = ''AES-128''\<close>
  \<open>aliases reg_aes_128 = []\<close>
  \<open>entry_class reg_aes_128 = Class_BlockCipher\<close>
  \<open>purposes reg_aes_128 = [Purpose_Confidentiality]\<close>
  \<open>classical (entry_strength reg_aes_128) = 128\<close>
  \<open>quantum (entry_strength reg_aes_128) = 64\<close>
  \<open>fips reg_aes_128 = FipsStatus_AllowedAsComponent\<close>
  \<open>status reg_aes_128 = ImplStatus_Available\<close>
  \<open>map target (edges reg_aes_128) = [''aes-128-gcm'']\<close>
  \<open>map constraint_id (constraints reg_aes_128) = [''requires-separate-mac'']\<close>
  \<open>entry_keys reg_aes_128 = [''aes-128'', ''aes-128'']\<close>
  \<open>rust_path reg_aes_128 \<noteq> []\<close>
  \<open>example reg_aes_128 \<noteq> []\<close>
  by (simp_all add: reg_aes_128_def registry_facts entry_keys_def ascii_lower_simps
      if_built_def NOT_APPROVED_STATUS_def)

definition reg_aes_192 :: "entry" where
  \<open>reg_aes_192 =
     \<lparr>entry_id = ''aes-192'',
     entry_name = ''AES-192'',
     aliases = [],
     summary = ''The raw AES-192 permutation.'',
     entry_class = Class_BlockCipher,
     family = ''AES'',
     purposes = [Purpose_Confidentiality],
     entry_strength = (strength_symmetric 192),
     fips = FipsStatus_AllowedAsComponent,
     status = ImplStatus_Available,
     standards = [''FIPS 197''],
     params = [P_KEY_24],
     constraints = [AEAD_NOT_RAW],
     edges = [\<lparr>relation = Relation_PairsWith, target = ''aes-192-gcm''\<rparr>],
     entry_performance = Performance_Slow,
     rust_path = ''ic_cipher::Aes192'',
     example = (''use ic_core::traits::BlockCipher;'' @ [CHR 0x0A] @ ''let c = ic_cipher::Aes192::new(key)?;''),
     entry_notes = []\<rparr>\<close>

lemma reg_aes_192_facts [registry_facts]:
  \<open>entry_id reg_aes_192 = ''aes-192''\<close>
  \<open>entry_name reg_aes_192 = ''AES-192''\<close>
  \<open>aliases reg_aes_192 = []\<close>
  \<open>entry_class reg_aes_192 = Class_BlockCipher\<close>
  \<open>purposes reg_aes_192 = [Purpose_Confidentiality]\<close>
  \<open>classical (entry_strength reg_aes_192) = 192\<close>
  \<open>quantum (entry_strength reg_aes_192) = 96\<close>
  \<open>fips reg_aes_192 = FipsStatus_AllowedAsComponent\<close>
  \<open>status reg_aes_192 = ImplStatus_Available\<close>
  \<open>map target (edges reg_aes_192) = [''aes-192-gcm'']\<close>
  \<open>map constraint_id (constraints reg_aes_192) = [''requires-separate-mac'']\<close>
  \<open>entry_keys reg_aes_192 = [''aes-192'', ''aes-192'']\<close>
  \<open>rust_path reg_aes_192 \<noteq> []\<close>
  \<open>example reg_aes_192 \<noteq> []\<close>
  by (simp_all add: reg_aes_192_def registry_facts entry_keys_def ascii_lower_simps
      if_built_def NOT_APPROVED_STATUS_def)

definition reg_aes_256 :: "entry" where
  \<open>reg_aes_256 =
     \<lparr>entry_id = ''aes-256'',
     entry_name = ''AES-256'',
     aliases = [],
     summary = ''The raw AES-256 permutation.'',
     entry_class = Class_BlockCipher,
     family = ''AES'',
     purposes = [Purpose_Confidentiality],
     entry_strength = (strength_symmetric 256),
     fips = FipsStatus_AllowedAsComponent,
     status = ImplStatus_Available,
     standards = [''FIPS 197''],
     params = [P_KEY_32],
     constraints = [AEAD_NOT_RAW],
     edges = [\<lparr>relation = Relation_PairsWith, target = ''aes-256-gcm''\<rparr>],
     entry_performance = Performance_Slow,
     rust_path = ''ic_cipher::Aes256'',
     example = (''use ic_core::traits::BlockCipher;'' @ [CHR 0x0A] @ ''let c = ic_cipher::Aes256::new(key)?;''),
     entry_notes = []\<rparr>\<close>

lemma reg_aes_256_facts [registry_facts]:
  \<open>entry_id reg_aes_256 = ''aes-256''\<close>
  \<open>entry_name reg_aes_256 = ''AES-256''\<close>
  \<open>aliases reg_aes_256 = []\<close>
  \<open>entry_class reg_aes_256 = Class_BlockCipher\<close>
  \<open>purposes reg_aes_256 = [Purpose_Confidentiality]\<close>
  \<open>classical (entry_strength reg_aes_256) = 256\<close>
  \<open>quantum (entry_strength reg_aes_256) = 128\<close>
  \<open>fips reg_aes_256 = FipsStatus_AllowedAsComponent\<close>
  \<open>status reg_aes_256 = ImplStatus_Available\<close>
  \<open>map target (edges reg_aes_256) = [''aes-256-gcm'']\<close>
  \<open>map constraint_id (constraints reg_aes_256) = [''requires-separate-mac'']\<close>
  \<open>entry_keys reg_aes_256 = [''aes-256'', ''aes-256'']\<close>
  \<open>rust_path reg_aes_256 \<noteq> []\<close>
  \<open>example reg_aes_256 \<noteq> []\<close>
  by (simp_all add: reg_aes_256_def registry_facts entry_keys_def ascii_lower_simps
      if_built_def NOT_APPROVED_STATUS_def)

definition reg_aes_cbc :: "entry" where
  \<open>reg_aes_cbc =
     \<lparr>entry_id = ''aes-cbc'',
     entry_name = ''AES-CBC'',
     aliases = [''cbc''],
     summary = ''Unauthenticated CBC mode. Use only to interoperate with an existing format.'',
     entry_class = Class_CipherMode,
     family = ''AES'',
     purposes = [Purpose_Confidentiality],
     entry_strength = (strength_symmetric 256),
     fips = FipsStatus_Approved,
     status = ImplStatus_Available,
     standards = [''SP 800-38A''],
     params = [P_IV_16],
     constraints = [AEAD_NOT_RAW],
     edges = [\<lparr>relation = Relation_SupersededBy, target = ''aes-256-gcm''\<rparr>],
     entry_performance = Performance_Slow,
     rust_path = ''ic_cipher::cbc_encrypt'',
     example = ''ic_cipher::cbc_encrypt(&cipher, &iv, &mut data)?;'',
     entry_notes = ''The IV must be unpredictable, not merely unique. Padding oracles are the classic failure; authenticate the ciphertext.''\<rparr>\<close>

lemma reg_aes_cbc_facts [registry_facts]:
  \<open>entry_id reg_aes_cbc = ''aes-cbc''\<close>
  \<open>entry_name reg_aes_cbc = ''AES-CBC''\<close>
  \<open>aliases reg_aes_cbc = [''cbc'']\<close>
  \<open>entry_class reg_aes_cbc = Class_CipherMode\<close>
  \<open>purposes reg_aes_cbc = [Purpose_Confidentiality]\<close>
  \<open>classical (entry_strength reg_aes_cbc) = 256\<close>
  \<open>quantum (entry_strength reg_aes_cbc) = 128\<close>
  \<open>fips reg_aes_cbc = FipsStatus_Approved\<close>
  \<open>status reg_aes_cbc = ImplStatus_Available\<close>
  \<open>map target (edges reg_aes_cbc) = [''aes-256-gcm'']\<close>
  \<open>map constraint_id (constraints reg_aes_cbc) = [''requires-separate-mac'']\<close>
  \<open>entry_keys reg_aes_cbc = [''aes-cbc'', ''aes-cbc'', ''cbc'']\<close>
  \<open>rust_path reg_aes_cbc \<noteq> []\<close>
  \<open>example reg_aes_cbc \<noteq> []\<close>
  by (simp_all add: reg_aes_cbc_def registry_facts entry_keys_def ascii_lower_simps
      if_built_def NOT_APPROVED_STATUS_def)

definition reg_aes_ctr :: "entry" where
  \<open>reg_aes_ctr =
     \<lparr>entry_id = ''aes-ctr'',
     entry_name = ''AES-CTR'',
     aliases = [''ctr''],
     summary = ''Unauthenticated counter mode; turns AES into a stream cipher.'',
     entry_class = Class_CipherMode,
     family = ''AES'',
     purposes = [Purpose_Confidentiality],
     entry_strength = (strength_symmetric 256),
     fips = FipsStatus_Approved,
     status = ImplStatus_Available,
     standards = [''SP 800-38A''],
     params = [P_IV_16],
     constraints = [AEAD_NOT_RAW, UNIQUE_NONCE],
     edges = [\<lparr>relation = Relation_SupersededBy, target = ''aes-256-gcm''\<rparr>],
     entry_performance = Performance_Slow,
     rust_path = ''ic_cipher::ctr_xor'',
     example = ''ic_cipher::ctr_xor(&cipher, &iv, &mut data)?;'',
     entry_notes = ''The counter half of GCM. Reusing a counter value under one key is fatal.''\<rparr>\<close>

lemma reg_aes_ctr_facts [registry_facts]:
  \<open>entry_id reg_aes_ctr = ''aes-ctr''\<close>
  \<open>entry_name reg_aes_ctr = ''AES-CTR''\<close>
  \<open>aliases reg_aes_ctr = [''ctr'']\<close>
  \<open>entry_class reg_aes_ctr = Class_CipherMode\<close>
  \<open>purposes reg_aes_ctr = [Purpose_Confidentiality]\<close>
  \<open>classical (entry_strength reg_aes_ctr) = 256\<close>
  \<open>quantum (entry_strength reg_aes_ctr) = 128\<close>
  \<open>fips reg_aes_ctr = FipsStatus_Approved\<close>
  \<open>status reg_aes_ctr = ImplStatus_Available\<close>
  \<open>map target (edges reg_aes_ctr) = [''aes-256-gcm'']\<close>
  \<open>map constraint_id (constraints reg_aes_ctr) = [''requires-separate-mac'', ''unique-nonce-per-key'']\<close>
  \<open>entry_keys reg_aes_ctr = [''aes-ctr'', ''aes-ctr'', ''ctr'']\<close>
  \<open>rust_path reg_aes_ctr \<noteq> []\<close>
  \<open>example reg_aes_ctr \<noteq> []\<close>
  by (simp_all add: reg_aes_ctr_def registry_facts entry_keys_def ascii_lower_simps
      if_built_def NOT_APPROVED_STATUS_def)

definition reg_aes_128_gcm :: "entry" where
  \<open>reg_aes_128_gcm =
     \<lparr>entry_id = ''aes-128-gcm'',
     entry_name = ''AES-128-GCM'',
     aliases = [''aes128gcm''],
     summary = ''Authenticated encryption at 128-bit strength; the TLS 1.3 default.'',
     entry_class = Class_Aead,
     family = ''AES-GCM'',
     purposes = [Purpose_Confidentiality, Purpose_Authentication, Purpose_Integrity],
     entry_strength = (strength_symmetric 128),
     fips = FipsStatus_Approved,
     status = ImplStatus_Available,
     standards = [''SP 800-38D''],
     params = [P_KEY_16, P_GCM_NONCE, P_TAG_16],
     constraints = [UNIQUE_NONCE, NONCE_COUNTER],
     edges = [\<lparr>relation = Relation_BuiltOn, target = ''aes-128''\<rparr>],
     entry_performance = Performance_Slow,
     rust_path = ''ic_cipher::Aes128Gcm'',
     example = (''let mut tx = ic_cipher::Sealer::<ic_cipher::Aes128Gcm>::new(key, *b"c->s")?;'' @ [CHR 0x0A] @ ''let nonce = tx.seal(aad, &mut buf, &mut tag)?; // send the nonce with the ciphertext''),
     entry_notes = []\<rparr>\<close>

lemma reg_aes_128_gcm_facts [registry_facts]:
  \<open>entry_id reg_aes_128_gcm = ''aes-128-gcm''\<close>
  \<open>entry_name reg_aes_128_gcm = ''AES-128-GCM''\<close>
  \<open>aliases reg_aes_128_gcm = [''aes128gcm'']\<close>
  \<open>entry_class reg_aes_128_gcm = Class_Aead\<close>
  \<open>purposes reg_aes_128_gcm = [Purpose_Confidentiality, Purpose_Authentication, Purpose_Integrity]\<close>
  \<open>classical (entry_strength reg_aes_128_gcm) = 128\<close>
  \<open>quantum (entry_strength reg_aes_128_gcm) = 64\<close>
  \<open>fips reg_aes_128_gcm = FipsStatus_Approved\<close>
  \<open>status reg_aes_128_gcm = ImplStatus_Available\<close>
  \<open>map target (edges reg_aes_128_gcm) = [''aes-128'']\<close>
  \<open>map constraint_id (constraints reg_aes_128_gcm) = [''unique-nonce-per-key'', ''prefer-counter-nonce'']\<close>
  \<open>entry_keys reg_aes_128_gcm = [''aes-128-gcm'', ''aes-128-gcm'', ''aes128gcm'']\<close>
  \<open>rust_path reg_aes_128_gcm \<noteq> []\<close>
  \<open>example reg_aes_128_gcm \<noteq> []\<close>
  by (simp_all add: reg_aes_128_gcm_def registry_facts entry_keys_def ascii_lower_simps
      if_built_def NOT_APPROVED_STATUS_def)

definition reg_aes_192_gcm :: "entry" where
  \<open>reg_aes_192_gcm =
     \<lparr>entry_id = ''aes-192-gcm'',
     entry_name = ''AES-192-GCM'',
     aliases = [],
     summary = ''Authenticated encryption at 192-bit strength.'',
     entry_class = Class_Aead,
     family = ''AES-GCM'',
     purposes = [Purpose_Confidentiality, Purpose_Authentication, Purpose_Integrity],
     entry_strength = (strength_symmetric 192),
     fips = FipsStatus_Approved,
     status = ImplStatus_Available,
     standards = [''SP 800-38D''],
     params = [P_KEY_24, P_GCM_NONCE, P_TAG_16],
     constraints = [UNIQUE_NONCE, NONCE_COUNTER],
     edges = [\<lparr>relation = Relation_BuiltOn, target = ''aes-192''\<rparr>],
     entry_performance = Performance_Slow,
     rust_path = ''ic_cipher::Aes192Gcm'',
     example = (''let mut tx = ic_cipher::Sealer::<ic_cipher::Aes192Gcm>::new(key, *b"c->s")?;'' @ [CHR 0x0A] @ ''let nonce = tx.seal(aad, &mut buf, &mut tag)?; // send the nonce with the ciphertext''),
     entry_notes = ''Rarely used; prefer 128 or 256.''\<rparr>\<close>

lemma reg_aes_192_gcm_facts [registry_facts]:
  \<open>entry_id reg_aes_192_gcm = ''aes-192-gcm''\<close>
  \<open>entry_name reg_aes_192_gcm = ''AES-192-GCM''\<close>
  \<open>aliases reg_aes_192_gcm = []\<close>
  \<open>entry_class reg_aes_192_gcm = Class_Aead\<close>
  \<open>purposes reg_aes_192_gcm = [Purpose_Confidentiality, Purpose_Authentication, Purpose_Integrity]\<close>
  \<open>classical (entry_strength reg_aes_192_gcm) = 192\<close>
  \<open>quantum (entry_strength reg_aes_192_gcm) = 96\<close>
  \<open>fips reg_aes_192_gcm = FipsStatus_Approved\<close>
  \<open>status reg_aes_192_gcm = ImplStatus_Available\<close>
  \<open>map target (edges reg_aes_192_gcm) = [''aes-192'']\<close>
  \<open>map constraint_id (constraints reg_aes_192_gcm) = [''unique-nonce-per-key'', ''prefer-counter-nonce'']\<close>
  \<open>entry_keys reg_aes_192_gcm = [''aes-192-gcm'', ''aes-192-gcm'']\<close>
  \<open>rust_path reg_aes_192_gcm \<noteq> []\<close>
  \<open>example reg_aes_192_gcm \<noteq> []\<close>
  by (simp_all add: reg_aes_192_gcm_def registry_facts entry_keys_def ascii_lower_simps
      if_built_def NOT_APPROVED_STATUS_def)

definition reg_aes_256_gcm :: "entry" where
  \<open>reg_aes_256_gcm =
     \<lparr>entry_id = ''aes-256-gcm'',
     entry_name = ''AES-256-GCM'',
     aliases = [''aes256gcm''],
     summary = ''The default choice for authenticated encryption under a FIPS requirement.'',
     entry_class = Class_Aead,
     family = ''AES-GCM'',
     purposes = [Purpose_Confidentiality, Purpose_Authentication, Purpose_Integrity],
     entry_strength = (strength_symmetric 256),
     fips = FipsStatus_Approved,
     status = ImplStatus_Available,
     standards = [''SP 800-38D''],
     params = [P_KEY_32, P_GCM_NONCE, P_TAG_16],
     constraints = [UNIQUE_NONCE, NONCE_COUNTER],
     edges = [\<lparr>relation = Relation_BuiltOn, target = ''aes-256''\<rparr>],
     entry_performance = Performance_Slow,
     rust_path = ''ic_cipher::Aes256Gcm'',
     example = (''let mut tx = ic_cipher::Sealer::<ic_cipher::Aes256Gcm>::new(key, *b"c->s")?;'' @ [CHR 0x0A] @ ''let nonce = tx.seal(aad, &mut buf, &mut tag)?; // send the nonce with the ciphertext''),
     entry_notes = ''Also the choice when a single key must protect data for a long time, since the 256-bit key retains 128-bit strength against Grover.''\<rparr>\<close>

lemma reg_aes_256_gcm_facts [registry_facts]:
  \<open>entry_id reg_aes_256_gcm = ''aes-256-gcm''\<close>
  \<open>entry_name reg_aes_256_gcm = ''AES-256-GCM''\<close>
  \<open>aliases reg_aes_256_gcm = [''aes256gcm'']\<close>
  \<open>entry_class reg_aes_256_gcm = Class_Aead\<close>
  \<open>purposes reg_aes_256_gcm = [Purpose_Confidentiality, Purpose_Authentication, Purpose_Integrity]\<close>
  \<open>classical (entry_strength reg_aes_256_gcm) = 256\<close>
  \<open>quantum (entry_strength reg_aes_256_gcm) = 128\<close>
  \<open>fips reg_aes_256_gcm = FipsStatus_Approved\<close>
  \<open>status reg_aes_256_gcm = ImplStatus_Available\<close>
  \<open>map target (edges reg_aes_256_gcm) = [''aes-256'']\<close>
  \<open>map constraint_id (constraints reg_aes_256_gcm) = [''unique-nonce-per-key'', ''prefer-counter-nonce'']\<close>
  \<open>entry_keys reg_aes_256_gcm = [''aes-256-gcm'', ''aes-256-gcm'', ''aes256gcm'']\<close>
  \<open>rust_path reg_aes_256_gcm \<noteq> []\<close>
  \<open>example reg_aes_256_gcm \<noteq> []\<close>
  by (simp_all add: reg_aes_256_gcm_def registry_facts entry_keys_def ascii_lower_simps
      if_built_def NOT_APPROVED_STATUS_def)

definition reg_chacha20_poly1305 :: "bool \<Rightarrow> entry" where
  \<open>reg_chacha20_poly1305 ao =
     \<lparr>entry_id = ''chacha20-poly1305'',
     entry_name = ''ChaCha20-Poly1305'',
     aliases = [''chachapoly''],
     summary = ''Authenticated encryption that is fast in software on any CPU.'',
     entry_class = Class_Aead,
     family = ''ChaCha'',
     purposes = [Purpose_Confidentiality, Purpose_Authentication, Purpose_Integrity],
     entry_strength = (strength_symmetric 256),
     fips = FipsStatus_NotApproved,
     status = (NOT_APPROVED_STATUS ao),
     standards = [''RFC 8439''],
     params = [P_KEY_32, P_NONCE_12, P_TAG_16],
     constraints = [UNIQUE_NONCE],
     edges = [\<lparr>relation = Relation_BuiltOn, target = ''poly1305''\<rparr>],
     entry_performance = Performance_Fast,
     rust_path = (if_built ao ''ic_cipher::ChaCha20Poly1305''),
     example = (if_built ao (''let mut tx = ic_cipher::Sealer::<ic_cipher::ChaCha20Poly1305>::new(key, *b"c->s")?;'' @ [CHR 0x0A] @ ''let nonce = tx.seal(aad, &mut buf, &mut tag)?; // send the nonce with the ciphertext'')),
     entry_notes = ''The right answer without AES hardware, and much faster than this build's portable AES. Blocked in FIPS approved mode.''\<rparr>\<close>

lemma reg_chacha20_poly1305_facts [registry_facts]:
  \<open>entry_id (reg_chacha20_poly1305 ao) = ''chacha20-poly1305''\<close>
  \<open>entry_name (reg_chacha20_poly1305 ao) = ''ChaCha20-Poly1305''\<close>
  \<open>aliases (reg_chacha20_poly1305 ao) = [''chachapoly'']\<close>
  \<open>entry_class (reg_chacha20_poly1305 ao) = Class_Aead\<close>
  \<open>purposes (reg_chacha20_poly1305 ao) = [Purpose_Confidentiality, Purpose_Authentication, Purpose_Integrity]\<close>
  \<open>classical (entry_strength (reg_chacha20_poly1305 ao)) = 256\<close>
  \<open>quantum (entry_strength (reg_chacha20_poly1305 ao)) = 128\<close>
  \<open>fips (reg_chacha20_poly1305 ao) = FipsStatus_NotApproved\<close>
  \<open>status (reg_chacha20_poly1305 ao) = (NOT_APPROVED_STATUS ao)\<close>
  \<open>map target (edges (reg_chacha20_poly1305 ao)) = [''poly1305'']\<close>
  \<open>map constraint_id (constraints (reg_chacha20_poly1305 ao)) = [''unique-nonce-per-key'']\<close>
  \<open>entry_keys (reg_chacha20_poly1305 ao) = [''chacha20-poly1305'', ''chacha20-poly1305'', ''chachapoly'']\<close>
  \<open>(rust_path (reg_chacha20_poly1305 ao) = []) = ao\<close>
  \<open>(example (reg_chacha20_poly1305 ao) = []) = ao\<close>
  by (simp_all add: reg_chacha20_poly1305_def registry_facts entry_keys_def ascii_lower_simps
      if_built_def NOT_APPROVED_STATUS_def)

definition reg_xchacha20_poly1305 :: "bool \<Rightarrow> entry" where
  \<open>reg_xchacha20_poly1305 ao =
     \<lparr>entry_id = ''xchacha20-poly1305'',
     entry_name = ''XChaCha20-Poly1305'',
     aliases = [''xchachapoly'', ''aead-xchacha20-poly1305''],
     summary = ''ChaCha20-Poly1305 with a 192-bit nonce, safe to draw at random for every message.'',
     entry_class = Class_Aead,
     family = ''ChaCha'',
     purposes = [Purpose_Confidentiality, Purpose_Authentication, Purpose_Integrity],
     entry_strength = (strength_symmetric 256),
     fips = FipsStatus_NotApproved,
     status = (NOT_APPROVED_STATUS ao),
     standards = [''draft-irtf-cfrg-xchacha-03'', ''RFC 8439''],
     params = [P_KEY_32, P_NONCE_24, P_TAG_16],
     constraints = [UNIQUE_NONCE],
     edges = [\<lparr>relation = Relation_BuiltOn, target = ''hchacha20''\<rparr>, \<lparr>relation = Relation_BuiltOn, target = ''chacha20-poly1305''\<rparr>, \<lparr>relation = Relation_BuiltOn, target = ''poly1305''\<rparr>],
     entry_performance = Performance_Fast,
     rust_path = (if_built ao ''ic_cipher::XChaCha20Poly1305''),
     example = (if_built ao (''use ic_core::traits::Aead;'' @ [CHR 0x0A] @ ''let c = ic_cipher::XChaCha20Poly1305::new(key)?;'' @ [CHR 0x0A] @ ''let nonce = c.seal_with_random_nonce(&mut rng, aad, &mut buf, &mut tag)?; // send the nonce with the ciphertext'')),
     entry_notes = ''For when nothing can keep a nonce counter: many senders under one key, or keys that outlive a process. A random 96-bit nonce collides often enough to matter after about 2^32 messages; a random 192-bit one does not in any realistic number. `seal_with_random_nonce` draws it; pass `ic_drbg::Rng`. HChaCha20 derives a subkey from the key and the nonce's first 16 bytes, and ChaCha20-Poly1305 runs under it with the last 8. Defined by an Internet-Draft that expired in 2020 without becoming an RFC; libsodium, Go and Tink implement the same construction. Checked against the draft's HChaCha20, XChaCha20 and AEAD vectors and all 315 of Project Wycheproof's cases. Not FIPS-approved, and blocked in approved mode.''\<rparr>\<close>

lemma reg_xchacha20_poly1305_facts [registry_facts]:
  \<open>entry_id (reg_xchacha20_poly1305 ao) = ''xchacha20-poly1305''\<close>
  \<open>entry_name (reg_xchacha20_poly1305 ao) = ''XChaCha20-Poly1305''\<close>
  \<open>aliases (reg_xchacha20_poly1305 ao) = [''xchachapoly'', ''aead-xchacha20-poly1305'']\<close>
  \<open>entry_class (reg_xchacha20_poly1305 ao) = Class_Aead\<close>
  \<open>purposes (reg_xchacha20_poly1305 ao) = [Purpose_Confidentiality, Purpose_Authentication, Purpose_Integrity]\<close>
  \<open>classical (entry_strength (reg_xchacha20_poly1305 ao)) = 256\<close>
  \<open>quantum (entry_strength (reg_xchacha20_poly1305 ao)) = 128\<close>
  \<open>fips (reg_xchacha20_poly1305 ao) = FipsStatus_NotApproved\<close>
  \<open>status (reg_xchacha20_poly1305 ao) = (NOT_APPROVED_STATUS ao)\<close>
  \<open>map target (edges (reg_xchacha20_poly1305 ao)) = [''hchacha20'', ''chacha20-poly1305'', ''poly1305'']\<close>
  \<open>map constraint_id (constraints (reg_xchacha20_poly1305 ao)) = [''unique-nonce-per-key'']\<close>
  \<open>entry_keys (reg_xchacha20_poly1305 ao) = [''xchacha20-poly1305'', ''xchacha20-poly1305'', ''xchachapoly'', ''aead-xchacha20-poly1305'']\<close>
  \<open>(rust_path (reg_xchacha20_poly1305 ao) = []) = ao\<close>
  \<open>(example (reg_xchacha20_poly1305 ao) = []) = ao\<close>
  by (simp_all add: reg_xchacha20_poly1305_def registry_facts entry_keys_def ascii_lower_simps
      if_built_def NOT_APPROVED_STATUS_def)

end
