(* ===== verification/Registry_Derivation.thy ===== *)
theory Registry_Derivation
  imports Registry_Consts
begin

text \<open>
  Entries of \<open>REGISTRY\<close> in \<open>crates/ic-ontology/src/registry.rs\<close>, lines 1974 onward:
  key derivation, password schemes, seals and random generators.
  After each entry stand the fields a selection reads.
\<close>

definition reg_hkdf_sha2_256 :: "entry" where
  \<open>reg_hkdf_sha2_256 =
     \<lparr>entry_id = ''hkdf-sha2-256'',
     entry_name = ''HKDF-SHA-256'',
     aliases = [''hkdf''],
     summary = ''Extract-and-expand KDF; the default way to turn a shared secret into keys.'',
     entry_class = Class_Kdf,
     family = ''HKDF'',
     purposes = [Purpose_KeyDerivation],
     entry_strength = (strength_symmetric 256),
     fips = FipsStatus_Approved,
     status = ImplStatus_Available,
     standards = [''RFC 5869'', ''SP 800-56C''],
     params = NO_PARAMS,
     constraints = [NOT_FOR_PASSWORDS],
     edges = [\<lparr>relation = Relation_BuiltOn, target = ''hmac-sha2-256''\<rparr>, \<lparr>relation = Relation_PairsWith, target = ''x25519''\<rparr>],
     entry_performance = Performance_Fast,
     rust_path = ''ic_kdf::Hkdf::<ic_mac::HmacSha256>'',
     example = (''use ic_core::traits::Kdf;'' @ [CHR 0x0A] @ ''ic_kdf::Hkdf::<ic_mac::HmacSha256>::derive(ikm, salt, info, &mut key)?;''),
     entry_notes = ''Always pass a distinct `info` per derived key; that is what keeps two keys from the same secret independent.''\<rparr>\<close>

lemma reg_hkdf_sha2_256_facts [registry_facts]:
  \<open>entry_id reg_hkdf_sha2_256 = ''hkdf-sha2-256''\<close>
  \<open>entry_name reg_hkdf_sha2_256 = ''HKDF-SHA-256''\<close>
  \<open>aliases reg_hkdf_sha2_256 = [''hkdf'']\<close>
  \<open>entry_class reg_hkdf_sha2_256 = Class_Kdf\<close>
  \<open>purposes reg_hkdf_sha2_256 = [Purpose_KeyDerivation]\<close>
  \<open>classical (entry_strength reg_hkdf_sha2_256) = 256\<close>
  \<open>quantum (entry_strength reg_hkdf_sha2_256) = 128\<close>
  \<open>fips reg_hkdf_sha2_256 = FipsStatus_Approved\<close>
  \<open>status reg_hkdf_sha2_256 = ImplStatus_Available\<close>
  \<open>map target (edges reg_hkdf_sha2_256) = [''hmac-sha2-256'', ''x25519'']\<close>
  \<open>map constraint_id (constraints reg_hkdf_sha2_256) = [''not-for-passwords'']\<close>
  \<open>entry_keys reg_hkdf_sha2_256 = [''hkdf-sha2-256'', ''hkdf-sha-256'', ''hkdf'']\<close>
  \<open>rust_path reg_hkdf_sha2_256 \<noteq> []\<close>
  \<open>example reg_hkdf_sha2_256 \<noteq> []\<close>
  by (simp_all add: reg_hkdf_sha2_256_def registry_facts entry_keys_def ascii_lower_simps
      if_built_def NOT_APPROVED_STATUS_def)

definition reg_hkdf_sha2_384 :: "entry" where
  \<open>reg_hkdf_sha2_384 =
     \<lparr>entry_id = ''hkdf-sha2-384'',
     entry_name = ''HKDF-SHA-384'',
     aliases = [],
     summary = ''HKDF over HMAC-SHA-384.'',
     entry_class = Class_Kdf,
     family = ''HKDF'',
     purposes = [Purpose_KeyDerivation],
     entry_strength = (strength_symmetric 384),
     fips = FipsStatus_Approved,
     status = ImplStatus_Available,
     standards = [''RFC 5869'', ''SP 800-56C''],
     params = NO_PARAMS,
     constraints = [NOT_FOR_PASSWORDS],
     edges = [\<lparr>relation = Relation_BuiltOn, target = ''hmac-sha2-384''\<rparr>],
     entry_performance = Performance_Fast,
     rust_path = ''ic_kdf::Hkdf::<ic_mac::HmacSha384>'',
     example = (''use ic_core::traits::Kdf;'' @ [CHR 0x0A] @ ''ic_kdf::Hkdf::<ic_mac::HmacSha384>::derive(ikm, salt, info, &mut key)?;''),
     entry_notes = []\<rparr>\<close>

lemma reg_hkdf_sha2_384_facts [registry_facts]:
  \<open>entry_id reg_hkdf_sha2_384 = ''hkdf-sha2-384''\<close>
  \<open>entry_name reg_hkdf_sha2_384 = ''HKDF-SHA-384''\<close>
  \<open>aliases reg_hkdf_sha2_384 = []\<close>
  \<open>entry_class reg_hkdf_sha2_384 = Class_Kdf\<close>
  \<open>purposes reg_hkdf_sha2_384 = [Purpose_KeyDerivation]\<close>
  \<open>classical (entry_strength reg_hkdf_sha2_384) = 384\<close>
  \<open>quantum (entry_strength reg_hkdf_sha2_384) = 192\<close>
  \<open>fips reg_hkdf_sha2_384 = FipsStatus_Approved\<close>
  \<open>status reg_hkdf_sha2_384 = ImplStatus_Available\<close>
  \<open>map target (edges reg_hkdf_sha2_384) = [''hmac-sha2-384'']\<close>
  \<open>map constraint_id (constraints reg_hkdf_sha2_384) = [''not-for-passwords'']\<close>
  \<open>entry_keys reg_hkdf_sha2_384 = [''hkdf-sha2-384'', ''hkdf-sha-384'']\<close>
  \<open>rust_path reg_hkdf_sha2_384 \<noteq> []\<close>
  \<open>example reg_hkdf_sha2_384 \<noteq> []\<close>
  by (simp_all add: reg_hkdf_sha2_384_def registry_facts entry_keys_def ascii_lower_simps
      if_built_def NOT_APPROVED_STATUS_def)

definition reg_hkdf_sha2_512 :: "entry" where
  \<open>reg_hkdf_sha2_512 =
     \<lparr>entry_id = ''hkdf-sha2-512'',
     entry_name = ''HKDF-SHA-512'',
     aliases = [],
     summary = ''HKDF over HMAC-SHA-512.'',
     entry_class = Class_Kdf,
     family = ''HKDF'',
     purposes = [Purpose_KeyDerivation],
     entry_strength = (strength_symmetric 512),
     fips = FipsStatus_Approved,
     status = ImplStatus_Available,
     standards = [''RFC 5869'', ''SP 800-56C''],
     params = NO_PARAMS,
     constraints = [NOT_FOR_PASSWORDS],
     edges = [\<lparr>relation = Relation_BuiltOn, target = ''hmac-sha2-512''\<rparr>],
     entry_performance = Performance_Fast,
     rust_path = ''ic_kdf::Hkdf::<ic_mac::HmacSha512>'',
     example = (''use ic_core::traits::Kdf;'' @ [CHR 0x0A] @ ''ic_kdf::Hkdf::<ic_mac::HmacSha512>::derive(ikm, salt, info, &mut key)?;''),
     entry_notes = []\<rparr>\<close>

lemma reg_hkdf_sha2_512_facts [registry_facts]:
  \<open>entry_id reg_hkdf_sha2_512 = ''hkdf-sha2-512''\<close>
  \<open>entry_name reg_hkdf_sha2_512 = ''HKDF-SHA-512''\<close>
  \<open>aliases reg_hkdf_sha2_512 = []\<close>
  \<open>entry_class reg_hkdf_sha2_512 = Class_Kdf\<close>
  \<open>purposes reg_hkdf_sha2_512 = [Purpose_KeyDerivation]\<close>
  \<open>classical (entry_strength reg_hkdf_sha2_512) = 512\<close>
  \<open>quantum (entry_strength reg_hkdf_sha2_512) = 256\<close>
  \<open>fips reg_hkdf_sha2_512 = FipsStatus_Approved\<close>
  \<open>status reg_hkdf_sha2_512 = ImplStatus_Available\<close>
  \<open>map target (edges reg_hkdf_sha2_512) = [''hmac-sha2-512'']\<close>
  \<open>map constraint_id (constraints reg_hkdf_sha2_512) = [''not-for-passwords'']\<close>
  \<open>entry_keys reg_hkdf_sha2_512 = [''hkdf-sha2-512'', ''hkdf-sha-512'']\<close>
  \<open>rust_path reg_hkdf_sha2_512 \<noteq> []\<close>
  \<open>example reg_hkdf_sha2_512 \<noteq> []\<close>
  by (simp_all add: reg_hkdf_sha2_512_def registry_facts entry_keys_def ascii_lower_simps
      if_built_def NOT_APPROVED_STATUS_def)

definition reg_sp800_108_counter_hmac_sha2_256 :: "entry" where
  \<open>reg_sp800_108_counter_hmac_sha2_256 =
     \<lparr>entry_id = ''sp800-108-counter-hmac-sha2-256'',
     entry_name = ''SP 800-108 KDF (counter mode, HMAC-SHA-256)'',
     aliases = [''kbkdf'', ''sp800-108''],
     summary = ''Expands one key-derivation key into many application keys.'',
     entry_class = Class_Kdf,
     family = ''SP 800-108'',
     purposes = [Purpose_KeyDerivation],
     entry_strength = (strength_symmetric 256),
     fips = FipsStatus_Approved,
     status = ImplStatus_Available,
     standards = [''SP 800-108r1''],
     params = NO_PARAMS,
     constraints = [NOT_FOR_PASSWORDS],
     edges = [\<lparr>relation = Relation_BuiltOn, target = ''hmac-sha2-256''\<rparr>],
     entry_performance = Performance_Fast,
     rust_path = ''ic_kdf::kbkdf_counter'',
     example = ''ic_kdf::kbkdf_counter::<ic_mac::HmacSha256>(kdk, b"label", ctx, &mut key)?;'',
     entry_notes = ''Use when the input is already a uniform key. Use HKDF when it is a Diffie-Hellman shared secret or other non-uniform material.''\<rparr>\<close>

lemma reg_sp800_108_counter_hmac_sha2_256_facts [registry_facts]:
  \<open>entry_id reg_sp800_108_counter_hmac_sha2_256 = ''sp800-108-counter-hmac-sha2-256''\<close>
  \<open>entry_name reg_sp800_108_counter_hmac_sha2_256 = ''SP 800-108 KDF (counter mode, HMAC-SHA-256)''\<close>
  \<open>aliases reg_sp800_108_counter_hmac_sha2_256 = [''kbkdf'', ''sp800-108'']\<close>
  \<open>entry_class reg_sp800_108_counter_hmac_sha2_256 = Class_Kdf\<close>
  \<open>purposes reg_sp800_108_counter_hmac_sha2_256 = [Purpose_KeyDerivation]\<close>
  \<open>classical (entry_strength reg_sp800_108_counter_hmac_sha2_256) = 256\<close>
  \<open>quantum (entry_strength reg_sp800_108_counter_hmac_sha2_256) = 128\<close>
  \<open>fips reg_sp800_108_counter_hmac_sha2_256 = FipsStatus_Approved\<close>
  \<open>status reg_sp800_108_counter_hmac_sha2_256 = ImplStatus_Available\<close>
  \<open>map target (edges reg_sp800_108_counter_hmac_sha2_256) = [''hmac-sha2-256'']\<close>
  \<open>map constraint_id (constraints reg_sp800_108_counter_hmac_sha2_256) = [''not-for-passwords'']\<close>
  \<open>entry_keys reg_sp800_108_counter_hmac_sha2_256 = [''sp800-108-counter-hmac-sha2-256'', ''sp 800-108 kdf (counter mode, hmac-sha-256)'', ''kbkdf'', ''sp800-108'']\<close>
  \<open>rust_path reg_sp800_108_counter_hmac_sha2_256 \<noteq> []\<close>
  \<open>example reg_sp800_108_counter_hmac_sha2_256 \<noteq> []\<close>
  by (simp_all add: reg_sp800_108_counter_hmac_sha2_256_def registry_facts entry_keys_def ascii_lower_simps
      if_built_def NOT_APPROVED_STATUS_def)

definition reg_pbkdf2_hmac_sha2_256 :: "entry" where
  \<open>reg_pbkdf2_hmac_sha2_256 =
     \<lparr>entry_id = ''pbkdf2-hmac-sha2-256'',
     entry_name = ''PBKDF2-HMAC-SHA-256'',
     aliases = [''pbkdf2''],
     summary = ''Password-based key derivation. The only approved option, not the strongest one.'',
     entry_class = Class_PasswordKdf,
     family = ''PBKDF2'',
     purposes = [Purpose_PasswordHashing, Purpose_KeyDerivation],
     entry_strength = (strength_symmetric 256),
     fips = FipsStatus_Approved,
     status = ImplStatus_Available,
     standards = [''SP 800-132'', ''RFC 8018''],
     params = PBKDF2_P,
     constraints = [SALT_REQUIRED],
     edges = [\<lparr>relation = Relation_BuiltOn, target = ''hmac-sha2-256''\<rparr>],
     entry_performance = Performance_DeliberatelySlow,
     rust_path = ''ic_kdf::pbkdf2'',
     example = ''ic_kdf::pbkdf2::<ic_mac::HmacSha256>(password, salt, 600_000, &mut key)?;'',
     entry_notes = ''PBKDF2 is not memory-hard, so a GPU attacks it far faster than a CPU defends it. Where FIPS approval is not required, Argon2id is the better choice; it is not implemented here.''\<rparr>\<close>

lemma reg_pbkdf2_hmac_sha2_256_facts [registry_facts]:
  \<open>entry_id reg_pbkdf2_hmac_sha2_256 = ''pbkdf2-hmac-sha2-256''\<close>
  \<open>entry_name reg_pbkdf2_hmac_sha2_256 = ''PBKDF2-HMAC-SHA-256''\<close>
  \<open>aliases reg_pbkdf2_hmac_sha2_256 = [''pbkdf2'']\<close>
  \<open>entry_class reg_pbkdf2_hmac_sha2_256 = Class_PasswordKdf\<close>
  \<open>purposes reg_pbkdf2_hmac_sha2_256 = [Purpose_PasswordHashing, Purpose_KeyDerivation]\<close>
  \<open>classical (entry_strength reg_pbkdf2_hmac_sha2_256) = 256\<close>
  \<open>quantum (entry_strength reg_pbkdf2_hmac_sha2_256) = 128\<close>
  \<open>fips reg_pbkdf2_hmac_sha2_256 = FipsStatus_Approved\<close>
  \<open>status reg_pbkdf2_hmac_sha2_256 = ImplStatus_Available\<close>
  \<open>map target (edges reg_pbkdf2_hmac_sha2_256) = [''hmac-sha2-256'']\<close>
  \<open>map constraint_id (constraints reg_pbkdf2_hmac_sha2_256) = [''unique-salt-per-password'']\<close>
  \<open>entry_keys reg_pbkdf2_hmac_sha2_256 = [''pbkdf2-hmac-sha2-256'', ''pbkdf2-hmac-sha-256'', ''pbkdf2'']\<close>
  \<open>rust_path reg_pbkdf2_hmac_sha2_256 \<noteq> []\<close>
  \<open>example reg_pbkdf2_hmac_sha2_256 \<noteq> []\<close>
  by (simp_all add: reg_pbkdf2_hmac_sha2_256_def registry_facts entry_keys_def ascii_lower_simps
      if_built_def NOT_APPROVED_STATUS_def)

definition reg_pbkdf2_hmac_sha2_512 :: "entry" where
  \<open>reg_pbkdf2_hmac_sha2_512 =
     \<lparr>entry_id = ''pbkdf2-hmac-sha2-512'',
     entry_name = ''PBKDF2-HMAC-SHA-512'',
     aliases = [],
     summary = ''PBKDF2 over HMAC-SHA-512.'',
     entry_class = Class_PasswordKdf,
     family = ''PBKDF2'',
     purposes = [Purpose_PasswordHashing, Purpose_KeyDerivation],
     entry_strength = (strength_symmetric 512),
     fips = FipsStatus_Approved,
     status = ImplStatus_Available,
     standards = [''SP 800-132''],
     params = PBKDF2_P,
     constraints = [SALT_REQUIRED],
     edges = [\<lparr>relation = Relation_BuiltOn, target = ''hmac-sha2-512''\<rparr>],
     entry_performance = Performance_DeliberatelySlow,
     rust_path = ''ic_kdf::pbkdf2'',
     example = ''ic_kdf::pbkdf2::<ic_mac::HmacSha512>(password, salt, 600_000, &mut key)?;'',
     entry_notes = []\<rparr>\<close>

lemma reg_pbkdf2_hmac_sha2_512_facts [registry_facts]:
  \<open>entry_id reg_pbkdf2_hmac_sha2_512 = ''pbkdf2-hmac-sha2-512''\<close>
  \<open>entry_name reg_pbkdf2_hmac_sha2_512 = ''PBKDF2-HMAC-SHA-512''\<close>
  \<open>aliases reg_pbkdf2_hmac_sha2_512 = []\<close>
  \<open>entry_class reg_pbkdf2_hmac_sha2_512 = Class_PasswordKdf\<close>
  \<open>purposes reg_pbkdf2_hmac_sha2_512 = [Purpose_PasswordHashing, Purpose_KeyDerivation]\<close>
  \<open>classical (entry_strength reg_pbkdf2_hmac_sha2_512) = 512\<close>
  \<open>quantum (entry_strength reg_pbkdf2_hmac_sha2_512) = 256\<close>
  \<open>fips reg_pbkdf2_hmac_sha2_512 = FipsStatus_Approved\<close>
  \<open>status reg_pbkdf2_hmac_sha2_512 = ImplStatus_Available\<close>
  \<open>map target (edges reg_pbkdf2_hmac_sha2_512) = [''hmac-sha2-512'']\<close>
  \<open>map constraint_id (constraints reg_pbkdf2_hmac_sha2_512) = [''unique-salt-per-password'']\<close>
  \<open>entry_keys reg_pbkdf2_hmac_sha2_512 = [''pbkdf2-hmac-sha2-512'', ''pbkdf2-hmac-sha-512'']\<close>
  \<open>rust_path reg_pbkdf2_hmac_sha2_512 \<noteq> []\<close>
  \<open>example reg_pbkdf2_hmac_sha2_512 \<noteq> []\<close>
  by (simp_all add: reg_pbkdf2_hmac_sha2_512_def registry_facts entry_keys_def ascii_lower_simps
      if_built_def NOT_APPROVED_STATUS_def)

definition reg_scrypt :: "bool \<Rightarrow> entry" where
  \<open>reg_scrypt ao =
     \<lparr>entry_id = ''scrypt'',
     entry_name = ''scrypt'',
     aliases = [''rfc7914''],
     summary = ''Memory-hard password hashing; the fallback where Argon2 is not available.'',
     entry_class = Class_PasswordKdf,
     family = ''scrypt'',
     purposes = [Purpose_PasswordHashing, Purpose_KeyDerivation],
     entry_strength = (strength_symmetric 256),
     fips = FipsStatus_NotApproved,
     status = (NOT_APPROVED_STATUS ao),
     standards = [''RFC 7914''],
     params = NO_PARAMS,
     constraints = [\<lparr>constraint_id = ''scrypt-data-dependent-access'', requirement = ''Prefer Argon2id where another process on the same machine can observe this one's cache, and say so when choosing scrypt anyway.'', consequence = ''ROMix reads memory at password-dependent addresses, so a co-resident attacker learns something about the access pattern. bcrypt and yescrypt carry the same exposure at the same severity.'', severity = Severity_Serious\<rparr>],
     edges = [\<lparr>relation = Relation_BuiltOn, target = ''salsa20-8-core''\<rparr>, \<lparr>relation = Relation_BuiltOn, target = ''pbkdf2-hmac-sha2-256''\<rparr>, \<lparr>relation = Relation_SupersededBy, target = ''argon2id''\<rparr>],
     entry_performance = Performance_Slow,
     rust_path = (if_built ao ''ic_kdf::scrypt''),
     example = (if_built ao (''let params = ic_kdf::scrypt::ScryptParams::RECOMMENDED;'' @ [CHR 0x0A] @ ''let stored = ic_kdf::scrypt::phc::hash_password(&params, password, &mut rng)?;'' @ [CHR 0x0A] @ ''ic_kdf::scrypt::phc::verify_password(password, &stored)?;'')),
     entry_notes = ''The IETF's password-storage guidance recommends it where Argon2 is not available, at N = 2^17, r = 8, p = 1 or more, the RECOMMENDED constant. Also for interoperating with what already uses it. PHC strings in ic_kdf::scrypt::phc, the form the RustCrypto scrypt crate writes, with which they were checked both ways. Checked against all four of RFC 7914's vectors, the 1 GiB one in a release build, and eight of OpenSSL's over shapes the RFC does not vary.''\<rparr>\<close>

lemma reg_scrypt_facts [registry_facts]:
  \<open>entry_id (reg_scrypt ao) = ''scrypt''\<close>
  \<open>entry_name (reg_scrypt ao) = ''scrypt''\<close>
  \<open>aliases (reg_scrypt ao) = [''rfc7914'']\<close>
  \<open>entry_class (reg_scrypt ao) = Class_PasswordKdf\<close>
  \<open>purposes (reg_scrypt ao) = [Purpose_PasswordHashing, Purpose_KeyDerivation]\<close>
  \<open>classical (entry_strength (reg_scrypt ao)) = 256\<close>
  \<open>quantum (entry_strength (reg_scrypt ao)) = 128\<close>
  \<open>fips (reg_scrypt ao) = FipsStatus_NotApproved\<close>
  \<open>status (reg_scrypt ao) = (NOT_APPROVED_STATUS ao)\<close>
  \<open>map target (edges (reg_scrypt ao)) = [''salsa20-8-core'', ''pbkdf2-hmac-sha2-256'', ''argon2id'']\<close>
  \<open>map constraint_id (constraints (reg_scrypt ao)) = [''scrypt-data-dependent-access'']\<close>
  \<open>entry_keys (reg_scrypt ao) = [''scrypt'', ''scrypt'', ''rfc7914'']\<close>
  \<open>(rust_path (reg_scrypt ao) = []) = ao\<close>
  \<open>(example (reg_scrypt ao) = []) = ao\<close>
  by (simp_all add: reg_scrypt_def registry_facts entry_keys_def ascii_lower_simps
      if_built_def NOT_APPROVED_STATUS_def)

definition reg_blowfish :: "entry" where
  \<open>reg_blowfish =
     \<lparr>entry_id = ''blowfish'',
     entry_name = ''Blowfish'',
     aliases = [],
     summary = ''A 64-bit block cipher, present only as bcrypt's key schedule. Not offered as a cipher.'',
     entry_class = Class_BlockCipher,
     family = ''Blowfish'',
     purposes = [Purpose_Confidentiality],
     entry_strength = \<lparr>classical = 64, quantum = 32\<rparr>,
     fips = FipsStatus_NotApproved,
     status = ImplStatus_Excluded,
     standards = [''Schneier 1994''],
     params = NO_PARAMS,
     constraints = [],
     edges = [\<lparr>relation = Relation_SupersededBy, target = ''aes-256''\<rparr>],
     entry_performance = Performance_Moderate,
     rust_path = [],
     example = [],
     entry_notes = ''Implemented inside ic_kdf::bcrypt, with no public interface, so that stored bcrypt hashes can be verified. As a cipher it is excluded: its 64-bit block makes collisions likely after about 32 GiB under one key (Sweet32), and its key-dependent S-boxes are read at indices derived from the key. Neither matters to bcrypt, which encrypts one fixed text, but both rule it out for data. Use an AEAD.''\<rparr>\<close>

lemma reg_blowfish_facts [registry_facts]:
  \<open>entry_id reg_blowfish = ''blowfish''\<close>
  \<open>entry_name reg_blowfish = ''Blowfish''\<close>
  \<open>aliases reg_blowfish = []\<close>
  \<open>entry_class reg_blowfish = Class_BlockCipher\<close>
  \<open>purposes reg_blowfish = [Purpose_Confidentiality]\<close>
  \<open>classical (entry_strength reg_blowfish) = 64\<close>
  \<open>quantum (entry_strength reg_blowfish) = 32\<close>
  \<open>fips reg_blowfish = FipsStatus_NotApproved\<close>
  \<open>status reg_blowfish = ImplStatus_Excluded\<close>
  \<open>map target (edges reg_blowfish) = [''aes-256'']\<close>
  \<open>map constraint_id (constraints reg_blowfish) = []\<close>
  \<open>entry_keys reg_blowfish = [''blowfish'', ''blowfish'']\<close>
  \<open>rust_path reg_blowfish = []\<close>
  \<open>example reg_blowfish = []\<close>
  by (simp_all add: reg_blowfish_def registry_facts entry_keys_def ascii_lower_simps
      if_built_def NOT_APPROVED_STATUS_def)

definition reg_salsa20_8_core :: "entry" where
  \<open>reg_salsa20_8_core =
     \<lparr>entry_id = ''salsa20-8-core'',
     entry_name = ''Salsa20/8 core'',
     aliases = [''salsa20/8''],
     summary = ''The eight-round Salsa20 core, present only inside scrypt and yescrypt.'',
     entry_class = Class_Hash,
     family = ''Salsa20'',
     purposes = [Purpose_KeyDerivation],
     entry_strength = \<lparr>classical = 0, quantum = 0\<rparr>,
     fips = FipsStatus_NotApproved,
     status = ImplStatus_Excluded,
     standards = [''RFC 7914''],
     params = NO_PARAMS,
     constraints = [],
     edges = [],
     entry_performance = Performance_Fast,
     rust_path = [],
     example = [],
     entry_notes = ''RFC 7914 section 3 defines it as a function from 64 octets to 64 octets, the mixing step of scrypt's BlockMix; yescrypt uses it too, with two rounds as well as eight. It has no key and is not collision resistant, so on its own it is no hash and no cipher, which is why its strength is given as zero: what security it contributes, it contributes inside scrypt. Not offered alone. The Salsa20 stream cipher is not implemented; ChaCha20 is its successor here.''\<rparr>\<close>

lemma reg_salsa20_8_core_facts [registry_facts]:
  \<open>entry_id reg_salsa20_8_core = ''salsa20-8-core''\<close>
  \<open>entry_name reg_salsa20_8_core = ''Salsa20/8 core''\<close>
  \<open>aliases reg_salsa20_8_core = [''salsa20/8'']\<close>
  \<open>entry_class reg_salsa20_8_core = Class_Hash\<close>
  \<open>purposes reg_salsa20_8_core = [Purpose_KeyDerivation]\<close>
  \<open>classical (entry_strength reg_salsa20_8_core) = 0\<close>
  \<open>quantum (entry_strength reg_salsa20_8_core) = 0\<close>
  \<open>fips reg_salsa20_8_core = FipsStatus_NotApproved\<close>
  \<open>status reg_salsa20_8_core = ImplStatus_Excluded\<close>
  \<open>map target (edges reg_salsa20_8_core) = []\<close>
  \<open>map constraint_id (constraints reg_salsa20_8_core) = []\<close>
  \<open>entry_keys reg_salsa20_8_core = [''salsa20-8-core'', ''salsa20/8 core'', ''salsa20/8'']\<close>
  \<open>rust_path reg_salsa20_8_core = []\<close>
  \<open>example reg_salsa20_8_core = []\<close>
  by (simp_all add: reg_salsa20_8_core_def registry_facts entry_keys_def ascii_lower_simps
      if_built_def NOT_APPROVED_STATUS_def)

definition reg_hchacha20 :: "entry" where
  \<open>reg_hchacha20 =
     \<lparr>entry_id = ''hchacha20'',
     entry_name = ''HChaCha20'',
     aliases = [],
     summary = ''Derives a ChaCha20 subkey from a key and 128 bits of nonce; present only inside XChaCha20-Poly1305.'',
     entry_class = Class_Kdf,
     family = ''ChaCha'',
     purposes = [Purpose_KeyDerivation],
     entry_strength = (strength_symmetric 256),
     fips = FipsStatus_NotApproved,
     status = ImplStatus_Excluded,
     standards = [''draft-irtf-cfrg-xchacha-03''],
     params = NO_PARAMS,
     constraints = [],
     edges = [],
     entry_performance = Performance_Fast,
     rust_path = [],
     example = [],
     entry_notes = ''The ChaCha20 block function without the final addition, keeping eight of its sixteen words: a PRF under the key, which is what extends the nonce to 192 bits. Implemented inside ic_cipher's XChaCha20-Poly1305 and checked against the draft's HChaCha20 vector there. Not offered alone: it is a building block for that construction, and a key derivation from material that is already a key belongs to HKDF.''\<rparr>\<close>

lemma reg_hchacha20_facts [registry_facts]:
  \<open>entry_id reg_hchacha20 = ''hchacha20''\<close>
  \<open>entry_name reg_hchacha20 = ''HChaCha20''\<close>
  \<open>aliases reg_hchacha20 = []\<close>
  \<open>entry_class reg_hchacha20 = Class_Kdf\<close>
  \<open>purposes reg_hchacha20 = [Purpose_KeyDerivation]\<close>
  \<open>classical (entry_strength reg_hchacha20) = 256\<close>
  \<open>quantum (entry_strength reg_hchacha20) = 128\<close>
  \<open>fips reg_hchacha20 = FipsStatus_NotApproved\<close>
  \<open>status reg_hchacha20 = ImplStatus_Excluded\<close>
  \<open>map target (edges reg_hchacha20) = []\<close>
  \<open>map constraint_id (constraints reg_hchacha20) = []\<close>
  \<open>entry_keys reg_hchacha20 = [''hchacha20'', ''hchacha20'']\<close>
  \<open>rust_path reg_hchacha20 = []\<close>
  \<open>example reg_hchacha20 = []\<close>
  by (simp_all add: reg_hchacha20_def registry_facts entry_keys_def ascii_lower_simps
      if_built_def NOT_APPROVED_STATUS_def)

definition reg_bcrypt :: "bool \<Rightarrow> entry" where
  \<open>reg_bcrypt ao =
     \<lparr>entry_id = ''bcrypt'',
     entry_name = ''bcrypt (verification only)'',
     aliases = [''2b'', ''2y'', ''2a''],
     summary = ''Checks a password against a stored bcrypt hash, so that it can be replaced with Argon2id. Makes no new bcrypt hashes.'',
     entry_class = Class_PasswordKdf,
     family = ''bcrypt'',
     purposes = [Purpose_PasswordHashing],
     entry_strength = (strength_symmetric 128),
     fips = FipsStatus_NotApproved,
     status = (NOT_APPROVED_STATUS ao),
     standards = [''Provos-Mazieres 1999'', ''Schneier 1994''],
     params = NO_PARAMS,
     constraints = [VERIFY_ONLY_MIGRATE, PASSWORD_INDEXED_TABLES],
     edges = [\<lparr>relation = Relation_BuiltOn, target = ''blowfish''\<rparr>, \<lparr>relation = Relation_SupersededBy, target = ''argon2id''\<rparr>],
     entry_performance = Performance_DeliberatelySlow,
     rust_path = (if_built ao ''ic_kdf::bcrypt''),
     example = (if_built ao ''ic_kdf::bcrypt::verify_password(password, stored)?;''),
     entry_notes = ''$2a$, $2b$ and $2y$ are verified alike; $2x$, which marks hashes made by a broken implementation, is refused as unsupported. Only the first 72 bytes of a password count, as in every bcrypt. A stored cost above 16 is refused, since 31 is days of work; verify_password_bounded takes another ceiling. Checked against 51 verdicts of pyca/bcrypt 4.2.1, built on the Rust bcrypt crate.''\<rparr>\<close>

lemma reg_bcrypt_facts [registry_facts]:
  \<open>entry_id (reg_bcrypt ao) = ''bcrypt''\<close>
  \<open>entry_name (reg_bcrypt ao) = ''bcrypt (verification only)''\<close>
  \<open>aliases (reg_bcrypt ao) = [''2b'', ''2y'', ''2a'']\<close>
  \<open>entry_class (reg_bcrypt ao) = Class_PasswordKdf\<close>
  \<open>purposes (reg_bcrypt ao) = [Purpose_PasswordHashing]\<close>
  \<open>classical (entry_strength (reg_bcrypt ao)) = 128\<close>
  \<open>quantum (entry_strength (reg_bcrypt ao)) = 64\<close>
  \<open>fips (reg_bcrypt ao) = FipsStatus_NotApproved\<close>
  \<open>status (reg_bcrypt ao) = (NOT_APPROVED_STATUS ao)\<close>
  \<open>map target (edges (reg_bcrypt ao)) = [''blowfish'', ''argon2id'']\<close>
  \<open>map constraint_id (constraints (reg_bcrypt ao)) = [''verify-then-rehash'', ''password-indexed-lookups'']\<close>
  \<open>entry_keys (reg_bcrypt ao) = [''bcrypt'', ''bcrypt (verification only)'', ''2b'', ''2y'', ''2a'']\<close>
  \<open>(rust_path (reg_bcrypt ao) = []) = ao\<close>
  \<open>(example (reg_bcrypt ao) = []) = ao\<close>
  by (simp_all add: reg_bcrypt_def registry_facts entry_keys_def ascii_lower_simps
      if_built_def NOT_APPROVED_STATUS_def)

definition reg_yescrypt :: "bool \<Rightarrow> entry" where
  \<open>reg_yescrypt ao =
     \<lparr>entry_id = ''yescrypt'',
     entry_name = ''yescrypt (verification only)'',
     aliases = [''$y$'', ''$7$''],
     summary = ''Checks a password against a stored yescrypt or $7$ scrypt hash, the default crypt(3) of current Linux distributions, so that it can be replaced with Argon2id. Makes no new yescrypt hashes.'',
     entry_class = Class_PasswordKdf,
     family = ''scrypt'',
     purposes = [Purpose_PasswordHashing],
     entry_strength = (strength_symmetric 256),
     fips = FipsStatus_NotApproved,
     status = (NOT_APPROVED_STATUS ao),
     standards = [''yescrypt 1.1''],
     params = NO_PARAMS,
     constraints = [VERIFY_ONLY_MIGRATE, PASSWORD_INDEXED_TABLES],
     edges = [\<lparr>relation = Relation_BuiltOn, target = ''salsa20-8-core''\<rparr>, \<lparr>relation = Relation_BuiltOn, target = ''scrypt''\<rparr>, \<lparr>relation = Relation_BuiltOn, target = ''pbkdf2-hmac-sha2-256''\<rparr>, \<lparr>relation = Relation_SupersededBy, target = ''argon2id''\<rparr>],
     entry_performance = Performance_DeliberatelySlow,
     rust_path = (if_built ao ''ic_kdf::yescrypt''),
     example = (if_built ao ''ic_kdf::yescrypt::verify_password(password, stored)?;''),
     entry_notes = ''The default flavor (j, read-write with pwxform), WORM, classic scrypt in $y$ form, the p and t parameters, and $7$. A ROM and hash upgrades are refused as unsupported; libxcrypt writes neither. A hash naming more than 4 GiB, or more than eight passes through that, is refused before anything is allocated; verify_password_bounded takes another ceiling. Transcribed from Openwall's yescrypt-ref.c and checked against 34 verdicts of libxcrypt 4.4.38.''\<rparr>\<close>

lemma reg_yescrypt_facts [registry_facts]:
  \<open>entry_id (reg_yescrypt ao) = ''yescrypt''\<close>
  \<open>entry_name (reg_yescrypt ao) = ''yescrypt (verification only)''\<close>
  \<open>aliases (reg_yescrypt ao) = [''$y$'', ''$7$'']\<close>
  \<open>entry_class (reg_yescrypt ao) = Class_PasswordKdf\<close>
  \<open>purposes (reg_yescrypt ao) = [Purpose_PasswordHashing]\<close>
  \<open>classical (entry_strength (reg_yescrypt ao)) = 256\<close>
  \<open>quantum (entry_strength (reg_yescrypt ao)) = 128\<close>
  \<open>fips (reg_yescrypt ao) = FipsStatus_NotApproved\<close>
  \<open>status (reg_yescrypt ao) = (NOT_APPROVED_STATUS ao)\<close>
  \<open>map target (edges (reg_yescrypt ao)) = [''salsa20-8-core'', ''scrypt'', ''pbkdf2-hmac-sha2-256'', ''argon2id'']\<close>
  \<open>map constraint_id (constraints (reg_yescrypt ao)) = [''verify-then-rehash'', ''password-indexed-lookups'']\<close>
  \<open>entry_keys (reg_yescrypt ao) = [''yescrypt'', ''yescrypt (verification only)'', ''$y$'', ''$7$'']\<close>
  \<open>(rust_path (reg_yescrypt ao) = []) = ao\<close>
  \<open>(example (reg_yescrypt ao) = []) = ao\<close>
  by (simp_all add: reg_yescrypt_def registry_facts entry_keys_def ascii_lower_simps
      if_built_def NOT_APPROVED_STATUS_def)

definition reg_argon2id :: "bool \<Rightarrow> entry" where
  \<open>reg_argon2id ao =
     \<lparr>entry_id = ''argon2id'',
     entry_name = ''Argon2id'',
     aliases = [''argon2''],
     summary = ''Memory-hard password hashing; the best available answer outside FIPS.'',
     entry_class = Class_PasswordKdf,
     family = ''Argon2'',
     purposes = [Purpose_PasswordHashing],
     entry_strength = (strength_symmetric 256),
     fips = FipsStatus_NotApproved,
     status = (NOT_APPROVED_STATUS ao),
     standards = [''RFC 9106''],
     params = ARGON2_P,
     constraints = [SALT_REQUIRED],
     edges = [\<lparr>relation = Relation_Supersedes, target = ''pbkdf2-hmac-sha2-256''\<rparr>, \<lparr>relation = Relation_BuiltOn, target = ''blake2b''\<rparr>],
     entry_performance = Performance_DeliberatelySlow,
     rust_path = (if_built ao ''ic_kdf::argon2''),
     example = (if_built ao (''use ic_kdf::argon2::{argon2, Argon2Params, Variant};'' @ [CHR 0x0A] @ ''argon2(Variant::Argon2id, &Argon2Params::INTERACTIVE, password, salt, &mut key)?;'')),
     entry_notes = ''Memory is the parameter that matters: raising the pass count over a small arena buys far less than raising the memory. RFC 9106 recommends 2 GiB with t=1 for offline use and 64 MiB with t=3 for interactive logins, both available as constants. Argon2i and Argon2d are implemented too; prefer Argon2id unless you specifically need one of the others. The whole of what the argon2 crate offers is here: version 1.0 beside 1.3 for hashes made before RFC 9106, a secret and associated data, argon2_with_memory and fill_memory over caller-provided blocks for targets with no allocator, lanes on threads under std, an AVX2 compression function, and PHC strings in ic_kdf::argon2::phc -- hash_password under a drawn salt, verify_password in constant time, keyid and data -- checked against libargon2, libsodium and argon2 0.6.0. A PHC string without v= is version 1.0, as libargon2 reads it; the argon2 crate reads it as 1.3. ic_kdf::password verifies a stored hash in any supported format -- Argon2, scrypt, bcrypt, yescrypt -- and returns its Argon2id replacement when one is due.''\<rparr>\<close>

lemma reg_argon2id_facts [registry_facts]:
  \<open>entry_id (reg_argon2id ao) = ''argon2id''\<close>
  \<open>entry_name (reg_argon2id ao) = ''Argon2id''\<close>
  \<open>aliases (reg_argon2id ao) = [''argon2'']\<close>
  \<open>entry_class (reg_argon2id ao) = Class_PasswordKdf\<close>
  \<open>purposes (reg_argon2id ao) = [Purpose_PasswordHashing]\<close>
  \<open>classical (entry_strength (reg_argon2id ao)) = 256\<close>
  \<open>quantum (entry_strength (reg_argon2id ao)) = 128\<close>
  \<open>fips (reg_argon2id ao) = FipsStatus_NotApproved\<close>
  \<open>status (reg_argon2id ao) = (NOT_APPROVED_STATUS ao)\<close>
  \<open>map target (edges (reg_argon2id ao)) = [''pbkdf2-hmac-sha2-256'', ''blake2b'']\<close>
  \<open>map constraint_id (constraints (reg_argon2id ao)) = [''unique-salt-per-password'']\<close>
  \<open>entry_keys (reg_argon2id ao) = [''argon2id'', ''argon2id'', ''argon2'']\<close>
  \<open>(rust_path (reg_argon2id ao) = []) = ao\<close>
  \<open>(example (reg_argon2id ao) = []) = ao\<close>
  by (simp_all add: reg_argon2id_def registry_facts entry_keys_def ascii_lower_simps
      if_built_def NOT_APPROVED_STATUS_def)

definition reg_blake2b :: "bool \<Rightarrow> entry" where
  \<open>reg_blake2b ao =
     \<lparr>entry_id = ''blake2b'',
     entry_name = ''BLAKE2b'',
     aliases = [''blake2''],
     summary = ''Fast hash with a variable output length and a built-in keyed mode.'',
     entry_class = Class_Hash,
     family = ''BLAKE2'',
     purposes = [Purpose_Integrity, Purpose_Authentication, Purpose_Commitment],
     entry_strength = (strength_symmetric 256),
     fips = FipsStatus_NotApproved,
     status = (NOT_APPROVED_STATUS ao),
     standards = [''RFC 7693''],
     params = BLAKE2B_P,
     constraints = [NOT_FOR_PASSWORDS],
     edges = [\<lparr>relation = Relation_PairsWith, target = ''argon2id''\<rparr>],
     entry_performance = Performance_Fast,
     rust_path = (if_built ao ''ic_hash::Blake2b''),
     example = (if_built ao (''let mut out = [0u8; 32];'' @ [CHR 0x0A] @ ''ic_hash::Blake2b::hash(b"message", &mut out)?;'')),
     entry_notes = (''Present because Argon2 is defined in terms of it. Faster than SHA-512 on 64-bit hardware and keyed without needing HMAC, but not approved '' @ [CHR 0xE2, CHR 0x80, CHR 0x94] @ '' under a FIPS policy use SHA-2 or SHA-3 instead. The output length is bound into the digest, so a short hash is not a prefix of a long one.'')\<rparr>\<close>

lemma reg_blake2b_facts [registry_facts]:
  \<open>entry_id (reg_blake2b ao) = ''blake2b''\<close>
  \<open>entry_name (reg_blake2b ao) = ''BLAKE2b''\<close>
  \<open>aliases (reg_blake2b ao) = [''blake2'']\<close>
  \<open>entry_class (reg_blake2b ao) = Class_Hash\<close>
  \<open>purposes (reg_blake2b ao) = [Purpose_Integrity, Purpose_Authentication, Purpose_Commitment]\<close>
  \<open>classical (entry_strength (reg_blake2b ao)) = 256\<close>
  \<open>quantum (entry_strength (reg_blake2b ao)) = 128\<close>
  \<open>fips (reg_blake2b ao) = FipsStatus_NotApproved\<close>
  \<open>status (reg_blake2b ao) = (NOT_APPROVED_STATUS ao)\<close>
  \<open>map target (edges (reg_blake2b ao)) = [''argon2id'']\<close>
  \<open>map constraint_id (constraints (reg_blake2b ao)) = [''not-for-passwords'']\<close>
  \<open>entry_keys (reg_blake2b ao) = [''blake2b'', ''blake2b'', ''blake2'']\<close>
  \<open>(rust_path (reg_blake2b ao) = []) = ao\<close>
  \<open>(example (reg_blake2b ao) = []) = ao\<close>
  by (simp_all add: reg_blake2b_def registry_facts entry_keys_def ascii_lower_simps
      if_built_def NOT_APPROVED_STATUS_def)

definition reg_passphrase_seal :: "bool \<Rightarrow> entry" where
  \<open>reg_passphrase_seal ao =
     \<lparr>entry_id = ''passphrase-seal'',
     entry_name = ''Passphrase sealing (Argon2id, XChaCha20-Poly1305)'',
     aliases = [''icpw'', ''password-encryption''],
     summary = ''A secret sealed under a passphrase in one versioned container: Argon2id derives the key, XChaCha20-Poly1305 seals, the header is authenticated.'',
     entry_class = Class_PasswordEncryption,
     family = ''IronCrypto'',
     purposes = [Purpose_Confidentiality, Purpose_Authentication],
     entry_strength = (strength_symmetric 256),
     fips = FipsStatus_NotApproved,
     status = (NOT_APPROVED_STATUS ao),
     standards = [''RFC 9106'', ''draft-irtf-cfrg-xchacha-03''],
     params = NO_PARAMS,
     constraints = [\<lparr>constraint_id = ''passphrase-strength'', requirement = ''Use a passphrase with real entropy; the parameters slow guessing, they do not make a short password safe.'', consequence = ''Argon2id at the floor costs an attacker tens of milliseconds a guess on one core; a dictionary word falls in minutes.'', severity = Severity_Serious\<rparr>],
     edges = [\<lparr>relation = Relation_BuiltOn, target = ''argon2id''\<rparr>, \<lparr>relation = Relation_BuiltOn, target = ''xchacha20-poly1305''\<rparr>],
     entry_performance = Performance_Slow,
     rust_path = (if_built ao ''ic_kdf::passphrase''),
     example = (if_built ao (''let n = ic_kdf::passphrase::seal(passphrase, &params, &mut rng, secret, &mut out)?;'' @ [CHR 0x0A] @ ''let m = ic_kdf::passphrase::open(passphrase, &out[..n], &mut back)?;'')),
     entry_notes = ''For a key at rest that only a person's passphrase unlocks, such as a CA's signing key. Pass Argon2Params::INTERACTIVE or RECOMMENDED. The format is this library's own, version 1, described in ic_kdf::passphrase and implemented a second time over libsodium and the Argon2 reference code by scripts/gen_passphrase_vectors.py, whose containers this opens. Parameters travel in the header, which is authenticated; both sides refuse parameters under a floor of 19 MiB over two passes, or above a ceiling that stops a hostile container forcing an unbounded allocation. Not FIPS-approved; under a FIPS obligation, PBKDF2 with HMAC-SHA-256 and AES-256-GCM are the approved parts, and this format does not offer them.''\<rparr>\<close>

lemma reg_passphrase_seal_facts [registry_facts]:
  \<open>entry_id (reg_passphrase_seal ao) = ''passphrase-seal''\<close>
  \<open>entry_name (reg_passphrase_seal ao) = ''Passphrase sealing (Argon2id, XChaCha20-Poly1305)''\<close>
  \<open>aliases (reg_passphrase_seal ao) = [''icpw'', ''password-encryption'']\<close>
  \<open>entry_class (reg_passphrase_seal ao) = Class_PasswordEncryption\<close>
  \<open>purposes (reg_passphrase_seal ao) = [Purpose_Confidentiality, Purpose_Authentication]\<close>
  \<open>classical (entry_strength (reg_passphrase_seal ao)) = 256\<close>
  \<open>quantum (entry_strength (reg_passphrase_seal ao)) = 128\<close>
  \<open>fips (reg_passphrase_seal ao) = FipsStatus_NotApproved\<close>
  \<open>status (reg_passphrase_seal ao) = (NOT_APPROVED_STATUS ao)\<close>
  \<open>map target (edges (reg_passphrase_seal ao)) = [''argon2id'', ''xchacha20-poly1305'']\<close>
  \<open>map constraint_id (constraints (reg_passphrase_seal ao)) = [''passphrase-strength'']\<close>
  \<open>entry_keys (reg_passphrase_seal ao) = [''passphrase-seal'', ''passphrase sealing (argon2id, xchacha20-poly1305)'', ''icpw'', ''password-encryption'']\<close>
  \<open>(rust_path (reg_passphrase_seal ao) = []) = ao\<close>
  \<open>(example (reg_passphrase_seal ao) = []) = ao\<close>
  by (simp_all add: reg_passphrase_seal_def registry_facts entry_keys_def ascii_lower_simps
      if_built_def NOT_APPROVED_STATUS_def)

definition reg_pkcs8_pbes2 :: "entry" where
  \<open>reg_pkcs8_pbes2 =
     \<lparr>entry_id = ''pkcs8-pbes2'',
     entry_name = ''Encrypted PKCS#8 (PBES2: PBKDF2-HMAC-SHA-256, AES-256-CBC)'',
     aliases = [''encrypted-private-key'', ''pbes2'', ''encrypted-pkcs8''],
     summary = ''A private key file under a passphrase, as OpenSSL writes and reads it: PBKDF2-HMAC-SHA-256 derives the key, AES-256-CBC encrypts the PKCS#8.'',
     entry_class = Class_PasswordEncryption,
     family = ''PKCS#8'',
     purposes = [Purpose_Confidentiality],
     entry_strength = (strength_symmetric 256),
     fips = FipsStatus_Approved,
     status = ImplStatus_Available,
     standards = [''RFC 5958'', ''RFC 8018'', ''SP 800-132'', ''SP 800-38A''],
     params = NO_PARAMS,
     constraints = [\<lparr>constraint_id = ''pbes2-unauthenticated'', requirement = ''Keep the encrypted key where only its owner can write it; the format has no authentication tag.'', consequence = ''Someone who can change the file can change the key it decrypts to, and a wrong passphrase gets past the padding check about one time in 256.'', severity = Severity_Serious\<rparr>, \<lparr>constraint_id = ''passphrase-strength'', requirement = ''Use a passphrase with real entropy; the iterations slow guessing, they do not make a short password safe.'', consequence = ''PBKDF2 is not memory-hard: a GPU tries a 600 000-iteration guess far faster than a CPU checks one, and a dictionary word falls.'', severity = Severity_Serious\<rparr>],
     edges = [\<lparr>relation = Relation_BuiltOn, target = ''pbkdf2-hmac-sha2-256''\<rparr>, \<lparr>relation = Relation_BuiltOn, target = ''aes-cbc''\<rparr>],
     entry_performance = Performance_DeliberatelySlow,
     rust_path = ''ic_pkix::pbes2'',
     example = (''let n = key.to_encrypted_der(passphrase, ic_pkix::pbes2::DEFAULT_ITERATIONS, &mut rng, &mut out)?;'' @ [CHR 0x0A] @ ''let back = ic_pkix::PrivateKeyInfo::from_encrypted_der(&out[..n], passphrase, &mut buf)?;''),
     entry_notes = ''For a key file another tool must open, such as a CA key that OpenSSL or a hardware module's import reads; PEM label ENCRYPTED PRIVATE KEY. Both sides refuse fewer than 600 000 iterations (OpenSSL's default of 2048 included) or more than 10 000 000, and read only HMAC-SHA-256 and AES-256-CBC. Writing is checked byte for byte against OpenSSL 3.5. CBC because the format allows no AEAD and OpenSSL refuses one; where no other tool needs to read the file, passphrase-seal authenticates. Built from approved parts; this module is not CMVP validated.''\<rparr>\<close>

lemma reg_pkcs8_pbes2_facts [registry_facts]:
  \<open>entry_id reg_pkcs8_pbes2 = ''pkcs8-pbes2''\<close>
  \<open>entry_name reg_pkcs8_pbes2 = ''Encrypted PKCS#8 (PBES2: PBKDF2-HMAC-SHA-256, AES-256-CBC)''\<close>
  \<open>aliases reg_pkcs8_pbes2 = [''encrypted-private-key'', ''pbes2'', ''encrypted-pkcs8'']\<close>
  \<open>entry_class reg_pkcs8_pbes2 = Class_PasswordEncryption\<close>
  \<open>purposes reg_pkcs8_pbes2 = [Purpose_Confidentiality]\<close>
  \<open>classical (entry_strength reg_pkcs8_pbes2) = 256\<close>
  \<open>quantum (entry_strength reg_pkcs8_pbes2) = 128\<close>
  \<open>fips reg_pkcs8_pbes2 = FipsStatus_Approved\<close>
  \<open>status reg_pkcs8_pbes2 = ImplStatus_Available\<close>
  \<open>map target (edges reg_pkcs8_pbes2) = [''pbkdf2-hmac-sha2-256'', ''aes-cbc'']\<close>
  \<open>map constraint_id (constraints reg_pkcs8_pbes2) = [''pbes2-unauthenticated'', ''passphrase-strength'']\<close>
  \<open>entry_keys reg_pkcs8_pbes2 = [''pkcs8-pbes2'', ''encrypted pkcs#8 (pbes2: pbkdf2-hmac-sha-256, aes-256-cbc)'', ''encrypted-private-key'', ''pbes2'', ''encrypted-pkcs8'']\<close>
  \<open>rust_path reg_pkcs8_pbes2 \<noteq> []\<close>
  \<open>example reg_pkcs8_pbes2 \<noteq> []\<close>
  by (simp_all add: reg_pkcs8_pbes2_def registry_facts entry_keys_def ascii_lower_simps
      if_built_def NOT_APPROVED_STATUS_def)

definition reg_hash_to_curve_p256 :: "bool \<Rightarrow> entry" where
  \<open>reg_hash_to_curve_p256 ao =
     \<lparr>entry_id = ''hash-to-curve-p256'',
     entry_name = ''Hash to P-256 (P256_XMD:SHA-256_SSWU_RO_)'',
     aliases = [''p256-xmd-sha256-sswu-ro'', ''hash-to-curve''],
     summary = ''RFC 9380's hash onto P-256: a point no one knows the discrete logarithm of, from any message.'',
     entry_class = Class_HashToCurve,
     family = ''hash-to-curve'',
     purposes = [Purpose_KeyEstablishment],
     entry_strength = (strength_classical_only 128),
     fips = FipsStatus_NotApproved,
     status = (NOT_APPROVED_STATUS ao),
     standards = [''RFC 9380''],
     params = NO_PARAMS,
     constraints = [],
     edges = [\<lparr>relation = Relation_BuiltOn, target = ''sha2-256''\<rparr>],
     entry_performance = Performance_Fast,
     rust_path = (if_built ao ''ic_ec::hash_to_curve''),
     example = (if_built ao ''let point = ic_ec::hash_to_curve::hash_to_curve(msg, b"MYAPP-V1-P256_XMD:SHA-256_SSWU_RO_")?;''),
     entry_notes = ''The building block of the OPRF and of OPAQUE. expand_message_xmd with SHA-256, hash_to_field with 48 bytes per element, and the simplified SWU map, which runs in constant time because the input is usually a password. Every domain separation tag must be unique to its application. Checked stage by stage against RFC 9380 appendix J.1.1 and, for expand_message_xmd, appendix K.1.''\<rparr>\<close>

lemma reg_hash_to_curve_p256_facts [registry_facts]:
  \<open>entry_id (reg_hash_to_curve_p256 ao) = ''hash-to-curve-p256''\<close>
  \<open>entry_name (reg_hash_to_curve_p256 ao) = ''Hash to P-256 (P256_XMD:SHA-256_SSWU_RO_)''\<close>
  \<open>aliases (reg_hash_to_curve_p256 ao) = [''p256-xmd-sha256-sswu-ro'', ''hash-to-curve'']\<close>
  \<open>entry_class (reg_hash_to_curve_p256 ao) = Class_HashToCurve\<close>
  \<open>purposes (reg_hash_to_curve_p256 ao) = [Purpose_KeyEstablishment]\<close>
  \<open>classical (entry_strength (reg_hash_to_curve_p256 ao)) = 128\<close>
  \<open>quantum (entry_strength (reg_hash_to_curve_p256 ao)) = 0\<close>
  \<open>fips (reg_hash_to_curve_p256 ao) = FipsStatus_NotApproved\<close>
  \<open>status (reg_hash_to_curve_p256 ao) = (NOT_APPROVED_STATUS ao)\<close>
  \<open>map target (edges (reg_hash_to_curve_p256 ao)) = [''sha2-256'']\<close>
  \<open>map constraint_id (constraints (reg_hash_to_curve_p256 ao)) = []\<close>
  \<open>entry_keys (reg_hash_to_curve_p256 ao) = [''hash-to-curve-p256'', ''hash to p-256 (p256_xmd:sha-256_sswu_ro_)'', ''p256-xmd-sha256-sswu-ro'', ''hash-to-curve'']\<close>
  \<open>(rust_path (reg_hash_to_curve_p256 ao) = []) = ao\<close>
  \<open>(example (reg_hash_to_curve_p256 ao) = []) = ao\<close>
  by (simp_all add: reg_hash_to_curve_p256_def registry_facts entry_keys_def ascii_lower_simps
      if_built_def NOT_APPROVED_STATUS_def)

definition reg_oprf_p256_sha256 :: "bool \<Rightarrow> entry" where
  \<open>reg_oprf_p256_sha256 ao =
     \<lparr>entry_id = ''oprf-p256-sha256'',
     entry_name = ''OPRF, VOPRF and POPRF with P-256 and SHA-256'',
     aliases = [''oprf'', ''voprf'', ''poprf'', ''rfc9497''],
     summary = ''A keyed function a client evaluates with a server's help, neither learning the other's secret: the core of OPAQUE and of password hardening services.'',
     entry_class = Class_Oprf,
     family = ''OPRF'',
     purposes = [Purpose_KeyDerivation, Purpose_PasswordHashing],
     entry_strength = (strength_classical_only 128),
     fips = FipsStatus_NotApproved,
     status = (NOT_APPROVED_STATUS ao),
     standards = [''RFC 9497'', ''RFC 9380''],
     params = NO_PARAMS,
     constraints = [\<lparr>constraint_id = ''oprf-verify-in-verifiable-modes'', requirement = ''Use the VOPRF or POPRF mode, and pin the server's public key, where a client must know which key evaluated its input.'', consequence = ''In the base OPRF mode a server can use a different key per client and link or partition them, and the client cannot tell.'', severity = Severity_Advisory\<rparr>],
     edges = [\<lparr>relation = Relation_BuiltOn, target = ''hash-to-curve-p256''\<rparr>, \<lparr>relation = Relation_BuiltOn, target = ''sha2-256''\<rparr>],
     entry_performance = Performance_Moderate,
     rust_path = (if_built ao ''ic_ec::oprf''),
     example = (if_built ao (''let (state, blinded) = ic_ec::oprf::blind(ic_ec::oprf::Mode::Oprf, input, b"", None, &mut rng)?;'' @ [CHR 0x0A] @ ''let (evaluated, _) = server.blind_evaluate(&blinded, b"", &mut rng)?;'' @ [CHR 0x0A] @ ''let output = ic_ec::oprf::finalize(input, b"", &state, &blinded, &evaluated, None)?;'')),
     entry_notes = ''All three of RFC 9497's modes, with batching and the batched DLEQ proof. The POPRF's public info is how a pepper service tweaks its key per user or per epoch. Elements are validated on receipt: compressed, on the curve, never the identity. Checked against every P256-SHA256 vector in RFC 9497 appendix A.3: derived keys, blinded and evaluated elements, proofs, outputs.''\<rparr>\<close>

lemma reg_oprf_p256_sha256_facts [registry_facts]:
  \<open>entry_id (reg_oprf_p256_sha256 ao) = ''oprf-p256-sha256''\<close>
  \<open>entry_name (reg_oprf_p256_sha256 ao) = ''OPRF, VOPRF and POPRF with P-256 and SHA-256''\<close>
  \<open>aliases (reg_oprf_p256_sha256 ao) = [''oprf'', ''voprf'', ''poprf'', ''rfc9497'']\<close>
  \<open>entry_class (reg_oprf_p256_sha256 ao) = Class_Oprf\<close>
  \<open>purposes (reg_oprf_p256_sha256 ao) = [Purpose_KeyDerivation, Purpose_PasswordHashing]\<close>
  \<open>classical (entry_strength (reg_oprf_p256_sha256 ao)) = 128\<close>
  \<open>quantum (entry_strength (reg_oprf_p256_sha256 ao)) = 0\<close>
  \<open>fips (reg_oprf_p256_sha256 ao) = FipsStatus_NotApproved\<close>
  \<open>status (reg_oprf_p256_sha256 ao) = (NOT_APPROVED_STATUS ao)\<close>
  \<open>map target (edges (reg_oprf_p256_sha256 ao)) = [''hash-to-curve-p256'', ''sha2-256'']\<close>
  \<open>map constraint_id (constraints (reg_oprf_p256_sha256 ao)) = [''oprf-verify-in-verifiable-modes'']\<close>
  \<open>entry_keys (reg_oprf_p256_sha256 ao) = [''oprf-p256-sha256'', ''oprf, voprf and poprf with p-256 and sha-256'', ''oprf'', ''voprf'', ''poprf'', ''rfc9497'']\<close>
  \<open>(rust_path (reg_oprf_p256_sha256 ao) = []) = ao\<close>
  \<open>(example (reg_oprf_p256_sha256 ao) = []) = ao\<close>
  by (simp_all add: reg_oprf_p256_sha256_def registry_facts entry_keys_def ascii_lower_simps
      if_built_def NOT_APPROVED_STATUS_def)

definition reg_opaque_3dh_p256 :: "bool \<Rightarrow> entry" where
  \<open>reg_opaque_3dh_p256 ao =
     \<lparr>entry_id = ''opaque-3dh-p256'',
     entry_name = ''OPAQUE-3DH with P-256 and SHA-256'',
     aliases = [''opaque'', ''rfc9807'', ''apake''],
     summary = ''Password authentication in which the server never sees the password, and a stolen database cannot be attacked without the server's key.'',
     entry_class = Class_Pake,
     family = ''OPAQUE'',
     purposes = [Purpose_Authentication, Purpose_KeyEstablishment, Purpose_PasswordHashing],
     entry_strength = (strength_classical_only 128),
     fips = FipsStatus_NotApproved,
     status = (NOT_APPROVED_STATUS ao),
     standards = [''RFC 9807'', ''RFC 9497''],
     params = NO_PARAMS,
     constraints = [\<lparr>constraint_id = ''opaque-real-ksf'', requirement = ''Use Argon2idKsf or ScryptKsf, never IdentityKsf, outside tests.'', consequence = ''Without a key stretching function, someone holding the server's OPRF seed and a record guesses passwords at the speed of SHA-256.'', severity = Severity_Critical\<rparr>, \<lparr>constraint_id = ''opaque-fake-records'', requirement = ''Answer a login for an unknown credential identifier from a ServerSetup::fake_record kept for that identifier.'', consequence = ''Otherwise the response shows which identifiers are registered.'', severity = Severity_Serious\<rparr>],
     edges = [\<lparr>relation = Relation_BuiltOn, target = ''oprf-p256-sha256''\<rparr>, \<lparr>relation = Relation_BuiltOn, target = ''hkdf-sha2-256''\<rparr>, \<lparr>relation = Relation_PairsWith, target = ''argon2id''\<rparr>],
     entry_performance = Performance_Moderate,
     rust_path = (if_built ao ''ic_hpke::opaque''),
     example = (if_built ao (''let (client, ke1) = ic_hpke::opaque::login_start(password, &mut rng)?;'' @ [CHR 0x0A] @ ''let (pending, ke2) = server.login_respond(&record, id, &ke1, None, None, context, &mut rng)?;'' @ [CHR 0x0A] @ ''let (ke3, session_key, export_key) = client.finish(&ksf, password, &ke2, None, None, context)?;'' @ [CHR 0x0A] @ ''let server_key = pending.finish(&ke3)?;'')),
     entry_notes = ''RFC 9807's OPAQUE-3DH over P-256 with HKDF, HMAC and SHA-256, the second of its recommended configurations; the key stretching function is the caller's: Argon2idKsf (RFC 9807's parameters, 2 GiB, as RECOMMENDED) or ScryptKsf. Registration stores a 129-byte record per client; a login is three messages and leaves both sides a session key and the client an export key. Checked byte for byte against RFC 9807 appendices C.1.5, C.1.6 and C.2.3, every message and key.''\<rparr>\<close>

lemma reg_opaque_3dh_p256_facts [registry_facts]:
  \<open>entry_id (reg_opaque_3dh_p256 ao) = ''opaque-3dh-p256''\<close>
  \<open>entry_name (reg_opaque_3dh_p256 ao) = ''OPAQUE-3DH with P-256 and SHA-256''\<close>
  \<open>aliases (reg_opaque_3dh_p256 ao) = [''opaque'', ''rfc9807'', ''apake'']\<close>
  \<open>entry_class (reg_opaque_3dh_p256 ao) = Class_Pake\<close>
  \<open>purposes (reg_opaque_3dh_p256 ao) = [Purpose_Authentication, Purpose_KeyEstablishment, Purpose_PasswordHashing]\<close>
  \<open>classical (entry_strength (reg_opaque_3dh_p256 ao)) = 128\<close>
  \<open>quantum (entry_strength (reg_opaque_3dh_p256 ao)) = 0\<close>
  \<open>fips (reg_opaque_3dh_p256 ao) = FipsStatus_NotApproved\<close>
  \<open>status (reg_opaque_3dh_p256 ao) = (NOT_APPROVED_STATUS ao)\<close>
  \<open>map target (edges (reg_opaque_3dh_p256 ao)) = [''oprf-p256-sha256'', ''hkdf-sha2-256'', ''argon2id'']\<close>
  \<open>map constraint_id (constraints (reg_opaque_3dh_p256 ao)) = [''opaque-real-ksf'', ''opaque-fake-records'']\<close>
  \<open>entry_keys (reg_opaque_3dh_p256 ao) = [''opaque-3dh-p256'', ''opaque-3dh with p-256 and sha-256'', ''opaque'', ''rfc9807'', ''apake'']\<close>
  \<open>(rust_path (reg_opaque_3dh_p256 ao) = []) = ao\<close>
  \<open>(example (reg_opaque_3dh_p256 ao) = []) = ao\<close>
  by (simp_all add: reg_opaque_3dh_p256_def registry_facts entry_keys_def ascii_lower_simps
      if_built_def NOT_APPROVED_STATUS_def)

definition reg_blake2s :: "bool \<Rightarrow> entry" where
  \<open>reg_blake2s ao =
     \<lparr>entry_id = ''blake2s'',
     entry_name = ''BLAKE2s'',
     aliases = [''blake2s-256''],
     summary = ''BLAKE2 for 32-bit platforms, with a built-in keyed mode; what WireGuard and Noise use.'',
     entry_class = Class_Hash,
     family = ''BLAKE2'',
     purposes = [Purpose_Integrity, Purpose_Authentication],
     entry_strength = (strength_symmetric 128),
     fips = FipsStatus_NotApproved,
     status = (NOT_APPROVED_STATUS ao),
     standards = [''RFC 7693''],
     params = NO_PARAMS,
     constraints = [NOT_FOR_PASSWORDS],
     edges = [\<lparr>relation = Relation_PairsWith, target = ''blake2b''\<rparr>],
     entry_performance = Performance_Fast,
     rust_path = (if_built ao ''ic_hash::Blake2s''),
     example = (if_built ao (''let mut out = [0u8; 32];'' @ [CHR 0x0A] @ ''ic_hash::Blake2s::hash(b"message", &mut out)?;'')),
     entry_notes = ''BLAKE2b's 32-bit sibling: outputs of 1 to 32 bytes and keys up to 32, both bound into the hash, so a short output is not a prefix of a long one. For interoperating with a protocol that names it; otherwise BLAKE2b or SHA-256 with hardware support. Checked against the BLAKE2 team's 256 keyed vectors and RFC 7693's BLAKE2s vector and Appendix E self-test.''\<rparr>\<close>

lemma reg_blake2s_facts [registry_facts]:
  \<open>entry_id (reg_blake2s ao) = ''blake2s''\<close>
  \<open>entry_name (reg_blake2s ao) = ''BLAKE2s''\<close>
  \<open>aliases (reg_blake2s ao) = [''blake2s-256'']\<close>
  \<open>entry_class (reg_blake2s ao) = Class_Hash\<close>
  \<open>purposes (reg_blake2s ao) = [Purpose_Integrity, Purpose_Authentication]\<close>
  \<open>classical (entry_strength (reg_blake2s ao)) = 128\<close>
  \<open>quantum (entry_strength (reg_blake2s ao)) = 64\<close>
  \<open>fips (reg_blake2s ao) = FipsStatus_NotApproved\<close>
  \<open>status (reg_blake2s ao) = (NOT_APPROVED_STATUS ao)\<close>
  \<open>map target (edges (reg_blake2s ao)) = [''blake2b'']\<close>
  \<open>map constraint_id (constraints (reg_blake2s ao)) = [''not-for-passwords'']\<close>
  \<open>entry_keys (reg_blake2s ao) = [''blake2s'', ''blake2s'', ''blake2s-256'']\<close>
  \<open>(rust_path (reg_blake2s ao) = []) = ao\<close>
  \<open>(example (reg_blake2s ao) = []) = ao\<close>
  by (simp_all add: reg_blake2s_def registry_facts entry_keys_def ascii_lower_simps
      if_built_def NOT_APPROVED_STATUS_def)

definition reg_blake3 :: "bool \<Rightarrow> entry" where
  \<open>reg_blake3 ao =
     \<lparr>entry_id = ''blake3'',
     entry_name = ''BLAKE3'',
     aliases = [],
     summary = ''A tree hash with a keyed mode, a key derivation function and an extendable output.'',
     entry_class = Class_Hash,
     family = ''BLAKE3'',
     purposes = [Purpose_Integrity, Purpose_Authentication, Purpose_Commitment],
     entry_strength = (strength_symmetric 128),
     fips = FipsStatus_NotApproved,
     status = (NOT_APPROVED_STATUS ao),
     standards = [''BLAKE3 2020''],
     params = NO_PARAMS,
     constraints = [NOT_FOR_PASSWORDS],
     edges = [\<lparr>relation = Relation_BuiltOn, target = ''blake2s''\<rparr>, \<lparr>relation = Relation_PairsWith, target = ''blake2b''\<rparr>],
     entry_performance = Performance_Fast,
     rust_path = (if_built ao ''ic_hash::Blake3''),
     example = (if_built ao ''let digest = ic_hash::Blake3::hash(b"message")?;''),
     entry_notes = ''Blake3::hash, keyed_hash with a 32-byte key, and derive_key under a hard-coded context string, each with an extendable output through finalize_xof. This is the portable serial form, transcribed from the authors' reference implementation: the same tree as the SIMD and multi-threaded implementations, without their speed on large inputs. No standards body specifies it and it is not approved; under a FIPS policy use SHA-2 or SHA-3. Checked against the BLAKE3 team's vectors, 35 input lengths to 100 KiB in all three modes to 131 bytes of output.''\<rparr>\<close>

lemma reg_blake3_facts [registry_facts]:
  \<open>entry_id (reg_blake3 ao) = ''blake3''\<close>
  \<open>entry_name (reg_blake3 ao) = ''BLAKE3''\<close>
  \<open>aliases (reg_blake3 ao) = []\<close>
  \<open>entry_class (reg_blake3 ao) = Class_Hash\<close>
  \<open>purposes (reg_blake3 ao) = [Purpose_Integrity, Purpose_Authentication, Purpose_Commitment]\<close>
  \<open>classical (entry_strength (reg_blake3 ao)) = 128\<close>
  \<open>quantum (entry_strength (reg_blake3 ao)) = 64\<close>
  \<open>fips (reg_blake3 ao) = FipsStatus_NotApproved\<close>
  \<open>status (reg_blake3 ao) = (NOT_APPROVED_STATUS ao)\<close>
  \<open>map target (edges (reg_blake3 ao)) = [''blake2s'', ''blake2b'']\<close>
  \<open>map constraint_id (constraints (reg_blake3 ao)) = [''not-for-passwords'']\<close>
  \<open>entry_keys (reg_blake3 ao) = [''blake3'', ''blake3'']\<close>
  \<open>(rust_path (reg_blake3 ao) = []) = ao\<close>
  \<open>(example (reg_blake3 ao) = []) = ao\<close>
  by (simp_all add: reg_blake3_def registry_facts entry_keys_def ascii_lower_simps
      if_built_def NOT_APPROVED_STATUS_def)

definition reg_hmac_drbg_sha2_256 :: "entry" where
  \<open>reg_hmac_drbg_sha2_256 =
     \<lparr>entry_id = ''hmac-drbg-sha2-256'',
     entry_name = ''HMAC_DRBG (SHA-256)'',
     aliases = [''hmac-drbg''],
     summary = ''The default random bit generator; conditions its own entropy input.'',
     entry_class = Class_Drbg,
     family = ''SP 800-90A'',
     purposes = [Purpose_RandomGeneration],
     entry_strength = (strength_symmetric 256),
     fips = FipsStatus_Approved,
     status = ImplStatus_Available,
     standards = [''SP 800-90A''],
     params = NO_PARAMS,
     constraints = [RESEED_INTERVAL],
     edges = [\<lparr>relation = Relation_BuiltOn, target = ''hmac-sha2-256''\<rparr>],
     entry_performance = Performance_Fast,
     rust_path = ''ic_drbg::HmacDrbgSha256'',
     example = (''let mut rng = ic_drbg::Rng::from_os()?;'' @ [CHR 0x0A] @ ''let key: [u8; 32] = rng.random_array()?;''),
     entry_notes = ''Prefer `ic_drbg::Rng`, which seeds this from the OS and reseeds on schedule.''\<rparr>\<close>

lemma reg_hmac_drbg_sha2_256_facts [registry_facts]:
  \<open>entry_id reg_hmac_drbg_sha2_256 = ''hmac-drbg-sha2-256''\<close>
  \<open>entry_name reg_hmac_drbg_sha2_256 = ''HMAC_DRBG (SHA-256)''\<close>
  \<open>aliases reg_hmac_drbg_sha2_256 = [''hmac-drbg'']\<close>
  \<open>entry_class reg_hmac_drbg_sha2_256 = Class_Drbg\<close>
  \<open>purposes reg_hmac_drbg_sha2_256 = [Purpose_RandomGeneration]\<close>
  \<open>classical (entry_strength reg_hmac_drbg_sha2_256) = 256\<close>
  \<open>quantum (entry_strength reg_hmac_drbg_sha2_256) = 128\<close>
  \<open>fips reg_hmac_drbg_sha2_256 = FipsStatus_Approved\<close>
  \<open>status reg_hmac_drbg_sha2_256 = ImplStatus_Available\<close>
  \<open>map target (edges reg_hmac_drbg_sha2_256) = [''hmac-sha2-256'']\<close>
  \<open>map constraint_id (constraints reg_hmac_drbg_sha2_256) = [''observe-reseed-interval'']\<close>
  \<open>entry_keys reg_hmac_drbg_sha2_256 = [''hmac-drbg-sha2-256'', ''hmac_drbg (sha-256)'', ''hmac-drbg'']\<close>
  \<open>rust_path reg_hmac_drbg_sha2_256 \<noteq> []\<close>
  \<open>example reg_hmac_drbg_sha2_256 \<noteq> []\<close>
  by (simp_all add: reg_hmac_drbg_sha2_256_def registry_facts entry_keys_def ascii_lower_simps
      if_built_def NOT_APPROVED_STATUS_def)

definition reg_hmac_drbg_sha2_512 :: "entry" where
  \<open>reg_hmac_drbg_sha2_512 =
     \<lparr>entry_id = ''hmac-drbg-sha2-512'',
     entry_name = ''HMAC_DRBG (SHA-512)'',
     aliases = [],
     summary = ''HMAC_DRBG instantiated with SHA-512.'',
     entry_class = Class_Drbg,
     family = ''SP 800-90A'',
     purposes = [Purpose_RandomGeneration],
     entry_strength = (strength_symmetric 256),
     fips = FipsStatus_Approved,
     status = ImplStatus_Available,
     standards = [''SP 800-90A''],
     params = NO_PARAMS,
     constraints = [RESEED_INTERVAL],
     edges = [\<lparr>relation = Relation_BuiltOn, target = ''hmac-sha2-512''\<rparr>],
     entry_performance = Performance_Fast,
     rust_path = ''ic_drbg::HmacDrbgSha512'',
     example = (''use ic_core::traits::Drbg;'' @ [CHR 0x0A] @ ''let mut d = ic_drbg::HmacDrbgSha512::instantiate(entropy, nonce, b"app")?;''),
     entry_notes = []\<rparr>\<close>

lemma reg_hmac_drbg_sha2_512_facts [registry_facts]:
  \<open>entry_id reg_hmac_drbg_sha2_512 = ''hmac-drbg-sha2-512''\<close>
  \<open>entry_name reg_hmac_drbg_sha2_512 = ''HMAC_DRBG (SHA-512)''\<close>
  \<open>aliases reg_hmac_drbg_sha2_512 = []\<close>
  \<open>entry_class reg_hmac_drbg_sha2_512 = Class_Drbg\<close>
  \<open>purposes reg_hmac_drbg_sha2_512 = [Purpose_RandomGeneration]\<close>
  \<open>classical (entry_strength reg_hmac_drbg_sha2_512) = 256\<close>
  \<open>quantum (entry_strength reg_hmac_drbg_sha2_512) = 128\<close>
  \<open>fips reg_hmac_drbg_sha2_512 = FipsStatus_Approved\<close>
  \<open>status reg_hmac_drbg_sha2_512 = ImplStatus_Available\<close>
  \<open>map target (edges reg_hmac_drbg_sha2_512) = [''hmac-sha2-512'']\<close>
  \<open>map constraint_id (constraints reg_hmac_drbg_sha2_512) = [''observe-reseed-interval'']\<close>
  \<open>entry_keys reg_hmac_drbg_sha2_512 = [''hmac-drbg-sha2-512'', ''hmac_drbg (sha-512)'']\<close>
  \<open>rust_path reg_hmac_drbg_sha2_512 \<noteq> []\<close>
  \<open>example reg_hmac_drbg_sha2_512 \<noteq> []\<close>
  by (simp_all add: reg_hmac_drbg_sha2_512_def registry_facts entry_keys_def ascii_lower_simps
      if_built_def NOT_APPROVED_STATUS_def)

definition reg_ctr_drbg_aes_256 :: "entry" where
  \<open>reg_ctr_drbg_aes_256 =
     \<lparr>entry_id = ''ctr-drbg-aes-256'',
     entry_name = ''CTR_DRBG (AES-256, no df)'',
     aliases = [''ctr-drbg''],
     summary = ''Block-cipher DRBG, for systems whose entropy source is already conditioned.'',
     entry_class = Class_Drbg,
     family = ''SP 800-90A'',
     purposes = [Purpose_RandomGeneration],
     entry_strength = (strength_symmetric 256),
     fips = FipsStatus_Approved,
     status = ImplStatus_Available,
     standards = [''SP 800-90A''],
     params = [\<lparr>param_name = ''entropy'', param_unit = Unit_Bytes, param_min = 48, param_max = 48, param_recommended = 48, param_note = ''Without a derivation function the seed must be exactly key+block bytes of full-entropy input.''\<rparr>],
     constraints = [RESEED_INTERVAL],
     edges = [\<lparr>relation = Relation_BuiltOn, target = ''aes-256''\<rparr>],
     entry_performance = Performance_Slow,
     rust_path = ''ic_drbg::CtrDrbg'',
     example = (''use ic_core::traits::Drbg;'' @ [CHR 0x0A] @ ''let mut d = ic_drbg::CtrDrbg::instantiate(&seed48, &[], &[])?;''),
     entry_notes = ''If the entropy is not already uniform, use HMAC_DRBG instead; it conditions its input.''\<rparr>\<close>

lemma reg_ctr_drbg_aes_256_facts [registry_facts]:
  \<open>entry_id reg_ctr_drbg_aes_256 = ''ctr-drbg-aes-256''\<close>
  \<open>entry_name reg_ctr_drbg_aes_256 = ''CTR_DRBG (AES-256, no df)''\<close>
  \<open>aliases reg_ctr_drbg_aes_256 = [''ctr-drbg'']\<close>
  \<open>entry_class reg_ctr_drbg_aes_256 = Class_Drbg\<close>
  \<open>purposes reg_ctr_drbg_aes_256 = [Purpose_RandomGeneration]\<close>
  \<open>classical (entry_strength reg_ctr_drbg_aes_256) = 256\<close>
  \<open>quantum (entry_strength reg_ctr_drbg_aes_256) = 128\<close>
  \<open>fips reg_ctr_drbg_aes_256 = FipsStatus_Approved\<close>
  \<open>status reg_ctr_drbg_aes_256 = ImplStatus_Available\<close>
  \<open>map target (edges reg_ctr_drbg_aes_256) = [''aes-256'']\<close>
  \<open>map constraint_id (constraints reg_ctr_drbg_aes_256) = [''observe-reseed-interval'']\<close>
  \<open>entry_keys reg_ctr_drbg_aes_256 = [''ctr-drbg-aes-256'', ''ctr_drbg (aes-256, no df)'', ''ctr-drbg'']\<close>
  \<open>rust_path reg_ctr_drbg_aes_256 \<noteq> []\<close>
  \<open>example reg_ctr_drbg_aes_256 \<noteq> []\<close>
  by (simp_all add: reg_ctr_drbg_aes_256_def registry_facts entry_keys_def ascii_lower_simps
      if_built_def NOT_APPROVED_STATUS_def)

end
