(* ===== verification/Registry_PublicKey.thy ===== *)
theory Registry_PublicKey
  imports Registry_Consts
begin

text \<open>
  Entries of \<open>REGISTRY\<close> in \<open>crates/ic-ontology/src/registry.rs\<close>, lines 2659 onward:
  key establishment, secret sharing and the first signatures.
  After each entry stand the fields a selection reads.
\<close>

definition reg_x25519 :: "bool \<Rightarrow> entry" where
  \<open>reg_x25519 ao =
     \<lparr>entry_id = ''x25519'',
     entry_name = ''X25519'',
     aliases = [''curve25519'', ''ecdh-x25519''],
     summary = ''Diffie-Hellman on Curve25519; fast, misuse-resistant, not FIPS-approved.'',
     entry_class = Class_KeyAgreement,
     family = ''Curve25519'',
     purposes = [Purpose_KeyEstablishment],
     entry_strength = (strength_classical_only 128),
     fips = FipsStatus_NotApproved,
     status = (NOT_APPROVED_STATUS ao),
     standards = [''RFC 7748''],
     params = X25519_P,
     constraints = [VALIDATE_PEER_KEY, HASH_TRANSCRIPT],
     edges = [\<lparr>relation = Relation_PairsWith, target = ''hkdf-sha2-256''\<rparr>],
     entry_performance = Performance_Moderate,
     rust_path = (if_built ao ''ic_ec::X25519''),
     example = (if_built ao (''use ic_core::traits::KeyAgreement;'' @ [CHR 0x0A] @ ''ic_ec::X25519::agree(&my_sk, &peer_pk, &mut shared)?;'')),
     entry_notes = ''Shor breaks this outright; pair it with ML-KEM in a hybrid once that lands.''\<rparr>\<close>

lemma reg_x25519_facts [registry_facts]:
  \<open>entry_id (reg_x25519 ao) = ''x25519''\<close>
  \<open>entry_name (reg_x25519 ao) = ''X25519''\<close>
  \<open>aliases (reg_x25519 ao) = [''curve25519'', ''ecdh-x25519'']\<close>
  \<open>entry_class (reg_x25519 ao) = Class_KeyAgreement\<close>
  \<open>purposes (reg_x25519 ao) = [Purpose_KeyEstablishment]\<close>
  \<open>classical (entry_strength (reg_x25519 ao)) = 128\<close>
  \<open>quantum (entry_strength (reg_x25519 ao)) = 0\<close>
  \<open>fips (reg_x25519 ao) = FipsStatus_NotApproved\<close>
  \<open>status (reg_x25519 ao) = (NOT_APPROVED_STATUS ao)\<close>
  \<open>map target (edges (reg_x25519 ao)) = [''hkdf-sha2-256'']\<close>
  \<open>map constraint_id (constraints (reg_x25519 ao)) = [''validate-peer-public-key'', ''bind-shared-secret-to-transcript'']\<close>
  \<open>entry_keys (reg_x25519 ao) = [''x25519'', ''x25519'', ''curve25519'', ''ecdh-x25519'']\<close>
  \<open>(rust_path (reg_x25519 ao) = []) = ao\<close>
  \<open>(example (reg_x25519 ao) = []) = ao\<close>
  by (simp_all add: reg_x25519_def registry_facts entry_keys_def ascii_lower_simps
      if_built_def NOT_APPROVED_STATUS_def)

definition reg_shamir_gf256 :: "bool \<Rightarrow> entry" where
  \<open>reg_shamir_gf256 ao =
     \<lparr>entry_id = ''shamir-gf256'',
     entry_name = ''Shamir secret sharing over GF(2^8)'',
     aliases = [''shamir'', ''sss''],
     summary = ''Split a secret into n shares, any k of which recover it and any fewer of which reveal nothing. For backing up a key.'',
     entry_class = Class_SecretSharing,
     family = ''Shamir'',
     purposes = [Purpose_Confidentiality],
     entry_strength = \<lparr>classical = 256, quantum = 256\<rparr>,
     fips = FipsStatus_NotApproved,
     status = (NOT_APPROVED_STATUS ao),
     standards = [''Shamir 1979''],
     params = SHAMIR_P,
     constraints = [\<lparr>constraint_id = ''shamir-shares-have-no-integrity'', requirement = ''Split a random key, not data, and protect the data with an AEAD under that key.'', consequence = ''A corrupted share or too few shares recover a wrong secret silently; only an authenticated use of the key detects it.'', severity = Severity_Serious\<rparr>, \<lparr>constraint_id = ''shamir-fresh-randomness'', requirement = ''Split with a cryptographic random source, a fresh draw per split.'', consequence = ''Predictable coefficients let fewer than threshold shares recover the secret.'', severity = Severity_Critical\<rparr>],
     edges = [],
     entry_performance = Performance_Fast,
     rust_path = (if_built ao ''ic_cipher::shamir::Shamir''),
     example = (if_built ao ''ic_cipher::shamir::split(&key, 3, 5, &mut rng, &mut shares)?;''),
     entry_notes = ''Information-theoretically secret below the threshold, so its strength is not a key length: an attacker with fewer shares learns nothing at any computational cost. Indices and the threshold travel with each share in the caller's format.''\<rparr>\<close>

lemma reg_shamir_gf256_facts [registry_facts]:
  \<open>entry_id (reg_shamir_gf256 ao) = ''shamir-gf256''\<close>
  \<open>entry_name (reg_shamir_gf256 ao) = ''Shamir secret sharing over GF(2^8)''\<close>
  \<open>aliases (reg_shamir_gf256 ao) = [''shamir'', ''sss'']\<close>
  \<open>entry_class (reg_shamir_gf256 ao) = Class_SecretSharing\<close>
  \<open>purposes (reg_shamir_gf256 ao) = [Purpose_Confidentiality]\<close>
  \<open>classical (entry_strength (reg_shamir_gf256 ao)) = 256\<close>
  \<open>quantum (entry_strength (reg_shamir_gf256 ao)) = 256\<close>
  \<open>fips (reg_shamir_gf256 ao) = FipsStatus_NotApproved\<close>
  \<open>status (reg_shamir_gf256 ao) = (NOT_APPROVED_STATUS ao)\<close>
  \<open>map target (edges (reg_shamir_gf256 ao)) = []\<close>
  \<open>map constraint_id (constraints (reg_shamir_gf256 ao)) = [''shamir-shares-have-no-integrity'', ''shamir-fresh-randomness'']\<close>
  \<open>entry_keys (reg_shamir_gf256 ao) = [''shamir-gf256'', ''shamir secret sharing over gf(2^8)'', ''shamir'', ''sss'']\<close>
  \<open>(rust_path (reg_shamir_gf256 ao) = []) = ao\<close>
  \<open>(example (reg_shamir_gf256 ao) = []) = ao\<close>
  by (simp_all add: reg_shamir_gf256_def registry_facts entry_keys_def ascii_lower_simps
      if_built_def NOT_APPROVED_STATUS_def)

definition reg_hpke_x25519_sha256 :: "bool \<Rightarrow> entry" where
  \<open>reg_hpke_x25519_sha256 ao =
     \<lparr>entry_id = ''hpke-x25519-sha256'',
     entry_name = ''HPKE, DHKEM(X25519, HKDF-SHA256)'',
     aliases = [''hpke'', ''rfc9180''],
     summary = ''Encryption to a public key: X25519, HKDF-SHA256 and an AEAD, in RFC 9180's base mode. What Encrypted Client Hello and MLS use.'',
     entry_class = Class_Kem,
     family = ''HPKE'',
     purposes = [Purpose_Confidentiality, Purpose_KeyEstablishment],
     entry_strength = (strength_classical_only 128),
     fips = FipsStatus_NotApproved,
     status = (NOT_APPROVED_STATUS ao),
     standards = [''RFC 9180''],
     params = HPKE_P,
     constraints = [\<lparr>constraint_id = ''hpke-base-mode-is-unauthenticated'', requirement = ''Authenticate the sender by other means; base mode proves nothing about who encrypted.'', consequence = ''Anyone holding the recipient's public key can produce messages the recipient will open.'', severity = Severity_Serious\<rparr>, \<lparr>constraint_id = ''hpke-fresh-ephemeral'', requirement = ''Use setup_sender, which draws a fresh ephemeral key, outside test vectors; never reuse the key passed to setup_sender_with_ephemeral.'', consequence = ''Two setups with one ephemeral key to one recipient and the same info derive the same AEAD key and nonces.'', severity = Severity_Critical\<rparr>, \<lparr>constraint_id = ''hpke-bind-info'', requirement = ''Put the application and protocol context in info, and use the same info on both sides.'', consequence = ''A ciphertext made for one purpose opens under another that shares the recipient key.'', severity = Severity_Advisory\<rparr>],
     edges = [\<lparr>relation = Relation_BuiltOn, target = ''x25519''\<rparr>, \<lparr>relation = Relation_BuiltOn, target = ''hkdf-sha2-256''\<rparr>, \<lparr>relation = Relation_BuiltOn, target = ''aes-128-gcm''\<rparr>, \<lparr>relation = Relation_BuiltOn, target = ''aes-256-gcm''\<rparr>, \<lparr>relation = Relation_BuiltOn, target = ''chacha20-poly1305''\<rparr>],
     entry_performance = Performance_Moderate,
     rust_path = (if_built ao ''ic_hpke::Hpke''),
     example = (if_built ao (''let (enc, mut tx) = ic_hpke::setup_sender(&recipient_pk, b"app/v1", ic_hpke::Aead::Aes128Gcm, &mut rng)?;'' @ [CHR 0x0A] @ ''tx.seal_in_place(b"aad", &mut msg, &mut tag)?;'')),
     entry_notes = ''Base mode only: no PSK, auth or auth-PSK modes, and one KEM. Not FIPS-approved, because X25519 is not. Contexts refuse rather than reuse a nonce once the 64-bit sequence number would wrap.''\<rparr>\<close>

lemma reg_hpke_x25519_sha256_facts [registry_facts]:
  \<open>entry_id (reg_hpke_x25519_sha256 ao) = ''hpke-x25519-sha256''\<close>
  \<open>entry_name (reg_hpke_x25519_sha256 ao) = ''HPKE, DHKEM(X25519, HKDF-SHA256)''\<close>
  \<open>aliases (reg_hpke_x25519_sha256 ao) = [''hpke'', ''rfc9180'']\<close>
  \<open>entry_class (reg_hpke_x25519_sha256 ao) = Class_Kem\<close>
  \<open>purposes (reg_hpke_x25519_sha256 ao) = [Purpose_Confidentiality, Purpose_KeyEstablishment]\<close>
  \<open>classical (entry_strength (reg_hpke_x25519_sha256 ao)) = 128\<close>
  \<open>quantum (entry_strength (reg_hpke_x25519_sha256 ao)) = 0\<close>
  \<open>fips (reg_hpke_x25519_sha256 ao) = FipsStatus_NotApproved\<close>
  \<open>status (reg_hpke_x25519_sha256 ao) = (NOT_APPROVED_STATUS ao)\<close>
  \<open>map target (edges (reg_hpke_x25519_sha256 ao)) = [''x25519'', ''hkdf-sha2-256'', ''aes-128-gcm'', ''aes-256-gcm'', ''chacha20-poly1305'']\<close>
  \<open>map constraint_id (constraints (reg_hpke_x25519_sha256 ao)) = [''hpke-base-mode-is-unauthenticated'', ''hpke-fresh-ephemeral'', ''hpke-bind-info'']\<close>
  \<open>entry_keys (reg_hpke_x25519_sha256 ao) = [''hpke-x25519-sha256'', ''hpke, dhkem(x25519, hkdf-sha256)'', ''hpke'', ''rfc9180'']\<close>
  \<open>(rust_path (reg_hpke_x25519_sha256 ao) = []) = ao\<close>
  \<open>(example (reg_hpke_x25519_sha256 ao) = []) = ao\<close>
  by (simp_all add: reg_hpke_x25519_sha256_def registry_facts entry_keys_def ascii_lower_simps
      if_built_def NOT_APPROVED_STATUS_def)

definition reg_hpke_p384_sha384 :: "bool \<Rightarrow> entry" where
  \<open>reg_hpke_p384_sha384 ao =
     \<lparr>entry_id = ''hpke-p384-sha384'',
     entry_name = ''HPKE, DHKEM(P-384, HKDF-SHA384)'',
     aliases = [''hpke-p384'', ''mls-suite-7-hpke''],
     summary = ''Encryption to a public key: P-384 ECDH, HKDF-SHA384 and an AEAD, in RFC 9180's base mode. With AES-256-GCM, the HPKE of MLS cipher suite 7.'',
     entry_class = Class_Kem,
     family = ''HPKE'',
     purposes = [Purpose_Confidentiality, Purpose_KeyEstablishment],
     entry_strength = (strength_classical_only 192),
     fips = FipsStatus_NotApproved,
     status = (NOT_APPROVED_STATUS ao),
     standards = [''RFC 9180'', ''SP 800-56A''],
     params = HPKE_P384_P,
     constraints = [\<lparr>constraint_id = ''hpke-base-mode-is-unauthenticated'', requirement = ''Authenticate the sender by other means; base mode proves nothing about who encrypted.'', consequence = ''Anyone holding the recipient's public key can produce messages the recipient will open.'', severity = Severity_Serious\<rparr>, \<lparr>constraint_id = ''hpke-fresh-ephemeral'', requirement = ''Use setup_sender, which draws a fresh ephemeral key, outside test vectors; never reuse the key passed to setup_sender_with_ephemeral.'', consequence = ''Two setups with one ephemeral key to one recipient and the same info derive the same AEAD key and nonces.'', severity = Severity_Critical\<rparr>, \<lparr>constraint_id = ''hpke-not-a-fips-kdf'', requirement = ''Do not present this suite as FIPS-approved: its primitives are, its key derivation is not SP 800-56C's as written.'', consequence = ''DHKEM extracts from "HPKE-v1" || suite || label || Z rather than Z alone, so a claim of approval rests on an assessor accepting a construction SP 800-56C does not describe.'', severity = Severity_Serious\<rparr>],
     edges = [\<lparr>relation = Relation_BuiltOn, target = ''ecdh-p384''\<rparr>, \<lparr>relation = Relation_BuiltOn, target = ''hkdf-sha2-384''\<rparr>, \<lparr>relation = Relation_BuiltOn, target = ''aes-128-gcm''\<rparr>, \<lparr>relation = Relation_BuiltOn, target = ''aes-256-gcm''\<rparr>, \<lparr>relation = Relation_BuiltOn, target = ''chacha20-poly1305''\<rparr>],
     entry_performance = Performance_Moderate,
     rust_path = (if_built ao ''ic_hpke::p384::HpkeP384''),
     example = (if_built ao (''let (enc, mut tx) = ic_hpke::p384::setup_sender(&recipient_pk, b"app/v1", ic_hpke::Aead::Aes256Gcm, &mut rng)?;'' @ [CHR 0x0A] @ ''tx.seal_in_place(b"aad", &mut msg, &mut tag)?;'')),
     entry_notes = ''Base mode only. Keys and encapsulations are uncompressed points, each checked on the curve. No published HPKE vector uses P-384; this is checked against an independent implementation that reproduces the CFRG's P-256 and P-521 vectors and interoperates with pyca/cryptography's HPKE. Not FIPS-approved: see the hpke-not-a-fips-kdf constraint.''\<rparr>\<close>

lemma reg_hpke_p384_sha384_facts [registry_facts]:
  \<open>entry_id (reg_hpke_p384_sha384 ao) = ''hpke-p384-sha384''\<close>
  \<open>entry_name (reg_hpke_p384_sha384 ao) = ''HPKE, DHKEM(P-384, HKDF-SHA384)''\<close>
  \<open>aliases (reg_hpke_p384_sha384 ao) = [''hpke-p384'', ''mls-suite-7-hpke'']\<close>
  \<open>entry_class (reg_hpke_p384_sha384 ao) = Class_Kem\<close>
  \<open>purposes (reg_hpke_p384_sha384 ao) = [Purpose_Confidentiality, Purpose_KeyEstablishment]\<close>
  \<open>classical (entry_strength (reg_hpke_p384_sha384 ao)) = 192\<close>
  \<open>quantum (entry_strength (reg_hpke_p384_sha384 ao)) = 0\<close>
  \<open>fips (reg_hpke_p384_sha384 ao) = FipsStatus_NotApproved\<close>
  \<open>status (reg_hpke_p384_sha384 ao) = (NOT_APPROVED_STATUS ao)\<close>
  \<open>map target (edges (reg_hpke_p384_sha384 ao)) = [''ecdh-p384'', ''hkdf-sha2-384'', ''aes-128-gcm'', ''aes-256-gcm'', ''chacha20-poly1305'']\<close>
  \<open>map constraint_id (constraints (reg_hpke_p384_sha384 ao)) = [''hpke-base-mode-is-unauthenticated'', ''hpke-fresh-ephemeral'', ''hpke-not-a-fips-kdf'']\<close>
  \<open>entry_keys (reg_hpke_p384_sha384 ao) = [''hpke-p384-sha384'', ''hpke, dhkem(p-384, hkdf-sha384)'', ''hpke-p384'', ''mls-suite-7-hpke'']\<close>
  \<open>(rust_path (reg_hpke_p384_sha384 ao) = []) = ao\<close>
  \<open>(example (reg_hpke_p384_sha384 ao) = []) = ao\<close>
  by (simp_all add: reg_hpke_p384_sha384_def registry_facts entry_keys_def ascii_lower_simps
      if_built_def NOT_APPROVED_STATUS_def)

definition reg_ecdh_p384 :: "entry" where
  \<open>reg_ecdh_p384 =
     \<lparr>entry_id = ''ecdh-p384'',
     entry_name = ''ECDH P-384'',
     aliases = [''ecdh-secp384r1''],
     summary = ''Approved key agreement at 192-bit strength; what CNSA-aligned profiles require.'',
     entry_class = Class_KeyAgreement,
     family = ''NIST P-curves'',
     purposes = [Purpose_KeyEstablishment],
     entry_strength = (strength_classical_only 192),
     fips = FipsStatus_Approved,
     status = ImplStatus_Available,
     standards = [''SP 800-56A'', ''SP 800-186''],
     params = P384_KA_P,
     constraints = [VALIDATE_PEER_KEY, HASH_TRANSCRIPT],
     edges = [\<lparr>relation = Relation_PairsWith, target = ''hkdf-sha2-384''\<rparr>, \<lparr>relation = Relation_Supersedes, target = ''ecdh-p256''\<rparr>],
     entry_performance = Performance_Moderate,
     rust_path = ''ic_ec::p384::EcdhP384'',
     example = (''use ic_core::traits::KeyAgreement;'' @ [CHR 0x0A] @ ''ic_ec::p384::EcdhP384::agree(&my_sk, &peer_pk, &mut shared)?;''),
     entry_notes = ''Roughly three times the work of P-256 for a security level few threat models actually need. Choose it when a profile mandates 192-bit strength, not by default. To agree with one peer key many times, build `ic_ec::p384::PreparedPublicKey` once: it decodes and validates the key and precomputes its multiples at construction, so each agreement does only the scalar multiplication, in about 40 percent of the time. It holds nothing secret and allocates nothing.''\<rparr>\<close>

lemma reg_ecdh_p384_facts [registry_facts]:
  \<open>entry_id reg_ecdh_p384 = ''ecdh-p384''\<close>
  \<open>entry_name reg_ecdh_p384 = ''ECDH P-384''\<close>
  \<open>aliases reg_ecdh_p384 = [''ecdh-secp384r1'']\<close>
  \<open>entry_class reg_ecdh_p384 = Class_KeyAgreement\<close>
  \<open>purposes reg_ecdh_p384 = [Purpose_KeyEstablishment]\<close>
  \<open>classical (entry_strength reg_ecdh_p384) = 192\<close>
  \<open>quantum (entry_strength reg_ecdh_p384) = 0\<close>
  \<open>fips reg_ecdh_p384 = FipsStatus_Approved\<close>
  \<open>status reg_ecdh_p384 = ImplStatus_Available\<close>
  \<open>map target (edges reg_ecdh_p384) = [''hkdf-sha2-384'', ''ecdh-p256'']\<close>
  \<open>map constraint_id (constraints reg_ecdh_p384) = [''validate-peer-public-key'', ''bind-shared-secret-to-transcript'']\<close>
  \<open>entry_keys reg_ecdh_p384 = [''ecdh-p384'', ''ecdh p-384'', ''ecdh-secp384r1'']\<close>
  \<open>rust_path reg_ecdh_p384 \<noteq> []\<close>
  \<open>example reg_ecdh_p384 \<noteq> []\<close>
  by (simp_all add: reg_ecdh_p384_def registry_facts entry_keys_def ascii_lower_simps
      if_built_def NOT_APPROVED_STATUS_def)

definition reg_ecdsa_p384_sha384 :: "entry" where
  \<open>reg_ecdsa_p384_sha384 =
     \<lparr>entry_id = ''ecdsa-p384-sha384'',
     entry_name = ''ECDSA P-384 with SHA-384'',
     aliases = [''ecdsa-secp384r1''],
     summary = ''Approved signatures at 192-bit strength, paired with SHA-384.'',
     entry_class = Class_Signature,
     family = ''NIST P-curves'',
     purposes = [Purpose_Authentication, Purpose_NonRepudiation],
     entry_strength = (strength_classical_only 192),
     fips = FipsStatus_Approved,
     status = ImplStatus_Available,
     standards = [''FIPS 186-5'', ''SP 800-186'', ''RFC 6979''],
     params = P384_SIG_P,
     constraints = [\<lparr>constraint_id = ''unique-signing-nonce'', requirement = ''Generate a fresh random k per signature, or derive it deterministically per RFC 6979.'', consequence = ''A repeated or predictable k reveals the private key from two signatures.'', severity = Severity_Critical\<rparr>, \<lparr>constraint_id = ''ecdsa-is-malleable'', requirement = ''Normalize to low-s, or do not treat a signature as a unique identifier.'', consequence = ''Both (r, s) and (r, n - s) verify, so a signature used as a database key or transaction id can be duplicated.'', severity = Severity_Serious\<rparr>, \<lparr>constraint_id = ''prehash-digest-is-trusted'', requirement = ''When verifying over a digest you computed (verify_prehash), bind which SHA-2 or SHA-3 hash produced it. A digest narrower than the curve's strength is refused.'', consequence = ''verify_prehash can check a digest's width but not which hash produced it; an unbound choice lets a signature over one hash be presented as over another of the same width.'', severity = Severity_Serious\<rparr>],
     edges = [\<lparr>relation = Relation_BuiltOn, target = ''sha2-384''\<rparr>, \<lparr>relation = Relation_PairsWith, target = ''ecdh-p384''\<rparr>, \<lparr>relation = Relation_Supersedes, target = ''ecdsa-p256-sha256''\<rparr>],
     entry_performance = Performance_Moderate,
     rust_path = ''ic_ec::p384::EcdsaP384Sha384'',
     example = (''use ic_core::traits::SignatureScheme;'' @ [CHR 0x0A] @ ''ic_ec::p384::EcdsaP384Sha384::sign(&sk, msg, &mut sig)?;''),
     entry_notes = ''Nonces are derived per RFC 6979, so the unique-signing-nonce constraint is satisfied by construction. Signatures are fixed-width r || s at 96 bytes, not DER.''\<rparr>\<close>

lemma reg_ecdsa_p384_sha384_facts [registry_facts]:
  \<open>entry_id reg_ecdsa_p384_sha384 = ''ecdsa-p384-sha384''\<close>
  \<open>entry_name reg_ecdsa_p384_sha384 = ''ECDSA P-384 with SHA-384''\<close>
  \<open>aliases reg_ecdsa_p384_sha384 = [''ecdsa-secp384r1'']\<close>
  \<open>entry_class reg_ecdsa_p384_sha384 = Class_Signature\<close>
  \<open>purposes reg_ecdsa_p384_sha384 = [Purpose_Authentication, Purpose_NonRepudiation]\<close>
  \<open>classical (entry_strength reg_ecdsa_p384_sha384) = 192\<close>
  \<open>quantum (entry_strength reg_ecdsa_p384_sha384) = 0\<close>
  \<open>fips reg_ecdsa_p384_sha384 = FipsStatus_Approved\<close>
  \<open>status reg_ecdsa_p384_sha384 = ImplStatus_Available\<close>
  \<open>map target (edges reg_ecdsa_p384_sha384) = [''sha2-384'', ''ecdh-p384'', ''ecdsa-p256-sha256'']\<close>
  \<open>map constraint_id (constraints reg_ecdsa_p384_sha384) = [''unique-signing-nonce'', ''ecdsa-is-malleable'', ''prehash-digest-is-trusted'']\<close>
  \<open>entry_keys reg_ecdsa_p384_sha384 = [''ecdsa-p384-sha384'', ''ecdsa p-384 with sha-384'', ''ecdsa-secp384r1'']\<close>
  \<open>rust_path reg_ecdsa_p384_sha384 \<noteq> []\<close>
  \<open>example reg_ecdsa_p384_sha384 \<noteq> []\<close>
  by (simp_all add: reg_ecdsa_p384_sha384_def registry_facts entry_keys_def ascii_lower_simps
      if_built_def NOT_APPROVED_STATUS_def)

definition reg_ecdh_p256 :: "entry" where
  \<open>reg_ecdh_p256 =
     \<lparr>entry_id = ''ecdh-p256'',
     entry_name = ''ECDH P-256'',
     aliases = [''ecdh-secp256r1''],
     summary = ''The FIPS-approved key agreement scheme, and the one TLS uses most.'',
     entry_class = Class_KeyAgreement,
     family = ''NIST P-curves'',
     purposes = [Purpose_KeyEstablishment],
     entry_strength = (strength_classical_only 128),
     fips = FipsStatus_Approved,
     status = ImplStatus_Available,
     standards = [''SP 800-56A'', ''SP 800-186''],
     params = P256_KA_P,
     constraints = [VALIDATE_PEER_KEY, HASH_TRANSCRIPT],
     edges = [\<lparr>relation = Relation_PairsWith, target = ''hkdf-sha2-256''\<rparr>],
     entry_performance = Performance_Moderate,
     rust_path = ''ic_ec::p256::EcdhP256'',
     example = (''use ic_core::traits::KeyAgreement;'' @ [CHR 0x0A] @ ''ic_ec::p256::EcdhP256::agree(&my_sk, &peer_pk, &mut shared)?;''),
     entry_notes = ''Public keys are SEC1; both the 65-byte uncompressed and the 33-byte compressed form are accepted, and a peer key is checked against the curve equation before use. The shared secret is a coordinate, not a key: run it through a KDF. For repeated agreement with one peer key, `ic_ec::p256::PreparedPublicKey` checks and expands the key once.''\<rparr>\<close>

lemma reg_ecdh_p256_facts [registry_facts]:
  \<open>entry_id reg_ecdh_p256 = ''ecdh-p256''\<close>
  \<open>entry_name reg_ecdh_p256 = ''ECDH P-256''\<close>
  \<open>aliases reg_ecdh_p256 = [''ecdh-secp256r1'']\<close>
  \<open>entry_class reg_ecdh_p256 = Class_KeyAgreement\<close>
  \<open>purposes reg_ecdh_p256 = [Purpose_KeyEstablishment]\<close>
  \<open>classical (entry_strength reg_ecdh_p256) = 128\<close>
  \<open>quantum (entry_strength reg_ecdh_p256) = 0\<close>
  \<open>fips reg_ecdh_p256 = FipsStatus_Approved\<close>
  \<open>status reg_ecdh_p256 = ImplStatus_Available\<close>
  \<open>map target (edges reg_ecdh_p256) = [''hkdf-sha2-256'']\<close>
  \<open>map constraint_id (constraints reg_ecdh_p256) = [''validate-peer-public-key'', ''bind-shared-secret-to-transcript'']\<close>
  \<open>entry_keys reg_ecdh_p256 = [''ecdh-p256'', ''ecdh p-256'', ''ecdh-secp256r1'']\<close>
  \<open>rust_path reg_ecdh_p256 \<noteq> []\<close>
  \<open>example reg_ecdh_p256 \<noteq> []\<close>
  by (simp_all add: reg_ecdh_p256_def registry_facts entry_keys_def ascii_lower_simps
      if_built_def NOT_APPROVED_STATUS_def)

definition reg_ml_kem_768 :: "entry" where
  \<open>reg_ml_kem_768 =
     \<lparr>entry_id = ''ml-kem-768'',
     entry_name = ''ML-KEM-768'',
     aliases = [''kyber768'', ''kyber''],
     summary = ''Post-quantum key encapsulation; the standardized successor to Kyber.'',
     entry_class = Class_Kem,
     family = ''ML-KEM'',
     purposes = [Purpose_KeyEstablishment],
     entry_strength = \<lparr>classical = 192, quantum = 192\<rparr>,
     fips = FipsStatus_Approved,
     status = ImplStatus_Available,
     standards = [''FIPS 203''],
     params = MLKEM768_P,
     constraints = MLKEM_CONSTRAINTS,
     edges = [\<lparr>relation = Relation_Supersedes, target = ''x25519''\<rparr>, \<lparr>relation = Relation_PairsWith, target = ''x25519''\<rparr>, \<lparr>relation = Relation_BuiltOn, target = ''shake128''\<rparr>],
     entry_performance = Performance_Fast,
     rust_path = ''ic_mlkem::MlKem768'',
     example = (''let mut ek = [0u8; 1184];'' @ [CHR 0x0A] @ ''let mut dk = [0u8; 2400];'' @ [CHR 0x0A] @ ''ic_mlkem::MlKem768::keygen(&mut rng, &mut ek, &mut dk)?;'' @ [CHR 0x0A] @ ''ic_mlkem::MlKem768::encapsulate(&mut rng, &ek, &mut ct, &mut secret)?;''),
     entry_notes = (''Checked against NIST's published ACVP vectors: 25 key generation cases and 25 encapsulation cases for ML-KEM-768, every case in the parameter set rather than a selection. Key generation is the strong one '' @ [CHR 0xE2, CHR 0x80, CHR 0x94] @ '' deterministic in its seed, so each case pins the sampler, the NTT, the compression and the whole key encoding at once. Deploy it in a hybrid with X25519 rather than alone: the risk that remains is in the scheme's age, not in this implementation's arithmetic, and a hybrid leaves the other half standing. Both of FIPS 203 section 7's input checks are enforced on the paths that need them: encapsulation runs the modulus check on the peer's key, and decapsulation runs the hash check on its own, so a caller gets them without having to know to ask. To encapsulate to one key many times, build `ic_mlkem::kem::PreparedEncapsulationKey` once: it runs the modulus check and computes `A^T` and `H(ek)` at construction, so each call does only the per-message work. `PreparedDecapsulationKey` does the same for decapsulation after the hash check, and wipes its secret when dropped.'')\<rparr>\<close>

lemma reg_ml_kem_768_facts [registry_facts]:
  \<open>entry_id reg_ml_kem_768 = ''ml-kem-768''\<close>
  \<open>entry_name reg_ml_kem_768 = ''ML-KEM-768''\<close>
  \<open>aliases reg_ml_kem_768 = [''kyber768'', ''kyber'']\<close>
  \<open>entry_class reg_ml_kem_768 = Class_Kem\<close>
  \<open>purposes reg_ml_kem_768 = [Purpose_KeyEstablishment]\<close>
  \<open>classical (entry_strength reg_ml_kem_768) = 192\<close>
  \<open>quantum (entry_strength reg_ml_kem_768) = 192\<close>
  \<open>fips reg_ml_kem_768 = FipsStatus_Approved\<close>
  \<open>status reg_ml_kem_768 = ImplStatus_Available\<close>
  \<open>map target (edges reg_ml_kem_768) = [''x25519'', ''x25519'', ''shake128'']\<close>
  \<open>map constraint_id (constraints reg_ml_kem_768) = [''deploy-post-quantum-in-a-hybrid'', ''do-not-reveal-decapsulation-failures'']\<close>
  \<open>entry_keys reg_ml_kem_768 = [''ml-kem-768'', ''ml-kem-768'', ''kyber768'', ''kyber'']\<close>
  \<open>rust_path reg_ml_kem_768 \<noteq> []\<close>
  \<open>example reg_ml_kem_768 \<noteq> []\<close>
  by (simp_all add: reg_ml_kem_768_def registry_facts entry_keys_def ascii_lower_simps
      if_built_def NOT_APPROVED_STATUS_def)

definition reg_ml_kem_512 :: "entry" where
  \<open>reg_ml_kem_512 =
     \<lparr>entry_id = ''ml-kem-512'',
     entry_name = ''ML-KEM-512'',
     aliases = [''kyber512''],
     summary = ''Post-quantum key encapsulation, FIPS 203 security category 1.'',
     entry_class = Class_Kem,
     family = ''ML-KEM'',
     purposes = [Purpose_KeyEstablishment],
     entry_strength = \<lparr>classical = 128, quantum = 128\<rparr>,
     fips = FipsStatus_Approved,
     status = ImplStatus_Available,
     standards = [''FIPS 203''],
     params = MLKEM512_P,
     constraints = MLKEM_CONSTRAINTS,
     edges = [\<lparr>relation = Relation_PairsWith, target = ''x25519''\<rparr>, \<lparr>relation = Relation_BuiltOn, target = ''shake128''\<rparr>],
     entry_performance = Performance_Fast,
     rust_path = ''ic_mlkem::MlKem512'',
     example = (''let mut ek = [0u8; 800];'' @ [CHR 0x0A] @ ''let mut dk = [0u8; 1632];'' @ [CHR 0x0A] @ ''ic_mlkem::MlKem512::keygen(&mut rng, &mut ek, &mut dk)?;'' @ [CHR 0x0A] @ ''ic_mlkem::MlKem512::encapsulate(&mut rng, &ek, &mut ct, &mut secret)?;''),
     entry_notes = ''The ML-KEM-768 scheme at FIPS 203's ML-KEM-512 parameters (module rank 2), sharing its code: the scheme is written once and instantiated per parameter set. Checked against NIST's ACVP vectors for this set on its own account -- all 25 key-generation and all 25 encapsulation cases -- since the parameters are exactly what differs between the sets. The smallest keys and ciphertexts, at category 1, comparable to AES-128. `recommend` offers ML-KEM-768, the middle set; choose this one deliberately. For repeated encapsulation to one key, `ic_mlkem::kem512::PreparedEncapsulationKey` checks and expands the key once; `PreparedDecapsulationKey` does the same for decapsulation.''\<rparr>\<close>

lemma reg_ml_kem_512_facts [registry_facts]:
  \<open>entry_id reg_ml_kem_512 = ''ml-kem-512''\<close>
  \<open>entry_name reg_ml_kem_512 = ''ML-KEM-512''\<close>
  \<open>aliases reg_ml_kem_512 = [''kyber512'']\<close>
  \<open>entry_class reg_ml_kem_512 = Class_Kem\<close>
  \<open>purposes reg_ml_kem_512 = [Purpose_KeyEstablishment]\<close>
  \<open>classical (entry_strength reg_ml_kem_512) = 128\<close>
  \<open>quantum (entry_strength reg_ml_kem_512) = 128\<close>
  \<open>fips reg_ml_kem_512 = FipsStatus_Approved\<close>
  \<open>status reg_ml_kem_512 = ImplStatus_Available\<close>
  \<open>map target (edges reg_ml_kem_512) = [''x25519'', ''shake128'']\<close>
  \<open>map constraint_id (constraints reg_ml_kem_512) = [''deploy-post-quantum-in-a-hybrid'', ''do-not-reveal-decapsulation-failures'']\<close>
  \<open>entry_keys reg_ml_kem_512 = [''ml-kem-512'', ''ml-kem-512'', ''kyber512'']\<close>
  \<open>rust_path reg_ml_kem_512 \<noteq> []\<close>
  \<open>example reg_ml_kem_512 \<noteq> []\<close>
  by (simp_all add: reg_ml_kem_512_def registry_facts entry_keys_def ascii_lower_simps
      if_built_def NOT_APPROVED_STATUS_def)

definition reg_ml_kem_1024 :: "entry" where
  \<open>reg_ml_kem_1024 =
     \<lparr>entry_id = ''ml-kem-1024'',
     entry_name = ''ML-KEM-1024'',
     aliases = [''kyber1024''],
     summary = ''Post-quantum key encapsulation, FIPS 203 security category 5.'',
     entry_class = Class_Kem,
     family = ''ML-KEM'',
     purposes = [Purpose_KeyEstablishment],
     entry_strength = \<lparr>classical = 256, quantum = 256\<rparr>,
     fips = FipsStatus_Approved,
     status = ImplStatus_Available,
     standards = [''FIPS 203''],
     params = MLKEM1024_P,
     constraints = MLKEM_CONSTRAINTS,
     edges = [\<lparr>relation = Relation_PairsWith, target = ''x25519''\<rparr>, \<lparr>relation = Relation_BuiltOn, target = ''shake128''\<rparr>],
     entry_performance = Performance_Fast,
     rust_path = ''ic_mlkem::MlKem1024'',
     example = (''let mut ek = [0u8; 1568];'' @ [CHR 0x0A] @ ''let mut dk = [0u8; 3168];'' @ [CHR 0x0A] @ ''ic_mlkem::MlKem1024::keygen(&mut rng, &mut ek, &mut dk)?;'' @ [CHR 0x0A] @ ''ic_mlkem::MlKem1024::encapsulate(&mut rng, &ek, &mut ct, &mut secret)?;''),
     entry_notes = ''The ML-KEM-768 scheme at FIPS 203's ML-KEM-1024 parameters (module rank 4), sharing its code: the scheme is written once and instantiated per parameter set. Checked against NIST's ACVP vectors for this set on its own account -- all 25 key-generation and all 25 encapsulation cases -- since the parameters are exactly what differs between the sets. The largest, at category 5, comparable to AES-256, for a policy that asks for it. `recommend` offers ML-KEM-768, the middle set; choose this one deliberately. For repeated encapsulation to one key, `ic_mlkem::kem1024::PreparedEncapsulationKey` checks and expands the key once; `PreparedDecapsulationKey` does the same for decapsulation.''\<rparr>\<close>

lemma reg_ml_kem_1024_facts [registry_facts]:
  \<open>entry_id reg_ml_kem_1024 = ''ml-kem-1024''\<close>
  \<open>entry_name reg_ml_kem_1024 = ''ML-KEM-1024''\<close>
  \<open>aliases reg_ml_kem_1024 = [''kyber1024'']\<close>
  \<open>entry_class reg_ml_kem_1024 = Class_Kem\<close>
  \<open>purposes reg_ml_kem_1024 = [Purpose_KeyEstablishment]\<close>
  \<open>classical (entry_strength reg_ml_kem_1024) = 256\<close>
  \<open>quantum (entry_strength reg_ml_kem_1024) = 256\<close>
  \<open>fips reg_ml_kem_1024 = FipsStatus_Approved\<close>
  \<open>status reg_ml_kem_1024 = ImplStatus_Available\<close>
  \<open>map target (edges reg_ml_kem_1024) = [''x25519'', ''shake128'']\<close>
  \<open>map constraint_id (constraints reg_ml_kem_1024) = [''deploy-post-quantum-in-a-hybrid'', ''do-not-reveal-decapsulation-failures'']\<close>
  \<open>entry_keys reg_ml_kem_1024 = [''ml-kem-1024'', ''ml-kem-1024'', ''kyber1024'']\<close>
  \<open>rust_path reg_ml_kem_1024 \<noteq> []\<close>
  \<open>example reg_ml_kem_1024 \<noteq> []\<close>
  by (simp_all add: reg_ml_kem_1024_def registry_facts entry_keys_def ascii_lower_simps
      if_built_def NOT_APPROVED_STATUS_def)

definition reg_ed25519 :: "bool \<Rightarrow> entry" where
  \<open>reg_ed25519 ao =
     \<lparr>entry_id = ''ed25519'',
     entry_name = ''Ed25519'',
     aliases = [''eddsa''],
     summary = ''Deterministic signatures on Curve25519; fast and hard to misuse.'',
     entry_class = Class_Signature,
     family = ''Curve25519'',
     purposes = [Purpose_Authentication, Purpose_NonRepudiation, Purpose_Integrity],
     entry_strength = (strength_classical_only 128),
     fips = FipsStatus_NotApproved,
     status = (NOT_APPROVED_STATUS ao),
     standards = [''RFC 8032''],
     params = ED25519_P,
     constraints = [\<lparr>constraint_id = ''reject-non-canonical-s'', requirement = ''Reject signatures whose S component is not reduced modulo the group order.'', consequence = ''The signature becomes malleable, breaking any system that treats a signature as a unique identifier.'', severity = Severity_Serious\<rparr>],
     edges = [\<lparr>relation = Relation_BuiltOn, target = ''sha2-512''\<rparr>],
     entry_performance = Performance_Moderate,
     rust_path = (if_built ao ''ic_ec::Ed25519''),
     example = (if_built ao (''use ic_core::traits::SignatureScheme;'' @ [CHR 0x0A] @ ''ic_ec::Ed25519::sign(&seed, msg, &mut sig)?;'' @ [CHR 0x0A] @ ''ic_ec::Ed25519::verify(&pk, msg, &sig)?;'')),
     entry_notes = ''Signing needs no RNG, which removes the nonce-reuse failure that has broken ECDSA deployments. FIPS 186-5 approves EdDSA, but this implementation is not validated; the ontology reports it as not-approved so approved mode blocks it rather than implying a validation that does not exist. Verification is strict, as ed25519-dalek's verify_strict and libsodium are: beyond RFC 8032's checks it refuses a public key or an R of small order, and a non-canonical encoding of either, so no signature verifies without a private key behind it.''\<rparr>\<close>

lemma reg_ed25519_facts [registry_facts]:
  \<open>entry_id (reg_ed25519 ao) = ''ed25519''\<close>
  \<open>entry_name (reg_ed25519 ao) = ''Ed25519''\<close>
  \<open>aliases (reg_ed25519 ao) = [''eddsa'']\<close>
  \<open>entry_class (reg_ed25519 ao) = Class_Signature\<close>
  \<open>purposes (reg_ed25519 ao) = [Purpose_Authentication, Purpose_NonRepudiation, Purpose_Integrity]\<close>
  \<open>classical (entry_strength (reg_ed25519 ao)) = 128\<close>
  \<open>quantum (entry_strength (reg_ed25519 ao)) = 0\<close>
  \<open>fips (reg_ed25519 ao) = FipsStatus_NotApproved\<close>
  \<open>status (reg_ed25519 ao) = (NOT_APPROVED_STATUS ao)\<close>
  \<open>map target (edges (reg_ed25519 ao)) = [''sha2-512'']\<close>
  \<open>map constraint_id (constraints (reg_ed25519 ao)) = [''reject-non-canonical-s'']\<close>
  \<open>entry_keys (reg_ed25519 ao) = [''ed25519'', ''ed25519'', ''eddsa'']\<close>
  \<open>(rust_path (reg_ed25519 ao) = []) = ao\<close>
  \<open>(example (reg_ed25519 ao) = []) = ao\<close>
  by (simp_all add: reg_ed25519_def registry_facts entry_keys_def ascii_lower_simps
      if_built_def NOT_APPROVED_STATUS_def)

definition reg_ed448 :: "bool \<Rightarrow> entry" where
  \<open>reg_ed448 ao =
     \<lparr>entry_id = ''ed448'',
     entry_name = ''Ed448'',
     aliases = [''ed448-goldilocks''],
     summary = ''Deterministic signatures on edwards448, at about the 224-bit level.'',
     entry_class = Class_Signature,
     family = ''Curve448'',
     purposes = [Purpose_Authentication, Purpose_NonRepudiation, Purpose_Integrity],
     entry_strength = (strength_classical_only 224),
     fips = FipsStatus_NotApproved,
     status = (NOT_APPROVED_STATUS ao),
     standards = [''RFC 8032''],
     params = ED448_P,
     constraints = [\<lparr>constraint_id = ''reject-non-canonical-s'', requirement = ''Reject signatures whose S component is not reduced modulo the group order.'', consequence = ''The signature becomes malleable, breaking any system that treats a signature as a unique identifier.'', severity = Severity_Serious\<rparr>, \<lparr>constraint_id = ''context-must-match'', requirement = ''Verify with exactly the context the signer used, at most 255 bytes.'', consequence = ''The context is hashed into the signature: a different one fails verification, and a protocol that leaves it to the caller has lost its domain separation.'', severity = Severity_Serious\<rparr>],
     edges = [\<lparr>relation = Relation_BuiltOn, target = ''shake256''\<rparr>],
     entry_performance = Performance_Slow,
     rust_path = (if_built ao ''ic_ec::Ed448''),
     example = (if_built ao (''use ic_core::traits::SignatureScheme;'' @ [CHR 0x0A] @ ''ic_ec::Ed448::sign(&seed, msg, &mut sig)?;'' @ [CHR 0x0A] @ ''ic_ec::Ed448::verify(&pk, msg, &sig)?;'')),
     entry_notes = ''Pure Ed448; Ed448ph is not implemented. The trait signs with the empty context; `Ed448Key::sign_with_context` and `Ed448VerifyKey::verify_with_context` take one. The classical half of the composite id-MLDSA87-Ed448-SHAKE256. Written for clarity and constant time rather than speed, with no precomputed tables: prefer Ed25519 unless a specification asks for this. FIPS 186-5 approves EdDSA, but this implementation is not validated, and the ontology reports it as not-approved, as it does Ed25519. Verification is strict in the same way as Ed25519's: a key or an R of small order, a non-canonical encoding of either, and an unreduced S are refused.''\<rparr>\<close>

lemma reg_ed448_facts [registry_facts]:
  \<open>entry_id (reg_ed448 ao) = ''ed448''\<close>
  \<open>entry_name (reg_ed448 ao) = ''Ed448''\<close>
  \<open>aliases (reg_ed448 ao) = [''ed448-goldilocks'']\<close>
  \<open>entry_class (reg_ed448 ao) = Class_Signature\<close>
  \<open>purposes (reg_ed448 ao) = [Purpose_Authentication, Purpose_NonRepudiation, Purpose_Integrity]\<close>
  \<open>classical (entry_strength (reg_ed448 ao)) = 224\<close>
  \<open>quantum (entry_strength (reg_ed448 ao)) = 0\<close>
  \<open>fips (reg_ed448 ao) = FipsStatus_NotApproved\<close>
  \<open>status (reg_ed448 ao) = (NOT_APPROVED_STATUS ao)\<close>
  \<open>map target (edges (reg_ed448 ao)) = [''shake256'']\<close>
  \<open>map constraint_id (constraints (reg_ed448 ao)) = [''reject-non-canonical-s'', ''context-must-match'']\<close>
  \<open>entry_keys (reg_ed448 ao) = [''ed448'', ''ed448'', ''ed448-goldilocks'']\<close>
  \<open>(rust_path (reg_ed448 ao) = []) = ao\<close>
  \<open>(example (reg_ed448 ao) = []) = ao\<close>
  by (simp_all add: reg_ed448_def registry_facts entry_keys_def ascii_lower_simps
      if_built_def NOT_APPROVED_STATUS_def)

definition reg_mldsa44_ed25519_sha512 :: "bool \<Rightarrow> entry" where
  \<open>reg_mldsa44_ed25519_sha512 ao =
     \<lparr>entry_id = ''mldsa44-ed25519-sha512'',
     entry_name = ''ML-DSA-44 + Ed25519 (composite)'',
     aliases = [''id-mldsa44-ed25519-sha512''],
     summary = ''ML-DSA-44 and Ed25519 over one message, both required: post-quantum with a classical hedge.'',
     entry_class = Class_Signature,
     family = ''Composite ML-DSA'',
     purposes = [Purpose_Authentication, Purpose_NonRepudiation, Purpose_Integrity],
     entry_strength = \<lparr>classical = 128, quantum = 128\<rparr>,
     fips = FipsStatus_NotApproved,
     status = (NOT_APPROVED_STATUS ao),
     standards = [''draft-ietf-lamps-pq-composite-sigs-19'', ''FIPS 204'', ''RFC 8032''],
     params = COMPOSITE_44_ED25519_P,
     constraints = COMPOSITE_CONSTRAINTS,
     edges = [\<lparr>relation = Relation_BuiltOn, target = ''ml-dsa-44''\<rparr>, \<lparr>relation = Relation_BuiltOn, target = ''ed25519''\<rparr>, \<lparr>relation = Relation_BuiltOn, target = ''sha2-512''\<rparr>],
     entry_performance = Performance_Moderate,
     rust_path = (if_built ao ''ic_sig::composite::Composite::MlDsa44Ed25519Sha512''),
     example = (if_built ao (''ic_sig::composite::sign(Composite::MlDsa44Ed25519Sha512, &sk, msg, b"", &mut rng, &mut sig)?;'' @ [CHR 0x0A] @ ''ic_sig::composite::verify(Composite::MlDsa44Ed25519Sha512, &pk, msg, b"", &sig)?;'')),
     entry_notes = ''id-MLDSA44-Ed25519-SHA512, 1.3.6.1.5.5.7.6.39, pre-hash SHA-512. Both halves sign `M' = Prefix || Label || len(ctx) || ctx || PH(M)`, ML-DSA under the label as its own context; a signature verifies only if both do, so it stands while either component does. The ontology's assumptions read it conservatively and list both. Draft 19, not yet an RFC: checked against its Appendix E vectors, whose public keys it derives and whose signatures it verifies; ML-DSA signing is hedged, so its own signatures differ from theirs. Not approved-mode, since the EdDSA component is not.''\<rparr>\<close>

lemma reg_mldsa44_ed25519_sha512_facts [registry_facts]:
  \<open>entry_id (reg_mldsa44_ed25519_sha512 ao) = ''mldsa44-ed25519-sha512''\<close>
  \<open>entry_name (reg_mldsa44_ed25519_sha512 ao) = ''ML-DSA-44 + Ed25519 (composite)''\<close>
  \<open>aliases (reg_mldsa44_ed25519_sha512 ao) = [''id-mldsa44-ed25519-sha512'']\<close>
  \<open>entry_class (reg_mldsa44_ed25519_sha512 ao) = Class_Signature\<close>
  \<open>purposes (reg_mldsa44_ed25519_sha512 ao) = [Purpose_Authentication, Purpose_NonRepudiation, Purpose_Integrity]\<close>
  \<open>classical (entry_strength (reg_mldsa44_ed25519_sha512 ao)) = 128\<close>
  \<open>quantum (entry_strength (reg_mldsa44_ed25519_sha512 ao)) = 128\<close>
  \<open>fips (reg_mldsa44_ed25519_sha512 ao) = FipsStatus_NotApproved\<close>
  \<open>status (reg_mldsa44_ed25519_sha512 ao) = (NOT_APPROVED_STATUS ao)\<close>
  \<open>map target (edges (reg_mldsa44_ed25519_sha512 ao)) = [''ml-dsa-44'', ''ed25519'', ''sha2-512'']\<close>
  \<open>map constraint_id (constraints (reg_mldsa44_ed25519_sha512 ao)) = [''fresh-component-keys'', ''context-must-match'']\<close>
  \<open>entry_keys (reg_mldsa44_ed25519_sha512 ao) = [''mldsa44-ed25519-sha512'', ''ml-dsa-44 + ed25519 (composite)'', ''id-mldsa44-ed25519-sha512'']\<close>
  \<open>(rust_path (reg_mldsa44_ed25519_sha512 ao) = []) = ao\<close>
  \<open>(example (reg_mldsa44_ed25519_sha512 ao) = []) = ao\<close>
  by (simp_all add: reg_mldsa44_ed25519_sha512_def registry_facts entry_keys_def ascii_lower_simps
      if_built_def NOT_APPROVED_STATUS_def)

definition reg_mldsa65_ed25519_sha512 :: "bool \<Rightarrow> entry" where
  \<open>reg_mldsa65_ed25519_sha512 ao =
     \<lparr>entry_id = ''mldsa65-ed25519-sha512'',
     entry_name = ''ML-DSA-65 + Ed25519 (composite)'',
     aliases = [''id-mldsa65-ed25519-sha512''],
     summary = ''ML-DSA-65 and Ed25519 over one message, both required: post-quantum with a classical hedge.'',
     entry_class = Class_Signature,
     family = ''Composite ML-DSA'',
     purposes = [Purpose_Authentication, Purpose_NonRepudiation, Purpose_Integrity],
     entry_strength = \<lparr>classical = 192, quantum = 192\<rparr>,
     fips = FipsStatus_NotApproved,
     status = (NOT_APPROVED_STATUS ao),
     standards = [''draft-ietf-lamps-pq-composite-sigs-19'', ''FIPS 204'', ''RFC 8032''],
     params = COMPOSITE_65_ED25519_P,
     constraints = COMPOSITE_CONSTRAINTS,
     edges = [\<lparr>relation = Relation_BuiltOn, target = ''ml-dsa-65''\<rparr>, \<lparr>relation = Relation_BuiltOn, target = ''ed25519''\<rparr>, \<lparr>relation = Relation_BuiltOn, target = ''sha2-512''\<rparr>],
     entry_performance = Performance_Moderate,
     rust_path = (if_built ao ''ic_sig::composite::Composite::MlDsa65Ed25519Sha512''),
     example = (if_built ao (''ic_sig::composite::sign(Composite::MlDsa65Ed25519Sha512, &sk, msg, b"", &mut rng, &mut sig)?;'' @ [CHR 0x0A] @ ''ic_sig::composite::verify(Composite::MlDsa65Ed25519Sha512, &pk, msg, b"", &sig)?;'')),
     entry_notes = ''id-MLDSA65-Ed25519-SHA512, 1.3.6.1.5.5.7.6.48, pre-hash SHA-512. Both halves sign `M' = Prefix || Label || len(ctx) || ctx || PH(M)`, ML-DSA under the label as its own context; a signature verifies only if both do, so it stands while either component does. The ontology's assumptions read it conservatively and list both. Draft 19, not yet an RFC: checked against its Appendix E vectors, whose public keys it derives and whose signatures it verifies; ML-DSA signing is hedged, so its own signatures differ from theirs. Not approved-mode, since the EdDSA component is not.''\<rparr>\<close>

lemma reg_mldsa65_ed25519_sha512_facts [registry_facts]:
  \<open>entry_id (reg_mldsa65_ed25519_sha512 ao) = ''mldsa65-ed25519-sha512''\<close>
  \<open>entry_name (reg_mldsa65_ed25519_sha512 ao) = ''ML-DSA-65 + Ed25519 (composite)''\<close>
  \<open>aliases (reg_mldsa65_ed25519_sha512 ao) = [''id-mldsa65-ed25519-sha512'']\<close>
  \<open>entry_class (reg_mldsa65_ed25519_sha512 ao) = Class_Signature\<close>
  \<open>purposes (reg_mldsa65_ed25519_sha512 ao) = [Purpose_Authentication, Purpose_NonRepudiation, Purpose_Integrity]\<close>
  \<open>classical (entry_strength (reg_mldsa65_ed25519_sha512 ao)) = 192\<close>
  \<open>quantum (entry_strength (reg_mldsa65_ed25519_sha512 ao)) = 192\<close>
  \<open>fips (reg_mldsa65_ed25519_sha512 ao) = FipsStatus_NotApproved\<close>
  \<open>status (reg_mldsa65_ed25519_sha512 ao) = (NOT_APPROVED_STATUS ao)\<close>
  \<open>map target (edges (reg_mldsa65_ed25519_sha512 ao)) = [''ml-dsa-65'', ''ed25519'', ''sha2-512'']\<close>
  \<open>map constraint_id (constraints (reg_mldsa65_ed25519_sha512 ao)) = [''fresh-component-keys'', ''context-must-match'']\<close>
  \<open>entry_keys (reg_mldsa65_ed25519_sha512 ao) = [''mldsa65-ed25519-sha512'', ''ml-dsa-65 + ed25519 (composite)'', ''id-mldsa65-ed25519-sha512'']\<close>
  \<open>(rust_path (reg_mldsa65_ed25519_sha512 ao) = []) = ao\<close>
  \<open>(example (reg_mldsa65_ed25519_sha512 ao) = []) = ao\<close>
  by (simp_all add: reg_mldsa65_ed25519_sha512_def registry_facts entry_keys_def ascii_lower_simps
      if_built_def NOT_APPROVED_STATUS_def)

definition reg_mldsa87_ed448_shake256 :: "bool \<Rightarrow> entry" where
  \<open>reg_mldsa87_ed448_shake256 ao =
     \<lparr>entry_id = ''mldsa87-ed448-shake256'',
     entry_name = ''ML-DSA-87 + Ed448 (composite)'',
     aliases = [''id-mldsa87-ed448-shake256''],
     summary = ''ML-DSA-87 and Ed448 over one message, both required: post-quantum with a classical hedge.'',
     entry_class = Class_Signature,
     family = ''Composite ML-DSA'',
     purposes = [Purpose_Authentication, Purpose_NonRepudiation, Purpose_Integrity],
     entry_strength = \<lparr>classical = 256, quantum = 256\<rparr>,
     fips = FipsStatus_NotApproved,
     status = (NOT_APPROVED_STATUS ao),
     standards = [''draft-ietf-lamps-pq-composite-sigs-19'', ''FIPS 204'', ''RFC 8032''],
     params = COMPOSITE_87_ED448_P,
     constraints = COMPOSITE_CONSTRAINTS,
     edges = [\<lparr>relation = Relation_BuiltOn, target = ''ml-dsa-87''\<rparr>, \<lparr>relation = Relation_BuiltOn, target = ''ed448''\<rparr>, \<lparr>relation = Relation_BuiltOn, target = ''shake256''\<rparr>],
     entry_performance = Performance_Slow,
     rust_path = (if_built ao ''ic_sig::composite::Composite::MlDsa87Ed448Shake256''),
     example = (if_built ao (''ic_sig::composite::sign(Composite::MlDsa87Ed448Shake256, &sk, msg, b"", &mut rng, &mut sig)?;'' @ [CHR 0x0A] @ ''ic_sig::composite::verify(Composite::MlDsa87Ed448Shake256, &pk, msg, b"", &sig)?;'')),
     entry_notes = ''id-MLDSA87-Ed448-SHAKE256, 1.3.6.1.5.5.7.6.51, pre-hash SHAKE256 to 64 bytes. Both halves sign `M' = Prefix || Label || len(ctx) || ctx || PH(M)`, ML-DSA under the label as its own context; a signature verifies only if both do, so it stands while either component does. The ontology's assumptions read it conservatively and list both. Draft 19, not yet an RFC: checked against its Appendix E vectors, whose public keys it derives and whose signatures it verifies; ML-DSA signing is hedged, so its own signatures differ from theirs. Not approved-mode, since the EdDSA component is not.''\<rparr>\<close>

lemma reg_mldsa87_ed448_shake256_facts [registry_facts]:
  \<open>entry_id (reg_mldsa87_ed448_shake256 ao) = ''mldsa87-ed448-shake256''\<close>
  \<open>entry_name (reg_mldsa87_ed448_shake256 ao) = ''ML-DSA-87 + Ed448 (composite)''\<close>
  \<open>aliases (reg_mldsa87_ed448_shake256 ao) = [''id-mldsa87-ed448-shake256'']\<close>
  \<open>entry_class (reg_mldsa87_ed448_shake256 ao) = Class_Signature\<close>
  \<open>purposes (reg_mldsa87_ed448_shake256 ao) = [Purpose_Authentication, Purpose_NonRepudiation, Purpose_Integrity]\<close>
  \<open>classical (entry_strength (reg_mldsa87_ed448_shake256 ao)) = 256\<close>
  \<open>quantum (entry_strength (reg_mldsa87_ed448_shake256 ao)) = 256\<close>
  \<open>fips (reg_mldsa87_ed448_shake256 ao) = FipsStatus_NotApproved\<close>
  \<open>status (reg_mldsa87_ed448_shake256 ao) = (NOT_APPROVED_STATUS ao)\<close>
  \<open>map target (edges (reg_mldsa87_ed448_shake256 ao)) = [''ml-dsa-87'', ''ed448'', ''shake256'']\<close>
  \<open>map constraint_id (constraints (reg_mldsa87_ed448_shake256 ao)) = [''fresh-component-keys'', ''context-must-match'']\<close>
  \<open>entry_keys (reg_mldsa87_ed448_shake256 ao) = [''mldsa87-ed448-shake256'', ''ml-dsa-87 + ed448 (composite)'', ''id-mldsa87-ed448-shake256'']\<close>
  \<open>(rust_path (reg_mldsa87_ed448_shake256 ao) = []) = ao\<close>
  \<open>(example (reg_mldsa87_ed448_shake256 ao) = []) = ao\<close>
  by (simp_all add: reg_mldsa87_ed448_shake256_def registry_facts entry_keys_def ascii_lower_simps
      if_built_def NOT_APPROVED_STATUS_def)

end
