(* ===== verification/Registry_Modes.thy ===== *)
theory Registry_Modes
  imports Registry_Consts
begin

text \<open>
  Entries of \<open>REGISTRY\<close> in \<open>crates/ic-ontology/src/registry.rs\<close>, lines 3202 onward:
  key wrap, misuse-resistant AEADs and the Keccak-derived functions.
  After each entry stand the fields a selection reads.
\<close>

definition reg_aes_256_kw :: "entry" where
  \<open>reg_aes_256_kw =
     \<lparr>entry_id = ''aes-256-kw'',
     entry_name = ''AES-256 Key Wrap'',
     aliases = [''kw'', ''aes-kw'', ''rfc3394''],
     summary = ''Deterministic key wrapping that needs no nonce.'',
     entry_class = Class_CipherMode,
     family = ''AES'',
     purposes = [Purpose_Confidentiality, Purpose_Integrity],
     entry_strength = \<lparr>classical = 256, quantum = 128\<rparr>,
     fips = FipsStatus_Approved,
     status = ImplStatus_Available,
     standards = [''SP 800-38F'', ''RFC 3394''],
     params = KEYWRAP_P,
     constraints = [\<lparr>constraint_id = ''not-a-general-purpose-aead'', requirement = ''Use this for keys, and an AEAD for anything else.'', consequence = ''There is no associated data and the integrity check is 64 bits rather than 128. SP 800-38F scopes it to key wrapping and the security argument is written for that use.'', severity = Severity_Serious\<rparr>],
     edges = [\<lparr>relation = Relation_BuiltOn, target = ''aes-256''\<rparr>, \<lparr>relation = Relation_PairsWith, target = ''aes-256-kwp''\<rparr>],
     entry_performance = Performance_Moderate,
     rust_path = ''ic_cipher::Aes256Kw'',
     example = (''let mut wrapped = [0u8; 40];'' @ [CHR 0x0A] @ ''ic_cipher::Aes256Kw::wrap(kek, &key, &mut wrapped)?;'' @ [CHR 0x0A] @ ''ic_cipher::Aes256Kw::unwrap(kek, &wrapped, &mut key)?;''),
     entry_notes = (''Reach for this wherever a key has to be encrypted under another key and there is nowhere sensible to put a nonce: a hardware token with no clock, a backup read years later, a JOSE header. It is deterministic, so identical keys wrap identically '' @ [CHR 0xE2, CHR 0x80, CHR 0x94] @ '' which is the trade for needing no nonce at all. Six passes make every output block depend on every input block.'')\<rparr>\<close>

lemma reg_aes_256_kw_facts [registry_facts]:
  \<open>entry_id reg_aes_256_kw = ''aes-256-kw''\<close>
  \<open>entry_name reg_aes_256_kw = ''AES-256 Key Wrap''\<close>
  \<open>aliases reg_aes_256_kw = [''kw'', ''aes-kw'', ''rfc3394'']\<close>
  \<open>entry_class reg_aes_256_kw = Class_CipherMode\<close>
  \<open>purposes reg_aes_256_kw = [Purpose_Confidentiality, Purpose_Integrity]\<close>
  \<open>classical (entry_strength reg_aes_256_kw) = 256\<close>
  \<open>quantum (entry_strength reg_aes_256_kw) = 128\<close>
  \<open>fips reg_aes_256_kw = FipsStatus_Approved\<close>
  \<open>status reg_aes_256_kw = ImplStatus_Available\<close>
  \<open>map target (edges reg_aes_256_kw) = [''aes-256'', ''aes-256-kwp'']\<close>
  \<open>map constraint_id (constraints reg_aes_256_kw) = [''not-a-general-purpose-aead'']\<close>
  \<open>entry_keys reg_aes_256_kw = [''aes-256-kw'', ''aes-256 key wrap'', ''kw'', ''aes-kw'', ''rfc3394'']\<close>
  \<open>rust_path reg_aes_256_kw \<noteq> []\<close>
  \<open>example reg_aes_256_kw \<noteq> []\<close>
  by (simp_all add: reg_aes_256_kw_def registry_facts entry_keys_def ascii_lower_simps
      if_built_def NOT_APPROVED_STATUS_def)

definition reg_aes_256_kwp :: "entry" where
  \<open>reg_aes_256_kwp =
     \<lparr>entry_id = ''aes-256-kwp'',
     entry_name = ''AES-256 Key Wrap with Padding'',
     aliases = [''kwp'', ''aes-kwp'', ''rfc5649''],
     summary = ''Key wrapping for data that is not a whole number of 64-bit blocks.'',
     entry_class = Class_CipherMode,
     family = ''AES'',
     purposes = [Purpose_Confidentiality, Purpose_Integrity],
     entry_strength = \<lparr>classical = 256, quantum = 128\<rparr>,
     fips = FipsStatus_Approved,
     status = ImplStatus_Available,
     standards = [''SP 800-38F'', ''RFC 5649''],
     params = KEYWRAP_P,
     constraints = [\<lparr>constraint_id = ''not-a-general-purpose-aead'', requirement = ''Use this for keys, and an AEAD for anything else.'', consequence = ''There is no associated data and the integrity check is 64 bits rather than 128. SP 800-38F scopes it to key wrapping and the security argument is written for that use.'', severity = Severity_Serious\<rparr>],
     edges = [\<lparr>relation = Relation_BuiltOn, target = ''aes-256''\<rparr>, \<lparr>relation = Relation_Specializes, target = ''aes-256-kw''\<rparr>],
     entry_performance = Performance_Moderate,
     rust_path = ''ic_cipher::Aes256Kwp'',
     example = (''let n = ic_cipher::Aes256Kwp::wrapped_len(secret.len());'' @ [CHR 0x0A] @ ''ic_cipher::Aes256Kwp::wrap(kek, secret, &mut out[..n])?;''),
     entry_notes = ''The exact length is carried in the check value and recovered on unwrap, but it is not hidden: the ciphertext size reveals it to within eight bytes. Prefer the unpadded form when the input is already block-aligned, which every symmetric key is.''\<rparr>\<close>

lemma reg_aes_256_kwp_facts [registry_facts]:
  \<open>entry_id reg_aes_256_kwp = ''aes-256-kwp''\<close>
  \<open>entry_name reg_aes_256_kwp = ''AES-256 Key Wrap with Padding''\<close>
  \<open>aliases reg_aes_256_kwp = [''kwp'', ''aes-kwp'', ''rfc5649'']\<close>
  \<open>entry_class reg_aes_256_kwp = Class_CipherMode\<close>
  \<open>purposes reg_aes_256_kwp = [Purpose_Confidentiality, Purpose_Integrity]\<close>
  \<open>classical (entry_strength reg_aes_256_kwp) = 256\<close>
  \<open>quantum (entry_strength reg_aes_256_kwp) = 128\<close>
  \<open>fips reg_aes_256_kwp = FipsStatus_Approved\<close>
  \<open>status reg_aes_256_kwp = ImplStatus_Available\<close>
  \<open>map target (edges reg_aes_256_kwp) = [''aes-256'', ''aes-256-kw'']\<close>
  \<open>map constraint_id (constraints reg_aes_256_kwp) = [''not-a-general-purpose-aead'']\<close>
  \<open>entry_keys reg_aes_256_kwp = [''aes-256-kwp'', ''aes-256 key wrap with padding'', ''kwp'', ''aes-kwp'', ''rfc5649'']\<close>
  \<open>rust_path reg_aes_256_kwp \<noteq> []\<close>
  \<open>example reg_aes_256_kwp \<noteq> []\<close>
  by (simp_all add: reg_aes_256_kwp_def registry_facts entry_keys_def ascii_lower_simps
      if_built_def NOT_APPROVED_STATUS_def)

definition reg_aes_128_kw :: "entry" where
  \<open>reg_aes_128_kw =
     \<lparr>entry_id = ''aes-128-kw'',
     entry_name = ''AES-128 Key Wrap'',
     aliases = [],
     summary = ''Key wrapping under a 128-bit key-encryption key.'',
     entry_class = Class_CipherMode,
     family = ''AES'',
     purposes = [Purpose_Confidentiality, Purpose_Integrity],
     entry_strength = \<lparr>classical = 128, quantum = 64\<rparr>,
     fips = FipsStatus_Approved,
     status = ImplStatus_Available,
     standards = [''SP 800-38F'', ''RFC 3394''],
     params = KEYWRAP_P,
     constraints = [\<lparr>constraint_id = ''not-a-general-purpose-aead'', requirement = ''Use this for keys, and an AEAD for anything else.'', consequence = ''There is no associated data and the integrity check is 64 bits rather than 128. SP 800-38F scopes it to key wrapping and the security argument is written for that use.'', severity = Severity_Serious\<rparr>],
     edges = [\<lparr>relation = Relation_BuiltOn, target = ''aes-128''\<rparr>, \<lparr>relation = Relation_SupersededBy, target = ''aes-256-kw''\<rparr>],
     entry_performance = Performance_Moderate,
     rust_path = ''ic_cipher::Aes128Kw'',
     example = ''ic_cipher::Aes128Kw::wrap(kek, &key, &mut wrapped)?;'',
     entry_notes = ''See aes-256-kw. A wrapping key should be at least as strong as what it wraps, so prefer the 256-bit form unless an existing interface fixes this one.''\<rparr>\<close>

lemma reg_aes_128_kw_facts [registry_facts]:
  \<open>entry_id reg_aes_128_kw = ''aes-128-kw''\<close>
  \<open>entry_name reg_aes_128_kw = ''AES-128 Key Wrap''\<close>
  \<open>aliases reg_aes_128_kw = []\<close>
  \<open>entry_class reg_aes_128_kw = Class_CipherMode\<close>
  \<open>purposes reg_aes_128_kw = [Purpose_Confidentiality, Purpose_Integrity]\<close>
  \<open>classical (entry_strength reg_aes_128_kw) = 128\<close>
  \<open>quantum (entry_strength reg_aes_128_kw) = 64\<close>
  \<open>fips reg_aes_128_kw = FipsStatus_Approved\<close>
  \<open>status reg_aes_128_kw = ImplStatus_Available\<close>
  \<open>map target (edges reg_aes_128_kw) = [''aes-128'', ''aes-256-kw'']\<close>
  \<open>map constraint_id (constraints reg_aes_128_kw) = [''not-a-general-purpose-aead'']\<close>
  \<open>entry_keys reg_aes_128_kw = [''aes-128-kw'', ''aes-128 key wrap'']\<close>
  \<open>rust_path reg_aes_128_kw \<noteq> []\<close>
  \<open>example reg_aes_128_kw \<noteq> []\<close>
  by (simp_all add: reg_aes_128_kw_def registry_facts entry_keys_def ascii_lower_simps
      if_built_def NOT_APPROVED_STATUS_def)

definition reg_aes_192_kwp :: "entry" where
  \<open>reg_aes_192_kwp =
     \<lparr>entry_id = ''aes-192-kwp'',
     entry_name = ''AES-192 Key Wrap with Padding'',
     aliases = [],
     summary = ''Padded key wrapping under a 192-bit key-encryption key.'',
     entry_class = Class_CipherMode,
     family = ''AES'',
     purposes = [Purpose_Confidentiality, Purpose_Integrity],
     entry_strength = \<lparr>classical = 192, quantum = 96\<rparr>,
     fips = FipsStatus_Approved,
     status = ImplStatus_Available,
     standards = [''SP 800-38F'', ''RFC 5649''],
     params = KEYWRAP_P,
     constraints = [\<lparr>constraint_id = ''not-a-general-purpose-aead'', requirement = ''Use this for keys, and an AEAD for anything else.'', consequence = ''There is no associated data and the integrity check is 64 bits rather than 128. SP 800-38F scopes it to key wrapping and the security argument is written for that use.'', severity = Severity_Serious\<rparr>],
     edges = [\<lparr>relation = Relation_BuiltOn, target = ''aes-192''\<rparr>, \<lparr>relation = Relation_SupersededBy, target = ''aes-256-kwp''\<rparr>],
     entry_performance = Performance_Moderate,
     rust_path = ''ic_cipher::Aes192Kwp'',
     example = ''ic_cipher::Aes192Kwp::wrap(kek, secret, &mut out)?;'',
     entry_notes = ''The parameter set RFC 5649's published vectors use, which is why this one carries the padded construction's known-answer test.''\<rparr>\<close>

lemma reg_aes_192_kwp_facts [registry_facts]:
  \<open>entry_id reg_aes_192_kwp = ''aes-192-kwp''\<close>
  \<open>entry_name reg_aes_192_kwp = ''AES-192 Key Wrap with Padding''\<close>
  \<open>aliases reg_aes_192_kwp = []\<close>
  \<open>entry_class reg_aes_192_kwp = Class_CipherMode\<close>
  \<open>purposes reg_aes_192_kwp = [Purpose_Confidentiality, Purpose_Integrity]\<close>
  \<open>classical (entry_strength reg_aes_192_kwp) = 192\<close>
  \<open>quantum (entry_strength reg_aes_192_kwp) = 96\<close>
  \<open>fips reg_aes_192_kwp = FipsStatus_Approved\<close>
  \<open>status reg_aes_192_kwp = ImplStatus_Available\<close>
  \<open>map target (edges reg_aes_192_kwp) = [''aes-192'', ''aes-256-kwp'']\<close>
  \<open>map constraint_id (constraints reg_aes_192_kwp) = [''not-a-general-purpose-aead'']\<close>
  \<open>entry_keys reg_aes_192_kwp = [''aes-192-kwp'', ''aes-192 key wrap with padding'']\<close>
  \<open>rust_path reg_aes_192_kwp \<noteq> []\<close>
  \<open>example reg_aes_192_kwp \<noteq> []\<close>
  by (simp_all add: reg_aes_192_kwp_def registry_facts entry_keys_def ascii_lower_simps
      if_built_def NOT_APPROVED_STATUS_def)

definition reg_aes_256_gcm_siv :: "bool \<Rightarrow> entry" where
  \<open>reg_aes_256_gcm_siv ao =
     \<lparr>entry_id = ''aes-256-gcm-siv'',
     entry_name = ''AES-256-GCM-SIV'',
     aliases = [''gcm-siv'', ''aes-gcm-siv''],
     summary = ''Authenticated encryption that degrades gracefully when a nonce repeats.'',
     entry_class = Class_Aead,
     family = ''AES'',
     purposes = [Purpose_Confidentiality, Purpose_Authentication],
     entry_strength = \<lparr>classical = 256, quantum = 128\<rparr>,
     fips = FipsStatus_NotApproved,
     status = (NOT_APPROVED_STATUS ao),
     standards = [''RFC 8452''],
     params = GCM_SIV_P,
     constraints = [NONCE_MISUSE_RESISTANT, \<lparr>constraint_id = ''equal-plaintexts-are-visible'', requirement = ''Accept that two identical messages under one nonce produce identical ciphertexts.'', consequence = ''Encryption is deterministic by design. That is the trade for misuse resistance, and it does leak equality.'', severity = Severity_Advisory\<rparr>],
     edges = [\<lparr>relation = Relation_BuiltOn, target = ''aes-256''\<rparr>, \<lparr>relation = Relation_Supersedes, target = ''aes-256-gcm''\<rparr>],
     entry_performance = Performance_Moderate,
     rust_path = (if_built ao ''ic_cipher::Aes256GcmSiv''),
     example = (if_built ao (''use ic_core::traits::Aead;'' @ [CHR 0x0A] @ ''let c = ic_cipher::Aes256GcmSiv::new(key)?;'' @ [CHR 0x0A] @ ''c.seal_detached(nonce, aad, &mut buf, &mut tag)?;'')),
     entry_notes = (''Reach for this when nonces come from somewhere you do not control. GCM loses everything on a repeated nonce '' @ [CHR 0xE2, CHR 0x80, CHR 0x94] @ '' the keystream and the authentication key both '' @ [CHR 0xE2, CHR 0x80, CHR 0x94] @ '' while GCM-SIV leaks only whether two plaintexts were equal. The cost is two passes over the plaintext, so it cannot stream, and it is not FIPS-approved: RFC 8452 is an IETF document, not a NIST one. Checked against RFC 8452 appendix C: all 50 published cases across C.1, C.2 and C.3, in both directions, including the counter-wrap tests that exist because an implementation can pass everything else and still get that case wrong.'')\<rparr>\<close>

lemma reg_aes_256_gcm_siv_facts [registry_facts]:
  \<open>entry_id (reg_aes_256_gcm_siv ao) = ''aes-256-gcm-siv''\<close>
  \<open>entry_name (reg_aes_256_gcm_siv ao) = ''AES-256-GCM-SIV''\<close>
  \<open>aliases (reg_aes_256_gcm_siv ao) = [''gcm-siv'', ''aes-gcm-siv'']\<close>
  \<open>entry_class (reg_aes_256_gcm_siv ao) = Class_Aead\<close>
  \<open>purposes (reg_aes_256_gcm_siv ao) = [Purpose_Confidentiality, Purpose_Authentication]\<close>
  \<open>classical (entry_strength (reg_aes_256_gcm_siv ao)) = 256\<close>
  \<open>quantum (entry_strength (reg_aes_256_gcm_siv ao)) = 128\<close>
  \<open>fips (reg_aes_256_gcm_siv ao) = FipsStatus_NotApproved\<close>
  \<open>status (reg_aes_256_gcm_siv ao) = (NOT_APPROVED_STATUS ao)\<close>
  \<open>map target (edges (reg_aes_256_gcm_siv ao)) = [''aes-256'', ''aes-256-gcm'']\<close>
  \<open>map constraint_id (constraints (reg_aes_256_gcm_siv ao)) = [''nonce-reuse-degrades-gracefully'', ''equal-plaintexts-are-visible'']\<close>
  \<open>entry_keys (reg_aes_256_gcm_siv ao) = [''aes-256-gcm-siv'', ''aes-256-gcm-siv'', ''gcm-siv'', ''aes-gcm-siv'']\<close>
  \<open>(rust_path (reg_aes_256_gcm_siv ao) = []) = ao\<close>
  \<open>(example (reg_aes_256_gcm_siv ao) = []) = ao\<close>
  by (simp_all add: reg_aes_256_gcm_siv_def registry_facts entry_keys_def ascii_lower_simps
      if_built_def NOT_APPROVED_STATUS_def)

definition reg_aes_128_gcm_siv :: "bool \<Rightarrow> entry" where
  \<open>reg_aes_128_gcm_siv ao =
     \<lparr>entry_id = ''aes-128-gcm-siv'',
     entry_name = ''AES-128-GCM-SIV'',
     aliases = [],
     summary = ''AES-GCM-SIV at the 128-bit key size.'',
     entry_class = Class_Aead,
     family = ''AES'',
     purposes = [Purpose_Confidentiality, Purpose_Authentication],
     entry_strength = \<lparr>classical = 128, quantum = 64\<rparr>,
     fips = FipsStatus_NotApproved,
     status = (NOT_APPROVED_STATUS ao),
     standards = [''RFC 8452''],
     params = GCM_SIV_P,
     constraints = [NONCE_MISUSE_RESISTANT],
     edges = [\<lparr>relation = Relation_BuiltOn, target = ''aes-128''\<rparr>, \<lparr>relation = Relation_SupersededBy, target = ''aes-256-gcm-siv''\<rparr>],
     entry_performance = Performance_Moderate,
     rust_path = (if_built ao ''ic_cipher::Aes128GcmSiv''),
     example = (if_built ao ''let c = ic_cipher::Aes128GcmSiv::new(key)?;''),
     entry_notes = ''See aes-256-gcm-siv. Same construction, smaller key.''\<rparr>\<close>

lemma reg_aes_128_gcm_siv_facts [registry_facts]:
  \<open>entry_id (reg_aes_128_gcm_siv ao) = ''aes-128-gcm-siv''\<close>
  \<open>entry_name (reg_aes_128_gcm_siv ao) = ''AES-128-GCM-SIV''\<close>
  \<open>aliases (reg_aes_128_gcm_siv ao) = []\<close>
  \<open>entry_class (reg_aes_128_gcm_siv ao) = Class_Aead\<close>
  \<open>purposes (reg_aes_128_gcm_siv ao) = [Purpose_Confidentiality, Purpose_Authentication]\<close>
  \<open>classical (entry_strength (reg_aes_128_gcm_siv ao)) = 128\<close>
  \<open>quantum (entry_strength (reg_aes_128_gcm_siv ao)) = 64\<close>
  \<open>fips (reg_aes_128_gcm_siv ao) = FipsStatus_NotApproved\<close>
  \<open>status (reg_aes_128_gcm_siv ao) = (NOT_APPROVED_STATUS ao)\<close>
  \<open>map target (edges (reg_aes_128_gcm_siv ao)) = [''aes-128'', ''aes-256-gcm-siv'']\<close>
  \<open>map constraint_id (constraints (reg_aes_128_gcm_siv ao)) = [''nonce-reuse-degrades-gracefully'']\<close>
  \<open>entry_keys (reg_aes_128_gcm_siv ao) = [''aes-128-gcm-siv'', ''aes-128-gcm-siv'']\<close>
  \<open>(rust_path (reg_aes_128_gcm_siv ao) = []) = ao\<close>
  \<open>(example (reg_aes_128_gcm_siv ao) = []) = ao\<close>
  by (simp_all add: reg_aes_128_gcm_siv_def registry_facts entry_keys_def ascii_lower_simps
      if_built_def NOT_APPROVED_STATUS_def)

definition reg_tuplehash128 :: "entry" where
  \<open>reg_tuplehash128 =
     \<lparr>entry_id = ''tuplehash128'',
     entry_name = ''TupleHash128'',
     aliases = [''tuplehash''],
     summary = ''Hashes a sequence of strings so that no two sequences collide.'',
     entry_class = Class_Hash,
     family = ''SHA-3'',
     purposes = [Purpose_Integrity, Purpose_Commitment],
     entry_strength = \<lparr>classical = 128, quantum = 64\<rparr>,
     fips = FipsStatus_Approved,
     status = ImplStatus_Available,
     standards = [''SP 800-185''],
     params = TUPLEHASH_P,
     constraints = [\<lparr>constraint_id = ''do-not-concatenate-before-hashing'', requirement = ''Pass each field as its own element rather than joining them first.'', consequence = ''Joining loses the boundaries, so ("abc", "d") and ("ab", "cd") hash alike and a signature over one transfers to the other.'', severity = Severity_Serious\<rparr>],
     edges = [\<lparr>relation = Relation_BuiltOn, target = ''cshake128''\<rparr>],
     entry_performance = Performance_Fast,
     rust_path = ''ic_hash::TupleHash128'',
     example = (''let mut out = [0u8; 32];'' @ [CHR 0x0A] @ ''ic_hash::TupleHash128::hash(b"my app", &[field_a, field_b], &mut out)?;''),
     entry_notes = ''Reach for this wherever a protocol hashes several fields together. Every element is length-prefixed, so distinct tuples always hash distinctly, which plain concatenation cannot promise.''\<rparr>\<close>

lemma reg_tuplehash128_facts [registry_facts]:
  \<open>entry_id reg_tuplehash128 = ''tuplehash128''\<close>
  \<open>entry_name reg_tuplehash128 = ''TupleHash128''\<close>
  \<open>aliases reg_tuplehash128 = [''tuplehash'']\<close>
  \<open>entry_class reg_tuplehash128 = Class_Hash\<close>
  \<open>purposes reg_tuplehash128 = [Purpose_Integrity, Purpose_Commitment]\<close>
  \<open>classical (entry_strength reg_tuplehash128) = 128\<close>
  \<open>quantum (entry_strength reg_tuplehash128) = 64\<close>
  \<open>fips reg_tuplehash128 = FipsStatus_Approved\<close>
  \<open>status reg_tuplehash128 = ImplStatus_Available\<close>
  \<open>map target (edges reg_tuplehash128) = [''cshake128'']\<close>
  \<open>map constraint_id (constraints reg_tuplehash128) = [''do-not-concatenate-before-hashing'']\<close>
  \<open>entry_keys reg_tuplehash128 = [''tuplehash128'', ''tuplehash128'', ''tuplehash'']\<close>
  \<open>rust_path reg_tuplehash128 \<noteq> []\<close>
  \<open>example reg_tuplehash128 \<noteq> []\<close>
  by (simp_all add: reg_tuplehash128_def registry_facts entry_keys_def ascii_lower_simps
      if_built_def NOT_APPROVED_STATUS_def)

definition reg_tuplehash256 :: "entry" where
  \<open>reg_tuplehash256 =
     \<lparr>entry_id = ''tuplehash256'',
     entry_name = ''TupleHash256'',
     aliases = [],
     summary = ''TupleHash at the 256-bit security level.'',
     entry_class = Class_Hash,
     family = ''SHA-3'',
     purposes = [Purpose_Integrity, Purpose_Commitment],
     entry_strength = \<lparr>classical = 256, quantum = 128\<rparr>,
     fips = FipsStatus_Approved,
     status = ImplStatus_Available,
     standards = [''SP 800-185''],
     params = TUPLEHASH_P,
     constraints = [\<lparr>constraint_id = ''do-not-concatenate-before-hashing'', requirement = ''Pass each field as its own element rather than joining them first.'', consequence = ''Joining loses the boundaries, so distinct field splits hash alike.'', severity = Severity_Serious\<rparr>],
     edges = [\<lparr>relation = Relation_BuiltOn, target = ''cshake256''\<rparr>, \<lparr>relation = Relation_Supersedes, target = ''tuplehash128''\<rparr>],
     entry_performance = Performance_Fast,
     rust_path = ''ic_hash::TupleHash256'',
     example = ''ic_hash::TupleHash256::hash(b"my app", &[a, b], &mut out)?;'',
     entry_notes = ''Same construction as TupleHash128 over the wider sponge.''\<rparr>\<close>

lemma reg_tuplehash256_facts [registry_facts]:
  \<open>entry_id reg_tuplehash256 = ''tuplehash256''\<close>
  \<open>entry_name reg_tuplehash256 = ''TupleHash256''\<close>
  \<open>aliases reg_tuplehash256 = []\<close>
  \<open>entry_class reg_tuplehash256 = Class_Hash\<close>
  \<open>purposes reg_tuplehash256 = [Purpose_Integrity, Purpose_Commitment]\<close>
  \<open>classical (entry_strength reg_tuplehash256) = 256\<close>
  \<open>quantum (entry_strength reg_tuplehash256) = 128\<close>
  \<open>fips reg_tuplehash256 = FipsStatus_Approved\<close>
  \<open>status reg_tuplehash256 = ImplStatus_Available\<close>
  \<open>map target (edges reg_tuplehash256) = [''cshake256'', ''tuplehash128'']\<close>
  \<open>map constraint_id (constraints reg_tuplehash256) = [''do-not-concatenate-before-hashing'']\<close>
  \<open>entry_keys reg_tuplehash256 = [''tuplehash256'', ''tuplehash256'']\<close>
  \<open>rust_path reg_tuplehash256 \<noteq> []\<close>
  \<open>example reg_tuplehash256 \<noteq> []\<close>
  by (simp_all add: reg_tuplehash256_def registry_facts entry_keys_def ascii_lower_simps
      if_built_def NOT_APPROVED_STATUS_def)

definition reg_parallelhash128 :: "entry" where
  \<open>reg_parallelhash128 =
     \<lparr>entry_id = ''parallelhash128'',
     entry_name = ''ParallelHash128'',
     aliases = [''parallelhash''],
     summary = ''Hashes fixed-size blocks independently, then hashes their digests.'',
     entry_class = Class_Hash,
     family = ''SHA-3'',
     purposes = [Purpose_Integrity],
     entry_strength = \<lparr>classical = 128, quantum = 64\<rparr>,
     fips = FipsStatus_Approved,
     status = ImplStatus_Available,
     standards = [''SP 800-185''],
     params = PARALLELHASH_P,
     constraints = [\<lparr>constraint_id = ''block-size-is-part-of-the-digest'', requirement = ''Fix the block size in the protocol and never vary it per message.'', consequence = ''Two parties using different block sizes compute different digests over identical input, and neither can tell why.'', severity = Severity_Serious\<rparr>],
     edges = [\<lparr>relation = Relation_BuiltOn, target = ''cshake128''\<rparr>],
     entry_performance = Performance_Fast,
     rust_path = ''ic_hash::ParallelHash128'',
     example = ''ic_hash::ParallelHash128::hash(b"my app", 8192, data, &mut out)?;'',
     entry_notes = ''The structure allows the per-block work to be spread across cores. This build does the blocks in order, since the workspace has no threading and a no_std target has no threads to spread onto, so what it buys here is interoperability rather than speed. The digest is the same either way.''\<rparr>\<close>

lemma reg_parallelhash128_facts [registry_facts]:
  \<open>entry_id reg_parallelhash128 = ''parallelhash128''\<close>
  \<open>entry_name reg_parallelhash128 = ''ParallelHash128''\<close>
  \<open>aliases reg_parallelhash128 = [''parallelhash'']\<close>
  \<open>entry_class reg_parallelhash128 = Class_Hash\<close>
  \<open>purposes reg_parallelhash128 = [Purpose_Integrity]\<close>
  \<open>classical (entry_strength reg_parallelhash128) = 128\<close>
  \<open>quantum (entry_strength reg_parallelhash128) = 64\<close>
  \<open>fips reg_parallelhash128 = FipsStatus_Approved\<close>
  \<open>status reg_parallelhash128 = ImplStatus_Available\<close>
  \<open>map target (edges reg_parallelhash128) = [''cshake128'']\<close>
  \<open>map constraint_id (constraints reg_parallelhash128) = [''block-size-is-part-of-the-digest'']\<close>
  \<open>entry_keys reg_parallelhash128 = [''parallelhash128'', ''parallelhash128'', ''parallelhash'']\<close>
  \<open>rust_path reg_parallelhash128 \<noteq> []\<close>
  \<open>example reg_parallelhash128 \<noteq> []\<close>
  by (simp_all add: reg_parallelhash128_def registry_facts entry_keys_def ascii_lower_simps
      if_built_def NOT_APPROVED_STATUS_def)

definition reg_parallelhash256 :: "entry" where
  \<open>reg_parallelhash256 =
     \<lparr>entry_id = ''parallelhash256'',
     entry_name = ''ParallelHash256'',
     aliases = [],
     summary = ''ParallelHash at the 256-bit security level.'',
     entry_class = Class_Hash,
     family = ''SHA-3'',
     purposes = [Purpose_Integrity],
     entry_strength = \<lparr>classical = 256, quantum = 128\<rparr>,
     fips = FipsStatus_Approved,
     status = ImplStatus_Available,
     standards = [''SP 800-185''],
     params = PARALLELHASH_P,
     constraints = [\<lparr>constraint_id = ''block-size-is-part-of-the-digest'', requirement = ''Fix the block size in the protocol and never vary it per message.'', consequence = ''Two parties using different block sizes compute different digests.'', severity = Severity_Serious\<rparr>],
     edges = [\<lparr>relation = Relation_BuiltOn, target = ''cshake256''\<rparr>, \<lparr>relation = Relation_Supersedes, target = ''parallelhash128''\<rparr>],
     entry_performance = Performance_Fast,
     rust_path = ''ic_hash::ParallelHash256'',
     example = ''ic_hash::ParallelHash256::hash(b"my app", 8192, data, &mut out)?;'',
     entry_notes = ''Uses a 64-byte inner digest per block where ParallelHash128 uses 32.''\<rparr>\<close>

lemma reg_parallelhash256_facts [registry_facts]:
  \<open>entry_id reg_parallelhash256 = ''parallelhash256''\<close>
  \<open>entry_name reg_parallelhash256 = ''ParallelHash256''\<close>
  \<open>aliases reg_parallelhash256 = []\<close>
  \<open>entry_class reg_parallelhash256 = Class_Hash\<close>
  \<open>purposes reg_parallelhash256 = [Purpose_Integrity]\<close>
  \<open>classical (entry_strength reg_parallelhash256) = 256\<close>
  \<open>quantum (entry_strength reg_parallelhash256) = 128\<close>
  \<open>fips reg_parallelhash256 = FipsStatus_Approved\<close>
  \<open>status reg_parallelhash256 = ImplStatus_Available\<close>
  \<open>map target (edges reg_parallelhash256) = [''cshake256'', ''parallelhash128'']\<close>
  \<open>map constraint_id (constraints reg_parallelhash256) = [''block-size-is-part-of-the-digest'']\<close>
  \<open>entry_keys reg_parallelhash256 = [''parallelhash256'', ''parallelhash256'']\<close>
  \<open>rust_path reg_parallelhash256 \<noteq> []\<close>
  \<open>example reg_parallelhash256 \<noteq> []\<close>
  by (simp_all add: reg_parallelhash256_def registry_facts entry_keys_def ascii_lower_simps
      if_built_def NOT_APPROVED_STATUS_def)

definition reg_kmac128 :: "entry" where
  \<open>reg_kmac128 =
     \<lparr>entry_id = ''kmac128'',
     entry_name = ''KMAC128'',
     aliases = [''kmac''],
     summary = ''The SHA-3 family's MAC: a keyed sponge, with no HMAC nesting needed.'',
     entry_class = Class_Mac,
     family = ''SHA-3'',
     purposes = [Purpose_Authentication, Purpose_Integrity],
     entry_strength = \<lparr>classical = 128, quantum = 64\<rparr>,
     fips = FipsStatus_Approved,
     status = ImplStatus_Available,
     standards = [''SP 800-185''],
     params = KMAC_P,
     constraints = [\<lparr>constraint_id = ''compare-tags-in-constant-time'', requirement = ''Verify with the provided constant-time check, never with ==.'', consequence = ''An early-exit comparison leaks how many leading bytes matched, which recovers a valid tag one byte at a time.'', severity = Severity_Critical\<rparr>, \<lparr>constraint_id = ''separate-domains-with-customization'', requirement = ''Give two uses of the same key different customization strings.'', consequence = ''A tag produced for one purpose verifies for the other, so a message can be replayed across contexts.'', severity = Severity_Advisory\<rparr>],
     edges = [\<lparr>relation = Relation_BuiltOn, target = ''cshake128''\<rparr>, \<lparr>relation = Relation_PairsWith, target = ''sha3-256''\<rparr>],
     entry_performance = Performance_Fast,
     rust_path = ''ic_mac::Kmac128'',
     example = (''let mut tag = [0u8; 32];'' @ [CHR 0x0A] @ ''ic_mac::Kmac128::mac(key, b"my app", msg, &mut tag)?;'' @ [CHR 0x0A] @ ''ic_mac::Kmac128::verify(key, b"my app", msg, &tag)?;''),
     entry_notes = ''Unlike HMAC, the tag length is an input to the computation rather than a truncation of it, so a 32-byte tag is unrelated to the first 32 bytes of a 64-byte one and cannot be forged by truncating it. The XOF variant encodes zero instead and does produce a real stream.''\<rparr>\<close>

lemma reg_kmac128_facts [registry_facts]:
  \<open>entry_id reg_kmac128 = ''kmac128''\<close>
  \<open>entry_name reg_kmac128 = ''KMAC128''\<close>
  \<open>aliases reg_kmac128 = [''kmac'']\<close>
  \<open>entry_class reg_kmac128 = Class_Mac\<close>
  \<open>purposes reg_kmac128 = [Purpose_Authentication, Purpose_Integrity]\<close>
  \<open>classical (entry_strength reg_kmac128) = 128\<close>
  \<open>quantum (entry_strength reg_kmac128) = 64\<close>
  \<open>fips reg_kmac128 = FipsStatus_Approved\<close>
  \<open>status reg_kmac128 = ImplStatus_Available\<close>
  \<open>map target (edges reg_kmac128) = [''cshake128'', ''sha3-256'']\<close>
  \<open>map constraint_id (constraints reg_kmac128) = [''compare-tags-in-constant-time'', ''separate-domains-with-customization'']\<close>
  \<open>entry_keys reg_kmac128 = [''kmac128'', ''kmac128'', ''kmac'']\<close>
  \<open>rust_path reg_kmac128 \<noteq> []\<close>
  \<open>example reg_kmac128 \<noteq> []\<close>
  by (simp_all add: reg_kmac128_def registry_facts entry_keys_def ascii_lower_simps
      if_built_def NOT_APPROVED_STATUS_def)

definition reg_kmac256 :: "entry" where
  \<open>reg_kmac256 =
     \<lparr>entry_id = ''kmac256'',
     entry_name = ''KMAC256'',
     aliases = [],
     summary = ''KMAC at the 256-bit security level, for CNSA-style profiles.'',
     entry_class = Class_Mac,
     family = ''SHA-3'',
     purposes = [Purpose_Authentication, Purpose_Integrity],
     entry_strength = \<lparr>classical = 256, quantum = 128\<rparr>,
     fips = FipsStatus_Approved,
     status = ImplStatus_Available,
     standards = [''SP 800-185''],
     params = KMAC_P,
     constraints = [\<lparr>constraint_id = ''compare-tags-in-constant-time'', requirement = ''Verify with the provided constant-time check, never with ==.'', consequence = ''An early-exit comparison leaks how many leading bytes matched.'', severity = Severity_Critical\<rparr>],
     edges = [\<lparr>relation = Relation_BuiltOn, target = ''cshake256''\<rparr>, \<lparr>relation = Relation_Supersedes, target = ''kmac128''\<rparr>],
     entry_performance = Performance_Fast,
     rust_path = ''ic_mac::Kmac256'',
     example = ''ic_mac::Kmac256::mac(key, b"my app", msg, &mut tag)?;'',
     entry_notes = ''A smaller rate than KMAC128, so it absorbs fewer bytes per permutation and runs proportionally slower. Choose it to meet a profile.''\<rparr>\<close>

lemma reg_kmac256_facts [registry_facts]:
  \<open>entry_id reg_kmac256 = ''kmac256''\<close>
  \<open>entry_name reg_kmac256 = ''KMAC256''\<close>
  \<open>aliases reg_kmac256 = []\<close>
  \<open>entry_class reg_kmac256 = Class_Mac\<close>
  \<open>purposes reg_kmac256 = [Purpose_Authentication, Purpose_Integrity]\<close>
  \<open>classical (entry_strength reg_kmac256) = 256\<close>
  \<open>quantum (entry_strength reg_kmac256) = 128\<close>
  \<open>fips reg_kmac256 = FipsStatus_Approved\<close>
  \<open>status reg_kmac256 = ImplStatus_Available\<close>
  \<open>map target (edges reg_kmac256) = [''cshake256'', ''kmac128'']\<close>
  \<open>map constraint_id (constraints reg_kmac256) = [''compare-tags-in-constant-time'']\<close>
  \<open>entry_keys reg_kmac256 = [''kmac256'', ''kmac256'']\<close>
  \<open>rust_path reg_kmac256 \<noteq> []\<close>
  \<open>example reg_kmac256 \<noteq> []\<close>
  by (simp_all add: reg_kmac256_def registry_facts entry_keys_def ascii_lower_simps
      if_built_def NOT_APPROVED_STATUS_def)

end
