(* ===== verification/Registry_Signatures.thy ===== *)
theory Registry_Signatures
  imports Registry_Consts
begin

text \<open>
  Entries of \<open>REGISTRY\<close> in \<open>crates/ic-ontology/src/registry.rs\<close>, lines 3587 onward:
  customisable XOFs and the remaining signatures.
  After each entry stand the fields a selection reads.
\<close>

definition reg_cshake128 :: "entry" where
  \<open>reg_cshake128 =
     \<lparr>entry_id = ''cshake128'',
     entry_name = ''cSHAKE128'',
     aliases = [],
     summary = ''SHAKE128 with a customization string, and the substrate KMAC is built on.'',
     entry_class = Class_Xof,
     family = ''SHA-3'',
     purposes = [Purpose_Integrity],
     entry_strength = \<lparr>classical = 128, quantum = 64\<rparr>,
     fips = FipsStatus_Approved,
     status = ImplStatus_Available,
     standards = [''SP 800-185''],
     params = CSHAKE_P,
     constraints = [NOT_COLLISION_RESISTANT],
     edges = [\<lparr>relation = Relation_Specializes, target = ''shake128''\<rparr>],
     entry_performance = Performance_Fast,
     rust_path = ''ic_hash::CShake128'',
     example = (''let mut out = [0u8; 32];'' @ [CHR 0x0A] @ ''ic_hash::CShake128::xof(b"", b"my app", msg, &mut out)?;''),
     entry_notes = ''With an empty customization string this is bit-for-bit SHAKE128, which is how SP 800-185 defines it and how the self-test checks it. Reach for it when two protocols hash the same bytes and must not agree on the result.''\<rparr>\<close>

lemma reg_cshake128_facts [registry_facts]:
  \<open>entry_id reg_cshake128 = ''cshake128''\<close>
  \<open>entry_name reg_cshake128 = ''cSHAKE128''\<close>
  \<open>aliases reg_cshake128 = []\<close>
  \<open>entry_class reg_cshake128 = Class_Xof\<close>
  \<open>purposes reg_cshake128 = [Purpose_Integrity]\<close>
  \<open>classical (entry_strength reg_cshake128) = 128\<close>
  \<open>quantum (entry_strength reg_cshake128) = 64\<close>
  \<open>fips reg_cshake128 = FipsStatus_Approved\<close>
  \<open>status reg_cshake128 = ImplStatus_Available\<close>
  \<open>map target (edges reg_cshake128) = [''shake128'']\<close>
  \<open>map constraint_id (constraints reg_cshake128) = [''no-collision-resistance'']\<close>
  \<open>entry_keys reg_cshake128 = [''cshake128'', ''cshake128'']\<close>
  \<open>rust_path reg_cshake128 \<noteq> []\<close>
  \<open>example reg_cshake128 \<noteq> []\<close>
  by (simp_all add: reg_cshake128_def registry_facts entry_keys_def ascii_lower_simps
      if_built_def NOT_APPROVED_STATUS_def)

definition reg_cshake256 :: "entry" where
  \<open>reg_cshake256 =
     \<lparr>entry_id = ''cshake256'',
     entry_name = ''cSHAKE256'',
     aliases = [],
     summary = ''SHAKE256 with a customization string.'',
     entry_class = Class_Xof,
     family = ''SHA-3'',
     purposes = [Purpose_Integrity],
     entry_strength = \<lparr>classical = 256, quantum = 128\<rparr>,
     fips = FipsStatus_Approved,
     status = ImplStatus_Available,
     standards = [''SP 800-185''],
     params = CSHAKE_P,
     constraints = [NOT_COLLISION_RESISTANT],
     edges = [\<lparr>relation = Relation_Specializes, target = ''shake256''\<rparr>],
     entry_performance = Performance_Fast,
     rust_path = ''ic_hash::CShake256'',
     example = ''ic_hash::CShake256::xof(b"", b"my app", msg, &mut out)?;'',
     entry_notes = ''With an empty customization string this is bit-for-bit SHAKE256.''\<rparr>\<close>

lemma reg_cshake256_facts [registry_facts]:
  \<open>entry_id reg_cshake256 = ''cshake256''\<close>
  \<open>entry_name reg_cshake256 = ''cSHAKE256''\<close>
  \<open>aliases reg_cshake256 = []\<close>
  \<open>entry_class reg_cshake256 = Class_Xof\<close>
  \<open>purposes reg_cshake256 = [Purpose_Integrity]\<close>
  \<open>classical (entry_strength reg_cshake256) = 256\<close>
  \<open>quantum (entry_strength reg_cshake256) = 128\<close>
  \<open>fips reg_cshake256 = FipsStatus_Approved\<close>
  \<open>status reg_cshake256 = ImplStatus_Available\<close>
  \<open>map target (edges reg_cshake256) = [''shake256'']\<close>
  \<open>map constraint_id (constraints reg_cshake256) = [''no-collision-resistance'']\<close>
  \<open>entry_keys reg_cshake256 = [''cshake256'', ''cshake256'']\<close>
  \<open>rust_path reg_cshake256 \<noteq> []\<close>
  \<open>example reg_cshake256 \<noteq> []\<close>
  by (simp_all add: reg_cshake256_def registry_facts entry_keys_def ascii_lower_simps
      if_built_def NOT_APPROVED_STATUS_def)

definition reg_ecdsa_p521_sha512 :: "entry" where
  \<open>reg_ecdsa_p521_sha512 =
     \<lparr>entry_id = ''ecdsa-p521-sha512'',
     entry_name = ''ECDSA P-521 with SHA-512'',
     aliases = [''ecdsa-secp521r1''],
     summary = ''The largest NIST prime curve, for profiles that require 256-bit strength.'',
     entry_class = Class_Signature,
     family = ''NIST P-curves'',
     purposes = [Purpose_Authentication, Purpose_NonRepudiation],
     entry_strength = (strength_classical_only 256),
     fips = FipsStatus_Approved,
     status = ImplStatus_Available,
     standards = [''FIPS 186-5'', ''SP 800-186'', ''RFC 6979''],
     params = P521_SIG_P,
     constraints = [\<lparr>constraint_id = ''unique-signing-nonce'', requirement = ''Generate a fresh random k per signature, or derive it deterministically per RFC 6979.'', consequence = ''A repeated or predictable k reveals the private key from two signatures.'', severity = Severity_Critical\<rparr>, \<lparr>constraint_id = ''ecdsa-is-malleable'', requirement = ''Normalize to low-s, or do not treat a signature as a unique identifier.'', consequence = ''Both (r, s) and (r, n - s) verify, so a signature used as a database key or transaction id can be duplicated.'', severity = Severity_Serious\<rparr>, \<lparr>constraint_id = ''prehash-digest-is-trusted'', requirement = ''When verifying over a digest you computed (verify_prehash), bind which SHA-2 or SHA-3 hash produced it. A digest narrower than the curve's strength is refused.'', consequence = ''verify_prehash can check a digest's width but not which hash produced it; an unbound choice lets a signature over one hash be presented as over another of the same width.'', severity = Severity_Serious\<rparr>],
     edges = [\<lparr>relation = Relation_BuiltOn, target = ''sha2-512''\<rparr>, \<lparr>relation = Relation_PairsWith, target = ''ecdh-p521''\<rparr>, \<lparr>relation = Relation_Supersedes, target = ''ecdsa-p384-sha384''\<rparr>],
     entry_performance = Performance_Slow,
     rust_path = ''ic_ec::p521::EcdsaP521Sha512'',
     example = (''use ic_core::traits::SignatureScheme;'' @ [CHR 0x0A] @ ''ic_ec::p521::EcdsaP521Sha512::sign(&sk, msg, &mut sig)?;''),
     entry_notes = ''The only pairing here where the hash is narrower than the group order: SHA-512 gives 512 bits against 521, so RFC 6979 accumulates two HMAC blocks and keeps the leftmost 521 bits. Field elements are 66 bytes with the top seven bits always zero. Nonces are derived per RFC 6979, so the unique-signing-nonce constraint is satisfied by construction.''\<rparr>\<close>

lemma reg_ecdsa_p521_sha512_facts [registry_facts]:
  \<open>entry_id reg_ecdsa_p521_sha512 = ''ecdsa-p521-sha512''\<close>
  \<open>entry_name reg_ecdsa_p521_sha512 = ''ECDSA P-521 with SHA-512''\<close>
  \<open>aliases reg_ecdsa_p521_sha512 = [''ecdsa-secp521r1'']\<close>
  \<open>entry_class reg_ecdsa_p521_sha512 = Class_Signature\<close>
  \<open>purposes reg_ecdsa_p521_sha512 = [Purpose_Authentication, Purpose_NonRepudiation]\<close>
  \<open>classical (entry_strength reg_ecdsa_p521_sha512) = 256\<close>
  \<open>quantum (entry_strength reg_ecdsa_p521_sha512) = 0\<close>
  \<open>fips reg_ecdsa_p521_sha512 = FipsStatus_Approved\<close>
  \<open>status reg_ecdsa_p521_sha512 = ImplStatus_Available\<close>
  \<open>map target (edges reg_ecdsa_p521_sha512) = [''sha2-512'', ''ecdh-p521'', ''ecdsa-p384-sha384'']\<close>
  \<open>map constraint_id (constraints reg_ecdsa_p521_sha512) = [''unique-signing-nonce'', ''ecdsa-is-malleable'', ''prehash-digest-is-trusted'']\<close>
  \<open>entry_keys reg_ecdsa_p521_sha512 = [''ecdsa-p521-sha512'', ''ecdsa p-521 with sha-512'', ''ecdsa-secp521r1'']\<close>
  \<open>rust_path reg_ecdsa_p521_sha512 \<noteq> []\<close>
  \<open>example reg_ecdsa_p521_sha512 \<noteq> []\<close>
  by (simp_all add: reg_ecdsa_p521_sha512_def registry_facts entry_keys_def ascii_lower_simps
      if_built_def NOT_APPROVED_STATUS_def)

definition reg_ecdh_p521 :: "entry" where
  \<open>reg_ecdh_p521 =
     \<lparr>entry_id = ''ecdh-p521'',
     entry_name = ''ECDH P-521'',
     aliases = [''ecdh-secp521r1''],
     summary = ''Key agreement on the largest NIST prime curve.'',
     entry_class = Class_KeyAgreement,
     family = ''NIST P-curves'',
     purposes = [Purpose_KeyEstablishment],
     entry_strength = (strength_classical_only 256),
     fips = FipsStatus_Approved,
     status = ImplStatus_Available,
     standards = [''SP 800-56A'', ''SP 800-186''],
     params = P521_KA_P,
     constraints = [VALIDATE_PEER_KEY, HASH_TRANSCRIPT],
     edges = [\<lparr>relation = Relation_PairsWith, target = ''hkdf-sha2-256''\<rparr>, \<lparr>relation = Relation_Supersedes, target = ''ecdh-p384''\<rparr>],
     entry_performance = Performance_Slow,
     rust_path = ''ic_ec::p521::EcdhP521'',
     example = (''use ic_core::traits::KeyAgreement;'' @ [CHR 0x0A] @ ''ic_ec::p521::EcdhP521::agree(&sk, &peer, &mut secret)?;''),
     entry_notes = ''Roughly three times the cost of P-384 for a security level few threat models distinguish from it. Choose it to meet a profile, not for the margin. For repeated agreement with one peer key, `ic_ec::p521::PreparedPublicKey` checks and expands the key once.''\<rparr>\<close>

lemma reg_ecdh_p521_facts [registry_facts]:
  \<open>entry_id reg_ecdh_p521 = ''ecdh-p521''\<close>
  \<open>entry_name reg_ecdh_p521 = ''ECDH P-521''\<close>
  \<open>aliases reg_ecdh_p521 = [''ecdh-secp521r1'']\<close>
  \<open>entry_class reg_ecdh_p521 = Class_KeyAgreement\<close>
  \<open>purposes reg_ecdh_p521 = [Purpose_KeyEstablishment]\<close>
  \<open>classical (entry_strength reg_ecdh_p521) = 256\<close>
  \<open>quantum (entry_strength reg_ecdh_p521) = 0\<close>
  \<open>fips reg_ecdh_p521 = FipsStatus_Approved\<close>
  \<open>status reg_ecdh_p521 = ImplStatus_Available\<close>
  \<open>map target (edges reg_ecdh_p521) = [''hkdf-sha2-256'', ''ecdh-p384'']\<close>
  \<open>map constraint_id (constraints reg_ecdh_p521) = [''validate-peer-public-key'', ''bind-shared-secret-to-transcript'']\<close>
  \<open>entry_keys reg_ecdh_p521 = [''ecdh-p521'', ''ecdh p-521'', ''ecdh-secp521r1'']\<close>
  \<open>rust_path reg_ecdh_p521 \<noteq> []\<close>
  \<open>example reg_ecdh_p521 \<noteq> []\<close>
  by (simp_all add: reg_ecdh_p521_def registry_facts entry_keys_def ascii_lower_simps
      if_built_def NOT_APPROVED_STATUS_def)

definition reg_ecdsa_p256_sha256 :: "entry" where
  \<open>reg_ecdsa_p256_sha256 =
     \<lparr>entry_id = ''ecdsa-p256-sha256'',
     entry_name = ''ECDSA P-256 with SHA-256'',
     aliases = [''ecdsa-secp256r1''],
     summary = ''The most widely deployed approved signature scheme.'',
     entry_class = Class_Signature,
     family = ''NIST P-curves'',
     purposes = [Purpose_Authentication, Purpose_NonRepudiation],
     entry_strength = (strength_classical_only 128),
     fips = FipsStatus_Approved,
     status = ImplStatus_Available,
     standards = [''FIPS 186-5'', ''SP 800-186'', ''RFC 6979''],
     params = P256_SIG_P,
     constraints = [\<lparr>constraint_id = ''unique-signing-nonce'', requirement = ''Generate a fresh random k per signature, or derive it deterministically per RFC 6979.'', consequence = ''A repeated or predictable k reveals the private key from two signatures.'', severity = Severity_Critical\<rparr>, \<lparr>constraint_id = ''ecdsa-is-malleable'', requirement = ''Normalize to low-s, or do not treat a signature as a unique identifier.'', consequence = ''Both (r, s) and (r, n - s) verify, so a signature used as a database key or transaction id can be duplicated.'', severity = Severity_Serious\<rparr>, \<lparr>constraint_id = ''prehash-digest-is-trusted'', requirement = ''When verifying over a digest you computed (verify_prehash), bind which SHA-2 or SHA-3 hash produced it. A digest narrower than the curve's strength is refused.'', consequence = ''verify_prehash can check a digest's width but not which hash produced it; an unbound choice lets a signature over one hash be presented as over another of the same width.'', severity = Severity_Serious\<rparr>],
     edges = [\<lparr>relation = Relation_BuiltOn, target = ''sha2-256''\<rparr>, \<lparr>relation = Relation_PairsWith, target = ''ecdh-p256''\<rparr>],
     entry_performance = Performance_Moderate,
     rust_path = ''ic_ec::p256::EcdsaP256Sha256'',
     example = (''use ic_core::traits::SignatureScheme;'' @ [CHR 0x0A] @ ''ic_ec::p256::EcdsaP256Sha256::sign(&sk, msg, &mut sig)?;'' @ [CHR 0x0A] @ ''ic_ec::p256::EcdsaP256Sha256::verify(&pk, msg, &sig)?;''),
     entry_notes = ''This implementation derives k deterministically per RFC 6979, so the unique-signing-nonce constraint is satisfied by construction and there is no RNG in the signing path. Signatures are fixed-width r || s, not DER.''\<rparr>\<close>

lemma reg_ecdsa_p256_sha256_facts [registry_facts]:
  \<open>entry_id reg_ecdsa_p256_sha256 = ''ecdsa-p256-sha256''\<close>
  \<open>entry_name reg_ecdsa_p256_sha256 = ''ECDSA P-256 with SHA-256''\<close>
  \<open>aliases reg_ecdsa_p256_sha256 = [''ecdsa-secp256r1'']\<close>
  \<open>entry_class reg_ecdsa_p256_sha256 = Class_Signature\<close>
  \<open>purposes reg_ecdsa_p256_sha256 = [Purpose_Authentication, Purpose_NonRepudiation]\<close>
  \<open>classical (entry_strength reg_ecdsa_p256_sha256) = 128\<close>
  \<open>quantum (entry_strength reg_ecdsa_p256_sha256) = 0\<close>
  \<open>fips reg_ecdsa_p256_sha256 = FipsStatus_Approved\<close>
  \<open>status reg_ecdsa_p256_sha256 = ImplStatus_Available\<close>
  \<open>map target (edges reg_ecdsa_p256_sha256) = [''sha2-256'', ''ecdh-p256'']\<close>
  \<open>map constraint_id (constraints reg_ecdsa_p256_sha256) = [''unique-signing-nonce'', ''ecdsa-is-malleable'', ''prehash-digest-is-trusted'']\<close>
  \<open>entry_keys reg_ecdsa_p256_sha256 = [''ecdsa-p256-sha256'', ''ecdsa p-256 with sha-256'', ''ecdsa-secp256r1'']\<close>
  \<open>rust_path reg_ecdsa_p256_sha256 \<noteq> []\<close>
  \<open>example reg_ecdsa_p256_sha256 \<noteq> []\<close>
  by (simp_all add: reg_ecdsa_p256_sha256_def registry_facts entry_keys_def ascii_lower_simps
      if_built_def NOT_APPROVED_STATUS_def)

definition reg_slh_dsa :: "entry" where
  \<open>reg_slh_dsa =
     \<lparr>entry_id = ''slh-dsa'',
     entry_name = ''SLH-DSA'',
     aliases = [''sphincs+'', ''sphincs'', ''stateless-hash-based-signature''],
     summary = ''Post-quantum signatures from hashes alone, with no state to keep: FIPS 205. Large and slow, and resting on the weakest assumption of any signature here.'',
     entry_class = Class_Signature,
     family = ''SLH-DSA'',
     purposes = [Purpose_Authentication, Purpose_NonRepudiation],
     entry_strength = \<lparr>classical = 128, quantum = 128\<rparr>,
     fips = FipsStatus_Approved,
     status = ImplStatus_Available,
     standards = [''FIPS 205''],
     params = SLH_DSA_P,
     constraints = [\<lparr>constraint_id = ''slh-dsa-prefer-hedged'', requirement = ''Sign with ic_slhdsa::sign, which draws fresh randomness; use sign_deterministic only where no random bit generator exists.'', consequence = ''FIPS 205 makes hedged signing the default because it blunts fault and side-channel attacks on the signer that deterministic signing leaves open.'', severity = Severity_Serious\<rparr>, \<lparr>constraint_id = ''slh-dsa-fix-the-parameter-set'', requirement = ''Verify under the parameter set the key was made for, known from the key's identifier, never inferred from a signature's length.'', consequence = ''The SHA-2 and SHAKE sets of one size have identical key and signature lengths; a verifier that guesses can be steered.'', severity = Severity_Serious\<rparr>, \<lparr>constraint_id = ''slh-dsa-signature-limit'', requirement = ''Sign at most 2^64 messages with one key.'', consequence = ''The security claim of FIPS 205 holds up to that many signatures; no real signer reaches it.'', severity = Severity_Advisory\<rparr>],
     edges = [\<lparr>relation = Relation_PairsWith, target = ''ml-dsa-65''\<rparr>, \<lparr>relation = Relation_BuiltOn, target = ''shake256''\<rparr>, \<lparr>relation = Relation_BuiltOn, target = ''sha2-256''\<rparr>],
     entry_performance = Performance_Slow,
     rust_path = ''ic_slhdsa::SlhDsa'',
     example = (''let set = ic_slhdsa::ParameterSet::Sha2_128f;'' @ [CHR 0x0A] @ ''ic_slhdsa::keygen(set, &mut rng, &mut sk, &mut pk)?;'' @ [CHR 0x0A] @ ''ic_slhdsa::sign(set, &sk, msg, ctx, &mut rng, &mut sig)?;'' @ [CHR 0x0A] @ ''ic_slhdsa::verify(set, &pk, msg, ctx, &sig)?;''),
     entry_notes = ''All twelve parameter sets of FIPS 205: SHA-2 and SHAKE at categories 1, 3 and 5, small-signature and fast-signing. Pure signing with a context string, hedged or deterministic, and HashSLH-DSA (hash_sign, hash_verify) under twelve pre-hash functions; prefer pure signing, and check PreHash::suits before pairing a short digest with a strong set. SP 800-230's sets are not implemented. It rests on a different assumption from ML-DSA on purpose -- only that its hash is sound, where ML-DSA needs a lattice problem to stay hard -- which is the reason to want it. Signatures are 7,856 to 49,856 bytes and signing takes from thousands to millions of hash calls; that is the price of the weaker assumption, not a defect. Not in CNSA 2.0, which names LMS and XMSS for hash-based signatures. Checked against NIST's ACVP vectors for every set.''\<rparr>\<close>

lemma reg_slh_dsa_facts [registry_facts]:
  \<open>entry_id reg_slh_dsa = ''slh-dsa''\<close>
  \<open>entry_name reg_slh_dsa = ''SLH-DSA''\<close>
  \<open>aliases reg_slh_dsa = [''sphincs+'', ''sphincs'', ''stateless-hash-based-signature'']\<close>
  \<open>entry_class reg_slh_dsa = Class_Signature\<close>
  \<open>purposes reg_slh_dsa = [Purpose_Authentication, Purpose_NonRepudiation]\<close>
  \<open>classical (entry_strength reg_slh_dsa) = 128\<close>
  \<open>quantum (entry_strength reg_slh_dsa) = 128\<close>
  \<open>fips reg_slh_dsa = FipsStatus_Approved\<close>
  \<open>status reg_slh_dsa = ImplStatus_Available\<close>
  \<open>map target (edges reg_slh_dsa) = [''ml-dsa-65'', ''shake256'', ''sha2-256'']\<close>
  \<open>map constraint_id (constraints reg_slh_dsa) = [''slh-dsa-prefer-hedged'', ''slh-dsa-fix-the-parameter-set'', ''slh-dsa-signature-limit'']\<close>
  \<open>entry_keys reg_slh_dsa = [''slh-dsa'', ''slh-dsa'', ''sphincs+'', ''sphincs'', ''stateless-hash-based-signature'']\<close>
  \<open>rust_path reg_slh_dsa \<noteq> []\<close>
  \<open>example reg_slh_dsa \<noteq> []\<close>
  by (simp_all add: reg_slh_dsa_def registry_facts entry_keys_def ascii_lower_simps
      if_built_def NOT_APPROVED_STATUS_def)

definition reg_ml_dsa_65 :: "entry" where
  \<open>reg_ml_dsa_65 =
     \<lparr>entry_id = ''ml-dsa-65'',
     entry_name = ''ML-DSA-65'',
     aliases = [''dilithium3'', ''dilithium''],
     summary = ''Post-quantum signatures; the standardized successor to Dilithium.'',
     entry_class = Class_Signature,
     family = ''ML-DSA'',
     purposes = [Purpose_Authentication, Purpose_NonRepudiation],
     entry_strength = \<lparr>classical = 192, quantum = 192\<rparr>,
     fips = FipsStatus_Approved,
     status = ImplStatus_Available,
     standards = [''FIPS 204''],
     params = MLDSA65_P,
     constraints = MLDSA_CONSTRAINTS,
     edges = [\<lparr>relation = Relation_Supersedes, target = ''ecdsa-p256-sha256''\<rparr>, \<lparr>relation = Relation_PairsWith, target = ''ecdsa-p256-sha256''\<rparr>, \<lparr>relation = Relation_BuiltOn, target = ''shake256''\<rparr>],
     entry_performance = Performance_Moderate,
     rust_path = ''ic_mldsa::sign'',
     example = (''let mut pk = [0u8; ic_mldsa::sign::PUBLIC_KEY_LEN];'' @ [CHR 0x0A] @ ''let mut sk = [0u8; ic_mldsa::sign::SECRET_KEY_LEN];'' @ [CHR 0x0A] @ ''// every call below returns a value you must check'' @ [CHR 0x0A] @ ''assert!(ic_mldsa::sign::keygen(&seed, &mut pk, &mut sk));'' @ [CHR 0x0A] @ ''let mut sig = [0u8; ic_mldsa::sign::SIGNATURE_LEN];'' @ [CHR 0x0A] @ ''assert!(ic_mldsa::sign::sign(&sk, msg, ctx, &rnd, &mut sig));'' @ [CHR 0x0A] @ ''assert!(ic_mldsa::sign::verify(&pk, msg, ctx, &sig));''),
     entry_notes = (''Checked against NIST's published ACVP vectors: 25 key generation cases and 30 signature generation cases for ML-DSA-65, every case in the parameter set rather than a selection. The signing cases cover both paths '' @ [CHR 0xE2, CHR 0x80, CHR 0x94] @ '' 15 deterministic and 15 hedged, the hedged ones using the randomness the vector specifies rather than zeros '' @ [CHR 0xE2, CHR 0x80, CHR 0x94] @ '' so the two differ in the file as they do in the code. ML-DSA-44 and ML-DSA-87 share this code and are checked against their own vectors. Verification refuses non-canonical hint blocks, so one signature has one encoding.'')\<rparr>\<close>

lemma reg_ml_dsa_65_facts [registry_facts]:
  \<open>entry_id reg_ml_dsa_65 = ''ml-dsa-65''\<close>
  \<open>entry_name reg_ml_dsa_65 = ''ML-DSA-65''\<close>
  \<open>aliases reg_ml_dsa_65 = [''dilithium3'', ''dilithium'']\<close>
  \<open>entry_class reg_ml_dsa_65 = Class_Signature\<close>
  \<open>purposes reg_ml_dsa_65 = [Purpose_Authentication, Purpose_NonRepudiation]\<close>
  \<open>classical (entry_strength reg_ml_dsa_65) = 192\<close>
  \<open>quantum (entry_strength reg_ml_dsa_65) = 192\<close>
  \<open>fips reg_ml_dsa_65 = FipsStatus_Approved\<close>
  \<open>status reg_ml_dsa_65 = ImplStatus_Available\<close>
  \<open>map target (edges reg_ml_dsa_65) = [''ecdsa-p256-sha256'', ''ecdsa-p256-sha256'', ''shake256'']\<close>
  \<open>map constraint_id (constraints reg_ml_dsa_65) = [''deploy-post-quantum-in-a-hybrid'', ''supply-randomness-or-choose-determinism'']\<close>
  \<open>entry_keys reg_ml_dsa_65 = [''ml-dsa-65'', ''ml-dsa-65'', ''dilithium3'', ''dilithium'']\<close>
  \<open>rust_path reg_ml_dsa_65 \<noteq> []\<close>
  \<open>example reg_ml_dsa_65 \<noteq> []\<close>
  by (simp_all add: reg_ml_dsa_65_def registry_facts entry_keys_def ascii_lower_simps
      if_built_def NOT_APPROVED_STATUS_def)

definition reg_ml_dsa_44 :: "entry" where
  \<open>reg_ml_dsa_44 =
     \<lparr>entry_id = ''ml-dsa-44'',
     entry_name = ''ML-DSA-44'',
     aliases = [''dilithium2''],
     summary = ''Post-quantum signatures, FIPS 204 security category 2.'',
     entry_class = Class_Signature,
     family = ''ML-DSA'',
     purposes = [Purpose_Authentication, Purpose_NonRepudiation],
     entry_strength = \<lparr>classical = 128, quantum = 128\<rparr>,
     fips = FipsStatus_Approved,
     status = ImplStatus_Available,
     standards = [''FIPS 204''],
     params = MLDSA44_P,
     constraints = MLDSA_CONSTRAINTS,
     edges = [\<lparr>relation = Relation_PairsWith, target = ''ecdsa-p256-sha256''\<rparr>, \<lparr>relation = Relation_BuiltOn, target = ''shake256''\<rparr>],
     entry_performance = Performance_Moderate,
     rust_path = ''ic_mldsa::sign44'',
     example = (''let mut pk = [0u8; ic_mldsa::sign44::PUBLIC_KEY_LEN];'' @ [CHR 0x0A] @ ''let mut sk = [0u8; ic_mldsa::sign44::SECRET_KEY_LEN];'' @ [CHR 0x0A] @ ''// every call below returns a value you must check'' @ [CHR 0x0A] @ ''assert!(ic_mldsa::sign44::keygen(&seed, &mut pk, &mut sk));'' @ [CHR 0x0A] @ ''let mut sig = [0u8; ic_mldsa::sign44::SIGNATURE_LEN];'' @ [CHR 0x0A] @ ''assert!(ic_mldsa::sign44::sign(&sk, msg, ctx, &rnd, &mut sig));'' @ [CHR 0x0A] @ ''assert!(ic_mldsa::sign44::verify(&pk, msg, ctx, &sig));''),
     entry_notes = ''The ML-DSA-65 scheme at FIPS 204's ML-DSA-44 parameters, sharing its code: the scheme is written once and instantiated per parameter set. Checked against NIST's ACVP vectors for this set on its own account -- all 25 key-generation cases and all 30 external, pure signature cases, 15 deterministic and 15 hedged -- since the parameters are exactly what differs. The smallest keys and signatures, at category 2. `recommend` offers ML-DSA-65, the middle set; choose this one deliberately.''\<rparr>\<close>

lemma reg_ml_dsa_44_facts [registry_facts]:
  \<open>entry_id reg_ml_dsa_44 = ''ml-dsa-44''\<close>
  \<open>entry_name reg_ml_dsa_44 = ''ML-DSA-44''\<close>
  \<open>aliases reg_ml_dsa_44 = [''dilithium2'']\<close>
  \<open>entry_class reg_ml_dsa_44 = Class_Signature\<close>
  \<open>purposes reg_ml_dsa_44 = [Purpose_Authentication, Purpose_NonRepudiation]\<close>
  \<open>classical (entry_strength reg_ml_dsa_44) = 128\<close>
  \<open>quantum (entry_strength reg_ml_dsa_44) = 128\<close>
  \<open>fips reg_ml_dsa_44 = FipsStatus_Approved\<close>
  \<open>status reg_ml_dsa_44 = ImplStatus_Available\<close>
  \<open>map target (edges reg_ml_dsa_44) = [''ecdsa-p256-sha256'', ''shake256'']\<close>
  \<open>map constraint_id (constraints reg_ml_dsa_44) = [''deploy-post-quantum-in-a-hybrid'', ''supply-randomness-or-choose-determinism'']\<close>
  \<open>entry_keys reg_ml_dsa_44 = [''ml-dsa-44'', ''ml-dsa-44'', ''dilithium2'']\<close>
  \<open>rust_path reg_ml_dsa_44 \<noteq> []\<close>
  \<open>example reg_ml_dsa_44 \<noteq> []\<close>
  by (simp_all add: reg_ml_dsa_44_def registry_facts entry_keys_def ascii_lower_simps
      if_built_def NOT_APPROVED_STATUS_def)

definition reg_ml_dsa_87 :: "entry" where
  \<open>reg_ml_dsa_87 =
     \<lparr>entry_id = ''ml-dsa-87'',
     entry_name = ''ML-DSA-87'',
     aliases = [''dilithium5''],
     summary = ''Post-quantum signatures, FIPS 204 security category 5.'',
     entry_class = Class_Signature,
     family = ''ML-DSA'',
     purposes = [Purpose_Authentication, Purpose_NonRepudiation],
     entry_strength = \<lparr>classical = 256, quantum = 256\<rparr>,
     fips = FipsStatus_Approved,
     status = ImplStatus_Available,
     standards = [''FIPS 204''],
     params = MLDSA87_P,
     constraints = MLDSA_CONSTRAINTS,
     edges = [\<lparr>relation = Relation_PairsWith, target = ''ecdsa-p256-sha256''\<rparr>, \<lparr>relation = Relation_BuiltOn, target = ''shake256''\<rparr>],
     entry_performance = Performance_Moderate,
     rust_path = ''ic_mldsa::sign87'',
     example = (''let mut pk = [0u8; ic_mldsa::sign87::PUBLIC_KEY_LEN];'' @ [CHR 0x0A] @ ''let mut sk = [0u8; ic_mldsa::sign87::SECRET_KEY_LEN];'' @ [CHR 0x0A] @ ''// every call below returns a value you must check'' @ [CHR 0x0A] @ ''assert!(ic_mldsa::sign87::keygen(&seed, &mut pk, &mut sk));'' @ [CHR 0x0A] @ ''let mut sig = [0u8; ic_mldsa::sign87::SIGNATURE_LEN];'' @ [CHR 0x0A] @ ''assert!(ic_mldsa::sign87::sign(&sk, msg, ctx, &rnd, &mut sig));'' @ [CHR 0x0A] @ ''assert!(ic_mldsa::sign87::verify(&pk, msg, ctx, &sig));''),
     entry_notes = ''The ML-DSA-65 scheme at FIPS 204's ML-DSA-87 parameters, sharing its code: the scheme is written once and instantiated per parameter set. Checked against NIST's ACVP vectors for this set on its own account -- all 25 key-generation cases and all 30 external, pure signature cases, 15 deterministic and 15 hedged -- since the parameters are exactly what differs. The largest, at category 5, for a policy that asks for it. `recommend` offers ML-DSA-65, the middle set; choose this one deliberately.''\<rparr>\<close>

lemma reg_ml_dsa_87_facts [registry_facts]:
  \<open>entry_id reg_ml_dsa_87 = ''ml-dsa-87''\<close>
  \<open>entry_name reg_ml_dsa_87 = ''ML-DSA-87''\<close>
  \<open>aliases reg_ml_dsa_87 = [''dilithium5'']\<close>
  \<open>entry_class reg_ml_dsa_87 = Class_Signature\<close>
  \<open>purposes reg_ml_dsa_87 = [Purpose_Authentication, Purpose_NonRepudiation]\<close>
  \<open>classical (entry_strength reg_ml_dsa_87) = 256\<close>
  \<open>quantum (entry_strength reg_ml_dsa_87) = 256\<close>
  \<open>fips reg_ml_dsa_87 = FipsStatus_Approved\<close>
  \<open>status reg_ml_dsa_87 = ImplStatus_Available\<close>
  \<open>map target (edges reg_ml_dsa_87) = [''ecdsa-p256-sha256'', ''shake256'']\<close>
  \<open>map constraint_id (constraints reg_ml_dsa_87) = [''deploy-post-quantum-in-a-hybrid'', ''supply-randomness-or-choose-determinism'']\<close>
  \<open>entry_keys reg_ml_dsa_87 = [''ml-dsa-87'', ''ml-dsa-87'', ''dilithium5'']\<close>
  \<open>rust_path reg_ml_dsa_87 \<noteq> []\<close>
  \<open>example reg_ml_dsa_87 \<noteq> []\<close>
  by (simp_all add: reg_ml_dsa_87_def registry_facts entry_keys_def ascii_lower_simps
      if_built_def NOT_APPROVED_STATUS_def)

definition reg_hss_lms :: "entry" where
  \<open>reg_hss_lms =
     \<lparr>entry_id = ''hss-lms'',
     entry_name = ''HSS/LMS'',
     aliases = [''lms'', ''hss'', ''leighton-micali'', ''stateful-hash-based-signature''],
     summary = ''Hash-based signatures whose security needs only a hash function: what CNSA 2.0 names for signing firmware and software. Verification only.'',
     entry_class = Class_Signature,
     family = ''Stateful hash-based'',
     purposes = [Purpose_Authentication, Purpose_Integrity],
     entry_strength = \<lparr>classical = 192, quantum = 96\<rparr>,
     fips = FipsStatus_Approved,
     status = ImplStatus_Available,
     standards = [''SP 800-208'', ''RFC 8554'', ''RFC 9858''],
     params = HSS_LMS_P,
     constraints = [\<lparr>constraint_id = ''lms-verify-only'', requirement = ''Use this to verify. Sign with a hardware cryptographic module that owns the key's state, as SP 800-208 requires.'', consequence = ''An LMS private key is a set of one-time keys. Signing twice with one -- after a crash, a restored backup, a cloned machine -- lets a forger sign anything.'', severity = Severity_Critical\<rparr>, \<lparr>constraint_id = ''lms-check-parameters'', requirement = ''If policy fixes the parameter sets, read them with ic_lms::parameters and refuse a key outside the policy.'', consequence = ''Every approved set verifies here; a policy for 192-bit hashes or a minimum tree height is the caller's to enforce.'', severity = Severity_Advisory\<rparr>],
     edges = [\<lparr>relation = Relation_BuiltOn, target = ''sha2-256''\<rparr>, \<lparr>relation = Relation_BuiltOn, target = ''shake256''\<rparr>, \<lparr>relation = Relation_PairsWith, target = ''ml-dsa-87''\<rparr>],
     entry_performance = Performance_Fast,
     rust_path = ''ic_lms::HssLms'',
     example = ''ic_lms::verify(&public_key, message, &signature)?;'',
     entry_notes = ''Verification only: this library holds no LMS private key and never will. All sixteen LM-OTS and twenty LMS parameter sets of RFC 8554 and RFC 9858 -- SHA-256, SHA-256/192, SHAKE256/256 and SHAKE256/192, at every Winternitz width and tree height -- in hierarchies of one to eight levels. The strength recorded is the 192-bit hashes'; the 256-bit ones give 256 classical and 128 quantum. Checked against all six cases the two RFCs publish, and against an independent implementation for the parameter sets they do not cover.''\<rparr>\<close>

lemma reg_hss_lms_facts [registry_facts]:
  \<open>entry_id reg_hss_lms = ''hss-lms''\<close>
  \<open>entry_name reg_hss_lms = ''HSS/LMS''\<close>
  \<open>aliases reg_hss_lms = [''lms'', ''hss'', ''leighton-micali'', ''stateful-hash-based-signature'']\<close>
  \<open>entry_class reg_hss_lms = Class_Signature\<close>
  \<open>purposes reg_hss_lms = [Purpose_Authentication, Purpose_Integrity]\<close>
  \<open>classical (entry_strength reg_hss_lms) = 192\<close>
  \<open>quantum (entry_strength reg_hss_lms) = 96\<close>
  \<open>fips reg_hss_lms = FipsStatus_Approved\<close>
  \<open>status reg_hss_lms = ImplStatus_Available\<close>
  \<open>map target (edges reg_hss_lms) = [''sha2-256'', ''shake256'', ''ml-dsa-87'']\<close>
  \<open>map constraint_id (constraints reg_hss_lms) = [''lms-verify-only'', ''lms-check-parameters'']\<close>
  \<open>entry_keys reg_hss_lms = [''hss-lms'', ''hss/lms'', ''lms'', ''hss'', ''leighton-micali'', ''stateful-hash-based-signature'']\<close>
  \<open>rust_path reg_hss_lms \<noteq> []\<close>
  \<open>example reg_hss_lms \<noteq> []\<close>
  by (simp_all add: reg_hss_lms_def registry_facts entry_keys_def ascii_lower_simps
      if_built_def NOT_APPROVED_STATUS_def)

definition reg_xmss :: "entry" where
  \<open>reg_xmss =
     \<lparr>entry_id = ''xmss'',
     entry_name = ''XMSS'',
     aliases = [''xmss-mt'', ''extended-merkle-signature-scheme''],
     summary = ''The other stateful hash-based signature SP 800-208 approves and CNSA 2.0 names. Standardised, not implemented here.'',
     entry_class = Class_Signature,
     family = ''Stateful hash-based'',
     purposes = [Purpose_Authentication, Purpose_Integrity],
     entry_strength = \<lparr>classical = 192, quantum = 96\<rparr>,
     fips = FipsStatus_Approved,
     status = ImplStatus_Planned,
     standards = [''SP 800-208''],
     params = NO_PARAMS,
     constraints = [],
     edges = [\<lparr>relation = Relation_PairsWith, target = ''hss-lms''\<rparr>],
     entry_performance = Performance_Fast,
     rust_path = [],
     example = [],
     entry_notes = ''Listed so that asking for it resolves to an absence rather than to nothing. SP 800-208 approves XMSS and XMSS^MT beside LMS and HSS, and CNSA 2.0 names both families; this library verifies HSS/LMS and does not implement XMSS. A system that must verify XMSS signatures needs another implementation.''\<rparr>\<close>

lemma reg_xmss_facts [registry_facts]:
  \<open>entry_id reg_xmss = ''xmss''\<close>
  \<open>entry_name reg_xmss = ''XMSS''\<close>
  \<open>aliases reg_xmss = [''xmss-mt'', ''extended-merkle-signature-scheme'']\<close>
  \<open>entry_class reg_xmss = Class_Signature\<close>
  \<open>purposes reg_xmss = [Purpose_Authentication, Purpose_Integrity]\<close>
  \<open>classical (entry_strength reg_xmss) = 192\<close>
  \<open>quantum (entry_strength reg_xmss) = 96\<close>
  \<open>fips reg_xmss = FipsStatus_Approved\<close>
  \<open>status reg_xmss = ImplStatus_Planned\<close>
  \<open>map target (edges reg_xmss) = [''hss-lms'']\<close>
  \<open>map constraint_id (constraints reg_xmss) = []\<close>
  \<open>entry_keys reg_xmss = [''xmss'', ''xmss'', ''xmss-mt'', ''extended-merkle-signature-scheme'']\<close>
  \<open>rust_path reg_xmss = []\<close>
  \<open>example reg_xmss = []\<close>
  by (simp_all add: reg_xmss_def registry_facts entry_keys_def ascii_lower_simps
      if_built_def NOT_APPROVED_STATUS_def)

definition reg_rsa_pkcs1_sha256 :: "entry" where
  \<open>reg_rsa_pkcs1_sha256 =
     \<lparr>entry_id = ''rsa-pkcs1-sha256'',
     entry_name = ''RSASSA-PKCS1-v1_5 with SHA-256'',
     aliases = [''rsa-pkcs1-v1_5'', ''rsassa-pkcs1'', ''sha256withrsa''],
     summary = ''The RSA signature padding that certificate chains are made of.'',
     entry_class = Class_Signature,
     family = ''RSA'',
     purposes = [Purpose_Authentication, Purpose_NonRepudiation],
     entry_strength = (strength_classical_only 112),
     fips = FipsStatus_Approved,
     status = ImplStatus_Available,
     standards = [''FIPS 186-5'', ''RFC 8017''],
     params = RSA_SIG_P,
     constraints = [RSA_MIN_MODULUS, RSA_PREFER_PSS, RSA_NO_PARSING],
     edges = [\<lparr>relation = Relation_BuiltOn, target = ''sha2-256''\<rparr>, \<lparr>relation = Relation_SupersededBy, target = ''rsa-pss-sha256''\<rparr>],
     entry_performance = Performance_Slow,
     rust_path = ''ic_rsa::Pkcs1Sha256'',
     example = (''let key = ic_rsa::RsaPrivateKey::from_components(n, 65537, d)?;'' @ [CHR 0x0A] @ ''ic_rsa::Pkcs1Sha256::sign(&key, msg, &mut sig)?;'' @ [CHR 0x0A] @ ''ic_rsa::Pkcs1Sha256::verify(key.public_key(), msg, &sig)?;''),
     entry_notes = ''Verification re-encodes the expected block and compares it in constant time; it never parses the recovered block, which is where the Bleichenbacher 2006 forgeries came from. The DigestInfo prefix is built from the algorithm OID at run time rather than pasted in as a constant. Signing uses the Chinese remainder theorem and verifies its own output before returning it, so a faulted half cannot leak the factorization.''\<rparr>\<close>

lemma reg_rsa_pkcs1_sha256_facts [registry_facts]:
  \<open>entry_id reg_rsa_pkcs1_sha256 = ''rsa-pkcs1-sha256''\<close>
  \<open>entry_name reg_rsa_pkcs1_sha256 = ''RSASSA-PKCS1-v1_5 with SHA-256''\<close>
  \<open>aliases reg_rsa_pkcs1_sha256 = [''rsa-pkcs1-v1_5'', ''rsassa-pkcs1'', ''sha256withrsa'']\<close>
  \<open>entry_class reg_rsa_pkcs1_sha256 = Class_Signature\<close>
  \<open>purposes reg_rsa_pkcs1_sha256 = [Purpose_Authentication, Purpose_NonRepudiation]\<close>
  \<open>classical (entry_strength reg_rsa_pkcs1_sha256) = 112\<close>
  \<open>quantum (entry_strength reg_rsa_pkcs1_sha256) = 0\<close>
  \<open>fips reg_rsa_pkcs1_sha256 = FipsStatus_Approved\<close>
  \<open>status reg_rsa_pkcs1_sha256 = ImplStatus_Available\<close>
  \<open>map target (edges reg_rsa_pkcs1_sha256) = [''sha2-256'', ''rsa-pss-sha256'']\<close>
  \<open>map constraint_id (constraints reg_rsa_pkcs1_sha256) = [''rsa-modulus-at-least-2048-bits'', ''prefer-pss-for-new-signatures'', ''verify-by-re-encoding'']\<close>
  \<open>entry_keys reg_rsa_pkcs1_sha256 = [''rsa-pkcs1-sha256'', ''rsassa-pkcs1-v1_5 with sha-256'', ''rsa-pkcs1-v1_5'', ''rsassa-pkcs1'', ''sha256withrsa'']\<close>
  \<open>rust_path reg_rsa_pkcs1_sha256 \<noteq> []\<close>
  \<open>example reg_rsa_pkcs1_sha256 \<noteq> []\<close>
  by (simp_all add: reg_rsa_pkcs1_sha256_def registry_facts entry_keys_def ascii_lower_simps
      if_built_def NOT_APPROVED_STATUS_def)

definition reg_rsa_pkcs1_sha384 :: "entry" where
  \<open>reg_rsa_pkcs1_sha384 =
     \<lparr>entry_id = ''rsa-pkcs1-sha384'',
     entry_name = ''RSASSA-PKCS1-v1_5 with SHA-384'',
     aliases = [''sha384withrsa''],
     summary = ''PKCS#1 v1.5 padding over SHA-384.'',
     entry_class = Class_Signature,
     family = ''RSA'',
     purposes = [Purpose_Authentication, Purpose_NonRepudiation],
     entry_strength = (strength_classical_only 112),
     fips = FipsStatus_Approved,
     status = ImplStatus_Available,
     standards = [''FIPS 186-5'', ''RFC 8017''],
     params = RSA_SIG_P,
     constraints = [RSA_MIN_MODULUS, RSA_PREFER_PSS, RSA_NO_PARSING],
     edges = [\<lparr>relation = Relation_BuiltOn, target = ''sha2-384''\<rparr>, \<lparr>relation = Relation_SupersededBy, target = ''rsa-pss-sha384''\<rparr>],
     entry_performance = Performance_Slow,
     rust_path = ''ic_rsa::Pkcs1Sha384'',
     example = ''ic_rsa::Pkcs1Sha384::verify(&public_key, msg, &sig)?;'',
     entry_notes = ''The hash is stronger than what a 2048-bit modulus supports, so the modulus is what bounds the security level. Use this pairing when a peer requires it.''\<rparr>\<close>

lemma reg_rsa_pkcs1_sha384_facts [registry_facts]:
  \<open>entry_id reg_rsa_pkcs1_sha384 = ''rsa-pkcs1-sha384''\<close>
  \<open>entry_name reg_rsa_pkcs1_sha384 = ''RSASSA-PKCS1-v1_5 with SHA-384''\<close>
  \<open>aliases reg_rsa_pkcs1_sha384 = [''sha384withrsa'']\<close>
  \<open>entry_class reg_rsa_pkcs1_sha384 = Class_Signature\<close>
  \<open>purposes reg_rsa_pkcs1_sha384 = [Purpose_Authentication, Purpose_NonRepudiation]\<close>
  \<open>classical (entry_strength reg_rsa_pkcs1_sha384) = 112\<close>
  \<open>quantum (entry_strength reg_rsa_pkcs1_sha384) = 0\<close>
  \<open>fips reg_rsa_pkcs1_sha384 = FipsStatus_Approved\<close>
  \<open>status reg_rsa_pkcs1_sha384 = ImplStatus_Available\<close>
  \<open>map target (edges reg_rsa_pkcs1_sha384) = [''sha2-384'', ''rsa-pss-sha384'']\<close>
  \<open>map constraint_id (constraints reg_rsa_pkcs1_sha384) = [''rsa-modulus-at-least-2048-bits'', ''prefer-pss-for-new-signatures'', ''verify-by-re-encoding'']\<close>
  \<open>entry_keys reg_rsa_pkcs1_sha384 = [''rsa-pkcs1-sha384'', ''rsassa-pkcs1-v1_5 with sha-384'', ''sha384withrsa'']\<close>
  \<open>rust_path reg_rsa_pkcs1_sha384 \<noteq> []\<close>
  \<open>example reg_rsa_pkcs1_sha384 \<noteq> []\<close>
  by (simp_all add: reg_rsa_pkcs1_sha384_def registry_facts entry_keys_def ascii_lower_simps
      if_built_def NOT_APPROVED_STATUS_def)

definition reg_rsa_pkcs1_sha512 :: "entry" where
  \<open>reg_rsa_pkcs1_sha512 =
     \<lparr>entry_id = ''rsa-pkcs1-sha512'',
     entry_name = ''RSASSA-PKCS1-v1_5 with SHA-512'',
     aliases = [''sha512withrsa''],
     summary = ''PKCS#1 v1.5 padding over SHA-512.'',
     entry_class = Class_Signature,
     family = ''RSA'',
     purposes = [Purpose_Authentication, Purpose_NonRepudiation],
     entry_strength = (strength_classical_only 112),
     fips = FipsStatus_Approved,
     status = ImplStatus_Available,
     standards = [''FIPS 186-5'', ''RFC 8017''],
     params = RSA_SIG_P,
     constraints = [RSA_MIN_MODULUS, RSA_PREFER_PSS, RSA_NO_PARSING],
     edges = [\<lparr>relation = Relation_BuiltOn, target = ''sha2-512''\<rparr>, \<lparr>relation = Relation_SupersededBy, target = ''rsa-pss-sha512''\<rparr>],
     entry_performance = Performance_Slow,
     rust_path = ''ic_rsa::Pkcs1Sha512'',
     example = ''ic_rsa::Pkcs1Sha512::verify(&public_key, msg, &sig)?;'',
     entry_notes = ''The hash is stronger than what a 2048-bit modulus supports, so the modulus is what bounds the security level.''\<rparr>\<close>

lemma reg_rsa_pkcs1_sha512_facts [registry_facts]:
  \<open>entry_id reg_rsa_pkcs1_sha512 = ''rsa-pkcs1-sha512''\<close>
  \<open>entry_name reg_rsa_pkcs1_sha512 = ''RSASSA-PKCS1-v1_5 with SHA-512''\<close>
  \<open>aliases reg_rsa_pkcs1_sha512 = [''sha512withrsa'']\<close>
  \<open>entry_class reg_rsa_pkcs1_sha512 = Class_Signature\<close>
  \<open>purposes reg_rsa_pkcs1_sha512 = [Purpose_Authentication, Purpose_NonRepudiation]\<close>
  \<open>classical (entry_strength reg_rsa_pkcs1_sha512) = 112\<close>
  \<open>quantum (entry_strength reg_rsa_pkcs1_sha512) = 0\<close>
  \<open>fips reg_rsa_pkcs1_sha512 = FipsStatus_Approved\<close>
  \<open>status reg_rsa_pkcs1_sha512 = ImplStatus_Available\<close>
  \<open>map target (edges reg_rsa_pkcs1_sha512) = [''sha2-512'', ''rsa-pss-sha512'']\<close>
  \<open>map constraint_id (constraints reg_rsa_pkcs1_sha512) = [''rsa-modulus-at-least-2048-bits'', ''prefer-pss-for-new-signatures'', ''verify-by-re-encoding'']\<close>
  \<open>entry_keys reg_rsa_pkcs1_sha512 = [''rsa-pkcs1-sha512'', ''rsassa-pkcs1-v1_5 with sha-512'', ''sha512withrsa'']\<close>
  \<open>rust_path reg_rsa_pkcs1_sha512 \<noteq> []\<close>
  \<open>example reg_rsa_pkcs1_sha512 \<noteq> []\<close>
  by (simp_all add: reg_rsa_pkcs1_sha512_def registry_facts entry_keys_def ascii_lower_simps
      if_built_def NOT_APPROVED_STATUS_def)

definition reg_rsa_pss_sha256 :: "entry" where
  \<open>reg_rsa_pss_sha256 =
     \<lparr>entry_id = ''rsa-pss-sha256'',
     entry_name = ''RSASSA-PSS with SHA-256'',
     aliases = [''rsa-pss'', ''rsassa-pss''],
     summary = ''The RSA padding to choose for new signatures: randomized, with a security proof PKCS#1 v1.5 lacks.'',
     entry_class = Class_Signature,
     family = ''RSA'',
     purposes = [Purpose_Authentication, Purpose_NonRepudiation],
     entry_strength = (strength_classical_only 112),
     fips = FipsStatus_Approved,
     status = ImplStatus_Available,
     standards = [''FIPS 186-5'', ''RFC 8017''],
     params = RSA_PSS_P,
     constraints = [RSA_MIN_MODULUS, RSA_SALT_ENTROPY],
     edges = [\<lparr>relation = Relation_BuiltOn, target = ''sha2-256''\<rparr>, \<lparr>relation = Relation_Supersedes, target = ''rsa-pkcs1-sha256''\<rparr>, \<lparr>relation = Relation_SupersededBy, target = ''ml-dsa-65''\<rparr>],
     entry_performance = Performance_Slow,
     rust_path = ''ic_rsa::PssSha256'',
     example = (''ic_rsa::PssSha256::sign(&key, msg, &mut rng, &mut sig)?;'' @ [CHR 0x0A] @ ''ic_rsa::PssSha256::verify(key.public_key(), msg, &sig)?;''),
     entry_notes = ''The salt is always the hash length, which is what FIPS 186-5 and essentially every deployment use. Signing needs a random source; verification does not. Two signatures over one message differ, so a PSS signature is not a message id.''\<rparr>\<close>

lemma reg_rsa_pss_sha256_facts [registry_facts]:
  \<open>entry_id reg_rsa_pss_sha256 = ''rsa-pss-sha256''\<close>
  \<open>entry_name reg_rsa_pss_sha256 = ''RSASSA-PSS with SHA-256''\<close>
  \<open>aliases reg_rsa_pss_sha256 = [''rsa-pss'', ''rsassa-pss'']\<close>
  \<open>entry_class reg_rsa_pss_sha256 = Class_Signature\<close>
  \<open>purposes reg_rsa_pss_sha256 = [Purpose_Authentication, Purpose_NonRepudiation]\<close>
  \<open>classical (entry_strength reg_rsa_pss_sha256) = 112\<close>
  \<open>quantum (entry_strength reg_rsa_pss_sha256) = 0\<close>
  \<open>fips reg_rsa_pss_sha256 = FipsStatus_Approved\<close>
  \<open>status reg_rsa_pss_sha256 = ImplStatus_Available\<close>
  \<open>map target (edges reg_rsa_pss_sha256) = [''sha2-256'', ''rsa-pkcs1-sha256'', ''ml-dsa-65'']\<close>
  \<open>map constraint_id (constraints reg_rsa_pss_sha256) = [''rsa-modulus-at-least-2048-bits'', ''pss-salt-must-be-random'']\<close>
  \<open>entry_keys reg_rsa_pss_sha256 = [''rsa-pss-sha256'', ''rsassa-pss with sha-256'', ''rsa-pss'', ''rsassa-pss'']\<close>
  \<open>rust_path reg_rsa_pss_sha256 \<noteq> []\<close>
  \<open>example reg_rsa_pss_sha256 \<noteq> []\<close>
  by (simp_all add: reg_rsa_pss_sha256_def registry_facts entry_keys_def ascii_lower_simps
      if_built_def NOT_APPROVED_STATUS_def)

definition reg_rsa_pss_sha384 :: "entry" where
  \<open>reg_rsa_pss_sha384 =
     \<lparr>entry_id = ''rsa-pss-sha384'',
     entry_name = ''RSASSA-PSS with SHA-384'',
     aliases = [],
     summary = ''PSS padding over SHA-384 with a 48-byte salt.'',
     entry_class = Class_Signature,
     family = ''RSA'',
     purposes = [Purpose_Authentication, Purpose_NonRepudiation],
     entry_strength = (strength_classical_only 112),
     fips = FipsStatus_Approved,
     status = ImplStatus_Available,
     standards = [''FIPS 186-5'', ''RFC 8017''],
     params = RSA_PSS_P,
     constraints = [RSA_MIN_MODULUS, RSA_SALT_ENTROPY],
     edges = [\<lparr>relation = Relation_BuiltOn, target = ''sha2-384''\<rparr>, \<lparr>relation = Relation_Supersedes, target = ''rsa-pkcs1-sha384''\<rparr>],
     entry_performance = Performance_Slow,
     rust_path = ''ic_rsa::PssSha384'',
     example = ''ic_rsa::PssSha384::sign(&key, msg, &mut rng, &mut sig)?;'',
     entry_notes = ''A 2048-bit modulus has room for a 48-byte hash and a 48-byte salt with 158 bytes to spare, so no size juggling is needed.''\<rparr>\<close>

lemma reg_rsa_pss_sha384_facts [registry_facts]:
  \<open>entry_id reg_rsa_pss_sha384 = ''rsa-pss-sha384''\<close>
  \<open>entry_name reg_rsa_pss_sha384 = ''RSASSA-PSS with SHA-384''\<close>
  \<open>aliases reg_rsa_pss_sha384 = []\<close>
  \<open>entry_class reg_rsa_pss_sha384 = Class_Signature\<close>
  \<open>purposes reg_rsa_pss_sha384 = [Purpose_Authentication, Purpose_NonRepudiation]\<close>
  \<open>classical (entry_strength reg_rsa_pss_sha384) = 112\<close>
  \<open>quantum (entry_strength reg_rsa_pss_sha384) = 0\<close>
  \<open>fips reg_rsa_pss_sha384 = FipsStatus_Approved\<close>
  \<open>status reg_rsa_pss_sha384 = ImplStatus_Available\<close>
  \<open>map target (edges reg_rsa_pss_sha384) = [''sha2-384'', ''rsa-pkcs1-sha384'']\<close>
  \<open>map constraint_id (constraints reg_rsa_pss_sha384) = [''rsa-modulus-at-least-2048-bits'', ''pss-salt-must-be-random'']\<close>
  \<open>entry_keys reg_rsa_pss_sha384 = [''rsa-pss-sha384'', ''rsassa-pss with sha-384'']\<close>
  \<open>rust_path reg_rsa_pss_sha384 \<noteq> []\<close>
  \<open>example reg_rsa_pss_sha384 \<noteq> []\<close>
  by (simp_all add: reg_rsa_pss_sha384_def registry_facts entry_keys_def ascii_lower_simps
      if_built_def NOT_APPROVED_STATUS_def)

definition reg_rsa_pss_sha512 :: "entry" where
  \<open>reg_rsa_pss_sha512 =
     \<lparr>entry_id = ''rsa-pss-sha512'',
     entry_name = ''RSASSA-PSS with SHA-512'',
     aliases = [],
     summary = ''PSS padding over SHA-512 with a 64-byte salt.'',
     entry_class = Class_Signature,
     family = ''RSA'',
     purposes = [Purpose_Authentication, Purpose_NonRepudiation],
     entry_strength = (strength_classical_only 112),
     fips = FipsStatus_Approved,
     status = ImplStatus_Available,
     standards = [''FIPS 186-5'', ''RFC 8017''],
     params = RSA_PSS_P,
     constraints = [RSA_MIN_MODULUS, RSA_SALT_ENTROPY],
     edges = [\<lparr>relation = Relation_BuiltOn, target = ''sha2-512''\<rparr>, \<lparr>relation = Relation_Supersedes, target = ''rsa-pkcs1-sha512''\<rparr>],
     entry_performance = Performance_Slow,
     rust_path = ''ic_rsa::PssSha512'',
     example = ''ic_rsa::PssSha512::sign(&key, msg, &mut rng, &mut sig)?;'',
     entry_notes = ''Needs a 2048-bit modulus or larger to fit a 64-byte hash beside a 64-byte salt; this library refuses anything smaller regardless.''\<rparr>\<close>

lemma reg_rsa_pss_sha512_facts [registry_facts]:
  \<open>entry_id reg_rsa_pss_sha512 = ''rsa-pss-sha512''\<close>
  \<open>entry_name reg_rsa_pss_sha512 = ''RSASSA-PSS with SHA-512''\<close>
  \<open>aliases reg_rsa_pss_sha512 = []\<close>
  \<open>entry_class reg_rsa_pss_sha512 = Class_Signature\<close>
  \<open>purposes reg_rsa_pss_sha512 = [Purpose_Authentication, Purpose_NonRepudiation]\<close>
  \<open>classical (entry_strength reg_rsa_pss_sha512) = 112\<close>
  \<open>quantum (entry_strength reg_rsa_pss_sha512) = 0\<close>
  \<open>fips reg_rsa_pss_sha512 = FipsStatus_Approved\<close>
  \<open>status reg_rsa_pss_sha512 = ImplStatus_Available\<close>
  \<open>map target (edges reg_rsa_pss_sha512) = [''sha2-512'', ''rsa-pkcs1-sha512'']\<close>
  \<open>map constraint_id (constraints reg_rsa_pss_sha512) = [''rsa-modulus-at-least-2048-bits'', ''pss-salt-must-be-random'']\<close>
  \<open>entry_keys reg_rsa_pss_sha512 = [''rsa-pss-sha512'', ''rsassa-pss with sha-512'']\<close>
  \<open>rust_path reg_rsa_pss_sha512 \<noteq> []\<close>
  \<open>example reg_rsa_pss_sha512 \<noteq> []\<close>
  by (simp_all add: reg_rsa_pss_sha512_def registry_facts entry_keys_def ascii_lower_simps
      if_built_def NOT_APPROVED_STATUS_def)

definition reg_3des :: "entry" where
  \<open>reg_3des =
     \<lparr>entry_id = ''3des'',
     entry_name = ''Triple DES'',
     aliases = [''tdea'', ''3des-ede''],
     summary = ''Withdrawn block cipher, listed so requests for it resolve to a refusal.'',
     entry_class = Class_BlockCipher,
     family = ''DES'',
     purposes = [Purpose_Confidentiality],
     entry_strength = \<lparr>classical = 0, quantum = 0\<rparr>,
     fips = FipsStatus_Disallowed,
     status = ImplStatus_Excluded,
     standards = [''SP 800-67''],
     params = NO_PARAMS,
     constraints = [\<lparr>constraint_id = ''sweet32'', requirement = ''Do not use; migrate to AES.'', consequence = ''The 64-bit block allows practical collision attacks on long sessions.'', severity = Severity_Critical\<rparr>],
     edges = [\<lparr>relation = Relation_SupersededBy, target = ''aes-256''\<rparr>],
     entry_performance = Performance_Slow,
     rust_path = [],
     example = [],
     entry_notes = ''Disallowed by SP 800-131A since 2024. Not implemented, and not planned.''\<rparr>\<close>

lemma reg_3des_facts [registry_facts]:
  \<open>entry_id reg_3des = ''3des''\<close>
  \<open>entry_name reg_3des = ''Triple DES''\<close>
  \<open>aliases reg_3des = [''tdea'', ''3des-ede'']\<close>
  \<open>entry_class reg_3des = Class_BlockCipher\<close>
  \<open>purposes reg_3des = [Purpose_Confidentiality]\<close>
  \<open>classical (entry_strength reg_3des) = 0\<close>
  \<open>quantum (entry_strength reg_3des) = 0\<close>
  \<open>fips reg_3des = FipsStatus_Disallowed\<close>
  \<open>status reg_3des = ImplStatus_Excluded\<close>
  \<open>map target (edges reg_3des) = [''aes-256'']\<close>
  \<open>map constraint_id (constraints reg_3des) = [''sweet32'']\<close>
  \<open>entry_keys reg_3des = [''3des'', ''triple des'', ''tdea'', ''3des-ede'']\<close>
  \<open>rust_path reg_3des = []\<close>
  \<open>example reg_3des = []\<close>
  by (simp_all add: reg_3des_def registry_facts entry_keys_def ascii_lower_simps
      if_built_def NOT_APPROVED_STATUS_def)

end
