(* ===== verification/Ontology_Registry.thy ===== *)
theory Ontology_Registry
  imports Ontology_Select Registry_Symmetric Registry_Derivation Registry_PublicKey
    Registry_Modes Registry_Signatures
begin

text \<open>
  The registry itself (\<open>REGISTRY\<close> of \<open>crates/ic-ontology/src/registry.rs\<close>, in source
  order) and what a query, a lookup and a recommendation return over it. The
  argument \<open>ao\<close> is the configuration flag \<open>ic_approved_only\<close>.
\<close>

definition REGISTRY :: "bool \<Rightarrow> entry list" where
  "REGISTRY ao =
     [reg_sha2_224, reg_sha2_256, reg_sha2_384, reg_sha2_512, reg_sha2_512_224, reg_sha2_512_256,
      reg_sha3_224, reg_sha3_256, reg_sha3_384, reg_sha3_512, reg_shake128, reg_shake256,
      reg_sha_1, reg_md5, reg_hmac_sha2_256, reg_hmac_sha2_384, reg_hmac_sha2_512,
      reg_hmac_sha2_512_256, reg_hmac_sha3_256, reg_hmac_sha3_512, reg_cmac_aes_128,
      reg_cmac_aes_192, reg_cmac_aes_256, reg_poly1305 ao, reg_aes_128, reg_aes_192, reg_aes_256,
      reg_aes_cbc, reg_aes_ctr, reg_aes_128_gcm, reg_aes_192_gcm, reg_aes_256_gcm,
      reg_chacha20_poly1305 ao, reg_xchacha20_poly1305 ao, reg_hkdf_sha2_256, reg_hkdf_sha2_384,
      reg_hkdf_sha2_512, reg_sp800_108_counter_hmac_sha2_256, reg_pbkdf2_hmac_sha2_256,
      reg_pbkdf2_hmac_sha2_512, reg_scrypt ao, reg_blowfish, reg_salsa20_8_core, reg_hchacha20,
      reg_bcrypt ao, reg_yescrypt ao, reg_argon2id ao, reg_blake2b ao, reg_passphrase_seal ao,
      reg_pkcs8_pbes2, reg_hash_to_curve_p256 ao, reg_oprf_p256_sha256 ao,
      reg_opaque_3dh_p256 ao, reg_blake2s ao, reg_blake3 ao, reg_hmac_drbg_sha2_256,
      reg_hmac_drbg_sha2_512, reg_ctr_drbg_aes_256, reg_x25519 ao, reg_shamir_gf256 ao,
      reg_hpke_x25519_sha256 ao, reg_hpke_p384_sha384 ao, reg_ecdh_p384, reg_ecdsa_p384_sha384,
      reg_ecdh_p256, reg_ml_kem_768, reg_ml_kem_512, reg_ml_kem_1024, reg_ed25519 ao,
      reg_ed448 ao, reg_mldsa44_ed25519_sha512 ao, reg_mldsa65_ed25519_sha512 ao,
      reg_mldsa87_ed448_shake256 ao, reg_aes_256_kw, reg_aes_256_kwp, reg_aes_128_kw,
      reg_aes_192_kwp, reg_aes_256_gcm_siv ao, reg_aes_128_gcm_siv ao, reg_tuplehash128,
      reg_tuplehash256, reg_parallelhash128, reg_parallelhash256, reg_kmac128, reg_kmac256,
      reg_cshake128, reg_cshake256, reg_ecdsa_p521_sha512, reg_ecdh_p521, reg_ecdsa_p256_sha256,
      reg_slh_dsa, reg_ml_dsa_65, reg_ml_dsa_44, reg_ml_dsa_87, reg_hss_lms, reg_xmss,
      reg_rsa_pkcs1_sha256, reg_rsa_pkcs1_sha384, reg_rsa_pkcs1_sha512, reg_rsa_pss_sha256,
      reg_rsa_pss_sha384, reg_rsa_pss_sha512, reg_3des]"

section \<open>Invariants of the data\<close>

lemma registry_ids_eq:
  "map entry_id (REGISTRY ao) =
     [''sha2-224'', ''sha2-256'', ''sha2-384'', ''sha2-512'', ''sha2-512-224'',
      ''sha2-512-256'', ''sha3-224'', ''sha3-256'', ''sha3-384'', ''sha3-512'', ''shake128'',
      ''shake256'', ''sha-1'', ''md5'', ''hmac-sha2-256'', ''hmac-sha2-384'',
      ''hmac-sha2-512'', ''hmac-sha2-512-256'', ''hmac-sha3-256'', ''hmac-sha3-512'',
      ''cmac-aes-128'', ''cmac-aes-192'', ''cmac-aes-256'', ''poly1305'', ''aes-128'',
      ''aes-192'', ''aes-256'', ''aes-cbc'', ''aes-ctr'', ''aes-128-gcm'', ''aes-192-gcm'',
      ''aes-256-gcm'', ''chacha20-poly1305'', ''xchacha20-poly1305'', ''hkdf-sha2-256'',
      ''hkdf-sha2-384'', ''hkdf-sha2-512'', ''sp800-108-counter-hmac-sha2-256'',
      ''pbkdf2-hmac-sha2-256'', ''pbkdf2-hmac-sha2-512'', ''scrypt'', ''blowfish'',
      ''salsa20-8-core'', ''hchacha20'', ''bcrypt'', ''yescrypt'', ''argon2id'', ''blake2b'',
      ''passphrase-seal'', ''pkcs8-pbes2'', ''hash-to-curve-p256'', ''oprf-p256-sha256'',
      ''opaque-3dh-p256'', ''blake2s'', ''blake3'', ''hmac-drbg-sha2-256'',
      ''hmac-drbg-sha2-512'', ''ctr-drbg-aes-256'', ''x25519'', ''shamir-gf256'',
      ''hpke-x25519-sha256'', ''hpke-p384-sha384'', ''ecdh-p384'', ''ecdsa-p384-sha384'',
      ''ecdh-p256'', ''ml-kem-768'', ''ml-kem-512'', ''ml-kem-1024'', ''ed25519'', ''ed448'',
      ''mldsa44-ed25519-sha512'', ''mldsa65-ed25519-sha512'', ''mldsa87-ed448-shake256'',
      ''aes-256-kw'', ''aes-256-kwp'', ''aes-128-kw'', ''aes-192-kwp'', ''aes-256-gcm-siv'',
      ''aes-128-gcm-siv'', ''tuplehash128'', ''tuplehash256'', ''parallelhash128'',
      ''parallelhash256'', ''kmac128'', ''kmac256'', ''cshake128'', ''cshake256'',
      ''ecdsa-p521-sha512'', ''ecdh-p521'', ''ecdsa-p256-sha256'', ''slh-dsa'', ''ml-dsa-65'',
      ''ml-dsa-44'', ''ml-dsa-87'', ''hss-lms'', ''xmss'', ''rsa-pkcs1-sha256'',
      ''rsa-pkcs1-sha384'', ''rsa-pkcs1-sha512'', ''rsa-pss-sha256'', ''rsa-pss-sha384'',
      ''rsa-pss-sha512'', ''3des'']"
  by (simp add: REGISTRY_def registry_facts)

lemma registry_ids_distinct: "distinct (map entry_id (REGISTRY ao))"
  by (simp add: registry_ids_eq)

definition registry_ids :: "bool \<Rightarrow> string set" where
  "registry_ids ao = set (map entry_id (REGISTRY ao))"

lemma registry_ids_all: "list_all (\<lambda>i. i \<in> registry_ids ao) (map entry_id (REGISTRY ao))"
  by (simp add: list_all_iff registry_ids_def)

lemmas registry_id_members = registry_ids_all [unfolded registry_ids_eq list.pred_inject]

text \<open>The family anchors an edge may name although they are not entries.\<close>

definition FAMILY_ANCHORS :: "string list" where
  "FAMILY_ANCHORS = [''sha-2'', ''sha-3'']"

lemma registry_edges:
  "list_all (\<lambda>e. list_all (\<lambda>t. t \<in> registry_ids ao \<or> t \<in> set FAMILY_ANCHORS)
       (map target (edges e))) (REGISTRY ao)"
  by (simp add: REGISTRY_def registry_facts FAMILY_ANCHORS_def registry_id_members)

lemma registry_edge_known:
  assumes "e \<in> set (REGISTRY ao)" "ed \<in> set (edges e)"
  shows "(\<exists>d \<in> set (REGISTRY ao). entry_id d = target ed) \<or> target ed \<in> {''sha-2'', ''sha-3''}"
proof -
  have "target ed \<in> registry_ids ao \<or> target ed \<in> set FAMILY_ANCHORS"
    using registry_edges [of ao] assms unfolding list_all_iff by fastforce
  then show ?thesis unfolding registry_ids_def FAMILY_ANCHORS_def by auto
qed

lemma registry_available_documented:
  "list_all (\<lambda>e. status e = ImplStatus_Available \<longrightarrow> rust_path e \<noteq> [] \<and> example e \<noteq> []) (REGISTRY ao)"
  by (simp add: REGISTRY_def registry_facts NOT_APPROVED_STATUS_def)

lemma registry_unavailable_no_path:
  "list_all (\<lambda>e. status e \<in> {ImplStatus_Planned, ImplStatus_Excluded} \<longrightarrow> rust_path e = []) (REGISTRY ao)"
  by (simp add: REGISTRY_def registry_facts NOT_APPROVED_STATUS_def)

lemma registry_approved_only:
  "list_all (\<lambda>e. status e = ImplStatus_Available \<longrightarrow> permitted_in_approved_mode (fips e)) (REGISTRY True)"
  by (simp add: REGISTRY_def registry_facts NOT_APPROVED_STATUS_def)

lemma registry_classes: "set (map entry_class (REGISTRY ao)) = UNIV"
proof -
  have "c \<in> set (map entry_class (REGISTRY ao))" for c
    by (cases c) (simp_all add: REGISTRY_def registry_facts)
  then show ?thesis by blast
qed

lemma registry_aead_nonce:
  "list_all (\<lambda>e. entry_class e = Class_Aead \<longrightarrow>
     set (map constraint_id (constraints e)) \<inter> {''unique-nonce-per-key'', ''nonce-reuse-degrades-gracefully''} \<noteq> {})
   (REGISTRY ao)"
  by (simp add: REGISTRY_def registry_facts del: set_map)

lemma registry_mode_integrity:
  "list_all (\<lambda>e. entry_class e = Class_CipherMode \<longrightarrow>
     set (map constraint_id (constraints e)) \<inter> {''requires-separate-mac'', ''not-a-general-purpose-aead''} \<noteq> {})
   (REGISTRY ao)"
  by (simp add: REGISTRY_def registry_facts del: set_map)

section \<open>Looking an entry up\<close>

lemma matches_name_keys: "matches_name e n \<longleftrightarrow> map ascii_lower_char n \<in> set (entry_keys e)"
  by (auto simp: matches_name_def entry_keys_def eq_ignore_case_def list_ex_iff image_iff) (metis)

text \<open>No name, read without regard to case, belongs to two entries.\<close>

lemma registry_keys_eq:
  "concat (map (\<lambda>e. remdups (entry_keys e)) (REGISTRY ao)) =
     [''sha2-224'', ''sha-224'', ''sha224'', ''sha2-256'', ''sha256'', ''sha-256'',
      ''sha2-384'', ''sha-384'', ''sha384'', ''sha2-512'', ''sha-512'', ''sha512'',
      ''sha2-512-224'', ''sha-512/224'', ''sha512-224'', ''sha2-512-256'', ''sha-512/256'',
      ''sha512-256'', ''sha3-224'', ''sha3-256'', ''sha3-384'', ''sha3-512'', ''shake128'',
      ''shake256'', ''sha-1'', ''sha1'', ''md5'', ''hmac-sha2-256'', ''hmac-sha-256'',
      ''hmac-sha256'', ''hmac-sha2-384'', ''hmac-sha-384'', ''hmac-sha384'', ''hmac-sha2-512'',
      ''hmac-sha-512'', ''hmac-sha512'', ''hmac-sha2-512-256'', ''hmac-sha-512/256'',
      ''hmac-sha3-256'', ''hmac-sha3-512'', ''cmac-aes-128'', ''aes-128-cmac'',
      ''cmac-aes-192'', ''cmac-aes-256'', ''poly1305'', ''aes-128'', ''aes-192'', ''aes-256'',
      ''aes-cbc'', ''cbc'', ''aes-ctr'', ''ctr'', ''aes-128-gcm'', ''aes128gcm'',
      ''aes-192-gcm'', ''aes-256-gcm'', ''aes256gcm'', ''chacha20-poly1305'', ''chachapoly'',
      ''xchacha20-poly1305'', ''xchachapoly'', ''aead-xchacha20-poly1305'', ''hkdf-sha2-256'',
      ''hkdf-sha-256'', ''hkdf'', ''hkdf-sha2-384'', ''hkdf-sha-384'', ''hkdf-sha2-512'',
      ''hkdf-sha-512'', ''sp800-108-counter-hmac-sha2-256'',
      ''sp 800-108 kdf (counter mode, hmac-sha-256)'', ''kbkdf'', ''sp800-108'',
      ''pbkdf2-hmac-sha2-256'', ''pbkdf2-hmac-sha-256'', ''pbkdf2'', ''pbkdf2-hmac-sha2-512'',
      ''pbkdf2-hmac-sha-512'', ''scrypt'', ''rfc7914'', ''blowfish'', ''salsa20-8-core'',
      ''salsa20/8 core'', ''salsa20/8'', ''hchacha20'', ''bcrypt'',
      ''bcrypt (verification only)'', ''2b'', ''2y'', ''2a'', ''yescrypt'',
      ''yescrypt (verification only)'', ''$y$'', ''$7$'', ''argon2id'', ''argon2'',
      ''blake2b'', ''blake2'', ''passphrase-seal'',
      ''passphrase sealing (argon2id, xchacha20-poly1305)'', ''icpw'', ''password-encryption'',
      ''pkcs8-pbes2'', ''encrypted pkcs#8 (pbes2: pbkdf2-hmac-sha-256, aes-256-cbc)'',
      ''encrypted-private-key'', ''pbes2'', ''encrypted-pkcs8'', ''hash-to-curve-p256'',
      ''hash to p-256 (p256_xmd:sha-256_sswu_ro_)'', ''p256-xmd-sha256-sswu-ro'',
      ''hash-to-curve'', ''oprf-p256-sha256'',
      ''oprf, voprf and poprf with p-256 and sha-256'', ''oprf'', ''voprf'', ''poprf'',
      ''rfc9497'', ''opaque-3dh-p256'', ''opaque-3dh with p-256 and sha-256'', ''opaque'',
      ''rfc9807'', ''apake'', ''blake2s'', ''blake2s-256'', ''blake3'', ''hmac-drbg-sha2-256'',
      ''hmac_drbg (sha-256)'', ''hmac-drbg'', ''hmac-drbg-sha2-512'', ''hmac_drbg (sha-512)'',
      ''ctr-drbg-aes-256'', ''ctr_drbg (aes-256, no df)'', ''ctr-drbg'', ''x25519'',
      ''curve25519'', ''ecdh-x25519'', ''shamir-gf256'',
      ''shamir secret sharing over gf(2^8)'', ''shamir'', ''sss'', ''hpke-x25519-sha256'',
      ''hpke, dhkem(x25519, hkdf-sha256)'', ''hpke'', ''rfc9180'', ''hpke-p384-sha384'',
      ''hpke, dhkem(p-384, hkdf-sha384)'', ''hpke-p384'', ''mls-suite-7-hpke'', ''ecdh-p384'',
      ''ecdh p-384'', ''ecdh-secp384r1'', ''ecdsa-p384-sha384'', ''ecdsa p-384 with sha-384'',
      ''ecdsa-secp384r1'', ''ecdh-p256'', ''ecdh p-256'', ''ecdh-secp256r1'', ''ml-kem-768'',
      ''kyber768'', ''kyber'', ''ml-kem-512'', ''kyber512'', ''ml-kem-1024'', ''kyber1024'',
      ''ed25519'', ''eddsa'', ''ed448'', ''ed448-goldilocks'', ''mldsa44-ed25519-sha512'',
      ''ml-dsa-44 + ed25519 (composite)'', ''id-mldsa44-ed25519-sha512'',
      ''mldsa65-ed25519-sha512'', ''ml-dsa-65 + ed25519 (composite)'',
      ''id-mldsa65-ed25519-sha512'', ''mldsa87-ed448-shake256'',
      ''ml-dsa-87 + ed448 (composite)'', ''id-mldsa87-ed448-shake256'', ''aes-256-kw'',
      ''aes-256 key wrap'', ''kw'', ''aes-kw'', ''rfc3394'', ''aes-256-kwp'',
      ''aes-256 key wrap with padding'', ''kwp'', ''aes-kwp'', ''rfc5649'', ''aes-128-kw'',
      ''aes-128 key wrap'', ''aes-192-kwp'', ''aes-192 key wrap with padding'',
      ''aes-256-gcm-siv'', ''gcm-siv'', ''aes-gcm-siv'', ''aes-128-gcm-siv'', ''tuplehash128'',
      ''tuplehash'', ''tuplehash256'', ''parallelhash128'', ''parallelhash'',
      ''parallelhash256'', ''kmac128'', ''kmac'', ''kmac256'', ''cshake128'', ''cshake256'',
      ''ecdsa-p521-sha512'', ''ecdsa p-521 with sha-512'', ''ecdsa-secp521r1'', ''ecdh-p521'',
      ''ecdh p-521'', ''ecdh-secp521r1'', ''ecdsa-p256-sha256'', ''ecdsa p-256 with sha-256'',
      ''ecdsa-secp256r1'', ''slh-dsa'', ''sphincs+'', ''sphincs'',
      ''stateless-hash-based-signature'', ''ml-dsa-65'', ''dilithium3'', ''dilithium'',
      ''ml-dsa-44'', ''dilithium2'', ''ml-dsa-87'', ''dilithium5'', ''hss-lms'', ''hss/lms'',
      ''lms'', ''hss'', ''leighton-micali'', ''stateful-hash-based-signature'', ''xmss'',
      ''xmss-mt'', ''extended-merkle-signature-scheme'', ''rsa-pkcs1-sha256'',
      ''rsassa-pkcs1-v1_5 with sha-256'', ''rsa-pkcs1-v1_5'', ''rsassa-pkcs1'',
      ''sha256withrsa'', ''rsa-pkcs1-sha384'', ''rsassa-pkcs1-v1_5 with sha-384'',
      ''sha384withrsa'', ''rsa-pkcs1-sha512'', ''rsassa-pkcs1-v1_5 with sha-512'',
      ''sha512withrsa'', ''rsa-pss-sha256'', ''rsassa-pss with sha-256'', ''rsa-pss'',
      ''rsassa-pss'', ''rsa-pss-sha384'', ''rsassa-pss with sha-384'', ''rsa-pss-sha512'',
      ''rsassa-pss with sha-512'', ''3des'', ''triple des'', ''tdea'', ''3des-ede'']"
  by (simp add: REGISTRY_def registry_facts)

text \<open>
  The names are told apart by a hash of each, computed once: comparing numbers is
  what keeps the check short.
\<close>

fun name_hash :: "string \<Rightarrow> nat" where
  "name_hash [] = 0"
| "name_hash (c # cs) = 3 * name_hash cs + of_char c"

lemma char_codes:
  "map of_char ''abcdefghijklmnopqrstuvwxyz'' = [97::nat, 98, 99, 100, 101, 102, 103, 104, 105, 106, 107, 108,
     109, 110, 111, 112, 113, 114, 115, 116, 117, 118, 119, 120, 121, 122]"
  "map of_char ''0123456789'' = [48::nat, 49, 50, 51, 52, 53, 54, 55, 56, 57]"
  "map of_char ''-/ ().+_,^$:#'' = [45::nat, 47, 32, 40, 41, 46, 43, 95, 44, 94, 36, 58, 35]"
  by simp_all

lemmas char_code_simps = char_codes [unfolded list.map list.inject simp_thms]

lemma registry_keys_hash:
  "map name_hash (concat (map (\<lambda>e. remdups (entry_keys e)) (REGISTRY ao))) =
     [168619, 56623, 19336, 175180, 20065, 58810, 173236, 58162, 19849, 164245, 55165, 18850,
      13607734, 4540702, 1512571, 14139175, 4717849, 1571620, 168646, 175207, 173263, 164272,
      183199, 181255, 6484, 2623, 886, 42576362, 14298452, 4883417, 42103970, 14140988,
      4830929, 39919157, 13412717, 4588172, 3435827147, 1146444929, 42582923, 39925718,
      14488716, 26218300, 13839177, 14331252, 171949, 59593, 56920, 58945, 106654, 1284,
      121963, 1473, 9218749, 1027165, 9216076, 9218101, 1026949, 3384944790, 3450588,
      10154834490, 10351884, 2467624788688, 42576464, 14298554, 4079, 42104072, 14141090,
      39919259, 13412819, 16494967973052775, 7430107384073456066188, 12326, 525187,
      93114560980, 31270771810, 24481, 87303253645, 29333669365, 41965, 57228, 349694,
      248531113, 248279608, 529687, 532238, 41948, 83996383866200, 344, 413, 341, 378109,
      755967454796377, 723, 525, 320668, 25423, 95957, 24515, 750991264,
      5361214539852590819385508, 4623, 63951039817, 6194530, 140430857480072386889293373021,
      593303388740, 8470, 531262988, 10664405756, 1107758883283257651623, 5035613569894,
      84478328, 1186245663, 26493485502157304110233, 4227, 12799, 12793, 61008, 394735029,
      149556501109906746, 38391, 59145, 12376, 108350, 4766660, 24758, 10346094692,
      26306256122, 1005137, 9700393877, 25660555307, 1160844873, 25191495929292, 335193, 19998,
      1622961, 4867265, 14647423, 406132485787806088, 40450, 1495, 10676202569,
      42352452001982573, 4130, 55419, 1173485150, 14056479106379585, 535814, 2207989702,
      535790, 1569188, 153288992, 3520455320, 7514715787814, 459866918, 541622, 1586684,
      153446456, 1648027, 188516, 13313, 1492750, 171263, 4547989, 510734, 60035, 12263, 6809,
      2407074413, 812470442554, 19260584961665833, 21936701949768, 812470443769,
      19260584961676768, 21936701982573, 867053628892, 2140065077665726, 23410447980894,
      3201664, 2331652450, 464, 40234, 58578, 9815152, 3588531574987561, 1472, 121882, 61305,
      3202312, 2331653098, 9813127, 3588531574985536, 810099688, 123448, 10001938, 810100336,
      14879555, 1042406, 14722091, 401757406, 28154383, 397505878, 60923, 3980, 60275, 549696,
      543864, 3343391426, 7127682437180, 457327811, 504443, 1475147, 152442623, 3558736568,
      7598398665926, 460339310, 109348, 215065, 121024, 10854455900218978, 535060, 2090296,
      1086463, 524125, 2070613, 552556, 2129662, 121769, 121823, 1470, 1484, 752489034,
      3618151966725736, 4587, 119283, 95268046219387247, 1186386705, 5539233266893800,
      152202519, 18436554, 81797827, 1173632121, 5478228487013904, 81797611, 1114642170,
      5196081380069385, 81796612, 131868279, 2532801301776, 123399, 3333132, 130451103,
      2504907026568, 123896664, 2375896003731, 4365, 3205952, 3944, 326340]"
  unfolding registry_keys_eq by (simp add: char_code_simps del: of_char_Char)

lemma registry_keys_distinct: "distinct (concat (map (\<lambda>e. remdups (entry_keys e)) (REGISTRY ao)))"
proof (rule distinct_map [THEN iffD1, THEN conjunct1])
  show "distinct (map name_hash (concat (map (\<lambda>e. remdups (entry_keys e)) (REGISTRY ao))))"
    unfolding registry_keys_hash by simp
qed

lemma registry_get_unique:
  assumes "distinct (concat (map (\<lambda>e. remdups (entry_keys e)) R))" "e \<in> set R" "matches_name e n"
  shows "registry_get R n = Some e"
  using assms(1,2)
proof (induction R)
  case (Cons x R)
  show ?case
  proof (cases "matches_name x n")
    case True
    have "x = e"
    proof (rule ccontr)
      assume "x \<noteq> e"
      then have "e \<in> set R" using Cons.prems by simp
      moreover have "map ascii_lower_char n \<in> set (entry_keys x)" "map ascii_lower_char n \<in> set (entry_keys e)"
        using True assms(3) by (simp_all add: matches_name_keys)
      ultimately show False using Cons.prems(1) by auto
    qed
    then show ?thesis using True by (simp add: registry_get_def)
  next
    case False
    then have "e \<in> set R" using Cons.prems(2) assms(3) by auto
    then show ?thesis using Cons.IH Cons.prems(1) False by (simp add: registry_get_def)
  qed
qed simp

lemma registry_get_name:
  assumes "e \<in> set (REGISTRY ao)" "map ascii_lower_char n \<in> set (entry_keys e)"
  shows "registry_get (REGISTRY ao) n = Some e"
  by (rule registry_get_unique [OF registry_keys_distinct assms(1)]) (simp add: matches_name_keys assms(2))

section \<open>What a recommendation is, over this registry\<close>

lemma registry_lookups:
  "registry_get (REGISTRY ao) ''chacha20-poly1305'' = Some (reg_chacha20_poly1305 ao)"
  "registry_get (REGISTRY ao) ''aes-256-gcm'' = Some reg_aes_256_gcm"
  "registry_get (REGISTRY ao) ''sha2-256'' = Some reg_sha2_256"
  "registry_get (REGISTRY ao) ''sha2-512'' = Some reg_sha2_512"
  "registry_get (REGISTRY ao) ''x25519'' = Some (reg_x25519 ao)"
  "registry_get (REGISTRY ao) ''ecdh-p256'' = Some reg_ecdh_p256"
  "registry_get (REGISTRY ao) ''ml-kem-768'' = Some reg_ml_kem_768"
  "registry_get (REGISTRY ao) ''ml-kem-1024'' = Some reg_ml_kem_1024"
  "registry_get (REGISTRY ao) ''ed25519'' = Some (reg_ed25519 ao)"
  "registry_get (REGISTRY ao) ''ecdsa-p256-sha256'' = Some reg_ecdsa_p256_sha256"
  "registry_get (REGISTRY ao) ''ml-dsa-65'' = Some reg_ml_dsa_65"
  "registry_get (REGISTRY ao) ''ml-dsa-87'' = Some reg_ml_dsa_87"
  by (rule registry_get_name; simp add: REGISTRY_def registry_facts ascii_lower_simps)+

lemma available_eq:
  "registry_get R i = Some e \<Longrightarrow>
   available R base i = (if query_matches base e \<and> status e = ImplStatus_Available then Some e else None)"
  by (simp add: available_def pick_def)

text \<open>AES-256-GCM meets every floor any other authenticated cipher of the registry meets.\<close>

lemma aead_strongest:
  "list_all (\<lambda>e. entry_class e = Class_Aead \<longrightarrow>
     classical (entry_strength e) \<le> 256 \<and> quantum (entry_strength e) \<le> 128) (REGISTRY ao)"
  by (simp add: REGISTRY_def registry_facts)

lemma recommend_never_panics: "recommend ao (REGISTRY ao) i pol \<noteq> None"
proof
  assume "recommend ao (REGISTRY ao) i pol = None"
  then obtain e where i: "i = Intent_EncryptMessage" and e: "e \<in> set (REGISTRY ao)" "acceptable ao i pol e"
    and none: "available (REGISTRY ao) (recommend_query ao i pol) ''aes-256-gcm'' = None"
    by (auto simp: recommend_panics)
  have "entry_class e = Class_Aead" using e(2) by (simp add: acceptable_def i)
  then have "classical (entry_strength e) \<le> 256 \<and> quantum (entry_strength e) \<le> 128"
    using aead_strongest [of ao] e(1) by (auto simp: list_all_iff)
  then have "acceptable ao i pol reg_aes_256_gcm"
    using e(2) by (auto simp: acceptable_def i registry_facts serves_def)
  then show False
    using none by (simp add: available_eq [OF registry_lookups(2)] recommend_query_matches registry_facts)
qed

text \<open>
  An entry that is not available is either refused by the build's own policy, or
  covered by an available one of the same class that serves at least its purposes,
  is at least as strong and at least as approved; the Salsa20 core alone is
  covered by nothing, and no intent asks for what it is.
\<close>

definition covers :: "entry \<Rightarrow> entry \<Rightarrow> bool" where
  "covers d e \<longleftrightarrow> entry_class d = entry_class e \<and> set (purposes e) \<subseteq> set (purposes d)
     \<and> classical (entry_strength e) \<le> classical (entry_strength d)
     \<and> quantum (entry_strength e) \<le> quantum (entry_strength d)
     \<and> (permitted_in_approved_mode (fips e) \<longrightarrow> permitted_in_approved_mode (fips d))"

definition covering :: "entry list" where
  "covering = [reg_sha2_512, reg_aes_256, reg_hkdf_sha2_256, reg_hss_lms]"

lemma covering_available:
  "list_all (\<lambda>d. d \<in> set (REGISTRY ao) \<and> status d = ImplStatus_Available) covering"
  by (simp add: covering_def REGISTRY_def registry_facts)

lemma registry_covered:
  "list_all (\<lambda>e. status e = ImplStatus_Available \<or> (ao \<and> \<not> permitted_in_approved_mode (fips e))
      \<or> list_ex (\<lambda>d. covers d e) covering
      \<or> (entry_class e = Class_Hash \<and> purposes e = [Purpose_KeyDerivation])) (REGISTRY ao)"
  by (simp add: covering_def covers_def REGISTRY_def registry_facts NOT_APPROVED_STATUS_def)

lemma covers_acceptable: "covers d e \<Longrightarrow> acceptable ao i pol e \<Longrightarrow> acceptable ao i pol d"
  by (auto simp: covers_def acceptable_def serves_def simp del: permitted_in_approved_mode.simps)

lemma no_intent_derives_with_a_hash:
  "acceptable ao i pol e \<Longrightarrow> \<not> (entry_class e = Class_Hash \<and> purposes e = [Purpose_KeyDerivation])"
  by (cases i) (auto simp: acceptable_def serves_def)

lemma acceptable_available:
  assumes "e \<in> set (REGISTRY ao)" "acceptable ao i pol e"
  shows "\<exists>d \<in> set (REGISTRY ao). status d = ImplStatus_Available \<and> acceptable ao i pol d"
proof -
  have "\<not> (ao \<and> \<not> permitted_in_approved_mode (fips e))"
    using assms(2) by (simp add: acceptable_def)
  with registry_covered [of ao] assms no_intent_derives_with_a_hash [OF assms(2)]
  have "status e = ImplStatus_Available \<or> (\<exists>d \<in> set covering. covers d e)"
    by (auto simp: list_all_iff list_ex_iff)
  then show ?thesis
    using assms covering_available [of ao] covers_acceptable by (auto simp: list_all_iff)
qed

lemma recommend_known_available:
  "recommend ao (REGISTRY ao) i pol \<noteq> Some (Inl (KnownButUnavailable x))"
proof
  assume "recommend ao (REGISTRY ao) i pol = Some (Inl (KnownButUnavailable x))"
  then have none: "\<forall>e \<in> set (REGISTRY ao). acceptable ao i pol e \<longrightarrow> status e \<noteq> ImplStatus_Available"
    and "KnownButUnavailable x = (case filter (acceptable ao i pol) (REGISTRY ao) of
            [] \<Rightarrow> NothingSatisfiesPolicy | e # _ \<Rightarrow> KnownButUnavailable (entry_id e))"
    by (simp_all add: recommend_Inl)
  then obtain e es where "filter (acceptable ao i pol) (REGISTRY ao) = e # es"
    by (cases "filter (acceptable ao i pol) (REGISTRY ao)") auto
  then have "e \<in> set (REGISTRY ao)" "acceptable ao i pol e"
    using Cons_eq_filterD [of e es] by (metis filter_eq_ConsD in_set_conv_decomp)+
  from acceptable_available [OF this] none show False by blast
qed

lemma recommend_outcome:
  "(if \<exists>e \<in> set (REGISTRY ao). acceptable ao i pol e
    then \<exists>r. recommend ao (REGISTRY ao) i pol = Some (Inr r)
    else recommend ao (REGISTRY ao) i pol = Some (Inl NothingSatisfiesPolicy))"
proof (cases "recommend ao (REGISTRY ao) i pol")
  case None
  then show ?thesis using recommend_never_panics by blast
next
  case (Some r)
  show ?thesis
  proof (cases r)
    case (Inl why)
    then have "why = NothingSatisfiesPolicy"
      using recommend_known_available Some by (cases why) auto
    moreover have "\<not> (\<exists>e \<in> set (REGISTRY ao). acceptable ao i pol e)"
      using Some Inl recommend_Inl acceptable_available by blast
    ultimately show ?thesis using Some Inl by simp
  next
    case (Inr x)
    then have "\<exists>e \<in> set (REGISTRY ao). acceptable ao i pol e"
      using recommend_Inr Some by blast
    then show ?thesis using Some Inr by auto
  qed
qed

text \<open>The choices the documentation names.\<close>

lemma recommend_primaryI:
  assumes "recommend ao (REGISTRY ao) i pol = Some (Inr r)"
    and "build_selection (REGISTRY ao) i (pol\<lparr>require_fips := require_fips pol \<or> ao\<rparr>)
           (recommend_query ao i pol) = Some (p, why, alt, rejs)"
  shows "primary r = p \<and> alternative r = alt \<and> rationale r = why \<and> rec_rejected r = rejs"
  using assms
  by (auto simp: recommend_def Let_def recommend_query_fips_idem build_def
      split: if_splits list.splits option.splits)

lemma reg_members:
  "reg_ml_kem_768 \<in> set (REGISTRY ao)" "reg_ml_dsa_65 \<in> set (REGISTRY ao)"
  "reg_aes_256_gcm \<in> set (REGISTRY ao)" "reg_chacha20_poly1305 ao \<in> set (REGISTRY ao)"
  "reg_ecdh_p256 \<in> set (REGISTRY ao)" "reg_ecdsa_p256_sha256 \<in> set (REGISTRY ao)"
  by (simp_all add: REGISTRY_def)

lemma recommend_primaryI':
  assumes "e \<in> set (REGISTRY ao)" "acceptable ao i pol e"
    and "build_selection (REGISTRY ao) i (pol\<lparr>require_fips := require_fips pol \<or> ao\<rparr>)
           (recommend_query ao i pol) = Some (p, why, alt, rejs)"
  shows "\<exists>r. recommend ao (REGISTRY ao) i pol = Some (Inr r) \<and> primary r = p \<and> alternative r = alt
      \<and> rec_rejected r = rejs"
proof -
  obtain r where "recommend ao (REGISTRY ao) i pol = Some (Inr r)"
    using recommend_outcome [of ao i pol] assms(1,2) by (auto split: if_splits)
  then show ?thesis using recommend_primaryI [OF _ assms(3)] by blast
qed

lemma cnsa_agree:
  "\<exists>r. recommend ao (REGISTRY ao) Intent_AgreeKey POLICY_CNSA = Some (Inr r)
     \<and> primary r = reg_ml_kem_768 \<and> alternative r = Some reg_ml_kem_1024"
proof -
  have "acceptable ao Intent_AgreeKey POLICY_CNSA reg_ml_kem_768"
    by (simp add: acceptable_def POLICY_CNSA_def registry_facts serves_def)
  moreover have "\<exists>why rejs. build_selection (REGISTRY ao) Intent_AgreeKey
      (POLICY_CNSA\<lparr>require_fips := require_fips POLICY_CNSA \<or> ao\<rparr>)
      (recommend_query ao Intent_AgreeKey POLICY_CNSA)
      = Some (reg_ml_kem_768, why, Some reg_ml_kem_1024, rejs)"
    by (simp add: build_agree_def available_eq [OF registry_lookups(5)] available_eq [OF registry_lookups(6)]
        available_eq [OF registry_lookups(7)] available_eq [OF registry_lookups(8)]
        recommend_query_matches acceptable_def POLICY_CNSA_def registry_facts serves_def)
  ultimately show ?thesis
    using recommend_primaryI' [OF reg_members(1)] by blast
qed

lemma cnsa_sign:
  "\<exists>r. recommend ao (REGISTRY ao) Intent_SignData POLICY_CNSA = Some (Inr r)
     \<and> primary r = reg_ml_dsa_65 \<and> alternative r = Some reg_ml_dsa_87"
proof -
  have "acceptable ao Intent_SignData POLICY_CNSA reg_ml_dsa_65"
    by (simp add: acceptable_def POLICY_CNSA_def registry_facts serves_def)
  moreover have "\<exists>why rejs. build_selection (REGISTRY ao) Intent_SignData
      (POLICY_CNSA\<lparr>require_fips := require_fips POLICY_CNSA \<or> ao\<rparr>)
      (recommend_query ao Intent_SignData POLICY_CNSA)
      = Some (reg_ml_dsa_65, why, Some reg_ml_dsa_87, rejs)"
    by (simp add: build_sign_def available_eq [OF registry_lookups(9)] available_eq [OF registry_lookups(10)]
        available_eq [OF registry_lookups(11)] available_eq [OF registry_lookups(12)]
        recommend_query_matches acceptable_def POLICY_CNSA_def registry_facts serves_def)
  ultimately show ?thesis
    using recommend_primaryI' [OF reg_members(2)] by blast
qed

lemma encrypt_choice:
  assumes "min_classical_bits pol \<le> 256" "min_quantum_bits pol \<le> 128"
  shows "\<exists>r. recommend ao (REGISTRY ao) Intent_EncryptMessage pol = Some (Inr r)
     \<and> primary r = (if require_fips pol \<or> ao \<or> aes_hardware pol then reg_aes_256_gcm
                     else reg_chacha20_poly1305 ao)"
proof -
  have acc: "acceptable ao Intent_EncryptMessage pol reg_aes_256_gcm"
    using assms by (simp add: acceptable_def registry_facts serves_def)
  have cha: "available (REGISTRY ao) (recommend_query ao Intent_EncryptMessage pol) ''chacha20-poly1305''
      = (if require_fips pol \<or> ao then None else Some (reg_chacha20_poly1305 ao))"
    using assms by (simp add: available_eq [OF registry_lookups(1)] recommend_query_matches
        acceptable_def registry_facts serves_def NOT_APPROVED_STATUS_def)
  have aes: "available (REGISTRY ao) (recommend_query ao Intent_EncryptMessage pol) ''aes-256-gcm''
      = Some reg_aes_256_gcm"
    using acc by (simp add: available_eq [OF registry_lookups(2)] recommend_query_matches registry_facts)
  have "\<exists>why alt rejs. build_selection (REGISTRY ao) Intent_EncryptMessage
      (pol\<lparr>require_fips := require_fips pol \<or> ao\<rparr>) (recommend_query ao Intent_EncryptMessage pol)
      = Some (if require_fips pol \<or> ao \<or> aes_hardware pol then reg_aes_256_gcm
              else reg_chacha20_poly1305 ao, why, alt, rejs)"
    using cha aes
    by (cases "require_fips pol"; cases ao; cases "aes_hardware pol")
       (simp_all add: build_encrypt_def)
  then show ?thesis
    using recommend_primaryI' [OF reg_members(3) acc] by blast
qed

end
