(* ===== verification/Fips_Casts.thy ===== *)
theory Fips_Casts
  imports Fips Ontology_Registry
begin

text \<open>
  The table of known-answer tests of \<open>crates/ic-fips/src/selftest.rs\<close> against the
  registry: which algorithms have a test, in which build.
\<close>

text \<open>
  The rows of the table: the identifier, and whether the row is compiled out of an
  approved-only build. The test functions themselves are the argument \<open>casts\<close> of
  the self-test runner.
\<close>

definition CASTS :: "(string \<times> bool) list" where
  "CASTS =
     [(''sha2-224'', False), (''sha2-256'', False), (''sha2-384'', False),
      (''sha2-512'', False), (''sha2-512-224'', False), (''sha2-512-256'', False),
      (''sha3-224'', False), (''sha3-256'', False), (''sha3-384'', False),
      (''sha3-512'', False), (''shake128'', False), (''shake256'', False),
      (''cshake128'', False), (''cshake256'', False), (''tuplehash128'', False),
      (''tuplehash256'', False), (''parallelhash128'', False), (''parallelhash256'', False),
      (''hmac-sha2-256'', False), (''hmac-sha2-384'', False), (''hmac-sha2-512'', False),
      (''hmac-sha2-512-256'', False), (''hmac-sha3-256'', False), (''hmac-sha3-512'', False),
      (''cmac-aes-128'', False), (''cmac-aes-192'', False), (''cmac-aes-256'', False),
      (''kmac128'', False), (''kmac256'', False), (''poly1305'', True), (''blake2b'', True),
      (''blake2s'', True), (''blake3'', True), (''aes-128'', False), (''aes-192'', False),
      (''aes-256'', False), (''aes-128-gcm'', False), (''aes-192-gcm'', False),
      (''aes-256-gcm'', False), (''chacha20-poly1305'', True), (''xchacha20-poly1305'', True),
      (''aes-128-gcm-siv'', True), (''aes-256-gcm-siv'', True), (''aes-128-kw'', False),
      (''aes-256-kw'', False), (''aes-192-kwp'', False), (''aes-256-kwp'', False),
      (''hkdf-sha2-256'', False), (''argon2id'', True), (''scrypt'', True),
      (''yescrypt'', True), (''bcrypt'', True), (''oprf-p256-sha256'', True),
      (''opaque-3dh-p256'', True), (''hash-to-curve-p256'', True), (''passphrase-seal'', True),
      (''pbkdf2-hmac-sha2-256'', False), (''pkcs8-pbes2'', False),
      (''sp800-108-counter-hmac-sha2-256'', False), (''ml-kem-512'', False),
      (''ml-kem-768'', False), (''ml-kem-1024'', False), (''ml-dsa-44'', False),
      (''ml-dsa-65'', False), (''ml-dsa-87'', False), (''hmac-drbg-sha2-256'', False),
      (''ctr-drbg-aes-256'', False), (''x25519'', True), (''ed25519'', True), (''ed448'', True),
      (''mldsa44-ed25519-sha512'', True), (''mldsa65-ed25519-sha512'', True),
      (''mldsa87-ed448-shake256'', True), (''ecdh-p256'', False),
      (''ecdsa-p256-sha256'', False), (''ecdh-p384'', False), (''ecdsa-p384-sha384'', False),
      (''ecdh-p521'', False), (''ecdsa-p521-sha512'', False), (''hpke-x25519-sha256'', True),
      (''hpke-p384-sha384'', True), (''hss-lms'', False), (''slh-dsa'', False),
      (''shamir-gf256'', True), (''rsa-pkcs1-sha256'', False), (''rsa-pkcs1-sha384'', False),
      (''rsa-pkcs1-sha512'', False), (''rsa-pss-sha256'', False), (''rsa-pss-sha384'', False),
      (''rsa-pss-sha512'', False)]"

definition tested_algorithms :: "bool \<Rightarrow> string list" where
  "tested_algorithms ao = map fst (filter (\<lambda>(n, gated). \<not> (ao \<and> gated)) CASTS)"

definition TEST_COUNT :: "bool \<Rightarrow> nat" where
  "TEST_COUNT ao = (if ao then 65 else 90)"

lemma tested_algorithms_length: "length (tested_algorithms ao) = TEST_COUNT ao"
  by (cases ao) (simp_all add: tested_algorithms_def CASTS_def TEST_COUNT_def)

lemma tested_known: "list_all (\<lambda>n. n \<in> registry_ids ao) (tested_algorithms ao)"
  by (cases ao) (simp_all add: tested_algorithms_def CASTS_def registry_id_members)

definition cast_rows :: "(string \<times> bool) set" where
  "cast_rows = set CASTS"

lemma cast_rows_all: "list_all (\<lambda>r. r \<in> cast_rows) CASTS"
  by (simp add: cast_rows_def list_all_iff)

lemmas cast_rows_members = cast_rows_all [unfolded CASTS_def list.pred_inject]

text \<open>The entries without a row: what is not implemented, and six that run inside another's test.\<close>

definition without_cast :: "string list" where
  "without_cast = [''sha-1'', ''md5'', ''aes-cbc'', ''aes-ctr'', ''hkdf-sha2-384'', ''hkdf-sha2-512'', ''pbkdf2-hmac-sha2-512'', ''blowfish'', ''salsa20-8-core'', ''hchacha20'', ''hmac-drbg-sha2-512'', ''xmss'', ''3des'']"

definition exempt_from_cast :: "string list" where
  "exempt_from_cast =
     [''aes-cbc'', ''aes-ctr'', ''hkdf-sha2-384'', ''hkdf-sha2-512'', ''pbkdf2-hmac-sha2-512'',
      ''hmac-drbg-sha2-512'']"

text \<open>A row is left out of an approved-only build exactly when its algorithm is not approved.\<close>

lemma registry_rows:
  "list_all (\<lambda>e. (entry_id e, \<not> permitted_in_approved_mode (fips e)) \<in> cast_rows
      \<or> entry_id e \<in> set without_cast) (REGISTRY ao)"
  by (simp add: REGISTRY_def registry_facts without_cast_def cast_rows_members)

lemma without_cast_available:
  "list_all (\<lambda>e. status e = ImplStatus_Available \<longrightarrow> entry_id e \<in> set without_cast \<longrightarrow>
      entry_id e \<in> set exempt_from_cast) (REGISTRY ao)"
  by (simp add: REGISTRY_def registry_facts without_cast_def exempt_from_cast_def
      NOT_APPROVED_STATUS_def)

lemma cast_row_tested: "(n, g) \<in> cast_rows \<Longrightarrow> \<not> (ao \<and> g) \<Longrightarrow> n \<in> set (tested_algorithms ao)"
  by (force simp: cast_rows_def tested_algorithms_def)

lemma available_tested:
  assumes "e \<in> set (REGISTRY ao)" "status e = ImplStatus_Available"
  shows "entry_id e \<in> set (tested_algorithms ao) \<or> entry_id e \<in> set exempt_from_cast"
proof -
  have "(entry_id e, \<not> permitted_in_approved_mode (fips e)) \<in> cast_rows \<or> entry_id e \<in> set without_cast"
    using registry_rows [of ao] assms(1) by (simp add: list_all_iff)
  moreover have "entry_id e \<in> set without_cast \<longrightarrow> entry_id e \<in> set exempt_from_cast"
    using without_cast_available [of ao] assms by (simp add: list_all_iff)
  moreover have "\<not> (ao \<and> \<not> permitted_in_approved_mode (fips e))"
    using registry_approved_only assms by (cases ao) (auto simp: list_all_iff)
  ultimately show ?thesis using cast_row_tested by blast
qed

end
