(* ===== verification/Gf.thy ===== *)
theory Gf
  imports Prelude
begin

text \<open>
  The field of AES: \<open>crates/ic-cipher/src/gf.rs\<close>. The routines are translated as
  they are written, on bytes; the proofs rest on every one of them being additive,
  so that an identity need only be checked at the eight powers of two. With
  multiplication and inversion shown to form a field, the bytes become an instance
  of the library's class, and its algebra serves the secret sharing.
\<close>

section \<open>The routines\<close>

definition MODULUS :: u8 where "MODULUS = 0x1b"

text \<open>One turn of the multiplication loop, on \<open>(p, a, b)\<close>.\<close>

definition gf_mul_step :: "u8 \<times> u8 \<times> u8 \<Rightarrow> u8 \<times> u8 \<times> u8" where
  "gf_mul_step st = (case st of (p, a, b) \<Rightarrow>
     let p = p XOR (a AND - (b AND 1));
         hi = drop_bit 7 a AND 1;
         a = push_bit 1 a;
         a = a XOR (MODULUS AND - hi);
         b = drop_bit 1 b
     in (p, a, b))"

definition gf_mul :: "u8 \<Rightarrow> u8 \<Rightarrow> u8" where
  "gf_mul a b = fst ((gf_mul_step ^^ 8) (0, a, b))"

definition gf_square :: "u8 \<Rightarrow> u8" where
  "gf_square x =
     (let t = ucast x :: u16;
          t = (t OR push_bit 4 t) AND 0x0f0f;
          t = (t OR push_bit 2 t) AND 0x3333;
          t = (t OR push_bit 1 t) AND 0x5555;
          r = ucast (t AND 0xff) :: u8;
          r = r XOR (0x1b AND - (ucast (drop_bit 8 t AND 1)));
          r = r XOR (0x6c AND - (ucast (drop_bit 10 t AND 1)));
          r = r XOR (0xab AND - (ucast (drop_bit 12 t AND 1)));
          r = r XOR (0x9a AND - (ucast (drop_bit 14 t AND 1)))
      in r)"

definition gf_xtime :: "u8 \<Rightarrow> u8" where
  "gf_xtime a = (let hi = drop_bit 7 a AND 1 in push_bit 1 a XOR (MODULUS AND - hi))"

text \<open>The loop of \<open>inv\<close>, for \<open>bit\<close> from 6 down to 0.\<close>

definition gf_inv_step :: "u8 \<Rightarrow> nat \<Rightarrow> u8 \<Rightarrow> u8" where
  "gf_inv_step x bit_no r = (let r = gf_square r in if 0 < bit_no then gf_mul r x else r)"

definition gf_inv :: "u8 \<Rightarrow> u8" where
  "gf_inv x = fold (gf_inv_step x) [6, 5, 4, 3, 2, 1, 0] x"

definition rotl8 :: "nat \<Rightarrow> u8 \<Rightarrow> u8" where
  "rotl8 k y = push_bit k y OR drop_bit (8 - k) y"

definition gf_sbox :: "u8 \<Rightarrow> u8" where
  "gf_sbox x =
     (let y = gf_inv x
      in y XOR rotl8 1 y XOR rotl8 2 y XOR rotl8 3 y XOR rotl8 4 y XOR 0x63)"

definition gf_inv_sbox :: "u8 \<Rightarrow> u8" where
  "gf_inv_sbox y =
     (let t = rotl8 1 y XOR rotl8 3 y XOR rotl8 6 y XOR 0x05 in gf_inv t)"

section \<open>Additive maps on bytes\<close>

definition additive8 :: "(u8 \<Rightarrow> 'a::len word) \<Rightarrow> bool" where
  "additive8 f \<longleftrightarrow> (\<forall>x y. f (x XOR y) = f x XOR f y)"

lemma additive8D: "additive8 f \<Longrightarrow> f (x XOR y) = f x XOR f y"
  by (simp add: additive8_def)

lemma additive8_0: "additive8 f \<Longrightarrow> f 0 = 0"
  using additive8D [of f 0 0] by simp

lemma additive8_comp: "additive8 f \<Longrightarrow> additive8 g \<Longrightarrow> additive8 (\<lambda>x. f (g x))"
  by (simp add: additive8_def)

lemma additive8_xor: "additive8 f \<Longrightarrow> additive8 g \<Longrightarrow> additive8 (\<lambda>x. f x XOR g x)"
  by (simp add: additive8_def ac_simps)

lemma additive8_id: "additive8 (\<lambda>x. x)"
  by (simp add: additive8_def)

text \<open>A byte is the sum of its bits, so additive maps that agree on the powers of two are equal.\<close>

definition bitmask8 :: "u8 \<Rightarrow> nat \<Rightarrow> u8" where
  "bitmask8 x i = (if bit x i then push_bit i 1 else 0)"

lemma bit_bitmask8: "bit (bitmask8 x i) n \<longleftrightarrow> n = i \<and> bit x i"
  using u8_bit_less [of x i] by (auto simp: bitmask8_def bit_exp_iff)

lemma byte_bits:
  "x = bitmask8 x 0 XOR bitmask8 x 1 XOR bitmask8 x 2 XOR bitmask8 x 3
     XOR bitmask8 x 4 XOR bitmask8 x 5 XOR bitmask8 x 6 XOR bitmask8 x 7"
proof (rule bit_word_eqI)
  fix n assume "n < LENGTH(8)"
  then consider "n = 0" | "n = 1" | "n = 2" | "n = 3" | "n = 4" | "n = 5" | "n = 6" | "n = 7"
    by fastforce
  then show "bit x n = bit (bitmask8 x 0 XOR bitmask8 x 1 XOR bitmask8 x 2 XOR bitmask8 x 3
     XOR bitmask8 x 4 XOR bitmask8 x 5 XOR bitmask8 x 6 XOR bitmask8 x 7) n"
    unfolding bit_xor_iff bit_bitmask8 by cases simp_all
qed

lemma additive8_ext:
  assumes f: "additive8 f" and g: "additive8 g"
    and "\<And>i. i < 8 \<Longrightarrow> f (push_bit i 1) = g (push_bit i 1)"
  shows "f x = g x"
proof -
  have b: "f (bitmask8 x i) = g (bitmask8 x i)" if "i < 8" for i
    using assms(3) [OF that] by (simp add: bitmask8_def additive8_0 [OF f] additive8_0 [OF g])
  have "f x = f (bitmask8 x 0 XOR bitmask8 x 1 XOR bitmask8 x 2 XOR bitmask8 x 3
     XOR bitmask8 x 4 XOR bitmask8 x 5 XOR bitmask8 x 6 XOR bitmask8 x 7)"
    using byte_bits [of x] by simp
  also have "\<dots> = g (bitmask8 x 0 XOR bitmask8 x 1 XOR bitmask8 x 2 XOR bitmask8 x 3
     XOR bitmask8 x 4 XOR bitmask8 x 5 XOR bitmask8 x 6 XOR bitmask8 x 7)"
    by (simp only: additive8D [OF f] additive8D [OF g] b)
  also have "\<dots> = g x" using byte_bits [of x] by simp
  finally show ?thesis .
qed

text \<open>The pieces the routines are made of.\<close>

lemma neg_bit_mask: "- (of_bool p :: 'a::len word) = (if p then - 1 else 0)"
  by simp

lemma drop_and_1: "drop_bit k (a :: 'a::len word) AND 1 = of_bool (bit a k)"
  by (rule bit_word_eqI) (auto simp: bit_simps)

lemma additive8_mask: "additive8 (\<lambda>x. c AND - (of_bool (bit x k)))"
  by (auto simp: additive8_def bit_simps)

lemma additive8_push: "additive8 (\<lambda>x. push_bit k x)"
  by (auto simp: additive8_def intro!: bit_word_eqI simp: bit_simps)

lemma additive8_rotl8: "additive8 (rotl8 k)" if "k < 8"
proof -
  have "rotl8 k x = push_bit k x XOR drop_bit (8 - k) x" for x
  proof (rule bit_word_eqI)
    fix n
    have "k \<le> n \<Longrightarrow> \<not> bit x (8 - k + n)" using that u8_bit_less [of x "8 - k + n"] by linarith
    then show "bit (rotl8 k x) n = bit (push_bit k x XOR drop_bit (8 - k) x) n"
      by (auto simp: rotl8_def bit_push_bit_iff bit_drop_bit_eq bit_or_iff bit_xor_iff)
  qed
  then show ?thesis
    by (auto simp: additive8_def intro!: bit_word_eqI simp: bit_simps)
qed

section \<open>Multiplication is bilinear\<close>

lemma gf_xtime_additive: "additive8 gf_xtime"
  unfolding gf_xtime_def Let_def drop_and_1
  by (intro additive8_xor additive8_push additive8_mask)

lemma gf_mul_step_eq:
  "gf_mul_step (p, a, b) = (p XOR (if bit b 0 then a else 0), gf_xtime a, drop_bit 1 b)"
  using drop_and_1 [of 0 b] by (simp add: gf_mul_step_def gf_xtime_def Let_def)

text \<open>The product as the sum of the shifted first factor over the bits of the second.\<close>

lemma gf_mul_sum:
  "gf_mul a b =
     (if bit b 0 then a else 0) XOR (if bit b 1 then gf_xtime a else 0)
     XOR (if bit b 2 then (gf_xtime ^^ 2) a else 0) XOR (if bit b 3 then (gf_xtime ^^ 3) a else 0)
     XOR (if bit b 4 then (gf_xtime ^^ 4) a else 0) XOR (if bit b 5 then (gf_xtime ^^ 5) a else 0)
     XOR (if bit b 6 then (gf_xtime ^^ 6) a else 0) XOR (if bit b 7 then (gf_xtime ^^ 7) a else 0)"
  by (simp add: gf_mul_def gf_mul_step_eq eval_nat_numeral bit_drop_bit_eq ac_simps)

lemma additive8_funpow: "additive8 (f :: u8 \<Rightarrow> u8) \<Longrightarrow> additive8 (f ^^ n)"
  by (induction n) (simp_all add: additive8_def)

lemma additive8_if_bit: "additive8 (\<lambda>b. if bit b k then c else 0)"
  by (auto simp: additive8_def bit_xor_iff)

lemma additive8_if: "additive8 f \<Longrightarrow> additive8 (\<lambda>a. if p then f a else 0)"
  by (cases p) (simp_all add: additive8_def)

lemma gf_mul_additive_left: "additive8 (\<lambda>a. gf_mul a b)"
  unfolding gf_mul_sum
  by (intro additive8_xor additive8_if additive8_funpow gf_xtime_additive additive8_id)

lemma gf_mul_additive_right: "additive8 (gf_mul a)"
proof -
  have "additive8 (\<lambda>b. gf_mul a b)"
    unfolding gf_mul_sum by (intro additive8_xor additive8_if_bit)
  then show ?thesis by simp
qed

lemma less8_cases: "(i :: nat) < 8 \<Longrightarrow> i \<in> {0, 1, 2, 3, 4, 5, 6, 7}"
  by auto

lemma gf_xtime_low: "\<not> bit a 7 \<Longrightarrow> gf_xtime a = push_bit 1 a"
  by (simp add: gf_xtime_def Let_def drop_and_1)

lemma powers_of_x: "i < 8 \<Longrightarrow> push_bit i (1 :: u8) = (gf_xtime ^^ i) 1"
proof (induction i)
  case (Suc i)
  have "\<not> bit (push_bit i (1 :: u8)) 7" using Suc.prems by (auto simp: bit_exp_iff)
  then have "gf_xtime (push_bit i 1) = push_bit (Suc i) 1"
    using gf_xtime_low [of "push_bit i 1"] by simp
  then show ?case using Suc by simp
qed simp

lemma gf_mul_power: "i < 8 \<Longrightarrow> gf_mul a (push_bit i 1) = (gf_xtime ^^ i) a"
  by (drule less8_cases) (auto simp: gf_mul_sum bit_exp_iff bit_1_iff)

lemma gf_mul_comm: "gf_mul a b = gf_mul b a"
proof (rule additive8_ext [of "\<lambda>b. gf_mul a b" "\<lambda>b. gf_mul b a"])
  fix j :: nat assume j: "j < 8"
  show "gf_mul a (push_bit j 1) = gf_mul (push_bit j 1) a"
  proof (rule additive8_ext [of "\<lambda>a. gf_mul a (push_bit j 1)" "\<lambda>a. gf_mul (push_bit j 1) a"])
    fix i :: nat assume i: "i < 8"
    show "gf_mul (push_bit i 1) (push_bit j 1) = gf_mul (push_bit j 1) (push_bit i 1)"
      unfolding gf_mul_power [OF i] gf_mul_power [OF j]
      unfolding powers_of_x [OF i] powers_of_x [OF j]
      by (metis add.commute comp_apply funpow_add)
  qed (rule gf_mul_additive_left gf_mul_additive_right)+
qed (use gf_mul_additive_left gf_mul_additive_right in simp_all)

lemma gf_xtime_mul: "gf_mul (gf_xtime a) b = gf_xtime (gf_mul a b)"
  by (simp add: gf_mul_sum additive8D [OF gf_xtime_additive] funpow_swap1 if_distrib
      additive8_0 [OF gf_xtime_additive] cong: if_cong)

lemma gf_xtime_pow_mul: "gf_mul ((gf_xtime ^^ n) a) b = (gf_xtime ^^ n) (gf_mul a b)"
  by (induction n) (simp_all add: gf_xtime_mul)

lemma gf_mul_assoc: "gf_mul (gf_mul a b) c = gf_mul a (gf_mul b c)"
proof (rule additive8_ext [of "\<lambda>c. gf_mul (gf_mul a b) c" "\<lambda>c. gf_mul a (gf_mul b c)"])
  fix k :: nat assume "k < 8"
  then show "gf_mul (gf_mul a b) (push_bit k 1) = gf_mul a (gf_mul b (push_bit k 1))"
    using gf_xtime_pow_mul [of k b a]
    by (simp only: gf_mul_power gf_mul_comm [of a "(gf_xtime ^^ k) b"] gf_mul_comm [of b a])
qed (use additive8_comp [OF gf_mul_additive_right gf_mul_additive_right] gf_mul_additive_right in simp_all)

lemma gf_mul_1 [simp]: "gf_mul 1 a = a" "gf_mul a 1 = a"
  using gf_mul_power [of 0 a] gf_mul_comm [of 1 a] by simp_all

lemma gf_mul_0 [simp]: "gf_mul 0 a = 0" "gf_mul a 0 = 0"
  using additive8_0 [OF gf_mul_additive_left] additive8_0 [OF gf_mul_additive_right] by simp_all

section \<open>Squaring and inversion\<close>

text \<open>The first part of \<open>square\<close> spreads bit \<open>i\<close> to position \<open>2 i\<close>.\<close>

definition spread :: "u8 \<Rightarrow> u16" where
  "spread x =
     (let t = ucast x :: u16;
          t = (t OR push_bit 4 t) AND 0x0f0f;
          t = (t OR push_bit 2 t) AND 0x3333
      in (t OR push_bit 1 t) AND 0x5555)"

lemma less16_cases:
  assumes "(n :: nat) < 16"
  shows "n \<in> {0, 1, 2, 3, 4, 5, 6, 7, 8, 9, 10, 11, 12, 13, 14, 15}"
proof -
  have "n \<in> set [0..<16]" using assms by simp
  then show ?thesis by (simp add: upt_rec eval_nat_numeral)
qed

lemma u8_no_bit: "8 \<le> n \<Longrightarrow> \<not> bit (x :: u8) n"
  using u8_bit_less [of x n] by auto

lemma bit_spread:
  assumes "n < 16"
  shows "bit (spread x) n \<longleftrightarrow> even n \<and> bit x (n div 2)"
  using less16_cases [OF assms]
  unfolding spread_def Let_def bit_and_iff bit_or_iff bit_push_bit_iff bit_unsigned_iff
  by (elim insertE emptyE; simp add: u8_no_bit)

lemma additive8_spread: "additive8 spread"
  unfolding additive8_def
  by (auto intro!: bit_word_eqI simp: bit_spread bit_xor_iff)

lemma gf_square_eq:
  "gf_square x = ucast (spread x) XOR (0x1b AND - of_bool (bit x 4)) XOR (0x6c AND - of_bool (bit x 5))
     XOR (0xab AND - of_bool (bit x 6)) XOR (0x9a AND - of_bool (bit x 7))"
proof -
  have m: "(ucast (spread x AND 0xff) :: u8) = ucast (spread x)"
  proof (rule bit_word_eqI)
    fix n assume "n < LENGTH(8)"
    then have "n \<in> {0, 1, 2, 3, 4, 5, 6, 7}" by auto
    then show "bit (ucast (spread x AND 0xff) :: u8) n = bit (ucast (spread x) :: u8) n"
      by (elim insertE emptyE; simp add: bit_simps)
  qed
  have b: "(ucast (drop_bit k (spread x) AND 1) :: u8) = of_bool (bit x (k div 2))"
    if "k < 16" "even k" for k
    using that by (simp add: drop_and_1 bit_spread)
  have "gf_square x = ucast (spread x AND 0xff)
      XOR (0x1b AND - (ucast (drop_bit 8 (spread x) AND 1)))
      XOR (0x6c AND - (ucast (drop_bit 10 (spread x) AND 1)))
      XOR (0xab AND - (ucast (drop_bit 12 (spread x) AND 1)))
      XOR (0x9a AND - (ucast (drop_bit 14 (spread x) AND 1)))"
    by (simp only: gf_square_def spread_def Let_def xor.assoc)
  then show ?thesis by (simp only: m b) (simp add: b)
qed

lemma gf_square_additive: "additive8 gf_square"
proof -
  have "additive8 (\<lambda>x. ucast (spread x) :: u8)"
    using additive8_spread by (auto simp: additive8_def intro!: bit_word_eqI simp: bit_simps)
  then show ?thesis
    unfolding gf_square_eq by (intro additive8_xor additive8_mask)
qed

lemma xtime_values:
  "gf_xtime 0x80 = 0x1b" "gf_xtime 0x1b = 0x36" "gf_xtime 0x36 = 0x6c" "gf_xtime 0x6c = 0xd8"
  "gf_xtime 0xd8 = 0xab" "gf_xtime 0xab = 0x4d" "gf_xtime 0x4d = 0x9a"
  by (simp_all add: gf_xtime_def MODULUS_def Let_def)

lemma xtime_four:
  "(gf_xtime ^^ 4) a = gf_xtime (gf_xtime (gf_xtime (gf_xtime a)))"
  "(gf_xtime ^^ 6) a = gf_xtime (gf_xtime (gf_xtime (gf_xtime (gf_xtime (gf_xtime a)))))"
  by (simp_all add: eval_nat_numeral)

lemma gf_square_mul: "gf_square x = gf_mul x x"
proof (rule additive8_ext [OF gf_square_additive])
  show "additive8 (\<lambda>x. gf_mul x x)"
    using additive8D [OF gf_mul_additive_left] additive8D [OF gf_mul_additive_right]
    by (auto simp: additive8_def gf_mul_comm ac_simps)
  fix i :: nat assume i: "i < 8"
  have x: "gf_mul (push_bit i 1) (push_bit i 1) = (gf_xtime ^^ (i + i)) 1"
  proof -
    have "gf_mul (push_bit i 1) (push_bit i 1) = (gf_xtime ^^ i) (push_bit i 1)"
      by (rule gf_mul_power [OF i])
    also have "\<dots> = (gf_xtime ^^ (i + i)) 1"
      by (simp only: powers_of_x [OF i] funpow_add comp_apply)
    finally show ?thesis .
  qed
  have sp: "spread (push_bit i 1) = push_bit (i + i) 1"
  proof (rule bit_word_eqI)
    fix n assume "n < LENGTH(16)"
    then show "bit (spread (push_bit i 1)) n = bit (push_bit (i + i) (1 :: u16)) n"
      using i by (auto simp: bit_spread bit_exp_iff)
  qed
  have q: "gf_square (push_bit i 1) = ucast (push_bit (i + i) 1 :: u16)
     XOR (0x1b AND - of_bool (i = 4)) XOR (0x6c AND - of_bool (i = 5))
     XOR (0xab AND - of_bool (i = 6)) XOR (0x9a AND - of_bool (i = 7))"
    unfolding gf_square_eq sp using i by (simp add: bit_exp_iff)
  show "gf_square (push_bit i 1) = gf_mul (push_bit i 1) (push_bit i 1)"
  proof (cases "i < 4")
    case True
    then have "i + i < 8" by simp
    moreover have "(ucast (push_bit (i + i) 1 :: u16) :: u8) = push_bit (i + i) 1"
      using True by (auto intro!: bit_word_eqI simp: bit_simps bit_exp_iff)
    ultimately show ?thesis using True unfolding q x by (simp add: powers_of_x flip: push_bit_of_1)
  next
    case False
    have up: "(gf_xtime ^^ (8 + k)) 1 = (gf_xtime ^^ k) 0x1b" for k
    proof -
      have "(gf_xtime ^^ 8) 1 = gf_xtime ((gf_xtime ^^ 7) 1)"
        by (simp add: eval_nat_numeral)
      also have "\<dots> = 0x1b" using powers_of_x [of 7] by (simp add: xtime_values)
      finally show ?thesis by (simp add: funpow_add add.commute [of 8])
    qed
    have hi: "(ucast (push_bit (i + i) 1 :: u16) :: u8) = 0"
      using False by (auto intro!: bit_word_eqI simp: bit_simps bit_exp_iff)
    have "i = 4 \<or> i = 5 \<or> i = 6 \<or> i = 7" using False i by auto
    then show ?thesis
      unfolding q x hi
      using up [of 0] up [of 2] up [of 4] up [of 6]
      by (elim disjE; simp add: xtime_values numeral_2_eq_2 xtime_four)
  qed
qed

text \<open>Powers of an element, and what the inversion loop computes.\<close>

fun gf_pow :: "u8 \<Rightarrow> nat \<Rightarrow> u8" where
  "gf_pow x 0 = 1"
| "gf_pow x (Suc n) = gf_mul (gf_pow x n) x"

lemma gf_pow_add: "gf_pow x (m + n) = gf_mul (gf_pow x m) (gf_pow x n)"
  by (induction n) (simp_all add: gf_mul_assoc)

lemma gf_pow_mult: "gf_pow x (m * n) = gf_pow (gf_pow x m) n"
  by (induction n) (simp_all add: gf_pow_add gf_mul_comm [of "gf_pow x m"])

lemma gf_pow_double: "gf_square (gf_pow x n) = gf_pow x (2 * n)"
  by (simp add: gf_square_mul gf_pow_add mult_2)

lemma gf_inv_pow: "gf_inv x = gf_pow x 254"
proof -
  have step: "gf_inv_step x k (gf_pow x n) = gf_pow x (if 0 < k then 2 * n + 1 else 2 * n)" for k n
    by (simp add: gf_inv_step_def Let_def gf_pow_double)
  have "gf_inv x = fold (gf_inv_step x) [6, 5, 4, 3, 2, 1, 0] (gf_pow x 1)"
    by (simp add: gf_inv_def)
  also have "\<dots> = gf_pow x 254"
    by (simp only: fold.simps step comp_apply id_apply) simp
  finally show ?thesis .
qed

text \<open>Squaring eight times is the identity: it is so on the powers of two.\<close>

lemma gf_square_pow: "(gf_square ^^ n) x = gf_pow x (2 ^ n)"
  by (induction n) (simp_all add: gf_pow_double)

lemma frobenius_2: "(gf_square ^^ 8) (push_bit 1 1) = push_bit 1 1"
proof -
  have "(gf_square ^^ 8) 2 = gf_square (gf_square (gf_square (gf_square
      (gf_square (gf_square (gf_square (gf_square 2)))))))"
    by (simp add: eval_nat_numeral)
  also have "\<dots> = 2"
    by (simp add: gf_square_def Let_def)
  finally show ?thesis by simp
qed

lemma gf_square_mult: "gf_square (gf_mul a b) = gf_mul (gf_square a) (gf_square b)"
  by (simp add: gf_square_mul) (metis gf_mul_assoc gf_mul_comm)

lemma frobenius_mul:
  "(gf_square ^^ n) (gf_mul a b) = gf_mul ((gf_square ^^ n) a) ((gf_square ^^ n) b)"
  by (induction n) (simp_all add: gf_square_mult)

lemma gf_square_1 [simp]: "gf_square 1 = 1"
  by (simp add: gf_square_mul)

lemma frobenius_power: "i < 8 \<Longrightarrow> (gf_square ^^ 8) (push_bit i 1) = push_bit i 1"
proof (induction i)
  case 0
  have "(gf_square ^^ n) 1 = 1" for n by (induction n) simp_all
  then show ?case by simp
next
  case (Suc i)
  have "\<not> bit (push_bit i (1 :: u8)) 7" using Suc.prems by (auto simp: bit_exp_iff)
  then have "push_bit (Suc i) 1 = gf_xtime (push_bit i 1)"
    using gf_xtime_low [of "push_bit i 1"] by simp
  also have "\<dots> = gf_mul (push_bit i 1) (push_bit 1 1)"
    using gf_mul_power [of 1 "push_bit i 1"] by simp
  finally have "push_bit (Suc i) (1 :: u8) = gf_mul (push_bit i 1) (push_bit 1 1)" .
  then show ?case using Suc frobenius_mul [of 8] frobenius_2 by simp
qed

lemma gf_pow_256: "gf_pow x 256 = x"
proof -
  have "(gf_square ^^ 8) x = x"
    by (rule additive8_ext [OF additive8_funpow [OF gf_square_additive] additive8_id])
       (rule frobenius_power)
  then show ?thesis by (simp add: gf_square_pow)
qed

lemma gf_square_bit:
  "bit (gf_square x) n \<longleftrightarrow> n < 8 \<and>
     ((even n \<and> bit x (n div 2)) \<noteq> ((bit (0x1b :: u8) n \<and> bit x 4) \<noteq>
       ((bit (0x6c :: u8) n \<and> bit x 5) \<noteq>
         ((bit (0xab :: u8) n \<and> bit x 6) \<noteq> (bit (0x9a :: u8) n \<and> bit x 7)))))"
proof -
  have neg: "bit (- of_bool p :: u8) n \<longleftrightarrow> p \<and> n < 8" for p
    by (cases p) (simp_all add: bit_minus_1_iff del: minus_1_u8)
  have sp: "bit (ucast (spread x) :: u8) n \<longleftrightarrow> n < 8 \<and> even n \<and> bit x (n div 2)"
    by (cases "n < 8") (simp_all add: bit_unsigned_iff bit_spread)
  show ?thesis
    unfolding gf_square_eq bit_xor_iff bit_and_iff neg sp
    by (cases "n < 8") simp_all
qed

lemma gf_idempotent:
  assumes "gf_square e = e"
  shows "e = 0 \<or> e = 1"
proof -
  have b: "bit e n = bit (gf_square e) n" for n using assms by simp
  have "\<not> bit e 1 \<and> \<not> bit e 2 \<and> \<not> bit e 3 \<and> \<not> bit e 4 \<and> \<not> bit e 5 \<and> \<not> bit e 6 \<and> \<not> bit e 7"
    using b [of 0, unfolded gf_square_bit] b [of 1, unfolded gf_square_bit]
      b [of 2, unfolded gf_square_bit] b [of 3, unfolded gf_square_bit]
      b [of 4, unfolded gf_square_bit] b [of 5, unfolded gf_square_bit]
      b [of 6, unfolded gf_square_bit] b [of 7, unfolded gf_square_bit]
    by simp blast
  then have "e = bitmask8 e 0"
    using byte_bits [of e] by (simp add: bitmask8_def)
  then show ?thesis by (cases "bit e 0") (simp_all add: bitmask8_def)
qed

lemma gf_mul_inv: "x \<noteq> 0 \<Longrightarrow> gf_mul x (gf_inv x) = 1"
proof -
  assume "x \<noteq> 0"
  let ?e = "gf_pow x 255"
  have "gf_square ?e = gf_mul (gf_pow x 254) (gf_pow x 256)"
    unfolding gf_pow_double by (simp flip: gf_pow_add)
  also have "\<dots> = ?e"
    unfolding gf_pow_256 using gf_pow_add [of x 254 1] by simp
  finally have "?e = 0 \<or> ?e = 1" using gf_idempotent by blast
  moreover have "?e \<noteq> 0"
  proof
    assume "?e = 0"
    then have "gf_pow x 256 = 0" using gf_pow_add [of x 255 1] by simp
    then show False using \<open>x \<noteq> 0\<close> by (simp add: gf_pow_256)
  qed
  ultimately have "?e = 1" by simp
  then show ?thesis
    using gf_pow_add [of x 254 1] by (simp add: gf_inv_pow gf_mul_comm)
qed

lemma gf_inv_0 [simp]: "gf_inv 0 = 0"
  by (simp add: gf_inv_pow numeral_eq_Suc)

lemma gf_mul_eq_0: "gf_mul a b = 0 \<longleftrightarrow> a = 0 \<or> b = 0"
proof -
  have "b = 0" if "gf_mul a b = 0" "a \<noteq> 0"
  proof -
    have "b = gf_mul (gf_mul (gf_inv a) a) b"
      using gf_mul_inv [OF that(2)] by (simp add: gf_mul_comm)
    then show ?thesis using that by (simp add: gf_mul_assoc)
  qed
  then show ?thesis by auto
qed

lemma gf_inv_inv: "gf_inv (gf_inv x) = x"
proof (cases "x = 0")
  case False
  then have i: "gf_mul x (gf_inv x) = 1" by (rule gf_mul_inv)
  then have "gf_inv x \<noteq> 0" by auto
  from gf_mul_inv [OF this] have "gf_mul (gf_mul x (gf_inv x)) (gf_inv (gf_inv x)) = x"
    by (simp add: gf_mul_assoc)
  then show ?thesis by (simp add: i)
qed simp

section \<open>The S-boxes\<close>

definition sbox_affine :: "u8 \<Rightarrow> u8" where
  "sbox_affine y = y XOR rotl8 1 y XOR rotl8 2 y XOR rotl8 3 y XOR rotl8 4 y"

definition sbox_affine_inv :: "u8 \<Rightarrow> u8" where
  "sbox_affine_inv y = rotl8 1 y XOR rotl8 3 y XOR rotl8 6 y"

lemma additive8_affine: "additive8 sbox_affine" "additive8 sbox_affine_inv"
  unfolding sbox_affine_def [abs_def] sbox_affine_inv_def [abs_def]
  by (intro additive8_xor additive8_id additive8_rotl8 [simplified]; simp)+

lemma affine_inverse:
  "sbox_affine_inv (sbox_affine y) = y" "sbox_affine (sbox_affine_inv y) = y"
proof -
  have basis: "sbox_affine_inv (sbox_affine (push_bit i 1)) = push_bit i 1"
    "sbox_affine (sbox_affine_inv (push_bit i 1)) = push_bit i 1" if "i < 8" for i
    using less8_cases [OF that]
    by (elim insertE emptyE; simp add: sbox_affine_def sbox_affine_inv_def rotl8_def)+
  show "sbox_affine_inv (sbox_affine y) = y"
    by (rule additive8_ext [OF additive8_comp [OF additive8_affine(2,1)] additive8_id basis(1)])
  show "sbox_affine (sbox_affine_inv y) = y"
    by (rule additive8_ext [OF additive8_comp [OF additive8_affine(1,2)] additive8_id basis(2)])
qed

lemma sbox_eqs:
  "gf_sbox x = sbox_affine (gf_inv x) XOR 0x63"
  "gf_inv_sbox y = gf_inv (sbox_affine_inv y XOR 0x05)"
  by (simp_all add: gf_sbox_def gf_inv_sbox_def sbox_affine_def sbox_affine_inv_def Let_def ac_simps)

lemma affine_constants: "sbox_affine_inv 0x63 = 0x05" "sbox_affine 0x05 = 0x63"
  by (simp_all add: sbox_affine_def sbox_affine_inv_def rotl8_def)

lemma inv_sbox_sbox: "gf_inv_sbox (gf_sbox x) = x"
  by (simp add: sbox_eqs additive8D [OF additive8_affine(2)] affine_inverse affine_constants
      gf_inv_inv)

lemma sbox_inv_sbox: "gf_sbox (gf_inv_sbox y) = y"
  by (simp add: sbox_eqs additive8D [OF additive8_affine(1)] affine_inverse affine_constants
      gf_inv_inv)

section \<open>The library's class of fields\<close>

datatype gf256 = GF (gf_byte: u8)

instantiation gf256 :: field
begin

definition zero_gf256 :: gf256 where "0 = GF 0"
definition one_gf256 :: gf256 where "1 = GF 1"
definition plus_gf256 :: "gf256 \<Rightarrow> gf256 \<Rightarrow> gf256" where "a + b = GF (gf_byte a XOR gf_byte b)"
definition minus_gf256 :: "gf256 \<Rightarrow> gf256 \<Rightarrow> gf256" where "a - b = GF (gf_byte a XOR gf_byte b)"
definition uminus_gf256 :: "gf256 \<Rightarrow> gf256" where "- a = a" for a :: gf256
definition times_gf256 :: "gf256 \<Rightarrow> gf256 \<Rightarrow> gf256" where "a * b = GF (gf_mul (gf_byte a) (gf_byte b))"
definition inverse_gf256 :: "gf256 \<Rightarrow> gf256" where "inverse a = GF (gf_inv (gf_byte a))"
definition divide_gf256 :: "gf256 \<Rightarrow> gf256 \<Rightarrow> gf256" where "a div b = a * inverse b" for a b :: gf256

instance
proof
  fix a b c :: gf256
  show "a * b * c = a * (b * c)" by (simp add: times_gf256_def gf_mul_assoc)
  show "a * b = b * a" by (simp add: times_gf256_def gf_mul_comm)
  show "1 * a = a" by (simp add: times_gf256_def one_gf256_def)
  show "a + b + c = a + (b + c)" by (simp add: plus_gf256_def ac_simps)
  show "a + b = b + a" by (simp add: plus_gf256_def ac_simps)
  show "0 + a = a" by (simp add: plus_gf256_def zero_gf256_def)
  show "- a + a = 0" by (simp add: plus_gf256_def uminus_gf256_def zero_gf256_def)
  show "a - b = a + - b" by (simp add: plus_gf256_def uminus_gf256_def minus_gf256_def)
  show "(a + b) * c = a * c + b * c"
    by (simp add: plus_gf256_def times_gf256_def additive8D [OF gf_mul_additive_left])
  show "(0 :: gf256) \<noteq> 1" by (simp add: zero_gf256_def one_gf256_def)
  show "a \<noteq> 0 \<Longrightarrow> inverse a * a = 1"
    by (cases a) (simp add: times_gf256_def inverse_gf256_def one_gf256_def zero_gf256_def
        gf_mul_comm [of "gf_inv _"] gf_mul_inv)
  show "a div b = a * inverse b" by (rule divide_gf256_def)
  show "inverse (0 :: gf256) = 0" by (simp add: inverse_gf256_def zero_gf256_def)
qed

end

text \<open>Reading the routines off the class.\<close>

lemma GF_simps:
  "GF (gf_mul a b) = GF a * GF b" "GF (a XOR b) = GF a + GF b" "GF (gf_inv a) = inverse (GF a)"
  "GF 0 = 0" "GF 1 = 1"
  by (simp_all add: times_gf256_def plus_gf256_def inverse_gf256_def zero_gf256_def one_gf256_def)

lemma GF_minus: "a - b = a + b" "- a = a" for a b :: gf256
  by (simp_all add: plus_gf256_def minus_gf256_def uminus_gf256_def)

lemma GF_inject: "GF a = GF b \<longleftrightarrow> a = b"
  by simp

end
