(* ===== verification/Poly_Fun.thy ===== *)
theory Poly_Fun
  imports Main
begin

text \<open>
  Polynomial functions over a field, as far as secret sharing needs them: evaluation
  of a coefficient list by Horner's rule, the bound on the number of roots, and
  Lagrange interpolation on a finite set of points. Nothing here models code.
\<close>

definition horner :: "'a::comm_ring_1 list \<Rightarrow> 'a \<Rightarrow> 'a" where
  "horner cs x = foldr (\<lambda>c y. y * x + c) cs 0"

lemma horner_simps [simp]:
  "horner [] x = 0" "horner (c # cs) x = horner cs x * x + c"
  by (simp_all add: horner_def)

lemma horner_zeros: "horner (cs @ replicate k 0) x = horner cs x"
proof (induction cs)
  case Nil
  show ?case by (induction k) simp_all
qed simp

lemma horner_add:
  "length cs = length ds \<Longrightarrow> horner (map2 (+) cs ds) x = horner cs x + horner ds x"
  by (induction cs ds rule: list_induct2) (simp_all add: algebra_simps)

lemma horner_scale: "horner (map ((*) k) cs) x = k * horner cs x"
  by (induction cs) (simp_all add: algebra_simps)

text \<open>The functions given by \<open>n\<close> coefficients.\<close>

definition polyfun :: "nat \<Rightarrow> ('a::comm_ring_1 \<Rightarrow> 'a) \<Rightarrow> bool" where
  "polyfun n f \<longleftrightarrow> (\<exists>cs. length cs = n \<and> f = horner cs)"

lemma polyfun_horner: "polyfun (length cs) (horner cs)"
  by (auto simp: polyfun_def)

lemma polyfun_mono: "polyfun m f \<Longrightarrow> m \<le> n \<Longrightarrow> polyfun n f"
  unfolding polyfun_def
proof (elim exE conjE)
  fix cs assume "m \<le> n" "length cs = m" "f = horner cs"
  then show "\<exists>cs. length cs = n \<and> f = horner cs"
    by (intro exI [of _ "cs @ replicate (n - m) 0"]) (auto simp: horner_zeros)
qed

lemma polyfun_add: "polyfun n f \<Longrightarrow> polyfun n g \<Longrightarrow> polyfun n (\<lambda>x. f x + g x)"
  unfolding polyfun_def
proof (elim exE conjE)
  fix cs ds assume "length cs = n" "length ds = n" "f = horner cs" "g = horner ds"
  then show "\<exists>cs. length cs = n \<and> (\<lambda>x. f x + g x) = horner cs"
    by (intro exI [of _ "map2 (+) cs ds"]) (auto simp: horner_add)
qed

lemma polyfun_scale: "polyfun n f \<Longrightarrow> polyfun n (\<lambda>x. k * f x)"
  unfolding polyfun_def
proof (elim exE conjE)
  fix cs assume "length cs = n" "f = horner cs"
  then show "\<exists>cs. length cs = n \<and> (\<lambda>x. k * f x) = horner cs"
    by (intro exI [of _ "map ((*) k) cs"]) (auto simp: horner_scale)
qed

lemma polyfun_zero: "polyfun n (\<lambda>_. 0)"
  unfolding polyfun_def
  using horner_zeros [of "[]" n] by (intro exI [of _ "replicate n 0"]) (auto simp: fun_eq_iff)

lemma polyfun_sum: "(\<And>a. a \<in> A \<Longrightarrow> polyfun n (F a)) \<Longrightarrow> polyfun n (\<lambda>x. \<Sum>a\<in>A. F a x)"
proof (induction A rule: infinite_finite_induct)
  case (insert a A)
  then show ?case by (simp add: polyfun_add)
qed (simp_all add: polyfun_zero)

lemma polyfun_times_x: "polyfun n f \<Longrightarrow> polyfun (Suc n) (\<lambda>x. x * f x)"
  unfolding polyfun_def
proof (elim exE conjE)
  fix cs assume "length cs = n" "f = horner cs"
  then show "\<exists>cs. length cs = Suc n \<and> (\<lambda>x. x * f x) = horner cs"
    by (intro exI [of _ "0 # cs"]) (auto simp: mult.commute)
qed

lemma polyfun_times_linear: "polyfun n f \<Longrightarrow> polyfun (Suc n) (\<lambda>x. (x - a) * f x)"
  using polyfun_add [OF polyfun_times_x [of n f] polyfun_mono [OF polyfun_scale [of n f "- a"], of "Suc n"]]
  by (simp add: algebra_simps)

lemma polyfun_prod:
  "finite A \<Longrightarrow> polyfun (Suc (card A)) (\<lambda>x. \<Prod>b\<in>A. (x - b))"
proof (induction A rule: finite_induct)
  case empty
  show ?case unfolding polyfun_def by (intro exI [of _ "[1]"]) auto
next
  case (insert b A)
  then show ?case using polyfun_times_linear [of "Suc (card A)" _ b] by simp
qed

section \<open>Roots\<close>

lemma polyfun_factor:
  "polyfun (Suc n) f \<Longrightarrow> \<exists>q. polyfun n q \<and> (\<forall>x. f x = f a + (x - a) * q x)"
proof (induction n arbitrary: f)
  case 0
  then obtain c where "f = (\<lambda>x. c)"
    by (auto simp: polyfun_def length_Suc_conv fun_eq_iff)
  then show ?case by (intro exI [of _ "\<lambda>_. 0"]) (simp add: polyfun_zero)
next
  case (Suc n)
  then obtain c cs where f: "length cs = Suc n" "f = horner (c # cs)"
    by (auto simp: polyfun_def length_Suc_conv)
  have "polyfun (Suc n) (horner cs)" using polyfun_horner [of cs] f(1) by simp
  from Suc.IH [OF this] obtain q where
    q: "polyfun n q" "\<And>x. horner cs x = horner cs a + (x - a) * q x" by blast
  let ?q = "\<lambda>x. horner cs a + x * q x"
  have "polyfun (Suc n) (\<lambda>_ :: 'a. horner cs a)"
    unfolding polyfun_def using horner_zeros [of "[horner cs a]" n]
    by (intro exI [of _ "horner cs a # replicate n 0"]) auto
  then have "polyfun (Suc n) ?q" by (rule polyfun_add [OF _ polyfun_times_x [OF q(1)]])
  moreover have "f x = f a + (x - a) * ?q x" for x
  proof -
    have "f x = (horner cs a + (x - a) * q x) * x + c"
      unfolding f(2) horner_simps by (subst q(2) [of x]) (rule refl)
    also have "\<dots> = f a + (x - a) * ?q x"
      unfolding f(2) horner_simps by (simp add: algebra_simps)
    finally show ?thesis .
  qed
  ultimately show ?case by blast
qed

lemma polyfun_roots:
  fixes f :: "'a::idom \<Rightarrow> 'a"
  assumes "polyfun n f" "finite A" "card A = n" "\<forall>a \<in> A. f a = 0"
  shows "f x = 0"
  using assms
proof (induction n arbitrary: f A)
  case 0
  then show ?case by (simp add: polyfun_def)
next
  case (Suc n)
  then obtain a B where A: "A = insert a B" "a \<notin> B" by (metis card_Suc_eq)
  then have B: "finite B" "card B = n" using Suc.prems by simp_all
  obtain q where q: "polyfun n q" "\<And>x. f x = f a + (x - a) * q x"
    using polyfun_factor [OF Suc.prems(1), of a] by blast
  have fa: "f a = 0" using Suc.prems(4) A by simp
  have "\<forall>b \<in> B. q b = 0"
  proof
    fix b assume b: "b \<in> B"
    then have "b - a \<noteq> 0" using A by auto
    moreover have "(b - a) * q b = 0" using q(2) [of b] fa Suc.prems(4) A b by simp
    ultimately show "q b = 0" by simp
  qed
  from Suc.IH [OF q(1) B this] show ?case using q(2) [of x] fa by simp
qed

lemma polyfun_unique:
  fixes f g :: "'a::idom \<Rightarrow> 'a"
  assumes "polyfun n f" "polyfun n g" "finite A" "n \<le> card A" "\<forall>a \<in> A. f a = g a"
  shows "f x = g x"
proof -
  have d: "polyfun (card A) (\<lambda>x. f x - g x)"
    using polyfun_add [OF polyfun_mono [OF assms(1,4)] polyfun_scale [OF polyfun_mono [OF assms(2,4)], of "- 1"]]
    by simp
  have "f x - g x = 0"
    by (rule polyfun_roots [OF d assms(3)]) (use assms(5) in auto)
  then show ?thesis by simp
qed

text \<open>A coefficient list is determined by the function, on a field with enough points.\<close>

lemma horner_inj:
  fixes cs ds :: "'a::idom list"
  assumes "length cs = length ds" "finite A" "length cs \<le> card A" "\<forall>a \<in> A. horner cs a = horner ds a"
  shows "cs = ds"
  using assms
proof (induction cs ds arbitrary: A rule: list_induct2)
  case (Cons c cs d ds)
  have all: "horner (c # cs) x = horner (d # ds) x" for x
    using polyfun_unique [OF polyfun_horner _ Cons.prems(1,2)] polyfun_horner [of "d # ds"] Cons
    by (metis length_Cons)
  then have cd: "c = d" using all [of 0] by simp
  have "\<forall>a \<in> A - {0}. horner cs a = horner ds a"
    using all cd by (metis DiffD2 add_right_cancel horner_simps(2) insertI1 mult_right_cancel)
  moreover have "length cs \<le> card (A - {0})"
    using Cons.prems by (cases "0 \<in> A") (auto simp: card_Diff_singleton)
  ultimately show ?case using Cons.IH [of "A - {0}"] Cons.prems cd by simp
qed simp

section \<open>Interpolation\<close>

definition lagrange :: "'a::field set \<Rightarrow> ('a \<Rightarrow> 'a) \<Rightarrow> 'a \<Rightarrow> 'a" where
  "lagrange A g z = (\<Sum>a\<in>A. g a * (\<Prod>b\<in>A - {a}. (z - b) / (a - b)))"

lemma lagrange_polyfun: "finite A \<Longrightarrow> polyfun (card A) (lagrange A g)"
proof -
  assume fin: "finite A"
  have "polyfun (card A) (\<lambda>z. g a * (\<Prod>b\<in>A - {a}. (z - b) / (a - b)))" if "a \<in> A" for a
  proof -
    have "Suc (card (A - {a})) = card A" using fin that by (rule card_Suc_Diff1)
    then have "polyfun (card A) (\<lambda>z. (\<Prod>b\<in>A - {a}. z - b))"
      using polyfun_prod [of "A - {a}"] fin by simp
    from polyfun_scale [OF this, of "g a / (\<Prod>b\<in>A - {a}. a - b)"] show ?thesis
      by (simp add: prod_dividef)
  qed
  then show ?thesis unfolding lagrange_def [abs_def] by (rule polyfun_sum)
qed

lemma lagrange_at:
  assumes "finite A" "a \<in> A"
  shows "lagrange A g a = g a"
proof -
  have "(\<Prod>b\<in>A - {c}. (a - b) / (c - b)) = (if c = a then 1 else 0)" if "c \<in> A" for c
  proof (cases "c = a")
    case True
    have "(a - b) / (a - b) = 1" if "b \<in> A - {a}" for b using that by auto
    then show ?thesis using True by (simp add: prod.neutral)
  next
    case False
    then have "\<exists>b \<in> A - {c}. (a - b) / (c - b) = 0" using assms(2) by auto
    then show ?thesis using False assms(1) by (simp add: prod_zero_iff)
  qed
  then have "lagrange A g a = (\<Sum>c\<in>A. g c * (if c = a then 1 else 0))"
    unfolding lagrange_def by (intro sum.cong) auto
  also have "\<dots> = (\<Sum>c\<in>A. if c = a then g c else 0)" by (intro sum.cong) auto
  also have "\<dots> = g a" using assms by (simp add: sum.delta')
  finally show ?thesis .
qed

text \<open>Enough values determine a polynomial function everywhere.\<close>

lemma lagrange_recovers:
  assumes "polyfun n f" "finite A" "n \<le> card A"
  shows "lagrange A f z = f z"
  using polyfun_unique [OF lagrange_polyfun [OF assms(2)] polyfun_mono [OF assms(1,3)] assms(2)]
    lagrange_at [OF assms(2)] by blast

text \<open>Any values are those of exactly one coefficient list as long as there are points.\<close>

lemma interpolation_unique:
  fixes A :: "'a::field set"
  assumes "finite A"
  shows "\<exists>!cs. length cs = card A \<and> (\<forall>a \<in> A. horner cs a = g a)"
proof -
  obtain cs where "length cs = card A" "lagrange A g = horner cs"
    using lagrange_polyfun [OF assms] by (auto simp: polyfun_def)
  then have "length cs = card A \<and> (\<forall>a \<in> A. horner cs a = g a)"
    using lagrange_at [OF assms] by metis
  moreover have "ds = cs" if "length ds = card A \<and> (\<forall>a \<in> A. horner ds a = g a)" for ds
    using that calculation horner_inj [of ds cs A] assms by simp
  ultimately show ?thesis by blast
qed

end
