(* ===== verification/Core_Random.thy ===== *)
theory Core_Random
  imports Core_Error
begin

text \<open>
  The interface of a random source, \<open>RandomSource\<close> in \<open>crates/ic-core/src/traits.rs\<close>:
  \<open>fill\<close> takes the source's state and a number of bytes, and returns that many bytes
  or an error, with the next state; \<open>live\<close> is the invariant of that state. Clients are proved against the locale; the
  sources of the library interpret it.
\<close>

type_synonym 'r fill = "'r \<Rightarrow> nat \<Rightarrow> bytes result \<times> 'r"

locale random_source =
  fixes fill :: "'r fill" and live :: "'r \<Rightarrow> bool"
  assumes fill_length: "live r \<Longrightarrow> fill r n = (Inr bs, r') \<Longrightarrow> length bs = n"
    and fill_live: "live r \<Longrightarrow> fill r n = (x, r') \<Longrightarrow> live r'"

end
