(* ===== verification/Shamir.thy ===== *)
theory Shamir
  imports Gf Poly_Fun Core_Module Core_Random
begin

text \<open>
  Shamir secret sharing over the field of AES: \<open>crates/ic-cipher/src/shamir.rs\<close>. The
  random source is an argument; \<open>usize\<close> has 64 bits. The output buffers are part of
  the results, as the callers see them after an error too.
\<close>

section \<open>Splitting\<close>

definition MAX_SHARES :: nat where "MAX_SHARES = 255"

text \<open>Horner's rule from the highest coefficient down, ending on the secret byte.\<close>

definition share_byte :: "bytes \<Rightarrow> u8 \<Rightarrow> u8 \<Rightarrow> u8" where
  "share_byte coefficients s x =
     (let y = fold (\<lambda>c y. gf_mul y x XOR c) (rev coefficients) 0 in gf_mul y x XOR s)"

text \<open>The inner loop over the shares, for byte \<open>b\<close>.\<close>

definition split_byte :: "nat \<Rightarrow> nat \<Rightarrow> nat \<Rightarrow> bytes \<Rightarrow> u8 \<Rightarrow> bytes \<Rightarrow> bytes" where
  "split_byte share_count len b coefficients s out =
     fold (\<lambda>i out. out[i * len + b := share_byte coefficients s (of_nat (i + 1))])
       [0..<share_count] out"

fun split_bytes ::
  "'r fill \<Rightarrow> nat \<Rightarrow> nat \<Rightarrow> nat \<Rightarrow> nat \<Rightarrow> bytes \<Rightarrow> 'r \<Rightarrow> bytes \<Rightarrow> unit result \<times> bytes \<times> 'r" where
  "split_bytes fill threshold share_count len b [] rng out = (Ok (), out, rng)"
| "split_bytes fill threshold share_count len b (s # secret) rng out =
     (case fill rng (threshold - 1) of
        (Inl e, rng) \<Rightarrow> (Inl e, replicate (length out) 0, rng)
      | (Inr coefficients, rng) \<Rightarrow>
          split_bytes fill threshold share_count len (b + 1) secret rng
            (split_byte share_count len b coefficients s out))"

definition shamir_split ::
  "'a module_state_scheme \<Rightarrow> 'r fill \<Rightarrow> bytes \<Rightarrow> u8 \<Rightarrow> u8 \<Rightarrow> 'r \<Rightarrow> bytes \<Rightarrow> unit result \<times> bytes \<times> 'r" where
  "shamir_split m fill secret threshold share_count rng out =
     (case operational m of
        Inl e \<Rightarrow> (Inl e, out, rng)
      | Inr _ \<Rightarrow>
          if secret = [] then (Err InvalidLength ''shamir secret is empty'', out, rng)
          else if threshold < 2
          then (Err InvalidParameter ''shamir threshold must be at least 2'', out, rng)
          else if share_count < threshold
          then (Err InvalidParameter ''shamir share count is below the threshold'', out, rng)
          else
            let len = length secret; total = len * unat share_count
            in if 2 ^ 64 \<le> int total
               then (Err InvalidLength ''shamir secret too long for this many shares'', out, rng)
               else if length out \<noteq> total
               then (Err InvalidLength ''shamir output must be share_count * secret.len() bytes'', out, rng)
               else split_bytes fill (unat threshold) (unat share_count) len 0 secret rng out)"

section \<open>Combining\<close>

fun combine_check :: "nat \<Rightarrow> (u8 \<times> bytes) list \<Rightarrow> (u8 \<times> bytes) list \<Rightarrow> unit result" where
  "combine_check n before [] = Ok ()"
| "combine_check n before ((index, bs) # rest) =
     (if index = 0 then Err InvalidParameter ''shamir share index 0 is the secret itself''
      else if length bs \<noteq> n then Err InvalidLength ''shamir shares differ in length''
      else if \<not> list_all (\<lambda>(other, _). other \<noteq> index) before
      then Err InvalidParameter ''shamir share indices repeat''
      else combine_check n (before @ [(index, bs)]) rest)"

definition combine_basis :: "(u8 \<times> bytes) list \<Rightarrow> nat \<Rightarrow> u8 \<Rightarrow> u8" where
  "combine_basis shares i xi =
     (let (numerator, denominator) =
            fold (\<lambda>(j, (xj, _)) (numerator, denominator).
                if i \<noteq> j then (gf_mul numerator xj, gf_mul denominator (xj XOR xi))
                else (numerator, denominator))
              (enumerate 0 shares) (1, 1)
      in gf_mul numerator (gf_inv denominator))"

definition combine_loop :: "(u8 \<times> bytes) list \<Rightarrow> bytes \<Rightarrow> bytes" where
  "combine_loop shares out =
     fold (\<lambda>(i, (xi, yi)) out.
         let basis = combine_basis shares i xi
         in map2 (\<lambda>ob y. ob XOR gf_mul y basis) out yi)
       (enumerate 0 shares) out"

definition shamir_combine ::
  "'a module_state_scheme \<Rightarrow> (u8 \<times> bytes) list \<Rightarrow> bytes \<Rightarrow> unit result \<times> bytes" where
  "shamir_combine m shares out =
     (case operational m of
        Inl e \<Rightarrow> (Inl e, out)
      | Inr _ \<Rightarrow>
          if length shares < 2
          then (Err InvalidParameter ''shamir needs at least two shares'', out)
          else (case combine_check (length out) [] shares of
              Inl e \<Rightarrow> (Inl e, out)
            | Inr _ \<Rightarrow> (Ok (), combine_loop shares (replicate (length out) 0))))"

record share =
  share_index :: u8
  share_value :: bytes

definition split_vec ::
  "'a module_state_scheme \<Rightarrow> 'r fill \<Rightarrow> bytes \<Rightarrow> u8 \<Rightarrow> u8 \<Rightarrow> 'r \<Rightarrow> share list result \<times> 'r" where
  "split_vec m fill secret threshold share_count rng =
     (let len = length secret; total = len * unat share_count
      in if 2 ^ 64 \<le> int total
         then (Err InvalidLength ''shamir secret too long for this many shares'', rng)
         else (case shamir_split m fill secret threshold share_count rng (replicate total 0) of
             (Inl e, _, rng) \<Rightarrow> (Inl e, rng)
           | (Inr _, all_shares, rng) \<Rightarrow>
               (Ok (map (\<lambda>(i, bs). \<lparr>share_index = of_nat (i + 1), share_value = bs\<rparr>)
                      (enumerate 0 (chunks len all_shares))), rng)))"

definition combine_vec :: "'a module_state_scheme \<Rightarrow> share list \<Rightarrow> bytes result" where
  "combine_vec m shares =
     (let len = (case shares of [] \<Rightarrow> 0 | s # _ \<Rightarrow> length (share_value s));
          parts = map (\<lambda>s. (share_index s, share_value s)) shares
      in case shamir_combine m parts (replicate len 0) of
           (Inl e, _) \<Rightarrow> Inl e
         | (Inr _, out) \<Rightarrow> Ok out)"

text \<open>The deterministic stream of the known-answer tests, a random source in form.\<close>

fun stream_fill :: "u8 fill" where
  "stream_fill s n =
     (let bs = map (\<lambda>k. ((\<lambda>s. s * 29 + 7) ^^ (k + 1)) s) [0..<n]
      in (Ok bs, ((\<lambda>s. s * 29 + 7) ^^ n) s))"

interpretation stream: random_source stream_fill "\<lambda>_. True"
  by unfold_locales (auto simp: Let_def)

section \<open>Shares are values of a polynomial\<close>

lemma share_byte_horner:
  "GF (share_byte cs s x) = horner (map GF (s # cs)) (GF x)"
proof -
  have "GF (fold (\<lambda>c y. gf_mul y x XOR c) (rev cs) 0) = horner (map GF cs) (GF x)"
    unfolding foldr_conv_fold [symmetric] by (induction cs) (simp_all add: GF_simps)
  then show ?thesis by (simp add: share_byte_def Let_def GF_simps)
qed

lemma GF_map_inject: "map GF as = map GF bs \<longleftrightarrow> as = bs"
  by (simp add: inj_map_eq_map inj_def)

text \<open>
  A threshold of shares says everything about a byte, and fewer say nothing: for any
  indices fewer than the threshold, whatever was observed there, every value of the
  secret byte is explained by exactly one choice of the coefficients.
\<close>

lemma shares_hide:
  assumes "distinct xs" "0 \<notin> set xs" "length xs = n" "length ys = n"
  shows "\<exists>!cs. length cs = n \<and> map (share_byte cs s) xs = ys"
proof -
  define A where "A = insert 0 (GF ` set xs)"
  define g where "g z = (if z = 0 then GF s else case map_of (zip xs ys) (gf_byte z) of
      Some y \<Rightarrow> GF y | None \<Rightarrow> 0)" for z
  have nz: "GF x \<noteq> 0" if "x \<in> set xs" for x
    using that assms(2) by (auto simp: zero_gf256_def)
  have inj: "inj_on GF (set xs)" by (auto simp: inj_on_def)
  have card: "card A = Suc n"
    using nz assms(1,3) by (auto simp: A_def card_insert_if card_image [OF inj] distinct_card)
  have key: "(\<forall>a \<in> A. horner (map GF (s # cs)) a = g a) \<longleftrightarrow> map (share_byte cs s) xs = ys" for cs
  proof -
    have lk: "map_of (zip xs ys) (xs ! i) = Some (ys ! i)" if "i < n" for i
      using that assms by (simp add: map_of_zip_nth)
    have "(\<forall>a \<in> A. horner (map GF (s # cs)) a = g a) \<longleftrightarrow>
        (\<forall>x \<in> set xs. horner (map GF (s # cs)) (GF x) = g (GF x))"
      by (auto simp: A_def g_def)
    also have "\<dots> \<longleftrightarrow> (\<forall>i < n. GF (share_byte cs s (xs ! i)) = g (GF (xs ! i)))"
      using assms(3) by (simp add: share_byte_horner all_set_conv_all_nth)
    also have "\<dots> \<longleftrightarrow> (\<forall>i < n. share_byte cs s (xs ! i) = ys ! i)"
    proof -
      have "g (GF (xs ! i)) = GF (ys ! i)" if "i < n" for i
        using nz [of "xs ! i"] lk [OF that] that assms(3) by (simp add: g_def)
      then show ?thesis by simp
    qed
    also have "\<dots> \<longleftrightarrow> map (share_byte cs s) xs = ys"
      by (simp add: list_eq_iff_nth_eq [of "map (share_byte cs s) xs" ys] assms(3,4))
    finally show ?thesis .
  qed
  obtain ds where ds: "length ds = card A" "\<forall>a \<in> A. horner ds a = g a"
    and uniq: "\<And>es. length es = card A \<Longrightarrow> \<forall>a \<in> A. horner es a = g a \<Longrightarrow> es = ds"
  proof -
    have "finite A" by (simp add: A_def)
    from interpolation_unique [OF this, of g] that show ?thesis by blast
  qed
  obtain d cs where d: "ds = d # cs" "length cs = n" using ds(1) card by (cases ds) auto
  have "horner ds 0 = g 0" using ds(2) by (simp add: A_def)
  then have hd: "d = GF s" by (simp add: d g_def)
  let ?cs = "map gf_byte cs"
  have coeffs: "map GF (s # ?cs) = ds" by (simp add: d hd o_def)
  have ok: "length ?cs = n \<and> map (share_byte ?cs s) xs = ys"
    using key [of ?cs] ds(2) d by (simp add: coeffs del: list.map)
  moreover have "es = ?cs" if "length es = n \<and> map (share_byte es s) xs = ys" for es
  proof -
    have "map GF (s # es) = ds"
      using uniq [of "map GF (s # es)"] key [of es] that card by simp
    then have "map GF es = map GF ?cs" using coeffs by (metis list.inject list.map(2))
    then show ?thesis by (simp only: GF_map_inject)
  qed
  ultimately show ?thesis by blast
qed

section \<open>What splitting writes\<close>

lemma split_byte_nth:
  assumes "b < len" "share_count * len \<le> length out" "p < length out"
  shows "split_byte share_count len b cs s out ! p =
    (if p mod len = b \<and> p div len < share_count
     then share_byte cs s (of_nat (p div len + 1)) else out ! p)"
  using assms(2)
proof (induction share_count)
  case 0
  then show ?case by (simp add: split_byte_def)
next
  case (Suc k)
  let ?f = "\<lambda>i out. out[i * len + b := share_byte cs s (of_nat (i + 1))]"
  have step: "split_byte (Suc k) len b cs s out = ?f k (split_byte k len b cs s out)"
    by (simp add: split_byte_def)
  have lenf: "length (split_byte k len b cs s out) = length out"
    unfolding split_byte_def by (induction k) simp_all
  have ix: "k * len + b < length out" using Suc.prems assms(1) by simp
  have pk: "p = k * len + b \<longleftrightarrow> p mod len = b \<and> p div len = k"
  proof
    assume "p = k * len + b"
    then show "p mod len = b \<and> p div len = k" using assms(1) by simp
  next
    assume "p mod len = b \<and> p div len = k"
    then show "p = k * len + b" using div_mult_mod_eq [of p len] by simp
  qed
  have IH: "split_byte k len b cs s out ! p =
      (if p mod len = b \<and> p div len < k then share_byte cs s (of_nat (p div len + 1)) else out ! p)"
    using Suc by simp
  show ?case
  proof (cases "p = k * len + b")
    case True
    then show ?thesis using pk lenf ix unfolding step by simp
  next
    case False
    then have "\<not> (p mod len = b \<and> p div len = k)" using pk by blast
    then have "(p mod len = b \<and> p div len < Suc k) = (p mod len = b \<and> p div len < k)"
      by (auto simp: less_Suc_eq)
    then show ?thesis using False IH unfolding step by simp
  qed
qed

lemma length_split_byte [simp]: "length (split_byte share_count len b cs s out) = length out"
  unfolding split_byte_def by (induction share_count) simp_all

lemma split_bytes_Ok:
  assumes "split_bytes fill t n len b secret rng out = (Inr u, out', rng')"
    and "b + length secret = len" "length out = n * len" "random_source fill live" "live rng"
  shows "\<exists>css. length css = length secret \<and> (\<forall>cs \<in> set css. length cs = t - 1)
    \<and> length out' = length out
    \<and> (\<forall>p < length out. out' ! p =
         (if b \<le> p mod len then share_byte (css ! (p mod len - b)) (secret ! (p mod len - b)) (of_nat (p div len + 1))
          else out ! p))"
  using assms(1-3,5)
proof (induction secret arbitrary: b rng out)
  case Nil
  have "\<not> len \<le> p mod len" if "p < length out" for p
    using that Nil.prems by (cases "len = 0") (auto simp: not_le)
  then show ?case using Nil by auto
next
  case (Cons s secret)
  obtain cs rng1 where fill: "fill rng (t - 1) = (Inr cs, rng1)"
    and rest: "split_bytes fill t n len (b + 1) secret rng1 (split_byte n len b cs s out) = (Inr u, out', rng')"
    using Cons.prems(1) by (auto split: prod.splits sum.splits)
  have b: "b < len" using Cons.prems(2) by simp
  have lcs: "length cs = t - 1" using random_source.fill_length [OF assms(4) Cons.prems(4) fill] .
  have live: "live rng1" using random_source.fill_live [OF assms(4) Cons.prems(4) fill] .
  obtain css where css: "length css = length secret" "\<forall>cs \<in> set css. length cs = t - 1"
    "length out' = length out"
    "\<forall>p < length out. out' ! p = (if b + 1 \<le> p mod len
       then share_byte (css ! (p mod len - (b + 1))) (secret ! (p mod len - (b + 1))) (of_nat (p div len + 1))
       else split_byte n len b cs s out ! p)"
    using Cons.IH [OF rest] Cons.prems(2,3) live by auto
  have "out' ! p = (if b \<le> p mod len
      then share_byte ((cs # css) ! (p mod len - b)) ((s # secret) ! (p mod len - b)) (of_nat (p div len + 1))
      else out ! p)" if p: "p < length out" for p
  proof -
    have "p div len < n" using p Cons.prems(3) b by (simp add: less_mult_imp_div_less)
    then show ?thesis
      using css(4) p split_byte_nth [OF b _ p, of n cs s] Cons.prems(3)
      by (cases "b < p mod len") (auto simp: Suc_diff_Suc nth_Cons')
  qed
  then show ?case
    using css lcs by (intro exI [of _ "cs # css"]) auto
qed

text \<open>A successful split: share \<open>i + 1\<close> of byte \<open>b\<close> is the value of its polynomial there.\<close>

lemma shamir_split_Ok:
  assumes "shamir_split m fill secret threshold share_count rng out = (Inr u, out', rng')"
    and "random_source fill live" "live rng"
  shows "secret \<noteq> [] \<and> 2 \<le> threshold \<and> threshold \<le> share_count
    \<and> length out' = length secret * unat share_count
    \<and> (\<exists>css. length css = length secret \<and> (\<forall>cs \<in> set css. length cs = unat threshold - 1)
         \<and> (\<forall>i < unat share_count. \<forall>b < length secret.
              out' ! (i * length secret + b) = share_byte (css ! b) (secret ! b) (of_nat (i + 1))))"
proof -
  let ?n = "unat share_count" and ?len = "length secret"
  have c: "secret \<noteq> []" "2 \<le> threshold" "threshold \<le> share_count" "length out = ?len * ?n"
    "split_bytes fill (unat threshold) ?n ?len 0 secret rng out = (Inr u, out', rng')"
    using assms(1) by (auto simp: shamir_split_def Let_def split: sum.splits if_splits)
  have l: "length out = ?n * ?len" using c(4) by (simp add: mult.commute)
  obtain css where css: "length css = ?len" "\<forall>cs \<in> set css. length cs = unat threshold - 1"
    "length out' = length out"
    "\<forall>p < length out. out' ! p = share_byte (css ! (p mod ?len)) (secret ! (p mod ?len)) (of_nat (p div ?len + 1))"
    using split_bytes_Ok [OF c(5) _ l assms(2,3)] by auto
  have "out' ! (i * ?len + b) = share_byte (css ! b) (secret ! b) (of_nat (i + 1))"
    if "i < ?n" "b < ?len" for i b
  proof -
    have "i * ?len + b < Suc i * ?len" using that by simp
    also have "\<dots> \<le> ?n * ?len" using that by (intro mult_right_mono) auto
    finally have "i * ?len + b < length out" using l by simp
    moreover have "(i * ?len + b) mod ?len = b" "(i * ?len + b) div ?len = i"
      using that c(1) by simp_all
    ultimately show ?thesis using css(4) by metis
  qed
  then show ?thesis using c css by metis
qed

section \<open>What combining computes\<close>

lemma combine_check_Ok:
  "combine_check n before shares = Inr u \<longleftrightarrow>
     (\<forall>(x, bs) \<in> set shares. x \<noteq> 0 \<and> length bs = n) \<and> distinct (map fst shares)
     \<and> set (map fst shares) \<inter> set (map fst before) = {}"
proof (induction n "before" shares rule: combine_check.induct)
  case (2 n "before" x bs rest)
  have "list_all (\<lambda>(other, _). other \<noteq> x) before \<longleftrightarrow> x \<notin> set (map fst before)"
    by (force simp: list_all_iff)
  then show ?case using 2 by (auto split: if_splits)
qed simp

text \<open>The two products of the basis, over the other positions.\<close>

lemma combine_basis_fold:
  "fold (\<lambda>(j, (xj, _)) (num, den).
        if i \<noteq> j then (gf_mul num xj, gf_mul den (xj XOR xi)) else (num, den))
      (enumerate 0 shares) (1, 1)
   = (gf_byte (\<Prod>j\<in>{..<length shares} - {i}. GF (fst (shares ! j))),
      gf_byte (\<Prod>j\<in>{..<length shares} - {i}. GF (fst (shares ! j)) + GF xi))"
proof (induction shares rule: rev_induct)
  case Nil
  show ?case by (simp add: one_gf256_def)
next
  case (snoc p shares)
  let ?n = "length shares"
  have ins: "{..<Suc ?n} - {i} = (if i = ?n then {..<?n} - {i} else insert ?n ({..<?n} - {i}))"
    by auto
  obtain x y where p: "p = (x, y)" by (cases p)
  have GFb: "GF (gf_byte z) = z" for z by (cases z) simp
  show ?case
    by (simp add: enumerate_append_eq snoc p ins nth_append times_gf256_def plus_gf256_def GFb
        gf_mul_comm cong: prod.cong_simp)
qed

lemma GF_gf_byte [simp]: "GF (gf_byte z) = z"
  by (cases z) simp

lemma combine_basis_eq:
  "GF (combine_basis shares i xi) =
     (\<Prod>j\<in>{..<length shares} - {i}. GF (fst (shares ! j)) / (GF (fst (shares ! j)) + GF xi))"
proof -
  have "GF (gf_mul (gf_byte a) (gf_inv (gf_byte b))) = a / b" for a b
    by (simp add: GF_simps divide_inverse)
  then show ?thesis
    by (simp add: combine_basis_def combine_basis_fold prod_dividef)
qed

lemma combine_fold_nth:
  assumes "\<forall>(i, x, y) \<in> set ps. length y = length out" "b < length out"
  shows "GF (fold (\<lambda>(i, (xi, yi)) out. map2 (\<lambda>ob y. ob XOR gf_mul y (basis i xi)) out yi) ps out ! b)
    = GF (out ! b) + (\<Sum>(i, xi, yi)\<leftarrow>ps. GF (yi ! b) * GF (basis i xi))"
  using assms
proof (induction ps arbitrary: out)
  case (Cons p ps)
  obtain i xi yi where p: "p = (i, xi, yi)" by (cases p)
  let ?out = "map2 (\<lambda>ob y. ob XOR gf_mul y (basis i xi)) out yi"
  have l: "length yi = length out" using Cons.prems p by simp
  then have "\<forall>(i, x, y) \<in> set ps. length y = length ?out" "b < length ?out"
    using Cons.prems by auto
  from Cons.IH [OF this] show ?case using l Cons.prems(2) by (simp add: p GF_simps add_ac)
qed simp

lemma enumerate_memD: "(i, p) \<in> set (enumerate k xs) \<Longrightarrow> p \<in> set xs"
  by (metis enumerate_eq_zip set_zip_rightD)

lemma length_combine_loop:
  assumes "\<forall>(x, y) \<in> set shares. length y = length out"
  shows "length (combine_loop shares out) = length out"
proof -
  have "length (fold (\<lambda>(i, (xi, yi)) out. let basis = F i xi in map2 (\<lambda>ob y. ob XOR gf_mul y basis) out yi) ps out)
      = length out"
    if "\<forall>(i, x, y) \<in> set ps. length y = length out" for ps F
    using that by (induction ps arbitrary: out) (auto simp: Let_def)
  moreover have "\<forall>(i, x, y) \<in> set (enumerate 0 shares). length y = length out"
    using assms enumerate_memD by fastforce
  ultimately show ?thesis unfolding combine_loop_def by blast
qed

lemma sum_list_enumerate:
  "(\<Sum>(i, xi, yi)\<leftarrow>enumerate 0 shares. F i xi yi)
     = (\<Sum>i<length shares. F i (fst (shares ! i)) (snd (shares ! i)))"
  for F :: "nat \<Rightarrow> 'a \<Rightarrow> 'b \<Rightarrow> 'c::comm_monoid_add"
proof (induction shares rule: rev_induct)
  case (snoc p shares)
  obtain x y where "p = (x, y)" by (cases p)
  then show ?case by (simp add: enumerate_append_eq snoc nth_append)
qed simp

text \<open>
  Combining interpolates at zero: byte \<open>b\<close> of the result is what Lagrange's formula
  gives for any function through the bytes of the shares.
\<close>

lemma combine_lagrange:
  assumes "distinct (map fst shares)" "\<forall>(x, y) \<in> set shares. length y = n" "b < n"
    and g: "\<forall>(x, y) \<in> set shares. g (GF x) = GF (y ! b)"
  shows "GF (combine_loop shares (replicate n 0) ! b)
    = lagrange (GF ` fst ` set shares) g 0"
proof -
  let ?x = "\<lambda>i. GF (fst (shares ! i))" and ?N = "{..<length shares}"
  have bij: "bij_betw ?x ?N (GF ` fst ` set shares)"
    unfolding bij_betw_def
  proof
    show "inj_on ?x ?N"
      using assms(1) by (auto simp: inj_on_def distinct_conv_nth)
    show "?x ` ?N = GF ` fst ` set shares"
      by (force simp: set_conv_nth image_iff)
  qed
  have basis: "GF (combine_basis shares i (fst (shares ! i)))
      = (\<Prod>c\<in>GF ` fst ` set shares - {?x i}. (0 - c) / (?x i - c))" if i: "i < length shares" for i
  proof -
    have "bij_betw ?x (?N - {i}) (GF ` fst ` set shares - {?x i})"
      using bij i by (simp add: bij_betw_DiffI)
    from prod.reindex_bij_betw [OF this, of "\<lambda>c. (0 - c) / (?x i - c)"] show ?thesis
      by (simp add: combine_basis_eq GF_minus add.commute)
  qed
  have enum: "\<forall>(i, x, y) \<in> set (enumerate 0 shares). length y = length (replicate n (0 :: u8))"
    using assms(2) enumerate_memD by fastforce
  have "GF (combine_loop shares (replicate n 0) ! b)
      = (\<Sum>i\<in>?N. GF (snd (shares ! i) ! b) * GF (combine_basis shares i (fst (shares ! i))))"
    using combine_fold_nth [OF enum, of b "combine_basis shares"] assms(3)
    by (simp add: combine_loop_def Let_def sum_list_enumerate GF_simps)
  also have "\<dots> = (\<Sum>i\<in>?N. g (?x i) * (\<Prod>c\<in>GF ` fst ` set shares - {?x i}. (0 - c) / (?x i - c)))"
  proof (rule sum.cong [OF refl])
    fix i assume "i \<in> ?N"
    then have i: "i < length shares" and mem: "shares ! i \<in> set shares" by simp_all
    have "g (?x i) = GF (snd (shares ! i) ! b)"
      using bspec [OF g mem] by (cases "shares ! i") simp
    then show "GF (snd (shares ! i) ! b) * GF (combine_basis shares i (fst (shares ! i)))
        = g (?x i) * (\<Prod>c\<in>GF ` fst ` set shares - {?x i}. (0 - c) / (?x i - c))"
      by (simp only: basis [OF i])
  qed
  also have "\<dots> = lagrange (GF ` fst ` set shares) g 0"
    using sum.reindex_bij_betw [OF bij, of "\<lambda>a. g a * (\<Prod>c\<in>GF ` fst ` set shares - {a}. (0 - c) / (a - c))"]
    by (simp add: lagrange_def)
  finally show ?thesis .
qed

text \<open>Enough values of a polynomial recover its constant term.\<close>

lemma combine_recovers:
  assumes "operational m = Ok ()" "2 \<le> length shares" "distinct (map fst shares)"
    and "\<forall>(x, y) \<in> set shares. x \<noteq> 0 \<and> length y = length secret"
    and "length out = length secret"
    and "\<And>b. b < length secret \<Longrightarrow>
      length (css ! b) < length shares \<and> (\<forall>(x, y) \<in> set shares. y ! b = share_byte (css ! b) (secret ! b) x)"
  shows "shamir_combine m shares out = (Ok (), secret)"
proof -
  let ?n = "length secret"
  have chk: "combine_check ?n [] shares = Ok ()"
    using assms(3,4) by (auto simp: combine_check_Ok)
  have len: "length (combine_loop shares (replicate ?n 0)) = ?n"
    using length_combine_loop [of shares "replicate ?n 0"] assms(4) by auto
  have "combine_loop shares (replicate ?n 0) ! b = secret ! b" if b: "b < ?n" for b
  proof -
    let ?f = "horner (map GF (secret ! b # css ! b))"
    have g: "\<forall>(x, y) \<in> set shares. ?f (GF x) = GF (y ! b)"
      using assms(6) [OF b] by (auto simp: share_byte_horner simp del: list.map horner_simps)
    have "inj_on GF (fst ` set shares)" by (auto simp: inj_on_def)
    then have card: "card (GF ` fst ` set shares) = length shares"
      using distinct_card [OF assms(3)] by (simp only: card_image set_map length_map)
    have "GF (combine_loop shares (replicate ?n 0) ! b) = lagrange (GF ` fst ` set shares) ?f 0"
      by (rule combine_lagrange [OF assms(3) _ b g]) (use assms(4) in auto)
    also have "\<dots> = ?f 0"
      by (rule lagrange_recovers [OF polyfun_horner]) (use assms(6) [OF b] card in auto)
    finally show ?thesis by simp
  qed
  then have "combine_loop shares (replicate ?n 0) = secret"
    using len by (simp add: nth_equalityI)
  then show ?thesis
    using assms(1,2,5) chk by (simp add: shamir_combine_def)
qed

section \<open>Splitting, then combining\<close>

text \<open>The shares of a successful split, in the form the combiner reads them.\<close>

lemma split_vec_Ok:
  assumes "split_vec m fill secret threshold share_count rng = (Inr shares, rng')"
    and "random_source fill live" "live rng"
  shows "operational m = Ok ()" "2 \<le> threshold"
    "distinct (map share_index shares)" "\<forall>s \<in> set shares. share_index s \<noteq> 0 \<and> length (share_value s) = length secret"
    "\<exists>css. (\<forall>b < length secret. length (css ! b) = unat threshold - 1 \<and>
       (\<forall>s \<in> set shares. share_value s ! b = share_byte (css ! b) (secret ! b) (share_index s)))"
    "length shares = unat share_count"
proof -
  let ?n = "unat share_count" and ?len = "length secret"
  obtain all u where split: "shamir_split m fill secret threshold share_count rng (replicate (?len * ?n) 0) = (Inr u, all, rng')"
    and shares: "shares = map (\<lambda>(i, bs). \<lparr>share_index = of_nat (i + 1), share_value = bs\<rparr>) (enumerate 0 (chunks ?len all))"
    using assms(1) by (auto simp: split_vec_def Let_def split: if_splits sum.splits prod.splits)
  show "operational m = Ok ()"
    using split by (auto simp: shamir_split_def split: sum.splits)
  obtain css where ok: "secret \<noteq> []" "2 \<le> threshold" "length all = ?n * ?len"
    "length css = ?len" "\<forall>cs \<in> set css. length cs = unat threshold - 1"
    "\<forall>i < ?n. \<forall>b < ?len. all ! (i * ?len + b) = share_byte (css ! b) (secret ! b) (of_nat (i + 1))"
    using shamir_split_Ok [OF split assms(2,3)] by (auto simp: mult.commute)
  show "2 \<le> threshold" by fact
  have pos: "0 < ?len" using ok(1) by simp
  have lc: "length (chunks ?len all) = ?n"
    by (rule length_chunks_exact [OF ok(3) pos])
  then show ln: "length shares = ?n" by (simp add: shares)
  have nth: "shares ! i = \<lparr>share_index = of_nat (i + 1), share_value = chunks ?len all ! i\<rparr>" if "i < ?n" for i
    using that lc by (simp add: shares nth_enumerate_eq)
  have ix: "unat (of_nat (i + 1) :: u8) = i + 1" if "i < ?n" for i
    using that unat_u8_bound [of share_count] by (simp add: unat_of_nat_u8 del: of_nat_Suc of_nat_add)
  show "distinct (map share_index shares)"
  proof (subst distinct_conv_nth, intro allI impI)
    fix i j assume "i < length (map share_index shares)" "j < length (map share_index shares)" "i \<noteq> j"
    then have "i < ?n" "j < ?n" "i \<noteq> j" by (simp_all add: ln)
    then have "(of_nat (i + 1) :: u8) \<noteq> of_nat (j + 1)"
      using ix by (metis Suc_eq_plus1 old.nat.inject)
    then show "map share_index shares ! i \<noteq> map share_index shares ! j"
      using \<open>i < ?n\<close> \<open>j < ?n\<close> by (simp add: ln nth del: of_nat_Suc of_nat_add)
  qed
  show "\<forall>s \<in> set shares. share_index s \<noteq> 0 \<and> length (share_value s) = ?len"
  proof
    fix s assume "s \<in> set shares"
    then obtain i where i: "i < ?n" "s = shares ! i" unfolding in_set_conv_nth ln by blast
    have "chunks ?len all ! i \<in> set (chunks ?len all)" using i(1) lc by simp
    then have "length (chunks ?len all ! i) = ?len" by (rule chunks_exact_lengths [OF ok(3) pos])
    moreover have "(of_nat (i + 1) :: u8) \<noteq> 0" using ix [OF i(1)] by (metis Suc_eq_plus1 nat.distinct(1) unat_0)
    ultimately show "share_index s \<noteq> 0 \<and> length (share_value s) = ?len"
      by (simp add: i nth del: of_nat_Suc of_nat_add)
  qed
  have "share_value s ! b = share_byte (css ! b) (secret ! b) (share_index s)"
    if s: "s \<in> set shares" and b: "b < ?len" for s b
  proof -
    obtain i where i: "i < ?n" "s = shares ! i" using s unfolding in_set_conv_nth ln by blast
    show ?thesis
      unfolding i(2) nth [OF i(1)] share.simps nth_chunks [OF ok(3) pos i(1) b]
      using ok(6) i(1) b by blast
  qed
  then show "\<exists>css. (\<forall>b < ?len. length (css ! b) = unat threshold - 1 \<and>
       (\<forall>s \<in> set shares. share_value s ! b = share_byte (css ! b) (secret ! b) (share_index s)))"
    using ok(4,5) by (intro exI [of _ css]) auto
qed

lemma nth_byte_le: "threshold \<le> share_count \<Longrightarrow> unat (threshold :: u8) \<le> unat share_count"
  by (simp add: word_le_nat_alt)

text \<open>Any threshold of the shares gives the secret back.\<close>

lemma combine_vec_split_vec:
  assumes split: "split_vec m fill secret threshold share_count rng = (Inr shares, rng')"
    and rs: "random_source fill live" "live rng"
    and picked: "set picked \<subseteq> set shares" "distinct picked" "unat threshold \<le> length picked"
  shows "combine_vec m picked = Ok secret"
proof -
  note ok = split_vec_Ok [OF split rs]
  obtain css where css: "\<forall>b < length secret. length (css ! b) = unat threshold - 1 \<and>
       (\<forall>s \<in> set shares. share_value s ! b = share_byte (css ! b) (secret ! b) (share_index s))"
    using ok(5) by blast
  have t2: "2 \<le> unat threshold" using ok(2) by (simp add: word_le_nat_alt)
  let ?parts = "map (\<lambda>s. (share_index s, share_value s)) picked"
  have inj: "inj_on share_index (set picked)"
    using ok(3) picked(1) by (meson distinct_map inj_on_subset)
  have "combine_vec m picked = (case shamir_combine m ?parts (replicate (length secret) 0) of
      (Inl e, _) \<Rightarrow> Inl e | (Inr _, out) \<Rightarrow> Ok out)"
    using t2 picked(1,3) ok(4) by (cases picked) (auto simp: combine_vec_def Let_def)
  moreover have "shamir_combine m ?parts (replicate (length secret) 0) = (Ok (), secret)"
  proof (rule combine_recovers [OF ok(1), where css = css])
    show "distinct (map fst ?parts)"
      using inj picked(2) by (simp add: distinct_map o_def)
    show "length (css ! b) < length ?parts \<and> (\<forall>(x, y) \<in> set ?parts. y ! b = share_byte (css ! b) (secret ! b) x)"
      if "b < length secret" for b
      using css that picked(1,3) t2 by auto
  qed (use t2 picked ok(4) in auto)
  ultimately show ?thesis by simp
qed

end
