(* ===== verification/Core_Digest.thy ===== *)
theory Core_Digest
  imports Core_Ct Core_Module
begin

text \<open>
  The contracts of hash functions and message authentication codes:
  \<open>crates/ic-core/src/traits.rs\<close>. A Rust trait is a record of operations here, and an
  implementation of it a value of that record, so that the code generic over the
  trait is a function of the record. What an implementation promises is a locale:
  streaming a message in any pieces gives the value of one function of the whole
  message. The gate of the module is an argument of every operation that consults it.
\<close>

section \<open>Hash functions\<close>

record 's digest_ops =
  digest_new :: 's
  digest_update :: "bytes \<Rightarrow> 's \<Rightarrow> 's"
  digest_finalize :: "'s \<Rightarrow> bytes"
  OUTPUT_LEN :: nat
  BLOCK_LEN :: nat

definition digest_digest :: "'s digest_ops \<Rightarrow> bytes \<Rightarrow> bytes" where
  "digest_digest D data = digest_finalize D (digest_update D data (digest_new D))"

text \<open>The public trait: the same, behind the gate.\<close>

definition digest_pub_finalize :: "module_state \<Rightarrow> 's digest_ops \<Rightarrow> 's \<Rightarrow> bytes result" where
  "digest_pub_finalize m D s = bind_result (operational m) (\<lambda>_. Ok (digest_finalize D s))"

definition digest_pub_digest :: "module_state \<Rightarrow> 's digest_ops \<Rightarrow> bytes \<Rightarrow> bytes result" where
  "digest_pub_digest m D data = bind_result (operational m) (\<lambda>_. Ok (digest_digest D data))"

text \<open>
  \<open>absorbed s m\<close> says that the state \<open>s\<close> stands for the message \<open>m\<close>; \<open>hash\<close> is the
  function the digest computes.
\<close>

locale digest =
  fixes D :: "'s digest_ops"
    and absorbed :: "'s \<Rightarrow> bytes \<Rightarrow> bool"
    and hash :: "bytes \<Rightarrow> bytes"
  assumes new_absorbed: "absorbed (digest_new D) []"
    and update_absorbed: "absorbed s m \<Longrightarrow> absorbed (digest_update D data s) (m @ data)"
    and finalize_hash: "absorbed s m \<Longrightarrow> digest_finalize D s = hash m"
    and hash_length [simp]: "length (hash m) = OUTPUT_LEN D"
    and output_bounds: "0 < OUTPUT_LEN D" "OUTPUT_LEN D \<le> 64"
    and block_bounds: "OUTPUT_LEN D \<le> BLOCK_LEN D" "BLOCK_LEN D \<le> 144"
begin

lemma update_fold:
  "absorbed s m \<Longrightarrow> absorbed (fold (digest_update D) parts s) (m @ concat parts)"
proof (induction parts arbitrary: s m)
  case (Cons p parts)
  from Cons.IH [OF update_absorbed [OF Cons.prems, of p]] show ?case by simp
qed simp

text \<open>However the message is cut, the digest is that of the whole.\<close>

lemma streaming: "digest_finalize D (fold (digest_update D) parts (digest_new D)) = hash (concat parts)"
  using finalize_hash [OF update_fold [OF new_absorbed]] by simp

lemma digest_hash: "digest_digest D data = hash data"
  using streaming [of "[data]"] by (simp add: digest_digest_def)

end

section \<open>Message authentication codes\<close>

record 's mac_ops =
  mac_new :: "module_state \<Rightarrow> bytes \<Rightarrow> 's result"
  mac_update :: "bytes \<Rightarrow> 's \<Rightarrow> 's"
  mac_finalize :: "'s \<Rightarrow> bytes"
  mac_mac :: "module_state \<Rightarrow> bytes \<Rightarrow> bytes \<Rightarrow> bytes result"
  TAG_LEN :: nat

text \<open>The default body of \<open>mac\<close> in the internal trait.\<close>

definition mac_default ::
  "(module_state \<Rightarrow> bytes \<Rightarrow> 's result) \<Rightarrow> (bytes \<Rightarrow> 's \<Rightarrow> 's) \<Rightarrow> ('s \<Rightarrow> bytes)
   \<Rightarrow> module_state \<Rightarrow> bytes \<Rightarrow> bytes \<Rightarrow> bytes result" where
  "mac_default new upd fin m key data = bind_result (new m key) (\<lambda>s. Ok (fin (upd data s)))"

definition mac_pub_finalize :: "module_state \<Rightarrow> 's mac_ops \<Rightarrow> 's \<Rightarrow> bytes result" where
  "mac_pub_finalize m M s = bind_result (operational m) (\<lambda>_. Ok (mac_finalize M s))"

definition mac_pub_mac :: "module_state \<Rightarrow> 's mac_ops \<Rightarrow> bytes \<Rightarrow> bytes \<Rightarrow> bytes result" where
  "mac_pub_mac m M key data = bind_result (operational m) (\<lambda>_. mac_mac M m key data)"

definition mac_verify :: "module_state \<Rightarrow> 's mac_ops \<Rightarrow> bytes \<Rightarrow> bytes \<Rightarrow> bytes \<Rightarrow> unit result" where
  "mac_verify m M key data tag =
     bind_result (mac_pub_mac m M key data) (\<lambda>expected.
       if ct_verify expected tag then Ok () else Err AuthenticationFailed ''mac tag'')"

locale mac =
  fixes M :: "'s mac_ops"
    and valid_key :: "bytes \<Rightarrow> bool"
    and keyed :: "'s \<Rightarrow> bytes \<Rightarrow> bytes \<Rightarrow> bool"
    and tag :: "bytes \<Rightarrow> bytes \<Rightarrow> bytes"
  assumes new_gate: "operational m = Inl e \<Longrightarrow> mac_new M m k = Inl e"
    and new_keyed: "operational m = Inr u \<Longrightarrow> valid_key k \<Longrightarrow> \<exists>s. mac_new M m k = Inr s \<and> keyed s k []"
    and update_keyed: "keyed s k d \<Longrightarrow> keyed (mac_update M data s) k (d @ data)"
    and finalize_tag: "keyed s k d \<Longrightarrow> mac_finalize M s = tag k d"
    and mac_gate: "operational m = Inl e \<Longrightarrow> mac_mac M m k d = Inl e"
    and mac_tag: "operational m = Inr u \<Longrightarrow> valid_key k \<Longrightarrow> mac_mac M m k d = Inr (tag k d)"
    and tag_length [simp]: "length (tag k d) = TAG_LEN M"
    and tag_bounds: "0 < TAG_LEN M" "TAG_LEN M \<le> 64"
begin

lemma update_keyed_fold:
  "keyed s k d \<Longrightarrow> keyed (fold (mac_update M) parts s) k (d @ concat parts)"
proof (induction parts arbitrary: s d)
  case (Cons p parts)
  from Cons.IH [OF update_keyed [OF Cons.prems, of p]] show ?case by simp
qed simp

lemma new_cases:
  assumes "operational m = Inr u" "valid_key k"
  obtains s where "mac_new M m k = Inr s" "keyed s k []"
  using new_keyed [OF assms] by blast

lemma finalize_fold:
  "keyed s k d \<Longrightarrow> mac_finalize M (fold (mac_update M) parts s) = tag k (d @ concat parts)"
  by (rule finalize_tag [OF update_keyed_fold])

text \<open>The one-shot code and the streaming one agree.\<close>

lemma mac_streaming:
  assumes "operational m = Inr u" "valid_key k"
  shows "bind_result (mac_new M m k) (\<lambda>s. Ok (mac_finalize M (fold (mac_update M) parts s)))
       = mac_mac M m k (concat parts)"
proof -
  obtain s where "mac_new M m k = Inr s" "keyed s k []" by (rule new_cases [OF assms])
  then show ?thesis using finalize_fold [of s k "[]" parts] mac_tag [OF assms] by simp
qed

lemma pub_mac: "valid_key k \<Longrightarrow> mac_pub_mac m M k d = bind_result (operational m) (\<lambda>_. Ok (tag k d))"
  using mac_tag by (cases "operational m") (simp_all add: mac_pub_mac_def)

text \<open>Verification accepts the tag and nothing else.\<close>

lemma verify_iff:
  assumes "valid_key k"
  shows "mac_verify m M k d t =
    bind_result (operational m) (\<lambda>_. if t = tag k d then Ok () else Err AuthenticationFailed ''mac tag'')"
  using assms by (cases "operational m") (auto simp: mac_verify_def pub_mac ct_choice_simps)

end

end
