(* ===== verification/Word_Ops.thy ===== *)
theory Word_Ops
  imports Prelude
begin

text \<open>
  Operations on machine words that the primitives share: rotations, and the
  big- and little-endian bytes of a word, written with shifts so that they can be
  evaluated on wide words. Nothing here models a function of the repository.
\<close>

section \<open>Rotations\<close>

definition rotr :: "nat \<Rightarrow> 'a::len word \<Rightarrow> 'a word" where
  "rotr k w = drop_bit k w OR push_bit (LENGTH('a) - k) w"

definition rotl :: "nat \<Rightarrow> 'a::len word \<Rightarrow> 'a word" where
  "rotl k w = push_bit k w OR drop_bit (LENGTH('a) - k) w"

lemma bit_rotr:
  fixes w :: "'a::len word"
  assumes "k < LENGTH('a)" "n < LENGTH('a)"
  shows "bit (rotr k w) n \<longleftrightarrow> bit w ((n + k) mod LENGTH('a))"
proof (cases "n + k < LENGTH('a)")
  case True
  then show ?thesis
    using assms by (auto simp: rotr_def bit_or_iff bit_drop_bit_eq bit_push_bit_iff add.commute)
next
  case False
  then have "(n + k) mod LENGTH('a) = n - (LENGTH('a) - k)"
    using assms by (simp add: mod_if)
  moreover have "\<not> bit w (k + n)" using False bit_imp_le_length [of w "k + n"] by auto
  ultimately show ?thesis
    using assms False by (auto simp: rotr_def bit_or_iff bit_drop_bit_eq bit_push_bit_iff)
qed

lemma rotl_eq_rotr: "rotl k w = rotr (LENGTH('a) - k) w" if "k \<le> LENGTH('a)" for w :: "'a::len word"
  using that by (simp add: rotl_def rotr_def or.commute)

lemma bit_rotl:
  fixes w :: "'a::len word"
  assumes "0 < k" "k < LENGTH('a)" "n < LENGTH('a)"
  shows "bit (rotl k w) n \<longleftrightarrow> bit w ((n + (LENGTH('a) - k)) mod LENGTH('a))"
  using assms by (simp add: rotl_eq_rotr bit_rotr)

lemma rotr_rotl [simp]:
  fixes w :: "'a::len word"
  assumes "0 < k" "k < LENGTH('a)"
  shows "rotr k (rotl k w) = w"
proof (rule bit_word_eqI)
  fix n assume n: "n < LENGTH('a)"
  have "((n + k) mod LENGTH('a) + (LENGTH('a) - k)) mod LENGTH('a) = n"
    using assms n by (cases "n + k < LENGTH('a)") (simp_all add: mod_if)
  then show "bit (rotr k (rotl k w)) n \<longleftrightarrow> bit w n"
    using assms n by (simp add: bit_rotr bit_rotl)
qed

lemma rotl_rotr [simp]:
  fixes w :: "'a::len word"
  assumes "0 < k" "k < LENGTH('a)"
  shows "rotl k (rotr k w) = w"
  using assms rotr_rotl [of "LENGTH('a) - k" w] by (simp add: rotl_eq_rotr)

section \<open>Bytes of a word\<close>

text \<open>\<open>to_le_bytes\<close>, \<open>to_be_bytes\<close> and back, for a word of \<open>n\<close> bytes.\<close>

definition le_of_word :: "nat \<Rightarrow> 'a::len word \<Rightarrow> bytes" where
  "le_of_word n w = map (\<lambda>i. ucast (drop_bit (8 * i) w)) [0..<n]"

definition be_of_word :: "nat \<Rightarrow> 'a::len word \<Rightarrow> bytes" where
  "be_of_word n w = rev (le_of_word n w)"

definition word_of_be :: "bytes \<Rightarrow> 'a::len word" where
  "word_of_be bs = fold (\<lambda>b acc. push_bit 8 acc OR ucast b) bs 0"

definition word_of_le :: "bytes \<Rightarrow> 'a::len word" where
  "word_of_le bs = word_of_be (rev bs)"

lemma length_word_bytes [simp, byte_simps]:
  "length (le_of_word n w) = n" "length (be_of_word n w) = n"
  by (simp_all add: le_of_word_def be_of_word_def)

lemma word_of_le_Nil [simp]: "word_of_le [] = 0"
  by (simp add: word_of_le_def word_of_be_def)

lemma word_of_le_Cons: "word_of_le (b # bs) = push_bit 8 (word_of_le bs) OR ucast b"
  by (simp add: word_of_le_def word_of_be_def)

lemma le_of_word_Suc: "le_of_word (Suc n) w = ucast w # le_of_word n (drop_bit 8 w)"
  unfolding le_of_word_def
  by (simp add: upt_conv_Cons map_Suc_upt [symmetric] add.commute del: upt_Suc)

lemma bit_word_of_le:
  fixes bs :: bytes
  assumes "n < LENGTH('a)"
  shows "bit (word_of_le bs :: 'a::len word) n \<longleftrightarrow> n div 8 < length bs \<and> bit (bs ! (n div 8)) (n mod 8)"
  using assms
proof (induction bs arbitrary: n)
  case (Cons b bs)
  show ?case
  proof (cases "n < 8")
    case True
    then show ?thesis
      using Cons.prems by (simp add: word_of_le_Cons bit_or_iff bit_push_bit_iff bit_unsigned_iff)
  next
    case False
    have "\<not> bit b n" using False u8_bit_less by blast
    moreover have "n div 8 = Suc ((n - 8) div 8)" "(n - 8) mod 8 = n mod 8"
      using False by (simp_all add: div_if mod_if)
    ultimately show ?thesis
      using Cons False by (simp add: word_of_le_Cons bit_or_iff bit_push_bit_iff bit_unsigned_iff)
  qed
qed simp

lemma word_of_le_of_word [byte_simps]:
  fixes w :: "'a::len word"
  assumes "LENGTH('a) \<le> 8 * n"
  shows "word_of_le (le_of_word n w) = w"
proof (rule bit_word_eqI)
  fix k assume k: "k < LENGTH('a)"
  then have "k div 8 < n" using assms by simp
  moreover have "8 * (k div 8) + k mod 8 = k" by simp
  ultimately show "bit (word_of_le (le_of_word n w) :: 'a word) k \<longleftrightarrow> bit w k"
    using k by (simp add: bit_word_of_le le_of_word_def bit_unsigned_iff bit_drop_bit_eq)
qed

lemma le_of_word_of_le [byte_simps]:
  assumes "8 * length bs \<le> LENGTH('a)"
  shows "le_of_word (length bs) (word_of_le bs :: 'a::len word) = bs"
proof (rule nth_equalityI)
  fix i assume i: "i < length (le_of_word (length bs) (word_of_le bs :: 'a word))"
  then have il: "i < length bs" by simp
  show "le_of_word (length bs) (word_of_le bs :: 'a word) ! i = bs ! i"
  proof (rule bit_word_eqI)
    fix k assume "k < LENGTH(8)"
    then have k: "k < 8" by simp
    have "8 * i + k < LENGTH('a)" using il k assms by simp
    moreover have "(8 * i + k) div 8 = i" "(8 * i + k) mod 8 = k" using k by simp_all
    ultimately show "bit (le_of_word (length bs) (word_of_le bs :: 'a word) ! i) k \<longleftrightarrow> bit (bs ! i) k"
      using il k by (simp add: le_of_word_def bit_unsigned_iff bit_drop_bit_eq bit_word_of_le)
  qed
qed simp

lemma word_of_be_of_word [byte_simps]:
  "LENGTH('a) \<le> 8 * n \<Longrightarrow> word_of_be (be_of_word n w) = (w :: 'a::len word)"
  using word_of_le_of_word [of n w] by (simp add: word_of_le_def be_of_word_def)

lemma be_of_word_of_be [byte_simps]:
  "8 * length bs \<le> LENGTH('a) \<Longrightarrow> be_of_word (length bs) (word_of_be bs :: 'a::len word) = bs"
  using le_of_word_of_le [of "rev bs", where 'a = 'a] by (simp add: word_of_le_def be_of_word_def)

lemma unat_word_of_le:
  assumes "8 * length bs \<le> LENGTH('a)"
  shows "unat (word_of_le bs :: 'a::len word) = le_val bs"
  using assms
proof (induction bs)
  case (Cons b bs)
  have disj: "push_bit 8 (word_of_le bs) AND (ucast b :: 'a word) = 0"
    by (rule bit_word_eqI) (auto simp: bit_and_iff bit_push_bit_iff bit_unsigned_iff dest: u8_bit_less)
  have lb: "le_val bs < 2 ^ (8 * length bs)" using le_val_bound [of bs] by (simp add: power_mult)
  have ub: "unat b < 256" by (rule unat_u8_bound)
  have small: "unat b + 256 * le_val bs < 2 ^ LENGTH('a)"
  proof -
    have "unat b + 256 * le_val bs < 2 ^ (8 * length (b # bs))"
      using le_val_bound [of "b # bs"] power_mult [of "2 :: nat" 8 "length (b # bs)"] by simp
    also have "\<dots> \<le> 2 ^ LENGTH('a)" using Cons.prems by (intro power_increasing) auto
    finally show ?thesis .
  qed
  have l8: "LENGTH(8) \<le> LENGTH('a)" using Cons.prems by simp
  have "word_of_le (b # bs) = push_bit 8 (word_of_le bs) + (ucast b :: 'a word)"
    using disj by (simp add: word_of_le_Cons disjunctive_add_eq_or)
  also have "\<dots> = of_nat (unat b + 256 * le_val bs)"
  proof -
    have "unat (word_of_le bs :: 'a word) = le_val bs" using Cons by simp
    then have "word_of_le bs = (of_nat (le_val bs) :: 'a word)"
      by (metis of_nat_unat ucast_id)
    then show ?thesis by (simp add: push_bit_eq_mult of_nat_unat)
  qed
  also have "unat \<dots> = unat b + 256 * le_val bs"
    using small by (simp only: unat_of_nat mod_less)
  finally show ?case by simp
qed simp

lemma unat_word_of_be:
  "8 * length bs \<le> LENGTH('a) \<Longrightarrow> unat (word_of_be bs :: 'a::len word) = be_val bs"
  using unat_word_of_le [of "rev bs", where 'a = 'a] by (simp add: word_of_le_def be_val_def)

lemma word_of_be_inj:
  assumes "8 * length xs \<le> LENGTH('a)" "length xs = length ys"
    and "(word_of_be xs :: 'a::len word) = word_of_be ys"
  shows "xs = ys"
  using assms be_of_word_of_be by metis

lemma be_of_word_inj:
  "LENGTH('a) \<le> 8 * n \<Longrightarrow> be_of_word n v = be_of_word n (w :: 'a::len word) \<longleftrightarrow> v = w"
  by (metis word_of_be_of_word)

lemma le_of_word_inj:
  "LENGTH('a) \<le> 8 * n \<Longrightarrow> le_of_word n v = le_of_word n (w :: 'a::len word) \<longleftrightarrow> v = w"
  by (metis word_of_le_of_word)

section \<open>Exact arithmetic\<close>

lemma unat_u32_bound: "unat (w :: u32) < 2 ^ 32"
  using unsigned_less [of w] by simp

lemma unat_u64_bound: "unat (w :: u64) < 2 ^ 64"
  using unsigned_less [of w] by simp

lemma unat_add_exact:
  "unat x + unat y < 2 ^ LENGTH('a) \<Longrightarrow> unat (x + y) = unat x + unat (y :: 'a::len word)"
  by (simp add: unat_word_ariths)

lemma unat_mul_exact:
  "unat x * unat y < 2 ^ LENGTH('a) \<Longrightarrow> unat (x * y) = unat x * unat (y :: 'a::len word)"
  by (simp add: unat_word_ariths)

lemma unat_or_push:
  fixes x :: "'a::len word"
  assumes "unat x < 2 ^ k" "k \<le> LENGTH('a)"
  shows "unat (x OR push_bit k y) = unat x + 2 ^ k * (unat y mod 2 ^ (LENGTH('a) - k))"
proof -
  have "\<not> bit x n" if "k \<le> n" for n
  proof -
    have "unat x < 2 ^ n" using assms(1) that power_increasing [of k n "2 :: nat"] by linarith
    then have "\<not> bit (unat x) n" by (simp add: bit_iff_odd)
    then show ?thesis using bit_imp_le_length [of x n] by (auto simp: bit_unsigned_iff)
  qed
  then have "x AND push_bit k y = 0"
    by (intro bit_word_eqI) (auto simp: bit_and_iff bit_push_bit_iff not_le)
  then have "x OR push_bit k y = x + push_bit k y"
    by (simp add: disjunctive_add_eq_or)
  moreover have p: "unat (push_bit k y) = 2 ^ k * (unat y mod 2 ^ (LENGTH('a) - k))"
  proof -
    have "unat (push_bit k y) = 2 ^ k * unat y mod 2 ^ LENGTH('a)"
      by (simp only: unsigned_push_bit_eq) (simp only: push_bit_eq_mult take_bit_eq_mod mult.commute)
    also have "(2 :: nat) ^ LENGTH('a) = 2 ^ k * 2 ^ (LENGTH('a) - k)"
      using assms(2) by (simp flip: power_add)
    finally show ?thesis by (simp only: mult_mod_right)
  qed
  moreover have "unat x + 2 ^ k * (unat y mod 2 ^ (LENGTH('a) - k)) < 2 ^ LENGTH('a)"
  proof -
    have "unat y mod 2 ^ (LENGTH('a) - k) + 1 \<le> 2 ^ (LENGTH('a) - k)" by (simp add: Suc_leI)
    then have "2 ^ k * (unat y mod 2 ^ (LENGTH('a) - k) + 1) \<le> 2 ^ k * 2 ^ (LENGTH('a) - k)"
      by (rule mult_le_mono2)
    also have "\<dots> = 2 ^ LENGTH('a)" using assms(2) by (simp flip: power_add)
    finally show ?thesis using assms(1) by simp
  qed
  ultimately show ?thesis by (simp add: unat_add_exact)
qed

text \<open>Equality of two words of 32 bits, bit by bit.\<close>

lemma u32_bit_out: "32 \<le> n \<Longrightarrow> \<not> bit (x :: u32) n"
  using bit_imp_le_length [of x n] by auto

lemma upt_32: "[0..<32] = [0, 1, 2, 3, 4, 5, 6, 7, 8, 9, 10, 11, 12, 13, 14, 15, 16, 17, 18, 19, 20, 21, 22, 23, 24, 25, 26, 27, 28, 29, 30, 31]"
  by code_simp
lemma u32_eqI: "list_all (\<lambda>n. bit x n \<longleftrightarrow> bit y n) [0..<32] \<Longrightarrow> x = (y :: u32)"
  by (rule bit_word_eqI) (simp add: list_all_iff)
section \<open>Byte strings\<close>

text \<open>A Rust byte-string literal \<open>b"..."\<close>.\<close>

definition ascii :: "string \<Rightarrow> bytes" where
  "ascii s = map of_char s"

lemma length_ascii [simp]: "length (ascii s) = length s"
  by (simp add: ascii_def)

end
