(* ===== verification/Block_Buffer.thy ===== *)
theory Block_Buffer
  imports Word_Ops
begin

text \<open>
  The block buffer of the streaming hashes: input is gathered into a buffer of \<open>k\<close>
  bytes, whole blocks go through a compression function, the rest waits. The
  routines of the components that buffer this way are instances of \<open>absorb\<close>, and
  its one theorem, that it refines the fold of the compression over the blocks of
  the whole message however the message was cut, serves them all.
\<close>

section \<open>The buffer\<close>

text \<open>The state is the chaining value, the buffer and the number of bytes in it.\<close>

definition absorb_whole ::
  "nat \<Rightarrow> ('h \<Rightarrow> bytes \<Rightarrow> 'h) \<Rightarrow> bytes \<Rightarrow> 'h \<Rightarrow> bytes \<Rightarrow> 'h \<times> bytes \<times> nat" where
  "absorb_whole k f data h buf =
     (let whole = length data - length data mod k;
          h = fold (\<lambda>block h. f h block) (chunks k (take whole data)) h;
          rest = drop whole data
      in (h, write_at 0 rest buf, length rest))"

definition absorb ::
  "nat \<Rightarrow> ('h \<Rightarrow> bytes \<Rightarrow> 'h) \<Rightarrow> bytes \<Rightarrow> 'h \<times> bytes \<times> nat \<Rightarrow> 'h \<times> bytes \<times> nat" where
  "absorb k f data st = (case st of (h, buf, buffered) \<Rightarrow>
     if 0 < buffered
     then
       let need = k - buffered;
           taken = min need (length data);
           buf = write_at buffered (take taken data) buf;
           buffered = buffered + taken;
           data = drop taken data
       in if buffered < k then (h, buf, buffered)
          else absorb_whole k f data (f h buf) buf
     else absorb_whole k f data h buf)"

section \<open>What it holds\<close>

text \<open>The chaining value after the whole blocks of \<open>m\<close>, from \<open>iv\<close>.\<close>

definition chain :: "nat \<Rightarrow> ('h \<Rightarrow> bytes \<Rightarrow> 'h) \<Rightarrow> 'h \<Rightarrow> bytes \<Rightarrow> 'h" where
  "chain k f iv m = fold (\<lambda>block h. f h block) (chunks k m) iv"

definition holds ::
  "nat \<Rightarrow> ('h \<Rightarrow> bytes \<Rightarrow> 'h) \<Rightarrow> 'h \<Rightarrow> bytes \<Rightarrow> 'h \<times> bytes \<times> nat \<Rightarrow> bool" where
  "holds k f iv m st = (case st of (h, buf, buffered) \<Rightarrow>
     length buf = k \<and> buffered < k \<and>
     (\<exists>whole rest. m = whole @ rest \<and> length whole mod k = 0 \<and> length rest = buffered
        \<and> h = chain k f iv whole \<and> take buffered buf = rest))"

lemma chunks_append_whole:
  "0 < k \<Longrightarrow> length xs mod k = 0 \<Longrightarrow> chunks k (xs @ ys) = chunks k xs @ chunks k ys"
proof (induction k xs rule: chunks.induct)
  case (1 k xs)
  show ?case
  proof (cases "xs = []")
    case False
    then have "k \<le> length xs" using 1 by (metis dvd_imp_le length_greater_0_conv mod_eq_0_iff_dvd)
    moreover from this have "length (drop k xs) mod k = 0" using 1 by (simp add: le_mod_geq)
    ultimately show ?thesis
      using 1 False by (simp add: chunks_step)
  qed simp
qed

lemma chain_append:
  "0 < k \<Longrightarrow> length xs mod k = 0 \<Longrightarrow> chain k f iv (xs @ ys) = chain k f (chain k f iv xs) ys"
  by (simp add: chain_def chunks_append_whole)

lemma chain_Nil [simp]: "chain k f iv [] = iv"
  by (simp add: chain_def)

lemma chain_block: "length b = k \<Longrightarrow> 0 < k \<Longrightarrow> chain k f iv b = f iv b"
  using chunks_append [of b k "[]"] by (simp add: chain_def)

lemma chain_invariant:
  assumes "\<And>h b. P h \<Longrightarrow> P (f h b)" "P iv"
  shows "P (chain k f iv m)"
proof -
  have "P (fold (\<lambda>block h. f h block) bs iv)" for bs
    using assms(2) by (induction bs arbitrary: iv) (simp_all add: assms(1))
  then show ?thesis by (simp add: chain_def)
qed

lemma holds_start: "0 < k \<Longrightarrow> length buf = k \<Longrightarrow> holds k f iv [] (iv, buf, 0)"
  by (simp add: holds_def)

lemma absorb_whole_holds:
  assumes "0 < k" "length m mod k = 0" "h = chain k f iv m" "length buf = k"
  shows "holds k f iv (m @ data) (absorb_whole k f data h buf)"
proof -
  let ?w = "length data - length data mod k"
  have w: "length (take ?w data) mod k = 0"
    by (simp add: min_absorb2 minus_mod_eq_mult_div flip: minus_mod_eq_mult_div)
  have rest: "length (drop ?w data) < k" using assms(1) by simp
  have "m @ data = (m @ take ?w data) @ drop ?w data" by simp
  moreover have "length (m @ take ?w data) mod k = 0"
    using assms(2) w by (simp add: mod_add_eq [symmetric] del: length_take)
  moreover have "fold (\<lambda>block h. f h block) (chunks k (take ?w data)) h = chain k f iv (m @ take ?w data)"
    using assms by (simp only: chain_append) (simp add: chain_def)
  ultimately show ?thesis
    unfolding holds_def absorb_whole_def Let_def prod.case
    using rest assms(4)
    by (intro conjI exI [of _ "m @ take ?w data"] exI [of _ "drop ?w data"])
       (simp_all add: write_at_def)
qed

lemma absorb_holds:
  assumes st: "holds k f iv m st" and k: "0 < k"
  shows "holds k f iv (m @ data) (absorb k f data st)"
proof -
  obtain h buf n where s: "st = (h, buf, n)" by (cases st) auto
  obtain whole rest where r: "m = whole @ rest" "length whole mod k = 0" "length rest = n"
    "h = chain k f iv whole" "take n buf = rest" "length buf = k" "n < k"
    using st s by (auto simp: holds_def)
  show ?thesis
  proof (cases "0 < n")
    case False
    then show ?thesis
      using absorb_whole_holds [OF k r(2) r(4) r(6)] r s by (simp add: absorb_def)
  next
    case True
    let ?t = "min (k - n) (length data)"
    let ?buf = "write_at n (take ?t data) buf"
    have lb: "length ?buf = k" using r by simp
    have tk: "take (n + ?t) ?buf = rest @ take ?t data"
      using r by (simp add: write_at_def)
    show ?thesis
    proof (cases "n + ?t < k")
      case full: True
      then have tl: "?t = length data" and dt: "take ?t data = data" by auto
      have "n + length data < k" using full tl by simp
      then have "absorb k f data st = (h, ?buf, n + ?t)"
        using True s by (simp add: absorb_def Let_def tl)
      moreover have "m @ data = whole @ (rest @ data)" using r by simp
      ultimately show ?thesis
        unfolding holds_def
        using lb tk r full dt by (auto intro!: exI [of _ whole] exI [of _ "rest @ data"])
    next
      case False
      then have t: "n + ?t = k" "?t = k - n" using r by auto
      have bl: "?buf = rest @ take ?t data" using tk t lb by simp
      have "absorb k f data st = absorb_whole k f (drop ?t data) (f h ?buf) ?buf"
        using True False s t by (simp add: absorb_def Let_def)
      moreover have "holds k f iv ((m @ take ?t data) @ drop ?t data)
          (absorb_whole k f (drop ?t data) (f h ?buf) ?buf)"
      proof (rule absorb_whole_holds [OF k _ _ lb])
        have m: "m @ take ?t data = whole @ ?buf" using r bl by simp
        show "length (m @ take ?t data) mod k = 0"
          unfolding m using r(2) lb by (simp del: length_write_at)
        show "f h ?buf = chain k f iv (m @ take ?t data)"
          unfolding m by (simp add: chain_append k r chain_block lb)
      qed
      ultimately show ?thesis by simp
    qed
  qed
qed

text \<open>The parts of a state that holds a message.\<close>

lemma holdsE:
  assumes "holds k f iv m (h, buf, n)" "0 < k"
  shows "n = length m mod k" "length buf = k"
    "h = chain k f iv (take (length m div k * k) m)"
    "take n buf = drop (length m div k * k) m"
proof -
  obtain whole rest where r: "m = whole @ rest" "length whole mod k = 0" "length rest = n"
    "h = chain k f iv whole" "take n buf = rest" "length buf = k" "n < k"
    using assms by (auto simp: holds_def)
  have l: "length m mod k = n" "length m div k * k = length whole"
  proof -
    obtain q where q: "length whole = q * k" using r(2) by (metis mod_eq_0_iff_dvd dvdE mult.commute)
    show "length m mod k = n" using r q by simp
    have "length m div k = q" using r q assms(2) by (simp add: div_eq_dividend_iff)
    then show "length m div k * k = length whole" using q by simp
  qed
  show "n = length m mod k" "length buf = k" using l r by simp_all
  show "h = chain k f iv (take (length m div k * k) m)" "take n buf = drop (length m div k * k) m"
    using l r by simp_all
qed

end
