(* ===== verification/Hash_Sha2.thy ===== *)
theory Hash_Sha2
  imports Core_Digest Block_Buffer
begin

text \<open>
  SHA-2: \<open>crates/ic-hash/src/sha2.rs\<close>, the portable code. The two cores, of 32-bit and
  of 64-bit words, keep a chaining value, a block buffer and a length; the padding
  is written the way each core writes it. The back ends for particular processors
  are replacements of the compression and are not modelled; nor is the message
  schedule kept between blocks, which is rewritten before it is read.
\<close>

section \<open>The 32-bit core\<close>

definition K256 :: "u32 list" where
  "K256 = [
     0x428a2f98, 0x71374491, 0xb5c0fbcf, 0xe9b5dba5, 0x3956c25b, 0x59f111f1,
     0x923f82a4, 0xab1c5ed5, 0xd807aa98, 0x12835b01, 0x243185be, 0x550c7dc3,
     0x72be5d74, 0x80deb1fe, 0x9bdc06a7, 0xc19bf174, 0xe49b69c1, 0xefbe4786,
     0x0fc19dc6, 0x240ca1cc, 0x2de92c6f, 0x4a7484aa, 0x5cb0a9dc, 0x76f988da,
     0x983e5152, 0xa831c66d, 0xb00327c8, 0xbf597fc7, 0xc6e00bf3, 0xd5a79147,
     0x06ca6351, 0x14292967, 0x27b70a85, 0x2e1b2138, 0x4d2c6dfc, 0x53380d13,
     0x650a7354, 0x766a0abb, 0x81c2c92e, 0x92722c85, 0xa2bfe8a1, 0xa81a664b,
     0xc24b8b70, 0xc76c51a3, 0xd192e819, 0xd6990624, 0xf40e3585, 0x106aa070,
     0x19a4c116, 0x1e376c08, 0x2748774c, 0x34b0bcb5, 0x391c0cb3, 0x4ed8aa4a,
     0x5b9cca4f, 0x682e6ff3, 0x748f82ee, 0x78a5636f, 0x84c87814, 0x8cc70208,
     0x90befffa, 0xa4506ceb, 0xbef9a3f7, 0xc67178f2]"

definition sha256_schedule_step :: "nat \<Rightarrow> u32 list \<Rightarrow> u32 list" where
  "sha256_schedule_step i w =
     (let s0 = rotr 7 (w ! (i - 15)) XOR rotr 18 (w ! (i - 15)) XOR drop_bit 3 (w ! (i - 15));
          s1 = rotr 17 (w ! (i - 2)) XOR rotr 19 (w ! (i - 2)) XOR drop_bit 10 (w ! (i - 2))
      in w @ [w ! (i - 16) + s0 + w ! (i - 7) + s1])"

definition sha256_schedule :: "bytes \<Rightarrow> u32 list" where
  "sha256_schedule block =
     fold sha256_schedule_step [16..<64] (map (\<lambda>i. word_of_be (slice (i * 4) 4 block)) [0..<16])"

fun sha256_round :: "u32 \<Rightarrow> u32 \<Rightarrow> u32 list \<Rightarrow> u32 list" where
  "sha256_round k w [a, b, c, d, e, f, g, hh] =
     (let s1 = rotr 6 e XOR rotr 11 e XOR rotr 25 e;
          ch = (e AND f) XOR (NOT e AND g);
          t1 = hh + s1 + ch + k + w;
          s0 = rotr 2 a XOR rotr 13 a XOR rotr 22 a;
          maj = (a AND b) XOR (a AND c) XOR (b AND c);
          t2 = s0 + maj
      in [t1 + t2, a, b, c, d + t1, e, f, g])"
| "sha256_round k w st = st"

definition sha256_compress :: "u32 list \<Rightarrow> bytes \<Rightarrow> u32 list" where
  "sha256_compress h block =
     (let w = sha256_schedule block;
          upd = fold (\<lambda>(k, w). sha256_round k w) (zip K256 w) h
      in map2 (+) h upd)"

record core256 =
  c256_h :: "u32 list"
  c256_buf :: bytes
  c256_buffered :: nat
  c256_len :: u64

definition core256_new :: "u32 list \<Rightarrow> core256" where
  "core256_new iv = \<lparr>c256_h = iv, c256_buf = replicate 64 0, c256_buffered = 0, c256_len = 0\<rparr>"

definition core256_update :: "bytes \<Rightarrow> core256 \<Rightarrow> core256" where
  "core256_update data s =
     (case absorb 64 sha256_compress data (c256_h s, c256_buf s, c256_buffered s) of
        (h, buf, buffered) \<Rightarrow>
          \<lparr>c256_h = h, c256_buf = buf, c256_buffered = buffered,
           c256_len = c256_len s + of_nat (length data)\<rparr>)"

definition core256_finalize :: "core256 \<Rightarrow> u32 list" where
  "core256_finalize s =
     (let bit_len = c256_len s * 8;
          n = c256_buffered s;
          buf = (c256_buf s)[n := 0x80];
          buf = take (n + 1) buf @ replicate (64 - (n + 1)) 0;
          (h, buf) = (if 56 \<le> n then (sha256_compress (c256_h s) buf, replicate 64 0) else (c256_h s, buf));
          buf = write_at 56 (be_of_word 8 bit_len) buf
      in sha256_compress h buf)"

definition sha2_32_finalize :: "nat \<Rightarrow> core256 \<Rightarrow> bytes" where
  "sha2_32_finalize out_len s =
     (let h = core256_finalize s; full = concat (map (be_of_word 4) h) in take out_len full)"

definition sha2_32 :: "u32 list \<Rightarrow> nat \<Rightarrow> core256 digest_ops" where
  "sha2_32 iv out_len =
     \<lparr>digest_new = core256_new iv, digest_update = core256_update,
      digest_finalize = sha2_32_finalize out_len, OUTPUT_LEN = out_len, BLOCK_LEN = 64\<rparr>"

definition SHA224_IV :: "u32 list" where
  "SHA224_IV = [
     0xc1059ed8, 0x367cd507, 0x3070dd17, 0xf70e5939,
     0xffc00b31, 0x68581511, 0x64f98fa7, 0xbefa4fa4]"

definition SHA256_IV :: "u32 list" where
  "SHA256_IV = [
     0x6a09e667, 0xbb67ae85, 0x3c6ef372, 0xa54ff53a,
     0x510e527f, 0x9b05688c, 0x1f83d9ab, 0x5be0cd19]"

definition sha224 :: "core256 digest_ops" where "sha224 = sha2_32 SHA224_IV 28"
definition sha256 :: "core256 digest_ops" where "sha256 = sha2_32 SHA256_IV 32"

section \<open>The 64-bit core\<close>

definition K512 :: "u64 list" where
  "K512 = [
     0x428a2f98d728ae22, 0x7137449123ef65cd, 0xb5c0fbcfec4d3b2f, 0xe9b5dba58189dbbc,
     0x3956c25bf348b538, 0x59f111f1b605d019, 0x923f82a4af194f9b, 0xab1c5ed5da6d8118,
     0xd807aa98a3030242, 0x12835b0145706fbe, 0x243185be4ee4b28c, 0x550c7dc3d5ffb4e2,
     0x72be5d74f27b896f, 0x80deb1fe3b1696b1, 0x9bdc06a725c71235, 0xc19bf174cf692694,
     0xe49b69c19ef14ad2, 0xefbe4786384f25e3, 0x0fc19dc68b8cd5b5, 0x240ca1cc77ac9c65,
     0x2de92c6f592b0275, 0x4a7484aa6ea6e483, 0x5cb0a9dcbd41fbd4, 0x76f988da831153b5,
     0x983e5152ee66dfab, 0xa831c66d2db43210, 0xb00327c898fb213f, 0xbf597fc7beef0ee4,
     0xc6e00bf33da88fc2, 0xd5a79147930aa725, 0x06ca6351e003826f, 0x142929670a0e6e70,
     0x27b70a8546d22ffc, 0x2e1b21385c26c926, 0x4d2c6dfc5ac42aed, 0x53380d139d95b3df,
     0x650a73548baf63de, 0x766a0abb3c77b2a8, 0x81c2c92e47edaee6, 0x92722c851482353b,
     0xa2bfe8a14cf10364, 0xa81a664bbc423001, 0xc24b8b70d0f89791, 0xc76c51a30654be30,
     0xd192e819d6ef5218, 0xd69906245565a910, 0xf40e35855771202a, 0x106aa07032bbd1b8,
     0x19a4c116b8d2d0c8, 0x1e376c085141ab53, 0x2748774cdf8eeb99, 0x34b0bcb5e19b48a8,
     0x391c0cb3c5c95a63, 0x4ed8aa4ae3418acb, 0x5b9cca4f7763e373, 0x682e6ff3d6b2b8a3,
     0x748f82ee5defb2fc, 0x78a5636f43172f60, 0x84c87814a1f0ab72, 0x8cc702081a6439ec,
     0x90befffa23631e28, 0xa4506cebde82bde9, 0xbef9a3f7b2c67915, 0xc67178f2e372532b,
     0xca273eceea26619c, 0xd186b8c721c0c207, 0xeada7dd6cde0eb1e, 0xf57d4f7fee6ed178,
     0x06f067aa72176fba, 0x0a637dc5a2c898a6, 0x113f9804bef90dae, 0x1b710b35131c471b,
     0x28db77f523047d84, 0x32caab7b40c72493, 0x3c9ebe0a15c9bebc, 0x431d67c49c100d4c,
     0x4cc5d4becb3e42b6, 0x597f299cfc657e2a, 0x5fcb6fab3ad6faec, 0x6c44198c4a475817]"

definition sha512_schedule_step :: "nat \<Rightarrow> u64 list \<Rightarrow> u64 list" where
  "sha512_schedule_step i w =
     (let s0 = rotr 1 (w ! (i - 15)) XOR rotr 8 (w ! (i - 15)) XOR drop_bit 7 (w ! (i - 15));
          s1 = rotr 19 (w ! (i - 2)) XOR rotr 61 (w ! (i - 2)) XOR drop_bit 6 (w ! (i - 2))
      in w @ [w ! (i - 16) + s0 + w ! (i - 7) + s1])"

definition sha512_schedule :: "bytes \<Rightarrow> u64 list" where
  "sha512_schedule block =
     fold sha512_schedule_step [16..<80] (map (\<lambda>i. word_of_be (slice (i * 8) 8 block)) [0..<16])"

fun sha512_round :: "u64 \<Rightarrow> u64 \<Rightarrow> u64 list \<Rightarrow> u64 list" where
  "sha512_round k w [a, b, c, d, e, f, g, hh] =
     (let s1 = rotr 14 e XOR rotr 18 e XOR rotr 41 e;
          ch = (e AND f) XOR (NOT e AND g);
          t1 = hh + s1 + ch + k + w;
          s0 = rotr 28 a XOR rotr 34 a XOR rotr 39 a;
          maj = (a AND b) XOR (a AND c) XOR (b AND c);
          t2 = s0 + maj
      in [t1 + t2, a, b, c, d + t1, e, f, g])"
| "sha512_round k w st = st"

definition sha512_compress :: "u64 list \<Rightarrow> bytes \<Rightarrow> u64 list" where
  "sha512_compress h block =
     (let w = sha512_schedule block;
          upd = fold (\<lambda>(k, w). sha512_round k w) (zip K512 w) h
      in map2 (+) h upd)"

record core512 =
  c512_h :: "u64 list"
  c512_buf :: bytes
  c512_buffered :: nat
  c512_len :: u128

definition core512_new :: "u64 list \<Rightarrow> core512" where
  "core512_new iv = \<lparr>c512_h = iv, c512_buf = replicate 128 0, c512_buffered = 0, c512_len = 0\<rparr>"

definition core512_update :: "bytes \<Rightarrow> core512 \<Rightarrow> core512" where
  "core512_update data s =
     (case absorb 128 sha512_compress data (c512_h s, c512_buf s, c512_buffered s) of
        (h, buf, buffered) \<Rightarrow>
          \<lparr>c512_h = h, c512_buf = buf, c512_buffered = buffered,
           c512_len = c512_len s + of_nat (length data)\<rparr>)"

text \<open>The padding is built in an array of its own and goes through \<open>update\<close>.\<close>

definition core512_finalize :: "core512 \<Rightarrow> u64 list" where
  "core512_finalize s =
     (let bit_len = c512_len s * 8;
          pad = (replicate 145 0)[0 := 0x80];
          zeros = (111 + 128 - c512_buffered s mod 128) mod 128;
          pad = write_at (1 + zeros) (be_of_word 16 bit_len) pad
      in c512_h (core512_update (take (1 + zeros + 16) pad) s))"

definition sha2_64_finalize :: "nat \<Rightarrow> core512 \<Rightarrow> bytes" where
  "sha2_64_finalize out_len s =
     (let h = core512_finalize s; full = concat (map (be_of_word 8) h) in take out_len full)"

definition sha2_64 :: "u64 list \<Rightarrow> nat \<Rightarrow> core512 digest_ops" where
  "sha2_64 iv out_len =
     \<lparr>digest_new = core512_new iv, digest_update = core512_update,
      digest_finalize = sha2_64_finalize out_len, OUTPUT_LEN = out_len, BLOCK_LEN = 128\<rparr>"

definition SHA384_IV :: "u64 list" where
  "SHA384_IV = [
     0xcbbb9d5dc1059ed8, 0x629a292a367cd507, 0x9159015a3070dd17, 0x152fecd8f70e5939,
     0x67332667ffc00b31, 0x8eb44a8768581511, 0xdb0c2e0d64f98fa7, 0x47b5481dbefa4fa4]"

definition SHA512_IV :: "u64 list" where
  "SHA512_IV = [
     0x6a09e667f3bcc908, 0xbb67ae8584caa73b, 0x3c6ef372fe94f82b, 0xa54ff53a5f1d36f1,
     0x510e527fade682d1, 0x9b05688c2b3e6c1f, 0x1f83d9abfb41bd6b, 0x5be0cd19137e2179]"

definition SHA512_224_IV :: "u64 list" where
  "SHA512_224_IV = [
     0x8c3d37c819544da2, 0x73e1996689dcd4d6, 0x1dfab7ae32ff9c82, 0x679dd514582f9fcf,
     0x0f6d2b697bd44da8, 0x77e36f7304c48942, 0x3f9d85a86a1d36c8, 0x1112e6ad91d692a1]"

definition SHA512_256_IV :: "u64 list" where
  "SHA512_256_IV = [
     0x22312194fc2bf72c, 0x9f555fa3c84c64c2, 0x2393b86b6f53b151, 0x963877195940eabd,
     0x96283ee2a88effe3, 0xbe5e1e2553863992, 0x2b0199fc2c85b8aa, 0x0eb72ddc81c52ca2]"

definition sha384 :: "core512 digest_ops" where "sha384 = sha2_64 SHA384_IV 48"
definition sha512 :: "core512 digest_ops" where "sha512 = sha2_64 SHA512_IV 64"
definition sha512_224 :: "core512 digest_ops" where "sha512_224 = sha2_64 SHA512_224_IV 28"
definition sha512_256 :: "core512 digest_ops" where "sha512_256 = sha2_64 SHA512_256_IV 32"

section \<open>The standard's description\<close>

text \<open>
  FIPS 180-4: append one bit, zeros, and the length in bits, then run the compression
  over the blocks of the result.
\<close>

definition sha2_pad32 :: "bytes \<Rightarrow> bytes" where
  "sha2_pad32 m = m @ [0x80] @ replicate ((119 - length m mod 64) mod 64) 0
     @ be_of_word 8 (of_nat (8 * length m) :: u64)"

definition sha2_pad64 :: "bytes \<Rightarrow> bytes" where
  "sha2_pad64 m = m @ [0x80] @ replicate ((239 - length m mod 128) mod 128) 0
     @ be_of_word 16 (of_nat (8 * length m) :: u128)"

definition sha2_32_spec :: "u32 list \<Rightarrow> nat \<Rightarrow> bytes \<Rightarrow> bytes" where
  "sha2_32_spec iv out_len m =
     take out_len (concat (map (be_of_word 4) (chain 64 sha256_compress iv (sha2_pad32 m))))"

definition sha2_64_spec :: "u64 list \<Rightarrow> nat \<Rightarrow> bytes \<Rightarrow> bytes" where
  "sha2_64_spec iv out_len m =
     take out_len (concat (map (be_of_word 8) (chain 128 sha512_compress iv (sha2_pad64 m))))"

section \<open>The cores compute the standard's function\<close>

definition core256_absorbed :: "u32 list \<Rightarrow> core256 \<Rightarrow> bytes \<Rightarrow> bool" where
  "core256_absorbed iv s m \<longleftrightarrow>
     holds 64 sha256_compress iv m (c256_h s, c256_buf s, c256_buffered s)
   \<and> c256_len s = of_nat (length m)"

definition core512_absorbed :: "u64 list \<Rightarrow> core512 \<Rightarrow> bytes \<Rightarrow> bool" where
  "core512_absorbed iv s m \<longleftrightarrow>
     holds 128 sha512_compress iv m (c512_h s, c512_buf s, c512_buffered s)
   \<and> c512_len s = of_nat (length m)"

lemma core256_new_absorbed: "core256_absorbed iv (core256_new iv) []"
  by (simp add: core256_absorbed_def core256_new_def holds_start)

lemma core512_new_absorbed: "core512_absorbed iv (core512_new iv) []"
  by (simp add: core512_absorbed_def core512_new_def holds_start)

lemma core256_update_absorbed:
  "core256_absorbed iv s m \<Longrightarrow> core256_absorbed iv (core256_update data s) (m @ data)"
  using absorb_holds [of 64 sha256_compress iv m "(c256_h s, c256_buf s, c256_buffered s)" data]
  by (auto simp: core256_absorbed_def core256_update_def split: prod.split)

lemma core512_update_absorbed:
  "core512_absorbed iv s m \<Longrightarrow> core512_absorbed iv (core512_update data s) (m @ data)"
  using absorb_holds [of 128 sha512_compress iv m "(c512_h s, c512_buf s, c512_buffered s)" data]
  by (auto simp: core512_absorbed_def core512_update_def split: prod.split)

lemma mult_div_le_length: "length m div k * k \<le> length m"
  by simp

lemma core256_finalize_spec:
  assumes "core256_absorbed iv s m"
  shows "core256_finalize s = chain 64 sha256_compress iv (sha2_pad32 m)"
proof -
  let ?n = "c256_buffered s" and ?w = "length m div 64 * 64"
  let ?whole = "take ?w m" and ?rest = "drop ?w m"
  let ?len = "be_of_word 8 (of_nat (8 * length m) :: u64)"
  have holds: "holds 64 sha256_compress iv m (c256_h s, c256_buf s, ?n)"
    and len: "c256_len s * 8 = of_nat (8 * length m)"
    using assms by (simp_all add: core256_absorbed_def mult.commute)
  have "(0 :: nat) < 64" by simp
  note h = holdsE [OF holds this]
  have lr: "length ?rest = ?n" by (simp add: h(1) minus_div_mult_eq_mod)
  have lw: "length ?whole mod 64 = 0" by simp
  have n: "?n < 64" by (simp add: h(1))
  have buf: "take (?n + 1) ((c256_buf s)[?n := 0x80]) = ?rest @ [0x80]"
    using h(2,4) n by (simp add: take_Suc_conv_app_nth)
  have pad: "sha2_pad32 m = ?whole @ ?rest @ [0x80] @ replicate ((119 - ?n) mod 64) 0 @ ?len"
    by (simp add: sha2_pad32_def h(1))
  show ?thesis
  proof (cases "56 \<le> ?n")
    case False
    let ?b = "?rest @ [0x80] @ replicate (55 - ?n) 0 @ ?len"
    have z: "(119 - ?n) mod 64 = 55 - ?n" using False by (simp add: mod_if)
    have "write_at 56 ?len (?rest @ [0x80] @ replicate (64 - (?n + 1)) 0) = ?b"
    proof -
      have "replicate (64 - (?n + 1)) (0 :: u8) = replicate (55 - ?n) 0 @ replicate 8 0"
        using False by (simp flip: replicate_add)
      then show ?thesis
        using write_at_append [of "?rest @ [0x80] @ replicate (55 - ?n) 0" 56 ?len "replicate 8 0"] lr False
        by simp
    qed
    then have "core256_finalize s = sha256_compress (c256_h s) ?b"
      using False buf by (simp add: core256_finalize_def Let_def len)
    moreover have "length ?b = 64" using lr False by simp
    ultimately show ?thesis
      unfolding pad z using h(3) lw chain_block [of ?b 64 sha256_compress] by (simp add: chain_append)
  next
    case True
    let ?b = "?rest @ [0x80] @ replicate (63 - ?n) 0" and ?c = "replicate 56 0 @ ?len"
    have z: "(119 - ?n) mod 64 = (63 - ?n) + 56" using True n by (simp add: mod_if)
    have "write_at 56 ?len (replicate 64 0) = ?c"
      using write_at_append [of "replicate 56 0" 56 ?len "replicate 8 0"]
      by (simp add: replicate_add [of 56 8, simplified])
    then have "core256_finalize s = sha256_compress (sha256_compress (c256_h s) ?b) ?c"
      using True buf by (simp add: core256_finalize_def Let_def len)
    moreover have "length ?b = 64" "length ?c = 64" using lr True n by simp_all
    ultimately show ?thesis
      unfolding pad z replicate_add
      using h(3) lw chain_block [of ?b 64 sha256_compress] chain_block [of ?c 64 sha256_compress]
        chain_append [of 64 ?b sha256_compress _ ?c]
      by (simp add: chain_append)
  qed
qed

lemma core512_finalize_spec:
  assumes "core512_absorbed iv s m"
  shows "core512_finalize s = chain 128 sha512_compress iv (sha2_pad64 m)"
proof -
  let ?n = "c512_buffered s" and ?len = "be_of_word 16 (of_nat (8 * length m) :: u128)"
  have holds: "holds 128 sha512_compress iv m (c512_h s, c512_buf s, ?n)"
    and len: "c512_len s * 8 = of_nat (8 * length m)"
    using assms by (simp_all add: core512_absorbed_def mult.commute)
  have n: "?n = length m mod 128" using holdsE(1) [OF holds] by simp
  let ?z = "(239 - ?n) mod 128"
  let ?pad = "[0x80] @ replicate ?z 0 @ ?len"
  have zle: "?z \<le> 127" by (simp add: less_Suc_eq_le [symmetric])
  have r: "replicate 144 (0 :: u8) = replicate ?z 0 @ replicate (144 - ?z) 0"
    using zle by (simp flip: replicate_add)
  have "write_at (1 + ?z) ?len ([0x80] @ replicate 144 0) = ?pad @ drop 16 (replicate (144 - ?z) 0)"
    unfolding r using write_at_append [of "[0x80] @ replicate ?z 0" "1 + ?z" ?len "replicate (144 - ?z) 0"] by simp
  moreover have "(replicate 145 (0 :: u8))[0 := 0x80] = [0x80] @ replicate 144 0"
    by (simp add: numeral_eq_Suc)
  moreover have "take (1 + ?z + 16) (?pad @ drop 16 (replicate (144 - ?z) 0)) = ?pad"
    by (simp only: take_append length_append length_replicate length_word_bytes) simp
  ultimately have fin: "core512_finalize s = c512_h (core512_update ?pad s)"
    using n by (simp only: core512_finalize_def Let_def len) (simp only: mod_mod_trivial numeral_plus_numeral add_num_simps)
  have "m @ ?pad = sha2_pad64 m" by (simp add: sha2_pad64_def n)
  then have "core512_absorbed iv (core512_update ?pad s) (sha2_pad64 m)"
    using core512_update_absorbed [OF assms, of ?pad] by (simp only:)
  note f = fin this
  have "length (sha2_pad64 m) mod 128 = 0"
  proof -
    have "(n + (17 + (239 - n) mod 128)) mod 128 = 0" if "n < 128" for n :: nat
    proof (cases "n \<le> 111")
      case True
      then have e: "239 - n = (111 - n) + 128" by arith
      have "(239 - n) mod 128 = 111 - n"
        unfolding e mod_add_self2 by (rule mod_less) arith
      then have "n + (17 + (239 - n) mod 128) = 128" using True by arith
      then show ?thesis by (simp only: mod_self)
    next
      case False
      then have "(239 - n) mod 128 = 239 - n" using that by (intro mod_less) arith
      then have "n + (17 + (239 - n) mod 128) = 2 * 128" using that by arith
      then show ?thesis by (simp only: mod_mult_self2_is_0)
    qed
    then have "(length m mod 128 + (17 + (239 - length m mod 128) mod 128)) mod 128 = 0"
      by simp
    then show ?thesis by (simp add: sha2_pad64_def mod_simps add.assoc)
  qed
  moreover have "holds 128 sha512_compress iv (sha2_pad64 m)
      (c512_h (core512_update ?pad s), c512_buf (core512_update ?pad s), c512_buffered (core512_update ?pad s))"
    using f(2) by (simp add: core512_absorbed_def)
  ultimately show ?thesis
    unfolding f(1) by (subst holdsE(3)) (auto simp: minus_mod_eq_div_mult [symmetric])
qed

lemma length_sha256_round: "length st = 8 \<Longrightarrow> length (sha256_round k w st) = 8"
  by (induction k w st rule: sha256_round.induct) (simp_all add: Let_def)

lemma length_sha512_round: "length st = 8 \<Longrightarrow> length (sha512_round k w st) = 8"
  by (induction k w st rule: sha512_round.induct) (simp_all add: Let_def)

lemma length_sha256_rounds:
  "length st = 8 \<Longrightarrow> length (fold (\<lambda>(k, w). sha256_round k w) kws st) = 8"
  by (induction kws arbitrary: st) (auto simp: length_sha256_round)

lemma length_sha512_rounds:
  "length st = 8 \<Longrightarrow> length (fold (\<lambda>(k, w). sha512_round k w) kws st) = 8"
  by (induction kws arbitrary: st) (auto simp: length_sha512_round)

lemma length_chain256: "length iv = 8 \<Longrightarrow> length (chain 64 sha256_compress iv m) = 8"
  by (rule chain_invariant) (simp_all add: sha256_compress_def Let_def length_sha256_rounds)

lemma length_chain512: "length iv = 8 \<Longrightarrow> length (chain 128 sha512_compress iv m) = 8"
  by (rule chain_invariant) (simp_all add: sha512_compress_def Let_def length_sha512_rounds)

lemma length_concat_same: "(\<And>x. length (f x) = k) \<Longrightarrow> length (concat (map f xs)) = length xs * k"
  by (induction xs) simp_all

lemma sha2_32_digest:
  assumes "length iv = 8" "0 < n" "n \<le> 32"
  shows "digest (sha2_32 iv n) (core256_absorbed iv) (sha2_32_spec iv n)"
  using assms
  by unfold_locales
     (simp_all add: sha2_32_def core256_new_absorbed core256_update_absorbed sha2_32_finalize_def
        core256_finalize_spec sha2_32_spec_def length_chain256 length_concat_same [where k = 4])

lemma sha2_64_digest:
  assumes "length iv = 8" "0 < n" "n \<le> 64"
  shows "digest (sha2_64 iv n) (core512_absorbed iv) (sha2_64_spec iv n)"
  using assms
  by unfold_locales
     (simp_all add: sha2_64_def core512_new_absorbed core512_update_absorbed sha2_64_finalize_def
        core512_finalize_spec sha2_64_spec_def length_chain512 length_concat_same [where k = 8])

interpretation sha224: digest sha224 "core256_absorbed SHA224_IV" "sha2_32_spec SHA224_IV 28"
  unfolding sha224_def by (rule sha2_32_digest) (simp_all add: SHA224_IV_def)

interpretation sha256: digest sha256 "core256_absorbed SHA256_IV" "sha2_32_spec SHA256_IV 32"
  unfolding sha256_def by (rule sha2_32_digest) (simp_all add: SHA256_IV_def)

interpretation sha384: digest sha384 "core512_absorbed SHA384_IV" "sha2_64_spec SHA384_IV 48"
  unfolding sha384_def by (rule sha2_64_digest) (simp_all add: SHA384_IV_def)

interpretation sha512: digest sha512 "core512_absorbed SHA512_IV" "sha2_64_spec SHA512_IV 64"
  unfolding sha512_def by (rule sha2_64_digest) (simp_all add: SHA512_IV_def)

interpretation sha512_224: digest sha512_224 "core512_absorbed SHA512_224_IV" "sha2_64_spec SHA512_224_IV 28"
  unfolding sha512_224_def by (rule sha2_64_digest) (simp_all add: SHA512_224_IV_def)

interpretation sha512_256: digest sha512_256 "core512_absorbed SHA512_256_IV" "sha2_64_spec SHA512_256_IV 32"
  unfolding sha512_256_def by (rule sha2_64_digest) (simp_all add: SHA512_256_IV_def)

end
