(* ===== verification/Mac_Hmac.thy ===== *)
theory Mac_Hmac
  imports Hash_Sha2
begin

text \<open>
  HMAC over any hash function: \<open>crates/ic-mac/src/hmac.rs\<close>. The keyed states, the
  streaming code and the one-pass code are each shown to compute the standard's
  function for every digest that keeps the contract, and the instances over SHA-2
  are message authentication codes in the sense of the contract. The hardware
  one-pass routines some digests offer answer \<open>None\<close> here, which is the generic path.
\<close>

section \<open>The code\<close>

definition MAX_BLOCK_LEN :: nat where "MAX_BLOCK_LEN = 144"

text \<open>XOR a slice into the front of a block, as far as the shorter of the two goes.\<close>

definition xor_into :: "bytes \<Rightarrow> bytes \<Rightarrow> bytes" where
  "xor_into ks block = map2 (XOR) block ks @ drop (length ks) block"

record 's hmac =
  hmac_inner :: 's
  hmac_outer :: 's

definition xor_hashed_key :: "'s digest_ops \<Rightarrow> bytes \<Rightarrow> bytes \<Rightarrow> bytes" where
  "xor_hashed_key D key block = xor_into (digest_digest D key) block"

definition hmac_absorb_pads :: "'s digest_ops \<Rightarrow> bytes \<Rightarrow> 's hmac \<Rightarrow> 's hmac" where
  "hmac_absorb_pads D key h =
     (let block = take (BLOCK_LEN D) (replicate MAX_BLOCK_LEN 0x36);
          block = (if BLOCK_LEN D < length key then xor_hashed_key D key block else xor_into key block);
          inner = digest_update D block (hmac_inner h);
          block = map (\<lambda>p. p XOR (0x36 XOR 0x5c)) block;
          outer = digest_update D block (hmac_outer h)
      in \<lparr>hmac_inner = inner, hmac_outer = outer\<rparr>)"

definition hmac_keyed :: "'s digest_ops \<Rightarrow> bytes \<Rightarrow> 's hmac" where
  "hmac_keyed D key = hmac_absorb_pads D key \<lparr>hmac_inner = digest_new D, hmac_outer = digest_new D\<rparr>"

definition hmac_tag :: "'s digest_ops \<Rightarrow> 's hmac \<Rightarrow> bytes" where
  "hmac_tag D h =
     (let inner_digest = digest_finalize D (hmac_inner h);
          outer = digest_update D inner_digest (hmac_outer h)
      in digest_finalize D outer)"

definition hmac_one_shot :: "'s digest_ops \<Rightarrow> bytes \<Rightarrow> bytes \<Rightarrow> bytes" where
  "hmac_one_shot D key data =
     (let block = take (BLOCK_LEN D) (replicate MAX_BLOCK_LEN 0x36);
          block = (if BLOCK_LEN D < length key then xor_hashed_key D key block else xor_into key block);
          inner = digest_update D block (digest_new D);
          block = map (\<lambda>p. p XOR (0x36 XOR 0x5c)) block;
          outer = digest_update D block (digest_new D);
          inner = digest_update D data inner;
          inner_digest = digest_finalize D inner;
          outer = digest_update D inner_digest outer
      in digest_finalize D outer)"

definition hmac_new :: "'s digest_ops \<Rightarrow> module_state \<Rightarrow> bytes \<Rightarrow> 's hmac result" where
  "hmac_new D m key = bind_result (operational m) (\<lambda>_.
     if BLOCK_LEN D \<le> MAX_BLOCK_LEN then Ok (hmac_keyed D key)
     else Err InvalidParameter ''digest block exceeds hmac buffer'')"

definition hmac_update :: "'s digest_ops \<Rightarrow> bytes \<Rightarrow> 's hmac \<Rightarrow> 's hmac" where
  "hmac_update D data h = h\<lparr>hmac_inner := digest_update D data (hmac_inner h)\<rparr>"

definition hmac_mac :: "'s digest_ops \<Rightarrow> module_state \<Rightarrow> bytes \<Rightarrow> bytes \<Rightarrow> bytes result" where
  "hmac_mac D m key data = bind_result (operational m) (\<lambda>_.
     if BLOCK_LEN D \<le> MAX_BLOCK_LEN then Ok (hmac_one_shot D key data)
     else Err InvalidParameter ''digest block exceeds hmac buffer'')"

definition hmac_ops :: "'s digest_ops \<Rightarrow> 's hmac mac_ops" where
  "hmac_ops D =
     \<lparr>mac_new = hmac_new D, mac_update = hmac_update D, mac_finalize = hmac_tag D,
      mac_mac = hmac_mac D, TAG_LEN = OUTPUT_LEN D\<rparr>"

definition HmacSha256 :: "core256 hmac mac_ops" where "HmacSha256 = hmac_ops sha256"
definition HmacSha384 :: "core512 hmac mac_ops" where "HmacSha384 = hmac_ops sha384"
definition HmacSha512 :: "core512 hmac mac_ops" where "HmacSha512 = hmac_ops sha512"
definition HmacSha512_256 :: "core512 hmac mac_ops" where "HmacSha512_256 = hmac_ops sha512_256"

section \<open>The standard's function\<close>

text \<open>FIPS 198-1, for a hash \<open>H\<close> of blocks of \<open>B\<close> bytes.\<close>

definition hmac_key0 :: "(bytes \<Rightarrow> bytes) \<Rightarrow> nat \<Rightarrow> bytes \<Rightarrow> bytes" where
  "hmac_key0 H B key =
     (let k = (if B < length key then H key else key) in k @ replicate (B - length k) 0)"

definition hmac_spec :: "(bytes \<Rightarrow> bytes) \<Rightarrow> nat \<Rightarrow> bytes \<Rightarrow> bytes \<Rightarrow> bytes" where
  "hmac_spec H B key m =
     H (map (\<lambda>k. k XOR 0x5c) (hmac_key0 H B key)
        @ H (map (\<lambda>k. k XOR 0x36) (hmac_key0 H B key) @ m))"

lemma xor_into_replicate:
  "length ks \<le> n \<Longrightarrow> xor_into ks (replicate n c) = map (\<lambda>k. k XOR c) (ks @ replicate (n - length ks) 0)"
proof (induction ks arbitrary: n)
  case (Cons k ks)
  then show ?case by (cases n) (simp_all add: xor_into_def xor.commute)
qed (simp add: xor_into_def)

lemma map_xor_pads: "map (\<lambda>p. p XOR (0x36 XOR 0x5c)) (map (\<lambda>k. k XOR 0x36) ks) = map (\<lambda>k. k XOR 0x5c) (ks :: bytes)"
proof -
  have "(k XOR 0x36) XOR (0x36 XOR 0x5c) = k XOR (0x5c :: u8)" for k
    by (metis word_xor_cancel_left xor.assoc)
  then show ?thesis by simp
qed

text \<open>The states of HMAC stand for a key and a message, for every digest of the contract.\<close>

context digest begin

definition hmac_holds :: "'s hmac \<Rightarrow> bytes \<Rightarrow> bytes \<Rightarrow> bool" where
  "hmac_holds h k d \<longleftrightarrow>
     absorbed (hmac_inner h) (map (\<lambda>k. k XOR 0x36) (hmac_key0 hash (BLOCK_LEN D) k) @ d)
   \<and> absorbed (hmac_outer h) (map (\<lambda>k. k XOR 0x5c) (hmac_key0 hash (BLOCK_LEN D) k))"

lemma hmac_block:
  "(if BLOCK_LEN D < length key then xor_hashed_key D key (take (BLOCK_LEN D) (replicate MAX_BLOCK_LEN 0x36))
    else xor_into key (take (BLOCK_LEN D) (replicate MAX_BLOCK_LEN 0x36)))
   = map (\<lambda>k. k XOR 0x36) (hmac_key0 hash (BLOCK_LEN D) key)"
  using block_bounds
  by (simp add: xor_hashed_key_def digest_hash hmac_key0_def xor_into_replicate MAX_BLOCK_LEN_def
      min_absorb1 Let_def del: map_append)

lemma hmac_keyed_holds: "hmac_holds (hmac_keyed D key) key []"
  unfolding hmac_keyed_def hmac_absorb_pads_def Let_def hmac_block map_xor_pads hmac_holds_def hmac.simps
  using update_absorbed [OF new_absorbed] by simp

lemma hmac_update_holds: "hmac_holds h k d \<Longrightarrow> hmac_holds (hmac_update D data h) k (d @ data)"
  using update_absorbed by (fastforce simp: hmac_holds_def hmac_update_def)

lemma hmac_tag_spec:
  assumes "hmac_holds h k d"
  shows "hmac_tag D h = hmac_spec hash (BLOCK_LEN D) k d"
proof -
  let ?key = "hmac_key0 hash (BLOCK_LEN D) k"
  have "digest_finalize D (hmac_inner h) = hash (map (\<lambda>k. k XOR 0x36) ?key @ d)"
    using assms finalize_hash unfolding hmac_holds_def by blast
  moreover have "digest_finalize D (digest_update D x (hmac_outer h)) = hash (map (\<lambda>k. k XOR 0x5c) ?key @ x)" for x
    using assms finalize_hash update_absorbed unfolding hmac_holds_def by blast
  ultimately show ?thesis by (simp add: hmac_tag_def hmac_spec_def)
qed

lemma hmac_one_shot_spec: "hmac_one_shot D k d = hmac_spec hash (BLOCK_LEN D) k d"
proof -
  have "hmac_one_shot D k d = hmac_tag D (hmac_update D d (hmac_keyed D k))"
    by (simp add: hmac_one_shot_def hmac_keyed_def hmac_absorb_pads_def hmac_update_def hmac_tag_def Let_def)
  also have "\<dots> = hmac_spec hash (BLOCK_LEN D) k d"
    using hmac_tag_spec [OF hmac_update_holds [OF hmac_keyed_holds]] by simp
  finally show ?thesis .
qed

lemma hmac_is_mac: "mac (hmac_ops D) (\<lambda>_. True) hmac_holds (hmac_spec hash (BLOCK_LEN D))"
  using output_bounds block_bounds
  by unfold_locales
     (auto simp: hmac_ops_def hmac_new_def hmac_mac_def MAX_BLOCK_LEN_def hmac_keyed_holds
        hmac_update_holds hmac_tag_spec hmac_one_shot_spec, simp add: hmac_spec_def)

end

abbreviation HMAC_SHA256 :: "bytes \<Rightarrow> bytes \<Rightarrow> bytes" where
  "HMAC_SHA256 \<equiv> hmac_spec (sha2_32_spec SHA256_IV 32) (BLOCK_LEN sha256)"

interpretation hmac_sha256: mac HmacSha256 "\<lambda>_. True" sha256.hmac_holds HMAC_SHA256
  unfolding HmacSha256_def by (rule sha256.hmac_is_mac)

interpretation hmac_sha384: mac HmacSha384 "\<lambda>_. True" sha384.hmac_holds
  "hmac_spec (sha2_64_spec SHA384_IV 48) (BLOCK_LEN sha384)"
  unfolding HmacSha384_def by (rule sha384.hmac_is_mac)

interpretation hmac_sha512: mac HmacSha512 "\<lambda>_. True" sha512.hmac_holds
  "hmac_spec (sha2_64_spec SHA512_IV 64) (BLOCK_LEN sha512)"
  unfolding HmacSha512_def by (rule sha512.hmac_is_mac)

interpretation hmac_sha512_256: mac HmacSha512_256 "\<lambda>_. True" sha512_256.hmac_holds
  "hmac_spec (sha2_64_spec SHA512_256_IV 32) (BLOCK_LEN sha512_256)"
  unfolding HmacSha512_256_def by (rule sha512_256.hmac_is_mac)

end
