(* ===== verification/Kdf.thy ===== *)
theory Kdf
  imports Mac_Hmac
begin

text \<open>
  Key derivation over any message authentication code: \<open>hkdf.rs\<close>, \<open>kbkdf.rs\<close> and
  \<open>pbkdf2.rs\<close> of \<open>crates/ic-kdf/src\<close>. The output buffer is part of the results; each
  loop over its chunks is a recursion over them, which stops where an error leaves
  the rest unwritten.
\<close>

section \<open>HKDF\<close>

definition MAX_PRK_LEN :: nat where "MAX_PRK_LEN = 64"

definition hkdf_extract ::
  "module_state \<Rightarrow> 's mac_ops \<Rightarrow> bytes \<Rightarrow> bytes \<Rightarrow> bytes \<Rightarrow> unit result \<times> bytes" where
  "hkdf_extract m M salt ikm prk =
     (case operational m of
        Inl e \<Rightarrow> (Inl e, prk)
      | Inr _ \<Rightarrow>
          if length prk \<noteq> TAG_LEN M then (Err InvalidLength ''hkdf prk buffer'', prk)
          else
            let salt = (if salt = [] then take (TAG_LEN M) (replicate MAX_PRK_LEN 0) else salt)
            in (case mac_mac M m salt ikm of
                  Inl e \<Rightarrow> (Inl e, prk)
                | Inr tag \<Rightarrow> (Ok (), tag)))"

fun hkdf_blocks ::
  "'s mac_ops \<Rightarrow> 's result \<Rightarrow> bytes \<Rightarrow> bytes list \<Rightarrow> bytes \<Rightarrow> u8 \<Rightarrow> unit result \<times> bytes list" where
  "hkdf_blocks M keyed info [] previous counter = (Ok (), [])"
| "hkdf_blocks M keyed info (chunk # rest) previous counter =
     (case keyed of
        Inl e \<Rightarrow> (Inl e, chunk # rest)
      | Inr s \<Rightarrow>
          let t = mac_finalize M (mac_update M [counter] (mac_update M info (mac_update M previous s)));
              (r, outs) = hkdf_blocks M keyed info rest t (counter + 1)
          in (r, take (length chunk) t # outs))"

definition hkdf_expand_with ::
  "'s mac_ops \<Rightarrow> 's result \<Rightarrow> bytes \<Rightarrow> bytes \<Rightarrow> unit result \<times> bytes" where
  "hkdf_expand_with M keyed info out =
     (let n = TAG_LEN M
      in if 255 * n < length out then (Err InvalidLength ''hkdf output exceeds 255*HashLen'', out)
         else (case hkdf_blocks M keyed info (chunks n out) [] 1 of (r, outs) \<Rightarrow> (r, concat outs)))"

definition hkdf_expand ::
  "module_state \<Rightarrow> 's mac_ops \<Rightarrow> bytes \<Rightarrow> bytes \<Rightarrow> bytes \<Rightarrow> unit result \<times> bytes" where
  "hkdf_expand m M prk info out =
     (case operational m of
        Inl e \<Rightarrow> (Inl e, out)
      | Inr _ \<Rightarrow>
          if length prk < TAG_LEN M then (Err InvalidLength ''hkdf prk too short'', out)
          else hkdf_expand_with M (mac_new M m prk) info out)"

definition hkdf_expand_from ::
  "module_state \<Rightarrow> 's mac_ops \<Rightarrow> 's \<Rightarrow> bytes \<Rightarrow> bytes \<Rightarrow> unit result \<times> bytes" where
  "hkdf_expand_from m M keyed info out =
     (case operational m of
        Inl e \<Rightarrow> (Inl e, out)
      | Inr _ \<Rightarrow> hkdf_expand_with M (Ok keyed) info out)"

definition hkdf_derive ::
  "module_state \<Rightarrow> 's mac_ops \<Rightarrow> bytes \<Rightarrow> bytes \<Rightarrow> bytes \<Rightarrow> bytes \<Rightarrow> unit result \<times> bytes" where
  "hkdf_derive m M secret salt info out =
     (case operational m of
        Inl e \<Rightarrow> (Inl e, out)
      | Inr _ \<Rightarrow>
          (case hkdf_extract m M salt secret (take (TAG_LEN M) (replicate MAX_PRK_LEN 0)) of
             (Inl e, _) \<Rightarrow> (Inl e, out)
           | (Inr _, prk) \<Rightarrow> hkdf_expand m M prk info out))"

text \<open>RFC 5869.\<close>

fun hkdf_T :: "(bytes \<Rightarrow> bytes \<Rightarrow> bytes) \<Rightarrow> bytes \<Rightarrow> bytes \<Rightarrow> nat \<Rightarrow> bytes" where
  "hkdf_T tag prk info 0 = []"
| "hkdf_T tag prk info (Suc i) = tag prk (hkdf_T tag prk info i @ info @ [of_nat (Suc i)])"

definition hkdf_okm :: "(bytes \<Rightarrow> bytes \<Rightarrow> bytes) \<Rightarrow> nat \<Rightarrow> bytes \<Rightarrow> bytes \<Rightarrow> nat \<Rightarrow> bytes" where
  "hkdf_okm tag n prk info L = take L (concat (map (hkdf_T tag prk info) [1..<Suc ((L + n - 1) div n)]))"

definition hkdf_prk :: "(bytes \<Rightarrow> bytes \<Rightarrow> bytes) \<Rightarrow> nat \<Rightarrow> bytes \<Rightarrow> bytes \<Rightarrow> bytes" where
  "hkdf_prk tag n salt ikm = tag (if salt = [] then replicate n 0 else salt) ikm"

section \<open>The counter-mode KDF of SP 800-108\<close>

definition KDF_MAX_TAG_LEN :: nat where "KDF_MAX_TAG_LEN = 64"

fun kbkdf_blocks ::
  "module_state \<Rightarrow> 's mac_ops \<Rightarrow> bytes \<Rightarrow> bytes \<Rightarrow> bytes \<Rightarrow> u32 \<Rightarrow> nat \<Rightarrow> bytes list \<Rightarrow> unit result \<times> bytes list" where
  "kbkdf_blocks m M key label context total_bits i [] = (Ok (), [])"
| "kbkdf_blocks m M key label context total_bits i (chunk # rest) =
     (let counter = (of_nat i :: u32) + 1
      in case mac_new M m key of
           Inl e \<Rightarrow> (Inl e, chunk # rest)
         | Inr s \<Rightarrow>
             let s = mac_update M (be_of_word 4 counter) s;
                 s = mac_update M label s;
                 s = mac_update M [0] s;
                 s = mac_update M context s;
                 s = mac_update M (be_of_word 4 total_bits) s;
                 t = mac_finalize M s;
                 (r, outs) = kbkdf_blocks m M key label context total_bits (i + 1) rest
             in (r, take (length chunk) t # outs))"

definition kbkdf_counter ::
  "module_state \<Rightarrow> 's mac_ops \<Rightarrow> bytes \<Rightarrow> bytes \<Rightarrow> bytes \<Rightarrow> bytes \<Rightarrow> unit result \<times> bytes" where
  "kbkdf_counter m M key label context out =
     (case operational m of
        Inl e \<Rightarrow> (Inl e, out)
      | Inr _ \<Rightarrow>
          if out = [] then (Err InvalidLength ''kbkdf output'', out)
          else if \<not> TAG_LEN M \<le> KDF_MAX_TAG_LEN then (Err InvalidParameter ''mac tag too wide'', out)
          else if 0 \<in> set label then (Err InvalidParameter ''kbkdf label must not contain a zero byte'', out)
          else if 2 ^ 32 \<le> int (length out) * 8 then (Err InvalidLength ''kbkdf output too long'', out)
          else
            let total_bits = of_nat (length out * 8);
                blocks = (length out + TAG_LEN M - 1) div TAG_LEN M
            in if 2 ^ 32 - 1 < int blocks then (Err CounterExhausted ''kbkdf counter'', out)
               else (case kbkdf_blocks m M key label context total_bits 0 (chunks (TAG_LEN M) out) of
                   (r, outs) \<Rightarrow> (r, concat outs)))"

text \<open>The input of the pseudorandom function for block \<open>i\<close>, and the output made of it.\<close>

definition kbkdf_input :: "nat \<Rightarrow> bytes \<Rightarrow> bytes \<Rightarrow> nat \<Rightarrow> bytes" where
  "kbkdf_input i label context L =
     be_of_word 4 (of_nat i :: u32) @ label @ [0] @ context @ be_of_word 4 (of_nat (8 * L) :: u32)"

definition kbkdf_okm ::
  "(bytes \<Rightarrow> bytes \<Rightarrow> bytes) \<Rightarrow> nat \<Rightarrow> bytes \<Rightarrow> bytes \<Rightarrow> bytes \<Rightarrow> nat \<Rightarrow> bytes" where
  "kbkdf_okm tag n key label context L =
     take L (concat (map (\<lambda>i. tag key (kbkdf_input (Suc i) label context L)) [0..<(L + n - 1) div n]))"

section \<open>PBKDF2\<close>

datatype iteration_verdict = Recommended | Weak | Unacceptable

definition PBKDF2_MIN_RECOMMENDED_ITERATIONS :: u32 where
  "PBKDF2_MIN_RECOMMENDED_ITERATIONS = 600000"

definition check_iterations :: "u32 \<Rightarrow> iteration_verdict" where
  "check_iterations iterations =
     (if iterations < 1000 then Unacceptable
      else if iterations < PBKDF2_MIN_RECOMMENDED_ITERATIONS then Weak
      else Recommended)"

definition pbkdf2_step :: "'s mac_ops \<Rightarrow> 's \<Rightarrow> bytes \<times> bytes \<Rightarrow> bytes \<times> bytes" where
  "pbkdf2_step M keyed st = (case st of (u, acc) \<Rightarrow>
     let u = mac_finalize M (mac_update M u keyed) in (u, map2 (XOR) acc u))"

definition pbkdf2_block :: "'s mac_ops \<Rightarrow> 's \<Rightarrow> bytes \<Rightarrow> u32 \<Rightarrow> u32 \<Rightarrow> bytes" where
  "pbkdf2_block M keyed salt iterations counter =
     (let t = mac_finalize M (mac_update M (be_of_word 4 counter) (mac_update M salt keyed))
      in snd ((pbkdf2_step M keyed ^^ (unat iterations - 1)) (t, t)))"

fun pbkdf2_blocks ::
  "'s mac_ops \<Rightarrow> 's \<Rightarrow> bytes \<Rightarrow> u32 \<Rightarrow> nat \<Rightarrow> bytes list \<Rightarrow> unit result \<times> bytes list" where
  "pbkdf2_blocks M keyed salt iterations block_index [] = (Ok (), [])"
| "pbkdf2_blocks M keyed salt iterations block_index (chunk # rest) =
     (if (of_nat block_index :: u32) = 0xffffffff
      then (Err CounterExhausted ''pbkdf2 block counter'', chunk # rest)
      else
        let counter = of_nat block_index + 1;
            acc = pbkdf2_block M keyed salt iterations counter;
            (r, outs) = pbkdf2_blocks M keyed salt iterations (block_index + 1) rest
        in (r, take (length chunk) acc # outs))"

definition pbkdf2_derive ::
  "module_state \<Rightarrow> 's mac_ops \<Rightarrow> bytes \<Rightarrow> bytes \<Rightarrow> u32 \<Rightarrow> bytes \<Rightarrow> unit result \<times> bytes" where
  "pbkdf2_derive m M password salt iterations out =
     (if iterations < 1 then (Err InvalidParameter ''pbkdf2 iterations'', out)
      else if out = [] then (Err InvalidLength ''pbkdf2 output'', out)
      else if \<not> TAG_LEN M \<le> KDF_MAX_TAG_LEN then (Err InvalidParameter ''mac tag too wide'', out)
      else (case mac_new M m password of
          Inl e \<Rightarrow> (Inl e, out)
        | Inr keyed \<Rightarrow>
            (case pbkdf2_blocks M keyed salt iterations 0 (chunks (TAG_LEN M) out) of
               (r, outs) \<Rightarrow> (r, concat outs))))"

definition pbkdf2 ::
  "module_state \<Rightarrow> 's mac_ops \<Rightarrow> bytes \<Rightarrow> bytes \<Rightarrow> u32 \<Rightarrow> bytes \<Rightarrow> unit result \<times> bytes" where
  "pbkdf2 m M password salt iterations out =
     (case operational m of
        Inl e \<Rightarrow> (Inl e, out)
      | Inr _ \<Rightarrow>
          if check_iterations iterations = Unacceptable
          then (Err InvalidParameter ''pbkdf2 iterations below the SP 800-132 minimum of 1000'', out)
          else if length salt < 16 then (Err InvalidParameter ''pbkdf2 salt must be >= 128 bits'', out)
          else pbkdf2_derive m M password salt iterations out)"

text \<open>RFC 8018: the exclusive or of the first \<open>c\<close> iterates.\<close>

fun pbkdf2_U :: "(bytes \<Rightarrow> bytes \<Rightarrow> bytes) \<Rightarrow> bytes \<Rightarrow> bytes \<Rightarrow> nat \<Rightarrow> nat \<Rightarrow> bytes" where
  "pbkdf2_U tag P S i 0 = tag P (S @ be_of_word 4 (of_nat i :: u32))"
| "pbkdf2_U tag P S i (Suc j) = tag P (pbkdf2_U tag P S i j)"

definition pbkdf2_F :: "(bytes \<Rightarrow> bytes \<Rightarrow> bytes) \<Rightarrow> bytes \<Rightarrow> bytes \<Rightarrow> nat \<Rightarrow> nat \<Rightarrow> bytes" where
  "pbkdf2_F tag P S c i =
     fold (\<lambda>j acc. map2 (XOR) acc (pbkdf2_U tag P S i j)) [1..<c] (pbkdf2_U tag P S i 0)"

definition pbkdf2_okm ::
  "(bytes \<Rightarrow> bytes \<Rightarrow> bytes) \<Rightarrow> nat \<Rightarrow> bytes \<Rightarrow> bytes \<Rightarrow> nat \<Rightarrow> nat \<Rightarrow> bytes" where
  "pbkdf2_okm tag n P S c L =
     take L (concat (map (\<lambda>i. pbkdf2_F tag P S c (Suc i)) [0..<(L + n - 1) div n]))"

section \<open>Chunks of an output\<close>

text \<open>
  Blocks of \<open>n\<close> bytes written into the chunks of a buffer, the last cut short, are a
  prefix of the blocks joined.
\<close>

definition fill_chunks :: "(nat \<Rightarrow> bytes) \<Rightarrow> nat \<Rightarrow> bytes list \<Rightarrow> bytes list" where
  "fill_chunks f k cs = map2 (\<lambda>c i. take (length c) (f i)) cs [k..<k + length cs]"

lemma fill_chunks_simps [simp]:
  "fill_chunks f k [] = []"
  "fill_chunks f k (c # cs) = take (length c) (f k) # fill_chunks f (Suc k) cs"
  by (simp_all add: fill_chunks_def upt_conv_Cons del: upt_Suc)

lemma concat_fill_chunks:
  assumes "0 < n" "\<And>i. length (f i) = n"
  shows "concat (fill_chunks f k (chunks n xs)) = take (length xs) (concat (map f [k..<k + length (chunks n xs)]))"
  using assms
proof (induction n xs arbitrary: k rule: chunks.induct)
  case (1 n xs)
  show ?case
  proof (cases "xs = []")
    case False
    let ?r = "chunks n (drop n xs)"
    have c: "chunks n xs = take n xs # ?r" using 1 False by (simp add: chunks_step)
    have u: "[k..<k + length (chunks n xs)] = k # [Suc k..<Suc k + length ?r]"
      by (simp add: c upt_conv_Cons del: upt_Suc)
    have "concat (fill_chunks f (Suc k) ?r) = take (length (drop n xs)) (concat (map f [Suc k..<Suc k + length ?r]))"
      by (rule "1.IH") (use 1 False in auto)
    moreover have "take (length (take n xs)) (f k) = take (length xs) (f k)"
      using 1(3) [of k] by (simp add: min_def)
    ultimately show ?thesis
      unfolding u using 1(3) [of k] by (simp add: c del: upt_Suc)
  qed simp
qed

lemma chunks_filled:
  assumes "0 < n" "\<And>i. length (f i) = n"
  shows "concat (fill_chunks f k (chunks n xs))
    = take (length xs) (concat (map f [k..<k + (length xs + n - 1) div n]))"
  using concat_fill_chunks [where f = f, OF assms] by (simp only: length_chunks [OF assms(1)])

section \<open>The derivations compute the standards' functions\<close>

lemma length_fold_xor:
  "length acc = n \<Longrightarrow> (\<And>j. length (f j) = n) \<Longrightarrow> length (fold (\<lambda>j acc. map2 (XOR) acc (f j)) js acc) = n"
  for f :: "nat \<Rightarrow> bytes"
  by (induction js arbitrary: acc) simp_all

context mac begin

lemma hkdf_T_length [simp]: "length (hkdf_T tag prk info (Suc i)) = TAG_LEN M"
  by simp

lemma hkdf_blocks_eq:
  assumes "keyed s prk []"
  shows "hkdf_blocks M (Inr s) info cs (hkdf_T tag prk info i) (of_nat (Suc i))
    = (Ok (), fill_chunks (\<lambda>j. hkdf_T tag prk info (Suc j)) i cs)"
proof (induction cs arbitrary: i)
  case (Cons c cs)
  have "mac_finalize M (fold (mac_update M) [hkdf_T tag prk info i, info, [of_nat (Suc i)]] s)
      = hkdf_T tag prk info (Suc i)"
    by (subst finalize_fold [OF assms]) simp
  then show ?case using Cons [of "Suc i"] by (simp add: Let_def add.commute)
qed simp

lemma hkdf_expand_with_eq:
  assumes "keyed s prk []"
  shows "hkdf_expand_with M (Inr s) info out =
    (if 255 * TAG_LEN M < length out then (Err InvalidLength ''hkdf output exceeds 255*HashLen'', out)
     else (Ok (), hkdf_okm tag (TAG_LEN M) prk info (length out)))"
proof -
  have "concat (fill_chunks (\<lambda>j. hkdf_T tag prk info (Suc j)) 0 (chunks (TAG_LEN M) out))
      = hkdf_okm tag (TAG_LEN M) prk info (length out)"
    using chunks_filled [of "TAG_LEN M" "\<lambda>j. hkdf_T tag prk info (Suc j)" 0 out] tag_bounds(1)
    by (simp add: hkdf_okm_def map_Suc_upt [symmetric] o_def del: map_Suc_upt upt_Suc hkdf_T.simps(2))
  then show ?thesis
    using hkdf_blocks_eq [OF assms, of info "chunks (TAG_LEN M) out" 0]
    by (simp add: hkdf_expand_with_def Let_def)
qed

lemma hkdf_extract_eq:
  assumes "operational m = Inr u" "valid_key (if salt = [] then replicate (TAG_LEN M) 0 else salt)"
    and "length prk = TAG_LEN M"
  shows "hkdf_extract m M salt ikm prk = (Ok (), hkdf_prk tag (TAG_LEN M) salt ikm)"
  using assms tag_bounds(2) mac_tag [OF assms(1,2)]
  by (auto simp: hkdf_extract_def hkdf_prk_def MAX_PRK_LEN_def min_absorb1 split: if_splits)

lemma hkdf_derive_eq:
  assumes "operational m = Inr u" "\<And>k. valid_key k"
  shows "hkdf_derive m M secret salt info out =
    (if 255 * TAG_LEN M < length out then (Err InvalidLength ''hkdf output exceeds 255*HashLen'', out)
     else (Ok (), hkdf_okm tag (TAG_LEN M) (hkdf_prk tag (TAG_LEN M) salt secret) info (length out)))"
proof -
  let ?prk = "hkdf_prk tag (TAG_LEN M) salt secret"
  have "hkdf_extract m M salt secret (take (TAG_LEN M) (replicate MAX_PRK_LEN 0)) = (Ok (), ?prk)"
    using tag_bounds(2) by (intro hkdf_extract_eq [OF assms]) (simp add: MAX_PRK_LEN_def)
  moreover obtain s where "mac_new M m ?prk = Inr s" "keyed s ?prk []"
    using new_cases [OF assms] .
  ultimately show ?thesis
    using assms(1) hkdf_expand_with_eq [of s ?prk info out]
    by (simp add: hkdf_derive_def hkdf_expand_def) (simp add: hkdf_prk_def)
qed

text \<open>Expanding from a keyed state kept by the caller is expanding from the key.\<close>

lemma hkdf_expand_from_eq:
  assumes "operational m = Inr u" "mac_new M m prk = Inr s" "TAG_LEN M \<le> length prk"
  shows "hkdf_expand_from m M s info out = hkdf_expand m M prk info out"
  using assms by (simp add: hkdf_expand_from_def hkdf_expand_def)

lemma kbkdf_blocks_eq:
  assumes "operational m = Inr u" "valid_key key"
  shows "kbkdf_blocks m M key label context (of_nat (L * 8)) i cs
    = (Ok (), fill_chunks (\<lambda>j. tag key (kbkdf_input (Suc j) label context L)) i cs)"
proof (induction cs arbitrary: i)
  case (Cons c cs)
  obtain s where s: "mac_new M m key = Inr s" "keyed s key []" by (rule new_cases [OF assms])
  have "mac_finalize M (fold (mac_update M)
      [be_of_word 4 (of_nat i + 1 :: u32), label, [0], context, be_of_word 4 (of_nat (L * 8) :: u32)] s)
      = tag key (kbkdf_input (Suc i) label context L)"
    by (subst finalize_fold [OF s(2)]) (simp add: kbkdf_input_def mult.commute add.commute)
  then show ?case using s(1) Cons [of "Suc i"] by (simp add: Let_def)
qed simp

lemma kbkdf_counter_eq:
  assumes "operational m = Inr u" "valid_key key" "out \<noteq> []" "0 \<notin> set label" "length out * 8 < 2 ^ 32"
  shows "kbkdf_counter m M key label context out =
    (Ok (), kbkdf_okm tag (TAG_LEN M) key label context (length out))"
proof -
  have l: "int (length out) * 8 < 2 ^ 32" using assms(5) by simp
  have "(length out + TAG_LEN M - 1) div TAG_LEN M \<le> length out"
    by (rule ceil_div_le [OF tag_bounds(1)])
  then have "\<not> 2 ^ 32 - 1 < int ((length out + TAG_LEN M - 1) div TAG_LEN M)" using l by simp
  moreover have "concat (fill_chunks (\<lambda>j. tag key (kbkdf_input (Suc j) label context (length out))) 0
      (chunks (TAG_LEN M) out)) = kbkdf_okm tag (TAG_LEN M) key label context (length out)"
    using chunks_filled [of "TAG_LEN M" "\<lambda>j. tag key (kbkdf_input (Suc j) label context (length out))" 0 out]
      tag_bounds(1) by (simp add: kbkdf_okm_def)
  ultimately show ?thesis
    using assms(1,3,4) l tag_bounds(2) kbkdf_blocks_eq [OF assms(1,2), of label "context" "length out" 0 "chunks (TAG_LEN M) out"]
    by (simp add: kbkdf_counter_def KDF_MAX_TAG_LEN_def Let_def)
qed

lemma pbkdf2_U_length [simp]: "length (pbkdf2_U tag P S i j) = TAG_LEN M"
  by (cases j) simp_all

lemma pbkdf2_steps:
  assumes "keyed s P []"
  shows "(pbkdf2_step M s ^^ k) (pbkdf2_U tag P S i 0, pbkdf2_U tag P S i 0)
    = (pbkdf2_U tag P S i k, pbkdf2_F tag P S (Suc k) i)"
proof (induction k)
  case (Suc k)
  have "mac_finalize M (mac_update M u s) = tag P u" for u
    using finalize_fold [OF assms, of "[u]"] by simp
  then show ?case using Suc by (simp add: pbkdf2_step_def pbkdf2_F_def Let_def)
qed (simp add: pbkdf2_F_def)

lemma pbkdf2_block_eq:
  assumes "keyed s P []" "1 \<le> c"
  shows "pbkdf2_block M s S c (of_nat i) = pbkdf2_F tag P S (unat c) i"
proof -
  have "mac_finalize M (fold (mac_update M) [S, be_of_word 4 (of_nat i :: u32)] s) = pbkdf2_U tag P S i 0"
    by (subst finalize_fold [OF assms(1)]) simp
  moreover have "Suc (unat c - 1) = unat c"
    using assms(2) by (simp add: word_le_nat_alt)
  ultimately show ?thesis
    using pbkdf2_steps [OF assms(1), of "unat c - 1" S i] by (simp add: pbkdf2_block_def Let_def)
qed

lemma pbkdf2_F_length [simp]: "length (pbkdf2_F tag P S c i) = TAG_LEN M"
  unfolding pbkdf2_F_def by (rule length_fold_xor) simp_all

lemma pbkdf2_blocks_eq:
  assumes "keyed s P []" "1 \<le> c" "i + length cs < 2 ^ 32"
  shows "pbkdf2_blocks M s S c i cs = (Ok (), fill_chunks (\<lambda>j. pbkdf2_F tag P S (unat c) (Suc j)) i cs)"
  using assms(3)
proof (induction cs arbitrary: i)
  case (Cons b cs)
  have "(of_nat i :: u32) \<noteq> 0xffffffff"
  proof
    assume "(of_nat i :: u32) = 0xffffffff"
    then have "unat (of_nat i :: u32) = unat (0xffffffff :: u32)" by simp
    then show False using Cons.prems by (simp add: unat_of_nat)
  qed
  moreover have "pbkdf2_block M s S c (of_nat i + 1) = pbkdf2_F tag P S (unat c) (Suc i)"
    using pbkdf2_block_eq [OF assms(1,2), of S "Suc i"] by (simp add: add.commute)
  ultimately show ?case using Cons.IH [of "Suc i"] Cons.prems by (simp add: Let_def)
qed simp

lemma pbkdf2_eq:
  assumes "operational m = Inr u" "valid_key P" "1000 \<le> c" "16 \<le> length S" "out \<noteq> []"
    and "length out < 2 ^ 32"
  shows "pbkdf2 m M P S c out = (Ok (), pbkdf2_okm tag (TAG_LEN M) P S (unat c) (length out))"
proof -
  obtain s where s: "mac_new M m P = Inr s" "keyed s P []" by (rule new_cases [OF assms(1,2)])
  have c1: "1 \<le> c" using assms(3) by (simp add: word_le_nat_alt)
  have "(length out + TAG_LEN M - 1) div TAG_LEN M \<le> length out"
    by (rule ceil_div_le [OF tag_bounds(1)])
  then have "0 + length (chunks (TAG_LEN M) out) < 2 ^ 32"
    using assms(6) by (simp only: length_chunks [OF tag_bounds(1)])
  note blocks = pbkdf2_blocks_eq [OF s(2) c1 this, of S]
  have "concat (fill_chunks (\<lambda>j. pbkdf2_F tag P S (unat c) (Suc j)) 0 (chunks (TAG_LEN M) out))
      = pbkdf2_okm tag (TAG_LEN M) P S (unat c) (length out)"
    using chunks_filled [of "TAG_LEN M" "\<lambda>j. pbkdf2_F tag P S (unat c) (Suc j)" 0 out] tag_bounds(1)
    by (simp add: pbkdf2_okm_def)
  then show ?thesis
    using assms c1 s blocks tag_bounds(2)
    by (simp add: pbkdf2_def pbkdf2_derive_def check_iterations_def KDF_MAX_TAG_LEN_def not_less [symmetric])
qed

end

section \<open>The label and the context are kept apart\<close>

lemma zero_separated:
  assumes "0 \<notin> set l" "0 \<notin> set l'" "l @ [0] @ c = l' @ [0] @ c'"
  shows "l = l' \<and> c = (c' :: bytes)"
proof -
  have "takeWhile (\<lambda>b. b \<noteq> 0) (l @ [0] @ c) = l" "takeWhile (\<lambda>b. b \<noteq> 0) (l' @ [0] @ c') = l'"
    using assms(1,2) by (subst takeWhile_append2; auto)+
  then have "l = l'" using assms(3) by metis
  then show ?thesis using assms(3) by simp
qed

lemma kbkdf_input_inj:
  assumes "0 \<notin> set l" "0 \<notin> set l'" "i < 2 ^ 32" "i' < 2 ^ 32" "8 * L < 2 ^ 32" "8 * L' < 2 ^ 32"
    and "kbkdf_input i l c L = kbkdf_input i' l' c' L'"
  shows "i = i' \<and> l = l' \<and> c = c' \<and> L = L'"
proof -
  have e: "be_of_word 4 (of_nat i :: u32) @ (l @ [0] @ c) @ be_of_word 4 (of_nat (8 * L) :: u32)
      = be_of_word 4 (of_nat i' :: u32) @ (l' @ [0] @ c') @ be_of_word 4 (of_nat (8 * L') :: u32)"
    using assms(7) unfolding kbkdf_input_def append_assoc .
  have h: "be_of_word 4 (of_nat i :: u32) = be_of_word 4 (of_nat i' :: u32)"
    and r: "(l @ [0] @ c) @ be_of_word 4 (of_nat (8 * L) :: u32) = (l' @ [0] @ c') @ be_of_word 4 (of_nat (8 * L') :: u32)"
    using e by (simp_all only: append_eq_append_conv length_word_bytes simp_thms)
  have m: "l @ [0] @ c = l' @ [0] @ c'" and t: "be_of_word 4 (of_nat (8 * L) :: u32) = be_of_word 4 (of_nat (8 * L') :: u32)"
    using r by (simp_all only: append_eq_append_conv length_word_bytes simp_thms)
  have inj: "j = k" if "be_of_word 4 (of_nat j :: u32) = be_of_word 4 (of_nat k :: u32)" "j < 2 ^ 32" "k < 2 ^ 32" for j k
  proof -
    have "(of_nat j :: u32) = of_nat k" using that(1) by (simp add: be_of_word_inj)
    from arg_cong [OF this, of unat] show ?thesis using that(2,3) by (simp add: unat_of_nat)
  qed
  have "8 * L = 8 * L'" by (rule inj [OF t assms(5,6)])
  then show ?thesis using inj [OF h assms(3,4)] zero_separated [OF assms(1,2) m] by simp
qed


lemma kbkdf_input_iff:
  assumes "0 \<notin> set l" "0 \<notin> set l'" "i < 2 ^ 32" "i' < 2 ^ 32" "8 * L < 2 ^ 32" "8 * L' < 2 ^ 32"
  shows "kbkdf_input i l c L = kbkdf_input i' l' c' L' \<longleftrightarrow> i = i' \<and> l = l' \<and> c = c' \<and> L = L'"
  using kbkdf_input_inj [OF assms] by blast

text \<open>
  A block of the output that is there in full, for any message authentication code: the
  call that returned made it with one application to the input of its number.
\<close>

lemma take_drop_concat:
  assumes "\<And>j. length (f j) = n" "i < k"
  shows "take n (drop (n * i) (concat (map f [0..<k]))) = f i"
proof -
  have "[0..<k] = [0..<i] @ i # [Suc i..<k]"
    using assms(2) upt_add_eq_append [of 0 i "k - i"] by (simp add: upt_conv_Cons)
  moreover have "length (concat (map f [0..<i])) = n * i"
    using assms(1) by (simp add: length_concat o_def sum_list_triv)
  ultimately show ?thesis using assms(1) [of i] by simp
qed

context mac
begin

lemma kbkdf_counter_block:
  assumes "valid_key key" "kbkdf_counter m M key label context out = (Ok (), okm)"
    and "TAG_LEN M * Suc i \<le> length out"
  shows "take (TAG_LEN M) (drop (TAG_LEN M * i) okm) = tag key (kbkdf_input (Suc i) label context (length out))
    \<and> 0 \<notin> set label \<and> length out * 8 < 2 ^ 32"
proof -
  have ok: "operational m = Inr ()" "out \<noteq> []" "0 \<notin> set label" "length out * 8 < 2 ^ 32"
    using assms(2) unfolding kbkdf_counter_def by (auto split: sum.splits if_splits)
  let ?n = "TAG_LEN M" and ?k = "(length out + TAG_LEN M - 1) div TAG_LEN M"
  let ?f = "\<lambda>i. tag key (kbkdf_input (Suc i) label context (length out))"
  have okm: "okm = take (length out) (concat (map ?f [0..<?k]))"
    using assms(2) kbkdf_counter_eq [OF ok(1) assms(1) ok(2-4), of "context"] by (simp add: kbkdf_okm_def)
  have "?n * Suc i \<le> length out + ?n - 1" using assms(3) tag_bounds(1) by linarith
  then have "Suc i \<le> ?k" using tag_bounds(1) by (simp add: less_eq_div_iff_mult_less_eq mult.commute)
  then have "take ?n (drop (?n * i) (concat (map ?f [0..<?k]))) = ?f i"
    by (intro take_drop_concat) simp_all
  moreover have "take ?n (drop (?n * i) okm) = take ?n (drop (?n * i) (concat (map ?f [0..<?k])))"
    using assms(3) unfolding okm by (simp add: drop_take)
  ultimately show ?thesis using ok by simp
qed

end

end
