(* ===== verification/Drbg_Hmac.thy ===== *)
theory Drbg_Hmac
  imports Kdf
begin

text \<open>
  The HMAC generator of SP 800-90A: \<open>crates/ic-drbg/src/hmac_drbg.rs\<close>, over any message
  authentication code. The arrays of 64 bytes of which only the first \<open>len\<close> are used
  are kept as they are; the abstraction to the standard's pair of a key and a value
  drops the rest.
\<close>

section \<open>The code\<close>

definition DRBG_MAX_LEN :: nat where "DRBG_MAX_LEN = 64"
definition RESEED_INTERVAL :: u64 where "RESEED_INTERVAL = push_bit 20 1"
definition MIN_ENTROPY_LEN :: nat where "MIN_ENTROPY_LEN = 32"

record hmac_drbg =
  drbg_key :: bytes
  drbg_value :: bytes
  drbg_len :: nat
  drbg_reseed_counter :: u64

definition drbg_k :: "hmac_drbg \<Rightarrow> bytes" where "drbg_k d = take (drbg_len d) (drbg_key d)"
definition drbg_v :: "hmac_drbg \<Rightarrow> bytes" where "drbg_v d = take (drbg_len d) (drbg_value d)"

text \<open>Half of an update: a new key from the old one, then a new value.\<close>

definition drbg_half ::
  "module_state \<Rightarrow> 's mac_ops \<Rightarrow> u8 \<Rightarrow> bytes list \<Rightarrow> hmac_drbg \<Rightarrow> unit result \<times> hmac_drbg" where
  "drbg_half m M b provided d =
     (case mac_new M m (drbg_k d) of
        Inl e \<Rightarrow> (Inl e, d)
      | Inr s \<Rightarrow>
          let k = mac_finalize M (fold (mac_update M) provided (mac_update M [b] (mac_update M (drbg_v d) s)));
              d = d\<lparr>drbg_key := write_at 0 k (drbg_key d)\<rparr>
          in case mac_mac M m (drbg_k d) (drbg_v d) of
               Inl e \<Rightarrow> (Inl e, d)
             | Inr v \<Rightarrow> (Ok (), d\<lparr>drbg_value := write_at 0 v (drbg_value d)\<rparr>))"

definition drbg_update ::
  "module_state \<Rightarrow> 's mac_ops \<Rightarrow> bytes list \<Rightarrow> hmac_drbg \<Rightarrow> unit result \<times> hmac_drbg" where
  "drbg_update m M provided d =
     (let has_data = list_ex (\<lambda>p. p \<noteq> []) provided
      in case drbg_half m M 0x00 provided d of
           (Inl e, d) \<Rightarrow> (Inl e, d)
         | (Inr _, d) \<Rightarrow> if \<not> has_data then (Ok (), d) else drbg_half m M 0x01 provided d)"

definition drbg_instantiate ::
  "module_state \<Rightarrow> 's mac_ops \<Rightarrow> bytes \<Rightarrow> bytes \<Rightarrow> bytes \<Rightarrow> hmac_drbg result" where
  "drbg_instantiate m M entropy nonce personalization =
     bind_result (operational m) (\<lambda>_.
       if \<not> TAG_LEN M \<le> DRBG_MAX_LEN then Err InvalidParameter ''mac tag too wide''
       else if \<not> MIN_ENTROPY_LEN \<le> length entropy
       then Err EntropyFailure ''drbg entropy input below the required security strength''
       else
         let state = \<lparr>drbg_key = replicate DRBG_MAX_LEN 0x00, drbg_value = replicate DRBG_MAX_LEN 0x01,
                      drbg_len = TAG_LEN M, drbg_reseed_counter = 1\<rparr>
         in case drbg_update m M [entropy, nonce, personalization] state of
              (Inl e, _) \<Rightarrow> Inl e
            | (Inr _, state) \<Rightarrow> Ok state)"

definition drbg_reseed ::
  "module_state \<Rightarrow> 's mac_ops \<Rightarrow> bytes \<Rightarrow> bytes \<Rightarrow> hmac_drbg \<Rightarrow> unit result \<times> hmac_drbg" where
  "drbg_reseed m M entropy additional d =
     (case operational m of
        Inl e \<Rightarrow> (Inl e, d)
      | Inr _ \<Rightarrow>
          if \<not> MIN_ENTROPY_LEN \<le> length entropy
          then (Err EntropyFailure ''drbg reseed entropy below the required security strength'', d)
          else (case drbg_update m M [entropy, additional] d of
              (Inl e, d) \<Rightarrow> (Inl e, d)
            | (Inr _, d) \<Rightarrow> (Ok (), d\<lparr>drbg_reseed_counter := 1\<rparr>)))"

fun drbg_chunks ::
  "module_state \<Rightarrow> 's mac_ops \<Rightarrow> bytes list \<Rightarrow> hmac_drbg \<Rightarrow> unit result \<times> hmac_drbg \<times> bytes list" where
  "drbg_chunks m M [] d = (Ok (), d, [])"
| "drbg_chunks m M (chunk # rest) d =
     (case mac_mac M m (drbg_k d) (drbg_v d) of
        Inl e \<Rightarrow> (Inl e, d, chunk # rest)
      | Inr v \<Rightarrow>
          let d = d\<lparr>drbg_value := write_at 0 v (drbg_value d)\<rparr>;
              (r, d', outs) = drbg_chunks m M rest d
          in (r, d', take (length chunk) (drbg_value d) # outs))"

definition saturating_inc :: "'a::len word \<Rightarrow> 'a word" where
  "saturating_inc w = (if w = - 1 then w else w + 1)"

definition drbg_generate ::
  "module_state \<Rightarrow> 's mac_ops \<Rightarrow> bytes \<Rightarrow> bytes \<Rightarrow> hmac_drbg \<Rightarrow> unit result \<times> hmac_drbg \<times> bytes" where
  "drbg_generate m M additional out d =
     (case operational m of
        Inl e \<Rightarrow> (Inl e, d, out)
      | Inr _ \<Rightarrow>
          if \<not> drbg_reseed_counter d \<le> RESEED_INTERVAL
          then (Err CounterExhausted ''drbg reseed interval exceeded; reseed before generating'', d, out)
          else
            case (if additional \<noteq> [] then drbg_update m M [additional] d else (Ok (), d)) of
              (Inl e, d) \<Rightarrow> (Inl e, d, out)
            | (Inr _, d) \<Rightarrow>
                (case drbg_chunks m M (chunks (drbg_len d) out) d of
                   (Inl e, d, outs) \<Rightarrow> (Inl e, d, concat outs)
                 | (Inr _, d, outs) \<Rightarrow>
                     (case drbg_update m M [additional] d of
                        (Inl e, d) \<Rightarrow> (Inl e, d, concat outs)
                      | (Inr _, d) \<Rightarrow>
                          (Ok (), d\<lparr>drbg_reseed_counter := saturating_inc (drbg_reseed_counter d)\<rparr>, concat outs))))"

section \<open>The standard's generator\<close>

text \<open>SP 800-90A, 10.1.2: the working state is a key and a value.\<close>

definition sp_update :: "(bytes \<Rightarrow> bytes \<Rightarrow> bytes) \<Rightarrow> bytes \<Rightarrow> bytes \<times> bytes \<Rightarrow> bytes \<times> bytes" where
  "sp_update tag provided kv = (case kv of (k, v) \<Rightarrow>
     let k = tag k (v @ [0x00] @ provided); v = tag k v
     in if provided = [] then (k, v)
        else let k = tag k (v @ [0x01] @ provided); v = tag k v in (k, v))"

definition sp_instantiate :: "(bytes \<Rightarrow> bytes \<Rightarrow> bytes) \<Rightarrow> nat \<Rightarrow> bytes \<Rightarrow> bytes \<times> bytes" where
  "sp_instantiate tag n seed = sp_update tag seed (replicate n 0x00, replicate n 0x01)"

fun sp_values :: "(bytes \<Rightarrow> bytes \<Rightarrow> bytes) \<Rightarrow> bytes \<Rightarrow> bytes \<Rightarrow> nat \<Rightarrow> bytes" where
  "sp_values tag k v 0 = v"
| "sp_values tag k v (Suc i) = tag k (sp_values tag k v i)"

definition sp_generate ::
  "(bytes \<Rightarrow> bytes \<Rightarrow> bytes) \<Rightarrow> nat \<Rightarrow> bytes \<Rightarrow> nat \<Rightarrow> bytes \<times> bytes \<Rightarrow> (bytes \<times> bytes) \<times> bytes" where
  "sp_generate tag n additional L kv =
     (let (k, v) = (if additional = [] then kv else sp_update tag additional kv);
          blocks = (L + n - 1) div n;
          out = take L (concat (map (\<lambda>i. sp_values tag k v (Suc i)) [0..<blocks]))
      in (sp_update tag additional (k, sp_values tag k v blocks), out))"

section \<open>Refinement\<close>

definition drbg_abs :: "hmac_drbg \<Rightarrow> bytes \<times> bytes" where
  "drbg_abs d = (drbg_k d, drbg_v d)"

definition drbg_wf :: "'s mac_ops \<Rightarrow> hmac_drbg \<Rightarrow> bool" where
  "drbg_wf M d \<longleftrightarrow> length (drbg_key d) = DRBG_MAX_LEN \<and> length (drbg_value d) = DRBG_MAX_LEN
     \<and> drbg_len d = TAG_LEN M"

lemma drbg_counter_update [simp]:
  "drbg_abs (d\<lparr>drbg_reseed_counter := c\<rparr>) = drbg_abs d"
  "drbg_wf M (d\<lparr>drbg_reseed_counter := c\<rparr>) = drbg_wf M d"
  by (simp_all add: drbg_abs_def drbg_k_def drbg_v_def drbg_wf_def)

context mac begin

lemma drbg_half_eq:
  assumes "operational m = Inr u" "\<And>k. valid_key k" "drbg_wf M d"
  shows "\<exists>d'. drbg_half m M b provided d = (Ok (), d') \<and> drbg_wf M d'
    \<and> drbg_reseed_counter d' = drbg_reseed_counter d
    \<and> drbg_abs d' = (let k = tag (drbg_k d) (drbg_v d @ [b] @ concat provided) in (k, tag k (drbg_v d)))"
proof -
  obtain s where s: "mac_new M m (drbg_k d) = Inr s" "keyed s (drbg_k d) []"
    using new_cases [OF assms(1,2)] .
  have k: "mac_finalize M (fold (mac_update M) provided (mac_update M [b] (mac_update M (drbg_v d) s)))
      = tag (drbg_k d) (drbg_v d @ [b] @ concat provided)"
    using finalize_fold [OF s(2), of "drbg_v d # [b] # provided"] by simp
  show ?thesis
    using assms(3) s(1) k tag_bounds mac_tag [OF assms(1,2)]
    by (simp add: drbg_half_def Let_def drbg_wf_def drbg_abs_def drbg_k_def drbg_v_def write_at_0 DRBG_MAX_LEN_def)
qed

lemma drbg_update_eq:
  assumes "operational m = Inr u" "\<And>k. valid_key k" "drbg_wf M d"
  shows "\<exists>d'. drbg_update m M provided d = (Ok (), d') \<and> drbg_wf M d'
    \<and> drbg_reseed_counter d' = drbg_reseed_counter d
    \<and> drbg_abs d' = sp_update tag (concat provided) (drbg_abs d)"
proof -
  obtain d1 where d1: "drbg_half m M 0 provided d = (Ok (), d1)" "drbg_wf M d1"
    "drbg_reseed_counter d1 = drbg_reseed_counter d"
    "drbg_abs d1 = (let k = tag (drbg_k d) (drbg_v d @ [0] @ concat provided) in (k, tag k (drbg_v d)))"
    using drbg_half_eq [OF assms] by blast
  obtain d2 where d2: "drbg_half m M 1 provided d1 = (Ok (), d2)" "drbg_wf M d2"
    "drbg_reseed_counter d2 = drbg_reseed_counter d1"
    "drbg_abs d2 = (let k = tag (drbg_k d1) (drbg_v d1 @ [1] @ concat provided) in (k, tag k (drbg_v d1)))"
    using drbg_half_eq [OF assms(1,2) d1(2)] by blast
  have h: "list_ex (\<lambda>p. p \<noteq> []) provided \<longleftrightarrow> concat provided \<noteq> []"
    by (auto simp: list_ex_iff)
  show ?thesis
  proof (cases "concat provided = []")
    case True
    then show ?thesis
      using d1 h by (simp add: drbg_update_def sp_update_def drbg_abs_def [of d] Let_def)
  next
    case False
    then show ?thesis
      using d1 d2 h by (simp add: drbg_update_def sp_update_def drbg_abs_def Let_def del: concat_eq_Nil_conv)
  qed
qed


lemma drbg_chunks_eq:
  assumes "\<forall>c \<in> set cs. length c \<le> TAG_LEN M"
    and "operational m = Inr u" "\<And>k. valid_key k" "drbg_wf M d"
    and "drbg_k d = k" "drbg_v d = sp_values tag k v i"
  shows "\<exists>d'. drbg_chunks m M cs d = (Ok (), d', fill_chunks (\<lambda>j. sp_values tag k v (Suc j)) i cs)
    \<and> drbg_wf M d' \<and> drbg_reseed_counter d' = drbg_reseed_counter d
    \<and> drbg_abs d' = (k, sp_values tag k v (i + length cs))"
  using assms(1,4-6)
proof (induction cs arbitrary: d i)
  case Nil
  then show ?case by (simp add: drbg_abs_def)
next
  case (Cons c cs)
  let ?t = "tag k (sp_values tag k v i)"
  let ?d = "d\<lparr>drbg_value := write_at 0 ?t (drbg_value d)\<rparr>"
  have wf: "drbg_wf M ?d" "drbg_k ?d = k" "drbg_v ?d = sp_values tag k v (Suc i)"
    using Cons.prems tag_bounds
    by (simp_all add: drbg_wf_def drbg_k_def drbg_v_def write_at_0 DRBG_MAX_LEN_def)
  have "take (length c) (drbg_value ?d) = take (length c) ?t"
    using Cons.prems(1) by (simp add: write_at_0)
  moreover have "mac_mac M m (drbg_k d) (drbg_v d) = Inr ?t"
    using mac_tag [OF assms(2,3)] Cons.prems by simp
  moreover obtain d' where "drbg_chunks m M cs ?d = (Ok (), d', fill_chunks (\<lambda>j. sp_values tag k v (Suc j)) (Suc i) cs)"
    "drbg_wf M d'" "drbg_reseed_counter d' = drbg_reseed_counter ?d"
    "drbg_abs d' = (k, sp_values tag k v (Suc i + length cs))"
    using Cons.IH [OF _ wf] Cons.prems(1) by auto
  ultimately show ?case by (auto simp: Let_def)
qed

lemma drbg_generate_eq:
  assumes "operational m = Inr u" "\<And>k. valid_key k" "drbg_wf M d" "drbg_reseed_counter d \<le> RESEED_INTERVAL"
  shows "\<exists>d'. drbg_generate m M additional out d
      = (Ok (), d', snd (sp_generate tag (TAG_LEN M) additional (length out) (drbg_abs d)))
    \<and> drbg_wf M d' \<and> drbg_reseed_counter d' = drbg_reseed_counter d + 1
    \<and> drbg_abs d' = fst (sp_generate tag (TAG_LEN M) additional (length out) (drbg_abs d))"
proof -
  define d1 where "d1 = snd (if additional \<noteq> [] then drbg_update m M [additional] d else (Ok (), d))"
  have d1: "(if additional \<noteq> [] then drbg_update m M [additional] d else (Ok (), d)) = (Ok (), d1)"
    "drbg_wf M d1" "drbg_reseed_counter d1 = drbg_reseed_counter d"
    "drbg_abs d1 = (if additional = [] then drbg_abs d else sp_update tag additional (drbg_abs d))"
    using drbg_update_eq [OF assms(1-3), of "[additional]"] assms(3) by (auto simp: d1_def)
  let ?k = "drbg_k d1" and ?v = "drbg_v d1" and ?n = "TAG_LEN M"
  let ?cs = "chunks ?n out"
  have cs: "\<forall>c \<in> set ?cs. length c \<le> ?n" by (rule chunks_length_le)
  obtain d2 where d2: "drbg_chunks m M ?cs d1 = (Ok (), d2, fill_chunks (\<lambda>j. sp_values tag ?k ?v (Suc j)) 0 ?cs)"
    "drbg_wf M d2" "drbg_reseed_counter d2 = drbg_reseed_counter d1"
    "drbg_abs d2 = (?k, sp_values tag ?k ?v (length ?cs))"
    using drbg_chunks_eq [OF cs assms(1,2) d1(2) refl, where v = ?v and i = 0] by auto
  obtain d3 where d3: "drbg_update m M [additional] d2 = (Ok (), d3)" "drbg_wf M d3"
    "drbg_reseed_counter d3 = drbg_reseed_counter d2" "drbg_abs d3 = sp_update tag additional (drbg_abs d2)"
    using drbg_update_eq [OF assms(1,2) d2(2), of "[additional]"] by auto
  have inc: "saturating_inc (drbg_reseed_counter d3) = drbg_reseed_counter d + 1"
  proof -
    have "drbg_reseed_counter d \<noteq> - 1"
      using assms(4) by (auto simp: RESEED_INTERVAL_def word_le_nat_alt unsigned_minus_1_eq_mask mask_eq_exp_minus_1)
    then show ?thesis by (simp add: saturating_inc_def d3 d2 d1)
  qed
  have out: "concat (fill_chunks (\<lambda>j. sp_values tag ?k ?v (Suc j)) 0 ?cs)
      = take (length out) (concat (map (\<lambda>i. sp_values tag ?k ?v (Suc i)) [0..<(length out + ?n - 1) div ?n]))"
    using chunks_filled [of ?n "\<lambda>j. sp_values tag ?k ?v (Suc j)" 0 out] tag_bounds(1) by simp
  have sp: "sp_generate tag ?n additional (length out) (drbg_abs d)
      = (drbg_abs d3, concat (fill_chunks (\<lambda>j. sp_values tag ?k ?v (Suc j)) 0 ?cs))"
    unfolding sp_generate_def out d3(4) d2(4) length_chunks [OF tag_bounds(1)]
    by (simp only: d1(4) [symmetric] drbg_abs_def [of d1] Let_def prod.case)
  have len: "drbg_len d1 = ?n" using d1(2) by (simp add: drbg_wf_def)
  have "drbg_generate m M additional out d = (Ok (), d3\<lparr>drbg_reseed_counter := drbg_reseed_counter d + 1\<rparr>,
      concat (fill_chunks (\<lambda>j. sp_values tag ?k ?v (Suc j)) 0 ?cs))"
    unfolding drbg_generate_def d1(1)
    using assms(1,3,4) len d2(1) d3(1) inc by (simp add: drbg_wf_def)
  then show ?thesis
    using d3(2) by (simp add: sp)
qed

lemma drbg_instantiate_eq:
  assumes "operational m = Inr u" "\<And>k. valid_key k" "MIN_ENTROPY_LEN \<le> length entropy"
  shows "\<exists>d. drbg_instantiate m M entropy nonce pers = Ok d \<and> drbg_wf M d \<and> drbg_reseed_counter d = 1
    \<and> drbg_abs d = sp_instantiate tag (TAG_LEN M) (entropy @ nonce @ pers)"
proof -
  let ?st = "\<lparr>drbg_key = replicate DRBG_MAX_LEN 0, drbg_value = replicate DRBG_MAX_LEN 1,
      drbg_len = TAG_LEN M, drbg_reseed_counter = 1\<rparr>"
  have "drbg_wf M ?st" by (simp add: drbg_wf_def)
  from drbg_update_eq [OF assms(1,2) this, of "[entropy, nonce, pers]"]
  obtain d where "drbg_update m M [entropy, nonce, pers] ?st = (Ok (), d)" "drbg_wf M d"
    "drbg_reseed_counter d = 1" "drbg_abs d = sp_update tag (entropy @ nonce @ pers) (drbg_abs ?st)"
    by auto
  moreover have "drbg_abs ?st = (replicate (TAG_LEN M) 0, replicate (TAG_LEN M) 1)"
    using tag_bounds by (simp add: drbg_abs_def drbg_k_def drbg_v_def DRBG_MAX_LEN_def min_absorb1)
  ultimately show ?thesis
    using assms tag_bounds by (simp add: drbg_instantiate_def sp_instantiate_def DRBG_MAX_LEN_def)
qed

lemma drbg_reseed_eq:
  assumes "operational m = Inr u" "\<And>k. valid_key k" "drbg_wf M d" "MIN_ENTROPY_LEN \<le> length entropy"
  shows "\<exists>d'. drbg_reseed m M entropy additional d = (Ok (), d') \<and> drbg_wf M d'
    \<and> drbg_reseed_counter d' = 1 \<and> drbg_abs d' = sp_update tag (entropy @ additional) (drbg_abs d)"
proof -
  obtain d' where "drbg_update m M [entropy, additional] d = (Ok (), d')" "drbg_wf M d'"
    "drbg_abs d' = sp_update tag (entropy @ additional) (drbg_abs d)"
    using drbg_update_eq [OF assms(1-3), of "[entropy, additional]"] by auto
  then show ?thesis
    using assms(1,4) by (simp add: drbg_reseed_def)
qed

text \<open>What is refused leaves the generator as it was.\<close>

lemma drbg_generate_refused:
  "operational m = Inl e \<Longrightarrow> drbg_generate m M additional out d = (Inl e, d, out)"
  "operational m = Inr u \<Longrightarrow> RESEED_INTERVAL < drbg_reseed_counter d \<Longrightarrow>
     drbg_generate m M additional out d =
       (Err CounterExhausted ''drbg reseed interval exceeded; reseed before generating'', d, out)"
  by (simp_all add: drbg_generate_def not_le [symmetric])

end

end
