(* ===== verification/Drbg_Rng.thy ===== *)
theory Drbg_Rng
  imports Drbg_Hmac Core_Random
begin

text \<open>
  The generator applications use: \<open>crates/ic-drbg/src/rng.rs\<close>. The operating system's
  source is an argument, the state of the module is threaded through, since a source
  that fails its health test puts the module in the error state.
\<close>

section \<open>The code\<close>

definition STUCK_RUN :: nat where "STUCK_RUN = 8"

fun not_stuck_from :: "nat \<Rightarrow> u8 option \<Rightarrow> bytes \<Rightarrow> unit result" where
  "not_stuck_from run prev [] = Ok ()"
| "not_stuck_from run prev (b # bs) =
     (let run = (if prev = Some b then run + 1 else 1)
      in if \<not> run < STUCK_RUN
         then Err EntropyFailure ''the entropy source returned a run of equal bytes; it is taken to have stopped''
         else not_stuck_from run (Some b) bs)"

definition not_stuck :: "bytes \<Rightarrow> unit result" where
  "not_stuck seed = not_stuck_from 0 None seed"

type_synonym 'e rng_world = "module_state \<times> 'e"

definition os_entropy :: "'e fill \<Rightarrow> nat \<Rightarrow> 'e rng_world \<Rightarrow> bytes result \<times> 'e rng_world" where
  "os_entropy os n w = (case w of (m, e) \<Rightarrow>
     case os e n of
       (Inl er, e) \<Rightarrow> (Inl er, (m, e))
     | (Inr bs, e) \<Rightarrow>
         (case conditional_self_test (not_stuck bs) m of
            (Inl er, m) \<Rightarrow> (Inl er, (m, e))
          | (Inr _, m) \<Rightarrow> (Ok bs, (m, e))))"

record rng =
  rng_drbg :: hmac_drbg
  rng_calls :: u64

definition rng_from_os :: "'e fill \<Rightarrow> 'e rng_world \<Rightarrow> rng result \<times> 'e rng_world" where
  "rng_from_os os w =
     (case operational (fst w) of
        Inl er \<Rightarrow> (Inl er, w)
      | Inr _ \<Rightarrow>
        (case os_entropy os 48 w of
           (Inl er, w) \<Rightarrow> (Inl er, w)
         | (Inr seed, w) \<Rightarrow>
           (case os_entropy os 16 w of
              (Inl er, w) \<Rightarrow> (Inl er, w)
            | (Inr nonce, (m, e)) \<Rightarrow>
              (case conditional_self_test
                   (if ct_verify (take 16 seed) nonce
                    then Err EntropyFailure ''the entropy source returned the same bytes twice'' else Ok ()) m of
                 (Inl er, m) \<Rightarrow> (Inl er, (m, e))
               | (Inr _, m) \<Rightarrow>
                 (case drbg_instantiate m HmacSha256 seed nonce (ascii ''IronCrypto/Rng'') of
                    Inl er \<Rightarrow> (Inl er, (m, e))
                  | Inr d \<Rightarrow> (Ok \<lparr>rng_drbg = d, rng_calls = 0\<rparr>, (m, e)))))))"

definition rng_from_entropy :: "module_state \<Rightarrow> bytes \<Rightarrow> bytes \<Rightarrow> rng result" where
  "rng_from_entropy m entropy personalization =
     bind_result (operational m) (\<lambda>_.
       bind_result (drbg_instantiate m HmacSha256 entropy [] personalization)
         (\<lambda>d. Ok \<lparr>rng_drbg = d, rng_calls = 0\<rparr>))"

definition rng_reseed_from_os :: "'e fill \<Rightarrow> rng \<times> 'e rng_world \<Rightarrow> unit result \<times> rng \<times> 'e rng_world" where
  "rng_reseed_from_os os st = (case st of (r, w) \<Rightarrow>
     case operational (fst w) of
       Inl er \<Rightarrow> (Inl er, r, w)
     | Inr _ \<Rightarrow>
       (case os_entropy os MIN_ENTROPY_LEN w of
          (Inl er, w) \<Rightarrow> (Inl er, r, w)
        | (Inr seed, w) \<Rightarrow>
          (case drbg_reseed (fst w) HmacSha256 seed [] (rng_drbg r) of
             (Inl er, d) \<Rightarrow> (Inl er, r\<lparr>rng_drbg := d\<rparr>, w)
           | (Inr _, d) \<Rightarrow> (Ok (), \<lparr>rng_drbg = d, rng_calls = 0\<rparr>, w))))"

definition rng_fill ::
  "'e fill \<Rightarrow> bytes \<Rightarrow> rng \<times> 'e rng_world \<Rightarrow> unit result \<times> bytes \<times> rng \<times> 'e rng_world" where
  "rng_fill os out st =
     (case operational (fst (snd st)) of
        Inl er \<Rightarrow> (Inl er, out, st)
      | Inr _ \<Rightarrow>
        (case (if RESEED_INTERVAL div 2 \<le> rng_calls (fst st) then rng_reseed_from_os os st else (Ok (), st)) of
           (Inl er, st) \<Rightarrow> (Inl er, out, st)
         | (Inr _, r, w) \<Rightarrow>
           (let r = r\<lparr>rng_calls := saturating_inc (rng_calls r)\<rparr>;
                (res, d, out) = drbg_generate (fst w) HmacSha256 [] out (rng_drbg r)
            in (res, out, r\<lparr>rng_drbg := d\<rparr>, w))))"

text \<open>A generator in use: made one of the two ways, then filled from and reseeded.\<close>

inductive rng_reachable :: "'e fill \<Rightarrow> rng \<times> 'e rng_world \<Rightarrow> bool" for os where
  from_os: "rng_from_os os w = (Inr r, w') \<Longrightarrow> rng_reachable os (r, w')"
| from_entropy: "rng_from_entropy (fst w) entropy pers = Inr r \<Longrightarrow> rng_reachable os (r, w)"
| fill: "rng_reachable os st \<Longrightarrow> rng_fill os out st = (res, out', st') \<Longrightarrow> rng_reachable os st'"
| reseed: "rng_reachable os st \<Longrightarrow> rng_reseed_from_os os st = (res, st') \<Longrightarrow> rng_reachable os st'"

section \<open>The health test\<close>

fun has_run :: "nat \<Rightarrow> bytes \<Rightarrow> bool" where
  "has_run k [] = False"
| "has_run k (x # xs) = (take k (x # xs) = replicate k x \<or> has_run k xs)"

lemma has_run_iff:
  assumes "0 < k"
  shows "has_run k xs \<longleftrightarrow> (\<exists>before x after. xs = before @ replicate k x @ after)"
proof (induction xs)
  case (Cons y ys)
  show ?case
  proof
    assume "has_run k (y # ys)"
    then consider "take k (y # ys) = replicate k y" | "has_run k ys" by auto
    then show "\<exists>before x after. y # ys = before @ replicate k x @ after"
    proof cases
      case 1
      then have "y # ys = [] @ replicate k y @ drop k (y # ys)" by (metis append_Nil append_take_drop_id)
      then show ?thesis by blast
    next
      case 2
      then obtain a x b where "ys = a @ replicate k x @ b" using Cons.IH by blast
      then have "y # ys = (y # a) @ replicate k x @ b" by simp
      then show ?thesis by blast
    qed
  next
    assume "\<exists>before x after. y # ys = before @ replicate k x @ after"
    then obtain a x b where e: "y # ys = a @ replicate k x @ b" by blast
    show "has_run k (y # ys)"
    proof (cases a)
      case Nil
      then have "take k (y # ys) = replicate k x" using e by simp
      moreover have "y = x" using e Nil assms by (cases k) simp_all
      ultimately show ?thesis by simp
    next
      case (Cons c a')
      then have "ys = a' @ replicate k x @ b" using e by simp
      then show ?thesis using Cons.IH by auto
    qed
  qed
qed (use assms in simp)

lemma has_run_skip:
  assumes "b \<noteq> c" "n < k"
  shows "has_run k (replicate n b @ c # xs) \<longleftrightarrow> has_run k (c # xs)"
  using assms(2)
proof (induction n)
  case (Suc n)
  have "take k (replicate (Suc n) b @ c # xs) \<noteq> replicate k b"
  proof
    assume "take k (replicate (Suc n) b @ c # xs) = replicate k b"
    then have "take k (replicate (Suc n) b @ c # xs) ! Suc n = replicate k b ! Suc n" by simp
    then show False using assms(1) Suc.prems by (simp add: nth_append)
  qed
  then show ?case using Suc by simp
qed simp

lemma not_stuck_from_iff:
  "n < STUCK_RUN \<Longrightarrow> is_ok (not_stuck_from n (Some b) xs) \<longleftrightarrow> \<not> has_run STUCK_RUN (replicate n b @ xs)"
proof (induction xs arbitrary: n b)
  case Nil
  have "\<not> has_run k (replicate n b)" if "n < k" for k using that
  proof (induction n)
    case (Suc n)
    have "take k (replicate (Suc n) b) \<noteq> replicate k b"
      using Suc.prems by (metis length_replicate length_take min_less_iff_conj less_irrefl)
    then show ?case using Suc by simp
  qed simp
  then show ?case using Nil by simp
next
  case (Cons x xs)
  show ?case
  proof (cases "b = x")
    case True
    have r: "replicate n b @ x # xs = replicate (Suc n) b @ xs"
      using True by (simp add: replicate_app_Cons_same)
    show ?thesis
    proof (cases "Suc n < STUCK_RUN")
      case False
      then have "Suc n = STUCK_RUN" using Cons.prems by simp
      then have "has_run STUCK_RUN (replicate n b @ x # xs)"
        unfolding r by (simp add: STUCK_RUN_def numeral_eq_Suc)
      then show ?thesis using True False by (simp add: Let_def)
    next
      case t: True
      then show ?thesis unfolding r using True Cons.IH [OF t] by (simp add: Let_def)
    qed
  next
    case False
    have "1 < STUCK_RUN" by (simp add: STUCK_RUN_def)
    from Cons.IH [OF this, of x] show ?thesis
      using False has_run_skip [OF False Cons.prems, of xs] \<open>1 < STUCK_RUN\<close> by (simp add: Let_def)
  qed
qed

text \<open>A seed passes exactly when no byte stands eight times in a row.\<close>

lemma not_stuck_iff:
  "is_ok (not_stuck seed) \<longleftrightarrow> (\<nexists>before x after. seed = before @ replicate STUCK_RUN x @ after)"
proof -
  have "is_ok (not_stuck seed) \<longleftrightarrow> \<not> has_run STUCK_RUN seed"
  proof (cases seed)
    case (Cons x xs)
    then show ?thesis
      using not_stuck_from_iff [of 1 x xs] by (simp add: not_stuck_def STUCK_RUN_def Let_def)
  qed (simp add: not_stuck_def)
  then show ?thesis by (simp add: has_run_iff STUCK_RUN_def)
qed

section \<open>What the generator guarantees\<close>

lemma HmacSha256_TAG_LEN [simp]: "TAG_LEN HmacSha256 = 32"
  by (simp add: HmacSha256_def hmac_ops_def sha256_def sha2_32_def)

definition rng_inv :: "rng \<Rightarrow> bool" where
  "rng_inv r \<longleftrightarrow> drbg_wf HmacSha256 (rng_drbg r) \<and> rng_calls r \<le> RESEED_INTERVAL div 2
     \<and> drbg_reseed_counter (rng_drbg r) = rng_calls r + 1"

lemma os_entropy_Ok:
  assumes "os_entropy os n (m, e) = (Inr bs, m', e')"
  shows "m' = m" "is_ok (not_stuck bs)" "os e n = (Inr bs, e')"
  using assms by (auto simp: os_entropy_def conditional_self_test_def split: prod.splits sum.splits if_splits)

lemma os_entropy_Err:
  assumes "os_entropy os n (m, e) = (Inl er, m', e')"
  shows "(m' = m \<and> os e n = (Inl er, e'))
    \<or> (FAILED m' \<and> (\<exists>bs. os e n = (Inr bs, e') \<and> not_stuck bs = Inl er))"
  using assms by (auto simp: os_entropy_def conditional_self_test_def split: prod.splits sum.splits if_splits)

lemma calls_arith:
  fixes c :: u64
  assumes "c < RESEED_INTERVAL div 2"
  shows "saturating_inc c = c + 1" "c + 1 \<le> RESEED_INTERVAL div 2" "c + 1 \<le> RESEED_INTERVAL"
proof -
  have r: "unat (RESEED_INTERVAL div 2) = 524288" "unat RESEED_INTERVAL = 1048576"
    by (simp_all add: RESEED_INTERVAL_def)
  have c: "unat c < 524288" using assms r by (simp add: word_less_nat_alt)
  then have u: "unat (c + 1) = unat c + 1" by (simp add: unat_word_ariths)
  have "c \<noteq> - 1" using c by (auto simp: unsigned_minus_1_eq_mask mask_eq_exp_minus_1)
  then show "saturating_inc c = c + 1" by (simp add: saturating_inc_def)
  show "c + 1 \<le> RESEED_INTERVAL div 2" "c + 1 \<le> RESEED_INTERVAL"
    using c u r by (simp_all add: word_le_nat_alt)
qed

lemma rng_instantiated:
  assumes "drbg_instantiate m HmacSha256 entropy nonce pers = Inr d"
  shows "rng_inv \<lparr>rng_drbg = d, rng_calls = 0\<rparr>"
proof -
  have "operational m = Inr ()" "MIN_ENTROPY_LEN \<le> length entropy"
    using assms by (auto simp: drbg_instantiate_def split: if_splits)
  from hmac_sha256.drbg_instantiate_eq [OF this(1) _ this(2), of nonce pers] show ?thesis
    using assms by (simp add: rng_inv_def)
qed

lemma rng_reseed_outcome:
  assumes inv: "rng_inv r" and os: "random_source os live" "live e"
    and res: "rng_reseed_from_os os (r, m, e) = (res, r', m', e')"
  shows "rng_inv r' \<and> live e'
    \<and> (res = Ok () \<and> m' = m \<and> rng_calls r' = 0 \<and> operational m = Ok ()
       \<or> r' = r \<and> (\<exists>er. res = Inl er \<and> (operational m = Inl er \<and> m' = m
            \<or> os_entropy os MIN_ENTROPY_LEN (m, e) = (Inl er, m', e'))))"
proof (cases "operational m")
  case (Inl er)
  then have "res = Inl er \<and> r' = r \<and> m' = m \<and> e' = e"
    using res by (simp add: rng_reseed_from_os_def)
  then show ?thesis using inv os(2) Inl by blast
next
  case (Inr u)
  obtain x m1 e1 where ent: "os_entropy os MIN_ENTROPY_LEN (m, e) = (x, m1, e1)" by (metis prod.collapse)
  have live: "live e1"
  proof -
    obtain y e2 where "os e MIN_ENTROPY_LEN = (y, e2)" by (metis prod.collapse)
    moreover from this have "e1 = e2"
      using ent by (auto simp: os_entropy_def split: sum.splits prod.splits)
    ultimately show ?thesis using random_source.fill_live [OF os] by blast
  qed
  show ?thesis
  proof (cases x)
    case (Inl er)
    then show ?thesis using Inr ent res inv live by (auto simp: rng_reseed_from_os_def)
  next
    case x: (Inr seed)
    note e = os_entropy_Ok [OF ent [unfolded x]]
    have "length seed = MIN_ENTROPY_LEN" using random_source.fill_length [OF os e(3)] .
    moreover have "drbg_wf HmacSha256 (rng_drbg r)" using inv by (simp add: rng_inv_def)
    ultimately obtain d where "drbg_reseed m HmacSha256 seed [] (rng_drbg r) = (Ok (), d)"
      "drbg_wf HmacSha256 d" "drbg_reseed_counter d = 1"
      using hmac_sha256.drbg_reseed_eq [OF Inr, of "rng_drbg r" seed "[]"] by auto
    then show ?thesis
      using Inr ent x res e(1) live by (auto simp: rng_reseed_from_os_def rng_inv_def)
  qed
qed

lemma ceil_mult: "0 < n \<Longrightarrow> L \<le> (L + n - 1) div n * (n :: nat)"
  using div_mult_mod_eq [of "L + n - 1" n] mod_less_divisor [of n "L + n - 1"] by linarith

lemma sp_generate_length:
  assumes "\<And>k d. length (tag k d) = n" "0 < n"
  shows "length (snd (sp_generate tag n additional L kv)) = L"
proof -
  have "length (concat (map (\<lambda>i. sp_values tag k v (Suc i)) [0..<b])) = b * n" for k v b
    by (induction b) (simp_all add: assms(1))
  then show ?thesis using ceil_mult [OF assms(2), of L]
    by (simp add: sp_generate_def Let_def split: prod.splits del: sp_values.simps)
qed

lemma HMAC_SHA256_length [simp]: "length (HMAC_SHA256 k d) = 32"
  using hmac_sha256.tag_length by (simp add: HmacSha256_TAG_LEN)

text \<open>Before its reseeding is due a fill cannot fail, and gives the standard's bytes.\<close>

lemma rng_fill_plain:
  assumes "rng_inv r" "operational m = Inr u" "rng_calls r < RESEED_INTERVAL div 2"
  shows "\<exists>r'. rng_fill os out (r, m, e)
      = (Ok (), snd (sp_generate HMAC_SHA256 32 [] (length out) (drbg_abs (rng_drbg r))), r', m, e)
    \<and> rng_inv r' \<and> drbg_abs (rng_drbg r') = fst (sp_generate HMAC_SHA256 32 [] (length out) (drbg_abs (rng_drbg r)))"
proof -
  note c = calls_arith [OF assms(3)]
  have wf: "drbg_wf HmacSha256 (rng_drbg r)" and ctr: "drbg_reseed_counter (rng_drbg r) = rng_calls r + 1"
    using assms(1) by (simp_all add: rng_inv_def)
  then have "drbg_reseed_counter (rng_drbg r) \<le> RESEED_INTERVAL" using c by simp
  from hmac_sha256.drbg_generate_eq [OF assms(2) _ wf this, of "[]" out]
  obtain d where "drbg_generate m HmacSha256 [] out (rng_drbg r)
      = (Ok (), d, snd (sp_generate HMAC_SHA256 32 [] (length out) (drbg_abs (rng_drbg r))))"
    "drbg_wf HmacSha256 d" "drbg_reseed_counter d = drbg_reseed_counter (rng_drbg r) + 1"
    "drbg_abs d = fst (sp_generate HMAC_SHA256 32 [] (length out) (drbg_abs (rng_drbg r)))"
    by (auto simp: HmacSha256_TAG_LEN)
  then show ?thesis
    using assms c ctr by (simp add: rng_fill_def not_le [symmetric] rng_inv_def Let_def)
qed

text \<open>
  A fill of a generator in use either succeeds, or reports the gate's refusal or the
  failure of the source it reseeds from; the limit of the underlying generator is
  never met.
\<close>

lemma rng_fill_outcome:
  assumes inv: "rng_inv r" and os: "random_source os live" "live e"
    and res: "rng_fill os out (r, m, e) = (res, out', r', m', e')"
  shows "rng_inv r' \<and> live e'
    \<and> (res = Ok () \<and> length out' = length out
       \<or> (\<exists>er. res = Inl er \<and> out' = out \<and> (operational m = Inl er \<or> os_entropy os MIN_ENTROPY_LEN (m, e) = (Inl er, m', e'))))"
proof (cases "operational m")
  case (Inl er)
  then have "res = Inl er \<and> out' = out \<and> r' = r \<and> m' = m \<and> e' = e"
    using res by (simp add: rng_fill_def)
  then show ?thesis using inv os(2) Inl by blast
next
  case (Inr u)
  have len: "length (snd (sp_generate HMAC_SHA256 32 [] (length out) kv)) = length out" for kv
    by (rule sp_generate_length) simp_all
  show ?thesis
  proof (cases "rng_calls r < RESEED_INTERVAL div 2")
    case True
    from rng_fill_plain [OF inv Inr True, of os out e] show ?thesis
      using res os(2) len [of "drbg_abs (rng_drbg r)"] by auto
  next
    case False
    obtain x r1 m1 e1 where rs: "rng_reseed_from_os os (r, m, e) = (x, r1, m1, e1)" by (metis prod.collapse)
    note o1 = rng_reseed_outcome [OF inv os rs]
    show ?thesis
    proof (cases x)
      case (Inl er)
      then have "res = Inl er \<and> out' = out \<and> r' = r1 \<and> m' = m1 \<and> e' = e1"
        using res rs Inr False by (auto simp: rng_fill_def not_less)
      then show ?thesis using o1 Inl Inr by auto
    next
      case x: (Inr u')
      then have r1: "rng_inv r1" "rng_calls r1 = 0" "m1 = m" "live e1" using o1 by auto
      have "rng_calls r1 < RESEED_INTERVAL div 2"
        unfolding r1(2) by (simp add: RESEED_INTERVAL_def)
      moreover from this have "\<not> RESEED_INTERVAL div 2 \<le> rng_calls r1" by (simp only: not_le)
      then have "rng_fill os out (r, m, e) = rng_fill os out (r1, m, e1)"
        using rs x Inr False r1(3) by (simp add: rng_fill_def not_less)
      ultimately show ?thesis
        using rng_fill_plain [OF r1(1) Inr, of os out e1] res r1(4) len [of "drbg_abs (rng_drbg r1)"] by auto
    qed
  qed
qed

lemma rng_reachable_inv:
  assumes "rng_reachable os st" and that: "random_source os (\<lambda>_. True)"
  shows "rng_inv (fst st)"
  using assms(1)
proof induction
  case (from_os w r w')
  obtain m e where "w = (m, e)" by (cases w)
  then obtain m' seed nonce where "drbg_instantiate m' HmacSha256 seed nonce (ascii ''IronCrypto/Rng'') = Inr (rng_drbg r)"
    "rng_calls r = 0"
    using from_os by (auto simp: rng_from_os_def split: sum.splits prod.splits)
  then show ?case using rng_instantiated [of _ _ _ _ "rng_drbg r"] by (cases r) auto
next
  case (from_entropy w entropy pers r)
  then show ?case by (auto simp: rng_from_entropy_def dest: rng_instantiated)
next
  case (fill st out res out' st')
  then show ?case
    using rng_fill_outcome [of "fst st" os "\<lambda>_. True" "snd (snd st)" out "fst (snd st)" res out' "fst st'" "fst (snd st')" "snd (snd st')"] that
    by simp
next
  case (reseed st res st')
  then show ?case
    using rng_reseed_outcome [of "fst st" os "\<lambda>_. True" "snd (snd st)" "fst (snd st)" res "fst st'" "fst (snd st')" "snd (snd st')"] that
    by simp
qed

text \<open>The generator as the source of randomness of the other components.\<close>

definition rng_source :: "'e fill \<Rightarrow> (rng \<times> 'e rng_world) fill" where
  "rng_source os st n =
     (case rng_fill os (replicate n 0) st of
        (Inl er, _, st) \<Rightarrow> (Inl er, st)
      | (Inr _, out, st) \<Rightarrow> (Ok out, st))"

lemma rng_random_source:
  assumes "random_source os live"
  shows "random_source (rng_source os) (\<lambda>(r, m, e). rng_inv r \<and> live e)"
proof
  fix st :: "rng \<times> 'a rng_world" and n x st'
  assume live: "case st of (r, m, e) \<Rightarrow> rng_inv r \<and> live e"
  obtain r m e where st: "st = (r, m, e)" by (cases st) auto
  obtain res out r' m' e' where f: "rng_fill os (replicate n 0) st = (res, out, r', m', e')"
    by (metis prod.collapse)
  have o: "rng_inv r' \<and> live e' \<and> (is_ok res \<longrightarrow> length out = n)"
    using rng_fill_outcome [OF _ assms _ f [unfolded st]] live st by auto
  { fix bs assume "rng_source os st n = (Inr bs, st')"
    then show "length bs = n" using o f by (auto simp: rng_source_def split: sum.splits) }
  assume "rng_source os st n = (x, st')"
  then show "case st' of (r, m, e) \<Rightarrow> rng_inv r \<and> live e"
    using o f by (auto simp: rng_source_def split: sum.splits)
qed

end
