(* ===== verification/Core_Aead.thy ===== *)
theory Core_Aead
  imports Core_Ct Core_Module Core_Random
begin

text \<open>
  The contract of authenticated encryption: the trait \<open>Aead\<close> of
  \<open>crates/ic-core/src/traits.rs\<close>. An implementation is a value of \<open>aead_ops\<close>; its
  operations return the buffers they write beside their results. The locale says what
  a client of the trait relies on: opening undoes sealing, nothing opens that sealing
  did not produce, and a failed opening leaves no plaintext behind.
\<close>

record 'a aead_ops =
  aead_new :: "module_state \<Rightarrow> bytes \<Rightarrow> 'a result"
  aead_seal :: "module_state \<Rightarrow> 'a \<Rightarrow> bytes \<Rightarrow> bytes \<Rightarrow> bytes \<Rightarrow> bytes \<Rightarrow> unit result \<times> bytes \<times> bytes"
  aead_open :: "module_state \<Rightarrow> 'a \<Rightarrow> bytes \<Rightarrow> bytes \<Rightarrow> bytes \<Rightarrow> bytes \<Rightarrow> unit result \<times> bytes"
  AEAD_KEY_LEN :: nat
  AEAD_NONCE_LEN :: nat
  AEAD_TAG_LEN :: nat

locale aead =
  fixes A :: "'a aead_ops" and keyed :: "'a \<Rightarrow> bool"
  assumes new_keyed: "aead_new A m k = Inr c \<Longrightarrow> keyed c"
    and new_ok: "operational m = Inr u \<Longrightarrow> length k = AEAD_KEY_LEN A \<Longrightarrow> \<exists>c. aead_new A m k = Inr c"
    and seal_gate: "operational m = Inl e \<Longrightarrow> aead_seal A m c n a p t = (Inl e, p, t)"
    and seal_lengths: "keyed c \<Longrightarrow> aead_seal A m c n a p t = (Inr u, x, y)
      \<Longrightarrow> length n = AEAD_NONCE_LEN A \<and> length x = length p \<and> length y = AEAD_TAG_LEN A"
    and open_seal: "keyed c \<Longrightarrow> aead_seal A m c n a p t = (Inr u, x, y)
      \<Longrightarrow> operational m' = Inr u \<Longrightarrow> aead_open A m' c n a x y = (Inr u, p)"
    and open_only: "keyed c \<Longrightarrow> aead_open A m c n a x y = (Inr u, p)
      \<Longrightarrow> length t = AEAD_TAG_LEN A \<Longrightarrow> aead_seal A m c n a p t = (Inr u, x, y)"
    and open_fails: "keyed c \<Longrightarrow> aead_open A m c n a x y = (Inl e, p)
      \<Longrightarrow> p = x \<or> p = replicate (length x) 0"
begin

lemma seal_operational:
  "aead_seal A m c n a p t = (Inr u, x, y) \<Longrightarrow> operational m = Inr ()"
  using seal_gate by (cases "operational m") (fastforce simp: unit_eq)+

text \<open>Two messages that open under one nonce and associated data with one tag and ciphertext are one.\<close>

lemma open_deterministic:
  assumes "keyed c" "aead_open A m c n a x y = (Inr u, p)" "aead_open A m' c n a x y = (Inr u', q)"
    and "operational m = Inr ()" 
  shows "q = p"
proof -
  have "aead_seal A m' c n a q (replicate (AEAD_TAG_LEN A) 0) = (Inr u', x, y)"
    using open_only [OF assms(1,3)] by simp
  from open_seal [OF assms(1) this, of m] assms(2,4) show ?thesis by simp
qed

end

end
