(* ===== verification/Sealer.thy ===== *)
theory Sealer
  imports Core_Aead Word_Ops "HOL-Library.Sublist"
begin

text \<open>
  Authenticated encryption that chooses its own nonces: \<open>Sealer\<close> and \<open>Opener\<close> of
  \<open>crates/ic-cipher/src/sealer.rs\<close>, over any instance of the contract of authenticated
  encryption. What a sealer sealed, in the order it sealed it and with any losses, an
  opener opens; a nonce is used once and opens once.
\<close>

section \<open>The code\<close>

definition SEALER_NONCE_LEN :: nat where "SEALER_NONCE_LEN = 12"
definition FIXED_LEN :: nat where "FIXED_LEN = 4"

definition sealer_nonce :: "bytes \<Rightarrow> u64 \<Rightarrow> bytes result" where
  "sealer_nonce fixed counter =
     (if counter = 0xFFFFFFFFFFFFFFFF
      then Err CounterExhausted ''sealer counter exhausted; it never reuses a nonce''
      else Ok (write_at FIXED_LEN (be_of_word 8 counter) (write_at 0 fixed (replicate SEALER_NONCE_LEN 0))))"

definition check_nonce_len :: "'a aead_ops \<Rightarrow> unit result" where
  "check_nonce_len A =
     (if AEAD_NONCE_LEN A \<noteq> SEALER_NONCE_LEN
      then Err Unsupported ''sealer needs an AEAD with a 12-byte nonce'' else Ok ())"

record 'a sealer =
  sealer_aead :: 'a
  sealer_fixed :: bytes
  sealer_counter :: u64

definition sealer_resume ::
  "'a aead_ops \<Rightarrow> module_state \<Rightarrow> bytes \<Rightarrow> bytes \<Rightarrow> u64 \<Rightarrow> 'a sealer result" where
  "sealer_resume A m key fixed counter = bind_result (check_nonce_len A) (\<lambda>_.
     bind_result (aead_new A m key) (\<lambda>c.
       Ok \<lparr>sealer_aead = c, sealer_fixed = fixed, sealer_counter = counter\<rparr>))"

definition sealer_new :: "'a aead_ops \<Rightarrow> module_state \<Rightarrow> bytes \<Rightarrow> bytes \<Rightarrow> 'a sealer result" where
  "sealer_new A m key fixed = sealer_resume A m key fixed 0"

definition sealer_seal ::
  "'a aead_ops \<Rightarrow> module_state \<Rightarrow> bytes \<Rightarrow> bytes \<Rightarrow> bytes \<Rightarrow> 'a sealer
   \<Rightarrow> bytes result \<times> bytes \<times> bytes \<times> 'a sealer" where
  "sealer_seal A m aad in_out tag s =
     (case sealer_nonce (sealer_fixed s) (sealer_counter s) of
        Inl e \<Rightarrow> (Inl e, in_out, tag, s)
      | Inr n \<Rightarrow>
          (case aead_seal A m (sealer_aead s) n aad in_out tag of
             (Inl e, in_out, tag) \<Rightarrow> (Inl e, in_out, tag, s)
           | (Inr _, in_out, tag) \<Rightarrow> (Ok n, in_out, tag, s\<lparr>sealer_counter := sealer_counter s + 1\<rparr>)))"

record 'a opener =
  opener_aead :: 'a
  opener_fixed :: bytes
  opener_next :: u64

definition opener_new :: "'a aead_ops \<Rightarrow> module_state \<Rightarrow> bytes \<Rightarrow> bytes \<Rightarrow> 'a opener result" where
  "opener_new A m key fixed = bind_result (check_nonce_len A) (\<lambda>_.
     bind_result (aead_new A m key) (\<lambda>c.
       Ok \<lparr>opener_aead = c, opener_fixed = fixed, opener_next = 0\<rparr>))"

definition opener_open ::
  "'a aead_ops \<Rightarrow> module_state \<Rightarrow> bytes \<Rightarrow> bytes \<Rightarrow> bytes \<Rightarrow> bytes \<Rightarrow> 'a opener
   \<Rightarrow> unit result \<times> bytes \<times> 'a opener" where
  "opener_open A m nonce aad in_out tag r =
     (if length nonce \<noteq> SEALER_NONCE_LEN then (Err InvalidLength ''sealer nonce must be 12 bytes'', in_out, r)
      else if take FIXED_LEN nonce \<noteq> opener_fixed r
      then (Err AuthenticationFailed ''sealer nonce is from another sender'', in_out, r)
      else
        let counter = word_of_be (drop FIXED_LEN nonce) :: u64
        in if \<not> (opener_next r \<le> counter \<and> counter \<noteq> 0xFFFFFFFFFFFFFFFF)
           then (Err AuthenticationFailed ''sealer nonce replayed or out of order'', in_out, r)
           else (case aead_open A m (opener_aead r) nonce aad in_out tag of
                   (Inl e, in_out) \<Rightarrow> (Inl e, in_out, r)
                 | (Inr _, in_out) \<Rightarrow> (Ok (), in_out, r\<lparr>opener_next := counter + 1\<rparr>)))"

section \<open>Nonces\<close>

text \<open>The counter of a nonce.\<close>

definition nonce_counter :: "bytes \<Rightarrow> u64" where
  "nonce_counter n = word_of_be (drop FIXED_LEN n)"

lemma sealer_nonce_Ok:
  assumes "length fixed = 4" "sealer_nonce fixed counter = Inr n"
  shows "n = fixed @ be_of_word 8 counter" "length n = 12" "take FIXED_LEN n = fixed"
    "nonce_counter n = counter" "counter \<noteq> 0xFFFFFFFFFFFFFFFF"
proof -
  show n: "n = fixed @ be_of_word 8 counter" and "counter \<noteq> 0xFFFFFFFFFFFFFFFF"
    using assms by (auto simp: sealer_nonce_def FIXED_LEN_def SEALER_NONCE_LEN_def write_at_def split: if_splits)
  then show "length n = 12" "take FIXED_LEN n = fixed" "nonce_counter n = counter"
    using assms(1) by (simp_all add: FIXED_LEN_def nonce_counter_def word_of_be_of_word)
qed

lemma counter_step:
  assumes "(c :: u64) \<noteq> 0xFFFFFFFFFFFFFFFF"
  shows "c < c + 1" "uint (c + 1) = uint c + 1"
proof -
  have "uint c \<noteq> 0xFFFFFFFFFFFFFFFF" using assms by (metis word_of_int_uint word_of_int_numeral)
  moreover have "uint c < 2 ^ 64" using uint_lt2p [of c] by simp
  ultimately have b: "uint c + 1 < 2 ^ 64" by simp
  then show u: "uint (c + 1) = uint c + 1" by (simp add: uint_word_ariths)
  then show "c < c + 1" by (simp add: word_less_def)
qed

section \<open>A run of a sealer\<close>

text \<open>
  Requests carry the module's state, the associated data, the message and the tag
  buffer; a packet is what goes out: the associated data, the nonce, the ciphertext and
  the tag, here beside the message it stands for.
\<close>

type_synonym request = "module_state \<times> bytes \<times> bytes \<times> bytes"
type_synonym packet = "bytes \<times> bytes \<times> bytes \<times> bytes \<times> bytes"

fun sealer_run :: "'a aead_ops \<Rightarrow> request list \<Rightarrow> 'a sealer \<Rightarrow> packet list \<times> 'a sealer" where
  "sealer_run A [] s = ([], s)"
| "sealer_run A ((m, aad, p, t) # rs) s =
     (case sealer_seal A m aad p t s of
        (Inl e, x, y, s) \<Rightarrow> sealer_run A rs s
      | (Inr n, x, y, s) \<Rightarrow> (case sealer_run A rs s of (ps, s) \<Rightarrow> ((aad, n, x, y, p) # ps, s)))"

text \<open>What an opener answers to a list of packets, each with the message it left.\<close>

fun opener_run ::
  "'a aead_ops \<Rightarrow> module_state \<Rightarrow> packet list \<Rightarrow> 'a opener \<Rightarrow> (unit result \<times> bytes) list \<times> 'a opener" where
  "opener_run A m [] r = ([], r)"
| "opener_run A m ((aad, n, x, y, p) # ps) r =
     (case opener_open A m n aad x y r of
        (res, out, r) \<Rightarrow> (case opener_run A m ps r of (outs, r) \<Rightarrow> ((res, out) # outs, r)))"

definition packet_nonce :: "packet \<Rightarrow> bytes" where
  "packet_nonce pk = (case pk of (aad, n, x, y, p) \<Rightarrow> n)"

definition packet_message :: "packet \<Rightarrow> bytes" where
  "packet_message pk = (case pk of (aad, n, x, y, p) \<Rightarrow> p)"

text \<open>
  Counters of a run: each packet's nonce is the fixed field and a counter, the counters
  rise, none is below the first and all are below the sealer's next.
\<close>

fun rising :: "bytes \<Rightarrow> u64 \<Rightarrow> packet list \<Rightarrow> bool" where
  "rising fixed c [] = True"
| "rising fixed c (pk # ps) =
     (take FIXED_LEN (packet_nonce pk) = fixed \<and> length (packet_nonce pk) = 12
      \<and> c \<le> nonce_counter (packet_nonce pk) \<and> nonce_counter (packet_nonce pk) \<noteq> 0xFFFFFFFFFFFFFFFF
      \<and> rising fixed (nonce_counter (packet_nonce pk) + 1) ps)"

lemma rising_weaken: "rising fixed c ps \<Longrightarrow> c' \<le> c \<Longrightarrow> rising fixed c' ps"
  by (cases ps) auto

lemma rising_subseq: "subseq qs ps \<Longrightarrow> rising fixed c ps \<Longrightarrow> rising fixed c qs"
proof (induction arbitrary: c rule: list_emb.induct)
  case (list_emb_Cons xs ys y)
  have "rising fixed (nonce_counter (packet_nonce y) + 1) xs"
    using list_emb_Cons by simp
  moreover have "c \<le> nonce_counter (packet_nonce y) + 1"
    using list_emb_Cons.prems counter_step(1) [of "nonce_counter (packet_nonce y)"]
    by (auto intro: order.trans less_imp_le)
  ultimately show ?case by (rule rising_weaken)
qed simp_all

lemma rising_above:
  "rising fixed c ps \<Longrightarrow> pk \<in> set ps \<Longrightarrow> c \<le> nonce_counter (packet_nonce pk)"
proof (induction ps arbitrary: c)
  case (Cons q ps)
  then show ?case
    using counter_step(1) [of "nonce_counter (packet_nonce q)"] by (force dest: order.trans)
qed simp

lemma rising_distinct: "rising fixed c ps \<Longrightarrow> distinct (map packet_nonce ps)"
proof (induction ps arbitrary: c)
  case (Cons q ps)
  have "packet_nonce pk \<noteq> packet_nonce q" if "pk \<in> set ps" for pk
    using rising_above [of fixed "nonce_counter (packet_nonce q) + 1" ps pk] that Cons.prems
      counter_step(1) [of "nonce_counter (packet_nonce q)"] by (auto simp: not_less [symmetric])
  then show ?case using Cons by force
qed simp

section \<open>Over the contract\<close>

text \<open>A sealer and an opener of one sender: the same cipher instance and the same fixed field.\<close>

definition paired :: "'a sealer \<Rightarrow> 'a opener \<Rightarrow> bool" where
  "paired s r \<longleftrightarrow> opener_aead r = sealer_aead s \<and> opener_fixed r = sealer_fixed s
     \<and> length (sealer_fixed s) = 4"

lemma sealer_seal_failed: "sealer_seal A m aad p t s = (Inl e, x, y, s') \<Longrightarrow> s' = s"
  by (auto simp: sealer_seal_def split: sum.splits prod.splits)

lemma sealer_seal_okE:
  assumes "sealer_seal A m aad p t s = (Inr n, x, y, s')" "length (sealer_fixed s) = 4"
  obtains "n = sealer_fixed s @ be_of_word 8 (sealer_counter s)" "sealer_counter s \<noteq> 0xFFFFFFFFFFFFFFFF"
    "aead_seal A m (sealer_aead s) n aad p t = (Inr (), x, y)"
    "s' = s\<lparr>sealer_counter := sealer_counter s + 1\<rparr>"
proof -
  from assms(1) obtain n' where "sealer_nonce (sealer_fixed s) (sealer_counter s) = Inr n'"
    by (auto simp: sealer_seal_def split: sum.splits)
  with assms sealer_nonce_Ok [OF assms(2) this] that show ?thesis
    by (auto simp: sealer_seal_def split: sum.splits prod.splits)
qed

text \<open>The nonce an opener is offered by its sender is refused exactly when its counter is behind.\<close>

lemma opener_open_eq:
  assumes "length n = 12" "take FIXED_LEN n = opener_fixed r"
  shows "opener_open A m n aad x y r =
    (if opener_next r \<le> nonce_counter n \<and> nonce_counter n \<noteq> 0xFFFFFFFFFFFFFFFF
     then (case aead_open A m (opener_aead r) n aad x y of
             (Inl e, out) \<Rightarrow> (Inl e, out, r)
           | (Inr _, out) \<Rightarrow> (Ok (), out, r\<lparr>opener_next := nonce_counter n + 1\<rparr>))
     else (Err AuthenticationFailed ''sealer nonce replayed or out of order'', x, r))"
  using assms unfolding opener_open_def nonce_counter_def SEALER_NONCE_LEN_def Let_def by auto

lemma opener_open_okE:
  assumes "opener_open A m n aad x y r = (Inr u, out, r')"
  obtains "length n = 12" "take FIXED_LEN n = opener_fixed r" "opener_next r \<le> nonce_counter n"
    "nonce_counter n \<noteq> 0xFFFFFFFFFFFFFFFF" "aead_open A m (opener_aead r) n aad x y = (Inr (), out)"
    "r' = r\<lparr>opener_next := nonce_counter n + 1\<rparr>"
  using assms
  by (auto simp: opener_open_def nonce_counter_def SEALER_NONCE_LEN_def Let_def
        split: if_splits sum.splits prod.splits)

text \<open>The opener's counter never goes back, and its sender does not change.\<close>

lemma opener_open_mono:
  assumes "opener_open A m n aad x y r = (res, out, r')"
  shows "opener_next r \<le> opener_next r'" "opener_fixed r' = opener_fixed r" "opener_aead r' = opener_aead r"
proof -
  have "opener_next r \<le> opener_next r' \<and> opener_fixed r' = opener_fixed r \<and> opener_aead r' = opener_aead r"
  proof (cases res)
    case (Inl e)
    with assms have "r' = r"
      by (auto simp: opener_open_def Let_def split: if_splits sum.splits prod.splits)
    then show ?thesis by simp
  next
    case (Inr u)
    with assms show ?thesis
      using counter_step(1) [of "nonce_counter n"]
      by (auto elim!: opener_open_okE intro: order.trans less_imp_le)
  qed
  then show "opener_next r \<le> opener_next r'" "opener_fixed r' = opener_fixed r" "opener_aead r' = opener_aead r"
    by blast+
qed

lemma opener_run_mono:
  "opener_run A m ps r = (outs, r') \<Longrightarrow>
     opener_next r \<le> opener_next r' \<and> opener_fixed r' = opener_fixed r \<and> opener_aead r' = opener_aead r"
proof (induction ps arbitrary: r r' outs)
  case (Cons pk ps)
  obtain aad n x y p where pk: "pk = (aad, n, x, y, p)" by (cases pk)
  obtain res out r1 where o: "opener_open A m n aad x y r = (res, out, r1)"
    by (cases "opener_open A m n aad x y r") auto
  obtain outs' r2 where r: "opener_run A m ps r1 = (outs', r2)" by (cases "opener_run A m ps r1")
  have "r' = r2" using Cons.prems by (simp add: pk o r)
  then show ?case using Cons.IH [OF r] opener_open_mono [OF o] by (auto intro: order.trans)
qed simp

text \<open>A packet that opened is refused ever after, and its buffer is left as it came.\<close>

lemma no_replay:
  assumes "opener_open A m n aad x y r = (Inr u, out, r1)" "opener_run A m' ps r1 = (outs, r2)"
  shows "opener_open A m'' n aad' x' y' r2 =
    (Err AuthenticationFailed ''sealer nonce replayed or out of order'', x', r2)"
  using assms(1)
proof (rule opener_open_okE)
  assume n: "length n = 12" "take FIXED_LEN n = opener_fixed r" "nonce_counter n \<noteq> 0xFFFFFFFFFFFFFFFF"
    and r1: "r1 = r\<lparr>opener_next := nonce_counter n + 1\<rparr>"
  note mono = opener_run_mono [OF assms(2)]
  have "nonce_counter n < opener_next r2"
    using counter_step(1) [OF n(3)] mono by (simp add: r1 less_le_trans)
  then show ?thesis
    using n(1,2) mono by (subst opener_open_eq) (auto simp: r1)
qed

text \<open>The packets of a run have rising counters.\<close>

lemma sealer_run_rising:
  assumes "sealer_run A rs s = (ps, s')" "length (sealer_fixed s) = 4"
  shows "rising (sealer_fixed s) (sealer_counter s) ps"
  using assms
proof (induction rs arbitrary: s s' ps)
  case (Cons q rs)
  obtain m aad p t where q: "q = (m, aad, p, t)" by (cases q)
  obtain res x y s1 where o: "sealer_seal A m aad p t s = (res, x, y, s1)"
    by (cases "sealer_seal A m aad p t s") auto
  show ?case
  proof (cases res)
    case (Inl e)
    then have "s1 = s" using o sealer_seal_failed by blast
    then show ?thesis using Cons o Inl by (simp add: q)
  next
    case (Inr n)
    obtain ps1 s2 where r: "sealer_run A rs s1 = (ps1, s2)" by (cases "sealer_run A rs s1")
    have ps: "ps = (aad, n, x, y, p) # ps1" using Cons.prems(1) by (simp add: q o Inr r)
    show ?thesis
      using o [unfolded Inr] Cons.prems(2)
    proof (rule sealer_seal_okE)
      assume n: "n = sealer_fixed s @ be_of_word 8 (sealer_counter s)"
        and c: "sealer_counter s \<noteq> 0xFFFFFFFFFFFFFFFF" and s1: "s1 = s\<lparr>sealer_counter := sealer_counter s + 1\<rparr>"
      have "rising (sealer_fixed s1) (sealer_counter s1) ps1"
        by (rule Cons.IH [OF r]) (simp add: s1 Cons.prems(2))
      then show ?thesis
        using n c Cons.prems(2)
        by (simp add: ps s1 packet_nonce_def nonce_counter_def FIXED_LEN_def word_of_be_of_word)
    qed
  qed
qed simp

lemma subseq_set: "subseq qs ps \<Longrightarrow> set qs \<subseteq> set ps"
  by (induction rule: list_emb.induct) auto

context aead
begin

text \<open>Every packet of a run is a sealing under the sealer's instance.\<close>

lemma sealer_run_sealed:
  assumes "sealer_run A rs s = (ps, s')" "length (sealer_fixed s) = 4" "(aad, n, x, y, p) \<in> set ps"
  shows "\<exists>m t. aead_seal A m (sealer_aead s) n aad p t = (Inr (), x, y)"
  using assms
proof (induction rs arbitrary: s s' ps)
  case (Cons q rs)
  obtain m a q' t where q: "q = (m, a, q', t)" by (cases q)
  obtain res u v s1 where o: "sealer_seal A m a q' t s = (res, u, v, s1)"
    by (cases "sealer_seal A m a q' t s") auto
  show ?case
  proof (cases res)
    case (Inl e)
    then have "s1 = s" using o sealer_seal_failed by blast
    then show ?thesis using Cons o Inl by (simp add: q)
  next
    case (Inr k)
    obtain ps1 s2 where r: "sealer_run A rs s1 = (ps1, s2)" by (cases "sealer_run A rs s1")
    have ps: "ps = (a, k, u, v, q') # ps1" using Cons.prems(1) by (simp add: q o Inr r)
    from o [unfolded Inr] Cons.prems(2) show ?thesis
    proof (rule sealer_seal_okE)
      assume sealed: "aead_seal A m (sealer_aead s) k a q' t = (Inr (), u, v)"
        and s1: "s1 = s\<lparr>sealer_counter := sealer_counter s + 1\<rparr>"
      show ?thesis
      proof (cases "(aad, n, x, y, p) = (a, k, u, v, q')")
        case True
        with sealed show ?thesis by blast
      next
        case False
        then have "(aad, n, x, y, p) \<in> set ps1" using Cons.prems(3) by (auto simp: ps)
        from Cons.IH [OF r _ this] Cons.prems(2) show ?thesis by (simp add: s1)
      qed
    qed
  qed
qed simp

lemma opener_run_opens:
  assumes "operational m = Inr ()" "keyed (opener_aead r)"
    and "rising (opener_fixed r) c ps" "opener_next r \<le> c"
    and "\<And>aad n x y p. (aad, n, x, y, p) \<in> set ps \<Longrightarrow> \<exists>m t. aead_seal A m (opener_aead r) n aad p t = (Inr (), x, y)"
  shows "fst (opener_run A m ps r) = map (\<lambda>pk. (Ok (), packet_message pk)) ps"
  using assms(2-)
proof (induction ps arbitrary: r c)
  case (Cons pk ps)
  obtain aad n x y p where pk: "pk = (aad, n, x, y, p)" by (cases pk)
  have n: "length n = 12" "take FIXED_LEN n = opener_fixed r" "opener_next r \<le> nonce_counter n"
    "nonce_counter n \<noteq> 0xFFFFFFFFFFFFFFFF" and rest: "rising (opener_fixed r) (nonce_counter n + 1) ps"
    using Cons.prems(2,3) by (auto simp: pk packet_nonce_def intro: order.trans)
  obtain m' t where "aead_seal A m' (opener_aead r) n aad p t = (Inr (), x, y)"
    using Cons.prems(4) by (fastforce simp: pk)
  from open_seal [OF Cons.prems(1) this assms(1)]
  have o: "opener_open A m n aad x y r = (Ok (), p, r\<lparr>opener_next := nonce_counter n + 1\<rparr>)"
    using n by (simp add: opener_open_eq)
  have "fst (opener_run A m ps (r\<lparr>opener_next := nonce_counter n + 1\<rparr>)) = map (\<lambda>pk. (Ok (), packet_message pk)) ps"
    using Cons.prems rest by (intro Cons.IH [where c = "nonce_counter n + 1"]) (auto simp: pk)
  then show ?case
    by (cases "opener_run A m ps (r\<lparr>opener_next := nonce_counter n + 1\<rparr>)") (simp add: pk o packet_message_def)
qed simp

text \<open>Whatever packets are lost, the rest arrive: every subsequence of a run opens to its messages.\<close>

lemma delivery:
  assumes "sealer_run A rs s = (ps, s')" "paired s r" "keyed (sealer_aead s)"
    and "opener_next r \<le> sealer_counter s" "operational m = Inr ()" "subseq qs ps"
  shows "fst (opener_run A m qs r) = map (\<lambda>pk. (Ok (), packet_message pk)) qs"
proof (rule opener_run_opens [OF assms(5)])
  have s: "opener_aead r = sealer_aead s" "opener_fixed r = sealer_fixed s" "length (sealer_fixed s) = 4"
    using assms(2) by (simp_all add: paired_def)
  show "keyed (opener_aead r)" using assms(3) s by simp
  show "opener_next r \<le> sealer_counter s" by (rule assms(4))
  show "rising (opener_fixed r) (sealer_counter s) qs"
    using rising_subseq [OF assms(6) sealer_run_rising [OF assms(1) s(3)]] s by simp
  fix aad n x y p assume "(aad, n, x, y, p) \<in> set qs"
  then have "(aad, n, x, y, p) \<in> set ps" using assms(6) by (auto dest: subseq_set)
  from sealer_run_sealed [OF assms(1) s(3) this] show "\<exists>m t. aead_seal A m (opener_aead r) n aad p t = (Inr (), x, y)"
    using s by simp
qed

end

end
