(* ===== verification/Keccak.thy ===== *)
theory Keccak
  imports Word_Ops
begin

unbundle bit_operations_syntax

text \<open>
  The permutation of SHA-3, \<open>crates/ic-hash/src/sha3.rs\<close>: \<open>keccak_f1600_body\<close> in its straight-line form
  with six lanes held complemented, and the five steps of FIPS 202 it computes.
\<close>

section \<open>The permutation as the code has it\<close>

definition ROUNDS :: nat where "ROUNDS = 24"

definition RC :: "u64 list" where
  "RC = [0x0000000000000001, 0x0000000000008082, 0x800000000000808a, 0x8000000080008000,
     0x000000000000808b, 0x0000000080000001, 0x8000000080008081, 0x8000000000008009,
     0x000000000000008a, 0x0000000000000088, 0x0000000080008009, 0x000000008000000a,
     0x000000008000808b, 0x800000000000008b, 0x8000000000008089, 0x8000000000008003,
     0x8000000000008002, 0x8000000000000080, 0x000000000000800a, 0x800000008000000a,
     0x8000000080008081, 0x8000000000008080, 0x0000000080000001, 0x8000000080008008]"

definition COMPLEMENTED :: "nat list" where
  "COMPLEMENTED = [1, 2, 8, 12, 17, 20]"

definition complement :: "u64 list \<Rightarrow> u64 list" where
  "complement a = fold (\<lambda>i a. a[i := NOT (a ! i)]) COMPLEMENTED a"

definition theta_d :: "u64 list \<Rightarrow> u64 list" where
  "theta_d a = (let
      c0 = a ! 0 XOR a ! 5 XOR a ! 10 XOR a ! 15 XOR a ! 20;
      c1 = a ! 1 XOR a ! 6 XOR a ! 11 XOR a ! 16 XOR a ! 21;
      c2 = a ! 2 XOR a ! 7 XOR a ! 12 XOR a ! 17 XOR a ! 22;
      c3 = a ! 3 XOR a ! 8 XOR a ! 13 XOR a ! 18 XOR a ! 23;
      c4 = a ! 4 XOR a ! 9 XOR a ! 14 XOR a ! 19 XOR a ! 24
    in [c4 XOR rotl 1 c1, c0 XOR rotl 1 c2, c1 XOR rotl 1 c3, c2 XOR rotl 1 c4, c3 XOR rotl 1 c0])"

definition rho_pi :: "u64 list \<Rightarrow> u64 list \<Rightarrow> u64 list" where
  "rho_pi a d = [a ! 0 XOR d ! 0, rotl 44 (a ! 6 XOR d ! 1), rotl 43 (a ! 12 XOR d ! 2),
     rotl 21 (a ! 18 XOR d ! 3), rotl 14 (a ! 24 XOR d ! 4), rotl 28 (a ! 3 XOR d ! 3),
     rotl 20 (a ! 9 XOR d ! 4), rotl 3 (a ! 10 XOR d ! 0), rotl 45 (a ! 16 XOR d ! 1),
     rotl 61 (a ! 22 XOR d ! 2), rotl 1 (a ! 1 XOR d ! 1), rotl 6 (a ! 7 XOR d ! 2),
     rotl 25 (a ! 13 XOR d ! 3), rotl 8 (a ! 19 XOR d ! 4), rotl 18 (a ! 20 XOR d ! 0),
     rotl 27 (a ! 4 XOR d ! 4), rotl 36 (a ! 5 XOR d ! 0), rotl 10 (a ! 11 XOR d ! 1),
     rotl 15 (a ! 17 XOR d ! 2), rotl 56 (a ! 23 XOR d ! 3), rotl 62 (a ! 2 XOR d ! 2),
     rotl 55 (a ! 8 XOR d ! 3), rotl 39 (a ! 14 XOR d ! 4), rotl 41 (a ! 15 XOR d ! 0),
     rotl 2 (a ! 21 XOR d ! 1)]"

definition chi_complemented :: "u64 list \<Rightarrow> u64 list" where
  "chi_complemented b = [b ! 0 XOR (b ! 1 OR b ! 2), b ! 1 XOR (NOT (b ! 2) OR b ! 3),
     b ! 2 XOR (b ! 3 AND b ! 4), b ! 3 XOR (b ! 4 OR b ! 0),
     b ! 4 XOR (b ! 0 AND b ! 1), b ! 5 XOR (b ! 6 OR b ! 7),
     b ! 6 XOR (b ! 7 AND b ! 8), b ! 7 XOR (b ! 8 OR NOT (b ! 9)),
     b ! 8 XOR (b ! 9 OR b ! 5), b ! 9 XOR (b ! 5 AND b ! 6),
     b ! 10 XOR (b ! 11 OR b ! 12), b ! 11 XOR (b ! 12 AND b ! 13),
     b ! 12 XOR (NOT (b ! 13) AND b ! 14), NOT (b ! 13) XOR (b ! 14 OR b ! 10),
     b ! 14 XOR (b ! 10 AND b ! 11), b ! 15 XOR (b ! 16 AND b ! 17),
     b ! 16 XOR (b ! 17 OR b ! 18), b ! 17 XOR (NOT (b ! 18) OR b ! 19),
     NOT (b ! 18) XOR (b ! 19 AND b ! 15), b ! 19 XOR (b ! 15 OR b ! 16),
     b ! 20 XOR (NOT (b ! 21) AND b ! 22), NOT (b ! 21) XOR (b ! 22 OR b ! 23),
     b ! 22 XOR (b ! 23 AND b ! 24), b ! 23 XOR (b ! 24 OR b ! 20),
     b ! 24 XOR (b ! 20 AND b ! 21)]"

definition keccak_round :: "u64 \<Rightarrow> u64 list \<Rightarrow> u64 list" where
  "keccak_round rc a = (let d = theta_d a; b = rho_pi a d; a = chi_complemented b in a[0 := a ! 0 XOR rc])"

definition keccak_f1600_body :: "u64 list \<Rightarrow> u64 list" where
  "keccak_f1600_body a = complement (fold keccak_round (take ROUNDS RC) (complement a))"

definition keccak_f1600 :: "u64 list \<Rightarrow> u64 list" where
  "keccak_f1600 a = keccak_f1600_body a"

section \<open>The steps of FIPS 202\<close>

text \<open>Lane \<open>(x, y)\<close> stands at index \<open>x + 5 * y\<close>.\<close>

definition keccak_lane :: "u64 list \<Rightarrow> nat \<Rightarrow> nat \<Rightarrow> u64" where
  "keccak_lane a x y = a ! (x mod 5 + 5 * (y mod 5))"

definition lanes_of :: "(nat \<Rightarrow> nat \<Rightarrow> u64) \<Rightarrow> u64 list" where
  "lanes_of f = map (\<lambda>i. f (i mod 5) (i div 5)) [0..<25]"

definition theta :: "u64 list \<Rightarrow> u64 list" where
  "theta a = (let C = (\<lambda>x. keccak_lane a x 0 XOR keccak_lane a x 1 XOR keccak_lane a x 2 XOR keccak_lane a x 3 XOR keccak_lane a x 4)
    in lanes_of (\<lambda>x y. keccak_lane a x y XOR (C (x + 4) XOR rotl 1 (C (x + 1)))))"

text \<open>The rotation offsets, walking from lane \<open>(1, 0)\<close> to \<open>(y, 2 * x + 3 * y)\<close> at each step.\<close>

definition rho_offsets :: "nat list" where
  "rho_offsets = snd (fold (\<lambda>t ((x, y), r). ((y, (2 * x + 3 * y) mod 5), r[x + 5 * y := (t + 1) * (t + 2) div 2 mod 64]))
     [0..<24] ((1, 0), replicate 25 0))"

definition rho :: "u64 list \<Rightarrow> u64 list" where
  "rho a = lanes_of (\<lambda>x y. let r = rho_offsets ! (x + 5 * y) in if r = 0 then keccak_lane a x y else rotl r (keccak_lane a x y))"

definition pi_step :: "u64 list \<Rightarrow> u64 list" where
  "pi_step a = lanes_of (\<lambda>x y. keccak_lane a (x + 3 * y) x)"

definition chi :: "u64 list \<Rightarrow> u64 list" where
  "chi a = lanes_of (\<lambda>x y. keccak_lane a x y XOR (NOT (keccak_lane a (x + 1) y) AND keccak_lane a (x + 2) y))"

text \<open>The round constants come from the shift register with feedback polynomial 0x71.\<close>

fun rc_registers :: "nat \<Rightarrow> int \<Rightarrow> int list" where
  "rc_registers 0 r = []"
| "rc_registers (Suc n) r = r # rc_registers n (if 128 \<le> r then (2 * r) XOR 0x171 else 2 * r)"

definition round_constant :: "nat \<Rightarrow> u64" where
  "round_constant i = fold (\<lambda>j rc. if odd (rc_registers 168 1 ! (j + 7 * i)) then rc OR push_bit (2 ^ j - 1) 1 else rc) [0..<7] 0"

definition iota :: "u64 \<Rightarrow> u64 list \<Rightarrow> u64 list" where
  "iota rc a = a[0 := a ! 0 XOR rc]"

definition keccak_spec :: "u64 list \<Rightarrow> u64 list" where
  "keccak_spec a = fold (\<lambda>i a. iota (round_constant i) (chi (pi_step (rho (theta a))))) [0..<24] a"

section \<open>Equivalence\<close>

definition flip_lanes :: "bool list \<Rightarrow> u64 list \<Rightarrow> u64 list" where
  "flip_lanes f a = map2 (\<lambda>b w. if b then NOT w else w) f a"

lemma length_complement [simp]: "length (complement a) = length a"
  by (simp add: complement_def COMPLEMENTED_def)

lemma list_25:
  assumes "length xs = 25"
  obtains x0 x1 x2 x3 x4 x5 x6 x7 x8 x9 x10 x11 x12 x13 x14 x15 x16 x17 x18 x19 x20 x21 x22 x23 x24
  where "xs = [x0, x1, x2, x3, x4, x5, x6, x7, x8, x9, x10, x11, x12, x13, x14, x15, x16, x17, x18, x19, x20, x21, x22, x23, x24]"
  using assms by (auto simp: length_Suc_conv eval_nat_numeral)

lemma upt_25: "[0..<25] = [0, 1, 2, 3, 4, 5, 6, 7, 8, 9, 10, 11, 12, 13, 14, 15, 16, 17, 18, 19, 20, 21, 22, 23, 24 :: nat]"
  by code_simp

lemma rotl_not: "rotl k (NOT w) = NOT (rotl k w)" if "0 < k" "k < 64" for w :: u64
  using that by (intro bit_word_eqI) (simp add: bit_rotl bit_not_iff)

lemmas not_xor = bit.xor_compl_left bit.xor_compl_right bit.double_compl

lemma theta_d_complement:
  "theta_d (complement [x0, x1, x2, x3, x4, x5, x6, x7, x8, x9, x10, x11, x12, x13, x14, x15, x16, x17, x18, x19, x20, x21, x22, x23, x24])
   = flip_lanes [True, False, False, True, False] (theta_d [x0, x1, x2, x3, x4, x5, x6, x7, x8, x9, x10, x11, x12, x13, x14, x15, x16, x17, x18, x19, x20, x21, x22, x23, x24])"
  by (simp add: theta_d_def Let_def complement_def COMPLEMENTED_def flip_lanes_def not_xor rotl_not)

lemma rho_pi_complement:
  "rho_pi (complement [x0, x1, x2, x3, x4, x5, x6, x7, x8, x9, x10, x11, x12, x13, x14, x15, x16, x17, x18, x19, x20, x21, x22, x23, x24])
     (flip_lanes [True, False, False, True, False] [d0, d1, d2, d3, d4])
   = flip_lanes [True, False, True, True, False, True, False, True, False, False, True, False, True, False, False, False, True, False, True, True, True, False, False, True, False] (rho_pi [x0, x1, x2, x3, x4, x5, x6, x7, x8, x9, x10, x11, x12, x13, x14, x15, x16, x17, x18, x19, x20, x21, x22, x23, x24] [d0, d1, d2, d3, d4])"
  by (simp add: rho_pi_def complement_def COMPLEMENTED_def flip_lanes_def not_xor rotl_not)

lemma chi_or: "x XOR (y OR NOT z) = NOT (x XOR (NOT y AND z))" for x y z :: u64
  by (rule bit_word_eqI) (auto simp: bit_xor_iff bit_or_iff bit_and_iff bit_not_iff)

lemma chi_flip:
  "chi_complemented (flip_lanes [True, False, True, True, False, True, False, True, False, False, True, False, True, False, False, False, True, False, True, True, True, False, False, True, False] [x0, x1, x2, x3, x4, x5, x6, x7, x8, x9, x10, x11, x12, x13, x14, x15, x16, x17, x18, x19, x20, x21, x22, x23, x24])
   = complement (chi [x0, x1, x2, x3, x4, x5, x6, x7, x8, x9, x10, x11, x12, x13, x14, x15, x16, x17, x18, x19, x20, x21, x22, x23, x24])"
  unfolding chi_def lanes_of_def keccak_lane_def upt_25
  by (simp add: chi_complemented_def complement_def COMPLEMENTED_def flip_lanes_def not_xor chi_or)

lemma rc_registers_table: "rc_registers 168 1 = [1, 2, 4, 8, 16, 32, 64, 128, 113, 226, 181, 27, 54, 108, 216, 193, 243, 151, 95, 190, 13, 26, 52, 104,
     208, 209, 211, 215, 223, 207, 239, 175, 47, 94, 188, 9, 18, 36, 72, 144, 81, 162, 53, 106, 212, 217, 195, 247,
     159, 79, 158, 77, 154, 69, 138, 101, 202, 229, 187, 7, 14, 28, 56, 112, 224, 177, 19, 38, 76, 152, 65, 130,
     117, 234, 165, 59, 118, 236, 169, 35, 70, 140, 105, 210, 213, 219, 199, 255, 143, 111, 222, 205, 235, 167, 63, 126,
     252, 137, 99, 198, 253, 139, 103, 206, 237, 171, 39, 78, 156, 73, 146, 85, 170, 37, 74, 148, 89, 178, 21, 42,
     84, 168, 33, 66, 132, 121, 242, 149, 91, 182, 29, 58, 116, 232, 161, 51, 102, 204, 233, 163, 55, 110, 220, 201,
     227, 183, 31, 62, 124, 248, 129, 115, 230, 189, 11, 22, 44, 88, 176, 17, 34, 68, 136, 97, 194, 245, 155, 71]"
  by code_simp

lemma RC_constants: "RC = map round_constant [0..<24]"
proof -
  have "[0..<24] = [0, 1, 2, 3, 4, 5, 6, 7, 8, 9, 10, 11, 12, 13, 14, 15, 16, 17, 18, 19, 20, 21, 22, 23 :: nat]" "[0..<7] = [0, 1, 2, 3, 4, 5, 6 :: nat]"
    by code_simp+
  then show ?thesis
    unfolding round_constant_def rc_registers_table RC_def by (simp only: list.map fold_simps) simp
qed

lemma rho_offsets_table: "rho_offsets = [0, 1, 62, 28, 27, 36, 44, 6, 55, 20, 3, 10, 43, 25, 39, 41, 45, 15, 21, 8, 18, 2, 61, 56, 14]"
  by code_simp

lemma rho_pi_spec:
  "rho_pi [x0, x1, x2, x3, x4, x5, x6, x7, x8, x9, x10, x11, x12, x13, x14, x15, x16, x17, x18, x19, x20, x21, x22, x23, x24]
     (theta_d [x0, x1, x2, x3, x4, x5, x6, x7, x8, x9, x10, x11, x12, x13, x14, x15, x16, x17, x18, x19, x20, x21, x22, x23, x24])
   = pi_step (rho (theta [x0, x1, x2, x3, x4, x5, x6, x7, x8, x9, x10, x11, x12, x13, x14, x15, x16, x17, x18, x19, x20, x21, x22, x23, x24]))"
proof -
  define C where "C x = keccak_lane [x0, x1, x2, x3, x4, x5, x6, x7, x8, x9, x10, x11, x12, x13, x14, x15, x16, x17, x18, x19, x20, x21, x22, x23, x24] x 0 XOR
      keccak_lane [x0, x1, x2, x3, x4, x5, x6, x7, x8, x9, x10, x11, x12, x13, x14, x15, x16, x17, x18, x19, x20, x21, x22, x23, x24] x 1 XOR
      keccak_lane [x0, x1, x2, x3, x4, x5, x6, x7, x8, x9, x10, x11, x12, x13, x14, x15, x16, x17, x18, x19, x20, x21, x22, x23, x24] x 2 XOR
      keccak_lane [x0, x1, x2, x3, x4, x5, x6, x7, x8, x9, x10, x11, x12, x13, x14, x15, x16, x17, x18, x19, x20, x21, x22, x23, x24] x 3 XOR
      keccak_lane [x0, x1, x2, x3, x4, x5, x6, x7, x8, x9, x10, x11, x12, x13, x14, x15, x16, x17, x18, x19, x20, x21, x22, x23, x24] x 4" for x
  define D where "D x = C (x + 4) XOR rotl 1 (C (x + 1))" for x
  have d: "theta_d [x0, x1, x2, x3, x4, x5, x6, x7, x8, x9, x10, x11, x12, x13, x14, x15, x16, x17, x18, x19, x20, x21, x22, x23, x24] = [D 0, D 1, D 2, D 3, D 4]"
    by (simp add: theta_d_def Let_def D_def C_def keccak_lane_def)
  have th: "theta [x0, x1, x2, x3, x4, x5, x6, x7, x8, x9, x10, x11, x12, x13, x14, x15, x16, x17, x18, x19, x20, x21, x22, x23, x24]
     = [x0 XOR D 0, x1 XOR D 1, x2 XOR D 2, x3 XOR D 3, x4 XOR D 4, x5 XOR D 0, x6 XOR D 1, x7 XOR D 2, x8 XOR D 3, x9 XOR D 4,
        x10 XOR D 0, x11 XOR D 1, x12 XOR D 2, x13 XOR D 3, x14 XOR D 4, x15 XOR D 0, x16 XOR D 1, x17 XOR D 2, x18 XOR D 3, x19 XOR D 4,
        x20 XOR D 0, x21 XOR D 1, x22 XOR D 2, x23 XOR D 3, x24 XOR D 4]"
    unfolding theta_def Let_def C_def [symmetric] D_def [symmetric] lanes_of_def upt_25 by (simp add: keccak_lane_def)
  show ?thesis
    unfolding d th rho_def pi_step_def lanes_of_def rho_offsets_table upt_25 by (simp add: keccak_lane_def rho_pi_def)
qed

lemma length_steps [simp]: "length (chi a) = 25" "length (iota rc a) = length a"
  by (simp_all add: chi_def lanes_of_def iota_def)

lemma iota_complement: "length a = 25 \<Longrightarrow> iota rc (complement a) = complement (iota rc a)"
  by (erule list_25) (simp add: iota_def complement_def COMPLEMENTED_def)

lemma complement_twice: "length a = 25 \<Longrightarrow> complement (complement a) = a"
  by (erule list_25) (simp add: complement_def COMPLEMENTED_def)

lemma keccak_round_complement:
  assumes "length a = 25"
  shows "keccak_round rc (complement a) = complement (iota rc (chi (pi_step (rho (theta a)))))"
proof -
  obtain d0 d1 d2 d3 d4 where d: "theta_d a = [d0, d1, d2, d3, d4]"
    unfolding theta_d_def Let_def by blast
  have len: "length (pi_step (rho (theta a))) = 25"
    by (simp add: pi_step_def lanes_of_def)
  have "chi_complemented (rho_pi (complement a) (theta_d (complement a))) = complement (chi (pi_step (rho (theta a))))"
    using assms
  proof (rule list_25)
    fix x0 x1 x2 x3 x4 x5 x6 x7 x8 x9 x10 x11 x12 x13 x14 x15 x16 x17 x18 x19 x20 x21 x22 x23 x24
    assume a: "a = [x0, x1, x2, x3, x4, x5, x6, x7, x8, x9, x10, x11, x12, x13, x14, x15, x16, x17, x18, x19, x20, x21, x22, x23, x24]"
    have "rho_pi (complement a) (theta_d (complement a)) = flip_lanes [True, False, True, True, False, True, False, True, False, False, True, False, True, False, False, False, True, False, True, True, True, False, False, True, False] (rho_pi a (theta_d a))"
      using d unfolding a theta_d_complement by (simp only: rho_pi_complement)
    also have "rho_pi a (theta_d a) = pi_step (rho (theta a))"
      unfolding a by (rule rho_pi_spec)
    finally have "rho_pi (complement a) (theta_d (complement a)) = flip_lanes [True, False, True, True, False, True, False, True, False, False, True, False, True, False, False, False, True, False, True, True, True, False, False, True, False] (pi_step (rho (theta a)))" .
    then show ?thesis
      using len by (elim list_25) (simp only: chi_flip)
  qed
  then show ?thesis
    using iota_complement [of "chi (pi_step (rho (theta a)))" rc] by (simp add: keccak_round_def Let_def iota_def)
qed

text \<open>The straight-line permutation on complemented lanes is Keccak-f[1600].\<close>

lemma keccak_f1600_spec:
  assumes "length a = 25"
  shows "keccak_f1600 a = keccak_spec a \<and> length (keccak_f1600 a) = 25"
proof -
  define R where "R rc a = iota rc (chi (pi_step (rho (theta a))))" for rc a
  have len: "length (R rc a) = 25" for rc a
    by (simp add: R_def)
  have run: "length a = 25 \<Longrightarrow> fold keccak_round rcs (complement a) = complement (fold R rcs a) \<and> length (fold R rcs a) = 25" for rcs a
    using len by (induction rcs arbitrary: a) (simp_all add: keccak_round_complement R_def)
  have "take ROUNDS RC = map round_constant [0..<24]"
    unfolding RC_constants ROUNDS_def by (simp del: upt_rec_numeral)
  moreover have "fold R (map round_constant [0..<24]) a = keccak_spec a"
    by (simp add: keccak_spec_def R_def [abs_def] fold_map comp_def del: upt_rec_numeral)
  ultimately show ?thesis
    using run [OF assms, of "map round_constant [0..<24]"] by (simp add: keccak_f1600_def keccak_f1600_body_def complement_twice)
qed

end
