(* ===== verification/Hash_Sha3.thy ===== *)
theory Hash_Sha3
  imports Keccak Mac_Hmac
begin

unbundle bit_operations_syntax

text \<open>
  The sponge of \<open>crates/ic-hash/src/sha3.rs\<close>, the four SHA-3 digests, the two SHAKE functions and the
  reader of an unbounded stream. Absorbing in any pieces and reading in any pieces give the sponge of
  FIPS 202 over the whole message and the whole output.
\<close>

section \<open>The sponge\<close>

record sponge =
  sponge_state :: "u64 list"
  sponge_rate :: nat
  sponge_pos :: nat
  sponge_pad :: u8

definition sponge_new :: "nat \<Rightarrow> u8 \<Rightarrow> sponge" where
  "sponge_new rate pad = \<lparr>sponge_state = replicate 25 0, sponge_rate = rate, sponge_pos = 0, sponge_pad = pad\<rparr>"

function xor_bytes_into :: "u64 list \<Rightarrow> nat \<Rightarrow> bytes \<Rightarrow> u64 list" where
  "xor_bytes_into state pos data = (if data = [] then state
     else let l = pos div 8; offset = pos mod 8; taken = min (8 - offset) (length data);
              bytes = replicate offset 0 @ take taken data @ replicate (8 - offset - taken) 0
       in xor_bytes_into (state[l := state ! l XOR word_of_le bytes]) (pos + taken) (drop taken data))"
  by pat_completeness auto
termination
  by (relation "measure (\<lambda>(state, pos, data). length data)") (auto simp: min_def)

declare xor_bytes_into.simps [simp del]

text \<open>A whole block, a lane at a time.\<close>

definition xor_block :: "u64 list \<Rightarrow> bytes \<Rightarrow> u64 list" where
  "xor_block state block = (let n = min (length state) (length block div 8)
     in map (\<lambda>i. state ! i XOR word_of_le (take 8 (drop (8 * i) block))) [0..<n] @ drop n state)"

text \<open>
  The loop of the code. A rate of zero never ends there, and a position past the rate panics; neither is a
  state of any of the types, and the recursion stops on them.
\<close>

function sponge_absorb :: "bytes \<Rightarrow> sponge \<Rightarrow> sponge" where
  "sponge_absorb data s = (if data = [] \<or> sponge_rate s = 0 \<or> sponge_rate s < sponge_pos s then s
     else if sponge_rate s mod 8 = 0 \<and> sponge_pos s = 0 \<and> sponge_rate s \<le> length data
     then sponge_absorb (drop (sponge_rate s) data)
            (s\<lparr>sponge_state := keccak_f1600 (xor_block (sponge_state s) (take (sponge_rate s) data))\<rparr>)
     else let taken = min (sponge_rate s - sponge_pos s) (length data);
              s1 = s\<lparr>sponge_state := xor_bytes_into (sponge_state s) (sponge_pos s) (take taken data), sponge_pos := sponge_pos s + taken\<rparr>;
              s2 = (if sponge_pos s1 = sponge_rate s1 then s1\<lparr>sponge_state := keccak_f1600 (sponge_state s1), sponge_pos := 0\<rparr> else s1)
       in sponge_absorb (drop taken data) s2)"
  by pat_completeness auto
termination
  by (relation "measures [\<lambda>(data, s). length data, \<lambda>(data, s). if sponge_pos s = sponge_rate s then 1 else 0]") (auto simp: Let_def min_def split: if_splits)

declare sponge_absorb.simps [simp del]

definition sponge_finish :: "sponge \<Rightarrow> sponge" where
  "sponge_finish s = (let
      l = sponge_pos s div 8;
      shift = 8 * (sponge_pos s mod 8);
      state = sponge_state s;
      state = state[l := state ! l XOR push_bit shift (ucast (sponge_pad s))];
      last = sponge_rate s - 1;
      state = state[last div 8 := state ! (last div 8) XOR push_bit (8 * (last mod 8)) 0x80]
    in s\<lparr>sponge_state := keccak_f1600 state, sponge_pos := 0\<rparr>)"

text \<open>The byte view of a run of words.\<close>

fun copy_head :: "(nat \<Rightarrow> u64) \<Rightarrow> nat \<Rightarrow> nat \<Rightarrow> bytes \<times> nat \<times> nat" where
  "copy_head word pos 0 = ([], pos, 0)"
| "copy_head word pos (Suc n) = (if pos mod 8 = 0 then ([], pos, Suc n)
     else let (bs, pos', n') = copy_head word (pos + 1) n in (ucast (drop_bit (8 * (pos mod 8)) (word (pos div 8))) # bs, pos', n'))"

definition copy_words_out :: "(nat \<Rightarrow> u64) \<Rightarrow> nat \<Rightarrow> nat \<Rightarrow> bytes" where
  "copy_words_out word start n = (let (head, pos, rest) = copy_head word start n;
       body = concat (map (\<lambda>i. le_of_word 8 (word ((pos + 8 * i) div 8))) [0..<rest div 8]);
       tail = map (\<lambda>k. ucast (drop_bit (8 * k) (word ((pos + 8 * (rest div 8)) div 8)))) [0..<rest mod 8]
     in head @ body @ tail)"

definition copy_bytes_from :: "u64 list \<Rightarrow> nat \<Rightarrow> nat \<Rightarrow> bytes" where
  "copy_bytes_from state start n = copy_words_out (\<lambda>w. state ! w) start n"

text \<open>Squeezing overwrites a buffer of the given length; the guard is that of \<open>sponge_absorb\<close>.\<close>

function sponge_squeeze :: "nat \<Rightarrow> sponge \<Rightarrow> bytes \<times> sponge" where
  "sponge_squeeze n s = (if n = 0 \<or> sponge_rate s = 0 \<or> sponge_rate s < sponge_pos s then ([], s)
     else let s1 = (if sponge_pos s = sponge_rate s then s\<lparr>sponge_state := keccak_f1600 (sponge_state s), sponge_pos := 0\<rparr> else s);
              taken = min (sponge_rate s1 - sponge_pos s1) n;
              now = copy_bytes_from (sponge_state s1) (sponge_pos s1) taken;
              (rest, s2) = sponge_squeeze (n - taken) (s1\<lparr>sponge_pos := sponge_pos s1 + taken\<rparr>)
       in (now @ rest, s2))"
  by pat_completeness auto
termination
  by (relation "measure fst") (auto simp: Let_def min_def split: if_splits)

declare sponge_squeeze.simps [simp del]

text \<open>The digests, the reader of a stream and the two extendable-output functions.\<close>

definition sha3_finalize :: "nat \<Rightarrow> sponge \<Rightarrow> bytes" where
  "sha3_finalize out_len s = fst (sponge_squeeze out_len (sponge_finish s))"

definition sha3_hash :: "nat \<Rightarrow> sponge digest_ops" where
  "sha3_hash out_len =
     \<lparr>digest_new = sponge_new (200 - 2 * out_len) 0x06, digest_update = sponge_absorb,
      digest_finalize = sha3_finalize out_len, OUTPUT_LEN = out_len, BLOCK_LEN = 200 - 2 * out_len\<rparr>"

definition sha3_224 :: "sponge digest_ops" where "sha3_224 = sha3_hash 28"
definition sha3_256 :: "sponge digest_ops" where "sha3_256 = sha3_hash 32"
definition sha3_384 :: "sponge digest_ops" where "sha3_384 = sha3_hash 48"
definition sha3_512 :: "sponge digest_ops" where "sha3_512 = sha3_hash 64"

record 's xof_ops =
  xof_new :: 's
  xof_update :: "bytes \<Rightarrow> 's \<Rightarrow> 's"
  finalize_xof :: "nat \<Rightarrow> 's \<Rightarrow> bytes"
  XOF_BLOCK_LEN :: nat

definition shake :: "nat \<Rightarrow> sponge xof_ops" where
  "shake cap =
     \<lparr>xof_new = sponge_new (200 - cap div 4) 0x1f, xof_update = sponge_absorb,
      finalize_xof = (\<lambda>n s. fst (sponge_squeeze n (sponge_finish s))), XOF_BLOCK_LEN = 200 - cap div 4\<rparr>"

definition shake128 :: "sponge xof_ops" where "shake128 = shake 128"
definition shake256 :: "sponge xof_ops" where "shake256 = shake 256"

text \<open>Behind the gate, as the public trait has it; output buffers are overwritten.\<close>

definition xof_pub_finalize :: "module_state \<Rightarrow> 's xof_ops \<Rightarrow> bytes \<Rightarrow> 's \<Rightarrow> unit result \<times> bytes" where
  "xof_pub_finalize m X out s =
     (case operational m of Inl e \<Rightarrow> (Inl e, out) | Inr _ \<Rightarrow> (Ok (), finalize_xof X (length out) s))"

definition xof_unchecked :: "sponge xof_ops \<Rightarrow> bytes \<Rightarrow> nat \<Rightarrow> bytes" where
  "xof_unchecked X data n = finalize_xof X n (xof_update X data (xof_new X))"

definition xof :: "module_state \<Rightarrow> sponge xof_ops \<Rightarrow> bytes \<Rightarrow> bytes \<Rightarrow> unit result \<times> bytes" where
  "xof m X data out =
     (case operational m of Inl e \<Rightarrow> (Inl e, out) | Inr _ \<Rightarrow> (Ok (), xof_unchecked X data (length out)))"

definition finalize_reader :: "sponge \<Rightarrow> sponge" where
  "finalize_reader s = sponge_finish s"

definition xof_read_unchecked :: "nat \<Rightarrow> sponge \<Rightarrow> bytes \<times> sponge" where
  "xof_read_unchecked n reader = sponge_squeeze n reader"

definition xof_read :: "module_state \<Rightarrow> bytes \<Rightarrow> sponge \<Rightarrow> unit result \<times> bytes \<times> sponge" where
  "xof_read m out reader =
     (case operational m of Inl e \<Rightarrow> (Inl e, out, reader) | Inr _ \<Rightarrow> (Ok (), sponge_squeeze (length out) reader))"

section \<open>The sponge of FIPS 202\<close>

text \<open>A string of up to 200 bytes XORed into the state, which is read as 25 little-endian lanes.\<close>

definition xor_string :: "u64 list \<Rightarrow> bytes \<Rightarrow> u64 list" where
  "xor_string S P = map (\<lambda>i. S ! i XOR word_of_le (take 8 (drop (8 * i) (P @ replicate (200 - length P) 0)))) [0..<25]"

definition state_string :: "u64 list \<Rightarrow> bytes" where
  "state_string S = concat (map (le_of_word 8) S)"

definition pad10 :: "nat \<Rightarrow> u8 \<Rightarrow> bytes \<Rightarrow> bytes" where
  "pad10 r d m = (let k = length m mod r in m @ (if k + 1 = r then [d XOR 0x80] else [d] @ replicate (r - k - 2) 0 @ [0x80]))"

definition sponge_chain :: "nat \<Rightarrow> bytes \<Rightarrow> u64 list" where
  "sponge_chain r P = chain r (\<lambda>S b. keccak_spec (xor_string S b)) (replicate 25 0) P"

definition sponge_stream :: "nat \<Rightarrow> u64 list \<Rightarrow> nat \<Rightarrow> u8" where
  "sponge_stream r S i = state_string ((keccak_spec ^^ (i div r)) S) ! (i mod r)"

definition sponge_spec :: "nat \<Rightarrow> u8 \<Rightarrow> bytes \<Rightarrow> nat \<Rightarrow> bytes" where
  "sponge_spec r d m n = map (sponge_stream r (sponge_chain r (pad10 r d m))) [0..<n]"

section \<open>Bytes of the state\<close>

definition sbyte :: "(nat \<Rightarrow> u64) \<Rightarrow> nat \<Rightarrow> u8" where
  "sbyte word k = ucast (drop_bit (8 * (k mod 8)) (word (k div 8)))"

lemma sbyte_le_of_word: "sbyte word k = le_of_word 8 (word (k div 8)) ! (k mod 8)"
  by (simp add: sbyte_def le_of_word_def)

lemma ucast_xor_u8: "ucast (drop_bit n (v XOR w)) = (ucast (drop_bit n v) XOR ucast (drop_bit n w) :: u8)" for v w :: u64
  by (rule bit_word_eqI) (auto simp: bit_unsigned_iff bit_drop_bit_eq bit_xor_iff)

lemma sponge_lane_eqI: "(\<And>j. j < 8 \<Longrightarrow> (ucast (drop_bit (8 * j) v) :: u8) = ucast (drop_bit (8 * j) w)) \<Longrightarrow> v = w" for v w :: u64
proof -
  assume "\<And>j. j < 8 \<Longrightarrow> (ucast (drop_bit (8 * j) v) :: u8) = ucast (drop_bit (8 * j) w)"
  then have "le_of_word 8 v = le_of_word 8 w"
    unfolding le_of_word_def by (intro map_cong refl) (simp del: upt_rec_numeral)
  then show "v = w"
    using le_of_word_inj [of 8 v w] by simp
qed

lemma state_eqI:
  assumes "length S = 25" "length T = 25" "\<And>k. k < 200 \<Longrightarrow> sbyte ((!) S) k = sbyte ((!) T) k"
  shows "S = T"
proof (rule nth_equalityI)
  fix i assume "i < length S"
  then have "sbyte ((!) S) (8 * i + j) = sbyte ((!) T) (8 * i + j)" if "j < 8" for j
    using that assms(1) by (intro assms(3)) simp
  then show "S ! i = T ! i"
    by (intro sponge_lane_eqI) (simp add: sbyte_def)
qed (use assms in simp)

lemma byte_of_word_of_le:
  assumes "length bs = 8" "j < 8"
  shows "ucast (drop_bit (8 * j) (word_of_le bs :: u64)) = bs ! j"
proof -
  have "le_of_word 8 (word_of_le bs :: u64) ! j = bs ! j"
    using le_of_word_of_le [of bs, where 'a = 64] assms(1) by simp
  then show ?thesis
    using assms(2) by (simp add: le_of_word_def)
qed

lemma nth_map_upt_0: "i < n \<Longrightarrow> map f [0..<n] ! i = f i"
  by simp

lemma slice_nth: "8 * q + j < length xs \<Longrightarrow> j < 8 \<Longrightarrow> take 8 (drop (8 * q) xs) ! j = xs ! (8 * q + j)"
  by simp

lemma sbyte_xor_string:
  assumes "length P \<le> 200" "k < 200"
  shows "sbyte ((!) (xor_string S P)) k = sbyte ((!) S) k XOR (if k < length P then P ! k else 0)"
proof -
  let ?Q = "P @ replicate (200 - length P) 0"
  have k: "k div 8 < 25" "k mod 8 < 8" "8 * (k div 8) + k mod 8 = k"
    using assms(2) by simp_all
  have "length (take 8 (drop (8 * (k div 8)) ?Q)) = 8"
    using assms k by simp
  then have "ucast (drop_bit (8 * (k mod 8)) (word_of_le (take 8 (drop (8 * (k div 8)) ?Q)) :: u64)) = ?Q ! k"
    using slice_nth [of "k div 8" "k mod 8" ?Q] k assms byte_of_word_of_le [OF _ k(2)] by (simp only: k(3)) simp
  moreover have "?Q ! k = (if k < length P then P ! k else 0)"
    using assms by (simp add: nth_append)
  moreover have "xor_string S P ! (k div 8) = S ! (k div 8) XOR word_of_le (take 8 (drop (8 * (k div 8)) ?Q))"
    using k(1) by (simp only: xor_string_def nth_map_upt_0)
  ultimately show ?thesis
    unfolding sbyte_def by (simp only: ucast_xor_u8)
qed

lemma length_xor_string [simp]: "length (xor_string S P) = 25"
  by (simp add: xor_string_def)

lemma state_string_nth: "length S = 25 \<Longrightarrow> k < 200 \<Longrightarrow> state_string S ! k = sbyte ((!) S) k"
proof -
  assume S: "length S = 25" "k < 200"
  have "chunks 8 (concat (map (le_of_word 8) S)) = map (le_of_word 8) S"
    by (intro chunks_concat) auto
  moreover have "length (concat (map (le_of_word 8) S)) = 25 * 8"
    using S(1) by (simp add: length_concat comp_def sum_list_triv)
  ultimately show ?thesis
    using nth_chunks [of "concat (map (le_of_word 8) S)" 25 8 "k div 8" "k mod 8"] S
    by (simp add: state_string_def sbyte_le_of_word)
qed

section \<open>Absorbing\<close>

lemma sbyte_update:
  assumes "length B = 8" "l < length S"
  shows "sbyte ((!) (S[l := S ! l XOR word_of_le B])) k = sbyte ((!) S) k XOR (if k div 8 = l then B ! (k mod 8) else 0)"
proof (cases "k div 8 = l")
  case True
  have "ucast (drop_bit (8 * (k mod 8)) (word_of_le B :: u64)) = B ! (k mod 8)"
    using assms(1) by (intro byte_of_word_of_le) simp_all
  then show ?thesis
    using True assms(2) unfolding sbyte_def by (simp only: nth_list_update_eq ucast_xor_u8 if_True simp_thms)
next
  case False
  then show ?thesis
    by (simp add: sbyte_def)
qed

lemma xor_bytes_into_ok:
  "length S = 25 \<Longrightarrow> pos + length data \<le> 200 \<Longrightarrow> length (xor_bytes_into S pos data) = 25 \<and>
   (\<forall>k<200. sbyte ((!) (xor_bytes_into S pos data)) k =
      sbyte ((!) S) k XOR (if pos \<le> k \<and> k < pos + length data then data ! (k - pos) else 0))"
proof (induction S pos data rule: xor_bytes_into.induct)
  case (1 S pos data)
  show ?case
  proof (cases "data = []")
    case True
    then show ?thesis
      using 1(2) by (auto simp: xor_bytes_into.simps [of S pos "[]"])
  next
    case False
    define l offset taken where "l = pos div 8" and "offset = pos mod 8" and "taken = min (8 - offset) (length data)"
    define B where "B = replicate offset 0 @ take taken data @ replicate (8 - offset - taken) (0 :: u8)"
    have o: "offset < 8" "pos = 8 * l + offset" "taken \<le> 8 - offset" "0 < taken" "taken \<le> length data"
      using False by (simp_all add: offset_def l_def taken_def)
    have B: "length B = 8" "\<And>j. j < 8 \<Longrightarrow> B ! j = (if offset \<le> j \<and> j < offset + taken then data ! (j - offset) else 0)"
      using o by (auto simp: B_def nth_append less_diff_conv2 add.commute)
    have l: "l < length S"
      using 1(2,3) o False by (cases data) simp_all
    let ?S = "S[l := S ! l XOR word_of_le B]"
    have IH: "length (xor_bytes_into ?S (pos + taken) (drop taken data)) = 25 \<and>
       (\<forall>k<200. sbyte ((!) (xor_bytes_into ?S (pos + taken) (drop taken data))) k =
          sbyte ((!) ?S) k XOR (if pos + taken \<le> k \<and> k < pos + taken + length (drop taken data) then drop taken data ! (k - (pos + taken)) else 0))"
      using 1(1) [OF False l_def offset_def taken_def B_def] 1(2,3) o by simp
    have run: "xor_bytes_into S pos data = xor_bytes_into ?S (pos + taken) (drop taken data)"
      using False by (subst xor_bytes_into.simps) (simp add: Let_def l_def offset_def taken_def B_def)
    have "sbyte ((!) (xor_bytes_into S pos data)) k = sbyte ((!) S) k XOR (if pos \<le> k \<and> k < pos + length data then data ! (k - pos) else 0)"
      if k: "k < 200" for k
    proof -
      have "(if k div 8 = l then B ! (k mod 8) else 0) = (if pos \<le> k \<and> k < pos + taken then data ! (k - pos) else 0)"
      proof (cases "k div 8 = l")
        case True
        then have "k = 8 * l + k mod 8"
          using mult_div_mod_eq [of 8 k] by simp
        then have "k - pos = k mod 8 - offset" "pos \<le> k \<longleftrightarrow> offset \<le> k mod 8"
          "k < pos + taken \<longleftrightarrow> k mod 8 < offset + taken"
          using o(2) by linarith+
        then show ?thesis
          using True B(2) [of "k mod 8"] by (simp only: if_True mod_less_divisor zero_less_numeral simp_thms)
      next
        case False
        then have "\<not> (pos \<le> k \<and> k < pos + taken)"
          using o by (auto simp: div_nat_eqI)
        then show ?thesis
          using False by (simp only: if_False)
      qed
      then show ?thesis
        using IH k o sbyte_update [OF B(1) l, of k] unfolding run by (auto simp: not_less)
    qed
    then show ?thesis
      using IH run by simp
  qed
qed

lemma xor_string_Nil: "length S = 25 \<Longrightarrow> xor_string S [] = S"
  by (intro state_eqI) (simp_all add: sbyte_xor_string)

lemma xor_bytes_into_string:
  assumes "length (R @ d) \<le> 200"
  shows "xor_bytes_into (xor_string S R) (length R) d = xor_string S (R @ d)"
proof -
  note x = xor_bytes_into_ok [of "xor_string S R" "length R" d]
  show ?thesis
  proof (rule state_eqI)
    fix k :: nat assume k: "k < 200"
    then have "sbyte ((!) (xor_bytes_into (xor_string S R) (length R) d)) k =
        sbyte ((!) S) k XOR (if k < length R then R ! k else 0) XOR (if length R \<le> k \<and> k < length R + length d then d ! (k - length R) else 0)"
      using x assms by (simp add: sbyte_xor_string xor.assoc)
    also have "\<dots> = sbyte ((!) (xor_string S (R @ d))) k"
      using k assms by (simp add: sbyte_xor_string nth_append)
    finally show "sbyte ((!) (xor_bytes_into (xor_string S R) (length R) d)) k = sbyte ((!) (xor_string S (R @ d))) k" .
  qed (use x assms in simp_all)
qed

lemma word_of_le_zeros: "word_of_le (replicate n 0) = (0 :: u64)"
  by (induction n) (simp_all add: word_of_le_Cons)

lemma xor_block_string:
  assumes "length S = 25" "length b mod 8 = 0" "length b \<le> 200"
  shows "xor_block S b = xor_string S b"
proof (rule nth_equalityI)
  define n where "n = length b div 8"
  have n: "length b = 8 * n" "n \<le> 25"
    using assms by (auto simp: n_def)
  show "length (xor_block S b) = length (xor_string S b)"
    using assms n by (simp add: xor_block_def n_def [symmetric])
  fix i assume "i < length (xor_block S b)"
  then have i: "i < 25"
    using assms n by (simp add: xor_block_def n_def [symmetric])
  have r: "xor_string S b ! i = S ! i XOR word_of_le (take 8 (drop (8 * i) (b @ replicate (200 - length b) 0)))"
    using i by (simp only: xor_string_def nth_map_upt_0)
  show "xor_block S b ! i = xor_string S b ! i"
  proof (cases "i < n")
    case True
    then have "xor_block S b ! i = S ! i XOR word_of_le (take 8 (drop (8 * i) b))"
      using n assms(1) by (simp add: xor_block_def n_def [symmetric] nth_append)
    moreover have "take 8 (drop (8 * i) (b @ replicate (200 - length b) 0)) = take 8 (drop (8 * i) b)"
      using True n by simp
    ultimately show ?thesis
      unfolding r by simp
  next
    case False
    then have "xor_block S b ! i = S ! i"
      using n i assms(1) by (simp add: xor_block_def n_def [symmetric] nth_append)
    moreover have "take 8 (drop (8 * i) (b @ replicate (200 - length b) 0)) = replicate 8 0"
      using False n i by simp
    ultimately show ?thesis
      unfolding r by (simp only: word_of_le_zeros xor.right_neutral)
  qed
qed

lemma keccak_spec_length: "length (keccak_spec S) = 25" if "length S = 25"
  using keccak_f1600_spec [OF that] by metis

lemma length_sponge_chain [simp]: "length (sponge_chain r P) = 25"
  unfolding sponge_chain_def by (rule chain_invariant) (simp_all add: keccak_spec_length)

lemma sponge_chain_block:
  "0 < r \<Longrightarrow> length P mod r = 0 \<Longrightarrow> length b = r \<Longrightarrow> sponge_chain r (P @ b) = keccak_spec (xor_string (sponge_chain r P) b)"
  by (simp add: sponge_chain_def chain_append chain_block)

text \<open>What the sponge holds: the chain over the whole blocks so far, and the rest XORed in.\<close>

definition sponge_holds :: "nat \<Rightarrow> u8 \<Rightarrow> sponge \<Rightarrow> bytes \<Rightarrow> bool" where
  "sponge_holds r d s m \<longleftrightarrow> sponge_rate s = r \<and> sponge_pad s = d \<and> (\<exists>whole rest. m = whole @ rest \<and> length whole mod r = 0 \<and>
     length rest = sponge_pos s \<and> sponge_pos s < r \<and> sponge_state s = xor_string (sponge_chain r whole) rest)"

lemma sponge_new_holds: "0 < r \<Longrightarrow> sponge_holds r d (sponge_new r d) []"
  by (simp add: sponge_holds_def sponge_new_def xor_string_Nil sponge_chain_def)

lemma sponge_absorb_holds:
  "sponge_holds r d s m \<Longrightarrow> 0 < r \<Longrightarrow> r \<le> 200 \<Longrightarrow> sponge_holds r d (sponge_absorb data s) (m @ data)"
proof (induction data s arbitrary: m rule: sponge_absorb.induct)
  case (1 data s)
  obtain whole rest where h: "sponge_rate s = r" "sponge_pad s = d" "m = whole @ rest" "length whole mod r = 0"
    "length rest = sponge_pos s" "sponge_pos s < r" "sponge_state s = xor_string (sponge_chain r whole) rest"
    using 1(3) by (auto simp: sponge_holds_def)
  show ?case
  proof (cases "data = []")
    case True
    then show ?thesis
      using 1(3) by (simp add: sponge_absorb.simps [of "[]"])
  next
    case False
    then have go: "\<not> (data = [] \<or> sponge_rate s = 0 \<or> sponge_rate s < sponge_pos s)"
      using h 1(4) by simp
    show ?thesis
    proof (cases "sponge_rate s mod 8 = 0 \<and> sponge_pos s = 0 \<and> sponge_rate s \<le> length data")
      case True
      let ?b = "take r data"
      let ?s = "s\<lparr>sponge_state := keccak_f1600 (xor_block (sponge_state s) ?b)\<rparr>"
      have b: "length ?b = r" "rest = []"
        using True h by simp_all
      have S: "sponge_state s = sponge_chain r whole"
        using h(7) b(2) by (simp add: xor_string_Nil)
      have "keccak_f1600 (xor_block (sponge_state s) ?b) = sponge_chain r (whole @ ?b)"
        using True h(1) b(1) 1(5) h(4) 1(4) keccak_f1600_spec [of "xor_string (sponge_chain r whole) ?b"]
        unfolding S by (simp add: xor_block_string sponge_chain_block)
      then have "sponge_holds r d ?s (m @ ?b)"
        unfolding sponge_holds_def using h b True 1(4) by (intro conjI exI [of _ "whole @ ?b"] exI [of _ "[]"]) (simp_all add: xor_string_Nil)
      then have "sponge_holds r d (sponge_absorb (drop r data) ?s) ((m @ ?b) @ drop r data)"
        using 1(1) [OF go True] 1(4,5) unfolding h(1) by blast
      moreover have "sponge_absorb data s = sponge_absorb (drop r data) ?s"
        using go True h(1) by (subst sponge_absorb.simps) simp
      ultimately show ?thesis
        by (simp only: append_assoc append_take_drop_id)
    next
      case part: False
      define taken where "taken = min (sponge_rate s - sponge_pos s) (length data)"
      define s1 where "s1 = s\<lparr>sponge_state := xor_bytes_into (sponge_state s) (sponge_pos s) (take taken data), sponge_pos := sponge_pos s + taken\<rparr>"
      define s2 where "s2 = (if sponge_pos s1 = sponge_rate s1 then s1\<lparr>sponge_state := keccak_f1600 (sponge_state s1), sponge_pos := 0\<rparr> else s1)"
      have t: "taken \<le> length data" "sponge_pos s + taken \<le> r" "length (take taken data) = taken"
        using h(1,6) by (simp_all add: taken_def)
      have x: "sponge_state s1 = xor_string (sponge_chain r whole) (rest @ take taken data)"
        using xor_bytes_into_string [of rest "take taken data" "sponge_chain r whole"] t h(5,7) 1(5) by (simp add: s1_def)
      have "sponge_holds r d s2 (m @ take taken data)"
      proof (cases "sponge_pos s + taken = r")
        case True
        have "keccak_f1600 (sponge_state s1) = sponge_chain r (whole @ rest @ take taken data)"
          unfolding x using True t h(4,5) 1(4) keccak_f1600_spec [of "xor_string (sponge_chain r whole) (rest @ take taken data)"]
          by (simp add: sponge_chain_block)
        then show ?thesis
          unfolding sponge_holds_def using True t h 1(4)
          by (intro conjI exI [of _ "whole @ rest @ take taken data"] exI [of _ "[]"])
            (simp_all add: s2_def s1_def xor_string_Nil mod_add_left_eq [symmetric] mod_add_eq [symmetric])
      next
        case False
        then show ?thesis
          unfolding sponge_holds_def using x t h
          by (intro conjI exI [of _ whole] exI [of _ "rest @ take taken data"]) (simp_all add: s2_def s1_def)
      qed
      then have "sponge_holds r d (sponge_absorb (drop taken data) s2) ((m @ take taken data) @ drop taken data)"
        using 1(2) [OF go part taken_def s1_def s2_def] 1(4,5) by blast
      moreover have "sponge_absorb data s = sponge_absorb (drop taken data) s2"
        using go part unfolding taken_def s1_def s2_def by (subst sponge_absorb.simps) (simp only: if_False Let_def)
      ultimately show ?thesis
        by (simp only: append_assoc append_take_drop_id)
    qed
  qed
qed


section \<open>Padding\<close>

lemma byte_of_push:
  fixes d :: u8
  assumes "o' < 8" "j < 8"
  shows "(ucast (drop_bit (8 * j) (push_bit (8 * o') (ucast d :: u64))) :: u8) = (if j = o' then d else 0)"
proof (rule bit_word_eqI)
  fix n :: nat assume n: "n < LENGTH(8)"
  show "bit (ucast (drop_bit (8 * j) (push_bit (8 * o') (ucast d :: u64))) :: u8) n = bit (if j = o' then d else 0) n"
  proof (cases "j = o'")
    case True
    then show ?thesis using n assms by (simp add: bit_simps)
  next
    case False
    then have "8 * j + n < 8 * o' \<or> 8 \<le> 8 * j + n - 8 * o'" using n by auto
    then have "\<not> (8 * o' \<le> 8 * j + n \<and> bit d (8 * j + n - 8 * o'))"
      using bit_imp_le_length [of d "8 * j + n - 8 * o'"] by auto
    then show ?thesis using False n by (auto simp: bit_simps)
  qed
qed

lemma sbyte_push:
  assumes "l < length S" "o' < 8"
  shows "sbyte ((!) (S[l := S ! l XOR push_bit (8 * o') (ucast d)])) k = sbyte ((!) S) k XOR (if k = 8 * l + o' then d else 0)"
proof (cases "k div 8 = l")
  case True
  then have "k = 8 * l + o' \<longleftrightarrow> k mod 8 = o'" using mult_div_mod_eq [of 8 k] by linarith
  then show ?thesis
    using True assms(1) byte_of_push [OF assms(2), of "k mod 8" d] unfolding sbyte_def
    by (simp only: nth_list_update_eq ucast_xor_u8 mod_less_divisor zero_less_numeral simp_thms)
next
  case False
  then have "k \<noteq> 8 * l + o'" using assms(2) by auto
  with False show ?thesis by (simp add: sbyte_def)
qed

lemma pad_block:
  fixes d :: u8
  assumes "length S = 25" "k < r" "r \<le> 200" "length rest = k"
  defines "A \<equiv> (xor_string S rest)[k div 8 := xor_string S rest ! (k div 8) XOR push_bit (8 * (k mod 8)) (ucast d)]"
  shows "A[(r - 1) div 8 := A ! ((r - 1) div 8) XOR push_bit (8 * ((r - 1) mod 8)) 0x80]
    = xor_string S (rest @ (if k + 1 = r then [d XOR 0x80] else [d] @ replicate (r - k - 2) 0 @ [0x80]))" (is "?R = xor_string S ?P")
proof (rule state_eqI)
  have l: "k div 8 < length (xor_string S rest)" "(r - 1) div 8 < length A" using assms by simp_all
  have c: "(0x80 :: u64) = ucast (0x80 :: u8)" by simp
  have m: "k mod 8 < 8" "(r - 1) mod 8 < 8" by simp_all
  have P: "length ?P = r" using assms(2,4) by auto
  fix i :: nat assume i: "i < 200"
  have P_nth: "(if i < length ?P then ?P ! i else 0) =
      (if i < k then rest ! i else 0) XOR (if i = k then d else 0) XOR (if i = r - 1 then 0x80 else 0)"
    using assms by (auto simp: nth_append nth_Cons')
  have "sbyte ((!) ?R) i = sbyte ((!) A) i XOR (if i = r - 1 then 0x80 else 0)"
    unfolding c sbyte_push [OF l(2) m(2)] by simp
  also have "sbyte ((!) A) i = sbyte ((!) (xor_string S rest)) i XOR (if i = k then d else 0)"
    unfolding A_def sbyte_push [OF l(1) m(1)] by simp
  also have "sbyte ((!) (xor_string S rest)) i = sbyte ((!) S) i XOR (if i < k then rest ! i else 0)"
    using assms i by (simp add: sbyte_xor_string)
  finally have "sbyte ((!) ?R) i = sbyte ((!) S) i XOR (if i < length ?P then ?P ! i else 0)"
    unfolding P_nth by (simp only: xor.assoc)
  then show "sbyte ((!) ?R) i = sbyte ((!) (xor_string S ?P)) i"
    using sbyte_xor_string [of ?P i S] P assms(3) i by simp
qed (use assms in simp_all)

lemma sponge_finish_state:
  assumes "sponge_holds r d s m" "0 < r" "r \<le> 200"
  shows "sponge_finish s = s\<lparr>sponge_state := sponge_chain r (pad10 r d m), sponge_pos := 0\<rparr>"
proof -
  obtain whole rest where h: "sponge_rate s = r" "sponge_pad s = d" "m = whole @ rest" "length whole mod r = 0"
    "length rest = sponge_pos s" "sponge_pos s < r" "sponge_state s = xor_string (sponge_chain r whole) rest"
    using assms(1) by (auto simp: sponge_holds_def)
  let ?k = "sponge_pos s"
  let ?P = "rest @ (if ?k + 1 = r then [d XOR 0x80] else [d] @ replicate (r - ?k - 2) 0 @ [0x80])"
  have k: "length m mod r = ?k"
    using h(3-6) by (metis add_0 length_append mod_add_left_eq mod_less)
  have P: "length ?P = r" using h(5,6) by auto
  have pad: "pad10 r d m = whole @ ?P" unfolding pad10_def k Let_def unfolding h(3) by simp
  have "sponge_chain r (pad10 r d m) = keccak_f1600 (xor_string (sponge_chain r whole) ?P)"
    unfolding pad sponge_chain_block [OF assms(2) h(4) P]
    using keccak_f1600_spec [of "xor_string (sponge_chain r whole) ?P"] by simp
  then show ?thesis
    unfolding sponge_finish_def Let_def h(1,2,7) pad_block [OF length_sponge_chain h(6) assms(3) h(5)] by simp
qed


section \<open>Squeezing\<close>

lemma copy_head_ok:
  "copy_head word pos n = (bs, pos', n') \<Longrightarrow>
     bs = map (sbyte word) [pos..<pos'] \<and> pos \<le> pos' \<and> pos' + n' = pos + n \<and> (n' = 0 \<or> pos' mod 8 = 0)"
proof (induction word pos n arbitrary: bs pos' n' rule: copy_head.induct)
  case (2 word pos n)
  show ?case
  proof (cases "pos mod 8 = 0")
    case False
    obtain bs1 p1 n1 where r: "copy_head word (pos + 1) n = (bs1, p1, n1)" by (cases "copy_head word (pos + 1) n")
    have e: "bs = sbyte word pos # bs1" "pos' = p1" "n' = n1"
      using 2(2) False r by (auto simp: sbyte_def)
    note I = 2(1) [OF False r]
    have "[pos..<p1] = pos # [pos + 1..<p1]" using I by (simp add: upt_conv_Cons)
    then show ?thesis using I by (simp add: e)
  qed (use 2(2) in simp)
qed simp

lemma sbyte_aligned:
  assumes "pos mod 8 = 0" "j < 8"
  shows "sbyte word (pos + 8 * i + j) = le_of_word 8 (word ((pos + 8 * i) div 8)) ! j"
proof -
  have "(pos + 8 * i + j) mod 8 = j" "(pos + 8 * i + j) div 8 = (pos + 8 * i) div 8"
  proof -
    obtain k where k: "pos = 8 * k" using assms(1) by (auto simp: mod_eq_0_iff_dvd elim!: dvdE)
    have e: "8 * k + 8 * i + j = j + (k + i) * 8" by simp
    show "(pos + 8 * i + j) mod 8 = j" unfolding k e using assms(2) by (simp only: mod_mult_self1 mod_less)
    show "(pos + 8 * i + j) div 8 = (pos + 8 * i) div 8"
      unfolding k e using assms(2) by (simp only: div_mult_self1) simp
  qed
  then show ?thesis by (simp only: sbyte_le_of_word)
qed

lemma whole_words:
  assumes "pos mod 8 = 0"
  shows "concat (map (\<lambda>i. le_of_word 8 (word ((pos + 8 * i) div 8))) [0..<q]) = map (sbyte word) [pos..<pos + 8 * q]"
proof (induction q)
  case (Suc q)
  have "le_of_word 8 (word ((pos + 8 * q) div 8)) = map (\<lambda>j. sbyte word (pos + 8 * q + j)) [0..<8]"
    by (rule nth_equalityI) (simp_all add: sbyte_aligned [OF assms] del: upt_rec_numeral)
  also have "\<dots> = map (sbyte word) [pos + 8 * q..<pos + 8 * Suc q]"
    by (rule nth_equalityI) (simp_all del: upt_rec_numeral)
  finally have last: "le_of_word 8 (word ((pos + 8 * q) div 8)) = map (sbyte word) [pos + 8 * q..<pos + 8 * Suc q]" .
  have split: "[pos..<pos + 8 * Suc q] = [pos..<pos + 8 * q] @ [pos + 8 * q..<pos + 8 * Suc q]"
    using upt_add_eq_append [of pos "pos + 8 * q" 8] by (simp add: algebra_simps)
  show ?case
    unfolding split using Suc last by simp
qed simp

lemma map_shift: "map (\<lambda>j. f (a + j)) [0..<t] = map f [a..<a + t]"
  by (rule nth_equalityI) simp_all

lemma copy_words_out_ok: "copy_words_out word start n = map (sbyte word) [start..<start + n]"
proof -
  obtain head pos rest where h: "copy_head word start n = (head, pos, rest)" by (cases "copy_head word start n")
  note H = copy_head_ok [OF h]
  show ?thesis
  proof (cases "rest = 0")
    case True
    then show ?thesis using H by (simp add: copy_words_out_def h)
  next
    case False
    then have al: "pos mod 8 = 0" using H by simp
    let ?q = "rest div 8" and ?t = "rest mod 8"
    have "map (\<lambda>k. ucast (drop_bit (8 * k) (word ((pos + 8 * ?q) div 8)))) [0..<?t] = map (\<lambda>j. sbyte word (pos + 8 * ?q + j)) [0..<?t]"
    proof (rule map_cong [OF refl])
      fix k assume "k \<in> set [0..<?t]"
      then have "k < 8" using less_trans [of k ?t 8] by simp
      then show "ucast (drop_bit (8 * k) (word ((pos + 8 * ?q) div 8))) = sbyte word (pos + 8 * ?q + k)"
        unfolding sbyte_aligned [OF al \<open>k < 8\<close>] by (simp add: le_of_word_def del: upt_rec_numeral)
    qed
    also have "\<dots> = map (sbyte word) [pos + 8 * ?q..<pos + 8 * ?q + ?t]" by (rule map_shift)
    finally have t: "map (\<lambda>k. ucast (drop_bit (8 * k) (word ((pos + 8 * ?q) div 8)))) [0..<?t] = map (sbyte word) [pos + 8 * ?q..<pos + 8 * ?q + ?t]" .
    have e: "pos + 8 * ?q + ?t = start + n" using H mult_div_mod_eq [of 8 rest] by linarith
    have "[start..<start + n] = [start..<pos] @ [pos..<pos + 8 * ?q] @ [pos + 8 * ?q..<start + n]"
      using H e upt_add_eq_append [of start pos "8 * ?q + ?t"] upt_add_eq_append [of pos "pos + 8 * ?q" ?t]
      by (simp add: add.assoc)
    then show ?thesis
      unfolding copy_words_out_def h Let_def prod.case t whole_words [OF al] e using H by simp
  qed
qed

text \<open>What a sponge being read holds: the state after some number of permutations, and the place in its block.\<close>

definition sponge_reads :: "nat \<Rightarrow> u64 list \<Rightarrow> nat \<Rightarrow> sponge \<Rightarrow> bool" where
  "sponge_reads r S p s \<longleftrightarrow> sponge_rate s = r \<and> (\<exists>q. p = q * r + sponge_pos s \<and> sponge_pos s \<le> r
     \<and> sponge_state s = (keccak_spec ^^ q) S)"

lemma length_keccak_power: "length S = 25 \<Longrightarrow> length ((keccak_spec ^^ q) S) = 25"
  by (induction q) (simp_all add: keccak_spec_length)

lemma sponge_stream_block:
  assumes "length S = 25" "r \<le> 200" "pos + n \<le> r"
  shows "map (sponge_stream r S) [q * r + pos..<q * r + pos + n] = map (sbyte ((!) ((keccak_spec ^^ q) S))) [pos..<pos + n]"
proof (rule nth_equalityI)
  fix i assume "i < length (map (sponge_stream r S) [q * r + pos..<q * r + pos + n])"
  then have i: "i < n" by simp
  then have "pos + i < r" using assms(3) by simp
  then have "(q * r + (pos + i)) div r = q" "(q * r + (pos + i)) mod r = pos + i" by simp_all
  moreover have "state_string ((keccak_spec ^^ q) S) ! (pos + i) = sbyte ((!) ((keccak_spec ^^ q) S)) (pos + i)"
    using \<open>pos + i < r\<close> assms by (intro state_string_nth length_keccak_power) simp_all
  ultimately show "map (sponge_stream r S) [q * r + pos..<q * r + pos + n] ! i = map (sbyte ((!) ((keccak_spec ^^ q) S))) [pos..<pos + n] ! i"
    using i by (simp add: sponge_stream_def add.assoc)
qed simp

lemma sponge_squeeze_ok:
  assumes "length S = 25" "0 < r" "r \<le> 200" "sponge_reads r S p s"
  shows "fst (sponge_squeeze n s) = map (sponge_stream r S) [p..<p + n] \<and> sponge_reads r S (p + n) (snd (sponge_squeeze n s))"
  using assms(4)
proof (induction n s arbitrary: p rule: sponge_squeeze.induct)
  case (1 n s)
  obtain q where h: "sponge_rate s = r" "p = q * r + sponge_pos s" "sponge_pos s \<le> r" "sponge_state s = (keccak_spec ^^ q) S"
    using 1(2) by (auto simp: sponge_reads_def)
  show ?case
  proof (cases "n = 0")
    case True
    then show ?thesis using 1(2) by (simp add: sponge_squeeze.simps [of 0])
  next
    case False
    then have go: "\<not> (n = 0 \<or> sponge_rate s = 0 \<or> sponge_rate s < sponge_pos s)" using h assms(2) by simp
    define s1 where "s1 = (if sponge_pos s = sponge_rate s then s\<lparr>sponge_state := keccak_f1600 (sponge_state s), sponge_pos := 0\<rparr> else s)"
    define taken where "taken = min (sponge_rate s1 - sponge_pos s1) n"
    define now where "now = copy_bytes_from (sponge_state s1) (sponge_pos s1) taken"
    define s2 where "s2 = s1\<lparr>sponge_pos := sponge_pos s1 + taken\<rparr>"
    obtain q1 where h1: "sponge_rate s1 = r" "p = q1 * r + sponge_pos s1" "sponge_pos s1 < r" "sponge_state s1 = (keccak_spec ^^ q1) S"
    proof (cases "sponge_pos s = r")
      case True
      have "keccak_f1600 (sponge_state s) = (keccak_spec ^^ Suc q) S"
        using keccak_f1600_spec [OF length_keccak_power [OF assms(1), of q]] by (simp add: h(4))
      with True h show ?thesis by (intro that [of "Suc q"]) (simp_all add: s1_def assms(2))
    next
      case False
      with h show ?thesis by (intro that [of q]) (simp_all add: s1_def)
    qed
    have t: "taken \<le> n" "sponge_pos s1 + taken \<le> r" using h1 by (simp_all add: taken_def)
    have now: "now = map (sponge_stream r S) [p..<p + taken]"
      using sponge_stream_block [OF assms(1,3) t(2), of q1]
      by (simp add: now_def copy_bytes_from_def copy_words_out_ok h1 add.assoc)
    have "sponge_reads r S (p + taken) s2"
      unfolding sponge_reads_def s2_def using h1 t(2) by (intro conjI exI [of _ q1]) simp_all
    note I = 1(1) [OF go s1_def taken_def now_def this [unfolded s2_def]]
    have run: "sponge_squeeze n s = (now @ fst (sponge_squeeze (n - taken) s2), snd (sponge_squeeze (n - taken) s2))"
      using go by (subst sponge_squeeze.simps)
        (simp only: if_False Let_def s1_def [symmetric] taken_def [symmetric] now_def [symmetric] s2_def [symmetric] split_beta)
    have "[p..<p + n] = [p..<p + taken] @ [p + taken..<p + n]"
      using t upt_add_eq_append [of p "p + taken" "n - taken"] by simp
    then show ?thesis
      using I t(1) unfolding run by (simp add: now s2_def)
  qed
qed


section \<open>The functions of the standard\<close>

text \<open>
  Section 5.1 and appendix B.2 of the standard, bit by bit: the suffix of the function and
  \<open>pad10*1\<close> are appended to the bits of the message, lowest bit of a byte first, and the
  result is read as bytes again.
\<close>

definition byte_bits :: "u8 \<Rightarrow> bool list" where
  "byte_bits b = map (bit b) [0..<8]"

definition pad101 :: "nat \<Rightarrow> nat \<Rightarrow> bool list" where
  "pad101 x m = True # replicate (nat ((- int m - 2) mod int x)) False @ [True]"

definition bits_bytes :: "bool list \<Rightarrow> bytes" where
  "bits_bytes bs = map (horner_sum of_bool 2) (chunks 8 bs)"

definition fips_pad :: "nat \<Rightarrow> bool list \<Rightarrow> bytes \<Rightarrow> bytes" where
  "fips_pad r suffix m = (let M = concat (map byte_bits m) @ suffix in bits_bytes (M @ pad101 (8 * r) (length M)))"

definition fips_sponge :: "nat \<Rightarrow> bool list \<Rightarrow> bytes \<Rightarrow> nat \<Rightarrow> bytes" where
  "fips_sponge r suffix m n = map (sponge_stream r (sponge_chain r (fips_pad r suffix m))) [0..<n]"

definition fips_sha3 :: "nat \<Rightarrow> bytes \<Rightarrow> bytes" where
  "fips_sha3 n m = fips_sponge (200 - 2 * n) [False, True] m n"

definition fips_shake :: "nat \<Rightarrow> bytes \<Rightarrow> nat \<Rightarrow> bytes" where
  "fips_shake strength m n = fips_sponge (200 - strength div 4) [True, True, True, True] m n"

lemma bits_bytes_bits: "bits_bytes (concat (map byte_bits m)) = m"
proof -
  have "chunks 8 (concat (map byte_bits m)) = map byte_bits m"
    by (intro chunks_concat) (auto simp: byte_bits_def)
  moreover have "horner_sum of_bool 2 (byte_bits b) = b" for b
    unfolding byte_bits_def by (simp only: horner_sum_bit_eq_take_bit) (rule take_bit_word_eq_self, simp)
  ultimately show ?thesis by (simp add: bits_bytes_def o_def)
qed

lemma fips_padI:
  assumes "concat (map byte_bits P) = concat (map byte_bits m) @ suffix @ pad101 (8 * r) (8 * length m + length suffix)"
  shows "fips_pad r suffix m = P"
proof -
  have "length (concat (map byte_bits m)) = 8 * length m"
    by (simp add: length_concat o_def byte_bits_def sum_list_triv)
  then show ?thesis
    using bits_bytes_bits [of P] assms by (simp add: fips_pad_def Let_def)
qed

lemma byte_bits_values:
  "byte_bits 0 = replicate 8 False" "byte_bits 0x80 = replicate 7 False @ [True]"
  by code_simp+

lemma pad_zeros:
  assumes "0 < r" "c \<le> 6"
  shows "nat ((- int (8 * L + c) - 2) mod int (8 * r)) = 8 * (r - L mod r) - (c + 2)"
proof -
  let ?k = "L mod r"
  have k: "?k < r" using assms(1) by simp
  have L: "int L = int r * int (L div r) + int ?k" by (simp flip: of_nat_mult of_nat_add)
  have e: "- int (8 * L + c) - 2 = (8 * (int r - int ?k) - int c - 2) + int (8 * r) * (- int (L div r) - 1)"
    by (simp add: L algebra_simps)
  have "(- int (8 * L + c) - 2) mod int (8 * r) = (8 * (int r - int ?k) - int c - 2) mod int (8 * r)"
    unfolding e by (rule mod_mult_self2)
  also have "\<dots> = 8 * (int r - int ?k) - int c - 2"
  proof (rule mod_pos_pos_trivial)
    have "int ?k + 1 \<le> int r" using k by simp
    moreover have "0 \<le> 8 * (b - a) - d - 2" if "a + 1 \<le> b" "d \<le> 6" for a b d :: int
      using that by arith
    ultimately show "0 \<le> 8 * (int r - int ?k) - int c - 2" using assms(2) by simp
    show "8 * (int r - int ?k) - int c - 2 < int (8 * r)" by simp
  qed
  finally show ?thesis using k assms(2) by (simp add: nat_diff_distrib' of_nat_diff)
qed

lemma concat_zeros: "concat (replicate n (replicate 8 x)) = replicate (8 * n) x"
  by (induction n) (simp_all add: replicate_add [symmetric])

text \<open>
  The padding byte of a function is its suffix, the first bit of \<open>pad10*1\<close> and zeros; the
  last bit is the high bit of the block's last byte, which may be the same one.
\<close>

lemma pad10_suffix:
  assumes "0 < r" "z + length suffix = 7" "1 \<le> z"
    and "byte_bits d = suffix @ True # replicate z False"
    and "byte_bits (d XOR 0x80) = suffix @ True # replicate (z - 1) False @ [True]"
  shows "fips_pad r suffix m = pad10 r d m"
proof (rule fips_padI)
  let ?k = "length m mod r" and ?c = "length suffix"
  have k: "?k < r" using assms(1) by simp
  have c: "?c \<le> 6" using assms(2,3) by linarith
  note zeros = pad_zeros [OF assms(1) c, of "length m"]
  show "concat (map byte_bits (pad10 r d m)) = concat (map byte_bits m) @ suffix @ pad101 (8 * r) (8 * length m + ?c)"
  proof (cases "?k + 1 = r")
    case True
    have "8 * (r - ?k) - (?c + 2) = z - 1" using True assms(2) by linarith
    then have p: "pad101 (8 * r) (8 * length m + ?c) = True # replicate (z - 1) False @ [True]"
      by (simp only: pad101_def zeros)
    have "pad10 r d m = m @ [d XOR 0x80]" using True by (simp only: pad10_def Let_def if_True simp_thms)
    then show ?thesis unfolding p by (simp add: assms(5))
  next
    case False
    have e: "8 * (r - ?k) - (?c + 2) = z + 8 * (r - ?k - 2) + 7" using False k assms(2) by linarith
    have p: "pad101 (8 * r) (8 * length m + ?c)
        = True # replicate z False @ replicate (8 * (r - ?k - 2)) False @ replicate 7 False @ [True]"
      by (simp only: pad101_def zeros e replicate_add append_assoc)
    have "pad10 r d m = m @ [d] @ replicate (r - ?k - 2) 0 @ [0x80]" using False by (simp only: pad10_def Let_def if_False simp_thms)
    then show ?thesis unfolding p by (simp add: assms(4) byte_bits_values concat_zeros del: replicate.simps)
  qed
qed

lemma pad10_fips:
  assumes "0 < r"
  shows "fips_pad r [False, True] m = pad10 r 0x06 m" "fips_pad r [True, True, True, True] m = pad10 r 0x1f m"
    "fips_pad r [False, False] m = pad10 r 0x04 m"
  by (rule pad10_suffix [OF assms, where z = 5], simp, simp, code_simp, code_simp)
    (rule pad10_suffix [OF assms, where z = 3], simp, simp, code_simp, code_simp,
     rule pad10_suffix [OF assms, where z = 5], simp, simp, code_simp, code_simp)

section \<open>The digests and the streams\<close>

lemma squeeze_finish:
  assumes "sponge_holds r d s m" "0 < r" "r \<le> 200"
  shows "sponge_reads r (sponge_chain r (pad10 r d m)) 0 (sponge_finish s)"
  using sponge_finish_state [OF assms] assms(1)
  by (auto simp: sponge_reads_def sponge_holds_def intro!: exI [of _ 0])

lemma sponge_output:
  assumes "sponge_holds r d s m" "0 < r" "r \<le> 200"
  shows "fst (sponge_squeeze n (sponge_finish s)) = map (sponge_stream r (sponge_chain r (pad10 r d m))) [0..<n]"
  using sponge_squeeze_ok [OF length_sponge_chain assms(2,3) squeeze_finish [OF assms], of n] by simp

lemma sha3_hash_digest:
  assumes "28 \<le> out_len" "out_len \<le> 64"
  shows "digest (sha3_hash out_len) (sponge_holds (200 - 2 * out_len) 0x06) (fips_sha3 out_len)"
proof
  have r: "0 < 200 - 2 * out_len" "200 - 2 * out_len \<le> 200" using assms by simp_all
  show "sponge_holds (200 - 2 * out_len) 0x06 (digest_new (sha3_hash out_len)) []"
    by (simp add: sha3_hash_def) (rule sponge_new_holds [OF r(1)])
  show "sponge_holds (200 - 2 * out_len) 0x06 (digest_update (sha3_hash out_len) data s) (m @ data)"
    if "sponge_holds (200 - 2 * out_len) 0x06 s m" for s m data
    using sponge_absorb_holds [OF that r] by (simp add: sha3_hash_def)
  show "digest_finalize (sha3_hash out_len) s = fips_sha3 out_len m"
    if "sponge_holds (200 - 2 * out_len) 0x06 s m" for s m
    using sponge_output [OF that r, of out_len] pad10_fips(1) [OF r(1), of m]
    by (simp add: sha3_hash_def sha3_finalize_def fips_sha3_def fips_sponge_def)
qed (use assms in \<open>simp_all add: sha3_hash_def fips_sha3_def fips_sponge_def\<close>)

interpretation sha3_224: digest sha3_224 "sponge_holds 144 0x06" "fips_sha3 28"
  using sha3_hash_digest [of 28] by (simp add: sha3_224_def)

interpretation sha3_256: digest sha3_256 "sponge_holds 136 0x06" "fips_sha3 32"
  using sha3_hash_digest [of 32] by (simp add: sha3_256_def)

interpretation sha3_384: digest sha3_384 "sponge_holds 104 0x06" "fips_sha3 48"
  using sha3_hash_digest [of 48] by (simp add: sha3_384_def)

interpretation sha3_512: digest sha3_512 "sponge_holds 72 0x06" "fips_sha3 64"
  using sha3_hash_digest [of 64] by (simp add: sha3_512_def)

lemma sponge_absorb_fold:
  "sponge_holds r d s m \<Longrightarrow> 0 < r \<Longrightarrow> r \<le> 200 \<Longrightarrow> sponge_holds r d (fold sponge_absorb parts s) (m @ concat parts)"
proof (induction parts arbitrary: s m)
  case (Cons p parts)
  from Cons.IH [OF sponge_absorb_holds [OF Cons.prems, of p] Cons.prems(2,3)] show ?case by simp
qed simp

text \<open>Reading in pieces, one after the other.\<close>

fun read_pieces :: "nat list \<Rightarrow> sponge \<Rightarrow> bytes list" where
  "read_pieces [] reader = []"
| "read_pieces (n # ns) reader =
     (let (bs, reader) = xof_read_unchecked n reader in bs # read_pieces ns reader)"

lemma read_pieces_ok:
  assumes "length S = 25" "0 < r" "r \<le> 200"
  shows "sponge_reads r S p s \<Longrightarrow> concat (read_pieces ns s) = map (sponge_stream r S) [p..<p + sum_list ns]
    \<and> map length (read_pieces ns s) = ns"
proof (induction ns arbitrary: p s)
  case (Cons n ns)
  note x = sponge_squeeze_ok [OF assms Cons.prems, of n]
  note I = Cons.IH [OF x [THEN conjunct2]]
  have "[p..<p + (n + sum_list ns)] = [p..<p + n] @ [p + n..<p + n + sum_list ns]"
    using upt_add_eq_append [of p "p + n" "sum_list ns"] by (simp add: add.assoc)
  then show ?case
    using x I by (simp add: xof_read_unchecked_def split_beta Let_def)
qed simp

lemma shake_reads:
  assumes "cap = 128 \<or> cap = 256"
  shows "concat (read_pieces ns (finalize_reader (fold (xof_update (shake cap)) parts (xof_new (shake cap)))))
      = fips_shake cap (concat parts) (sum_list ns)
    \<and> map length (read_pieces ns (finalize_reader (fold (xof_update (shake cap)) parts (xof_new (shake cap))))) = ns"
proof -
  let ?r = "200 - cap div 4" and ?s = "fold (xof_update (shake cap)) parts (xof_new (shake cap))"
  have r: "0 < ?r" "?r \<le> 200" using assms by auto
  have h: "sponge_holds ?r 0x1f ?s (concat parts)"
    using sponge_absorb_fold [OF sponge_new_holds [OF r(1), where d = "0x1f"] r, where parts = parts] by (simp add: shake_def)
  show ?thesis
    using read_pieces_ok [OF length_sponge_chain r squeeze_finish [OF h r], of ns] pad10_fips(2) [OF r(1)]
    by (simp add: finalize_reader_def fips_shake_def fips_sponge_def)
qed

lemma shake_finalize:
  assumes "cap = 128 \<or> cap = 256"
  shows "finalize_xof (shake cap) n (fold (xof_update (shake cap)) parts (xof_new (shake cap)))
    = fips_shake cap (concat parts) n"
proof -
  let ?r = "200 - cap div 4" and ?s = "fold (xof_update (shake cap)) parts (xof_new (shake cap))"
  have r: "0 < ?r" "?r \<le> 200" using assms by auto
  have h: "sponge_holds ?r 0x1f ?s (concat parts)"
    using sponge_absorb_fold [OF sponge_new_holds [OF r(1), where d = "0x1f"] r, where parts = parts] by (simp add: shake_def)
  have "finalize_xof (shake cap) n ?s = fst (sponge_squeeze n (sponge_finish ?s))"
    by (simp add: shake_def)
  then show ?thesis
    using sponge_output [OF h r, of n] pad10_fips(2) [OF r(1)]
    by (simp add: fips_shake_def fips_sponge_def)
qed

lemma xof_eq:
  assumes "cap = 128 \<or> cap = 256"
  shows "xof m (shake cap) data out = (case operational m of Inl e \<Rightarrow> (Inl e, out)
    | Inr _ \<Rightarrow> (Ok (), fips_shake cap data (length out)))"
  using shake_finalize [OF assms, of "length out" "[data]"]
  by (simp add: xof_def xof_unchecked_def split: sum.splits)

end
