(* ===== verification/Mac_Hmac_Sha3.thy ===== *)
theory Mac_Hmac_Sha3
  imports Hash_Sha3
begin

text \<open>
  HMAC over SHA-3: the two instances \<open>crates/ic-mac/src/hmac.rs\<close> names. The digest contract of
  the sponge gives the contract of the authentication code.
\<close>

definition HmacSha3_256 :: "sponge hmac mac_ops" where "HmacSha3_256 = hmac_ops sha3_256"
definition HmacSha3_512 :: "sponge hmac mac_ops" where "HmacSha3_512 = hmac_ops sha3_512"

interpretation hmac_sha3_256: mac HmacSha3_256 "\<lambda>_. True" sha3_256.hmac_holds
  "hmac_spec (fips_sha3 32) (BLOCK_LEN sha3_256)"
  unfolding HmacSha3_256_def by (rule sha3_256.hmac_is_mac)

interpretation hmac_sha3_512: mac HmacSha3_512 "\<lambda>_. True" sha3_512.hmac_holds
  "hmac_spec (fips_sha3 64) (BLOCK_LEN sha3_512)"
  unfolding HmacSha3_512_def by (rule sha3_512.hmac_is_mac)

text \<open>Tags over a message in pieces, and the block lengths.\<close>

lemma sha3_block_len [simp]: "BLOCK_LEN sha3_256 = 136" "BLOCK_LEN sha3_512 = 72"
  by (simp_all add: sha3_256_def sha3_512_def sha3_hash_def)

lemma hmac_sha3_tag:
  assumes "operational m = Ok ()"
  shows "mac_mac HmacSha3_256 m key data = Ok (hmac_spec (fips_sha3 32) 136 key data)"
    and "mac_mac HmacSha3_512 m key data = Ok (hmac_spec (fips_sha3 64) 72 key data)"
  using hmac_sha3_256.mac_tag [OF assms TrueI] hmac_sha3_512.mac_tag [OF assms TrueI] by simp_all

end
