(* ===== verification/Hash_Sp800_185.thy ===== *)
theory Hash_Sp800_185
  imports Hash_Sha3
begin

text \<open>
  The derived functions of SP 800-185, \<open>crates/ic-hash/src/sp800_185.rs\<close>: the two length
  encodings, the absorbing wrapper that counts for \<open>bytepad\<close>, cSHAKE, TupleHash and
  ParallelHash. The two parameter sets of each macro are one definition over the rate.
  Each function is the standard's, written over strings, and TupleHash feeds the sponge
  different strings for different tuples.
\<close>

section \<open>The encodings\<close>

definition MAX_ENCODE :: nat where "MAX_ENCODE = 9"

definition leading_zeros :: "u64 \<Rightarrow> nat" where
  "leading_zeros x = length (takeWhile (\<lambda>i. \<not> bit x i) (rev [0..<64]))"

definition value_bytes :: "u64 \<Rightarrow> nat" where
  "value_bytes x = (if x = 0 then 1 else 8 - leading_zeros x div 8)"

definition left_encode :: "u64 \<Rightarrow> bytes \<Rightarrow> nat \<times> bytes" where
  "left_encode x buf =
     (let n = value_bytes x;
          buf = buf[0 := of_nat n];
          buf = fold (\<lambda>i buf. buf[1 + i := ucast (drop_bit (8 * (n - 1 - i)) x)]) [0..<n] buf
      in (n + 1, buf))"

definition right_encode :: "u64 \<Rightarrow> bytes \<Rightarrow> nat \<times> bytes" where
  "right_encode x buf =
     (let n = value_bytes x;
          buf = fold (\<lambda>i buf. buf[i := ucast (drop_bit (8 * (n - 1 - i)) x)]) [0..<n] buf;
          buf = buf[n := of_nat n]
      in (n + 1, buf))"

text \<open>What the callers read of the buffer.\<close>

abbreviation encoded :: "nat \<times> bytes \<Rightarrow> bytes" where
  "encoded r \<equiv> take (fst r) (snd r)"

abbreviation encode_buffer :: bytes where
  "encode_buffer \<equiv> replicate MAX_ENCODE 0"

section \<open>Counting what is absorbed\<close>

record counting_absorb =
  ca_sponge :: sponge
  ca_written :: nat

definition counting_new :: "sponge \<Rightarrow> counting_absorb" where
  "counting_new s = \<lparr>ca_sponge = s, ca_written = 0\<rparr>"

definition feed :: "bytes \<Rightarrow> counting_absorb \<Rightarrow> counting_absorb" where
  "feed data c = \<lparr>ca_sponge = sponge_absorb data (ca_sponge c), ca_written = ca_written c + length data\<rparr>"

definition feed_encoded_string :: "bytes \<Rightarrow> counting_absorb \<Rightarrow> counting_absorb" where
  "feed_encoded_string s c = feed s (feed (encoded (left_encode (of_nat (length s) * 8) encode_buffer)) c)"

function absorb_zeros :: "nat \<Rightarrow> sponge \<Rightarrow> sponge" where
  "absorb_zeros left s =
     (if left = 0 then s
      else let chunk = min left 168 in absorb_zeros (left - chunk) (sponge_absorb (replicate chunk 0) s))"
  by pat_completeness auto
termination by (relation "measure fst") auto

declare absorb_zeros.simps [simp del]

definition finish_bytepad :: "nat \<Rightarrow> counting_absorb \<Rightarrow> sponge" where
  "finish_bytepad w c =
     (let remainder = ca_written c mod w
      in if remainder \<noteq> 0 then absorb_zeros (w - remainder) (ca_sponge c) else ca_sponge c)"

section \<open>cSHAKE\<close>

definition cshake_new :: "nat \<Rightarrow> bytes \<Rightarrow> bytes \<Rightarrow> sponge" where
  "cshake_new rate n s =
     (if n = [] \<and> s = [] then sponge_new rate 0x1f
      else
        let prefix = counting_new (sponge_new rate 0x04);
            prefix = feed (encoded (left_encode (of_nat rate) encode_buffer)) prefix;
            prefix = feed_encoded_string n prefix;
            prefix = feed_encoded_string s prefix
        in finish_bytepad rate prefix)"

definition cshake_update :: "bytes \<Rightarrow> sponge \<Rightarrow> sponge" where
  "cshake_update data s = sponge_absorb data s"

definition cshake_finalize_unchecked :: "nat \<Rightarrow> sponge \<Rightarrow> bytes" where
  "cshake_finalize_unchecked n s = fst (sponge_squeeze n (sponge_finish s))"

definition cshake_finalize_xof :: "module_state \<Rightarrow> bytes \<Rightarrow> sponge \<Rightarrow> unit result \<times> bytes" where
  "cshake_finalize_xof m out s =
     (case operational m of
        Inl e \<Rightarrow> (Inl e, out) | Inr _ \<Rightarrow> (Ok (), cshake_finalize_unchecked (length out) s))"

definition cshake_xof ::
  "nat \<Rightarrow> module_state \<Rightarrow> bytes \<Rightarrow> bytes \<Rightarrow> bytes \<Rightarrow> bytes \<Rightarrow> unit result \<times> bytes" where
  "cshake_xof rate m n s data out = cshake_finalize_xof m out (cshake_update data (cshake_new rate n s))"

definition absorb_bytepadded_string :: "nat \<Rightarrow> bytes \<Rightarrow> sponge \<Rightarrow> sponge" where
  "absorb_bytepadded_string rate s sponge =
     (let pad = feed (encoded (left_encode (of_nat rate) encode_buffer)) (counting_new sponge);
          pad = feed_encoded_string s pad
      in finish_bytepad rate pad)"

section \<open>TupleHash\<close>

definition tuplehash_new :: "nat \<Rightarrow> bytes \<Rightarrow> sponge" where
  "tuplehash_new rate custom = cshake_new rate (map of_char ''TupleHash'') custom"

definition tuplehash_update :: "bytes \<Rightarrow> sponge \<Rightarrow> sponge" where
  "tuplehash_update element s =
     cshake_update element
       (cshake_update (encoded (left_encode (of_nat (length element) * 8) encode_buffer)) s)"

definition tuplehash_finalize :: "module_state \<Rightarrow> bytes \<Rightarrow> sponge \<Rightarrow> unit result \<times> bytes" where
  "tuplehash_finalize m out s =
     (case operational m of
        Inl e \<Rightarrow> (Inl e, out)
      | Inr _ \<Rightarrow> (Ok (), cshake_finalize_unchecked (length out)
          (cshake_update (encoded (right_encode (of_nat (length out) * 8) encode_buffer)) s)))"

definition tuplehash_finalize_xof :: "module_state \<Rightarrow> bytes \<Rightarrow> sponge \<Rightarrow> unit result \<times> bytes" where
  "tuplehash_finalize_xof m out s =
     (case operational m of
        Inl e \<Rightarrow> (Inl e, out)
      | Inr _ \<Rightarrow> (Ok (), cshake_finalize_unchecked (length out)
          (cshake_update (encoded (right_encode 0 encode_buffer)) s)))"

definition tuplehash_hash ::
  "nat \<Rightarrow> module_state \<Rightarrow> bytes \<Rightarrow> bytes list \<Rightarrow> bytes \<Rightarrow> unit result \<times> bytes" where
  "tuplehash_hash rate m custom elements out =
     tuplehash_finalize m out (fold tuplehash_update elements (tuplehash_new rate custom))"

definition tuplehash_hash_xof ::
  "nat \<Rightarrow> module_state \<Rightarrow> bytes \<Rightarrow> bytes list \<Rightarrow> bytes \<Rightarrow> unit result \<times> bytes" where
  "tuplehash_hash_xof rate m custom elements out =
     tuplehash_finalize_xof m out (fold tuplehash_update elements (tuplehash_new rate custom))"

section \<open>ParallelHash\<close>

definition parallelhash_leaf :: "nat \<Rightarrow> nat \<Rightarrow> bytes \<Rightarrow> bytes" where
  "parallelhash_leaf rate chain_len block =
     cshake_finalize_unchecked chain_len (cshake_update block (cshake_new rate [] []))"

definition parallelhash_run ::
  "nat \<Rightarrow> nat \<Rightarrow> module_state \<Rightarrow> bytes \<Rightarrow> nat \<Rightarrow> bytes \<Rightarrow> bytes \<Rightarrow> bool \<Rightarrow> unit result \<times> bytes" where
  "parallelhash_run rate chain_len m custom block_size data out xof_mode =
     (if block_size = 0 then (Err InvalidParameter ''parallelhash block size is zero'', out)
      else case operational m of
        Inl e \<Rightarrow> (Inl e, out)
      | Inr _ \<Rightarrow>
          let outer = cshake_new rate (map of_char ''ParallelHash'') custom;
              (used, buf) = left_encode (of_nat block_size) encode_buffer;
              outer = cshake_update (take used buf) outer;
              (outer, blocks) = fold (\<lambda>block (outer, blocks :: u64).
                  (cshake_update (parallelhash_leaf rate chain_len block) outer, blocks + 1))
                (chunks block_size data) (outer, 0);
              (used, buf) = right_encode blocks buf;
              outer = cshake_update (take used buf) outer;
              (used, buf) = right_encode (if xof_mode then 0 else of_nat (length out) * 8) buf;
              outer = cshake_update (take used buf) outer
          in (Ok (), cshake_finalize_unchecked (length out) outer))"

definition parallelhash_hash ::
  "nat \<Rightarrow> nat \<Rightarrow> module_state \<Rightarrow> bytes \<Rightarrow> nat \<Rightarrow> bytes \<Rightarrow> bytes \<Rightarrow> unit result \<times> bytes" where
  "parallelhash_hash rate chain_len m custom block_size data out =
     parallelhash_run rate chain_len m custom block_size data out False"

definition parallelhash_hash_xof ::
  "nat \<Rightarrow> nat \<Rightarrow> module_state \<Rightarrow> bytes \<Rightarrow> nat \<Rightarrow> bytes \<Rightarrow> bytes \<Rightarrow> unit result \<times> bytes" where
  "parallelhash_hash_xof rate chain_len m custom block_size data out =
     parallelhash_run rate chain_len m custom block_size data out True"

section \<open>The standard's strings\<close>

text \<open>Section 2.3: the shortest big-endian form of a number, with its length before or after it.\<close>

fun be_digits :: "nat \<Rightarrow> nat list" where
  "be_digits n = (if n < 256 then [n] else be_digits (n div 256) @ [n mod 256])"

declare be_digits.simps [simp del]

definition left_enc :: "nat \<Rightarrow> bytes" where
  "left_enc n = map of_nat (length (be_digits n) # be_digits n)"

definition right_enc :: "nat \<Rightarrow> bytes" where
  "right_enc n = map of_nat (be_digits n @ [length (be_digits n)])"

definition encode_string :: "bytes \<Rightarrow> bytes" where
  "encode_string s = left_enc (8 * length s) @ s"

definition bytepad :: "bytes \<Rightarrow> nat \<Rightarrow> bytes" where
  "bytepad x w = (let z = left_enc w @ x in z @ replicate ((w - length z mod w) mod w) 0)"

definition cshake_spec :: "nat \<Rightarrow> bytes \<Rightarrow> bytes \<Rightarrow> bytes \<Rightarrow> nat \<Rightarrow> bytes" where
  "cshake_spec rate n s x l =
     (if n = [] \<and> s = [] then fips_sponge rate [True, True, True, True] x l
      else fips_sponge rate [False, False] (bytepad (encode_string n @ encode_string s) rate @ x) l)"

section \<open>The encodings are the standard's\<close>

lemma leading_zeros_bounds:
  assumes "x \<noteq> 0"
  shows "leading_zeros x < 64" "bit x (63 - leading_zeros x)" "unat x < 2 ^ (64 - leading_zeros x)"
proof -
  let ?xs = "rev [0..<64]" and ?P = "\<lambda>i. \<not> bit x i"
  let ?n = "length (takeWhile ?P ?xs)"
  obtain i where i: "bit x i" "i < 64"
    using assms bit_imp_le_length [where w = x] by (auto simp: bit_eq_iff)
  have len: "length ?xs = 64" by simp
  have nth: "?xs ! k = 63 - k" if "k < 64" for k using that by (simp add: rev_nth del: upt_rec_numeral)
  have "\<exists>j \<in> set ?xs. \<not> ?P j" using i by auto
  then have "takeWhile ?P ?xs \<noteq> ?xs" unfolding takeWhile_eq_all_conv by blast
  then have lt: "?n < length ?xs"
    by (metis length_takeWhile_le le_neq_implies_less takeWhile_eq_take take_all_iff order_refl)
  then show l: "leading_zeros x < 64" by (simp only: leading_zeros_def len)
  have "\<not> ?P (?xs ! ?n)" by (rule nth_length_takeWhile [OF lt])
  then show b: "bit x (63 - leading_zeros x)" using l nth by (simp add: leading_zeros_def del: upt_rec_numeral)
  have z: "\<not> bit x j" if "64 - leading_zeros x \<le> j" for j
  proof (cases "j < 64")
    case True
    then have "63 - j < ?n" using that l by (simp add: leading_zeros_def del: upt_rec_numeral)
    note m = nth_mem [OF this] and t = takeWhile_nth [OF this]
    from m t have "?P (?xs ! (63 - j))" using set_takeWhileD by metis
    then show ?thesis using True nth [of "63 - j"] by (simp del: upt_rec_numeral)
  next
    case False
    then show ?thesis using bit_imp_le_length [of x j] by auto
  qed
  have "take_bit (64 - leading_zeros x) x = x"
    by (rule bit_word_eqI) (use z in \<open>simp add: bit_take_bit_iff, meson not_less\<close>)
  then have "unat x = take_bit (64 - leading_zeros x) (unat x)" by (metis unsigned_take_bit_eq)
  then show "unat x < 2 ^ (64 - leading_zeros x)" by (metis take_bit_nat_less_exp)
qed


lemma value_bytes_bounds:
  "1 \<le> value_bytes x" "value_bytes x \<le> 8" "unat x < 256 ^ value_bytes x"
  "value_bytes x = 1 \<or> 256 ^ (value_bytes x - 1) \<le> unat x"
proof -
  let ?l = "leading_zeros x"
  have "1 \<le> value_bytes x \<and> value_bytes x \<le> 8 \<and> unat x < 256 ^ value_bytes x
      \<and> (value_bytes x = 1 \<or> 256 ^ (value_bytes x - 1) \<le> unat x)"
  proof (cases "x = 0")
    case True
    then show ?thesis by (simp add: value_bytes_def)
  next
    case False
    note B = leading_zeros_bounds [OF False]
    have v: "value_bytes x = 8 - ?l div 8" using False by (simp add: value_bytes_def)
    have d: "?l div 8 < 8" using B(1) by simp
    have "64 - ?l \<le> 8 * value_bytes x" unfolding v using mult_div_mod_eq [of 8 ?l] mod_less_divisor [of 8 ?l] d
      by linarith
    then have "2 ^ (64 - ?l) \<le> (2 :: nat) ^ (8 * value_bytes x)" by (rule power_increasing) simp
    then have up: "unat x < 256 ^ value_bytes x" using B(3) by (simp add: power_mult)
    have "8 * (value_bytes x - 1) \<le> 63 - ?l" unfolding v using div_times_less_eq_dividend [of ?l 8] d B(1)
      by linarith
    then have "(2 :: nat) ^ (8 * (value_bytes x - 1)) \<le> 2 ^ (63 - ?l)" by (rule power_increasing) simp
    moreover have "2 ^ (63 - ?l) \<le> unat x"
    proof -
      have "bit (unat x) (63 - ?l)" using B(2) by (simp add: bit_unsigned_iff)
      then have "unat x div 2 ^ (63 - ?l) \<noteq> 0" by (metis bit_iff_odd even_zero)
      then show ?thesis by (metis div_less not_less)
    qed
    ultimately have low: "256 ^ (value_bytes x - 1) \<le> unat x" by (simp add: power_mult)
    have "1 \<le> value_bytes x" "value_bytes x \<le> 8" unfolding v using d by linarith+
    then show ?thesis using up low by blast
  qed
  then show "1 \<le> value_bytes x" "value_bytes x \<le> 8" "unat x < 256 ^ value_bytes x"
    "value_bytes x = 1 \<or> 256 ^ (value_bytes x - 1) \<le> unat x" by blast+
qed

lemma be_digits_eq:
  "1 \<le> n \<Longrightarrow> v < 256 ^ n \<Longrightarrow> n = 1 \<or> 256 ^ (n - 1) \<le> v \<Longrightarrow>
     be_digits v = map (\<lambda>i. v div 256 ^ (n - 1 - i) mod 256) [0..<n]"
proof (induction n arbitrary: v rule: nat_induct_at_least)
  case base
  then show ?case by (simp add: be_digits.simps [of v])
next
  case (Suc n)
  then have v: "256 ^ n \<le> v" by simp
  moreover have "256 ^ 1 \<le> (256 :: nat) ^ n" by (rule power_increasing) (use Suc(1) in simp_all)
  ultimately have big: "\<not> v < 256" by simp
  have "v div 256 < 256 ^ n" using Suc(3) by (simp add: div_less_iff_less_mult mult.commute)
  moreover have "n = 1 \<or> 256 ^ (n - 1) \<le> v div 256"
  proof -
    have "256 ^ n = 256 * (256 :: nat) ^ (n - 1)" using Suc(1) by (cases n) simp_all
    then show ?thesis using v by (simp add: less_eq_div_iff_mult_less_eq mult.commute)
  qed
  ultimately have I: "be_digits (v div 256) = map (\<lambda>i. v div 256 div 256 ^ (n - 1 - i) mod 256) [0..<n]"
    by (rule Suc(2))
  have s: "v div 256 div 256 ^ (n - Suc i) = v div 256 ^ (n - i)" if "i < n" for i
  proof -
    have "256 ^ (n - i) = 256 * (256 :: nat) ^ (n - Suc i)" using that by (cases "n - i") auto
    then show ?thesis by (simp add: div_mult2_eq)
  qed
  show ?case
    using big I by (simp add: be_digits.simps [of v] s cong: map_cong)
qed

lemma encode_loop:
  assumes "k + n \<le> length buf"
  shows "fold (\<lambda>i buf. buf[k + i := f i]) [0..<n] buf = take k buf @ map f [0..<n] @ drop (k + n) buf"
  using assms
proof (induction n)
  case (Suc n)
  then have I: "fold (\<lambda>i buf. buf[k + i := f i]) [0..<n] buf = take k buf @ map f [0..<n] @ drop (k + n) buf" by simp
  have "drop (k + n) buf = buf ! (k + n) # drop (k + Suc n) buf" using Suc(2) by (simp add: Cons_nth_drop_Suc)
  then show ?case using Suc(2) by (simp add: I list_update_append min_def)
qed simp

lemma value_digit: "(ucast (drop_bit (8 * j) x) :: u8) = of_nat (unat x div 256 ^ j mod 256)" for x :: u64
proof -
  have "unat (ucast (drop_bit (8 * j) x) :: u8) = unat x div 256 ^ j mod 256"
  proof -
    have "unat x div 256 ^ j = drop_bit (8 * j) (unat x)" by (simp add: drop_bit_eq_div power_mult)
    then show ?thesis by (simp only: unat_ucast unat_drop_bit_eq) simp
  qed
  then show ?thesis by (simp add: word_unat_eq_iff unat_of_nat)
qed

lemma be_digits_word: "map of_nat (be_digits (unat x)) = map (\<lambda>i. ucast (drop_bit (8 * (value_bytes x - 1 - i)) x) :: u8) [0..<value_bytes x]"
  using be_digits_eq [OF value_bytes_bounds(1,3,4), of x] by (simp add: value_digit del: of_nat_mod)

lemma length_be_digits: "length (be_digits (unat x)) = value_bytes x"
  using be_digits_eq [OF value_bytes_bounds(1,3,4), of x] by simp

lemma left_encode_ok:
  assumes "length buf = 9"
  shows "encoded (left_encode x buf) = left_enc (unat x)" "length (snd (left_encode x buf)) = 9"
proof -
  let ?n = "value_bytes x"
  have e: "left_encode x buf = (?n + 1, take 1 (buf[0 := of_nat ?n]) @
      map (\<lambda>i. ucast (drop_bit (8 * (?n - 1 - i)) x)) [0..<?n] @ drop (1 + ?n) (buf[0 := of_nat ?n]))"
    unfolding left_encode_def Let_def
    using encode_loop [of 1 ?n "buf[0 := of_nat ?n]" "\<lambda>i. ucast (drop_bit (8 * (?n - 1 - i)) x)"]
      assms value_bytes_bounds(2) [of x] by simp
  have "take 1 (buf[0 := of_nat ?n]) = [of_nat ?n]" using assms by (cases buf) simp_all
  then show "encoded (left_encode x buf) = left_enc (unat x)"
    unfolding e left_enc_def by (simp add: length_be_digits be_digits_word)
  show "length (snd (left_encode x buf)) = 9"
    unfolding e using assms value_bytes_bounds(2) [of x] by simp
qed

lemma right_encode_ok:
  assumes "length buf = 9"
  shows "encoded (right_encode x buf) = right_enc (unat x)" "length (snd (right_encode x buf)) = 9"
proof -
  let ?n = "value_bytes x"
  let ?d = "map (\<lambda>i. ucast (drop_bit (8 * (?n - 1 - i)) x) :: u8) [0..<?n]"
  have "fold (\<lambda>i buf. buf[i := ucast (drop_bit (8 * (?n - 1 - i)) x)]) [0..<?n] buf = ?d @ drop ?n buf"
    using encode_loop [of 0 ?n buf "\<lambda>i. ucast (drop_bit (8 * (?n - 1 - i)) x)"]
      assms value_bytes_bounds(2) [of x] by simp
  moreover have "drop ?n buf = buf ! ?n # drop (Suc ?n) buf"
    using assms value_bytes_bounds(2) [of x] by (simp add: Cons_nth_drop_Suc)
  ultimately have e: "right_encode x buf = (?n + 1, ?d @ of_nat ?n # drop (Suc ?n) buf)"
    unfolding right_encode_def Let_def by (simp add: list_update_append)
  show "encoded (right_encode x buf) = right_enc (unat x)"
    unfolding e right_enc_def by (simp add: length_be_digits be_digits_word)
  show "length (snd (right_encode x buf)) = 9"
    unfolding e using assms value_bytes_bounds(2) [of x] by simp
qed


lemma encoded_length_bits:
  assumes "length s < 2 ^ 61"
  shows "encoded (left_encode (of_nat (length s) * 8) encode_buffer) = left_enc (8 * length s)"
    and "encoded (right_encode (of_nat (length s) * 8) encode_buffer) = right_enc (8 * length s)"
proof -
  have "unat (of_nat (length s) * 8 :: u64) = 8 * length s"
    using assms by (simp add: unat_word_ariths unat_of_nat mult.commute)
  then show "encoded (left_encode (of_nat (length s) * 8) encode_buffer) = left_enc (8 * length s)"
    "encoded (right_encode (of_nat (length s) * 8) encode_buffer) = right_enc (8 * length s)"
    using left_encode_ok(1) [of encode_buffer "of_nat (length s) * 8"]
      right_encode_ok(1) [of encode_buffer "of_nat (length s) * 8"]
    by (simp_all add: MAX_ENCODE_def)
qed

section \<open>What the sponge holds\<close>

text \<open>The rates of the two parameter sets; each is below 256 and leaves room in the state.\<close>

definition rate_ok :: "nat \<Rightarrow> bool" where
  "rate_ok r \<longleftrightarrow> r = 168 \<or> r = 136"

lemma rate_okD: "rate_ok r \<Longrightarrow> 0 < r" "rate_ok r \<Longrightarrow> r \<le> 200" "rate_ok r \<Longrightarrow> r < 2 ^ 64"
  by (auto simp: rate_ok_def)

lemma encoded_rate:
  assumes "rate_ok r"
  shows "encoded (left_encode (of_nat r) encode_buffer) = left_enc r"
proof -
  have "unat (of_nat r :: u64) = r" using rate_okD(3) [OF assms] by (simp add: of_nat_inverse)
  then show ?thesis using left_encode_ok(1) [of encode_buffer "of_nat r"] by (simp add: MAX_ENCODE_def)
qed

lemma sponge_absorb_extends: "rate_ok r \<Longrightarrow> sponge_holds r d s m \<Longrightarrow> sponge_holds r d (sponge_absorb x s) (m @ x)"
  by (rule sponge_absorb_holds) (auto dest: rate_okD)

lemma absorb_zeros_holds:
  "rate_ok r \<Longrightarrow> sponge_holds r d s m \<Longrightarrow> sponge_holds r d (absorb_zeros n s) (m @ replicate n 0)"
proof (induction n s arbitrary: m rule: absorb_zeros.induct)
  case (1 n s)
  show ?case
  proof (cases "n = 0")
    case True
    then show ?thesis using 1(3) by (simp add: absorb_zeros.simps)
  next
    case False
    have "sponge_holds r d (absorb_zeros (n - min n 168) (sponge_absorb (replicate (min n 168) 0) s))
        ((m @ replicate (min n 168) 0) @ replicate (n - min n 168) 0)"
      by (rule 1(1) [OF False refl 1(2) sponge_absorb_extends [OF 1(2,3)]])
    then show ?thesis
      using False by (subst absorb_zeros.simps) (simp add: Let_def replicate_add [symmetric])
  qed
qed

text \<open>A counting absorb that started at \<open>base\<close> has fed \<open>x\<close>.\<close>

definition counted :: "nat \<Rightarrow> u8 \<Rightarrow> bytes \<Rightarrow> counting_absorb \<Rightarrow> bytes \<Rightarrow> bool" where
  "counted r d base c x \<longleftrightarrow> sponge_holds r d (ca_sponge c) (base @ x) \<and> ca_written c = length x"

lemma counted_new: "sponge_holds r d s base \<Longrightarrow> counted r d base (counting_new s) []"
  by (simp add: counted_def counting_new_def)

lemma counted_feed: "rate_ok r \<Longrightarrow> counted r d base c x \<Longrightarrow> counted r d base (feed y c) (x @ y)"
  using sponge_absorb_extends [of r d "ca_sponge c" "base @ x" y] by (simp add: counted_def feed_def)

lemma counted_string:
  "rate_ok r \<Longrightarrow> length s < 2 ^ 61 \<Longrightarrow> counted r d base c x \<Longrightarrow>
     counted r d base (feed_encoded_string s c) (x @ encode_string s)"
  using counted_feed [of r d base "feed (left_enc (8 * length s)) c" "x @ left_enc (8 * length s)" s]
    counted_feed [of r d base c x "left_enc (8 * length s)"]
  by (simp add: feed_encoded_string_def encoded_length_bits(1) encode_string_def)

lemma finish_bytepad_holds:
  assumes "rate_ok r" "counted r d base c (left_enc r @ x)"
  shows "sponge_holds r d (finish_bytepad r c) (base @ bytepad x r)"
proof -
  let ?z = "left_enc r @ x"
  have h: "sponge_holds r d (ca_sponge c) (base @ ?z)" "ca_written c = length ?z"
    using assms(2) by (simp_all add: counted_def)
  show ?thesis
  proof (cases "length ?z mod r = 0")
    case True
    then show ?thesis using h by (simp add: finish_bytepad_def bytepad_def Let_def)
  next
    case False
    have "length ?z mod r < r" using rate_okD(1) [OF assms(1)] by simp
    then have "(r - length ?z mod r) mod r = r - length ?z mod r" using False by simp
    then have "bytepad x r = ?z @ replicate (r - length ?z mod r) 0" by (simp only: bytepad_def Let_def)
    then show ?thesis
      using absorb_zeros_holds [OF assms(1) h(1), of "r - length ?z mod r"] False h(2)
      by (simp add: finish_bytepad_def Let_def)
  qed
qed

lemma cshake_new_custom:
  assumes "rate_ok r" "\<not> (n = [] \<and> s = [])" "length n < 2 ^ 61" "length s < 2 ^ 61"
  shows "sponge_holds r 0x04 (cshake_new r n s) (bytepad (encode_string n @ encode_string s) r)"
proof -
  have "counted r 0x04 [] (counting_new (sponge_new r 0x04)) []"
    by (rule counted_new [OF sponge_new_holds]) (rule rate_okD(1) [OF assms(1)])
  from counted_feed [OF assms(1) this, of "left_enc r"]
  have "counted r 0x04 [] (feed (left_enc r) (counting_new (sponge_new r 0x04))) (left_enc r)" by simp
  from counted_string [OF assms(1,4) counted_string [OF assms(1,3) this]]
  have "counted r 0x04 [] (feed_encoded_string s (feed_encoded_string n (feed (left_enc r) (counting_new (sponge_new r 0x04)))))
      (left_enc r @ encode_string n @ encode_string s)" by simp
  from finish_bytepad_holds [OF assms(1) this] show ?thesis
    unfolding cshake_new_def if_not_P [OF assms(2)] Let_def encoded_rate [OF assms(1)] by simp
qed

lemma absorb_bytepadded_holds:
  assumes "rate_ok r" "length k < 2 ^ 61" "sponge_holds r d s m"
  shows "sponge_holds r d (absorb_bytepadded_string r k s) (m @ bytepad (encode_string k) r)"
proof -
  from counted_feed [OF assms(1) counted_new [OF assms(3)], of "left_enc r"]
  have "counted r d m (feed (left_enc r) (counting_new s)) (left_enc r)" by simp
  from finish_bytepad_holds [OF assms(1) counted_string [OF assms(1,2) this]] show ?thesis
    by (simp add: absorb_bytepadded_string_def Let_def encoded_rate [OF assms(1)])
qed

text \<open>
  A cSHAKE of function name \<open>n\<close> and customization \<open>s\<close> that absorbed \<open>x\<close>.
\<close>

definition cshake_holds :: "nat \<Rightarrow> bytes \<Rightarrow> bytes \<Rightarrow> sponge \<Rightarrow> bytes \<Rightarrow> bool" where
  "cshake_holds r n s sponge x \<longleftrightarrow>
     (if n = [] \<and> s = [] then sponge_holds r 0x1f sponge x
      else sponge_holds r 0x04 sponge (bytepad (encode_string n @ encode_string s) r @ x))"

lemma cshake_new_holds:
  "rate_ok r \<Longrightarrow> length n < 2 ^ 61 \<Longrightarrow> length s < 2 ^ 61 \<Longrightarrow> cshake_holds r n s (cshake_new r n s) []"
  using cshake_new_custom [of r n s] sponge_new_holds [of r "0x1f"] rate_okD(1) [of r]
  by (auto simp: cshake_holds_def cshake_new_def)

lemma cshake_update_holds:
  "rate_ok r \<Longrightarrow> cshake_holds r n s c x \<Longrightarrow> cshake_holds r n s (cshake_update y c) (x @ y)"
  using sponge_absorb_extends [of r "0x1f" c x y]
    sponge_absorb_extends [of r "0x04" c "bytepad (encode_string n @ encode_string s) r @ x" y]
  by (auto simp: cshake_holds_def cshake_update_def)

lemma cshake_update_fold:
  "rate_ok r \<Longrightarrow> cshake_holds r n s c x \<Longrightarrow> cshake_holds r n s (fold cshake_update parts c) (x @ concat parts)"
proof (induction parts arbitrary: c x)
  case (Cons p parts)
  from Cons.IH [OF Cons.prems(1) cshake_update_holds [OF Cons.prems, of p]] show ?case by simp
qed simp

lemma cshake_finalize_ok:
  assumes "rate_ok r" "cshake_holds r n s c x"
  shows "cshake_finalize_unchecked l c = cshake_spec r n s x l"
proof (cases "n = [] \<and> s = []")
  case True
  then have "sponge_holds r 0x1f c x" using assms(2) by (simp add: cshake_holds_def)
  from sponge_output [OF this rate_okD(1,2) [OF assms(1)], of l] True show ?thesis
    using pad10_fips(2) [OF rate_okD(1) [OF assms(1)]]
    by (simp add: cshake_finalize_unchecked_def cshake_spec_def fips_sponge_def)
next
  case False
  then have "sponge_holds r 0x04 c (bytepad (encode_string n @ encode_string s) r @ x)"
    using assms(2) by (simp only: cshake_holds_def if_False)
  from sponge_output [OF this rate_okD(1,2) [OF assms(1)], of l] show ?thesis
    unfolding cshake_spec_def if_not_P [OF False] cshake_finalize_unchecked_def fips_sponge_def
      pad10_fips(3) [OF rate_okD(1) [OF assms(1)]] .
qed


text \<open>cSHAKE, absorbing in any pieces, is the standard's; with no strings it is SHAKE.\<close>

lemma cshake_correct:
  assumes "rate_ok r" "length n < 2 ^ 61" "length s < 2 ^ 61"
  shows "cshake_finalize_unchecked l (fold cshake_update parts (cshake_new r n s)) = cshake_spec r n s (concat parts) l"
  using cshake_finalize_ok [OF assms(1) cshake_update_fold [OF assms(1) cshake_new_holds [OF assms]]] by simp

lemma cshake_plain:
  "cshake_spec 168 [] [] x l = fips_shake 128 x l" "cshake_spec 136 [] [] x l = fips_shake 256 x l"
  by (simp_all add: cshake_spec_def fips_shake_def)

section \<open>TupleHash and ParallelHash\<close>

definition tuplehash_input :: "bytes list \<Rightarrow> nat \<Rightarrow> bytes" where
  "tuplehash_input xs l = concat (map encode_string xs) @ right_enc l"

lemma tuplehash_update_holds:
  assumes "rate_ok r" "length x < 2 ^ 61" "cshake_holds r n s c y"
  shows "cshake_holds r n s (tuplehash_update x c) (y @ encode_string x)"
  using cshake_update_holds [OF assms(1) cshake_update_holds [OF assms(1,3), of "left_enc (8 * length x)"], of x]
  by (simp add: tuplehash_update_def encoded_length_bits(1) [OF assms(2)] encode_string_def)

lemma tuplehash_fold:
  assumes "rate_ok r"
  shows "\<forall>x \<in> set xs. length x < 2 ^ 61 \<Longrightarrow> cshake_holds r n s c y \<Longrightarrow>
    cshake_holds r n s (fold tuplehash_update xs c) (y @ concat (map encode_string xs))"
proof (induction xs arbitrary: c y)
  case (Cons x xs)
  from Cons.IH [OF _ tuplehash_update_holds [OF assms _ Cons.prems(2), of x]] Cons.prems(1)
  show ?case by simp
qed simp

lemma tuplehash_correct:
  assumes "rate_ok r" "operational m = Ok ()" "length custom < 2 ^ 61" "\<forall>x \<in> set xs. length x < 2 ^ 61"
  shows "length out < 2 ^ 61 \<Longrightarrow> tuplehash_hash r m custom xs out =
      (Ok (), cshake_spec r (map of_char ''TupleHash'') custom (tuplehash_input xs (8 * length out)) (length out))"
    and "tuplehash_hash_xof r m custom xs out =
      (Ok (), cshake_spec r (map of_char ''TupleHash'') custom (tuplehash_input xs 0) (length out))"
proof -
  let ?n = "map of_char ''TupleHash'' :: bytes"
  have "length ?n < 2 ^ 61" by simp
  from tuplehash_fold [OF assms(1,4) cshake_new_holds [OF assms(1) this assms(3)]]
  have h: "cshake_holds r ?n custom (fold tuplehash_update xs (tuplehash_new r custom)) (concat (map encode_string xs))"
    by (simp only: tuplehash_new_def append_Nil)
  note fin = cshake_finalize_ok [OF assms(1) cshake_update_holds [OF assms(1) h]]
  show "tuplehash_hash r m custom xs out =
      (Ok (), cshake_spec r ?n custom (tuplehash_input xs (8 * length out)) (length out))" if "length out < 2 ^ 61"
    using fin [of "length out" "right_enc (8 * length out)"] assms(2)
    by (simp add: tuplehash_hash_def tuplehash_finalize_def encoded_length_bits(2) [OF that] tuplehash_input_def)
  have "encoded (right_encode 0 encode_buffer) = right_enc 0"
    using right_encode_ok(1) [of encode_buffer 0] by (simp add: MAX_ENCODE_def)
  then show "tuplehash_hash_xof r m custom xs out =
      (Ok (), cshake_spec r ?n custom (tuplehash_input xs 0) (length out))"
    using fin [of "length out" "right_enc 0"] assms(2)
    by (simp add: tuplehash_hash_xof_def tuplehash_finalize_xof_def tuplehash_input_def)
qed

text \<open>
  Different tuples, or different lengths of the output, are different strings: a length can be
  read off the front of each encoded element, and off the end of the whole.
\<close>

lemma be_digits_value: "fold (\<lambda>d v. v * 256 + d) (be_digits n) 0 = n"
proof (induction n rule: be_digits.induct)
  case (1 n)
  show ?case
  proof (cases "n < 256")
    case False
    then show ?thesis using 1 by (subst be_digits.simps) (simp add: mult.commute)
  qed (simp add: be_digits.simps [of n])
qed

lemma be_digits_less: "d \<in> set (be_digits n) \<Longrightarrow> d < 256"
proof (induction n rule: be_digits.induct)
  case (1 n)
  then show ?case
    by (cases "n < 256") (auto simp: be_digits.simps [of n])
qed

lemma of_nat_u8_inj: "(of_nat a :: u8) = of_nat b \<Longrightarrow> a < 256 \<Longrightarrow> b < 256 \<Longrightarrow> a = b"
  by (drule arg_cong [of _ _ unat]) (simp add: unat_of_nat_u8)

lemma be_digits_inj: "map (of_nat :: nat \<Rightarrow> u8) (be_digits a) = map of_nat (be_digits b) \<Longrightarrow> a = b"
proof -
  assume e: "map (of_nat :: nat \<Rightarrow> u8) (be_digits a) = map of_nat (be_digits b)"
  moreover have "inj_on (of_nat :: nat \<Rightarrow> u8) (set (be_digits a) \<union> set (be_digits b))"
  proof (rule inj_onI)
    fix p q assume p: "p \<in> set (be_digits a) \<union> set (be_digits b)" and q: "q \<in> set (be_digits a) \<union> set (be_digits b)"
      and w: "(of_nat p :: u8) = of_nat q"
    show "p = q"
      by (rule of_nat_u8_inj [OF w]) (use p q in \<open>auto intro: be_digits_less\<close>)
  qed
  ultimately have "be_digits a = be_digits b" by (rule map_inj_on)
  from arg_cong [OF this, of "\<lambda>ds. fold (\<lambda>d v. v * 256 + d) ds 0"] show "a = b"
    by (simp only: be_digits_value)
qed

lemma length_be_digits_less: "n < 2 ^ 64 \<Longrightarrow> length (be_digits n) < 256"
  using length_be_digits [of "of_nat n"] value_bytes_bounds(2) [of "of_nat n"] by (simp add: of_nat_inverse)

lemma left_enc_prefix:
  assumes "left_enc a @ x = left_enc b @ y" "a < 2 ^ 64" "b < 2 ^ 64"
  shows "a = b \<and> x = y"
proof -
  have "(of_nat (length (be_digits a)) :: u8) = of_nat (length (be_digits b))"
    and t: "map of_nat (be_digits a) @ x = (map of_nat (be_digits b) :: bytes) @ y"
    using assms(1) by (simp_all add: left_enc_def)
  then have "length (be_digits a) = length (be_digits b)"
    using of_nat_u8_inj length_be_digits_less [OF assms(2)] length_be_digits_less [OF assms(3)] by blast
  then have "map of_nat (be_digits a) = (map of_nat (be_digits b) :: bytes)" "x = y" using t by simp_all
  then show ?thesis using be_digits_inj by blast
qed

lemma encode_string_prefix:
  assumes "encode_string s @ x = encode_string t @ y" "length s < 2 ^ 61" "length t < 2 ^ 61"
  shows "s = t \<and> x = y"
proof -
  have "left_enc (8 * length s) @ (s @ x) = left_enc (8 * length t) @ (t @ y)"
    using assms(1) by (simp add: encode_string_def)
  from left_enc_prefix [OF this] assms(2,3) have "length s = length t" "s @ x = t @ y" by simp_all
  then show ?thesis by simp
qed

lemma right_enc_suffix:
  assumes "x @ right_enc a = y @ right_enc b" "a < 2 ^ 64" "b < 2 ^ 64"
  shows "a = b \<and> x = y"
proof -
  have "(of_nat (length (be_digits a)) :: u8) = of_nat (length (be_digits b))"
    and t: "x @ map of_nat (be_digits a) = y @ (map of_nat (be_digits b) :: bytes)"
    using assms(1) by (simp_all add: right_enc_def flip: append_assoc)
  then have "length (be_digits a) = length (be_digits b)"
    using of_nat_u8_inj length_be_digits_less [OF assms(2)] length_be_digits_less [OF assms(3)] by blast
  then have "map of_nat (be_digits a) = (map of_nat (be_digits b) :: bytes)" "x = y" using t by simp_all
  then show ?thesis using be_digits_inj by blast
qed

lemma encode_strings_inj:
  "\<forall>x \<in> set xs. length x < 2 ^ 61 \<Longrightarrow> \<forall>y \<in> set ys. length y < 2 ^ 61 \<Longrightarrow>
     concat (map encode_string xs) = concat (map encode_string ys) \<Longrightarrow> xs = ys"
proof (induction xs arbitrary: ys)
  case Nil
  then show ?case by (cases ys) (auto simp: encode_string_def left_enc_def)
next
  case (Cons x xs)
  then obtain y ys' where ys: "ys = y # ys'" by (cases ys) (auto simp: encode_string_def left_enc_def)
  have "encode_string x @ concat (map encode_string xs) = encode_string y @ concat (map encode_string ys')"
    using Cons.prems(3) by (simp add: ys)
  from encode_string_prefix [OF this] Cons.prems(1,2) have "x = y" "concat (map encode_string xs) = concat (map encode_string ys')"
    by (simp_all add: ys)
  with Cons.IH [of ys'] Cons.prems(1,2) show ?case by (simp add: ys)
qed

lemma tuplehash_input_inj:
  assumes "tuplehash_input xs l = tuplehash_input ys k" "l < 2 ^ 64" "k < 2 ^ 64"
    and "\<forall>x \<in> set xs. length x < 2 ^ 61" "\<forall>y \<in> set ys. length y < 2 ^ 61"
  shows "xs = ys \<and> l = k"
  using right_enc_suffix [OF assms(1) [unfolded tuplehash_input_def] assms(2,3)] encode_strings_inj [OF assms(4,5)]
  by blast


text \<open>ParallelHash: the digests of the blocks between the block size and the two lengths.\<close>

definition parallelhash_input :: "nat \<Rightarrow> nat \<Rightarrow> nat \<Rightarrow> bytes \<Rightarrow> nat \<Rightarrow> bytes" where
  "parallelhash_input r c b x l =
     left_enc b @ concat (map (\<lambda>block. cshake_spec r [] [] block c) (chunks b x))
     @ right_enc (length (chunks b x)) @ right_enc l"

lemma length_chunks_le: "0 < k \<Longrightarrow> length (chunks k xs) \<le> length xs"
proof -
  assume k: "0 < k"
  have "(length xs + k - 1) div k \<le> length xs"
  proof (cases "xs = []")
    case False
    then have "length xs + k - 1 < Suc (length xs) * k" using k by (cases k) (auto simp: algebra_simps Suc_le_eq)
    then have "(length xs + k - 1) div k < Suc (length xs)" using k by (simp only: div_less_iff_less_mult)
    then show ?thesis by simp
  qed (use k in simp)
  then show ?thesis by (simp only: length_chunks [OF k])
qed

lemma parallel_blocks:
  assumes "rate_ok r" "cshake_holds r n s c y"
  shows "\<exists>c'. fold (\<lambda>block (outer, blocks :: u64). (cshake_update (parallelhash_leaf r l block) outer, blocks + 1)) bs (c, k)
      = (c', k + of_nat (length bs))
    \<and> cshake_holds r n s c' (y @ concat (map (\<lambda>block. cshake_spec r [] [] block l) bs))"
  using assms(2)
proof (induction bs arbitrary: c y k)
  case (Cons b bs)
  have "cshake_holds r [] [] (cshake_update b (cshake_new r [] [])) b"
    using cshake_update_holds [OF assms(1) cshake_new_holds [OF assms(1), of "[]" "[]"], of b] by simp
  then have leaf: "parallelhash_leaf r l b = cshake_spec r [] [] b l"
    unfolding parallelhash_leaf_def by (rule cshake_finalize_ok [OF assms(1)])
  from Cons.IH [OF cshake_update_holds [OF assms(1) Cons.prems, of "cshake_spec r [] [] b l"], of "k + 1"]
  show ?case by (simp add: leaf add.assoc)
qed simp

lemma parallelhash_correct:
  assumes "rate_ok r" "operational m = Ok ()" "0 < b" "b < 2 ^ 64" "length custom < 2 ^ 61" "length x < 2 ^ 61"
    "length out < 2 ^ 61"
  shows "parallelhash_run r c m custom b x out xof_mode =
    (Ok (), cshake_spec r (map of_char ''ParallelHash'') custom
       (parallelhash_input r c b x (if xof_mode then 0 else 8 * length out)) (length out))"
proof -
  let ?n = "map of_char ''ParallelHash'' :: bytes"
  let ?bs = "chunks b x"
  have buf: "length encode_buffer = 9" by (simp add: MAX_ENCODE_def)
  define L where "L = left_encode (of_nat b) encode_buffer"
  have ub: "unat (of_nat b :: u64) = b" using assms(4) by (simp add: of_nat_inverse)
  have L: "take (fst L) (snd L) = left_enc b" "length (snd L) = 9"
    using left_encode_ok [OF buf, of "of_nat b"] by (simp_all add: L_def ub)
  have "length ?n < 2 ^ 61" by simp
  from cshake_update_holds [OF assms(1) cshake_new_holds [OF assms(1) this assms(5)], of "left_enc b"]
  have "cshake_holds r ?n custom (cshake_update (left_enc b) (cshake_new r ?n custom)) (left_enc b)" by simp
  from parallel_blocks [OF assms(1) this, of c ?bs 0]
  obtain c' where c': "fold (\<lambda>block (outer, blocks :: u64). (cshake_update (parallelhash_leaf r c block) outer, blocks + 1)) ?bs
      (cshake_update (left_enc b) (cshake_new r ?n custom), 0) = (c', of_nat (length ?bs))"
    "cshake_holds r ?n custom c' (left_enc b @ concat (map (\<lambda>block. cshake_spec r [] [] block c) ?bs))"
    by auto
  define R where "R = right_encode (of_nat (length ?bs)) (snd L)"
  have "length ?bs < 2 ^ 64" using length_chunks_le [OF assms(3), of x] assms(6) by simp
  then have "unat (of_nat (length ?bs) :: u64) = length ?bs" by (simp add: of_nat_inverse)
  then have R: "take (fst R) (snd R) = right_enc (length ?bs)" "length (snd R) = 9"
    using right_encode_ok [OF L(2), of "of_nat (length ?bs)"] by (simp_all add: R_def)
  define Q where "Q = right_encode (if xof_mode then 0 else of_nat (length out) * 8) (snd R)"
  have "unat (if xof_mode then 0 else of_nat (length out) * 8 :: u64) = (if xof_mode then 0 else 8 * length out)"
    using assms(7) by (simp add: unat_word_ariths unat_of_nat mult.commute)
  then have Q: "take (fst Q) (snd Q) = right_enc (if xof_mode then 0 else 8 * length out)"
    using right_encode_ok(1) [OF R(2), of "if xof_mode then 0 else of_nat (length out) * 8"] by (simp add: Q_def)
  have run: "parallelhash_run r c m custom b x out xof_mode =
      (Ok (), cshake_finalize_unchecked (length out)
        (cshake_update (take (fst Q) (snd Q)) (cshake_update (take (fst R) (snd R)) c')))"
    using assms(2,3) c'(1) by (simp add: parallelhash_run_def Let_def split_beta L_def [symmetric] L(1)
        R_def [symmetric] Q_def [symmetric])
  from cshake_finalize_ok [OF assms(1) cshake_update_holds [OF assms(1) cshake_update_holds [OF assms(1) c'(2)]]]
  show ?thesis unfolding run Q R by (simp add: parallelhash_input_def)
qed

end
