(* ===== verification/Mac_Kmac.thy ===== *)
theory Mac_Kmac
  imports Hash_Sp800_185 Core_Ct
begin

text \<open>
  KMAC, \<open>crates/ic-mac/src/kmac.rs\<close>: cSHAKE over the padded key, the message and the length of
  the tag. The two parameter sets of the macro are one definition over the rate and the
  identifier. Scrubbing of the stack is not modelled.
\<close>

definition KMAC_MAX_TAG :: nat where "KMAC_MAX_TAG = 64"

definition kmac_new :: "nat \<Rightarrow> bytes \<Rightarrow> bytes \<Rightarrow> sponge" where
  "kmac_new rate key custom = absorb_bytepadded_string rate key (cshake_new rate (map of_char ''KMAC'') custom)"

definition kmac_update :: "bytes \<Rightarrow> sponge \<Rightarrow> sponge" where
  "kmac_update data s = cshake_update data s"

definition kmac_finalize :: "module_state \<Rightarrow> bytes \<Rightarrow> sponge \<Rightarrow> unit result \<times> bytes" where
  "kmac_finalize m out s =
     (case operational m of
        Inl e \<Rightarrow> (Inl e, out)
      | Inr _ \<Rightarrow> (Ok (), cshake_finalize_unchecked (length out)
          (cshake_update (encoded (right_encode (of_nat (length out) * 8) encode_buffer)) s)))"

definition kmac_finalize_xof :: "module_state \<Rightarrow> bytes \<Rightarrow> sponge \<Rightarrow> unit result \<times> bytes" where
  "kmac_finalize_xof m out s =
     (case operational m of
        Inl e \<Rightarrow> (Inl e, out)
      | Inr _ \<Rightarrow> (Ok (), cshake_finalize_unchecked (length out)
          (cshake_update (encoded (right_encode 0 encode_buffer)) s)))"

definition kmac_mac :: "nat \<Rightarrow> module_state \<Rightarrow> bytes \<Rightarrow> bytes \<Rightarrow> bytes \<Rightarrow> bytes \<Rightarrow> unit result \<times> bytes" where
  "kmac_mac rate m key custom data out = kmac_finalize m out (kmac_update data (kmac_new rate key custom))"

definition kmac_mac_xof :: "nat \<Rightarrow> module_state \<Rightarrow> bytes \<Rightarrow> bytes \<Rightarrow> bytes \<Rightarrow> bytes \<Rightarrow> unit result \<times> bytes" where
  "kmac_mac_xof rate m key custom data out = kmac_finalize_xof m out (kmac_update data (kmac_new rate key custom))"

definition kmac_verify :: "nat \<Rightarrow> string \<Rightarrow> module_state \<Rightarrow> bytes \<Rightarrow> bytes \<Rightarrow> bytes \<Rightarrow> bytes \<Rightarrow> unit result" where
  "kmac_verify rate ident m key custom data tag =
     bind_result (operational m) (\<lambda>_.
       if tag = [] \<or> \<not> length tag \<le> KMAC_MAX_TAG then Err InvalidLength ''kmac tag length''
       else
         let expected = replicate KMAC_MAX_TAG 0;
             (r, out) = kmac_mac rate m key custom data (take (length tag) expected)
         in bind_result r (\<lambda>_.
              let expected = out @ drop (length tag) expected
              in if ct_verify (take (length tag) expected) tag then Ok ()
                 else Err AuthenticationFailed ident))"

section \<open>The standard's function\<close>

definition kmac_spec :: "nat \<Rightarrow> bytes \<Rightarrow> bytes \<Rightarrow> bytes \<Rightarrow> nat \<Rightarrow> nat \<Rightarrow> bytes" where
  "kmac_spec r key custom x l n =
     cshake_spec r (map of_char ''KMAC'') custom (bytepad (encode_string key) r @ x @ right_enc l) n"

lemma kmac_new_holds:
  assumes "rate_ok r" "length key < 2 ^ 61" "length custom < 2 ^ 61"
  shows "cshake_holds r (map of_char ''KMAC'') custom (kmac_new r key custom) (bytepad (encode_string key) r)"
proof -
  let ?n = "map of_char ''KMAC'' :: bytes"
  have n: "\<not> (?n = [] \<and> custom = [])" "length ?n < 2 ^ 61" by simp_all
  from absorb_bytepadded_holds [OF assms(1,2) cshake_new_custom [OF assms(1) n assms(3)]]
  show ?thesis by (simp add: cshake_holds_def kmac_new_def)
qed

lemma kmac_absorb:
  assumes "rate_ok r" "length key < 2 ^ 61" "length custom < 2 ^ 61"
  shows "cshake_holds r (map of_char ''KMAC'') custom (fold kmac_update parts (kmac_new r key custom))
    (bytepad (encode_string key) r @ concat parts)"
proof -
  have "kmac_update = cshake_update" by (intro ext) (simp add: kmac_update_def)
  then show ?thesis using cshake_update_fold [OF assms(1) kmac_new_holds [OF assms]] by simp
qed

text \<open>Tags over a message in any pieces, of fixed length and as a stream.\<close>

lemma kmac_correct:
  assumes "rate_ok r" "operational m = Ok ()" "length key < 2 ^ 61" "length custom < 2 ^ 61" "length out < 2 ^ 61"
  shows "kmac_finalize m out (fold kmac_update parts (kmac_new r key custom)) =
      (Ok (), kmac_spec r key custom (concat parts) (8 * length out) (length out))"
    and "kmac_finalize_xof m out (fold kmac_update parts (kmac_new r key custom)) =
      (Ok (), kmac_spec r key custom (concat parts) 0 (length out))"
proof -
  note fin = cshake_finalize_ok [OF assms(1) cshake_update_holds [OF assms(1) kmac_absorb [OF assms(1,3,4)]]]
  show "kmac_finalize m out (fold kmac_update parts (kmac_new r key custom)) =
      (Ok (), kmac_spec r key custom (concat parts) (8 * length out) (length out))"
    using fin [of "length out" "right_enc (8 * length out)" parts] assms(2)
    by (simp add: kmac_finalize_def kmac_spec_def encoded_length_bits(2) [OF assms(5)])
  have "encoded (right_encode 0 encode_buffer) = right_enc 0"
    using right_encode_ok(1) [of encode_buffer 0] by (simp add: MAX_ENCODE_def)
  then show "kmac_finalize_xof m out (fold kmac_update parts (kmac_new r key custom)) =
      (Ok (), kmac_spec r key custom (concat parts) 0 (length out))"
    using fin [of "length out" "right_enc 0" parts] assms(2)
    by (simp add: kmac_finalize_xof_def kmac_spec_def)
qed

lemma kmac_spec_length [simp]: "length (kmac_spec r key custom x l n) = n"
  by (simp add: kmac_spec_def cshake_spec_def fips_sponge_def)

lemma kmac_mac_eq:
  assumes "rate_ok r" "operational m = Ok ()" "length key < 2 ^ 61" "length custom < 2 ^ 61" "length out < 2 ^ 61"
  shows "kmac_mac r m key custom data out = (Ok (), kmac_spec r key custom data (8 * length out) (length out))"
  using kmac_correct(1) [OF assms, of "[data]"] by (simp add: kmac_mac_def)

text \<open>Verification accepts the tag of its own length, and nothing else.\<close>

lemma kmac_verify_iff:
  assumes "rate_ok r" "operational m = Ok ()" "length key < 2 ^ 61" "length custom < 2 ^ 61"
  shows "kmac_verify r ident m key custom data tag = Ok () \<longleftrightarrow>
    1 \<le> length tag \<and> length tag \<le> 64 \<and> tag = kmac_spec r key custom data (8 * length tag) (length tag)"
proof (cases "tag = [] \<or> \<not> length tag \<le> 64")
  case True
  then show ?thesis using assms(2) by (auto simp: kmac_verify_def KMAC_MAX_TAG_def Suc_le_eq)
next
  case False
  then have l: "length (take (length tag) (replicate KMAC_MAX_TAG (0 :: u8))) = length tag"
    by (simp add: KMAC_MAX_TAG_def)
  have t: "length tag < 2 ^ 61" using False by (simp add: le_less_trans [of _ 64])
  have "kmac_mac r m key custom data (take (length tag) (replicate KMAC_MAX_TAG 0)) =
      (Ok (), kmac_spec r key custom data (8 * length tag) (length tag))"
    using kmac_mac_eq [OF assms, of "take (length tag) (replicate KMAC_MAX_TAG 0)"] l t by (simp only: l)
  then show ?thesis
    using False assms(2) by (auto simp: kmac_verify_def KMAC_MAX_TAG_def Let_def Suc_le_eq ct_verify_iff)
qed

end
