(* ===== verification/Json.thy ===== *)
theory Json
  imports Main "HOL-Library.List_Lexorder"
begin

text \<open>
  The JSON reader and writer: \<open>crates/ic-json/src/lib.rs\<close>. A Rust \<open>char\<close> is its code
  point, so text is a list of numbers. The floating-point type, its parser and its
  formatter are the standard library's and a parameter, \<open>float_ops\<close>. A parser state
  holds what is left of the input beside the position; an arithmetic overflow, which
  the workspace's release profile turns into an abort, is the outcome \<open>Panic\<close>.
\<close>

section \<open>Values\<close>

type_synonym rstring = "nat list"

datatype 'f json =
    JNull
  | JBool bool
  | JNumber 'f
  | JString rstring
  | JArray "'f json list"
  | JObject "(rstring \<times> 'f json) list"

definition chars :: "string \<Rightarrow> rstring" where
  "chars s = map of_char s"

text \<open>\<open>BTreeMap::insert\<close>: keys in order, the last value of a key kept.\<close>

fun btree_insert :: "rstring \<Rightarrow> 'v \<Rightarrow> (rstring \<times> 'v) list \<Rightarrow> (rstring \<times> 'v) list" where
  "btree_insert k v [] = [(k, v)]"
| "btree_insert k v ((k', v') # m) =
     (if k < k' then (k, v) # (k', v') # m
      else if k = k' then (k, v) # m
      else (k', v') # btree_insert k v m)"

definition json_get :: "'f json \<Rightarrow> rstring \<Rightarrow> 'f json option" where
  "json_get j key = (case j of JObject m \<Rightarrow> map_of m key | _ \<Rightarrow> None)"

definition as_str :: "'f json \<Rightarrow> rstring option" where
  "as_str j = (case j of JString s \<Rightarrow> Some s | _ \<Rightarrow> None)"

definition as_array :: "'f json \<Rightarrow> 'f json list option" where
  "as_array j = (case j of JArray items \<Rightarrow> Some items | _ \<Rightarrow> None)"

definition as_f64 :: "'f json \<Rightarrow> 'f option" where
  "as_f64 j = (case j of JNumber n \<Rightarrow> Some n | _ \<Rightarrow> None)"

definition as_bool :: "'f json \<Rightarrow> bool option" where
  "as_bool j = (case j of JBool b \<Rightarrow> Some b | _ \<Rightarrow> None)"

definition json_str :: "rstring \<Rightarrow> 'f json" where
  "json_str s = JString s"

definition json_num :: "'f \<Rightarrow> 'f json" where
  "json_num n = JNumber n"

definition json_object :: "(rstring \<times> 'f json) list \<Rightarrow> 'f json" where
  "json_object pairs = JObject (fold (\<lambda>(k, v). btree_insert k v) pairs [])"

section \<open>The writer\<close>

record 'f float_ops =
  parse_f64 :: "rstring \<Rightarrow> 'f option"
  show_f64 :: "'f \<Rightarrow> rstring"
  integral_f64 :: "'f \<Rightarrow> bool"
  f64_as_i64 :: "'f \<Rightarrow> int"

definition hex_digit :: "nat \<Rightarrow> nat" where
  "hex_digit d = (if d < 10 then 48 + d else 87 + d)"

definition write_char :: "nat \<Rightarrow> rstring" where
  "write_char c =
     (if c = 34 then chars [CHR 0x5C, CHR 0x22]
      else if c = 92 then chars [CHR 0x5C, CHR 0x5C]
      else if c = 10 then chars [CHR 0x5C, CHR ''n'']
      else if c = 13 then chars [CHR 0x5C, CHR ''r'']
      else if c = 9 then chars [CHR 0x5C, CHR ''t'']
      else if c < 0x20 then chars [CHR 0x5C, CHR ''u'', CHR ''0'', CHR ''0''] @ [hex_digit (c div 16), hex_digit (c mod 16)]
      else [c])"

definition write_string :: "rstring \<Rightarrow> rstring" where
  "write_string s = [34] @ concat (map write_char s) @ [34]"

text \<open>The decimal digits of an integer.\<close>

fun show_nat :: "nat \<Rightarrow> rstring" where
  "show_nat n = (if n < 10 then [48 + n] else show_nat (n div 10) @ [48 + n mod 10])"

declare show_nat.simps [simp del]

definition show_int :: "int \<Rightarrow> rstring" where
  "show_int i = (if i < 0 then 45 # show_nat (nat (- i)) else show_nat (nat i))"

text \<open>\<open>integral_f64\<close> is the test \<open>n.fract() == 0.0 && n.is_finite() && n.abs() < 9e15\<close>.\<close>

definition write_number :: "'f float_ops \<Rightarrow> 'f \<Rightarrow> rstring" where
  "write_number F n = (if integral_f64 F n then show_int (f64_as_i64 F n) else show_f64 F n)"

definition as_i64 :: "'f float_ops \<Rightarrow> 'f json \<Rightarrow> int option" where
  "as_i64 F j = (case j of JNumber n \<Rightarrow> Some (f64_as_i64 F n) | _ \<Rightarrow> None)"

text \<open>Items with a comma before all but the first.\<close>

fun commas :: "rstring list \<Rightarrow> rstring" where
  "commas [] = []"
| "commas [x] = x"
| "commas (x # y # xs) = x @ [44] @ commas (y # xs)"

fun json_write :: "'f float_ops \<Rightarrow> 'f json \<Rightarrow> rstring" where
  "json_write F JNull = chars ''null''"
| "json_write F (JBool b) = (if b then chars ''true'' else chars ''false'')"
| "json_write F (JNumber n) = write_number F n"
| "json_write F (JString s) = write_string s"
| "json_write F (JArray items) = [91] @ commas (map (json_write F) items) @ [93]"
| "json_write F (JObject m) = [123] @ commas (map (\<lambda>(k, v). write_string k @ [58] @ json_write F v) m) @ [125]"

section \<open>The parser\<close>

datatype json_error =
    TrailingInput nat
  | ExpectedChar nat nat
  | InvalidLiteral nat
  | UnexpectedChar nat nat
  | UnexpectedEnd
  | UnterminatedString
  | TruncatedEscape
  | InvalidHex
  | InvalidEscape
  | ControlCharacter
  | InvalidNumber rstring
  | TooDeep nat
  | ExpectedArraySeparator
  | ExpectedObjectSeparator

record parser =
  rest :: rstring
  pos :: nat
  depth :: nat

datatype 'a outcome = Done 'a parser | Fail json_error | Panic | NoFuel

definition then_parse :: "'a outcome \<Rightarrow> ('a \<Rightarrow> parser \<Rightarrow> 'b outcome) \<Rightarrow> 'b outcome" where
  "then_parse r f = (case r of Done x p \<Rightarrow> f x p | Fail e \<Rightarrow> Fail e | Panic \<Rightarrow> Panic | NoFuel \<Rightarrow> NoFuel)"

lemma then_parse_simps [simp]:
  "then_parse (Done x p) f = f x p" "then_parse (Fail e) f = Fail e"
  "then_parse Panic f = Panic" "then_parse NoFuel f = NoFuel"
  by (simp_all add: then_parse_def)

lemma then_parse_cong [fundef_cong]:
  "r = r' \<Longrightarrow> (\<And>x p. r' = Done x p \<Longrightarrow> f x p = g x p) \<Longrightarrow> then_parse r f = then_parse r' g"
  by (cases r') (simp_all add: then_parse_def)

definition peek :: "parser \<Rightarrow> nat option" where
  "peek p = (case rest p of [] \<Rightarrow> None | c # _ \<Rightarrow> Some c)"

definition advance :: "nat \<Rightarrow> parser \<Rightarrow> parser" where
  "advance n p = p\<lparr>rest := drop n (rest p), pos := pos p + n\<rparr>"

definition bump :: "parser \<Rightarrow> nat option \<times> parser" where
  "bump p = (case peek p of None \<Rightarrow> (None, p) | Some c \<Rightarrow> (Some c, advance 1 p))"

definition is_ws :: "nat \<Rightarrow> bool" where
  "is_ws c \<longleftrightarrow> c = 32 \<or> c = 9 \<or> c = 10 \<or> c = 13"

definition is_digit :: "nat \<Rightarrow> bool" where
  "is_digit c \<longleftrightarrow> 48 \<le> c \<and> c \<le> 57"

text \<open>A loop that steps over the characters of a class.\<close>

definition skip_while :: "(nat \<Rightarrow> bool) \<Rightarrow> parser \<Rightarrow> parser" where
  "skip_while P p = advance (length (takeWhile P (rest p))) p"

definition skip_ws :: "parser \<Rightarrow> parser" where
  "skip_ws p = skip_while is_ws p"

definition expect :: "nat \<Rightarrow> parser \<Rightarrow> unit outcome" where
  "expect c p = (case bump p of (r, p) \<Rightarrow> if r = Some c then Done () p else Fail (ExpectedChar c (pos p)))"

fun literal :: "rstring \<Rightarrow> parser \<Rightarrow> unit outcome" where
  "literal [] p = Done () p"
| "literal (c # cs) p =
     (case bump p of (r, p) \<Rightarrow> if r \<noteq> Some c then Fail (InvalidLiteral (pos p)) else literal cs p)"

definition hex_value :: "nat \<Rightarrow> nat option" where
  "hex_value c =
     (if 48 \<le> c \<and> c \<le> 57 then Some (c - 48)
      else if 97 \<le> c \<and> c \<le> 102 then Some (c - 87)
      else if 65 \<le> c \<and> c \<le> 70 then Some (c - 55)
      else None)"

fun hex_escape :: "nat \<Rightarrow> nat \<Rightarrow> parser \<Rightarrow> nat outcome" where
  "hex_escape 0 code p = Done code p"
| "hex_escape (Suc k) code p =
     (case bump p of
        (None, p) \<Rightarrow> Fail TruncatedEscape
      | (Some c, p) \<Rightarrow> (case hex_value c of None \<Rightarrow> Fail InvalidHex | Some d \<Rightarrow> hex_escape k (code * 16 + d) p))"

text \<open>\<open>char::from_u32\<close>, with the replacement character for what is no scalar value.\<close>

definition scalar :: "nat \<Rightarrow> bool" where
  "scalar c \<longleftrightarrow> c < 0xD800 \<or> 0xE000 \<le> c \<and> c \<le> 0x10FFFF"

definition from_u32 :: "nat \<Rightarrow> nat" where
  "from_u32 code = (if scalar code then code else 0xFFFD)"

definition unicode_escape :: "parser \<Rightarrow> nat outcome" where
  "unicode_escape p = then_parse (hex_escape 4 0 p) (\<lambda>code p.
     if 0xD800 \<le> code \<and> code < 0xDC00 \<and> peek p = Some 92
     then
       then_parse (expect 117 (advance 1 p)) (\<lambda>_ p.
       then_parse (hex_escape 4 0 p) (\<lambda>low p.
         if low < 0xDC00 then Panic
         else Done (from_u32 (0x10000 + (code - 0xD800) * 1024 + (low - 0xDC00))) p))
     else Done (from_u32 code) p)"

lemma rest_bump: "bump p = (r, q) \<Longrightarrow> length (rest q) \<le> length (rest p)"
  by (auto simp: bump_def advance_def split: option.splits)

lemma rest_bump_Some: "bump p = (Some c, q) \<Longrightarrow> length (rest q) < length (rest p)"
  by (auto simp: bump_def advance_def peek_def split: option.splits list.splits)

lemma rest_expect: "expect c p = Done u q \<Longrightarrow> length (rest q) < length (rest p)"
  by (auto simp: expect_def split: if_splits prod.splits dest: rest_bump_Some)

lemma rest_hex_escape: "hex_escape k code p = Done x q \<Longrightarrow> length (rest q) \<le> length (rest p)"
proof (induction k arbitrary: code p)
  case (Suc k)
  then show ?case
    by (auto split: prod.splits option.splits dest!: rest_bump) (meson order.trans)+
qed simp

lemma then_parse_DoneE:
  assumes "then_parse r f = Done y q"
  obtains x p where "r = Done x p" "f x p = Done y q"
  using assms by (cases r) auto

lemma rest_unicode_escape: "unicode_escape p = Done x q \<Longrightarrow> length (rest q) \<le> length (rest p)"
  unfolding unicode_escape_def
  by (erule then_parse_DoneE)
     (auto split: if_splits elim!: then_parse_DoneE dest!: rest_hex_escape rest_expect simp: advance_def)

function string_body :: "rstring \<Rightarrow> parser \<Rightarrow> rstring outcome" where
  "string_body out p =
     (case bump p of
        (None, p) \<Rightarrow> Fail UnterminatedString
      | (Some c, p) \<Rightarrow>
          if c = 34 then Done out p
          else if c = 92 then
            (case bump p of
               (None, p) \<Rightarrow> Fail InvalidEscape
             | (Some e, p) \<Rightarrow>
                 if e = 34 then string_body (out @ [34]) p
                 else if e = 92 then string_body (out @ [92]) p
                 else if e = 47 then string_body (out @ [47]) p
                 else if e = 98 then string_body (out @ [8]) p
                 else if e = 102 then string_body (out @ [12]) p
                 else if e = 110 then string_body (out @ [10]) p
                 else if e = 114 then string_body (out @ [13]) p
                 else if e = 116 then string_body (out @ [9]) p
                 else if e = 117 then then_parse (unicode_escape p) (\<lambda>ch p. string_body (out @ [ch]) p)
                 else Fail InvalidEscape)
          else if c < 0x20 then Fail ControlCharacter
          else string_body (out @ [c]) p)"
  by pat_completeness auto
termination
proof (relation "measure (\<lambda>(out, p). length (rest p))", goal_cases)
  case (10 out p r q c r' q' e ch q'')
  then have "length (rest q) < length (rest p)" "length (rest q') < length (rest q)"
    "length (rest q'') \<le> length (rest q')"
    by (auto dest: rest_bump_Some rest_unicode_escape simp: eq_commute)
  then show ?case
    by simp
qed (auto dest!: rest_bump_Some [OF sym])

declare string_body.simps [simp del]

definition json_string :: "parser \<Rightarrow> rstring outcome" where
  "json_string p = then_parse (expect 34 p) (\<lambda>_ p. string_body [] p)"

text \<open>The scan of a number: the sign and the digits, the fraction, the exponent.\<close>

definition scan_integer :: "parser \<Rightarrow> parser" where
  "scan_integer p = skip_while is_digit (if peek p = Some 45 then advance 1 p else p)"

definition scan_fraction :: "parser \<Rightarrow> parser" where
  "scan_fraction p = (if peek p = Some 46 then skip_while is_digit (advance 1 p) else p)"

definition scan_exponent :: "parser \<Rightarrow> parser" where
  "scan_exponent p =
     (if peek p = Some 101 \<or> peek p = Some 69
      then let q = advance 1 p
           in skip_while is_digit (if peek q = Some 43 \<or> peek q = Some 45 then advance 1 q else q)
      else p)"

definition json_number :: "'f float_ops \<Rightarrow> parser \<Rightarrow> 'f json outcome" where
  "json_number F p =
     (let q = scan_exponent (scan_fraction (scan_integer p));
          literal = take (pos q - pos p) (rest p)
      in case parse_f64 F literal of
           Some n \<Rightarrow> Done (JNumber n) q
         | None \<Rightarrow> Fail (InvalidNumber literal))"

definition MAX_DEPTH :: nat where "MAX_DEPTH = 64"

text \<open>The counting around an array or an object.\<close>

definition nested :: "(parser \<Rightarrow> 'a outcome) \<Rightarrow> parser \<Rightarrow> 'a outcome" where
  "nested inner p =
     (let p = p\<lparr>depth := depth p + 1\<rparr>
      in if MAX_DEPTH < depth p then Fail (TooDeep (pos p))
         else then_parse (inner p) (\<lambda>v p. Done v (p\<lparr>depth := depth p - 1\<rparr>)))"

text \<open>
  The heads of \<open>array_inner\<close> and \<open>object_inner\<close>; \<open>loop\<close> is what follows them. The
  three parsers call each other, with a counter that the theorem \<open>parse_total\<close>
  shows never runs out.
\<close>

definition array_inner :: "('f json list \<Rightarrow> parser \<Rightarrow> 'f json outcome) \<Rightarrow> parser \<Rightarrow> 'f json outcome" where
  "array_inner loop p = then_parse (expect 91 p) (\<lambda>_ p.
     let p = skip_ws p
     in if peek p = Some 93 then Done (JArray []) (advance 1 p) else loop [] p)"

definition object_inner ::
  "((rstring \<times> 'f json) list \<Rightarrow> parser \<Rightarrow> 'f json outcome) \<Rightarrow> parser \<Rightarrow> 'f json outcome" where
  "object_inner loop p = then_parse (expect 123 p) (\<lambda>_ p.
     let p = skip_ws p
     in if peek p = Some 125 then Done (JObject []) (advance 1 p) else loop [] p)"

fun json_value :: "'f float_ops \<Rightarrow> nat \<Rightarrow> parser \<Rightarrow> 'f json outcome"
  and array_loop :: "'f float_ops \<Rightarrow> nat \<Rightarrow> 'f json list \<Rightarrow> parser \<Rightarrow> 'f json outcome"
  and object_loop :: "'f float_ops \<Rightarrow> nat \<Rightarrow> (rstring \<times> 'f json) list \<Rightarrow> parser \<Rightarrow> 'f json outcome"
where
  "json_value F 0 p = NoFuel"
| "json_value F (Suc k) p =
     (let p = skip_ws p
      in case peek p of
           None \<Rightarrow> Fail UnexpectedEnd
         | Some c \<Rightarrow>
             if c = 110 then then_parse (literal (chars ''null'') p) (\<lambda>_ p. Done JNull p)
             else if c = 116 then then_parse (literal (chars ''true'') p) (\<lambda>_ p. Done (JBool True) p)
             else if c = 102 then then_parse (literal (chars ''false'') p) (\<lambda>_ p. Done (JBool False) p)
             else if c = 34 then then_parse (json_string p) (\<lambda>s p. Done (JString s) p)
             else if c = 91 then nested (array_inner (\<lambda>items p. array_loop F k items p)) p
             else if c = 123 then nested (object_inner (\<lambda>m p. object_loop F k m p)) p
             else if c = 45 \<or> is_digit c then json_number F p
             else Fail (UnexpectedChar c (pos p)))"
| "array_loop F 0 items p = NoFuel"
| "array_loop F (Suc k) items p = then_parse (json_value F k p) (\<lambda>v p.
     case bump (skip_ws p) of (r, p) \<Rightarrow>
       if r = Some 44 then array_loop F k (items @ [v]) p
       else if r = Some 93 then Done (JArray (items @ [v])) p
       else Fail ExpectedArraySeparator)"
| "object_loop F 0 m p = NoFuel"
| "object_loop F (Suc k) m p = then_parse (json_string (skip_ws p)) (\<lambda>key p.
     then_parse (expect 58 (skip_ws p)) (\<lambda>_ p.
     then_parse (json_value F k p) (\<lambda>v p.
     case bump (skip_ws p) of (r, p) \<Rightarrow>
       if r = Some 44 then object_loop F k (btree_insert key v m) p
       else if r = Some 125 then Done (JObject (btree_insert key v m)) p
       else Fail ExpectedObjectSeparator)))"

definition json_parse :: "'f float_ops \<Rightarrow> rstring \<Rightarrow> 'f json outcome" where
  "json_parse F input =
     (let p = skip_ws \<lparr>rest = input, pos = 0, depth = 0\<rparr>
      in then_parse (json_value F (2 * length input + 2) p) (\<lambda>v p.
           let p = skip_ws p in if rest p \<noteq> [] then Fail (TrailingInput (pos p)) else Done v p))"

end
