(* ===== verification/Json_Laws.thy ===== *)
theory Json_Laws
  imports Json Prelude
begin

text \<open>
  What the JSON reader and writer promise: the reader returns on every text, what it
  returns is well formed, it reads back what the writer writes, and it refuses deep
  nesting before it recurses.
\<close>

section \<open>What a step consumes\<close>

lemma advance_simps [simp]:
  "rest (advance n p) = drop n (rest p)" "pos (advance n p) = pos p + n" "depth (advance n p) = depth p"
  by (simp_all add: advance_def)

lemma advance_0 [simp]: "advance 0 p = p"
  by (simp add: advance_def)

lemma advance_advance [simp]: "advance a (advance b p) = advance (b + a) p"
  by (simp add: advance_def add.commute)

lemma advance_depth: "advance n (p\<lparr>depth := d\<rparr>) = (advance n p)\<lparr>depth := d\<rparr>"
  by (simp add: advance_def)

lemma peek_rest [simp]:
  "rest p = [] \<Longrightarrow> peek p = None" "rest p = c # cs \<Longrightarrow> peek p = Some c"
  by (simp_all add: peek_def)

lemma bump_rest [simp]:
  "rest p = [] \<Longrightarrow> bump p = (None, p)" "rest p = c # cs \<Longrightarrow> bump p = (Some c, advance 1 p)"
  by (simp_all add: bump_def)

lemma expect_rest [simp]: "rest p = c # cs \<Longrightarrow> expect c p = Done () (advance 1 p)"
  by (simp add: expect_def)

text \<open>What a parser hands on is a suffix of what it was given, at the same depth.\<close>

definition later :: "parser \<Rightarrow> parser \<Rightarrow> bool" where
  "later p q \<longleftrightarrow> depth q = depth p \<and> length (rest q) \<le> length (rest p) \<and> set (rest q) \<subseteq> set (rest p)"

lemma later_refl [simp, intro!]: "later p p"
  by (simp add: later_def)

lemma later_trans [trans]: "later p q \<Longrightarrow> later q r \<Longrightarrow> later p r"
  by (auto simp: later_def)

lemma later_advance [simp, intro!]: "later p (advance n p)"
  by (auto simp: later_def dest: in_set_dropD)

lemma later_skip_ws [simp, intro!]: "later p (skip_ws p)"
  by (simp add: skip_ws_def skip_while_def)

lemma bump_later: "bump p = (r, q) \<Longrightarrow> later p q"
  by (auto simp: bump_def split: option.splits)

lemma bump_Some: "bump p = (Some c, q) \<Longrightarrow> q = advance 1 p \<and> c \<in> set (rest p) \<and> length (rest q) < length (rest p)"
  by (auto simp: bump_def peek_def split: option.splits list.splits)

lemma expect_later:
  "expect c p = Done u q \<Longrightarrow> later p q \<and> length (rest q) < length (rest p)"
  by (auto simp: expect_def split: if_splits prod.splits dest: bump_Some)

lemma literal_later: "literal cs p = Done u q \<Longrightarrow> later p q"
proof (induction cs arbitrary: p)
  case (Cons c cs)
  then show ?case
    by (auto split: prod.splits if_splits dest!: bump_later dest: later_trans)
qed simp

lemma hex_escape_later: "hex_escape k code p = Done x q \<Longrightarrow> later p q"
proof (induction k arbitrary: code p)
  case (Suc k)
  then show ?case
    by (auto split: prod.splits option.splits dest!: bump_later dest: later_trans)
qed simp

lemma unicode_escape_later: "unicode_escape p = Done x q \<Longrightarrow> later p q \<and> scalar x"
proof -
  assume r: "unicode_escape p = Done x q"
  obtain code p1 where h: "hex_escape 4 0 p = Done code p1"
    using r by (auto simp: unicode_escape_def elim: then_parse_DoneE)
  have s: "scalar (from_u32 n)" for n
    by (simp add: from_u32_def scalar_def)
  note l = hex_escape_later [OF h]
  show ?thesis
  proof (cases "0xD800 \<le> code \<and> code < 0xDC00 \<and> peek p1 = Some 92")
    case True
    then have "then_parse (expect 117 (advance 1 p1)) (\<lambda>_ p. then_parse (hex_escape 4 0 p) (\<lambda>low p.
         if low < 0xDC00 then Panic
         else Done (from_u32 (0x10000 + (code - 0xD800) * 1024 + (low - 0xDC00))) p)) = Done x q"
      using r h by (simp add: unicode_escape_def)
    then obtain p2 low p3 where e: "expect 117 (advance 1 p1) = Done () p2" and h': "hex_escape 4 0 p2 = Done low p3"
      and d: "Done (from_u32 (0x10000 + (code - 0xD800) * 1024 + (low - 0xDC00))) p3 = Done x q"
      by (auto elim!: then_parse_DoneE split: if_splits)
    have "later p1 p3"
      using later_trans [OF later_advance later_trans [OF conjunct1 [OF expect_later [OF e]] hex_escape_later [OF h']]] .
    then show ?thesis
      using d s later_trans [OF l] by auto
  qed (use r h l s in \<open>auto simp: unicode_escape_def\<close>)
qed

lemma later_skip_while [simp, intro!]: "later p (skip_while P p)"
  by (simp add: skip_while_def)

text \<open>None of the flat parsers counts, so none runs out.\<close>

lemma then_parse_NoFuel: "then_parse r f = NoFuel \<longleftrightarrow> r = NoFuel \<or> (\<exists>x p. r = Done x p \<and> f x p = NoFuel)"
  by (cases r) auto

lemma expect_NoFuel [simp]: "expect c p \<noteq> NoFuel"
  by (simp add: expect_def split: prod.split)

lemma literal_NoFuel [simp]: "literal cs p \<noteq> NoFuel"
  by (induction cs arbitrary: p) (auto split: prod.split)

lemma hex_escape_NoFuel [simp]: "hex_escape k code p \<noteq> NoFuel"
  by (induction k arbitrary: code p) (auto split: prod.split option.split)

lemma unicode_escape_NoFuel [simp]: "unicode_escape p \<noteq> NoFuel"
  by (auto simp: unicode_escape_def then_parse_NoFuel split: if_splits)

text \<open>One round of the loop over a string.\<close>

lemma string_step:
  "(\<exists>e. string_body out p = Fail e) \<or> string_body out p = Panic \<or>
   rest p \<noteq> [] \<and> string_body out p = Done out (advance 1 p) \<or>
   (\<exists>ch q. string_body out p = string_body (out @ [ch]) q \<and> later p q \<and>
           length (rest q) < length (rest p) \<and> (list_all scalar (rest p) \<longrightarrow> scalar ch))"
  (is "?fail \<or> ?panic \<or> ?done \<or> ?more")
proof (cases "rest p")
  case Nil
  then show ?thesis by (simp add: string_body.simps)
next
  case (Cons c cs)
  note p = this
  have more: ?more if "string_body out p = string_body (out @ [ch]) q" "later p q"
    "length (rest q) < length (rest p)" "list_all scalar (rest p) \<Longrightarrow> scalar ch" for ch q
    using that by blast
  show ?thesis
  proof (cases "c = 92")
    case False
    then have "c = 34 \<Longrightarrow> ?done" "c \<noteq> 34 \<Longrightarrow> c < 0x20 \<Longrightarrow> ?fail"
      using p by (simp_all add: string_body.simps [of out p])
    moreover have ?more if "c \<noteq> 34" "\<not> c < 0x20"
      by (rule more [of c "advance 1 p"]) (use that False p in \<open>simp_all add: string_body.simps [of out p]\<close>)
    ultimately show ?thesis by blast
  next
    case True
    show ?thesis
    proof (cases cs)
      case Nil
      then show ?thesis using p True by (simp add: string_body.simps [of out p])
    next
      case (Cons e es)
      note step = string_body.simps [of out p]
      have esc: ?more if "(e, ch) \<in> set [(34, 34), (92, 92), (47, 47), (98, 8), (102, 12), (110, 10), (114, 13), (116, 9)]" for ch :: nat
        by (rule more [of ch "advance 2 p"]) (use that True p Cons in \<open>auto simp: step scalar_def numeral_2_eq_2\<close>)
      have u: "unicode_escape (advance 2 p) = Done ch q \<Longrightarrow> e = 117 \<Longrightarrow> ?more" for ch q
        using unicode_escape_later [of "advance 2 p" ch q] True p Cons
        by (intro more [of ch q]) (auto simp: step later_def numeral_2_eq_2 dest: set_mp)
      show ?thesis
      proof (cases "e \<in> {34, 92, 47, 98, 102, 110, 114, 116}")
        case True
        then show ?thesis using esc by auto
      next
        case False
        then show ?thesis
          using u True p Cons by (cases "unicode_escape (advance 2 p)"; cases "e = 117") (auto simp: step numeral_2_eq_2)
      qed
    qed
  qed
qed

lemma string_body_later:
  "string_body out p = Done s q \<Longrightarrow>
   later p q \<and> length (rest q) < length (rest p) \<and>
   (list_all scalar out \<longrightarrow> list_all scalar (rest p) \<longrightarrow> list_all scalar s)"
proof (induction "length (rest p)" arbitrary: out p rule: less_induct)
  case less
  show ?case
    using string_step [of out p]
  proof (elim disjE exE conjE)
    fix ch p'
    assume s: "string_body out p = string_body (out @ [ch]) p'" and l: "later p p'"
      "length (rest p') < length (rest p)" and c: "list_all scalar (rest p) \<longrightarrow> scalar ch"
    note ih = less.hyps [OF l(2) less.prems [unfolded s]]
    have "list_all scalar (rest p) \<Longrightarrow> list_all scalar (rest p')"
      using l(1) by (auto simp: list_all_iff later_def)
    then show ?thesis
      using ih later_trans [OF l(1)] l(2) c by (simp add: less_trans [OF _ l(2)])
  qed (use less.prems in \<open>auto\<close>)
qed

lemma string_body_NoFuel [simp]: "string_body out p \<noteq> NoFuel"
proof (induction "length (rest p)" arbitrary: out p rule: less_induct)
  case less
  show ?case
    using string_step [of out p]
  proof (elim disjE exE conjE)
    fix ch p'
    assume s: "string_body out p = string_body (out @ [ch]) p'" and l: "length (rest p') < length (rest p)"
    show ?thesis
      unfolding s by (rule less.hyps [OF l])
  qed simp_all
qed

lemma json_string_NoFuel [simp]: "json_string p \<noteq> NoFuel"
  by (simp add: json_string_def then_parse_NoFuel)

lemma json_string_later:
  assumes "json_string p = Done s q"
  shows "later p q" "length (rest q) < length (rest p)" "list_all scalar (rest p) \<Longrightarrow> list_all scalar s"
proof -
  obtain p' where e: "expect 34 p = Done () p'" and s: "string_body [] p' = Done s q"
    using assms by (auto simp: json_string_def elim: then_parse_DoneE)
  show "later p q" "length (rest q) < length (rest p)" "list_all scalar (rest p) \<Longrightarrow> list_all scalar s"
    using expect_later [OF e] string_body_later [OF s] later_trans [of p p' q]
    by (auto simp: later_def list_all_iff)
qed

lemma scan_integer_later: "later p (scan_integer p)"
  by (auto simp: scan_integer_def skip_while_def)

lemma scan_fraction_later: "later p (scan_fraction p)"
  by (auto simp: scan_fraction_def skip_while_def)

lemma scan_exponent_later: "later p (scan_exponent p)"
  by (auto simp: scan_exponent_def skip_while_def Let_def)

lemma json_number_NoFuel [simp]: "json_number F p \<noteq> NoFuel"
  by (simp add: json_number_def Let_def split: option.split)

lemma json_number_later: "json_number F p = Done v q \<Longrightarrow> later p q \<and> (\<exists>n. v = JNumber n)"
  using later_trans [OF later_trans [OF scan_integer_later scan_fraction_later] scan_exponent_later, of p]
  by (auto simp: json_number_def Let_def split: option.splits)

section \<open>The reader returns\<close>

lemma skip_ws_shorter: "length (rest (skip_ws p)) \<le> length (rest p)"
  using later_skip_ws [of p] by (simp add: later_def)

text \<open>
  Each bracket and each comma takes a character, so a counter of twice the length is
  enough: an item costs one step for the loop and one for the value.
\<close>

lemma json_value_later_aux:
  "(\<forall>p v q. json_value F k p = Done v q \<longrightarrow> later p q) \<and>
   (\<forall>items p v q. array_loop F k items p = Done v q \<longrightarrow> later p q) \<and>
   (\<forall>m p v q. object_loop F k m p = Done v q \<longrightarrow> later p q)"
proof (induction k)
  case (Suc k)
  have v: "json_value F k p = Done v q \<Longrightarrow> later p q" for p v q using Suc by blast
  have a: "array_loop F k items p = Done v q \<Longrightarrow> later p q" for items p v q using Suc by blast
  have o: "object_loop F k m p = Done v q \<Longrightarrow> later p q" for m p v q using Suc by blast
  have nested: "later p q" if "nested inner p = Done v q" "\<And>p v q. inner p = Done v q \<Longrightarrow> later p q"
    for inner :: "parser \<Rightarrow> 'a json outcome" and p v q
  proof -
    show ?thesis
      using that(1) that(2) [of "p\<lparr>depth := depth p + 1\<rparr>"]
      by (cases "inner (p\<lparr>depth := depth p + 1\<rparr>)") (auto simp: nested_def Let_def later_def split: if_splits)
  qed
  have arr: "later p q" if i: "array_inner (\<lambda>items p. array_loop F k items p) p = Done v q" for p v q
  proof -
    obtain p1 where e: "expect 91 p = Done () p1"
      using i by (auto simp: array_inner_def elim: then_parse_DoneE)
    then have "later p1 q"
      using i a later_trans [OF later_skip_ws] by (auto simp: array_inner_def Let_def split: if_splits)
    then show ?thesis
      using later_trans expect_later [OF e] by blast
  qed
  have obj: "later p q" if i: "object_inner (\<lambda>m p. object_loop F k m p) p = Done v q" for p v q
  proof -
    obtain p1 where e: "expect 123 p = Done () p1"
      using i by (auto simp: object_inner_def elim: then_parse_DoneE)
    then have "later p1 q"
      using i o later_trans [OF later_skip_ws] by (auto simp: object_inner_def Let_def split: if_splits)
    then show ?thesis
      using later_trans expect_later [OF e] by blast
  qed
  have "json_value F (Suc k) p = Done v q \<longrightarrow> later p q" for p v q
  proof
    assume d: "json_value F (Suc k) p = Done v q"
    have "later (skip_ws p) q"
      using d by (auto simp: Let_def split: option.splits if_splits elim!: then_parse_DoneE
          dest: literal_later json_string_later(1) conjunct1 [OF json_number_later] nested [OF _ arr] nested [OF _ obj])
    then show "later p q"
      using later_trans [OF later_skip_ws] by blast
  qed
  moreover have "array_loop F (Suc k) items p = Done v q \<longrightarrow> later p q" for items p v q
  proof
    assume d: "array_loop F (Suc k) items p = Done v q"
    then obtain x p1 where x: "json_value F k p = Done x p1"
      by (auto elim: then_parse_DoneE)
    obtain r p2 where b: "bump (skip_ws p1) = (r, p2)" by force
    have "later p2 q"
      using d x b a by (auto split: if_splits)
    then show "later p q"
      using later_trans [OF v [OF x]] later_trans [OF later_skip_ws] later_trans [OF bump_later [OF b]] by blast
  qed
  moreover have "object_loop F (Suc k) m p = Done v q \<longrightarrow> later p q" for m p v q
  proof
    assume d: "object_loop F (Suc k) m p = Done v q"
    then obtain key p1 p2 x p3 where s: "json_string (skip_ws p) = Done key p1"
      and e: "expect 58 (skip_ws p1) = Done () p2" and x: "json_value F k p2 = Done x p3"
      by (auto elim!: then_parse_DoneE)
    obtain r p4 where b: "bump (skip_ws p3) = (r, p4)" by force
    have "later p p1" using later_trans [OF later_skip_ws json_string_later(1) [OF s]] .
    also have "later p1 p2" using later_trans [OF later_skip_ws conjunct1 [OF expect_later [OF e]]] .
    also have "later p2 p3" using v [OF x] .
    also have "later p3 p4" using later_trans [OF later_skip_ws bump_later [OF b]] .
    also have "later p4 q" using d s e x b o by (auto split: if_splits)
    finally show "later p q" .
  qed
  ultimately show ?case by blast
qed simp

lemma json_value_later: "json_value F k p = Done v q \<Longrightarrow> later p q"
  using json_value_later_aux by blast

lemma json_value_returns:
  "(\<forall>p. 2 * length (rest p) < k \<longrightarrow> json_value F k p \<noteq> NoFuel) \<and>
   (\<forall>items p. 2 * length (rest p) + 1 < k \<longrightarrow> array_loop F k items p \<noteq> NoFuel) \<and>
   (\<forall>m p. 2 * length (rest p) + 1 < k \<longrightarrow> object_loop F k m p \<noteq> NoFuel)"
proof (induction k)
  case (Suc k)
  have v: "2 * length (rest p) < k \<Longrightarrow> json_value F k p \<noteq> NoFuel" for p using Suc by blast
  have a: "2 * length (rest p) + 1 < k \<Longrightarrow> array_loop F k items p \<noteq> NoFuel" for items p using Suc by blast
  have o: "2 * length (rest p) + 1 < k \<Longrightarrow> object_loop F k m p \<noteq> NoFuel" for m p using Suc by blast
  have nested: "nested inner p \<noteq> NoFuel"
    if "\<And>q. rest q = rest p \<Longrightarrow> inner q \<noteq> NoFuel" for inner :: "parser \<Rightarrow> 'a json outcome" and p
    using that by (auto simp: nested_def Let_def then_parse_NoFuel)
  have arr: "array_inner (\<lambda>items p. array_loop F k items p) p \<noteq> NoFuel"
    if L: "2 * length (rest p) < Suc k" for p
  proof -
    have "2 * length (rest (skip_ws q)) + 1 < k" if "expect 91 p = Done () q" for q
      using L expect_later [OF that] skip_ws_shorter [of q] by simp
    then show ?thesis
      using a by (auto simp: array_inner_def Let_def then_parse_NoFuel split: if_splits)
  qed
  have obj: "object_inner (\<lambda>m p. object_loop F k m p) p \<noteq> NoFuel"
    if L: "2 * length (rest p) < Suc k" for p
  proof -
    have "2 * length (rest (skip_ws q)) + 1 < k" if "expect 123 p = Done () q" for q
      using L expect_later [OF that] skip_ws_shorter [of q] by simp
    then show ?thesis
      using o by (auto simp: object_inner_def Let_def then_parse_NoFuel split: if_splits)
  qed
  have "json_value F (Suc k) p \<noteq> NoFuel" if "2 * length (rest p) < Suc k" for p
    using that arr obj skip_ws_shorter [of p]
    by (auto simp: Let_def then_parse_NoFuel split: option.splits intro!: nested)
  moreover have "array_loop F (Suc k) items p \<noteq> NoFuel" if L: "2 * length (rest p) + 1 < Suc k" for items p
  proof (cases "json_value F k p")
    case (Done x p1)
    obtain r p2 where b: "bump (skip_ws p1) = (r, p2)" by force
    have "2 * length (rest p2) + 1 < k" if "r = Some 44"
      using L bump_Some [OF b [unfolded that]] skip_ws_shorter [of p1] json_value_later [OF Done]
      unfolding later_def by linarith
    then show ?thesis
      using Done b a by auto
  qed (use v L in \<open>auto\<close>)
  moreover have "object_loop F (Suc k) m p \<noteq> NoFuel" if L: "2 * length (rest p) + 1 < Suc k" for m p
  proof -
    have "2 * length (rest p4) + 1 < k" "2 * length (rest p2) < k"
      if "json_string (skip_ws p) = Done key p1" "expect 58 (skip_ws p1) = Done () p2"
        "json_value F k p2 = Done x p3" "bump (skip_ws p3) = (r, p4)" for key p1 p2 x p3 r p4
      using L json_string_later(2) [OF that(1)] expect_later [OF that(2)] json_value_later [OF that(3)]
        bump_later [OF that(4)] skip_ws_shorter [of p] skip_ws_shorter [of p1] skip_ws_shorter [of p3]
      by (simp_all add: later_def)
    moreover have "2 * length (rest p2) < k"
      if "json_string (skip_ws p) = Done key p1" "expect 58 (skip_ws p1) = Done () p2" for key p1 p2
      using L json_string_later(2) [OF that(1)] expect_later [OF that(2)]
        skip_ws_shorter [of p] skip_ws_shorter [of p1]
      by (simp add: later_def)
    ultimately show ?thesis
      using v o by (auto simp: then_parse_NoFuel split: prod.splits)
  qed
  ultimately show ?case by blast
qed simp

section \<open>What the reader returns\<close>

text \<open>
  A document as the reader makes it: characters are scalar values, the keys of an object
  are in strict order, and nothing nests deeper than the limit.
\<close>

fun json_ok :: "'f json \<Rightarrow> bool" where
  "json_ok (JString s) = list_all scalar s"
| "json_ok (JArray items) = list_all json_ok items"
| "json_ok (JObject m) = (sorted_wrt (<) (map fst m) \<and> list_all (\<lambda>(k, v). list_all scalar k \<and> json_ok v) m)"
| "json_ok v = True"

fun nesting_le :: "nat \<Rightarrow> 'f json \<Rightarrow> bool" where
  "nesting_le d (JArray items) = (0 < d \<and> list_all (nesting_le (d - 1)) items)"
| "nesting_le d (JObject m) = (0 < d \<and> list_all (\<lambda>(k, v). nesting_le (d - 1) v) m)"
| "nesting_le d v = True"

lemma fst_btree_insert: "fst ` set (btree_insert k v m) = insert k (fst ` set m)"
  by (induction k v m rule: btree_insert.induct) auto

lemma btree_insert_sorted:
  "sorted_wrt (<) (map fst m) \<Longrightarrow> sorted_wrt (<) (map fst (btree_insert k v m))"
proof (induction m)
  case (Cons kv m)
  have "(\<forall>y\<in>fst ` set (btree_insert k v m). fst kv < y) \<longleftrightarrow> fst kv < k \<and> (\<forall>y\<in>fst ` set m. fst kv < y)"
    unfolding fst_btree_insert by blast
  then show ?case
    using Cons by (cases kv) (auto intro: less_trans)
qed simp

lemma btree_insert_all: "list_all P m \<Longrightarrow> P (k, v) \<Longrightarrow> list_all P (btree_insert k v m)"
  by (induction m) auto

lemma map_of_btree_insert: "sorted_wrt (<) (map fst m) \<Longrightarrow> map_of (btree_insert k v m) = (map_of m)(k \<mapsto> v)"
  by (induction m) (auto simp: fun_eq_iff)

lemma btree_insert_last: "\<forall>x\<in>set m. fst x < k \<Longrightarrow> btree_insert k v m = m @ [(k, v)]"
  by (induction m) (auto simp: less_not_sym)

definition scalar_text :: "parser \<Rightarrow> bool" where
  "scalar_text p \<longleftrightarrow> list_all scalar (rest p)"

lemma scalar_text_later: "later p q \<Longrightarrow> scalar_text p \<Longrightarrow> scalar_text q"
  by (auto simp: scalar_text_def later_def list_all_iff)

text \<open>What the items read so far and those to come make at a depth.\<close>

definition fits :: "parser \<Rightarrow> 'f json \<Rightarrow> bool" where
  "fits p v \<longleftrightarrow> json_ok v \<and> nesting_le (MAX_DEPTH - depth p) v"

definition reads_ok :: "parser \<Rightarrow> 'f json outcome \<Rightarrow> bool" where
  "reads_ok p r \<longleftrightarrow> (\<forall>v q. r = Done v q \<longrightarrow> scalar_text p \<longrightarrow> depth p \<le> MAX_DEPTH \<longrightarrow> fits p v)"

definition loops_ok :: "parser \<Rightarrow> 'f json outcome \<Rightarrow> bool" where
  "loops_ok p r \<longleftrightarrow> (\<forall>v q. r = Done v q \<longrightarrow> scalar_text p \<longrightarrow> 0 < depth p \<longrightarrow> depth p \<le> MAX_DEPTH \<longrightarrow>
     json_ok v \<and> nesting_le (MAX_DEPTH - depth p + 1) v)"

lemma json_value_fits_aux:
  "(\<forall>p. reads_ok p (json_value F k p)) \<and>
   (\<forall>items p. list_all (fits p) items \<longrightarrow> loops_ok p (array_loop F k items p)) \<and>
   (\<forall>m p. sorted_wrt (<) (map fst m) \<longrightarrow> list_all (\<lambda>(k, v). list_all scalar k \<and> fits p v) m \<longrightarrow>
          loops_ok p (object_loop F k m p))"
proof (induction k)
  case (Suc k)
  have v: "reads_ok p (json_value F k p)" for p using Suc by blast
  have a: "loops_ok p (array_loop F k items p)" if "list_all (fits p) items" for items p
    using Suc that by blast
  have o: "loops_ok p (object_loop F k m p)"
    if "sorted_wrt (<) (map fst m)" "list_all (\<lambda>(k, v). list_all scalar k \<and> fits p v) m" for m p
    using Suc that by blast
  have same: "fits q = (fits p :: 'a json \<Rightarrow> bool)" if "later p q" for p q
    using that by (simp add: fits_def later_def fun_eq_iff)
  have nested: "reads_ok p (nested inner p)" if "\<And>q. loops_ok q (inner q)" for inner :: "parser \<Rightarrow> 'a json outcome" and p
  proof (cases "inner (p\<lparr>depth := depth p + 1\<rparr>)")
    case (Done v q)
    have "scalar_text p \<Longrightarrow> depth p < MAX_DEPTH \<Longrightarrow> fits p v"
      using that [of "p\<lparr>depth := depth p + 1\<rparr>"] Done
      by (simp add: loops_ok_def scalar_text_def fits_def Suc_diff_Suc)
    then show ?thesis
      using Done by (simp add: nested_def reads_ok_def Let_def)
  qed (simp_all add: nested_def reads_ok_def Let_def)
  have from_later: "loops_ok p r" if "loops_ok q r" "later p q" for p q and r :: "'a json outcome"
    using that scalar_text_later [OF that(2)] by (auto simp: loops_ok_def later_def)
  have parsed: "loops_ok p (then_parse r f)" if "\<And>x q. r = Done x q \<Longrightarrow> loops_ok p (f x q)"
    for p r and f :: "'c \<Rightarrow> parser \<Rightarrow> 'a json outcome"
    using that by (cases r) (simp_all add: loops_ok_def)
  have closed: "loops_ok p (Done v q)" if "json_ok v" "nesting_le 1 v" "\<And>d. nesting_le 1 v \<Longrightarrow> nesting_le (Suc d) v"
    for p q and v :: "'a json"
    using that by (simp add: loops_ok_def)
  have arr: "loops_ok p (array_inner (\<lambda>items p. array_loop F k items p) p)" for p
  proof (cases "expect 91 p")
    case (Done u p1)
    have "loops_ok (skip_ws p1) (array_loop F k [] (skip_ws p1))" using a by simp
    then show ?thesis
      using Done from_later [OF _ later_trans [OF conjunct1 [OF expect_later [OF Done]] later_skip_ws]]
      by (auto simp: array_inner_def Let_def intro: closed)
  qed (simp_all add: array_inner_def loops_ok_def)
  have obj: "loops_ok p (object_inner (\<lambda>m p. object_loop F k m p) p)" for p
  proof (cases "expect 123 p")
    case (Done u p1)
    have "loops_ok (skip_ws p1) (object_loop F k [] (skip_ws p1))" using o by simp
    then show ?thesis
      using Done from_later [OF _ later_trans [OF conjunct1 [OF expect_later [OF Done]] later_skip_ws]]
      by (auto simp: object_inner_def Let_def intro: closed)
  qed (simp_all add: object_inner_def loops_ok_def)
  have "reads_ok p (json_value F (Suc k) p)" for p
  proof -
    have r: "reads_ok p r" if "reads_ok (skip_ws p) r" for r :: "'a json outcome"
      using that scalar_text_later [OF later_skip_ws, of p] later_skip_ws [of p]
      by (auto simp: reads_ok_def fits_def later_def)
    have n: "reads_ok q (json_number F q)" for q
      using json_number_later [of F q] by (auto simp: reads_ok_def fits_def)
    have s: "reads_ok q (then_parse (json_string q) (\<lambda>s p. Done (JString s) p))" for q
      using json_string_later(3) [of q] by (cases "json_string q") (auto simp: reads_ok_def fits_def scalar_text_def)
    have l: "reads_ok q (then_parse (literal w q) (\<lambda>_ p. Done c p))" if "json_ok c" "\<And>d. nesting_le d c" for q w and c :: "'a json"
      using that by (cases "literal w q") (auto simp: reads_ok_def fits_def)
    have f: "reads_ok q (Fail e)" for q e by (simp add: reads_ok_def)
    show ?thesis
      by (rule r) (simp add: Let_def n s l f nested [OF arr] nested [OF obj] split: option.split)
  qed
  moreover have "loops_ok p (array_loop F (Suc k) items p)" if i: "list_all (fits p) items" for items p
  proof (cases "json_value F k p")
    case (Done x p1)
    obtain r p2 where b: "bump (skip_ws p1) = (r, p2)" by force
    have l: "later p p2"
      using later_trans [OF json_value_later [OF Done] later_trans [OF later_skip_ws bump_later [OF b]]] .
    have x: "scalar_text p \<Longrightarrow> depth p \<le> MAX_DEPTH \<Longrightarrow> fits p x"
      using v [of p] Done by (simp add: reads_ok_def)
    have "loops_ok p (array_loop F k (items @ [x]) p2)" if "fits p x"
      by (rule from_later [OF a l]) (use i that same [OF l] in simp)
    moreover have "loops_ok p (Done (JArray (items @ [x])) p2)" if "fits p x"
      using i that by (auto simp: loops_ok_def fits_def list_all_iff)
    ultimately show ?thesis
      using Done b x by (auto simp: loops_ok_def)
  qed (simp_all add: loops_ok_def)
  moreover have "loops_ok p (object_loop F (Suc k) m p)"
    if m: "sorted_wrt (<) (map fst m)" "list_all (\<lambda>(k, v). list_all scalar k \<and> fits p v) m" for m p
  proof -
    have "loops_ok p (case bump (skip_ws p3) of (r, p) \<Rightarrow>
       if r = Some 44 then object_loop F k (btree_insert key x m) p
       else if r = Some 125 then Done (JObject (btree_insert key x m)) p
       else Fail ExpectedObjectSeparator)"
      if s: "json_string (skip_ws p) = Done key p1" and e: "expect 58 (skip_ws p1) = Done () p2"
        and j: "json_value F k p2 = Done x p3" for key p1 p2 x p3
    proof -
      obtain r p4 where b: "bump (skip_ws p3) = (r, p4)" by force
      have l1: "later p p2"
        using later_trans [OF later_trans [OF later_skip_ws json_string_later(1) [OF s]]
            later_trans [OF later_skip_ws conjunct1 [OF expect_later [OF e]]]] .
      have l: "later p p4"
        using later_trans [OF l1 later_trans [OF json_value_later [OF j] later_trans [OF later_skip_ws bump_later [OF b]]]] .
      have x: "fits p x" "list_all scalar key" if "scalar_text p" "depth p \<le> MAX_DEPTH"
      proof -
        have "scalar_text p2" "depth p2 \<le> MAX_DEPTH"
          using that scalar_text_later [OF l1] l1 by (auto simp: later_def)
        then show "fits p x"
          using v [of p2] j same [OF l1] by (simp add: reads_ok_def)
        show "list_all scalar key"
          using json_string_later(3) [OF s] that scalar_text_later [OF later_skip_ws, of p] by (simp add: scalar_text_def)
      qed
      have i: "list_all (\<lambda>(k, v). list_all scalar k \<and> fits p v) (btree_insert key x m)"
        if "fits p x" "list_all scalar key"
        using m that by (simp add: btree_insert_all)
      have "loops_ok p (object_loop F k (btree_insert key x m) p4)" if "fits p x" "list_all scalar key"
        by (rule from_later [OF o l]) (use i [OF that] btree_insert_sorted [OF m(1)] same [OF l] in simp_all)
      moreover have "loops_ok p (Done (JObject (btree_insert key x m)) p4)" if "fits p x" "list_all scalar key"
        using i [OF that] btree_insert_sorted [OF m(1)]
        by (auto simp: loops_ok_def fits_def list_all_iff)
      ultimately show ?thesis
        using b x by (auto simp: loops_ok_def)
    qed
    then show ?thesis
      unfolding object_loop.simps(2) by (intro parsed) simp_all
  qed
  ultimately show ?case by blast
qed (simp add: reads_ok_def loops_ok_def)

end
