(* ===== verification/Json_Round.thy ===== *)
theory Json_Round
  imports Json_Laws
begin

text \<open>
  The reader reads back what the writer writes, whatever follows it, and it refuses a
  text that nests too deeply.
\<close>

section \<open>Strings\<close>

lemma chars_simps [simp]: "chars [] = []" "chars (c # cs) = of_char c # chars cs"
  by (simp_all add: chars_def)

lemma advance_Suc_0 [simp]: "advance a (advance b p) = advance (b + a) p"
  by simp

lemma hex_value_digit: "d < 16 \<Longrightarrow> hex_value (hex_digit d) = Some d"
  by (auto simp: hex_value_def hex_digit_def)

lemma four_six: "(4::nat) = Suc (Suc (Suc (Suc 0)))" "(6::nat) = Suc (Suc (Suc (Suc (Suc (Suc 0)))))"
  by simp_all

lemma hex_step:
  "rest p = c # cs \<Longrightarrow> hex_value c = Some d \<Longrightarrow> hex_escape (Suc k) code p = hex_escape k (code * 16 + d) (advance 1 p)"
  by simp

lemma read_hex4:
  assumes "rest p = a # b # c # d # r" "hex_value a = Some w" "hex_value b = Some x" "hex_value c = Some y"
    "hex_value d = Some z"
  shows "hex_escape 4 0 p = Done (((w * 16 + x) * 16 + y) * 16 + z) (advance 4 p)"
proof -
  have "hex_escape 4 0 p = hex_escape (Suc (Suc (Suc (Suc 0)))) 0 p"
    by (simp only: four_six(1))
  also have "\<dots> = hex_escape (Suc (Suc (Suc 0))) w (advance 1 p)"
    using hex_step [OF assms(1,2)] by simp
  also have "\<dots> = hex_escape (Suc (Suc 0)) (w * 16 + x) (advance 2 p)"
    using hex_step [of "advance 1 p", OF _ assms(3)] assms(1) by (simp add: numeral_2_eq_2)
  also have "\<dots> = hex_escape (Suc 0) ((w * 16 + x) * 16 + y) (advance 3 p)"
    using hex_step [of "advance 2 p", OF _ assms(4)] assms(1) by (simp add: numeral_2_eq_2 numeral_3_eq_3)
  also have "\<dots> = hex_escape 0 (((w * 16 + x) * 16 + y) * 16 + z) (advance 4 p)"
    using hex_step [of "advance 3 p", OF _ assms(5)] assms(1) by (simp add: numeral_3_eq_3 four_six(1))
  finally show ?thesis
    by simp
qed

lemma read_hex:
  assumes "rest p = 48 # 48 # hex_digit (c div 16) # hex_digit (c mod 16) # r" "c < 256"
  shows "hex_escape 4 0 p = Done c (advance 4 p)"
proof -
  have "hex_value (hex_digit (c div 16)) = Some (c div 16)" "hex_value (hex_digit (c mod 16)) = Some (c mod 16)"
    using assms by (auto intro!: hex_value_digit)
  moreover have "hex_value 48 = Some 0"
    by (simp add: hex_value_def)
  ultimately show ?thesis
    using read_hex4 [OF assms(1)] by simp
qed

lemma read_char:
  assumes "rest p = write_char c @ r"
  shows "string_body out p = string_body (out @ [c]) (advance (length (write_char c)) p)"
proof -
  note step = string_body.simps [of out p]
  show ?thesis
  proof (cases "c = 34 \<or> c = 92 \<or> c = 10 \<or> c = 13 \<or> c = 9 \<or> \<not> c < 0x20")
    case True
    then show ?thesis
      using assms by (auto simp: step write_char_def numeral_2_eq_2)
  next
    case False
    then have w: "write_char c = [92, 117, 48, 48, hex_digit (c div 16), hex_digit (c mod 16)]"
      by (simp add: write_char_def)
    have "unicode_escape (advance 2 p) = Done c (advance 6 p)"
      using False read_hex [of "advance 2 p" c r] assms
      by (simp add: unicode_escape_def w from_u32_def scalar_def numeral_2_eq_2)
    then show ?thesis
      using False assms by (simp add: step w numeral_2_eq_2 four_six(2))
  qed
qed

lemma read_chars:
  "rest p = concat (map write_char s) @ 34 # r \<Longrightarrow>
   string_body out p = Done (out @ s) (advance (length (concat (map write_char s)) + 1) p)"
proof (induction s arbitrary: out p)
  case Nil
  then show ?case by (simp add: string_body.simps)
next
  case (Cons c s)
  then show ?case
    using Cons.IH [of "advance (length (write_char c)) p" "out @ [c]"]
    by (simp add: read_char [of p c] add.assoc)
qed

lemma read_string:
  "rest p = write_string s @ r \<Longrightarrow> json_string p = Done s (advance (length (write_string s)) p)"
  using read_chars [of "advance 1 p" s r "[]"]
  by (simp add: json_string_def write_string_def)

section \<open>Numbers\<close>

text \<open>
  What the writer relies on of the standard library's formatter and parser: a number that
  is not written as an integer is written as digits, perhaps with a sign and a fraction,
  and the parser takes back what was written. That fails for what is not finite.
\<close>

definition plain_number :: "rstring \<Rightarrow> bool" where
  "plain_number w \<longleftrightarrow>
     (let ds = if w \<noteq> [] \<and> hd w = 45 then tl w else w;
          fs = dropWhile is_digit ds
      in ds \<noteq> [] \<and> is_digit (hd ds) \<and> (fs = [] \<or> hd fs = 46 \<and> list_all is_digit (tl fs)))"

definition number_ok :: "'f float_ops \<Rightarrow> 'f \<Rightarrow> bool" where
  "number_ok F n \<longleftrightarrow>
     (\<not> integral_f64 F n \<longrightarrow> plain_number (show_f64 F n)) \<and> parse_f64 F (write_number F n) = Some n"

fun numbers_ok :: "'f float_ops \<Rightarrow> 'f json \<Rightarrow> bool" where
  "numbers_ok F (JNumber n) = number_ok F n"
| "numbers_ok F (JArray items) = list_all (numbers_ok F) items"
| "numbers_ok F (JObject m) = list_all (\<lambda>(k, v). numbers_ok F v) m"
| "numbers_ok F v = True"

text \<open>What may follow a value: the end, a comma or a closing bracket.\<close>

definition ends :: "rstring \<Rightarrow> bool" where
  "ends r \<longleftrightarrow> r = [] \<or> hd r \<in> {44, 93, 125}"

lemma ends_peek: "rest p = r \<Longrightarrow> ends r \<Longrightarrow> peek p \<notin> {Some 46, Some 101, Some 69, Some 45, Some 32}"
  by (cases r) (auto simp: ends_def)

lemma ends_digits: "ends r \<Longrightarrow> takeWhile is_digit r = []"
  by (cases r) (auto simp: ends_def is_digit_def)

lemma show_nat_digits: "list_all is_digit (show_nat n) \<and> show_nat n \<noteq> []"
proof (induction n rule: show_nat.induct)
  case (1 n)
  have "is_digit (48 + n mod 10)" "n < 10 \<Longrightarrow> is_digit (48 + n)"
    using mod_less_divisor [of 10 n] by (simp_all add: is_digit_def)
  then show ?case
    using 1 by (subst (1 2) show_nat.simps) (simp add: list_all_append)
qed

lemma plain_int: "plain_number (show_int i)"
proof -
  have "dropWhile is_digit (show_nat n) = []" "is_digit (hd (show_nat n))" "show_nat n \<noteq> []" for n
    using show_nat_digits [of n] by (auto simp: list_all_iff)
  moreover have "hd (show_nat n) \<noteq> 45" for n
    using calculation(2) [of n] by (auto simp: is_digit_def)
  ultimately show ?thesis
    by (simp add: plain_number_def show_int_def Let_def)
qed

lemma number_text:
  "number_ok F n \<Longrightarrow> plain_number (write_number F n)"
  by (simp add: number_ok_def write_number_def plain_int)

lemma takeWhile_span: "list_all P xs \<Longrightarrow> takeWhile P r = [] \<Longrightarrow> takeWhile P (xs @ r) = xs"
  by (induction xs) auto

lemma scan_plain:
  assumes w: "plain_number w" and p: "rest p = w @ r" and r: "ends r"
  shows "scan_exponent (scan_fraction (scan_integer p)) = advance (length w) p"
proof -
  obtain sg ds fs where s: "w = sg @ ds @ fs" "sg = [] \<and> (ds = [] \<longrightarrow> False) \<or> sg = [45]" "list_all is_digit ds" "ds \<noteq> []"
    "fs = [] \<or> hd fs = 46 \<and> list_all is_digit (tl fs)"
  proof
    let ?ds = "if w \<noteq> [] \<and> hd w = 45 then tl w else w"
    let ?sg = "if w \<noteq> [] \<and> hd w = 45 then [45] else []"
    show "w = ?sg @ takeWhile is_digit ?ds @ dropWhile is_digit ?ds"
      by (cases w) auto
    show "list_all is_digit (takeWhile is_digit ?ds)"
      by (auto simp: list_all_iff dest: set_takeWhileD)
    show "takeWhile is_digit ?ds \<noteq> []"
      using w by (cases ?ds) (auto simp: plain_number_def Let_def)
    then show "?sg = [] \<and> (takeWhile is_digit ?ds = [] \<longrightarrow> False) \<or> ?sg = [45]" by simp
    show "dropWhile is_digit ?ds = [] \<or> hd (dropWhile is_digit ?ds) = 46 \<and> list_all is_digit (tl (dropWhile is_digit ?ds))"
      using w by (simp add: plain_number_def Let_def)
  qed
  have fr: "takeWhile is_digit (fs @ r) = []"
    using s(5) ends_digits [OF r] by (cases fs) (auto simp: is_digit_def)
  have "hd ds \<noteq> 45" "is_digit (hd ds)"
    using s(3,4) by (cases ds; auto simp: is_digit_def)+
  then have i: "scan_integer p = advance (length sg + length ds) p"
    using s(2,4) p s(1) takeWhile_span [OF s(3) fr]
    by (cases ds) (auto simp: scan_integer_def skip_while_def)
  have f: "scan_fraction (advance (length sg + length ds) p) = advance (length w) p"
  proof (cases fs)
    case Nil
    then show ?thesis
      using ends_peek [of "advance (length sg + length ds) p" r] p s(1) r by (auto simp: scan_fraction_def)
  next
    case (Cons c cs)
    then show ?thesis
      using takeWhile_span [OF _ ends_digits [OF r], of cs] p s(1) s(5)
      by (auto simp: scan_fraction_def skip_while_def)
  qed
  have "scan_exponent (advance (length w) p) = advance (length w) p"
    using ends_peek [of "advance (length w) p" r] p r by (auto simp: scan_exponent_def)
  then show ?thesis
    by (simp add: i f)
qed

lemma read_number:
  assumes "number_ok F n" "rest p = write_number F n @ r" "ends r"
  shows "json_number F p = Done (JNumber n) (advance (length (write_number F n)) p)"
  using scan_plain [OF number_text [OF assms(1)] assms(2,3)] assms
  by (simp add: json_number_def number_ok_def)

lemma plain_head: "plain_number w \<Longrightarrow> \<exists>c cs. w = c # cs \<and> (c = 45 \<or> is_digit c)"
  by (cases w) (auto simp: plain_number_def Let_def split: if_splits)

section \<open>Documents\<close>

definition reads :: "'f float_ops \<Rightarrow> nat \<Rightarrow> 'f json \<Rightarrow> bool" where
  "reads F d v \<longleftrightarrow> (\<forall>p r k. depth p = d \<longrightarrow> rest p = json_write F v @ r \<longrightarrow> ends r \<longrightarrow> 2 * length (rest p) < k \<longrightarrow>
     json_value F k p = Done v (advance (length (json_write F v)) p))"

lemma readsD:
  "reads F (depth p) v \<Longrightarrow> rest p = json_write F v @ r \<Longrightarrow> ends r \<Longrightarrow> 2 * length (rest p) < k \<Longrightarrow>
   json_value F k p = Done v (advance (length (json_write F v)) p)"
  by (simp add: reads_def)

lemma skip_ws_id: "rest p = [] \<or> \<not> is_ws (hd (rest p)) \<Longrightarrow> skip_ws p = p"
  by (cases "rest p") (auto simp: skip_ws_def skip_while_def)

lemma skip_ws_Cons: "rest p = c # cs \<Longrightarrow> \<not> is_ws c \<Longrightarrow> skip_ws p = p"
  by (simp add: skip_ws_id)

lemma not_ws: "\<not> is_ws 34" "\<not> is_ws 44" "\<not> is_ws 58" "\<not> is_ws 91" "\<not> is_ws 93" "\<not> is_ws 123" "\<not> is_ws 125"
  by (simp_all add: is_ws_def)

lemma ends_Cons: "ends (44 # r)" "ends (93 # r)" "ends (125 # r)"
  by (simp_all add: ends_def)

lemma read_items:
  assumes "\<forall>x\<in>set xs. reads F (depth p) x" "xs \<noteq> []"
    "rest p = commas (map (json_write F) xs) @ 93 # r" "2 * length (rest p) + 1 < k"
  shows "array_loop F k acc p = Done (JArray (acc @ xs)) (advance (length (commas (map (json_write F) xs)) + 1) p)"
  using assms
proof (induction xs arbitrary: acc p k)
  case (Cons x xs)
  from Cons.prems obtain k' where k: "k = Suc k'" by (cases k) auto
  let ?q = "advance (length (json_write F x)) p"
  show ?case
  proof (cases xs)
    case Nil
    have v: "json_value F k' p = Done x ?q"
      by (rule readsD [of _ _ _ "93 # r"]) (use Cons.prems Nil k in \<open>simp_all add: ends_Cons\<close>)
    have "rest ?q = 93 # r"
      using Cons.prems Nil by simp
    then show ?thesis
      using v Nil by (simp add: k skip_ws_Cons not_ws)
  next
    case (Cons y ys)
    note xs = Cons
    let ?t = "commas (map (json_write F) xs) @ 93 # r"
    have p: "rest p = json_write F x @ 44 # ?t"
      using Cons.prems(3) xs by simp
    have v: "json_value F k' p = Done x ?q"
      by (rule readsD [of _ _ _ "44 # ?t"]) (use Cons.prems p k in \<open>simp_all add: ends_Cons\<close>)
    have q: "rest ?q = 44 # ?t"
      using p by simp
    have "array_loop F k' (acc @ [x]) (advance 1 ?q)
        = Done (JArray ((acc @ [x]) @ xs)) (advance (length (commas (map (json_write F) xs)) + 1) (advance 1 ?q))"
      by (rule Cons.IH) (use Cons.prems p k xs in \<open>auto\<close>)
    then show ?thesis
      using v q xs by (simp add: k skip_ws_Cons not_ws)
  qed
qed simp

definition write_field :: "'f float_ops \<Rightarrow> rstring \<times> 'f json \<Rightarrow> rstring" where
  "write_field F = (\<lambda>(k, v). write_string k @ [58] @ json_write F v)"

lemma write_string_head: "\<exists>cs. write_string s = 34 # cs"
  by (simp add: write_string_def)

lemma read_field:
  assumes "reads F (depth p) v" "rest p = write_field F (key, v) @ r" "ends r" "2 * length (rest p) < k" "k = Suc k'"
  shows "object_loop F k m p =
    (case bump (skip_ws (advance (length (write_field F (key, v))) p)) of (r, p) \<Rightarrow>
       if r = Some 44 then object_loop F k' (btree_insert key v m) p
       else if r = Some 125 then Done (JObject (btree_insert key v m)) p
       else Fail ExpectedObjectSeparator)"
proof -
  let ?s = "write_string key" let ?p1 = "advance (length ?s) p" let ?p2 = "advance (length ?s + 1) p"
  have p: "rest p = ?s @ 58 # json_write F v @ r"
    using assms(2) by (simp add: write_field_def)
  have w: "skip_ws p = p"
    using p write_string_head [of key] by (auto intro!: skip_ws_id simp: not_ws)
  have c: "rest ?p1 = 58 # json_write F v @ r"
    using p by simp
  have "json_value F k' ?p2 = Done v (advance (length (json_write F v)) ?p2)"
    by (rule readsD [of _ _ _ r]) (use assms p in simp_all)
  then show ?thesis
    using read_string [OF p] c by (simp add: assms(5) w skip_ws_Cons not_ws write_field_def add.commute add.left_commute)
qed

lemma read_fields:
  assumes "\<forall>kv\<in>set xs. reads F (depth p) (snd kv)" "xs \<noteq> []" "sorted_wrt (<) (map fst (acc @ xs))"
    "rest p = commas (map (write_field F) xs) @ 125 # r" "2 * length (rest p) + 1 < k"
  shows "object_loop F k acc p = Done (JObject (acc @ xs)) (advance (length (commas (map (write_field F) xs)) + 1) p)"
  using assms
proof (induction xs arbitrary: acc p k)
  case (Cons x xs)
  from Cons.prems obtain k' where k: "k = Suc k'" by (cases k) auto
  obtain key v where x: "x = (key, v)" by force
  let ?q = "advance (length (write_field F (key, v))) p"
  have i: "btree_insert key v acc = acc @ [x]"
    unfolding x by (rule btree_insert_last) (use Cons.prems(3) x in \<open>auto simp: sorted_wrt_append\<close>)
  show ?case
  proof (cases xs)
    case Nil
    have q: "rest ?q = 125 # r"
      using Cons.prems Nil x by simp
    show ?thesis
      by (subst read_field [of F p v key "125 # r" k k'])
        (use Cons.prems Nil k q x i in \<open>simp_all add: ends_Cons skip_ws_Cons not_ws\<close>)
  next
    case (Cons y ys)
    note xs = Cons
    let ?t = "commas (map (write_field F) xs) @ 125 # r"
    have p: "rest p = write_field F (key, v) @ 44 # ?t"
      using Cons.prems(4) xs x by simp
    have q: "rest ?q = 44 # ?t"
      using p by simp
    have "object_loop F k' (acc @ [x]) (advance 1 ?q)
        = Done (JObject ((acc @ [x]) @ xs)) (advance (length (commas (map (write_field F) xs)) + 1) (advance 1 ?q))"
      by (rule Cons.IH) (use Cons.prems p k xs in \<open>auto\<close>)
    then show ?thesis
      by (subst read_field [of F p v key "44 # ?t" k k'])
        (use Cons.prems k q p xs x i in \<open>simp_all add: ends_Cons skip_ws_Cons not_ws\<close>)
  qed
qed simp

lemma depth_back: "(advance n (p\<lparr>depth := d\<rparr>))\<lparr>depth := depth p\<rparr> = advance n p"
  by (simp add: advance_def)

lemma write_head:
  assumes "numbers_ok F v"
  obtains c cs where "json_write F v = c # cs" "c \<noteq> 93" "\<not> is_ws c"
proof (cases v)
  case (JNumber n)
  then show ?thesis
    using that plain_head [OF number_text [of F n]] assms by (auto simp: is_digit_def is_ws_def)
next
  case (JBool b)
  then show ?thesis
    using that by (cases b) (auto simp: is_ws_def)
qed (use that in \<open>auto simp: write_string_def is_ws_def\<close>)

lemma commas_head: "x = c # cs \<Longrightarrow> \<exists>ds. commas (x # xs) = c # ds"
  by (cases xs) auto

lemma read_array:
  assumes r: "\<forall>x\<in>set xs. reads F (Suc d) x \<and> numbers_ok F x" and d: "d < MAX_DEPTH"
  shows "reads F d (JArray xs)"
  unfolding reads_def
proof (intro allI impI)
  fix p :: parser and r k
  assume p: "depth p = d" "rest p = json_write F (JArray xs) @ r" "2 * length (rest p) < k"
  from p obtain k' where k: "k = Suc k'" by (cases k) auto
  let ?w = "commas (map (json_write F) xs)"
  let ?q = "p\<lparr>depth := Suc d\<rparr>"
  have "array_inner (array_loop F k') ?q = Done (JArray xs) (advance (length ?w + 2) ?q)"
  proof (cases xs)
    case Nil
    then show ?thesis
      using p by (simp add: array_inner_def skip_ws_Cons not_ws Let_def numeral_2_eq_2)
  next
    case (Cons x ys)
    obtain c cs where h: "json_write F x = c # cs" "c \<noteq> 93" "\<not> is_ws c"
      using write_head [of F x] assms(1) Cons by auto
    obtain ds where w: "?w = c # ds"
      using commas_head [OF h(1)] Cons by auto
    have "array_loop F k' [] (advance 1 ?q) = Done (JArray ([] @ xs)) (advance (length ?w + 1) (advance 1 ?q))"
      by (rule read_items) (use assms p k Cons in \<open>auto\<close>)
    then show ?thesis
      using p w h by (simp add: array_inner_def skip_ws_Cons not_ws Let_def)
  qed
  then show "json_value F k p = Done (JArray xs) (advance (length (json_write F (JArray xs))) p)"
    using p d depth_back [of p "length ?w + 2" "Suc d"] by (simp add: k skip_ws_Cons not_ws Let_def nested_def)
qed

lemma read_object:
  assumes r: "\<forall>kv\<in>set m. reads F (Suc d) (snd kv)" and d: "d < MAX_DEPTH" and s: "sorted_wrt (<) (map fst m)"
  shows "reads F d (JObject m)"
  unfolding reads_def
proof (intro allI impI)
  fix p :: parser and r k
  assume p: "depth p = d" "rest p = json_write F (JObject m) @ r" "2 * length (rest p) < k"
  from p obtain k' where k: "k = Suc k'" by (cases k) auto
  let ?w = "commas (map (write_field F) m)"
  let ?q = "p\<lparr>depth := Suc d\<rparr>"
  have w: "json_write F (JObject m) = 123 # ?w @ [125]"
    by (simp add: write_field_def)
  have "object_inner (object_loop F k') ?q = Done (JObject m) (advance (length ?w + 2) ?q)"
  proof (cases m)
    case Nil
    then show ?thesis
      using p by (simp add: object_inner_def skip_ws_Cons not_ws Let_def numeral_2_eq_2)
  next
    case (Cons x ys)
    obtain cs where "write_field F x = 34 # cs"
      using write_string_head [of "fst x"] by (cases x) (auto simp: write_field_def)
    then obtain ds where h: "?w = 34 # ds"
      using commas_head [of "write_field F x"] Cons by auto
    have "object_loop F k' [] (advance 1 ?q) = Done (JObject ([] @ m)) (advance (length ?w + 1) (advance 1 ?q))"
      by (rule read_fields) (use assms p w k Cons in \<open>auto\<close>)
    then show ?thesis
      using p w h by (simp add: object_inner_def skip_ws_Cons not_ws Let_def)
  qed
  then show "json_value F k p = Done (JObject m) (advance (length (json_write F (JObject m))) p)"
    using p w d depth_back [of p "length ?w + 2" "Suc d"]
    by (simp add: k skip_ws_Cons not_ws Let_def nested_def is_digit_def del: json_write.simps)
qed

lemma read_literal: "rest p = w @ r \<Longrightarrow> literal w p = Done () (advance (length w) p)"
  by (induction w arbitrary: p) simp_all

lemma read_word:
  assumes "json_write F v = w" "w = c # cs" "c \<in> {110, 116, 102}"
    "\<And>p k. peek p = Some c \<Longrightarrow> json_value F (Suc k) p = then_parse (literal w p) (\<lambda>_ p. Done v p)"
  shows "reads F d v"
  unfolding reads_def
proof (intro allI impI)
  fix p :: parser and r k
  assume "rest p = json_write F v @ r" "2 * length (rest p) < k"
  then show "json_value F k p = Done v (advance (length (json_write F v)) p)"
    using assms(1-3) assms(4) [of p "k - 1"] read_literal [of p w r] by (cases k) simp_all
qed

lemma json_value_word:
  assumes "peek p = Some c" "c \<in> {110, 116, 102}"
  shows "json_value F (Suc k) p =
    (if c = 110 then then_parse (literal (chars ''null'') p) (\<lambda>_ p. Done JNull p)
     else if c = 116 then then_parse (literal (chars ''true'') p) (\<lambda>_ p. Done (JBool True) p)
     else then_parse (literal (chars ''false'') p) (\<lambda>_ p. Done (JBool False) p))"
proof -
  obtain cs where "rest p = c # cs"
    using assms(1) by (auto simp: peek_def split: list.splits)
  then have "skip_ws p = p"
    using assms(2) by (intro skip_ws_Cons) (auto simp: is_ws_def)
  then show ?thesis
    using assms by (auto simp: Let_def)
qed

lemma read_literals: "reads F d JNull" "reads F d (JBool b)"
proof -
  show "reads F d JNull"
    by (rule read_word [of _ _ "chars ''null''" 110]) (simp_all add: json_value_word del: json_value.simps)
  have "reads F d (JBool True)"
    by (rule read_word [of _ _ "chars ''true''" 116]) (simp_all add: json_value_word del: json_value.simps)
  moreover have "reads F d (JBool False)"
    by (rule read_word [of _ _ "chars ''false''" 102]) (simp_all add: json_value_word del: json_value.simps)
  ultimately show "reads F d (JBool b)"
    by (cases b) simp_all
qed

lemma read_JString: "reads F d (JString s)"
  unfolding reads_def
proof (intro allI impI)
  fix p :: parser and r k
  assume p: "rest p = json_write F (JString s) @ r" "2 * length (rest p) < k"
  obtain cs where "write_string s = 34 # cs"
    using write_string_head by blast
  then show "json_value F k p = Done (JString s) (advance (length (json_write F (JString s))) p)"
    using p read_string [of p s r] by (cases k) (simp_all add: skip_ws_Cons not_ws Let_def)
qed

lemma read_JNumber: "number_ok F n \<Longrightarrow> reads F d (JNumber n)"
  unfolding reads_def
proof (intro allI impI)
  fix p :: parser and r k
  assume n: "number_ok F n" and p: "rest p = json_write F (JNumber n) @ r" "ends r" "2 * length (rest p) < k"
  obtain c cs where c: "write_number F n = c # cs" "c = 45 \<or> is_digit c"
    using plain_head [OF number_text [OF n]] by blast
  have "c = 45 \<or> 48 \<le> c \<and> c \<le> 57"
    using c(2) by (simp add: is_digit_def)
  then show "json_value F k p = Done (JNumber n) (advance (length (json_write F (JNumber n))) p)"
    using p c read_number [OF n _ p(2), of p]
    by (cases k) (auto simp: skip_ws_Cons is_ws_def Let_def)
qed

lemma read_document:
  "numbers_ok F v \<Longrightarrow> json_ok v \<Longrightarrow> nesting_le (MAX_DEPTH - d) v \<Longrightarrow> reads F d v"
proof (induction v arbitrary: d)
  case (JArray xs)
  then show ?case
    by (intro read_array) (auto simp: list_all_iff)
next
  case (JObject m)
  then show ?case
    by (intro read_object) (auto simp: list_all_iff split: prod.splits intro: snds.intros)
qed (simp_all add: read_literals read_JString read_JNumber)

lemma write_then_parse:
  assumes "numbers_ok F v" "json_ok v" "nesting_le MAX_DEPTH v"
  shows "\<exists>p. json_parse F (json_write F v) = Done v p"
proof -
  let ?p = "\<lparr>rest = json_write F v, pos = 0, depth = 0\<rparr>"
  obtain c cs where "json_write F v = c # cs" "\<not> is_ws c"
    using write_head [OF assms(1)] by blast
  then have s: "skip_ws ?p = ?p"
    by (simp add: skip_ws_Cons)
  have "json_value F (2 * length (json_write F v) + 2) ?p = Done v (advance (length (json_write F v)) ?p)"
    by (rule readsD [OF read_document, of _ _ _ "[]"]) (use assms in \<open>simp_all add: ends_def\<close>)
  then show ?thesis
    unfolding json_parse_def Let_def s by (simp add: skip_ws_id)
qed

section \<open>Refusals\<close>

lemma deep_value:
  "n = MAX_DEPTH - depth p \<Longrightarrow> depth p \<le> MAX_DEPTH \<Longrightarrow> rest p = replicate (Suc n) 91 @ r \<Longrightarrow> 2 * n + 1 \<le> k \<Longrightarrow>
   json_value F k p = Fail (TooDeep (pos p + n))"
proof (induction n arbitrary: p k)
  case 0
  then show ?case
    by (cases k) (simp_all add: skip_ws_Cons not_ws Let_def nested_def)
next
  case (Suc n)
  define k' where "k' = k - 2"
  with Suc.prems(4) have k: "k = Suc (Suc k')"
    by simp
  let ?q = "advance 1 (p\<lparr>depth := Suc (depth p)\<rparr>)"
  have d: "depth p < MAX_DEPTH"
    using Suc.prems by simp
  have q: "rest ?q = 91 # replicate n 91 @ r"
    using Suc.prems(3) by simp
  have "json_value F k' ?q = Fail (TooDeep (pos ?q + n))"
    by (rule Suc.IH) (use Suc.prems k q in \<open>simp_all\<close>)
  then show ?case
    using Suc.prems(3) q d
    by (simp add: k skip_ws_Cons not_ws Let_def nested_def array_inner_def)
qed

lemma deep_refused: "json_parse F (replicate 65 91 @ r) = Fail (TooDeep 64)"
proof -
  let ?p = "\<lparr>rest = replicate 65 91 @ r, pos = 0, depth = 0\<rparr>"
  have r: "replicate 65 (91::nat) = replicate (Suc 64) 91"
    by simp
  have p: "rest ?p = replicate (Suc 64) 91 @ r"
    unfolding r by simp
  have s: "skip_ws ?p = ?p"
    by (rule skip_ws_id) (simp only: p replicate_Suc append_Cons list.sel not_ws, simp)
  have "json_value F (2 * length (replicate 65 91 @ r) + 2) ?p = Fail (TooDeep (pos ?p + 64))"
    by (rule deep_value) (use p in \<open>simp_all add: MAX_DEPTH_def\<close>)
  then show ?thesis
    unfolding json_parse_def Let_def s by simp
qed

text \<open>
  A high surrogate before an escape below the low surrogates is neither an error nor a
  replacement character: the difference underflows, and the program stops.
\<close>

definition lone_surrogate :: rstring where
  "lone_surrogate = map of_char [CHR 0x22, CHR 0x5C, CHR ''u'', CHR ''D'', CHR ''8'', CHR ''0'', CHR ''0'',
     CHR 0x5C, CHR ''u'', CHR ''0'', CHR ''0'', CHR ''4'', CHR ''1'', CHR 0x22]"

lemma string_u:
  "rest p = 92 # 117 # r \<Longrightarrow>
   string_body out p = then_parse (unicode_escape (advance 2 p)) (\<lambda>ch p. string_body (out @ [ch]) p)"
  by (simp add: string_body.simps [of out p] numeral_2_eq_2)

lemma lone_surrogate_panics: "json_parse F lone_surrogate = Panic"
proof -
  let ?p = "\<lparr>rest = lone_surrogate, pos = 0, depth = 0\<rparr>"
  have r: "rest ?p = 34 # 92 # 117 # [68, 56, 48, 48, 92, 117, 48, 48, 52, 49, 34]"
    by (simp add: lone_surrogate_def)
  have "rest (advance 3 ?p) = 68 # 56 # 48 # 48 # [92, 117, 48, 48, 52, 49, 34]"
    by (simp add: lone_surrogate_def)
  from read_hex4 [OF this, of 13 8 0 0] have "hex_escape 4 0 (advance 3 ?p) = Done 0xD800 (advance 7 ?p)"
    by (simp add: hex_value_def)
  moreover have "rest (advance 9 ?p) = 48 # 48 # 52 # 49 # [34]"
    by (simp add: lone_surrogate_def)
  from read_hex4 [OF this, of 0 0 4 1] have "hex_escape 4 0 (advance 9 ?p) = Done 0x41 (advance 13 ?p)"
    by (simp add: hex_value_def)
  moreover have "expect 117 (advance 8 ?p) = Done () (advance 9 ?p)"
    by (subst expect_rest [of _ _ "[48, 48, 52, 49, 34]"]) (simp_all add: lone_surrogate_def)
  moreover have "rest (advance 7 ?p) = 92 # 117 # [48, 48, 52, 49, 34]"
    by (simp add: lone_surrogate_def)
  ultimately have "unicode_escape (advance 3 ?p) = Panic"
    by (simp add: unicode_escape_def)
  then have "json_string ?p = Panic"
    using string_u [of "advance 1 ?p"] by (simp add: json_string_def lone_surrogate_def numeral_3_eq_3)
  then have "json_value F (Suc k) ?p = Panic" for k
    using skip_ws_Cons [OF r not_ws(1)] by (simp add: lone_surrogate_def Let_def)
  moreover have "skip_ws ?p = ?p"
    by (rule skip_ws_Cons [OF r not_ws(1)])
  ultimately show ?thesis
    unfolding json_parse_def Let_def by (simp add: numeral_2_eq_2)
qed

end
