(* ===== verification/Pkix_Der.thy ===== *)
theory Pkix_Der
  imports Core_Error Word_Ops
begin

text \<open>
  The strict DER reader and the backward writer of \<open>crates/ic-pkix/src/der.rs\<close>. A reader
  is a cursor over its input; a writer is the caller's buffer and the position from which
  it is filled. The writer's operations give \<open>None\<close> where the code panics: the header of a
  length that needs more than four bytes indexes past a four-byte array before the test
  that would refuse it.
\<close>

section \<open>Tags\<close>

definition INTEGER :: u8 where "INTEGER = 0x02"
definition BIT_STRING :: u8 where "BIT_STRING = 0x03"
definition OCTET_STRING :: u8 where "OCTET_STRING = 0x04"
definition NULL :: u8 where "NULL = 0x05"
definition OID :: u8 where "OID = 0x06"
definition SEQUENCE :: u8 where "SEQUENCE = 0x30"

definition der_context :: "u8 \<Rightarrow> u8" where
  "der_context n = 0xA0 OR n"

section \<open>The reader\<close>

record reader =
  rd_input :: bytes
  rd_pos :: nat

text \<open>Go on with the value, or return the error.\<close>

definition then_do :: "'a result \<times> 's \<Rightarrow> ('a \<Rightarrow> 's \<Rightarrow> 'b result \<times> 's) \<Rightarrow> 'b result \<times> 's" where
  "then_do r f = (case r of (Inl e, s) \<Rightarrow> (Inl e, s) | (Inr x, s) \<Rightarrow> f x s)"

definition reader_new :: "bytes \<Rightarrow> reader" where
  "reader_new input = \<lparr>rd_input = input, rd_pos = 0\<rparr>"

definition reader_is_empty :: "reader \<Rightarrow> bool" where
  "reader_is_empty r \<longleftrightarrow> length (rd_input r) \<le> rd_pos r"

definition remaining :: "reader \<Rightarrow> bytes" where
  "remaining r = drop (rd_pos r) (rd_input r)"

definition reader_finish :: "reader \<Rightarrow> unit result" where
  "reader_finish r = (if reader_is_empty r then Ok () else Err MalformedEncoding ''trailing data after der value'')"

definition take_bytes :: "nat \<Rightarrow> reader \<Rightarrow> bytes result \<times> reader" where
  "take_bytes n r =
     (if n \<le> length (rd_input r) - rd_pos r
      then (Ok (slice (rd_pos r) n (rd_input r)), r\<lparr>rd_pos := rd_pos r + n\<rparr>)
      else (Err MalformedEncoding ''der value runs past the end of the input'', r))"

definition read_byte :: "reader \<Rightarrow> u8 result \<times> reader" where
  "read_byte r = then_do (take_bytes 1 r) (\<lambda>bs r. (Ok (bs ! 0), r))"

definition read_length :: "reader \<Rightarrow> nat result \<times> reader" where
  "read_length r = then_do (read_byte r) (\<lambda>first r.
     if first < 0x80 then (Ok (unat first), r)
     else if first = 0x80 then (Err MalformedEncoding ''indefinite der length'', r)
     else let count = unat (first AND 0x7f)
          in if 4 < count then (Err MalformedEncoding ''der length is implausibly large'', r)
             else then_do (take_bytes count r) (\<lambda>bytes r.
               if bytes ! 0 = 0 then (Err MalformedEncoding ''non-minimal der length'', r)
               else let len = fold (\<lambda>b len. len * 256 + unat b) bytes 0
                    in if len < 0x80 then (Err MalformedEncoding ''non-minimal der length'', r)
                       else (Ok len, r)))"

definition read_expect :: "u8 \<Rightarrow> reader \<Rightarrow> bytes result \<times> reader" where
  "read_expect tag r = then_do (read_byte r) (\<lambda>actual r.
     if actual \<noteq> tag then (Err MalformedEncoding ''unexpected der tag'', r)
     else then_do (read_length r) (\<lambda>len r. take_bytes len r))"

definition peek_tag :: "reader \<Rightarrow> u8 option" where
  "peek_tag r = (if rd_pos r < length (rd_input r) then Some (rd_input r ! rd_pos r) else None)"

definition expect_nested :: "u8 \<Rightarrow> reader \<Rightarrow> reader result \<times> reader" where
  "expect_nested tag r = then_do (read_expect tag r) (\<lambda>c r. (Ok (reader_new c), r))"

definition read_sequence :: "reader \<Rightarrow> reader result \<times> reader" where
  "read_sequence r = expect_nested SEQUENCE r"

definition unsigned_integer :: "reader \<Rightarrow> bytes result \<times> reader" where
  "unsigned_integer r = then_do (read_expect INTEGER r) (\<lambda>raw r.
     if raw = [] then (Err MalformedEncoding ''empty der integer'', r)
     else if raw ! 0 AND 0x80 \<noteq> 0 then (Err MalformedEncoding ''negative der integer where unsigned was expected'', r)
     else if raw ! 0 = 0 then
       (if length raw = 1 then (Ok raw, r)
        else if raw ! 1 AND 0x80 = 0 then (Err MalformedEncoding ''non-minimal der integer'', r)
        else (Ok (drop 1 raw), r))
     else (Ok raw, r))"

definition unsigned_integer_u64 :: "reader \<Rightarrow> u64 result \<times> reader" where
  "unsigned_integer_u64 r = then_do (unsigned_integer r) (\<lambda>bytes r.
     if 8 < length bytes then (Err MalformedEncoding ''der integer too large for u64'', r)
     else (Ok (fold (\<lambda>b v. push_bit 8 v OR ucast b) bytes 0), r))"

definition read_bit_string :: "reader \<Rightarrow> bytes result \<times> reader" where
  "read_bit_string r = then_do (read_expect BIT_STRING r) (\<lambda>raw r.
     if raw = [] then (Err MalformedEncoding ''empty der bit string'', r)
     else if raw ! 0 \<noteq> 0 then (Err MalformedEncoding ''der bit string has unused bits'', r)
     else (Ok (drop 1 raw), r))"

definition read_octet_string :: "reader \<Rightarrow> bytes result \<times> reader" where
  "read_octet_string r = read_expect OCTET_STRING r"

definition read_oid :: "reader \<Rightarrow> bytes result \<times> reader" where
  "read_oid r = then_do (read_expect OID r) (\<lambda>raw r.
     if raw = [] then (Err MalformedEncoding ''empty der oid'', r)
     else if raw ! (length raw - 1) AND 0x80 \<noteq> 0 then (Err MalformedEncoding ''truncated der oid arc'', r)
     else (Ok raw, r))"

definition read_null :: "reader \<Rightarrow> unit result \<times> reader" where
  "read_null r = then_do (read_expect NULL r) (\<lambda>raw r.
     if raw = [] then (Ok (), r) else (Err MalformedEncoding ''der null with content'', r))"

definition expect_version :: "u64 \<Rightarrow> reader \<Rightarrow> unit result \<times> reader" where
  "expect_version want r = then_do (unsigned_integer_u64 r) (\<lambda>got r.
     if got = want then (Ok (), r) else (Err Unsupported ''unsupported structure version'', r))"

section \<open>The writer\<close>

record writer =
  wr_buf :: bytes
  wr_pos :: nat

type_synonym wrote = "(unit result \<times> writer) option"

definition then_write :: "wrote \<Rightarrow> (writer \<Rightarrow> wrote) \<Rightarrow> wrote" where
  "then_write r f = (case r of Some (Inr u, w) \<Rightarrow> f w | _ \<Rightarrow> r)"

definition writer_new :: "bytes \<Rightarrow> writer" where
  "writer_new buf = \<lparr>wr_buf = buf, wr_pos = length buf\<rparr>"

definition writer_len :: "writer \<Rightarrow> nat" where
  "writer_len w = length (wr_buf w) - wr_pos w"

definition writer_is_empty :: "writer \<Rightarrow> bool" where
  "writer_is_empty w \<longleftrightarrow> writer_len w = 0"

definition push :: "bytes \<Rightarrow> writer \<Rightarrow> wrote" where
  "push bytes w =
     (if length bytes \<le> wr_pos w
      then let pos = wr_pos w - length bytes
           in Some (Ok (), w\<lparr>wr_pos := pos, wr_buf := write_at pos bytes (wr_buf w)\<rparr>)
      else Some (Err InvalidLength ''der output buffer is too small'', w))"

text \<open>The claimed bytes, and the writer in front of them.\<close>

definition claim :: "nat \<Rightarrow> writer \<Rightarrow> bytes result \<times> writer" where
  "claim n w =
     (if n \<le> wr_pos w
      then (Ok (slice (wr_pos w - n) n (wr_buf w)), w\<lparr>wr_pos := wr_pos w - n\<rparr>)
      else (Err InvalidLength ''der output buffer is too small'', w))"

definition push_u8 :: "u8 \<Rightarrow> writer \<Rightarrow> wrote" where
  "push_u8 byte w = push [byte] w"

fun le_digits :: "nat \<Rightarrow> bytes" where
  "le_digits v = (if v = 0 then [] else of_nat v # le_digits (v div 256))"

declare le_digits.simps [simp del]

definition push_header :: "u8 \<Rightarrow> nat \<Rightarrow> writer \<Rightarrow> wrote" where
  "push_header tag len w = then_write
     (if len < 0x80 then push_u8 (of_nat len) w
      else let tmp = le_digits len; n = length tmp
           in if 4 < n then None
              else then_write (fold (\<lambda>byte r. then_write r (push_u8 byte)) tmp (Some (Ok (), w)))
                     (push_u8 (0x80 OR of_nat n)))
     (push_u8 tag)"

definition push_element :: "u8 \<Rightarrow> bytes \<Rightarrow> writer \<Rightarrow> wrote" where
  "push_element tag content w = then_write (push content w) (push_header tag (length content))"

definition push_oid :: "bytes \<Rightarrow> writer \<Rightarrow> wrote" where
  "push_oid oid w = push_element OID oid w"

definition push_octet_string :: "bytes \<Rightarrow> writer \<Rightarrow> wrote" where
  "push_octet_string content w = push_element OCTET_STRING content w"

definition push_null :: "writer \<Rightarrow> wrote" where
  "push_null w = push_element NULL [] w"

definition push_bit_string :: "bytes \<Rightarrow> writer \<Rightarrow> wrote" where
  "push_bit_string content w =
     then_write (then_write (push content w) (push_u8 0)) (push_header BIT_STRING (length content + 1))"

definition push_unsigned_integer :: "bytes \<Rightarrow> writer \<Rightarrow> wrote" where
  "push_unsigned_integer value w =
     (let trimmed = dropWhile (\<lambda>b. b = 0) value
      in if trimmed = [] then push_element INTEGER [0] w
         else let needs_sign_byte = (trimmed ! 0 AND 0x80 \<noteq> 0)
              in then_write
                   (then_write (push trimmed w) (\<lambda>w. if needs_sign_byte then push_u8 0 w else Some (Ok (), w)))
                   (push_header INTEGER (length trimmed + of_bool needs_sign_byte)))"

definition push_unsigned_u64 :: "u64 \<Rightarrow> writer \<Rightarrow> wrote" where
  "push_unsigned_u64 value w = push_unsigned_integer (be_of_word 8 value) w"

definition push_wrapper :: "u8 \<Rightarrow> nat \<Rightarrow> writer \<Rightarrow> wrote" where
  "push_wrapper tag len_before_content w = push_header tag (writer_len w - len_before_content) w"

definition writer_finish :: "writer \<Rightarrow> nat \<times> bytes" where
  "writer_finish w =
     (let len = writer_len w
      in (len, drop (wr_pos w) (wr_buf w) @ replicate (length (wr_buf w) - len) 0))"

text \<open>Write into a buffer from its end and move the encoding to its front.\<close>

definition with_writer :: "bytes \<Rightarrow> (writer \<Rightarrow> wrote) \<Rightarrow> (nat result \<times> bytes) option" where
  "with_writer out f =
     (case f (writer_new out) of
        None \<Rightarrow> None
      | Some (Inl e, w) \<Rightarrow> Some (Inl e, wr_buf w)
      | Some (Inr u, w) \<Rightarrow> (case writer_finish w of (n, buf) \<Rightarrow> Some (Ok n, buf)))"

end
