(* ===== verification/Pkix_Der_Laws.thy ===== *)
theory Pkix_Der_Laws
  imports Pkix_Der "HOL-Library.Sublist"
begin

text \<open>
  The reader and the writer of DER are inverse to each other. \<open>accepts\<close> says which bytes a
  reader's operation takes for a value: exactly one encoding. \<open>writes\<close> says which bytes a
  writer's operation puts in front of what is there, or that it runs out of buffer.
\<close>

section \<open>Encodings\<close>

definition der_len :: "nat \<Rightarrow> bytes" where
  "der_len n = (if n < 128 then [of_nat n]
     else (0x80 OR of_nat (length (le_digits n))) # rev (le_digits n))"

definition der_element :: "u8 \<Rightarrow> bytes \<Rightarrow> bytes" where
  "der_element tag c = tag # der_len (length c) @ c"

definition der_unsigned :: "bytes \<Rightarrow> bytes" where
  "der_unsigned v = der_element INTEGER (if hd v AND 0x80 \<noteq> 0 then 0 # v else v)"

definition der_bit_string :: "bytes \<Rightarrow> bytes" where
  "der_bit_string c = der_element BIT_STRING (0 # c)"

text \<open>A number as big-endian bytes without needless zeros; zero is one byte.\<close>

definition minimal :: "bytes \<Rightarrow> bool" where
  "minimal v \<longleftrightarrow> v = [0] \<or> v \<noteq> [] \<and> hd v \<noteq> 0"

definition minimal_of :: "bytes \<Rightarrow> bytes" where
  "minimal_of v = (let t = dropWhile (\<lambda>b. b = 0) v in if t = [] then [0] else t)"

lemma minimal_minimal_of: "minimal (minimal_of v)"
  using hd_dropWhile [of "\<lambda>b. b = 0" v] by (auto simp: minimal_def minimal_of_def Let_def)

lemma minimal_of_minimal: "minimal v \<Longrightarrow> minimal_of v = v"
  by (cases v) (auto simp: minimal_def minimal_of_def)

section \<open>Digits\<close>

lemma le_val_digits: "le_val (le_digits n) = n"
proof (induction n rule: le_digits.induct)
  case (1 v)
  then show ?case
    by (subst le_digits.simps) (simp add: unat_of_nat_u8 del: of_nat_mod)
qed

lemma last_digit: "le_digits n \<noteq> [] \<longrightarrow> last (le_digits n) \<noteq> 0"
proof (induction n rule: le_digits.induct)
  case (1 v)
  show ?case
  proof (cases "v div 256 = 0")
    case True
    then have "v < 256" by auto
    then have "v \<noteq> 0 \<Longrightarrow> unat (of_nat v :: u8) \<noteq> 0"
      by (simp add: unat_of_nat_u8)
    then show ?thesis
      using True by (auto simp: le_digits.simps [of v] le_digits.simps [of 0])
  next
    case False
    then have "le_digits (v div 256) \<noteq> []" "v \<noteq> 0"
      by (auto simp: le_digits.simps [of "v div 256"])
    then show ?thesis
      using 1 by (simp add: le_digits.simps [of v])
  qed
qed

lemma le_val_pos: "bs \<noteq> [] \<Longrightarrow> last bs \<noteq> 0 \<Longrightarrow> 0 < le_val bs"
proof (induction bs)
  case (Cons b bs)
  then show ?case
    by (cases bs) (auto simp: unat_gt_0)
qed simp

lemma digits_le_val: "bs = [] \<or> last bs \<noteq> 0 \<Longrightarrow> le_digits (le_val bs) = bs"
proof (induction bs)
  case (Cons b bs)
  have p: "0 < le_val (b # bs)"
    by (rule le_val_pos) (use Cons.prems in auto)
  have "le_val (b # bs) div 256 = le_val bs"
    using unat_u8_bound [of b] by simp
  moreover have "(of_nat (le_val (b # bs)) :: u8) = b"
  proof -
    have "unat (of_nat (le_val (b # bs)) :: u8) = unat b"
      using unat_u8_bound [of b] by (simp add: unat_of_nat_u8 del: of_nat_add of_nat_mult)
    then show ?thesis
      by (simp only: word_unat_eq_iff)
  qed
  moreover have "le_digits (le_val bs) = bs"
    using Cons by (cases bs) auto
  ultimately show ?case
    using p by (subst le_digits.simps) simp
qed (simp add: le_digits.simps)

lemma length_digits_le: "n < 256 ^ k \<Longrightarrow> length (le_digits n) \<le> k"
proof (induction k arbitrary: n)
  case (Suc k)
  then have "n div 256 < 256 ^ k"
    by (simp add: less_mult_imp_div_less mult.commute)
  then show ?case
    using Suc by (subst le_digits.simps) auto
qed (simp add: le_digits.simps)

lemma length_digits_iff: "length (le_digits n) \<le> 4 \<longleftrightarrow> n < 2 ^ 32"
proof
  assume "length (le_digits n) \<le> 4"
  then have "(256 :: nat) ^ length (le_digits n) \<le> 256 ^ 4"
    by (rule power_increasing) simp
  then show "n < 2 ^ 32"
    using le_val_bound [of "le_digits n"] by (simp add: le_val_digits)
next
  assume "n < 2 ^ 32"
  then show "length (le_digits n) \<le> 4"
    by (intro length_digits_le) simp
qed

lemma fold_be_val: "fold (\<lambda>b len. len * 256 + unat b) bs a = a * 256 ^ length bs + be_val bs"
  by (induction bs arbitrary: a) (simp_all add: be_val_Cons algebra_simps)

text \<open>A length that four bytes hold.\<close>

definition der_fits :: "nat \<Rightarrow> bool" where
  "der_fits n \<longleftrightarrow> n < 2 ^ 32"

lemma der_fits_small [simp]: "n < 256 \<Longrightarrow> der_fits n"
  by (simp add: der_fits_def)

lemma der_fits_mono: "m \<le> n \<Longrightarrow> der_fits n \<Longrightarrow> der_fits m"
  by (simp add: der_fits_def)

section \<open>What the reader takes\<close>

definition skip_bytes :: "nat \<Rightarrow> reader \<Rightarrow> reader" where
  "skip_bytes n r = r\<lparr>rd_pos := rd_pos r + n\<rparr>"

definition accepts :: "(reader \<Rightarrow> 'a result \<times> reader) \<Rightarrow> ('a \<Rightarrow> bool) \<Rightarrow> ('a \<Rightarrow> bytes) \<Rightarrow> bool" where
  "accepts f P E \<longleftrightarrow> (\<forall>r x r'. f r = (Ok x, r') \<longleftrightarrow>
     P x \<and> prefix (E x) (remaining r) \<and> r' = skip_bytes (length (E x)) r)"

lemma acceptsD:
  "accepts f P E \<Longrightarrow> f r = (Ok x, r') \<longleftrightarrow> P x \<and> prefix (E x) (remaining r) \<and> r' = skip_bytes (length (E x)) r"
  by (simp add: accepts_def)

lemma remaining_skip [simp]: "remaining (skip_bytes n r) = drop n (remaining r)"
  by (simp add: remaining_def skip_bytes_def add.commute)

lemma skip_skip [simp]: "skip_bytes m (skip_bytes n r) = skip_bytes (n + m) r"
  by (simp add: skip_bytes_def add.assoc)

lemma remaining_new [simp]: "remaining (reader_new bs) = bs"
  by (simp add: remaining_def reader_new_def)

lemma prefix_append_iff: "prefix (xs @ ys) zs \<longleftrightarrow> prefix xs zs \<and> prefix ys (drop (length xs) zs)"
  by (auto simp: prefix_def)

lemma prefix_Cons_iff: "prefix (x # xs) zs \<longleftrightarrow> prefix [x] zs \<and> prefix xs (drop 1 zs)"
  using prefix_append_iff [of "[x]" xs zs] by simp

lemma then_do_Ok: "then_do r f = (Ok y, s') \<longleftrightarrow> (\<exists>x s. r = (Ok x, s) \<and> f x s = (Ok y, s'))"
  by (cases r; cases "fst r") (auto simp: then_do_def)

lemma finish_iff: "reader_finish r = Ok () \<longleftrightarrow> remaining r = []"
  by (simp add: reader_finish_def reader_is_empty_def remaining_def)

lemma take_bytes_iff:
  "take_bytes n r = (Ok bs, r') \<longleftrightarrow> length bs = n \<and> prefix bs (remaining r) \<and> r' = skip_bytes n r"
proof -
  have "prefix bs xs \<longleftrightarrow> length bs \<le> length xs \<and> take (length bs) xs = bs" for bs xs :: bytes
  proof
    assume "length bs \<le> length xs \<and> take (length bs) xs = bs"
    then show "prefix bs xs"
      using take_is_prefix [of "length bs" xs] by simp
  qed (auto simp: prefix_def)
  then show ?thesis
    by (cases "n \<le> length (remaining r)") (auto simp: take_bytes_def remaining_def skip_bytes_def slice_def)
qed

lemma accepts_byte: "accepts read_byte (\<lambda>_. True) (\<lambda>b. [b])"
  unfolding accepts_def read_byte_def then_do_Ok take_bytes_iff
  by (auto simp: length_Suc_conv One_nat_def)

lemma long_form: "\<not> first < 0x80 \<Longrightarrow> first = 0x80 OR (first AND 0x7f)" for first :: u8
  using all_u8_iff [of "\<lambda>first. \<not> first < 0x80 \<longrightarrow> first = 0x80 OR (first AND 0x7f)"] by simp

lemma accepts_length: "accepts read_length (\<lambda>n. der_fits n) der_len"
  unfolding accepts_def
proof (intro allI iffI)
  fix r n r'
  assume a: "read_length r = (Ok n, r')"
  obtain first r1 where b: "read_byte r = (Ok first, r1)"
    using a by (auto simp: read_length_def then_do_Ok)
  note b' = b [unfolded acceptsD [OF accepts_byte]]
  show "der_fits n \<and> prefix (der_len n) (remaining r) \<and> r' = skip_bytes (length (der_len n)) r"
  proof (cases "first < 0x80")
    case True
    then have "n = unat first" "r' = r1"
      using a b by (auto simp: read_length_def then_do_def)
    moreover have "unat first < 128"
      using True by (simp add: word_less_nat_alt)
    ultimately show ?thesis
      using b' unat_u8_bound [of first] by (simp add: der_len_def)
  next
    case False
    define count where "count = unat (first AND 0x7f)"
    obtain bs where t: "take_bytes count r1 = (Ok bs, r')" and c: "count \<le> 4" "first \<noteq> 0x80"
      and bs: "bs ! 0 \<noteq> 0" and n: "n = be_val bs" "128 \<le> n"
      using a b False by (auto simp: read_length_def then_do_def count_def [symmetric] Let_def fold_be_val
          split: if_splits sum.splits prod.splits)
    note t' = t [unfolded take_bytes_iff]
    have l: "length bs = count" using t' by simp
    have first: "first = 0x80 OR of_nat count"
      using long_form [OF False] by (simp add: count_def)
    have "count \<noteq> 0"
      using first c(2) by (intro notI) simp
    then have "rev bs \<noteq> []" "last (rev bs) \<noteq> 0"
      using l bs by (auto simp: last_rev hd_conv_nth)
    then have d: "le_digits n = rev bs"
      using digits_le_val [of "rev bs"] n(1) by (simp add: be_val_def)
    then have "der_len n = first # bs"
      using n(2) l first by (simp add: der_len_def)
    moreover have "der_fits n"
      unfolding der_fits_def length_digits_iff [symmetric] using d l c(1) by simp
    ultimately show ?thesis
      using b' t' by (simp add: prefix_Cons_iff [of first bs])
  qed
next
  fix r n r'
  assume a: "der_fits n \<and> prefix (der_len n) (remaining r) \<and> r' = skip_bytes (length (der_len n)) r"
  show "read_length r = (Ok n, r')"
  proof (cases "n < 128")
    case True
    then have "read_byte r = (Ok (of_nat n), r')"
      using a by (simp add: acceptsD [OF accepts_byte] der_len_def)
    moreover have "unat (of_nat n :: u8) = n"
      using True by (simp add: unat_of_nat_u8)
    ultimately show ?thesis
      using True by (simp add: read_length_def then_do_def word_less_nat_alt)
  next
    case False
    define k where "k = length (le_digits n)"
    have k: "k \<le> 4" "k \<noteq> 0"
      using a False by (auto simp only: k_def length_digits_iff der_fits_def) (auto simp: le_digits.simps [of n])
    have "k = 1 \<or> k = 2 \<or> k = 3 \<or> k = 4"
      using k by linarith
    then have f: "\<not> (0x80 OR of_nat k :: u8) < 0x80" "(0x80 OR of_nat k :: u8) \<noteq> 0x80"
      "unat ((0x80 OR of_nat k :: u8) AND 0x7f) = k"
      by auto
    have e: "der_len n = (0x80 OR of_nat k) # rev (le_digits n)"
      using False by (simp add: der_len_def k_def)
    have p: "prefix [0x80 OR of_nat k] (remaining r)" "prefix (rev (le_digits n)) (drop 1 (remaining r))"
      using a by (simp_all add: e prefix_Cons_iff [of "0x80 OR of_nat k" "rev (le_digits n)"])
    have "read_byte r = (Ok (0x80 OR of_nat k), skip_bytes 1 r)"
      using p(1) by (simp add: acceptsD [OF accepts_byte])
    moreover have "take_bytes k (skip_bytes 1 r) = (Ok (rev (le_digits n)), r')"
      using p(2) a by (simp add: take_bytes_iff e k_def)
    moreover have "rev (le_digits n) ! 0 \<noteq> 0"
      using last_digit [of n] k by (auto simp: k_def hd_rev simp flip: hd_conv_nth)
    moreover have "be_val (rev (le_digits n)) = n"
      by (simp add: be_val_def le_val_digits)
    ultimately show ?thesis
      using f k(1) False by (simp add: read_length_def then_do_def fold_be_val)
  qed
qed

lemma accepts_expect: "accepts (read_expect tag) (\<lambda>c. der_fits (length c)) (der_element tag)"
  unfolding accepts_def
proof (intro allI)
  fix r c r'
  have "read_expect tag r = (Ok c, r') \<longleftrightarrow>
    (\<exists>r1 len r2. read_byte r = (Ok tag, r1) \<and> read_length r1 = (Ok len, r2) \<and> take_bytes len r2 = (Ok c, r'))"
    by (auto simp: read_expect_def then_do_Ok)
  also have "\<dots> \<longleftrightarrow> der_fits (length c) \<and> prefix (der_element tag c) (remaining r) \<and>
      r' = skip_bytes (length (der_element tag c)) r"
    unfolding acceptsD [OF accepts_byte] acceptsD [OF accepts_length] take_bytes_iff der_element_def
      prefix_Cons_iff [of tag "der_len _ @ c"] prefix_append_iff [of "der_len _" c]
    by (auto simp: add.commute)
  finally show "read_expect tag r = (Ok c, r') \<longleftrightarrow> der_fits (length c) \<and>
      prefix (der_element tag c) (remaining r) \<and> r' = skip_bytes (length (der_element tag c)) r" .
qed

text \<open>An operation that looks at the content of one element.\<close>

lemma accepts_content:
  assumes "\<And>raw r x r'. der_fits (length raw) \<Longrightarrow> g raw r = (Ok x, r') \<longleftrightarrow> P x \<and> raw = C x \<and> r' = r"
    "\<And>x. P x \<Longrightarrow> der_fits (length (C x))"
  shows "accepts (\<lambda>r. then_do (read_expect tag r) g) P (\<lambda>x. der_element tag (C x))"
  unfolding accepts_def then_do_Ok acceptsD [OF accepts_expect]
proof (intro allI iffI)
  fix r x r'
  assume "\<exists>c s. (der_fits (length c) \<and> prefix (der_element tag c) (remaining r) \<and>
      s = skip_bytes (length (der_element tag c)) r) \<and> g c s = (Ok x, r')"
  then show "P x \<and> prefix (der_element tag (C x)) (remaining r) \<and> r' = skip_bytes (length (der_element tag (C x))) r"
    using assms(1) by auto
next
  fix r x r'
  assume "P x \<and> prefix (der_element tag (C x)) (remaining r) \<and> r' = skip_bytes (length (der_element tag (C x))) r"
  then show "\<exists>c s. (der_fits (length c) \<and> prefix (der_element tag c) (remaining r) \<and>
      s = skip_bytes (length (der_element tag c)) r) \<and> g c s = (Ok x, r')"
    using assms(2) by (intro exI [of _ "C x"] exI [of _ r']) (simp add: assms(1))
qed

lemma accepts_null: "accepts read_null (\<lambda>_. True) (\<lambda>_. der_element NULL [])"
  unfolding read_null_def by (rule accepts_content) auto

lemma accepts_octet_string: "accepts read_octet_string (\<lambda>c. der_fits (length c)) (der_element OCTET_STRING)"
  using accepts_expect by (simp add: accepts_def read_octet_string_def)

lemma accepts_bit_string: "accepts read_bit_string (\<lambda>c. der_fits (length c + 1)) der_bit_string"
  unfolding read_bit_string_def der_bit_string_def
proof (rule accepts_content)
  fix raw x :: bytes and r r' :: reader
  assume "der_fits (length raw)"
  then show "(if raw = [] then (Err MalformedEncoding ''empty der bit string'', r)
     else if raw ! 0 \<noteq> 0 then (Err MalformedEncoding ''der bit string has unused bits'', r)
     else (Ok (drop 1 raw), r)) = (Ok x, r') \<longleftrightarrow> der_fits (length x + 1) \<and> raw = 0 # x \<and> r' = r"
    by (cases raw) auto
qed simp

definition oid_ok :: "bytes \<Rightarrow> bool" where
  "oid_ok c \<longleftrightarrow> c \<noteq> [] \<and> last c AND 0x80 = 0 \<and> der_fits (length c)"

lemma accepts_oid: "accepts read_oid oid_ok (der_element OID)"
  unfolding read_oid_def
  by (rule accepts_content [where C = "\<lambda>c. c"]) (auto simp: oid_ok_def last_conv_nth)

definition integer_ok :: "bytes \<Rightarrow> bool" where
  "integer_ok v \<longleftrightarrow> minimal v \<and> der_fits (length v + of_bool (hd v AND 0x80 \<noteq> 0))"

lemma accepts_unsigned: "accepts unsigned_integer integer_ok der_unsigned"
  unfolding unsigned_integer_def der_unsigned_def integer_ok_def
proof (rule accepts_content)
  fix raw x :: bytes and r r' :: reader
  assume l: "der_fits (length raw)"
  show "(if raw = [] then (Err MalformedEncoding ''empty der integer'', r)
     else if raw ! 0 AND 0x80 \<noteq> 0 then (Err MalformedEncoding ''negative der integer where unsigned was expected'', r)
     else if raw ! 0 = 0 then
       (if length raw = 1 then (Ok raw, r)
        else if raw ! 1 AND 0x80 = 0 then (Err MalformedEncoding ''non-minimal der integer'', r)
        else (Ok (drop 1 raw), r))
     else (Ok raw, r)) = (Ok x, r') \<longleftrightarrow>
     (minimal x \<and> der_fits (length x + of_bool (hd x AND 0x80 \<noteq> 0))) \<and>
     raw = (if hd x AND 0x80 \<noteq> 0 then 0 # x else x) \<and> r' = r"
  proof (cases raw)
    case (Cons a as)
    then show ?thesis
      using l by (cases as) (auto simp: minimal_def)
  qed (auto simp: minimal_def)
qed auto

lemma accepts_nested: "expect_nested tag r = (Ok n, r') \<longleftrightarrow>
   (\<exists>c. n = reader_new c \<and> der_fits (length c) \<and> prefix (der_element tag c) (remaining r) \<and>
        r' = skip_bytes (length (der_element tag c)) r)"
  by (auto simp: expect_nested_def then_do_Ok acceptsD [OF accepts_expect])

lemma accepts_sequence: "read_sequence r = (Ok n, r') \<longleftrightarrow>
   (\<exists>c. n = reader_new c \<and> der_fits (length c) \<and> prefix (der_element SEQUENCE c) (remaining r) \<and>
        r' = skip_bytes (length (der_element SEQUENCE c)) r)"
  by (simp add: read_sequence_def accepts_nested)

text \<open>A \<open>u64\<close> is the integer whose bytes have no leading zeros.\<close>

lemma fold_word_of_be: "fold (\<lambda>b v. push_bit 8 v OR ucast b) bs 0 = (word_of_be bs :: u64)"
  by (simp add: word_of_be_def)

lemma word_of_be_zeros: "word_of_be (replicate k 0 @ bs) = word_of_be bs"
proof -
  have "fold (\<lambda>b acc. push_bit 8 acc OR ucast b) (replicate k (0 :: u8)) 0 = (0 :: 'a word)"
    by (induction k) simp_all
  then show ?thesis
    by (simp add: word_of_be_def)
qed

lemma minimal_of_zeros:
  assumes "minimal v"
  shows "minimal_of (replicate k 0 @ v) = v"
proof -
  have "dropWhile (\<lambda>b. b = 0) (replicate k 0 @ v) = dropWhile (\<lambda>b. b = 0) v" for v :: bytes
    by (induction k) simp_all
  then show ?thesis
    using minimal_of_minimal [OF assms] by (simp add: minimal_of_def)
qed

lemma zeros_minimal_of: "v \<noteq> [] \<Longrightarrow> \<exists>k. v = replicate k 0 @ minimal_of v"
proof (induction v)
  case (Cons b v)
  show ?case
  proof (cases "b = 0")
    case True
    show ?thesis
    proof (cases "v = []")
      case True
      then show ?thesis
        using \<open>b = 0\<close> by (intro exI [of _ 0]) (simp add: minimal_of_def)
    next
      case False
      then obtain k where "v = replicate k 0 @ minimal_of v"
        using Cons.IH by blast
      moreover have "minimal_of (b # v) = minimal_of v"
        using True by (simp add: minimal_of_def)
      ultimately show ?thesis
        using True by (intro exI [of _ "Suc k"]) simp
    qed
  next
    case False
    then show ?thesis
      by (intro exI [of _ 0]) (simp add: minimal_of_def)
  qed
qed simp

definition u64_octets :: "u64 \<Rightarrow> bytes" where
  "u64_octets v = minimal_of (be_of_word 8 v)"

lemma u64_octets_eq: "minimal v \<Longrightarrow> length v \<le> 8 \<Longrightarrow> u64_octets (word_of_be v) = v"
proof -
  assume v: "minimal v" "length v \<le> 8"
  let ?v = "replicate (8 - length v) 0 @ v"
  have "be_of_word 8 (word_of_be ?v :: u64) = ?v"
    using v(2) be_of_word_of_be [of ?v, where 'a = 64] by simp
  then show ?thesis
    using minimal_of_zeros [OF v(1)] by (simp add: u64_octets_def word_of_be_zeros)
qed

lemma u64_octets_props: "minimal (u64_octets v)" "length (u64_octets v) \<le> 8" "word_of_be (u64_octets v) = v"
proof -
  let ?b = "be_of_word 8 v"
  obtain k where k: "?b = replicate k 0 @ minimal_of ?b"
    using zeros_minimal_of [of ?b] by (metis length_word_bytes(2) list.size(3) zero_neq_numeral)
  have "length ?b = 8" by simp
  then show "length (u64_octets v) \<le> 8"
    using arg_cong [OF k, of length] by (simp add: u64_octets_def)
  have "word_of_be ?b = (word_of_be (minimal_of ?b) :: u64)"
    using k word_of_be_zeros by metis
  then show "word_of_be (u64_octets v) = v"
    by (simp add: u64_octets_def word_of_be_of_word)
qed (simp add: u64_octets_def minimal_minimal_of)

lemma accepts_u64: "accepts unsigned_integer_u64 (\<lambda>_. True) (\<lambda>v. der_unsigned (u64_octets v))"
  unfolding accepts_def
proof (intro allI)
  fix r v r'
  have "unsigned_integer_u64 r = (Ok v, r') \<longleftrightarrow>
    (\<exists>bs. unsigned_integer r = (Ok bs, r') \<and> length bs \<le> 8 \<and> word_of_be bs = v)"
    by (auto simp: unsigned_integer_u64_def then_do_Ok fold_word_of_be not_less)
  also have "\<dots> \<longleftrightarrow> unsigned_integer r = (Ok (u64_octets v), r')"
  proof
    assume "\<exists>bs. unsigned_integer r = (Ok bs, r') \<and> length bs \<le> 8 \<and> word_of_be bs = v"
    then obtain bs where bs: "unsigned_integer r = (Ok bs, r')" "length bs \<le> 8" "word_of_be bs = v"
      by blast
    then have "minimal bs"
      by (simp add: acceptsD [OF accepts_unsigned] integer_ok_def)
    then have "u64_octets v = bs"
      using u64_octets_eq [of bs] bs by simp
    then show "unsigned_integer r = (Ok (u64_octets v), r')"
      using bs(1) by simp
  next
    assume "unsigned_integer r = (Ok (u64_octets v), r')"
    then show "\<exists>bs. unsigned_integer r = (Ok bs, r') \<and> length bs \<le> 8 \<and> word_of_be bs = v"
      using u64_octets_props [of v] by (intro exI [of _ "u64_octets v"]) simp
  qed
  also have "\<dots> \<longleftrightarrow> True \<and> prefix (der_unsigned (u64_octets v)) (remaining r) \<and>
      r' = skip_bytes (length (der_unsigned (u64_octets v))) r"
    using u64_octets_props [of v] by (simp add: acceptsD [OF accepts_unsigned] integer_ok_def)
  finally show "unsigned_integer_u64 r = (Ok v, r') \<longleftrightarrow> True \<and> prefix (der_unsigned (u64_octets v)) (remaining r) \<and>
      r' = skip_bytes (length (der_unsigned (u64_octets v))) r" .
qed

section \<open>What the writer writes\<close>

definition wr_ok :: "writer \<Rightarrow> bool" where
  "wr_ok w \<longleftrightarrow> wr_pos w \<le> length (wr_buf w) \<and> der_fits (length (wr_buf w))"

definition put :: "bytes \<Rightarrow> writer \<Rightarrow> writer" where
  "put bs w = w\<lparr>wr_pos := wr_pos w - length bs, wr_buf := write_at (wr_pos w - length bs) bs (wr_buf w)\<rparr>"

definition writes :: "(writer \<Rightarrow> wrote) \<Rightarrow> bytes \<Rightarrow> bool" where
  "writes f bs \<longleftrightarrow> (\<forall>w. wr_ok w \<longrightarrow>
     (if length bs \<le> wr_pos w then f w = Some (Ok (), put bs w)
      else \<exists>w'. f w = Some (Err InvalidLength ''der output buffer is too small'', w')))"

lemma then_write_simps [simp]:
  "then_write (Some (Inr u, w)) f = f w" "then_write (Some (Inl e, w)) f = Some (Inl e, w)" "then_write None f = None"
  by (simp_all add: then_write_def)

lemma put_simps: "length bs \<le> wr_pos w \<Longrightarrow> wr_ok w \<Longrightarrow>
  wr_ok (put bs w) \<and> wr_pos (put bs w) = wr_pos w - length bs \<and> writer_len (put bs w) = writer_len w + length bs"
  by (auto simp: put_def wr_ok_def writer_len_def)

lemma put_put:
  assumes "length a + length b \<le> wr_pos w" "wr_ok w"
  shows "put b (put a w) = put (b @ a) w"
proof -
  let ?p = "wr_pos w" and ?q = "wr_pos w - (length a + length b)"
  have q: "?p - length a = ?q + length b" "?p - length (b @ a) = ?q" "?p - length a - length b = ?q"
    using assms by simp_all
  have "write_at ?q b (write_at (?q + length b) a (wr_buf w)) = write_at ?q (b @ a) (wr_buf w)"
    using assms by (simp add: write_at_def wr_ok_def min_def add.commute add.left_commute)
  then show ?thesis
    unfolding put_def by (simp add: q add.commute)
qed

lemma writesI:
  "(\<And>w. wr_ok w \<Longrightarrow> length bs \<le> wr_pos w \<Longrightarrow> f w = Some (Ok (), put bs w)) \<Longrightarrow>
   (\<And>w. wr_ok w \<Longrightarrow> wr_pos w < length bs \<Longrightarrow> \<exists>w'. f w = Some (Err InvalidLength ''der output buffer is too small'', w')) \<Longrightarrow>
   writes f bs"
  by (simp add: writes_def)

lemma writesD:
  assumes "writes f bs" "wr_ok w"
  shows "length bs \<le> wr_pos w \<Longrightarrow> f w = Some (Ok (), put bs w)"
    "wr_pos w < length bs \<Longrightarrow> \<exists>w'. f w = Some (Err InvalidLength ''der output buffer is too small'', w')"
  using assms by (simp_all add: writes_def)

lemma writes_push: "writes (push bs) bs" "writes (push_u8 b) [b]"
proof -
  show "writes (push bs) bs" for bs
    by (rule writesI) (simp_all add: push_def put_def Let_def)
  then show "writes (push_u8 b) [b]"
    by (simp add: push_u8_def [abs_def])
qed

lemma writes_nothing: "writes (\<lambda>w. Some (Ok (), w)) []"
  by (rule writesI) (simp_all add: put_def write_at_def)

lemma writes_then:
  assumes "writes f a" "writes g b"
  shows "writes (\<lambda>w. then_write (f w) g) (b @ a)"
proof (rule writesI)
  fix w
  assume "wr_ok w" "length (b @ a) \<le> wr_pos w"
  then show "then_write (f w) g = Some (Ok (), put (b @ a) w)"
    using put_simps [of a w] put_put [of a b w] writesD(1) [OF assms(1), of w] writesD(1) [OF assms(2), of "put a w"]
    by simp
next
  fix w
  assume w: "wr_ok w" "wr_pos w < length (b @ a)"
  show "\<exists>w'. then_write (f w) g = Some (Err InvalidLength ''der output buffer is too small'', w')"
  proof (cases "length a \<le> wr_pos w")
    case True
    then show ?thesis
      using w put_simps [of a w] writesD(1) [OF assms(1), of w] writesD(2) [OF assms(2), of "put a w"] by auto
  qed (use w writesD(2) [OF assms(1), of w] in auto)
qed

lemma writes_each:
  "writes f a \<Longrightarrow> writes (\<lambda>w. fold (\<lambda>byte r. then_write r (push_u8 byte)) tmp (f w)) (rev tmp @ a)"
proof (induction tmp arbitrary: f a)
  case (Cons b tmp)
  show ?case
    using Cons.IH [OF writes_then [OF Cons.prems writes_push(2)], of b] by simp
qed simp

lemma writes_header: "der_fits len \<Longrightarrow> writes (push_header tag len) (tag # der_len len)"
proof -
  assume l: "der_fits len"
  have "writes (\<lambda>w. if len < 0x80 then push_u8 (of_nat len) w
      else let tmp = le_digits len; n = length tmp
           in if 4 < n then None
              else then_write (fold (\<lambda>byte r. then_write r (push_u8 byte)) tmp (Some (Ok (), w)))
                     (push_u8 (0x80 OR of_nat n))) (der_len len)"
  proof (cases "len < 0x80")
    case False
    have "\<not> 4 < length (le_digits len)"
      using l length_digits_iff [of len] by (simp add: der_fits_def)
    then show ?thesis
      using False writes_then [OF writes_each [OF writes_nothing, of "le_digits len"] writes_push(2)]
      by (simp add: Let_def der_len_def)
  qed (simp add: der_len_def writes_push)
  from writes_then [OF this writes_push(2), of tag] show ?thesis
    by (simp add: push_header_def [abs_def])
qed

text \<open>A header of more than four length bytes panics, whatever the buffer.\<close>

lemma push_header_panics: "\<not> der_fits len \<Longrightarrow> push_header tag len w = None"
  using length_digits_iff [of len] der_fits_small [of len]
  by (auto simp: push_header_def der_fits_def Let_def)

text \<open>
  Content, then its header: content too long for a header does not fit a buffer either.
\<close>

lemma writes_element:
  assumes "writes f c"
  shows "writes (\<lambda>w. then_write (f w) (push_header tag (length c))) (der_element tag c)"
proof (cases "der_fits (length c)")
  case True
  then show ?thesis
    using writes_then [OF assms writes_header [OF True]] by (simp add: der_element_def)
next
  case False
  have s: "wr_pos w < length c" if "wr_ok w" for w
  proof (rule ccontr)
    assume "\<not> wr_pos w < length c"
    with that have "length c \<le> length (wr_buf w)" "der_fits (length (wr_buf w))"
      by (simp_all add: wr_ok_def)
    then show False
      using False der_fits_mono by blast
  qed
  show ?thesis
    by (rule writesI) (use s writesD(2) [OF assms] in \<open>fastforce simp: der_element_def\<close>)+
qed

lemma writes_wrapper:
  assumes "writes f c"
  shows "writes (\<lambda>w. then_write (f w) (push_wrapper tag (writer_len w))) (der_element tag c)"
proof -
  have "then_write (f w) (push_wrapper tag (writer_len w)) = then_write (f w) (push_header tag (length c))"
    if "wr_ok w" for w
    using that put_simps [of c w] writesD [OF assms that]
    by (cases "length c \<le> wr_pos w") (auto simp: push_wrapper_def)
  then show ?thesis
    using writes_element [OF assms, of tag] by (simp add: writes_def)
qed

lemma writes_push_element: "writes (push_element tag c) (der_element tag c)"
  using writes_element [OF writes_push(1)] by (simp add: push_element_def [abs_def])

lemma writes_null_oid_octets:
  "writes push_null (der_element NULL [])" "writes (push_oid c) (der_element OID c)"
  "writes (push_octet_string c) (der_element OCTET_STRING c)"
  using writes_push_element by (simp_all add: push_null_def [abs_def] push_oid_def [abs_def] push_octet_string_def [abs_def])

lemma writes_bit_string: "writes (push_bit_string c) (der_bit_string c)"
  using writes_element [OF writes_then [OF writes_push(1) writes_push(2)], where tag = BIT_STRING]
  by (simp add: push_bit_string_def [abs_def] der_bit_string_def)

lemma writes_unsigned: "writes (push_unsigned_integer v) (der_unsigned (minimal_of v))"
proof -
  obtain t where t: "dropWhile (\<lambda>b. b = 0) v = t"
    by blast
  show ?thesis
  proof (cases t)
    case Nil
    then show ?thesis
      using writes_push_element [of INTEGER "[0]"] t
      by (simp only: push_unsigned_integer_def [abs_def] der_unsigned_def minimal_of_def Let_def if_True) simp
  next
    case (Cons x xs)
    define s where "s \<longleftrightarrow> x AND 0x80 \<noteq> 0"
    let ?z = "if s then [0] else [] :: bytes"
    have "writes (\<lambda>w. if s then push_u8 0 w else Some (Ok (), w)) ?z"
      using writes_push(2) writes_nothing by simp
    from writes_element [OF writes_then [OF writes_push(1) this], where tag = INTEGER]
    have w: "writes (\<lambda>w. then_write (then_write (push t w) (\<lambda>w. if s then push_u8 0 w else Some (Ok (), w)))
        (push_header INTEGER (length (?z @ t)))) (der_element INTEGER (?z @ t))" .
    have "push_unsigned_integer v = (\<lambda>w. then_write (then_write (push t w) (\<lambda>w. if s then push_u8 0 w else Some (Ok (), w)))
        (push_header INTEGER (length (?z @ t))))"
      using Cons by (intro ext) (auto simp: push_unsigned_integer_def t s_def Let_def)
    moreover have "der_unsigned (minimal_of v) = der_element INTEGER (?z @ t)"
      using Cons by (simp add: der_unsigned_def minimal_of_def t s_def Let_def)
    ultimately show ?thesis
      using w by simp
  qed
qed

lemma writes_u64: "writes (push_unsigned_u64 v) (der_unsigned (u64_octets v))"
  using writes_unsigned by (simp add: push_unsigned_u64_def [abs_def] u64_octets_def)

lemma with_writer_writes:
  assumes "writes f bs" "der_fits (length out)"
  shows "length bs \<le> length out \<Longrightarrow>
      with_writer out f = Some (Ok (length bs), bs @ replicate (length out - length bs) 0)"
    "length out < length bs \<Longrightarrow>
      \<exists>out'. with_writer out f = Some (Err InvalidLength ''der output buffer is too small'', out')"
proof -
  have w: "wr_ok (writer_new out)" "wr_pos (writer_new out) = length out"
    using assms(2) by (simp_all add: wr_ok_def writer_new_def)
  show "with_writer out f = Some (Ok (length bs), bs @ replicate (length out - length bs) 0)"
    if "length bs \<le> length out"
    using that w writesD(1) [OF assms(1) w(1)] put_simps [of bs "writer_new out"]
    by (simp add: with_writer_def writer_finish_def writer_len_def Let_def put_def writer_new_def write_at_def)
  show "\<exists>out'. with_writer out f = Some (Err InvalidLength ''der output buffer is too small'', out')"
    if "length out < length bs"
    using that w writesD(2) [OF assms(1) w(1)] by (auto simp: with_writer_def)
qed

end
