(* ===== verification/Pkix_Oid.thy ===== *)
theory Pkix_Oid
  imports Prelude
begin

text \<open>
  Object identifiers as DER content bytes and the algorithms they name:
  \<open>crates/ic-pkix/src/oid.rs\<close>, the identifiers this development's components use. Each
  is checked against its dotted form.
\<close>

section \<open>Identifiers\<close>

definition OID_RSA_ENCRYPTION :: bytes where "OID_RSA_ENCRYPTION = [0x2a, 0x86, 0x48, 0x86, 0xf7, 0x0d, 0x01, 0x01, 0x01]"
definition OID_EC_PUBLIC_KEY :: bytes where "OID_EC_PUBLIC_KEY = [0x2a, 0x86, 0x48, 0xce, 0x3d, 0x02, 0x01]"
definition OID_P256 :: bytes where "OID_P256 = [0x2a, 0x86, 0x48, 0xce, 0x3d, 0x03, 0x01, 0x07]"
definition OID_P384 :: bytes where "OID_P384 = [0x2b, 0x81, 0x04, 0x00, 0x22]"
definition OID_P521 :: bytes where "OID_P521 = [0x2b, 0x81, 0x04, 0x00, 0x23]"
definition OID_ED25519 :: bytes where "OID_ED25519 = [0x2b, 0x65, 0x70]"
definition OID_ED448 :: bytes where "OID_ED448 = [0x2b, 0x65, 0x71]"
definition OID_X25519 :: bytes where "OID_X25519 = [0x2b, 0x65, 0x6e]"
definition OID_ECDSA_WITH_SHA256 :: bytes where "OID_ECDSA_WITH_SHA256 = [0x2a, 0x86, 0x48, 0xce, 0x3d, 0x04, 0x03, 0x02]"
definition OID_ECDSA_WITH_SHA384 :: bytes where "OID_ECDSA_WITH_SHA384 = [0x2a, 0x86, 0x48, 0xce, 0x3d, 0x04, 0x03, 0x03]"
definition OID_ML_DSA_44 :: bytes where "OID_ML_DSA_44 = [0x60, 0x86, 0x48, 0x01, 0x65, 0x03, 0x04, 0x03, 0x11]"
definition OID_ML_DSA_65 :: bytes where "OID_ML_DSA_65 = [0x60, 0x86, 0x48, 0x01, 0x65, 0x03, 0x04, 0x03, 0x12]"
definition OID_ML_DSA_87 :: bytes where "OID_ML_DSA_87 = [0x60, 0x86, 0x48, 0x01, 0x65, 0x03, 0x04, 0x03, 0x13]"
definition OID_EXTENSION_REQUEST :: bytes where "OID_EXTENSION_REQUEST = [0x2a, 0x86, 0x48, 0x86, 0xf7, 0x0d, 0x01, 0x09, 0x0e]"
definition OID_COMMON_NAME :: bytes where "OID_COMMON_NAME = [0x55, 0x04, 0x03]"
definition OID_SUBJECT_KEY_IDENTIFIER :: bytes where "OID_SUBJECT_KEY_IDENTIFIER = [0x55, 0x1d, 0x0e]"
definition OID_KEY_USAGE :: bytes where "OID_KEY_USAGE = [0x55, 0x1d, 0x0f]"
definition OID_SUBJECT_ALT_NAME :: bytes where "OID_SUBJECT_ALT_NAME = [0x55, 0x1d, 0x11]"
definition OID_BASIC_CONSTRAINTS :: bytes where "OID_BASIC_CONSTRAINTS = [0x55, 0x1d, 0x13]"
definition OID_AUTHORITY_KEY_IDENTIFIER :: bytes where "OID_AUTHORITY_KEY_IDENTIFIER = [0x55, 0x1d, 0x23]"
definition OID_EXTENDED_KEY_USAGE :: bytes where "OID_EXTENDED_KEY_USAGE = [0x55, 0x1d, 0x25]"
definition OID_SERVER_AUTH :: bytes where "OID_SERVER_AUTH = [0x2b, 0x06, 0x01, 0x05, 0x05, 0x07, 0x03, 0x01]"
definition OID_CLIENT_AUTH :: bytes where "OID_CLIENT_AUTH = [0x2b, 0x06, 0x01, 0x05, 0x05, 0x07, 0x03, 0x02]"
lemmas oid_defs =
  OID_RSA_ENCRYPTION_def OID_EC_PUBLIC_KEY_def OID_P256_def OID_P384_def
  OID_P521_def OID_ED25519_def OID_ED448_def OID_X25519_def
  OID_ECDSA_WITH_SHA256_def OID_ECDSA_WITH_SHA384_def OID_ML_DSA_44_def OID_ML_DSA_65_def
  OID_ML_DSA_87_def OID_EXTENSION_REQUEST_def OID_COMMON_NAME_def OID_SUBJECT_KEY_IDENTIFIER_def
  OID_KEY_USAGE_def OID_SUBJECT_ALT_NAME_def OID_BASIC_CONSTRAINTS_def OID_AUTHORITY_KEY_IDENTIFIER_def
  OID_EXTENDED_KEY_USAGE_def OID_SERVER_AUTH_def OID_CLIENT_AUTH_def

section \<open>The algorithms\<close>

datatype key_algorithm =
    KA_Rsa
  | KA_EcP256
  | KA_EcP384
  | KA_EcP521
  | KA_Ed25519
  | KA_Ed448
  | KA_X25519
  | KA_Unknown

fun key_algorithm_id :: "key_algorithm \<Rightarrow> string" where
  "key_algorithm_id KA_Rsa = ''rsa''"
| "key_algorithm_id KA_EcP256 = ''p256''"
| "key_algorithm_id KA_EcP384 = ''p384''"
| "key_algorithm_id KA_EcP521 = ''p521''"
| "key_algorithm_id KA_Ed25519 = ''ed25519''"
| "key_algorithm_id KA_Ed448 = ''ed448''"
| "key_algorithm_id KA_X25519 = ''x25519''"
| "key_algorithm_id KA_Unknown = ''unknown''"

fun public_key_len :: "key_algorithm \<Rightarrow> nat option" where
  "public_key_len KA_EcP256 = Some 65"
| "public_key_len KA_EcP384 = Some 97"
| "public_key_len KA_EcP521 = Some 133"
| "public_key_len KA_Ed25519 = Some 32"
| "public_key_len KA_X25519 = Some 32"
| "public_key_len KA_Ed448 = Some 57"
| "public_key_len KA_Rsa = None"
| "public_key_len KA_Unknown = None"

fun private_key_len :: "key_algorithm \<Rightarrow> nat option" where
  "private_key_len KA_EcP256 = Some 32"
| "private_key_len KA_EcP384 = Some 48"
| "private_key_len KA_EcP521 = Some 66"
| "private_key_len KA_Ed25519 = Some 32"
| "private_key_len KA_X25519 = Some 32"
| "private_key_len KA_Ed448 = Some 57"
| "private_key_len KA_Rsa = None"
| "private_key_len KA_Unknown = None"

definition curve_from_oid :: "bytes \<Rightarrow> key_algorithm" where
  "curve_from_oid oid =
     (if oid = OID_P256 then KA_EcP256
      else if oid = OID_P384 then KA_EcP384
      else if oid = OID_P521 then KA_EcP521
      else KA_Unknown)"

definition curve_oid :: "key_algorithm \<Rightarrow> bytes option" where
  "curve_oid alg =
     (case alg of KA_EcP256 \<Rightarrow> Some OID_P256 | KA_EcP384 \<Rightarrow> Some OID_P384 | KA_EcP521 \<Rightarrow> Some OID_P521
      | _ \<Rightarrow> None)"

lemma curve_oid_iff: "curve_oid alg = Some oid \<longleftrightarrow> alg \<noteq> KA_Unknown \<and> curve_from_oid oid = alg"
  by (cases alg) (auto simp: curve_oid_def curve_from_oid_def oid_defs)

section \<open>Dotted forms\<close>

text \<open>The encoding of an object identifier's arcs, from X.690 section 8.19.\<close>

fun arc_bytes :: "nat \<Rightarrow> bytes \<Rightarrow> bytes" where
  "arc_bytes n acc = (if n < 128 then of_nat n # acc else arc_bytes (n div 128) (of_nat (n mod 128) # acc))"

declare arc_bytes.simps [simp del]

definition mark_arc :: "bytes \<Rightarrow> bytes" where
  "mark_arc bs = map (\<lambda>b. 0x80 OR b) (butlast bs) @ [last bs]"

definition oid_of_arcs :: "nat list \<Rightarrow> bytes" where
  "oid_of_arcs arcs =
     of_nat (40 * arcs ! 0 + arcs ! 1) # concat (map (\<lambda>n. mark_arc (arc_bytes n [])) (drop 2 arcs))"

lemma oids_match_dotted_forms:
  "OID_RSA_ENCRYPTION = oid_of_arcs [1, 2, 840, 113549, 1, 1, 1]"
  "OID_EC_PUBLIC_KEY = oid_of_arcs [1, 2, 840, 10045, 2, 1]"
  "OID_P256 = oid_of_arcs [1, 2, 840, 10045, 3, 1, 7]"
  "OID_P384 = oid_of_arcs [1, 3, 132, 0, 34]"
  "OID_P521 = oid_of_arcs [1, 3, 132, 0, 35]"
  "OID_ED25519 = oid_of_arcs [1, 3, 101, 112]"
  "OID_ED448 = oid_of_arcs [1, 3, 101, 113]"
  "OID_X25519 = oid_of_arcs [1, 3, 101, 110]"
  "OID_ECDSA_WITH_SHA256 = oid_of_arcs [1, 2, 840, 10045, 4, 3, 2]"
  "OID_ECDSA_WITH_SHA384 = oid_of_arcs [1, 2, 840, 10045, 4, 3, 3]"
  "OID_ML_DSA_44 = oid_of_arcs [2, 16, 840, 1, 101, 3, 4, 3, 17]"
  "OID_ML_DSA_65 = oid_of_arcs [2, 16, 840, 1, 101, 3, 4, 3, 18]"
  "OID_ML_DSA_87 = oid_of_arcs [2, 16, 840, 1, 101, 3, 4, 3, 19]"
  "OID_EXTENSION_REQUEST = oid_of_arcs [1, 2, 840, 113549, 1, 9, 14]"
  "OID_COMMON_NAME = oid_of_arcs [2, 5, 4, 3]"
  "OID_SUBJECT_KEY_IDENTIFIER = oid_of_arcs [2, 5, 29, 14]"
  "OID_KEY_USAGE = oid_of_arcs [2, 5, 29, 15]"
  "OID_SUBJECT_ALT_NAME = oid_of_arcs [2, 5, 29, 17]"
  "OID_BASIC_CONSTRAINTS = oid_of_arcs [2, 5, 29, 19]"
  "OID_AUTHORITY_KEY_IDENTIFIER = oid_of_arcs [2, 5, 29, 35]"
  "OID_EXTENDED_KEY_USAGE = oid_of_arcs [2, 5, 29, 37]"
  "OID_SERVER_AUTH = oid_of_arcs [1, 3, 6, 1, 5, 5, 7, 3, 1]"
  "OID_CLIENT_AUTH = oid_of_arcs [1, 3, 6, 1, 5, 5, 7, 3, 2]"
  by (simp_all add: oid_defs oid_of_arcs_def mark_arc_def arc_bytes.simps)

end
