(* ===== verification/Pkix_Keys.thy ===== *)
theory Pkix_Keys
  imports Pkix_Der_Laws Pkix_Oid
begin

text \<open>
  ECDSA signatures and public keys as DER: \<open>crates/ic-pkix/src/ecdsa_signature.rs\<close> and
  \<open>public_key.rs\<close>. What a parser takes and what a writer gives are the same bytes.
\<close>

text \<open>A reader's operation with what it leaves of the reader.\<close>

definition stepped :: "'a result \<times> 's \<Rightarrow> ('a \<times> 's) result" where
  "stepped r = (case r of (Inl e, s) \<Rightarrow> Inl e | (Inr x, s) \<Rightarrow> Inr (x, s))"

lemma stepped_iff [simp]: "stepped r = Inr (x, s) \<longleftrightarrow> r = (Inr x, s)"
  by (cases r; cases "fst r") (auto simp: stepped_def)

lemma bind_result_iff: "bind_result r f = Inr y \<longleftrightarrow> (\<exists>x. r = Inr x \<and> f x = Inr y)"
  by (cases r) auto

section \<open>ECDSA signatures\<close>

definition ecdsa_to_der :: "bytes \<Rightarrow> bytes \<Rightarrow> (nat result \<times> bytes) option" where
  "ecdsa_to_der signature out =
     (if \<not> (signature \<noteq> [] \<and> length signature mod 2 = 0)
      then Some (Err InvalidLength ''ecdsa signature must be an even number of bytes'', out)
      else let r = take (length signature div 2) signature; s = drop (length signature div 2) signature
           in with_writer out (\<lambda>w.
                let start = writer_len w
                in then_write (then_write (push_unsigned_integer s w) (push_unsigned_integer r))
                     (push_wrapper SEQUENCE start)))"

text \<open>A component right-aligned in its half of the output.\<close>

definition fill_half :: "nat \<Rightarrow> bytes \<times> nat \<Rightarrow> unit result \<times> bytes \<Rightarrow> unit result \<times> bytes" where
  "fill_half field_len vh r = then_do r (\<lambda>_ out.
     case vh of (value, half) \<Rightarrow>
       if field_len < length value
       then (Err MalformedEncoding ''ecdsa signature component is too large for this curve'', out)
       else (Ok (), write_at (half * field_len) (replicate (field_len - length value) 0 @ value) out))"

definition ecdsa_parts :: "bytes \<Rightarrow> (bytes \<times> bytes) result" where
  "ecdsa_parts input =
     bind_result (stepped (read_sequence (reader_new input))) (\<lambda>(seq, outer).
     bind_result (reader_finish outer) (\<lambda>_.
     bind_result (stepped (unsigned_integer seq)) (\<lambda>(r, seq).
     bind_result (stepped (unsigned_integer seq)) (\<lambda>(s, seq).
     bind_result (reader_finish seq) (\<lambda>_. Ok (r, s))))))"

definition ecdsa_from_der :: "bytes \<Rightarrow> bytes \<Rightarrow> unit result \<times> bytes" where
  "ecdsa_from_der input out =
     (if \<not> (out \<noteq> [] \<and> length out mod 2 = 0)
      then (Err InvalidLength ''ecdsa signature buffer must be an even number of bytes'', out)
      else case ecdsa_parts input of
             Inl e \<Rightarrow> (Inl e, out)
           | Inr (r, s) \<Rightarrow> fold (fill_half (length out div 2)) [(r, 0), (s, 1)] (Ok (), out))"

definition max_der_len :: "nat \<Rightarrow> nat" where
  "max_der_len signature_len =
     (let half = signature_len div 2;
          content = 2 * (2 + half + 1);
          header = if content < 128 then 2 else 3
      in header + content)"

section \<open>Public keys\<close>

datatype public_key_info =
    PK_Rsa bytes u64
  | PK_Ec key_algorithm bytes
  | PK_Ed25519 bytes
  | PK_Ed448 bytes
  | PK_X25519 bytes
  | PK_Unsupported bytes

fun pk_algorithm :: "public_key_info \<Rightarrow> key_algorithm" where
  "pk_algorithm (PK_Rsa m e) = KA_Rsa"
| "pk_algorithm (PK_Ec a p) = a"
| "pk_algorithm (PK_Ed25519 k) = KA_Ed25519"
| "pk_algorithm (PK_Ed448 k) = KA_Ed448"
| "pk_algorithm (PK_X25519 k) = KA_X25519"
| "pk_algorithm (PK_Unsupported oid) = KA_Unknown"

definition parse_rsa_public_key :: "bytes \<Rightarrow> (bytes \<times> u64) result" where
  "parse_rsa_public_key input =
     bind_result (stepped (read_sequence (reader_new input))) (\<lambda>(seq, outer).
     bind_result (reader_finish outer) (\<lambda>_.
     bind_result (stepped (unsigned_integer seq)) (\<lambda>(modulus, seq).
     bind_result (stepped (unsigned_integer_u64 seq)) (\<lambda>(exponent, seq).
     bind_result (reader_finish seq) (\<lambda>_.
       if modulus = [] then Err MalformedEncoding ''empty rsa modulus'' else Ok (modulus, exponent))))))"

definition push_rsa_public_key :: "bytes \<Rightarrow> u64 \<Rightarrow> writer \<Rightarrow> wrote" where
  "push_rsa_public_key modulus exponent w =
     (let start = writer_len w
      in then_write (then_write (push_unsigned_u64 exponent w) (push_unsigned_integer modulus))
           (push_wrapper SEQUENCE start))"

definition write_rsa_public_key :: "bytes \<Rightarrow> u64 \<Rightarrow> bytes \<Rightarrow> (nat result \<times> bytes) option" where
  "write_rsa_public_key modulus exponent out = with_writer out (push_rsa_public_key modulus exponent)"

text \<open>The fields every \<open>SubjectPublicKeyInfo\<close> has; the reader is at the parameters.\<close>

definition spki_parts :: "bytes \<Rightarrow> (bytes \<times> reader \<times> bytes) result" where
  "spki_parts input =
     bind_result (stepped (read_sequence (reader_new input))) (\<lambda>(spki, outer).
     bind_result (reader_finish outer) (\<lambda>_.
     bind_result (stepped (read_sequence spki)) (\<lambda>(alg, spki).
     bind_result (stepped (read_oid alg)) (\<lambda>(algorithm_oid, alg).
     bind_result (stepped (read_bit_string spki)) (\<lambda>(key_bits, spki).
     bind_result (reader_finish spki) (\<lambda>_. Ok (algorithm_oid, alg, key_bits)))))))"

definition ensure_that :: "bool \<Rightarrow> error_kind \<Rightarrow> string \<Rightarrow> unit result" where
  "ensure_that b k c = (if b then Ok () else Err k c)"

lemma ensure_iff [simp]: "ensure_that b k c = Inr u \<longleftrightarrow> b"
  by (simp add: ensure_that_def)

definition pk_from_der :: "bytes \<Rightarrow> public_key_info result" where
  "pk_from_der input = bind_result (spki_parts input) (\<lambda>(algorithm_oid, alg, key_bits).
     if algorithm_oid = OID_RSA_ENCRYPTION then
       bind_result (stepped (read_null alg)) (\<lambda>(_, alg).
       bind_result (reader_finish alg) (\<lambda>_.
       bind_result (parse_rsa_public_key key_bits) (\<lambda>(modulus, exponent). Ok (PK_Rsa modulus exponent))))
     else if algorithm_oid = OID_EC_PUBLIC_KEY then
       bind_result (stepped (read_oid alg)) (\<lambda>(curve, alg).
       bind_result (reader_finish alg) (\<lambda>_.
       let algorithm = curve_from_oid curve
       in if algorithm = KA_Unknown then Ok (PK_Unsupported curve)
          else
            bind_result (ensure_that (key_bits \<noteq> []) MalformedEncoding ''empty ec point'') (\<lambda>_.
            bind_result (ensure_that (key_bits ! 0 = 0x04) Unsupported ''compressed ec point'') (\<lambda>_.
            bind_result (ensure_that (Some (length key_bits) = public_key_len algorithm) MalformedEncoding
              ''ec point has the wrong length for its curve'') (\<lambda>_. Ok (PK_Ec algorithm key_bits))))))
     else if algorithm_oid = OID_ED25519 \<or> algorithm_oid = OID_X25519 then
       bind_result (reader_finish alg) (\<lambda>_.
       bind_result (ensure_that (length key_bits = 32) MalformedEncoding ''curve25519 key length'') (\<lambda>_.
       Ok (if algorithm_oid = OID_ED25519 then PK_Ed25519 key_bits else PK_X25519 key_bits)))
     else if algorithm_oid = OID_ED448 then
       bind_result (reader_finish alg) (\<lambda>_.
       bind_result (ensure_that (length key_bits = 57) MalformedEncoding ''ed448 key length'') (\<lambda>_.
       Ok (PK_Ed448 key_bits)))
     else Ok (PK_Unsupported algorithm_oid))"

text \<open>The algorithm identifier, whose fields are pushed last first.\<close>

definition push_algorithm :: "(writer \<Rightarrow> wrote) \<Rightarrow> writer \<Rightarrow> wrote" where
  "push_algorithm items w = (let alg_start = writer_len w in then_write (items w) (push_wrapper SEQUENCE alg_start))"

definition refuse :: "error_kind \<Rightarrow> string \<Rightarrow> writer \<Rightarrow> wrote" where
  "refuse k c w = Some (Err k c, w)"

definition push_public_key :: "public_key_info \<Rightarrow> writer \<Rightarrow> wrote" where
  "push_public_key key w =
     (case key of
        PK_Rsa m e \<Rightarrow>
          (let key_start = writer_len w
           in then_write (then_write (push_rsa_public_key m e w) (\<lambda>w.
                let key_len = writer_len w - key_start
                in then_write (push [0] w) (push_header BIT_STRING (key_len + 1))))
              (push_algorithm (\<lambda>w. then_write (push_null w) (push_oid OID_RSA_ENCRYPTION))))
      | PK_Ec a point \<Rightarrow>
          (case curve_oid a of
             None \<Rightarrow> refuse Unsupported ''not a named curve'' w
           | Some curve \<Rightarrow> then_write (push_bit_string point w)
               (push_algorithm (\<lambda>w. then_write (push_oid curve w) (push_oid OID_EC_PUBLIC_KEY))))
      | PK_Ed25519 k \<Rightarrow>
          (if length k \<noteq> 32 then refuse InvalidLength ''curve25519 key length'' w
           else then_write (push_bit_string k w) (push_algorithm (push_oid OID_ED25519)))
      | PK_X25519 k \<Rightarrow>
          (if length k \<noteq> 32 then refuse InvalidLength ''curve25519 key length'' w
           else then_write (push_bit_string k w) (push_algorithm (push_oid OID_X25519)))
      | PK_Ed448 k \<Rightarrow>
          (if length k \<noteq> 57 then refuse InvalidLength ''ed448 key length'' w
           else then_write (push_bit_string k w) (push_algorithm (push_oid OID_ED448)))
      | PK_Unsupported oid \<Rightarrow> refuse Unsupported ''cannot re-serialize an unrecognized key'' w)"

definition pk_to_der :: "public_key_info \<Rightarrow> bytes \<Rightarrow> (nat result \<times> bytes) option" where
  "pk_to_der key out = with_writer out (\<lambda>w.
     let start = writer_len w in then_write (push_public_key key w) (push_wrapper SEQUENCE start))"

section \<open>Whole inputs\<close>

lemma whole_iff: "prefix a xs \<and> drop (length a) xs = [] \<longleftrightarrow> xs = a"
  by (auto simp: prefix_def)

lemma whole2_iff:
  "prefix a xs \<and> prefix b (drop (length a) xs) \<and> drop (length a + length b) xs = [] \<longleftrightarrow> xs = a @ b"
  by (auto simp: prefix_def)

lemma finish_any: "reader_finish r = Inr u \<longleftrightarrow> remaining r = []"
  using finish_iff [of r] by (cases u) simp

lemma top_sequence:
  "(\<exists>outer. read_sequence (reader_new input) = (Ok seq, outer) \<and> remaining outer = []) \<longleftrightarrow>
   (\<exists>c. input = der_element SEQUENCE c \<and> der_fits (length c) \<and> seq = reader_new c)"
proof
  assume "\<exists>c. input = der_element SEQUENCE c \<and> der_fits (length c) \<and> seq = reader_new c"
  then show "\<exists>outer. read_sequence (reader_new input) = (Ok seq, outer) \<and> remaining outer = []"
    unfolding accepts_sequence by (intro exI [of _ "skip_bytes (length input) (reader_new input)"]) auto
qed (unfold accepts_sequence, auto simp: prefix_def)

text \<open>Two elements and nothing else.\<close>

lemma two_fields:
  assumes "accepts f P E" "accepts g Q D"
  shows "(\<exists>r1 r2. f (reader_new c) = (Ok x, r1) \<and> g r1 = (Ok y, r2) \<and> remaining r2 = []) \<longleftrightarrow>
    P x \<and> Q y \<and> c = E x @ D y"
  unfolding acceptsD [OF assms(1)] acceptsD [OF assms(2)] using whole2_iff [of "E x" c "D y"] by auto

lemma der_element_fits: "der_fits (length (der_element tag c)) \<Longrightarrow> der_fits (length c)"
  using der_fits_mono [of "length c" "length (der_element tag c)"] by (simp add: der_element_def)

lemma fits_append: "der_fits (length (a @ b)) \<Longrightarrow> der_fits (length a) \<and> der_fits (length b)"
  using der_fits_mono by (metis le_add1 le_add2 length_append)

section \<open>Signatures\<close>

definition ecdsa_der :: "bytes \<Rightarrow> bytes" where
  "ecdsa_der signature =
     der_element SEQUENCE
       (der_unsigned (minimal_of (take (length signature div 2) signature)) @
        der_unsigned (minimal_of (drop (length signature div 2) signature)))"

lemma writes_ecdsa:
  assumes "signature \<noteq> []" "even (length signature)"
  shows "ecdsa_to_der signature out = with_writer out (\<lambda>w.
      then_write (then_write (push_unsigned_integer (drop (length signature div 2) signature) w)
        (push_unsigned_integer (take (length signature div 2) signature))) (push_wrapper SEQUENCE (writer_len w)))"
    "writes (\<lambda>w. then_write (then_write (push_unsigned_integer (drop (length signature div 2) signature) w)
        (push_unsigned_integer (take (length signature div 2) signature))) (push_wrapper SEQUENCE (writer_len w)))
      (ecdsa_der signature)"
proof -
  show "writes (\<lambda>w. then_write (then_write (push_unsigned_integer (drop (length signature div 2) signature) w)
        (push_unsigned_integer (take (length signature div 2) signature))) (push_wrapper SEQUENCE (writer_len w)))
      (ecdsa_der signature)"
    unfolding ecdsa_der_def by (rule writes_wrapper [OF writes_then [OF writes_unsigned writes_unsigned]])
qed (use assms in \<open>auto simp: ecdsa_to_der_def Let_def even_iff_mod_2_eq_zero\<close>)

text \<open>A component that fits its half is read from exactly one encoding.\<close>

definition right_aligned :: "nat \<Rightarrow> bytes \<Rightarrow> bytes" where
  "right_aligned n v = replicate (n - length v) 0 @ v"

lemma right_aligned_minimal_of: "v \<noteq> [] \<Longrightarrow> right_aligned (length v) (minimal_of v) = v"
proof -
  assume "v \<noteq> []"
  then obtain k where k: "v = replicate k 0 @ minimal_of v"
    using zeros_minimal_of by blast
  then have "length v = k + length (minimal_of v)"
    by (metis length_append length_replicate)
  then show ?thesis
    using k by (simp add: right_aligned_def)
qed

lemma length_minimal_of: "v \<noteq> [] \<Longrightarrow> length (minimal_of v) \<le> length v"
  using right_aligned_minimal_of [of v] by (metis le_cases length_append diff_is_0_eq replicate_0 append_Nil right_aligned_def)

lemma fill_halves:
  assumes "length out = 2 * n"
  shows "fold (fill_half n) [(r, 0), (s, 1)] (Ok (), out) = (Ok (), out') \<longleftrightarrow>
    length r \<le> n \<and> length s \<le> n \<and> out' = right_aligned n r @ right_aligned n s"
proof (cases "length r \<le> n \<and> length s \<le> n")
  case True
  then have l: "length (right_aligned n r) = n" "length (right_aligned n s) = n"
    by (simp_all add: right_aligned_def)
  have "fold (fill_half n) [(r, 0), (s, 1)] (Ok (), out) =
      (Ok (), write_at n (right_aligned n s) (write_at 0 (right_aligned n r) out))"
    using True by (simp add: fill_half_def then_do_def right_aligned_def)
  also have "\<dots> = (Ok (), right_aligned n r @ right_aligned n s)"
    using assms l by (simp add: write_at_def)
  finally show ?thesis
    using True by auto
qed (auto simp: fill_half_def then_do_def)

text \<open>A sequence of two fields as the whole input.\<close>

lemma pair_parsed:
  assumes "accepts f P E" "accepts g Q D"
  shows "bind_result (stepped (read_sequence (reader_new input))) (\<lambda>(seq, outer).
     bind_result (reader_finish outer) (\<lambda>_.
     bind_result (stepped (f seq)) (\<lambda>(x, seq).
     bind_result (stepped (g seq)) (\<lambda>(y, seq).
     bind_result (reader_finish seq) (\<lambda>_. h x y))))) = Inr z \<longleftrightarrow>
   (\<exists>x y. input = der_element SEQUENCE (E x @ D y) \<and> der_fits (length (E x @ D y)) \<and> P x \<and> Q y \<and> h x y = Inr z)"
    (is "?L \<longleftrightarrow> ?R")
proof -
  have "?L \<longleftrightarrow> (\<exists>seq. (\<exists>outer. read_sequence (reader_new input) = (Ok seq, outer) \<and> remaining outer = []) \<and>
     (\<exists>x y. (\<exists>r1 r2. f seq = (Ok x, r1) \<and> g r1 = (Ok y, r2) \<and> remaining r2 = []) \<and> h x y = Inr z))"
    by (auto simp: bind_result_iff finish_any)
  also have "\<dots> \<longleftrightarrow> (\<exists>c. input = der_element SEQUENCE c \<and> der_fits (length c) \<and>
     (\<exists>x y. (P x \<and> Q y \<and> c = E x @ D y) \<and> h x y = Inr z))"
    unfolding top_sequence two_fields [OF assms, symmetric] by auto
  also have "\<dots> \<longleftrightarrow> ?R"
    by blast
  finally show ?thesis .
qed

lemma ecdsa_parsed:
  "ecdsa_from_der input out = (Ok (), out') \<longleftrightarrow>
   out \<noteq> [] \<and> even (length out) \<and>
   (\<exists>r s. input = der_element SEQUENCE (der_unsigned r @ der_unsigned s) \<and> der_fits (length (der_unsigned r @ der_unsigned s)) \<and>
      integer_ok r \<and> integer_ok s \<and> length r \<le> length out div 2 \<and> length s \<le> length out div 2 \<and>
      out' = right_aligned (length out div 2) r @ right_aligned (length out div 2) s)"
proof (cases "out \<noteq> [] \<and> even (length out)")
  case True
  then have l: "length out = 2 * (length out div 2)"
    by simp
  have p: "ecdsa_parts input = Inr (r, s) \<longleftrightarrow> input = der_element SEQUENCE (der_unsigned r @ der_unsigned s) \<and>
      der_fits (length (der_unsigned r @ der_unsigned s)) \<and> integer_ok r \<and> integer_ok s" for r s
    unfolding ecdsa_parts_def pair_parsed [OF accepts_unsigned accepts_unsigned] by auto
  have "ecdsa_from_der input out = (Ok (), out') \<longleftrightarrow> (\<exists>r s. ecdsa_parts input = Inr (r, s) \<and>
      fold (fill_half (length out div 2)) [(r, 0), (s, 1)] (Ok (), out) = (Ok (), out'))"
    using True by (cases "ecdsa_parts input") (auto simp: ecdsa_from_der_def even_iff_mod_2_eq_zero)
  then show ?thesis
    unfolding p fill_halves [OF l] using True by blast
qed (auto simp: ecdsa_from_der_def even_iff_mod_2_eq_zero)

lemma integer_ok_minimal_of:
  assumes "v \<noteq> []" "der_fits (length v + 1)"
  shows "integer_ok (minimal_of v)"
  using der_fits_mono [OF _ assms(2), of "length (minimal_of v) + of_bool (hd (minimal_of v) AND 0x80 \<noteq> 0)"]
    length_minimal_of [OF assms(1)] by (simp add: integer_ok_def minimal_minimal_of of_bool_def)

lemma halves:
  assumes "signature \<noteq> []" "even (length signature)"
  shows "take (length signature div 2) signature \<noteq> []" "drop (length signature div 2) signature \<noteq> []"
    "length (take (length signature div 2) signature) = length signature div 2"
    "length (drop (length signature div 2) signature) = length signature div 2"
proof -
  have "0 < length signature" "length signature = 2 * (length signature div 2)"
    using assms by simp_all
  then show "length (take (length signature div 2) signature) = length signature div 2"
    "length (drop (length signature div 2) signature) = length signature div 2"
    by simp_all
  with \<open>0 < length signature\<close> \<open>length signature = 2 * (length signature div 2)\<close>
  show "take (length signature div 2) signature \<noteq> []" "drop (length signature div 2) signature \<noteq> []"
    by force+
qed

text \<open>The encoding of a signature comes back as the signature, and nothing else does.\<close>

lemma aligned_halves:
  assumes "length r \<le> n" "length s \<le> n" "signature = right_aligned n r @ right_aligned n s"
  shows "take n signature = right_aligned n r" "drop n signature = right_aligned n s"
  using assms by (simp_all add: right_aligned_def)

lemma ecdsa_from_der_iff:
  assumes l: "length out = length signature" and f: "der_fits (length signature)" "der_fits (length input)"
  shows "ecdsa_from_der input out = (Ok (), signature) \<longleftrightarrow>
    signature \<noteq> [] \<and> even (length signature) \<and> input = ecdsa_der signature"
proof (cases "signature \<noteq> [] \<and> even (length signature)")
  case True
  let ?n = "length signature div 2"
  let ?r = "take ?n signature" and ?s = "drop ?n signature"
  note h = halves [OF conjunct1 [OF True] conjunct2 [OF True]]
  have "?n + 1 \<le> length signature"
    using True h(1,3) by (metis add_le_mono dvd_mult_div_cancel length_greater_0_conv less_eq_Suc_le mult_2 One_nat_def le_refl)
  then have "der_fits (length ?r + 1)" "der_fits (length ?s + 1)"
    unfolding h(3,4) using f(1) der_fits_mono [of "?n + 1"] by blast+
  then have ok: "integer_ok (minimal_of ?r)" "integer_ok (minimal_of ?s)"
    using integer_ok_minimal_of h by blast+
  have m: "r = minimal_of ?r \<and> s = minimal_of ?s"
    if "signature = right_aligned ?n r @ right_aligned ?n s" "length r \<le> ?n" "length s \<le> ?n" "minimal r" "minimal s" for r s
  proof -
    have "?r = right_aligned ?n r" "?s = right_aligned ?n s"
      using aligned_halves [OF that(2,3,1)] by simp_all
    then show ?thesis
      using that minimal_of_zeros by (simp add: right_aligned_def)
  qed
  have e: "signature = right_aligned ?n (minimal_of ?r) @ right_aligned ?n (minimal_of ?s)"
    using right_aligned_minimal_of [OF h(1), unfolded h(3)] right_aligned_minimal_of [OF h(2), unfolded h(4)] by simp
  have s: "length (minimal_of ?r) \<le> ?n" "length (minimal_of ?s) \<le> ?n"
    using length_minimal_of [OF h(1), unfolded h(3)] length_minimal_of [OF h(2), unfolded h(4)] .
  have out: "out \<noteq> [] \<and> even (length out)"
    using True l by (cases out) auto
  show ?thesis
  proof
    assume "ecdsa_from_der input out = (Ok (), signature)"
    then obtain r s where "input = der_element SEQUENCE (der_unsigned r @ der_unsigned s)" "integer_ok r" "integer_ok s"
      "length r \<le> ?n" "length s \<le> ?n" "signature = right_aligned ?n r @ right_aligned ?n s"
      unfolding ecdsa_parsed l by blast
    then show "signature \<noteq> [] \<and> even (length signature) \<and> input = ecdsa_der signature"
      using m [of r s] True by (simp add: ecdsa_der_def integer_ok_def)
  next
    assume "signature \<noteq> [] \<and> even (length signature) \<and> input = ecdsa_der signature"
    moreover have "der_fits (length (der_unsigned (minimal_of ?r) @ der_unsigned (minimal_of ?s)))"
      by (rule der_element_fits [of SEQUENCE]) (use f(2) calculation in \<open>simp add: ecdsa_der_def\<close>)
    ultimately show "ecdsa_from_der input out = (Ok (), signature)"
      unfolding ecdsa_parsed l using out ok e s by (auto simp: ecdsa_der_def l)
  qed
next
  case False
  then show ?thesis
    using l by (auto simp: ecdsa_parsed)
qed

section \<open>Public keys\<close>

definition der_algorithm :: "bytes \<Rightarrow> bytes \<Rightarrow> bytes" where
  "der_algorithm oid params = der_element SEQUENCE (der_element OID oid @ params)"

definition der_rsa_key :: "bytes \<Rightarrow> u64 \<Rightarrow> bytes" where
  "der_rsa_key m e = der_element SEQUENCE (der_unsigned (minimal_of m) @ der_unsigned (u64_octets e))"

definition der_spki :: "bytes \<Rightarrow> bytes \<Rightarrow> bytes \<Rightarrow> bytes" where
  "der_spki oid params bits = der_element SEQUENCE (der_algorithm oid params @ der_bit_string bits)"

definition pk_der :: "public_key_info \<Rightarrow> bytes" where
  "pk_der key =
     (case key of
        PK_Rsa m e \<Rightarrow> der_spki OID_RSA_ENCRYPTION (der_element NULL []) (der_rsa_key m e)
      | PK_Ec a point \<Rightarrow> der_spki OID_EC_PUBLIC_KEY (der_element OID (the (curve_oid a))) point
      | PK_Ed25519 k \<Rightarrow> der_spki OID_ED25519 [] k
      | PK_X25519 k \<Rightarrow> der_spki OID_X25519 [] k
      | PK_Ed448 k \<Rightarrow> der_spki OID_ED448 [] k
      | PK_Unsupported oid \<Rightarrow> [])"

text \<open>A key whose fields have the form its algorithm asks for.\<close>

fun pk_ok :: "public_key_info \<Rightarrow> bool" where
  "pk_ok (PK_Rsa m e) = minimal m"
| "pk_ok (PK_Ec a point) = (curve_oid a \<noteq> None \<and> Some (length point) = public_key_len a \<and> point ! 0 = 4)"
| "pk_ok (PK_Ed25519 k) = (length k = 32)"
| "pk_ok (PK_X25519 k) = (length k = 32)"
| "pk_ok (PK_Ed448 k) = (length k = 57)"
| "pk_ok (PK_Unsupported oid) = False"

lemma read_sequence_expect:
  "read_sequence r = (Ok n, r') \<longleftrightarrow> (\<exists>c. n = reader_new c \<and> read_expect SEQUENCE r = (Ok c, r'))"
  by (auto simp: read_sequence_def expect_nested_def then_do_Ok)

lemma read_oid_new:
  "read_oid (reader_new d) = (Ok oid, alg) \<longleftrightarrow>
   (\<exists>params. d = der_element OID oid @ params \<and> oid_ok oid \<and>
      alg = skip_bytes (length (der_element OID oid)) (reader_new (der_element OID oid @ params)))"
  by (auto simp: acceptsD [OF accepts_oid] prefix_def)

lemma spki_parts_iff:
  "spki_parts input = Inr (oid, alg, bits) \<longleftrightarrow>
   (\<exists>params. input = der_spki oid params bits \<and> der_fits (length (der_algorithm oid params @ der_bit_string bits)) \<and>
      oid_ok oid \<and> alg = skip_bytes (length (der_element OID oid)) (reader_new (der_element OID oid @ params)))"
proof -
  have "spki_parts input = Inr (oid, alg, bits) \<longleftrightarrow>
    (\<exists>spki. (\<exists>outer. read_sequence (reader_new input) = (Ok spki, outer) \<and> remaining outer = []) \<and>
       (\<exists>d. (\<exists>r1 r2. read_expect SEQUENCE spki = (Ok d, r1) \<and> read_bit_string r1 = (Ok bits, r2) \<and> remaining r2 = []) \<and>
         read_oid (reader_new d) = (Ok oid, alg)))"
    by (auto simp: spki_parts_def bind_result_iff finish_any read_sequence_expect)
  also have "\<dots> \<longleftrightarrow> (\<exists>c. input = der_element SEQUENCE c \<and> der_fits (length c) \<and>
      (\<exists>d. (der_fits (length d) \<and> der_fits (length bits + 1) \<and> c = der_element SEQUENCE d @ der_bit_string bits) \<and>
         read_oid (reader_new d) = (Ok oid, alg)))"
    unfolding top_sequence two_fields [OF accepts_expect accepts_bit_string, symmetric] by auto
  also have "\<dots> \<longleftrightarrow> (\<exists>params. input = der_spki oid params bits \<and>
      der_fits (length (der_algorithm oid params @ der_bit_string bits)) \<and>
      oid_ok oid \<and> alg = skip_bytes (length (der_element OID oid)) (reader_new (der_element OID oid @ params)))"
    (is "?L \<longleftrightarrow> ?R")
  proof
    assume ?L
    then show ?R
      unfolding read_oid_new by (auto simp: der_spki_def der_algorithm_def)
  next
    assume ?R
    then obtain params where p: "input = der_spki oid params bits"
      "der_fits (length (der_algorithm oid params @ der_bit_string bits))" "oid_ok oid"
      "alg = skip_bytes (length (der_element OID oid)) (reader_new (der_element OID oid @ params))"
      by blast
    let ?d = "der_element OID oid @ params"
    have "der_fits (length ?d)" "der_fits (length (0 # bits))"
      using fits_append [OF p(2)] der_element_fits [of SEQUENCE ?d] der_element_fits [of BIT_STRING "0 # bits"]
      by (simp_all add: der_algorithm_def der_bit_string_def)
    then show ?L
      using p by (intro exI [of _ "der_algorithm oid params @ der_bit_string bits"] conjI exI [of _ ?d])
        (auto simp: read_oid_new der_spki_def der_algorithm_def)
  qed
  finally show ?thesis .
qed

lemma rsa_key_parsed:
  "parse_rsa_public_key bits = Inr (m, e) \<longleftrightarrow>
   bits = der_rsa_key m e \<and> der_fits (length (der_unsigned m @ der_unsigned (u64_octets e))) \<and> integer_ok m"
proof -
  have "parse_rsa_public_key bits = Inr (m, e) \<longleftrightarrow>
    (\<exists>x y. bits = der_element SEQUENCE (der_unsigned x @ der_unsigned (u64_octets y)) \<and>
       der_fits (length (der_unsigned x @ der_unsigned (u64_octets y))) \<and> integer_ok x \<and> True \<and>
       (if x = [] then Err MalformedEncoding ''empty rsa modulus'' else Ok (x, y)) = Inr (m, e))"
    unfolding parse_rsa_public_key_def by (rule pair_parsed [OF accepts_unsigned accepts_u64])
  also have "\<dots> \<longleftrightarrow> bits = der_element SEQUENCE (der_unsigned m @ der_unsigned (u64_octets e)) \<and>
      der_fits (length (der_unsigned m @ der_unsigned (u64_octets e))) \<and> integer_ok m \<and> m \<noteq> []"
    (is "(\<exists>x y. ?A x y) \<longleftrightarrow> ?B")
  proof
    assume "\<exists>x y. ?A x y"
    then obtain x y where A: "?A x y" by blast
    then have "x = m" "y = e" "x \<noteq> []"
      by (cases "x = []", simp_all)+
    then show ?B
      using A by blast
  next
    assume ?B
    then show "\<exists>x y. ?A x y"
      by (intro exI [of _ m] exI [of _ e]) simp
  qed
  finally show ?thesis
  proof (cases "integer_ok m")
    case True
    then have "m \<noteq> []" "minimal_of m = m"
      by (auto simp: integer_ok_def minimal_def intro!: minimal_of_minimal)
    moreover assume "parse_rsa_public_key bits = Inr (m, e) \<longleftrightarrow>
      bits = der_element SEQUENCE (der_unsigned m @ der_unsigned (u64_octets e)) \<and>
      der_fits (length (der_unsigned m @ der_unsigned (u64_octets e))) \<and> integer_ok m \<and> m \<noteq> []"
    ultimately show ?thesis
      unfolding der_rsa_key_def by metis
  qed simp
qed

text \<open>What is left of the algorithm identifier after its first field.\<close>

lemma at_params: "remaining (skip_bytes (length a) (reader_new (a @ params))) = params"
  by simp

lemma oid_params:
  "(\<exists>alg'. read_oid alg = (Ok curve, alg') \<and> remaining alg' = []) \<longleftrightarrow>
   oid_ok curve \<and> remaining alg = der_element OID curve"
  unfolding acceptsD [OF accepts_oid] using whole_iff [of "der_element OID curve" "remaining alg"] by auto

lemma null_params:
  "(\<exists>alg'. read_null alg = (Ok u, alg') \<and> remaining alg' = []) \<longleftrightarrow> remaining alg = der_element NULL []"
  unfolding acceptsD [OF accepts_null] using whole_iff [of "der_element NULL []" "remaining alg"] by auto

lemma curve_ok: "oid_ok OID_P256" "oid_ok OID_P384" "oid_ok OID_P521" "oid_ok OID_RSA_ENCRYPTION"
  "oid_ok OID_EC_PUBLIC_KEY" "oid_ok OID_ED25519" "oid_ok OID_X25519" "oid_ok OID_ED448"
  by (simp_all add: oid_ok_def oid_defs)

lemma oids_distinct:
  "OID_EC_PUBLIC_KEY \<noteq> OID_RSA_ENCRYPTION" "OID_ED25519 \<noteq> OID_RSA_ENCRYPTION" "OID_X25519 \<noteq> OID_RSA_ENCRYPTION"
  "OID_ED448 \<noteq> OID_RSA_ENCRYPTION" "OID_ED25519 \<noteq> OID_EC_PUBLIC_KEY" "OID_X25519 \<noteq> OID_EC_PUBLIC_KEY"
  "OID_ED448 \<noteq> OID_EC_PUBLIC_KEY" "OID_X25519 \<noteq> OID_ED25519" "OID_ED448 \<noteq> OID_ED25519" "OID_ED448 \<noteq> OID_X25519"
  by (simp_all add: oid_defs)

lemma pk_from_der_parts:
  assumes "spki_parts input = Inr (oid, alg, bits)"
  shows "pk_from_der input =
    (if oid = OID_RSA_ENCRYPTION then
       bind_result (stepped (read_null alg)) (\<lambda>(_, alg).
       bind_result (reader_finish alg) (\<lambda>_.
       bind_result (parse_rsa_public_key bits) (\<lambda>(modulus, exponent). Ok (PK_Rsa modulus exponent))))
     else if oid = OID_EC_PUBLIC_KEY then
       bind_result (stepped (read_oid alg)) (\<lambda>(curve, alg).
       bind_result (reader_finish alg) (\<lambda>_.
       let algorithm = curve_from_oid curve
       in if algorithm = KA_Unknown then Ok (PK_Unsupported curve)
          else
            bind_result (ensure_that (bits \<noteq> []) MalformedEncoding ''empty ec point'') (\<lambda>_.
            bind_result (ensure_that (bits ! 0 = 0x04) Unsupported ''compressed ec point'') (\<lambda>_.
            bind_result (ensure_that (Some (length bits) = public_key_len algorithm) MalformedEncoding
              ''ec point has the wrong length for its curve'') (\<lambda>_. Ok (PK_Ec algorithm bits))))))
     else if oid = OID_ED25519 \<or> oid = OID_X25519 then
       bind_result (reader_finish alg) (\<lambda>_.
       bind_result (ensure_that (length bits = 32) MalformedEncoding ''curve25519 key length'') (\<lambda>_.
       Ok (if oid = OID_ED25519 then PK_Ed25519 bits else PK_X25519 bits)))
     else if oid = OID_ED448 then
       bind_result (reader_finish alg) (\<lambda>_.
       bind_result (ensure_that (length bits = 57) MalformedEncoding ''ed448 key length'') (\<lambda>_.
       Ok (PK_Ed448 bits)))
     else Ok (PK_Unsupported oid))"
  by (simp add: pk_from_der_def assms)

text \<open>What the parser accepts is the encoding of what it returns.\<close>

lemma pk_from_der_sound:
  assumes "pk_from_der input = Inr k" "\<And>oid. k \<noteq> PK_Unsupported oid"
  shows "pk_ok k \<and> input = pk_der k"
proof -
  obtain oid alg bits where parts: "spki_parts input = Inr (oid, alg, bits)"
    using assms(1) by (auto simp: pk_from_der_def bind_result_iff)
  then obtain params where input: "input = der_spki oid params bits" and alg: "remaining alg = params"
    unfolding spki_parts_iff by auto
  note k = assms(1) [unfolded pk_from_der_parts [OF parts]]
  consider "oid = OID_RSA_ENCRYPTION" | "oid = OID_EC_PUBLIC_KEY" | "oid = OID_ED25519" | "oid = OID_X25519" | "oid = OID_ED448"
    using k assms(2) by (auto split: if_splits)
  then show ?thesis
  proof cases
    case 1
    then obtain alg' m e where "read_null alg = (Ok (), alg')" "remaining alg' = []"
      and p: "parse_rsa_public_key bits = Inr (m, e)" and kk: "k = PK_Rsa m e"
      using k by (auto simp: bind_result_iff finish_any)
    then have "params = der_element NULL []"
      using null_params [of alg "()"] alg by auto
    then show ?thesis
      using input p kk 1 by (simp add: rsa_key_parsed pk_der_def integer_ok_def)
  next
    case 2
    then have k2: "bind_result (stepped (read_oid alg)) (\<lambda>(curve, alg).
       bind_result (reader_finish alg) (\<lambda>_.
       let algorithm = curve_from_oid curve
       in if algorithm = KA_Unknown then Ok (PK_Unsupported curve)
          else
            bind_result (ensure_that (bits \<noteq> []) MalformedEncoding ''empty ec point'') (\<lambda>_.
            bind_result (ensure_that (bits ! 0 = 0x04) Unsupported ''compressed ec point'') (\<lambda>_.
            bind_result (ensure_that (Some (length bits) = public_key_len algorithm) MalformedEncoding
              ''ec point has the wrong length for its curve'') (\<lambda>_. Ok (PK_Ec algorithm bits)))))) = Inr k"
      using k oids_distinct(1) by simp
    then obtain curve alg' where r: "read_oid alg = (Ok curve, alg')" "remaining alg' = []"
      and c: "curve_from_oid curve \<noteq> KA_Unknown" "k = PK_Ec (curve_from_oid curve) bits" "bits ! 0 = 4"
        "Some (length bits) = public_key_len (curve_from_oid curve)"
      using assms(2) by (auto simp: bind_result_iff finish_any Let_def split: if_splits)
    then have "params = der_element OID curve"
      using oid_params [of alg curve] alg by auto
    moreover have "curve_oid (curve_from_oid curve) = Some curve"
      using c(1) by (simp add: curve_oid_iff)
    ultimately show ?thesis
      using input c 2 by (simp add: pk_der_def)
  qed (use k input alg in \<open>auto simp: oids_distinct bind_result_iff finish_any pk_der_def dest: oids_distinct [THEN notE]\<close>)
qed

text \<open>And the encoding of a key is accepted and gives the key.\<close>

lemma pk_from_der_complete:
  assumes "pk_ok k" "der_fits (length (pk_der k))"
  shows "pk_from_der (pk_der k) = Inr k"
proof -
  have parts: "\<exists>alg. spki_parts (der_spki oid params bits) = Inr (oid, alg, bits) \<and> remaining alg = params"
    if "oid_ok oid" "der_fits (length (der_spki oid params bits))" for oid params bits
  proof -
    let ?a = "skip_bytes (length (der_element OID oid)) (reader_new (der_element OID oid @ params))"
    have "der_fits (length (der_algorithm oid params @ der_bit_string bits))"
      by (rule der_element_fits [of SEQUENCE]) (use that(2) in \<open>simp add: der_spki_def\<close>)
    then have "spki_parts (der_spki oid params bits) = Inr (oid, ?a, bits)"
      unfolding spki_parts_iff using that(1) by blast
    then show ?thesis
      using at_params by blast
  qed
  show ?thesis
  proof (cases k)
    case (PK_Rsa m e)
    have f: "der_fits (length (der_spki OID_RSA_ENCRYPTION (der_element NULL []) (der_rsa_key m e)))"
      using assms(2) PK_Rsa by (simp add: pk_der_def)
    then obtain alg where p: "spki_parts (pk_der k) = Inr (OID_RSA_ENCRYPTION, alg, der_rsa_key m e)"
      and r: "remaining alg = der_element NULL []"
      using parts [OF curve_ok(4) f] PK_Rsa by (auto simp: pk_der_def)
    obtain alg' where "read_null alg = (Ok (), alg')" "remaining alg' = []"
      using null_params [of alg "()"] r by auto
    moreover have "parse_rsa_public_key (der_rsa_key m e) = Inr (m, e)"
    proof -
      have mm: "minimal_of m = m" "minimal m"
        using assms(1) PK_Rsa by (simp_all add: minimal_of_minimal)
      have "der_fits (length (der_bit_string (der_rsa_key m e)))"
        using fits_append [of "der_algorithm OID_RSA_ENCRYPTION (der_element NULL [])"] f
          der_element_fits [of SEQUENCE "_ @ _"] by (simp add: der_spki_def)
      then have "der_fits (length (0 # der_rsa_key m e))"
        unfolding der_bit_string_def by (rule der_element_fits)
      then have "der_fits (length (der_rsa_key m e))"
        by (rule der_fits_mono [rotated]) simp
      then have c: "der_fits (length (der_unsigned m @ der_unsigned (u64_octets e)))"
        unfolding der_rsa_key_def mm by (rule der_element_fits)
      then have "der_fits (length (if hd m AND 0x80 \<noteq> 0 then 0 # m else m))"
        using fits_append [OF c] der_element_fits unfolding der_unsigned_def by blast
      then have "integer_ok m"
        using mm by (simp add: integer_ok_def split: if_splits)
      then show ?thesis
        using c by (simp add: rsa_key_parsed)
    qed
    ultimately show ?thesis
      unfolding pk_from_der_parts [OF p] by (simp add: PK_Rsa stepped_def finish_iff)
  next
    case (PK_Ec a point)
    then obtain curve where c: "curve_oid a = Some curve"
      using assms(1) by auto
    then have co: "oid_ok curve" "curve_from_oid curve = a" "a \<noteq> KA_Unknown"
      using curve_ok(1-3) by (auto simp: curve_oid_def curve_from_oid_def oid_defs split: key_algorithm.splits)
    have f: "der_fits (length (der_spki OID_EC_PUBLIC_KEY (der_element OID curve) point))"
      using assms(2) PK_Ec c by (simp add: pk_der_def)
    then obtain alg where p: "spki_parts (pk_der k) = Inr (OID_EC_PUBLIC_KEY, alg, point)"
      and r: "remaining alg = der_element OID curve"
      using parts [OF curve_ok(5) f] PK_Ec c by (auto simp: pk_der_def)
    obtain alg' where "read_oid alg = (Ok curve, alg')" "remaining alg' = []"
      using oid_params [of alg curve] r co(1) by auto
    moreover have "point \<noteq> []"
      using assms(1) PK_Ec by (cases a) auto
    ultimately show ?thesis
      unfolding pk_from_der_parts [OF p] using co assms(1)
      by (simp add: PK_Ec oids_distinct stepped_def finish_iff ensure_that_def Let_def)
  next
    case (PK_Ed25519 b)
    then obtain alg where "spki_parts (pk_der k) = Inr (OID_ED25519, alg, b)" "remaining alg = []"
      using parts [OF curve_ok(6), of "[]" b] assms(2) by (auto simp: pk_der_def)
    then show ?thesis
      using assms(1) by (simp add: pk_from_der_parts PK_Ed25519 oids_distinct finish_iff ensure_that_def)
  next
    case (PK_X25519 b)
    then obtain alg where "spki_parts (pk_der k) = Inr (OID_X25519, alg, b)" "remaining alg = []"
      using parts [OF curve_ok(7), of "[]" b] assms(2) by (auto simp: pk_der_def)
    then show ?thesis
      using assms(1) by (simp add: pk_from_der_parts PK_X25519 oids_distinct finish_iff ensure_that_def)
  next
    case (PK_Ed448 b)
    then obtain alg where "spki_parts (pk_der k) = Inr (OID_ED448, alg, b)" "remaining alg = []"
      using parts [OF curve_ok(8), of "[]" b] assms(2) by (auto simp: pk_der_def)
    then show ?thesis
      using assms(1) by (simp add: pk_from_der_parts PK_Ed448 oids_distinct finish_iff ensure_that_def)
  qed (use assms(1) in simp)
qed

section \<open>Writing a key\<close>

lemma writes_algorithm: "writes f c \<Longrightarrow> writes (push_algorithm f) (der_element SEQUENCE c)"
  using writes_wrapper [of f c SEQUENCE] by (simp add: push_algorithm_def [abs_def] Let_def)

lemma writes_rsa_key: "writes (push_rsa_public_key m e) (der_rsa_key m e)"
  using writes_wrapper [OF writes_then [OF writes_u64 writes_unsigned], where tag = SEQUENCE]
  by (simp add: push_rsa_public_key_def [abs_def] Let_def der_rsa_key_def)

lemma writes_cong: "(\<And>w. wr_ok w \<Longrightarrow> g w = f w) \<Longrightarrow> writes f bs \<Longrightarrow> writes g bs"
  by (simp add: writes_def)

text \<open>A bit string whose content is already in place.\<close>

lemma writes_wrapped_bits:
  assumes "writes f c"
  shows "writes (\<lambda>w. then_write (f w) (\<lambda>v. let key_len = writer_len v - writer_len w
           in then_write (push [0] v) (push_header BIT_STRING (key_len + 1)))) (der_bit_string c)"
proof -
  have eq: "then_write (f w) (\<lambda>v. let key_len = writer_len v - writer_len w
           in then_write (push [0] v) (push_header BIT_STRING (key_len + 1))) =
        then_write (then_write (f w) (push [0])) (push_header BIT_STRING (length (0 # c)))"
    if "wr_ok w" for w
    using that put_simps [of c w] writesD [OF assms that]
    by (cases "length c \<le> wr_pos w") auto
  have "writes (\<lambda>w. then_write (then_write (f w) (push [0])) (push_header BIT_STRING (length (0 # c)))) (der_bit_string c)"
    unfolding der_bit_string_def using writes_element [OF writes_then [OF assms writes_push(1) [of "[0]"]], where tag = BIT_STRING]
    by simp
  then show ?thesis
    by (rule writes_cong [rotated]) (use eq in simp)
qed

lemma writes_public_key:
  assumes "pk_ok k"
  shows "writes (\<lambda>w. then_write (push_public_key k w) (push_wrapper SEQUENCE (writer_len w))) (pk_der k)"
proof -
  have body: "writes (push_public_key k) (der_algorithm oid params @ der_bit_string bits) \<Longrightarrow>
      pk_der k = der_spki oid params bits \<Longrightarrow> ?thesis" for oid params bits
    using writes_wrapper by (simp add: der_spki_def)
  have raw: "writes (\<lambda>w. then_write (push_bit_string b w) (push_algorithm (push_oid oid)))
      (der_algorithm oid [] @ der_bit_string b)" for b oid
    unfolding der_algorithm_def
    by (rule writes_then [OF writes_bit_string writes_algorithm]) (simp add: writes_null_oid_octets)
  show ?thesis
  proof (cases k)
    case (PK_Rsa m e)
    have a: "writes (push_algorithm (\<lambda>w. then_write (push_null w) (push_oid OID_RSA_ENCRYPTION)))
        (der_algorithm OID_RSA_ENCRYPTION (der_element NULL []))"
      unfolding der_algorithm_def
      by (rule writes_algorithm [OF writes_then [OF writes_null_oid_octets(1) writes_null_oid_octets(2)]])
    show ?thesis
      by (rule body) (use writes_then [OF writes_wrapped_bits [OF writes_rsa_key] a] PK_Rsa in
          \<open>simp_all add: push_public_key_def [abs_def] pk_der_def Let_def\<close>)
  next
    case (PK_Ec a point)
    then obtain curve where c: "curve_oid a = Some curve"
      using assms by auto
    have "writes (push_algorithm (\<lambda>w. then_write (push_oid curve w) (push_oid OID_EC_PUBLIC_KEY)))
        (der_algorithm OID_EC_PUBLIC_KEY (der_element OID curve))"
      unfolding der_algorithm_def
      by (rule writes_algorithm [OF writes_then [OF writes_null_oid_octets(2) writes_null_oid_octets(2)]])
    from writes_then [OF writes_bit_string this] show ?thesis
      by (intro body) (use PK_Ec c in \<open>simp_all add: push_public_key_def [abs_def] pk_der_def\<close>)
  next
    case (PK_Ed25519 b)
    then have "push_public_key k = (\<lambda>w. then_write (push_bit_string b w) (push_algorithm (push_oid OID_ED25519)))"
      using assms by (intro ext) (simp add: push_public_key_def)
    then show ?thesis
      using body [of OID_ED25519 "[]" b] raw [of b OID_ED25519] PK_Ed25519 by (simp add: pk_der_def)
  next
    case (PK_X25519 b)
    then have "push_public_key k = (\<lambda>w. then_write (push_bit_string b w) (push_algorithm (push_oid OID_X25519)))"
      using assms by (intro ext) (simp add: push_public_key_def)
    then show ?thesis
      using body [of OID_X25519 "[]" b] raw [of b OID_X25519] PK_X25519 by (simp add: pk_der_def)
  next
    case (PK_Ed448 b)
    then have "push_public_key k = (\<lambda>w. then_write (push_bit_string b w) (push_algorithm (push_oid OID_ED448)))"
      using assms by (intro ext) (simp add: push_public_key_def)
    then show ?thesis
      using body [of OID_ED448 "[]" b] raw [of b OID_ED448] PK_Ed448 by (simp add: pk_der_def)
  qed (use assms in simp)
qed

lemma pk_to_der_eq:
  "pk_to_der k out = with_writer out (\<lambda>w. then_write (push_public_key k w) (push_wrapper SEQUENCE (writer_len w)))"
  by (simp add: pk_to_der_def Let_def)

section \<open>The length of a signature\<close>

lemma length_der_len: "n < 256 \<Longrightarrow> length (der_len n) = (if n < 128 then 1 else 2)"
proof -
  assume n: "n < 256"
  have "length (le_digits n) = 1" if "\<not> n < 128"
  proof -
    have "n div 256 = 0" "n \<noteq> 0"
      using n that by simp_all
    then show ?thesis
      by (simp add: le_digits.simps [of n] le_digits.simps [of 0])
  qed
  then show ?thesis
    by (auto simp: der_len_def)
qed

lemma length_element: "length c < 256 \<Longrightarrow> length (der_element tag c) = length c + (if length c < 128 then 2 else 3)"
  by (simp add: der_element_def length_der_len)

lemma length_unsigned: "length v < 127 \<Longrightarrow> length (der_unsigned v) \<le> length v + 3"
  using length_element [of "0 # v" INTEGER] length_element [of v INTEGER] by (simp add: der_unsigned_def)

text \<open>
  The documented bound holds to 248 bytes of signature; from 250 on the header of the
  sequence may take four bytes, which the bound does not count.
\<close>

lemma ecdsa_der_bound:
  assumes "signature \<noteq> []" "even (length signature)" "length signature \<le> 248"
  shows "length (ecdsa_der signature) \<le> max_der_len (length signature)"
proof -
  let ?n = "length signature div 2"
  let ?r = "minimal_of (take ?n signature)" and ?s = "minimal_of (drop ?n signature)"
  note h = halves [OF assms(1,2)]
  have n: "?n \<le> 124"
    using assms(3) by simp
  have "length ?r \<le> ?n" "length ?s \<le> ?n"
    using length_minimal_of [OF h(1), unfolded h(3)] length_minimal_of [OF h(2), unfolded h(4)] .
  then have "length (der_unsigned ?r) \<le> ?n + 3" "length (der_unsigned ?s) \<le> ?n + 3"
    using length_unsigned [of ?r] length_unsigned [of ?s] n by linarith+
  then have c: "length (der_unsigned ?r @ der_unsigned ?s) \<le> 2 * (2 + ?n + 1)"
    by simp
  then show ?thesis
    using length_element [of "der_unsigned ?r @ der_unsigned ?s" SEQUENCE] n
    by (auto simp: ecdsa_der_def max_der_len_def Let_def split: if_splits)
qed

lemma writer_exact:
  assumes "writes f bs" "der_fits (length out)"
  shows "with_writer out f = Some (Ok (length out), input) \<and> length input = length out \<longleftrightarrow>
    length input = length out \<and> bs = input"
proof (cases "length bs \<le> length out")
  case True
  then show ?thesis
    using with_writer_writes(1) [OF assms True] by auto
next
  case False
  then show ?thesis
    using with_writer_writes(2) [OF assms] by auto
qed

end
