(* ===== verification/ChaCha20.thy ===== *)
theory ChaCha20
  imports Core_Aead Word_Ops
begin

text \<open>
  ChaCha20 and HChaCha20: \<open>crates/ic-cipher/src/chacha.rs\<close>, the portable backend, which
  makes the keystream one block at a time.
\<close>

section \<open>The code\<close>

definition chacha_SIGMA :: "u32 list" where
  "chacha_SIGMA = [0x61707865, 0x3320646e, 0x79622d32, 0x6b206574]"

definition quarter_round :: "u32 list \<Rightarrow> nat \<Rightarrow> nat \<Rightarrow> nat \<Rightarrow> nat \<Rightarrow> u32 list" where
  "quarter_round s a b c d =
     (let s = s[a := s ! a + s ! b];
          s = s[d := rotl 16 (s ! d XOR s ! a)];
          s = s[c := s ! c + s ! d];
          s = s[b := rotl 12 (s ! b XOR s ! c)];
          s = s[a := s ! a + s ! b];
          s = s[d := rotl 8 (s ! d XOR s ! a)];
          s = s[c := s ! c + s ! d];
          s = s[b := rotl 7 (s ! b XOR s ! c)]
      in s)"

definition double_round :: "u32 list \<Rightarrow> u32 list" where
  "double_round s =
     (let s = quarter_round s 0 4 8 12;
          s = quarter_round s 1 5 9 13;
          s = quarter_round s 2 6 10 14;
          s = quarter_round s 3 7 11 15;
          s = quarter_round s 0 5 10 15;
          s = quarter_round s 1 6 11 12;
          s = quarter_round s 2 7 8 13;
          s = quarter_round s 3 4 9 14
      in s)"

definition rounds :: "u32 list \<Rightarrow> u32 list" where
  "rounds s = (double_round ^^ 10) s"

definition le_words :: "bytes \<Rightarrow> u32 list" where
  "le_words bs = map word_of_le (chunks 4 bs)"

definition hchacha20 :: "bytes \<Rightarrow> bytes \<Rightarrow> bytes" where
  "hchacha20 key nonce =
     (let state = rounds (chacha_SIGMA @ le_words key @ le_words nonce)
      in concat (map (le_of_word 4) (slice 0 4 state)) @ concat (map (le_of_word 4) (slice 12 4 state)))"

definition chacha20_block :: "bytes \<Rightarrow> u32 \<Rightarrow> bytes \<Rightarrow> bytes" where
  "chacha20_block key counter nonce =
     (let state = chacha_SIGMA @ le_words key @ [counter] @ le_words nonce;
          working = rounds state
      in concat (map2 (\<lambda>w s. le_of_word 4 (w + s)) working state))"

definition keystream_blocks :: "bytes \<Rightarrow> bytes \<Rightarrow> u32 \<Rightarrow> bytes \<Rightarrow> bytes" where
  "keystream_blocks k n counter data =
     concat (map (\<lambda>(i, chunk). xor_bytes chunk (chacha20_block k (counter + of_nat i) n))
                 (enumerate 0 (chunks 64 data)))"

definition xor_keystream :: "bytes \<Rightarrow> bytes \<Rightarrow> u32 \<Rightarrow> bytes \<Rightarrow> unit result \<times> bytes" where
  "xor_keystream k n counter data =
     (let blocks = (length data + 63) div 64
      in if \<not> uint counter + int blocks \<le> 2 ^ 32
         then (Err CounterExhausted ''chacha20 block counter'', data)
         else (Ok (), keystream_blocks k n counter data))"

definition chacha20_xor ::
  "module_state \<Rightarrow> bytes \<Rightarrow> bytes \<Rightarrow> u32 \<Rightarrow> bytes \<Rightarrow> unit result \<times> bytes" where
  "chacha20_xor m key nonce counter data =
     (case operational m of
        Inl e \<Rightarrow> (Inl e, data)
      | Inr _ \<Rightarrow>
          if length key \<noteq> 32 then (Err InvalidLength ''chacha20 key must be 32 bytes'', data)
          else if length nonce \<noteq> 12 then (Err InvalidLength ''chacha20 nonce must be 12 bytes'', data)
          else xor_keystream key nonce counter data)"

section \<open>The permutation\<close>

lemma length_quarter_round [simp]: "length (quarter_round s a b c d) = length s"
  by (simp add: quarter_round_def Let_def)

lemma length_double_round [simp]: "length (double_round s) = length s"
  by (simp add: double_round_def Let_def)

lemma length_rounds [simp]: "length (rounds s) = length s"
proof -
  have "length ((double_round ^^ n) s) = length s" for n by (induction n) simp_all
  then show ?thesis by (simp add: rounds_def)
qed

text \<open>A quarter round is four pairs of an addition and a rotated XOR, each of which can be undone.\<close>

definition arx_add :: "nat \<Rightarrow> nat \<Rightarrow> u32 list \<Rightarrow> u32 list" where
  "arx_add a b s = s[a := s ! a + s ! b]"

definition arx_xor :: "nat \<Rightarrow> nat \<Rightarrow> nat \<Rightarrow> u32 list \<Rightarrow> u32 list" where
  "arx_xor k d a s = s[d := rotl k (s ! d XOR s ! a)]"

lemma quarter_round_steps:
  "quarter_round s a b c d = arx_xor 7 b c (arx_add c d (arx_xor 8 d a (arx_add a b
     (arx_xor 12 b c (arx_add c d (arx_xor 16 d a (arx_add a b s)))))))"
  by (simp only: quarter_round_def arx_add_def arx_xor_def Let_def)

lemma arx_add_back:
  assumes "a \<noteq> b" "a < length s"
  shows "(arx_add a b s)[a := arx_add a b s ! a - arx_add a b s ! b] = s"
  using assms by (simp add: arx_add_def)

lemma arx_xor_back:
  assumes "d \<noteq> a" "d < length s" "0 < k" "k < 32"
  shows "(arx_xor k d a s)[d := rotr k (arx_xor k d a s ! d) XOR arx_xor k d a s ! a] = s"
  using assms by (simp add: arx_xor_def)

lemma length_arx [simp]: "length (arx_add a b s) = length s" "length (arx_xor k d a s) = length s"
  by (simp_all add: arx_add_def arx_xor_def)

definition quarter_round_back :: "u32 list \<Rightarrow> nat \<Rightarrow> nat \<Rightarrow> nat \<Rightarrow> nat \<Rightarrow> u32 list" where
  "quarter_round_back s a b c d =
     (let s = s[b := rotr 7 (s ! b) XOR s ! c];
          s = s[c := s ! c - s ! d];
          s = s[d := rotr 8 (s ! d) XOR s ! a];
          s = s[a := s ! a - s ! b];
          s = s[b := rotr 12 (s ! b) XOR s ! c];
          s = s[c := s ! c - s ! d];
          s = s[d := rotr 16 (s ! d) XOR s ! a];
          s = s[a := s ! a - s ! b]
      in s)"

lemma quarter_round_inverse:
  assumes "distinct [a, b, c, d]" "a < length s" "b < length s" "c < length s" "d < length s"
  shows "quarter_round_back (quarter_round s a b c d) a b c d = s"
  using assms unfolding quarter_round_back_def Let_def quarter_round_steps
  by (simp only: arx_xor_back arx_add_back length_arx distinct.simps list.set insert_iff
        empty_iff de_Morgan_disj not_False_eq_True simp_thms eq_commute [of b a] eq_commute [of c a] eq_commute [of d a]
        eq_commute [of c b] eq_commute [of d b] eq_commute [of d c] zero_less_numeral numeral_less_iff
        num.distinct semiring_norm)

lemma quarter_round_inj:
  assumes "distinct [a, b, c, d]" "a < length s" "b < length s" "c < length s" "d < length s"
    and "length t = length s" "quarter_round s a b c d = quarter_round t a b c d"
  shows "s = t"
  using quarter_round_inverse [of a b c d s] quarter_round_inverse [of a b c d t] assms by metis

definition chacha_quads :: "(nat \<times> nat \<times> nat \<times> nat) list" where
  "chacha_quads =
     [(0, 4, 8, 12), (1, 5, 9, 13), (2, 6, 10, 14), (3, 7, 11, 15),
      (0, 5, 10, 15), (1, 6, 11, 12), (2, 7, 8, 13), (3, 4, 9, 14)]"

lemma double_round_fold:
  "double_round s = fold (\<lambda>(a, b, c, d) s. quarter_round s a b c d) chacha_quads s"
  by (simp only: chacha_quads_def double_round_def Let_def fold.simps o_apply id_apply prod.case)

lemma quarter_rounds_inj:
  assumes "\<forall>(a, b, c, d) \<in> set qs. distinct [a, b, c, d] \<and> a < 16 \<and> b < 16 \<and> c < 16 \<and> d < 16"
    and "length s = 16" "length t = 16"
    and "fold (\<lambda>(a, b, c, d) s. quarter_round s a b c d) qs s = fold (\<lambda>(a, b, c, d) s. quarter_round s a b c d) qs t"
  shows "s = t"
  using assms
proof (induction qs arbitrary: s t)
  case (Cons q qs)
  obtain a b c d where q: "q = (a, b, c, d)" by (cases q)
  have d: "distinct [a, b, c, d]" "a < 16" "b < 16" "c < 16" "d < 16"
    using Cons.prems(1) by (simp_all add: q)
  have "quarter_round s a b c d = quarter_round t a b c d"
    by (rule Cons.IH) (use Cons.prems in \<open>simp_all add: q\<close>)
  from quarter_round_inj [OF d(1) _ _ _ _ _ this] show ?case
    using d(2-5) by (simp only: Cons.prems(2,3))
qed simp

lemma double_round_inj:
  "length s = 16 \<Longrightarrow> length t = 16 \<Longrightarrow> double_round s = double_round t \<Longrightarrow> s = t"
  unfolding double_round_fold
  by (rule quarter_rounds_inj [of chacha_quads]) (simp_all add: chacha_quads_def del: fold.simps)

lemma rounds_inj:
  assumes "length s = 16" "length t = 16" "rounds s = rounds t"
  shows "s = t"
proof -
  have "s = t" if "length s = 16" "length t = 16" "(double_round ^^ n) s = (double_round ^^ n) t" for n s t
    using that
  proof (induction n arbitrary: s t)
    case (Suc n)
    have "(double_round ^^ n) (double_round s) = (double_round ^^ n) (double_round t)"
      using Suc.prems(3) by (simp only: funpow_Suc_right o_apply)
    from Suc.IH [OF _ _ this] have "double_round s = double_round t"
      by (simp only: length_double_round Suc.prems(1,2))
    with Suc.prems(1,2) show ?case by (rule double_round_inj)
  qed simp
  then show ?thesis using assms by (simp add: rounds_def)
qed

section \<open>The keystream\<close>

lemma length_concat_le_of_word [simp]: "length (concat (map (le_of_word k) ws)) = k * length ws"
  by (induction ws) simp_all

lemma length_le_words: "length bs = 4 * n \<Longrightarrow> length (le_words bs) = n"
  unfolding le_words_def by (subst length_map, rule length_chunks_exact) simp_all

lemma length_chacha20_block [simp]:
  assumes "length key = 32" "length nonce = 12"
  shows "length (chacha20_block key counter nonce) = 64"
proof -
  have block: "length (concat (map2 (\<lambda>w s. le_of_word 4 (w + s :: u32)) ws ss)) = 4 * min (length ws) (length ss)" for ws ss
    by (induction ws ss rule: list_induct2') simp_all
  have "length (le_words key) = 8" "length (le_words nonce) = 3"
    using assms by (auto intro: length_le_words)
  then show ?thesis by (simp add: chacha20_block_def Let_def block chacha_SIGMA_def)
qed

lemma length_hchacha20 [simp]:
  assumes "length key = 32" "length nonce = 16"
  shows "length (hchacha20 key nonce) = 32"
proof -
  have "length (le_words key) = 8" "length (le_words nonce) = 4"
    using assms by (auto intro: length_le_words)
  then show ?thesis by (simp add: hchacha20_def Let_def chacha_SIGMA_def)
qed

text \<open>The standard's keystream: the blocks of successive counters.\<close>

definition chacha20_stream :: "bytes \<Rightarrow> bytes \<Rightarrow> u32 \<Rightarrow> nat \<Rightarrow> bytes" where
  "chacha20_stream key nonce counter k =
     concat (map (\<lambda>i. chacha20_block key (counter + of_nat i) nonce) [0..<k])"

lemma xor_chunks:
  assumes "\<And>i. length (B i) = k" "0 < k"
  shows "concat (map (\<lambda>(i, chunk). xor_bytes chunk (B i)) (enumerate n (chunks k data)))
       = xor_bytes data (concat (map B [n..<n + length (chunks k data)]))"
  using assms
proof (induction k data arbitrary: n rule: chunks.induct)
  case (1 k data)
  show ?case
  proof (cases "data = []")
    case False
    have c: "chunks k data = take k data # chunks k (drop k data)"
      using False 1(3) by (rule chunks_step)
    have IH: "concat (map (\<lambda>(i, chunk). xor_bytes chunk (B i)) (enumerate (Suc n) (chunks k (drop k data))))
        = xor_bytes (drop k data) (concat (map B [Suc n..<Suc n + length (chunks k (drop k data))]))"
      using False 1 by simp
    have cut: "xor_bytes data (B n @ r) = xor_bytes (take k data) (B n) @ xor_bytes (drop k data) r" for r
      unfolding xor_bytes_def zip_append2 1(2) map_append ..
    have "[n..<n + length (chunks k data)] = n # [Suc n..<Suc n + length (chunks k (drop k data))]"
      unfolding c by (simp add: upt_conv_Cons del: upt_Suc)
    then show ?thesis unfolding c by (simp add: IH cut del: upt_Suc)
  qed simp
qed

lemma length_chacha20_stream [simp]:
  "length key = 32 \<Longrightarrow> length nonce = 12 \<Longrightarrow> length (chacha20_stream key nonce counter k) = 64 * k"
  unfolding chacha20_stream_def by (induction k) simp_all

lemma xor_keystream_eq:
  assumes "length k = 32" "length n = 12"
  shows "xor_keystream k n counter data =
     (if uint counter + int ((length data + 63) div 64) \<le> 2 ^ 32
      then (Ok (), xor_bytes data (chacha20_stream k n counter ((length data + 63) div 64)))
      else (Err CounterExhausted ''chacha20 block counter'', data))"
proof -
  have "concat (map (\<lambda>(i, chunk). xor_bytes chunk (chacha20_block k (counter + of_nat i) n)) (enumerate 0 (chunks 64 data)))
      = xor_bytes data (chacha20_stream k n counter (length (chunks 64 data)))"
    using xor_chunks [of "\<lambda>i. chacha20_block k (counter + of_nat i) n" 64 0 data] assms
    by (simp add: chacha20_stream_def)
  moreover have "length (chunks 64 data) = (length data + 63) div 64"
    using length_chunks [of 64 data] by (simp add: add.commute)
  ultimately show ?thesis by (simp add: xor_keystream_def keystream_blocks_def Let_def)
qed

lemma blocks_cover: "L \<le> 64 * ((L + 63) div 64)" for L :: nat
  using mult_div_mod_eq [of 64 "L + 63"] mod_less_divisor [of 64 "L + 63"] by linarith

lemma xor_keystream_length:
  assumes "length k = 32" "length n = 12" "xor_keystream k n counter data = (r, out)"
  shows "length out = length data"
  using assms blocks_cover [of "length data"] by (simp add: xor_keystream_eq min_absorb1 split: if_splits) auto

text \<open>Applied twice, the keystream is gone.\<close>

lemma xor_keystream_twice:
  assumes "length k = 32" "length n = 12" "xor_keystream k n counter data = (Inr u, out)"
  shows "xor_keystream k n counter out = (Inr u, data)"
proof -
  let ?b = "(length data + 63) div 64"
  have l: "length data \<le> 64 * ?b" by (rule blocks_cover)
  have c: "uint counter + int ?b \<le> 2 ^ 32" and o: "out = xor_bytes data (chacha20_stream k n counter ?b)"
    using assms(3) unfolding xor_keystream_eq [OF assms(1,2)] by (simp_all split: if_splits)
  have "xor_bytes out (chacha20_stream k n counter ?b) = data"
    unfolding o by (rule xor_bytes_involutive) (simp only: length_chacha20_stream assms(1,2) l)
  then show ?thesis
    using c by (simp add: xor_keystream_eq assms(1,2) xor_keystream_length [OF assms])
qed

text \<open>No two blocks of a message have one counter.\<close>

lemma counters_distinct:
  assumes "uint (counter :: u32) + int blocks \<le> 2 ^ 32"
  shows "inj_on (\<lambda>i. counter + of_nat i) {..<blocks}"
proof (rule inj_onI)
  fix i j assume ij: "i \<in> {..<blocks}" "j \<in> {..<blocks}" "counter + of_nat i = counter + of_nat j"
  have "uint (of_nat i :: u32) = int i" if "i < blocks" for i
  proof -
    have "int i < 2 ^ 32" using that assms uint_ge_0 [of counter] by linarith
    then show ?thesis by (simp add: unsigned_of_nat take_bit_eq_mod)
  qed
  then show "i = j" using ij by (metis lessThan_iff add_left_cancel of_nat_eq_iff)
qed

lemma nth_stream:
  assumes "length k = 32" "length n = 12" "j < 64 * b"
  shows "chacha20_stream k n counter b ! j = chacha20_block k (counter + of_nat (j div 64)) n ! (j mod 64)"
proof -
  let ?bs = "map (\<lambda>i. chacha20_block k (counter + of_nat i) n) [0..<b]"
  have c: "chunks 64 (chacha20_stream k n counter b) = ?bs"
    unfolding chacha20_stream_def using assms by (intro chunks_concat) auto
  have "chunks 64 (chacha20_stream k n counter b) ! (j div 64) ! (j mod 64)
      = chacha20_stream k n counter b ! (j div 64 * 64 + j mod 64)"
    by (rule nth_chunks [where n = b]) (use assms in \<open>simp_all add: less_mult_imp_div_less\<close>)
  moreover have "j div 64 < b" using assms(3) by (simp add: less_mult_imp_div_less)
  ultimately show ?thesis by (simp add: c)
qed

lemma xor_keystream_nth:
  assumes "length k = 32" "length n = 12" "uint counter + int ((length data + 63) div 64) \<le> 2 ^ 32"
  shows "xor_keystream k n counter data
    = (Ok (), map (\<lambda>j. data ! j XOR chacha20_block k (counter + of_nat (j div 64)) n ! (j mod 64)) [0..<length data])"
proof -
  let ?s = "chacha20_stream k n counter ((length data + 63) div 64)"
  have "length data \<le> length ?s"
    unfolding length_chacha20_stream [OF assms(1,2)] by (rule blocks_cover)
  then have "xor_bytes data ?s = map (\<lambda>j. data ! j XOR ?s ! j) [0..<length data]"
    by (intro nth_equalityI) (simp_all add: xor_bytes_def)
  also have "\<dots> = map (\<lambda>j. data ! j XOR chacha20_block k (counter + of_nat (j div 64)) n ! (j mod 64)) [0..<length data]"
    using blocks_cover [of "length data"] by (intro map_cong refl) (simp add: nth_stream [OF assms(1,2)])
  finally show ?thesis using assms(3) by (simp add: xor_keystream_eq [OF assms(1,2)])
qed

text \<open>The states the blocks of a message are made from are distinct, and the rounds keep them so.\<close>

lemma rounds_states_inj:
  assumes "length k = 32" "length n = 12" "uint counter + int b \<le> 2 ^ 32"
  shows "inj_on (\<lambda>i. rounds (chacha_SIGMA @ le_words k @ [counter + of_nat i] @ le_words n)) {..<b}"
proof (rule inj_onI)
  let ?state = "\<lambda>i. chacha_SIGMA @ le_words k @ [counter + of_nat i] @ le_words n"
  fix i j assume ij: "i \<in> {..<b}" "j \<in> {..<b}" "rounds (?state i) = rounds (?state j)"
  have "length (le_words k) = 8" "length (le_words n) = 3" using assms by (auto intro: length_le_words)
  then have "length (?state i) = 16" for i by (simp add: chacha_SIGMA_def)
  from rounds_inj [OF this this ij(3)] have "counter + of_nat i = counter + of_nat j" by simp
  then show "i = j" by (rule inj_onD [OF counters_distinct [OF assms(3)] _ ij(1,2)])
qed

end
