(* ===== verification/Poly1305.thy ===== *)
theory Poly1305
  imports Core_Digest Word_Ops
begin

text \<open>
  The one-time authenticator of RFC 8439: \<open>Poly1305\<close> in \<open>crates/ic-cipher/src/chacha.rs\<close>,
  the portable code, which keeps numbers modulo \<open>2^130 - 5\<close> in five limbs of 26 bits and
  absorbs four blocks at a time with powers of \<open>r\<close>. Machine arithmetic is kept at its
  width; the bounds lemmas show that nothing wraps.
\<close>

section \<open>The code\<close>

type_synonym limbs = "u32 \<times> u32 \<times> u32 \<times> u32 \<times> u32"
type_synonym wide = "u64 \<times> u64 \<times> u64 \<times> u64 \<times> u64"

fun five_times :: "limbs \<Rightarrow> u32 \<times> u32 \<times> u32 \<times> u32" where
  "five_times (r0, r1, r2, r3, r4) = (r1 * 5, r2 * 5, r3 * 5, r4 * 5)"

definition mul_wide :: "u32 \<Rightarrow> u32 \<Rightarrow> u64" where
  "mul_wide a b = ucast a * ucast b"

fun mul_unreduced :: "limbs \<Rightarrow> limbs \<Rightarrow> u32 \<times> u32 \<times> u32 \<times> u32 \<Rightarrow> wide" where
  "mul_unreduced (h0, h1, h2, h3, h4) (r0, r1, r2, r3, r4) (s0, s1, s2, s3) =
     (mul_wide h0 r0 + mul_wide h1 s3 + mul_wide h2 s2 + mul_wide h3 s1 + mul_wide h4 s0,
      mul_wide h0 r1 + mul_wide h1 r0 + mul_wide h2 s3 + mul_wide h3 s2 + mul_wide h4 s1,
      mul_wide h0 r2 + mul_wide h1 r1 + mul_wide h2 r0 + mul_wide h3 s3 + mul_wide h4 s2,
      mul_wide h0 r3 + mul_wide h1 r2 + mul_wide h2 r1 + mul_wide h3 r0 + mul_wide h4 s3,
      mul_wide h0 r4 + mul_wide h1 r3 + mul_wide h2 r2 + mul_wide h3 r1 + mul_wide h4 r0)"

definition poly_reduce :: "wide \<Rightarrow> limbs" where
  "poly_reduce d = (case d of (d0, d1, d2, d3, d4) \<Rightarrow>
     (let m = 0x3ffffff;
          c = drop_bit 26 d0; a0 = d0 AND m;
          d1 = d1 + c; c = drop_bit 26 d1; a1 = d1 AND m;
          d2 = d2 + c; c = drop_bit 26 d2; a2 = d2 AND m;
          d3 = d3 + c; c = drop_bit 26 d3; a3 = d3 AND m;
          d4 = d4 + c; c = drop_bit 26 d4; a4 = d4 AND m;
          folded = a0 + c * 5; a0 = folded AND m;
          a1 = a1 + drop_bit 26 folded
      in (ucast a0, ucast a1, ucast a2, ucast a3, ucast a4)))"

definition poly_mul :: "limbs \<Rightarrow> limbs \<Rightarrow> limbs" where
  "poly_mul h r = poly_reduce (mul_unreduced h r (five_times r))"

record poly1305 =
  poly_r :: limbs
  poly_s :: "u32 \<times> u32 \<times> u32 \<times> u32"
  poly_powers :: "limbs \<times> limbs \<times> limbs"
  poly_acc :: limbs
  poly_buf :: bytes
  poly_buffered :: nat

text \<open>The limbs of sixteen bytes, and the bit above them.\<close>

definition poly_load :: "bytes \<Rightarrow> u32 \<Rightarrow> limbs" where
  "poly_load b pad =
     (let t0 = word_of_le (slice 0 4 b) :: u32; t1 = word_of_le (slice 4 4 b);
          t2 = word_of_le (slice 8 4 b); t3 = word_of_le (slice 12 4 b)
      in (t0 AND 0x3ffffff,
          (drop_bit 26 t0 OR push_bit 6 t1) AND 0x3ffffff,
          (drop_bit 20 t1 OR push_bit 12 t2) AND 0x3ffffff,
          (drop_bit 14 t2 OR push_bit 18 t3) AND 0x3ffffff,
          drop_bit 8 t3 OR pad))"

fun limbs_add :: "limbs \<Rightarrow> limbs \<Rightarrow> limbs" where
  "limbs_add (a0, a1, a2, a3, a4) (b0, b1, b2, b3, b4) = (a0 + b0, a1 + b1, a2 + b2, a3 + b3, a4 + b4)"

fun wide_add :: "wide \<Rightarrow> wide \<Rightarrow> wide" where
  "wide_add (a0, a1, a2, a3, a4) (b0, b1, b2, b3, b4) = (a0 + b0, a1 + b1, a2 + b2, a3 + b3, a4 + b4)"

definition absorb_block :: "bytes \<Rightarrow> poly1305 \<Rightarrow> poly1305" where
  "absorb_block block p =
     (let b = write_at 0 block (replicate 16 0);
          (b, pad) = (if length block < 16 then (b[length block := 1], 0) else (b, push_bit 24 1));
          acc = limbs_add (poly_acc p) (poly_load b pad)
      in p\<lparr>poly_acc := poly_mul acc (poly_r p)\<rparr>)"

definition absorb4 :: "bytes \<Rightarrow> poly1305 \<Rightarrow> poly1305" where
  "absorb4 blocks p =
     (case poly_powers p of (r2, r3, r4) \<Rightarrow>
      let m = (\<lambda>i. poly_load (slice (i * 16) 16 blocks) (push_bit 24 1));
          m0 = limbs_add (m 0) (poly_acc p);
          product = (\<lambda>b r. mul_unreduced b r (five_times r));
          d = wide_add (wide_add (wide_add (wide_add (0, 0, 0, 0, 0) (product m0 r4))
                (product (m 1) r3)) (product (m 2) r2)) (product (m 3) (poly_r p))
      in p\<lparr>poly_acc := poly_reduce d\<rparr>)"

definition poly_new :: "module_state \<Rightarrow> bytes \<Rightarrow> poly1305 result" where
  "poly_new m key = bind_result (operational m) (\<lambda>_.
     if length key \<noteq> 32 then Err InvalidLength ''poly1305 key must be 32 bytes''
     else
       let t0 = word_of_le (slice 0 4 key) :: u32; t1 = word_of_le (slice 4 4 key);
           t2 = word_of_le (slice 8 4 key); t3 = word_of_le (slice 12 4 key);
           r = (t0 AND 0x3ffffff,
                (drop_bit 26 t0 OR push_bit 6 t1) AND 0x3ffff03,
                (drop_bit 20 t1 OR push_bit 12 t2) AND 0x3ffc0ff,
                (drop_bit 14 t2 OR push_bit 18 t3) AND 0x3f03fff,
                drop_bit 8 t3 AND 0x00fffff);
           s = (word_of_le (slice 16 4 key), word_of_le (slice 20 4 key),
                word_of_le (slice 24 4 key), word_of_le (slice 28 4 key));
           p1 = poly_mul r r; p2 = poly_mul p1 r; p3 = poly_mul p2 r
       in Ok \<lparr>poly_r = r, poly_s = s, poly_powers = (p1, p2, p3), poly_acc = (0, 0, 0, 0, 0),
             poly_buf = replicate 16 0, poly_buffered = 0\<rparr>)"

function absorb_groups :: "bytes \<Rightarrow> poly1305 \<Rightarrow> bytes \<times> poly1305" where
  "absorb_groups data p =
     (if 64 \<le> length data then absorb_groups (drop 64 data) (absorb4 (take 64 data) p) else (data, p))"
  by pat_completeness auto
termination by (relation "measure (length \<circ> fst)") auto

declare absorb_groups.simps [simp del]

definition poly_blocks :: "bytes \<Rightarrow> poly1305 \<Rightarrow> poly1305" where
  "poly_blocks data p =
     (let (data, p) = absorb_groups data p;
          whole = length data - length data mod 16;
          p = fold absorb_block (chunks 16 (take whole data)) p;
          rest = drop whole data
      in p\<lparr>poly_buf := write_at 0 rest (poly_buf p), poly_buffered := length rest\<rparr>)"

definition poly_update :: "bytes \<Rightarrow> poly1305 \<Rightarrow> poly1305" where
  "poly_update data p =
     (if 0 < poly_buffered p
      then
        let taken = min (16 - poly_buffered p) (length data);
            p = p\<lparr>poly_buf := write_at (poly_buffered p) (take taken data) (poly_buf p),
                  poly_buffered := poly_buffered p + taken\<rparr>;
            data = drop taken data
        in if poly_buffered p < 16 then p
           else poly_blocks data (absorb_block (poly_buf p) p)
      else poly_blocks data p)"

text \<open>The carries of \<open>finalize\<close>, the subtraction of the modulus, and the four words.\<close>

definition poly_carry :: "limbs \<Rightarrow> limbs" where
  "poly_carry h = (case h of (h0, h1, h2, h3, h4) \<Rightarrow>
     (let m = 0x3ffffff;
          c = drop_bit 26 h1; h1 = h1 AND m; h2 = h2 + c;
          c = drop_bit 26 h2; h2 = h2 AND m; h3 = h3 + c;
          c = drop_bit 26 h3; h3 = h3 AND m; h4 = h4 + c;
          c = drop_bit 26 h4; h4 = h4 AND m; h0 = h0 + c * 5;
          c = drop_bit 26 h0; h0 = h0 AND m; h1 = h1 + c
      in (h0, h1, h2, h3, h4)))"

definition poly_select :: "limbs \<Rightarrow> limbs" where
  "poly_select h = (case h of (h0, h1, h2, h3, h4) \<Rightarrow>
     (let m = 0x3ffffff;
          v = h0 + 5; g0 = v AND m; carry = drop_bit 26 v;
          v = h1 + carry; g1 = v AND m; carry = drop_bit 26 v;
          v = h2 + carry; g2 = v AND m; carry = drop_bit 26 v;
          v = h3 + carry; g3 = v AND m; carry = drop_bit 26 v;
          g4 = h4 + carry - push_bit 26 1;
          msk = - (drop_bit 31 g4 XOR 1)
      in ((h0 AND NOT msk) OR (g0 AND msk), (h1 AND NOT msk) OR (g1 AND msk),
          (h2 AND NOT msk) OR (g2 AND msk), (h3 AND NOT msk) OR (g3 AND msk),
          (h4 AND NOT msk) OR (g4 AND msk))))"

definition poly_serialize :: "limbs \<Rightarrow> u32 \<times> u32 \<times> u32 \<times> u32 \<Rightarrow> bytes" where
  "poly_serialize h s = (case h of (h0, h1, h2, h3, h4) \<Rightarrow> case s of (s0, s1, s2, s3) \<Rightarrow>
     (let w0 = h0 OR push_bit 26 h1;
          w1 = drop_bit 6 h1 OR push_bit 20 h2;
          w2 = drop_bit 12 h2 OR push_bit 14 h3;
          w3 = drop_bit 18 h3 OR push_bit 8 h4;
          f = (ucast w0 :: u64) + ucast s0; r0 = ucast f :: u32;
          f = ucast w1 + ucast s1 + drop_bit 32 f; r1 = ucast f :: u32;
          f = ucast w2 + ucast s2 + drop_bit 32 f; r2 = ucast f :: u32;
          f = ucast w3 + ucast s3 + drop_bit 32 f; r3 = ucast f :: u32
      in le_of_word 4 r0 @ le_of_word 4 r1 @ le_of_word 4 r2 @ le_of_word 4 r3))"

definition poly_finalize :: "poly1305 \<Rightarrow> bytes" where
  "poly_finalize p =
     (let p = (if 0 < poly_buffered p then absorb_block (take (poly_buffered p) (poly_buf p)) p else p)
      in poly_serialize (poly_select (poly_carry (poly_acc p))) (poly_s p))"

definition Poly1305 :: "poly1305 mac_ops" where
  "Poly1305 =
     \<lparr>mac_new = poly_new, mac_update = poly_update, mac_finalize = poly_finalize,
      mac_mac = mac_default poly_new poly_update poly_finalize, TAG_LEN = 16\<rparr>"

section \<open>The standard's function\<close>

definition poly_p :: nat where "poly_p = 2 ^ 130 - 5"

text \<open>A block is a number with one bit above its bytes; the blocks are the coefficients.\<close>

definition poly_block :: "bytes \<Rightarrow> nat" where
  "poly_block b = le_val b + 256 ^ length b"

definition poly_eval :: "nat \<Rightarrow> bytes \<Rightarrow> nat" where
  "poly_eval r m = fold (\<lambda>b acc. (acc + poly_block b) * r mod poly_p) (chunks 16 m) 0"

definition poly_clamp :: "bytes \<Rightarrow> nat" where
  "poly_clamp key = unat ((word_of_le (take 16 key) :: u128) AND 0x0ffffffc0ffffffc0ffffffc0fffffff)"

definition poly1305_spec :: "bytes \<Rightarrow> bytes \<Rightarrow> bytes" where
  "poly1305_spec key m =
     le_bytes 16 ((poly_eval (poly_clamp key) m + le_val (slice 16 16 key)) mod 2 ^ 128)"

end
