(* ===== verification/Poly1305_Limbs.thy ===== *)
theory Poly1305_Limbs
  imports Poly1305 Block_Buffer
begin

text \<open>
  The limb arithmetic of \<open>Poly1305\<close> is arithmetic modulo \<open>2^130 - 5\<close>: no limb, product
  or carry leaves its machine word, and the value of the limbs is what the standard
  says. With it the streaming code computes the standard's function of the key and
  of the concatenation of the parts.
\<close>

section \<open>Values\<close>

fun limbs_val :: "limbs \<Rightarrow> nat" where
  "limbs_val (a0, a1, a2, a3, a4) =
     unat a0 + 2 ^ 26 * unat a1 + 2 ^ 52 * unat a2 + 2 ^ 78 * unat a3 + 2 ^ 104 * unat a4"

fun wide_val :: "wide \<Rightarrow> nat" where
  "wide_val (d0, d1, d2, d3, d4) =
     unat d0 + 2 ^ 26 * unat d1 + 2 ^ 52 * unat d2 + 2 ^ 78 * unat d3 + 2 ^ 104 * unat d4"

fun limbs_below :: "nat \<Rightarrow> limbs \<Rightarrow> bool" where
  "limbs_below k (a0, a1, a2, a3, a4) \<longleftrightarrow>
     unat a0 < k \<and> unat a1 < k \<and> unat a2 < k \<and> unat a3 < k \<and> unat a4 < k"

fun wide_below :: "nat \<Rightarrow> wide \<Rightarrow> bool" where
  "wide_below k (d0, d1, d2, d3, d4) \<longleftrightarrow>
     unat d0 < k \<and> unat d1 < k \<and> unat d2 < k \<and> unat d3 < k \<and> unat d4 < k"

text \<open>What \<open>reduce\<close> leaves: limbs of 26 bits, the second a little over.\<close>

fun limbs_reduced :: "limbs \<Rightarrow> bool" where
  "limbs_reduced (a0, a1, a2, a3, a4) \<longleftrightarrow>
     unat a0 < 2 ^ 26 \<and> unat a1 < 2 ^ 26 + 2 ^ 15 \<and> unat a2 < 2 ^ 26 \<and> unat a3 < 2 ^ 26 \<and> unat a4 < 2 ^ 26"

lemma unat_mul_wide: "unat (mul_wide a b) = unat a * unat b"
proof -
  have "unat a * unat b < 2 ^ 32 * 2 ^ 32"
    by (rule mult_strict_mono') (use unsigned_less [of a] unsigned_less [of b] in simp_all)
  then show ?thesis
    unfolding mul_wide_def by (subst unat_mul_exact) (simp_all add: unat_ucast_up)
qed

lemma unat_times_5: "unat a * 5 < 2 ^ 32 \<Longrightarrow> unat (a * 5 :: u32) = 5 * unat a"
  by (subst unat_mul_exact) simp_all

lemma limb_products:
  fixes b :: nat
  shows "(h0 + b * h1 + b^2 * h2 + b^3 * h3 + b^4 * h4) * (r0 + b * r1 + b^2 * r2 + b^3 * r3 + b^4 * r4)
       + 5 * ((h1 * r4 + h2 * r3 + h3 * r2 + h4 * r1) + b * (h2 * r4 + h3 * r3 + h4 * r2)
            + b^2 * (h3 * r4 + h4 * r3) + b^3 * (h4 * r4))
     = ((h0 * r0 + h1 * (5 * r4) + h2 * (5 * r3) + h3 * (5 * r2) + h4 * (5 * r1))
        + b * (h0 * r1 + h1 * r0 + h2 * (5 * r4) + h3 * (5 * r3) + h4 * (5 * r2))
        + b^2 * (h0 * r2 + h1 * r1 + h2 * r0 + h3 * (5 * r4) + h4 * (5 * r3))
        + b^3 * (h0 * r3 + h1 * r2 + h2 * r1 + h3 * r0 + h4 * (5 * r4))
        + b^4 * (h0 * r4 + h1 * r3 + h2 * r2 + h3 * r1 + h4 * r0))
       + b^5 * ((h1 * r4 + h2 * r3 + h3 * r2 + h4 * r1) + b * (h2 * r4 + h3 * r3 + h4 * r2)
            + b^2 * (h3 * r4 + h4 * r3) + b^3 * (h4 * r4))"
  by algebra

section \<open>Multiplication\<close>

text \<open>The bounds the code keeps: of the operand, of the multiplier, and of the products.\<close>

abbreviation operand_bound :: nat where "operand_bound \<equiv> 2 ^ 27 + 2 ^ 15"
abbreviation multiplier_bound :: nat where "multiplier_bound \<equiv> 2 ^ 26 + 2 ^ 15"

lemma limbs_reduced_below: "limbs_reduced a \<Longrightarrow> limbs_below multiplier_bound a"
  by (cases a) auto

text \<open>One coefficient of the product: a sum of five products, none of which wraps.\<close>

lemma limb_row:
  assumes "unat a < operand_bound" "unat b < operand_bound" "unat c < operand_bound"
    "unat d < operand_bound" "unat e < operand_bound"
    and "unat u < 5 * multiplier_bound" "unat v < 5 * multiplier_bound" "unat w < 5 * multiplier_bound"
    "unat x < 5 * multiplier_bound" "unat y < 5 * multiplier_bound"
  shows "unat (mul_wide a u + mul_wide b v + mul_wide c w + mul_wide d x + mul_wide e y)
      = unat a * unat u + unat b * unat v + unat c * unat w + unat d * unat x + unat e * unat y"
    and "unat (mul_wide a u + mul_wide b v + mul_wide c w + mul_wide d x + mul_wide e y) < 2 ^ 58"
proof -
  let ?K = "operand_bound * (5 * multiplier_bound)"
  have K: "unat a * unat u < ?K" "unat b * unat v < ?K" "unat c * unat w < ?K"
    "unat d * unat x < ?K" "unat e * unat y < ?K"
    by (rule mult_strict_mono'; use assms in simp)+
  show eq: "unat (mul_wide a u + mul_wide b v + mul_wide c w + mul_wide d x + mul_wide e y)
      = unat a * unat u + unat b * unat v + unat c * unat w + unat d * unat x + unat e * unat y"
    using K by (simp add: unat_add_exact unat_mul_wide)
  show "unat (mul_wide a u + mul_wide b v + mul_wide c w + mul_wide d x + mul_wide e y) < 2 ^ 58"
    unfolding eq using K by simp
qed

lemma mul_unreduced_exact:
  assumes "limbs_below operand_bound (h0, h1, h2, h3, h4)"
    and "limbs_below multiplier_bound (r0, r1, r2, r3, r4)"
  shows "wide_below (2 ^ 58) (mul_unreduced (h0, h1, h2, h3, h4) (r0, r1, r2, r3, r4) (five_times (r0, r1, r2, r3, r4)))"
    and "wide_val (mul_unreduced (h0, h1, h2, h3, h4) (r0, r1, r2, r3, r4) (five_times (r0, r1, r2, r3, r4)))
       = (unat h0 * unat r0 + unat h1 * (5 * unat r4) + unat h2 * (5 * unat r3) + unat h3 * (5 * unat r2) + unat h4 * (5 * unat r1))
        + 2^26 * (unat h0 * unat r1 + unat h1 * unat r0 + unat h2 * (5 * unat r4) + unat h3 * (5 * unat r3) + unat h4 * (5 * unat r2))
        + 2^52 * (unat h0 * unat r2 + unat h1 * unat r1 + unat h2 * unat r0 + unat h3 * (5 * unat r4) + unat h4 * (5 * unat r3))
        + 2^78 * (unat h0 * unat r3 + unat h1 * unat r2 + unat h2 * unat r1 + unat h3 * unat r0 + unat h4 * (5 * unat r4))
        + 2^104 * (unat h0 * unat r4 + unat h1 * unat r3 + unat h2 * unat r2 + unat h3 * unat r1 + unat h4 * unat r0)"
proof -
  have big: "unat r < 5 * multiplier_bound" if "unat r < multiplier_bound" for r :: u32
    using that by simp
  have five: "unat (r * 5) = 5 * unat r" "unat (r * 5) < 5 * multiplier_bound"
    if "unat r < multiplier_bound" for r :: u32
    using that by (subst unat_times_5; simp)+
  note h = assms(1) [unfolded limbs_below.simps]
  note r = assms(2) [unfolded limbs_below.simps]
  show "wide_below (2 ^ 58) (mul_unreduced (h0, h1, h2, h3, h4) (r0, r1, r2, r3, r4) (five_times (r0, r1, r2, r3, r4)))"
    unfolding five_times.simps mul_unreduced.simps wide_below.simps
    by (simp only: limb_row(2) h r big five(2) simp_thms)
  show "wide_val (mul_unreduced (h0, h1, h2, h3, h4) (r0, r1, r2, r3, r4) (five_times (r0, r1, r2, r3, r4)))
       = (unat h0 * unat r0 + unat h1 * (5 * unat r4) + unat h2 * (5 * unat r3) + unat h3 * (5 * unat r2) + unat h4 * (5 * unat r1))
        + 2^26 * (unat h0 * unat r1 + unat h1 * unat r0 + unat h2 * (5 * unat r4) + unat h3 * (5 * unat r3) + unat h4 * (5 * unat r2))
        + 2^52 * (unat h0 * unat r2 + unat h1 * unat r1 + unat h2 * unat r0 + unat h3 * (5 * unat r4) + unat h4 * (5 * unat r3))
        + 2^78 * (unat h0 * unat r3 + unat h1 * unat r2 + unat h2 * unat r1 + unat h3 * unat r0 + unat h4 * (5 * unat r4))
        + 2^104 * (unat h0 * unat r4 + unat h1 * unat r3 + unat h2 * unat r2 + unat h3 * unat r1 + unat h4 * unat r0)"
    unfolding five_times.simps mul_unreduced.simps wide_val.simps
    by (simp only: limb_row(1) h r big five(2) simp_thms) (simp only: five(1) r simp_thms)
qed

text \<open>The five-limb product is the product modulo \<open>2^130 - 5\<close>.\<close>

lemma mul_unreduced_val:
  assumes "limbs_below operand_bound h" "limbs_below multiplier_bound r"
  shows "wide_below (2 ^ 58) (mul_unreduced h r (five_times r))"
    and "wide_val (mul_unreduced h r (five_times r)) mod poly_p = limbs_val h * limbs_val r mod poly_p"
proof -
  obtain h0 h1 h2 h3 h4 where h: "h = (h0, h1, h2, h3, h4)" by (cases h)
  obtain r0 r1 r2 r3 r4 where r: "r = (r0, r1, r2, r3, r4)" by (cases r)
  note exact = mul_unreduced_exact [OF assms(1) [unfolded h] assms(2) [unfolded r]]
  show "wide_below (2 ^ 58) (mul_unreduced h r (five_times r))"
    unfolding h r by (rule exact)
  let ?q = "(unat h1 * unat r4 + unat h2 * unat r3 + unat h3 * unat r2 + unat h4 * unat r1)
     + 2^26 * (unat h2 * unat r4 + unat h3 * unat r3 + unat h4 * unat r2)
     + 2^52 * (unat h3 * unat r4 + unat h4 * unat r3) + 2^78 * (unat h4 * unat r4)"
  note identity = limb_products [of "unat h0" "2 ^ 26" "unat h1" "unat h2" "unat h3" "unat h4"
      "unat r0" "unat r1" "unat r2" "unat r3" "unat r4", unfolded power_mult [symmetric]]
  have "limbs_val h * limbs_val r + 5 * ?q
      = wide_val (mul_unreduced h r (five_times r)) + 2 ^ 130 * ?q"
    unfolding h r exact(2) limbs_val.simps using identity by simp
  then have "limbs_val h * limbs_val r = wide_val (mul_unreduced h r (five_times r)) + poly_p * ?q"
    unfolding poly_p_def by simp
  then show "wide_val (mul_unreduced h r (five_times r)) mod poly_p = limbs_val h * limbs_val r mod poly_p"
    by simp
qed

section \<open>Reduction\<close>

lemma unat_and_26 [simp]:
  "unat ((w :: u64) AND 0x3ffffff) = unat w mod 2 ^ 26" "unat ((v :: u32) AND 0x3ffffff) = unat v mod 2 ^ 26"
  using unat_and_mask [of w 26] unat_and_mask [of v 26] by (simp_all add: mask_eq_exp_minus_1)

lemma limb_split: "k mod 2 ^ 26 + 2 ^ 26 * (k div 2 ^ 26) = (k :: nat)"
  by simp

text \<open>What carrying does to the value: remainders \<open>a\<close>, carries \<open>c\<close>, the last one folded back.\<close>

lemma carry_chain:
  fixes a0 :: nat
  assumes "d0 = a0 + 2 ^ 26 * c0" "d1 + c0 = a1 + 2 ^ 26 * c1" "d2 + c1 = a2 + 2 ^ 26 * c2"
    "d3 + c2 = a3 + 2 ^ 26 * c3" "d4 + c3 = a4 + 2 ^ 26 * c4" "a0 + 5 * c4 = b + 2 ^ 26 * e"
  shows "d0 + 2 ^ 26 * d1 + 2 ^ 52 * d2 + 2 ^ 78 * d3 + 2 ^ 104 * d4
       = b + 2 ^ 26 * (a1 + e) + 2 ^ 52 * a2 + 2 ^ 78 * a3 + 2 ^ 104 * a4 + poly_p * c4"
  using assms unfolding poly_p_def by simp

lemma poly_reduce_exact:
  assumes "wide_below (2 ^ 61) d"
  shows "limbs_reduced (poly_reduce d)"
    and "\<exists>c. wide_val d = limbs_val (poly_reduce d) + poly_p * c"
proof -
  obtain d0 d1 d2 d3 d4 where d: "d = (d0, d1, d2, d3, d4)" by (cases d)
  define D0 where "D0 = unat d0"
  define D1 where "D1 = unat d1 + D0 div 2 ^ 26"
  define D2 where "D2 = unat d2 + D1 div 2 ^ 26"
  define D3 where "D3 = unat d3 + D2 div 2 ^ 26"
  define D4 where "D4 = unat d4 + D3 div 2 ^ 26"
  define F where "F = D0 mod 2 ^ 26 + 5 * (D4 div 2 ^ 26)"
  have small: "unat d0 < 2 ^ 61" "unat d1 < 2 ^ 61" "unat d2 < 2 ^ 61" "unat d3 < 2 ^ 61" "unat d4 < 2 ^ 61"
    using assms by (auto simp: d)
  have B: "D0 < 2 ^ 62" "D1 < 2 ^ 62" "D2 < 2 ^ 62" "D3 < 2 ^ 62" "D4 < 2 ^ 62" "F < 2 ^ 40"
    using small by (simp_all add: D0_def D1_def D2_def D3_def D4_def F_def)
  let ?e1 = "d1 + drop_bit 26 d0" 
  let ?e2 = "d2 + drop_bit 26 ?e1"
  let ?e3 = "d3 + drop_bit 26 ?e2"
  let ?e4 = "d4 + drop_bit 26 ?e3"
  let ?f = "(d0 AND 0x3ffffff) + drop_bit 26 ?e4 * 5"
  have e0: "unat d0 = D0" by (simp add: D0_def)
  have e1: "unat ?e1 = D1"
    using B small by (subst unat_add_exact) (simp_all add: unat_drop_bit e0 D1_def)
  have e2: "unat ?e2 = D2"
    using B small by (subst unat_add_exact) (simp_all add: unat_drop_bit e1 D2_def)
  have e3: "unat ?e3 = D3"
    using B small by (subst unat_add_exact) (simp_all add: unat_drop_bit e2 D3_def)
  have e4: "unat ?e4 = D4"
    using B small by (subst unat_add_exact) (simp_all add: unat_drop_bit e3 D4_def)
  have c: "unat (drop_bit 26 ?e4 * 5) = 5 * (D4 div 2 ^ 26)"
    using B by (subst unat_mul_exact) (simp_all add: unat_drop_bit e4)
  have f: "unat ?f = F"
    using B by (subst unat_add_exact) (simp_all add: c e0 F_def)
  have last: "unat ((?e1 AND 0x3ffffff) + drop_bit 26 ?f) = D1 mod 2 ^ 26 + F div 2 ^ 26"
    using B by (subst unat_add_exact) (simp_all add: unat_drop_bit f e1)
  have fd: "F div 2 ^ 26 < 2 ^ 14" using B by simp
  have result: "poly_reduce d = (ucast (?f AND 0x3ffffff), ucast ((?e1 AND 0x3ffffff) + drop_bit 26 ?f),
      ucast (?e2 AND 0x3ffffff), ucast (?e3 AND 0x3ffffff), ucast (?e4 AND 0x3ffffff))"
    by (simp only: d poly_reduce_def prod.case Let_def)
  have out: "unat (ucast (?f AND 0x3ffffff) :: u32) = F mod 2 ^ 26"
    "unat (ucast ((?e1 AND 0x3ffffff) + drop_bit 26 ?f) :: u32) = D1 mod 2 ^ 26 + F div 2 ^ 26"
    "unat (ucast (?e2 AND 0x3ffffff) :: u32) = D2 mod 2 ^ 26"
    "unat (ucast (?e3 AND 0x3ffffff) :: u32) = D3 mod 2 ^ 26"
    "unat (ucast (?e4 AND 0x3ffffff) :: u32) = D4 mod 2 ^ 26"
    using fd by (simp_all add: unat_ucast f last e2 e3 e4)
  have val: "limbs_reduced (poly_reduce d)" "limbs_val (poly_reduce d) =
      F mod 2 ^ 26 + 2 ^ 26 * (D1 mod 2 ^ 26 + F div 2 ^ 26) + 2 ^ 52 * (D2 mod 2 ^ 26)
      + 2 ^ 78 * (D3 mod 2 ^ 26) + 2 ^ 104 * (D4 mod 2 ^ 26)"
    unfolding result limbs_reduced.simps limbs_val.simps out using fd by simp_all
  show "limbs_reduced (poly_reduce d)" by (rule val)
  have "wide_val d = limbs_val (poly_reduce d) + poly_p * (D4 div 2 ^ 26)"
    unfolding val(2) unfolding d wide_val.simps
    by (rule carry_chain [where ?a0.0 = "D0 mod 2 ^ 26" and ?c0.0 = "D0 div 2 ^ 26"
            and ?c1.0 = "D1 div 2 ^ 26" and ?c2.0 = "D2 div 2 ^ 26" and ?c3.0 = "D3 div 2 ^ 26"])
       (simp_all only: limb_split D0_def [symmetric] D1_def [symmetric] D2_def [symmetric]
          D3_def [symmetric] D4_def [symmetric] F_def [symmetric])
  then show "\<exists>c. wide_val d = limbs_val (poly_reduce d) + poly_p * c" by blast
qed

lemma poly_mul_val:
  assumes "limbs_below operand_bound h" "limbs_below multiplier_bound r"
  shows "limbs_reduced (poly_mul h r)"
    and "limbs_val (poly_mul h r) mod poly_p = limbs_val h * limbs_val r mod poly_p"
proof -
  note product = mul_unreduced_val [OF assms]
  have "wide_below (2 ^ 61) (mul_unreduced h r (five_times r))"
    using product(1) by (cases "mul_unreduced h r (five_times r)") auto
  note reduced = poly_reduce_exact [OF this]
  show "limbs_reduced (poly_mul h r)" unfolding poly_mul_def by (rule reduced)
  obtain c where "wide_val (mul_unreduced h r (five_times r)) = limbs_val (poly_mul h r) + poly_p * c"
    using reduced(2) unfolding poly_mul_def by blast
  then show "limbs_val (poly_mul h r) mod poly_p = limbs_val h * limbs_val r mod poly_p"
    using product(2) by simp
qed

text \<open>Four products are added before they are reduced.\<close>

lemma wide_add_val:
  assumes "wide_below j d" "wide_below k e" "j + k \<le> 2 ^ 62"
  shows "wide_below (j + k) (wide_add d e)" and "wide_val (wide_add d e) = wide_val d + wide_val e"
proof -
  obtain d0 d1 d2 d3 d4 where d: "d = (d0, d1, d2, d3, d4)" by (cases d)
  obtain e0 e1 e2 e3 e4 where e: "e = (e0, e1, e2, e3, e4)" by (cases e)
  have sum: "unat (x + y) = unat x + unat y" if "unat x < j" "unat y < k" for x y :: u64
    using that assms(3) by (intro unat_add_exact) simp
  note b = assms(1) [unfolded d wide_below.simps] assms(2) [unfolded e wide_below.simps]
  show "wide_below (j + k) (wide_add d e)"
    unfolding d e wide_add.simps wide_below.simps using b by (simp add: sum)
  show "wide_val (wide_add d e) = wide_val d + wide_val e"
    unfolding d e wide_add.simps wide_val.simps using b by (simp only: sum) simp
qed

section \<open>Loading\<close>

text \<open>Twenty-six bits out of two neighbouring words.\<close>

lemma div_power_less: "t < 2 ^ 32 \<Longrightarrow> k \<le> 32 \<Longrightarrow> t div 2 ^ k < 2 ^ (32 - k)" for t :: nat
  by (rule less_mult_imp_div_less) (simp flip: power_add)

lemma unat_window:
  assumes "6 \<le> k" "k < 32"
  shows "unat ((drop_bit k t OR push_bit (32 - k) u) AND 0x3ffffff :: u32)
       = (unat t div 2 ^ k + 2 ^ (32 - k) * unat u) mod 2 ^ 26"
proof -
  have "unat t div 2 ^ k < 2 ^ (32 - k)"
    by (rule div_power_less) (use unsigned_less [of t] assms(2) in simp_all)
  then have "unat (drop_bit k t OR push_bit (32 - k) u) = unat t div 2 ^ k + 2 ^ (32 - k) * (unat u mod 2 ^ k)"
    using assms(2) by (subst unat_or_push) (simp_all add: unat_drop_bit)
  also have "2 ^ (32 - k) * (unat u mod 2 ^ k) = (2 ^ (32 - k) * unat u) mod 2 ^ 32"
    using assms(2) by (simp add: mult_mod_right flip: power_add)
  finally have "unat ((drop_bit k t OR push_bit (32 - k) u) AND 0x3ffffff)
      = (unat t div 2 ^ k + (2 ^ (32 - k) * unat u) mod 2 ^ 32) mod 2 ^ 26"
    by (simp only: unat_and_26)
  also have "\<dots> = (unat t div 2 ^ k + 2 ^ (32 - k) * unat u) mod 2 ^ 26"
    by (rule mod_add_cong [OF refl]) (rule mod_mod_cancel, simp)
  finally show ?thesis .
qed

lemma unat_windows:
  "unat ((drop_bit 26 t OR push_bit 6 u) AND 0x3ffffff :: u32) = (unat t div 2 ^ 26 + 2 ^ 6 * unat u) mod 2 ^ 26"
  "unat ((drop_bit 20 t OR push_bit 12 u) AND 0x3ffffff :: u32) = (unat t div 2 ^ 20 + 2 ^ 12 * unat u) mod 2 ^ 26"
  "unat ((drop_bit 14 t OR push_bit 18 u) AND 0x3ffffff :: u32) = (unat t div 2 ^ 14 + 2 ^ 18 * unat u) mod 2 ^ 26"
proof -
  have d: "32 - 26 = (6 :: nat)" "32 - 20 = (12 :: nat)" "32 - 14 = (18 :: nat)" by simp_all
  show "unat ((drop_bit 26 t OR push_bit 6 u) AND 0x3ffffff :: u32) = (unat t div 2 ^ 26 + 2 ^ 6 * unat u) mod 2 ^ 26"
    by (rule unat_window [of 26 t u, unfolded d(1)]) simp_all
  show "unat ((drop_bit 20 t OR push_bit 12 u) AND 0x3ffffff :: u32) = (unat t div 2 ^ 20 + 2 ^ 12 * unat u) mod 2 ^ 26"
    by (rule unat_window [of 20 t u, unfolded d(2)]) simp_all
  show "unat ((drop_bit 14 t OR push_bit 18 u) AND 0x3ffffff :: u32) = (unat t div 2 ^ 14 + 2 ^ 18 * unat u) mod 2 ^ 26"
    by (rule unat_window [of 14 t u, unfolded d(3)]) simp_all
qed

lemma le_val_words:
  assumes "length b = 16"
  shows "le_val b = unat (word_of_le (slice 0 4 b) :: u32) + 2 ^ 32 * unat (word_of_le (slice 4 4 b) :: u32)
       + 2 ^ 64 * unat (word_of_le (slice 8 4 b) :: u32) + 2 ^ 96 * unat (word_of_le (slice 12 4 b) :: u32)"
proof -
  have "b = slice 0 4 b @ slice 4 4 b @ slice 8 4 b @ slice 12 4 b"
    using assms append_take_drop_id [of 4 b] append_take_drop_id [of 4 "drop 4 b"]
      append_take_drop_id [of 4 "drop 8 b"] by (simp add: slice_def)
  then have "le_val b = le_val (slice 0 4 b @ slice 4 4 b @ slice 8 4 b @ slice 12 4 b)" by simp
  then show ?thesis using assms by (simp add: le_val_append unat_word_of_le)
qed

lemma limb_windows:
  fixes t0 :: nat
  assumes "t0 < 2 ^ 32" "t1 < 2 ^ 32" "t2 < 2 ^ 32" "t3 < 2 ^ 32"
  shows "t0 mod 2 ^ 26 + 2 ^ 26 * ((t0 div 2 ^ 26 + 2 ^ 6 * t1) mod 2 ^ 26)
       + 2 ^ 52 * ((t1 div 2 ^ 20 + 2 ^ 12 * t2) mod 2 ^ 26)
       + 2 ^ 78 * ((t2 div 2 ^ 14 + 2 ^ 18 * t3) mod 2 ^ 26) + 2 ^ 104 * (t3 div 2 ^ 8)
     = t0 + 2 ^ 32 * t1 + 2 ^ 64 * t2 + 2 ^ 96 * t3"
proof -
  have window: "(t div 2 ^ k + 2 ^ (32 - k) * u) mod 2 ^ 26 = t div 2 ^ k + 2 ^ (32 - k) * (u mod 2 ^ (k - 6))"
    if "t < 2 ^ 32" "6 \<le> k" "k < 32" for t u k :: nat
  proof -
    have "t div 2 ^ k < 2 ^ (32 - k)" by (rule div_power_less) (use that in simp_all)
    moreover have "(2 :: nat) ^ 26 = 2 ^ (32 - k) * 2 ^ (k - 6)" using that by (simp flip: power_add)
    ultimately show ?thesis by (simp only: mod_mult2_eq) simp
  qed
  have weighted: "m0 + 2 ^ 26 * w1 + 2 ^ 52 * w2 + 2 ^ 78 * w3 + 2 ^ 104 * q3
      = t0 + 2 ^ 32 * t1 + 2 ^ 64 * t2 + 2 ^ 96 * t3"
    if "t0 = 2 ^ 26 * q0 + m0" "t1 = 2 ^ 20 * q1 + m1" "t2 = 2 ^ 14 * q2 + m2" "t3 = 2 ^ 8 * q3 + m3"
      "w1 = q0 + 2 ^ 6 * m1" "w2 = q1 + 2 ^ 12 * m2" "w3 = q2 + 2 ^ 18 * m3"
    for m0 m1 m2 m3 q0 q1 q2 q3 w1 w2 w3
    using that by simp
  show ?thesis
  proof (rule weighted [OF mult_div_mod_eq [symmetric, of _ "2 ^ 26"] mult_div_mod_eq [symmetric, of _ "2 ^ 20"]
        mult_div_mod_eq [symmetric, of _ "2 ^ 14"] mult_div_mod_eq [symmetric, of _ "2 ^ 8"]])
    show "(t0 div 2 ^ 26 + 2 ^ 6 * t1) mod 2 ^ 26 = t0 div 2 ^ 26 + 2 ^ 6 * (t1 mod 2 ^ 20)"
      using window [of t0 26 t1] assms(1) by simp
    show "(t1 div 2 ^ 20 + 2 ^ 12 * t2) mod 2 ^ 26 = t1 div 2 ^ 20 + 2 ^ 12 * (t2 mod 2 ^ 14)"
      using window [of t1 20 t2] assms(2) by simp
    show "(t2 div 2 ^ 14 + 2 ^ 18 * t3) mod 2 ^ 26 = t2 div 2 ^ 14 + 2 ^ 18 * (t3 mod 2 ^ 8)"
      using window [of t2 14 t3] assms(3) by simp
  qed
qed

lemma poly_load_val:
  assumes b: "length b = 16" and q: "unat q \<le> 1"
  shows "limbs_below (2 ^ 26) (poly_load b (push_bit 24 q))"
    and "limbs_val (poly_load b (push_bit 24 q)) = le_val b + 2 ^ 128 * unat q"
proof -
  let ?t0 = "word_of_le (slice 0 4 b) :: u32" and ?t1 = "word_of_le (slice 4 4 b) :: u32"
  let ?t2 = "word_of_le (slice 8 4 b) :: u32" and ?t3 = "word_of_le (slice 12 4 b) :: u32"
  have w: "unat ?t0 < 2 ^ 32" "unat ?t1 < 2 ^ 32" "unat ?t2 < 2 ^ 32" "unat ?t3 < 2 ^ 32"
    using unsigned_less [of ?t0] unsigned_less [of ?t1] unsigned_less [of ?t2] unsigned_less [of ?t3] by simp_all
  have h: "unat ?t3 div 2 ^ 8 < 2 ^ 24" using div_power_less [OF w(4), of 8] by simp
  have top: "unat (drop_bit 8 ?t3 OR push_bit 24 q) = unat ?t3 div 2 ^ 8 + 2 ^ 24 * unat q"
    using h q by (subst unat_or_push) (simp_all add: unat_drop_bit)
  have load: "poly_load b (push_bit 24 q) =
      (?t0 AND 0x3ffffff, (drop_bit 26 ?t0 OR push_bit 6 ?t1) AND 0x3ffffff,
       (drop_bit 20 ?t1 OR push_bit 12 ?t2) AND 0x3ffffff,
       (drop_bit 14 ?t2 OR push_bit 18 ?t3) AND 0x3ffffff, drop_bit 8 ?t3 OR push_bit 24 q)"
    by (simp only: poly_load_def Let_def)
  have limbs: "unat (?t0 AND 0x3ffffff) = unat ?t0 mod 2 ^ 26"
    "unat ((drop_bit 26 ?t0 OR push_bit 6 ?t1) AND 0x3ffffff) = (unat ?t0 div 2 ^ 26 + 2 ^ 6 * unat ?t1) mod 2 ^ 26"
    "unat ((drop_bit 20 ?t1 OR push_bit 12 ?t2) AND 0x3ffffff) = (unat ?t1 div 2 ^ 20 + 2 ^ 12 * unat ?t2) mod 2 ^ 26"
    "unat ((drop_bit 14 ?t2 OR push_bit 18 ?t3) AND 0x3ffffff) = (unat ?t2 div 2 ^ 14 + 2 ^ 18 * unat ?t3) mod 2 ^ 26"
    by (rule unat_windows unat_and_26)+
  have below: "x mod 2 ^ 26 < 2 ^ 26" for x :: nat by simp
  show "limbs_below (2 ^ 26) (poly_load b (push_bit 24 q))"
    unfolding load limbs_below.simps limbs top using h q by (simp only: below simp_thms) simp
  show "limbs_val (poly_load b (push_bit 24 q)) = le_val b + 2 ^ 128 * unat q"
    unfolding load limbs_val.simps limbs top le_val_words [OF b] limb_windows [OF w, symmetric] by simp
qed

text \<open>Clamping the key limb by limb is clamping its number.\<close>

definition poly_clamped :: "bytes \<Rightarrow> bytes" where
  "poly_clamped key = le_of_word 16 ((word_of_le (take 16 key) :: u128) AND 0x0ffffffc0ffffffc0ffffffc0fffffff)"

lemma poly_clamp_val: "poly_clamp key = le_val (poly_clamped key)"
proof -
  have "unat (word_of_le (poly_clamped key) :: u128) = le_val (poly_clamped key)"
    by (rule unat_word_of_le) (simp add: poly_clamped_def)
  then show ?thesis by (simp add: poly_clamp_def poly_clamped_def word_of_le_of_word)
qed

lemma word_of_le_slice:
  assumes "p + 4 \<le> 16" "16 \<le> length key"
  shows "(word_of_le (slice p 4 key) :: u32) = ucast (drop_bit (8 * p) (word_of_le (take 16 key) :: u128))"
proof (rule bit_word_eqI)
  fix n assume "n < LENGTH(32)"
  then have n: "n < 32" by simp
  then have "(8 * p + n) div 8 = p + n div 8" "(8 * p + n) mod 8 = n mod 8" "n div 8 < 4" by auto
  then show "bit (word_of_le (slice p 4 key) :: u32) n
      \<longleftrightarrow> bit (ucast (drop_bit (8 * p) (word_of_le (take 16 key) :: u128)) :: u32) n"
    using n assms by (simp add: bit_word_of_le bit_unsigned_iff bit_drop_bit_eq slice_def)
qed

lemma poly_clamped_words:
  assumes "length key = 32"
  shows "(word_of_le (slice 0 4 (poly_clamped key)) :: u32) = word_of_le (slice 0 4 key) AND 0x0fffffff"
    and "(word_of_le (slice 4 4 (poly_clamped key)) :: u32) = word_of_le (slice 4 4 key) AND 0x0ffffffc"
    and "(word_of_le (slice 8 4 (poly_clamped key)) :: u32) = word_of_le (slice 8 4 key) AND 0x0ffffffc"
    and "(word_of_le (slice 12 4 (poly_clamped key)) :: u32) = word_of_le (slice 12 4 key) AND 0x0ffffffc"
proof -
  have word: "(word_of_le (slice p 4 (poly_clamped key)) :: u32)
      = word_of_le (slice p 4 key) AND ucast (drop_bit (8 * p) (0x0ffffffc0ffffffc0ffffffc0fffffff :: u128))"
    if "p + 4 \<le> 16" for p
  proof -
    have "(word_of_le (take 16 (poly_clamped key)) :: u128)
        = word_of_le (take 16 key) AND 0x0ffffffc0ffffffc0ffffffc0fffffff"
      by (simp add: poly_clamped_def word_of_le_of_word)
    then show ?thesis
      using that assms word_of_le_slice [of p "poly_clamped key"] word_of_le_slice [of p key]
      by (simp add: poly_clamped_def drop_bit_and unsigned_and_eq)
  qed
  have masks: "(21267647620597763993911028882763415551 :: u32) = 0x0fffffff"
    "(4951760084507466292453703676 :: u32) = 0x0ffffffc" "(1152921487695413244 :: u32) = 0x0ffffffc"
    by (simp_all add: word_uint_eq_iff)
  show "(word_of_le (slice 0 4 (poly_clamped key)) :: u32) = word_of_le (slice 0 4 key) AND 0x0fffffff"
    "(word_of_le (slice 4 4 (poly_clamped key)) :: u32) = word_of_le (slice 4 4 key) AND 0x0ffffffc"
    "(word_of_le (slice 8 4 (poly_clamped key)) :: u32) = word_of_le (slice 8 4 key) AND 0x0ffffffc"
    "(word_of_le (slice 12 4 (poly_clamped key)) :: u32) = word_of_le (slice 12 4 key) AND 0x0ffffffc"
    using word [of 0] word [of 4] word [of 8] word [of 12] by (simp_all add: masks)
qed

lemma clamp_windows:
  "(drop_bit 26 (t0 AND 0x0fffffff) OR push_bit 6 (t1 AND 0x0ffffffc)) AND 0x3ffffff
     = (drop_bit 26 t0 OR push_bit 6 t1) AND (0x3ffff03 :: u32)"
  "(drop_bit 20 (t1 AND 0x0ffffffc) OR push_bit 12 (t2 AND 0x0ffffffc)) AND 0x3ffffff
     = (drop_bit 20 t1 OR push_bit 12 t2) AND (0x3ffc0ff :: u32)"
  "(drop_bit 14 (t2 AND 0x0ffffffc) OR push_bit 18 (t3 AND 0x0ffffffc)) AND 0x3ffffff
     = (drop_bit 14 t2 OR push_bit 18 t3) AND (0x3f03fff :: u32)"
  by (rule u32_eqI; simp only: upt_32 list.pred_inject; simp add: bit_simps u32_bit_out)+

text \<open>The limbs \<open>new\<close> makes of the key are those of the clamped number.\<close>

lemma poly_clamped_load:
  assumes "length key = 32"
  shows "(let t0 = word_of_le (slice 0 4 key) :: u32; t1 = word_of_le (slice 4 4 key);
           t2 = word_of_le (slice 8 4 key); t3 = word_of_le (slice 12 4 key)
      in (t0 AND 0x3ffffff, (drop_bit 26 t0 OR push_bit 6 t1) AND 0x3ffff03,
          (drop_bit 20 t1 OR push_bit 12 t2) AND 0x3ffc0ff,
          (drop_bit 14 t2 OR push_bit 18 t3) AND 0x3f03fff, drop_bit 8 t3 AND 0x00fffff))
    = poly_load (poly_clamped key) (push_bit 24 0)"
proof -
  have "(t0 AND 0x0fffffff) AND 0x3ffffff = t0 AND (0x3ffffff :: u32)" for t0
    by (simp add: and.assoc)
  moreover have "drop_bit 8 (t3 AND 0x0ffffffc) OR push_bit 24 0 = drop_bit 8 t3 AND (0x00fffff :: u32)" for t3
    by (simp add: drop_bit_and)
  ultimately show ?thesis
    unfolding poly_load_def poly_clamped_words [OF assms] Let_def by (simp only: clamp_windows)
qed

section \<open>Absorbing\<close>

definition poly_step :: "nat \<Rightarrow> nat \<Rightarrow> bytes \<Rightarrow> nat" where
  "poly_step r acc b = (acc + poly_block b) * r mod poly_p"

definition poly_inv :: "poly1305 \<Rightarrow> bool" where
  "poly_inv p \<longleftrightarrow>
     (case poly_powers p of (r2, r3, r4) \<Rightarrow>
        limbs_below multiplier_bound (poly_r p) \<and> limbs_below multiplier_bound r2
        \<and> limbs_below multiplier_bound r3 \<and> limbs_below multiplier_bound r4
        \<and> limbs_val r2 mod poly_p = limbs_val (poly_r p) ^ 2 mod poly_p
        \<and> limbs_val r3 mod poly_p = limbs_val (poly_r p) ^ 3 mod poly_p
        \<and> limbs_val r4 mod poly_p = limbs_val (poly_r p) ^ 4 mod poly_p)
     \<and> limbs_reduced (poly_acc p) \<and> length (poly_buf p) = 16"

definition poly_abs :: "poly1305 \<Rightarrow> nat \<times> bytes \<times> nat" where
  "poly_abs p = (limbs_val (poly_acc p) mod poly_p, poly_buf p, poly_buffered p)"

lemma limbs_add_val:
  assumes "limbs_reduced a" "limbs_below (2 ^ 26) b"
  shows "limbs_below operand_bound (limbs_add a b)" and "limbs_val (limbs_add a b) = limbs_val a + limbs_val b"
    and "limbs_add b a = limbs_add a b"
proof -
  obtain a0 a1 a2 a3 a4 where a: "a = (a0, a1, a2, a3, a4)" by (cases a)
  obtain b0 b1 b2 b3 b4 where b: "b = (b0, b1, b2, b3, b4)" by (cases b)
  have sum: "unat (x + y) = unat x + unat y" if "unat x < 2 ^ 26 + 2 ^ 15" "unat y < 2 ^ 26" for x y :: u32
    using that by (intro unat_add_exact) simp
  have wide: "unat x < 2 ^ 26 + 2 ^ 15" if "unat x < 2 ^ 26" for x :: u32 using that by simp
  note f = assms(1) [unfolded a limbs_reduced.simps] assms(2) [unfolded b limbs_below.simps]
  show "limbs_below operand_bound (limbs_add a b)"
    unfolding a b limbs_add.simps limbs_below.simps using f by (simp only: sum wide simp_thms) simp
  show "limbs_val (limbs_add a b) = limbs_val a + limbs_val b"
    unfolding a b limbs_add.simps limbs_val.simps using f by (simp only: sum wide simp_thms) simp
  show "limbs_add b a = limbs_add a b"
    unfolding a b by (simp add: add.commute)
qed

lemma le_val_replicate_0 [simp]: "le_val (replicate n 0) = 0"
  by (induction n) simp_all

text \<open>The padded block and the bit above it are the block's number.\<close>

lemma padded_block:
  assumes "length b \<le> 16"
  obtains c q where "(if length b < 16 then ((write_at 0 b (replicate 16 0))[length b := 1], 0)
        else (write_at 0 b (replicate 16 0), push_bit 24 1)) = (c, push_bit 24 q)"
    "length c = 16" "unat (q :: u32) \<le> 1" "le_val c + 2 ^ 128 * unat q = poly_block b"
proof (cases "length b < 16")
  case True
  define z :: "bytes" where "z = replicate (15 - length b) 0"
  have "replicate (16 - length b) (0 :: u8) = 0 # z"
    using True by (simp add: z_def flip: replicate_Suc)
  then have "(write_at 0 b (replicate 16 0))[length b := 1] = b @ 1 # z"
    using True by (simp add: write_at_0 list_update_append)
  moreover have "le_val (b @ 1 # z) = poly_block b"
    by (simp add: le_val_append poly_block_def z_def)
  ultimately show ?thesis
    using True by (intro that [of "b @ 1 # z" 0]) (simp_all add: z_def)
next
  case False
  then have "length b = 16" using assms by simp
  then show ?thesis
    by (intro that [of b 1]) (simp_all add: write_at_0 poly_block_def)
qed

lemma absorb_block_val:
  assumes p: "poly_inv p" and b: "length b \<le> 16"
  shows "poly_inv (absorb_block b p)"
    and "limbs_val (poly_acc (absorb_block b p)) mod poly_p
       = poly_step (limbs_val (poly_r p)) (limbs_val (poly_acc p) mod poly_p) b"
    and "poly_r (absorb_block b p) = poly_r p" "poly_s (absorb_block b p) = poly_s p"
    and "poly_buf (absorb_block b p) = poly_buf p" "poly_buffered (absorb_block b p) = poly_buffered p"
proof -
  obtain c q where c: "(if length b < 16 then ((write_at 0 b (replicate 16 0))[length b := 1], 0)
        else (write_at 0 b (replicate 16 0), push_bit 24 1)) = (c, push_bit 24 q)"
    "length c = 16" "unat (q :: u32) \<le> 1" "le_val c + 2 ^ 128 * unat q = poly_block b"
    by (rule padded_block [OF b])
  have e: "absorb_block b p = p\<lparr>poly_acc := poly_mul (limbs_add (poly_acc p) (poly_load c (push_bit 24 q))) (poly_r p)\<rparr>"
    unfolding absorb_block_def Let_def c(1) by simp
  note load = poly_load_val [OF c(2,3)]
  have inv: "limbs_reduced (poly_acc p)" "limbs_below multiplier_bound (poly_r p)"
    using p by (auto simp: poly_inv_def split: prod.splits)
  note product = poly_mul_val [OF limbs_add_val(1) [OF inv(1) load(1)] inv(2)]
  show "poly_inv (absorb_block b p)"
    using p product(1) by (simp add: e poly_inv_def)
  have "limbs_val (poly_acc (absorb_block b p)) mod poly_p
      = (limbs_val (poly_acc p) + poly_block b) * limbs_val (poly_r p) mod poly_p"
    using product(2) unfolding limbs_add_val(2) [OF inv(1) load(1)] load(2) c(4) by (simp add: e)
  also have "\<dots> = poly_step (limbs_val (poly_r p)) (limbs_val (poly_acc p) mod poly_p) b"
    unfolding poly_step_def by (metis mod_add_left_eq mod_mult_left_eq)
  finally show "limbs_val (poly_acc (absorb_block b p)) mod poly_p
      = poly_step (limbs_val (poly_r p)) (limbs_val (poly_acc p) mod poly_p) b" .
qed (simp_all add: absorb_block_def Let_def split: prod.splits)

text \<open>Four products with the powers of \<open>r\<close> are four steps.\<close>

lemma horner_4:
  fixes h :: nat
  assumes "s2 mod p = r ^ 2 mod p" "s3 mod p = r ^ 3 mod p" "s4 mod p = r ^ 4 mod p"
  shows "((((h + m0) * r mod p + m1) * r mod p + m2) * r mod p + m3) * r mod p
       = ((h + m0) * s4 + m1 * s3 + m2 * s2 + m3 * r) mod p"
proof -
  have step: "(x mod p + m) * r mod p = (x + m) * r mod p" for x m
    by (metis mod_add_left_eq mod_mult_left_eq)
  have "((((h + m0) * r mod p + m1) * r mod p + m2) * r mod p + m3) * r mod p
      = ((h + m0) * r ^ 4 + m1 * r ^ 3 + m2 * r ^ 2 + m3 * r) mod p"
    by (simp only: step) (simp add: algebra_simps eval_nat_numeral)
  also have "\<dots> = ((h + m0) * s4 + m1 * s3 + m2 * s2 + m3 * r) mod p"
    using assms by (intro mod_add_cong mod_mult_cong refl) simp_all
  finally show ?thesis .
qed

lemma wide_below_mono: "wide_below j d \<Longrightarrow> j \<le> k \<Longrightarrow> wide_below k d"
  by (cases d) auto

lemma chunks_64:
  assumes "length b = 64"
  shows "chunks 16 b = [slice 0 16 b, slice 16 16 b, slice 32 16 b, slice 48 16 b]"
proof -
  have "b \<noteq> []" using assms by auto
  then show ?thesis using assms by (simp add: chunks_step slice_def)
qed

lemma absorb4_val:
  assumes p: "poly_inv p" and b: "length b = 64"
  shows "poly_inv (absorb4 b p)"
    and "limbs_val (poly_acc (absorb4 b p)) mod poly_p
       = fold (\<lambda>c h. poly_step (limbs_val (poly_r p)) h c) (chunks 16 b) (limbs_val (poly_acc p) mod poly_p)"
    and "poly_r (absorb4 b p) = poly_r p" "poly_s (absorb4 b p) = poly_s p"
    and "poly_buf (absorb4 b p) = poly_buf p" "poly_buffered (absorb4 b p) = poly_buffered p"
proof -
  obtain r2 r3 r4 where powers: "poly_powers p = (r2, r3, r4)" by (cases "poly_powers p")
  have inv: "limbs_reduced (poly_acc p)" "limbs_below multiplier_bound (poly_r p)"
    "limbs_below multiplier_bound r2" "limbs_below multiplier_bound r3" "limbs_below multiplier_bound r4"
    "limbs_val r2 mod poly_p = limbs_val (poly_r p) ^ 2 mod poly_p"
    "limbs_val r3 mod poly_p = limbs_val (poly_r p) ^ 3 mod poly_p"
    "limbs_val r4 mod poly_p = limbs_val (poly_r p) ^ 4 mod poly_p"
    using p by (simp_all add: poly_inv_def powers)
  let ?c = "\<lambda>i. slice (i * 16) 16 b"
  let ?m = "\<lambda>i. poly_load (?c i) (push_bit 24 1)"
  let ?x = "\<lambda>h r. mul_unreduced h r (five_times r)"
  let ?first = "limbs_add (?m 0) (poly_acc p)"
  let ?d = "wide_add (wide_add (wide_add (wide_add (0, 0, 0, 0, 0) (?x ?first r4)) (?x (?m 1) r3))
              (?x (?m 2) r2)) (?x (?m 3) (poly_r p))"
  have e: "absorb4 b p = p\<lparr>poly_acc := poly_reduce ?d\<rparr>"
    by (simp add: absorb4_def powers Let_def)
  have c: "length (?c i) = 16" if "i < 4" for i using b that by simp
  have load: "limbs_below (2 ^ 26) (?m i)" "limbs_val (?m i) = poly_block (?c i)" if "i < 4" for i
    using poly_load_val [OF c [OF that], of 1] c [OF that] by (simp_all add: poly_block_def)
  have m: "limbs_below operand_bound (?m i)" if "i < 4" for i
    using load(1) [OF that] by (cases "?m i") auto
  have m0: "limbs_below operand_bound ?first" "limbs_val ?first = limbs_val (poly_acc p) + poly_block (?c 0)"
    using limbs_add_val [OF inv(1) load(1) [of 0]] load(2) [of 0] by (simp_all add: limbs_add_val(3) [OF inv(1) load(1) [of 0]])
  have i: "(0 :: nat) < 4" "(1 :: nat) < 4" "(2 :: nat) < 4" "(3 :: nat) < 4" by simp_all
  have k: "(1 :: nat) + 2 ^ 58 \<le> 2 ^ 62" "(1 :: nat) + 2 ^ 58 + 2 ^ 58 \<le> 2 ^ 62"
    "(1 :: nat) + 2 ^ 58 + 2 ^ 58 + 2 ^ 58 \<le> 2 ^ 62" "(1 :: nat) + 2 ^ 58 + 2 ^ 58 + 2 ^ 58 + 2 ^ 58 \<le> 2 ^ 62"
    by simp_all
  note x0 = mul_unreduced_val [OF m0(1) inv(5)] and x1 = mul_unreduced_val [OF m [OF i(2)] inv(4)]
    and x2 = mul_unreduced_val [OF m [OF i(3)] inv(3)] and x3 = mul_unreduced_val [OF m [OF i(4)] inv(2)]
  have zero: "wide_below 1 (0, 0, 0, 0, 0)" "wide_val (0, 0, 0, 0, 0) = 0" by simp_all
  note s0 = wide_add_val [OF zero(1) x0(1) k(1)]
  note s1 = wide_add_val [OF s0(1) x1(1) k(2)]
  note s2 = wide_add_val [OF s1(1) x2(1) k(3)]
  note s3 = wide_add_val [OF s2(1) x3(1) k(4)]
  have "wide_below (1 + 2 ^ 58 + 2 ^ 58 + 2 ^ 58 + 2 ^ 58) ?d" by (rule s3)
  then have "wide_below (2 ^ 61) ?d" by (rule wide_below_mono) simp
  note reduced = poly_reduce_exact [OF this]
  have "wide_val ?d = wide_val (?x ?first r4) + wide_val (?x (?m 1) r3) + wide_val (?x (?m 2) r2) + wide_val (?x (?m 3) (poly_r p))"
    unfolding s3(2) s2(2) s1(2) s0(2) zero by simp
  then have "wide_val ?d mod poly_p = (limbs_val ?first * limbs_val r4 + limbs_val (?m 1) * limbs_val r3
      + limbs_val (?m 2) * limbs_val r2 + limbs_val (?m 3) * limbs_val (poly_r p)) mod poly_p"
    by (simp only:) (intro mod_add_cong x0 x1 x2 x3)
  also have "\<dots> = ((limbs_val (poly_acc p) + poly_block (?c 0)) * limbs_val r4 + poly_block (?c 1) * limbs_val r3
      + poly_block (?c 2) * limbs_val r2 + poly_block (?c 3) * limbs_val (poly_r p)) mod poly_p"
    unfolding m0(2) load(2) [OF i(2)] load(2) [OF i(3)] load(2) [OF i(4)] ..
  finally have d: "wide_val ?d mod poly_p = \<dots>" .
  obtain k where "wide_val ?d = limbs_val (poly_reduce ?d) + poly_p * k" using reduced(2) by blast
  then have acc: "limbs_val (poly_reduce ?d) mod poly_p = wide_val ?d mod poly_p" by simp
  show "poly_inv (absorb4 b p)"
    using p reduced(1) by (simp add: e poly_inv_def)
  show "limbs_val (poly_acc (absorb4 b p)) mod poly_p
       = fold (\<lambda>c h. poly_step (limbs_val (poly_r p)) h c) (chunks 16 b) (limbs_val (poly_acc p) mod poly_p)"
  proof -
    let ?r = "limbs_val (poly_r p)"
    have "poly_acc (absorb4 b p) = poly_reduce ?d" unfolding e by simp
    then have "limbs_val (poly_acc (absorb4 b p)) mod poly_p
        = ((limbs_val (poly_acc p) + poly_block (?c 0)) * limbs_val r4 + poly_block (?c 1) * limbs_val r3
           + poly_block (?c 2) * limbs_val r2 + poly_block (?c 3) * ?r) mod poly_p"
      by (simp only: acc d)
    also have "\<dots> = poly_step ?r (poly_step ?r (poly_step ?r (poly_step ?r (limbs_val (poly_acc p)) (?c 0)) (?c 1)) (?c 2)) (?c 3)"
      unfolding poly_step_def by (rule horner_4 [OF inv(6-8), symmetric])
    also have "poly_step ?r (limbs_val (poly_acc p)) (?c 0) = poly_step ?r (limbs_val (poly_acc p) mod poly_p) (?c 0)"
      unfolding poly_step_def by (metis mod_add_left_eq mod_mult_left_eq)
    finally show ?thesis by (simp add: chunks_64 [OF b])
  qed
qed (simp_all add: absorb4_def Let_def split: prod.splits)

end
