(* ===== verification/Poly1305_Mac.thy ===== *)
theory Poly1305_Mac
  imports Poly1305_Limbs
begin

text \<open>
  The streaming authenticator computes the standard's function: the block buffer
  of \<open>Poly1305\<close> refines the Horner evaluation over the blocks, \<open>finalize\<close> is
  reduction modulo \<open>2^130 - 5\<close> and addition modulo \<open>2^128\<close>, and \<open>Poly1305\<close> is an
  instance of the \<open>mac\<close> contract.
\<close>

section \<open>Streaming\<close>

text \<open>The state \<open>p'\<close> is \<open>p\<close> with the blocks of \<open>m\<close> absorbed.\<close>

definition poly_ran :: "poly1305 \<Rightarrow> bytes \<Rightarrow> poly1305 \<Rightarrow> bool" where
  "poly_ran p m p' \<longleftrightarrow> poly_inv p' \<and> poly_r p' = poly_r p \<and> poly_s p' = poly_s p
     \<and> poly_buf p' = poly_buf p \<and> poly_buffered p' = poly_buffered p
     \<and> limbs_val (poly_acc p') mod poly_p
       = chain 16 (poly_step (limbs_val (poly_r p))) (limbs_val (poly_acc p) mod poly_p) m"

lemma poly_inv_buf:
  "poly_inv p \<Longrightarrow> length b = 16 \<Longrightarrow> poly_inv (p\<lparr>poly_buf := b, poly_buffered := n\<rparr>)"
  by (simp add: poly_inv_def)

lemma poly_inv_length: "poly_inv p \<Longrightarrow> length (poly_buf p) = 16"
  by (simp add: poly_inv_def)

lemma poly_ran_refl: "poly_inv p \<Longrightarrow> poly_ran p [] p"
  by (simp add: poly_ran_def)

lemma poly_ran_trans:
  "poly_ran p m p' \<Longrightarrow> poly_ran p' n p'' \<Longrightarrow> length m mod 16 = 0 \<Longrightarrow> poly_ran p (m @ n) p''"
  by (simp add: poly_ran_def chain_append)

lemma poly_ran_inv: "poly_ran p m p' \<Longrightarrow> poly_inv p'"
  by (simp add: poly_ran_def)

lemma absorb_block_ran: "poly_inv p \<Longrightarrow> length b = 16 \<Longrightarrow> poly_ran p b (absorb_block b p)"
  using absorb_block_val [of p b] by (simp add: poly_ran_def chain_block)

lemma absorb4_ran: "poly_inv p \<Longrightarrow> length b = 64 \<Longrightarrow> poly_ran p b (absorb4 b p)"
  using absorb4_val [of p b] by (simp add: poly_ran_def chain_def)

lemma absorb_blocks_ran:
  "poly_inv p \<Longrightarrow> \<forall>b \<in> set bs. length b = 16 \<Longrightarrow> poly_ran p (concat bs) (fold absorb_block bs p)"
proof (induction bs arbitrary: p)
  case (Cons b bs)
  then have "poly_ran p b (absorb_block b p)" by (simp add: absorb_block_ran)
  with Cons show ?case using poly_ran_trans poly_ran_inv by force
qed (simp add: poly_ran_refl)

lemma absorb_groups_ran:
  "poly_inv p \<Longrightarrow> \<exists>whole. data = whole @ fst (absorb_groups data p) \<and> length whole mod 16 = 0
     \<and> poly_ran p whole (snd (absorb_groups data p))"
proof (induction data p rule: absorb_groups.induct)
  case (1 data p)
  show ?case
  proof (cases "64 \<le> length data")
    case True
    have step: "poly_ran p (take 64 data) (absorb4 (take 64 data) p)"
      using 1(2) True by (simp add: absorb4_ran)
    from 1(1) [OF True poly_ran_inv [OF step]] obtain whole where
      "drop 64 data = whole @ fst (absorb_groups data p)" "length whole mod 16 = 0"
      "poly_ran (absorb4 (take 64 data) p) whole (snd (absorb_groups data p))"
      using True by (auto simp: absorb_groups.simps [of data p])
    moreover from this step have "poly_ran p (take 64 data @ whole) (snd (absorb_groups data p))"
      by (intro poly_ran_trans [OF step]) (use True in simp_all)
    moreover have "length (take 64 data @ whole) mod 16 = 0"
      using True calculation(2) by (simp add: mod_add_eq [symmetric])
    ultimately show ?thesis
      by (intro exI [of _ "take 64 data @ whole"]) (metis append_assoc append_take_drop_id)
  next
    case False
    then show ?thesis using 1(2) by (simp add: absorb_groups.simps [of data p] poly_ran_refl)
  qed
qed

lemma length_whole: "length (take (length xs - length xs mod k) xs) = length xs div k * k"
  by (simp add: min_absorb2 flip: minus_mod_eq_div_mult)

lemma poly_blocks_abs:
  assumes p: "poly_inv p"
  shows "poly_abs (poly_blocks data p)
       = absorb_whole 16 (poly_step (limbs_val (poly_r p))) data (limbs_val (poly_acc p) mod poly_p) (poly_buf p)"
    and "poly_inv (poly_blocks data p)"
    and "poly_r (poly_blocks data p) = poly_r p" "poly_s (poly_blocks data p) = poly_s p"
proof -
  obtain rest p1 where groups: "absorb_groups data p = (rest, p1)" by (cases "absorb_groups data p")
  let ?w = "length rest - length rest mod 16"
  obtain whole where g: "data = whole @ rest" "length whole mod 16 = 0" "poly_ran p whole p1"
    using absorb_groups_ran [OF p, of data] by (auto simp: groups)
  let ?p2 = "fold absorb_block (chunks 16 (take ?w rest)) p1"
  have len: "length (take ?w rest) = length rest div 16 * 16"
    by (rule length_whole)
  have tail: "poly_ran p1 (take ?w rest) ?p2"
  proof -
    have "\<forall>b \<in> set (chunks 16 (take ?w rest)). length b = 16"
      by (intro ballI chunks_exact_lengths [OF len]) simp_all
    from absorb_blocks_ran [OF poly_ran_inv [OF g(3)] this] show ?thesis
      by (simp only: concat_chunks zero_less_numeral)
  qed
  have ran: "poly_ran p (whole @ take ?w rest) ?p2" by (rule poly_ran_trans [OF g(3) tail g(2)])
  have cut: "length data mod 16 = length rest mod 16"
    using arg_cong [OF g(1), of length] g(2) mod_add_left_eq [of "length whole" 16 "length rest"] by simp
  have front: "take (length data - length data mod 16) data = whole @ take ?w rest"
    and behind: "drop (length data - length data mod 16) data = drop ?w rest"
  proof -
    have "length data - length data mod 16 = length whole + ?w"
      using arg_cong [OF g(1), of length] cut by simp
    then show "take (length data - length data mod 16) data = whole @ take ?w rest"
      "drop (length data - length data mod 16) data = drop ?w rest"
      by (metis g(1) take_append drop_append add_diff_cancel_left' le_add1 take_all drop_all append_Nil)+
  qed
  have blocks: "poly_blocks data p = ?p2\<lparr>poly_buf := write_at 0 (drop ?w rest) (poly_buf ?p2),
      poly_buffered := length (drop ?w rest)\<rparr>"
    by (simp add: poly_blocks_def Let_def groups)
  have buf: "length (poly_buf ?p2) = 16" "length (drop ?w rest) < 16"
    using poly_inv_length [OF poly_ran_inv [OF ran]] by simp_all
  show "poly_abs (poly_blocks data p)
       = absorb_whole 16 (poly_step (limbs_val (poly_r p))) data (limbs_val (poly_acc p) mod poly_p) (poly_buf p)"
    using ran unfolding absorb_whole_def Let_def front behind
    by (simp add: blocks poly_abs_def poly_ran_def chain_def)
  show "poly_inv (poly_blocks data p)" "poly_r (poly_blocks data p) = poly_r p" "poly_s (poly_blocks data p) = poly_s p"
    using ran buf unfolding blocks by (simp_all add: poly_ran_def poly_inv_buf)
qed

lemma poly_update_abs:
  assumes p: "poly_inv p" "poly_buffered p < 16"
  shows "poly_abs (poly_update data p) = absorb 16 (poly_step (limbs_val (poly_r p))) data (poly_abs p)"
    and "poly_inv (poly_update data p)"
    and "poly_r (poly_update data p) = poly_r p" "poly_s (poly_update data p) = poly_s p"
proof -
  let ?r = "limbs_val (poly_r p)"
  let ?t = "min (16 - poly_buffered p) (length data)"
  let ?q = "p\<lparr>poly_buf := write_at (poly_buffered p) (take ?t data) (poly_buf p),
               poly_buffered := poly_buffered p + ?t\<rparr>"
  have buf: "length (poly_buf p) = 16" by (rule poly_inv_length [OF p(1)])
  have q: "poly_inv ?q" using p buf by (simp add: poly_inv_buf)
  let ?b = "absorb_block (poly_buf ?q) ?q"
  have "length (poly_buf ?q) = 16" by (rule poly_inv_length [OF q])
  then have b: "poly_ran ?q (poly_buf ?q) ?b" using q by (intro absorb_block_ran)
  note rest = poly_blocks_abs [OF poly_ran_inv [OF b], of "drop ?t data"] and whole = poly_blocks_abs [OF p(1), of data]
  consider "poly_buffered p = 0" | "0 < poly_buffered p" "poly_buffered p + ?t < 16"
    | "0 < poly_buffered p" "\<not> poly_buffered p + ?t < 16" by blast
  note cases = this
  have "poly_abs (poly_update data p) = absorb 16 (poly_step ?r) data (poly_abs p) \<and>
    poly_inv (poly_update data p) \<and> poly_r (poly_update data p) = poly_r p \<and> poly_s (poly_update data p) = poly_s p"
  proof (rule cases)
    assume "poly_buffered p = 0"
    then show ?thesis using whole by (simp add: poly_update_def absorb_def poly_abs_def)
  next
    assume n: "0 < poly_buffered p" "poly_buffered p + ?t < 16"
    then have "poly_update data p = ?q" by (simp add: poly_update_def Let_def)
    moreover have "poly_buffered p + length data < 16" using n by (simp add: min_def split: if_splits)
    ultimately show ?thesis using n q by (simp add: absorb_def poly_abs_def Let_def)
  next
    assume n: "0 < poly_buffered p" "\<not> poly_buffered p + ?t < 16"
    then have u: "poly_update data p = poly_blocks (drop ?t data) ?b" by (simp add: poly_update_def Let_def)
    have acc: "limbs_val (poly_acc ?b) mod poly_p = poly_step ?r (limbs_val (poly_acc p) mod poly_p) (poly_buf ?q)"
      using b \<open>length (poly_buf ?q) = 16\<close> by (simp only: poly_ran_def chain_block) simp
    have same: "poly_buf ?b = poly_buf ?q" "poly_r ?b = poly_r p" "poly_s ?b = poly_s p"
      using b by (simp_all add: poly_ran_def)
    have "absorb 16 (poly_step ?r) data (poly_abs p) = absorb_whole 16 (poly_step ?r) (drop ?t data)
        (poly_step ?r (limbs_val (poly_acc p) mod poly_p) (poly_buf ?q)) (poly_buf ?q)"
      using n p(2) le_add_diff_inverse [of "poly_buffered p" 16] by (simp add: absorb_def poly_abs_def Let_def)
    then show ?thesis
      unfolding u rest(1) acc same using rest(2-4) same by simp
  qed
  then show "poly_abs (poly_update data p) = absorb 16 (poly_step ?r) data (poly_abs p)"
    "poly_inv (poly_update data p)" "poly_r (poly_update data p) = poly_r p" "poly_s (poly_update data p) = poly_s p"
    by blast+
qed

section \<open>Finishing\<close>

text \<open>After \<open>finalize\<close>'s carries every limb has its 26 bits: a carry out of the top needs one out of \<open>h1\<close>.\<close>

lemma final_chain:
  fixes a0 :: nat
  assumes "d1 = a1 + 2 ^ 26 * c1" "d2 + c1 = a2 + 2 ^ 26 * c2" "d3 + c2 = a3 + 2 ^ 26 * c3"
    "d4 + c3 = a4 + 2 ^ 26 * c4" "d0 + 5 * c4 = a0 + 2 ^ 26 * c0"
  shows "d0 + 2 ^ 26 * d1 + 2 ^ 52 * d2 + 2 ^ 78 * d3 + 2 ^ 104 * d4
       = a0 + 2 ^ 26 * (a1 + c0) + 2 ^ 52 * a2 + 2 ^ 78 * a3 + 2 ^ 104 * a4 + poly_p * c4"
  using assms by (intro carry_chain [where ?a0.0 = d0 and ?c0.0 = 0]) simp_all

lemma poly_carry_val:
  assumes "limbs_reduced h"
  shows "limbs_below (2 ^ 26) (poly_carry h)"
    and "limbs_val (poly_carry h) mod poly_p = limbs_val h mod poly_p"
proof -
  obtain h0 h1 h2 h3 h4 where h: "h = (h0, h1, h2, h3, h4)" by (cases h)
  note b = assms [unfolded h limbs_reduced.simps]
  define D1 where "D1 = unat h1"
  define D2 where "D2 = unat h2 + D1 div 2 ^ 26"
  define D3 where "D3 = unat h3 + D2 div 2 ^ 26"
  define D4 where "D4 = unat h4 + D3 div 2 ^ 26"
  define D0 where "D0 = unat h0 + 5 * (D4 div 2 ^ 26)"
  have carry: "k div 2 ^ 26 \<le> 1" if "k < 2 ^ 27" for k :: nat
    using less_mult_imp_div_less [of k 2 "2 ^ 26"] that by simp
  have B1: "D1 < 2 ^ 26 + 2 ^ 15" using b by (simp add: D1_def)
  have B2: "D2 < 2 ^ 27" using b carry [of D1] B1 by (simp add: D2_def)
  have B3: "D3 < 2 ^ 27" using b carry [OF B2] by (simp add: D3_def)
  have B4: "D4 < 2 ^ 27" using b carry [OF B3] by (simp add: D4_def)
  have B0: "D0 < 2 ^ 26 + 5" using b carry [OF B4] by (simp add: D0_def)
  note B = B0 B1 B2 B3 B4
  let ?e2 = "h2 + drop_bit 26 h1"
  let ?e3 = "h3 + drop_bit 26 ?e2"
  let ?e4 = "h4 + drop_bit 26 ?e3"
  let ?e0 = "h0 + drop_bit 26 ?e4 * 5"
  have e1: "unat h1 = D1" by (simp add: D1_def)
  have e2: "unat ?e2 = D2" using B b by (subst unat_add_exact) (simp_all add: unat_drop_bit e1 D2_def)
  have e3: "unat ?e3 = D3" using B b by (subst unat_add_exact) (simp_all add: unat_drop_bit e2 D3_def)
  have e4: "unat ?e4 = D4" using B b by (subst unat_add_exact) (simp_all add: unat_drop_bit e3 D4_def)
  have c: "unat (drop_bit 26 ?e4 * 5) = 5 * (D4 div 2 ^ 26)"
    using B by (subst unat_mul_exact) (simp_all add: unat_drop_bit e4)
  have e0: "unat ?e0 = D0" using B b by (subst unat_add_exact) (simp_all add: c D0_def)
  have last: "unat ((h1 AND 0x3ffffff) + drop_bit 26 ?e0) = D1 mod 2 ^ 26 + D0 div 2 ^ 26"
    using B by (subst unat_add_exact) (simp_all add: unat_drop_bit e0 e1)
  have result: "poly_carry h = (?e0 AND 0x3ffffff, (h1 AND 0x3ffffff) + drop_bit 26 ?e0,
      ?e2 AND 0x3ffffff, ?e3 AND 0x3ffffff, ?e4 AND 0x3ffffff)"
    by (simp only: h poly_carry_def prod.case Let_def)
  have out: "unat (?e0 AND 0x3ffffff) = D0 mod 2 ^ 26" "unat (?e2 AND 0x3ffffff) = D2 mod 2 ^ 26"
    "unat (?e3 AND 0x3ffffff) = D3 mod 2 ^ 26" "unat (?e4 AND 0x3ffffff) = D4 mod 2 ^ 26"
    by (simp_all only: unat_and_26 e0 e2 e3 e4)
  have second: "D1 mod 2 ^ 26 + D0 div 2 ^ 26 < 2 ^ 26"
  proof (cases "D1 < 2 ^ 26")
    case True
    then have "D2 < 2 ^ 26" "D3 < 2 ^ 26" "D4 < 2 ^ 26" "D0 < 2 ^ 26"
      using b by (simp_all add: D0_def D2_def D3_def D4_def)
    then show ?thesis by simp
  next
    case False
    then have "D1 mod 2 ^ 26 = D1 - 2 ^ 26" using B by (simp add: le_mod_geq)
    then show ?thesis using B by simp
  qed
  show "limbs_below (2 ^ 26) (poly_carry h)"
    unfolding result limbs_below.simps out last using second by simp
  have "limbs_val h = limbs_val (poly_carry h) + poly_p * (D4 div 2 ^ 26)"
  proof -
    have eqs: "D1 = D1 mod 2 ^ 26 + 2 ^ 26 * (D1 div 2 ^ 26)"
      "unat h2 + D1 div 2 ^ 26 = D2 mod 2 ^ 26 + 2 ^ 26 * (D2 div 2 ^ 26)"
      "unat h3 + D2 div 2 ^ 26 = D3 mod 2 ^ 26 + 2 ^ 26 * (D3 div 2 ^ 26)"
      "unat h4 + D3 div 2 ^ 26 = D4 mod 2 ^ 26 + 2 ^ 26 * (D4 div 2 ^ 26)"
      "unat h0 + 5 * (D4 div 2 ^ 26) = D0 mod 2 ^ 26 + 2 ^ 26 * (D0 div 2 ^ 26)"
      by (simp_all only: limb_split D2_def [symmetric] D3_def [symmetric] D4_def [symmetric] D0_def [symmetric])
    show ?thesis
      unfolding result unfolding h limbs_val.simps out last e1
      by (rule final_chain [OF eqs])
  qed
  then show "limbs_val (poly_carry h) mod poly_p = limbs_val h mod poly_p" by simp
qed

text \<open>The subtraction of the modulus, without a branch.\<close>

lemma select_mask:
  fixes x y :: "'a::len word"
  shows "(x AND NOT (- (0 XOR 1))) OR (y AND - (0 XOR 1)) = y"
    and "(x AND NOT (- (1 XOR 1))) OR (y AND - (1 XOR 1)) = x"
  by simp_all

lemma borrow_chain:
  fixes h0 :: nat
  assumes "h0 + 5 = g0 + 2 ^ 26 * c0" "h1 + c0 = g1 + 2 ^ 26 * c1" "h2 + c1 = g2 + 2 ^ 26 * c2"
    "h3 + c2 = g3 + 2 ^ 26 * c3"
  shows "h0 + 2 ^ 26 * h1 + 2 ^ 52 * h2 + 2 ^ 78 * h3 + 2 ^ 104 * h4 + 5
       = g0 + 2 ^ 26 * g1 + 2 ^ 52 * g2 + 2 ^ 78 * g3 + 2 ^ 104 * (h4 + c3)"
  using assms by simp

lemma poly_mod_once: "a + poly_p = b \<Longrightarrow> b < 2 ^ 130 \<Longrightarrow> a = b mod poly_p"
  by (auto simp: poly_p_def)

lemma poly_select_val:
  assumes "limbs_below (2 ^ 26) h"
  shows "limbs_below (2 ^ 26) (poly_select h)" and "limbs_val (poly_select h) = limbs_val h mod poly_p"
proof -
  obtain h0 h1 h2 h3 h4 where h: "h = (h0, h1, h2, h3, h4)" by (cases h)
  note b = assms [unfolded h limbs_below.simps]
  define V0 where "V0 = unat h0 + 5"
  define V1 where "V1 = unat h1 + V0 div 2 ^ 26"
  define V2 where "V2 = unat h2 + V1 div 2 ^ 26"
  define V3 where "V3 = unat h3 + V2 div 2 ^ 26"
  define V4 where "V4 = unat h4 + V3 div 2 ^ 26"
  have carry: "k div 2 ^ 26 \<le> 1" if "k < 2 ^ 27" for k :: nat
    using less_mult_imp_div_less [of k 2 "2 ^ 26"] that by simp
  have B0: "V0 < 2 ^ 27" using b by (simp add: V0_def)
  have B1: "V1 < 2 ^ 27" using b carry [OF B0] by (simp add: V1_def)
  have B2: "V2 < 2 ^ 27" using b carry [OF B1] by (simp add: V2_def)
  have B3: "V3 < 2 ^ 27" using b carry [OF B2] by (simp add: V3_def)
  have B4: "V4 < 2 ^ 27" using b carry [OF B3] by (simp add: V4_def)
  let ?e0 = "h0 + 5"
  let ?e1 = "h1 + drop_bit 26 ?e0"
  let ?e2 = "h2 + drop_bit 26 ?e1"
  let ?e3 = "h3 + drop_bit 26 ?e2"
  let ?e4 = "h4 + drop_bit 26 ?e3"
  have e0: "unat ?e0 = V0" using B0 by (subst unat_add_exact) (simp_all add: V0_def)
  have e1: "unat ?e1 = V1" using B1 by (subst unat_add_exact) (simp_all add: unat_drop_bit e0 V1_def)
  have e2: "unat ?e2 = V2" using B2 by (subst unat_add_exact) (simp_all add: unat_drop_bit e1 V2_def)
  have e3: "unat ?e3 = V3" using B3 by (subst unat_add_exact) (simp_all add: unat_drop_bit e2 V3_def)
  have e4: "unat ?e4 = V4" using B4 by (subst unat_add_exact) (simp_all add: unat_drop_bit e3 V4_def)
  define G where "G = ?e4 - push_bit 26 1"
  let ?msk = "- (drop_bit 31 G XOR 1)"
  let ?sel = "\<lambda>x y. (x AND NOT ?msk) OR (y AND ?msk)"
  have result: "poly_select h = (?sel h0 (?e0 AND 0x3ffffff), ?sel h1 (?e1 AND 0x3ffffff),
      ?sel h2 (?e2 AND 0x3ffffff), ?sel h3 (?e3 AND 0x3ffffff), ?sel h4 G)"
    by (simp only: h poly_select_def prod.case Let_def G_def)
  have chain: "limbs_val h + 5 = V0 mod 2 ^ 26 + 2 ^ 26 * (V1 mod 2 ^ 26) + 2 ^ 52 * (V2 mod 2 ^ 26)
      + 2 ^ 78 * (V3 mod 2 ^ 26) + 2 ^ 104 * V4"
    unfolding h limbs_val.simps V4_def
    by (rule borrow_chain [where ?c0.0 = "V0 div 2 ^ 26" and ?c1.0 = "V1 div 2 ^ 26" and ?c2.0 = "V2 div 2 ^ 26"])
       (simp_all only: limb_split V0_def [symmetric] V1_def [symmetric] V2_def [symmetric] V3_def [symmetric])
  have small: "limbs_val h < 2 ^ 130" unfolding h limbs_val.simps using b by simp
  have low: "V0 mod 2 ^ 26 + 2 ^ 26 * (V1 mod 2 ^ 26) + 2 ^ 52 * (V2 mod 2 ^ 26) + 2 ^ 78 * (V3 mod 2 ^ 26) < 2 ^ 104"
    using mod_less_divisor [of "2 ^ 26" V0] mod_less_divisor [of "2 ^ 26" V1]
      mod_less_divisor [of "2 ^ 26" V2] mod_less_divisor [of "2 ^ 26" V3] by simp
  have "limbs_below (2 ^ 26) (poly_select h) \<and> limbs_val (poly_select h) = limbs_val h mod poly_p"
  proof (cases "2 ^ 26 \<le> V4")
    case True
    then have g4: "unat G = V4 - 2 ^ 26"
      unfolding G_def by (subst unat_sub) (simp_all add: word_le_nat_alt e4)
    have "drop_bit 31 G = 0"
      using B4 by (simp add: word_unat_eq_iff unat_drop_bit g4)
    then have e: "poly_select h = (?e0 AND 0x3ffffff, ?e1 AND 0x3ffffff, ?e2 AND 0x3ffffff, ?e3 AND 0x3ffffff, G)"
      unfolding result by (simp only: select_mask)
    have "limbs_val (poly_select h) + poly_p = limbs_val h"
      using chain True unfolding e limbs_val.simps unat_and_26 e0 e1 e2 e3 g4 poly_p_def by simp
    then have "limbs_val (poly_select h) = limbs_val h mod poly_p"
      using small by (metis poly_mod_once)
    then show ?thesis
      using B4 True unfolding e limbs_below.simps unat_and_26 e0 e1 e2 e3 g4 by simp
  next
    case False
    have "G = ?e4 + 0xfc000000" by (simp add: G_def)
    also have "unat \<dots> = V4 + 0xfc000000"
      using False by (subst unat_add_exact) (simp_all add: e4)
    finally have "drop_bit 31 G = 1"
      using False B4 by (simp add: word_unat_eq_iff unat_drop_bit)
    then have e: "poly_select h = h"
      unfolding result by (simp only: select_mask h)
    have "limbs_val h < poly_p"
      using chain low False unfolding poly_p_def by simp
    then show ?thesis using assms e by simp
  qed
  then show "limbs_below (2 ^ 26) (poly_select h)" "limbs_val (poly_select h) = limbs_val h mod poly_p"
    by blast+
qed

text \<open>Four words with carries are one addition modulo \<open>2^128\<close>.\<close>

lemma word_chain:
  fixes w0 :: nat
  assumes "f0 = w0 + s0" "f1 = w1 + s1 + f0 div 2 ^ 32" "f2 = w2 + s2 + f1 div 2 ^ 32"
    "f3 = w3 + s3 + f2 div 2 ^ 32"
  shows "f0 mod 2 ^ 32 + 2 ^ 32 * (f1 mod 2 ^ 32) + 2 ^ 64 * (f2 mod 2 ^ 32) + 2 ^ 96 * (f3 mod 2 ^ 32)
       + 2 ^ 128 * (f3 div 2 ^ 32)
     = (w0 + 2 ^ 32 * w1 + 2 ^ 64 * w2 + 2 ^ 96 * w3) + (s0 + 2 ^ 32 * s1 + 2 ^ 64 * s2 + 2 ^ 96 * s3)"
proof -
  define r0 q0 r1 q1 r2 q2 r3 q3 where d: "r0 = f0 mod 2 ^ 32" "q0 = f0 div 2 ^ 32" "r1 = f1 mod 2 ^ 32"
    "q1 = f1 div 2 ^ 32" "r2 = f2 mod 2 ^ 32" "q2 = f2 div 2 ^ 32" "r3 = f3 mod 2 ^ 32" "q3 = f3 div 2 ^ 32"
  have "w0 + s0 = r0 + 2 ^ 32 * q0" "w1 + s1 + q0 = r1 + 2 ^ 32 * q1" "w2 + s2 + q1 = r2 + 2 ^ 32 * q2"
    "w3 + s3 + q2 = r3 + 2 ^ 32 * q3"
    unfolding d assms(1-4) [symmetric] by (simp_all only: mod_mult_div_eq)
  then show ?thesis unfolding d [symmetric] by simp
qed

text \<open>The four words of a number whose limbs have 26 bits.\<close>

lemma limb_words:
  fixes h0 :: nat
  assumes "h0 < 2 ^ 26" "h1 < 2 ^ 26" "h2 < 2 ^ 26" "h3 < 2 ^ 26"
  shows "(h0 + 2 ^ 26 * (h1 mod 2 ^ 6)) + 2 ^ 32 * (h1 div 2 ^ 6 + 2 ^ 20 * (h2 mod 2 ^ 12))
       + 2 ^ 64 * (h2 div 2 ^ 12 + 2 ^ 14 * (h3 mod 2 ^ 18)) + 2 ^ 96 * (h3 div 2 ^ 18 + 2 ^ 8 * (h4 mod 2 ^ 24))
       + 2 ^ 128 * (h4 div 2 ^ 24)
     = h0 + 2 ^ 26 * h1 + 2 ^ 52 * h2 + 2 ^ 78 * h3 + 2 ^ 104 * h4"
proof -
  define r1 q1 r2 q2 r3 q3 r4 q4 where d: "r1 = h1 mod 2 ^ 6" "q1 = h1 div 2 ^ 6" "r2 = h2 mod 2 ^ 12"
    "q2 = h2 div 2 ^ 12" "r3 = h3 mod 2 ^ 18" "q3 = h3 div 2 ^ 18" "r4 = h4 mod 2 ^ 24" "q4 = h4 div 2 ^ 24"
  have "h1 = r1 + 2 ^ 6 * q1" "h2 = r2 + 2 ^ 12 * q2" "h3 = r3 + 2 ^ 18 * q3" "h4 = r4 + 2 ^ 24 * q4"
    unfolding d by simp_all
  then show ?thesis unfolding d [symmetric] by simp
qed

lemma add_swap: "a = w + s \<Longrightarrow> w + k = v \<Longrightarrow> a + k = v + (s :: nat)"
  by simp

lemma le_val_le_of_word: "le_val (le_of_word 4 (w :: u32)) = unat w"
  using unat_word_of_le [of "le_of_word 4 w", where 'a = 32] by (simp add: word_of_le_of_word)

fun pad_val :: "u32 \<times> u32 \<times> u32 \<times> u32 \<Rightarrow> nat" where
  "pad_val (s0, s1, s2, s3) = unat s0 + 2 ^ 32 * unat s1 + 2 ^ 64 * unat s2 + 2 ^ 96 * unat s3"

lemma poly_serialize_val:
  assumes "limbs_below (2 ^ 26) h"
  shows "poly_serialize h s = le_bytes 16 ((limbs_val h + pad_val s) mod 2 ^ 128)"
proof -
  obtain h0 h1 h2 h3 h4 where h: "h = (h0, h1, h2, h3, h4)" by (cases h)
  obtain s0 s1 s2 s3 where s: "s = (s0, s1, s2, s3)" by (cases s)
  note b = assms [unfolded h limbs_below.simps]
  have high: "unat h1 div 2 ^ 6 < 2 ^ 20" "unat h2 div 2 ^ 12 < 2 ^ 14" "unat h3 div 2 ^ 18 < 2 ^ 8"
    using b by (simp_all add: less_mult_imp_div_less)
  have b4: "unat h0 < 2 ^ 26" "unat h1 < 2 ^ 26" "unat h2 < 2 ^ 26" "unat h3 < 2 ^ 26"
    using b by simp_all
  define w0 w1 w2 w3 where wd: "w0 = h0 OR push_bit 26 h1" "w1 = drop_bit 6 h1 OR push_bit 20 h2"
    "w2 = drop_bit 12 h2 OR push_bit 14 h3" "w3 = drop_bit 18 h3 OR push_bit 8 h4"
  have w: "unat w0 = unat h0 + 2 ^ 26 * (unat h1 mod 2 ^ 6)"
    "unat w1 = unat h1 div 2 ^ 6 + 2 ^ 20 * (unat h2 mod 2 ^ 12)"
    "unat w2 = unat h2 div 2 ^ 12 + 2 ^ 14 * (unat h3 mod 2 ^ 18)"
    "unat w3 = unat h3 div 2 ^ 18 + 2 ^ 8 * (unat h4 mod 2 ^ 24)"
    unfolding wd using b high by (simp_all add: unat_or_push unat_drop_bit)
  define f0 f1 f2 f3 :: u64 where fd: "f0 = ucast w0 + ucast s0" "f1 = ucast w1 + ucast s1 + drop_bit 32 f0"
    "f2 = ucast w2 + ucast s2 + drop_bit 32 f1" "f3 = ucast w3 + ucast s3 + drop_bit 32 f2"
  have sum: "unat (ucast w + ucast t + c :: u64) = unat w + unat t + unat c" if "unat c \<le> 2 ^ 32"
    for w t :: u32 and c :: u64
    using that unat_u32_bound [of w] unat_u32_bound [of t] by (simp add: unat_add_exact unat_ucast_up)
  have quot: "unat (drop_bit 32 f) \<le> 2 ^ 32" for f :: u64
    using less_mult_imp_div_less [of "unat f" "2 ^ 32" "2 ^ 32"] unat_u64_bound [of f] by (simp add: unat_drop_bit)
  have f: "unat f0 = unat w0 + unat s0" "unat f1 = unat w1 + unat s1 + unat f0 div 2 ^ 32"
    "unat f2 = unat w2 + unat s2 + unat f1 div 2 ^ 32" "unat f3 = unat w3 + unat s3 + unat f2 div 2 ^ 32"
  proof -
    show "unat f0 = unat w0 + unat s0" unfolding fd(1) using sum [of 0 w0 s0] by simp
    show "unat f1 = unat w1 + unat s1 + unat f0 div 2 ^ 32"
      by (subst fd(2)) (simp only: sum [OF quot], simp only: unat_drop_bit)
    show "unat f2 = unat w2 + unat s2 + unat f1 div 2 ^ 32"
      by (subst fd(3)) (simp only: sum [OF quot], simp only: unat_drop_bit)
    show "unat f3 = unat w3 + unat s3 + unat f2 div 2 ^ 32"
      by (subst fd(4)) (simp only: sum [OF quot], simp only: unat_drop_bit)
  qed
  have result: "poly_serialize h s = le_of_word 4 (ucast f0 :: u32) @ le_of_word 4 (ucast f1 :: u32)
      @ le_of_word 4 (ucast f2 :: u32) @ le_of_word 4 (ucast f3 :: u32)"
    unfolding h s poly_serialize_def prod.case Let_def fd wd ..
  have low: "unat (ucast f :: u32) = unat f mod 2 ^ 32" for f :: u64 by (simp add: unat_ucast)
  let ?R = "unat f0 mod 2 ^ 32 + 2 ^ 32 * (unat f1 mod 2 ^ 32) + 2 ^ 64 * (unat f2 mod 2 ^ 32) + 2 ^ 96 * (unat f3 mod 2 ^ 32)"
  have val: "le_val (poly_serialize h s) = ?R"
    unfolding result by (simp add: le_val_append le_val_le_of_word low)
  have "?R + 2 ^ 128 * (unat f3 div 2 ^ 32) + 2 ^ 128 * (unat h4 div 2 ^ 24) = limbs_val h + pad_val s"
    unfolding h s limbs_val.simps pad_val.simps
    by (rule add_swap [OF word_chain [OF f] limb_words [OF b4, of "unat h4", folded w]])
  moreover have "?R < 2 ^ 128"
    using le_val_bound [of "poly_serialize h s"] unfolding val by (simp add: result)
  ultimately have "(limbs_val h + pad_val s) mod 2 ^ 128 = ?R"
    by (metis mod_mult_self2 mod_less)
  then show ?thesis
    using le_bytes_le_val [of "poly_serialize h s"] unfolding val by (simp add: result)
qed

section \<open>The contract\<close>

lemma poly_eval_chain: "poly_eval r m = chain 16 (poly_step r) 0 m"
  by (simp add: poly_eval_def chain_def poly_step_def)

lemma poly_eval_rest:
  assumes "length whole mod 16 = 0" "length rest < 16"
  shows "poly_eval r (whole @ rest)
       = (if rest = [] then poly_eval r whole else poly_step r (poly_eval r whole) rest)"
  using assms by (simp add: poly_eval_chain chain_append) (simp add: chain_def chunks_step)

definition poly_holds :: "poly1305 \<Rightarrow> bytes \<Rightarrow> bytes \<Rightarrow> bool" where
  "poly_holds p key d \<longleftrightarrow> poly_inv p \<and> limbs_val (poly_r p) = poly_clamp key
     \<and> pad_val (poly_s p) = le_val (slice 16 16 key)
     \<and> holds 16 (poly_step (poly_clamp key)) 0 d (poly_abs p)"

lemma poly_update_holds: "poly_holds p key d \<Longrightarrow> poly_holds (poly_update data p) key (d @ data)"
proof -
  assume p: "poly_holds p key d"
  then have "poly_buffered p < 16" by (auto simp: poly_holds_def holds_def poly_abs_def)
  with p have "poly_inv p" "poly_buffered p < 16" by (simp_all add: poly_holds_def)
  from poly_update_abs [OF this] p show ?thesis by (simp add: poly_holds_def absorb_holds)
qed

lemma poly_finalize_holds:
  assumes "poly_holds p key d"
  shows "poly_finalize p = poly1305_spec key d"
proof -
  let ?r = "poly_clamp key"
  obtain whole rest where w: "d = whole @ rest" "length whole mod 16 = 0" "length rest = poly_buffered p"
    "limbs_val (poly_acc p) mod poly_p = chain 16 (poly_step ?r) 0 whole" "take (poly_buffered p) (poly_buf p) = rest"
    "poly_buffered p < 16"
    using assms unfolding poly_holds_def poly_abs_def holds_def prod.case
    by (elim conjE exE) (rule that, assumption+)
  have p: "poly_inv p" "limbs_val (poly_r p) = ?r" "pad_val (poly_s p) = le_val (slice 16 16 key)"
    using assms by (simp_all add: poly_holds_def)
  let ?q = "if 0 < poly_buffered p then absorb_block rest p else p"
  have rest: "length rest \<le> 16" "length rest < 16" using w by simp_all
  have q: "poly_inv ?q" "poly_s ?q = poly_s p" "limbs_val (poly_acc ?q) mod poly_p = poly_eval ?r d"
    using absorb_block_val [OF p(1) rest(1)] p w w(4) [folded poly_eval_chain] poly_eval_rest [OF w(2) rest(2), of ?r] by auto
  have acc: "limbs_reduced (poly_acc ?q)" using q(1) by (simp only: poly_inv_def simp_thms)
  note c = poly_carry_val [OF acc]
  note s = poly_select_val [OF c(1)]
  have "poly_finalize p = poly_serialize (poly_select (poly_carry (poly_acc ?q))) (poly_s ?q)"
    by (simp only: poly_finalize_def Let_def w(5))
  also have "\<dots> = le_bytes 16 ((poly_eval ?r d + le_val (slice 16 16 key)) mod 2 ^ 128)"
    by (simp only: poly_serialize_val [OF s(1)] s(2) c(2) q p(3))
  finally show ?thesis by (simp add: poly1305_spec_def)
qed

lemma poly_new_holds:
  assumes m: "operational m = Ok ()" and key: "length key = 32"
  shows "\<exists>p. poly_new m key = Ok p \<and> poly_holds p key []"
proof -
  let ?r = "poly_load (poly_clamped key) (push_bit 24 0)"
  let ?s = "(word_of_le (slice 16 4 key), word_of_le (slice 20 4 key), word_of_le (slice 24 4 key), word_of_le (slice 28 4 key))"
  let ?p1 = "poly_mul ?r ?r"
  let ?p2 = "poly_mul ?p1 ?r"
  let ?p3 = "poly_mul ?p2 ?r"
  let ?p = "\<lparr>poly_r = ?r, poly_s = ?s, poly_powers = (?p1, ?p2, ?p3), poly_acc = (0, 0, 0, 0, 0),
             poly_buf = replicate 16 0, poly_buffered = 0\<rparr>"
  have new: "poly_new m key = Ok ?p"
    using m key by (simp add: poly_new_def poly_clamped_load [OF key, unfolded Let_def] Let_def)
  have "length (poly_clamped key) = 16" by (simp add: poly_clamped_def)
  note load = poly_load_val [OF this, of 0]
  have r: "limbs_below operand_bound ?r" "limbs_below multiplier_bound ?r" "limbs_val ?r = poly_clamp key"
    using load by (cases ?r; auto simp: poly_clamp_val)+
  have next_power: "limbs_below multiplier_bound (poly_mul x ?r)" "limbs_below operand_bound (poly_mul x ?r)"
    "limbs_val (poly_mul x ?r) mod poly_p = limbs_val ?r ^ k mod poly_p"
    if "limbs_below operand_bound x" "limbs_val x mod poly_p = limbs_val ?r ^ n mod poly_p" "Suc n = k" for x n k
  proof -
    note product = poly_mul_val [OF that(1) r(2)]
    show "limbs_below multiplier_bound (poly_mul x ?r)" "limbs_below operand_bound (poly_mul x ?r)"
      using product(1) by (cases "poly_mul x ?r"; auto)+
    show "limbs_val (poly_mul x ?r) mod poly_p = limbs_val ?r ^ k mod poly_p"
      unfolding product(2) that(3) [symmetric] power_Suc2 by (rule mod_mult_cong [OF that(2) refl])
  qed
  have one: "limbs_val ?r mod poly_p = limbs_val ?r ^ 1 mod poly_p" by simp
  have sucs: "Suc 1 = 2" "Suc 2 = 3" "Suc 3 = 4" by simp_all
  note p1 = next_power [OF r(1) one sucs(1)]
  note p2 = next_power [OF p1(2,3) sucs(2)]
  note p3 = next_power [OF p2(2,3) sucs(3)]
  have zero: "limbs_reduced (0, 0, 0, 0, 0)" by simp
  have inv: "poly_inv ?p"
    unfolding poly_inv_def poly1305.select_convs prod.case
    by (intro conjI r p1 p2 p3 zero length_replicate)
  have pad: "pad_val ?s = le_val (slice 16 16 key)"
    using key le_val_words [of "slice 16 16 key"] by (simp add: slice_def)
  have "holds 16 (poly_step (poly_clamp key)) 0 [] (poly_abs ?p)"
    by (simp add: poly_abs_def holds_start)
  then show ?thesis using new inv pad r(3) by (simp add: poly_holds_def)
qed

lemma poly1305_spec_length [simp]: "length (poly1305_spec key d) = 16"
  by (simp add: poly1305_spec_def)

lemma poly_mac_default:
  assumes "operational m = Ok ()" "length key = 32"
  shows "mac_default poly_new poly_update poly_finalize m key d = Ok (poly1305_spec key d)"
proof -
  obtain p where p: "poly_new m key = Ok p" "poly_holds p key []" using poly_new_holds [OF assms] by blast
  then show ?thesis using poly_finalize_holds [OF poly_update_holds [OF p(2)], of d] by (simp add: mac_default_def)
qed

interpretation poly1305: mac Poly1305 "\<lambda>key. length key = 32" poly_holds poly1305_spec
  by unfold_locales
     (auto simp: Poly1305_def poly_new_holds poly_update_holds poly_finalize_holds poly_mac_default,
      simp_all add: poly_new_def mac_default_def)

end
