(* ===== verification/ChaCha20_Poly1305.thy ===== *)
theory ChaCha20_Poly1305
  imports ChaCha20 Poly1305_Mac
begin

text \<open>
  The authenticated ciphers \<open>ChaCha20Poly1305\<close> and \<open>XChaCha20Poly1305\<close> of
  \<open>crates/ic-cipher/src/chacha.rs\<close>, on the portable backend, and their instances of the
  contract of authenticated encryption. An instance of either is its 32-byte key.
\<close>

section \<open>ChaCha20-Poly1305\<close>

definition chacha_poly_key :: "bytes \<Rightarrow> bytes \<Rightarrow> bytes result" where
  "chacha_poly_key key nonce =
     (if length nonce \<noteq> 12 then Err InvalidLength ''chacha20-poly1305 nonce''
      else Ok (take 32 (chacha20_block key 0 nonce)))"

definition pad16 :: "bytes \<Rightarrow> bytes" where
  "pad16 xs = take ((16 - length xs mod 16) mod 16) (replicate 16 0)"

definition aead_lens :: "bytes \<Rightarrow> bytes \<Rightarrow> bytes" where
  "aead_lens aad ciphertext =
     write_at 8 (le_of_word 8 (of_nat (length ciphertext) :: u64))
       (write_at 0 (le_of_word 8 (of_nat (length aad) :: u64)) (replicate 16 0))"

definition chacha_tag :: "module_state \<Rightarrow> bytes \<Rightarrow> bytes \<Rightarrow> bytes \<Rightarrow> bytes \<Rightarrow> bytes result" where
  "chacha_tag m key nonce aad ciphertext =
     bind_result (chacha_poly_key key nonce) (\<lambda>poly_key.
     bind_result (poly_new m poly_key) (\<lambda>p.
       let p = poly_update aad p;
           p = poly_update (pad16 aad) p;
           p = poly_update ciphertext p;
           p = poly_update (pad16 ciphertext) p;
           p = poly_update (aead_lens aad ciphertext) p
       in Ok (poly_finalize p)))"

definition chacha_new :: "string \<Rightarrow> module_state \<Rightarrow> bytes \<Rightarrow> bytes result" where
  "chacha_new what m key = bind_result (operational m) (\<lambda>_.
     if length key \<noteq> 32 then Err InvalidLength what else Ok key)"

definition chacha_seal ::
  "module_state \<Rightarrow> bytes \<Rightarrow> bytes \<Rightarrow> bytes \<Rightarrow> bytes \<Rightarrow> bytes \<Rightarrow> unit result \<times> bytes \<times> bytes" where
  "chacha_seal m key nonce aad in_out tag =
     (case operational m of
        Inl e \<Rightarrow> (Inl e, in_out, tag)
      | Inr _ \<Rightarrow>
          if length tag \<noteq> 16 then (Err InvalidLength ''chacha20-poly1305 tag buffer'', in_out, tag)
          else (case chacha20_xor m key nonce 1 in_out of
                  (Inl e, in_out) \<Rightarrow> (Inl e, in_out, tag)
                | (Inr _, in_out) \<Rightarrow>
                    (case chacha_tag m key nonce aad in_out of
                       Inl e \<Rightarrow> (Inl e, in_out, tag)
                     | Inr t \<Rightarrow> (Ok (), in_out, t))))"

definition chacha_open ::
  "module_state \<Rightarrow> bytes \<Rightarrow> bytes \<Rightarrow> bytes \<Rightarrow> bytes \<Rightarrow> bytes \<Rightarrow> unit result \<times> bytes" where
  "chacha_open m key nonce aad in_out tag =
     (case operational m of
        Inl e \<Rightarrow> (Inl e, in_out)
      | Inr _ \<Rightarrow>
          if length tag \<noteq> 16 then (Err InvalidLength ''chacha20-poly1305 tag'', in_out)
          else (case chacha_tag m key nonce aad in_out of
                  Inl e \<Rightarrow> (Inl e, in_out)
                | Inr expected \<Rightarrow>
                    if \<not> ct_verify expected tag
                    then (Err AuthenticationFailed ''chacha20-poly1305'', replicate (length in_out) 0)
                    else chacha20_xor m key nonce 1 in_out))"

definition ChaCha20Poly1305 :: "bytes aead_ops" where
  "ChaCha20Poly1305 =
     \<lparr>aead_new = chacha_new ''chacha20-poly1305 key'', aead_seal = chacha_seal, aead_open = chacha_open,
      AEAD_KEY_LEN = 32, AEAD_NONCE_LEN = 12, AEAD_TAG_LEN = 16\<rparr>"

section \<open>XChaCha20-Poly1305\<close>

definition xchacha_inner :: "bytes \<Rightarrow> bytes \<Rightarrow> (bytes \<times> bytes) result" where
  "xchacha_inner key nonce =
     (if length nonce \<noteq> 24 then Err InvalidLength ''xchacha20-poly1305 nonce must be 24 bytes''
      else Ok (hchacha20 key (take 16 nonce), write_at 4 (drop 16 nonce) (replicate 12 0)))"

definition xchacha_seal ::
  "module_state \<Rightarrow> bytes \<Rightarrow> bytes \<Rightarrow> bytes \<Rightarrow> bytes \<Rightarrow> bytes \<Rightarrow> unit result \<times> bytes \<times> bytes" where
  "xchacha_seal m key nonce aad in_out tag =
     (case bind_result (operational m) (\<lambda>_. xchacha_inner key nonce) of
        Inl e \<Rightarrow> (Inl e, in_out, tag)
      | Inr (inner, n) \<Rightarrow> chacha_seal m inner n aad in_out tag)"

definition xchacha_open ::
  "module_state \<Rightarrow> bytes \<Rightarrow> bytes \<Rightarrow> bytes \<Rightarrow> bytes \<Rightarrow> bytes \<Rightarrow> unit result \<times> bytes" where
  "xchacha_open m key nonce aad in_out tag =
     (case bind_result (operational m) (\<lambda>_. xchacha_inner key nonce) of
        Inl e \<Rightarrow> (Inl e, in_out)
      | Inr (inner, n) \<Rightarrow> chacha_open m inner n aad in_out tag)"

definition XChaCha20Poly1305 :: "bytes aead_ops" where
  "XChaCha20Poly1305 =
     \<lparr>aead_new = chacha_new ''xchacha20-poly1305 key'', aead_seal = xchacha_seal, aead_open = xchacha_open,
      AEAD_KEY_LEN = 32, AEAD_NONCE_LEN = 24, AEAD_TAG_LEN = 16\<rparr>"

definition seal_with_random_nonce ::
  "module_state \<Rightarrow> 'r fill \<Rightarrow> bytes \<Rightarrow> 'r \<Rightarrow> bytes \<Rightarrow> bytes \<Rightarrow> bytes \<Rightarrow> bytes result \<times> bytes \<times> bytes \<times> 'r" where
  "seal_with_random_nonce m fill key r aad in_out tag =
     (case operational m of
        Inl e \<Rightarrow> (Inl e, in_out, tag, r)
      | Inr _ \<Rightarrow>
          if length tag \<noteq> 16 then (Err InvalidLength ''xchacha20-poly1305 tag buffer'', in_out, tag, r)
          else (case fill r 24 of
                  (Inl e, r) \<Rightarrow> (Inl e, in_out, tag, r)
                | (Inr nonce, r) \<Rightarrow>
                    (case xchacha_seal m key nonce aad in_out tag of
                       (Inl e, in_out, tag) \<Rightarrow> (Inl e, in_out, tag, r)
                     | (Inr _, in_out, tag) \<Rightarrow> (Ok nonce, in_out, tag, r))))"

section \<open>The standard's function\<close>

definition aead_mac_data :: "bytes \<Rightarrow> bytes \<Rightarrow> bytes" where
  "aead_mac_data aad c =
     aad @ replicate ((16 - length aad mod 16) mod 16) 0 @ c @ replicate ((16 - length c mod 16) mod 16) 0
     @ le_bytes 8 (length aad) @ le_bytes 8 (length c)"

definition chacha_tag_spec :: "bytes \<Rightarrow> bytes \<Rightarrow> bytes \<Rightarrow> bytes \<Rightarrow> bytes" where
  "chacha_tag_spec key nonce aad c =
     poly1305_spec (take 32 (chacha20_block key 0 nonce)) (aead_mac_data aad c)"

lemma pad16_eq: "pad16 xs = replicate ((16 - length xs mod 16) mod 16) 0"
  by (simp add: pad16_def)

lemma le_of_word_of_nat: "le_of_word 8 (of_nat k :: u64) = le_bytes 8 k"
proof -
  have "le_val (le_of_word 8 (of_nat k :: u64)) = unat (of_nat k :: u64)"
    using unat_word_of_le [of "le_of_word 8 (of_nat k :: u64)", where 'a = 64] by (simp add: word_of_le_of_word)
  then have "le_of_word 8 (of_nat k :: u64) = le_bytes 8 (unat (of_nat k :: u64))"
    using le_bytes_le_val [of "le_of_word 8 (of_nat k :: u64)"] by (simp only: length_word_bytes)
  also have "unat (of_nat k :: u64) = k mod 256 ^ 8"
    by (simp add: unat_of_nat)
  also have "le_bytes 8 (k mod 256 ^ 8) = le_bytes 8 k"
    using le_bytes_le_val [of "le_bytes 8 k"] by (simp only: le_val_le_bytes length_le_bytes)
  finally show ?thesis .
qed

lemma aead_lens_eq: "aead_lens aad c = le_bytes 8 (length aad) @ le_bytes 8 (length c)"
  by (simp add: aead_lens_def write_at_def le_of_word_of_nat)

lemma chacha_tag_eq:
  assumes "operational m = Inr u" "length key = 32"
  shows "chacha_tag m key nonce aad c =
    (if length nonce = 12 then Ok (chacha_tag_spec key nonce aad c)
     else Err InvalidLength ''chacha20-poly1305 nonce'')"
proof (cases "length nonce = 12")
  case True
  let ?k = "take 32 (chacha20_block key 0 nonce)"
  have "length ?k = 32" using length_chacha20_block [OF assms(2) True] by simp
  from poly1305.mac_streaming [OF assms(1) this, of "[aad, pad16 aad, c, pad16 c, aead_lens aad c]"]
    poly1305.mac_tag [OF assms(1) this]
  show ?thesis
    using True by (simp add: chacha_tag_def chacha_poly_key_def chacha_tag_spec_def Poly1305_def
        aead_mac_data_def pad16_eq aead_lens_eq Let_def)
qed (simp add: chacha_tag_def chacha_poly_key_def)

section \<open>The contract\<close>

lemma chacha20_xor_eq:
  assumes "operational m = Inr u" "length key = 32"
  shows "chacha20_xor m key nonce counter data =
    (if length nonce = 12 then xor_keystream key nonce counter data
     else (Err InvalidLength ''chacha20 nonce must be 12 bytes'', data))"
  using assms by (simp add: chacha20_xor_def)

lemma length_chacha_tag_spec [simp]: "length (chacha_tag_spec key nonce aad c) = 16"
  by (simp add: chacha_tag_spec_def poly1305_spec_def)

text \<open>Sealing, on every branch.\<close>

lemma chacha_seal_eq:
  assumes "length key = 32" "operational m = Inr u"
  shows "chacha_seal m key n a p t =
    (if length t \<noteq> 16 then (Err InvalidLength ''chacha20-poly1305 tag buffer'', p, t)
     else if length n \<noteq> 12 then (Err InvalidLength ''chacha20 nonce must be 12 bytes'', p, t)
     else (case xor_keystream key n 1 p of
             (Inl e, c) \<Rightarrow> (Inl e, c, t)
           | (Inr _, c) \<Rightarrow> (Ok (), c, chacha_tag_spec key n a c)))"
  using assms
  by (simp add: chacha_seal_def chacha20_xor_eq chacha_tag_eq split: sum.split prod.split)

lemma chacha_open_eq:
  assumes "length key = 32" "operational m = Inr u"
  shows "chacha_open m key n a c t =
    (if length t \<noteq> 16 then (Err InvalidLength ''chacha20-poly1305 tag'', c)
     else if length n \<noteq> 12 then (Err InvalidLength ''chacha20-poly1305 nonce'', c)
     else if t \<noteq> chacha_tag_spec key n a c
     then (Err AuthenticationFailed ''chacha20-poly1305'', replicate (length c) 0)
     else xor_keystream key n 1 c)"
  using assms
  by (auto simp: chacha_open_def chacha20_xor_eq chacha_tag_eq ct_choice_simps)

lemma chacha_seal_okE:
  assumes "length key = 32" "chacha_seal m key n a p t = (Inr u, x, y)"
  obtains "operational m = Inr ()" "length t = 16" "length n = 12"
    "xor_keystream key n 1 p = (Inr (), x)" "y = chacha_tag_spec key n a x"
proof (cases "operational m")
  case (Inl e)
  then show ?thesis using assms by (simp add: chacha_seal_def)
next
  case (Inr u')
  show ?thesis
    using assms(2) Inr that
    unfolding chacha_seal_eq [OF assms(1) Inr] by (auto split: if_splits prod.splits sum.splits)
qed

lemma chacha_open_okE:
  assumes "length key = 32" "chacha_open m key n a x y = (Inr u, p)"
  obtains "operational m = Inr ()" "length n = 12"
    "xor_keystream key n 1 x = (Inr (), p)" "y = chacha_tag_spec key n a x"
proof (cases "operational m")
  case (Inl e)
  then show ?thesis using assms by (simp add: chacha_open_def)
next
  case (Inr u')
  show ?thesis
    using assms(2) Inr that
    unfolding chacha_open_eq [OF assms(1) Inr] by (auto split: if_splits)
qed

lemma xor_keystream_err: "xor_keystream k n c x = (Inl e, p) \<Longrightarrow> p = x"
  by (auto simp: xor_keystream_def Let_def split: if_splits)

lemma chacha_open_seal:
  assumes "length key = 32" "chacha_seal m key n a p t = (Inr u, x, y)" "operational m' = Inr ()"
  shows "chacha_open m' key n a x y = (Inr (), p)"
proof (rule chacha_seal_okE [OF assms(1,2)])
  assume n: "length n = 12" and x: "xor_keystream key n 1 p = (Inr (), x)" and y: "y = chacha_tag_spec key n a x"
  from xor_keystream_twice [OF assms(1) n x] show ?thesis
    using n y by (simp add: chacha_open_eq [OF assms(1,3)])
qed

lemma chacha_seal_open:
  assumes "length key = 32" "chacha_open m key n a x y = (Inr u, p)" "length t = 16"
  shows "chacha_seal m key n a p t = (Inr (), x, y)"
proof (rule chacha_open_okE [OF assms(1,2)])
  assume m: "operational m = Inr ()" and n: "length n = 12" and x: "xor_keystream key n 1 x = (Inr (), p)"
    and y: "y = chacha_tag_spec key n a x"
  from xor_keystream_twice [OF assms(1) n x] show ?thesis
    using n y assms(3) by (simp add: chacha_seal_eq [OF assms(1) m])
qed

lemma chacha_open_fails:
  assumes "length key = 32" "chacha_open m key n a x y = (Inl e, p)"
  shows "p = x \<or> p = replicate (length x) 0"
proof (cases "operational m")
  case (Inl e')
  then show ?thesis using assms by (simp add: chacha_open_def)
next
  case (Inr u)
  then show ?thesis
    using assms(2) by (auto simp: chacha_open_eq [OF assms(1) Inr] dest: xor_keystream_err split: if_splits)
qed

lemma chacha_seal_lengths:
  assumes "length key = 32" "chacha_seal m key n a p t = (Inr u, x, y)"
  shows "length n = 12 \<and> length x = length p \<and> length y = 16"
proof (rule chacha_seal_okE [OF assms])
  assume n: "length n = 12" and x: "xor_keystream key n 1 p = (Inr (), x)" and y: "y = chacha_tag_spec key n a x"
  from xor_keystream_length [OF assms(1) n x] show ?thesis using n y by simp
qed

interpretation chacha20poly1305: aead ChaCha20Poly1305 "\<lambda>key. length key = 32"
proof unfold_locales
  fix m k c
  assume "aead_new ChaCha20Poly1305 m k = Inr c"
  then show "length c = 32"
    by (auto simp: ChaCha20Poly1305_def chacha_new_def split: if_splits)
next
  fix m :: module_state and u and k :: bytes
  assume "operational m = Inr u" "length k = AEAD_KEY_LEN ChaCha20Poly1305"
  then show "\<exists>c. aead_new ChaCha20Poly1305 m k = Inr c"
    by (simp add: ChaCha20Poly1305_def chacha_new_def)
next
  fix m :: module_state and e c n a p t
  assume "operational m = Inl e"
  then show "aead_seal ChaCha20Poly1305 m c n a p t = (Inl e, p, t)"
    by (simp add: ChaCha20Poly1305_def chacha_seal_def)
next
  fix c m n a p t u x y
  assume c: "length c = 32" and s: "aead_seal ChaCha20Poly1305 m c n a p t = (Inr u, x, y)"
  then show "length n = AEAD_NONCE_LEN ChaCha20Poly1305 \<and> length x = length p \<and> length y = AEAD_TAG_LEN ChaCha20Poly1305"
    using chacha_seal_lengths [of c m n a p t u x y] by (simp add: ChaCha20Poly1305_def)
next
  fix c :: bytes and m m' :: module_state and n a p t u x y
  assume "length c = 32" "aead_seal ChaCha20Poly1305 m c n a p t = (Inr u, x, y)" "operational m' = Inr u"
  then show "aead_open ChaCha20Poly1305 m' c n a x y = (Inr u, p)"
    using chacha_open_seal [of c m n a p t u x y m'] by (simp add: ChaCha20Poly1305_def)
next
  fix c t :: bytes and m n a p u x y
  assume "length c = 32" "aead_open ChaCha20Poly1305 m c n a x y = (Inr u, p)"
    "length t = AEAD_TAG_LEN ChaCha20Poly1305"
  then show "aead_seal ChaCha20Poly1305 m c n a p t = (Inr u, x, y)"
    using chacha_seal_open [of c m n a x y u p t] by (simp add: ChaCha20Poly1305_def)
next
  fix c :: bytes and m n a x y e p
  assume "length c = 32" "aead_open ChaCha20Poly1305 m c n a x y = (Inl e, p)"
  then show "p = x \<or> p = replicate (length x) 0"
    using chacha_open_fails [of c m n a x y e p] by (simp add: ChaCha20Poly1305_def)
qed

section \<open>The contract with 24-byte nonces\<close>

lemma xchacha_seal_eq:
  assumes "operational m = Inr u"
  shows "xchacha_seal m key n a p t =
    (if length n \<noteq> 24 then (Err InvalidLength ''xchacha20-poly1305 nonce must be 24 bytes'', p, t)
     else chacha_seal m (hchacha20 key (take 16 n)) (replicate 4 0 @ drop 16 n) a p t)"
  using assms by (simp add: xchacha_seal_def xchacha_inner_def write_at_def)

lemma xchacha_open_eq:
  assumes "operational m = Inr u"
  shows "xchacha_open m key n a c t =
    (if length n \<noteq> 24 then (Err InvalidLength ''xchacha20-poly1305 nonce must be 24 bytes'', c)
     else chacha_open m (hchacha20 key (take 16 n)) (replicate 4 0 @ drop 16 n) a c t)"
  using assms by (simp add: xchacha_open_def xchacha_inner_def write_at_def)

lemma xchacha_gate:
  assumes "operational m = Inl e"
  shows "xchacha_seal m key n a p t = (Inl e, p, t)" "xchacha_open m key n a p t = (Inl e, p)"
  using assms by (simp_all add: xchacha_seal_def xchacha_open_def)

lemma xchacha_seal_okE:
  assumes "xchacha_seal m key n a p t = (Inr u, x, y)"
  obtains "operational m = Inr ()" "length n = 24"
    "chacha_seal m (hchacha20 key (take 16 n)) (replicate 4 0 @ drop 16 n) a p t = (Inr (), x, y)"
proof (cases "operational m")
  case (Inl e)
  then show ?thesis using assms by (simp add: xchacha_gate)
next
  case (Inr u')
  then show ?thesis using assms that by (simp add: xchacha_seal_eq [OF Inr] split: if_splits)
qed

lemma xchacha_open_okE:
  assumes "xchacha_open m key n a x y = (Inr u, p)"
  obtains "operational m = Inr ()" "length n = 24"
    "chacha_open m (hchacha20 key (take 16 n)) (replicate 4 0 @ drop 16 n) a x y = (Inr (), p)"
proof (cases "operational m")
  case (Inl e)
  then show ?thesis using assms by (simp add: xchacha_gate)
next
  case (Inr u')
  then show ?thesis using assms that by (simp add: xchacha_open_eq [OF Inr] split: if_splits)
qed

lemma length_subkey: "length key = 32 \<Longrightarrow> length n = 24 \<Longrightarrow> length (hchacha20 key (take 16 n)) = 32"
  by simp

interpretation xchacha20poly1305: aead XChaCha20Poly1305 "\<lambda>key. length key = 32"
proof unfold_locales
  fix m k c
  assume "aead_new XChaCha20Poly1305 m k = Inr c"
  then show "length c = 32"
    by (auto simp: XChaCha20Poly1305_def chacha_new_def split: if_splits)
next
  fix m :: module_state and u and k :: bytes
  assume "operational m = Inr u" "length k = AEAD_KEY_LEN XChaCha20Poly1305"
  then show "\<exists>c. aead_new XChaCha20Poly1305 m k = Inr c"
    by (simp add: XChaCha20Poly1305_def chacha_new_def)
next
  fix m :: module_state and e c n a p t
  assume "operational m = Inl e"
  then show "aead_seal XChaCha20Poly1305 m c n a p t = (Inl e, p, t)"
    by (simp add: XChaCha20Poly1305_def xchacha_gate)
next
  fix c t :: bytes and m n a p u x y
  assume c: "length c = 32" and "aead_seal XChaCha20Poly1305 m c n a p t = (Inr u, x, y)"
  then have "xchacha_seal m c n a p t = (Inr u, x, y)" by (simp add: XChaCha20Poly1305_def)
  then show "length n = AEAD_NONCE_LEN XChaCha20Poly1305 \<and> length x = length p \<and> length y = AEAD_TAG_LEN XChaCha20Poly1305"
  proof (rule xchacha_seal_okE)
    assume n: "length n = 24"
      and s: "chacha_seal m (hchacha20 c (take 16 n)) (replicate 4 0 @ drop 16 n) a p t = (Inr (), x, y)"
    from chacha_seal_lengths [OF length_subkey [OF c n] s] show ?thesis
      using n by (simp add: XChaCha20Poly1305_def)
  qed
next
  fix c :: bytes and m m' :: module_state and n a p t u x y
  assume c: "length c = 32" and s: "aead_seal XChaCha20Poly1305 m c n a p t = (Inr u, x, y)"
    and m': "operational m' = Inr u"
  from s have "xchacha_seal m c n a p t = (Inr u, x, y)" by (simp add: XChaCha20Poly1305_def)
  then show "aead_open XChaCha20Poly1305 m' c n a x y = (Inr u, p)"
  proof (rule xchacha_seal_okE)
    assume n: "length n = 24"
      and s: "chacha_seal m (hchacha20 c (take 16 n)) (replicate 4 0 @ drop 16 n) a p t = (Inr (), x, y)"
    from chacha_open_seal [OF length_subkey [OF c n] s, of m'] show ?thesis
      using n m' by (simp add: XChaCha20Poly1305_def xchacha_open_eq)
  qed
next
  fix c t :: bytes and m n a p u x y
  assume c: "length c = 32" and s: "aead_open XChaCha20Poly1305 m c n a x y = (Inr u, p)"
    and t: "length t = AEAD_TAG_LEN XChaCha20Poly1305"
  from s have "xchacha_open m c n a x y = (Inr u, p)" by (simp add: XChaCha20Poly1305_def)
  then show "aead_seal XChaCha20Poly1305 m c n a p t = (Inr u, x, y)"
  proof (rule xchacha_open_okE)
    assume m: "operational m = Inr ()" and n: "length n = 24"
      and s: "chacha_open m (hchacha20 c (take 16 n)) (replicate 4 0 @ drop 16 n) a x y = (Inr (), p)"
    from chacha_seal_open [OF length_subkey [OF c n] s, of t] show ?thesis
      using n t by (simp add: XChaCha20Poly1305_def xchacha_seal_eq [OF m])
  qed
next
  fix c :: bytes and m n a x y e p
  assume c: "length c = 32" and s: "aead_open XChaCha20Poly1305 m c n a x y = (Inl e, p)"
  show "p = x \<or> p = replicate (length x) 0"
  proof (cases "operational m")
    case (Inl e')
    then show ?thesis using s by (simp add: XChaCha20Poly1305_def xchacha_gate)
  next
    case (Inr u)
    show ?thesis
    proof (cases "length n = 24")
      case True
      then show ?thesis
        using s chacha_open_fails [OF length_subkey [OF c True], of m "replicate 4 0 @ drop 16 n" a x y e p]
        by (simp add: XChaCha20Poly1305_def xchacha_open_eq [OF Inr])
    qed (use s in \<open>simp add: XChaCha20Poly1305_def xchacha_open_eq [OF Inr]\<close>)
  qed
qed

section \<open>Random nonces\<close>

text \<open>
  A message sealed under a drawn nonce opens under the nonce returned; an error leaves
  the message untouched.
\<close>

context random_source
begin

lemma seal_with_random_nonce_Ok:
  assumes "live r" "length key = 32"
    and "seal_with_random_nonce m fill key r a p t = (Inr n, x, y, r')"
  shows "length n = 24" "live r'" "xchacha_open m key n a x y = (Ok (), p)"
proof -
  obtain r1 where m: "operational m = Inr ()" and f: "fill r 24 = (Inr n, r1)"
    and s: "xchacha_seal m key n a p t = (Inr (), x, y)" and r1: "r1 = r'"
    using assms(3)
    by (auto simp: seal_with_random_nonce_def split: sum.splits prod.splits if_splits)
  show "length n = 24" using fill_length [OF assms(1) f] .
  show "live r'" using fill_live [OF assms(1) f] r1 by simp
  show "xchacha_open m key n a x y = (Ok (), p)"
    using xchacha20poly1305.open_seal [of key m n a p t "()" x y m] s m assms(2)
    by (simp add: XChaCha20Poly1305_def)
qed

end

end
