(* ===== verification/Core_Cipher.thy ===== *)
theory Core_Cipher
  imports Core_Module
begin

text \<open>
  The block-cipher contract of \<open>crates/ic-core/src/traits.rs\<close>: the trait as a record of
  operations, its provided batch operation, and the laws the modes of operation rest on as
  a locale. An operation in place returns its result and the buffer.
\<close>

record 'c block_cipher_ops =
  bc_new :: "module_state \<Rightarrow> bytes \<Rightarrow> 'c result"
  bc_encrypt_block :: "'c \<Rightarrow> bytes \<Rightarrow> unit result \<times> bytes"
  bc_decrypt_block :: "'c \<Rightarrow> bytes \<Rightarrow> unit result \<times> bytes"
  bc_encrypt_blocks :: "'c \<Rightarrow> bytes \<Rightarrow> unit result \<times> bytes"
  BC_BLOCK_LEN :: nat
  BC_KEY_LEN :: nat

text \<open>A loop over the blocks of a buffer that stops at the first error.\<close>

fun each_block :: "(bytes \<Rightarrow> unit result \<times> bytes) \<Rightarrow> bytes list \<Rightarrow> unit result \<times> bytes" where
  "each_block f [] = (Ok (), [])"
| "each_block f (b # bs) =
     (case f b of
        (Inl e, b') \<Rightarrow> (Inl e, b' @ concat bs)
      | (Inr u, b') \<Rightarrow> (case each_block f bs of (r, rest) \<Rightarrow> (r, b' @ rest)))"

lemma each_block_Ok:
  "\<forall>b\<in>set bs. f b = (Ok (), g b) \<Longrightarrow> each_block f bs = (Ok (), concat (map g bs))"
  by (induction bs) simp_all

text \<open>
  What a cipher over blocks of sixteen bytes promises: \<open>E\<close> and \<open>D\<close> are the permutations a
  key selects.
\<close>

locale block_cipher =
  fixes B :: "'c block_cipher_ops"
    and good :: "'c \<Rightarrow> bool"
    and E :: "'c \<Rightarrow> bytes \<Rightarrow> bytes"
    and D :: "'c \<Rightarrow> bytes \<Rightarrow> bytes"
  assumes new_good: "bc_new B m key = Ok c \<Longrightarrow> good c"
    and encrypt_block: "good c \<Longrightarrow> length b = 16 \<Longrightarrow> bc_encrypt_block B c b = (Ok (), E c b)"
    and decrypt_block: "good c \<Longrightarrow> length b = 16 \<Longrightarrow> bc_decrypt_block B c b = (Ok (), D c b)"
    and encrypt_blocks: "good c \<Longrightarrow> length data mod 16 = 0 \<Longrightarrow>
      bc_encrypt_blocks B c data = (Ok (), concat (map (E c) (chunks 16 data)))"
    and length_E: "good c \<Longrightarrow> length b = 16 \<Longrightarrow> length (E c b) = 16"
    and length_D: "good c \<Longrightarrow> length b = 16 \<Longrightarrow> length (D c b) = 16"
    and D_E: "good c \<Longrightarrow> length b = 16 \<Longrightarrow> D c (E c b) = b"
    and E_D: "good c \<Longrightarrow> length b = 16 \<Longrightarrow> E c (D c b) = b"
begin

text \<open>What a caller sees of the permutations, with the results of the operations.\<close>

lemma inverse_blocks:
  assumes "good c" "length b = 16"
  shows "bc_encrypt_block B c b = (Ok (), x) \<Longrightarrow> bc_decrypt_block B c x = (Ok (), b) \<and> length x = 16"
    and "bc_decrypt_block B c b = (Ok (), y) \<Longrightarrow> bc_encrypt_block B c y = (Ok (), b)"
  using assms encrypt_block [of c b] decrypt_block [of c b] decrypt_block [of c "E c b"] encrypt_block [of c "D c b"]
    length_E [of c b] length_D [of c b] D_E [of c b] E_D [of c b] by auto

lemma batch:
  assumes "good c" "length data mod 16 = 0"
  shows "bc_encrypt_blocks B c data = each_block (bc_encrypt_block B c) (chunks 16 data)"
    and "fst (bc_encrypt_blocks B c data) = Ok ()" "length (snd (bc_encrypt_blocks B c data)) = length data"
proof -
  have n: "length data = length data div 16 * 16"
    using assms(2) by auto
  have l: "\<forall>b\<in>set (chunks 16 data). length b = 16"
    using chunks_exact_lengths [OF n] by simp
  then have "each_block (bc_encrypt_block B c) (chunks 16 data) = (Ok (), concat (map (E c) (chunks 16 data)))"
    using encrypt_block [OF assms(1)] by (intro each_block_Ok) auto
  then show "bc_encrypt_blocks B c data = each_block (bc_encrypt_block B c) (chunks 16 data)"
    "fst (bc_encrypt_blocks B c data) = Ok ()"
    using encrypt_blocks [OF assms] by simp_all
  have "length (concat (map (E c) bs)) = length (concat bs)" if "\<forall>b\<in>set bs. length b = 16" for bs
    using that length_E [OF assms(1)] by (induction bs) auto
  then show "length (snd (bc_encrypt_blocks B c data)) = length data"
    using encrypt_blocks [OF assms] l by (simp add: concat_chunks)
qed

end

end
