(* ===== verification/Aes.thy ===== *)
theory Aes
  imports Gf Core_Cipher
begin

text \<open>
  The portable AES of \<open>crates/ic-cipher/src/aes/portable.rs\<close>: the key schedule, the round
  operations as the code writes them, and the two directions of the cipher. The state is
  sixteen bytes in column order.
\<close>

section \<open>The key schedule\<close>

definition AES_BLOCK_LEN :: nat where "AES_BLOCK_LEN = 16"

definition MAX_ROUND_KEYS :: nat where "MAX_ROUND_KEYS = 15 * AES_BLOCK_LEN"

definition rcon :: "nat \<Rightarrow> u8" where
  "rcon i = (gf_xtime ^^ (i - 1)) 1"

record schedule =
  sched_round_keys :: bytes
  sched_rounds :: nat

text \<open>One word of the expansion.\<close>

definition expand_word :: "nat \<Rightarrow> nat \<Rightarrow> bytes \<Rightarrow> bytes" where
  "expand_word nk i rk =
     (let t = slice ((i - 1) * 4) 4 rk;
          t = (if i mod nk = 0
               then (let t = map gf_sbox (rotate1 t) in t[0 := t ! 0 XOR rcon (i div nk)])
               else if 6 < nk \<and> i mod nk = 4 then map gf_sbox t
               else t)
      in write_at (i * 4) (xor_bytes (slice ((i - nk) * 4) 4 rk) t) rk)"

definition schedule_expand :: "bytes \<Rightarrow> schedule result" where
  "schedule_expand key =
     (let nk = length key div 4
      in case (if length key = 16 then Some 10 else if length key = 24 then Some 12
               else if length key = 32 then Some 14 else None) of
           None \<Rightarrow> Err InvalidLength ''aes key must be 16, 24, or 32 bytes''
         | Some n \<Rightarrow>
             Ok \<lparr>sched_round_keys = fold (expand_word nk) [nk..<(n + 1) * 4] (write_at 0 key (replicate MAX_ROUND_KEYS 0)),
                 sched_rounds = n\<rparr>)"

definition round_key :: "schedule \<Rightarrow> nat \<Rightarrow> bytes" where
  "round_key sched r = slice (r * AES_BLOCK_LEN) AES_BLOCK_LEN (sched_round_keys sched)"

section \<open>The round operations\<close>

definition add_round_key :: "bytes \<Rightarrow> bytes \<Rightarrow> bytes" where
  "add_round_key rk state = xor_bytes state rk"

definition sub_bytes :: "bytes \<Rightarrow> bytes" where
  "sub_bytes state = map gf_sbox state"

definition inv_sub_bytes :: "bytes \<Rightarrow> bytes" where
  "inv_sub_bytes state = map gf_inv_sbox state"

text \<open>The two nested loops over columns \<open>c\<close> and rows \<open>r\<close>, as one over \<open>4 c + r\<close>.\<close>

definition shift_rows :: "bytes \<Rightarrow> bytes" where
  "shift_rows s =
     (let t = s
      in fold (\<lambda>k s. let c = k div 4; r = k mod 4 in s[c * 4 + r := t ! (((c + r) mod 4) * 4 + r)]) [0..<16] s)"

definition inv_shift_rows :: "bytes \<Rightarrow> bytes" where
  "inv_shift_rows s =
     (let t = s
      in fold (\<lambda>k s. let c = k div 4; r = k mod 4 in s[((c + r) mod 4) * 4 + r := t ! (c * 4 + r)]) [0..<16] s)"

fun mix_column :: "bytes \<Rightarrow> bytes" where
  "mix_column [a, b, c, d] =
     [gf_xtime a XOR (gf_xtime b XOR b) XOR c XOR d,
      a XOR gf_xtime b XOR (gf_xtime c XOR c) XOR d,
      a XOR b XOR gf_xtime c XOR (gf_xtime d XOR d),
      (gf_xtime a XOR a) XOR b XOR c XOR gf_xtime d]"
| "mix_column col = col"

fun inv_mix_column :: "bytes \<Rightarrow> bytes" where
  "inv_mix_column [a, b, c, d] =
     [gf_mul a 14 XOR gf_mul b 11 XOR gf_mul c 13 XOR gf_mul d 9,
      gf_mul a 9 XOR gf_mul b 14 XOR gf_mul c 11 XOR gf_mul d 13,
      gf_mul a 13 XOR gf_mul b 9 XOR gf_mul c 14 XOR gf_mul d 11,
      gf_mul a 11 XOR gf_mul b 13 XOR gf_mul c 9 XOR gf_mul d 14]"
| "inv_mix_column col = col"

definition mix_columns :: "bytes \<Rightarrow> bytes" where
  "mix_columns s = fold (\<lambda>c s. write_at (c * 4) (mix_column (slice (c * 4) 4 s)) s) [0..<4] s"

definition inv_mix_columns :: "bytes \<Rightarrow> bytes" where
  "inv_mix_columns s = fold (\<lambda>c s. write_at (c * 4) (inv_mix_column (slice (c * 4) 4 s)) s) [0..<4] s"

section \<open>The cipher\<close>

definition aes_encrypt_block :: "schedule \<Rightarrow> bytes \<Rightarrow> unit result \<times> bytes" where
  "aes_encrypt_block sched block =
     (if length block \<noteq> AES_BLOCK_LEN then (Err InvalidLength ''aes block'', block)
      else let s = add_round_key (round_key sched 0) block;
               s = fold (\<lambda>r s. add_round_key (round_key sched r) (mix_columns (shift_rows (sub_bytes s))))
                     [1..<sched_rounds sched] s;
               s = shift_rows (sub_bytes s);
               s = add_round_key (round_key sched (sched_rounds sched)) s
           in (Ok (), s))"

definition aes_decrypt_block :: "schedule \<Rightarrow> bytes \<Rightarrow> unit result \<times> bytes" where
  "aes_decrypt_block sched block =
     (if length block \<noteq> AES_BLOCK_LEN then (Err InvalidLength ''aes block'', block)
      else let s = add_round_key (round_key sched (sched_rounds sched)) block;
               s = fold (\<lambda>r s. inv_mix_columns (add_round_key (round_key sched r) (inv_sub_bytes (inv_shift_rows s))))
                     (rev [1..<sched_rounds sched]) s;
               s = inv_sub_bytes (inv_shift_rows s);
               s = add_round_key (round_key sched 0) s
           in (Ok (), s))"

section \<open>The round operations are inverted\<close>

lemma length16_cases:
  assumes "length s = 16"
  obtains a0 a1 a2 a3 a4 a5 a6 a7 a8 a9 a10 a11 a12 a13 a14 a15
  where "s = [a0, a1, a2, a3, a4, a5, a6, a7, a8, a9, a10, a11, a12, a13, a14, a15]"
  using assms by (auto simp: numeral_eq_Suc length_Suc_conv)

lemma upt_16: "[0..<16] = [0, 1, 2, 3, 4, 5, 6, 7, 8, 9, 10, 11, 12, 13, 14, 15]"
  by (simp add: upt_rec)

lemma upt_4: "[0..<4] = [0, 1, 2, 3]"
  by (simp add: upt_rec)

lemma shift_rows_16:
  "shift_rows [a0, a1, a2, a3, a4, a5, a6, a7, a8, a9, a10, a11, a12, a13, a14, a15] =
   [a0, a5, a10, a15, a4, a9, a14, a3, a8, a13, a2, a7, a12, a1, a6, a11]"
  by (simp add: shift_rows_def upt_16 Let_def)

lemma inv_shift_rows_16:
  "inv_shift_rows [a0, a5, a10, a15, a4, a9, a14, a3, a8, a13, a2, a7, a12, a1, a6, a11] =
   [a0, a1, a2, a3, a4, a5, a6, a7, a8, a9, a10, a11, a12, a13, a14, a15]"
  by (simp add: inv_shift_rows_def upt_16 Let_def)

lemma inv_shift_rows_shift_rows: "length s = 16 \<Longrightarrow> inv_shift_rows (shift_rows s) = s"
  by (elim length16_cases) (simp add: shift_rows_16 inv_shift_rows_16)

lemma mix_columns_16:
  "mix_columns [a0, a1, a2, a3, a4, a5, a6, a7, a8, a9, a10, a11, a12, a13, a14, a15] =
   mix_column [a0, a1, a2, a3] @ mix_column [a4, a5, a6, a7] @ mix_column [a8, a9, a10, a11] @ mix_column [a12, a13, a14, a15]"
  by (simp add: mix_columns_def upt_4 slice_def write_at_def)

lemma inv_mix_columns_16:
  "inv_mix_columns [a0, a1, a2, a3, a4, a5, a6, a7, a8, a9, a10, a11, a12, a13, a14, a15] =
   inv_mix_column [a0, a1, a2, a3] @ inv_mix_column [a4, a5, a6, a7] @ inv_mix_column [a8, a9, a10, a11] @
   inv_mix_column [a12, a13, a14, a15]"
  by (simp add: inv_mix_columns_def upt_4 slice_def write_at_def)

lemma gf_mul_coeffs:
  "gf_mul a 9 = gf_xtime (gf_xtime (gf_xtime a)) XOR a"
  "gf_mul a 11 = gf_xtime (gf_xtime (gf_xtime a)) XOR gf_xtime a XOR a"
  "gf_mul a 13 = gf_xtime (gf_xtime (gf_xtime a)) XOR gf_xtime (gf_xtime a) XOR a"
  "gf_mul a 14 = gf_xtime (gf_xtime (gf_xtime a)) XOR gf_xtime (gf_xtime a) XOR gf_xtime a"
proof -
  have p: "(gf_xtime ^^ i) a = gf_mul a (push_bit i 1)" if "i < 8" for i
    using gf_mul_power [OF that] by simp
  have x: "gf_xtime a = gf_mul a 2" "gf_xtime (gf_xtime a) = gf_mul a 4" "gf_xtime (gf_xtime (gf_xtime a)) = gf_mul a 8"
    using p [of 1] p [of 2] p [of 3] by (simp_all add: numeral_2_eq_2 numeral_3_eq_3)
  note d = additive8D [OF gf_mul_additive_right, symmetric]
  have h: "gf_mul a 10 = gf_xtime (gf_xtime (gf_xtime a)) XOR gf_xtime a"
    "gf_mul a 12 = gf_xtime (gf_xtime (gf_xtime a)) XOR gf_xtime (gf_xtime a)"
    using d [of a 8 2] d [of a 8 4] by (simp_all flip: x)
  show "gf_mul a 9 = gf_xtime (gf_xtime (gf_xtime a)) XOR a"
    using d [of a 8 1] by (simp flip: x)
  show "gf_mul a 11 = gf_xtime (gf_xtime (gf_xtime a)) XOR gf_xtime a XOR a"
    using d [of a 10 1] by (simp add: h xor.assoc)
  show "gf_mul a 13 = gf_xtime (gf_xtime (gf_xtime a)) XOR gf_xtime (gf_xtime a) XOR a"
    using d [of a 12 1] by (simp add: h xor.assoc)
  show "gf_mul a 14 = gf_xtime (gf_xtime (gf_xtime a)) XOR gf_xtime (gf_xtime a) XOR gf_xtime a"
    using d [of a 12 2] by (simp add: h xor.assoc flip: x)
qed

lemma inv_mix_column_mix_column:
  "inv_mix_column (mix_column [a, b, c, d]) = [a, b, c, d]"
  by (simp add: gf_mul_coeffs additive8D [OF gf_xtime_additive] ac_simps)

lemma inv_mix_columns_mix_columns:
  assumes "length s = 16"
  shows "inv_mix_columns (mix_columns s) = s"
proof -
  have m: "\<exists>w x y z. mix_column [a, b, c, d] = [w, x, y, z]" for a b c d
    by simp
  obtain a0 a1 a2 a3 a4 a5 a6 a7 a8 a9 a10 a11 a12 a13 a14 a15
    where s: "s = [a0, a1, a2, a3, a4, a5, a6, a7, a8, a9, a10, a11, a12, a13, a14, a15]"
    using assms by (rule length16_cases)
  obtain b0 b1 b2 b3 where b: "mix_column [a0, a1, a2, a3] = [b0, b1, b2, b3]" using m by blast
  obtain c0 c1 c2 c3 where c: "mix_column [a4, a5, a6, a7] = [c0, c1, c2, c3]" using m by blast
  obtain d0 d1 d2 d3 where d: "mix_column [a8, a9, a10, a11] = [d0, d1, d2, d3]" using m by blast
  obtain e0 e1 e2 e3 where e: "mix_column [a12, a13, a14, a15] = [e0, e1, e2, e3]" using m by blast
  show ?thesis
    by (simp only: s mix_columns_16 b c d e append.simps inv_mix_columns_16)
      (simp only: b [symmetric] c [symmetric] d [symmetric] e [symmetric] inv_mix_column_mix_column append.simps)
qed

lemma length_state_ops [simp]:
  "length (sub_bytes s) = length s" "length (inv_sub_bytes s) = length s"
  "length (shift_rows s) = length s" "length (inv_shift_rows s) = length s"
proof -
  have "length (fold (\<lambda>k s. s[f k := g k]) ks s) = length s" for f :: "nat \<Rightarrow> nat" and g :: "nat \<Rightarrow> u8" and ks s
    by (induction ks arbitrary: s) simp_all
  then show "length (shift_rows s) = length s" "length (inv_shift_rows s) = length s"
    by (simp_all add: shift_rows_def inv_shift_rows_def Let_def)
qed (simp_all add: sub_bytes_def inv_sub_bytes_def)

lemma length_mix_columns: "length s = 16 \<Longrightarrow> length (mix_columns s) = 16 \<and> length (inv_mix_columns s) = 16"
  by (elim length16_cases) (simp add: mix_columns_16 inv_mix_columns_16)

lemma inv_sub_bytes_sub_bytes: "inv_sub_bytes (sub_bytes s) = s"
  by (simp add: inv_sub_bytes_def sub_bytes_def inv_sbox_sbox comp_def)

section \<open>Decryption inverts encryption\<close>

definition schedule_ok :: "schedule \<Rightarrow> bool" where
  "schedule_ok sched \<longleftrightarrow> length (sched_round_keys sched) = 240 \<and> sched_rounds sched \<le> 14"

lemma length_expand_word:
  assumes "length rk = 240" "0 < nk" "nk \<le> i" "i < 60"
  shows "length (expand_word nk i rk) = 240"
proof -
  have "length (slice ((i - 1) * 4) 4 rk) = 4" "length (slice ((i - nk) * 4) 4 rk) = 4"
    using assms by simp_all
  then show ?thesis
    using assms by (simp add: expand_word_def Let_def)
qed

lemma schedule_expand_ok:
  assumes "schedule_expand key = Ok sched"
  shows "schedule_ok sched"
proof -
  have f: "length (fold (expand_word nk) ks rk) = 240"
    if "length rk = 240" "0 < nk" "\<forall>i\<in>set ks. nk \<le> i \<and> i < 60" for nk ks rk
    using that by (induction ks arbitrary: rk) (simp_all add: length_expand_word)
  have k: "length key \<in> {16, 24, 32}"
    using assms by (auto simp: schedule_expand_def Let_def split: if_splits)
  then have "length (write_at 0 key (replicate MAX_ROUND_KEYS 0)) = 240"
    by (auto simp: MAX_ROUND_KEYS_def AES_BLOCK_LEN_def)
  then show ?thesis
    using k assms f [of "write_at 0 key (replicate MAX_ROUND_KEYS 0)"]
    by (auto simp: schedule_expand_def schedule_ok_def simp del: upt_rec_numeral fold_simps)
qed

lemma schedule_expand_iff: "(\<exists>sched. schedule_expand key = Ok sched) \<longleftrightarrow> length key \<in> {16, 24, 32}"
  by (auto simp: schedule_expand_def Let_def)

lemma length_round_key: "schedule_ok sched \<Longrightarrow> r \<le> sched_rounds sched \<Longrightarrow> length (round_key sched r) = 16"
  by (simp add: round_key_def AES_BLOCK_LEN_def schedule_ok_def)

lemma add_round_key_twice: "length s = length k \<Longrightarrow> add_round_key k (add_round_key k s) = s"
  using xor_bytes_involutive [of s k] by (simp add: add_round_key_def)

lemma length_add_round_key: "length k = length s \<Longrightarrow> length (add_round_key k s) = length s"
  by (simp add: add_round_key_def)

definition aes_round :: "schedule \<Rightarrow> nat \<Rightarrow> bytes \<Rightarrow> bytes" where
  "aes_round sched r s = add_round_key (round_key sched r) (mix_columns (shift_rows (sub_bytes s)))"

definition aes_inv_round :: "schedule \<Rightarrow> nat \<Rightarrow> bytes \<Rightarrow> bytes" where
  "aes_inv_round sched r s = inv_mix_columns (add_round_key (round_key sched r) (inv_sub_bytes (inv_shift_rows s)))"

lemma length_aes_round:
  "schedule_ok sched \<Longrightarrow> r \<le> sched_rounds sched \<Longrightarrow> length s = 16 \<Longrightarrow> length (aes_round sched r s) = 16"
  using length_mix_columns [of "shift_rows (sub_bytes s)"]
  by (simp add: aes_round_def length_add_round_key length_round_key)

lemma length_aes_rounds:
  "schedule_ok sched \<Longrightarrow> \<forall>r\<in>set rs. r \<le> sched_rounds sched \<Longrightarrow> length s = 16 \<Longrightarrow> length (fold (aes_round sched) rs s) = 16"
  by (induction rs arbitrary: s) (simp_all add: length_aes_round)

text \<open>A round undoes the substitution and the shift of the round before it.\<close>

lemma aes_inv_round_step:
  assumes "schedule_ok sched" "r \<le> sched_rounds sched" "length s = 16"
  shows "aes_inv_round sched r (shift_rows (sub_bytes (aes_round sched r s))) = shift_rows (sub_bytes s)"
proof -
  let ?m = "mix_columns (shift_rows (sub_bytes s))"
  have "length ?m = 16"
    using assms(3) length_mix_columns by simp
  then show ?thesis
    using assms length_aes_round [OF assms]
    by (simp add: aes_inv_round_def aes_round_def inv_shift_rows_shift_rows inv_sub_bytes_sub_bytes
        add_round_key_twice length_round_key inv_mix_columns_mix_columns length_add_round_key)
qed

lemma aes_inv_rounds:
  assumes "schedule_ok sched" "\<forall>r\<in>set rs. r \<le> sched_rounds sched" "length s = 16"
  shows "fold (aes_inv_round sched) (rev rs) (shift_rows (sub_bytes (fold (aes_round sched) rs s))) = shift_rows (sub_bytes s)"
  using assms(2,3)
proof (induction rs arbitrary: s)
  case (Cons r rs)
  then show ?case
    using aes_inv_round_step [OF assms(1), of r s] length_aes_round [OF assms(1), of r s] by simp
qed simp

definition aes_encrypt :: "schedule \<Rightarrow> bytes \<Rightarrow> bytes" where
  "aes_encrypt sched b = snd (aes_encrypt_block sched b)"

definition aes_decrypt :: "schedule \<Rightarrow> bytes \<Rightarrow> bytes" where
  "aes_decrypt sched b = snd (aes_decrypt_block sched b)"

lemma aes_blocks:
  assumes "length b = 16"
  shows "aes_encrypt_block sched b = (Ok (), aes_encrypt sched b)" "aes_decrypt_block sched b = (Ok (), aes_decrypt sched b)"
  using assms by (simp_all add: aes_encrypt_def aes_decrypt_def aes_encrypt_block_def aes_decrypt_block_def AES_BLOCK_LEN_def Let_def)

lemma aes_encrypt_eq:
  assumes "length b = 16"
  shows "aes_encrypt sched b = add_round_key (round_key sched (sched_rounds sched))
    (shift_rows (sub_bytes (fold (aes_round sched) [1..<sched_rounds sched] (add_round_key (round_key sched 0) b))))"
  using assms by (simp add: aes_encrypt_def aes_encrypt_block_def AES_BLOCK_LEN_def Let_def aes_round_def [abs_def])

lemma aes_decrypt_eq:
  assumes "length b = 16"
  shows "aes_decrypt sched b = add_round_key (round_key sched 0)
    (inv_sub_bytes (inv_shift_rows (fold (aes_inv_round sched) (rev [1..<sched_rounds sched]) (add_round_key (round_key sched (sched_rounds sched)) b))))"
  using assms by (simp add: aes_decrypt_def aes_decrypt_block_def AES_BLOCK_LEN_def Let_def aes_inv_round_def [abs_def])

lemma length_aes_encrypt:
  assumes "schedule_ok sched" "length b = 16"
  shows "length (aes_encrypt sched b) = 16"
  using length_aes_rounds [OF assms(1), of "[1..<sched_rounds sched]" "add_round_key (round_key sched 0) b"] assms
  by (simp add: aes_encrypt_eq length_add_round_key length_round_key)

lemma aes_decrypt_encrypt:
  assumes "schedule_ok sched" "length b = 16"
  shows "aes_decrypt sched (aes_encrypt sched b) = b"
proof -
  let ?s = "add_round_key (round_key sched 0) b"
  let ?t = "fold (aes_round sched) [1..<sched_rounds sched] ?s"
  have l: "length ?s = 16"
    using assms by (simp add: length_add_round_key length_round_key)
  have t: "length ?t = 16"
    using length_aes_rounds [OF assms(1) _ l] by simp
  have "add_round_key (round_key sched (sched_rounds sched)) (aes_encrypt sched b) = shift_rows (sub_bytes ?t)"
    using t assms by (simp add: aes_encrypt_eq add_round_key_twice length_round_key)
  then have "aes_decrypt sched (aes_encrypt sched b) = add_round_key (round_key sched 0)
      (inv_sub_bytes (inv_shift_rows (shift_rows (sub_bytes ?s))))"
    using aes_inv_rounds [OF assms(1) _ l, of "[1..<sched_rounds sched]"] length_aes_encrypt [OF assms]
    by (simp add: aes_decrypt_eq)
  then show ?thesis
    using l assms by (simp add: inv_shift_rows_shift_rows inv_sub_bytes_sub_bytes add_round_key_twice length_round_key)
qed

lemma finite_blocks: "finite {b :: bytes. length b = n}"
  using finite_lists_length_eq [of "UNIV :: u8 set" n] by simp

text \<open>Blocks are finitely many, so encryption is onto and decryption is its inverse on both sides.\<close>

lemma aes_encrypt_decrypt:
  assumes "schedule_ok sched" "length b = 16"
  shows "aes_encrypt sched (aes_decrypt sched b) = b \<and> length (aes_decrypt sched b) = 16"
proof -
  let ?B = "{b :: bytes. length b = 16}"
  have "inj_on (aes_encrypt sched) ?B"
    by (rule inj_on_inverseI [of _ "aes_decrypt sched"]) (simp add: aes_decrypt_encrypt [OF assms(1)])
  moreover have "aes_encrypt sched ` ?B \<subseteq> ?B"
    using length_aes_encrypt [OF assms(1)] by auto
  ultimately have "aes_encrypt sched ` ?B = ?B"
    by (intro endo_inj_surj finite_blocks)
  then obtain x where "length x = 16" "b = aes_encrypt sched x"
    using assms(2) by (metis (mono_tags, lifting) imageE mem_Collect_eq)
  then show ?thesis
    using aes_decrypt_encrypt [OF assms(1)] by simp
qed

end
