(* ===== verification/Aes_Group.thy ===== *)
theory Aes_Group
  imports Aes_Bitslice
begin

text \<open>
  The bitsliced group against the byte-at-a-time cipher: where each permutation of bits sends
  a byte of the planes, and with the field arithmetic of \<open>Aes_Bitslice\<close> the equality of the two
  encryptions.
\<close>

section \<open>The permutations of bits\<close>

lemma upt_64: "[0..<64] = [0, 1, 2, 3, 4, 5, 6, 7, 8, 9, 10, 11, 12, 13, 14, 15, 16, 17, 18, 19, 20, 21, 22, 23, 24, 25, 26, 27,
    28, 29, 30, 31, 32, 33, 34, 35, 36, 37, 38, 39, 40, 41, 42, 43, 44, 45, 46, 47, 48, 49, 50, 51, 52, 53, 54, 55, 56, 57, 58,
    59, 60, 61, 62, 63]"
  by code_simp

lemma all64: "list_all P [0..<64] \<Longrightarrow> n < 64 \<Longrightarrow> P (n :: nat)"
  by (simp add: list_all_iff)

lemma u64_bit_out: "64 \<le> n \<Longrightarrow> \<not> bit (x :: u64) n"
  using bit_imp_le_length [of x n] by auto

lemmas u64_bits = bit_or_iff bit_and_iff bit_push_bit_iff bit_drop_bit_eq bit_not_iff u64_bit_out

lemma bit_transpose8:
  assumes "n < 64"
  shows "bit (transpose8 x) n \<longleftrightarrow> bit x (8 * (n mod 8) + n div 8)"
proof -
  have "list_all (\<lambda>n. bit (transpose8 x) n \<longleftrightarrow> bit x (8 * (n mod 8) + n div 8)) [0..<64]"
    unfolding upt_64 transpose8_def Let_def by (simp add: u64_bits) (simp add: numeral_2_eq_2)
  then show ?thesis
    using assms by (rule all64)
qed

lemma bit_rotate_column:
  assumes "n < 64"
  shows "bit (rotate_column v) n \<longleftrightarrow> bit v (4 * (n div 4) + (n + 1) mod 4)"
proof -
  have "list_all (\<lambda>n. bit (rotate_column v) n \<longleftrightarrow> bit v (4 * (n div 4) + (n + 1) mod 4)) [0..<64]"
    unfolding upt_64 rotate_column_def NIBBLE_LOW_def by (simp add: u64_bits)
  then show ?thesis
    using assms by (rule all64)
qed

lemma upt_1_4: "[1..<4] = [1, 2, 3]"
  by (simp add: upt_rec)

lemma bit_shift_plane:
  assumes "n < 64"
  shows "bit (shift_plane v) n \<longleftrightarrow> bit v (16 * (n div 16) + (n + 4 * (n mod 4)) mod 16)"
proof -
  have "list_all (\<lambda>n. bit (shift_plane v) n \<longleftrightarrow> bit v (16 * (n div 16) + (n + 4 * (n mod 4)) mod 16)) [0..<64]"
    unfolding upt_64 shift_plane_def NIBBLE_LOW_def upt_1_4 Let_def fold_simps by (simp add: u64_bits) (simp add: numeral_2_eq_2)
  then show ?thesis
    using assms by (rule all64)
qed

section \<open>Into and out of the planes\<close>

declare push_bit_and [simp del]

lemma bit_chunk_plane:
  fixes t :: u64
  shows "bit (push_bit (8 * w) (drop_bit (8 * i) t AND 0xff)) k \<longleftrightarrow>
    k < 64 \<and> 8 * w \<le> k \<and> k < 8 * w + 8 \<and> bit t (8 * i + (k - 8 * w))"
proof -
  have ff: "bit (0xff :: u64) m \<longleftrightarrow> m < 8" for m
    using bit_mask_iff [of 8 m, where 'a = "64 word"] by (auto simp: mask_eq_exp_minus_1 min_def)
  have "bit (push_bit (8 * w) (drop_bit (8 * i) t AND 0xff)) k \<longleftrightarrow>
      8 * w \<le> k \<and> k < 64 \<and> bit t (8 * i + (k - 8 * w)) \<and> bit (0xff :: u64) (k - 8 * w)"
    by (simp only: bit_push_bit_iff bit_and_iff bit_drop_bit_eq comp_def possible_bit_word conj_assoc) simp
  then show ?thesis
    unfolding ff by auto
qed

lemma transpose_chunk_plane:
  assumes "length c = 8" "length p = 8" "i < 8"
  shows "length (transpose_chunk (w, c) p) = 8"
    and "bit (transpose_chunk (w, c) p ! i) k \<longleftrightarrow>
      bit (p ! i) k \<or> (k < 64 \<and> 8 * w \<le> k \<and> k < 8 * w + 8 \<and> bit (c ! (k - 8 * w)) i)"
proof -
  show "length (transpose_chunk (w, c) p) = 8"
    using assms by (simp add: transpose_chunk_def Let_def)
  have "bit (transpose8 (word_of_le c)) (8 * i + m) \<longleftrightarrow> bit (c ! m) i" if "m < 8" for m
    using that assms by (simp add: bit_transpose8 bit_word_of_le)
  moreover have "k - 8 * w < 8" if "k < 8 * w + 8"
    using that by simp
  ultimately show "bit (transpose_chunk (w, c) p ! i) k \<longleftrightarrow>
      bit (p ! i) k \<or> (k < 64 \<and> 8 * w \<le> k \<and> k < 8 * w + 8 \<and> bit (c ! (k - 8 * w)) i)"
    using assms by (auto simp: transpose_chunk_def Let_def nth_enumerate_eq bit_or_iff bit_chunk_plane)
qed

lemma transpose_chunks_plane:
  assumes "\<forall>c\<in>set cs. length c = 8" "length p = 8" "i < 8"
  shows "length (fold transpose_chunk (List.enumerate w cs) p) = 8 \<and>
    (bit (fold transpose_chunk (List.enumerate w cs) p ! i) k \<longleftrightarrow>
      bit (p ! i) k \<or> (k < 64 \<and> 8 * w \<le> k \<and> k < 8 * w + 8 * length cs \<and> bit (concat cs ! (k - 8 * w)) i))"
  using assms(1,2)
proof (induction cs arbitrary: w p)
  case (Cons c cs)
  let ?p = "transpose_chunk (w, c) p"
  note c = transpose_chunk_plane [of c p i w, OF _ _ assms(3)]
  have "bit (concat (c # cs) ! (k - 8 * w)) i =
      (if k < 8 * w + 8 then bit (c ! (k - 8 * w)) i else bit (concat cs ! (k - 8 * Suc w)) i)" if "8 * w \<le> k"
    using Cons.prems that by (auto simp: nth_append add.commute)
  then show ?case
    using Cons.IH [of ?p "Suc w"] Cons.prems c by (auto split: if_splits simp del: concat.simps)
qed auto

lemma transpose_in_lane:
  assumes "length data = 64" "j < 64"
  shows "length (transpose_in data) = 8" "lane (transpose_in data) j = data ! j"
proof -
  have cs: "\<forall>c\<in>set (chunks 8 data). length c = 8" "length (chunks 8 data) = 8"
    using assms(1) chunks_exact_lengths [of data 8 8] length_chunks_exact [of data 8 8] by auto
  note t = transpose_chunks_plane [OF cs(1), of "replicate 8 0" _ 0]
  show l: "length (transpose_in data) = 8"
    using t [of 0 j] by (simp add: transpose_in_def)
  show "lane (transpose_in data) j = data ! j"
    by (rule lane_eqI [OF l]) (use t [of _ j] assms in \<open>simp add: transpose_in_def cs(2) concat_chunks\<close>)
qed

lemma bit_plane_byte:
  fixes p :: planes
  shows "bit (fold (\<lambda>(i, plane) t. t OR push_bit (8 * i) (drop_bit (8 * w) plane AND 0xff)) (List.enumerate n p) t) k \<longleftrightarrow>
    bit t k \<or> (k < 64 \<and> 8 * n \<le> k \<and> k < 8 * n + 8 * length p \<and> bit (p ! (k div 8 - n)) (8 * w + k mod 8))"
proof (induction p arbitrary: n t)
  case (Cons a p)
  have a: "k - 8 * n = k mod 8" "k div 8 = n" if "8 * n \<le> k" "k < 8 * n + 8"
    using that le_Suc_ex [OF that(1)] by auto
  have b: "Suc n \<le> k div 8" if "8 * n + 8 \<le> k"
    using that by (simp add: less_eq_div_iff_mult_less_eq)
  have "(a # p) ! (k div 8 - n) = p ! (k div 8 - Suc n)" if "8 * n + 8 \<le> k"
    using b [OF that] by (simp add: nth_Cons')
  then show ?case
    using a by (cases "k < 8 * n + 8") (auto simp: Cons.IH bit_or_iff bit_chunk_plane)
qed auto

lemma upt_block: "[m..<m + 8] = [m, m + 1, m + 2, m + 3, m + 4, m + 5, m + 6, m + 7]"
  by (simp add: upt_rec)

lemma transpose_out_lanes:
  assumes "length p = 8"
  shows "transpose_out p = map (lane p) [0..<64]"
proof -
  have "le_of_word 8 (transpose8 (fold (\<lambda>(i, plane) t. t OR push_bit (8 * i) (drop_bit (8 * w) plane AND 0xff))
      (List.enumerate 0 p) 0)) = map (lane p) [8 * w..<8 * w + 8]" if "w < 8" for w
    by (rule nth_equalityI, simp, rule bit_word_eqI)
      (use assms that in \<open>simp add: le_of_word_def bit_ucast_iff bit_drop_bit_eq bit_transpose8 bit_plane_byte bit_lane\<close>)
  then have "transpose_out p = concat (map (\<lambda>w. map (lane p) [8 * w..<8 * w + 8]) [0..<8])"
    unfolding transpose_out_def Let_def by (intro arg_cong [where f = concat] map_cong) simp_all
  then show ?thesis
    by (simp add: upt_8 upt_64 upt_block numeral_2_eq_2)
qed

section \<open>A block of the planes\<close>

definition plane_block :: "planes \<Rightarrow> nat \<Rightarrow> bytes" where
  "plane_block p b = map (\<lambda>i. lane p (16 * b + i)) [0..<16]"

lemma length_plane_block [simp]: "length (plane_block p b) = 16"
  by (simp add: plane_block_def)

lemma lane_map:
  assumes "length p = 8" "\<And>v. bit (f v) j \<longleftrightarrow> bit v k"
  shows "lane (map f p) j = lane p k"
  by (rule lane_eqI) (use assms in \<open>simp_all add: bit_lane\<close>)

lemma block_sbox: "length p = 8 \<Longrightarrow> b < 4 \<Longrightarrow> plane_block (bs_sbox p) b = sub_bytes (plane_block p b)"
  by (simp add: plane_block_def sub_bytes_def lane_sbox(2) del: upt_rec_numeral)

lemma block_shift_rows:
  assumes "length p = 8" "b < 4"
  shows "plane_block (bs_shift_rows p) b = shift_rows (plane_block p b)"
proof -
  have l: "lane (bs_shift_rows p) (16 * b + i) = lane p (16 * b + (i + 4 * (i mod 4)) mod 16)" if "i < 16" for i
  proof -
    have "(16 * b + i) div 16 = b" "(16 * b + i) mod 4 = i mod 4" "(16 * b + i + 4 * (i mod 4)) mod 16 = (i + 4 * (i mod 4)) mod 16"
      using that by (simp, presburger, simp add: add.assoc)
    moreover have "16 * b + i < 64"
      using that assms(2) by simp
    ultimately show ?thesis
      unfolding bs_shift_rows_def
      by (intro lane_map [OF assms(1)]) (simp only: bit_shift_plane)
  qed
  show ?thesis
    unfolding plane_block_def upt_16 list.map shift_rows_16 using l [of 0] l [of 1] l [of 2] by (simp add: l)
qed

lemma block_add_key:
  assumes "length p = 8" "length k = 8"
  shows "plane_block (bs_add_key k p) b = add_round_key (plane_block k b) (plane_block p b)"
proof -
  have "lane (bs_add_key k p) j = lane p j XOR lane k j" for j
    by (rule lane_eqI) (use assms in \<open>simp_all add: bs_add_key_def bit_xor_iff bit_lane\<close>)
  then show ?thesis
    by (simp add: plane_block_def add_round_key_def xor_bytes_def upt_16)
qed

lemma block_mix_columns:
  assumes "length p = 8" "b < 4"
  shows "plane_block (bs_mix_columns p) b = mix_columns (plane_block p b)"
proof -
  let ?r = "\<lambda>n. 4 * (n div 4) + (n + 1) mod 4"
  have r: "lane (map rotate_column q) n = lane q (?r n)" if "length q = 8" "n < 64" for q n
    using that bit_rotate_column by (intro lane_map) auto
  define r1 where "r1 = map rotate_column p"
  define r2 where "r2 = map rotate_column r1"
  define r3 where "r3 = map rotate_column r2"
  have len: "length r1 = 8" "length r2 = 8" "length r3 = 8"
    by (simp_all add: r1_def r2_def r3_def assms)
  have m: "bs_mix_columns p = map (\<lambda>i. bs_xtime p ! i XOR bs_xtime r1 ! i XOR r1 ! i XOR r2 ! i XOR r3 ! i) [0..<8]"
    by (simp only: bs_mix_columns_def Let_def r1_def r2_def r3_def)
  have mj: "lane (bs_mix_columns p) j = gf_xtime (lane p j) XOR gf_xtime (lane r1 j) XOR lane r1 j XOR lane r2 j XOR lane r3 j" for j
    by (rule lane_eqI)
      (use assms len in \<open>simp_all add: m bit_xor_iff bit_lane flip: lane_xtime\<close>)
  have rn: "lane r1 n = lane p (?r n)" "lane r2 n = lane r1 (?r n)" "lane r3 n = lane r2 (?r n)" if "n < 64" for n
    by (fact r [OF assms(1) that, folded r1_def], fact r [OF len(1) that, folded r2_def], fact r [OF len(2) that, folded r3_def])
  have l: "lane (bs_mix_columns p) (16 * b + i) = gf_xtime (lane p (16 * b + i)) XOR gf_xtime (lane p (16 * b + ?r i)) XOR
      lane p (16 * b + ?r i) XOR lane p (16 * b + ?r (?r i)) XOR lane p (16 * b + ?r (?r (?r i)))"
    if "i < 16" for i
  proof -
    have s: "?r (16 * b + n) = 16 * b + ?r n" for n
    proof -
      have "(16 * b + n) div 4 = 4 * b + n div 4" "(16 * b + n + 1) mod 4 = (n + 1) mod 4"
        using div_mult_self3 [of 4 "4 * b" n] mod_mult_self3 [of "4 * b" 4 "n + 1"] by (simp_all add: mult.assoc add.assoc)
      then show ?thesis
        by simp
    qed
    have t: "?r n < 16" if "n < 16" for n :: nat
    proof -
      have "n div 4 < 4" "(n + 1) mod 4 < 4"
        using that by simp_all
      then show ?thesis
        by linarith
    qed
    have lt: "16 * b + n < 64" if "n < 16" for n
      using that assms(2) by simp
    show ?thesis
      using that by (simp only: mj rn lt s t)
  qed
  define L where "L = (\<lambda>i. lane p (16 * b + i))"
  have "plane_block (bs_mix_columns p) b =
      map (\<lambda>i. gf_xtime (L i) XOR gf_xtime (L (?r i)) XOR L (?r i) XOR L (?r (?r i)) XOR L (?r (?r (?r i)))) [0..<16]"
    unfolding plane_block_def L_def by (rule map_cong [OF refl]) (use l in simp)
  also have "\<dots> = mix_columns (map L [0..<16])"
    unfolding upt_16 list.map mix_columns_16 mix_column.simps append.simps
    by simp (simp only: numeral_2_eq_2 numeral_3_eq_3 xor.assoc xor.commute xor.left_commute simp_thms)
  finally show ?thesis
    by (simp only: plane_block_def L_def)
qed

section \<open>The group encrypts its four blocks\<close>

lemma length_planes [simp]:
  "length (bs_sbox p) = 8" "length (bs_mix_columns p) = 8" "length (bs_shift_rows p) = length p"
  "length (bs_add_key k p) = min (length p) (length k)"
  by (simp_all add: bs_sbox_def bs_mix_columns_def bs_shift_rows_def bs_add_key_def Let_def
      fold_invariant [where Q = "\<lambda>_. True" and P = "\<lambda>xs. length xs = 8"])

lemma block_transpose_in:
  assumes "length data = 64" "b < 4"
  shows "plane_block (transpose_in data) b = slice (16 * b) 16 data"
proof (rule nth_equalityI)
  fix i assume "i < length (plane_block (transpose_in data) b)"
  then have "i < 16"
    by simp
  then show "plane_block (transpose_in data) b ! i = slice (16 * b) 16 data ! i"
    using assms by (simp add: plane_block_def transpose_in_lane slice_def del: upt_rec_numeral)
qed (use assms in \<open>simp add: slice_def\<close>)

lemma transposed_round_key:
  assumes "schedule_ok sched" "r \<le> sched_rounds sched"
  shows "length (bs_planes (round_keys_new sched) ! r) = 8"
    and "b < 4 \<Longrightarrow> plane_block (bs_planes (round_keys_new sched) ! r) b = round_key sched r"
proof -
  let ?k = "round_key sched r"
  let ?w = "concat (replicate 4 ?k)"
  have k: "length ?k = 16"
    using assms by (rule length_round_key)
  then have w: "length ?w = 64" "?w = ?k @ ?k @ ?k @ ?k"
    by (simp_all add: numeral_eq_Suc)
  have p: "bs_planes (round_keys_new sched) ! r = transpose_in ?w"
    using assms by (simp add: round_keys_new_def nth_append BS_LANES_def del: upt_Suc)
  show "length (bs_planes (round_keys_new sched) ! r) = 8"
    unfolding p by (rule transpose_in_lane [OF w(1), of 0]) simp
  assume "b < 4"
  then have "b \<in> {0, 1, 2, 3}"
    by auto
  then show "plane_block (bs_planes (round_keys_new sched) ! r) b = ?k"
    using k block_transpose_in [OF w(1) \<open>b < 4\<close>] unfolding p w(2) by (auto simp: slice_def)
qed

definition bs_round :: "schedule \<Rightarrow> nat \<Rightarrow> planes \<Rightarrow> planes" where
  "bs_round sched r s = bs_add_key (bs_planes (round_keys_new sched) ! r) (bs_mix_columns (bs_shift_rows (bs_sbox s)))"

lemma block_rounds:
  assumes "schedule_ok sched" "\<forall>r\<in>set rs. r \<le> sched_rounds sched" "length s = 8" "b < 4"
  shows "length (fold (bs_round sched) rs s) = 8 \<and>
    plane_block (fold (bs_round sched) rs s) b = fold (aes_round sched) rs (plane_block s b)"
  using assms(2,3)
proof (induction rs arbitrary: s)
  case (Cons r rs)
  have "plane_block (bs_round sched r s) b = aes_round sched r (plane_block s b)" "length (bs_round sched r s) = 8"
    using assms(1,4) Cons.prems transposed_round_key [OF assms(1), of r]
    by (simp_all add: bs_round_def aes_round_def block_add_key block_mix_columns block_shift_rows block_sbox)
  then show ?case
    using Cons by simp
qed simp

lemma lanes_blocks: "map (lane p) [0..<64] = concat (map (plane_block p) [0..<4])"
  by (simp add: upt_64 plane_block_def upt_16 upt_4)

lemma encrypt_group_blocks:
  assumes "schedule_ok sched" "length data = 64"
  shows "encrypt_group (round_keys_new sched) data = concat (map (\<lambda>b. aes_encrypt sched (slice (16 * b) 16 data)) [0..<4])"
proof -
  let ?K = "\<lambda>r. bs_planes (round_keys_new sched) ! r"
  define s where "s = bs_add_key (?K 0) (transpose_in data)"
  define t where "t = fold (bs_round sched) [1..<sched_rounds sched] s"
  note k0 = transposed_round_key [OF assms(1) le0]
  note kn = transposed_round_key [OF assms(1) order_refl]
  have d: "length (transpose_in data) = 8"
    by (rule transpose_in_lane [OF assms(2), of 0]) simp
  have s: "length s = 8"
    by (simp add: s_def k0 d)
  have t: "length t = 8"
    using block_rounds [OF assms(1) _ s, of "[1..<sched_rounds sched]" 0] by (simp add: t_def)
  let ?u = "bs_add_key (?K (sched_rounds sched)) (bs_shift_rows (bs_sbox t))"
  have "encrypt_group (round_keys_new sched) data = transpose_out ?u"
    by (simp add: encrypt_group_def Let_def t_def s_def bs_round_def [abs_def] round_keys_new_def)
  also have "\<dots> = concat (map (plane_block ?u) [0..<4])"
    using t by (subst transpose_out_lanes) (simp_all only: lanes_blocks, simp add: kn)
  also have "map (plane_block ?u) [0..<4] = map (\<lambda>b. aes_encrypt sched (slice (16 * b) 16 data)) [0..<4]"
  proof (rule map_cong [OF refl])
    fix b :: nat assume "b \<in> set [0..<4]"
    then have b: "b < 4"
      by simp
    have "plane_block ?u b = add_round_key (round_key sched (sched_rounds sched)) (shift_rows (sub_bytes (plane_block t b)))"
      using t b by (simp add: block_add_key block_shift_rows block_sbox kn)
    moreover have "plane_block t b = fold (aes_round sched) [1..<sched_rounds sched] (plane_block s b)"
      using block_rounds [OF assms(1) _ s b, of "[1..<sched_rounds sched]"] by (simp add: t_def)
    moreover have "plane_block s b = add_round_key (round_key sched 0) (slice (16 * b) 16 data)"
      using b d by (simp add: s_def block_add_key k0 block_transpose_in [OF assms(2)])
    moreover have "length (slice (16 * b) 16 data) = 16"
      using b assms(2) by simp
    ultimately show "plane_block ?u b = aes_encrypt sched (slice (16 * b) 16 data)"
      by (simp add: aes_encrypt_eq)
  qed
  finally show ?thesis .
qed

end
