(* ===== verification/Aes_Cipher.thy ===== *)
theory Aes_Cipher
  imports Aes_Group Core_Ct Core_Codec
begin

text \<open>
  The AES types of \<open>crates/ic-cipher/src/aes.rs\<close> on a build whose live back end is the portable
  one: the choice of back end, the key schedule they hold, the batch operation that goes through
  the bitsliced groups, and the known-answer tests. The three types are one definition over what
  the macro \<open>aes_variant!\<close> varies.
\<close>

section \<open>Back ends\<close>

datatype backend = Portable | Aesni | Armv8

fun backend_id :: "backend \<Rightarrow> string" where
  "backend_id Portable = ''portable-constant-time''"
| "backend_id Aesni = ''aes-ni''"
| "backend_id Armv8 = ''armv8-crypto''"

text \<open>The two detections of \<open>ic_core::cpu\<close> are the arguments.\<close>

definition active_backend :: "bool \<Rightarrow> bool \<Rightarrow> backend" where
  "active_backend armv8_aes_available aesni_available =
     (if armv8_aes_available then Armv8 else if aesni_available then Aesni else Portable)"

section \<open>Keys\<close>

datatype keys = PortableKeys schedule

definition keys_expand :: "bytes \<Rightarrow> keys result" where
  "keys_expand key = bind_result (schedule_expand key) (\<lambda>sched. Ok (PortableKeys sched))"

fun keys_encrypt_block :: "keys \<Rightarrow> bytes \<Rightarrow> unit result \<times> bytes" where
  "keys_encrypt_block (PortableKeys s) block = aes_encrypt_block s block"

fun keys_decrypt_block :: "keys \<Rightarrow> bytes \<Rightarrow> unit result \<times> bytes" where
  "keys_decrypt_block (PortableKeys s) block = aes_decrypt_block s block"

fun keys_encrypt_blocks :: "keys \<Rightarrow> bytes \<Rightarrow> unit result \<times> bytes" where
  "keys_encrypt_blocks (PortableKeys s) data =
     (if length data mod AES_BLOCK_LEN \<noteq> 0 then (Err InvalidLength ''aes batch must be block-aligned'', data)
      else if BS_GROUP \<le> length data
      then (let keys = round_keys_new s;
                whole = length data div BS_GROUP * BS_GROUP;
                groups = concat (map (encrypt_group keys) (chunks BS_GROUP (take whole data)))
            in case each_block (aes_encrypt_block s) (chunks AES_BLOCK_LEN (drop whole data)) of
                 (r, rest) \<Rightarrow> (r, groups @ rest))
      else each_block (aes_encrypt_block s) (chunks AES_BLOCK_LEN data))"

fun keys_backend :: "keys \<Rightarrow> backend" where
  "keys_backend (PortableKeys _) = Portable"

section \<open>The three types\<close>

record aes_variant =
  av_id :: string
  av_key_len :: nat
  av_kat_key :: string
  av_kat_ct :: string

definition Aes128 :: aes_variant where
  "Aes128 = \<lparr>av_id = ''aes-128'', av_key_len = 16, av_kat_key = ''000102030405060708090a0b0c0d0e0f'',
     av_kat_ct = ''69c4e0d86a7b0430d8cdb78070b4c55a''\<rparr>"

definition Aes192 :: aes_variant where
  "Aes192 = \<lparr>av_id = ''aes-192'', av_key_len = 24, av_kat_key = ''000102030405060708090a0b0c0d0e0f1011121314151617'',
     av_kat_ct = ''dda97ca4864cdfe06eaf70a0ec0d7191''\<rparr>"

definition Aes256 :: aes_variant where
  "Aes256 = \<lparr>av_id = ''aes-256'', av_key_len = 32,
     av_kat_key = ''000102030405060708090a0b0c0d0e0f101112131415161718191a1b1c1d1e1f'',
     av_kat_ct = ''8ea2b7ca516745bfeafc49904b496089''\<rparr>"

definition aes_new_portable :: "aes_variant \<Rightarrow> module_state \<Rightarrow> bytes \<Rightarrow> keys result" where
  "aes_new_portable v m key = bind_result (operational m) (\<lambda>_.
     if length key \<noteq> av_key_len v then Err InvalidLength (av_id v)
     else bind_result (schedule_expand key) (\<lambda>sched. Ok (PortableKeys sched)))"

definition aes_new :: "aes_variant \<Rightarrow> module_state \<Rightarrow> bytes \<Rightarrow> keys result" where
  "aes_new v m key = bind_result (operational m) (\<lambda>_.
     if length key \<noteq> av_key_len v then Err InvalidLength (av_id v) else keys_expand key)"

definition aes_ops :: "aes_variant \<Rightarrow> keys block_cipher_ops" where
  "aes_ops v = \<lparr>bc_new = aes_new v, bc_encrypt_block = keys_encrypt_block, bc_decrypt_block = keys_decrypt_block,
     bc_encrypt_blocks = keys_encrypt_blocks, BC_BLOCK_LEN = AES_BLOCK_LEN, BC_KEY_LEN = av_key_len v\<rparr>"

text \<open>The known-answer test: encrypt, decrypt back, and encrypt again on the portable back end.\<close>

definition KAT_PLAIN :: bytes where
  "KAT_PLAIN = map (\<lambda>i. of_nat (i * 0x11)) [0..<16]"

definition aes_self_test :: "aes_variant \<Rightarrow> module_state \<Rightarrow> unit result" where
  "aes_self_test v m =
     (case hex_decode (ascii (av_kat_key v)) (replicate (av_key_len v) 0) of (r, key) \<Rightarrow> bind_result r (\<lambda>_.
      case hex_decode (ascii (av_kat_ct v)) (replicate 16 0) of (r, want) \<Rightarrow> bind_result r (\<lambda>_.
      bind_result (aes_new v m key) (\<lambda>cipher.
      case keys_encrypt_block cipher KAT_PLAIN of (r, block) \<Rightarrow> bind_result r (\<lambda>_.
      if \<not> ct_verify want block then Err SelfTestFailed (av_id v)
      else (case keys_decrypt_block cipher block of (r, block) \<Rightarrow> bind_result r (\<lambda>_.
      if \<not> ct_verify KAT_PLAIN block then Err SelfTestFailed (av_id v)
      else bind_result (aes_new_portable v m key) (\<lambda>reference.
      case keys_encrypt_block reference KAT_PLAIN of (r, a) \<Rightarrow> bind_result r (\<lambda>_.
      if \<not> ct_verify want a then Err SelfTestFailed (av_id v) else Ok ())))))))))"

section \<open>The batch is block by block\<close>

fun keys_ok :: "keys \<Rightarrow> bool" where
  "keys_ok (PortableKeys s) = schedule_ok s"

fun keys_E :: "keys \<Rightarrow> bytes \<Rightarrow> bytes" where
  "keys_E (PortableKeys s) b = aes_encrypt s b"

fun keys_D :: "keys \<Rightarrow> bytes \<Rightarrow> bytes" where
  "keys_D (PortableKeys s) b = aes_decrypt s b"

lemma chunks_app:
  assumes "length xs = n * k" "0 < k"
  shows "chunks k (xs @ ys) = chunks k xs @ chunks k ys"
  using assms(1)
proof (induction n arbitrary: xs)
  case (Suc n)
  then have "chunks k (xs @ ys) = take k xs # chunks k (drop k xs @ ys)"
    using assms(2) chunks_append [of "take k xs" k "drop k xs @ ys"] by (simp flip: append_assoc)
  moreover have "chunks k xs = take k xs # chunks k (drop k xs)"
    using Suc.prems assms(2) by (intro chunks_step) auto
  moreover have "chunks k (drop k xs @ ys) = chunks k (drop k xs) @ chunks k ys"
    using Suc.IH [of "drop k xs"] Suc.prems by simp
  ultimately show ?case
    by (simp only: append_Cons)
qed simp

lemma group_is_blocks:
  assumes "schedule_ok s" "length g = 64"
  shows "encrypt_group (round_keys_new s) g = concat (map (aes_encrypt s) (chunks 16 g))"
proof -
  have "chunks 16 g = map (\<lambda>b. slice (16 * b) 16 g) [0..<4]"
  proof (rule nth_equalityI)
    show "length (chunks 16 g) = length (map (\<lambda>b. slice (16 * b) 16 g) [0..<4])"
      using assms(2) length_chunks_exact [of g 4 16] by simp
    fix i assume "i < length (chunks 16 g)"
    then have i: "i < 4"
      using assms(2) length_chunks_exact [of g 4 16] by simp
    then have "chunks 16 g ! i \<in> set (chunks 16 g)"
      using assms(2) length_chunks_exact [of g 4 16] by simp
    then have "length (chunks 16 g ! i) = 16"
      using assms(2) chunks_exact_lengths [of g 4 16] by simp
    then show "chunks 16 g ! i = map (\<lambda>b. slice (16 * b) 16 g) [0..<4] ! i"
      using i assms(2) by (intro nth_equalityI) (simp_all add: nth_chunks [of g 4 16] slice_def mult.commute del: upt_rec_numeral)
  qed
  then show ?thesis
    using encrypt_group_blocks [OF assms] by (simp add: comp_def del: upt_rec_numeral)
qed

lemma groups_are_blocks:
  assumes "schedule_ok s" "\<forall>g\<in>set gs. length g = 64"
  shows "concat (map (encrypt_group (round_keys_new s)) gs) = concat (map (aes_encrypt s) (chunks 16 (concat gs)))"
  using assms(2)
proof (induction gs)
  case (Cons g gs)
  then show ?case
    using group_is_blocks [OF assms(1)] chunks_app [of g 4 16 "concat gs"] by simp
qed simp

lemma each_block_aes:
  assumes "length data = n * 16"
  shows "each_block (aes_encrypt_block s) (chunks 16 data) = (Ok (), concat (map (aes_encrypt s) (chunks 16 data)))"
  using chunks_exact_lengths [OF assms] by (intro each_block_Ok) (auto simp: aes_blocks)

lemma keys_encrypt_blocks_eq:
  assumes "keys_ok c" "length data mod 16 = 0"
  shows "keys_encrypt_blocks c data = (Ok (), concat (map (keys_E c) (chunks 16 data)))"
proof -
  obtain s where c: "c = PortableKeys s"
    by (cases c)
  then have s: "schedule_ok s"
    using assms(1) by simp
  have E: "keys_E c = aes_encrypt s"
    by (rule ext) (simp add: c)
  have n: "length data = length data div 16 * 16"
    using assms(2) by auto
  show ?thesis
  proof (cases "64 \<le> length data")
    case False
    then show ?thesis
      using each_block_aes [OF n] assms(2) E by (simp add: c AES_BLOCK_LEN_def BS_GROUP_def BS_LANES_def)
  next
    case True
    define w where "w = length data div 64 * 64"
    have w: "w \<le> length data" "w = length data div 64 * 4 * 16"
      by (simp_all add: w_def)
    have "length (take w data) = length data div 64 * 64"
      using w(1) by (simp add: w_def)
    then have g: "\<forall>g\<in>set (chunks 64 (take w data)). length g = 64"
      using chunks_exact_lengths by fastforce
    have "length data mod 64 mod 16 = length data mod 16"
      by (simp add: mod_mod_cancel)
    then have "length (drop w data) mod 16 = 0"
      using assms(2) by (simp add: w_def minus_div_mult_eq_mod)
    then have d: "length (drop w data) = length (drop w data) div 16 * 16"
      by auto
    have "chunks 16 data = chunks 16 (take w data) @ chunks 16 (drop w data)"
      using chunks_app [of "take w data" "length data div 64 * 4" 16 "drop w data"] w by simp
    then show ?thesis
      using True assms(2) E each_block_aes [OF d] groups_are_blocks [OF s g]
      by (simp add: c AES_BLOCK_LEN_def BS_GROUP_def BS_LANES_def Let_def concat_chunks flip: w_def)
  qed
qed

lemma aes_new_ok: "aes_new v m key = Ok c \<Longrightarrow> keys_ok c"
  by (cases "operational m"; cases "schedule_expand key")
    (auto simp: aes_new_def keys_expand_def schedule_expand_ok split: if_splits)

interpretation aes: block_cipher "aes_ops v" keys_ok keys_E keys_D
proof unfold_locales
  fix m key c
  assume "bc_new (aes_ops v) m key = Ok c"
  then show "keys_ok c"
    by (simp add: aes_ops_def aes_new_ok)
next
  fix c and b :: bytes
  assume c: "keys_ok c" "length b = 16"
  then show "bc_encrypt_block (aes_ops v) c b = (Ok (), keys_E c b)"
    by (cases c) (simp add: aes_ops_def aes_blocks)
  from c show "bc_decrypt_block (aes_ops v) c b = (Ok (), keys_D c b)"
    by (cases c) (simp add: aes_ops_def aes_blocks)
  from c show "length (keys_E c b) = 16"
    by (cases c) (simp add: length_aes_encrypt)
  from c show "length (keys_D c b) = 16"
    by (cases c) (simp add: aes_encrypt_decrypt)
  from c show "keys_D c (keys_E c b) = b"
    by (cases c) (simp add: aes_decrypt_encrypt)
  from c show "keys_E c (keys_D c b) = b"
    by (cases c) (simp add: aes_encrypt_decrypt)
next
  fix c and data :: bytes
  assume "keys_ok c" "length data mod 16 = 0"
  then show "bc_encrypt_blocks (aes_ops v) c data = (Ok (), concat (map (keys_E c) (chunks 16 data)))"
    by (simp add: aes_ops_def keys_encrypt_blocks_eq)
qed

end
