(* ===== verification/Modes.thy ===== *)
theory Modes
  imports Aes_Cipher
begin

text \<open>
  The confidentiality modes of \<open>crates/ic-cipher/src/modes.rs\<close> over any block cipher: counter
  mode with its batches of counter blocks, cipher block chaining, and the padding of PKCS#7.
  Counter mode is proved to be the one of SP 800-38A, block \<open>i\<close> under the counter \<open>iv + i\<close>.
\<close>

section \<open>Counter mode\<close>

definition CTR_BATCH :: nat where "CTR_BATCH = 8"

text \<open>The loop over the bytes from the last, which stops where nothing is carried.\<close>

fun increment_from :: "bytes \<Rightarrow> bytes" where
  "increment_from [] = []"
| "increment_from (byte # bs) =
     (let v = byte + 1; carry = v < byte in v # (if \<not> carry then bs else increment_from bs))"

definition increment_be :: "bytes \<Rightarrow> bytes" where
  "increment_be counter = rev (increment_from (rev counter))"

definition increment_be32 :: "bytes \<Rightarrow> bytes" where
  "increment_be32 counter =
     (let n = word_of_be (drop 12 counter) :: u32 in take 12 counter @ be_of_word 4 (n + 1))"

definition counter_blocks :: "nat \<Rightarrow> bytes \<Rightarrow> bytes \<times> bytes" where
  "counter_blocks blocks counter =
     fold (\<lambda>_ (keystream, counter). (keystream @ counter, increment_be counter)) [0..<blocks] ([], counter)"

fun ctr_chunks :: "'c block_cipher_ops \<Rightarrow> 'c \<Rightarrow> bytes \<Rightarrow> bytes list \<Rightarrow> unit result \<times> bytes" where
  "ctr_chunks B cipher counter [] = (Ok (), [])"
| "ctr_chunks B cipher counter (chunk # more_chunks) =
     (let blocks = (length chunk + AES_BLOCK_LEN - 1) div AES_BLOCK_LEN
      in case counter_blocks blocks counter of (keystream, counter) \<Rightarrow>
         case bc_encrypt_blocks B cipher keystream of
           (Inl e, _) \<Rightarrow> (Inl e, chunk @ concat more_chunks)
         | (Inr _, keystream) \<Rightarrow>
             (case ctr_chunks B cipher counter more_chunks of (r, rest) \<Rightarrow> (r, xor_bytes chunk keystream @ rest)))"

definition ctr_xor :: "'c block_cipher_ops \<Rightarrow> module_state \<Rightarrow> 'c \<Rightarrow> bytes \<Rightarrow> bytes \<Rightarrow> unit result \<times> bytes" where
  "ctr_xor B m cipher iv data =
     (case operational m of
        Inl e \<Rightarrow> (Inl e, data)
      | Inr _ \<Rightarrow>
          if length iv \<noteq> AES_BLOCK_LEN then (Err InvalidLength ''ctr iv must be 16 bytes'', data)
          else ctr_chunks B cipher iv (chunks (AES_BLOCK_LEN * CTR_BATCH) data))"

section \<open>Cipher block chaining\<close>

fun cbc_encrypt_chain :: "'c block_cipher_ops \<Rightarrow> 'c \<Rightarrow> bytes \<Rightarrow> bytes list \<Rightarrow> unit result \<times> bytes" where
  "cbc_encrypt_chain B cipher prev [] = (Ok (), [])"
| "cbc_encrypt_chain B cipher prev (block # bs) =
     (case bc_encrypt_block B cipher (xor_bytes block prev) of
        (Inl e, block) \<Rightarrow> (Inl e, block @ concat bs)
      | (Inr _, block) \<Rightarrow> (case cbc_encrypt_chain B cipher block bs of (r, rest) \<Rightarrow> (r, block @ rest)))"

fun cbc_decrypt_chain :: "'c block_cipher_ops \<Rightarrow> 'c \<Rightarrow> bytes \<Rightarrow> bytes list \<Rightarrow> unit result \<times> bytes" where
  "cbc_decrypt_chain B cipher prev [] = (Ok (), [])"
| "cbc_decrypt_chain B cipher prev (saved # bs) =
     (case bc_decrypt_block B cipher saved of
        (Inl e, block) \<Rightarrow> (Inl e, block @ concat bs)
      | (Inr _, block) \<Rightarrow>
          (case cbc_decrypt_chain B cipher saved bs of (r, rest) \<Rightarrow> (r, xor_bytes block prev @ rest)))"

definition cbc_encrypt :: "'c block_cipher_ops \<Rightarrow> module_state \<Rightarrow> 'c \<Rightarrow> bytes \<Rightarrow> bytes \<Rightarrow> unit result \<times> bytes" where
  "cbc_encrypt B m cipher iv data =
     (case operational m of
        Inl e \<Rightarrow> (Inl e, data)
      | Inr _ \<Rightarrow>
          if length iv \<noteq> AES_BLOCK_LEN then (Err InvalidLength ''cbc iv must be 16 bytes'', data)
          else if length data mod AES_BLOCK_LEN \<noteq> 0 then (Err InvalidLength ''cbc input must be block-aligned'', data)
          else cbc_encrypt_chain B cipher iv (chunks AES_BLOCK_LEN data))"

definition cbc_decrypt :: "'c block_cipher_ops \<Rightarrow> module_state \<Rightarrow> 'c \<Rightarrow> bytes \<Rightarrow> bytes \<Rightarrow> unit result \<times> bytes" where
  "cbc_decrypt B m cipher iv data =
     (case operational m of
        Inl e \<Rightarrow> (Inl e, data)
      | Inr _ \<Rightarrow>
          if length iv \<noteq> AES_BLOCK_LEN then (Err InvalidLength ''cbc iv must be 16 bytes'', data)
          else if length data mod AES_BLOCK_LEN \<noteq> 0 then (Err InvalidLength ''cbc input must be block-aligned'', data)
          else cbc_decrypt_chain B cipher iv (chunks AES_BLOCK_LEN data))"

section \<open>Padding\<close>

text \<open>The sum of two lengths is checked: \<open>None\<close> is the overflow panic.\<close>

definition pkcs7_pad :: "bytes \<Rightarrow> nat \<Rightarrow> (nat result \<times> bytes) option" where
  "pkcs7_pad buf len =
     (let pad = AES_BLOCK_LEN - len mod AES_BLOCK_LEN
      in if 2 ^ 64 \<le> len + pad then None
         else if \<not> len + pad \<le> length buf then Some (Err InvalidLength ''pkcs7 padding buffer'', buf)
         else Some (Ok (len + pad), write_at len (replicate pad (of_nat pad)) buf))"

text \<open>The branch-free check of the last block; the comparison of the loop is one of 16-bit signed integers.\<close>

definition pkcs7_bad :: "bytes \<Rightarrow> u8" where
  "pkcs7_bad buf =
     (let pad = last buf;
          in_range = of_bool (pad - 1 < of_nat AES_BLOCK_LEN) :: u8
      in fold (\<lambda>i bad.
           let idx = length buf - AES_BLOCK_LEN + i;
               is_pad_byte = of_bool (0 \<le> int (unat pad) - (int AES_BLOCK_LEN - int i)) :: u8
           in bad OR ((buf ! idx XOR pad) AND (0 - is_pad_byte))) [0..<AES_BLOCK_LEN] (in_range XOR 1))"

definition pkcs7_unpad :: "bytes \<Rightarrow> nat result" where
  "pkcs7_unpad buf =
     (if \<not> (buf \<noteq> [] \<and> length buf mod AES_BLOCK_LEN = 0) then Err InvalidLength ''pkcs7 input must be block-aligned''
      else if pkcs7_bad buf \<noteq> 0 then Err MalformedEncoding ''pkcs7 padding''
      else Ok (length buf - unat (last buf)))"

section \<open>The counter\<close>

lemma u8_Suc_wraps: "(b + 1 < b) \<longleftrightarrow> b = (255 :: u8)" "unat ((b :: u8) + 1) = (if b = 255 then 0 else unat b + 1)"
proof -
  have n: "unat (b + 1) = (unat b + 1) mod 256"
    by (simp add: unat_word_ariths)
  have m: "b = 255 \<longleftrightarrow> unat b = 255"
    using word_unat_eq_iff [of b 255] by simp
  show "unat (b + 1) = (if b = 255 then 0 else unat b + 1)"
    using n m unat_u8_bound [of b] by (cases "unat b = 255") simp_all
  then show "(b + 1 < b) \<longleftrightarrow> b = 255"
    using m by (auto simp: word_less_nat_alt)
qed

lemma increment_from_val: "le_val (increment_from bs) = (le_val bs + 1) mod 256 ^ length bs \<and> length (increment_from bs) = length bs"
proof (induction bs)
  case (Cons b bs)
  have l: "le_val bs < 256 ^ length bs"
    by (rule le_val_bound)
  show ?case
  proof (cases "b = 255")
    case True
    have "(1 + (255 + 256 * le_val bs)) mod (256 * 256 ^ length bs) = 256 * ((le_val bs + 1) mod 256 ^ length bs)"
      by (simp add: mult_mod_right)
    then show ?thesis
      using Cons True by (simp add: Let_def)
  next
    case False
    have "unat b < 255"
      using False unat_u8_bound [of b] u8_Suc_wraps(2) [of b] unat_u8_bound [of "b + 1"] by (simp split: if_splits)
    then have "Suc (unat b + 256 * le_val bs) < 256 * 256 ^ length bs"
      using l by linarith
    then show ?thesis
      using Cons False by (simp add: Let_def u8_Suc_wraps)
  qed
qed simp

lemma increment_be_val:
  "be_val (increment_be c) = (be_val c + 1) mod 256 ^ length c" "length (increment_be c) = length c"
  using increment_from_val [of "rev c"] by (simp_all add: increment_be_def be_val_def)

lemma be_bytes_mod: "be_bytes n (k mod 256 ^ n) = be_bytes n k"
  by (metis be_bytes_be_val be_val_be_bytes length_be_bytes)

lemma increment_be_bytes: "increment_be (be_bytes n k) = be_bytes n (k + 1)"
  using increment_be_val [of "be_bytes n k"] be_bytes_be_val [of "increment_be (be_bytes n k)"] be_bytes_mod [of n "k + 1"]
  by (simp add: byte_simps mod_Suc_eq)

lemma counter_blocks_eq:
  "counter_blocks blocks (be_bytes n k) = (concat (map (\<lambda>i. be_bytes n (k + i)) [0..<blocks]), be_bytes n (k + blocks))"
  by (induction blocks) (simp_all add: counter_blocks_def increment_be_bytes)

text \<open>The keystream of SP 800-38A: the encrypted counters \<open>k\<close>, \<open>k + 1\<close>, and so on.\<close>

definition ctr_keystream :: "(bytes \<Rightarrow> bytes) \<Rightarrow> nat \<Rightarrow> nat \<Rightarrow> bytes" where
  "ctr_keystream E k blocks = concat (map (\<lambda>i. E (be_bytes 16 (k + i))) [0..<blocks])"

definition ctr_spec :: "(bytes \<Rightarrow> bytes) \<Rightarrow> nat \<Rightarrow> bytes \<Rightarrow> bytes" where
  "ctr_spec E k data = xor_bytes data (ctr_keystream E k ((length data + 15) div 16))"

lemma ctr_keystream_add: "ctr_keystream E k (a + b) = ctr_keystream E k a @ ctr_keystream E (k + a) b"
proof -
  have "[0..<a + b] = [0..<a] @ map (\<lambda>i. i + a) [0..<b]"
    using upt_add_eq_append [of 0 a b] map_add_upt [of a b] by (simp add: add.commute)
  then show ?thesis
    by (simp add: ctr_keystream_def comp_def ac_simps)
qed

lemma butlast_chunks: "0 < n \<Longrightarrow> \<forall>ch\<in>set (butlast (chunks n xs)). length ch = n" for xs :: bytes
proof (induction n xs rule: chunks.induct)
  case (1 n xs)
  show ?case
  proof (cases "drop n xs = []")
    case True
    then show ?thesis
      using 1(2) by (simp add: chunks.simps [of n xs])
  next
    case False
    then have x: "xs \<noteq> []" "n \<le> length xs" "chunks n (drop n xs) \<noteq> []"
      using 1(2) by (auto simp: chunks.simps [of n "drop n xs"])
    have c: "chunks n xs = take n xs # chunks n (drop n xs)"
      using x(1) 1(2) by (rule chunks_step)
    have s: "set (butlast (chunks n xs)) = insert (take n xs) (set (butlast (chunks n (drop n xs))))"
      unfolding c butlast.simps if_not_P [OF x(3)] by (rule list.set(2))
    have "length (take n xs) = n"
      using x(2) by simp
    moreover have "\<forall>ch\<in>set (butlast (chunks n (drop n xs))). length ch = n"
      using 1 x(1) by blast
    ultimately show ?thesis
      unfolding s by blast
  qed
qed

context block_cipher
begin

lemma length_ctr_keystream: "good c \<Longrightarrow> length (ctr_keystream (E c) k n) = 16 * n"
  by (induction n) (simp_all add: ctr_keystream_def length_E)

lemma encrypt_counters:
  assumes "good c"
  shows "bc_encrypt_blocks B c (concat (map (\<lambda>i. be_bytes 16 (k + i)) [0..<n])) = (Ok (), ctr_keystream (E c) k n)"
proof -
  let ?bs = "map (\<lambda>i. be_bytes 16 (k + i)) [0..<n]"
  have "length (concat ?bs) = 16 * n"
    by (induction n) simp_all
  moreover have "chunks 16 (concat ?bs) = ?bs"
    by (rule chunks_concat) simp_all
  ultimately show ?thesis
    using encrypt_blocks [OF assms, of "concat ?bs"] by (simp add: ctr_keystream_def comp_def)
qed

lemma ctr_chunks_eq:
  assumes "good c"
  shows "\<forall>ch\<in>set (butlast chs). length ch = 128 \<Longrightarrow> ctr_chunks B c (be_bytes 16 k) chs = (Ok (), ctr_spec (E c) k (concat chs))"
proof (induction chs arbitrary: k)
  case Nil
  then show ?case
    by (simp add: ctr_spec_def ctr_keystream_def)
next
  case (Cons ch chs)
  let ?n = "(length ch + 15) div 16"
  have s: "xor_bytes ch (ctr_keystream (E c) k ?n) = ctr_spec (E c) k ch"
    by (simp add: ctr_spec_def)
  have h: "ctr_chunks B c (be_bytes 16 k) (ch # chs) =
      (case ctr_chunks B c (be_bytes 16 (k + ?n)) chs of (r, rest) \<Rightarrow> (r, ctr_spec (E c) k ch @ rest))"
  proof -
    have "(length ch + AES_BLOCK_LEN - 1) div AES_BLOCK_LEN = ?n"
      by (simp add: AES_BLOCK_LEN_def add.commute)
    then show ?thesis
      by (simp only: ctr_chunks.simps Let_def counter_blocks_eq encrypt_counters [OF assms] prod.case sum.case s)
  qed
  show ?case
  proof (cases chs)
    case Nil
    then show ?thesis
      using h by simp
  next
    case (Cons ch' chs')
    then have ch: "length ch = 128"
      using Cons.prems by simp
    have "\<forall>ch\<in>set (butlast chs). length ch = 128"
      using Cons.prems Cons by simp
    then have "ctr_chunks B c (be_bytes 16 (k + ?n)) chs = (Ok (), ctr_spec (E c) (k + ?n) (concat chs))"
      by (rule Cons.IH)
    moreover have "ctr_spec (E c) k (ch @ concat chs) = ctr_spec (E c) k ch @ ctr_spec (E c) (k + ?n) (concat chs)"
    proof -
      have "(length (ch @ concat chs) + 15) div 16 = 8 + (length (concat chs) + 15) div 16"
        using ch by simp
      then show ?thesis
        using ch length_ctr_keystream [OF assms, of k 8] by (simp add: ctr_spec_def ctr_keystream_add xor_bytes_append)
    qed
    ultimately show ?thesis
      using h by simp
  qed
qed

lemma ctr_xor_eq:
  assumes "good c" "operational m = Ok ()" "length iv = 16"
  shows "ctr_xor B m c iv data = (Ok (), ctr_spec (E c) (be_val iv) data)"
proof -
  have "iv = be_bytes 16 (be_val iv)"
    using be_bytes_be_val [of iv] assms(3) by simp
  then show ?thesis
    using ctr_chunks_eq [OF assms(1), of "chunks 128 data" "be_val iv"] butlast_chunks [of 128 data] assms(2,3)
    by (simp add: ctr_xor_def AES_BLOCK_LEN_def CTR_BATCH_def concat_chunks)
qed

lemma ctr_spec_twice:
  assumes "good c"
  shows "length (ctr_spec (E c) k data) = length data" "ctr_spec (E c) k (ctr_spec (E c) k data) = data"
proof -
  have n: "length data \<le> 16 * ((length data + 15) div 16)"
    by linarith
  then show "length (ctr_spec (E c) k data) = length data"
    by (simp add: ctr_spec_def length_ctr_keystream [OF assms])
  then show "ctr_spec (E c) k (ctr_spec (E c) k data) = data"
    using n xor_bytes_involutive [of data "ctr_keystream (E c) k ((length data + 15) div 16)"]
    by (simp add: ctr_spec_def length_ctr_keystream [OF assms])
qed

text \<open>The chain of ciphertext blocks, and the way back.\<close>

fun cbc_chain :: "'c \<Rightarrow> bytes \<Rightarrow> bytes list \<Rightarrow> bytes list" where
  "cbc_chain c prev [] = []"
| "cbc_chain c prev (b # bs) = (let y = E c (xor_bytes b prev) in y # cbc_chain c y bs)"

lemma cbc_chain_blocks:
  assumes "good c"
  shows "length prev = 16 \<Longrightarrow> \<forall>b\<in>set bs. length b = 16 \<Longrightarrow>
    cbc_encrypt_chain B c prev bs = (Ok (), concat (cbc_chain c prev bs)) \<and>
    (\<forall>b\<in>set (cbc_chain c prev bs). length b = 16) \<and> length (cbc_chain c prev bs) = length bs \<and>
    cbc_decrypt_chain B c prev (cbc_chain c prev bs) = (Ok (), concat bs)"
proof (induction bs arbitrary: prev)
  case (Cons b bs)
  let ?x = "xor_bytes b prev"
  have x: "length ?x = 16" "xor_bytes ?x prev = b"
    using Cons.prems xor_bytes_involutive [of b prev] by simp_all
  have y: "length (E c ?x) = 16" "D c (E c ?x) = ?x"
    using assms x(1) by (simp_all add: length_E D_E)
  show ?case
    using Cons.IH [of "E c ?x"] Cons.prems x y encrypt_block [OF assms x(1)] decrypt_block [OF assms y(1)]
    by (simp add: Let_def)
qed simp

lemma cbc_decrypt_encrypt:
  assumes "good c" "operational m = Ok ()" "operational m' = Ok ()" "length iv = 16" "length data mod 16 = 0"
  obtains ct where "cbc_encrypt B m c iv data = (Ok (), ct)" "length ct = length data"
    "cbc_decrypt B m' c iv ct = (Ok (), data)"
proof -
  have n: "length data = length data div 16 * 16"
    using assms(5) by auto
  let ?bs = "chunks 16 data"
  let ?cs = "cbc_chain c iv ?bs"
  have l: "length ?bs = length data div 16" "\<forall>b\<in>set ?bs. length b = 16"
    using length_chunks_exact [OF n] chunks_exact_lengths [OF n] by simp_all
  note c = cbc_chain_blocks [OF assms(1,4) l(2)]
  have "length (concat cs) = length cs * 16" if "\<forall>b\<in>set cs. length b = 16" for cs :: "bytes list"
    using that by (induction cs) simp_all
  then have "length (concat ?cs) = length data"
    using c l(1) n by simp
  moreover have "chunks 16 (concat ?cs) = ?cs"
    using c by (intro chunks_concat) auto
  ultimately show ?thesis
    using c assms by (intro that [of "concat ?cs"]) (simp_all add: cbc_encrypt_def cbc_decrypt_def AES_BLOCK_LEN_def concat_chunks)
qed

end

section \<open>Padding is undone, and only padding is accepted\<close>

lemma pkcs7_bad_iff:
  assumes "buf \<noteq> []" "length buf mod 16 = 0"
  shows "pkcs7_bad buf = 0 \<longleftrightarrow>
    (let p = unat (last buf) in 1 \<le> p \<and> p \<le> 16 \<and> drop (length buf - p) buf = replicate p (last buf))"
proof -
  define p where "p = unat (last buf)"
  have n: "16 \<le> length buf"
    using assms by (cases "length buf < 16") auto
  have r: "last buf - 1 < (of_nat 16 :: u8) \<longleftrightarrow> 1 \<le> p \<and> p \<le> 16"
  proof (cases "p = 0")
    case True
    then have "last buf = 0"
      by (simp add: p_def unat_eq_0)
    then show ?thesis
      using True by simp
  next
    case False
    then have "unat (last buf - 1) = p - 1"
      by (simp add: p_def unat_minus_one unat_eq_0)
    then show ?thesis
      using False by (auto simp: word_less_nat_alt)
  qed
  have m: "x AND (0 - of_bool b) = 0 \<longleftrightarrow> (b \<longrightarrow> x = 0)" for x :: u8 and b
    by (cases b) simp_all
  have o: "of_bool b XOR 1 = (0 :: u8) \<longleftrightarrow> b" for b
    by (cases b) simp_all
  have "pkcs7_bad buf = 0 \<longleftrightarrow> (1 \<le> p \<and> p \<le> 16) \<and> (\<forall>i<16. 16 - i \<le> p \<longrightarrow> buf ! (length buf - 16 + i) = last buf)"
    unfolding pkcs7_bad_def Let_def or_fold_zero_iff AES_BLOCK_LEN_def o r m p_def [symmetric]
    by (auto simp: word_xor_eq_0_iff)
  moreover have "(\<forall>i<16. 16 - i \<le> p \<longrightarrow> buf ! (length buf - 16 + i) = last buf) \<longleftrightarrow>
      drop (length buf - p) buf = replicate p (last buf)" if p: "1 \<le> p \<and> p \<le> 16"
  proof
    assume all: "\<forall>i<16. 16 - i \<le> p \<longrightarrow> buf ! (length buf - 16 + i) = last buf"
    show "drop (length buf - p) buf = replicate p (last buf)"
    proof (rule nth_equalityI)
      fix i assume "i < length (drop (length buf - p) buf)"
      then have "i < p" "16 - p + i < 16" "length buf - 16 + (16 - p + i) = length buf - p + i"
        using n p by auto
      then show "drop (length buf - p) buf ! i = replicate p (last buf) ! i"
        using all [rule_format, of "16 - p + i"] n p by simp
    qed (use n p in simp)
  next
    assume d: "drop (length buf - p) buf = replicate p (last buf)"
    show "\<forall>i<16. 16 - i \<le> p \<longrightarrow> buf ! (length buf - 16 + i) = last buf"
    proof (intro allI impI)
      fix i :: nat assume i: "i < 16" "16 - i \<le> p"
      then have "drop (length buf - p) buf ! (p - (16 - i)) = last buf"
        unfolding d by simp
      then show "buf ! (length buf - 16 + i) = last buf"
        using i n p by simp
    qed
  qed
  ultimately show ?thesis
    unfolding Let_def p_def [symmetric] by blast
qed

lemma pkcs7_unpad_iff:
  "pkcs7_unpad buf = Ok n \<longleftrightarrow>
    length buf mod 16 = 0 \<and> (\<exists>p. 1 \<le> p \<and> p \<le> 16 \<and> n + p = length buf \<and> drop n buf = replicate p (of_nat p))"
proof (cases "buf \<noteq> [] \<and> length buf mod 16 = 0")
  case False
  then show ?thesis
    by (auto simp: pkcs7_unpad_def AES_BLOCK_LEN_def)
next
  case True
  then have n: "16 \<le> length buf"
    by (cases "length buf < 16") auto
  define q where "q = unat (last buf)"
  have l: "last buf = of_nat q"
    by (simp add: q_def)
  have u: "pkcs7_unpad buf = Ok n \<longleftrightarrow> 1 \<le> q \<and> q \<le> 16 \<and> drop (length buf - q) buf = replicate q (of_nat q) \<and> n = length buf - q"
    using True pkcs7_bad_iff [of buf] unfolding l [symmetric]
    by (auto simp: pkcs7_unpad_def AES_BLOCK_LEN_def Let_def q_def)
  show ?thesis
  proof
    assume "pkcs7_unpad buf = Ok n"
    then show "length buf mod 16 = 0 \<and> (\<exists>p. 1 \<le> p \<and> p \<le> 16 \<and> n + p = length buf \<and> drop n buf = replicate p (of_nat p))"
      using True n u by (intro conjI exI [of _ q]) auto
  next
    assume "length buf mod 16 = 0 \<and> (\<exists>p. 1 \<le> p \<and> p \<le> 16 \<and> n + p = length buf \<and> drop n buf = replicate p (of_nat p))"
    then obtain p where p: "1 \<le> p" "p \<le> 16" "n + p = length buf" "drop n buf = replicate p (of_nat p :: u8)"
      by blast
    have "last buf = last (drop n buf)"
      using p by (subst last_drop) auto
    then have "last buf = of_nat p"
      using p(1,4) by simp
    then have "q = p"
      using p(2) by (simp add: q_def unat_of_nat_u8)
    moreover have "n = length buf - p"
      using p(3) by simp
    ultimately show "pkcs7_unpad buf = Ok n"
      unfolding u using p by blast
  qed
qed

lemma pkcs7_pad_unpad:
  assumes "pkcs7_pad buf len = Some (Ok n, out)" "length buf < 2 ^ 64"
  shows "n mod 16 = 0 \<and> len < n \<and> n \<le> len + 16 \<and> n \<le> length buf \<and> take len out = take len buf \<and>
    length out = length buf \<and> drop n out = drop n buf \<and> pkcs7_unpad (take n out) = Ok len"
proof -
  define p where "p = 16 - len mod 16"
  have a: "d * 16 + r + (16 - r) = (d + 1) * 16" if "r < 16" for d r :: nat
    using that by simp
  have "len + p = (len div 16 + 1) * 16"
    using a [of "len mod 16" "len div 16"] by (simp only: p_def div_mult_mod_eq mod_less_divisor zero_less_numeral)
  then have p: "1 \<le> p" "p \<le> 16" "(len + p) mod 16 = 0"
    using mod_less_divisor [of 16 len] by (simp_all add: p_def)
  have h: "n = len + p" "len + p \<le> length buf" "out = write_at len (replicate p (of_nat p)) buf"
    using assms(1) by (auto simp: pkcs7_pad_def Let_def AES_BLOCK_LEN_def p_def split: if_splits)
  have o: "take n out = take len buf @ replicate p (of_nat p)" "length (take len buf) = len"
    using h by (simp_all add: write_at_def)
  have "pkcs7_unpad (take n out) = Ok len"
    unfolding pkcs7_unpad_iff o(1) using p o(2) by auto
  then show ?thesis
    using h p by (simp add: write_at_def)
qed

end
