(* ===== verification/Key_Wrap.thy ===== *)
theory Key_Wrap
  imports Modes
begin

text \<open>
  AES key wrap, \<open>crates/ic-cipher/src/keywrap.rs\<close>: the six passes over the blocks and their
  inverse, the two variants KW and KWP with their checks, and the branch-free verdict of KWP.
  What the macro \<open>key_wrap!\<close> varies is a record. A run of the passes is a fold that stops at the
  first error of the cipher.
\<close>

section \<open>The passes\<close>

definition KW_IV :: bytes where "KW_IV = replicate 8 0xa6"
definition KWP_IV :: bytes where "KWP_IV = [0xa6, 0x59, 0x59, 0xa6]"
definition MAX_BLOCKS :: nat where "MAX_BLOCKS = 128"
definition OVERHEAD :: nat where "OVERHEAD = 8"

definition lt_u32 :: "u32 \<Rightarrow> u32 \<Rightarrow> u32" where
  "lt_u32 x y = drop_bit 31 ((NOT x AND y) OR (NOT (x XOR y) AND (x - y)))"

type_synonym kw_state = "bytes \<times> bytes list"

fun try_fold :: "('a \<Rightarrow> 's \<Rightarrow> 's result) \<Rightarrow> 'a list \<Rightarrow> 's \<Rightarrow> 's result" where
  "try_fold f [] s = Ok s"
| "try_fold f (x # xs) s = bind_result (f x s) (try_fold f xs)"

definition wrap_step :: "'c block_cipher_ops \<Rightarrow> 'c \<Rightarrow> nat \<Rightarrow> nat \<times> nat \<Rightarrow> kw_state \<Rightarrow> kw_state result" where
  "wrap_step B cipher n = (\<lambda>(j, i) (a, r).
     case bc_encrypt_block B cipher (a @ r ! i) of
       (Inl e, _) \<Rightarrow> Inl e
     | (Inr _, block) \<Rightarrow>
         let t = n * j + i + 1
         in Ok (xor_bytes (take 8 block) (be_bytes 8 t), r[i := drop 8 block]))"

definition unwrap_step :: "'c block_cipher_ops \<Rightarrow> 'c \<Rightarrow> nat \<Rightarrow> nat \<times> nat \<Rightarrow> kw_state \<Rightarrow> kw_state result" where
  "unwrap_step B cipher n = (\<lambda>(j, i) (a, r).
     let t = n * j + i + 1
     in case bc_decrypt_block B cipher (xor_bytes a (be_bytes 8 t) @ r ! i) of
          (Inl e, _) \<Rightarrow> Inl e
        | (Inr _, block) \<Rightarrow> Ok (take 8 block, r[i := drop 8 block]))"

text \<open>The two nested loops run over the pairs of a round and an index, and backwards to unwrap.\<close>

definition wrap_blocks :: "'c block_cipher_ops \<Rightarrow> 'c \<Rightarrow> nat \<Rightarrow> kw_state \<Rightarrow> kw_state result" where
  "wrap_blocks B cipher n = try_fold (wrap_step B cipher n) (List.product [0..<6] [0..<n])"

definition unwrap_blocks :: "'c block_cipher_ops \<Rightarrow> 'c \<Rightarrow> nat \<Rightarrow> kw_state \<Rightarrow> kw_state result" where
  "unwrap_blocks B cipher n = try_fold (unwrap_step B cipher n) (rev (List.product [0..<6] [0..<n]))"

section \<open>The two variants\<close>

record kw_variant =
  kw_cipher :: aes_variant
  kw_key_len :: nat
  kw_id :: string
  kwp_id :: string

definition Aes128Kw :: kw_variant where
  "Aes128Kw = \<lparr>kw_cipher = Aes128, kw_key_len = 16, kw_id = ''aes-128-kw'', kwp_id = ''aes-128-kwp''\<rparr>"

definition Aes192Kw :: kw_variant where
  "Aes192Kw = \<lparr>kw_cipher = Aes192, kw_key_len = 24, kw_id = ''aes-192-kw'', kwp_id = ''aes-192-kwp''\<rparr>"

definition Aes256Kw :: kw_variant where
  "Aes256Kw = \<lparr>kw_cipher = Aes256, kw_key_len = 32, kw_id = ''aes-256-kw'', kwp_id = ''aes-256-kwp''\<rparr>"

abbreviation kw_ops :: "kw_variant \<Rightarrow> keys block_cipher_ops" where
  "kw_ops V \<equiv> aes_ops (kw_cipher V)"

definition kw_wrap :: "kw_variant \<Rightarrow> module_state \<Rightarrow> bytes \<Rightarrow> bytes \<Rightarrow> bytes \<Rightarrow> unit result \<times> bytes" where
  "kw_wrap V m kek plaintext out =
     (case bind_result (operational m) (\<lambda>_.
        let n = length plaintext div 8
        in if length kek \<noteq> kw_key_len V then Err InvalidLength ''key-wrap kek''
           else if length plaintext mod 8 \<noteq> 0 then Err InvalidLength ''key-wrap input must be a whole number of 64-bit blocks''
           else if \<not> 2 \<le> n then Err InvalidLength ''key-wrap input must be at least 16 bytes''
           else if \<not> n \<le> MAX_BLOCKS then Err InvalidLength ''key-wrap input too large''
           else if length out \<noteq> length plaintext + OVERHEAD then Err InvalidLength ''key-wrap output''
           else bind_result (bc_new (kw_ops V) m kek) (\<lambda>cipher.
                wrap_blocks (kw_ops V) cipher n (KW_IV, map (\<lambda>i. slice (i * 8) 8 plaintext) [0..<n]))) of
        Inl e \<Rightarrow> (Inl e, out)
      | Inr (a, r) \<Rightarrow> (Ok (), a @ concat r))"

definition kw_unwrap :: "kw_variant \<Rightarrow> module_state \<Rightarrow> bytes \<Rightarrow> bytes \<Rightarrow> bytes \<Rightarrow> unit result \<times> bytes" where
  "kw_unwrap V m kek ciphertext out =
     (case bind_result (operational m) (\<lambda>_.
        let n = length ciphertext div 8 - 1
        in if length kek \<noteq> kw_key_len V then Err InvalidLength ''key-wrap kek''
           else if \<not> (length ciphertext mod 8 = 0 \<and> 24 \<le> length ciphertext) then Err InvalidLength ''key-wrap ciphertext''
           else if \<not> n \<le> MAX_BLOCKS then Err InvalidLength ''key-wrap ciphertext too large''
           else if length out \<noteq> length ciphertext - OVERHEAD then Err InvalidLength ''key-wrap output''
           else bind_result (bc_new (kw_ops V) m kek) (\<lambda>cipher.
                bind_result (unwrap_blocks (kw_ops V) cipher n (take 8 ciphertext, map (\<lambda>i. slice (8 + i * 8) 8 ciphertext) [0..<n]))
                  (\<lambda>(a, r). if \<not> ct_verify a KW_IV then Err AuthenticationFailed (kw_id V) else Ok r))) of
        Inl e \<Rightarrow> (Inl e, out)
      | Inr r \<Rightarrow> (Ok (), concat r))"

definition kwp_wrapped_len :: "nat \<Rightarrow> nat" where
  "kwp_wrapped_len plaintext_len = (plaintext_len + 7) div 8 * 8 + OVERHEAD"

definition kwp_wrap :: "kw_variant \<Rightarrow> module_state \<Rightarrow> bytes \<Rightarrow> bytes \<Rightarrow> bytes \<Rightarrow> unit result \<times> bytes" where
  "kwp_wrap V m kek plaintext out =
     (case bind_result (operational m) (\<lambda>_.
        if length kek \<noteq> kw_key_len V then Err InvalidLength ''key-wrap kek''
        else if plaintext = [] then Err InvalidLength ''key-wrap input is empty''
        else if \<not> length plaintext \<le> MAX_BLOCKS * 8 then Err InvalidLength ''key-wrap input too large''
        else if length out \<noteq> kwp_wrapped_len (length plaintext) then Err InvalidLength ''key-wrap output''
        else bind_result (bc_new (kw_ops V) m kek) (\<lambda>cipher.
          let a = KWP_IV @ be_bytes 4 (length plaintext);
              n = (length plaintext + 7) div 8;
              r = map (\<lambda>chunk. chunk @ replicate (8 - length chunk) 0) (chunks 8 plaintext)
          in if n = 1
             then (case bc_encrypt_block (kw_ops V) cipher (a @ r ! 0) of (Inl e, _) \<Rightarrow> Inl e | (Inr _, block) \<Rightarrow> Ok block)
             else bind_result (wrap_blocks (kw_ops V) cipher n (a, r)) (\<lambda>(a, r). Ok (a @ concat r)))) of
        Inl e \<Rightarrow> (Inl e, out)
      | Inr block \<Rightarrow> (Ok (), block))"

text \<open>The verdict: the fixed half, the length and the padding, without a branch on the declared length.\<close>

definition kwp_verdict :: "nat \<Rightarrow> bytes \<Rightarrow> bytes list \<Rightarrow> choice" where
  "kwp_verdict n a r =
     (let ok = ct_eq (take 4 a) KWP_IV;
          declared = word_of_be (drop 4 a) :: u32;
          padded = of_nat (n * 8) :: u32;
          slack = drop_bit 3 (padded - declared);
          bad = ucast (drop_bit 31 (slack OR (0 - slack))) :: u8;
          ok = choice_and ok (choice_from_u8 (NOT bad AND 1));
          last = n - 1;
          zeros = fold (\<lambda>(i, byte) zeros.
            let pos = of_nat (last * 8 + i);
                is_pad = ucast (lt_u32 pos declared) XOR 1
            in zeros OR (byte AND (0 - is_pad))) (List.enumerate 0 (r ! last)) 0
      in choice_and ok (ct_is_zero [zeros]))"

definition kwp_unwrap :: "kw_variant \<Rightarrow> module_state \<Rightarrow> bytes \<Rightarrow> bytes \<Rightarrow> bytes \<Rightarrow> nat result \<times> bytes" where
  "kwp_unwrap V m kek ciphertext out =
     (case bind_result (operational m) (\<lambda>_.
        let n = length ciphertext div 8 - 1
        in if length kek \<noteq> kw_key_len V then Err InvalidLength ''key-wrap kek''
           else if \<not> (length ciphertext mod 8 = 0 \<and> 16 \<le> length ciphertext) then Err InvalidLength ''key-wrap ciphertext''
           else if \<not> n \<le> MAX_BLOCKS then Err InvalidLength ''key-wrap ciphertext too large''
           else if \<not> n * 8 \<le> length out then Err InvalidLength ''key-wrap output''
           else bind_result (bc_new (kw_ops V) m kek) (\<lambda>cipher.
                bind_result
                  (if n = 1
                   then (case bc_decrypt_block (kw_ops V) cipher ciphertext of
                           (Inl e, _) \<Rightarrow> Inl e
                         | (Inr _, block) \<Rightarrow> Ok (take 8 block, [drop 8 block]))
                   else unwrap_blocks (kw_ops V) cipher n (take 8 ciphertext, map (\<lambda>i. slice (8 + i * 8) 8 ciphertext) [0..<n]))
                  (\<lambda>(a, r). if \<not> choice_into_bool (kwp_verdict n a r) then Err AuthenticationFailed (kwp_id V)
                            else Ok (unat (word_of_be (drop 4 a) :: u32), r)))) of
        Inl e \<Rightarrow> (Inl e, out)
      | Inr (declared, r) \<Rightarrow> (Ok declared, write_at 0 (concat r) out))"

section \<open>The passes are inverted\<close>

definition kw_shape :: "nat \<Rightarrow> kw_state \<Rightarrow> bool" where
  "kw_shape n s \<longleftrightarrow> length (fst s) = 8 \<and> length (snd s) = n \<and> (\<forall>b\<in>set (snd s). length b = 8)"

text \<open>A fold of invertible steps is undone by the fold of the inverse steps backwards.\<close>

lemma try_fold_append: "try_fold f (xs @ ys) s = bind_result (try_fold f xs s) (try_fold f ys)"
  by (induction xs arbitrary: s) (auto simp: bind_result_def split: sum.splits)

lemma try_fold_inverse:
  assumes "\<And>x s. x \<in> set xs \<Longrightarrow> P s \<Longrightarrow> \<exists>t. f x s = Ok t \<and> P t \<and> g x t = Ok s"
  shows "P s \<Longrightarrow> \<exists>t. try_fold f xs s = Ok t \<and> P t \<and> try_fold g (rev xs) t = Ok s"
  using assms
proof (induction xs arbitrary: s)
  case (Cons x xs)
  obtain u where u: "f x s = Ok u" "P u" "g x u = Ok s"
    using Cons.prems(1) Cons.prems(2) [of x s] by auto
  obtain t where "try_fold f xs u = Ok t" "P t" "try_fold g (rev xs) t = Ok u"
    using Cons.IH [OF u(2)] Cons.prems(2) by auto
  then show ?case
    using u by (auto simp: try_fold_append)
qed simp

context block_cipher
begin

lemma wrap_unwrap_step:
  assumes "good c" "kw_shape n s" "i < n"
  shows "\<exists>t. wrap_step B c n (j, i) s = Ok t \<and> kw_shape n t \<and> unwrap_step B c n (j, i) t = Ok s"
    and "\<exists>t. unwrap_step B c n (j, i) s = Ok t \<and> kw_shape n t \<and> wrap_step B c n (j, i) t = Ok s"
proof -
  obtain a r where s: "s = (a, r)"
    by (cases s)
  let ?T = "be_bytes 8 (n * j + i + 1)"
  have l: "length a = 8" "length r = n" "\<forall>b\<in>set r. length b = 8" "length (r ! i) = 8"
    using assms(2,3) by (auto simp: kw_shape_def s)
  have upd: "\<forall>b\<in>set (r[i := x]). length b = 8" if "length x = 8" for x
    using l(3) that set_update_subset_insert [of r i x] by auto
  show "\<exists>t. wrap_step B c n (j, i) s = Ok t \<and> kw_shape n t \<and> unwrap_step B c n (j, i) t = Ok s"
  proof -
    define e where "e = E c (a @ r ! i)"
    have e: "bc_encrypt_block B c (a @ r ! i) = (Ok (), e)" "length e = 16" "bc_decrypt_block B c e = (Ok (), a @ r ! i)"
      using assms(1) l by (simp_all add: e_def length_E D_E encrypt_block decrypt_block)
    let ?t = "(xor_bytes (take 8 e) ?T, r[i := drop 8 e])"
    have x: "xor_bytes (xor_bytes (take 8 e) ?T) ?T @ r[i := drop 8 e] ! i = e"
      using e(2) l(2) assms(3) xor_bytes_involutive [of "take 8 e" ?T] by simp
    have "wrap_step B c n (j, i) s = Ok ?t"
      by (simp only: s wrap_step_def prod.case e(1) sum.case Let_def)
    moreover have "unwrap_step B c n (j, i) ?t = Ok s"
      using l(1) assms(3) by (simp only: s unwrap_step_def prod.case Let_def x e(3) sum.case) simp
    moreover have "kw_shape n ?t"
      unfolding kw_shape_def fst_conv snd_conv
      by (intro conjI upd) (simp_all add: e(2) l(2))
    ultimately show ?thesis
      by blast
  qed
  show "\<exists>t. unwrap_step B c n (j, i) s = Ok t \<and> kw_shape n t \<and> wrap_step B c n (j, i) t = Ok s"
  proof -
    let ?x = "xor_bytes a ?T"
    define d where "d = D c (?x @ r ! i)"
    have x: "length (?x @ r ! i) = 16" "xor_bytes ?x ?T = a"
      using l xor_bytes_involutive [of a ?T] by simp_all
    have d: "bc_decrypt_block B c (?x @ r ! i) = (Ok (), d)" "length d = 16" "bc_encrypt_block B c d = (Ok (), ?x @ r ! i)"
      unfolding d_def by (simp_all only: decrypt_block [OF assms(1) x(1)] length_D [OF assms(1) x(1)]
          encrypt_block [OF assms(1) length_D [OF assms(1) x(1)]] E_D [OF assms(1) x(1)])
    let ?t = "(take 8 d, r[i := drop 8 d])"
    have b: "take 8 d @ r[i := drop 8 d] ! i = d"
      using l(2) assms(3) by simp
    have "unwrap_step B c n (j, i) s = Ok ?t"
      by (simp only: s unwrap_step_def prod.case d(1) sum.case Let_def)
    moreover have "wrap_step B c n (j, i) ?t = Ok s"
      using l(1) x(2) assms(3) by (simp only: s wrap_step_def prod.case Let_def b d(3) sum.case) simp
    moreover have "kw_shape n ?t"
      unfolding kw_shape_def fst_conv snd_conv
      by (intro conjI upd) (simp_all add: d(2) l(2))
    ultimately show ?thesis
      by blast
  qed
qed

lemma wrap_blocks_inverse:
  assumes "good c" "kw_shape n s"
  shows "\<exists>t. wrap_blocks B c n s = Ok t \<and> kw_shape n t \<and> unwrap_blocks B c n t = Ok s"
    and "\<exists>t. unwrap_blocks B c n s = Ok t \<and> kw_shape n t \<and> wrap_blocks B c n t = Ok s"
proof -
  show "\<exists>t. wrap_blocks B c n s = Ok t \<and> kw_shape n t \<and> unwrap_blocks B c n t = Ok s"
    unfolding wrap_blocks_def unwrap_blocks_def
    by (rule try_fold_inverse [where P = "kw_shape n", OF _ assms(2)]) (use wrap_unwrap_step(1) [OF assms(1)] in auto)
  have "\<exists>t. try_fold (unwrap_step B c n) (rev (List.product [0..<6] [0..<n])) s = Ok t \<and> kw_shape n t \<and>
      try_fold (wrap_step B c n) (rev (rev (List.product [0..<6] [0..<n]))) t = Ok s"
    by (rule try_fold_inverse [where P = "kw_shape n", OF _ assms(2)]) (use wrap_unwrap_step(2) [OF assms(1)] in auto)
  then show "\<exists>t. unwrap_blocks B c n s = Ok t \<and> kw_shape n t \<and> wrap_blocks B c n t = Ok s"
    by (simp add: wrap_blocks_def unwrap_blocks_def)
qed

lemma wrap_iff_unwrap:
  assumes "good c" "kw_shape n s" "kw_shape n t"
  shows "wrap_blocks B c n s = Ok t \<longleftrightarrow> unwrap_blocks B c n t = Ok s"
  using wrap_blocks_inverse [OF assms(1,2)] wrap_blocks_inverse [OF assms(1,3)] by auto

end

section \<open>The verdict\<close>

lemma bit_31: "bit (w :: u32) 31 \<longleftrightarrow> 2 ^ 31 \<le> unat w"
proof -
  have "unat w div 2 ^ 31 < 2"
    using unat_u32_bound [of w] by (simp add: div_less_iff_less_mult)
  then have "odd (unat w div 2 ^ 31) \<longleftrightarrow> 0 < unat w div 2 ^ 31"
    by (cases "unat w div 2 ^ 31 = 0") (auto simp: less_2_cases_iff)
  then show ?thesis
    by (simp add: bit_iff_odd_drop_bit unat_drop_bit div_greater_zero_iff flip: even_unat_iff)
qed

lemma drop_bit_31: "drop_bit 31 w = (if bit w 31 then 1 else 0 :: u32)"
proof (rule bit_word_eqI)
  fix k assume "k < LENGTH(32)"
  then show "bit (drop_bit 31 w) k = bit (if bit w 31 then 1 else 0 :: u32) k"
    using u32_bit_out [of "31 + k" w] by (cases "k = 0") (auto simp: bit_drop_bit_eq bit_1_iff)
qed

lemma unat_u32_diff: "unat (x - y) = (if unat y \<le> unat x then unat x - unat y else unat x + 2 ^ 32 - unat (y :: u32))"
  by (simp add: unat_sub_if')

lemma lt_u32_eq: "lt_u32 x y = (if x < y then 1 else 0)"
proof -
  have "bit ((NOT x AND y) OR (NOT (x XOR y) AND (x - y))) 31 \<longleftrightarrow> unat x < unat y"
    using unat_u32_bound [of x] unat_u32_bound [of y] unat_u32_diff [of x y]
    unfolding bit_or_iff bit_and_iff bit_not_iff bit_xor_iff by (simp add: bit_31) (auto split: if_splits)
  then show ?thesis
    by (simp only: lt_u32_def drop_bit_31 word_less_nat_alt)
qed

lemma slack_zero:
  assumes "1 \<le> n" "n \<le> 128"
  shows "drop_bit 3 (of_nat (n * 8) - d :: u32) = 0 \<longleftrightarrow> unat d \<le> n * 8 \<and> n * 8 < unat d + 8"
proof -
  have p: "unat (of_nat (n * 8) :: u32) = n * 8"
    unfolding unat_of_nat using assms by simp
  have "drop_bit 3 (of_nat (n * 8) - d) = 0 \<longleftrightarrow> unat (of_nat (n * 8) - d) div 8 = 0"
    by (simp add: unat_eq_0 [symmetric] unat_drop_bit)
  also have "\<dots> \<longleftrightarrow> unat (of_nat (n * 8) - d) < 8"
    by (simp add: div_eq_0_iff)
  also have "\<dots> \<longleftrightarrow> unat d \<le> n * 8 \<and> n * 8 < unat d + 8"
    unfolding unat_u32_diff p using assms unat_u32_bound [of d] by auto
  finally show ?thesis .
qed

lemma slack_mask:
  assumes "s = drop_bit 3 (x :: u32)"
  shows "NOT (ucast (drop_bit 31 (s OR (0 - s)))) AND 1 = (of_bool (s = 0) :: u8)"
proof -
  have s: "unat s < 2 ^ 29"
    using unat_u32_bound [of x] by (simp add: assms unat_drop_bit div_less_iff_less_mult)
  have "bit (s OR (0 - s)) 31 \<longleftrightarrow> s \<noteq> 0"
  proof (cases "s = 0")
    case False
    then have "0 < unat s"
      by (simp add: unat_gt_0)
    then have "2 ^ 31 \<le> unat (0 - s)"
      unfolding unat_u32_diff using s by simp
    then show ?thesis
      unfolding bit_or_iff using False by (simp add: bit_31)
  qed simp
  then show ?thesis
    unfolding drop_bit_31 by (cases "s = 0") simp_all
qed

lemma kwp_verdict_iff:
  assumes "1 \<le> n" "n \<le> 128" "length a = 8" "length (r ! (n - 1)) = 8"
  defines "d \<equiv> be_val (drop 4 a)"
  shows "choice_into_bool (kwp_verdict n a r) \<longleftrightarrow>
    take 4 a = KWP_IV \<and> d \<le> n * 8 \<and> n * 8 < d + 8 \<and> (\<forall>i<8. d \<le> (n - 1) * 8 + i \<longrightarrow> r ! (n - 1) ! i = 0)"
proof -
  define q where "q = n - 1"
  have q: "length (r ! q) = 8" "q < 128"
    using assms(1,2,4) by (simp_all add: q_def)
  let ?d = "word_of_be (drop 4 a) :: u32"
  have d: "unat ?d = d"
    unfolding d_def using assms(3) by (intro unat_word_of_be) simp
  have pos: "unat (of_nat (q * 8 + i) :: u32) = q * 8 + i" if "i < 8" for i
    unfolding unat_of_nat using q(2) that by simp
  have m: "ucast (lt_u32 x y) XOR 1 = (of_bool (\<not> x < y) :: u8)" for x y
    by (simp add: lt_u32_eq)
  have b: "byte AND (0 - of_bool q) = 0 \<longleftrightarrow> (q \<longrightarrow> byte = 0)" for byte :: u8 and q
    by (cases q) simp_all
  have en: "(\<forall>p\<in>set (List.enumerate 0 xs). P p) \<longleftrightarrow> (\<forall>i<length xs. P (i, xs ! i))" for P and xs :: bytes
    by (auto simp: in_set_enumerate_eq)
  let ?f = "\<lambda>(i, byte). byte AND (0 - (ucast (lt_u32 (of_nat (q * 8 + i)) ?d) XOR 1)) :: u8"
  have "fold (\<lambda>(i, byte) zeros. zeros OR (byte AND (0 - (ucast (lt_u32 (of_nat (q * 8 + i)) ?d) XOR 1))))
      (List.enumerate 0 (r ! q)) 0 = 0 \<longleftrightarrow> (\<forall>p\<in>set (List.enumerate 0 (r ! q)). ?f p = 0)"
    using or_fold_zero_iff [of ?f "List.enumerate 0 (r ! q)" 0] by (simp add: split_def)
  also have "\<dots> \<longleftrightarrow> (\<forall>i<8. d \<le> q * 8 + i \<longrightarrow> r ! q ! i = 0)"
    unfolding m en q(1) by (simp add: b word_less_nat_alt d pos not_less del: of_nat_add of_nat_mult) blast
  finally have z: "fold (\<lambda>(i, byte) zeros. zeros OR (byte AND (0 - (ucast (lt_u32 (of_nat (q * 8 + i)) ?d) XOR 1))))
      (List.enumerate 0 (r ! q)) 0 = 0 \<longleftrightarrow> (\<forall>i<8. d \<le> q * 8 + i \<longrightarrow> r ! q ! i = 0)" .
  show ?thesis
    unfolding kwp_verdict_def Let_def q_def [symmetric] slack_mask [OF refl] slack_zero [OF assms(1,2)] ct_choice_simps choice_from_u8_eq
    using z by (simp add: d)
qed

section \<open>Blocks in and out of the buffers\<close>

lemma slices_chunks:
  assumes "length xs = n * k" "0 < k"
  shows "map (\<lambda>i. slice (i * k) k xs) [0..<n] = chunks k xs"
proof (rule nth_equalityI)
  show l: "length (map (\<lambda>i. slice (i * k) k xs) [0..<n]) = length (chunks k xs)"
    using length_chunks_exact [OF assms] by simp
  fix i assume "i < length (map (\<lambda>i. slice (i * k) k xs) [0..<n])"
  then have i: "i < n"
    by simp
  have m: "i * k + j < length xs" if "j < k" for j
  proof -
    have "i * k + j < Suc i * k"
      using that by simp
    also have "\<dots> \<le> n * k"
      using i by (intro mult_le_mono1) simp
    finally show ?thesis
      using assms(1) by simp
  qed
  have s: "length (slice (i * k) k xs) = k"
    using m [of "k - 1"] assms(2) by simp
  have "chunks k xs ! i \<in> set (chunks k xs)"
    using i l by simp
  then have "length (chunks k xs ! i) = k"
    by (rule chunks_exact_lengths [OF assms])
  then have "slice (i * k) k xs = chunks k xs ! i"
  proof (intro nth_equalityI)
    fix j assume "j < length (slice (i * k) k xs)"
    then have "j < k"
      using s by simp
    then show "slice (i * k) k xs ! j = chunks k xs ! i ! j"
      using m [of j] i nth_chunks [OF assms i, of j] by (simp add: slice_def)
  qed (simp add: s)
  then show "map (\<lambda>i. slice (i * k) k xs) [0..<n] ! i = chunks k xs ! i"
    using i by simp
qed

lemma kw_shape_chunks:
  assumes "length xs = n * 8" "length a = 8"
  shows "kw_shape n (a, chunks 8 xs)"
  using length_chunks_exact [OF assms(1)] chunks_exact_lengths [OF assms(1)] assms(2) by (simp add: kw_shape_def)

lemma kw_shape_concat:
  assumes "kw_shape n (a, r)"
  shows "length (a @ concat r) = 8 + n * 8" "take 8 (a @ concat r) = a" "drop 8 (a @ concat r) = concat r" "chunks 8 (concat r) = r"
proof -
  have "length (concat r) = length r * 8" if "\<forall>b\<in>set r. length b = 8" for r :: "bytes list"
    using that by (induction r) simp_all
  then show "length (a @ concat r) = 8 + n * 8"
    using assms by (simp add: kw_shape_def)
  show "take 8 (a @ concat r) = a" "drop 8 (a @ concat r) = concat r"
    using assms by (simp_all add: kw_shape_def)
  show "chunks 8 (concat r) = r"
    using assms by (intro chunks_concat) (simp_all add: kw_shape_def)
qed

lemma later_slices:
  assumes "length ct = 8 + n * 8"
  shows "map (\<lambda>i. slice (8 + i * 8) 8 ct) [0..<n] = chunks 8 (drop 8 ct)"
proof -
  have "slice (8 + i * 8) 8 ct = slice (i * 8) 8 (drop 8 ct)" for i
    by (simp add: slice_def add.commute)
  then show ?thesis
    using slices_chunks [of "drop 8 ct" n 8] assms by simp
qed

section \<open>Unwrapping accepts exactly what wrapping produces\<close>

lemma kw_wrap_ok_iff:
  assumes "operational m = Ok ()"
  shows "kw_wrap V m kek pt out = (Ok (), ct) \<longleftrightarrow>
    (\<exists>c n t. length kek = kw_key_len V \<and> length pt = n * 8 \<and> 2 \<le> n \<and> n \<le> 128 \<and> length out = n * 8 + 8 \<and>
      bc_new (kw_ops V) m kek = Ok c \<and> wrap_blocks (kw_ops V) c n (KW_IV, chunks 8 pt) = Ok t \<and> ct = fst t @ concat (snd t))"
    (is "?L \<longleftrightarrow> ?R")
proof
  assume L: ?L
  then have h: "length kek = kw_key_len V" "length pt mod 8 = 0" "2 \<le> length pt div 8" "length pt div 8 \<le> 128"
    "length out = length pt + 8"
    using assms by (auto simp: kw_wrap_def Let_def MAX_BLOCKS_def OVERHEAD_def split: if_splits)
  then have p: "length pt = length pt div 8 * 8"
    by auto
  show ?R
    using L assms h p slices_chunks [OF p]
    by (intro exI [of _ "projr (bc_new (kw_ops V) m kek)"] exI [of _ "length pt div 8"])
      (cases "bc_new (kw_ops V) m kek"; cases "wrap_blocks (kw_ops V) (projr (bc_new (kw_ops V) m kek)) (length pt div 8) (KW_IV, chunks 8 pt)";
        auto simp: kw_wrap_def Let_def MAX_BLOCKS_def OVERHEAD_def)
next
  assume ?R
  then obtain c n t where "length kek = kw_key_len V" "length pt = n * 8" "2 \<le> n" "n \<le> 128" "length out = n * 8 + 8"
    "bc_new (kw_ops V) m kek = Ok c" "wrap_blocks (kw_ops V) c n (KW_IV, chunks 8 pt) = Ok t" "ct = fst t @ concat (snd t)"
    by blast
  then show ?L
    using assms slices_chunks [of pt n 8] by (simp add: kw_wrap_def Let_def MAX_BLOCKS_def OVERHEAD_def split: prod.split)
qed

lemma kw_unwrap_ok_iff:
  assumes "operational m = Ok ()"
  shows "kw_unwrap V m kek ct out = (Ok (), pt) \<longleftrightarrow>
    (\<exists>c n r. length kek = kw_key_len V \<and> length ct = 8 + n * 8 \<and> 2 \<le> n \<and> n \<le> 128 \<and> length out = n * 8 \<and>
      bc_new (kw_ops V) m kek = Ok c \<and> unwrap_blocks (kw_ops V) c n (take 8 ct, chunks 8 (drop 8 ct)) = Ok (KW_IV, r) \<and> pt = concat r)"
    (is "?L \<longleftrightarrow> ?R")
proof
  assume L: ?L
  let ?n = "length ct div 8 - 1"
  have h: "length kek = kw_key_len V" "length ct mod 8 = 0" "24 \<le> length ct" "?n \<le> 128" "length out = length ct - 8"
    using L assms by (auto simp: kw_unwrap_def Let_def MAX_BLOCKS_def OVERHEAD_def split: if_splits)
  then have n: "length ct = 8 + ?n * 8" "2 \<le> ?n"
    by (auto elim: dvdE)
  then have o: "length out = ?n * 8"
    using h(5) by linarith
  obtain c where c: "bc_new (kw_ops V) m kek = Ok c"
    using L assms h(1-5) by (cases "bc_new (kw_ops V) m kek") (auto simp: kw_unwrap_def Let_def MAX_BLOCKS_def OVERHEAD_def)
  then obtain a r where u: "unwrap_blocks (kw_ops V) c ?n (take 8 ct, chunks 8 (drop 8 ct)) = Ok (a, r)"
    using L assms h(1-5) later_slices [OF n(1)]
    by (cases "unwrap_blocks (kw_ops V) c ?n (take 8 ct, chunks 8 (drop 8 ct))")
      (auto simp: kw_unwrap_def Let_def MAX_BLOCKS_def OVERHEAD_def)
  have "a = KW_IV" "pt = concat r"
    using L assms h(1-5) later_slices [OF n(1)] c u
    by (auto simp: kw_unwrap_def Let_def MAX_BLOCKS_def OVERHEAD_def split: if_splits)
  then show ?R
    using h(1,4) n o c u by (intro exI [of _ c] exI [of _ ?n] exI [of _ r]) simp
next
  assume ?R
  then obtain c n r where "length kek = kw_key_len V" "length ct = 8 + n * 8" "2 \<le> n" "n \<le> 128" "length out = n * 8"
    "bc_new (kw_ops V) m kek = Ok c" "unwrap_blocks (kw_ops V) c n (take 8 ct, chunks 8 (drop 8 ct)) = Ok (KW_IV, r)" "pt = concat r"
    by blast
  then show ?L
    using assms later_slices [of ct n] by (simp add: kw_unwrap_def Let_def MAX_BLOCKS_def OVERHEAD_def)
qed

lemma kw_exact:
  assumes "operational m = Ok ()" "operational m' = Ok ()" "length buf = length pt" "length out = length ct"
    and "bc_new (kw_ops V) m kek = bc_new (kw_ops V) m' kek"
  shows "kw_unwrap V m kek ct buf = (Ok (), pt) \<longleftrightarrow> kw_wrap V m' kek pt out = (Ok (), ct)"
proof
  assume "kw_unwrap V m kek ct buf = (Ok (), pt)"
  then obtain c n r where h: "length kek = kw_key_len V" "length ct = 8 + n * 8" "2 \<le> n" "n \<le> 128"
    "bc_new (kw_ops V) m kek = Ok c" "unwrap_blocks (kw_ops V) c n (take 8 ct, chunks 8 (drop 8 ct)) = Ok (KW_IV, r)" "pt = concat r"
    unfolding kw_unwrap_ok_iff [OF assms(1)] by blast
  have g: "keys_ok c"
    using h(5) by (rule aes.new_good)
  have s: "kw_shape n (take 8 ct, chunks 8 (drop 8 ct))"
    using h(2) by (intro kw_shape_chunks) simp_all
  obtain t where "kw_shape n t" "unwrap_blocks (kw_ops V) c n (take 8 ct, chunks 8 (drop 8 ct)) = Ok t"
    "wrap_blocks (kw_ops V) c n t = Ok (take 8 ct, chunks 8 (drop 8 ct))"
    using aes.wrap_blocks_inverse(2) [OF g s] by blast
  then have w: "kw_shape n (KW_IV, r)" "wrap_blocks (kw_ops V) c n (KW_IV, r) = Ok (take 8 ct, chunks 8 (drop 8 ct))"
    using h(6) by auto
  show "kw_wrap V m' kek pt out = (Ok (), ct)"
    unfolding kw_wrap_ok_iff [OF assms(2)]
    using h w(2) kw_shape_concat(1,4) [OF w(1)] assms(4,5)
    by (intro exI [of _ c] exI [of _ n] exI [of _ "(take 8 ct, chunks 8 (drop 8 ct))"]) (simp add: concat_chunks KW_IV_def)
next
  assume "kw_wrap V m' kek pt out = (Ok (), ct)"
  then obtain c n t where h: "length kek = kw_key_len V" "length pt = n * 8" "2 \<le> n" "n \<le> 128"
    "bc_new (kw_ops V) m' kek = Ok c" "wrap_blocks (kw_ops V) c n (KW_IV, chunks 8 pt) = Ok t" "ct = fst t @ concat (snd t)"
    unfolding kw_wrap_ok_iff [OF assms(2)] by blast
  have g: "keys_ok c"
    using h(5) by (rule aes.new_good)
  have "kw_shape n (KW_IV, chunks 8 pt)"
    using h(2) by (intro kw_shape_chunks) (simp_all add: KW_IV_def)
  from aes.wrap_blocks_inverse(1) [OF g this, where v = "kw_cipher V"] obtain a r where t: "t = (a, r)" "kw_shape n (a, r)"
    "unwrap_blocks (kw_ops V) c n (a, r) = Ok (KW_IV, chunks 8 pt)"
    using h(6) by (cases t) auto
  note k = kw_shape_concat [OF t(2)]
  show "kw_unwrap V m kek ct buf = (Ok (), pt)"
    unfolding kw_unwrap_ok_iff [OF assms(1)]
    using h t k assms(3,5) by (intro exI [of _ c] exI [of _ n] exI [of _ "chunks 8 pt"]) (simp add: concat_chunks)
qed

end
