(* ===== verification/Key_Wrap_Padded.thy ===== *)
theory Key_Wrap_Padded
  imports Key_Wrap
begin

text \<open>
  The padded variant of key wrap: what its verdict accepts, and that unwrapping returns exactly
  the inputs wrapping was given.
\<close>

section \<open>Padding to whole blocks\<close>

definition padded :: "bytes \<Rightarrow> bytes list" where
  "padded pt = map (\<lambda>chunk. chunk @ replicate (8 - length chunk) 0) (chunks 8 pt)"

definition blocks_of :: "nat \<Rightarrow> nat" where
  "blocks_of len = (len + 7) div 8"

lemma blocks_of_bounds: "len \<le> blocks_of len * 8" "blocks_of len * 8 < len + 8"
  unfolding blocks_of_def by linarith+

lemma blocks_of_unique: "len \<le> n * 8 \<Longrightarrow> n * 8 < len + 8 \<Longrightarrow> blocks_of len = n"
  unfolding blocks_of_def by linarith

lemma concat_padded: "concat (padded pt) = pt @ replicate (blocks_of (length pt) * 8 - length pt) 0"
proof (induction "8 :: nat" pt rule: chunks.induct)
  case (1 pt)
  show ?case
  proof (cases "length pt \<le> 8")
    case True
    then show ?thesis
    proof (cases "pt = []")
      case False
      then have "blocks_of (length pt) = 1"
        using True by (intro blocks_of_unique) (auto simp: Suc_le_eq)
      moreover have "chunks 8 pt = [pt]"
        using True False by (simp add: chunks.simps [of 8 pt])
      ultimately show ?thesis
        by (simp add: padded_def)
    qed (simp add: padded_def blocks_of_def)
  next
    case False
    then have c: "chunks 8 pt = take 8 pt # chunks 8 (drop 8 pt)"
      by (intro chunks_step) auto
    obtain k where k: "length pt = k + 8"
      using False by (metis le_add_diff_inverse2 nat_le_linear)
    have b: "blocks_of (length pt) = Suc (blocks_of (length pt - 8))"
      by (simp add: k blocks_of_def)
    have "concat (padded pt) = take 8 pt @ concat (padded (drop 8 pt))"
      using False by (simp add: padded_def c)
    also have "concat (padded (drop 8 pt)) = drop 8 pt @ replicate (blocks_of (length pt - 8) * 8 - (length pt - 8)) 0"
      using 1 False by (simp add: length_drop) fastforce
    also have "take 8 pt @ \<dots> = pt @ replicate (blocks_of (length pt - 8) * 8 - (length pt - 8)) 0"
      by (metis append_assoc append_take_drop_id)
    finally show ?thesis
      using False by (simp add: b)
  qed
qed

lemma padded_blocks: "\<forall>b\<in>set (padded pt). length b = 8"
  using chunks_length_le [of 8 pt] by (auto simp: padded_def)

lemma length_padded: "length (padded pt) = blocks_of (length pt)"
  by (simp add: padded_def length_chunks blocks_of_def)

lemma padded_chunks: "padded pt = chunks 8 (pt @ replicate (blocks_of (length pt) * 8 - length pt) 0)"
  using chunks_concat [OF padded_blocks, of pt] by (simp add: concat_padded)

section \<open>What the verdict accepts\<close>

definition kwp_input :: "bytes \<Rightarrow> kw_state" where
  "kwp_input pt = (KWP_IV @ be_bytes 4 (length pt), padded pt)"

lemma concat_blocks_nth:
  "\<forall>b\<in>set r. length b = 8 \<Longrightarrow> q < length r \<Longrightarrow> i < 8 \<Longrightarrow> concat r ! (q * 8 + i) = r ! q ! i"
proof (induction r arbitrary: q)
  case (Cons b r)
  then show ?case
    by (cases q) (simp_all add: nth_append)
qed simp

lemma length_concat_blocks: "\<forall>b\<in>set r. length b = 8 \<Longrightarrow> length (concat r) = length r * 8"
  by (induction r) simp_all

lemma verdict_input:
  assumes "kw_shape n (a, r)" "1 \<le> n" "n \<le> 128"
  shows "choice_into_bool (kwp_verdict n a r) \<longleftrightarrow> (\<exists>pt. pt \<noteq> [] \<and> blocks_of (length pt) = n \<and> (a, r) = kwp_input pt)"
proof -
  define d where "d = be_val (drop 4 a)"
  have l: "length a = 8" "length r = n" "\<forall>b\<in>set r. length b = 8"
    using assms(1) by (simp_all add: kw_shape_def)
  have v: "choice_into_bool (kwp_verdict n a r) \<longleftrightarrow>
      take 4 a = KWP_IV \<and> d \<le> n * 8 \<and> n * 8 < d + 8 \<and> (\<forall>i<8. d \<le> (n - 1) * 8 + i \<longrightarrow> r ! (n - 1) ! i = 0)"
    unfolding d_def using assms(2,3) l by (intro kwp_verdict_iff) simp_all
  have c: "length (concat r) = n * 8" "concat r ! ((n - 1) * 8 + i) = r ! (n - 1) ! i" if "i < 8" for i
    using l that assms(2) length_concat_blocks [of r] concat_blocks_nth [of r "n - 1" i] by simp_all
  show ?thesis
  proof
    assume "choice_into_bool (kwp_verdict n a r)"
    then have h: "take 4 a = KWP_IV" "d \<le> n * 8" "n * 8 < d + 8" "\<And>i. i < 8 \<Longrightarrow> d \<le> (n - 1) * 8 + i \<Longrightarrow> r ! (n - 1) ! i = 0"
      using v by auto
    let ?pt = "take d (concat r)"
    have p: "length ?pt = d" "blocks_of d = n" "0 < d"
      using h c [of 0] assms(2) blocks_of_unique [of d n] by auto
    have "drop d (concat r) = replicate (n * 8 - d) 0"
    proof (rule nth_equalityI)
      show "length (drop d (concat r)) = length (replicate (n * 8 - d) (0 :: u8))"
        using c(1) [of 0] by simp
      fix j assume "j < length (drop d (concat r))"
      then have j: "d + j < n * 8"
        using c(1) [of 0] by simp
      define i where "i = d + j - (n - 1) * 8"
      have i: "i < 8" "d + j = (n - 1) * 8 + i"
        unfolding i_def using j h(3) assms(2) by (simp_all add: diff_mult_distrib)
      then have "concat r ! (d + j) = 0"
        using h(4) [of i] c(2) [of i] by simp
      then show "drop d (concat r) ! j = replicate (n * 8 - d) 0 ! j"
        using j h(2) c(1) [of 0] by simp
    qed
    then have "concat r = ?pt @ replicate (blocks_of (length ?pt) * 8 - length ?pt) 0"
      using p by (metis append_take_drop_id)
    then have "padded ?pt = r"
      using chunks_concat [OF l(3)] by (simp add: padded_chunks)
    moreover have "drop 4 a = be_bytes 4 d"
      using be_bytes_be_val [of "drop 4 a"] l(1) by (simp add: d_def)
    then have "a = KWP_IV @ be_bytes 4 d"
      using h(1) append_take_drop_id [of 4 a] by simp
    moreover have "?pt \<noteq> []"
      using p(1,3) by (metis less_numeral_extra(3) list.size(3))
    ultimately show "\<exists>pt. pt \<noteq> [] \<and> blocks_of (length pt) = n \<and> (a, r) = kwp_input pt"
      unfolding kwp_input_def using p(1,2) by (intro exI [of _ ?pt]) simp
  next
    assume "\<exists>pt. pt \<noteq> [] \<and> blocks_of (length pt) = n \<and> (a, r) = kwp_input pt"
    then obtain pt where pt: "pt \<noteq> []" "blocks_of (length pt) = n" "a = KWP_IV @ be_bytes 4 (length pt)" "r = padded pt"
      by (auto simp: kwp_input_def)
    have b: "length pt \<le> n * 8" "n * 8 < length pt + 8"
      using blocks_of_bounds [of "length pt"] pt(2) by auto
    have d: "d = length pt" "take 4 a = KWP_IV"
      using b(1) assms(3) by (simp_all add: d_def pt(3) KWP_IV_def be_val_be_bytes)
    have "r ! (n - 1) ! i = 0" if "i < 8" "length pt \<le> (n - 1) * 8 + i" for i
    proof -
      have "(n - 1) * 8 + i < n * 8"
        using that(1) assms(2) by (simp add: diff_mult_distrib)
      then have "concat r ! ((n - 1) * 8 + i) = 0"
        using that(2) unfolding pt(4) concat_padded pt(2) by (simp add: nth_append)
      then show ?thesis
        using c(2) [OF that(1)] by simp
    qed
    then show "choice_into_bool (kwp_verdict n a r)"
      unfolding v using b d by auto
  qed
qed

section \<open>The single block and the passes, as one\<close>

definition kwp_seal :: "'c block_cipher_ops \<Rightarrow> 'c \<Rightarrow> nat \<Rightarrow> kw_state \<Rightarrow> kw_state result" where
  "kwp_seal B c n s =
     (if n = 1 then (case bc_encrypt_block B c (fst s @ snd s ! 0) of (Inl e, _) \<Rightarrow> Inl e | (Inr _, b) \<Rightarrow> Ok (take 8 b, [drop 8 b]))
      else wrap_blocks B c n s)"

definition kwp_unseal :: "'c block_cipher_ops \<Rightarrow> 'c \<Rightarrow> nat \<Rightarrow> kw_state \<Rightarrow> kw_state result" where
  "kwp_unseal B c n s =
     (if n = 1 then (case bc_decrypt_block B c (fst s @ snd s ! 0) of (Inl e, _) \<Rightarrow> Inl e | (Inr _, b) \<Rightarrow> Ok (take 8 b, [drop 8 b]))
      else unwrap_blocks B c n s)"

lemma kw_shape_1:
  assumes "kw_shape 1 s"
  shows "s = (fst s, [snd s ! 0])" "length (fst s @ snd s ! 0) = 16"
  using assms by (cases s; auto simp: kw_shape_def length_Suc_conv)+

context block_cipher
begin

lemma kwp_inverse:
  assumes "good c" "kw_shape n s"
  shows "\<exists>t. kwp_seal B c n s = Ok t \<and> kw_shape n t \<and> kwp_unseal B c n t = Ok s"
    and "\<exists>t. kwp_unseal B c n s = Ok t \<and> kw_shape n t \<and> kwp_seal B c n t = Ok s"
proof -
  have one: "\<exists>t. kwp_seal B c n s = Ok t \<and> kw_shape n t \<and> kwp_unseal B c n t = Ok s"
    "\<exists>t. kwp_unseal B c n s = Ok t \<and> kw_shape n t \<and> kwp_seal B c n t = Ok s" if n: "n = 1"
  proof -
    obtain a b where s: "s = (a, [b])" and l: "length (a @ b) = 16" "length a = 8" "length b = 8"
      using kw_shape_1 [of s] assms(2) n by (cases s) (auto simp: kw_shape_def length_Suc_conv)
    let ?e = "E c (a @ b)" and ?d = "D c (a @ b)"
    show "\<exists>t. kwp_seal B c n s = Ok t \<and> kw_shape n t \<and> kwp_unseal B c n t = Ok s"
      using n l length_E [OF assms(1) l(1)] D_E [OF assms(1) l(1)] encrypt_block [OF assms(1) l(1)]
        decrypt_block [OF assms(1), of ?e]
      by (intro exI [of _ "(take 8 ?e, [drop 8 ?e])"]) (simp add: s kwp_seal_def kwp_unseal_def kw_shape_def)
    show "\<exists>t. kwp_unseal B c n s = Ok t \<and> kw_shape n t \<and> kwp_seal B c n t = Ok s"
      using n l length_D [OF assms(1) l(1)] E_D [OF assms(1) l(1)] decrypt_block [OF assms(1) l(1)]
        encrypt_block [OF assms(1), of ?d]
      by (intro exI [of _ "(take 8 ?d, [drop 8 ?d])"]) (simp add: s kwp_seal_def kwp_unseal_def kw_shape_def)
  qed
  show "\<exists>t. kwp_seal B c n s = Ok t \<and> kw_shape n t \<and> kwp_unseal B c n t = Ok s"
    using one(1) wrap_blocks_inverse(1) [OF assms] by (cases "n = 1") (auto simp: kwp_seal_def kwp_unseal_def)
  show "\<exists>t. kwp_unseal B c n s = Ok t \<and> kw_shape n t \<and> kwp_seal B c n t = Ok s"
    using one(2) wrap_blocks_inverse(2) [OF assms] by (cases "n = 1") (auto simp: kwp_seal_def kwp_unseal_def)
qed

end

section \<open>Unwrapping accepts exactly what wrapping produces\<close>

lemma kwp_unseal_slices:
  assumes "length ct = 8 + n * 8" "1 \<le> n"
  shows "(if n = 1 then (case bc_decrypt_block B c ct of (Inl e, _) \<Rightarrow> Inl e | (Inr _, block) \<Rightarrow> Ok (take 8 block, [drop 8 block]))
      else unwrap_blocks B c n (take 8 ct, map (\<lambda>i. slice (8 + i * 8) 8 ct) [0..<n])) =
    kwp_unseal B c n (take 8 ct, chunks 8 (drop 8 ct))"
proof (cases "n = 1")
  case True
  have "chunks 8 (drop 8 ct) = [drop 8 ct]"
    using assms True by (simp add: chunks.simps [of 8 "drop 8 ct"])
  then show ?thesis
    using True by (simp add: kwp_unseal_def)
qed (simp add: kwp_unseal_def later_slices [OF assms(1)])

lemma kwp_seal_result:
  "(if n = 1 then (case bc_encrypt_block B c (a @ r ! 0) of (Inl e, _) \<Rightarrow> Inl e | (Inr _, block) \<Rightarrow> Ok block)
    else bind_result (wrap_blocks B c n (a, r)) (\<lambda>(a, r). Ok (a @ concat r))) =
   bind_result (kwp_seal B c n (a, r)) (\<lambda>t. Ok (fst t @ concat (snd t)))"
  by (simp add: kwp_seal_def split_def split: sum.split)

lemma kwp_wrap_ok_iff:
  assumes "operational m = Ok ()"
  shows "kwp_wrap V m kek pt out = (Ok (), ct) \<longleftrightarrow>
    (\<exists>c n t. length kek = kw_key_len V \<and> pt \<noteq> [] \<and> blocks_of (length pt) = n \<and> n \<le> 128 \<and> length out = n * 8 + 8 \<and>
      bc_new (kw_ops V) m kek = Ok c \<and> kwp_seal (kw_ops V) c n (kwp_input pt) = Ok t \<and> ct = fst t @ concat (snd t))"
    (is "?L \<longleftrightarrow> ?R")
proof -
  have n: "length pt \<le> 128 * 8 \<longleftrightarrow> blocks_of (length pt) \<le> 128" "(length pt + 7) div 8 = blocks_of (length pt)"
    using blocks_of_bounds [of "length pt"] unfolding blocks_of_def by linarith+
  let ?n = "blocks_of (length pt)"
  have e: "kwp_wrap V m kek pt out =
      (case (if length kek \<noteq> kw_key_len V then Err InvalidLength ''key-wrap kek''
        else if pt = [] then Err InvalidLength ''key-wrap input is empty''
        else if \<not> ?n \<le> 128 then Err InvalidLength ''key-wrap input too large''
        else if length out \<noteq> ?n * 8 + 8 then Err InvalidLength ''key-wrap output''
        else bind_result (bc_new (kw_ops V) m kek) (\<lambda>c.
          bind_result (kwp_seal (kw_ops V) c ?n (kwp_input pt)) (\<lambda>t. Ok (fst t @ concat (snd t))))) of
        Inl e \<Rightarrow> (Inl e, out) | Inr block \<Rightarrow> (Ok (), block))"
    unfolding kwp_wrap_def kwp_wrapped_len_def MAX_BLOCKS_def OVERHEAD_def Let_def n padded_def [symmetric] kwp_seal_result
      assms bind_result_simps kwp_input_def [symmetric] ..
  show ?thesis
    unfolding e by (auto simp: bind_result_def split: sum.splits if_splits)
qed

lemma kwp_unwrap_ok_iff:
  assumes "operational m = Ok ()"
  shows "kwp_unwrap V m kek ct buf = (Ok len, out) \<longleftrightarrow>
    (\<exists>c n a r. length kek = kw_key_len V \<and> length ct = 8 + n * 8 \<and> 1 \<le> n \<and> n \<le> 128 \<and> n * 8 \<le> length buf \<and>
      bc_new (kw_ops V) m kek = Ok c \<and> kwp_unseal (kw_ops V) c n (take 8 ct, chunks 8 (drop 8 ct)) = Ok (a, r) \<and>
      choice_into_bool (kwp_verdict n a r) \<and> len = unat (word_of_be (drop 4 a) :: u32) \<and> out = write_at 0 (concat r) buf)"
    (is "?L \<longleftrightarrow> ?R")
proof
  assume L: ?L
  let ?n = "length ct div 8 - 1"
  have h: "length kek = kw_key_len V" "length ct mod 8 = 0" "16 \<le> length ct" "?n \<le> 128" "?n * 8 \<le> length buf"
    using L assms by (auto simp: kwp_unwrap_def Let_def MAX_BLOCKS_def split: if_splits)
  then have n: "length ct = 8 + ?n * 8" "1 \<le> ?n"
    by (auto elim: dvdE)
  note s = kwp_unseal_slices [OF n]
  obtain c where c: "bc_new (kw_ops V) m kek = Ok c"
    using L assms h by (cases "bc_new (kw_ops V) m kek") (auto simp: kwp_unwrap_def Let_def MAX_BLOCKS_def)
  have L': "(case bind_result (kwp_unseal (kw_ops V) c ?n (take 8 ct, chunks 8 (drop 8 ct)))
        (\<lambda>(a, r). if \<not> choice_into_bool (kwp_verdict ?n a r) then Err AuthenticationFailed (kwp_id V)
          else Ok (unat (word_of_be (drop 4 a) :: u32), r)) of
      Inl e \<Rightarrow> (Inl e, buf) | Inr (declared, r) \<Rightarrow> (Ok declared, write_at 0 (concat r) buf)) = (Ok len, out)"
    using L [unfolded kwp_unwrap_def Let_def MAX_BLOCKS_def assms c bind_result_simps s] h by simp
  then obtain a r where "kwp_unseal (kw_ops V) c ?n (take 8 ct, chunks 8 (drop 8 ct)) = Ok (a, r)"
    by (cases "kwp_unseal (kw_ops V) c ?n (take 8 ct, chunks 8 (drop 8 ct))") auto
  then show ?R
    using L' h n c by (intro exI [of _ c] exI [of _ ?n] exI [of _ a] exI [of _ r]) (auto split: if_splits)
next
  assume ?R
  then obtain c n a r where h: "length kek = kw_key_len V" "length ct = 8 + n * 8" "1 \<le> n" "n \<le> 128" "n * 8 \<le> length buf"
    "bc_new (kw_ops V) m kek = Ok c" "kwp_unseal (kw_ops V) c n (take 8 ct, chunks 8 (drop 8 ct)) = Ok (a, r)"
    "choice_into_bool (kwp_verdict n a r)" "len = unat (word_of_be (drop 4 a) :: u32)" "out = write_at 0 (concat r) buf"
    by blast
  have n: "length ct div 8 - 1 = n" "length ct mod 8 = 0" "16 \<le> length ct"
    using h(2,3) by simp_all
  show ?L
    unfolding kwp_unwrap_def Let_def MAX_BLOCKS_def assms h(6) bind_result_simps n(1) kwp_unseal_slices [OF h(2,3)] h(7)
    using h(1,4,5,8,9,10) n(2,3) by simp
qed

lemma kwp_exact:
  assumes "operational m = Ok ()" "operational m' = Ok ()" "length ct \<le> length buf + 8" "length out = length ct"
    and "bc_new (kw_ops V) m kek = bc_new (kw_ops V) m' kek"
  shows "(\<exists>out'. kwp_unwrap V m kek ct buf = (Ok (length pt), out') \<and> take (length pt) out' = pt) \<longleftrightarrow>
    kwp_wrap V m' kek pt out = (Ok (), ct)"
proof
  assume "\<exists>out'. kwp_unwrap V m kek ct buf = (Ok (length pt), out') \<and> take (length pt) out' = pt"
  then obtain c n a r where h: "length kek = kw_key_len V" "length ct = 8 + n * 8" "1 \<le> n" "n \<le> 128" "n * 8 \<le> length buf"
    "bc_new (kw_ops V) m kek = Ok c" "kwp_unseal (kw_ops V) c n (take 8 ct, chunks 8 (drop 8 ct)) = Ok (a, r)"
    "choice_into_bool (kwp_verdict n a r)" "length pt = unat (word_of_be (drop 4 a) :: u32)"
    "take (length pt) (write_at 0 (concat r) buf) = pt"
    unfolding kwp_unwrap_ok_iff [OF assms(1)] by blast
  have g: "keys_ok c"
    using h(6) by (rule aes.new_good)
  have "kw_shape n (take 8 ct, chunks 8 (drop 8 ct))"
    using h(2) by (intro kw_shape_chunks) simp_all
  from aes.kwp_inverse(2) [OF g this, where v = "kw_cipher V"] have w: "kw_shape n (a, r)"
    "kwp_seal (kw_ops V) c n (a, r) = Ok (take 8 ct, chunks 8 (drop 8 ct))"
    using h(7) by auto
  obtain q where q: "q \<noteq> []" "blocks_of (length q) = n" "(a, r) = kwp_input q"
    using h(8) verdict_input [OF w(1) h(3,4)] by blast
  have b: "length q \<le> n * 8"
    using blocks_of_bounds [of "length q"] q(2) by simp
  have "length pt = length q"
    using q(3) b h(4) unat_word_of_be [of "be_bytes 4 (length q)", where 'a = 32]
    by (simp add: h(9) kwp_input_def KWP_IV_def be_val_be_bytes)
  moreover have "take (length q) (write_at 0 (concat r) buf) = q"
    using q(3) b by (simp add: kwp_input_def write_at_def concat_padded)
  ultimately have "pt = q"
    using h(10) by simp
  then show "kwp_wrap V m' kek pt out = (Ok (), ct)"
    unfolding kwp_wrap_ok_iff [OF assms(2)] using h(1-6) q w(2) assms(4,5)
    by (intro exI [of _ c] exI [of _ n] exI [of _ "(take 8 ct, chunks 8 (drop 8 ct))"]) (simp add: concat_chunks)
next
  assume "kwp_wrap V m' kek pt out = (Ok (), ct)"
  then obtain c n t where h: "length kek = kw_key_len V" "pt \<noteq> []" "blocks_of (length pt) = n" "n \<le> 128" "length out = n * 8 + 8"
    "bc_new (kw_ops V) m' kek = Ok c" "kwp_seal (kw_ops V) c n (kwp_input pt) = Ok t" "ct = fst t @ concat (snd t)"
    unfolding kwp_wrap_ok_iff [OF assms(2)] by blast
  have g: "keys_ok c"
    using h(6) by (rule aes.new_good)
  have s: "kw_shape n (kwp_input pt)"
    using padded_blocks h(3) by (simp add: kw_shape_def kwp_input_def KWP_IV_def length_padded)
  from aes.kwp_inverse(1) [OF g s, where v = "kw_cipher V"] obtain a r where t: "t = (a, r)" "kw_shape n (a, r)"
    "kwp_unseal (kw_ops V) c n (a, r) = Ok (kwp_input pt)"
    using h(7) by (cases t) auto
  note k = kw_shape_concat [OF t(2)]
  have b: "length pt \<le> n * 8" "1 \<le> n"
    using blocks_of_bounds [of "length pt"] h(2,3) by (auto simp: Suc_le_eq intro: Nat.gr0I)
  let ?a = "KWP_IV @ be_bytes 4 (length pt)"
  have v: "choice_into_bool (kwp_verdict n ?a (padded pt))"
    using verdict_input [of n ?a "padded pt"] s b(2) h(2-4) by (auto simp: kwp_input_def)
  have "length pt = unat (word_of_be (drop 4 ?a) :: u32)"
    using b h(4) unat_word_of_be [of "be_bytes 4 (length pt)", where 'a = 32] by (simp add: KWP_IV_def be_val_be_bytes)
  moreover have "take (length pt) (write_at 0 (concat (padded pt)) buf) = pt"
    by (simp add: write_at_def concat_padded)
  ultimately show "\<exists>out'. kwp_unwrap V m kek ct buf = (Ok (length pt), out') \<and> take (length pt) out' = pt"
    unfolding kwp_unwrap_ok_iff [OF assms(1)]
    using h(1,3,4,6,8) t k b v assms(3,5)
    by (intro exI [of _ "write_at 0 (concat (padded pt)) buf"] conjI exI [of _ c] exI [of _ n] exI [of _ ?a] exI [of _ "padded pt"])
      (auto simp: kwp_input_def)
qed

end
