(* ===== verification/Mlkem_Poly.thy ===== *)
theory Mlkem_Poly
  imports Prelude "HOL-Library.Monad_Syntax"
begin

unbundle bit_operations_syntax

text \<open>
  The ring arithmetic of ML-KEM, \<open>crates/ic-mlkem/src/poly.rs\<close>: the reductions, the table of
  roots, the forward and the inverse transform and the products between them. Coefficients are
  integers; every addition, subtraction, negation and multiplication of the code is checked
  against its machine width, \<open>None\<close> being the overflow panic, and every narrowing cast wraps.
\<close>

section \<open>Machine integers\<close>

definition i16 :: "int \<Rightarrow> int option" where
  "i16 x = (if - 32768 \<le> x \<and> x \<le> 32767 then Some x else None)"

definition i32 :: "int \<Rightarrow> int option" where
  "i32 x = (if - 2147483648 \<le> x \<and> x \<le> 2147483647 then Some x else None)"

definition as_i16 :: "int \<Rightarrow> int" where
  "as_i16 x = (x + 32768) mod 65536 - 32768"

definition as_i32 :: "int \<Rightarrow> int" where
  "as_i32 x = (x + 2147483648) mod 4294967296 - 2147483648"

text \<open>A loop whose body may panic.\<close>

fun opt_fold :: "('a \<Rightarrow> 's \<Rightarrow> 's option) \<Rightarrow> 'a list \<Rightarrow> 's \<Rightarrow> 's option" where
  "opt_fold f [] s = Some s"
| "opt_fold f (x # xs) s = f x s \<bind> opt_fold f xs"

section \<open>Constants\<close>

definition KEM_Q :: int where "KEM_Q = 3329"
definition KEM_N :: nat where "KEM_N = 256"
definition Q_INV :: int where "Q_INV = - 3327"

definition bitrev7 :: "nat \<Rightarrow> nat" where
  "bitrev7 i = fold (\<lambda>b rev. rev OR push_bit (6 - b) (drop_bit b i AND 1)) [0..<7] 0"

definition compute_zetas :: "int list" where
  "compute_zetas = map (\<lambda>i.
     let acc = fold (\<lambda>_ acc. acc * 17 mod KEM_Q) [0..<bitrev7 i] 1
     in as_i16 (acc * 65536 mod KEM_Q)) [0..<128]"

definition ZETAS :: "int list" where "ZETAS = compute_zetas"

section \<open>Reductions\<close>

definition montgomery_reduce :: "int \<Rightarrow> int option" where
  "montgomery_reduce a =
     (let t = as_i16 (as_i32 (as_i16 a * Q_INV))
      in do { p \<leftarrow> i32 (t * KEM_Q); d \<leftarrow> i32 (a - p); Some (as_i16 (d div 65536)) })"

definition barrett_reduce :: "int \<Rightarrow> int option" where
  "barrett_reduce a =
     (let V = 2 ^ 26 div KEM_Q
      in do {
        p \<leftarrow> i32 (V * a);
        s \<leftarrow> i32 (p + 2 ^ 25);
        let t = s div 2 ^ 26;
        u \<leftarrow> i32 (t * KEM_Q);
        d \<leftarrow> i32 (a - u);
        Some (as_i16 d) })"

definition normalize_coefficient :: "int \<Rightarrow> int option" where
  "normalize_coefficient a = do { v \<leftarrow> barrett_reduce a; i16 (v + ((v div 2 ^ 15) AND KEM_Q)) }"

definition fqmul :: "int \<Rightarrow> int \<Rightarrow> int option" where
  "fqmul a b = do { p \<leftarrow> i32 (a * b); montgomery_reduce p }"

definition ntt_butterfly :: "int \<Rightarrow> int \<Rightarrow> int \<Rightarrow> (int \<times> int) option" where
  "ntt_butterfly zeta a b = do { t \<leftarrow> fqmul zeta b; x \<leftarrow> i16 (a + t); y \<leftarrow> i16 (a - t); Some (x, y) }"

section \<open>Polynomials\<close>

type_synonym poly = "int list"

definition POLY_ZERO :: poly where "POLY_ZERO = replicate KEM_N 0"

text \<open>A loop that replaces every coefficient.\<close>

definition map_coefficients :: "(int \<Rightarrow> int option) \<Rightarrow> poly \<Rightarrow> poly option" where
  "map_coefficients f c = opt_fold (\<lambda>i c. do { v \<leftarrow> f (c ! i); Some (c[i := v]) }) [0..<length c] c"

definition poly_add :: "poly \<Rightarrow> poly \<Rightarrow> poly option" where
  "poly_add a b = opt_fold (\<lambda>i out. do { v \<leftarrow> i16 (a ! i + b ! i); Some (out[i := v]) }) [0..<KEM_N] POLY_ZERO"

definition poly_sub :: "poly \<Rightarrow> poly \<Rightarrow> poly option" where
  "poly_sub a b = opt_fold (\<lambda>i out. do { v \<leftarrow> i16 (a ! i - b ! i); Some (out[i := v]) }) [0..<KEM_N] POLY_ZERO"

definition poly_add_assign :: "poly \<Rightarrow> poly \<Rightarrow> poly option" where
  "poly_add_assign c b = opt_fold (\<lambda>i c. do { v \<leftarrow> i16 (c ! i + b ! i); Some (c[i := v]) }) [0..<KEM_N] c"

definition poly_reduce :: "poly \<Rightarrow> poly option" where
  "poly_reduce c = map_coefficients barrett_reduce c"

definition poly_normalize :: "poly \<Rightarrow> poly option" where
  "poly_normalize c = map_coefficients normalize_coefficient c"

definition poly_to_mont :: "poly \<Rightarrow> poly option" where
  "poly_to_mont c = map_coefficients (\<lambda>x. fqmul x 1353) c"

definition poly_from_mont :: "poly \<Rightarrow> poly option" where
  "poly_from_mont c = map_coefficients (\<lambda>x. fqmul x 1) c"

section \<open>The transforms\<close>

text \<open>The innermost loop of a transform: a step on the two coefficients \<open>j\<close> and \<open>j + len\<close>.\<close>

definition pair_step :: "(int \<Rightarrow> int \<Rightarrow> (int \<times> int) option) \<Rightarrow> nat \<Rightarrow> nat \<Rightarrow> poly \<Rightarrow> poly option" where
  "pair_step f len j c = do { (x, y) \<leftarrow> f (c ! j) (c ! (j + len)); Some (c[j := x, j + len := y]) }"

definition pair_loop :: "(int \<Rightarrow> int \<Rightarrow> (int \<times> int) option) \<Rightarrow> nat \<Rightarrow> nat \<Rightarrow> poly \<Rightarrow> poly option" where
  "pair_loop f len start c = opt_fold (pair_step f len) [start..<start + len] c"

text \<open>One layer: \<open>start\<close> runs over the multiples of \<open>2 * len\<close> below 256, \<open>k\<close> over the roots.\<close>

definition ntt_layer :: "nat \<Rightarrow> nat \<times> poly \<Rightarrow> (nat \<times> poly) option" where
  "ntt_layer len kc = opt_fold (\<lambda>b (k, c). do {
       c \<leftarrow> pair_loop (ntt_butterfly (ZETAS ! k)) len (b * (2 * len)) c;
       Some (k + 1, c) }) [0..<KEM_N div (2 * len)] kc"

function ntt_layers :: "nat \<Rightarrow> nat \<times> poly \<Rightarrow> (nat \<times> poly) option" where
  "ntt_layers len kc = (if len < 2 then Some kc else ntt_layer len kc \<bind> ntt_layers (len div 2))"
  by pat_completeness auto
termination by (relation "measure fst") auto

declare ntt_layers.simps [simp del]

definition poly_ntt :: "poly \<Rightarrow> poly option" where
  "poly_ntt c = do { (k, c) \<leftarrow> ntt_layers 128 (1, c); poly_reduce c }"

definition inv_butterfly :: "int \<Rightarrow> int \<Rightarrow> int \<Rightarrow> (int \<times> int) option" where
  "inv_butterfly zeta t u = do {
     s \<leftarrow> i16 (t + u);
     x \<leftarrow> barrett_reduce s;
     d \<leftarrow> i16 (u - t);
     y \<leftarrow> fqmul zeta d;
     Some (x, y) }"

definition inv_layer :: "nat \<Rightarrow> nat \<times> poly \<Rightarrow> (nat \<times> poly) option" where
  "inv_layer len kc = opt_fold (\<lambda>b (k, c). do {
       c \<leftarrow> pair_loop (inv_butterfly (ZETAS ! k)) len (b * (2 * len)) c;
       Some ((k + (2 ^ 64 - 1)) mod 2 ^ 64, c) }) [0..<KEM_N div (2 * len)] kc"

function inv_layers :: "nat \<Rightarrow> nat \<times> poly \<Rightarrow> (nat \<times> poly) option" where
  "inv_layers len kc = (if len = 0 \<or> 128 < len then Some kc else inv_layer len kc \<bind> inv_layers (2 * len))"
  by pat_completeness auto
termination by (relation "measure (\<lambda>(len, _). 129 - len)") auto

declare inv_layers.simps [simp del]

definition poly_inv_ntt :: "poly \<Rightarrow> poly option" where
  "poly_inv_ntt c = do { (k, c) \<leftarrow> inv_layers 2 (127, c); map_coefficients (\<lambda>x. fqmul x 1441) c }"

section \<open>Products in the transform domain\<close>

definition basemul_pair :: "int \<Rightarrow> int \<Rightarrow> int \<Rightarrow> int \<Rightarrow> int \<Rightarrow> (int \<times> int) option" where
  "basemul_pair a0 a1 b0 b1 zeta = do {
     p \<leftarrow> fqmul a1 b1; q \<leftarrow> fqmul p zeta; r \<leftarrow> fqmul a0 b0; x \<leftarrow> i16 (q + r);
     s \<leftarrow> fqmul a0 b1; t \<leftarrow> fqmul a1 b0; y \<leftarrow> i16 (s + t);
     Some (x, y) }"

text \<open>The four coefficients from \<open>4 * i\<close>: two pairs, under the root and its negation.\<close>

definition poly_basemul :: "poly \<Rightarrow> poly \<Rightarrow> poly option" where
  "poly_basemul a b = opt_fold (\<lambda>i out. do {
     let zeta = ZETAS ! (64 + i);
     (x0, x1) \<leftarrow> basemul_pair (a ! (4 * i)) (a ! (4 * i + 1)) (b ! (4 * i)) (b ! (4 * i + 1)) zeta;
     minus_zeta \<leftarrow> i16 (- zeta);
     (x2, x3) \<leftarrow> basemul_pair (a ! (4 * i + 2)) (a ! (4 * i + 3)) (b ! (4 * i + 2)) (b ! (4 * i + 3)) minus_zeta;
     Some (out[4 * i := x0, 4 * i + 1 := x1, 4 * i + 2 := x2, 4 * i + 3 := x3]) }) [0..<KEM_N div 4] POLY_ZERO"

definition basemul_add :: "poly \<Rightarrow> poly \<Rightarrow> poly \<Rightarrow> poly option" where
  "basemul_add c a b = opt_fold (\<lambda>i c. do {
     let zeta = ZETAS ! (64 + i);
     minus_zeta \<leftarrow> i16 (- zeta);
     opt_fold (\<lambda>(offset, z) c. do {
       let at = 4 * i + offset;
       (x, y) \<leftarrow> basemul_pair (a ! at) (a ! (at + 1)) (b ! at) (b ! (at + 1)) z;
       u \<leftarrow> i16 (c ! at + x);
       v \<leftarrow> i16 (c ! (at + 1) + y);
       Some (c[at := u, at + 1 := v]) }) [(0, zeta), (2, minus_zeta)] c }) [0..<KEM_N div 4] c"

end
