(* ===== verification/Mlkem_Reduce.thy ===== *)
theory Mlkem_Reduce
  imports Mlkem_Poly "HOL-Library.Numeral_Type"
begin

text \<open>
  The reductions of ML-KEM over the integers modulo 3329, which are the type \<open>3329\<close> of the library:
  within the stated bounds nothing overflows, the value is the right one modulo \<open>q\<close>, and its size
  is bounded.
\<close>

section \<open>The integers modulo q\<close>

type_synonym zq = "3329"

abbreviation zq :: "int \<Rightarrow> zq" where
  "zq x \<equiv> of_int x"

lemma zq_eq_iff: "zq x = zq y \<longleftrightarrow> x mod 3329 = y mod 3329"
proof -
  have "zq x = zq y \<longleftrightarrow> Rep_bit1 (zq x) = Rep_bit1 (zq y)"
    by (simp add: Rep_bit1_inject)
  also have "\<dots> \<longleftrightarrow> x mod 3329 = y mod 3329"
    unfolding bit1.of_int_eq bit1.Rep_Abs_mod by simp
  finally show ?thesis .
qed

lemma zq_q [simp]: "zq 3329 = 0"
  using zq_eq_iff [of 3329 0] by simp

lemma zq_cong: "zq x = zq y" if "x = y + 3329 * k"
  unfolding zq_eq_iff that by simp

text \<open>The Montgomery factor \<open>2 ^ 16\<close> has the inverse 169.\<close>

lemma mont_inverse: "zq 169 * zq 65536 = 1" "zq 65536 * zq 169 = 1"
proof -
  have "zq (169 * 65536) = zq 1"
    by (subst zq_eq_iff) simp
  then show "zq 169 * zq 65536 = 1" "zq 65536 * zq 169 = 1"
    by (simp_all only: of_int_mult of_int_1 mult.commute)
qed

section \<open>Casts\<close>

lemma as_i16_range: "- 32768 \<le> as_i16 x" "as_i16 x \<le> 32767"
  using pos_mod_bound [of 65536 "x + 32768"] pos_mod_sign [of 65536 "x + 32768"] by (simp_all add: as_i16_def)

lemma as_i16_id: "- 32768 \<le> x \<Longrightarrow> x \<le> 32767 \<Longrightarrow> as_i16 x = x"
  by (simp add: as_i16_def)

lemma as_i16_mod: "\<exists>k. as_i16 x = x + 65536 * k"
proof -
  have "as_i16 x = x - 65536 * ((x + 32768) div 65536)"
    unfolding as_i16_def using mult_div_mod_eq [of 65536 "x + 32768"] by linarith
  then show ?thesis
    by (intro exI [of _ "- ((x + 32768) div 65536)"]) simp
qed

lemma as_i32_mod: "\<exists>k. as_i32 x = x + 65536 * k"
proof -
  have "as_i32 x = x - 4294967296 * ((x + 2147483648) div 4294967296)"
    unfolding as_i32_def using mult_div_mod_eq [of 4294967296 "x + 2147483648"] by linarith
  then show ?thesis
    by (intro exI [of _ "- (65536 * ((x + 2147483648) div 4294967296))"]) simp
qed

lemma checked [simp]:
  "- 32768 \<le> x \<Longrightarrow> x \<le> 32767 \<Longrightarrow> i16 x = Some x"
  "- 2147483648 \<le> y \<Longrightarrow> y \<le> 2147483647 \<Longrightarrow> i32 y = Some y"
  by (simp_all add: i16_def i32_def)

section \<open>Montgomery\<close>

lemma montgomery_reduce_ok:
  assumes "\<bar>a\<bar> \<le> 109084672"
  obtains r where "montgomery_reduce a = Some r" "zq r = zq 169 * zq a" "65536 * \<bar>r\<bar> \<le> \<bar>a\<bar> + 109084672"
proof -
  define t where "t = as_i16 (as_i32 (as_i16 a * Q_INV))"
  obtain k1 k2 k3 where k: "as_i16 a = a + 65536 * k1" "as_i32 (as_i16 a * Q_INV) = as_i16 a * Q_INV + 65536 * k2"
    "t = as_i32 (as_i16 a * Q_INV) + 65536 * k3"
    using as_i16_mod as_i32_mod unfolding t_def by metis
  define j where "j = 3329 * 3327 * k1 - 3329 * (k2 + k3) + 169 * a"
  have t: "t * 3329 = a - 65536 * j"
    using k by (simp add: Q_INV_def j_def algebra_simps)
  have "- 32768 \<le> t" "t \<le> 32767"
    using as_i16_range by (simp_all add: t_def)
  then have b: "\<bar>t * 3329\<bar> \<le> 109084672"
    by (simp add: abs_le_iff)
  have j: "65536 * j = a - t * 3329"
    using t by simp
  have d: "(a - t * 3329) div 65536 = j"
    by (simp flip: j)
  have "65536 * \<bar>j\<bar> \<le> \<bar>a\<bar> + 109084672"
    using j b by (simp add: abs_if split: if_splits)
  moreover have "montgomery_reduce a = Some j"
  proof -
    have "\<bar>j\<bar> \<le> 3329"
      using assms calculation by linarith
    then show ?thesis
      using assms b d by (simp add: montgomery_reduce_def KEM_Q_def as_i16_id flip: t_def)
  qed
  moreover have "zq j = zq 169 * zq a"
  proof -
    have "zq 65536 * zq j = zq a - zq t * zq 3329"
      using arg_cong [OF j, of zq] by (simp only: of_int_mult of_int_diff)
    then have "zq 169 * (zq 65536 * zq j) = zq 169 * zq a"
      by (simp only: zq_q mult_zero_right diff_zero)
    then show ?thesis
      by (simp only: mult.assoc [symmetric] mont_inverse mult_1)
  qed
  ultimately show ?thesis
    using that by blast
qed

lemma fqmul_ok:
  assumes "\<bar>a * b\<bar> \<le> 109084672"
  obtains r where "fqmul a b = Some r" "zq r = zq 169 * zq a * zq b" "\<bar>r\<bar> \<le> 3329" "65536 * \<bar>r\<bar> \<le> \<bar>a * b\<bar> + 109084672"
proof -
  obtain r where r: "montgomery_reduce (a * b) = Some r" "zq r = zq 169 * zq (a * b)" "65536 * \<bar>r\<bar> \<le> \<bar>a * b\<bar> + 109084672"
    using montgomery_reduce_ok [OF assms] .
  have "\<bar>r\<bar> \<le> 3329"
    using r(3) assms by linarith
  then show ?thesis
    using r assms by (intro that [of r]) (simp_all add: fqmul_def mult.assoc)
qed

section \<open>Barrett\<close>

lemma barrett_reduce_ok:
  assumes "- 32768 \<le> a" "a \<le> 32767"
  obtains r where "barrett_reduce a = Some r" "zq r = zq a" "- 1665 \<le> r" "r \<le> 1665"
proof -
  define t where "t = (20158 * a + 33554432) div 67108864"
  have t: "67108864 * t \<le> 20158 * a + 33554432" "20158 * a + 33554432 < 67108864 * t + 67108864"
    using mult_div_mod_eq [of 67108864 "20158 * a + 33554432"] pos_mod_bound [of 67108864 "20158 * a + 33554432"]
      pos_mod_sign [of 67108864 "20158 * a + 33554432"] unfolding t_def by linarith+
  have r: "- 1665 \<le> a - t * 3329" "a - t * 3329 \<le> 1665"
    using t assms by linarith+
  have "- 11 \<le> t" "t \<le> 11"
    using t assms by linarith+
  then have "barrett_reduce a = Some (a - t * 3329)"
    using assms r by (simp add: barrett_reduce_def KEM_Q_def Let_def as_i16_id flip: t_def)
  moreover have "zq (a - t * 3329) = zq a"
    by (rule zq_cong [of _ _ "- t"]) simp
  ultimately show ?thesis
    using r that by blast
qed

lemma normalize_ok:
  assumes "- 32768 \<le> a" "a \<le> 32767"
  shows "normalize_coefficient a = Some (a mod 3329)"
proof -
  obtain r where r: "barrett_reduce a = Some r" "zq r = zq a" "- 1665 \<le> r" "r \<le> 1665"
    using barrett_reduce_ok [OF assms] .
  have m: "r mod 3329 = a mod 3329"
    using r(2) by (simp add: zq_eq_iff)
  show ?thesis
  proof (cases "r < 0")
    case True
    then have "r div 32768 = - 1"
      using r(3) by (intro int_div_pos_eq [of _ _ _ "r + 32768"]) simp_all
    moreover have "(r + 3329) mod 3329 = r + 3329"
      using True r(3) by (intro mod_pos_pos_trivial) simp_all
    then have "r + 3329 = a mod 3329"
      using m by simp
    ultimately show ?thesis
      using r by (simp add: normalize_coefficient_def KEM_Q_def)
  next
    case False
    then have "r div 32768 = 0" "r = a mod 3329"
      using m r(4) by simp_all
    then show ?thesis
      using r(1,4) False by (simp add: normalize_coefficient_def KEM_Q_def)
  qed
qed

end
