(* ===== verification/Mlkem_Compress.thy ===== *)
theory Mlkem_Compress
  imports Mlkem_Reduce
begin

text \<open>
  The lossy compression of ML-KEM, \<open>compress\<close>, \<open>decompress\<close> and \<open>reduce_12\<close> of
  \<open>crates/ic-mlkem/src/encode.rs\<close>: the quotient by \<open>q\<close> that the code estimates by a multiplication is
  exact, and compression followed by decompression is off by at most half a step.
\<close>

section \<open>Operations\<close>

definition u32_checked :: "int \<Rightarrow> int option" where
  "u32_checked x = (if 0 \<le> x \<and> x < 2 ^ 32 then Some x else None)"

definition as_u16 :: "int \<Rightarrow> int" where
  "as_u16 x = x mod 2 ^ 16"

definition as_u32 :: "int \<Rightarrow> int" where
  "as_u32 x = x mod 2 ^ 32"

text \<open>Debug builds assert the range of \<open>d\<close>; a left shift drops the bits it shifts out.\<close>

definition compress :: "int \<Rightarrow> nat \<Rightarrow> int option" where
  "compress x d = (if \<not> (1 \<le> d \<and> d \<le> 12) then None
     else do {
       t \<leftarrow> u32_checked (as_u32 (as_u32 x * 2 ^ d) + as_u32 KEM_Q div 2);
       p \<leftarrow> u32_checked (t div 2 ^ 8 * 40318);
       let e = p div 2 ^ 19;
       m \<leftarrow> u32_checked (e * as_u32 KEM_Q);
       r \<leftarrow> u32_checked (t - m);
       e \<leftarrow> u32_checked (e + as_u32 (as_u32 KEM_Q - 1 - r) div 2 ^ 31);
       Some (as_u16 (e AND (2 ^ d - 1))) })"

definition decompress :: "int \<Rightarrow> nat \<Rightarrow> int option" where
  "decompress y d = (if \<not> (1 \<le> d \<and> d \<le> 12) then None
     else do {
       p \<leftarrow> u32_checked (y * as_u32 KEM_Q);
       s \<leftarrow> u32_checked (p + 2 ^ (d - 1));
       Some (as_i16 (s div 2 ^ d)) })"

definition reduce_12 :: "int \<Rightarrow> int option" where
  "reduce_12 x = do {
     r \<leftarrow> i16 (as_i16 (x AND 0x0fff) - KEM_Q);
     i16 (r + (r div 2 ^ 15 AND KEM_Q)) }"

section \<open>Compression is the rounded quotient\<close>

lemma u32_checked_simp [simp]: "0 \<le> x \<Longrightarrow> x < 4294967296 \<Longrightarrow> u32_checked x = Some x"
  by (simp add: u32_checked_def)

lemma twelve_cases:
  assumes "1 \<le> d" "d \<le> (12::nat)"
  obtains "d = 1" | "d = 2" | "d = 3" | "d = 4" | "d = 5" | "d = 6" | "d = 7" | "d = 8" | "d = 9" | "d = 10" | "d = 11" | "d = 12"
proof -
  have "d \<in> set [1, 2, 3, 4, 5, 6, 7, 8, 9, 10, 11, 12]"
    using assms by (simp add: eval_nat_numeral le_Suc_eq)
  then show ?thesis
    using that by auto
qed

text \<open>The estimate: the true quotient or one less.\<close>

lemma estimate_bounds:
  fixes t a e :: int
  assumes "a = t div 256" "e = a * 40318 div 524288" "0 \<le> t" "t \<le> 16777215"
    and low: "128 \<le> t - 256 * a \<and> a \<le> 53260 \<or> a \<le> 1670"
  shows "0 \<le> e" "e \<le> t div 3329" "t - e * 3329 \<le> 6657" "e \<le> 5040" "0 \<le> t - e * 3329"
proof -
  have a: "256 * a \<le> t" "t \<le> 256 * a + 255" "0 \<le> a"
    using assms mult_div_mod_eq [of 256 t] pos_mod_bound [of 256 t] pos_mod_sign [of 256 t] by linarith+
  have e: "524288 * e \<le> 40318 * a" "40318 * a < 524288 * e + 524288"
    using mult_div_mod_eq [of 524288 "a * 40318"] pos_mod_bound [of 524288 "a * 40318"] pos_mod_sign [of 524288 "a * 40318"]
    unfolding assms(2) by linarith+
  show "0 \<le> e"
    using a(3) by (simp add: assms(2))
  show "t - e * 3329 \<le> 6657"
    using a e by linarith
  show "e \<le> 5040"
    using a e assms(4) by linarith
  show "0 \<le> t - e * 3329"
    using low
  proof
    assume "128 \<le> t - 256 * a \<and> a \<le> 53260"
    then show ?thesis
      using a e by linarith
  next
    assume small: "a \<le> 1670"
    show ?thesis
    proof (cases "e = 0")
      case False
      then have "1 \<le> e"
        using \<open>0 \<le> e\<close> by linarith
      then have "\<not> a \<le> 13 * e"
        using e by linarith
      then show ?thesis
        using a e small by linarith
    qed (use assms(3) in simp)
  qed
  then show "e \<le> t div 3329"
    by linarith
qed

lemma compress_steps:
  assumes "1 \<le> d" "d \<le> 12" "as_u32 (as_u32 x * 2 ^ d) + as_u32 KEM_Q div 2 = t" "a = t div 256" "e = a * 40318 div 524288"
    "0 \<le> t" "t \<le> 13633152" "0 \<le> a" "a \<le> 53260" "0 \<le> e" "e \<le> 5040" "0 \<le> t - e * 3329" "e + s = t div 3329"
    "as_u32 (as_u32 KEM_Q - 1 - (t - e * 3329)) div 2 ^ 31 = s"
  shows "compress x d = Some (as_u16 (t div 3329 AND (2 ^ d - 1)))"
proof -
  have q: "as_u32 KEM_Q = 3329"
    by (simp add: as_u32_def KEM_Q_def)
  have "0 \<le> t div 3329" "t div 3329 < 4294967296"
    using assms(6,7) by linarith+
  then have "u32_checked (t div 3329) = Some (t div 3329)"
    by (rule u32_checked_simp)
  then have u: "u32_checked (e + s) = Some (t div 3329)"
    unfolding assms(13) .
  have v: "u32_checked t = Some t" "u32_checked (a * 40318) = Some (a * 40318)" "u32_checked (e * 3329) = Some (e * 3329)"
    "u32_checked (t - e * 3329) = Some (t - e * 3329)"
    using assms(6-12) by (intro u32_checked_simp; linarith)+
  have n: "(2::int) ^ 8 = 256" "(2::int) ^ 19 = 524288"
    by simp_all
  have d: "(\<not> (1 \<le> d \<and> d \<le> 12)) = False"
    using assms(1,2) by simp
  show ?thesis
    by (simp only: compress_def d if_False q assms(3) [unfolded q] assms(14) [unfolded q] v u bind.bind_lunit n
        assms(4) [symmetric] Let_def assms(5) [symmetric])
qed

lemma compress_ok:
  assumes "0 \<le> x" "x < KEM_Q" "1 \<le> d" "d \<le> 12"
  shows "compress x d = Some ((x * 2 ^ d + 1664) div 3329 mod 2 ^ d)"
proof -
  define D :: int where "D = 2 ^ d"
  have D: "2 \<le> D" "D \<le> 4096"
    unfolding D_def using assms(3) power_increasing [of 1 d "2::int"] power_increasing [OF assms(4), of "2::int"] by simp_all
  have x: "0 \<le> x" "x \<le> 3328"
    using assms(1,2) by (simp_all add: KEM_Q_def)
  have xD: "0 \<le> x * D" "x * D \<le> 3328 * D"
    using x D by (simp_all add: mult_right_mono)
  define t where "t = x * D + 1664"
  define a where "a = t div 256"
  define e where "e = a * 40318 div 524288"
  have t: "0 \<le> t" "t \<le> 13633152"
    using xD mult_mono [OF x(2) D(2)] x D by (simp_all add: t_def)
  have low: "128 \<le> t - 256 * a \<and> a \<le> 53260 \<or> a \<le> 1670"
  proof (cases "d \<le> 7")
    case True
    then have "D \<le> 128"
      unfolding D_def using power_increasing [of d 7 "2::int"] by simp
    then have "t \<le> 427648"
      using xD by (simp add: t_def)
    then show ?thesis
      unfolding a_def by linarith
  next
    case False
    then have "D = 2 ^ (8 + (d - 8))"
      by (simp add: D_def)
    then have "D = 256 * 2 ^ (d - 8)"
      by (simp only: power_add) simp
    then have "t = 256 * (x * 2 ^ (d - 8) + 6) + 128"
      by (simp add: t_def)
    then have "a = x * 2 ^ (d - 8) + 6" "t = 256 * a + 128"
      unfolding a_def by simp_all
    then have "128 \<le> t - 256 * a" "a \<le> 53260"
      using t by linarith+
    then show ?thesis
      by simp
  qed
  note b = estimate_bounds [OF a_def e_def t(1) _ low]
  have e: "0 \<le> e" "e \<le> t div 3329" "t - e * 3329 \<le> 6657" "e \<le> 5040" "0 \<le> t - e * 3329"
    using b t by simp_all
  define s :: int where "s = (if t - e * 3329 < 3329 then 0 else 1)"
  have "0 \<le> a" "a \<le> 53260"
    using t unfolding a_def by linarith+
  moreover have "as_u32 (as_u32 x * 2 ^ d) + as_u32 KEM_Q div 2 = t"
  proof -
    have "x * D mod 4294967296 = x * D" "x mod 4294967296 = x"
      using x t xD by (simp_all add: t_def)
    then show ?thesis
      by (simp add: as_u32_def t_def KEM_Q_def flip: D_def)
  qed
  moreover have "as_u32 (as_u32 KEM_Q - 1 - (t - e * 3329)) div 2 ^ 31 = s \<and> e + s = t div 3329"
  proof (cases "t - e * 3329 < 3329")
    case True
    then have "as_u32 (as_u32 KEM_Q - 1 - (t - e * 3329)) = 3328 - (t - e * 3329)"
      using e by (simp add: as_u32_def KEM_Q_def)
    moreover have "t div 3329 = e"
      using True e by linarith
    ultimately show ?thesis
      using True e by (simp add: s_def)
  next
    case False
    have "(3328 - (t - e * 3329)) mod 4294967296 = 3328 - (t - e * 3329) + 4294967296"
      using False e by (subst mod_add_self2 [symmetric], intro mod_pos_pos_trivial) linarith+
    then have "as_u32 (as_u32 KEM_Q - 1 - (t - e * 3329)) = 3328 - (t - e * 3329) + 4294967296"
      by (simp add: as_u32_def KEM_Q_def)
    moreover have "(3328 - (t - e * 3329) + 4294967296) div 2147483648 = 1" "t div 3329 = e + 1"
      using False e by linarith+
    ultimately show ?thesis
      using False by (simp add: s_def)
  qed
  ultimately have "compress x d = Some (as_u16 (t div 3329 AND (2 ^ d - 1)))"
    using compress_steps [OF assms(3,4) _ a_def e_def t, where s = s] e by blast
  moreover have "t div 3329 AND (2 ^ d - 1) = t div 3329 mod D"
    by (simp add: D_def mask_eq_exp_minus_1 [symmetric] take_bit_eq_mask [symmetric] take_bit_eq_mod)
  moreover have "as_u16 (t div 3329 mod D) = t div 3329 mod D"
  proof -
    have "0 \<le> t div 3329 mod D" "t div 3329 mod D < D"
      using D by simp_all
    moreover have "as_u16 u = u" if "0 \<le> u" "u < D" for u
      using that D by (simp add: as_u16_def)
    ultimately show ?thesis
      by blast
  qed
  ultimately have "compress x d = Some (t div 3329 mod D)"
    by (simp only:)
  then show ?thesis
    by (simp only: t_def D_def)
qed

lemma compress_rounds:
  assumes "0 \<le> x" "x < KEM_Q" "1 \<le> d" "d \<le> 12"
  shows "compress x d = Some ((2 * 2 ^ d * x + KEM_Q) div (2 * KEM_Q) mod 2 ^ d)"
proof -
  have "(2 * y + 3329) div 6658 = (y + 1664) div 3329" for y :: int
    by linarith
  from this [of "x * 2 ^ d"] show ?thesis
    unfolding compress_ok [OF assms] by (simp add: KEM_Q_def ac_simps)
qed

section \<open>Decompression, and the error of both\<close>

lemma int_le_div: "M * z \<le> N \<Longrightarrow> 0 < M \<Longrightarrow> z \<le> N div M" for z M N :: int
  using zdiv_mono1 [of "M * z" N M] by simp

lemma decompress_ok:
  assumes "0 \<le> y" "y < 2 ^ d" "1 \<le> d" "d \<le> 12"
  obtains x where "decompress y d = Some x" "0 \<le> x" "x \<le> KEM_Q" "x = (2 * KEM_Q * y + 2 ^ d) div (2 * 2 ^ d)"
proof -
  define H :: int where "H = 2 ^ (d - 1)"
  have d2: "2 ^ d = 2 * H"
    unfolding H_def using assms(3) by (simp flip: power_Suc)
  have H: "1 \<le> H" "H \<le> 2048"
    unfolding H_def using power_increasing [of "d - 1" 11 "2::int"] assms(4) by simp_all
  have y: "y \<le> 2 * H - 1"
    using assms(2) unfolding d2 by linarith
  define x where "x = (y * 3329 + H) div (2 * H)"
  have "2 * H * x \<le> y * 3329 + H"
    using mult_div_mod_eq [of "2 * H" "y * 3329 + H"] pos_mod_sign [of "2 * H" "y * 3329 + H"] H unfolding x_def by linarith
  moreover have "2 * H * 3330 \<le> 2 * H * x" if "3330 \<le> x"
    using that H by (intro mult_left_mono) simp_all
  ultimately have "x < 3330"
    using y H by (cases "3330 \<le> x") linarith+
  moreover have "0 \<le> x"
    unfolding x_def using assms(1) H by (intro pos_imp_zdiv_nonneg_iff [THEN iffD2]) simp_all
  moreover have "decompress y d = Some (as_i16 x)"
    using assms y H by (simp add: decompress_def d2 as_u32_def KEM_Q_def x_def H_def [symmetric] del: One_nat_def)
  moreover have "(2 * KEM_Q * y + 2 ^ d) div (2 * 2 ^ d) = x"
    unfolding d2 KEM_Q_def x_def using div_mult_mult1 [of 2 "y * 3329 + H" "2 * H"] by (simp add: algebra_simps)
  ultimately show ?thesis
    by (intro that [of x]) (simp_all add: as_i16_id KEM_Q_def)
qed

text \<open>The distance of a coefficient to what its compression decompresses to is at most \<open>round (q / 2 ^ (d + 1))\<close>, modulo \<open>q\<close>.\<close>

lemma compress_decompress:
  assumes "0 \<le> x" "x < KEM_Q" "1 \<le> d" "d \<le> 12"
  obtains c y where "compress x d = Some c" "0 \<le> c" "c < 2 ^ d" "decompress c d = Some y"
    "\<bar>x - y\<bar> \<le> (KEM_Q + 2 ^ d) div (2 * 2 ^ d) \<or> \<bar>x - KEM_Q - y\<bar> \<le> (KEM_Q + 2 ^ d) div (2 * 2 ^ d)"
proof -
  define D :: int where "D = 2 ^ d"
  have D: "2 \<le> D" "D \<le> 4096"
    unfolding D_def using assms(3) power_increasing [of 1 d "2::int"] power_increasing [OF assms(4), of "2::int"] by simp_all
  define c0 where "c0 = (x * D + 1664) div 3329"
  have c0: "3329 * c0 \<le> x * D + 1664" "x * D + 1664 < 3329 * c0 + 3329"
    unfolding c0_def by linarith+
  have "0 \<le> x * D" "x * D \<le> 3328 * D"
    using assms(1,2) D by (simp_all add: mult_right_mono KEM_Q_def)
  then have range: "0 \<le> c0" "c0 \<le> D"
    using c0 D by linarith+
  define c where "c = c0 mod D"
  have c: "0 \<le> c" "c < D"
    using D by (simp_all add: c_def)
  have comp: "compress x d = Some c"
    using compress_ok [OF assms] by (simp add: c_def c0_def D_def)
  obtain y where y: "decompress c d = Some y" "0 \<le> y" "y = (6658 * c + D) div (2 * D)"
    using decompress_ok [of c d] c assms by (auto simp: D_def KEM_Q_def)
  have y2: "2 * D * y \<le> 6658 * c + D" "6658 * c + D < 2 * D * y + 2 * D"
    using mult_div_mod_eq [of "2 * D" "6658 * c + D"] pos_mod_sign [of "2 * D" "6658 * c + D"] pos_mod_bound [of "2 * D" "6658 * c + D"] D
    unfolding y(3) by linarith+
  have le: "\<bar>z\<bar> \<le> (3329 + D) div (2 * D)" if "2 * D * z \<le> 3329 + D" "2 * D * (- z) \<le> 3329 + D" for z
    using int_le_div [OF that(1)] int_le_div [OF that(2)] D by (simp add: abs_le_iff)
  have "\<bar>x - y\<bar> \<le> (3329 + D) div (2 * D) \<or> \<bar>x - 3329 - y\<bar> \<le> (3329 + D) div (2 * D)"
  proof (cases "c0 = D")
    case True
    then have "c = 0"
      by (simp add: c_def)
    then have "2 * D * y < 2 * D * 1"
      using y2(1) D by linarith
    then have "y = 0"
      using y(2) D by (subst (asm) mult_less_cancel_left_pos) simp_all
    then have "\<bar>x - 3329 - y\<bar> \<le> (3329 + D) div (2 * D)"
      using c0 True D assms(2) \<open>x * D \<le> 3328 * D\<close> by (intro le) (simp_all add: algebra_simps)
    then show ?thesis ..
  next
    case False
    then have "c = c0"
      using range by (simp add: c_def)
    then have "\<bar>x - y\<bar> \<le> (3329 + D) div (2 * D)"
      using c0 y2 by (intro le) (simp_all add: algebra_simps)
    then show ?thesis ..
  qed
  then show ?thesis
    using that comp c y(1) by (simp add: D_def KEM_Q_def)
qed

lemma reduce_12_ok:
  assumes "0 \<le> x" "x < 2 ^ 16"
  shows "reduce_12 x = Some (x mod 4096 mod KEM_Q)"
proof -
  define m where "m = x mod 4096"
  have m: "0 \<le> m" "m < 4096" "x AND 0x0fff = m"
    using take_bit_eq_mask [of 12 x] by (simp_all add: m_def take_bit_eq_mod mask_eq_exp_minus_1)
  have r: "as_i16 (x AND 0x0fff) - KEM_Q = m - 3329"
    using m by (simp add: as_i16_id KEM_Q_def)
  show ?thesis
  proof (cases "m < 3329")
    case True
    then have "(m - 3329) div 32768 = - 1"
      using m by (intro int_div_pos_eq [of _ _ _ "m - 3329 + 32768"]) simp_all
    then show ?thesis
      using True m r by (simp add: reduce_12_def KEM_Q_def flip: m_def)
  next
    case False
    then have "(m - 3329) div 32768 = 0" "m mod 3329 = m - 3329"
      using m mod_pos_pos_trivial [of "m - 3329" 3329] by simp_all
    then show ?thesis
      using False m r by (simp add: reduce_12_def KEM_Q_def flip: m_def)
  qed
qed

end
