(* ===== verification/Mlkem_Zetas.thy ===== *)
theory Mlkem_Zetas
  imports Mlkem_Reduce
begin

text \<open>
  The table of roots: its values, and the three relations between them that make the transform a
  homomorphism and its inverse an inverse.
\<close>

lemma upt_128: "[0..<128] = [0, 1, 2, 3, 4, 5, 6, 7, 8, 9, 10, 11, 12, 13, 14, 15, 16, 17, 18, 19, 20, 21, 22, 23, 24, 25, 26, 27,
    28, 29, 30, 31, 32, 33, 34, 35, 36, 37, 38, 39, 40, 41, 42, 43, 44, 45, 46, 47, 48, 49, 50, 51, 52, 53,
    54, 55, 56, 57, 58, 59, 60, 61, 62, 63, 64, 65, 66, 67, 68, 69, 70, 71, 72, 73, 74, 75, 76, 77, 78, 79,
    80, 81, 82, 83, 84, 85, 86, 87, 88, 89, 90, 91, 92, 93, 94, 95, 96, 97, 98, 99, 100, 101, 102, 103, 104,
    105, 106, 107, 108, 109, 110, 111, 112, 113, 114, 115, 116, 117, 118, 119, 120, 121, 122, 123, 124, 125,
    126, 127]"
  by code_simp

lemma bitrev_table: "map bitrev7 [0..<128] = [0, 64, 32, 96, 16, 80, 48, 112, 8, 72, 40, 104, 24, 88, 56, 120, 4, 68, 36, 100, 20, 84, 52, 116, 12,
    76, 44, 108, 28, 92, 60, 124, 2, 66, 34, 98, 18, 82, 50, 114, 10, 74, 42, 106, 26, 90, 58, 122, 6, 70,
    38, 102, 22, 86, 54, 118, 14, 78, 46, 110, 30, 94, 62, 126, 1, 65, 33, 97, 17, 81, 49, 113, 9, 73, 41,
    105, 25, 89, 57, 121, 5, 69, 37, 101, 21, 85, 53, 117, 13, 77, 45, 109, 29, 93, 61, 125, 3, 67, 35, 99,
    19, 83, 51, 115, 11, 75, 43, 107, 27, 91, 59, 123, 7, 71, 39, 103, 23, 87, 55, 119, 15, 79, 47, 111,
    31, 95, 63, 127]"
proof -
  have "[0..<7] = [0, 1, 2, 3, 4, 5, 6]"
    by (simp add: upt_rec)
  then show ?thesis
    unfolding upt_128 list.map bitrev7_def by (simp only: fold_simps) simp
qed

fun powers :: "nat \<Rightarrow> int \<Rightarrow> int list" where
  "powers 0 a = []"
| "powers (Suc n) a = a # powers n (a * 17 mod 3329)"

lemma powers_table: "powers 128 1 = [1, 17, 289, 1584, 296, 1703, 2319, 2804, 1062, 1409, 650, 1063, 1426, 939, 2647, 1722, 2642, 1637, 1197,
    375, 3046, 1847, 1438, 1143, 2786, 756, 2865, 2099, 2393, 733, 2474, 2110, 2580, 583, 3253, 2037, 1339,
    2789, 807, 403, 193, 3281, 2513, 2773, 535, 2437, 1481, 1874, 1897, 2288, 2277, 2090, 2240, 1461, 1534,
    2775, 569, 3015, 1320, 2466, 1974, 268, 1227, 885, 1729, 2761, 331, 2298, 2447, 1651, 1435, 1092, 1919,
    2662, 1977, 319, 2094, 2308, 2617, 1212, 630, 723, 2304, 2549, 56, 952, 2868, 2150, 3260, 2156, 33, 561,
    2879, 2337, 3110, 2935, 3289, 2649, 1756, 3220, 1476, 1789, 452, 1026, 797, 233, 632, 757, 2882, 2388,
    648, 1029, 848, 1100, 2055, 1645, 1333, 2687, 2402, 886, 1746, 3050, 1915, 2594, 821, 641, 910, 2154]"
  by code_simp

lemma nth_powers:
  "i < n \<Longrightarrow> powers n (fold (\<lambda>_ acc. acc * 17 mod 3329) ks a) ! i = fold (\<lambda>_ acc. acc * 17 mod 3329) (ks @ replicate i 0) a"
proof (induction n arbitrary: ks i)
  case (Suc n)
  show ?case
  proof (cases i)
    case (Suc j)
    then have "powers n (fold (\<lambda>_ acc. acc * 17 mod 3329) (ks @ [0]) a) ! j = fold (\<lambda>_ acc. acc * 17 mod 3329) ((ks @ [0]) @ replicate j 0) a"
      using Suc.prems by (intro Suc.IH) simp
    then show ?thesis
      using Suc by simp
  qed simp
qed simp

lemma fold_ignores: "fold (\<lambda>_. f) xs a = fold (\<lambda>_. f) ys a" if "length xs = length ys"
  using that by (induction xs ys arbitrary: a rule: list_induct2) simp_all

lemma ZETAS_powers: "ZETAS = map (\<lambda>r. as_i16 (powers 128 1 ! r * 65536 mod 3329)) (map bitrev7 [0..<128])"
proof -
  have "\<forall>r\<in>set (map bitrev7 [0..<128]). r < 128"
    unfolding bitrev_table by simp
  then have "fold (\<lambda>_ acc. acc * 17 mod 3329) [0..<bitrev7 i] 1 = powers 128 1 ! bitrev7 i" if "i < 128" for i
    using that nth_powers [of "bitrev7 i" 128 "[]" 1] fold_ignores [of "[0..<bitrev7 i]" "replicate (bitrev7 i) 0" "\<lambda>acc. acc * 17 mod 3329" 1]
    by (simp del: upt_rec_numeral)
  then show ?thesis
    unfolding ZETAS_def compute_zetas_def KEM_Q_def Let_def map_map by (intro map_cong) simp_all
qed

lemma ZETAS_values: "ZETAS = [2285, 2571, 2970, 1812, 1493, 1422, 287, 202, 3158, 622, 1577, 182, 962, 2127, 1855, 1468, 573, 2004,
    264, 383, 2500, 1458, 1727, 3199, 2648, 1017, 732, 608, 1787, 411, 3124, 1758, 1223, 652, 2777, 1015,
    2036, 1491, 3047, 1785, 516, 3321, 3009, 2663, 1711, 2167, 126, 1469, 2476, 3239, 3058, 830, 107, 1908,
    3082, 2378, 2931, 961, 1821, 2604, 448, 2264, 677, 2054, 2226, 430, 555, 843, 2078, 871, 1550, 105, 422,
    587, 177, 3094, 3038, 2869, 1574, 1653, 3083, 778, 1159, 3182, 2552, 1483, 2727, 1119, 1739, 644, 2457,
    349, 418, 329, 3173, 3254, 817, 1097, 603, 610, 1322, 2044, 1864, 384, 2114, 3193, 1218, 1994, 2455,
    220, 2142, 1670, 2144, 1799, 2051, 794, 1819, 2475, 2459, 478, 3221, 3021, 996, 991, 958, 1869, 1522,
    1628]"
  unfolding ZETAS_powers bitrev_table powers_table as_i16_def by simp

lemma length_ZETAS: "length ZETAS = 128"
  by (simp add: ZETAS_def compute_zetas_def del: upt_rec_numeral)

lemma ZETAS_range: "k < 128 \<Longrightarrow> 0 \<le> ZETAS ! k \<and> ZETAS ! k \<le> 3328"
proof -
  have "list_all (\<lambda>z. 0 \<le> z \<and> z \<le> 3328) ZETAS"
    unfolding ZETAS_values by simp
  moreover assume "k < 128"
  ultimately show ?thesis
    by (simp add: list_all_length length_ZETAS)
qed

text \<open>The root itself, out of Montgomery form.\<close>

definition zeta :: "nat \<Rightarrow> zq" where
  "zeta k = zq 169 * zq (ZETAS ! k)"

lemma zeta_square_table:
  "list_all (\<lambda>k. 169 * (ZETAS ! (2 * k)) ^ 2 mod 3329 = ZETAS ! k mod 3329 \<and>
     169 * (ZETAS ! (2 * k + 1)) ^ 2 mod 3329 = - (ZETAS ! k) mod 3329) [1..<64]"
  unfolding ZETAS_values by code_simp

lemma zeta_pair_table:
  "list_all (\<lambda>l. list_all (\<lambda>b. 169 * 169 * ZETAS ! (2 ^ l + b) * ZETAS ! (2 * 2 ^ l - 1 - b) mod 3329 = 3328) [0..<2 ^ l]) [0..<7]"
  unfolding ZETAS_values by code_simp

lemma zeta_square:
  assumes "1 \<le> k" "k < 64"
  shows "zeta (2 * k) * zeta (2 * k) = zeta k" "zeta (2 * k + 1) * zeta (2 * k + 1) = - zeta k"
proof -
  have t: "169 * (ZETAS ! (2 * k)) ^ 2 mod 3329 = ZETAS ! k mod 3329"
    "169 * (ZETAS ! (2 * k + 1)) ^ 2 mod 3329 = - (ZETAS ! k) mod 3329"
    using zeta_square_table assms by (auto simp: list_all_iff simp del: upt_rec_numeral)
  have "zq 169 * zq (169 * (ZETAS ! (2 * k)) ^ 2) = zq 169 * zq (ZETAS ! k)"
    "zq 169 * zq (169 * (ZETAS ! (2 * k + 1)) ^ 2) = zq 169 * zq (- (ZETAS ! k))"
    using t by (simp_all only: zq_eq_iff [symmetric])
  then show "zeta (2 * k) * zeta (2 * k) = zeta k" "zeta (2 * k + 1) * zeta (2 * k + 1) = - zeta k"
    by (simp_all only: zeta_def of_int_mult of_int_power of_int_minus power2_eq_square mult_minus_left mult_minus_right ac_simps)
qed

lemma zeta_1: "zeta 1 * zeta 1 = - 1"
proof -
  have "zq (169 * 169 * (ZETAS ! 1 * ZETAS ! 1)) = zq (- 1)"
    unfolding zq_eq_iff ZETAS_values by simp
  then show ?thesis
    by (simp only: zeta_def of_int_mult of_int_minus of_int_1 ac_simps)
qed

lemma zeta_inverse:
  assumes "l < 7" "b < 2 ^ l"
  shows "zeta (2 * 2 ^ l - 1 - b) * zeta (2 ^ l + b) = - 1"
proof -
  have "169 * 169 * ZETAS ! (2 ^ l + b) * ZETAS ! (2 * 2 ^ l - 1 - b) mod 3329 = 3328"
    using zeta_pair_table assms by (auto simp: list_all_iff simp del: upt_rec_numeral)
  then have "zq (169 * 169 * ZETAS ! (2 ^ l + b) * ZETAS ! (2 * 2 ^ l - 1 - b)) = zq (- 1)"
    by (simp only: zq_eq_iff) simp
  then show ?thesis
    by (simp only: zeta_def of_int_mult of_int_minus of_int_1 ac_simps)
qed

end
