(* ===== verification/Mlkem_Transform.thy ===== *)
theory Mlkem_Transform
  imports Mlkem_Zetas
begin

text \<open>
  The transform over the integers modulo 3329, without machine arithmetic: a layer splits every
  product modulo \<open>X ^ (2 * m) - z * z\<close> into one modulo \<open>X ^ m - z\<close> and one modulo \<open>X ^ m + z\<close>, so
  that seven layers turn the product modulo \<open>X ^ 256 + 1\<close> into 128 products of linear polynomials;
  the layers of the inverse undo them up to a factor of two.
\<close>

section \<open>Products modulo a binomial\<close>

text \<open>The coefficient \<open>r\<close> of the product of \<open>f\<close> and \<open>g\<close> modulo \<open>X ^ n - w\<close>.\<close>

definition conv :: "nat \<Rightarrow> zq \<Rightarrow> (nat \<Rightarrow> zq) \<Rightarrow> (nat \<Rightarrow> zq) \<Rightarrow> nat \<Rightarrow> zq" where
  "conv n w f g r = (\<Sum>s<n. \<Sum>t<n. (if s + t = r then 1 else if s + t = r + n then w else 0) * (f s * g t))"

lemma sum_halves: "(\<Sum>s<2 * m. h s) = (\<Sum>s<m. h s + h (s + m))" for h :: "nat \<Rightarrow> 'a::comm_monoid_add"
proof -
  have "(\<Sum>s<m + k. h s) = (\<Sum>s<m. h s) + (\<Sum>s<k. h (m + s))" for k
    by (induction k) (simp_all add: add.assoc)
  then show ?thesis
    by (simp add: sum.distrib add.commute mult_2)
qed

lemma conv_split:
  assumes "r < m" "z * z = w"
  shows "conv m z (\<lambda>s. f s + z * f (s + m)) (\<lambda>s. g s + z * g (s + m)) r = conv (2 * m) w f g r + z * conv (2 * m) w f g (r + m)"
proof -
  define c where "c n w r s t = (if s + t = r then 1 else if s + t = r + n then w else 0 :: zq)" for n w and r s t :: nat
  have "c m z r s t * ((f s + z * f (s + m)) * (g t + z * g (t + m))) =
     c (2 * m) w r s t * (f s * g t) + c (2 * m) w r s (t + m) * (f s * g (t + m))
       + (c (2 * m) w r (s + m) t * (f (s + m) * g t) + c (2 * m) w r (s + m) (t + m) * (f (s + m) * g (t + m)))
     + z * (c (2 * m) w (r + m) s t * (f s * g t) + c (2 * m) w (r + m) s (t + m) * (f s * g (t + m))
       + (c (2 * m) w (r + m) (s + m) t * (f (s + m) * g t) + c (2 * m) w (r + m) (s + m) (t + m) * (f (s + m) * g (t + m))))"
    if "s < m" "t < m" for s t
  proof -
    consider "s + t = r" | "s + t = r + m" | "s + t \<noteq> r" "s + t \<noteq> r + m"
      by blast
    then show ?thesis
      using that assms(1) by cases (simp_all add: c_def algebra_simps flip: assms(2))
  qed
  then have "(\<Sum>s<m. \<Sum>t<m. c m z r s t * ((f s + z * f (s + m)) * (g t + z * g (t + m)))) = (\<Sum>s<m. \<Sum>t<m.
     c (2 * m) w r s t * (f s * g t) + c (2 * m) w r s (t + m) * (f s * g (t + m))
       + (c (2 * m) w r (s + m) t * (f (s + m) * g t) + c (2 * m) w r (s + m) (t + m) * (f (s + m) * g (t + m)))
     + z * (c (2 * m) w (r + m) s t * (f s * g t) + c (2 * m) w (r + m) s (t + m) * (f s * g (t + m))
       + (c (2 * m) w (r + m) (s + m) t * (f (s + m) * g t) + c (2 * m) w (r + m) (s + m) (t + m) * (f (s + m) * g (t + m)))))"
    by (intro sum.cong refl) simp
  then show ?thesis
    unfolding conv_def c_def [symmetric] sum_halves by (simp only: sum.distrib sum_distrib_left distrib_left)
qed

lemma conv_scale: "conv n w (\<lambda>s. a * f s) (\<lambda>s. b * g s) r = a * b * conv n w f g r"
  unfolding conv_def sum_distrib_left by (intro sum.cong refl) (simp add: ac_simps)

lemma conv_cong:
  "w = w' \<Longrightarrow> (\<And>s. s < n \<Longrightarrow> f s = f' s) \<Longrightarrow> (\<And>s. s < n \<Longrightarrow> g s = g' s) \<Longrightarrow> conv n w f g r = conv n w' f' g' r"
  unfolding conv_def by (intro sum.cong refl) simp

lemma conv_2: "conv 2 w f g 0 = f 0 * g 0 + w * (f 1 * g 1)" "conv 2 w f g 1 = f 0 * g 1 + f 1 * g 0"
  by (simp_all add: conv_def numeral_2_eq_2)

section \<open>The layers\<close>

text \<open>
  The blocks of all layers are the nodes of a binary tree, the root being node 1; \<open>modulus k\<close> is the
  constant \<open>w\<close> of the binomial \<open>X ^ n - w\<close> at node \<open>k\<close>.
\<close>

definition modulus :: "nat \<Rightarrow> zq" where
  "modulus k = (if k < 2 then - 1 else if even k then zeta (k div 2) else - zeta (k div 2))"

lemma zeta_modulus:
  assumes "1 \<le> k" "k < 128"
  shows "zeta k * zeta k = modulus k"
proof (cases "k = 1")
  case True
  then show ?thesis
    using zeta_1 by (simp add: modulus_def)
next
  case False
  then have j: "1 \<le> k div 2" "k div 2 < 64"
    using assms by linarith+
  have "k = 2 * (k div 2) \<or> k = 2 * (k div 2) + 1"
    by linarith
  then obtain j where "k = 2 * j \<or> k = 2 * j + 1" "1 \<le> j" "j < 64"
    using j by blast
  then show ?thesis
    using zeta_square [of j] by (auto simp: modulus_def)
qed

text \<open>One layer with \<open>N\<close> blocks of \<open>2 * m\<close> coefficients, forwards and backwards.\<close>

definition fwd :: "nat \<Rightarrow> nat \<Rightarrow> (nat \<Rightarrow> zq) \<Rightarrow> nat \<Rightarrow> zq" where
  "fwd N m A i = (let z = zeta (N + i div (2 * m)) in
     if i mod (2 * m) < m then A i + z * A (i + m) else A (i - m) - z * A i)"

definition bwd :: "nat \<Rightarrow> nat \<Rightarrow> (nat \<Rightarrow> zq) \<Rightarrow> nat \<Rightarrow> zq" where
  "bwd N m A i = (let z = zeta (2 * N - 1 - i div (2 * m)) in
     if i mod (2 * m) < m then A i + A (i + m) else z * (A i - A (i - m)))"

text \<open>The product in the ring of a layer with \<open>N\<close> blocks of \<open>n\<close> coefficients.\<close>

definition block_product :: "nat \<Rightarrow> nat \<Rightarrow> (nat \<Rightarrow> zq) \<Rightarrow> (nat \<Rightarrow> zq) \<Rightarrow> nat \<Rightarrow> zq" where
  "block_product N n A B i = conv n (modulus (N + i div n)) (\<lambda>s. A (i div n * n + s)) (\<lambda>s. B (i div n * n + s)) (i mod n)"

lemma index_cases:
  fixes i N m :: nat
  assumes "i < N * (2 * m)"
  obtains b s where "b < N" "s < m" "i = b * (2 * m) + s" | b s where "b < N" "s < m" "i = b * (2 * m) + m + s"
proof -
  define b s where "b = i div (2 * m)" and "s = i mod (2 * m)"
  have "i = b * (2 * m) + s"
    unfolding b_def s_def by (rule div_mult_mod_eq [symmetric])
  moreover have "b < N"
    using assms by (simp add: b_def less_mult_imp_div_less)
  moreover have "0 < 2 * m"
    using assms by (cases m) simp_all
  then have "s < 2 * m"
    unfolding s_def by (rule mod_less_divisor)
  ultimately show ?thesis
    using that(1) [of b s] that(2) [of b "s - m"] by (cases "s < m") simp_all
qed

lemma block_index:
  fixes b m s :: nat
  assumes "s < m"
  shows "(b * (2 * m) + s) div (2 * m) = b" "(b * (2 * m) + s) mod (2 * m) = s"
    "(b * (2 * m) + m + s) div (2 * m) = b" "(b * (2 * m) + m + s) mod (2 * m) = m + s"
    "(b * (2 * m) + s) div m = 2 * b" "(b * (2 * m) + s) mod m = s"
    "(b * (2 * m) + m + s) div m = 2 * b + 1" "(b * (2 * m) + m + s) mod m = s"
proof -
  have *: "(q * n + r) div n = q" "(q * n + r) mod n = r" if "r < n" for q n r :: nat
    using that by (simp_all add: div_add1_eq)
  show "(b * (2 * m) + s) div (2 * m) = b" "(b * (2 * m) + s) mod (2 * m) = s"
    using assms by (intro *; simp)+
  show "(b * (2 * m) + m + s) div (2 * m) = b" "(b * (2 * m) + m + s) mod (2 * m) = m + s"
    unfolding add.assoc using assms by (intro *; simp)+
  have e: "b * (2 * m) + s = 2 * b * m + s" "b * (2 * m) + m + s = (2 * b + 1) * m + s"
    by (simp_all add: algebra_simps)
  show "(b * (2 * m) + s) div m = 2 * b" "(b * (2 * m) + s) mod m = s"
    "(b * (2 * m) + m + s) div m = 2 * b + 1" "(b * (2 * m) + m + s) mod m = s"
    unfolding e using assms by (intro *; simp)+
qed

lemma block_offset: "b * (2 * m) + s + m = b * (2 * m) + m + s" "b * (2 * m) + m + s - m = b * (2 * m) + s" for b m s :: nat
  by simp_all

lemma fwd_block:
  assumes "s < m"
  shows "fwd N m A (b * (2 * m) + s) = A (b * (2 * m) + s) + zeta (N + b) * A (b * (2 * m) + m + s)"
    "fwd N m A (b * (2 * m) + m + s) = A (b * (2 * m) + s) - zeta (N + b) * A (b * (2 * m) + m + s)"
  using assms by (simp_all only: fwd_def block_index Let_def block_offset if_True if_False not_add_less1 simp_thms)

lemma bwd_block:
  assumes "s < m"
  shows "bwd N m A (b * (2 * m) + s) = A (b * (2 * m) + s) + A (b * (2 * m) + m + s)"
    "bwd N m A (b * (2 * m) + m + s) = zeta (2 * N - 1 - b) * (A (b * (2 * m) + m + s) - A (b * (2 * m) + s))"
  using assms by (simp_all only: bwd_def block_index Let_def block_offset if_True if_False not_add_less1 simp_thms)

lemma block_index_less: "b * (2 * m) + m + s < N * (2 * m)" if "b < N" "s < m" for b m s N :: nat
proof -
  have "b * (2 * m) + m + s < Suc b * (2 * m)"
    using that by simp
  also have "\<dots> \<le> N * (2 * m)"
    using that by (intro mult_right_mono) simp_all
  finally show ?thesis .
qed

lemma fwd_cong: "fwd N m A i = fwd N m B i" if "i < N * (2 * m)" "\<And>j. j < N * (2 * m) \<Longrightarrow> A j = B j"
proof -
  from that(1) show ?thesis
  proof (cases rule: index_cases)
    case (1 b s)
    then show ?thesis
      using that(1) block_index_less [of b N s m] by (simp add: fwd_block that(2))
  next
    case (2 b s)
    then show ?thesis
      using that(1) block_index_less [of b N s m] by (simp add: fwd_block that(2))
  qed
qed

lemma bwd_cong: "bwd N m A i = bwd N m B i" if "i < N * (2 * m)" "\<And>j. j < N * (2 * m) \<Longrightarrow> A j = B j"
proof -
  from that(1) show ?thesis
  proof (cases rule: index_cases)
    case (1 b s)
    then show ?thesis
      using that(1) block_index_less [of b N s m] by (simp add: bwd_block that(2))
  next
    case (2 b s)
    then show ?thesis
      using that(1) block_index_less [of b N s m] by (simp add: bwd_block that(2))
  qed
qed

lemma sub_block:
  "2 * b * m + s = b * (2 * m) + s" "(2 * b + 1) * m + s = b * (2 * m) + m + s" "b * (2 * m) + (s + m) = b * (2 * m) + m + s"
  "2 * N + (2 * b + 1) = 2 * (N + b) + 1" for b m s N :: nat
  by (simp_all add: algebra_simps)

lemma modulus_even: "modulus (2 * N + 2 * b) = zeta (N + b)" if "1 \<le> N"
proof -
  have "2 * N + 2 * b = 2 * (N + b)"
    by simp
  then show ?thesis
    using that by (simp only: modulus_def) simp
qed

lemma modulus_odd: "modulus (2 * (N + b) + 1) = - zeta (N + b)" if "1 \<le> N"
  using that by (simp add: modulus_def)

lemma fwd_product:
  assumes "i < N * (2 * m)" "1 \<le> N" "N \<le> 64"
  shows "block_product (2 * N) m (fwd N m A) (fwd N m B) i = fwd N m (block_product N (2 * m) A B) i"
  using assms(1)
proof (cases rule: index_cases)
  case (1 b s)
  have z: "zeta (N + b) * zeta (N + b) = modulus (N + b)"
    using 1 assms by (intro zeta_modulus) simp_all
  have "block_product (2 * N) m (fwd N m A) (fwd N m B) i = conv m (zeta (N + b))
     (\<lambda>s. A (b * (2 * m) + s) + zeta (N + b) * A (b * (2 * m) + (s + m)))
     (\<lambda>s. B (b * (2 * m) + s) + zeta (N + b) * B (b * (2 * m) + (s + m))) s"
    unfolding block_product_def 1 block_index [OF 1(2)] by (intro conv_cong) (simp_all only: sub_block fwd_block mult_minus_left diff_conv_add_uminus modulus_odd [OF assms(2)] modulus_even [OF assms(2)])
  also have "\<dots> = fwd N m (block_product N (2 * m) A B) i"
    unfolding conv_split [OF 1(2) z, of "\<lambda>s. A (b * (2 * m) + s)" "\<lambda>s. B (b * (2 * m) + s)"] 1 fwd_block [OF 1(2)] block_product_def block_index [OF 1(2)] by (simp add: ac_simps)
  finally show ?thesis .
next
  case (2 b s)
  have z: "- zeta (N + b) * - zeta (N + b) = modulus (N + b)"
    using 2 assms by (simp add: zeta_modulus)
  have "block_product (2 * N) m (fwd N m A) (fwd N m B) i = conv m (- zeta (N + b))
     (\<lambda>s. A (b * (2 * m) + s) + - zeta (N + b) * A (b * (2 * m) + (s + m)))
     (\<lambda>s. B (b * (2 * m) + s) + - zeta (N + b) * B (b * (2 * m) + (s + m))) s"
    unfolding block_product_def 2 block_index [OF 2(2)] by (intro conv_cong) (simp_all only: sub_block fwd_block mult_minus_left diff_conv_add_uminus modulus_odd [OF assms(2)] modulus_even [OF assms(2)])
  also have "\<dots> = fwd N m (block_product N (2 * m) A B) i"
    unfolding conv_split [OF 2(2) z, of "\<lambda>s. A (b * (2 * m) + s)" "\<lambda>s. B (b * (2 * m) + s)"] 2 fwd_block [OF 2(2)] block_product_def block_index [OF 2(2)] by (simp add: ac_simps)
  finally show ?thesis .
qed

lemma bwd_fwd:
  assumes "i < N * (2 * m)" "l < 7" "N = 2 ^ l"
  shows "bwd N m (\<lambda>i. a * fwd N m A i) i = 2 * (a * A i)"
  using assms(1)
proof (cases rule: index_cases)
  case (1 b s)
  then show ?thesis
    by (simp add: bwd_block fwd_block) (simp add: algebra_simps)
next
  case (2 b s)
  then have z: "zeta (2 * N - 1 - b) * zeta (N + b) = - 1"
    using assms zeta_inverse [of l b] by simp
  have "zeta (2 * N - 1 - b) * (a * (x - zeta (N + b) * y) - a * (x + zeta (N + b) * y)) = 2 * (a * y)" for x y
  proof -
    have "zeta (2 * N - 1 - b) * (a * (x - zeta (N + b) * y) - a * (x + zeta (N + b) * y))
      = - 2 * (zeta (2 * N - 1 - b) * zeta (N + b)) * (a * y)"
      by (simp add: algebra_simps)
    then show ?thesis
      unfolding z by simp
  qed
  then show ?thesis
    unfolding 2 bwd_block [OF 2(2)] fwd_block [OF 2(2)] .
qed

section \<open>All layers\<close>

primrec Fwd :: "nat \<Rightarrow> (nat \<Rightarrow> zq) \<Rightarrow> nat \<Rightarrow> zq" where
  "Fwd 0 A = A"
| "Fwd (Suc l) A = fwd (2 ^ l) (2 ^ (7 - l)) (Fwd l A)"

primrec Bwd :: "nat \<Rightarrow> (nat \<Rightarrow> zq) \<Rightarrow> nat \<Rightarrow> zq" where
  "Bwd 0 A = A"
| "Bwd (Suc l) A = Bwd l (bwd (2 ^ l) (2 ^ (7 - l)) A)"

lemma layer_size: "(2::nat) ^ l * (2 * 2 ^ (7 - l)) = 256" if "l < 8"
proof -
  have "(2::nat) ^ l * (2 * 2 ^ (7 - l)) = 2 ^ (l + Suc (7 - l))"
    by (simp only: power_add power_Suc)
  also have "l + Suc (7 - l) = 8"
    using that by simp
  finally show ?thesis
    by simp
qed

lemma layer_bound: "(2::nat) ^ l \<le> 64" if "l < 7"
  using power_increasing [of l 6 "2::nat"] that by simp

lemma Bwd_cong: "l \<le> 7 \<Longrightarrow> i < 256 \<Longrightarrow> (\<And>j. j < 256 \<Longrightarrow> A j = B j) \<Longrightarrow> Bwd l A i = Bwd l B i"
proof (induction l arbitrary: A B)
  case (Suc l)
  have "bwd (2 ^ l) (2 ^ (7 - l)) A j = bwd (2 ^ l) (2 ^ (7 - l)) B j" if "j < 256" for j
  proof (rule bwd_cong)
    have s: "(2::nat) ^ l * (2 * 2 ^ (7 - l)) = 256"
      using Suc.prems(1) by (intro layer_size) simp
    show "j < 2 ^ l * (2 * 2 ^ (7 - l))"
      unfolding s by (rule that)
    show "A k = B k" if "k < 2 ^ l * (2 * 2 ^ (7 - l))" for k
      using that unfolding s by (rule Suc.prems(3))
  qed
  then show ?case
    unfolding Bwd.simps using Suc.prems(1,2) by (intro Suc.IH) simp_all
qed simp

text \<open>The forward transform is a homomorphism, and the backward one undoes it up to \<open>2 ^ l\<close>.\<close>

lemma Fwd_product:
  "l \<le> 7 \<Longrightarrow> i < 256 \<Longrightarrow> block_product (2 ^ l) (2 ^ (8 - l)) (Fwd l A) (Fwd l B) i = Fwd l (block_product 1 256 A B) i"
proof (induction l arbitrary: i)
  case (Suc l)
  then have l: "l < 7"
    by simp
  have e: "8 - Suc l = 7 - l" "(2::nat) ^ (8 - l) = 2 * 2 ^ (7 - l)"
    using l by (simp_all add: Suc_diff_le flip: power_Suc)
  have "block_product (2 ^ Suc l) (2 ^ (8 - Suc l)) (Fwd (Suc l) A) (Fwd (Suc l) B) i
    = fwd (2 ^ l) (2 ^ (7 - l)) (block_product (2 ^ l) (2 ^ (8 - l)) (Fwd l A) (Fwd l B)) i"
    unfolding e power_Suc Fwd.simps using l Suc.prems layer_bound [of l] by (intro fwd_product) (simp_all add: layer_size)
  also have "\<dots> = fwd (2 ^ l) (2 ^ (7 - l)) (Fwd l (block_product 1 256 A B)) i"
    using l Suc.prems by (intro fwd_cong Suc.IH) (simp_all add: layer_size)
  finally show ?case
    by simp
qed simp

lemma Bwd_Fwd: "l \<le> 7 \<Longrightarrow> i < 256 \<Longrightarrow> Bwd l (\<lambda>i. a * Fwd l A i) i = 2 ^ l * a * A i"
proof (induction l arbitrary: a)
  case (Suc l)
  then have l: "l < 7"
    by simp
  have "Bwd (Suc l) (\<lambda>i. a * Fwd (Suc l) A i) i = Bwd l (\<lambda>i. 2 * a * Fwd l A i) i"
    unfolding Bwd.simps
  proof (rule Bwd_cong)
    fix j :: nat assume "j < 256"
    then have "bwd (2 ^ l) (2 ^ (7 - l)) (\<lambda>i. a * fwd (2 ^ l) (2 ^ (7 - l)) (Fwd l A) i) j = 2 * (a * Fwd l A j)"
      using l by (intro bwd_fwd [of _ _ _ l]) (simp_all add: layer_size)
    then show "bwd (2 ^ l) (2 ^ (7 - l)) (\<lambda>i. a * Fwd (Suc l) A i) j = 2 * a * Fwd l A j"
      by (simp add: mult.assoc)
  qed (use Suc.prems in simp_all)
  also have "\<dots> = 2 ^ Suc l * a * A i"
    using Suc.IH [of "2 * a"] Suc.prems by (simp add: ac_simps)
  finally show ?case .
qed simp

text \<open>The product in the ring of ML-KEM: polynomials modulo \<open>X ^ 256 + 1\<close> over the integers modulo 3329.\<close>

definition ring_product :: "(nat \<Rightarrow> zq) \<Rightarrow> (nat \<Rightarrow> zq) \<Rightarrow> nat \<Rightarrow> zq" where
  "ring_product A B i = (\<Sum>s<256. \<Sum>t<256. (if s + t = i then 1 else if s + t = i + 256 then - 1 else 0) * (A s * B t))"

lemma block_product_1: "i < 256 \<Longrightarrow> block_product 1 256 A B i = ring_product A B i"
  by (simp add: block_product_def ring_product_def conv_def modulus_def)

lemma power_numeral_7: "(2::zq) ^ 7 = 128"
  by (simp add: eval_nat_numeral) 

lemma transform_product:
  assumes "i < 256"
  shows "Bwd 7 (\<lambda>i. a * block_product 128 2 (Fwd 7 A) (Fwd 7 B) i) i = 128 * a * ring_product A B i"
proof -
  have "Bwd 7 (\<lambda>i. a * block_product 128 2 (Fwd 7 A) (Fwd 7 B) i) i = Bwd 7 (\<lambda>i. a * Fwd 7 (block_product 1 256 A B) i) i"
  proof (intro Bwd_cong)
    fix j :: nat assume "j < 256"
    then have "block_product 128 2 (Fwd 7 A) (Fwd 7 B) j = Fwd 7 (block_product 1 256 A B) j"
      using Fwd_product [of 7 j A B] by simp
    then show "a * block_product 128 2 (Fwd 7 A) (Fwd 7 B) j = a * Fwd 7 (block_product 1 256 A B) j"
      by (rule arg_cong)
  qed (use assms in simp_all)
  also have "\<dots> = 128 * a * block_product 1 256 A B i"
    using Bwd_Fwd [of 7 i a "block_product 1 256 A B", OF _ assms] by (simp only: order_refl power_numeral_7)
  finally show ?thesis
    unfolding block_product_1 [OF assms] .
qed

end
