(* ===== verification/Mlkem_Ntt.thy ===== *)
theory Mlkem_Ntt
  imports Mlkem_Transform
begin

text \<open>
  The transforms of \<open>crates/ic-mlkem/src/poly.rs\<close> as the code runs them, in place and in 16-bit
  arithmetic: nothing overflows within the stated bounds, and the coefficients are those of the
  transform over the integers modulo 3329.
\<close>

section \<open>Loops over pairs\<close>

lemma opt_fold_append: "opt_fold f (xs @ ys) s = opt_fold f xs s \<bind> opt_fold f ys"
  by (induction xs arbitrary: s) (auto split: bind_splits)

lemma opt_fold_snoc: "opt_fold f (xs @ [y]) s = opt_fold f xs s \<bind> f y"
  by (simp add: opt_fold_append) (cases "opt_fold f xs s"; simp split: bind_splits)

lemma pair_loop_ok:
  assumes "start + 2 * len \<le> length c" "\<And>j. start \<le> j \<Longrightarrow> j < start + len \<Longrightarrow> f (c ! j) (c ! (j + len)) \<noteq> None"
  obtains c' where "pair_loop f len start c = Some c'" "length c' = length c"
    "\<And>j. start \<le> j \<Longrightarrow> j < start + len \<Longrightarrow> f (c ! j) (c ! (j + len)) = Some (c' ! j, c' ! (j + len))"
    "\<And>i. i < start \<or> start + 2 * len \<le> i \<Longrightarrow> c' ! i = c ! i"
proof -
  have "\<exists>c'. opt_fold (pair_step f len) [start..<start + n] c = Some c' \<and> length c' = length c \<and>
      (\<forall>j. start \<le> j \<and> j < start + n \<longrightarrow> f (c ! j) (c ! (j + len)) = Some (c' ! j, c' ! (j + len))) \<and>
      (\<forall>i. \<not> (start \<le> i \<and> i < start + n) \<and> \<not> (start + len \<le> i \<and> i < start + len + n) \<longrightarrow> c' ! i = c ! i)" if "n \<le> len" for n
    using that
  proof (induction n)
    case 0
    show ?case
      by (intro exI [of _ c]) auto
  next
    case (Suc n)
    then obtain c' where c': "opt_fold (pair_step f len) [start..<start + n] c = Some c'" "length c' = length c"
      "\<And>j. start \<le> j \<Longrightarrow> j < start + n \<Longrightarrow> f (c ! j) (c ! (j + len)) = Some (c' ! j, c' ! (j + len))"
      "\<And>i. \<not> (start \<le> i \<and> i < start + n) \<Longrightarrow> \<not> (start + len \<le> i \<and> i < start + len + n) \<Longrightarrow> c' ! i = c ! i"
      by auto
    let ?j = "start + n"
    have same: "c' ! ?j = c ! ?j" "c' ! (?j + len) = c ! (?j + len)"
      using Suc.prems by (intro c'(4); simp)+
    obtain x y where xy: "f (c ! ?j) (c ! (?j + len)) = Some (x, y)"
      using assms(2) [of ?j] Suc.prems by auto
    have "opt_fold (pair_step f len) [start..<start + Suc n] c = Some (c'[?j := x, ?j + len := y])"
      using c'(1) xy by (simp add: opt_fold_snoc pair_step_def same)
    moreover have "f (c ! j) (c ! (j + len)) = Some (c'[?j := x, ?j + len := y] ! j, c'[?j := x, ?j + len := y] ! (j + len))"
      if "start \<le> j" "j < start + Suc n" for j
    proof (cases "j = ?j")
      case True
      then show ?thesis
        using xy Suc.prems assms(1) c'(2) by (simp add: nth_list_update)
    next
      case False
      then show ?thesis
        using c'(3) [of j] that Suc.prems by (simp add: nth_list_update)
    qed
    ultimately show ?case
      using c'(2,4) by (intro exI [of _ "c'[?j := x, ?j + len := y]"]) auto
  qed
  from this [OF order_refl] obtain c' where c': "opt_fold (pair_step f len) [start..<start + len] c = Some c'" "length c' = length c"
    "\<And>j. start \<le> j \<Longrightarrow> j < start + len \<Longrightarrow> f (c ! j) (c ! (j + len)) = Some (c' ! j, c' ! (j + len))"
    "\<And>i. \<not> (start \<le> i \<and> i < start + len) \<Longrightarrow> \<not> (start + len \<le> i \<and> i < start + len + len) \<Longrightarrow> c' ! i = c ! i"
    by blast
  have "c' ! i = c ! i" if "i < start \<or> start + 2 * len \<le> i" for i
    using that by (intro c'(4)) linarith+
  then show ?thesis
    using c'(1-3) by (intro that [of c']) (simp_all add: pair_loop_def)
qed

text \<open>
  A layer whose step under the root number \<open>k\<close> is \<open>F k\<close>: every pair of every block takes one step,
  under the root number of its block.
\<close>

lemma layer_ok:
  fixes F :: "nat \<Rightarrow> int \<Rightarrow> int \<Rightarrow> (int \<times> int) option" and root :: "nat \<Rightarrow> nat"
  assumes "length c = N * (2 * len)" "root 0 = k" "\<And>b. b < N \<Longrightarrow> advance (root b) = root (Suc b)"
    "\<And>b s. b < N \<Longrightarrow> s < len \<Longrightarrow> F (root b) (c ! (b * (2 * len) + s)) (c ! (b * (2 * len) + len + s)) \<noteq> None"
  obtains c' where "opt_fold (\<lambda>b (k, c). do { c \<leftarrow> pair_loop (F k) len (b * (2 * len)) c; Some (advance k, c) }) [0..<N] (k, c) = Some (root N, c')"
    "length c' = length c"
    "\<And>b s. b < N \<Longrightarrow> s < len \<Longrightarrow> F (root b) (c ! (b * (2 * len) + s)) (c ! (b * (2 * len) + len + s))
       = Some (c' ! (b * (2 * len) + s), c' ! (b * (2 * len) + len + s))"
proof -
  let ?step = "\<lambda>b (k, c). do { c \<leftarrow> pair_loop (F k) len (b * (2 * len)) c; Some (advance k, c) }"
  have "\<exists>c'. opt_fold ?step [0..<m] (k, c) = Some (root m, c') \<and> length c' = length c \<and>
      (\<forall>b s. b < m \<and> s < len \<longrightarrow> F (root b) (c ! (b * (2 * len) + s)) (c ! (b * (2 * len) + len + s))
         = Some (c' ! (b * (2 * len) + s), c' ! (b * (2 * len) + len + s))) \<and>
      (\<forall>i. m * (2 * len) \<le> i \<longrightarrow> c' ! i = c ! i)" if "m \<le> N" for m
    using that
  proof (induction m)
    case 0
    then show ?case
      by (simp add: assms(2))
  next
    case (Suc m)
    then obtain c' where c': "opt_fold ?step [0..<m] (k, c) = Some (root m, c')" "length c' = length c"
      "\<And>b s. b < m \<Longrightarrow> s < len \<Longrightarrow> F (root b) (c ! (b * (2 * len) + s)) (c ! (b * (2 * len) + len + s))
         = Some (c' ! (b * (2 * len) + s), c' ! (b * (2 * len) + len + s))"
      "\<And>i. m * (2 * len) \<le> i \<Longrightarrow> c' ! i = c ! i"
      by auto
    have fits: "m * (2 * len) + 2 * len \<le> length c'"
      using mult_right_mono [OF Suc.prems, of "2 * len"] c'(2) assms(1) by simp
    have total: "F (root m) (c' ! j) (c' ! (j + len)) \<noteq> None" if "m * (2 * len) \<le> j" "j < m * (2 * len) + len" for j
      using assms(4) [of m "j - m * (2 * len)"] that Suc.prems c'(4) [of j] c'(4) [of "j + len"] by (simp add: add.commute)
    obtain d where d: "pair_loop (F (root m)) len (m * (2 * len)) c' = Some d" "length d = length c'"
      "\<And>j. m * (2 * len) \<le> j \<Longrightarrow> j < m * (2 * len) + len \<Longrightarrow> F (root m) (c' ! j) (c' ! (j + len)) = Some (d ! j, d ! (j + len))"
      "\<And>i. i < m * (2 * len) \<or> m * (2 * len) + 2 * len \<le> i \<Longrightarrow> d ! i = c' ! i"
      using pair_loop_ok [where f = "F (root m)" and start = "m * (2 * len)" and len = len and c = c', OF fits total] by blast
    have "opt_fold ?step [0..<Suc m] (k, c) = Some (root (Suc m), d)"
      using c'(1) d(1) assms(3) [of m] Suc.prems by (simp add: opt_fold_snoc)
    moreover have "F (root b) (c ! (b * (2 * len) + s)) (c ! (b * (2 * len) + len + s)) = Some (d ! (b * (2 * len) + s), d ! (b * (2 * len) + len + s))"
      if "b < Suc m" "s < len" for b s
    proof (cases "b = m")
      case True
      then show ?thesis
        using d(3) [of "m * (2 * len) + s"] that c'(4) [of "m * (2 * len) + s"] c'(4) [of "m * (2 * len) + s + len"] by (simp add: ac_simps)
    next
      case False
      then have "b * (2 * len) + len + s < m * (2 * len)"
        using that by (intro block_index_less) simp_all
      then show ?thesis
        using False c'(3) [of b s] that d(4) by simp
    qed
    moreover have "d ! i = c ! i" if "Suc m * (2 * len) \<le> i" for i
      using that d(4) [of i] c'(4) [of i] by simp
    ultimately show ?case
      using c'(2) d(2) by auto
  qed
  from this [of N] show ?thesis
    using that by auto
qed

section \<open>One layer\<close>

text \<open>The coefficients as residues, and a bound on their size.\<close>

definition residues :: "int list \<Rightarrow> nat \<Rightarrow> zq" where
  "residues c i = zq (c ! i)"

definition bounded :: "int \<Rightarrow> int list \<Rightarrow> bool" where
  "bounded B c \<longleftrightarrow> length c = 256 \<and> (\<forall>x\<in>set c. \<bar>x\<bar> \<le> B)"

lemma boundedD: "bounded B c \<Longrightarrow> length c = 256" "bounded B c \<Longrightarrow> i < 256 \<Longrightarrow> \<bar>c ! i\<bar> \<le> B"
  by (simp_all add: bounded_def)

lemma boundedI: "length c = 256 \<Longrightarrow> (\<And>i. i < 256 \<Longrightarrow> \<bar>c ! i\<bar> \<le> B) \<Longrightarrow> bounded B c"
  by (auto simp: bounded_def in_set_conv_nth)

lemma bounded_mono: "bounded B c \<Longrightarrow> B \<le> B' \<Longrightarrow> bounded B' c"
  by (auto simp: bounded_def)

lemma abs_product_le: "\<bar>a * b\<bar> \<le> A * B" if "\<bar>a\<bar> \<le> A" "\<bar>b\<bar> \<le> B" for a b A B :: int
  unfolding abs_mult using that by (intro mult_mono) simp_all

lemma ntt_butterfly_ok:
  assumes "k < 128" "\<bar>a\<bar> \<le> B" "\<bar>b\<bar> \<le> B" "B \<le> 29438"
  obtains x y where "ntt_butterfly (ZETAS ! k) a b = Some (x, y)" "\<bar>x\<bar> \<le> B + 3329" "\<bar>y\<bar> \<le> B + 3329"
    "zq x = zq a + zeta k * zq b" "zq y = zq a - zeta k * zq b"
proof -
  have "\<bar>ZETAS ! k * b\<bar> \<le> 3328 * 29438"
    using ZETAS_range [OF assms(1)] assms by (intro abs_product_le) simp_all
  then obtain t where t: "fqmul (ZETAS ! k) b = Some t" "zq t = zeta k * zq b" "\<bar>t\<bar> \<le> 3329"
    using fqmul_ok [of "ZETAS ! k" b] unfolding zeta_def by force
  have "ntt_butterfly (ZETAS ! k) a b = Some (a + t, a - t)"
    using t(1,3) assms by (simp add: ntt_butterfly_def)
  moreover have "\<bar>a + t\<bar> \<le> B + 3329" "\<bar>a - t\<bar> \<le> B + 3329"
    using t(3) assms by linarith+
  ultimately show ?thesis
    using t(2) by (intro that [of "a + t" "a - t"]) simp_all
qed

lemma blocks_of_layer: "KEM_N div (2 * 2 ^ (7 - l)) = 2 ^ l" if "l < 8"
  using layer_size [OF that] by (simp add: KEM_N_def) (metis nonzero_mult_div_cancel_right power_not_zero zero_neq_numeral mult_eq_0_iff)

lemma residues_block:
  fixes i l :: nat
  assumes "i < 256" "l < 8" "\<And>b s. b < 2 ^ l \<Longrightarrow> s < 2 ^ (7 - l) \<Longrightarrow> P (b * (2 * 2 ^ (7 - l)) + s) \<and> P (b * (2 * 2 ^ (7 - l)) + 2 ^ (7 - l) + s)"
  shows "P i"
proof -
  have "i < 2 ^ l * (2 * 2 ^ (7 - l))"
    using assms(1) unfolding layer_size [OF assms(2)] .
  then show ?thesis
    using assms(3) by (cases rule: index_cases) auto
qed

lemma block_bound:
  assumes "l < 8" "b < 2 ^ l" "s < 2 ^ (7 - l)"
  shows "b * (2 * 2 ^ (7 - l)) + s < 256" "b * (2 * 2 ^ (7 - l)) + 2 ^ (7 - l) + s < (256::nat)"
  using block_index_less [OF assms(2,3)] unfolding layer_size [OF assms(1)] by simp_all

lemma ntt_layer_ok:
  assumes "bounded B c" "B \<le> 29438" "l < 7"
  obtains c' where "ntt_layer (2 ^ (7 - l)) (2 ^ l, c) = Some (2 ^ Suc l, c')" "bounded (B + 3329) c'"
    "\<And>i. i < 256 \<Longrightarrow> residues c' i = fwd (2 ^ l) (2 ^ (7 - l)) (residues c) i"
proof -
  define m :: nat where "m = 2 ^ (7 - l)"
  have len: "length c = 2 ^ l * (2 * m)"
    using boundedD(1) [OF assms(1)] layer_size [of l] assms(3) by (simp add: m_def)
  have step: "\<exists>x y. ntt_butterfly (ZETAS ! (2 ^ l + b)) (c ! (b * (2 * m) + s)) (c ! (b * (2 * m) + m + s)) = Some (x, y) \<and>
      \<bar>x\<bar> \<le> B + 3329 \<and> \<bar>y\<bar> \<le> B + 3329 \<and>
      zq x = zq (c ! (b * (2 * m) + s)) + zeta (2 ^ l + b) * zq (c ! (b * (2 * m) + m + s)) \<and>
      zq y = zq (c ! (b * (2 * m) + s)) - zeta (2 ^ l + b) * zq (c ! (b * (2 * m) + m + s))" if "b < 2 ^ l" "s < m" for b s
  proof -
    have "2 ^ l + b < (128::nat)"
      using layer_bound [OF assms(3)] that(1) by simp
    moreover have "b * (2 * m) + s < 256" "b * (2 * m) + m + s < 256"
      using block_bound [of l b s] that assms(3) by (simp_all add: m_def)
    ultimately show ?thesis
      using ntt_butterfly_ok [of "2 ^ l + b" "c ! (b * (2 * m) + s)" B "c ! (b * (2 * m) + m + s)"] boundedD(2) [OF assms(1)] assms(2)
      by metis
  qed
  then have total: "ntt_butterfly (ZETAS ! (2 ^ l + b)) (c ! (b * (2 * m) + s)) (c ! (b * (2 * m) + m + s)) \<noteq> None" if "b < 2 ^ l" "s < m" for b s
    using that by fastforce
  obtain c' where c': "ntt_layer m (2 ^ l, c) = Some (2 ^ l + 2 ^ l, c')" "length c' = length c"
    "\<And>b s. b < 2 ^ l \<Longrightarrow> s < m \<Longrightarrow> ntt_butterfly (ZETAS ! (2 ^ l + b)) (c ! (b * (2 * m) + s)) (c ! (b * (2 * m) + m + s))
       = Some (c' ! (b * (2 * m) + s), c' ! (b * (2 * m) + m + s))"
  proof (rule layer_ok [where F = "\<lambda>k. ntt_butterfly (ZETAS ! k)" and root = "\<lambda>b. 2 ^ l + b" and advance = "\<lambda>k. k + 1" and k = "2 ^ l", OF len])
    show "\<And>b s. b < 2 ^ l \<Longrightarrow> s < m \<Longrightarrow> ntt_butterfly (ZETAS ! (2 ^ l + b)) (c ! (b * (2 * m) + s)) (c ! (b * (2 * m) + m + s)) \<noteq> None"
      by (rule total)
  qed (use blocks_of_layer [of l] assms(3) in \<open>simp_all add: ntt_layer_def m_def\<close>)
  have all: "\<bar>c' ! i\<bar> \<le> B + 3329 \<and> residues c' i = fwd (2 ^ l) m (residues c) i" if "i < 256" for i
  proof (rule residues_block [OF that, of l, folded m_def])
    fix b s :: nat assume bs: "b < 2 ^ l" "s < m"
    show "(\<bar>c' ! (b * (2 * m) + s)\<bar> \<le> B + 3329 \<and> residues c' (b * (2 * m) + s) = fwd (2 ^ l) m (residues c) (b * (2 * m) + s)) \<and>
        \<bar>c' ! (b * (2 * m) + m + s)\<bar> \<le> B + 3329 \<and> residues c' (b * (2 * m) + m + s) = fwd (2 ^ l) m (residues c) (b * (2 * m) + m + s)"
      using step [OF bs] c'(3) [OF bs] unfolding fwd_block [OF bs(2)] residues_def by auto
  qed (use assms(3) in simp)
  have "bounded (B + 3329) c'"
    using all c'(2) boundedD(1) [OF assms(1)] by (intro boundedI) simp_all
  then show ?thesis
    using c'(1) all by (intro that [of c']) (simp_all add: m_def mult_2)
qed

lemma inv_butterfly_ok:
  assumes "k < 128" "\<bar>a\<bar> \<le> 16383" "\<bar>b\<bar> \<le> 16383"
  obtains x y where "inv_butterfly (ZETAS ! k) a b = Some (x, y)" "\<bar>x\<bar> \<le> 3329" "\<bar>y\<bar> \<le> 3329"
    "zq x = zq a + zq b" "zq y = zeta k * (zq b - zq a)"
proof -
  have s: "- 32768 \<le> a + b" "a + b \<le> 32767" and d: "- 32768 \<le> b - a" "b - a \<le> 32767" "\<bar>b - a\<bar> \<le> 32766"
    using assms by linarith+
  obtain x where x: "barrett_reduce (a + b) = Some x" "zq x = zq (a + b)" "- 1665 \<le> x" "x \<le> 1665"
    using barrett_reduce_ok [OF s] .
  have "\<bar>ZETAS ! k * (b - a)\<bar> \<le> 3328 * 32766"
    using ZETAS_range [OF assms(1)] d(3) by (intro abs_product_le) simp_all
  then obtain y where y: "fqmul (ZETAS ! k) (b - a) = Some y" "zq y = zeta k * zq (b - a)" "\<bar>y\<bar> \<le> 3329"
    using fqmul_ok [of "ZETAS ! k" "b - a"] unfolding zeta_def by force
  have "inv_butterfly (ZETAS ! k) a b = Some (x, y)"
    using x(1) y(1) s d by (simp add: inv_butterfly_def)
  moreover have "\<bar>x\<bar> \<le> 3329"
    using x(3,4) by linarith
  ultimately show ?thesis
    using x(2) y(2,3) by (intro that [of x y]) simp_all
qed

lemma inv_layer_ok:
  assumes "bounded 16383 c" "l < 7"
  obtains c' where "inv_layer (2 ^ (7 - l)) (2 ^ Suc l - 1, c) = Some (2 ^ l - 1, c')" "bounded 3329 c'"
    "\<And>i. i < 256 \<Longrightarrow> residues c' i = bwd (2 ^ l) (2 ^ (7 - l)) (residues c) i"
proof -
  define m :: nat where "m = 2 ^ (7 - l)"
  define root :: "nat \<Rightarrow> nat" where "root b = 2 * 2 ^ l - 1 - b" for b
  have len: "length c = 2 ^ l * (2 * m)"
    using boundedD(1) [OF assms(1)] layer_size [of l] assms(2) by (simp add: m_def)
  have step: "\<exists>x y. inv_butterfly (ZETAS ! root b) (c ! (b * (2 * m) + s)) (c ! (b * (2 * m) + m + s)) = Some (x, y) \<and>
      \<bar>x\<bar> \<le> 3329 \<and> \<bar>y\<bar> \<le> 3329 \<and>
      zq x = zq (c ! (b * (2 * m) + s)) + zq (c ! (b * (2 * m) + m + s)) \<and>
      zq y = zeta (root b) * (zq (c ! (b * (2 * m) + m + s)) - zq (c ! (b * (2 * m) + s)))" if "b < 2 ^ l" "s < m" for b s
  proof -
    have "root b < 128"
      using layer_bound [OF assms(2)] that(1) by (simp add: root_def)
    moreover have "b * (2 * m) + s < 256" "b * (2 * m) + m + s < 256"
      using block_bound [of l b s] that assms(2) by (simp_all add: m_def)
    ultimately show ?thesis
      using inv_butterfly_ok [of "root b" "c ! (b * (2 * m) + s)" "c ! (b * (2 * m) + m + s)"] boundedD(2) [OF assms(1)]
      by metis
  qed
  have total: "inv_butterfly (ZETAS ! root b) (c ! (b * (2 * m) + s)) (c ! (b * (2 * m) + m + s)) \<noteq> None" if "b < 2 ^ l" "s < m" for b s
    using step [OF that] by fastforce
  have advance: "(root b + (2 ^ 64 - 1)) mod 2 ^ 64 = root (Suc b)" if "b < 2 ^ l" for b
  proof -
    have "root b = Suc (root (Suc b))" "root b < 128"
      using that layer_bound [OF assms(2)] by (simp_all add: root_def)
    then show ?thesis
      by simp
  qed
  obtain c' where c': "inv_layer m (root 0, c) = Some (root (2 ^ l), c')" "length c' = length c"
    "\<And>b s. b < 2 ^ l \<Longrightarrow> s < m \<Longrightarrow> inv_butterfly (ZETAS ! root b) (c ! (b * (2 * m) + s)) (c ! (b * (2 * m) + m + s))
       = Some (c' ! (b * (2 * m) + s), c' ! (b * (2 * m) + m + s))"
  proof (rule layer_ok [where F = "\<lambda>k. inv_butterfly (ZETAS ! k)" and root = root and advance = "\<lambda>k. (k + (2 ^ 64 - 1)) mod 2 ^ 64", OF len refl advance])
    show "\<And>b s. b < 2 ^ l \<Longrightarrow> s < m \<Longrightarrow> inv_butterfly (ZETAS ! root b) (c ! (b * (2 * m) + s)) (c ! (b * (2 * m) + m + s)) \<noteq> None"
      by (rule total)
  qed (use blocks_of_layer [of l] assms(2) in \<open>simp_all add: inv_layer_def m_def\<close>)
  have all: "\<bar>c' ! i\<bar> \<le> 3329 \<and> residues c' i = bwd (2 ^ l) m (residues c) i" if "i < 256" for i
  proof (rule residues_block [OF that, of l, folded m_def])
    fix b s :: nat assume bs: "b < 2 ^ l" "s < m"
    show "(\<bar>c' ! (b * (2 * m) + s)\<bar> \<le> 3329 \<and> residues c' (b * (2 * m) + s) = bwd (2 ^ l) m (residues c) (b * (2 * m) + s)) \<and>
        \<bar>c' ! (b * (2 * m) + m + s)\<bar> \<le> 3329 \<and> residues c' (b * (2 * m) + m + s) = bwd (2 ^ l) m (residues c) (b * (2 * m) + m + s)"
      using step [OF bs] c'(3) [OF bs] unfolding bwd_block [OF bs(2)] residues_def root_def by auto
  qed (use assms(2) in simp)
  have "bounded 3329 c'"
    using all c'(2) boundedD(1) [OF assms(1)] by (intro boundedI) simp_all
  then show ?thesis
    using c'(1) all by (intro that [of c']) (simp_all add: m_def root_def mult_2)
qed

section \<open>The transforms\<close>

lemma map_coefficients_ok:
  assumes "\<And>x. x \<in> set c \<Longrightarrow> f x \<noteq> None"
  obtains c' where "map_coefficients f c = Some c'" "length c' = length c" "\<And>i. i < length c \<Longrightarrow> f (c ! i) = Some (c' ! i)"
proof -
  let ?step = "\<lambda>i c. do { v \<leftarrow> f (c ! i); Some (c[i := v]) }"
  have "\<exists>c'. opt_fold ?step [0..<n] c = Some c' \<and> length c' = length c \<and> (\<forall>i<n. f (c ! i) = Some (c' ! i)) \<and>
      (\<forall>i. n \<le> i \<longrightarrow> c' ! i = c ! i)" if "n \<le> length c" for n
    using that
  proof (induction n)
    case (Suc n)
    then obtain c' where c': "opt_fold ?step [0..<n] c = Some c'" "length c' = length c" "\<forall>i<n. f (c ! i) = Some (c' ! i)"
      "\<forall>i. n \<le> i \<longrightarrow> c' ! i = c ! i"
      by auto
    obtain v where "f (c ! n) = Some v"
      using assms [of "c ! n"] Suc.prems by auto
    then show ?case
      using c' Suc.prems by (intro exI [of _ "c'[n := v]"]) (auto simp: opt_fold_snoc nth_list_update less_Suc_eq)
  qed simp
  from this [OF order_refl] show ?thesis
    using that unfolding map_coefficients_def by auto
qed

lemma ntt_layers_ok:
  assumes "bounded 9464 c" "l \<le> 7"
  shows "\<exists>c'. ntt_layers 128 (1, c) = ntt_layers (2 ^ (7 - l)) (2 ^ l, c') \<and> bounded (9464 + 3329 * int l) c' \<and>
    (\<forall>i<256. residues c' i = Fwd l (residues c) i)"
  using assms(2)
proof (induction l)
  case 0
  then show ?case
    using assms(1) by auto
next
  case (Suc l)
  then obtain c' where c': "ntt_layers 128 (1, c) = ntt_layers (2 ^ (7 - l)) (2 ^ l, c')" "bounded (9464 + 3329 * int l) c'"
    "\<And>i. i < 256 \<Longrightarrow> residues c' i = Fwd l (residues c) i"
    by auto
  have l: "l < 7"
    using Suc.prems by simp
  then obtain d where d: "ntt_layer (2 ^ (7 - l)) (2 ^ l, c') = Some (2 ^ Suc l, d)" "bounded (9464 + 3329 * int l + 3329) d"
    "\<And>i. i < 256 \<Longrightarrow> residues d i = fwd (2 ^ l) (2 ^ (7 - l)) (residues c') i"
    using ntt_layer_ok [OF c'(2) _ l] by auto
  have half: "(2::nat) ^ (7 - l) = 2 * 2 ^ (7 - Suc l)"
    using l by (simp flip: power_Suc)
  then have "ntt_layers (2 ^ (7 - l)) (2 ^ l, c') = ntt_layers (2 ^ (7 - Suc l)) (2 ^ Suc l, d)"
    using d(1) by (subst ntt_layers.simps) simp
  moreover have "residues d i = Fwd (Suc l) (residues c) i" if "i < 256" for i
    unfolding d(3) [OF that] Fwd.simps using that l c'(3) by (intro fwd_cong) (simp_all add: layer_size)
  ultimately show ?case
    using c'(1) d(2) by (intro exI [of _ d]) (simp add: algebra_simps)
qed

lemma poly_ntt_ok:
  assumes "bounded 9464 c"
  obtains c' where "poly_ntt c = Some c'" "bounded 1665 c'" "\<And>i. i < 256 \<Longrightarrow> residues c' i = Fwd 7 (residues c) i"
proof -
  obtain d where d: "ntt_layers 128 (1, c) = ntt_layers 1 (128, d)" "bounded 32767 d" "\<And>i. i < 256 \<Longrightarrow> residues d i = Fwd 7 (residues c) i"
    using ntt_layers_ok [OF assms, of 7] by auto
  have total: "\<exists>r. barrett_reduce x = Some r \<and> zq r = zq x \<and> \<bar>r\<bar> \<le> 1665" if "\<bar>x\<bar> \<le> 32767" for x
  proof -
    have "- 32768 \<le> x" "x \<le> 32767"
      using that by linarith+
    then obtain r where "barrett_reduce x = Some r" "zq r = zq x" "- 1665 \<le> r" "r \<le> 1665"
      by (rule barrett_reduce_ok)
    then show ?thesis
      by auto
  qed
  have "barrett_reduce x \<noteq> None" if "x \<in> set d" for x
    using total [of x] that d(2) by (auto simp: bounded_def)
  then obtain c' where c': "map_coefficients barrett_reduce d = Some c'" "length c' = length d" "\<And>i. i < length d \<Longrightarrow> barrett_reduce (d ! i) = Some (c' ! i)"
    using map_coefficients_ok [of d barrett_reduce] by blast
  have all: "\<bar>c' ! i\<bar> \<le> 1665 \<and> residues c' i = residues d i" if "i < 256" for i
    using total [of "d ! i"] boundedD [OF d(2)] c'(3) [of i] that by (auto simp: residues_def)
  have "bounded 1665 c'"
    using all c'(2) boundedD(1) [OF d(2)] by (intro boundedI) simp_all
  moreover have "poly_ntt c = Some c'"
    using c'(1) d(1) by (simp add: poly_ntt_def ntt_layers.simps [of "Suc 0"] poly_reduce_def)
  ultimately show ?thesis
    using all d(3) by (intro that [of c']) simp_all
qed

lemma inv_layers_ok:
  assumes "bounded 16383 c" "l < 7"
  shows "\<exists>c'. inv_layers (2 ^ (7 - l)) (2 ^ Suc l - 1, c) = Some (0, c') \<and> bounded 3329 c' \<and>
    (\<forall>i<256. residues c' i = Bwd (Suc l) (residues c) i)"
  using assms
proof (induction l arbitrary: c)
  case 0
  obtain d where d: "inv_layer 128 (1, c) = Some (0, d)" "bounded 3329 d"
    "\<And>i. i < 256 \<Longrightarrow> residues d i = bwd 1 128 (residues c) i"
    using inv_layer_ok [OF 0] by auto
  have "inv_layers 128 (1, c) = Some (0, d)"
    using d(1) by (subst inv_layers.simps) (simp add: inv_layers.simps [of 256])
  then show ?case
    using d(2,3) by (intro exI [of _ d]) simp
next
  case (Suc l)
  then have l: "l < 7" "l < 6"
    by simp_all
  obtain d where d: "inv_layer (2 ^ (7 - Suc l)) (2 ^ Suc (Suc l) - 1, c) = Some (2 ^ Suc l - 1, d)" "bounded 3329 d"
    "\<And>i. i < 256 \<Longrightarrow> residues d i = bwd (2 ^ Suc l) (2 ^ (7 - Suc l)) (residues c) i"
    using inv_layer_ok [OF Suc.prems] by blast
  obtain e where e: "inv_layers (2 ^ (7 - l)) (2 ^ Suc l - 1, d) = Some (0, e)" "bounded 3329 e"
    "\<And>i. i < 256 \<Longrightarrow> residues e i = Bwd (Suc l) (residues d) i"
    using Suc.IH [OF bounded_mono [OF d(2)] l(1)] by auto
  have half: "2 * 2 ^ (7 - Suc l) = (2::nat) ^ (7 - l)"
    using l by (simp flip: power_Suc)
  have "(2::nat) ^ (7 - Suc l) \<le> 128"
    using power_increasing [of "7 - Suc l" 7 "2::nat"] by simp
  then have "inv_layers (2 ^ (7 - Suc l)) (2 ^ Suc (Suc l) - 1, c) = inv_layers (2 * 2 ^ (7 - Suc l)) (2 ^ Suc l - 1, d)"
    using d(1) by (subst inv_layers.simps) simp
  then have "inv_layers (2 ^ (7 - Suc l)) (2 ^ Suc (Suc l) - 1, c) = Some (0, e)"
    unfolding half e(1) .
  moreover have "residues e i = Bwd (Suc (Suc l)) (residues c) i" if "i < 256" for i
    unfolding e(3) [OF that] Bwd.simps(2) [of "Suc l"] using that l d(3) by (intro Bwd_cong) simp_all
  ultimately show ?case
    using e(2) by (intro exI [of _ e]) simp
qed

lemma poly_inv_ntt_ok:
  assumes "bounded 16383 c"
  obtains c' where "poly_inv_ntt c = Some c'" "bounded 3329 c'" "\<And>i. i < 256 \<Longrightarrow> residues c' i = zq 169 * zq 1441 * Bwd 7 (residues c) i"
proof -
  obtain d where d: "inv_layers 2 (127, c) = Some (0, d)" "bounded 3329 d" "\<And>i. i < 256 \<Longrightarrow> residues d i = Bwd 7 (residues c) i"
    using inv_layers_ok [OF assms, of 6] by (auto simp del: Bwd.simps)
  have total: "\<exists>r. fqmul x 1441 = Some r \<and> zq r = zq 169 * zq 1441 * zq x \<and> \<bar>r\<bar> \<le> 3329" if "\<bar>x\<bar> \<le> 3329" for x
  proof -
    have "\<bar>x * 1441\<bar> \<le> 3329 * 1441"
      using that by (intro abs_product_le) simp_all
    then obtain r where "fqmul x 1441 = Some r" "zq r = zq 169 * zq x * zq 1441" "\<bar>r\<bar> \<le> 3329"
      using fqmul_ok [of x 1441] by force
    then show ?thesis
      by (intro exI [of _ r]) (simp only: ac_simps simp_thms)
  qed
  have "fqmul x 1441 \<noteq> None" if "x \<in> set d" for x
    using total [of x] that d(2) by (auto simp: bounded_def)
  then obtain c' where c': "map_coefficients (\<lambda>x. fqmul x 1441) d = Some c'" "length c' = length d" "\<And>i. i < length d \<Longrightarrow> fqmul (d ! i) 1441 = Some (c' ! i)"
    using map_coefficients_ok [of d "\<lambda>x. fqmul x 1441"] by blast
  have all: "\<bar>c' ! i\<bar> \<le> 3329 \<and> residues c' i = zq 169 * zq 1441 * residues d i" if i: "i < 256" for i
  proof -
    have "fqmul (d ! i) 1441 = Some (c' ! i)" "\<bar>d ! i\<bar> \<le> 3329"
      using boundedD [OF d(2)] c'(3) i by simp_all
    then show ?thesis
      using total [of "d ! i"] unfolding residues_def by (metis option.inject)
  qed
  have "bounded 3329 c'"
    using all c'(2) boundedD(1) [OF d(2)] by (intro boundedI) simp_all
  moreover have "poly_inv_ntt c = Some c'"
    using c'(1) d(1) by (simp add: poly_inv_ntt_def)
  moreover have "residues c' i = zq 169 * zq 1441 * Bwd 7 (residues c) i" if "i < 256" for i
    using all [OF that] d(3) [OF that] by simp
  ultimately show ?thesis
    by (intro that [of c']) blast+
qed

section \<open>Products in the transform domain\<close>

lemma basemul_pair_ok:
  assumes "\<bar>a0\<bar> \<le> 3329" "\<bar>a1\<bar> \<le> 3329" "\<bar>b0\<bar> \<le> 3329" "\<bar>b1\<bar> \<le> 3329" "\<bar>z\<bar> \<le> 3329"
  obtains x y where "basemul_pair a0 a1 b0 b1 z = Some (x, y)" "\<bar>x\<bar> \<le> 6658" "\<bar>y\<bar> \<le> 6658"
    "zq x = zq 169 * (zq a0 * zq b0 + zq 169 * zq z * (zq a1 * zq b1))" "zq y = zq 169 * (zq a0 * zq b1 + zq a1 * zq b0)"
proof -
  have mul: "\<exists>r. fqmul u v = Some r \<and> zq r = zq 169 * zq u * zq v \<and> \<bar>r\<bar> \<le> 3329" if "\<bar>u\<bar> \<le> 3329" "\<bar>v\<bar> \<le> 3329" for u v
  proof -
    have "\<bar>u * v\<bar> \<le> 3329 * 3329"
      using that by (rule abs_product_le)
    then show ?thesis
      using fqmul_ok [of u v] by force
  qed
  obtain p where p: "fqmul a1 b1 = Some p" "zq p = zq 169 * zq a1 * zq b1" "\<bar>p\<bar> \<le> 3329"
    using mul assms by blast
  obtain q where q: "fqmul p z = Some q" "zq q = zq 169 * zq p * zq z" "\<bar>q\<bar> \<le> 3329"
    using mul assms p(3) by blast
  obtain r where r: "fqmul a0 b0 = Some r" "zq r = zq 169 * zq a0 * zq b0" "\<bar>r\<bar> \<le> 3329"
    using mul assms by blast
  obtain s where s: "fqmul a0 b1 = Some s" "zq s = zq 169 * zq a0 * zq b1" "\<bar>s\<bar> \<le> 3329"
    using mul assms by blast
  obtain t where t: "fqmul a1 b0 = Some t" "zq t = zq 169 * zq a1 * zq b0" "\<bar>t\<bar> \<le> 3329"
    using mul assms by blast
  have b: "\<bar>q + r\<bar> \<le> 6658" "\<bar>s + t\<bar> \<le> 6658"
    using q(3) r(3) s(3) t(3) by linarith+
  then have "basemul_pair a0 a1 b0 b1 z = Some (q + r, s + t)"
    using p(1) q(1) r(1) s(1) t(1) by (simp add: basemul_pair_def)
  moreover have "zq (q + r) = zq 169 * (zq a0 * zq b0 + zq 169 * zq z * (zq a1 * zq b1))" "zq (s + t) = zq 169 * (zq a0 * zq b1 + zq a1 * zq b0)"
    by (simp_all only: of_int_add q(2) p(2) r(2) s(2) t(2) distrib_left ac_simps)
  ultimately show ?thesis
    using b that by blast
qed

lemma basemul_roots:
  assumes "i < 64"
  shows "\<bar>ZETAS ! (64 + i)\<bar> \<le> 3329" "i16 (- (ZETAS ! (64 + i))) = Some (- (ZETAS ! (64 + i)))" "\<bar>- (ZETAS ! (64 + i))\<bar> \<le> 3329"
  using ZETAS_range [of "64 + i"] assms by simp_all

text \<open>Every pair of the product, by the position \<open>4 * i + r\<close> of its first coefficient.\<close>

definition pair_product :: "poly \<Rightarrow> poly \<Rightarrow> nat \<Rightarrow> int \<Rightarrow> (int \<times> int) option" where
  "pair_product a b p z = basemul_pair (a ! p) (a ! (p + 1)) (b ! p) (b ! (p + 1)) z"

lemma poly_basemul_pairs:
  assumes "bounded 3329 a" "bounded 3329 b"
  obtains p where "poly_basemul a b = Some p" "length p = 256"
    "\<And>i. i < 64 \<Longrightarrow> pair_product a b (4 * i) (ZETAS ! (64 + i)) = Some (p ! (4 * i), p ! (4 * i + 1))"
    "\<And>i. i < 64 \<Longrightarrow> pair_product a b (4 * i + 2) (- (ZETAS ! (64 + i))) = Some (p ! (4 * i + 2), p ! (4 * i + 3))"
proof -
  define step where "step i out = do {
     let zeta = ZETAS ! (64 + i);
     (x0, x1) \<leftarrow> basemul_pair (a ! (4 * i)) (a ! (4 * i + 1)) (b ! (4 * i)) (b ! (4 * i + 1)) zeta;
     minus_zeta \<leftarrow> i16 (- zeta);
     (x2, x3) \<leftarrow> basemul_pair (a ! (4 * i + 2)) (a ! (4 * i + 3)) (b ! (4 * i + 2)) (b ! (4 * i + 3)) minus_zeta;
     Some (out[4 * i := x0, 4 * i + 1 := x1, 4 * i + 2 := x2, 4 * i + 3 := x3]) }" for i and out :: "int list"
  have total: "\<exists>x y. pair_product a b q z = Some (x, y)" if "\<bar>z\<bar> \<le> 3329" "q + 1 < 256" for q z
    using basemul_pair_ok [of "a ! q" "a ! (q + 1)" "b ! q" "b ! (q + 1)" z] boundedD(2) [OF assms(1)] boundedD(2) [OF assms(2)] that
    unfolding pair_product_def by (metis add_lessD1)
  have "\<exists>p. opt_fold step [0..<n] POLY_ZERO = Some p \<and> length p = 256 \<and>
      (\<forall>i<n. pair_product a b (4 * i) (ZETAS ! (64 + i)) = Some (p ! (4 * i), p ! (4 * i + 1)) \<and>
         pair_product a b (4 * i + 2) (- (ZETAS ! (64 + i))) = Some (p ! (4 * i + 2), p ! (4 * i + 3)))" if "n \<le> 64" for n
    using that
  proof (induction n)
    case 0
    show ?case
      by (simp add: POLY_ZERO_def KEM_N_def)
  next
    case (Suc n)
    then obtain p where p: "opt_fold step [0..<n] POLY_ZERO = Some p" "length p = 256"
      "\<And>i. i < n \<Longrightarrow> pair_product a b (4 * i) (ZETAS ! (64 + i)) = Some (p ! (4 * i), p ! (4 * i + 1)) \<and>
         pair_product a b (4 * i + 2) (- (ZETAS ! (64 + i))) = Some (p ! (4 * i + 2), p ! (4 * i + 3))"
      by auto
    have n: "n < 64"
      using Suc.prems by simp
    obtain x0 x1 where x: "pair_product a b (4 * n) (ZETAS ! (64 + n)) = Some (x0, x1)"
      using total [of "ZETAS ! (64 + n)" "4 * n"] basemul_roots [OF n] n by auto
    obtain x2 x3 where y: "pair_product a b (4 * n + 2) (- (ZETAS ! (64 + n))) = Some (x2, x3)"
      using total [of "- (ZETAS ! (64 + n))" "4 * n + 2"] basemul_roots [OF n] n by auto
    have "step n p = Some (p[4 * n := x0, 4 * n + 1 := x1, 4 * n + 2 := x2, 4 * n + 3 := x3])"
      using x y basemul_roots(2) [OF n] by (simp add: step_def pair_product_def Let_def numeral_3_eq_3)
    then have "opt_fold step [0..<Suc n] POLY_ZERO = Some (p[4 * n := x0, 4 * n + 1 := x1, 4 * n + 2 := x2, 4 * n + 3 := x3])"
      using p(1) by (simp add: opt_fold_snoc)
    then show ?case
      using p(2,3) x y n by (intro exI [of _ "p[4 * n := x0, 4 * n + 1 := x1, 4 * n + 2 := x2, 4 * n + 3 := x3]"])
        (auto simp: nth_list_update less_Suc_eq)
  qed
  from this [of 64] obtain p where "opt_fold step [0..<64] POLY_ZERO = Some p" "length p = 256"
      "\<And>i. i < 64 \<Longrightarrow> pair_product a b (4 * i) (ZETAS ! (64 + i)) = Some (p ! (4 * i), p ! (4 * i + 1)) \<and>
         pair_product a b (4 * i + 2) (- (ZETAS ! (64 + i))) = Some (p ! (4 * i + 2), p ! (4 * i + 3))"
    by auto
  then show ?thesis
    by (intro that [of p]) (simp_all add: poly_basemul_def step_def [abs_def] KEM_N_def del: upt_rec_numeral)
qed

lemma modulus_leaf: "modulus (128 + 2 * i) = zeta (64 + i)" "modulus (129 + 2 * i) = - zeta (64 + i)"
  by (simp_all add: modulus_def add.commute)

lemma position_cases:
  assumes "(i::nat) < 256"
  obtains k where "k < 64" "i = 4 * k" | k where "k < 64" "i = 4 * k + 1" | k where "k < 64" "i = 4 * k + 2" | k where "k < 64" "i = 4 * k + 3"
proof -
  have "i = 4 * (i div 4) + i mod 4" "i mod 4 < 4" "i div 4 < 64"
    using assms by simp_all
  then consider "i = 4 * (i div 4)" | "i = 4 * (i div 4) + 1" | "i = 4 * (i div 4) + 2" | "i = 4 * (i div 4) + 3"
    by linarith
  then show ?thesis
    using that \<open>i div 4 < 64\<close> by cases blast+
qed

lemma leaf_index: "4 * k div 2 = 2 * (k::nat)" "(4 * k + 1) div 2 = 2 * k" "(4 * k + 2) div 2 = 2 * k + 1" "(4 * k + 3) div 2 = 2 * k + 1"
  "4 * k mod 2 = 0" "(4 * k + 1) mod 2 = 1" "(4 * k + 2) mod 2 = 0" "(4 * k + 3) mod 2 = 1"
  "Suc (4 * k) div 2 = 2 * k" "Suc (4 * k) mod 2 = 1"
  by simp_all arith+

lemma poly_basemul_ok:
  assumes "bounded 3329 a" "bounded 3329 b"
  obtains p where "poly_basemul a b = Some p" "bounded 6658 p"
    "\<And>i. i < 256 \<Longrightarrow> residues p i = zq 169 * block_product 128 2 (residues a) (residues b) i"
proof -
  obtain p where p: "poly_basemul a b = Some p" "length p = 256"
    "\<And>i. i < 64 \<Longrightarrow> pair_product a b (4 * i) (ZETAS ! (64 + i)) = Some (p ! (4 * i), p ! (4 * i + 1))"
    "\<And>i. i < 64 \<Longrightarrow> pair_product a b (4 * i + 2) (- (ZETAS ! (64 + i))) = Some (p ! (4 * i + 2), p ! (4 * i + 3))"
    using poly_basemul_pairs [OF assms] by blast
  have val: "\<bar>x\<bar> \<le> 6658 \<and> \<bar>y\<bar> \<le> 6658 \<and>
     zq x = zq 169 * (zq (a ! q) * zq (b ! q) + zq 169 * zq z * (zq (a ! (q + 1)) * zq (b ! (q + 1)))) \<and>
     zq y = zq 169 * (zq (a ! q) * zq (b ! (q + 1)) + zq (a ! (q + 1)) * zq (b ! q))"
    if "pair_product a b q z = Some (x, y)" "\<bar>z\<bar> \<le> 3329" "q + 1 < 256" for q z x y
  proof -
    note z = that(2)
    have "\<bar>a ! q\<bar> \<le> 3329" "\<bar>a ! (q + 1)\<bar> \<le> 3329" "\<bar>b ! q\<bar> \<le> 3329" "\<bar>b ! (q + 1)\<bar> \<le> 3329"
      using boundedD(2) [OF assms(1)] boundedD(2) [OF assms(2)] that(3) by simp_all
    then obtain x' y' where "basemul_pair (a ! q) (a ! (q + 1)) (b ! q) (b ! (q + 1)) z = Some (x', y')" "\<bar>x'\<bar> \<le> 6658" "\<bar>y'\<bar> \<le> 6658"
      "zq x' = zq 169 * (zq (a ! q) * zq (b ! q) + zq 169 * zq z * (zq (a ! (q + 1)) * zq (b ! (q + 1))))"
      "zq y' = zq 169 * (zq (a ! q) * zq (b ! (q + 1)) + zq (a ! (q + 1)) * zq (b ! q))"
      using basemul_pair_ok [OF _ _ _ _ z] by blast
    then show ?thesis
      using that(1) unfolding pair_product_def by simp
  qed
  have all: "\<bar>p ! i\<bar> \<le> 6658 \<and> residues p i = zq 169 * block_product 128 2 (residues a) (residues b) i" if "i < 256" for i
    using that
  proof (cases rule: position_cases)
    case (1 k)
    then show ?thesis
      using val [OF p(3) [of k]] basemul_roots [of k]
      by (simp add: block_product_def residues_def leaf_index conv_2 conv_2(2) [simplified] modulus_leaf zeta_def)
  next
    case (2 k)
    then show ?thesis
      using val [OF p(3) [of k]] basemul_roots [of k]
      by (simp add: block_product_def residues_def leaf_index conv_2 conv_2(2) [simplified] modulus_leaf zeta_def)
  next
    case (3 k)
    then show ?thesis
      using val [OF p(4) [of k]] basemul_roots [of k]
      by (simp add: block_product_def residues_def leaf_index conv_2 conv_2(2) [simplified] modulus_leaf zeta_def)
  next
    case (4 k)
    then show ?thesis
      using val [OF p(4) [of k]] basemul_roots [of k]
      by (simp add: block_product_def residues_def leaf_index conv_2 conv_2(2) [simplified] modulus_leaf zeta_def)
  qed
  then show ?thesis
    using p(1,2) by (intro that [of p] boundedI) simp_all
qed

text \<open>The coefficient \<open>i\<close> of the product of two polynomials modulo \<open>X ^ 256 + 1\<close>.\<close>

definition schoolbook :: "poly \<Rightarrow> poly \<Rightarrow> nat \<Rightarrow> int" where
  "schoolbook a b i = (\<Sum>s<256. \<Sum>t<256. if s + t = i then a ! s * b ! t else if s + t = i + 256 then - (a ! s * b ! t) else 0)"

lemma zq_schoolbook: "zq (schoolbook a b i) = ring_product (residues a) (residues b) i"
  unfolding schoolbook_def ring_product_def of_int_sum residues_def by (intro sum.cong refl) simp

lemma scaling: "zq 169 * zq 1441 * (128 * zq 169) = 1"
proof -
  have "zq (169 * 1441 * (128 * 169)) = zq 1"
    unfolding zq_eq_iff by simp
  then show ?thesis
    by (simp only: of_int_mult of_int_numeral of_int_1)
qed

lemma ntt_product_ok:
  assumes "bounded 9464 a" "bounded 9464 b"
  obtains x y p r where "poly_ntt a = Some x" "poly_ntt b = Some y" "poly_basemul x y = Some p" "poly_inv_ntt p = Some r"
    "bounded 3329 x" "bounded 3329 y" "bounded 3329 r" "\<And>i. i < 256 \<Longrightarrow> r ! i mod KEM_Q = schoolbook a b i mod KEM_Q"
proof -
  obtain x where x: "poly_ntt a = Some x" "bounded 1665 x" "\<And>i. i < 256 \<Longrightarrow> residues x i = Fwd 7 (residues a) i"
    using poly_ntt_ok [OF assms(1)] by blast
  obtain y where y: "poly_ntt b = Some y" "bounded 1665 y" "\<And>i. i < 256 \<Longrightarrow> residues y i = Fwd 7 (residues b) i"
    using poly_ntt_ok [OF assms(2)] by blast
  have small: "bounded 3329 x" "bounded 3329 y"
    using x(2) y(2) by (auto elim: bounded_mono)
  obtain p where p: "poly_basemul x y = Some p" "bounded 6658 p"
    "\<And>i. i < 256 \<Longrightarrow> residues p i = zq 169 * block_product 128 2 (residues x) (residues y) i"
    using poly_basemul_ok [OF small] by blast
  obtain r where r: "poly_inv_ntt p = Some r" "bounded 3329 r" "\<And>i. i < 256 \<Longrightarrow> residues r i = zq 169 * zq 1441 * Bwd 7 (residues p) i"
    using poly_inv_ntt_ok [OF bounded_mono [OF p(2)]] by auto
  have "r ! i mod KEM_Q = schoolbook a b i mod KEM_Q" if i: "i < 256" for i
  proof -
    have "Bwd 7 (residues p) i = Bwd 7 (\<lambda>i. zq 169 * block_product 128 2 (Fwd 7 (residues a)) (Fwd 7 (residues b)) i) i"
    proof (rule Bwd_cong [OF _ i])
      fix j :: nat assume j: "j < 256"
      have "j div 2 * 2 + s < 256" if "s < 2" for s
        using j that by arith
      then have "block_product 128 2 (residues x) (residues y) j = block_product 128 2 (Fwd 7 (residues a)) (Fwd 7 (residues b)) j"
        unfolding block_product_def using x(3) y(3) by (intro conv_cong refl) blast+
      then show "residues p j = zq 169 * block_product 128 2 (Fwd 7 (residues a)) (Fwd 7 (residues b)) j"
        unfolding p(3) [OF j] by (rule arg_cong)
    qed simp
    also have "\<dots> = 128 * zq 169 * ring_product (residues a) (residues b) i"
      by (rule transform_product [OF i])
    finally have "zq (r ! i) = (zq 169 * zq 1441 * (128 * zq 169)) * zq (schoolbook a b i)"
      using r(3) [OF i] unfolding residues_def [of r] zq_schoolbook by (simp only: mult.assoc)
    then show ?thesis
      unfolding scaling by (simp add: zq_eq_iff KEM_Q_def)
  qed
  then show ?thesis
    using x(1) y(1) p(1) r(1,2) small that by blast
qed

text \<open>Accumulating a product adds it, coefficient by coefficient.\<close>

lemma basemul_add_ok:
  assumes "bounded 3329 a" "bounded 3329 b" "length c = 256" "poly_basemul a b = Some p"
    "\<And>i. i < 256 \<Longrightarrow> i16 (c ! i + p ! i) = Some (c ! i + p ! i)"
  shows "basemul_add c a b = Some (map2 (+) c p)"
proof -
  obtain p' where p': "poly_basemul a b = Some p'" "length p' = 256"
    "\<And>i. i < 64 \<Longrightarrow> pair_product a b (4 * i) (ZETAS ! (64 + i)) = Some (p' ! (4 * i), p' ! (4 * i + 1))"
    "\<And>i. i < 64 \<Longrightarrow> pair_product a b (4 * i + 2) (- (ZETAS ! (64 + i))) = Some (p' ! (4 * i + 2), p' ! (4 * i + 3))"
    using poly_basemul_pairs [OF assms(1,2)] by blast
  then have p: "length p = 256"
    "\<And>i. i < 64 \<Longrightarrow> pair_product a b (4 * i) (ZETAS ! (64 + i)) = Some (p ! (4 * i), p ! (4 * i + 1))"
    "\<And>i. i < 64 \<Longrightarrow> pair_product a b (4 * i + 2) (- (ZETAS ! (64 + i))) = Some (p ! (4 * i + 2), p ! (4 * i + 3))"
    using assms(4) by simp_all
  define inner where "inner i = (\<lambda>(offset, z) c. do {
       let at = 4 * i + offset;
       (x, y) \<leftarrow> basemul_pair (a ! at) (a ! (at + 1)) (b ! at) (b ! (at + 1)) z;
       u \<leftarrow> i16 (c ! at + x);
       v \<leftarrow> i16 (c ! (at + 1) + y);
       Some (c[at := u, at + 1 := v]) })" for i :: nat
  define step where "step i c = do {
     let zeta = ZETAS ! (64 + i);
     minus_zeta \<leftarrow> i16 (- zeta);
     opt_fold (inner i) [(0, zeta), (2, minus_zeta)] c }" for i and c :: "int list"
  have inner: "inner i (d, z) e = Some (e[q := c ! q + p ! q, q + 1 := c ! (q + 1) + p ! (q + 1)])"
    if "q = 4 * i + d" "q + 1 < 256" "pair_product a b q z = Some (p ! q, p ! (q + 1))" "e ! q = c ! q" "e ! (q + 1) = c ! (q + 1)" for i d z e q
    using that assms(5) [of q] assms(5) [of "q + 1"] by (simp add: inner_def pair_product_def Let_def)
  have "opt_fold step [0..<n] c = Some (map2 (+) (take (4 * n) c) (take (4 * n) p) @ drop (4 * n) c)" if "n \<le> 64" for n
    using that
  proof (induction n)
    case (Suc n)
    then have n: "n < 64"
      by simp
    let ?e = "map2 (+) (take (4 * n) c) (take (4 * n) p) @ drop (4 * n) c"
    have e: "length ?e = 256" "\<And>i. i < 256 \<Longrightarrow> ?e ! i = (if i < 4 * n then c ! i + p ! i else c ! i)"
      using n assms(3) p(1) by (simp_all add: nth_append)
    let ?f = "?e[4 * n := c ! (4 * n) + p ! (4 * n), 4 * n + 1 := c ! (4 * n + 1) + p ! (4 * n + 1)]"
    let ?g = "?f[4 * n + 2 := c ! (4 * n + 2) + p ! (4 * n + 2), 4 * n + 2 + 1 := c ! (4 * n + 2 + 1) + p ! (4 * n + 2 + 1)]"
    have "inner n (0, ZETAS ! (64 + n)) ?e = Some ?f"
      using n p(2) [OF n] e(2) by (intro inner) simp_all
    moreover have "inner n (2, - (ZETAS ! (64 + n))) ?f = Some ?g"
      using n p(3) [OF n] e by (intro inner) (simp_all add: numeral_3_eq_3)
    ultimately have "step n ?e = Some ?g"
      using basemul_roots(2) [OF n] by (simp add: step_def Let_def)
    moreover have "?g = map2 (+) (take (4 * Suc n) c) (take (4 * Suc n) p) @ drop (4 * Suc n) c"
    proof (rule nth_equalityI)
      fix i assume "i < length ?g"
      then have "i < 256"
        using e(1) by simp
      then consider "i < 4 * n" | "i = 4 * n" | "i = 4 * n + 1" | "i = 4 * n + 2" | "i = 4 * n + 2 + 1" | "4 * Suc n \<le> i"
        by (atomize_elim, arith)
      then show "?g ! i = (map2 (+) (take (4 * Suc n) c) (take (4 * Suc n) p) @ drop (4 * Suc n) c) ! i"
        using \<open>i < 256\<close> e assms(3) p(1) n by cases (simp_all add: nth_append nth_list_update)
    qed (use n assms(3) p(1) in simp)
    ultimately show ?case
      using Suc by (simp add: opt_fold_snoc)
  qed simp
  from this [of 64] have "opt_fold step [0..<64] c = Some (map2 (+) c p)"
    using assms(3) p(1) by simp
  then show ?thesis
    by (simp add: basemul_add_def step_def [abs_def] inner_def [abs_def] KEM_N_def del: upt_rec_numeral)
qed

end
