(* ===== verification/Mlkem_Encode.thy ===== *)
theory Mlkem_Encode
  imports Mlkem_Compress Mlkem_Ntt
begin

unbundle bit_operations_syntax

text \<open>
  The byte packing of ML-KEM, \<open>crates/ic-mlkem/src/encode.rs\<close>, in its portable form: eight fields at
  a time for the widths the scheme uses, a bit buffer for the others. The bytes of a polynomial are the
  little-endian number whose digits to the base \<open>2 ^ d\<close> are its coefficients, and decoding reads the
  digits back.
\<close>

section \<open>Eight fields at a time\<close>

definition pack8 :: "nat \<Rightarrow> int list \<Rightarrow> bytes" where
  "pack8 D v = (let mask = 2 ^ D - 1;
      acc = fold (\<lambda>(k, x) acc. acc OR push_bit (D * k) (as_u16 x AND mask) mod 2 ^ 128) (enumerate 0 v) 0
    in le_bytes 16 (nat acc))"

definition unpack8 :: "nat \<Rightarrow> bytes \<Rightarrow> int list" where
  "unpack8 D buf = (let lo = int (le_val (take 8 buf)); hi = int (le_val (drop 8 buf)); mask = 2 ^ D - 1
    in map (\<lambda>k. let at = D * k;
         field = (if at + D \<le> 64 then drop_bit at lo else if 64 \<le> at then drop_bit (at - 64) hi
           else drop_bit at lo OR push_bit (64 - at) hi mod 2 ^ 64)
       in as_u16 (field AND mask)) [0..<8])"

text \<open>Chunks of eight coefficients against chunks of \<open>D\<close> bytes, as far as both go; the rest is kept.\<close>

definition encode_groups :: "nat \<Rightarrow> poly \<Rightarrow> bytes \<Rightarrow> bytes" where
  "encode_groups D p out = (let n = min (length p div 8) (length out div D)
    in concat (map (\<lambda>i. take D (pack8 D (take 8 (drop (8 * i) p)))) [0..<n]) @ drop (n * D) out)"

definition decode_groups :: "nat \<Rightarrow> bytes \<Rightarrow> poly \<Rightarrow> poly" where
  "decode_groups D data out = (let n = min (length data div D) (length out div 8)
    in concat (map (\<lambda>i. map as_i16 (unpack8 D (take D (drop (D * i) data) @ replicate (16 - D) 0))) [0..<n]) @ drop (8 * n) out)"

section \<open>Any width\<close>

text \<open>The inner loops, which write out whole bytes and read in enough of them.\<close>

function emit_bytes :: "int \<Rightarrow> nat \<Rightarrow> nat \<Rightarrow> bytes \<Rightarrow> (int \<times> nat \<times> nat \<times> bytes) option" where
  "emit_bytes acc bits at out = (if 8 \<le> bits
     then if at < length out then emit_bytes (acc div 2 ^ 8) (bits - 8) (at + 1) (out[at := of_int acc]) else None
     else Some (acc, bits, at, out))"
  by pat_completeness auto
termination by (relation "measure (\<lambda>(acc, bits, at, out). bits)") auto

declare emit_bytes.simps [simp del]

definition encode_bits :: "poly \<Rightarrow> nat \<Rightarrow> bytes \<Rightarrow> bytes option" where
  "encode_bits p d out = do {
     (acc, bits, at, out) \<leftarrow> opt_fold (\<lambda>c (acc, bits, at, out).
       emit_bytes (acc OR push_bit bits (as_u32 (as_u16 c) AND (2 ^ d - 1)) mod 2 ^ 32) (bits + d) at out) p (0, 0, 0, out);
     Some out }"

function fill_bits :: "bytes \<Rightarrow> nat \<Rightarrow> int \<Rightarrow> nat \<Rightarrow> nat \<Rightarrow> (int \<times> nat \<times> nat) option" where
  "fill_bits data d acc bits at = (if bits < d
     then if at < length data then fill_bits data d (acc OR push_bit bits (uint (data ! at)) mod 2 ^ 32) (bits + 8) (at + 1) else None
     else Some (acc, bits, at))"
  by pat_completeness auto
termination by (relation "measure (\<lambda>(data, d, acc, bits, at). d - bits)") auto

declare fill_bits.simps [simp del]

definition decode_bits :: "bytes \<Rightarrow> nat \<Rightarrow> poly \<Rightarrow> poly option" where
  "decode_bits data d out = do {
     (acc, bits, at, out) \<leftarrow> opt_fold (\<lambda>i (acc, bits, at, out). do {
       (acc, bits, at) \<leftarrow> fill_bits data d acc bits at;
       Some (acc div 2 ^ d, bits - d, at, out[i := as_i16 (acc AND (2 ^ d - 1))]) }) [0..<length out] (0, 0, 0, out);
     Some out }"

section \<open>The entry points\<close>

definition group_widths :: "nat list" where "group_widths = [1, 4, 5, 10, 11, 12]"

definition byte_encode :: "poly \<Rightarrow> nat \<Rightarrow> bytes \<Rightarrow> bytes option" where
  "byte_encode p d out = (if length out \<noteq> 32 * d then None
     else if d \<in> set group_widths then Some (encode_groups d p out) else encode_bits p d out)"

definition decode_twelve :: "bytes \<Rightarrow> poly \<Rightarrow> poly option" where
  "decode_twelve data out = map_coefficients (\<lambda>c. reduce_12 (as_u16 c)) (decode_groups 12 data out)"

definition byte_decode :: "bytes \<Rightarrow> nat \<Rightarrow> poly \<Rightarrow> poly option" where
  "byte_decode data d out = (if length data \<noteq> 32 * d then None
     else if d = 12 then decode_twelve data out
     else if d \<in> set group_widths then Some (decode_groups d data out) else decode_bits data d out)"

definition all_below_q_12_scalar :: "bytes \<Rightarrow> bool" where
  "all_below_q_12_scalar data = (if length data mod 384 \<noteq> 0 then False
     else fold (\<lambda>i below. fold (\<lambda>v below. below \<and> v < as_u16 KEM_Q) (unpack8 12 (take 12 (drop (12 * i) data) @ replicate 4 0)) below)
       [0..<length data div 12] True)"

definition all_below_q_12 :: "bytes \<Rightarrow> bool" where
  "all_below_q_12 data = (if length data mod 384 \<noteq> 0 then False else all_below_q_12_scalar data)"

definition compress_poly :: "poly \<Rightarrow> nat \<Rightarrow> poly \<Rightarrow> poly option" where
  "compress_poly p d out = opt_fold (\<lambda>i out. do { v \<leftarrow> compress (p ! i) d; Some (out[i := as_i16 v]) })
     [0..<min (length out) (length p)] out"

definition compress_encode :: "poly \<Rightarrow> nat \<Rightarrow> bytes \<Rightarrow> bytes option" where
  "compress_encode p d out = do { compressed \<leftarrow> compress_poly p d POLY_ZERO; byte_encode compressed d out }"

definition decode_decompress :: "bytes \<Rightarrow> nat \<Rightarrow> poly \<Rightarrow> poly option" where
  "decode_decompress data d out = do { p \<leftarrow> byte_decode data d out; map_coefficients (\<lambda>c. decompress (as_u16 c) d) p }"

definition encoded_len :: "nat \<Rightarrow> nat" where
  "encoded_len d = 32 * d"

section \<open>The number of a field list\<close>

primrec field_val :: "nat \<Rightarrow> int list \<Rightarrow> int" where
  "field_val d [] = 0"
| "field_val d (x # xs) = x mod 2 ^ d + 2 ^ d * field_val d xs"

lemma field_val_append: "field_val d (xs @ ys) = field_val d xs + 2 ^ (d * length xs) * field_val d ys"
  by (induction xs) (simp_all add: algebra_simps power_add)

lemma field_val_bounds: "0 \<le> field_val d xs" "field_val d xs < 2 ^ (d * length xs)"
proof -
  have "0 \<le> field_val d xs \<and> field_val d xs < 2 ^ (d * length xs)"
  proof (induction xs)
    case (Cons x xs)
    have "x mod 2 ^ d + 2 ^ d * field_val d xs \<le> (2 ^ d - 1) + 2 ^ d * (2 ^ (d * length xs) - 1)"
      using Cons.IH by (intro add_mono mult_left_mono) (simp_all add: zle_diff1_eq)
    also have "\<dots> < 2 ^ (d * length (x # xs))"
      by (simp add: power_add algebra_simps)
    finally show ?case
      using Cons.IH by simp
  qed simp
  then show "0 \<le> field_val d xs" "field_val d xs < 2 ^ (d * length xs)"
    by simp_all
qed

lemma field_val_digit: "i < length xs \<Longrightarrow> field_val d xs div 2 ^ (d * i) mod 2 ^ d = xs ! i mod 2 ^ d"
proof (induction xs arbitrary: i)
  case (Cons x xs)
  have tail: "(x mod 2 ^ d + 2 ^ d * field_val d xs) div 2 ^ d = field_val d xs"
    by (simp add: div_add1_eq)
  show ?case
  proof (cases i)
    case (Suc j)
    then show ?thesis
      using Cons tail by (simp add: power_add zdiv_zmult2_eq)
  qed simp
qed simp

lemma disjoint_or: "a OR push_bit n b = a + 2 ^ n * b" if "0 \<le> a" "a < 2 ^ n" for a b :: int
proof -
  have "a AND push_bit n b = 0"
  proof (rule bit_eqI)
    fix m
    have "\<not> bit a m" if "n \<le> m"
    proof -
      have "take_bit n a = a"
        using \<open>0 \<le> a\<close> \<open>a < 2 ^ n\<close> by (simp add: take_bit_int_eq_self)
      then show ?thesis
        using that by (metis bit_take_bit_iff not_less)
    qed
    then show "bit (a AND push_bit n b) m \<longleftrightarrow> bit 0 m"
      by (auto simp: bit_and_iff bit_push_bit_iff)
  qed
  then show ?thesis
    using disjunctive_add_eq_or [of a "push_bit n b"] by (simp add: push_bit_eq_mult mult.commute)
qed

lemma and_mask: "x AND (2 ^ d - 1) = x mod 2 ^ d" for x :: int
  by (simp add: mask_eq_exp_minus_1 [symmetric] take_bit_eq_mask [symmetric] take_bit_eq_mod)

lemma as_u16_mod: "d \<le> 16 \<Longrightarrow> as_u16 x mod 2 ^ d = x mod 2 ^ d"
  unfolding as_u16_def by (rule mod_mod_cancel) (rule le_imp_power_dvd)

section \<open>Bytes as digits\<close>

lemma take_le_bytes: "m \<le> n \<Longrightarrow> take m (le_bytes n k) = le_bytes m k"
proof (induction n arbitrary: m k)
  case (Suc n)
  then show ?case
    by (cases m) simp_all
qed simp

lemma power_256: "(256::int) ^ n = 2 ^ (8 * n)"
  by (simp add: power_mult)

lemma int_le_val_le_bytes: "0 \<le> a \<Longrightarrow> int (le_val (le_bytes n (nat a))) = a mod 2 ^ (8 * n)"
  by (simp add: le_val_le_bytes zmod_int power_256)

lemma le_val_zeros [simp]: "le_val (replicate n 0) = 0"
  by (induction n) simp_all

lemma le_val_slice: "int (le_val (take n (drop m bs))) = int (le_val bs) div 2 ^ (8 * m) mod 2 ^ (8 * n)" if "m + n \<le> length bs"
proof -
  have "bs = take m bs @ take n (drop m bs) @ drop (m + n) bs"
    by (metis append_take_drop_id drop_drop add.commute)
  then have "le_val bs = le_val (take m bs) + 256 ^ m * (le_val (take n (drop m bs)) + 256 ^ n * le_val (drop (m + n) bs))"
    using that by (metis (no_types, lifting) add_leD1 le_val_append length_take length_drop min.absorb2 add_le_imp_le_diff add.commute)
  then have "le_val bs div 256 ^ m = le_val (take n (drop m bs)) + 256 ^ n * le_val (drop (m + n) bs)"
    using le_val_bound [of "take m bs"] that by simp
  then have "le_val bs div 256 ^ m mod 256 ^ n = le_val (take n (drop m bs))"
    using le_val_bound [of "take n (drop m bs)"] that by simp
  then have "int (le_val (take n (drop m bs))) = int (le_val bs div 256 ^ m mod 256 ^ n)"
    by simp
  then show ?thesis
    by (simp only: zmod_int zdiv_int of_nat_power of_nat_numeral power_256)
qed

lemma slice_of_mod: "x mod 2 ^ n div 2 ^ a mod 2 ^ b = x div 2 ^ a mod 2 ^ b" if "a + b \<le> n" for x :: int
proof -
  have "take_bit b (drop_bit a (take_bit n x)) = take_bit b (drop_bit a x)"
  proof -
    have "min b (n - a) = b"
      using that by simp
    then show ?thesis
      by (simp add: drop_bit_take_bit)
  qed
  then show ?thesis
    by (simp only: take_bit_eq_mod drop_bit_eq_div)
qed

lemma int_le_div_back: "z \<le> x div m \<Longrightarrow> 0 < m \<Longrightarrow> m * z \<le> x" for x m z :: int
  using mult_left_mono [of z "x div m" m] mult_div_mod_eq [of m x] pos_mod_sign [of m x] by linarith

lemma div_less_bound: "x < m * z \<Longrightarrow> 0 < m \<Longrightarrow> x div m < z" for x m z :: int
  by (metis int_le_div_back linorder_not_less)

lemma div_div_power: "x div 2 ^ a div 2 ^ b = x div 2 ^ (a + b)" for x :: int
  by (simp add: power_add zdiv_zmult2_eq)

section \<open>Groups of eight\<close>

lemma pack8_acc:
  "0 \<le> acc \<Longrightarrow> acc < 2 ^ (D * k) \<Longrightarrow> D \<le> 16 \<Longrightarrow> D * (k + length v) \<le> 128 \<Longrightarrow>
   fold (\<lambda>(k, x) acc. acc OR push_bit (D * k) (as_u16 x AND (2 ^ D - 1)) mod 2 ^ 128) (enumerate k v) acc = acc + 2 ^ (D * k) * field_val D v"
proof (induction v arbitrary: k acc)
  case (Cons x v)
  have m: "as_u16 x AND (2 ^ D - 1) = x mod 2 ^ D"
    using Cons.prems by (simp add: and_mask as_u16_mod)
  have field: "0 \<le> x mod 2 ^ D" "x mod 2 ^ D < 2 ^ D"
    by simp_all
  have step: "2 ^ (D * k) * (x mod 2 ^ D) \<le> 2 ^ (D * k) * (2 ^ D - 1)"
    using field(2) by (intro mult_left_mono) simp_all
  have top: "(2::int) ^ (D * k + D) \<le> 2 ^ 128"
  proof (rule power_increasing)
    have "D * k + D \<le> D * (k + length (x # v))"
      by (simp add: algebra_simps)
    then show "D * k + D \<le> 128"
      by (rule order_trans) (rule Cons.prems(4))
  qed simp
  have "push_bit (D * k) (x mod 2 ^ D) mod 2 ^ 128 = push_bit (D * k) (x mod 2 ^ D)"
  proof -
    have "0 < (2::int) ^ (D * k)"
      by simp
    then have "2 ^ (D * k) * (x mod 2 ^ D) < 2 ^ (D * k + D)"
      using step by (simp only: power_add right_diff_distrib)
    then show ?thesis
      using top field unfolding push_bit_eq_mult by (intro mod_pos_pos_trivial) (simp_all add: mult.commute)
  qed
  then have "acc OR push_bit (D * k) (as_u16 x AND (2 ^ D - 1)) mod 2 ^ 128 = acc + 2 ^ (D * k) * (x mod 2 ^ D)"
    unfolding m using Cons.prems(1,2) by (simp add: disjoint_or)
  moreover have "acc + 2 ^ (D * k) * (x mod 2 ^ D) < 2 ^ (D * Suc k)"
    using Cons.prems(2) step by (simp add: power_add algebra_simps)
  ultimately show ?case
    using Cons.IH [of "acc + 2 ^ (D * k) * (x mod 2 ^ D)" "Suc k"] Cons.prems by (simp add: power_add algebra_simps)
qed simp

lemma pack8_ok:
  assumes "length v = 8" "D \<le> 12"
  shows "length (take D (pack8 D v)) = D" "int (le_val (take D (pack8 D v))) = field_val D v"
proof -
  have "take D (pack8 D v) = le_bytes D (nat (field_val D v))"
    using assms pack8_acc [of 0 D 0 v] by (simp add: pack8_def Let_def take_le_bytes)
  then show "length (take D (pack8 D v)) = D" "int (le_val (take D (pack8 D v))) = field_val D v"
    using field_val_bounds [of D v] assms by (simp_all add: int_le_val_le_bytes mult.commute)
qed

lemma encode_groups_ok:
  assumes "length p = 256" "length out = 32 * D" "1 \<le> D" "D \<le> 12"
  shows "length (encode_groups D p out) = 32 * D" "int (le_val (encode_groups D p out)) = field_val D p"
proof -
  define g where "g i = take D (pack8 D (take 8 (drop (8 * i) p)))" for i
  have g: "length (g i) = D" "int (le_val (g i)) = field_val D (take 8 (drop (8 * i) p))" if "i < 32" for i
    using that assms pack8_ok [of "take 8 (drop (8 * i) p)" D] by (simp_all add: g_def)
  have all: "length (concat (map g [0..<n])) = n * D \<and> int (le_val (concat (map g [0..<n]))) = field_val D (take (8 * n) p)" if "n \<le> 32" for n
    using that
  proof (induction n)
    case (Suc n)
    have "take (8 * Suc n) p = take (8 * n) p @ take 8 (drop (8 * n) p)"
    proof -
      have "8 * Suc n = 8 * n + 8"
        by simp
      then show ?thesis
        by (simp only: take_add)
    qed
    then show ?case
      using Suc g [of n] assms(1) by (simp add: le_val_append field_val_append power_256 ac_simps)
  qed simp
  have "encode_groups D p out = concat (map g [0..<32])"
    using assms by (simp add: encode_groups_def g_def [abs_def] Let_def del: upt_rec_numeral)
  then show "length (encode_groups D p out) = 32 * D" "int (le_val (encode_groups D p out)) = field_val D p"
    using all [of 32] assms(1) by simp_all
qed

lemma field_small: "D \<le> 12 \<Longrightarrow> 0 \<le> y mod 2 ^ D \<and> y mod 2 ^ D < 4096" for y :: int
proof -
  assume D: "D \<le> 12"
  have "(2::int) ^ D \<le> 4096"
    using power_increasing [OF D, of "2::int"] by simp
  moreover have "0 \<le> y mod 2 ^ D" "y mod 2 ^ D < 2 ^ D"
    by simp_all
  ultimately show ?thesis
    by linarith
qed

lemma as_u16_small: "0 \<le> y \<and> y < 4096 \<Longrightarrow> as_u16 y = y"
  by (simp add: as_u16_def)

lemma as_i16_small: "0 \<le> y \<and> y < 4096 \<Longrightarrow> as_i16 y = y"
  by (simp add: as_i16_id)

lemma unpack8_ok:
  assumes "length buf = 16" "D \<le> 12"
  shows "unpack8 D buf = map (\<lambda>k. int (le_val buf) div 2 ^ (D * k) mod 2 ^ D) [0..<8]"
proof -
  define lo hi where "lo = int (le_val (take 8 buf))" and "hi = int (le_val (drop 8 buf))"
  have lo: "0 \<le> lo" "lo < 2 ^ 64"
    using le_val_bound [of "take 8 buf"] assms(1) by (simp_all add: lo_def)
  have v: "int (le_val buf) = lo + 2 ^ 64 * hi"
    using le_val_append [of "take 8 buf" "drop 8 buf"] assms(1) by (simp add: lo_def hi_def)
  have field: "as_u16 ((if at + D \<le> 64 then drop_bit at lo else if 64 \<le> at then drop_bit (at - 64) hi
      else drop_bit at lo OR push_bit (64 - at) hi mod 2 ^ 64) AND (2 ^ D - 1)) = int (le_val buf) div 2 ^ at mod 2 ^ D" (is "as_u16 (?f AND _) = _") for at
  proof -
    have "?f mod 2 ^ D = (lo + 2 ^ 64 * hi) div 2 ^ at mod 2 ^ D"
    proof -
      consider "at + D \<le> 64" | "\<not> at + D \<le> 64" "64 \<le> at" | "\<not> at + D \<le> 64" "at < 64"
        by linarith
      then show ?thesis
      proof cases
        case 1
        then show ?thesis
          using slice_of_mod [of at D 64 "lo + 2 ^ 64 * hi"] lo by (simp add: drop_bit_eq_div)
      next
        case 2
        then have "(lo + 2 ^ 64 * hi) div 2 ^ at = (lo + 2 ^ 64 * hi) div 2 ^ 64 div 2 ^ (at - 64)"
          by (simp only: div_div_power) simp
        then show ?thesis
          using 2 lo by (simp add: drop_bit_eq_div)
      next
        case 3
        then have p: "(2::int) ^ 64 = 2 ^ at * 2 ^ (64 - at)"
          by (simp only: power_add [symmetric]) simp
        have "lo div 2 ^ at < 2 ^ (64 - at)"
          using lo p by (intro div_less_bound) simp_all
        then have low: "0 \<le> drop_bit at lo" "drop_bit at lo < 2 ^ (64 - at)"
          using lo by (simp_all add: drop_bit_eq_div pos_imp_zdiv_nonneg_iff)
        have "push_bit (64 - at) hi mod 2 ^ 64 = push_bit (64 - at) (hi mod 2 ^ at)"
          unfolding push_bit_eq_mult p by (rule mod_mult_mult2)
        then have "?f = lo div 2 ^ at + 2 ^ (64 - at) * (hi mod 2 ^ at)"
          using 3 low by (simp add: disjoint_or drop_bit_eq_div)
        moreover have "(lo + 2 ^ 64 * hi) div 2 ^ at = lo div 2 ^ at + 2 ^ (64 - at) * hi"
          unfolding p using div_mult_self4 [of "2 ^ at" lo "2 ^ (64 - at) * hi"] by (simp add: mult.assoc)
        moreover have "(lo div 2 ^ at + 2 ^ (64 - at) * (hi mod 2 ^ at)) mod 2 ^ D = (lo div 2 ^ at + 2 ^ (64 - at) * hi) mod 2 ^ D"
        proof -
          have "(2::int) ^ D dvd 2 ^ (64 - at) * 2 ^ at"
            unfolding power_add [symmetric] using 3 assms(2) by (intro le_imp_power_dvd) simp
          moreover have "2 ^ (64 - at) * hi - 2 ^ (64 - at) * (hi mod 2 ^ at) = 2 ^ (64 - at) * 2 ^ at * (hi div 2 ^ at)"
            by (simp add: minus_mod_eq_mult_div [symmetric] right_diff_distrib mult.assoc)
          ultimately show ?thesis
            unfolding mod_eq_dvd_iff by (subst dvd_diff_commute) simp
        qed
        ultimately show ?thesis
          by simp
      qed
    qed
    moreover have "as_u16 (y mod 2 ^ D) = y mod 2 ^ D" for y
      using field_small [OF assms(2)] by (rule as_u16_small)
    ultimately show ?thesis
      unfolding and_mask v by simp
  qed
  show ?thesis
    unfolding unpack8_def Let_def lo_def [symmetric] hi_def [symmetric] field ..
qed

lemma concat_nth_groups:
  assumes "\<And>i. i < n \<Longrightarrow> length (g i) = 8" "k < 8 * n"
  shows "concat (map g [0..<n]) ! k = g (k div 8) ! (k mod 8)"
  using assms
proof (induction n)
  case (Suc n)
  have len: "length (concat (map g [0..<m])) = 8 * m" if "m \<le> Suc n" for m
    using that by (induction m) (simp_all add: Suc.prems(1))
  show ?case
  proof (cases "k < 8 * n")
    case True
    then show ?thesis
      using Suc.IH Suc.prems(1) len [of n] by (simp add: nth_append)
  next
    case False
    then obtain j where "k = j + n * 8" "j < 8"
      using Suc.prems(2) by (intro that [of "k - n * 8"]) simp_all
    then have "k div 8 = n" "k mod 8 = k - 8 * n"
      by simp_all
    then show ?thesis
      using False len [of n] by (simp add: nth_append)
  qed
qed simp

lemma length_concat_groups: "(\<And>i. i < n \<Longrightarrow> length (g i) = 8) \<Longrightarrow> length (concat (map g [0..<n])) = 8 * n"
  by (induction n) simp_all

lemma group_fields:
  assumes "D * i + D \<le> length data" "D \<le> 12"
  shows "unpack8 D (take D (drop (D * i) data) @ replicate (16 - D) 0) = map (\<lambda>k. int (le_val data) div 2 ^ (D * (8 * i + k)) mod 2 ^ D) [0..<8]"
proof -
  define buf :: bytes where "buf = take D (drop (D * i) data) @ replicate (16 - D) 0"
  have buf: "length buf = 16"
    using assms by (simp add: buf_def)
  have val: "int (le_val buf) = int (le_val data) div 2 ^ (8 * (D * i)) mod 2 ^ (8 * D)"
    using le_val_slice [OF assms(1)] by (simp add: buf_def le_val_append)
  have digit: "int (le_val buf) div 2 ^ (D * k) mod 2 ^ D = int (le_val data) div 2 ^ (D * (8 * i + k)) mod 2 ^ D" if "k < 8" for k
  proof -
    have "D * Suc k \<le> D * 8"
      using that by (intro mult_left_mono) simp_all
    then have "int (le_val buf) div 2 ^ (D * k) mod 2 ^ D = int (le_val data) div 2 ^ (8 * (D * i)) div 2 ^ (D * k) mod 2 ^ D"
      unfolding val by (intro slice_of_mod) simp
    also have "\<dots> = int (le_val data) div 2 ^ (D * (8 * i + k)) mod 2 ^ D"
      unfolding div_div_power by (simp add: algebra_simps)
    finally show ?thesis .
  qed
  show ?thesis
    unfolding buf_def [symmetric] unpack8_ok [OF buf assms(2)]
    by (intro map_cong refl digit) (simp del: upt_rec_numeral)
qed

lemma decode_groups_ok:
  assumes "length data = 32 * D" "length out = 256" "1 \<le> D" "D \<le> 12"
  shows "decode_groups D data out = map (\<lambda>k. int (le_val data) div 2 ^ (D * k) mod 2 ^ D) [0..<256]"
proof -
  define g where "g i = map as_i16 (unpack8 D (take D (drop (D * i) data) @ replicate (16 - D) 0))" for i
  have g: "g i = map (\<lambda>k. int (le_val data) div 2 ^ (D * (8 * i + k)) mod 2 ^ D) [0..<8]" if "i < 32" for i
  proof -
    have "D * Suc i \<le> D * 32"
      using that by (intro mult_left_mono) simp_all
    then have fits: "D * i + D \<le> length data"
      using assms(1) by simp
    have small: "as_i16 (y mod 2 ^ D) = y mod 2 ^ D" for y
      using field_small [OF assms(4)] by (rule as_i16_small)
    show ?thesis
      unfolding g_def group_fields [OF fits assms(4)] map_map comp_def small ..
  qed
  have len: "length (g i) = 8" if "i < 32" for i
    using g [OF that] by simp
  have "decode_groups D data out = concat (map g [0..<32])"
    using assms by (simp add: decode_groups_def g_def [abs_def] Let_def del: upt_rec_numeral)
  moreover have "concat (map g [0..<32]) = map (\<lambda>k. int (le_val data) div 2 ^ (D * k) mod 2 ^ D) [0..<256]"
  proof (rule nth_equalityI)
    show "length (concat (map g [0..<32])) = length (map (\<lambda>k. int (le_val data) div 2 ^ (D * k) mod 2 ^ D) [0..<256])"
      using length_concat_groups [of 32 g] len by simp
    fix k assume "k < length (concat (map g [0..<32]))"
    then have k: "k < 256"
      using length_concat_groups [of 32 g] len by simp
    have "concat (map g [0..<32]) ! k = g (k div 8) ! (k mod 8)"
      using len k by (intro concat_nth_groups) simp_all
    also have "\<dots> = int (le_val data) div 2 ^ (D * (8 * (k div 8) + k mod 8)) mod 2 ^ D"
      using g [of "k div 8"] k by (simp del: upt_rec_numeral add: less_mult_imp_div_less)
    finally show "concat (map g [0..<32]) ! k = map (\<lambda>k. int (le_val data) div 2 ^ (D * k) mod 2 ^ D) [0..<256] ! k"
      using k by (simp del: upt_rec_numeral)
  qed
  ultimately show ?thesis
    by simp
qed

section \<open>The bit buffer\<close>

lemma emit_bytes_ok:
  "0 \<le> acc \<Longrightarrow> at + bits div 8 \<le> length out \<Longrightarrow>
   emit_bytes acc bits at out = Some (acc div 2 ^ (8 * (bits div 8)), bits mod 8, at + bits div 8,
     take at out @ le_bytes (bits div 8) (nat acc) @ drop (at + bits div 8) out)"
proof (induction acc bits at out rule: emit_bytes.induct)
  case (1 acc bits at out)
  show ?case
  proof (cases "8 \<le> bits")
    case True
    define n where "n = (bits - 8) div 8"
    have n: "bits div 8 = Suc n" "(bits - 8) div 8 = n" "(bits - 8) mod 8 = bits mod 8"
      using True by (simp_all add: n_def le_div_geq le_mod_geq)
    have at: "at < length out"
      using 1(3) n(1) by simp
    have w: "(of_int acc :: u8) = of_nat (nat acc mod 256)"
      using 1(2) by (simp add: word_of_nat_eq_iff take_bit_eq_mod flip: of_nat_nat)
    have nn: "nat (acc div 2 ^ 8) = nat acc div 256"
      using 1(2) by (simp add: nat_div_distrib)
    have "emit_bytes acc bits at out = emit_bytes (acc div 2 ^ 8) (bits - 8) (at + 1) (out[at := of_int acc])"
      using True at by (simp add: emit_bytes.simps [of acc bits])
    also have "\<dots> = Some (acc div 2 ^ 8 div 2 ^ (8 * n), bits mod 8, at + 1 + n,
        take (at + 1) (out[at := of_int acc]) @ le_bytes n (nat (acc div 2 ^ 8)) @ drop (at + 1 + n) (out[at := of_int acc]))"
      using 1(1) [OF True at] 1(2,3) n by (simp add: pos_imp_zdiv_nonneg_iff)
    also have "\<dots> = Some (acc div 2 ^ (8 * (bits div 8)), bits mod 8, at + bits div 8,
        take at out @ le_bytes (bits div 8) (nat acc) @ drop (at + bits div 8) out)"
      using at unfolding n(1) div_div_power nn by (simp add: w take_Suc_conv_app_nth)
    finally show ?thesis .
  next
    case False
    then show ?thesis
      by (simp add: emit_bytes.simps [of acc bits])
  qed
qed

lemma encode_bits_run:
  assumes "0 \<le> acc" "acc < 2 ^ bits" "bits < 8" "d \<le> 12" "at + (bits + d * length p) div 8 \<le> length out"
  shows "\<exists>acc' bs. opt_fold (\<lambda>c (acc, bits, at, out).
       emit_bytes (acc OR push_bit bits (as_u32 (as_u16 c) AND (2 ^ d - 1)) mod 2 ^ 32) (bits + d) at out) p (acc, bits, at, out)
     = Some (acc', (bits + d * length p) mod 8, at + (bits + d * length p) div 8,
         take at out @ bs @ drop (at + (bits + d * length p) div 8) out) \<and>
     length bs = (bits + d * length p) div 8 \<and> 0 \<le> acc' \<and> acc' < 2 ^ ((bits + d * length p) mod 8) \<and>
     int (le_val bs) + 2 ^ (8 * length bs) * acc' = acc + 2 ^ bits * field_val d p"
  using assms
proof (induction p arbitrary: acc bits at out)
  case Nil
  then show ?case
    by simp
next
  case (Cons c p)
  let ?step = "\<lambda>c (acc, bits, at, out). emit_bytes (acc OR push_bit bits (as_u32 (as_u16 c) AND (2 ^ d - 1)) mod 2 ^ 32) (bits + d) at out"
  define A where "A = acc + 2 ^ bits * (c mod 2 ^ d)"
  define n where "n = (bits + d) div 8"
  have as: "as_u32 (as_u16 c) AND (2 ^ d - 1) = c mod 2 ^ d"
    using Cons.prems(4) by (simp add: and_mask as_u16_mod) (simp add: as_u32_def as_u16_def as_u16_mod [unfolded as_u16_def, simplified])
  have field: "0 \<le> c mod 2 ^ d" "c mod 2 ^ d \<le> 2 ^ d - 1"
    by (simp_all add: zle_diff1_eq)
  have step: "2 ^ bits * (c mod 2 ^ d) \<le> 2 ^ bits * (2 ^ d - 1)"
    using field(2) by (intro mult_left_mono) simp_all
  have A: "0 \<le> A" "A < 2 ^ (bits + d)"
    using Cons.prems(1,2) field step by (simp_all add: A_def power_add right_diff_distrib)
  have "(2::int) ^ (bits + d) \<le> 2 ^ 32"
    using Cons.prems by (intro power_increasing) simp_all
  then have "2 ^ bits * (c mod 2 ^ d) < 4294967296"
    using A Cons.prems(1) by (simp add: A_def)
  then have "push_bit bits (c mod 2 ^ d) mod 2 ^ 32 = push_bit bits (c mod 2 ^ d)"
    using field by (simp add: push_bit_eq_mult mult.commute)
  then have acc: "acc OR push_bit bits (as_u32 (as_u16 c) AND (2 ^ d - 1)) mod 2 ^ 32 = A"
    unfolding as A_def using Cons.prems(1,2) by (simp add: disjoint_or)
  have total: "(bits + d * length (c # p)) div 8 = n + ((bits + d) mod 8 + d * length p) div 8"
    "(bits + d * length (c # p)) mod 8 = ((bits + d) mod 8 + d * length p) mod 8"
  proof -
    have "bits + d * length (c # p) = n * 8 + ((bits + d) mod 8 + d * length p)"
      using div_mult_mod_eq [of "bits + d" 8] by (simp add: n_def)
    then show "(bits + d * length (c # p)) div 8 = n + ((bits + d) mod 8 + d * length p) div 8"
      "(bits + d * length (c # p)) mod 8 = ((bits + d) mod 8 + d * length p) mod 8"
      by (simp_all only: div_mult_self3 mod_mult_self3)
  qed
  have fits: "at + n \<le> length out" "at + n + ((bits + d) mod 8 + d * length p) div 8 \<le> length out"
    using Cons.prems(5) unfolding total by simp_all
  let ?out = "take at out @ le_bytes n (nat A) @ drop (at + n) out"
  have out: "length ?out = length out" "take (at + n) ?out = take at out @ le_bytes n (nat A)" "drop (at + n + m) ?out = drop (at + n + m) out" for m
    using fits(1) by (simp_all add: ac_simps)
  have emit: "emit_bytes A (bits + d) at out = Some (A div 2 ^ (8 * n), (bits + d) mod 8, at + n, ?out)"
    using emit_bytes_ok [OF A(1), of at "bits + d" out] fits(1) by (simp add: n_def)
  have rest: "0 \<le> A div 2 ^ (8 * n)" "A div 2 ^ (8 * n) < 2 ^ ((bits + d) mod 8)"
  proof -
    show "0 \<le> A div 2 ^ (8 * n)"
      using A(1) by (simp add: pos_imp_zdiv_nonneg_iff)
    have "(2::int) ^ (bits + d) = 2 ^ (8 * n) * 2 ^ ((bits + d) mod 8)"
      unfolding power_add [symmetric] n_def by simp
    then show "A div 2 ^ (8 * n) < 2 ^ ((bits + d) mod 8)"
      using A(2) by (intro div_less_bound) simp_all
  qed
  obtain acc' bs where run: "opt_fold ?step p (A div 2 ^ (8 * n), (bits + d) mod 8, at + n, ?out)
       = Some (acc', ((bits + d) mod 8 + d * length p) mod 8, at + n + ((bits + d) mod 8 + d * length p) div 8,
           take (at + n) ?out @ bs @ drop (at + n + ((bits + d) mod 8 + d * length p) div 8) ?out)"
     "length bs = ((bits + d) mod 8 + d * length p) div 8" "0 \<le> acc'" "acc' < 2 ^ (((bits + d) mod 8 + d * length p) mod 8)"
     "int (le_val bs) + 2 ^ (8 * length bs) * acc' = A div 2 ^ (8 * n) + 2 ^ ((bits + d) mod 8) * field_val d p"
    using Cons.IH [OF rest _ Cons.prems(4), of "at + n" ?out] fits(2) out(1) by auto
  have "int (le_val (le_bytes n (nat A) @ bs)) + 2 ^ (8 * length (le_bytes n (nat A) @ bs)) * acc' = acc + 2 ^ bits * field_val d (c # p)"
  proof -
    have "int (le_val (le_bytes n (nat A) @ bs)) + 2 ^ (8 * length (le_bytes n (nat A) @ bs)) * acc'
      = A mod 2 ^ (8 * n) + 2 ^ (8 * n) * (int (le_val bs) + 2 ^ (8 * length bs) * acc')"
      using int_le_val_le_bytes [OF A(1), of n] by (simp add: le_val_append power_256 power_add distrib_left ac_simps)
    also have "\<dots> = A + 2 ^ (8 * n) * 2 ^ ((bits + d) mod 8) * field_val d p"
      unfolding run(5) using mod_mult_div_eq [of A "2 ^ (8 * n)"] by (simp add: distrib_left)
    also have "2 ^ (8 * n) * 2 ^ ((bits + d) mod 8) = (2::int) ^ (bits + d)"
      unfolding power_add [symmetric] n_def by simp
    finally show ?thesis
      by (simp add: A_def power_add algebra_simps)
  qed
  moreover have "opt_fold ?step (c # p) (acc, bits, at, out) = Some (acc', ((bits + d) mod 8 + d * length p) mod 8,
      at + (n + ((bits + d) mod 8 + d * length p) div 8),
      take at out @ (le_bytes n (nat A) @ bs) @ drop (at + (n + ((bits + d) mod 8 + d * length p) div 8)) out)"
    by (simp only: opt_fold.simps prod.case acc emit bind.bind_lunit run(1) out append_assoc add.assoc [symmetric])
  moreover have "length (le_bytes n (nat A) @ bs) = n + ((bits + d) mod 8 + d * length p) div 8"
    using run(2) by simp
  ultimately show ?case
    using run(3,4) unfolding total by blast
qed

lemma encode_bits_ok:
  assumes "length p = 256" "length out = 32 * d" "d \<le> 12"
  obtains bs where "encode_bits p d out = Some bs" "length bs = 32 * d" "int (le_val bs) = field_val d p"
proof -
  have e: "0 + d * length p = 32 * d * 8"
    using assms(1) by simp
  obtain acc bs where "encode_bits p d out = Some bs" "length bs = 32 * d" "0 \<le> acc" "acc < 1"
    "int (le_val bs) + 2 ^ (8 * length bs) * acc = field_val d p"
    using encode_bits_run [of 0 0 d 0 p out] assms unfolding e
    by (force simp: encode_bits_def simp del: push_bit_and)
  moreover from this have "acc = 0"
    by simp
  ultimately show ?thesis
    using that by simp
qed

lemma fill_bits_ok:
  "0 \<le> acc \<Longrightarrow> acc < 2 ^ bits \<Longrightarrow> bits < d + 8 \<Longrightarrow> d \<le> 12 \<Longrightarrow> at \<le> length data \<Longrightarrow> d \<le> bits + 8 * (length data - at) \<Longrightarrow>
   \<exists>acc' bits' at'. fill_bits data d acc bits at = Some (acc', bits', at') \<and> d \<le> bits' \<and> bits' < d + 8 \<and> 0 \<le> acc' \<and> acc' < 2 ^ bits' \<and>
     at' \<le> length data \<and> bits' + 8 * (length data - at') = bits + 8 * (length data - at) \<and>
     acc' + 2 ^ bits' * int (le_val (drop at' data)) = acc + 2 ^ bits * int (le_val (drop at data))"
proof (induction data d acc bits at rule: fill_bits.induct)
  case (1 data d acc bits at)
  show ?case
  proof (cases "bits < d")
    case True
    then have at: "at < length data"
      using 1(7) by simp
    define b where "b = uint (data ! at)"
    have b: "0 \<le> b" "b \<le> 255"
      unfolding b_def uint_nat using unat_u8_bound [of "data ! at"] by linarith+
    have top: "2 ^ bits * b \<le> 2 ^ bits * 255" "(2::int) ^ bits \<le> 4096"
      using b(2) power_increasing [of bits 12 "2::int"] True 1(5) by (simp_all add: mult_left_mono)
    then have "2 ^ bits * b < 4294967296"
      by linarith
    then have or: "acc OR push_bit bits b mod 2 ^ 32 = acc + 2 ^ bits * b"
    proof -
      have "push_bit bits b mod 2 ^ 32 = push_bit bits b"
        using \<open>2 ^ bits * b < 4294967296\<close> b(1) by (simp add: push_bit_eq_mult mult.commute)
      then show ?thesis
        using 1(2,3) by (simp only: disjoint_or)
    qed
    have new: "0 \<le> acc + 2 ^ bits * b" "acc + 2 ^ bits * b < 2 ^ (bits + 8)"
    proof -
      show "0 \<le> acc + 2 ^ bits * b"
        using 1(2) b(1) by simp
      have "acc + 2 ^ bits * b < 2 ^ bits * 256"
        using 1(3) top(1) by linarith
      then show "acc + 2 ^ bits * b < 2 ^ (bits + 8)"
        by (simp add: power_add)
    qed
    have run: "fill_bits data d acc bits at = fill_bits data d (acc + 2 ^ bits * b) (bits + 8) (at + 1)"
      using True at or by (subst fill_bits.simps) (simp add: b_def)
    have same: "acc + 2 ^ bits * b + 2 ^ (bits + 8) * int (le_val (drop (at + 1) data)) = acc + 2 ^ bits * int (le_val (drop at data))"
      using at by (simp add: Cons_nth_drop_Suc [symmetric] b_def power_add algebra_simps)
    have left: "bits + 8 + 8 * (length data - (at + 1)) = bits + 8 * (length data - at)"
      using at by (simp add: Suc_diff_Suc [symmetric])
    show ?thesis
      using 1(1) [OF True at, folded b_def, unfolded or, OF new _ 1(5)] True at 1(7) unfolding run same left by simp
  next
    case False
    then show ?thesis
      using 1 by (subst fill_bits.simps) simp
  qed
qed

lemma decode_bits_ok:
  assumes "length data = 32 * d" "length out = 256" "d \<le> 12"
  shows "decode_bits data d out = Some (map (\<lambda>k. int (le_val data) div 2 ^ (d * k) mod 2 ^ d) [0..<256])"
proof -
  define V where "V = int (le_val data)"
  let ?step = "\<lambda>i (acc, bits, at, out). do {
       (acc, bits, at) \<leftarrow> fill_bits data d acc bits at;
       Some (acc div 2 ^ d, bits - d, at, out[i := as_i16 (acc AND (2 ^ d - 1))]) }"
  have "\<exists>acc bits at out'. opt_fold ?step [0..<n] (0, 0, 0, out) = Some (acc, bits, at, out') \<and>
      0 \<le> acc \<and> acc < 2 ^ bits \<and> bits < 8 \<and> at \<le> length data \<and> bits + 8 * (length data - at) + d * n = 256 * d \<and>
      acc + 2 ^ bits * int (le_val (drop at data)) = V div 2 ^ (d * n) \<and>
      length out' = 256 \<and> (\<forall>k<n. out' ! k = V div 2 ^ (d * k) mod 2 ^ d)" if "n \<le> 256" for n
    using that
  proof (induction n)
    case 0
    then show ?case
      using assms by (auto simp: V_def)
  next
    case (Suc n)
    then obtain acc bits at out' where st: "opt_fold ?step [0..<n] (0, 0, 0, out) = Some (acc, bits, at, out')"
      "0 \<le> acc" "acc < 2 ^ bits" "bits < 8" "at \<le> length data" "bits + 8 * (length data - at) + d * n = 256 * d"
      "acc + 2 ^ bits * int (le_val (drop at data)) = V div 2 ^ (d * n)"
      "length out' = 256" "\<forall>k<n. out' ! k = V div 2 ^ (d * k) mod 2 ^ d"
      by auto
    have "d * n + d \<le> 256 * d"
      using mult_le_mono2 [OF Suc.prems, of d] by (simp only: mult_Suc_right mult.commute [of 256] add.commute)
    then have "d \<le> bits + 8 * (length data - at)"
      using st(6) by linarith
    then obtain acc' bits' at' where f: "fill_bits data d acc bits at = Some (acc', bits', at')" "d \<le> bits'" "bits' < d + 8" "0 \<le> acc'"
      "acc' < 2 ^ bits'" "at' \<le> length data" "bits' + 8 * (length data - at') = bits + 8 * (length data - at)"
      "acc' + 2 ^ bits' * int (le_val (drop at' data)) = V div 2 ^ (d * n)"
      using fill_bits_ok [OF st(2,3) _ assms(3) st(5)] st(4,7) by auto
    obtain r where r: "bits' = d + r" "r < 8"
      using f(2,3) by (metis le_Suc_ex add_less_cancel_left)
    have parts: "acc' + 2 ^ bits' * int (le_val (drop at' data)) = acc' + 2 ^ d * (2 ^ r * int (le_val (drop at' data)))"
      by (simp add: r(1) power_add)
    have low: "acc' mod 2 ^ d = V div 2 ^ (d * n) mod 2 ^ d"
      unfolding f(8) [symmetric] parts by simp
    have high: "acc' div 2 ^ d + 2 ^ r * int (le_val (drop at' data)) = V div 2 ^ (d * Suc n)"
      using arg_cong [OF f(8), of "\<lambda>x. x div 2 ^ d"] unfolding parts div_div_power by (simp add: add.commute)
    have small: "0 \<le> acc' div 2 ^ d" "acc' div 2 ^ d < 2 ^ r"
    proof -
      show "0 \<le> acc' div 2 ^ d"
        using f(4) by (simp add: pos_imp_zdiv_nonneg_iff)
      show "acc' div 2 ^ d < 2 ^ r"
        using f(5) by (intro div_less_bound) (simp_all add: r(1) power_add)
    qed
    have val: "as_i16 (acc' AND (2 ^ d - 1)) = V div 2 ^ (d * n) mod 2 ^ d"
      unfolding and_mask as_i16_small [OF field_small [OF assms(3)]] by (rule low)
    have "opt_fold ?step [0..<Suc n] (0, 0, 0, out) = Some (acc' div 2 ^ d, r, at', out'[n := V div 2 ^ (d * n) mod 2 ^ d])"
      using st(1) f(1) val r(1) by (simp add: opt_fold_snoc)
    moreover have "r + 8 * (length data - at') + d * Suc n = 256 * d"
      using f(7) st(6) r(1) by simp
    ultimately show ?case
      using small r(2) f(6) high st(8,9) Suc.prems
      by (intro exI [of _ "acc' div 2 ^ d"] exI [of _ r] exI [of _ at'] exI [of _ "out'[n := V div 2 ^ (d * n) mod 2 ^ d]"])
        (auto simp: nth_list_update less_Suc_eq)
  qed
  from this [of 256] obtain acc bits at out' where "opt_fold ?step [0..<256] (0, 0, 0, out) = Some (acc, bits, at, out')"
      "length out' = 256" "\<forall>k<256. out' ! k = V div 2 ^ (d * k) mod 2 ^ d"
    by auto
  moreover from this have "out' = map (\<lambda>k. V div 2 ^ (d * k) mod 2 ^ d) [0..<256]"
    by (intro nth_equalityI) (simp_all del: upt_rec_numeral)
  ultimately show ?thesis
    using assms(2) by (simp add: decode_bits_def V_def del: upt_rec_numeral)
qed

section \<open>Encoding and decoding\<close>

lemma byte_encode_ok:
  assumes "length p = 256" "length out = 32 * d" "1 \<le> d" "d \<le> 12"
  obtains bs where "byte_encode p d out = Some bs" "length bs = 32 * d" "int (le_val bs) = field_val d p"
proof (cases "d \<in> set group_widths")
  case True
  then show ?thesis
    using encode_groups_ok [OF assms] assms(2) by (intro that [of "encode_groups d p out"]) (simp_all add: byte_encode_def)
next
  case False
  then show ?thesis
    using encode_bits_ok [OF assms(1,2,4)] assms(2) that by (auto simp: byte_encode_def)
qed

lemma decode_twelve_ok:
  assumes "length data = 384" "length out = 256"
  shows "decode_twelve data out = Some (map (\<lambda>k. int (le_val data) div 2 ^ (12 * k) mod 4096 mod KEM_Q) [0..<256])"
proof -
  define p where "p = decode_groups 12 data out"
  have p: "p = map (\<lambda>k. int (le_val data) div 2 ^ (12 * k) mod 4096) [0..<256]"
    using decode_groups_ok [of data 12 out] assms by (simp add: p_def del: upt_rec_numeral)
  have red: "reduce_12 (as_u16 c) = Some (c mod 4096 mod KEM_Q)" for c
    using reduce_12_ok [of "as_u16 c"] as_u16_mod [of 12 c] by (simp add: as_u16_def)
  then obtain q where q: "map_coefficients (\<lambda>c. reduce_12 (as_u16 c)) p = Some q" "length q = length p"
    "\<And>i. i < length p \<Longrightarrow> reduce_12 (as_u16 (p ! i)) = Some (q ! i)"
    using map_coefficients_ok [of p "\<lambda>c. reduce_12 (as_u16 c)"] by auto
  have "q = map (\<lambda>k. int (le_val data) div 2 ^ (12 * k) mod 4096 mod KEM_Q) [0..<256]"
    using q(2,3) by (intro nth_equalityI) (simp_all add: red p del: upt_rec_numeral)
  then show ?thesis
    using q(1) by (simp add: decode_twelve_def p_def)
qed

lemma byte_decode_ok:
  assumes "length data = 32 * d" "length out = 256" "1 \<le> d" "d \<le> 12"
  shows "byte_decode data d out = Some (map (\<lambda>k. let v = int (le_val data) div 2 ^ (d * k) mod 2 ^ d in if d = 12 then v mod KEM_Q else v) [0..<256])"
proof (cases "d = 12")
  case True
  then show ?thesis
    using decode_twelve_ok [of data out] assms by (simp add: byte_decode_def Let_def del: upt_rec_numeral)
next
  case False
  then show ?thesis
    using decode_groups_ok [OF assms] decode_bits_ok [OF assms(1,2,4)] assms(1) by (simp add: byte_decode_def Let_def del: upt_rec_numeral)
qed

text \<open>Decoding what was encoded gives the low \<open>d\<close> bits of every coefficient, reduced when \<open>d = 12\<close>.\<close>

lemma decode_encode:
  assumes "length p = 256" "length out = 32 * d" "length q = 256" "1 \<le> d" "d \<le> 12"
  obtains bs where "byte_encode p d out = Some bs"
    "byte_decode bs d q = Some (map (\<lambda>x. if d = 12 then x mod 4096 mod KEM_Q else x mod 2 ^ d) p)"
proof -
  obtain bs where bs: "byte_encode p d out = Some bs" "length bs = 32 * d" "int (le_val bs) = field_val d p"
    using byte_encode_ok [OF assms(1,2,4,5)] .
  have "byte_decode bs d q = Some (map (\<lambda>k. let v = p ! k mod 2 ^ d in if d = 12 then v mod KEM_Q else v) [0..<256])"
    unfolding byte_decode_ok [OF bs(2) assms(3-5)] bs(3)
    using assms(1) by (intro arg_cong [of _ _ Some] map_cong refl) (simp add: field_val_digit)
  moreover have "map (\<lambda>k. let v = p ! k mod 2 ^ d in if d = 12 then v mod KEM_Q else v) [0..<256]
     = map (\<lambda>x. if d = 12 then x mod 4096 mod KEM_Q else x mod 2 ^ d) p"
    using assms(1) by (intro nth_equalityI) (simp_all add: Let_def del: upt_rec_numeral)
  ultimately show ?thesis
    using bs(1) that by simp
qed

text \<open>A number below \<open>2 ^ (d * n)\<close> is the number of its \<open>n\<close> digits.\<close>

lemma field_val_digits: "0 \<le> v \<Longrightarrow> v < 2 ^ (d * n) \<Longrightarrow> field_val d (map (\<lambda>k. v div 2 ^ (d * k) mod 2 ^ d) [0..<n]) = v"
proof (induction n arbitrary: v)
  case (Suc n)
  have "map (\<lambda>k. v div 2 ^ (d * k) mod 2 ^ d) [0..<Suc n] = v mod 2 ^ d # map (\<lambda>k. v div 2 ^ d div 2 ^ (d * k) mod 2 ^ d) [0..<n]"
    by (simp add: map_upt_Suc div_div_power del: upt_Suc)
  moreover have "v div 2 ^ d < 2 ^ (d * n)"
    using Suc.prems(2) by (intro div_less_bound) (simp_all add: power_add)
  ultimately show ?case
    using Suc by (simp add: pos_imp_zdiv_nonneg_iff)
qed simp

lemma le_val_eqI: "length bs = length cs \<Longrightarrow> le_val bs = le_val cs \<Longrightarrow> bs = cs"
  by (metis le_bytes_le_val)

text \<open>The modulus check is the round trip of FIPS 203.\<close>

lemma modulus_check:
  assumes "length data = 384" "length out = 256" "length out' = 384"
  shows "(\<forall>k<256. int (le_val data) div 2 ^ (12 * k) mod 4096 < KEM_Q) \<longleftrightarrow>
    (byte_decode data 12 out \<bind> (\<lambda>p. byte_encode p 12 out')) = Some data"
proof -
  define V where "V = int (le_val data)"
  have V: "0 \<le> V" "V < 2 ^ (12 * 256)"
    using le_val_bound [of data] assms(1) by (simp_all add: V_def power_256)
  define p where "p = map (\<lambda>k. V div 2 ^ (12 * k) mod 4096 mod KEM_Q) [0..<256]"
  have p: "byte_decode data 12 out = Some p" "length p = 256"
    using byte_decode_ok [of data 12 out] assms by (simp_all add: p_def V_def Let_def del: upt_rec_numeral)
  obtain bs where bs: "byte_encode p 12 out' = Some bs" "length bs = 384" "int (le_val bs) = field_val 12 p"
    using byte_encode_ok [of p out' 12] assms(3) p(2) by auto
  have digit: "p ! k mod 2 ^ 12 = V div 2 ^ (12 * k) mod 4096 mod KEM_Q" if "k < 256" for k
  proof -
    have "0 \<le> V div 2 ^ (12 * k) mod 4096 mod KEM_Q" "V div 2 ^ (12 * k) mod 4096 mod KEM_Q < 3329"
      by (simp_all add: KEM_Q_def)
    then have "V div 2 ^ (12 * k) mod 4096 mod KEM_Q mod 2 ^ 12 = V div 2 ^ (12 * k) mod 4096 mod KEM_Q"
      by (intro mod_pos_pos_trivial) simp_all
    then show ?thesis
      using that by (simp add: p_def del: upt_rec_numeral)
  qed
  have "bs = data \<longleftrightarrow> field_val 12 p = V"
    using le_val_eqI [of bs data] bs(2,3) assms(1) by (auto simp: V_def)
  also have "\<dots> \<longleftrightarrow> (\<forall>k<256. V div 2 ^ (12 * k) mod 4096 < KEM_Q)"
  proof
    assume eq: "field_val 12 p = V"
    show "\<forall>k<256. V div 2 ^ (12 * k) mod 4096 < KEM_Q"
    proof (intro allI impI)
      fix k :: nat assume k: "k < 256"
      have "V div 2 ^ (12 * k) mod 2 ^ 12 = p ! k mod 2 ^ 12"
        using field_val_digit [of k p 12] k p(2) by (simp only: eq)
      then have "V div 2 ^ (12 * k) mod 4096 = V div 2 ^ (12 * k) mod 4096 mod KEM_Q"
        unfolding digit [OF k] by simp
      also have "\<dots> < KEM_Q"
        by (simp add: KEM_Q_def)
      finally show "V div 2 ^ (12 * k) mod 4096 < KEM_Q" .
    qed
  next
    assume below: "\<forall>k<256. V div 2 ^ (12 * k) mod 4096 < KEM_Q"
    have "p = map (\<lambda>k. V div 2 ^ (12 * k) mod 2 ^ 12) [0..<256]"
      unfolding p_def
    proof (intro map_cong refl)
      fix k assume "k \<in> set [0..<256]"
      then have "V div 2 ^ (12 * k) mod 4096 < KEM_Q"
        using below by simp
      then show "V div 2 ^ (12 * k) mod 4096 mod KEM_Q = V div 2 ^ (12 * k) mod 2 ^ 12"
        by simp
    qed
    then show "field_val 12 p = V"
      using field_val_digits [OF V] by simp
  qed
  finally show ?thesis
    using p(1) bs(1) by (auto simp: V_def)
qed

lemma fold_conj: "fold (\<lambda>v below. below \<and> P v) xs b \<longleftrightarrow> b \<and> (\<forall>v\<in>set xs. P v)"
  by (induction xs arbitrary: b) auto

lemma all_below_fields:
  assumes "length data = 384 * m"
  shows "all_below_q_12 data \<longleftrightarrow> (\<forall>k<256 * m. int (le_val data) div 2 ^ (12 * k) mod 4096 < KEM_Q)"
proof -
  define F where "F i = unpack8 12 (take 12 (drop (12 * i) data) @ replicate 4 0)" for i
  have F: "F i = map (\<lambda>k. int (le_val data) div 2 ^ (12 * (8 * i + k)) mod 2 ^ 12) [0..<8]" if "i < 32 * m" for i
    using group_fields [of 12 i data] that assms by (simp add: F_def del: upt_rec_numeral)
  have "all_below_q_12 data \<longleftrightarrow> fold (\<lambda>i below. fold (\<lambda>v below. below \<and> v < as_u16 KEM_Q) (F i) below) [0..<32 * m] True"
    using assms by (simp add: all_below_q_12_def all_below_q_12_scalar_def F_def)
  also have "\<dots> \<longleftrightarrow> (\<forall>i<32 * m. \<forall>v\<in>set (F i). v < as_u16 KEM_Q)"
    unfolding fold_conj by auto
  also have "\<dots> \<longleftrightarrow> (\<forall>i<32 * m. \<forall>j<8. int (le_val data) div 2 ^ (12 * (8 * i + j)) mod 4096 < KEM_Q)"
    by (auto simp: F as_u16_def KEM_Q_def simp del: upt_rec_numeral)
  also have "\<dots> \<longleftrightarrow> (\<forall>k<256 * m. int (le_val data) div 2 ^ (12 * k) mod 4096 < KEM_Q)"
  proof (intro iffI allI impI)
    fix k :: nat
    assume all: "\<forall>i<32 * m. \<forall>j<8. int (le_val data) div 2 ^ (12 * (8 * i + j)) mod 4096 < KEM_Q" and "k < 256 * m"
    then have "k div 8 < 32 * m" "k mod 8 < 8" "8 * (k div 8) + k mod 8 = k"
      by (simp_all add: less_mult_imp_div_less)
    then show "int (le_val data) div 2 ^ (12 * k) mod 4096 < KEM_Q"
      using all by metis
  next
    fix i j :: nat
    assume "\<forall>k<256 * m. int (le_val data) div 2 ^ (12 * k) mod 4096 < KEM_Q" "i < 32 * m" "j < 8"
    moreover from this have "8 * i + j < 256 * m"
      by linarith
    ultimately show "int (le_val data) div 2 ^ (12 * (8 * i + j)) mod 4096 < KEM_Q"
      by blast
  qed
  finally show ?thesis .
qed

text \<open>Whatever the length: the check accepts the encoded vectors, polynomial by polynomial.\<close>

lemma all_below_round_trip:
  assumes "length out = 256" "length out' = 384"
  shows "all_below_q_12 data \<longleftrightarrow> length data mod 384 = 0 \<and>
    (\<forall>i<length data div 384. let d = take 384 (drop (384 * i) data)
       in (byte_decode d 12 out \<bind> (\<lambda>p. byte_encode p 12 out')) = Some d)"
proof (cases "length data mod 384 = 0")
  case False
  then show ?thesis
    by (simp add: all_below_q_12_def)
next
  case True
  then obtain m where m: "length data = 384 * m"
    by (metis mod_0_imp_dvd dvdE)
  have part: "((byte_decode d 12 out \<bind> (\<lambda>p. byte_encode p 12 out')) = Some d) \<longleftrightarrow>
      (\<forall>k<256. int (le_val data) div 2 ^ (12 * (256 * i + k)) mod 4096 < KEM_Q)" if "i < m" "d = take 384 (drop (384 * i) data)" for i d
  proof -
    have fits: "384 * i + 384 \<le> length data"
      using that(1) m by simp
    have "int (le_val d) div 2 ^ (12 * k) mod 4096 = int (le_val data) div 2 ^ (12 * (256 * i + k)) mod 4096" if "k < 256" for k
    proof -
      have "int (le_val d) div 2 ^ (12 * k) mod 2 ^ 12 = int (le_val data) div 2 ^ (8 * (384 * i)) div 2 ^ (12 * k) mod 2 ^ 12"
        unfolding \<open>d = _\<close> le_val_slice [OF fits] using that by (intro slice_of_mod) simp
      then show ?thesis
        unfolding div_div_power by (simp add: algebra_simps)
    qed
    then show ?thesis
      using modulus_check [of d out out'] assms fits that(2) by simp
  qed
  have "all_below_q_12 data \<longleftrightarrow> (\<forall>i<m. \<forall>k<256. int (le_val data) div 2 ^ (12 * (256 * i + k)) mod 4096 < KEM_Q)"
    unfolding all_below_fields [OF m]
  proof (intro iffI allI impI)
    fix k :: nat
    assume all: "\<forall>i<m. \<forall>k<256. int (le_val data) div 2 ^ (12 * (256 * i + k)) mod 4096 < KEM_Q" and "k < 256 * m"
    then have "k div 256 < m" "k mod 256 < 256" "256 * (k div 256) + k mod 256 = k"
      by (simp_all add: less_mult_imp_div_less)
    then show "int (le_val data) div 2 ^ (12 * k) mod 4096 < KEM_Q"
      using all by metis
  next
    fix i k :: nat
    assume "\<forall>k<256 * m. int (le_val data) div 2 ^ (12 * k) mod 4096 < KEM_Q" "i < m" "k < 256"
    moreover from this have "256 * i + k < 256 * m"
      by linarith
    ultimately show "int (le_val data) div 2 ^ (12 * (256 * i + k)) mod 4096 < KEM_Q"
      by blast
  qed
  then show ?thesis
    using part True m by (simp add: Let_def)
qed

section \<open>Compressed polynomials\<close>

lemma compress_poly_ok:
  assumes "length p = 256" "\<forall>x\<in>set p. 0 \<le> x \<and> x < KEM_Q" "1 \<le> d" "d \<le> 12"
  shows "compress_poly p d POLY_ZERO = Some (map (\<lambda>x. (x * 2 ^ d + 1664) div 3329 mod 2 ^ d) p)"
proof -
  let ?c = "\<lambda>x::int. (x * 2 ^ d + 1664) div 3329 mod 2 ^ d"
  have small: "as_i16 (?c x) = ?c x" for x
    using field_small [OF assms(4)] by (rule as_i16_small)
  have "opt_fold (\<lambda>i out. do { v \<leftarrow> compress (p ! i) d; Some (out[i := as_i16 v]) }) [0..<n] POLY_ZERO
     = Some (map ?c (take n p) @ drop n POLY_ZERO)" if "n \<le> 256" for n
    using that
  proof (induction n)
    case (Suc n)
    then have "0 \<le> p ! n" "p ! n < KEM_Q"
      using assms(1,2) by simp_all
    then have "compress (p ! n) d = Some (?c (p ! n))"
      using assms(3,4) by (intro compress_ok)
    moreover have "drop n POLY_ZERO = 0 # drop (Suc n) POLY_ZERO"
      using Suc.prems Cons_nth_drop_Suc [of n POLY_ZERO] by (simp add: POLY_ZERO_def KEM_N_def del: drop_replicate)
    ultimately show ?case
      using Suc assms(1) small by (simp add: opt_fold_snoc take_Suc_conv_app_nth list_update_append)
  qed simp
  from this [of 256] show ?thesis
    using assms(1) by (simp add: compress_poly_def POLY_ZERO_def KEM_N_def del: upt_rec_numeral)
qed

text \<open>What is compressed, packed, unpacked and decompressed comes back within half a step of every coefficient.\<close>

lemma compressed_round_trip:
  assumes "length p = 256" "\<forall>x\<in>set p. 0 \<le> x \<and> x < KEM_Q" "1 \<le> d" "d \<le> 11" "length out = 32 * d" "length q = 256"
  obtains bs r where "compress_encode p d out = Some bs" "length bs = 32 * d" "decode_decompress bs d q = Some r" "length r = 256"
    "\<And>i. i < 256 \<Longrightarrow> \<bar>p ! i - r ! i\<bar> \<le> (KEM_Q + 2 ^ d) div (2 * 2 ^ d) \<or> \<bar>p ! i - KEM_Q - r ! i\<bar> \<le> (KEM_Q + 2 ^ d) div (2 * 2 ^ d)"
proof -
  define c where "c = map (\<lambda>x. (x * 2 ^ d + 1664) div 3329 mod 2 ^ d) p"
  have d: "d \<le> 12" "d \<noteq> 12"
    using assms(4) by simp_all
  have c: "compress_poly p d POLY_ZERO = Some c" "length c = 256"
    using compress_poly_ok [OF assms(1-3) d(1)] assms(1) by (simp_all add: c_def)
  obtain bs where bs: "byte_encode c d out = Some bs" "length bs = 32 * d"
    using byte_encode_ok [OF c(2) assms(5,3) d(1)] by blast
  obtain bs' where "byte_encode c d out = Some bs'" "byte_decode bs' d q = Some (map (\<lambda>x. x mod 2 ^ d) c)"
    using decode_encode [OF c(2) assms(5,6,3) d(1)] d(2) by auto
  then have dec: "byte_decode bs d q = Some c"
    using bs(1) by (simp add: c_def)
  have step: "\<exists>y. decompress (as_u16 (c ! i)) d = Some y \<and>
      (\<bar>p ! i - y\<bar> \<le> (KEM_Q + 2 ^ d) div (2 * 2 ^ d) \<or> \<bar>p ! i - KEM_Q - y\<bar> \<le> (KEM_Q + 2 ^ d) div (2 * 2 ^ d))" if "i < 256" for i
  proof -
    have x: "0 \<le> p ! i" "p ! i < KEM_Q"
      using assms(1,2) that by simp_all
    have "compress (p ! i) d = Some (c ! i)"
      using compress_ok [OF x assms(3) d(1)] assms(1) that by (simp add: c_def)
    moreover have "as_u16 (c ! i) = c ! i"
      using as_u16_small [OF field_small [OF d(1)]] assms(1) that by (simp add: c_def)
    moreover obtain c' y where "compress (p ! i) d = Some c'" "decompress c' d = Some y"
      "\<bar>p ! i - y\<bar> \<le> (KEM_Q + 2 ^ d) div (2 * 2 ^ d) \<or> \<bar>p ! i - KEM_Q - y\<bar> \<le> (KEM_Q + 2 ^ d) div (2 * 2 ^ d)"
      using compress_decompress [OF x assms(3) d(1)] by blast
    ultimately show ?thesis
      by (intro exI [of _ y]) simp
  qed
  have "decompress (as_u16 x) d \<noteq> None" if "x \<in> set c" for x
    using step that c(2) by (auto simp: in_set_conv_nth)
  then obtain r where r: "map_coefficients (\<lambda>x. decompress (as_u16 x) d) c = Some r" "length r = length c"
    "\<And>i. i < length c \<Longrightarrow> decompress (as_u16 (c ! i)) d = Some (r ! i)"
    using map_coefficients_ok [of c "\<lambda>x. decompress (as_u16 x) d"] by blast
  show ?thesis
  proof (rule that [of bs r])
    show "compress_encode p d out = Some bs" "length bs = 32 * d" "decode_decompress bs d q = Some r" "length r = 256"
      using c bs dec r by (simp_all add: compress_encode_def decode_decompress_def)
    fix i :: nat assume "i < 256"
    then show "\<bar>p ! i - r ! i\<bar> \<le> (KEM_Q + 2 ^ d) div (2 * 2 ^ d) \<or> \<bar>p ! i - KEM_Q - r ! i\<bar> \<le> (KEM_Q + 2 ^ d) div (2 * 2 ^ d)"
      using step [of i] r(3) [of i] c(2) by auto
  qed
qed

end
