(* ===== verification/Spec2Isabelle.thy ===== *)
theory Spec2Isabelle
  imports Core_Ct Core_Base64 Fips_Threads Fips_Casts Shamir Drbg_Rng Sealer Mac_Hmac_Sha3 Mac_Kmac Json_Round Pkix_Keys ChaCha20_Poly1305 Key_Wrap_Padded Mlkem_Encode
begin

text \<open>
  IronCrypto is a cryptographic library in Rust: a set of crates for the primitives, a registry
  that describes every algorithm and answers which one to use, and a layer in the manner of
  FIPS 140-3 that tests the module and restricts what may be used. This development models the
  parts that carry the library's own logic, as the portable code computes them, and proves what
  makes them correct. This theory imports all others and holds the properties of the program.

  \<^bold>\<open>How the parts interact.\<close> Every operation that produces output asks the module first
  (\<open>operational\<close> of \<open>crates/ic-core/src/module.rs\<close>): once the error flag is set it
  answers \<open>ModuleErrorState\<close> and produces nothing. The flag is set by a failing self-test,
  by the health check of the entropy source and by the pairwise tests of key generation, and
  nothing clears it. \<open>crates/ic-fips\<close> runs the self-tests, keeps the mode, and decides with
  the registry of \<open>crates/ic-ontology\<close> which algorithms the mode allows. The primitives are
  layered: hash functions under HMAC, HMAC under key derivation and under the random generator,
  the generator and the AEADs under the nonces the library chooses, the block cipher under the
  modes and under key wrap. The codecs (hexadecimal, Base64, DER, JSON) stand beside them.

  \<^bold>\<open>Conventions.\<close> A byte is an \<open>8 word\<close>, and every machine integer whose
  wrap-around matters is a word of its width; \<open>usize\<close> is a natural number where the code
  uses it as a length or an index. A \<open>Result\<close> is a sum with the error on the left
  (\<open>Core_Error\<close>). A function that writes to a buffer returns its result beside the buffer
  as it is afterwards, after an error too. A panic is \<open>None\<close>, or \<open>Panic\<close> in the JSON
  reader. The module's state (\<open>module_state\<close>) is an argument of every function that asks
  the gate, and is threaded through those that can set the flag. A Rust trait is a record of
  operations, code generic over the trait a function of that record, and what an implementation
  promises a locale. The two configuration flags of the build are fields of the module's state,
  or the argument \<open>ao\<close> of the registry.

  \<^bold>\<open>Theories and sources.\<close>
  \<^item> \<open>Prelude\<close>, \<open>Word_Ops\<close>, \<open>Poly_Fun\<close>: slices, chunks, byte orders, rotations,
    polynomials over a field; they model no code.
  \<^item> \<open>Core_Error\<close> (\<open>ic-core/src/error.rs\<close>), \<open>Core_Module\<close> (\<open>module.rs\<close>),
    \<open>Core_Ct\<close> (\<open>ct.rs\<close>), \<open>Core_Codec\<close> and \<open>Core_Base64\<close> (\<open>codec.rs\<close>).
    \<open>Core_Base64\<close> holds RFC 4648 as a reference that shares nothing with the code.
  \<^item> The contracts of \<open>ic-core/src/traits.rs\<close>: \<open>Core_Digest\<close> (locales \<open>digest\<close>
    and \<open>mac\<close>), \<open>Core_Aead\<close> (\<open>aead\<close>), \<open>Core_Cipher\<close> (\<open>block_cipher\<close>),
    \<open>Core_Random\<close> (\<open>random_source\<close>).
  \<^item> \<open>Ontology_Types\<close>, \<open>Ontology_Query\<close>, \<open>Ontology_Select\<close> (\<open>types.rs\<close>,
    \<open>query.rs\<close>, \<open>select.rs\<close> of \<open>ic-ontology/src\<close>), \<open>Registry_Consts\<close> and the
    five theories \<open>Registry_Symmetric\<close>, \<open>Registry_Derivation\<close>, \<open>Registry_PublicKey\<close>,
    \<open>Registry_Modes\<close>, \<open>Registry_Signatures\<close> (the 103 entries of \<open>registry.rs\<close>),
    \<open>Ontology_Registry\<close> (what lookups, queries and recommendations return over them).
  \<^item> \<open>Fips\<close> (\<open>ic-fips/src/lib.rs\<close> and the runner of \<open>selftest.rs\<close>), \<open>Fips_Threads\<close>
    (the same operations as atomic loads and stores of several threads), \<open>Fips_Casts\<close> (the
    table of tests in \<open>selftest.rs\<close>).
  \<^item> \<open>Block_Buffer\<close>, \<open>Hash_Sha2\<close> (\<open>ic-hash/src/sha2.rs\<close>), \<open>Keccak\<close> and
    \<open>Hash_Sha3\<close> (\<open>sha3.rs\<close>), \<open>Hash_Sp800_185\<close> (\<open>sp800_185.rs\<close>).
  \<^item> \<open>Mac_Hmac\<close>, \<open>Mac_Hmac_Sha3\<close> (\<open>ic-mac/src/hmac.rs\<close>), \<open>Mac_Kmac\<close>
    (\<open>kmac.rs\<close>), \<open>Kdf\<close> (\<open>hkdf.rs\<close>, \<open>kbkdf.rs\<close>, \<open>pbkdf2.rs\<close> of \<open>ic-kdf/src\<close>).
  \<^item> \<open>Drbg_Hmac\<close> and \<open>Drbg_Rng\<close> (\<open>hmac_drbg.rs\<close> and \<open>rng.rs\<close> of \<open>ic-drbg/src\<close>).
  \<^item> \<open>Poly1305\<close>, \<open>Poly1305_Limbs\<close>, \<open>Poly1305_Mac\<close>, \<open>ChaCha20\<close>,
    \<open>ChaCha20_Poly1305\<close> (\<open>ic-cipher/src/chacha.rs\<close>), \<open>Sealer\<close> (\<open>sealer.rs\<close>).
  \<^item> \<open>Gf\<close> (\<open>gf.rs\<close>), \<open>Shamir\<close> (\<open>shamir.rs\<close>), \<open>Aes\<close>, \<open>Aes_Bitslice\<close>,
    \<open>Aes_Group\<close>, \<open>Aes_Cipher\<close> (\<open>aes.rs\<close>, \<open>aes/portable.rs\<close>, \<open>aes/bitslice.rs\<close>),
    \<open>Modes\<close> (\<open>modes.rs\<close>), \<open>Key_Wrap\<close> and \<open>Key_Wrap_Padded\<close> (\<open>keywrap.rs\<close>).
  \<^item> \<open>Mlkem_Poly\<close>, \<open>Mlkem_Reduce\<close>, \<open>Mlkem_Zetas\<close>, \<open>Mlkem_Transform\<close>,
    \<open>Mlkem_Ntt\<close> (\<open>ic-mlkem/src/poly.rs\<close>), \<open>Mlkem_Compress\<close>, \<open>Mlkem_Encode\<close>
    (\<open>encode.rs\<close>).
  \<^item> \<open>Json\<close>, \<open>Json_Laws\<close>, \<open>Json_Round\<close> (\<open>ic-json/src/lib.rs\<close>);
    \<open>Pkix_Der\<close>, \<open>Pkix_Der_Laws\<close> (\<open>ic-pkix/src/der.rs\<close>), \<open>Pkix_Oid\<close>
    (\<open>oid.rs\<close>), \<open>Pkix_Keys\<close> (\<open>ecdsa_signature.rs\<close>, \<open>public_key.rs\<close>).

  A definition has the name of the function, constant or type it models, with a prefix where two
  files use the same name (\<open>sponge_absorb\<close>, \<open>kmac_verify\<close>). A Rust macro that declares
  several types is one definition over what the macro varies.

  \<^bold>\<open>Interfaces and their implementations.\<close> \<open>digest\<close> is interpreted by the six SHA-2 and
  the four SHA-3 functions, \<open>mac\<close> by HMAC over six of them and by Poly1305, \<open>aead\<close> by the two
  ChaCha20-Poly1305 ciphers, \<open>block_cipher\<close> by AES, \<open>random_source\<close> by the stream of the
  secret-sharing self-test and, relative to an operating-system source, by the generator
  (\<open>rng_random_source\<close>). HMAC is proved for any digest; key derivation and the generator for
  any message authentication code; the sealer and the opener for any AEAD; the modes and key
  wrap for any block cipher; secret sharing and random nonces for any random source. The
  properties below are about the library's own instances, or quantify over the record and carry
  the locale's predicate, which the witnesses discharge for an instance of the library.

  \<^bold>\<open>What the properties show.\<close>
  \<^item> The module: the error flag latches whatever the threads do, and the gate refuses from then on; the module is operational only after a run of the self-tests; what \<open>initialize\<close>
    answers for any tests, which may set the flag themselves; two races on the mode.
  \<^item> The registry: \<open>recommend\<close> never panics, and answers with an available entry that meets
    the intent and the policy exactly when the registry has one; lookups are exact; every available
    algorithm has its self-test or runs inside another's.
  \<^item> Hash functions, codes, derivation: streaming in any pieces equals the standard's function
    of the whole message. SHA-2 is compared from its compression function upward; Keccak from
    the five steps of FIPS 202, given by coordinates, to the sponge over bits. The inputs of two
    blocks of a derived key differ whenever the labels, contexts, lengths or counters do.
    cSHAKE, TupleHash, ParallelHash and KMAC are proved equal to SP 800-185 in their theories,
    with the injectivity of the encoding of a tuple and what \<open>kmac_verify\<close> accepts.
  \<^item> Randomness: the generator refines HMAC_DRBG of SP 800-90A, the source above it never
    meets its limit, and a seed that fails its health test latches the error state.
  \<^item> Authenticated encryption: what opens was sealed; a sealer never repeats a nonce, an opener
    delivers any subsequence of a sealer's packets and nothing twice; Poly1305 in limbs is the
    polynomial modulo \<open>2 ^ 130 - 5\<close>; the keystream never repeats a block.
  \<^item> AES and what stands on it: decryption inverts encryption both ways, the bitsliced groups
    are the cipher block by block, the S-boxes are inversion in a field; counter mode and block
    chaining, and key wrap opens exactly what was wrapped.
  \<^item> ML-KEM: multiplication through the transform is the product modulo \<open>X ^ 256 + 1\<close>
    without any overflow, packing is the number to the base \<open>2 ^ d\<close>, compression is rounding.
  \<^item> Secret sharing: enough shares recover, fewer say nothing.
  \<^item> Codecs: what is accepted is what is written, for hexadecimal, Base64, DER signatures and
    keys, and JSON; the JSON reader returns on every text.
  \<^item> The branch-free primitives compute what their branching specifications say.

  \<^bold>\<open>Termination, bounds and fuel.\<close> Loops are structural recursion, folds, or functions with
  a measure. The JSON reader recurses through values, arrays and objects with a counter that
  starts at \<open>2 * length input + 2\<close>; every call consumes input, so it never runs out
  (\<open>json_parse_returns\<close>). Its depth is bounded by \<open>MAX_DEPTH = 64\<close> as in the code.
  The generator reseeds at \<open>RESEED_INTERVAL = 2 ^ 20\<close> and the block counter of ChaCha20 ends
  at \<open>2 ^ 32\<close>; both limits are in the properties. In ML-KEM every addition, negation and
  product is checked against its width, and the properties show that none is exceeded. Lengths
  of messages are bounded where the code stores a number of bits in a machine word.

  \<^bold>\<open>Assumptions.\<close> The accesses to the three atomics are sequentially consistent and one step
  each. The self-tests are arguments, from the module's state to a verdict and the state they
  leave; they can set the error flag and nothing else (\<open>only_latches\<close>). The entropy of the
  operating system is an argument that returns the bytes asked for, or an error. Floating-point
  numbers, their parser and formatter are an argument of JSON, and the round trip asks for the
  law that each number in the value is read back as it was written. \<open>black_box\<close> is the
  identity, the scrubbing of memory has no effect on values, and the choice of back end falls on
  the portable code.

  \<^bold>\<open>What modelling showed.\<close> A second \<open>initialize\<close> returns \<open>Ok\<close> whatever its tests
  answer; \<open>check\<close> and \<open>initialize\<close> race on the mode; a surrogate escape in JSON and a
  length of \<open>2 ^ 32\<close> in DER panic; several comments and bounds in the documentation differ
  from the code. Each is stated by a property or by a lemma of the component's theory.

  \<^bold>\<open>Not modelled.\<close> The back ends in intrinsics and assembly, and the copies of the portable
  code that interleave several messages for them: they replace the functions modelled here. GCM,
  GCM-SIV, CMAC, BLAKE2, BLAKE3, the memory-hard password functions and the counter-mode
  generator: further algorithms behind the same contracts. Elliptic curves, RSA, ML-DSA, SLH-DSA,
  LMS and the sampling and encapsulation of ML-KEM: arithmetic or probability of a size of its
  own; of ML-DSA the effect on the module's state is modelled. Certificates, private keys, PEM
  and HPKE rest on those. The exports and profiles of the registry, the command line, the TLS
  provider and the test vectors are text, input, output and glue.
\<close>

section \<open>The module's life cycle\<close>

text \<open>
  C1. The error state latches under every interleaving. Once the error flag is
  set, it stays set whatever any number of threads do, the state reported is the
  error state, and an operation a thread begins from then on - initialising,
  selecting a mode, checking an algorithm - returns the refusal and nothing else.
\<close>

theorem error_state_latches:
  assumes "FAILED (snd c)" "starts (fst c t)" "fips_steps R c c'"
  shows "FAILED (snd c') \<and> fips_state (snd c') = State_Error
    \<and> (\<forall>r. fst c' t = Init_Done r \<longrightarrow> r = Err ModuleErrorState ''module in error state'')
    \<and> (\<forall>m r. fst c' t = Mode_Done m r \<longrightarrow> r = Err ModuleErrorState ''module in error state'')
    \<and> (\<forall>r. fst c' t = Check_Done r \<longrightarrow> r = Err ModuleErrorState ''module in error state'')"
proof -
  have "refusing (fst c' t)"
    using refusing_forever [OF assms(3,1)] starts_refusing [OF assms(2)] by blast
  then show ?thesis
    using failed_forever [OF assms(3,1)] fips_state_error by auto
qed

theorem error_state_latches_witness:
  "\<exists>(c :: config) (c' :: config). FAILED (snd c) \<and> fst c' 0 = Check_Done (Err ModuleErrorState ''module in error state'')
     \<and> FAILED (snd c') \<and> fips_state (snd c') = State_Error"
proof -
  let ?s = "fips_enter_error_state (fips_initial True False)"
  let ?c = "((\<lambda>_. Idle)(0 := Check_ReadFlag ''sha2-256''), ?s)"
  have "acts [] [Move 0 True] ?c = Some ((fst ?c)(0 := Check_Done module_failed), ?s)"
    by (simp add: in_error_state_def)
  then have "fips_steps [] ?c ((fst ?c)(0 := Check_Done module_failed), ?s)"
    by (rule acts_steps)
  note r = error_state_latches [OF _ _ this, of 0]
  show ?thesis
    by (rule exI [of _ ?c], rule exI [of _ "((fst ?c)(0 := Check_Done module_failed), ?s)"])
       (use r in simp)
qed

text \<open>
  C2. In every state any interleaving of threads can reach, a module that reports
  itself operational has begun its self-tests and lets its primitives through, also
  in a build whose startup gate is on; an approved-only build is never in
  unrestricted mode, and no \<open>check\<close> in it ever answers that an unapproved
  algorithm may be used.
\<close>

theorem operational_after_self_tests:
  assumes "reachable R approved_only gate_off c"
  shows "(\<forall>m. fips_state (snd c) = State_Operational m \<longrightarrow>
            SELF_TESTS (snd c) \<noteq> UNTESTED \<and> operational (snd c) = Ok ()
            \<and> (approved_only \<longrightarrow> m = Mode_Approved))
       \<and> (approved_only \<longrightarrow> fst c t \<noteq> Check_Done (Ok ServiceIndicator_NotApproved))"
proof -
  have inv: "fips_inv approved_only c" by (rule reachable_inv [OF assms])
  have "SELF_TESTS (snd c) \<noteq> UNTESTED \<and> operational (snd c) = Ok () \<and> (approved_only \<longrightarrow> m = Mode_Approved)"
    if "fips_state (snd c) = State_Operational m" for m
  proof -
    have st: "\<not> FAILED (snd c)" "decode_state (STATE (snd c)) = State_Operational m"
      using that by (auto simp: fips_state_def in_error_state_def split: if_splits)
    have raw: "STATE (snd c) = mode_state m" "operational_raw (STATE (snd c))"
      using st(2) decode_state_operational decode_state_operational_raw by auto
    have "SELF_TESTS (snd c) \<noteq> UNTESTED" "approved_only \<longrightarrow> m = Mode_Approved"
      using inv raw by (cases m; auto simp: fips_inv_def split: prod.splits)+
    then show ?thesis using st(1) by (simp add: operational_Ok_iff)
  qed
  moreover have "fst c t \<noteq> Check_Done (Ok ServiceIndicator_NotApproved)" if "approved_only"
    using reachable_check_pending [of R gate_off c t] assms that by (cases "fst c t") auto
  ultimately show ?thesis by blast
qed

theorem operational_after_self_tests_witness:
  "\<exists>c. reachable [] True False c \<and> fips_state (snd c) = State_Operational Mode_Approved
     \<and> operational (snd c) = Ok ()"
proof -
  define c where "c = the (acts [] ([Call 0 Init_ReadFlag] @ moves 3 0 @ moves 3 0 @ moves 2 0)
    (start_config True False))"
  have run: "acts [] ([Call 0 Init_ReadFlag] @ moves 3 0 @ moves 3 0 @ moves 2 0)
      (start_config True False) = Some c"
    by (simp add: c_def schedule_simps)
  have st: "fips_state (snd c) = State_Operational Mode_Approved"
    by (simp add: c_def schedule_simps fips_state_def)
  show ?thesis
    using operational_after_self_tests [OF acts_reachable [OF run]] st acts_reachable [OF run] by blast
qed

text \<open>
  C25. What \<open>initialize\<close> does in every state, for any table of tests that at most latch
  the error flag. It refuses in the error state. Before the first success it runs every
  test, none hidden by another, and becomes operational, in the mode the build starts
  in, exactly when all of them pass; otherwise it latches the error state. On an
  operational module it runs the tests again and returns their report as a success
  whatever they say: with tests that fail, the module stays operational unless one of
  them latched the flag itself, and with one that did, a success is returned by a
  module in the error state.
\<close>

theorem initialize_verdict:
  assumes "\<forall>(name, test) \<in> set casts. only_latches test"
  shows "(fips_state s = State_Error \<longrightarrow>
      initialize casts s = (Err ModuleErrorState ''module in error state'', s))
 \<and> (fips_state s = State_Operational m \<longrightarrow>
      (\<exists>report. report_of casts s report
         \<and> initialize casts s = (Ok report, cast_state casts (length casts) s))
    \<and> fips_state (snd (initialize casts s)) =
        (if \<exists>(name, test) \<in> set casts. snd (test s) \<noteq> s then State_Error else State_Operational m))
 \<and> (fips_state s \<noteq> State_Error \<and> (\<forall>m. fips_state s \<noteq> State_Operational m) \<longrightarrow>
      (let s1 = self_tests_started (s\<lparr>STATE := STATE_TESTING\<rparr>);
           s2 = cast_state casts (length casts) s1
       in \<exists>report. report_of casts s1 report \<and> initialize casts s =
         (if list_all id (cast_verdicts casts s1)
          then (Ok report, s2\<lparr>SELF_TESTS := PASSED, STATE := STATE_INITIAL s\<rparr>)
          else (Err SelfTestFailed ''pre-operational self-test failed; module latched in error state'',
                s2\<lparr>STATE := STATE_ERROR, FAILED := True\<rparr>))))"
proof (intro conjI impI)
  show "initialize casts s = (Err ModuleErrorState ''module in error state'', s)"
    if "fips_state s = State_Error"
    using that by (simp add: initialize_def)
  assume op: "fips_state s = State_Operational m"
  show again: "\<exists>report. report_of casts s report
      \<and> initialize casts s = (Ok report, cast_state casts (length casts) s)"
    by (rule initialize_operational [OF assms op])
  show "fips_state (snd (initialize casts s)) =
      (if \<exists>(name, test) \<in> set casts. snd (test s) \<noteq> s then State_Error else State_Operational m)"
    using again by (elim exE conjE) (simp only: snd_conv cast_state_mode [OF op])
qed (use initialize_first [OF assms] in \<open>simp add: Let_def\<close>)

text \<open>The tests: one that fails, and one that fails and latches the flag, as key generation does.\<close>

theorem initialize_verdict_witness:
  "\<exists>s report report'. fips_state s = State_Operational Mode_Approved
     \<and> initialize [(''sha2-256'', \<lambda>s. (Err SelfTestFailed ''sha2-256'', s))] s = (Ok report, s)
     \<and> failed report = 1
     \<and> initialize [(''ml-dsa-44'', \<lambda>s. (Err SelfTestFailed ''ml-dsa-44'', enter_error_state s))] s
         = (Ok report', enter_error_state s)
     \<and> failed report' = 1 \<and> fips_state (enter_error_state s) = State_Error"
proof -
  let ?s = "(fips_initial False False)\<lparr>STATE := STATE_OPERATIONAL_APPROVED\<rparr>"
  let ?c = "[(''sha2-256'', \<lambda>s. (Err SelfTestFailed ''sha2-256'', s))] :: casts"
  let ?d = "[(''ml-dsa-44'', \<lambda>s. (Err SelfTestFailed ''ml-dsa-44'', enter_error_state s))] :: casts"
  have st: "fips_state ?s = State_Operational Mode_Approved"
    by (simp add: fips_state_def schedule_simps)
  have flag: "enter_error_state ?s \<noteq> ?s"
    using arg_cong [of "enter_error_state ?s" ?s FAILED]
    by (auto simp: enter_error_state_def schedule_simps)
  have l: "\<forall>(name, test) \<in> set ?c. only_latches test" "\<forall>(name, test) \<in> set ?d. only_latches test"
    by (simp_all add: only_latches_def)
  have c: "\<exists>report. report_of ?c ?s report \<and> initialize ?c ?s = (Ok report, ?s)"
    using initialize_verdict [OF l(1), of ?s Mode_Approved] st by (simp add: cast_state_def)
  have d: "\<exists>report. report_of ?d ?s report \<and> initialize ?d ?s = (Ok report, enter_error_state ?s)"
    using initialize_verdict [OF l(2), of ?s Mode_Approved] st flag by (simp add: cast_state_def)
  show ?thesis
    using c d st by (fastforce simp: report_of_def cast_verdicts_def fips_state_error enter_error_state_def)
qed

text \<open>
  C26. Two races the interleaving shows in the default build. A second thread's
  \<open>initialize\<close> ends by putting the module back into unrestricted mode after approved
  mode was selected and reported selected. And \<open>check\<close>, which reads the state twice,
  answers that ChaCha20-Poly1305 may be used by a module in approved mode when the
  error state is entered between the two readings.
\<close>

theorem mode_races:
  "(\<exists>c c'. reachable (REGISTRY False) False off c
      \<and> fst c 0 = Mode_Done Mode_Approved (Ok ())
      \<and> fips_state (snd c) = State_Operational Mode_Approved
      \<and> fst c 1 = Init_StoreInitial \<and> fips_step (REGISTRY False) c c'
      \<and> fips_state (snd c') = State_Operational Mode_Unrestricted)
 \<and> (\<exists>c c'. reachable (REGISTRY False) False off c
      \<and> fips_state (snd c) = State_Operational Mode_Approved \<and> (\<forall>t. finished (fst c t))
      \<and> acts (REGISTRY False) (late_error_schedule ''chacha20-poly1305'') c = Some c'
      \<and> fst c' 1 = Check_Done (Ok ServiceIndicator_NotApproved)
      \<and> fips_state (snd c') = State_Error)"
proof (rule conjI)
  have "check_entry False (REGISTRY False) ''chacha20-poly1305'' = Ok (reg_chacha20_poly1305 False)"
    by (simp add: check_entry_def registry_lookups registry_facts NOT_APPROVED_STATUS_def)
  from late_error [OF this, of off]
  show "\<exists>c c'. reachable (REGISTRY False) False off c
      \<and> fips_state (snd c) = State_Operational Mode_Approved \<and> (\<forall>t. finished (fst c t))
      \<and> acts (REGISTRY False) (late_error_schedule ''chacha20-poly1305'') c = Some c'
      \<and> fst c' 1 = Check_Done (Ok ServiceIndicator_NotApproved) \<and> fips_state (snd c') = State_Error"
    by (simp add: registry_facts)
qed (use lost_mode [of "REGISTRY False" off] in blast)

section \<open>Choosing an algorithm\<close>

text \<open>
  C3. \<open>recommend\<close> over the library's registry never panics and never answers that the
  right algorithm exists but is missing: whatever the intent, the policy and the
  build, it recommends an available entry that meets every requirement exactly when
  some entry of the registry meets them, and otherwise says that nothing does. What
  it offers as primary and as alternative is in the registry, available, of the
  intent's class and purpose, at least as strong as asked, and approved when the
  policy or the build requires approval; and the constraints returned are the
  primary's.
\<close>

theorem recommend_correct:
  "(if \<exists>e \<in> set (REGISTRY ao). acceptable ao i pol e
    then \<exists>r. recommend ao (REGISTRY ao) i pol = Some (Inr r)
       \<and> primary r \<in> set (REGISTRY ao) \<and> status (primary r) = ImplStatus_Available
       \<and> acceptable ao i pol (primary r) \<and> must_observe r = constraints (primary r)
       \<and> (\<forall>a. alternative r = Some a \<longrightarrow>
            a \<in> set (REGISTRY ao) \<and> status a = ImplStatus_Available \<and> acceptable ao i pol a)
    else recommend ao (REGISTRY ao) i pol = Some (Inl NothingSatisfiesPolicy))"
proof (cases "\<exists>e \<in> set (REGISTRY ao). acceptable ao i pol e")
  case True
  then obtain r where "recommend ao (REGISTRY ao) i pol = Some (Inr r)"
    using recommend_outcome [of ao i pol] by (simp only: if_True) blast
  from recommend_Inr [OF this] this True show ?thesis by (simp only: if_True) blast
next
  case False
  then show ?thesis using recommend_outcome [of ao i pol] by (simp only: if_False)
qed

theorem recommend_correct_witness:
  "\<exists>r. recommend True (REGISTRY True) Intent_SignData POLICY_CNSA = Some (Inr r)
     \<and> status (primary r) = ImplStatus_Available \<and> acceptable True Intent_SignData POLICY_CNSA (primary r)
     \<and> alternative r = Some reg_ml_dsa_87 \<and> status reg_ml_dsa_87 = ImplStatus_Available"
proof -
  have acc: "\<exists>e \<in> set (REGISTRY True). acceptable True Intent_SignData POLICY_CNSA e"
    using reg_members(2) [of True]
    by (rule bexI [rotated]) (simp add: acceptable_def POLICY_CNSA_def registry_facts serves_def)
  from cnsa_sign [of True] recommend_correct [of True Intent_SignData POLICY_CNSA, unfolded if_P [OF acc]]
  show ?thesis by force
qed

text \<open>
  Which cipher is recommended, for every floor the registry can meet: AES-256-GCM
  under a FIPS policy, in an approved-only build or with AES hardware, and
  ChaCha20-Poly1305 otherwise.
\<close>

theorem encrypt_recommendation:
  assumes "min_classical_bits pol \<le> 256" "min_quantum_bits pol \<le> 128"
  shows "\<exists>r. recommend ao (REGISTRY ao) Intent_EncryptMessage pol = Some (Inr r)
     \<and> entry_id (primary r) = (if require_fips pol \<or> ao \<or> aes_hardware pol then ''aes-256-gcm''
                               else ''chacha20-poly1305'')"
  using encrypt_choice [OF assms, of ao]
  by (cases "require_fips pol \<or> ao \<or> aes_hardware pol") (fastforce simp: registry_facts)+

theorem encrypt_recommendation_witness:
  "\<exists>r. recommend False (REGISTRY False) Intent_EncryptMessage POLICY_DEFAULT = Some (Inr r)
     \<and> entry_id (primary r) = ''chacha20-poly1305''"
  using encrypt_recommendation [of POLICY_DEFAULT False] by (simp add: POLICY_DEFAULT_def)

text \<open>
  The 192-bit policy does not move the answer from P-256 to P-384, as its description
  says: for key agreement and for signatures it recommends the post-quantum schemes
  ML-KEM-768 and ML-DSA-65, in both builds.
\<close>

theorem cnsa_recommends_post_quantum:
  "(\<exists>r. recommend ao (REGISTRY ao) Intent_AgreeKey POLICY_CNSA = Some (Inr r)
      \<and> entry_id (primary r) = ''ml-kem-768'' \<and> map_option entry_id (alternative r) = Some ''ml-kem-1024'')
 \<and> (\<exists>r. recommend ao (REGISTRY ao) Intent_SignData POLICY_CNSA = Some (Inr r)
      \<and> entry_id (primary r) = ''ml-dsa-65'' \<and> map_option entry_id (alternative r) = Some ''ml-dsa-87'')"
  using cnsa_agree [of ao] cnsa_sign [of ao] by (auto simp: registry_facts)

text \<open>
  C27. A lookup finds exactly the entry a name belongs to: read without regard to case, no
  identifier, name or alias belongs to two entries, so every entry is found under
  each of its names; and every edge leads to an entry or to one of two family names.
\<close>

theorem registry_lookup_exact:
  "(\<forall>e \<in> set (REGISTRY ao). \<forall>n. registry_get (REGISTRY ao) n = Some e \<longleftrightarrow> matches_name e n)
 \<and> (\<forall>e \<in> set (REGISTRY ao). \<forall>ed \<in> set (edges e).
      (\<exists>d \<in> set (REGISTRY ao). entry_id d = target ed) \<or> target ed \<in> {''sha-2'', ''sha-3''})"
proof (intro conjI ballI allI)
  fix e n assume "e \<in> set (REGISTRY ao)"
  then show "registry_get (REGISTRY ao) n = Some e \<longleftrightarrow> matches_name e n"
    using registry_get_unique [OF registry_keys_distinct] registry_get_Some by blast
next
  fix e ed assume "e \<in> set (REGISTRY ao)" "ed \<in> set (edges e)"
  then show "(\<exists>d \<in> set (REGISTRY ao). entry_id d = target ed) \<or> target ed \<in> {''sha-2'', ''sha-3''}"
    using registry_edge_known by blast
qed

theorem registry_lookup_exact_witness:
  "registry_get (REGISTRY True) ''AES-256-GCM'' = Some reg_aes_256_gcm"
proof -
  have "matches_name reg_aes_256_gcm ''AES-256-GCM''" by code_simp
  then show ?thesis
    using registry_lookup_exact [of True] reg_members(3) [of True] by blast
qed

text \<open>
  C24. Every algorithm the registry offers in a build has a known-answer test in that build,
  or is one of the six that run inside another's test; every test names an entry; and
  the table has the declared length.
\<close>

theorem available_algorithms_tested:
  "(\<forall>e \<in> set (REGISTRY ao). status e = ImplStatus_Available \<longrightarrow>
      entry_id e \<in> set (tested_algorithms ao) \<or> entry_id e \<in> set exempt_from_cast)
 \<and> set (tested_algorithms ao) \<subseteq> entry_id ` set (REGISTRY ao)
 \<and> length (tested_algorithms ao) = TEST_COUNT ao"
  using available_tested [of _ ao] tested_known [of ao] tested_algorithms_length [of ao]
  by (auto simp: list_all_iff registry_ids_def)

theorem available_algorithms_tested_witness:
  "reg_aes_256_gcm \<in> set (REGISTRY True) \<and> status reg_aes_256_gcm = ImplStatus_Available
   \<and> (entry_id reg_aes_256_gcm \<in> set (tested_algorithms True)
      \<or> entry_id reg_aes_256_gcm \<in> set exempt_from_cast)"
  using available_algorithms_tested [of True] reg_members(3) [of True] reg_aes_256_gcm_facts(9)
  by blast

section \<open>Encodings\<close>

text \<open>
  C38. Base64 against RFC 4648, stated over the RFC's own table of characters and by
  division of the numbers the bytes spell, with nothing of the code's in it: encoding
  gives the text of the reference, it decodes to what was encoded, and any text decodes
  as the reference decodes it, or is refused with an error that says whether its length
  or a character was at fault.
\<close>

theorem base64_correct:
  "b64 xs = text_bytes (rfc4648_encode xs) \<and> unb64 (b64 xs) = Ok xs
 \<and> unb64 (text_bytes t) =
     (if length t mod 4 \<noteq> 0 then Err MalformedEncoding ''base64 length''
      else case rfc4648_decode t of
          Some ys \<Rightarrow> Ok ys
        | None \<Rightarrow> Err MalformedEncoding ''base64 character'')"
  by (intro conjI b64_text unb64_b64 unb64_text)

text \<open>
  C39. Hexadecimal round trips, and is accepted exactly as far as it should be: decoding
  succeeds only on an even number of hexadecimal digits, and what it returns encodes
  to the same text in lower case.
\<close>

theorem hex_correct:
  "unhex (hex xs) = Ok xs \<and> (unhex s = Ok ys \<longrightarrow> hex ys = map ascii_lower s)"
  using unhex_hex unhex_ok by blast

theorem hex_correct_witness: "unhex [0x41, 0x62] = Ok [0xAB] \<and> hex [0xAB] = map ascii_lower [0x41, 0x62]"
proof -
  have "unhex [0x41, 0x62] = Ok [0xAB]" by code_simp
  then show ?thesis using hex_correct [of "[]" "[0x41, 0x62]" "[0xAB]"] by blast
qed

section \<open>Constant-time primitives\<close>

text \<open>
  C40. The branch-free primitives compute what their names say: comparison is equality,
  also for different lengths, selection and conditional move and swap follow the
  choice, and the big-endian comparison is the order of the numbers.
\<close>

theorem constant_time_correct:
  "ct_verify a b = (a = b)
 \<and> choice_into_bool (ct_eq a b) = (a = b)
 \<and> select_u8 (choice_of p) v w = (if p then v else w)
 \<and> select_u32 (choice_of p) x y = (if p then x else y)
 \<and> select_u64 (choice_of p) x' y' = (if p then x' else y')
 \<and> choice_into_bool (ct_is_zero a) = (\<forall>v \<in> set a. v = 0)
 \<and> (length a = length b \<longrightarrow>
      choice_into_bool (lt_be a b) = (be_val a < be_val b)
    \<and> cswap (choice_of p) a b = (if p then (b, a) else (a, b))
    \<and> cmov (choice_of p) a b = (if p then b else a))"
  by (simp add: ct_choice_simps)

theorem constant_time_correct_witness:
  "choice_into_bool (lt_be [1, 2] [1, 3])"
  using constant_time_correct [of "[1, 2]" "[1, 3]"] by (simp add: be_val_Cons)

section \<open>Secret sharing\<close>

text \<open>
  C35. Whatever source the coefficients come from, any selection of at least the
  threshold of the shares of a successful split, in any order, combines to the
  secret.
\<close>

theorem shamir_recovers:
  assumes "split_vec m fill secret threshold share_count rng = (Ok shares, rng')"
    and "random_source fill live" "live rng"
    and "set picked \<subseteq> set shares" "distinct picked" "unat threshold \<le> length picked"
  shows "combine_vec m picked = Ok secret"
  by (rule combine_vec_split_vec [OF assms])

theorem shamir_recovers_witness:
  "combine_vec (module_initial False False)
     [\<lparr>share_index = 3, share_value = [231, 229]\<rparr>, \<lparr>share_index = 1, share_value = [91, 164]\<rparr>] = Ok [5, 9]"
proof (rule shamir_recovers)
  show "split_vec (module_initial False False) stream_fill [5, 9] 2 3 3 =
    (Ok [\<lparr>share_index = 1, share_value = [91, 164]\<rparr>, \<lparr>share_index = 2, share_value = [185, 72]\<rparr>,
         \<lparr>share_index = 3, share_value = [231, 229]\<rparr>], 173)"
    by code_simp
  show "random_source stream_fill (\<lambda>_. True)" by (rule stream.random_source_axioms)
qed auto

text \<open>
  C36. A split hides the secret perfectly: for fewer indices than the threshold, and
  whatever values are observed there, every secret byte is consistent with them, by
  exactly one choice of the remaining coefficients. As the coefficients are drawn
  uniformly, the shares are distributed the same way for every secret.
\<close>

theorem shamir_hides:
  assumes "distinct xs" "0 \<notin> set xs" "length xs = threshold - 1" "length ys = threshold - 1"
  shows "\<exists>!coefficients. length coefficients = threshold - 1 \<and> map (share_byte coefficients s) xs = ys"
  by (rule shares_hide [OF assms])

theorem shamir_hides_witness:
  "\<exists>!coefficients. length coefficients = 2 \<and> map (share_byte coefficients 7) [1, 5] = [0, 255]"
  using shamir_hides [of "[1, 5]" 3 "[0, 255]" 7] by simp

text \<open>
  C37. The arithmetic under the S-box is that of a field: multiplication commutes,
  associates and distributes over exclusive or, squaring is multiplication by
  itself, and every byte but zero has its inverse. The two S-boxes, computed without
  a table, are inverse to each other.
\<close>

theorem sbox_is_aes:
  "gf_mul a b = gf_mul b a \<and> gf_mul (gf_mul a b) c = gf_mul a (gf_mul b c)
 \<and> gf_mul a (b XOR c) = gf_mul a b XOR gf_mul a c \<and> gf_square a = gf_mul a a
 \<and> (a \<noteq> 0 \<longrightarrow> gf_mul a (gf_inv a) = 1)
 \<and> gf_inv_sbox (gf_sbox a) = a \<and> gf_sbox (gf_inv_sbox a) = a"
  using gf_mul_comm gf_mul_assoc additive8D [OF gf_mul_additive_right] gf_square_mul gf_mul_inv
    inv_sbox_sbox sbox_inv_sbox by blast

theorem sbox_is_aes_witness: "gf_mul 0x53 (gf_inv 0x53) = 1"
  using sbox_is_aes [where a = "0x53" and b = 1 and c = 1] by simp

section \<open>Hash functions and message authentication\<close>

text \<open>
  C6. However a message is cut into pieces, each of the six SHA-2 digests gives the
  function of FIPS 180-4 of the whole: the chaining of the compression over the
  blocks of the padded message, truncated.
\<close>

theorem sha2_streaming:
  "digest_finalize sha224 (fold (digest_update sha224) parts (digest_new sha224)) = sha2_32_spec SHA224_IV 28 (concat parts)
 \<and> digest_finalize sha256 (fold (digest_update sha256) parts (digest_new sha256)) = sha2_32_spec SHA256_IV 32 (concat parts)
 \<and> digest_finalize sha384 (fold (digest_update sha384) parts (digest_new sha384)) = sha2_64_spec SHA384_IV 48 (concat parts)
 \<and> digest_finalize sha512 (fold (digest_update sha512) parts (digest_new sha512)) = sha2_64_spec SHA512_IV 64 (concat parts)
 \<and> digest_finalize sha512_224 (fold (digest_update sha512_224) parts (digest_new sha512_224)) = sha2_64_spec SHA512_224_IV 28 (concat parts)
 \<and> digest_finalize sha512_256 (fold (digest_update sha512_256) parts (digest_new sha512_256)) = sha2_64_spec SHA512_256_IV 32 (concat parts)"
  by (intro conjI sha224.streaming sha256.streaming sha384.streaming sha512.streaming
      sha512_224.streaming sha512_256.streaming)

text \<open>
  C28. HMAC-SHA-256 is the function of FIPS 198-1 behind the gate; keying, feeding the
  message in pieces and finishing gives the same tag as the one-pass code; and
  verification accepts the tag and nothing else, shorter or longer tags included.
\<close>

theorem hmac_correct:
  "mac_pub_mac m HmacSha256 k d = bind_result (operational m) (\<lambda>_. Ok (HMAC_SHA256 k d))
 \<and> bind_result (mac_new HmacSha256 m k)
      (\<lambda>s. mac_pub_finalize m HmacSha256 (fold (mac_update HmacSha256) parts s))
    = mac_pub_mac m HmacSha256 k (concat parts)
 \<and> mac_verify m HmacSha256 k d t
    = bind_result (operational m) (\<lambda>_. if t = HMAC_SHA256 k d then Ok () else Err AuthenticationFailed ''mac tag'')"
proof (intro conjI)
  show "mac_pub_mac m HmacSha256 k d = bind_result (operational m) (\<lambda>_. Ok (HMAC_SHA256 k d))"
    by (rule hmac_sha256.pub_mac) simp
  show "mac_verify m HmacSha256 k d t
    = bind_result (operational m) (\<lambda>_. if t = HMAC_SHA256 k d then Ok () else Err AuthenticationFailed ''mac tag'')"
    by (rule hmac_sha256.verify_iff) simp
  show "bind_result (mac_new HmacSha256 m k)
      (\<lambda>s. mac_pub_finalize m HmacSha256 (fold (mac_update HmacSha256) parts s))
    = mac_pub_mac m HmacSha256 k (concat parts)"
    using hmac_sha256.mac_streaming [of m "()" k parts] hmac_sha256.new_gate [of m _ k]
    by (cases "operational m") (simp_all add: mac_pub_finalize_def mac_pub_mac_def)
qed

section \<open>Key derivation\<close>

text \<open>
  C32. Behind the gate the three derivations compute the functions of their standards:
  HKDF that of RFC 5869 up to 255 blocks and a refusal beyond; the counter mode that
  of SP 800-108; PBKDF2 that of RFC 8018 from a thousand iterations and a salt of
  sixteen bytes on.
\<close>

theorem key_derivation_correct:
  assumes "operational m = Ok ()"
  shows "hkdf_derive m HmacSha256 secret salt info out =
      (if 255 * 32 < length out then (Err InvalidLength ''hkdf output exceeds 255*HashLen'', out)
       else (Ok (), hkdf_okm HMAC_SHA256 32 (hkdf_prk HMAC_SHA256 32 salt secret) info (length out)))
  \<and> (out \<noteq> [] \<and> 0 \<notin> set label \<and> length out * 8 < 2 ^ 32 \<longrightarrow>
      kbkdf_counter m HmacSha256 key label cxt out =
        (Ok (), kbkdf_okm HMAC_SHA256 32 key label cxt (length out)))
  \<and> (out \<noteq> [] \<and> 1000 \<le> c \<and> 16 \<le> length salt \<and> length out < 2 ^ 32 \<longrightarrow>
      pbkdf2 m HmacSha256 password salt c out =
        (Ok (), pbkdf2_okm HMAC_SHA256 32 password salt (unat c) (length out)))"
  using hmac_sha256.hkdf_derive_eq [OF assms] hmac_sha256.kbkdf_counter_eq [OF assms]
    hmac_sha256.pbkdf2_eq [OF assms]
  by simp

theorem key_derivation_correct_witness:
  "hkdf_derive (module_initial False False) HmacSha256 [1] (replicate 16 7) [2] [0]
     = (Ok (), hkdf_okm HMAC_SHA256 32 (hkdf_prk HMAC_SHA256 32 (replicate 16 7) [1]) [2] 1)
 \<and> kbkdf_counter (module_initial False False) HmacSha256 [1] [2] [3] [0]
     = (Ok (), kbkdf_okm HMAC_SHA256 32 [1] [2] [3] 1)
 \<and> pbkdf2 (module_initial False False) HmacSha256 [1] (replicate 16 7) 1000 [0]
     = (Ok (), pbkdf2_okm HMAC_SHA256 32 [1] (replicate 16 7) 1000 1)"
proof -
  have op: "operational (module_initial False False) = Ok ()" by code_simp
  from key_derivation_correct [OF op, where secret = "[1]" and salt = "replicate 16 7" and info = "[2]"
      and out = "[0]" and label = "[2]" and key = "[1]" and cxt = "[3]" and c = 1000 and password = "[1]"]
  show ?thesis by simp
qed

text \<open>
  C34. Domain separation of the counter mode: whenever the function returns, a full block
  of its output is HMAC-SHA-256 of one input, and the inputs behind any two blocks of any
  two calls are equal exactly when the block numbers, labels, contexts and lengths are.
  So equal blocks under different labels or contexts are a collision of HMAC at the two
  inputs shown, and nothing less. The zero byte between label and context does it, with
  the refusal of a label that holds a zero.
\<close>

theorem kbkdf_blocks_separate:
  assumes "kbkdf_counter m HmacSha256 key l c out = (Ok (), okm)" "32 * Suc i \<le> length out"
    and "kbkdf_counter m' HmacSha256 key l' c' out' = (Ok (), okm')" "32 * Suc j \<le> length out'"
  shows "\<exists>x y. take 32 (drop (32 * i) okm) = HMAC_SHA256 key x
    \<and> take 32 (drop (32 * j) okm') = HMAC_SHA256 key y
    \<and> x = be_of_word 4 (of_nat (Suc i) :: u32) @ l @ [0] @ c @ be_of_word 4 (of_nat (8 * length out) :: u32)
    \<and> y = be_of_word 4 (of_nat (Suc j) :: u32) @ l' @ [0] @ c' @ be_of_word 4 (of_nat (8 * length out') :: u32)
    \<and> (x = y \<longleftrightarrow> i = j \<and> l = l' \<and> c = c' \<and> length out = length out')"
proof -
  note X = hmac_sha256.kbkdf_counter_block [OF TrueI assms(1), unfolded HmacSha256_TAG_LEN, OF assms(2)]
  note Y = hmac_sha256.kbkdf_counter_block [OF TrueI assms(3), unfolded HmacSha256_TAG_LEN, OF assms(4)]
  have "kbkdf_input (Suc i) l c (length out) = kbkdf_input (Suc j) l' c' (length out') \<longleftrightarrow>
      i = j \<and> l = l' \<and> c = c' \<and> length out = length out'"
    using X Y assms(2,4) kbkdf_input_iff [of l l' "Suc i" "Suc j" "length out" "length out'" c c'] by simp
  then show ?thesis
    using X Y by (auto simp only: kbkdf_input_def)
qed

theorem kbkdf_blocks_separate_witness:
  "\<exists>okm okm'. kbkdf_counter (module_initial False False) HmacSha256 [1] [7] [8, 9] (replicate 32 0) = (Ok (), okm)
     \<and> kbkdf_counter (module_initial False False) HmacSha256 [1] [7, 8] [9] (replicate 32 0) = (Ok (), okm')
     \<and> take 32 okm = HMAC_SHA256 [1] ([0, 0, 0, 1, 7] @ [0] @ [8, 9] @ [0, 0, 1, 0])
     \<and> take 32 okm' = HMAC_SHA256 [1] ([0, 0, 0, 1, 7, 8] @ [0] @ [9] @ [0, 0, 1, 0])"
proof -
  have op: "operational (module_initial False False) = Ok ()" by code_simp
  note X = hmac_sha256.kbkdf_counter_eq [OF op TrueI, of "replicate 32 0" "[7]" "[1]" "[8, 9]"]
  note Y = hmac_sha256.kbkdf_counter_eq [OF op TrueI, of "replicate 32 0" "[7, 8]" "[1]" "[9]"]
  have b: "be_of_word 4 (1 :: u32) = [0, 0, 0, 1]" "be_of_word 4 (256 :: u32) = [0, 0, 1, 0]" by code_simp+
  show ?thesis
    using kbkdf_blocks_separate [OF X _ Y, of 0 0] X Y by (simp add: b)
qed

section \<open>Random bytes\<close>

text \<open>
  C10. The HMAC generator refines the one of SP 800-90A: with enough entropy it is made in
  the standard's state, reseeding and generating take it to the standard's next
  state, the bytes are the standard's, and the counter counts the calls since the
  last reseeding.
\<close>

theorem drbg_refines_standard:
  assumes "operational m = Ok ()" "32 \<le> length entropy"
  shows "(\<exists>d. drbg_instantiate m HmacSha256 entropy nonce pers = Ok d \<and> drbg_wf HmacSha256 d
      \<and> drbg_reseed_counter d = 1 \<and> drbg_abs d = sp_instantiate HMAC_SHA256 32 (entropy @ nonce @ pers))
  \<and> (drbg_wf HmacSha256 d \<longrightarrow>
      (\<exists>d'. drbg_reseed m HmacSha256 entropy additional d = (Ok (), d') \<and> drbg_wf HmacSha256 d'
        \<and> drbg_reseed_counter d' = 1 \<and> drbg_abs d' = sp_update HMAC_SHA256 (entropy @ additional) (drbg_abs d)))
  \<and> (drbg_wf HmacSha256 d \<and> drbg_reseed_counter d \<le> RESEED_INTERVAL \<longrightarrow>
      (\<exists>d'. drbg_generate m HmacSha256 additional out d
          = (Ok (), d', snd (sp_generate HMAC_SHA256 32 additional (length out) (drbg_abs d)))
        \<and> drbg_wf HmacSha256 d' \<and> drbg_reseed_counter d' = drbg_reseed_counter d + 1
        \<and> drbg_abs d' = fst (sp_generate HMAC_SHA256 32 additional (length out) (drbg_abs d))))"
  using hmac_sha256.drbg_instantiate_eq [OF assms(1), of entropy nonce pers]
    hmac_sha256.drbg_reseed_eq [OF assms(1), of d entropy additional]
    hmac_sha256.drbg_generate_eq [OF assms(1), of d additional out] assms(2)
  by (simp add: MIN_ENTROPY_LEN_def)

theorem drbg_refines_standard_witness:
  "\<exists>d d'. drbg_instantiate (module_initial False False) HmacSha256 (replicate 32 5) [] [] = Ok d
    \<and> drbg_generate (module_initial False False) HmacSha256 [] [0] d
      = (Ok (), d', snd (sp_generate HMAC_SHA256 32 [] 1 (sp_instantiate HMAC_SHA256 32 (replicate 32 5))))"
proof -
  have op: "operational (module_initial False False) = Ok ()" by code_simp
  have len: "32 \<le> length (replicate 32 (5 :: u8))" by simp
  note law = drbg_refines_standard [OF op len, where nonce = "[]" and pers = "[]" and additional = "[]" and out = "[0]"]
  obtain d where d: "drbg_instantiate (module_initial False False) HmacSha256 (replicate 32 5) [] [] = Ok d"
    "drbg_wf HmacSha256 d" "drbg_reseed_counter d = 1"
    "drbg_abs d = sp_instantiate HMAC_SHA256 32 (replicate 32 5 @ [] @ [])"
    using law by blast
  have "drbg_reseed_counter d \<le> RESEED_INTERVAL" using d(3) by (simp add: RESEED_INTERVAL_def)
  with law [of d] d show ?thesis by auto
qed

text \<open>
  C13. The generator of applications: however it was made, filled from and reseeded, a fill
  either gives as many bytes as asked, or leaves the buffer alone and reports what
  the module's gate or the source of the operating system, when a reseeding is due,
  reported. It never reaches the limit at which the underlying generator refuses.
\<close>

theorem rng_fill_safe:
  assumes "rng_reachable os (r, m, e)" "random_source os (\<lambda>_. True)"
    and "rng_fill os out (r, m, e) = (res, out', r', m', e')"
  shows "res = Ok () \<and> length out' = length out
    \<or> (\<exists>er. res = Inl er \<and> out' = out
        \<and> (operational m = Inl er \<or> os_entropy os MIN_ENTROPY_LEN (m, e) = (Inl er, m', e')))"
  using rng_fill_outcome [OF _ assms(2) _ assms(3)] rng_reachable_inv [OF assms(1,2)] by simp

theorem rng_fill_safe_witness:
  "\<exists>r res out' st'. rng_from_entropy (module_initial False False) (replicate 32 5) [] = Ok r
    \<and> rng_fill stream_fill [0, 0, 0] (r, module_initial False False, 1) = (res, out', st')
    \<and> (res = Ok () \<and> length out' = 3 \<or> is_ok res = False)"
proof -
  let ?m = "module_initial False False"
  have op: "operational ?m = Ok ()" by code_simp
  obtain d where "drbg_instantiate ?m HmacSha256 (replicate 32 5) [] [] = Ok d"
    using hmac_sha256.drbg_instantiate_eq [OF op, of "replicate 32 5" "[]" "[]"]
    by (auto simp: MIN_ENTROPY_LEN_def)
  then have r: "rng_from_entropy ?m (replicate 32 5) [] = Ok \<lparr>rng_drbg = d, rng_calls = 0\<rparr>"
    using op by (simp add: rng_from_entropy_def)
  then have reach: "rng_reachable stream_fill (\<lparr>rng_drbg = d, rng_calls = 0\<rparr>, ?m, 1)"
    by (intro rng_reachable.from_entropy) simp
  obtain res out' r' m' e' where f: "rng_fill stream_fill [0, 0, 0] (\<lparr>rng_drbg = d, rng_calls = 0\<rparr>, ?m, 1)
      = (res, out', r', m', e')" by (metis prod.collapse)
  from rng_fill_safe [OF reach stream.random_source_axioms f] show ?thesis using r f by auto
qed

text \<open>
  C33. Material from the operating system is used exactly when no byte stands eight times
  in a row in it; otherwise the call fails and the module is in the error state,
  where every later operation is refused.
\<close>

theorem entropy_health:
  assumes "os e n = (Ok bs, e')"
  shows "if \<exists>before x after. bs = before @ replicate 8 x @ after
    then \<exists>er m'. os_entropy os n (m, e) = (Inl er, m', e') \<and> FAILED m'
    else os_entropy os n (m, e) = (Ok bs, m, e')"
  using assms not_stuck_iff [of bs]
  by (cases "not_stuck bs") (auto simp: os_entropy_def conditional_self_test_def STUCK_RUN_def)

theorem entropy_health_witness:
  "\<exists>er m'. os_entropy (\<lambda>e n. (Ok (replicate n 9), e)) 16 (module_initial False False, ()) = (Inl er, m', ()) \<and> FAILED m'"
proof -
  have "replicate 16 (9 :: u8) = [] @ replicate 8 9 @ replicate 8 9" by (simp flip: replicate_add)
  then have "\<exists>before x after. replicate 16 (9 :: u8) = before @ replicate 8 x @ after" by blast
  then show ?thesis
    using entropy_health [of "\<lambda>e n. (Ok (replicate n 9), e)" "()" 16 "replicate 16 9" "()" "module_initial False False"]
    by (simp only: if_True)
qed

section \<open>Authenticated encryption\<close>

text \<open>
  C5. However a message is cut into pieces, Poly1305 on 26-bit limbs, four blocks
  at a time where it can, gives the tag of RFC 8439: the polynomial of the blocks at the
  clamped key modulo \<open>2^130 - 5\<close>, plus the pad modulo \<open>2^128\<close>; and the one-shot form agrees.
\<close>

theorem poly1305_correct:
  assumes "operational m = Ok ()" "length key = 32"
  shows "bind_result (mac_new Poly1305 m key)
      (\<lambda>s. Ok (mac_finalize Poly1305 (fold (mac_update Poly1305) parts s))) = Ok (poly1305_spec key (concat parts))
    \<and> mac_mac Poly1305 m key (concat parts) = Ok (poly1305_spec key (concat parts))"
  using poly1305.mac_streaming [OF assms] poly1305.mac_tag [OF assms] by simp

theorem poly1305_correct_witness:
  "mac_mac Poly1305 (module_initial False False) (replicate 32 7) [1, 2, 3] = Ok (poly1305_spec (replicate 32 7) [1, 2, 3])"
proof -
  have op: "operational (module_initial False False) = Ok ()" by code_simp
  from poly1305_correct [OF op, of "replicate 32 7" "[[1, 2], [3]]"] show ?thesis by simp
qed

text \<open>
  C30. With an operand of 27-bit limbs and a multiplier of 26-bit limbs, each a little
  over, every coefficient of the unreduced product is below \<open>2^58\<close>, so that four of them
  add without wrapping; the reduction leaves 26-bit limbs but for the second; and the
  value of the result is the product modulo \<open>2^130 - 5\<close>.
\<close>

theorem poly1305_no_wrap:
  assumes "limbs_below (2 ^ 27 + 2 ^ 15) h" "limbs_below (2 ^ 26 + 2 ^ 15) r"
  shows "wide_below (2 ^ 58) (mul_unreduced h r (five_times r)) \<and> limbs_reduced (poly_mul h r)
    \<and> limbs_val (poly_mul h r) mod poly_p = limbs_val h * limbs_val r mod poly_p"
  using mul_unreduced_val(1) [OF assms] poly_mul_val [OF assms] by blast

theorem poly1305_no_wrap_witness:
  "limbs_reduced (poly_mul (0x7ffffff, 0x7ffffff, 0x7ffffff, 0x7ffffff, 0x7ffffff) (0x3ffffff, 1, 2, 3, 0x3ffffff))"
  using poly1305_no_wrap [of "(0x7ffffff, 0x7ffffff, 0x7ffffff, 0x7ffffff, 0x7ffffff)" "(0x3ffffff, 1, 2, 3, 0x3ffffff)"]
  by simp

text \<open>
  C15. On an operational module and a key of 32 bytes, sealing refuses a tag buffer or
  a nonce of another length, then a message past the block counter, and otherwise XORs
  the keystream from block 1 and writes the tag of RFC 8439 under the key of block 0;
  opening refuses alike, zeroes the message on a wrong tag, and decrypts on a right one.
\<close>

theorem chacha20_poly1305_correct:
  assumes "operational m = Ok ()" "length key = 32"
  shows "aead_seal ChaCha20Poly1305 m key n a p t =
      (if length t \<noteq> 16 then (Err InvalidLength ''chacha20-poly1305 tag buffer'', p, t)
       else if length n \<noteq> 12 then (Err InvalidLength ''chacha20 nonce must be 12 bytes'', p, t)
       else if 2 ^ 32 < 1 + int ((length p + 63) div 64) then (Err CounterExhausted ''chacha20 block counter'', p, t)
       else let c = xor_bytes p (chacha20_stream key n 1 ((length p + 63) div 64))
            in (Ok (), c, poly1305_spec (take 32 (chacha20_block key 0 n)) (aead_mac_data a c)))
    \<and> aead_open ChaCha20Poly1305 m key n a c t =
      (if length t \<noteq> 16 then (Err InvalidLength ''chacha20-poly1305 tag'', c)
       else if length n \<noteq> 12 then (Err InvalidLength ''chacha20-poly1305 nonce'', c)
       else if t \<noteq> poly1305_spec (take 32 (chacha20_block key 0 n)) (aead_mac_data a c)
       then (Err AuthenticationFailed ''chacha20-poly1305'', replicate (length c) 0)
       else if 2 ^ 32 < 1 + int ((length c + 63) div 64) then (Err CounterExhausted ''chacha20 block counter'', c)
       else (Ok (), xor_bytes c (chacha20_stream key n 1 ((length c + 63) div 64))))"
  by (simp add: ChaCha20Poly1305_def chacha_seal_eq [OF assms(2,1)] chacha_open_eq [OF assms(2,1)]
        chacha_tag_spec_def xor_keystream_eq [OF assms(2)] Let_def not_le [symmetric])

theorem chacha20_poly1305_correct_witness:
  "aead_open ChaCha20Poly1305 (module_initial False False) (replicate 32 7) (replicate 12 1) [] [5] [9]
     = (Err InvalidLength ''chacha20-poly1305 tag'', [5])"
proof -
  have op: "operational (module_initial False False) = Ok ()" by code_simp
  from chacha20_poly1305_correct [OF op, of "replicate 32 7" "replicate 12 1" "[]" "[]" "[9]" "[5]"]
  show ?thesis by simp
qed

text \<open>
  C4. Either cipher opens a ciphertext and tag to a message exactly when sealing that
  message gives them; whatever fails leaves the ciphertext or zeros in the buffer.
\<close>

theorem aead_opens_only_sealed:
  assumes "A = ChaCha20Poly1305 \<or> A = XChaCha20Poly1305" "length key = 32" "length t = 16"
    and "operational m = Ok ()"
  shows "(aead_open A m key n a x y = (Ok (), p) \<longleftrightarrow> aead_seal A m key n a p t = (Ok (), x, y))
    \<and> (aead_open A m key n a x y = (Inl e, out) \<longrightarrow> out \<in> {x, replicate (length x) 0})"
proof -
  have "aead A (\<lambda>key. length key = 32) \<and> AEAD_TAG_LEN A = 16"
    using assms(1) chacha20poly1305.aead_axioms xchacha20poly1305.aead_axioms
    by (auto simp: ChaCha20Poly1305_def XChaCha20Poly1305_def)
  then have A: "aead A (\<lambda>key. length key = 32)" and tag: "AEAD_TAG_LEN A = 16" by simp_all
  show ?thesis
    using aead.open_only [OF A, of key m n a x y "()" p t] aead.open_seal [OF A, of key m n a p t "()" x y m]
      aead.open_fails [OF A, of key m n a x y e out] assms(2-4) tag
    by (intro conjI iffI impI) simp_all
qed

theorem aead_opens_only_sealed_witness:
  "aead_open XChaCha20Poly1305 (module_initial False False) (replicate 32 7) [1] [] [5] [9] = (Ok (), [6])
   \<longleftrightarrow> aead_seal XChaCha20Poly1305 (module_initial False False) (replicate 32 7) [1] [] [6] (replicate 16 0) = (Ok (), [5], [9])"
proof -
  have op: "operational (module_initial False False) = Ok ()" by code_simp
  from aead_opens_only_sealed [OF _ _ _ op, of XChaCha20Poly1305 "replicate 32 7" "replicate 16 0" "[1]" "[]" "[5]" "[9]" "[6]"]
  show ?thesis by simp
qed

text \<open>
  C31. Sealing XChaCha20-Poly1305 under a nonce drawn from any generator in use returns
  a nonce of 24 bytes under which the ciphertext and tag open to the message.
\<close>

theorem random_nonce_roundtrip:
  assumes "random_source fill live" "live r" "length key = 32"
    and "seal_with_random_nonce m fill key r a p t = (Ok n, x, y, r')"
  shows "length n = 24 \<and> aead_open XChaCha20Poly1305 m key n a x y = (Ok (), p)"
  using random_source.seal_with_random_nonce_Ok [OF assms] by (simp add: XChaCha20Poly1305_def)

theorem random_nonce_roundtrip_witness:
  "\<exists>x y. seal_with_random_nonce (module_initial False False) (\<lambda>r n. (Ok (replicate n 1), r)) (replicate 32 7) () [] [5] (replicate 16 0)
       = (Ok (replicate 24 1), x, y, ())
     \<and> aead_open XChaCha20Poly1305 (module_initial False False) (replicate 32 7) (replicate 24 1) [] x y = (Ok (), [5])"
proof -
  have op: "operational (module_initial False False) = Ok ()" by code_simp
  let ?key = "replicate 32 7 :: bytes" and ?n = "replicate 24 1 :: bytes"
  have src: "random_source (\<lambda>(r :: unit) n. (Ok (replicate n 1), r)) (\<lambda>_. True)"
    by unfold_locales auto
  have sub: "length (hchacha20 ?key (take 16 ?n)) = 32" by simp
  obtain x y where "xchacha_seal (module_initial False False) ?key ?n [] [5] (replicate 16 0) = (Ok (), x, y)"
    using chacha_seal_eq [OF sub op, of "replicate 4 0 @ drop 16 ?n" "[]" "[5]" "replicate 16 0"]
      xor_keystream_eq [OF sub, of "replicate 4 0 @ drop 16 ?n" 1 "[5]"]
    by (simp add: xchacha_seal_eq [OF op])
  then have s: "seal_with_random_nonce (module_initial False False) (\<lambda>r n. (Ok (replicate n 1), r)) ?key () [] [5] (replicate 16 0)
       = (Ok ?n, x, y, ())"
    using op by (simp add: seal_with_random_nonce_def)
  show ?thesis
    using s random_nonce_roundtrip [OF src _ _ s] by auto
qed

text \<open>
  C29. A message that would run the counter past its last value is refused untouched.
  Otherwise byte \<open>j\<close> is XORed with byte \<open>j mod 64\<close> of the block of counter \<open>counter + j div 64\<close>,
  and no two blocks of the message come from one state of the permutation.
\<close>

theorem keystream_positions:
  assumes "length k = 32" "length n = 12"
  shows "if 2 ^ 32 < uint counter + int ((length data + 63) div 64)
    then xor_keystream k n counter data = (Err CounterExhausted ''chacha20 block counter'', data)
    else xor_keystream k n counter data
        = (Ok (), map (\<lambda>j. data ! j XOR chacha20_block k (counter + of_nat (j div 64)) n ! (j mod 64)) [0..<length data])
      \<and> inj_on (\<lambda>i. rounds (chacha_SIGMA @ le_words k @ [counter + of_nat i] @ le_words n))
               {..<(length data + 63) div 64}"
proof (cases "2 ^ 32 < uint counter + int ((length data + 63) div 64)")
  case False
  then have "uint counter + int ((length data + 63) div 64) \<le> 2 ^ 32" by simp
  from xor_keystream_nth [OF assms this] rounds_states_inj [OF assms this] False show ?thesis
    by (simp only: if_False simp_thms)
qed (simp add: xor_keystream_eq [OF assms])

theorem keystream_positions_witness:
  "xor_keystream (replicate 32 7) (replicate 12 1) 0 [5]
     = (Ok (), [5 XOR chacha20_block (replicate 32 7) 0 (replicate 12 1) ! 0])"
  using keystream_positions [of "replicate 32 7" "replicate 12 1" 0 "[5]"] by simp

section \<open>Sealers and openers\<close>

text \<open>
  C11. Whatever is asked of a sealer, and whatever fails, no two of the packets it lets
  out carry one nonce.
\<close>

theorem sealer_nonces_distinct:
  assumes "length (sealer_fixed s) = 4" "sealer_run A rs s = (ps, s')"
  shows "distinct (map packet_nonce ps)"
  by (rule rising_distinct [OF sealer_run_rising [OF assms(2,1)]])

theorem sealer_nonces_distinct_witness:
  "let s = \<lparr>sealer_aead = replicate 32 7, sealer_fixed = [1, 2, 3, 4], sealer_counter = 0xFFFFFFFFFFFFFFFD\<rparr>;
       q = (module_initial False False, [], [5], replicate 16 0)
   in distinct (map packet_nonce (fst (sealer_run ChaCha20Poly1305 [q, q, q, q] s)))"
proof -
  let ?s = "\<lparr>sealer_aead = replicate 32 7, sealer_fixed = [1, 2, 3, 4], sealer_counter = 0xFFFFFFFFFFFFFFFD\<rparr>"
  let ?q = "(module_initial False False, [], [5], replicate 16 0)"
  show ?thesis
    using sealer_nonces_distinct [of ?s ChaCha20Poly1305 "[?q, ?q, ?q, ?q]" "fst (sealer_run ChaCha20Poly1305 [?q, ?q, ?q, ?q] ?s)"
        "snd (sealer_run ChaCha20Poly1305 [?q, ?q, ?q, ?q] ?s)"]
    unfolding Let_def prod.collapse by (simp del: sealer_run.simps)
qed

text \<open>
  C12. A sealer and an opener made from one key and one fixed field: any packets of the
  sealer, in their order but with any lost, open to the messages sealed.
\<close>

theorem sealer_delivery:
  assumes "sealer_new ChaCha20Poly1305 m key fixed = Ok s" "opener_new ChaCha20Poly1305 m key fixed = Ok r"
    and "length fixed = 4" "operational m' = Ok ()"
    and "sealer_run ChaCha20Poly1305 rs s = (ps, s')" "subseq qs ps"
  shows "fst (opener_run ChaCha20Poly1305 m' qs r) = map (\<lambda>pk. (Ok (), packet_message pk)) qs"
proof -
  obtain c where c: "aead_new ChaCha20Poly1305 m key = Ok c"
    and s: "s = \<lparr>sealer_aead = c, sealer_fixed = fixed, sealer_counter = 0\<rparr>"
    and r: "r = \<lparr>opener_aead = c, opener_fixed = fixed, opener_next = 0\<rparr>"
    using assms(1,2) by (auto simp: sealer_new_def sealer_resume_def opener_new_def)
  show ?thesis
    using chacha20poly1305.new_keyed [OF c] assms(3,4,6)
    by (intro aead.delivery [OF chacha20poly1305.aead_axioms assms(5)]) (auto simp: s r paired_def)
qed

theorem sealer_delivery_witness:
  "let m = module_initial False False; key = replicate 32 7; q = (m, [], [5], replicate 16 0);
       s = \<lparr>sealer_aead = key, sealer_fixed = [1, 2, 3, 4], sealer_counter = 0\<rparr>;
       r = \<lparr>opener_aead = key, opener_fixed = [1, 2, 3, 4], opener_next = 0\<rparr>;
       ps = fst (sealer_run ChaCha20Poly1305 [q, q] s)
   in fst (opener_run ChaCha20Poly1305 m ps r) = map (\<lambda>pk. (Ok (), packet_message pk)) ps"
proof -
  let ?m = "module_initial False False" and ?key = "replicate 32 7 :: bytes"
  let ?q = "(?m, [], [5], replicate 16 0)"
  let ?s = "\<lparr>sealer_aead = ?key, sealer_fixed = [1, 2, 3, 4], sealer_counter = 0\<rparr>"
  let ?r = "\<lparr>opener_aead = ?key, opener_fixed = [1, 2, 3, 4], opener_next = 0\<rparr>"
  have op: "operational ?m = Ok ()" by code_simp
  have s: "sealer_new ChaCha20Poly1305 ?m ?key [1, 2, 3, 4] = Ok ?s"
    by (simp add: sealer_new_def sealer_resume_def check_nonce_len_def ChaCha20Poly1305_def SEALER_NONCE_LEN_def chacha_new_def op)
  have r: "opener_new ChaCha20Poly1305 ?m ?key [1, 2, 3, 4] = Ok ?r"
    by (simp add: opener_new_def check_nonce_len_def ChaCha20Poly1305_def SEALER_NONCE_LEN_def chacha_new_def op)
  show ?thesis
    unfolding Let_def
    by (rule sealer_delivery [OF s r _ op prod.collapse [symmetric, of "sealer_run ChaCha20Poly1305 [?q, ?q] ?s"]])
       (simp_all del: sealer_run.simps)
qed

text \<open>
  C14. Once a nonce has opened, no packet with that nonce opens again, whatever was
  offered in between: it is refused before the cipher runs, with the buffer as it came.
\<close>

theorem opener_refuses_replay:
  assumes "opener_open A m n aad x y r = (Ok (), out, r1)" "opener_run A m' ps r1 = (outs, r2)"
  shows "opener_open A m'' n aad' x' y' r2 =
    (Err AuthenticationFailed ''sealer nonce replayed or out of order'', x', r2)"
  by (rule no_replay [OF assms])

theorem opener_refuses_replay_witness:
  "let A = \<lparr>aead_new = \<lambda>m k. Ok (), aead_seal = \<lambda>m c n a p t. (Ok (), p, t), aead_open = \<lambda>m c n a x y. (Ok (), x),
            AEAD_KEY_LEN = 0, AEAD_NONCE_LEN = 12, AEAD_TAG_LEN = 0\<rparr>;
       m = module_initial False False; n = [1, 2, 3, 4, 0, 0, 0, 0, 0, 0, 0, 7];
       r = \<lparr>opener_aead = (), opener_fixed = [1, 2, 3, 4], opener_next = 0\<rparr>
   in fst (opener_open A m n [] [5] [] (snd (snd (opener_open A m n [] [5] [] r))))
      = Err AuthenticationFailed ''sealer nonce replayed or out of order''"
proof -
  define A :: "unit aead_ops" where
    "A = \<lparr>aead_new = \<lambda>m k. Ok (), aead_seal = \<lambda>m c n a p t. (Ok (), p, t), aead_open = \<lambda>m c n a x y. (Ok (), x),
          AEAD_KEY_LEN = 0, AEAD_NONCE_LEN = 12, AEAD_TAG_LEN = 0\<rparr>"
  let ?m = "module_initial False False" and ?n = "[1, 2, 3, 4, 0, 0, 0, 0, 0, 0, 0, 7] :: bytes"
  let ?r = "\<lparr>opener_aead = (), opener_fixed = [1, 2, 3, 4], opener_next = 0\<rparr>"
  have o: "opener_open A ?m ?n [] [5] [] ?r = (Ok (), [5], ?r\<lparr>opener_next := 8\<rparr>)"
    by (simp add: A_def opener_open_def SEALER_NONCE_LEN_def FIXED_LEN_def Let_def word_of_be_def)
  show ?thesis
    unfolding Let_def A_def [symmetric]
    using opener_refuses_replay [OF o, of ?m "[]"] o by simp
qed

section \<open>Formats\<close>

text \<open>
  C22. The JSON reader returns on every text: the counter that bounds its three
  mutually recursive parsers never runs out. It does not return a value or an error on all
  of them: a high surrogate followed by the escape of a smaller character stops the program.
\<close>

theorem json_parse_returns:
  "json_parse F text \<noteq> NoFuel \<and> json_parse F lone_surrogate = Panic"
proof -
  let ?p = "skip_ws \<lparr>rest = text, pos = 0, depth = 0\<rparr>"
  have "length (rest ?p) \<le> length text"
    using skip_ws_shorter [of "\<lparr>rest = text, pos = 0, depth = 0\<rparr>"] by simp
  then have "json_value F (2 * length text + 2) ?p \<noteq> NoFuel"
    by (intro json_value_returns [THEN conjunct1, rule_format]) simp
  then have "json_parse F text \<noteq> NoFuel"
    by (simp add: json_parse_def Let_def then_parse_NoFuel del: json_value.simps)
  then show ?thesis
    by (simp add: lone_surrogate_panics)
qed

text \<open>
  What the reader makes of a text is a well-formed document: every character
  is a Unicode scalar value, the keys of every object are in strict order, and nothing
  nests deeper than 64. Sixty-five opening brackets are refused at the last of them,
  whatever follows.
\<close>

theorem json_parse_well_formed:
  assumes "json_parse F text = Done v p" "list_all scalar text"
  shows "json_ok v \<and> nesting_le 64 v \<and> rest p = [] \<and> json_parse F (replicate 65 91 @ tail) = Fail (TooDeep 64)"
proof -
  let ?p = "\<lparr>rest = text, pos = 0, depth = 0\<rparr>"
  obtain p1 where j: "json_value F (2 * length text + 2) (skip_ws ?p) = Done v p1" and r: "rest p = []"
    using assms(1) by (auto simp: json_parse_def Let_def elim!: then_parse_DoneE split: if_splits)
  have l: "later ?p (skip_ws ?p)"
    by (rule later_skip_ws)
  have "scalar_text (skip_ws ?p)"
    by (rule scalar_text_later [OF l]) (simp add: scalar_text_def assms(2))
  moreover have "depth (skip_ws ?p) = 0"
    using l by (simp add: later_def)
  ultimately have "fits (skip_ws ?p) v"
    using json_value_fits_aux [of F "2 * length text + 2"] j by (auto simp: reads_ok_def)
  then show ?thesis
    using \<open>depth (skip_ws ?p) = 0\<close> r deep_refused by (simp add: fits_def MAX_DEPTH_def)
qed

definition unit_floats :: "unit float_ops" where
  "unit_floats = \<lparr>parse_f64 = \<lambda>t. if t = [48] then Some () else None, show_f64 = \<lambda>n. [48],
     integral_f64 = \<lambda>n. True, f64_as_i64 = \<lambda>n. 0\<rparr>"

definition sample_document :: "unit json" where
  "sample_document = JObject [([97], JArray [JNull, JNumber (), JBool True]), ([98], JString [34, 10])]"

lemma sample_document_ok:
  "numbers_ok unit_floats sample_document" "json_ok sample_document" "nesting_le 64 sample_document"
  by (simp_all add: sample_document_def unit_floats_def number_ok_def write_number_def show_int_def
      show_nat.simps scalar_def)

theorem json_parse_well_formed_witness:
  "json_ok sample_document \<and> nesting_le 64 sample_document \<and>
   json_parse unit_floats (replicate 65 91 @ []) = Fail (TooDeep 64)"
proof -
  obtain p where "json_parse unit_floats (json_write unit_floats sample_document) = Done sample_document p"
    using write_then_parse sample_document_ok MAX_DEPTH_def by metis
  moreover have "list_all scalar (json_write unit_floats sample_document)"
    by (simp add: sample_document_def unit_floats_def write_number_def show_int_def show_nat.simps
        write_string_def write_char_def scalar_def)
  ultimately show ?thesis
    using json_parse_well_formed [of unit_floats "json_write unit_floats sample_document" _ _ "[]"] by blast
qed

text \<open>
  C21. The reader reads back what the writer writes, escapes, nesting and order
  included: a well-formed document whose numbers survive the formatter and the parser of
  the standard library comes back as it was, so writing is injective on such documents.
\<close>

theorem json_write_parse:
  assumes "numbers_ok F v" "json_ok v" "nesting_le 64 v"
  shows "(\<exists>p. json_parse F (json_write F v) = Done v p) \<and>
    (numbers_ok F w \<and> json_ok w \<and> nesting_le 64 w \<and> json_write F w = json_write F v \<longrightarrow> w = v)"
proof -
  have rt: "\<exists>p. json_parse F (json_write F u) = Done u p" if "numbers_ok F u" "json_ok u" "nesting_le 64 u" for u
    using write_then_parse [of F u] that by (simp add: MAX_DEPTH_def)
  then show ?thesis
    using rt [OF assms] by (metis outcome.inject(1))
qed

theorem json_write_parse_witness:
  "\<exists>p. json_parse unit_floats (json_write unit_floats sample_document) = Done sample_document p"
  using json_write_parse [OF sample_document_ok] by blast

text \<open>
  C23. A fixed-width ECDSA signature has one DER form: the converter writes it, in no
  more bytes than the documented bound, and the reader gives the signature back for that
  form and for no other input, into a buffer with any content.
\<close>

theorem ecdsa_der_canonical:
  assumes "signature \<noteq> []" "even (length signature)" "length signature \<le> 248"
    and "length out = length signature" "max_der_len (length signature) \<le> length buf"
    and "length buf < 2 ^ 32" "length input < 2 ^ 32"
  shows "\<exists>der. ecdsa_to_der signature buf = Some (Ok (length der), der @ replicate (length buf - length der) 0) \<and>
    length der \<le> max_der_len (length signature) \<and>
    (ecdsa_from_der input out = (Ok (), signature) \<longleftrightarrow> input = der)"
proof -
  have b: "length (ecdsa_der signature) \<le> max_der_len (length signature)"
    using ecdsa_der_bound assms(1-3) .
  have f: "der_fits (length signature)" "der_fits (length input)" "der_fits (length buf)"
    using assms(3,6,7) by (simp_all add: der_fits_def)
  have "ecdsa_to_der signature buf =
      Some (Ok (length (ecdsa_der signature)), ecdsa_der signature @ replicate (length buf - length (ecdsa_der signature)) 0)"
    unfolding writes_ecdsa(1) [OF assms(1,2)]
    by (rule with_writer_writes(1) [OF writes_ecdsa(2) [OF assms(1,2)] f(3)]) (use b assms(5) in linarith)
  then show ?thesis
    using b ecdsa_from_der_iff [OF assms(4) f(1,2)] assms(1,2) by blast
qed

theorem ecdsa_der_canonical_witness:
  "\<exists>der. ecdsa_to_der [0x80, 0x01] (replicate 10 7) = Some (Ok (length der), der @ replicate (10 - length der) 0) \<and>
    length der \<le> 10 \<and> (ecdsa_from_der [0x30, 0x07, 0x02, 0x02, 0x00, 0x80, 0x02, 0x01, 0x01] [9, 9] = (Ok (), [0x80, 0x01]) \<longleftrightarrow>
      [0x30, 0x07, 0x02, 0x02, 0x00, 0x80, 0x02, 0x01, 0x01] = der)"
  using ecdsa_der_canonical [of "[0x80, 0x01]" "[9, 9]" "replicate 10 7" "[0x30, 0x07, 0x02, 0x02, 0x00, 0x80, 0x02, 0x01, 0x01]"]
  by (simp add: max_der_len_def)

text \<open>
  C20. The parser of public keys accepts exactly what the writer writes: for a key of a
  supported algorithm, an input is parsed to the key if and only if the key has the form
  its algorithm asks for and writing it, into a buffer of that size, gives the input. So
  no key has two encodings.
\<close>

theorem public_key_parse_iff_write:
  assumes "length input < 2 ^ 32" "length out = length input"
  shows "pk_from_der input = Ok k \<and> (\<nexists>oid. k = PK_Unsupported oid) \<longleftrightarrow>
    pk_ok k \<and> pk_to_der k out = Some (Ok (length input), input)"
proof -
  have f: "der_fits (length out)" "der_fits (length input)"
    using assms by (simp_all add: der_fits_def)
  have w: "pk_to_der k out = Some (Ok (length input), input) \<longleftrightarrow> input = pk_der k" if "pk_ok k"
    using writer_exact [OF writes_public_key [OF that] f(1), of input] assms(2) unfolding pk_to_der_eq by auto
  show ?thesis
  proof
    assume "pk_from_der input = Ok k \<and> (\<nexists>oid. k = PK_Unsupported oid)"
    then show "pk_ok k \<and> pk_to_der k out = Some (Ok (length input), input)"
      using pk_from_der_sound [of input k] w by auto
  next
    assume k: "pk_ok k \<and> pk_to_der k out = Some (Ok (length input), input)"
    then show "pk_from_der input = Ok k \<and> (\<nexists>oid. k = PK_Unsupported oid)"
      using pk_from_der_complete [of k] w f(2) by auto
  qed
qed

theorem public_key_parse_iff_write_witness:
  "pk_from_der (pk_der (PK_Ed25519 (replicate 32 5))) = Ok (PK_Ed25519 (replicate 32 5))"
proof -
  let ?k = "PK_Ed25519 (replicate 32 5)"
  have n: "length (pk_der ?k) = 44"
    by (simp add: pk_der_def der_spki_def der_algorithm_def der_bit_string_def der_element_def der_len_def OID_ED25519_def)
  then have "pk_to_der ?k (replicate 44 0) = Some (Ok 44, pk_der ?k)"
    using writer_exact [OF writes_public_key, of ?k "replicate 44 0" "pk_der ?k"] by (simp add: pk_to_der_eq)
  then show ?thesis
    using public_key_parse_iff_write [of "pk_der ?k" "replicate 44 0" ?k] n by simp
qed


text \<open>
  C16. A cipher any of the three AES types makes decrypts what it encrypts and encrypts what
  it decrypts, block by block, and its batch operation, which sends groups of four blocks through
  the bitsliced planes, gives for every number of blocks what encrypting them one by one gives.
\<close>

theorem aes_inverse_and_batch:
  assumes "aes_new v m key = Ok c"
  shows "(length block = 16 \<and> keys_encrypt_block c block = (Ok (), x) \<longrightarrow>
      keys_decrypt_block c x = (Ok (), block) \<and> length x = 16) \<and>
    (length block = 16 \<and> keys_decrypt_block c block = (Ok (), y) \<longrightarrow> keys_encrypt_block c y = (Ok (), block)) \<and>
    (length data mod 16 = 0 \<longrightarrow>
      keys_encrypt_blocks c data = each_block (keys_encrypt_block c) (chunks 16 data) \<and>
      fst (keys_encrypt_blocks c data) = Ok () \<and> length (snd (keys_encrypt_blocks c data)) = length data)"
  using assms aes.new_good [of v m key c] aes.inverse_blocks [of c block v] aes.batch [of c data v]
  by (auto simp: aes_ops_def)

theorem aes_inverse_and_batch_witness:
  "\<exists>c. aes_new Aes128 (module_initial False True) (replicate 16 0) = Ok c \<and>
    keys_encrypt_blocks c (replicate 80 1) = each_block (keys_encrypt_block c) (chunks 16 (replicate 80 1)) \<and>
    keys_decrypt_block c (snd (keys_encrypt_block c (replicate 16 7))) = (Ok (), replicate 16 7) \<and>
    keys_encrypt_block c (snd (keys_decrypt_block c (replicate 16 7))) = (Ok (), replicate 16 7)"
proof -
  obtain sched where "schedule_expand (replicate 16 0) = Ok sched"
    using schedule_expand_iff [of "replicate 16 0"] by auto
  then have n: "aes_new Aes128 (module_initial False True) (replicate 16 0) = Ok (PortableKeys sched)"
    by (simp add: aes_new_def keys_expand_def Aes128_def operational_Ok_iff [THEN iffD2] module_initial_def STARTUP_GATE_def)
  let ?c = "PortableKeys sched" and ?b = "replicate 16 (7 :: u8)"
  have ok: "keys_encrypt_block ?c ?b = (Ok (), aes_encrypt sched ?b)" "keys_decrypt_block ?c ?b = (Ok (), aes_decrypt sched ?b)"
    by (simp_all only: keys_encrypt_block.simps keys_decrypt_block.simps aes_blocks length_replicate)
  show ?thesis
    using n ok aes_inverse_and_batch [OF n, of ?b "aes_encrypt sched ?b" "aes_decrypt sched ?b" "replicate 80 1"]
    by (intro exI [of _ ?c]) (simp only: length_replicate snd_conv, simp)
qed

text \<open>
  C18. Counter mode over AES is the one of SP 800-38A: block \<open>i\<close> of the message is XORed with
  the encryption of the counter \<open>iv + i\<close> modulo \<open>2^128\<close>, for any length, and doing it twice gives the
  message back. A message padded by PKCS#7, encrypted by block chaining and decrypted is the padded
  message, unpadding it finds the length of the message, and unpadding succeeds exactly on a whole
  number of blocks that end in \<open>p\<close> bytes of value \<open>p\<close>, for \<open>p\<close> from 1 to 16.
\<close>

theorem modes_correct:
  assumes "aes_new v m key = Ok c" "length iv = 16"
  shows "ctr_xor (aes_ops v) m c iv data = (Ok (), ctr_spec (keys_E c) (be_val iv) data) \<and>
    ctr_xor (aes_ops v) m c iv (ctr_spec (keys_E c) (be_val iv) data) = (Ok (), data) \<and>
    (length buf < 2 ^ 64 \<and> pkcs7_pad buf len = Some (Ok n, out) \<longrightarrow>
      (\<exists>ct. cbc_encrypt (aes_ops v) m c iv (take n out) = (Ok (), ct) \<and> length ct = n \<and>
        cbc_decrypt (aes_ops v) m c iv ct = (Ok (), take n out)) \<and>
      len < n \<and> n \<le> len + 16 \<and> take len out = take len buf \<and> pkcs7_unpad (take n out) = Ok len) \<and>
    (pkcs7_unpad other = Ok k \<longleftrightarrow>
      length other mod 16 = 0 \<and> (\<exists>p. 1 \<le> p \<and> p \<le> 16 \<and> k + p = length other \<and> drop k other = replicate p (of_nat p)))"
proof -
  have g: "keys_ok c" and m: "operational m = Ok ()"
    using assms(1) aes_new_ok by (auto simp: aes_new_def bind_result_def split: sum.splits)
  have ctr: "ctr_xor (aes_ops v) m c iv d = (Ok (), ctr_spec (keys_E c) (be_val iv) d)" for d
    by (rule aes.ctr_xor_eq [OF g m assms(2)])
  have cbc: "\<exists>ct. cbc_encrypt (aes_ops v) m c iv (take n out) = (Ok (), ct) \<and> length ct = n \<and>
      cbc_decrypt (aes_ops v) m c iv ct = (Ok (), take n out)"
    if "n mod 16 = 0" "length (take n out) = n"
    by (rule aes.cbc_decrypt_encrypt [OF g m m assms(2), of "take n out" v]) (use that in auto)
  show ?thesis
  proof (intro conjI impI)
    assume "length buf < 2 ^ 64 \<and> pkcs7_pad buf len = Some (Ok n, out)"
    then have p: "n mod 16 = 0" "len < n" "n \<le> len + 16" "length (take n out) = n" "take len out = take len buf"
      "pkcs7_unpad (take n out) = Ok len"
      using pkcs7_pad_unpad [of buf len n out] by auto
    show "\<exists>ct. cbc_encrypt (aes_ops v) m c iv (take n out) = (Ok (), ct) \<and> length ct = n \<and>
        cbc_decrypt (aes_ops v) m c iv ct = (Ok (), take n out)"
      using p(1,4) by (rule cbc)
    show "len < n" "n \<le> len + 16" "take len out = take len buf" "pkcs7_unpad (take n out) = Ok len"
      by (fact p)+
  qed (simp_all only: ctr aes.ctr_spec_twice [OF g] pkcs7_unpad_iff)
qed

theorem modes_correct_witness:
  "\<exists>c ct. aes_new Aes256 (module_initial False True) (replicate 32 3) = Ok c \<and>
    ctr_xor (aes_ops Aes256) (module_initial False True) c (replicate 16 255) [1, 2, 3] =
      (Ok (), ctr_spec (keys_E c) (be_val (replicate 16 255)) [1, 2, 3]) \<and>
    cbc_decrypt (aes_ops Aes256) (module_initial False True) c (replicate 16 255) ct = (Ok (), replicate 2 7 @ replicate 14 14) \<and>
    pkcs7_unpad (replicate 2 7 @ replicate 14 14) = Ok 2"
proof -
  obtain sched where "schedule_expand (replicate 32 3) = Ok sched"
    using schedule_expand_iff [of "replicate 32 3"] by auto
  then have n: "aes_new Aes256 (module_initial False True) (replicate 32 3) = Ok (PortableKeys sched)"
    by (simp add: aes_new_def keys_expand_def Aes256_def operational_Ok_iff [THEN iffD2] module_initial_def STARTUP_GATE_def)
  have p: "pkcs7_pad (replicate 16 7) 2 = Some (Ok 16, replicate 2 7 @ replicate 14 14)"
    by (simp add: pkcs7_pad_def AES_BLOCK_LEN_def write_at_def)
  have "take 16 (replicate 2 7 @ replicate 14 14) = replicate 2 7 @ replicate 14 (14 :: u8)" "length (replicate 16 (255 :: u8)) = 16"
    by simp_all
  then show ?thesis
    using n p modes_correct [OF n, of "replicate 16 255" "[1, 2, 3]" "replicate 16 7" 2 16 "replicate 2 7 @ replicate 14 14" "[]" 0]
    by (intro exI [of _ "PortableKeys sched"]) (simp only: length_replicate, simp, blast)
qed

text \<open>
  C17. Unwrapping succeeds with a key exactly on the ciphertext that wrapping the key under the
  same key-encryption key gives, in both variants: nothing else passes the check value, the length and
  the padding. The padded variant recovers the length with the bytes. A refused unwrap leaves the
  output buffer as it came.
\<close>

theorem key_wrap_exact:
  assumes "operational m = Ok ()" "length out = length ct"
  shows "(length buf = length pt \<longrightarrow> (kw_unwrap V m kek ct buf = (Ok (), pt) \<longleftrightarrow> kw_wrap V m kek pt out = (Ok (), ct))) \<and>
    (length ct \<le> length buf + 8 \<longrightarrow>
      ((\<exists>out'. kwp_unwrap V m kek ct buf = (Ok (length pt), out') \<and> take (length pt) out' = pt) \<longleftrightarrow>
       kwp_wrap V m kek pt out = (Ok (), ct))) \<and>
    (kw_unwrap V m kek ct buf = (Inl e, buf') \<longrightarrow> buf' = buf) \<and>
    (kwp_unwrap V m kek ct buf = (Inl e, buf') \<longrightarrow> buf' = buf)"
  using kw_exact [OF assms(1) assms(1) _ assms(2) refl] kwp_exact [OF assms(1) assms(1) _ assms(2) refl]
  by (auto simp: kw_unwrap_def kwp_unwrap_def split: sum.splits)

theorem key_wrap_exact_witness:
  "\<exists>ct out'. kwp_wrap Aes128Kw (module_initial False True) (replicate 16 0) [1, 2, 3] (replicate 16 0) = (Ok (), ct) \<and>
    kwp_unwrap Aes128Kw (module_initial False True) (replicate 16 0) ct (replicate 8 9) = (Ok 3, out') \<and> take 3 out' = [1, 2, 3]"
proof -
  let ?m = "module_initial False True"
  have m: "operational ?m = Ok ()"
    by (simp add: operational_Ok_iff module_initial_def STARTUP_GATE_def)
  have b: "blocks_of (length [1, 2, 3 :: u8]) = 1"
    by (simp add: blocks_of_def)
  obtain c where c: "bc_new (kw_ops Aes128Kw) ?m (replicate 16 0) = Ok c"
    using schedule_expand_iff [of "replicate 16 0"] m
    by (auto simp: aes_ops_def Aes128Kw_def aes_new_def keys_expand_def Aes128_def bind_result_def split: sum.splits)
  have "kw_shape 1 (kwp_input [1, 2, 3])"
    using padded_blocks [of "[1, 2, 3]"] b by (simp add: kw_shape_def kwp_input_def KWP_IV_def length_padded)
  from aes.kwp_inverse(1) [OF aes.new_good [OF c] this, where v = Aes128]
  obtain t where t: "kwp_seal (aes_ops Aes128) c 1 (kwp_input [1, 2, 3]) = Ok t" "kw_shape 1 t"
    by blast
  then have "kw_shape 1 (fst t, snd t)"
    by simp
  note l = kw_shape_concat(1) [OF this]
  have w: "kwp_wrap Aes128Kw ?m (replicate 16 0) [1, 2, 3] (replicate 16 0) = (Ok (), fst t @ concat (snd t))"
    unfolding kwp_wrap_ok_iff [OF m]
    using c t(1) b by (intro exI [of _ c] exI [of _ 1] exI [of _ t]) (simp add: Aes128Kw_def)
  show ?thesis
    using w key_wrap_exact [OF m, of "replicate 16 0" "fst t @ concat (snd t)" "replicate 8 9" "[1, 2, 3]" Aes128Kw "replicate 16 0"] l
    by (auto simp: numeral_3_eq_3)
qed


text \<open>
  C8. Two polynomials of ML-KEM with coefficients up to 9464 in size are transformed, multiplied in
  the transform domain and transformed back without any overflow of the 16- and 32-bit arithmetic,
  and what comes back is their product modulo \<open>X^256 + 1\<close>, coefficient by coefficient modulo 3329.
  The accumulating product adds the product, as long as the sums fit.
\<close>

theorem mlkem_multiplication:
  assumes "bounded 9464 a" "bounded 9464 b"
  shows "\<exists>x y p r. poly_ntt a = Some x \<and> poly_ntt b = Some y \<and> poly_basemul x y = Some p \<and> poly_inv_ntt p = Some r \<and>
    bounded 3329 r \<and> (\<forall>i<256. r ! i mod KEM_Q = schoolbook a b i mod KEM_Q) \<and>
    (\<forall>c. length c = 256 \<and> (\<forall>i<256. i16 (c ! i + p ! i) = Some (c ! i + p ! i)) \<longrightarrow> basemul_add c x y = Some (map2 (+) c p))"
proof -
  obtain x y p r where r: "poly_ntt a = Some x" "poly_ntt b = Some y" "poly_basemul x y = Some p" "poly_inv_ntt p = Some r"
    "bounded 3329 r" "\<And>i. i < 256 \<Longrightarrow> r ! i mod KEM_Q = schoolbook a b i mod KEM_Q" and small: "bounded 3329 x" "bounded 3329 y"
    by (rule ntt_product_ok [OF assms]) (rule that)
  have "basemul_add c x y = Some (map2 (+) c p)" if "length c = 256 \<and> (\<forall>i<256. i16 (c ! i + p ! i) = Some (c ! i + p ! i))" for c
    using basemul_add_ok [OF small conjunct1 [OF that] r(3)] that by presburger
  then show ?thesis
    using r(1-5) by (intro exI [of _ x] exI [of _ y] exI [of _ p] exI [of _ r] conjI allI impI r(6))
qed

theorem mlkem_multiplication_witness:
  "\<exists>x y p r. poly_ntt (replicate 256 9464) = Some x \<and> poly_ntt (replicate 256 (- 9464)) = Some y \<and> poly_basemul x y = Some p \<and>
    poly_inv_ntt p = Some r \<and> r ! 255 mod KEM_Q = schoolbook (replicate 256 9464) (replicate 256 (- 9464)) 255 mod KEM_Q"
proof -
  have "bounded 9464 (replicate 256 9464)" "bounded 9464 (replicate 256 (- 9464))"
    by (simp_all add: bounded_def)
  from mlkem_multiplication [OF this] show ?thesis
    by (metis numeral_less_iff semiring_norm(76,78,79,80,81))
qed

text \<open>
  C9. The bytes of an encoded polynomial are the little-endian number whose digits to the base
  \<open>2^d\<close> are its coefficients, for every width from 1 to 12, whichever of the two packing routines the
  width takes; decoding gives the low \<open>d\<close> bits of every coefficient back, reduced when \<open>d\<close> is 12. The modulus
  check accepts a byte string of any length exactly when it is a sequence of encoded polynomials
  each of which decoding and encoding leaves unchanged, as FIPS 203 requires.
\<close>

theorem mlkem_packing:
  assumes "length p = 256" "length out = 32 * d" "length q = 256" "1 \<le> d" "d \<le> 12" "length out' = 384"
  shows "(\<exists>bs. byte_encode p d out = Some bs \<and> length bs = 32 * d \<and> int (le_val bs) = field_val d p \<and>
      byte_decode bs d q = Some (map (\<lambda>x. if d = 12 then x mod 4096 mod KEM_Q else x mod 2 ^ d) p)) \<and>
    (all_below_q_12 data \<longleftrightarrow> length data mod 384 = 0 \<and>
      (\<forall>i<length data div 384. let e = take 384 (drop (384 * i) data)
         in (byte_decode e 12 q \<bind> (\<lambda>p. byte_encode p 12 out')) = Some e))"
proof -
  obtain bs where bs: "byte_encode p d out = Some bs" "length bs = 32 * d" "int (le_val bs) = field_val d p"
    using byte_encode_ok [OF assms(1,2,4,5)] .
  obtain bs' where "byte_encode p d out = Some bs'"
    "byte_decode bs' d q = Some (map (\<lambda>x. if d = 12 then x mod 4096 mod KEM_Q else x mod 2 ^ d) p)"
    using decode_encode [OF assms(1-5)] .
  then have "byte_decode bs d q = Some (map (\<lambda>x. if d = 12 then x mod 4096 mod KEM_Q else x mod 2 ^ d) p)"
    using bs(1) by (simp only: option.inject)
  then show ?thesis
    using bs by (intro conjI exI [of _ bs] all_below_round_trip [OF assms(3,6)])
qed

theorem mlkem_packing_witness:
  "\<exists>bs. byte_encode (replicate 256 5) 3 (replicate 96 0) = Some bs \<and> byte_decode bs 3 POLY_ZERO = Some (replicate 256 5)"
  using mlkem_packing [of "replicate 256 5" "replicate 96 0" 3 POLY_ZERO "replicate 384 0" "[]"]
  by (auto simp: POLY_ZERO_def KEM_N_def)

text \<open>
  C19. Compression is the quotient \<open>2^d x / q\<close> rounded to the nearest integer, modulo \<open>2^d\<close>: the estimate by
  a multiplication and its masked correction are exact for every coefficient and every width, and no
  step overflows. A polynomial compressed, packed, unpacked and decompressed comes back with each
  coefficient, modulo \<open>q\<close>, within \<open>q / 2^(d + 1)\<close> rounded.
\<close>

theorem mlkem_compression:
  assumes "length p = 256" "\<forall>x\<in>set p. 0 \<le> x \<and> x < KEM_Q" "1 \<le> d" "d \<le> 11" "length out = 32 * d" "length q = 256"
  shows "\<exists>bs r. compress_encode p d out = Some bs \<and> decode_decompress bs d q = Some r \<and> length bs = 32 * d \<and> length r = 256 \<and>
    (\<forall>i<256. compress (p ! i) d = Some ((2 * 2 ^ d * p ! i + KEM_Q) div (2 * KEM_Q) mod 2 ^ d) \<and>
      (\<bar>p ! i - r ! i\<bar> \<le> (KEM_Q + 2 ^ d) div (2 * 2 ^ d) \<or> \<bar>p ! i - KEM_Q - r ! i\<bar> \<le> (KEM_Q + 2 ^ d) div (2 * 2 ^ d)))"
proof -
  obtain bs r where r: "compress_encode p d out = Some bs" "length bs = 32 * d" "decode_decompress bs d q = Some r" "length r = 256"
    "\<And>i. i < 256 \<Longrightarrow> \<bar>p ! i - r ! i\<bar> \<le> (KEM_Q + 2 ^ d) div (2 * 2 ^ d) \<or> \<bar>p ! i - KEM_Q - r ! i\<bar> \<le> (KEM_Q + 2 ^ d) div (2 * 2 ^ d)"
    using compressed_round_trip [OF assms] by blast
  moreover have "compress (p ! i) d = Some ((2 * 2 ^ d * p ! i + KEM_Q) div (2 * KEM_Q) mod 2 ^ d)" if "i < 256" for i
    using compress_rounds [of "p ! i" d] assms(1-4) that by simp
  ultimately show ?thesis
    by blast
qed

theorem mlkem_compression_witness:
  "\<exists>bs r. compress_encode (replicate 256 3328) 4 (replicate 128 0) = Some bs \<and> decode_decompress bs 4 POLY_ZERO = Some r \<and>
    length r = 256"
  using mlkem_compression [of "replicate 256 3328" 4 "replicate 128 0" POLY_ZERO]
  by (auto simp: POLY_ZERO_def KEM_N_def KEM_Q_def)

section \<open>SHA-3\<close>

text \<open>
  C7. SHA-3 and SHAKE are the functions of FIPS 202. Absorb a message in any pieces and the
  digest, of each of the four lengths, is the standard's of the whole; read a SHAKE stream
  in any pieces and they are the consecutive pieces of the standard's one stream, each of
  the length asked for. The reference appends the suffix and \<open>pad10*1\<close> bit by bit, and its
  permutation is the five steps with offsets walked and round constants generated by the
  shift register; the code holds six lanes complemented, folds theta into rho and moves
  whole lanes where it can.
\<close>

theorem sha3_correct:
  "digest_finalize sha3_224 (fold (digest_update sha3_224) parts (digest_new sha3_224)) = fips_sha3 28 (concat parts)
 \<and> digest_finalize sha3_256 (fold (digest_update sha3_256) parts (digest_new sha3_256)) = fips_sha3 32 (concat parts)
 \<and> digest_finalize sha3_384 (fold (digest_update sha3_384) parts (digest_new sha3_384)) = fips_sha3 48 (concat parts)
 \<and> digest_finalize sha3_512 (fold (digest_update sha3_512) parts (digest_new sha3_512)) = fips_sha3 64 (concat parts)
 \<and> (let pieces = read_pieces ns (finalize_reader (fold (xof_update shake128) parts (xof_new shake128)))
    in concat pieces = fips_shake 128 (concat parts) (sum_list ns) \<and> map length pieces = ns)
 \<and> (let pieces = read_pieces ns (finalize_reader (fold (xof_update shake256) parts (xof_new shake256)))
    in concat pieces = fips_shake 256 (concat parts) (sum_list ns) \<and> map length pieces = ns)"
  unfolding Let_def shake128_def shake256_def
  by (intro conjI sha3_224.streaming sha3_256.streaming sha3_384.streaming sha3_512.streaming
      conjunct1 [OF shake_reads] conjunct2 [OF shake_reads]) simp_all

end
